(* ===== verification/Prelude.thy ===== *)
theory Prelude
  imports Main "HOL-Library.Word"
begin

text \<open>
  Shared vocabulary of the development: the Go machine types the sources use, the
  comma-ok and (value, error) conventions as sums and options, string helpers of the
  standard package \<^verbatim>\<open>strings\<close>, and the generic lemmas on words, maps and lists that the
  component theories use through the simplifier.
\<close>

section \<open>Machine types\<close>

text \<open>
  \<^verbatim>\<open>uint64\<close> counters (route epochs, admission sequences, revisions) are 64-bit words, so
  that increments wrap exactly where the code's do. \<^verbatim>\<open>time.Time\<close> is the number of
  nanoseconds since Go's zero time, so \<^verbatim>\<open>t.IsZero()\<close> is equality with 0.
  \<^verbatim>\<open>time.Duration\<close> is a signed 64-bit count of nanoseconds: an \<open>int\<close> whose sums are
  wrapped by \<open>wrap64\<close>.
\<close>

type_synonym u64 = "64 word"
type_synonym go_time = int
type_synonym duration = int

definition wrap64 :: "int \<Rightarrow> int" where
  "wrap64 x = (x + 2 ^ 63) mod 2 ^ 64 - 2 ^ 63"

definition dur_ok :: "int \<Rightarrow> bool" where
  "dur_ok x \<longleftrightarrow> - (2 ^ 63) \<le> x \<and> x < 2 ^ 63"

definition time_is_zero :: "go_time \<Rightarrow> bool" where
  "time_is_zero t \<longleftrightarrow> t = 0"

section \<open>Collections of facts\<close>

named_theorems spec_simps \<open>characteristic equations of the operations\<close>
named_theorems inv_rules \<open>preservation of the component invariants\<close>

section \<open>Words\<close>

text \<open>Successor epochs: the increment is strict unless the counter is exhausted.\<close>

lemma u64_less_Suc: "x \<noteq> - 1 \<Longrightarrow> x < x + (1::u64)"
  using inc_less_eq_triv_imp verit_comp_simplify1(3) by blast

lemma unat_u64_Suc: "x \<noteq> - 1 \<Longrightarrow> unat (x + (1::u64)) = Suc (unat x)"
  using unatSuc [of x] by (simp add: add.commute eq_neg_iff_add_eq_0)

lemma unat_u64_Suc_le: "unat (x + (1::u64)) \<le> Suc (unat x)"
  by (cases "x = - 1") (simp_all add: unat_u64_Suc)

lemma u64_not_max: "unat (x::u64) + 1 < 2 ^ 64 \<Longrightarrow> x \<noteq> - 1"
  by (auto simp: unsigned_minus_1_eq_mask mask_eq_exp_minus_1)

lemma unat_u64_add:
  "unat (x::u64) + n < 2 ^ 64 \<Longrightarrow> unat (x + of_nat n) = unat x + n"
  by (simp add: unat_word_ariths unat_of_nat take_bit_eq_mod)

lemma u64_add_mono:
  "unat (x::u64) + 2 < 2 ^ 64 \<Longrightarrow> x < x + 1 \<and> x + 1 < x + 2 \<and> x < x + 2"
  by (simp add: word_less_nat_alt unat_word_ariths)

section \<open>Durations\<close>

lemma wrap64_id [simp]: "dur_ok x \<Longrightarrow> wrap64 x = x"
  by (simp add: wrap64_def dur_ok_def)

lemma wrap64_range: "dur_ok (wrap64 x)"
proof -
  have "0 \<le> (x + 2 ^ 63) mod 2 ^ 64" "(x + 2 ^ 63) mod 2 ^ 64 < 2 ^ 64" by simp_all
  then show ?thesis by (simp add: wrap64_def dur_ok_def)
qed

section \<open>Strings\<close>

text \<open>
  \<^verbatim>\<open>strings.HasPrefix\<close>, \<^verbatim>\<open>strings.HasSuffix\<close>, and the part of a string after the last
  separator (\<^verbatim>\<open>s[strings.LastIndex(s, sep)+1:]\<close>, the whole string when the separator does
  not occur).
\<close>

fun has_prefix :: "string \<Rightarrow> string \<Rightarrow> bool" where
  "has_prefix s [] \<longleftrightarrow> True"
| "has_prefix [] (p # ps) \<longleftrightarrow> False"
| "has_prefix (c # cs) (p # ps) \<longleftrightarrow> c = p \<and> has_prefix cs ps"

definition has_suffix :: "string \<Rightarrow> string \<Rightarrow> bool" where
  "has_suffix s suf \<longleftrightarrow> has_prefix (rev s) (rev suf)"

fun after_last :: "char \<Rightarrow> string \<Rightarrow> string" where
  "after_last sep [] = []"
| "after_last sep (c # cs) =
     (if sep \<in> set cs then after_last sep cs else if c = sep then cs else c # cs)"

lemma has_prefix_iff: "has_prefix s p \<longleftrightarrow> (\<exists>r. s = p @ r)"
  by (induction s p rule: has_prefix.induct) auto

lemma has_suffix_iff: "has_suffix s p \<longleftrightarrow> (\<exists>r. s = r @ p)"
proof -
  have "(\<exists>r. rev s = rev p @ r) \<longleftrightarrow> (\<exists>r. s = r @ p)"
    by (metis rev_append rev_rev_ident)
  then show ?thesis by (simp add: has_suffix_def has_prefix_iff)
qed

lemma after_last_notin: "sep \<notin> set (after_last sep s)"
  by (induction sep s rule: after_last.induct) auto

lemma after_last_append: "sep \<notin> set t \<Longrightarrow> after_last sep (s @ sep # t) = t"
proof (induction s)
  case Nil
  then show ?case by simp
next
  case (Cons a s)
  then show ?case by simp
qed

text \<open>\<^verbatim>\<open>strconv.FormatUint(n, 10)\<close>.\<close>

fun dec_string :: "nat \<Rightarrow> string" where
  "dec_string n = (if n < 10 then [char_of (48 + n)]
     else dec_string (n div 10) @ [char_of (48 + n mod 10)])"

declare dec_string.simps [simp del]

section \<open>Maps and lists\<close>

text \<open>Go's lookup of a missing key yields the zero value of the element type.\<close>

definition get_or :: "'v \<Rightarrow> ('k \<Rightarrow> 'v option) \<Rightarrow> 'k \<Rightarrow> 'v" where
  "get_or z m k = (case m k of None \<Rightarrow> z | Some v \<Rightarrow> v)"

lemma get_or_upd [simp]: "get_or z (m(k \<mapsto> v)) k' = (if k' = k then v else get_or z m k')"
  by (simp add: get_or_def)

lemma get_or_Some [simp]: "m k = Some v \<Longrightarrow> get_or z m k = v"
  by (simp add: get_or_def)

lemma get_or_None [simp]: "m k = None \<Longrightarrow> get_or z m k = z"
  by (simp add: get_or_def)

section \<open>Runs of operations\<close>

text \<open>
  A component's history is a list of operations folded over its state. A relation between
  states that is reflexive, transitive and established by every allowed operation holds
  between the ends of every history of allowed operations.
\<close>

locale monotone_steps =
  fixes step :: "'o \<Rightarrow> 's \<Rightarrow> 's"
    and R :: "'s \<Rightarrow> 's \<Rightarrow> bool"
    and allowed :: "'o \<Rightarrow> bool"
  assumes R_refl: "R s s"
    and R_trans: "R a b \<Longrightarrow> R b c \<Longrightarrow> R a c"
    and R_step: "allowed x \<Longrightarrow> R s (step x s)"
begin

lemma run: "(\<forall>x\<in>set xs. allowed x) \<Longrightarrow> R s (fold step xs s)"
proof (induction xs arbitrary: s)
  case Nil
  then show ?case by (simp add: R_refl)
next
  case (Cons x xs)
  then have "R s (step x s)" and "R (step x s) (fold step xs (step x s))"
    by (simp_all add: R_step)
  then show ?case using R_trans by simp
qed

end

text \<open>A state invariant kept by every allowed operation is the special case of implication.\<close>

locale invariant_steps =
  fixes step :: "'o \<Rightarrow> 's \<Rightarrow> 's"
    and inv :: "'s \<Rightarrow> bool"
    and allowed :: "'o \<Rightarrow> bool"
  assumes inv_step: "allowed x \<Longrightarrow> inv s \<Longrightarrow> inv (step x s)"

sublocale invariant_steps \<subseteq> mono: monotone_steps step "\<lambda>s s'. inv s \<longrightarrow> inv s'" allowed
  by unfold_locales (auto simp: inv_step)

context invariant_steps
begin

lemma run_inv: "(\<forall>x\<in>set xs. allowed x) \<Longrightarrow> inv s \<Longrightarrow> inv (fold step xs s)"
  using mono.run by blast

end

end
