(* ===== verification/Cells_Table.thy ===== *)
theory Cells_Table
  imports Prelude
begin

text \<open>
  The routing table of the package \<^verbatim>\<open>cells\<close> (\<^verbatim>\<open>src/cells/route.go\<close>, \<^verbatim>\<open>memtable.go\<close>,
  \<^verbatim>\<open>filetable.go\<close>): the route record and its life cycle states, the in-memory table with its
  watch channels, the JSON-file table with its poll-based watch, and the interface
  \<^verbatim>\<open>RoutingTable\<close> as a locale that both implement.
\<close>

section \<open>Errors of the package\<close>

text \<open>
  The sentinel errors are constants, \<open>Wrap\<close> is \<^verbatim>\<open>fmt.Errorf\<close> with a \<^verbatim>\<open>%w\<close> verb (the text is
  kept as a tag only), \<open>Join\<close> is \<^verbatim>\<open>errors.Join\<close>, \<open>CohortErr\<close> is \<^verbatim>\<open>*CohortMoveError\<close> and
  \<open>External\<close> any error a backend returns that is none of these. \<open>errors_is\<close> walks the chain
  as \<^verbatim>\<open>errors.Is\<close> does.
\<close>

datatype cerr =
    ErrNoRoute | ErrCASConflict | ErrEpochRegression | ErrFenceRegression
  | ErrNoRouteToMove | ErrMoveDeadline | ErrSameCell | ErrBudgetExceeded | ErrNoCells
  | ErrTenantDraining | ErrStaleRouteEpoch | CtxErr
  | External string
  | Wrap string cerr
  | Join cerr cerr
  | CohortErr string string cerr "string list" "(string \<times> cerr) list"

fun errors_is :: "cerr \<Rightarrow> cerr \<Rightarrow> bool" where
  "errors_is (Wrap m e) t \<longleftrightarrow> Wrap m e = t \<or> errors_is e t"
| "errors_is (Join e f) t \<longleftrightarrow> Join e f = t \<or> errors_is e t \<or> errors_is f t"
| "errors_is (CohortErr c a e r es) t \<longleftrightarrow> CohortErr c a e r es = t \<or> errors_is e t"
| "errors_is e t \<longleftrightarrow> e = t"

section \<open>Routes\<close>

definition DefaultCellID :: string where
  "DefaultCellID = ''default''"

datatype State =
    StateUnknown | StateActive | StateQuiescing | StateDraining | StateCopying
  | StateCommitting | StateActiveNew | StateAborted

fun AdmitsNew :: "State \<Rightarrow> bool" where
  "AdmitsNew StateActive = True"
| "AdmitsNew StateActiveNew = True"
| "AdmitsNew StateAborted = True"
| "AdmitsNew StateUnknown = True"
| "AdmitsNew _ = False"

fun IsMoving :: "State \<Rightarrow> bool" where
  "IsMoving StateQuiescing = True"
| "IsMoving StateDraining = True"
| "IsMoving StateCopying = True"
| "IsMoving StateCommitting = True"
| "IsMoving _ = False"

fun State_String :: "State \<Rightarrow> string" where
  "State_String StateActive = ''ACTIVE''"
| "State_String StateQuiescing = ''QUIESCING''"
| "State_String StateDraining = ''DRAINING''"
| "State_String StateCopying = ''COPYING''"
| "State_String StateCommitting = ''COMMITTING''"
| "State_String StateActiveNew = ''ACTIVE_NEW''"
| "State_String StateAborted = ''ABORTED''"
| "State_String StateUnknown = ''UNKNOWN''"

datatype EventPolicy = PolicyNormal | PolicyPause | PolicyDrainQueue

record TenantRoute =
  rTenantID :: string
  RouteEpoch :: u64
  ActiveCell :: string
  SourceCell :: string
  TargetCell :: string
  rState :: State
  rBarrierID :: string
  BarrierEpoch :: u64
  rEventPolicy :: EventPolicy
  EventEpoch :: u64
  SourceDataHWM :: u64
  SourceEventHWM :: u64
  ControllerClass :: string
  rDeadline :: go_time
  LastOperator :: string

definition zero_route :: TenantRoute where
  "zero_route = \<lparr>rTenantID = [], RouteEpoch = 0, ActiveCell = [], SourceCell = [],
     TargetCell = [], rState = StateUnknown, rBarrierID = [], BarrierEpoch = 0,
     rEventPolicy = PolicyNormal, EventEpoch = 0, SourceDataHWM = 0, SourceEventHWM = 0,
     ControllerClass = [], rDeadline = 0, LastOperator = []\<rparr>"

definition IsZero :: "TenantRoute \<Rightarrow> bool" where
  "IsZero r \<longleftrightarrow> rTenantID r = [] \<and> RouteEpoch r = 0 \<and> rState r = StateUnknown"

record RouteEvent =
  evRoute :: TenantRoute
  evTenantID :: string
  evDeleted :: bool
  evRevision :: u64

section \<open>The in-memory table\<close>

text \<open>
  A watch channel is its buffer, oldest event first. A send on a full buffer takes the
  \<^verbatim>\<open>default\<close> branch of the \<^verbatim>\<open>select\<close> and drops the event.
\<close>

definition memWatchBuffer :: nat where
  "memWatchBuffer = 64"

record MemTable =
  routes :: "string \<Rightarrow> TenantRoute option"
  revision :: u64
  watchers :: "nat \<Rightarrow> RouteEvent list option"
  nextW :: nat

definition NewMemTable :: MemTable where
  "NewMemTable = \<lparr>routes = Map.empty, revision = 0, watchers = Map.empty, nextW = 0\<rparr>"

definition chan_send :: "RouteEvent \<Rightarrow> RouteEvent list \<Rightarrow> RouteEvent list" where
  "chan_send ev buf = (if length buf < memWatchBuffer then buf @ [ev] else buf)"

definition mem_broadcast :: "RouteEvent \<Rightarrow> MemTable \<Rightarrow> MemTable" where
  "mem_broadcast ev t = t\<lparr>watchers := (\<lambda>i. map_option (chan_send ev) (watchers t i))\<rparr>"

definition mem_Get :: "string \<Rightarrow> MemTable \<Rightarrow> cerr + TenantRoute" where
  "mem_Get tenantID t =
     (case routes t tenantID of None \<Rightarrow> Inl ErrNoRoute | Some r \<Rightarrow> Inr r)"

definition mem_CompareAndSet ::
  "TenantRoute \<Rightarrow> TenantRoute \<Rightarrow> MemTable \<Rightarrow> cerr option \<times> MemTable" where
  "mem_CompareAndSet expect nxt t =
     (if rTenantID nxt = [] then (Some ErrCASConflict, t)
      else
        (let store =
           (let rev = revision t + 1;
                t' = t\<lparr>routes := (routes t)(rTenantID nxt \<mapsto> nxt), revision := rev\<rparr>
            in (None, mem_broadcast \<lparr>evRoute = nxt, evTenantID = rTenantID nxt,
                                     evDeleted = False, evRevision = rev\<rparr> t'))
         in case routes t (rTenantID nxt) of
              None \<Rightarrow> if \<not> IsZero expect then (Some ErrCASConflict, t) else store
            | Some cur \<Rightarrow>
                if RouteEpoch cur \<noteq> RouteEpoch expect \<or> rState cur \<noteq> rState expect
                then (Some ErrCASConflict, t)
                else if RouteEpoch nxt < RouteEpoch cur then (Some ErrEpochRegression, t)
                else store))"

definition mem_Delete :: "string \<Rightarrow> MemTable \<Rightarrow> MemTable" where
  "mem_Delete tenantID t =
     (case routes t tenantID of
        None \<Rightarrow> t
      | Some _ \<Rightarrow>
          (let rev = revision t + 1
           in mem_broadcast \<lparr>evRoute = zero_route, evTenantID = tenantID, evDeleted = True,
                             evRevision = rev\<rparr>
                (t\<lparr>routes := (routes t)(tenantID := None), revision := rev\<rparr>)))"

definition mem_Watch :: "MemTable \<Rightarrow> nat \<times> MemTable" where
  "mem_Watch t = (nextW t, t\<lparr>nextW := nextW t + 1, watchers := (watchers t)(nextW t \<mapsto> [])\<rparr>)"

text \<open>The goroutine of \<^verbatim>\<open>Watch\<close> once its context is done: unregister and close.\<close>

definition mem_unwatch :: "nat \<Rightarrow> MemTable \<Rightarrow> MemTable" where
  "mem_unwatch i t = t\<lparr>watchers := (watchers t)(i := None)\<rparr>"

text \<open>A consumer receives the oldest buffered event.\<close>

definition mem_recv :: "nat \<Rightarrow> MemTable \<Rightarrow> (RouteEvent \<times> MemTable) option" where
  "mem_recv i t = (case watchers t i of
      Some (ev # evs) \<Rightarrow> Some (ev, t\<lparr>watchers := (watchers t)(i \<mapsto> evs)\<rparr>)
    | _ \<Rightarrow> None)"

section \<open>The file table\<close>

text \<open>
  The content of the routes file as \<^verbatim>\<open>loadLocked\<close> distinguishes it: missing, unreadable, empty,
  not a document, or a document whose \<^verbatim>\<open>routes\<close> may be null. The JSON codec is exact on documents.
  \<open>file_io\<close> says what the operating system does during one operation: whether the advisory
  lock is obtained and whether the temp-file write and rename succeed.
\<close>

record fileTableDoc =
  Revision :: u64
  Routes :: "string \<Rightarrow> TenantRoute option"

datatype file_content =
    FMissing | FReadError string | FEmpty | FGarbage string
  | FDoc u64 "(string \<Rightarrow> TenantRoute option) option"

record file_io =
  lock_err :: "cerr option"
  store_err :: "cerr option"

definition empty_doc :: fileTableDoc where
  "empty_doc = \<lparr>Revision = 0, Routes = Map.empty\<rparr>"

definition withFileLock :: "file_io \<Rightarrow> (file_content \<Rightarrow> (cerr + 'a) \<times> file_content)
    \<Rightarrow> file_content \<Rightarrow> (cerr + 'a) \<times> file_content" where
  "withFileLock io fn f = (case lock_err io of Some e \<Rightarrow> (Inl e, f) | None \<Rightarrow> fn f)"

fun loadLocked :: "file_content \<Rightarrow> cerr + fileTableDoc" where
  "loadLocked FMissing = Inr empty_doc"
| "loadLocked (FReadError m) = Inl (External m)"
| "loadLocked FEmpty = Inr empty_doc"
| "loadLocked (FGarbage m) = Inl (External m)"
| "loadLocked (FDoc rv None) = Inr \<lparr>Revision = rv, Routes = Map.empty\<rparr>"
| "loadLocked (FDoc rv (Some m)) = Inr \<lparr>Revision = rv, Routes = m\<rparr>"

definition storeLocked ::
  "file_io \<Rightarrow> fileTableDoc \<Rightarrow> file_content \<Rightarrow> (cerr + unit) \<times> file_content" where
  "storeLocked io doc f = (case store_err io of
      Some e \<Rightarrow> (Inl e, f)
    | None \<Rightarrow> (Inr (), FDoc (Revision doc) (Some (Routes doc))))"

definition file_Get :: "file_io \<Rightarrow> string \<Rightarrow> file_content \<Rightarrow> cerr + TenantRoute" where
  "file_Get io tenantID f =
     (case fst (withFileLock io (\<lambda>f. (case loadLocked f of
                  Inl e \<Rightarrow> Inl e
                | Inr doc \<Rightarrow> Inr (Routes doc tenantID), f)) f) of
        Inl e \<Rightarrow> Inl e
      | Inr None \<Rightarrow> Inl ErrNoRoute
      | Inr (Some r) \<Rightarrow> Inr r)"

definition file_CompareAndSet ::
  "file_io \<Rightarrow> TenantRoute \<Rightarrow> TenantRoute \<Rightarrow> file_content \<Rightarrow> (cerr + unit) \<times> file_content" where
  "file_CompareAndSet io expect nxt f0 =
     (if rTenantID nxt = [] then (Inl ErrCASConflict, f0)
      else withFileLock io (\<lambda>f.
        case loadLocked f of
          Inl e \<Rightarrow> (Inl e, f)
        | Inr doc \<Rightarrow>
            (let store = storeLocked io
               (doc\<lparr>Routes := (Routes doc)(rTenantID nxt \<mapsto> nxt), Revision := Revision doc + 1\<rparr>) f
             in case Routes doc (rTenantID nxt) of
                  None \<Rightarrow> if \<not> IsZero expect then (Inl ErrCASConflict, f) else store
                | Some cur \<Rightarrow>
                    if RouteEpoch cur \<noteq> RouteEpoch expect \<or> rState cur \<noteq> rState expect
                    then (Inl ErrCASConflict, f)
                    else if RouteEpoch nxt < RouteEpoch cur then (Inl ErrEpochRegression, f)
                    else store)) f0)"

definition file_Delete :: "file_io \<Rightarrow> string \<Rightarrow> file_content \<Rightarrow> (cerr + unit) \<times> file_content" where
  "file_Delete io tenantID =
     withFileLock io (\<lambda>f.
        case loadLocked f of
          Inl e \<Rightarrow> (Inl e, f)
        | Inr doc \<Rightarrow>
            (case Routes doc tenantID of
               None \<Rightarrow> (Inr (), f)
             | Some _ \<Rightarrow> storeLocked io
                 (doc\<lparr>Routes := (Routes doc)(tenantID := None), Revision := Revision doc + 1\<rparr>) f))"

text \<open>
  \<^verbatim>\<open>List\<close> and one round of the polling loop of \<^verbatim>\<open>Watch\<close> range over Go maps, whose iteration order
  is unspecified: the order is an argument (\<open>ks\<close> enumerates the keys of the document,
  \<open>ps\<close> those of the previous snapshot).
\<close>

definition file_List :: "file_io \<Rightarrow> string list \<Rightarrow> file_content \<Rightarrow> cerr + TenantRoute list" where
  "file_List io ks f =
     fst (withFileLock io (\<lambda>f. (case loadLocked f of
            Inl e \<Rightarrow> Inl e
          | Inr doc \<Rightarrow> Inr (List.map_filter (Routes doc) ks), f)) f)"

definition poll_events :: "string list \<Rightarrow> string list \<Rightarrow> fileTableDoc
    \<Rightarrow> (string \<Rightarrow> TenantRoute option) \<Rightarrow> RouteEvent list" where
  "poll_events ks ps doc prev =
     List.map_filter (\<lambda>tid. case Routes doc tid of
        None \<Rightarrow> None
      | Some r \<Rightarrow> if prev tid = Some r then None
                  else Some \<lparr>evRoute = r, evTenantID = tid, evDeleted = False,
                             evRevision = Revision doc\<rparr>) ks
     @ map (\<lambda>tid. \<lparr>evRoute = zero_route, evTenantID = tid, evDeleted = True,
                   evRevision = Revision doc\<rparr>)
           (filter (\<lambda>tid. Routes doc tid = None) ps)"

text \<open>
  One tick of the watch goroutine: the events to send and the snapshot to keep. A failed read
  and an unchanged revision leave the snapshot alone.
\<close>

definition watch_tick :: "file_io \<Rightarrow> string list \<Rightarrow> string list \<Rightarrow> file_content
    \<Rightarrow> (string \<Rightarrow> TenantRoute option) \<times> u64
    \<Rightarrow> RouteEvent list \<times> ((string \<Rightarrow> TenantRoute option) \<times> u64)" where
  "watch_tick io ks ps f snap =
     (case fst (withFileLock io (\<lambda>f. (loadLocked f, f)) f) of
        Inl _ \<Rightarrow> ([], snap)
      | Inr doc \<Rightarrow>
          (if Revision doc = snd snap then ([], snap)
           else (poll_events ks ps doc (fst snap), (Routes doc, Revision doc))))"

section \<open>The interface RoutingTable\<close>

text \<open>
  What every backend promises, over the map of routes it holds: \<^verbatim>\<open>Get\<close> reads the map and
  \<^verbatim>\<open>CompareAndSet\<close> is \<open>spec_cas\<close> on it.
\<close>

definition spec_cas :: "TenantRoute \<Rightarrow> TenantRoute \<Rightarrow> (string \<Rightarrow> TenantRoute option)
    \<Rightarrow> cerr option \<times> (string \<Rightarrow> TenantRoute option)" where
  "spec_cas expect nxt m =
     (if rTenantID nxt = [] then (Some ErrCASConflict, m)
      else case m (rTenantID nxt) of
        None \<Rightarrow> if IsZero expect then (None, m(rTenantID nxt \<mapsto> nxt)) else (Some ErrCASConflict, m)
      | Some cur \<Rightarrow>
          if RouteEpoch cur = RouteEpoch expect \<and> rState cur = rState expect
          then if RouteEpoch nxt < RouteEpoch cur then (Some ErrEpochRegression, m)
               else (None, m(rTenantID nxt \<mapsto> nxt))
          else (Some ErrCASConflict, m))"

text \<open>Running a sequence of compare-and-sets, whoever issued them.\<close>

fun cas_run :: "(TenantRoute \<Rightarrow> TenantRoute \<Rightarrow> 's \<Rightarrow> cerr option \<times> 's)
    \<Rightarrow> (TenantRoute \<times> TenantRoute) list \<Rightarrow> 's \<Rightarrow> 's" where
  "cas_run cas [] s = s"
| "cas_run cas ((e, n) # ops) s = cas_run cas ops (snd (cas e n s))"

definition epoch_le :: "(string \<Rightarrow> TenantRoute option) \<Rightarrow> (string \<Rightarrow> TenantRoute option) \<Rightarrow> bool" where
  "epoch_le m m' \<longleftrightarrow> (\<forall>t r. m t = Some r \<longrightarrow> (\<exists>r'. m' t = Some r' \<and> RouteEpoch r \<le> RouteEpoch r'))"

definition keyed :: "(string \<Rightarrow> TenantRoute option) \<Rightarrow> bool" where
  "keyed m \<longleftrightarrow> (\<forall>t r. m t = Some r \<longrightarrow> rTenantID r = t \<and> t \<noteq> [])"

lemma epoch_le_refl [simp]: "epoch_le m m"
  by (simp add: epoch_le_def)

lemma epoch_le_trans: "epoch_le a b \<Longrightarrow> epoch_le b c \<Longrightarrow> epoch_le a c"
  unfolding epoch_le_def by (meson order_trans)

lemma spec_cas_epoch_le: "spec_cas e n m = (x, m') \<Longrightarrow> epoch_le m m'"
  by (auto simp: spec_cas_def epoch_le_def split: if_splits option.splits)

lemma spec_cas_success:
  "spec_cas e n m = (None, m') \<Longrightarrow> m' = m(rTenantID n \<mapsto> n) \<and> rTenantID n \<noteq> []"
  by (auto simp: spec_cas_def split: if_splits option.splits)

lemma spec_cas_failure: "spec_cas e n m = (Some x, m') \<Longrightarrow>
    m' = m \<and> (x = ErrCASConflict \<or> x = ErrEpochRegression)"
  by (auto simp: spec_cas_def split: if_splits option.splits)

lemma keyedD: "keyed m \<Longrightarrow> m t = Some r \<Longrightarrow> rTenantID r = t"
  by (simp add: keyed_def)

lemma keyed_upd: "keyed m \<Longrightarrow> rTenantID n \<noteq> [] \<Longrightarrow> keyed (m(rTenantID n \<mapsto> n))"
  unfolding keyed_def by (metis map_upd_Some_unfold)

lemma keyed_del: "keyed m \<Longrightarrow> keyed (m(x := None))"
  unfolding keyed_def by (metis fun_upd_apply option.distinct(1))

lemma spec_cas_keyed: "keyed m \<Longrightarrow> spec_cas e n m = (x, m') \<Longrightarrow> keyed m'"
  by (cases x) (auto dest!: spec_cas_success spec_cas_failure intro: keyed_upd)

text \<open>
  Optimistic exclusion: of two writers that read the same \<open>(RouteEpoch, State)\<close>, once the first
  has changed either of them the second is refused.
\<close>

lemma spec_cas_exclusive:
  assumes "spec_cas e n m = (None, m')"
    and "rTenantID n2 = rTenantID n"
    and "RouteEpoch n \<noteq> RouteEpoch e \<or> rState n \<noteq> rState e"
  shows "spec_cas e n2 m' = (Some ErrCASConflict, m')"
  using assms by (auto simp: spec_cas_def split: if_splits option.splits)

locale routing_table =
  fixes get :: "string \<Rightarrow> 's \<Rightarrow> cerr + TenantRoute"
    and cas :: "TenantRoute \<Rightarrow> TenantRoute \<Rightarrow> 's \<Rightarrow> cerr option \<times> 's"
    and view :: "'s \<Rightarrow> string \<Rightarrow> TenantRoute option"
    and ok :: "'s \<Rightarrow> bool"
  assumes get_view: "ok s \<Longrightarrow>
      get t s = (case view s t of None \<Rightarrow> Inl ErrNoRoute | Some r \<Rightarrow> Inr r)"
    and cas_view: "ok s \<Longrightarrow> cas e n s = (x, s') \<Longrightarrow> spec_cas e n (view s) = (x, view s')"
    and cas_ok: "ok s \<Longrightarrow> cas e n s = (x, s') \<Longrightarrow> ok s'"
begin

lemma cas_epoch_le: "ok s \<Longrightarrow> cas e n s = (x, s') \<Longrightarrow> epoch_le (view s) (view s')"
  by (blast dest: cas_view spec_cas_epoch_le)

lemma run_epoch_le: "ok s \<Longrightarrow> epoch_le (view s) (view (cas_run cas ops s))"
proof (induction ops arbitrary: s)
  case Nil
  then show ?case by simp
next
  case (Cons op ops)
  obtain e n where op: "op = (e, n)" by (cases op)
  obtain x s' where s': "cas e n s = (x, s')" by (cases "cas e n s")
  have "epoch_le (view s) (view s')" and "ok s'"
    using Cons.prems s' by (blast intro: cas_epoch_le cas_ok)+
  with Cons.IH [of s'] op s' show ?case by (auto intro: epoch_le_trans)
qed

lemma run_keyed: "ok s \<Longrightarrow> keyed (view s) \<Longrightarrow> keyed (view (cas_run cas ops s))"
proof (induction ops arbitrary: s)
  case Nil
  then show ?case by simp
next
  case (Cons op ops)
  obtain e n where op: "op = (e, n)" by (cases op)
  obtain x s' where s': "cas e n s = (x, s')" by (cases "cas e n s")
  have "keyed (view s')" and "ok s'"
    using Cons.prems s' by (blast intro: spec_cas_keyed cas_view cas_ok)+
  with Cons.IH [of s'] op s' show ?case by simp
qed

lemma cas_exclusive:
  assumes "ok s" "cas e n s = (None, s')" "rTenantID n2 = rTenantID n"
    and "RouteEpoch n \<noteq> RouteEpoch e \<or> rState n \<noteq> rState e"
  shows "fst (cas e n2 s') = Some ErrCASConflict"
proof -
  obtain y s'' where y: "cas e n2 s' = (y, s'')" by (cases "cas e n2 s'")
  have "spec_cas e n2 (view s') = (Some ErrCASConflict, view s')"
    using spec_cas_exclusive cas_view assms by metis
  moreover have "spec_cas e n2 (view s') = (y, view s'')"
    using cas_view [OF cas_ok [OF assms(1,2)] y] .
  ultimately show ?thesis using y by simp
qed

lemma get_after_cas:
  assumes "ok s" "cas e n s = (None, s')"
  shows "get t s' = (if t = rTenantID n then Inr n else get t s)"
  using assms get_view [of s t] get_view [of s' t] cas_ok [OF assms]
    spec_cas_success [OF cas_view [OF assms]] by simp

end

subsection \<open>Both backends implement it\<close>

lemma mem_broadcast_simps [simp]:
  "routes (mem_broadcast ev t) = routes t" "revision (mem_broadcast ev t) = revision t"
  "nextW (mem_broadcast ev t) = nextW t"
  "watchers (mem_broadcast ev t) i = map_option (chan_send ev) (watchers t i)"
  by (simp_all add: mem_broadcast_def)

lemma mem_cas_spec:
  "mem_CompareAndSet e n t = (x, t') \<Longrightarrow> spec_cas e n (routes t) = (x, routes t')"
  by (auto simp: mem_CompareAndSet_def spec_cas_def Let_def split: if_splits option.splits)

interpretation mt: routing_table mem_Get mem_CompareAndSet routes "\<lambda>_. True"
  by unfold_locales (simp_all add: mem_Get_def mem_cas_spec)

definition err_of :: "cerr + 'a \<Rightarrow> cerr option" where
  "err_of r = (case r of Inl e \<Rightarrow> Some e | Inr _ \<Rightarrow> None)"

definition io_ok :: file_io where
  "io_ok = \<lparr>lock_err = None, store_err = None\<rparr>"

definition file_view :: "file_content \<Rightarrow> string \<Rightarrow> TenantRoute option" where
  "file_view f = (case loadLocked f of Inl _ \<Rightarrow> Map.empty | Inr doc \<Rightarrow> Routes doc)"

definition file_readable :: "file_content \<Rightarrow> bool" where
  "file_readable f \<longleftrightarrow> (\<exists>doc. loadLocked f = Inr doc)"

lemma file_Get_ok: "file_readable f \<Longrightarrow> file_Get io_ok t f =
    (case file_view f t of None \<Rightarrow> Inl ErrNoRoute | Some r \<Rightarrow> Inr r)"
  by (auto simp: file_Get_def withFileLock_def io_ok_def file_readable_def file_view_def
      split: option.splits)

lemma file_cas_spec:
  "file_readable f \<Longrightarrow> file_CompareAndSet io_ok e n f = (x, f') \<Longrightarrow>
     spec_cas e n (file_view f) = (err_of x, file_view f') \<and> file_readable f'"
  by (auto simp: file_CompareAndSet_def withFileLock_def storeLocked_def io_ok_def Let_def
      file_readable_def file_view_def spec_cas_def err_of_def split: if_splits option.splits sum.splits)

interpretation ft: routing_table "file_Get io_ok"
    "\<lambda>e n f. map_prod err_of id (file_CompareAndSet io_ok e n f)" file_view file_readable
proof unfold_locales
  fix s t
  assume "file_readable s"
  then show "file_Get io_ok t s =
      (case file_view s t of None \<Rightarrow> Inl ErrNoRoute | Some r \<Rightarrow> Inr r)" by (rule file_Get_ok)
next
  fix s e n x s'
  assume "file_readable s" "map_prod err_of id (file_CompareAndSet io_ok e n s) = (x, s')"
  then show "spec_cas e n (file_view s) = (x, file_view s')" and "file_readable s'"
    using file_cas_spec by (cases "file_CompareAndSet io_ok e n s", fastforce)+
qed

section \<open>Histories of the in-memory table\<close>

datatype mem_op =
    MCas TenantRoute TenantRoute | MDelete string | MWatch | MUnwatch nat | MRecv nat

fun mem_step :: "mem_op \<Rightarrow> MemTable \<Rightarrow> MemTable" where
  "mem_step (MCas e n) t = snd (mem_CompareAndSet e n t)"
| "mem_step (MDelete x) t = mem_Delete x t"
| "mem_step MWatch t = snd (mem_Watch t)"
| "mem_step (MUnwatch i) t = mem_unwatch i t"
| "mem_step (MRecv i) t = (case mem_recv i t of None \<Rightarrow> t | Some (_, t') \<Rightarrow> t')"

definition mem_steps :: "mem_op list \<Rightarrow> MemTable \<Rightarrow> MemTable" where
  "mem_steps ops t = fold mem_step ops t"

definition epoch_kept :: "string \<Rightarrow> (string \<Rightarrow> TenantRoute option)
    \<Rightarrow> (string \<Rightarrow> TenantRoute option) \<Rightarrow> bool" where
  "epoch_kept x m m' \<longleftrightarrow> (\<forall>r. m x = Some r \<longrightarrow>
     (\<exists>r'. m' x = Some r' \<and> RouteEpoch r \<le> RouteEpoch r'))"

lemma epoch_kept_refl [simp]: "epoch_kept x m m"
  by (simp add: epoch_kept_def)

lemma routes_Delete [simp]: "routes (mem_Delete x t) = (routes t)(x := None)"
  by (auto simp: mem_Delete_def Let_def split: option.split)

lemma routes_other [simp]:
  "routes (snd (mem_Watch t)) = routes t" "routes (mem_unwatch i t) = routes t"
  "mem_recv i t = Some (ev, t') \<Longrightarrow> routes t' = routes t"
  by (auto simp: mem_Watch_def mem_unwatch_def mem_recv_def split: option.splits list.splits)

lemma mem_step_epoch_kept:
  "op \<noteq> MDelete x \<Longrightarrow> epoch_kept x (routes t) (routes (mem_step op t))"
proof (cases op)
  case (MCas e n)
  obtain y t' where "mem_CompareAndSet e n t = (y, t')" by (cases "mem_CompareAndSet e n t")
  with MCas have "epoch_le (routes t) (routes (mem_step op t))"
    using mt.cas_epoch_le by simp
  then show ?thesis by (auto simp: epoch_kept_def epoch_le_def)
qed (auto simp: epoch_kept_def split: option.splits)

lemma mem_step_keyed: "keyed (routes t) \<Longrightarrow> keyed (routes (mem_step op t))"
proof (cases op)
  case (MCas e n)
  assume "keyed (routes t)"
  moreover obtain y t' where "mem_CompareAndSet e n t = (y, t')" by (cases "mem_CompareAndSet e n t")
  ultimately show ?thesis using MCas mem_cas_spec spec_cas_keyed by fastforce
qed (auto intro: keyed_del split: option.splits)

interpretation mem_hist: monotone_steps mem_step
    "\<lambda>t t'. epoch_kept x (routes t) (routes t')" "\<lambda>opr. opr \<noteq> MDelete x" for x
proof unfold_locales
  fix a b c :: MemTable
  assume "epoch_kept x (routes a) (routes b)" "epoch_kept x (routes b) (routes c)"
  then show "epoch_kept x (routes a) (routes c)" unfolding epoch_kept_def by (meson order_trans)
qed (simp_all add: mem_step_epoch_kept)

interpretation mem_keyed: invariant_steps mem_step "\<lambda>t. keyed (routes t)" "\<lambda>_. True"
  by unfold_locales (rule mem_step_keyed)

lemma mem_steps_epoch_kept:
  "MDelete x \<notin> set ops \<Longrightarrow> epoch_kept x (routes t) (routes (mem_steps ops t))"
  unfolding mem_steps_def by (rule mem_hist.run) auto

lemma mem_steps_keyed: "keyed (routes t) \<Longrightarrow> keyed (routes (mem_steps ops t))"
  unfolding mem_steps_def by (rule mem_keyed.run_inv) auto

section \<open>Replaying watch events\<close>

text \<open>What a consumer does with an event, as far as routes are concerned.\<close>

definition apply_route_event ::
  "RouteEvent \<Rightarrow> (string \<Rightarrow> TenantRoute option) \<Rightarrow> (string \<Rightarrow> TenantRoute option)" where
  "apply_route_event ev m =
     (if evDeleted ev then m(evTenantID ev := None) else m(rTenantID (evRoute ev) \<mapsto> evRoute ev))"

lemma replay_changes:
  assumes "keyed (Routes doc)"
  shows "fold apply_route_event (List.map_filter (\<lambda>tid. case Routes doc tid of
        None \<Rightarrow> None
      | Some r \<Rightarrow> if prev tid = Some r then None
                  else Some \<lparr>evRoute = r, evTenantID = tid, evDeleted = False,
                             evRevision = Revision doc\<rparr>) ks) m x =
     (if x \<in> set ks \<and> Routes doc x \<noteq> None \<and> prev x \<noteq> Routes doc x then Routes doc x else m x)"
proof (induction ks arbitrary: m)
  case Nil
  then show ?case by (simp add: map_filter_simps)
next
  case (Cons a ks)
  show ?case
  proof (cases "Routes doc a")
    case None
    with Cons show ?thesis by (auto simp: map_filter_simps)
  next
    case (Some r)
    with assms have "rTenantID r = a" by (rule keyedD)
    with Cons Some show ?thesis by (auto simp: map_filter_simps apply_route_event_def)
  qed
qed

lemma replay_deletes:
  "fold apply_route_event (map (\<lambda>tid. \<lparr>evRoute = zero_route, evTenantID = tid, evDeleted = True,
        evRevision = rv\<rparr>) ps) m x = (if x \<in> set ps then None else m x)"
  by (induction ps arbitrary: m) (auto simp: apply_route_event_def)

lemma poll_events_replay:
  assumes "keyed (Routes doc)" "set ks = dom (Routes doc)" "set ps = dom prev"
  shows "fold apply_route_event (poll_events ks ps doc prev) prev = Routes doc"
  by (rule ext) (use assms in \<open>auto simp: poll_events_def replay_changes replay_deletes\<close>)

section \<open>Failures of the file table\<close>

lemma file_cas_failed:
  "file_CompareAndSet io e n f = (Inl x, f') \<Longrightarrow> f' = f"
  by (auto simp: file_CompareAndSet_def withFileLock_def storeLocked_def Let_def
      split: if_splits option.splits sum.splits)

lemma file_cas_stored:
  "file_CompareAndSet io e n f = (Inr u, f') \<Longrightarrow>
     \<exists>doc. loadLocked f = Inr doc \<and>
       f' = FDoc (Revision doc + 1) (Some ((Routes doc)(rTenantID n \<mapsto> n)))"
  by (auto simp: file_CompareAndSet_def withFileLock_def storeLocked_def Let_def
      split: if_splits option.splits sum.splits)

lemma file_cas_mem:
  assumes "loadLocked f = Inr \<lparr>Revision = revision t, Routes = routes t\<rparr>"
    and "file_CompareAndSet io_ok e n f = (x, f')" and "mem_CompareAndSet e n t = (y, t')"
  shows "err_of x = y" and "loadLocked f' = Inr \<lparr>Revision = revision t', Routes = routes t'\<rparr>"
  using assms
  by (auto simp: file_CompareAndSet_def mem_CompareAndSet_def withFileLock_def storeLocked_def
      io_ok_def err_of_def Let_def split: if_splits option.splits)

section \<open>Properties\<close>

definition route_on :: "string \<Rightarrow> u64 \<Rightarrow> string \<Rightarrow> TenantRoute" where
  "route_on t n c = zero_route\<lparr>rTenantID := t, RouteEpoch := n, ActiveCell := c, rState := StateActive\<rparr>"

text \<open>C5: the route epoch of a tenant never decreases, whatever sequence of compare-and-sets,
  watch registrations and receives the table sees, as long as the tenant's route is not deleted.\<close>

theorem mem_epoch_never_decreases:
  assumes "routes t x = Some r" and "MDelete x \<notin> set ops"
  shows "\<exists>r'. routes (mem_steps ops t) x = Some r' \<and> RouteEpoch r \<le> RouteEpoch r'"
  using mem_steps_epoch_kept [OF assms(2)] assms(1) by (auto simp: epoch_kept_def)

theorem mem_epoch_never_decreases_witness:
  "\<exists>r'. routes (mem_steps [MWatch, MCas (route_on ''t'' 1 ''a'') (route_on ''t'' 3 ''b'')]
      (NewMemTable\<lparr>routes := [''t'' \<mapsto> route_on ''t'' 1 ''a'']\<rparr>)) ''t'' = Some r'
      \<and> RouteEpoch (route_on ''t'' 1 ''a'') \<le> RouteEpoch r'"
  by (rule mem_epoch_never_decreases) simp_all

text \<open>No lost update. When two writers read the same epoch and state of a tenant and the first
  one's compare-and-set succeeds and changes either, the second one's is refused with
  \<open>ErrCASConflict\<close> and leaves the table alone.\<close>

theorem mem_cas_no_lost_update:
  assumes "mem_CompareAndSet e n t = (None, t')"
    and "rTenantID n2 = rTenantID n"
    and "RouteEpoch n \<noteq> RouteEpoch e \<or> rState n \<noteq> rState e"
  shows "mem_CompareAndSet e n2 t' = (Some ErrCASConflict, t')"
proof -
  have "fst (mem_CompareAndSet e n2 t') = Some ErrCASConflict"
    using mt.cas_exclusive assms by blast
  then show ?thesis
    by (auto simp: mem_CompareAndSet_def Let_def split: if_splits option.splits)
qed

theorem mem_cas_no_lost_update_witness:
  "(let t = NewMemTable\<lparr>routes := [''t'' \<mapsto> route_on ''t'' 1 ''a'']\<rparr>;
        t' = snd (mem_CompareAndSet (route_on ''t'' 1 ''a'') (route_on ''t'' 3 ''b'') t)
    in mem_CompareAndSet (route_on ''t'' 1 ''a'') (route_on ''t'' 3 ''c'') t'
       = (Some ErrCASConflict, t'))"
  unfolding Let_def
  by (rule mem_cas_no_lost_update [of _ "route_on ''t'' 3 ''b''"
        "NewMemTable\<lparr>routes := [''t'' \<mapsto> route_on ''t'' 1 ''a'']\<rparr>"])
    (simp_all add: mem_CompareAndSet_def route_on_def NewMemTable_def zero_route_def Let_def)

text \<open>the file table refines the in-memory table. Started on the same routes and revision,
  a compare-and-set on the file returns the same error and leaves the same routes and revision
  as the in-memory one.\<close>

theorem file_cas_refines_mem:
  assumes "loadLocked f = Inr \<lparr>Revision = revision t, Routes = routes t\<rparr>"
    and "file_CompareAndSet io_ok e n f = (x, f')" and "mem_CompareAndSet e n t = (y, t')"
  shows "err_of x = y \<and> loadLocked f' = Inr \<lparr>Revision = revision t', Routes = routes t'\<rparr>"
  using file_cas_mem [OF assms] by simp

theorem file_cas_refines_mem_witness:
  "(let e = zero_route; n = route_on ''t'' 1 ''a'';
        (x, f') = file_CompareAndSet io_ok e n FMissing;
        (y, t') = mem_CompareAndSet e n NewMemTable
    in err_of x = y \<and> loadLocked f' = Inr \<lparr>Revision = revision t', Routes = routes t'\<rparr>)"
proof -
  obtain x f' where f: "file_CompareAndSet io_ok zero_route (route_on ''t'' 1 ''a'') FMissing = (x, f')"
    by fastforce
  obtain y t' where t: "mem_CompareAndSet zero_route (route_on ''t'' 1 ''a'') NewMemTable = (y, t')"
    by fastforce
  have "loadLocked FMissing = Inr \<lparr>Revision = revision NewMemTable, Routes = routes NewMemTable\<rparr>"
    by (simp add: NewMemTable_def empty_doc_def)
  from file_cas_refines_mem [OF this f t] show ?thesis using f t by simp
qed

text \<open>a compare-and-set on the file table is all or nothing. Whatever the operating system
  does (lock not obtained, unreadable file, failed write), a reported error means the file is
  unchanged, and success means exactly the tenant's route was replaced and the revision
  advanced by one.\<close>

theorem file_cas_atomic:
  "case file_CompareAndSet io e n f of
     (Inl _, f') \<Rightarrow> f' = f
   | (Inr _, f') \<Rightarrow> (\<exists>doc. loadLocked f = Inr doc \<and>
       f' = FDoc (Revision doc + 1) (Some ((Routes doc)(rTenantID n \<mapsto> n))))"
  using file_cas_failed file_cas_stored by (auto split: prod.split sum.split)

text \<open>the polling watch converges. Replaying the events one tick emits over the previous
  snapshot yields exactly the snapshot the tick keeps, in whatever order the maps are
  enumerated; so a consumer that applies every event holds the routes of the file.\<close>

theorem watch_tick_replay:
  assumes "keyed (file_view f)" "set ks = dom (file_view f)" "set ps = dom (fst snap)"
  shows "fold apply_route_event (fst (watch_tick io ks ps f snap)) (fst snap)
       = fst (snd (watch_tick io ks ps f snap))"
  using assms
  by (auto simp: watch_tick_def withFileLock_def file_view_def poll_events_replay
      split: option.splits sum.splits)

theorem watch_tick_replay_witness:
  "(let f = FDoc 7 (Some [''t'' \<mapsto> route_on ''t'' 1 ''a'']);
        snap = ([''u'' \<mapsto> route_on ''u'' 1 ''b''], 5 :: u64);
        tick = watch_tick io_ok [''t''] [''u''] f snap
    in fold apply_route_event (fst tick) (fst snap) = fst (snd tick)
       \<and> length (fst tick) = 2)"
proof -
  let ?f = "FDoc 7 (Some [''t'' \<mapsto> route_on ''t'' 1 ''a''])"
  let ?snap = "([''u'' \<mapsto> route_on ''u'' 1 ''b''], 5 :: u64)"
  have "keyed (file_view ?f)"
    by (simp add: keyed_def file_view_def route_on_def)
  moreover have "set [''t''] = dom (file_view ?f)" "set [''u''] = dom (fst ?snap)"
    by (auto simp: file_view_def)
  ultimately have "fold apply_route_event (fst (watch_tick io_ok [''t''] [''u''] ?f ?snap)) (fst ?snap)
       = fst (snd (watch_tick io_ok [''t''] [''u''] ?f ?snap))"
    by (rule watch_tick_replay)
  moreover have "length (fst (watch_tick io_ok [''t''] [''u''] ?f ?snap)) = 2"
    by (simp add: watch_tick_def withFileLock_def io_ok_def poll_events_def map_filter_simps
        route_on_def zero_route_def)
  ultimately show ?thesis by (simp add: Let_def)
qed

end
