(* ===== verification/Cells_Gate.thy ===== *)
theory Cells_Gate
  imports Cells_Table
begin

text \<open>
  The L2 admission gates (\<^verbatim>\<open>src/cells/gate.go\<close>) and the controller that aligns them with the
  routing table (\<^verbatim>\<open>src/cells/controller.go\<close>). Every registry operation holds the gate's mutex, so
  it is one atomic step; \<^verbatim>\<open>CloseForBarrier\<close> releases the mutex while it waits on its condition
  variable, and is a small machine whose steps interleave with the other operations.
\<close>

section \<open>Gates\<close>

datatype gateState = gateOpen | gateDraining | gateClosed

record AdmissionToken =
  tokTenantID :: string
  tokCellID :: string
  tokInstanceID :: string
  tokRouteEpoch :: u64
  AdmissionSeq :: u64
  tokBarrierID :: string

record Cutoff =
  cutTenantID :: string
  cutInstanceID :: string
  cutBarrierEpoch :: u64
  MaxSeq :: u64
  Drained :: bool
  Forced :: bool

record gate =
  routeEpoch :: u64
  gstate :: gateState
  acceptingNew :: bool
  nextSeq :: u64
  cutoffSeq :: u64
  gBarrierEpoch :: u64
  inflight :: "u64 set"

definition newGate :: "u64 \<Rightarrow> gate" where
  "newGate epoch = \<lparr>routeEpoch = epoch, gstate = gateOpen, acceptingNew = True, nextSeq = 0,
     cutoffSeq = 0, gBarrierEpoch = 0, inflight = {}\<rparr>"

text \<open>The critical sections of the operations, on one gate.\<close>

definition gate_enter :: "u64 \<Rightarrow> gate \<Rightarrow> (cerr + u64) \<times> gate" where
  "gate_enter e g =
     (if gstate g \<noteq> gateOpen \<or> \<not> acceptingNew g then (Inl ErrTenantDraining, g)
      else if e \<noteq> routeEpoch g then (Inl ErrStaleRouteEpoch, g)
      else let sq = nextSeq g + 1
           in (Inr sq, g\<lparr>nextSeq := sq, inflight := insert sq (inflight g)\<rparr>))"

text \<open>\<open>gate_leave\<close> and \<open>gate_close\<close> also say whether they broadcast on the condition variable.\<close>

definition gate_leave :: "u64 \<Rightarrow> gate \<Rightarrow> bool \<times> gate" where
  "gate_leave sq g =
     (let g' = g\<lparr>inflight := inflight g - {sq}\<rparr>
      in (gstate g' = gateDraining \<and> inflight g' = {}, g'))"

definition gate_open :: "u64 \<Rightarrow> gate \<Rightarrow> gate" where
  "gate_open e g =
     (if routeEpoch g \<le> e then g\<lparr>routeEpoch := e, gstate := gateOpen, acceptingNew := True\<rparr> else g)"

definition gate_drain :: "u64 \<Rightarrow> gate \<Rightarrow> gate" where
  "gate_drain barrierEpoch g =
     (if gstate g \<noteq> gateClosed
      then g\<lparr>gstate := gateDraining, acceptingNew := False, gBarrierEpoch := barrierEpoch,
             cutoffSeq := nextSeq g\<rparr>
      else g)"

definition gate_close :: "gate \<Rightarrow> bool \<times> gate" where
  "gate_close g = (True, g\<lparr>gstate := gateClosed, acceptingNew := False\<rparr>)"

section \<open>The registry\<close>

record GateRegistry =
  cellID :: string
  instanceID :: string
  gates :: "string \<Rightarrow> gate option"

definition NewGateRegistry :: "string \<Rightarrow> string \<Rightarrow> GateRegistry" where
  "NewGateRegistry cell inst =
     \<lparr>cellID = (if cell = [] then DefaultCellID else cell), instanceID = inst, gates = Map.empty\<rparr>"

definition getOrCreate :: "string \<Rightarrow> u64 \<Rightarrow> GateRegistry \<Rightarrow> gate" where
  "getOrCreate tenantID e gr =
     (case gates gr tenantID of Some g \<Rightarrow> g | None \<Rightarrow> newGate e)"

definition put_gate :: "string \<Rightarrow> gate \<Rightarrow> GateRegistry \<Rightarrow> GateRegistry" where
  "put_gate tenantID g gr = gr\<lparr>gates := (gates gr)(tenantID \<mapsto> g)\<rparr>"

definition TryEnter :: "string \<Rightarrow> u64 \<Rightarrow> GateRegistry \<Rightarrow> (cerr + AdmissionToken) \<times> GateRegistry" where
  "TryEnter tenantID e gr =
     (case gate_enter e (getOrCreate tenantID e gr) of
        (Inl err, g) \<Rightarrow> (Inl err, put_gate tenantID g gr)
      | (Inr sq, g) \<Rightarrow>
          (Inr \<lparr>tokTenantID = tenantID, tokCellID = cellID gr, tokInstanceID = instanceID gr,
                tokRouteEpoch = e, AdmissionSeq = sq, tokBarrierID = []\<rparr>,
           put_gate tenantID g gr))"

definition Leave :: "AdmissionToken \<Rightarrow> GateRegistry \<Rightarrow> GateRegistry" where
  "Leave tok gr =
     (case gates gr (tokTenantID tok) of
        None \<Rightarrow> gr
      | Some g \<Rightarrow> put_gate (tokTenantID tok) (snd (gate_leave (AdmissionSeq tok) g)) gr)"

definition Inflight :: "string \<Rightarrow> GateRegistry \<Rightarrow> nat" where
  "Inflight tenantID gr =
     (case gates gr tenantID of None \<Rightarrow> 0 | Some g \<Rightarrow> card (inflight g))"

definition Open :: "string \<Rightarrow> u64 \<Rightarrow> GateRegistry \<Rightarrow> GateRegistry" where
  "Open tenantID e gr = put_gate tenantID (gate_open e (getOrCreate tenantID e gr)) gr"

definition beginDrain :: "string \<Rightarrow> u64 \<Rightarrow> GateRegistry \<Rightarrow> GateRegistry" where
  "beginDrain tenantID barrierEpoch gr =
     put_gate tenantID (gate_drain barrierEpoch (getOrCreate tenantID 0 gr)) gr"

definition Reset :: "string \<Rightarrow> GateRegistry \<Rightarrow> GateRegistry" where
  "Reset tenantID gr = gr\<lparr>gates := (gates gr)(tenantID := None)\<rparr>"

definition closeGate :: "string \<Rightarrow> GateRegistry \<Rightarrow> GateRegistry" where
  "closeGate tenantID gr = put_gate tenantID (snd (gate_close (getOrCreate tenantID 0 gr))) gr"

definition Reconcile :: "TenantRoute \<Rightarrow> GateRegistry \<Rightarrow> GateRegistry" where
  "Reconcile route gr =
     (if IsMoving (rState route) \<and> SourceCell route = cellID gr
      then beginDrain (rTenantID route) (BarrierEpoch route) gr
      else if ActiveCell route = cellID gr \<and> AdmitsNew (rState route)
      then Open (rTenantID route) (RouteEpoch route) gr
      else if ActiveCell route \<noteq> cellID gr \<and> ActiveCell route \<noteq> []
      then closeGate (rTenantID route) gr
      else gr)"

section \<open>The barrier wait\<close>

text \<open>
  \<^verbatim>\<open>CloseForBarrier\<close> flips the gate to draining, then loops \<^verbatim>\<open>for len(g.inflight) > 0 && ctx.Err() == nil
  { g.cond.Wait() }\<close>. The waiter holds the mutex while it evaluates the loop condition (\<open>Check\<close>) and
  up to the moment \<^verbatim>\<open>Wait\<close> puts it on the notification list (\<open>Enroll\<close>); \<open>Blocked\<close> releases it. The
  gate operations need the mutex, so they run only while the waiter is blocked. The context
  may become done at any time (\<open>EvFire\<close>), and the helper goroutine then broadcasts without taking the
  mutex (\<open>EvNotify\<close>). A broadcast wakes the waiter only if it is already blocked.
\<close>

datatype gate_op = OpEnter u64 | OpLeave u64 | OpOpen u64 | OpDrain u64 | OpClose

fun gate_step :: "gate_op \<Rightarrow> gate \<Rightarrow> bool \<times> gate" where
  "gate_step (OpEnter e) g = (False, snd (gate_enter e g))"
| "gate_step (OpLeave sq) g = gate_leave sq g"
| "gate_step (OpOpen e) g = (False, gate_open e g)"
| "gate_step (OpDrain b) g = (False, gate_drain b g)"
| "gate_step OpClose g = gate_close g"

datatype cfb_pc = Check | Enroll | Blocked | Returned

record cfb =
  pc :: cfb_pc
  ctxDone :: bool
  notified :: bool
  cgate :: gate

datatype cfb_ev = EvWaiter | EvFire | EvNotify | EvOp gate_op

fun cfb_step :: "cfb_ev \<Rightarrow> cfb \<Rightarrow> cfb" where
  "cfb_step EvWaiter s = (case pc s of
      Check \<Rightarrow> if inflight (cgate s) = {} \<or> ctxDone s then s\<lparr>pc := Returned\<rparr> else s\<lparr>pc := Enroll\<rparr>
    | Enroll \<Rightarrow> s\<lparr>pc := Blocked\<rparr>
    | _ \<Rightarrow> s)"
| "cfb_step EvFire s = s\<lparr>ctxDone := True\<rparr>"
| "cfb_step EvNotify s =
     (if ctxDone s \<and> \<not> notified s \<and> pc s \<noteq> Returned
      then s\<lparr>notified := True, pc := (if pc s = Blocked then Check else pc s)\<rparr> else s)"
| "cfb_step (EvOp opr) s =
     (if pc s = Blocked
      then (case gate_step opr (cgate s) of
              (woken, g) \<Rightarrow> s\<lparr>cgate := g, pc := (if woken then Check else Blocked)\<rparr>)
      else s)"

definition cfb_init :: "u64 \<Rightarrow> gate \<Rightarrow> cfb" where
  "cfb_init barrierEpoch g =
     \<lparr>pc = Check, ctxDone = False, notified = False, cgate = gate_drain barrierEpoch g\<rparr>"

definition cfb_cutoff :: "string \<Rightarrow> string \<Rightarrow> u64 \<Rightarrow> u64 \<Rightarrow> cfb \<Rightarrow> Cutoff" where
  "cfb_cutoff tenantID inst barrierEpoch maxSeq s =
     (let drained = (inflight (cgate s) = {})
      in \<lparr>cutTenantID = tenantID, cutInstanceID = inst, cutBarrierEpoch = barrierEpoch,
          MaxSeq = maxSeq, Drained = drained, Forced = \<not> drained\<rparr>)"

text \<open>
  The call under a schedule of what happens meanwhile: \<open>None\<close> while it has not returned.
\<close>

definition CloseForBarrier :: "cfb_ev list \<Rightarrow> string \<Rightarrow> u64 \<Rightarrow> GateRegistry
    \<Rightarrow> (Cutoff \<times> GateRegistry) option" where
  "CloseForBarrier sched tenantID barrierEpoch gr =
     (let s0 = cfb_init barrierEpoch (getOrCreate tenantID 0 gr);
          s = fold cfb_step sched s0
      in if pc s = Returned
         then Some (cfb_cutoff tenantID (instanceID gr) barrierEpoch (cutoffSeq (cgate s0)) s,
                    put_gate tenantID (cgate s) gr)
         else None)"

section \<open>The gate controller\<close>

text \<open>The body of the loop of \<^verbatim>\<open>GateController\<close> for one event of the watch stream.\<close>

definition gc_event :: "string \<Rightarrow> RouteEvent \<Rightarrow> GateRegistry \<Rightarrow> GateRegistry" where
  "gc_event defaultCell ev gr =
     (if evDeleted ev
      then if cellID gr = defaultCell then Reset (evTenantID ev) gr
           else closeGate (evTenantID ev) gr
      else Reconcile (evRoute ev) gr)"

definition gc_loop :: "string \<Rightarrow> RouteEvent list \<Rightarrow> GateRegistry \<Rightarrow> GateRegistry" where
  "gc_loop defaultCell evs gr = fold (gc_event defaultCell) evs gr"

section \<open>Invariant of a gate\<close>

definition gate_ok :: "gate \<Rightarrow> bool" where
  "gate_ok g \<longleftrightarrow> (acceptingNew g \<longleftrightarrow> gstate g = gateOpen) \<and> finite (inflight g)
     \<and> (\<forall>sq\<in>inflight g. sq \<le> nextSeq g) \<and> cutoffSeq g \<le> nextSeq g"

definition seq_left :: "gate \<Rightarrow> bool" where
  "seq_left g \<longleftrightarrow> nextSeq g \<noteq> - 1"

lemmas gate_defs = gate_enter_def gate_leave_def gate_open_def gate_drain_def gate_close_def

lemma gate_ok_newGate [simp]: "gate_ok (newGate e)"
  by (simp add: gate_ok_def newGate_def)

lemma gate_enter_ok:
  assumes "gate_ok g" "seq_left g"
  shows "gate_ok (snd (gate_enter e g))"
proof -
  have "nextSeq g < nextSeq g + 1"
    using assms(2) by (simp add: seq_left_def u64_less_Suc)
  with assms(1) show ?thesis by (auto simp: gate_ok_def gate_enter_def Let_def)
qed

lemma gate_other_ok [inv_rules]:
  "gate_ok g \<Longrightarrow> gate_ok (snd (gate_leave sq g))"
  "gate_ok g \<Longrightarrow> gate_ok (gate_open e g)"
  "gate_ok g \<Longrightarrow> gate_ok (gate_drain b g)"
  "gate_ok g \<Longrightarrow> gate_ok (snd (gate_close g))"
  by (auto simp: gate_ok_def gate_defs Let_def)

lemma gate_enter_Inr:
  "gate_enter e g = (Inr sq, g') \<longleftrightarrow> gstate g = gateOpen \<and> acceptingNew g \<and> routeEpoch g = e
     \<and> sq = nextSeq g + 1 \<and> g' = g\<lparr>nextSeq := sq, inflight := insert sq (inflight g)\<rparr>"
  by (auto simp: gate_enter_def Let_def)

lemma gate_enter_Inl: "gate_enter e g = (Inl err, g') \<Longrightarrow> g' = g"
  by (auto simp: gate_enter_def Let_def split: if_splits)

lemma gate_enter_shut: "gstate g \<noteq> gateOpen \<Longrightarrow> gate_enter e g = (Inl ErrTenantDraining, g)"
  by (simp add: gate_enter_def)

text \<open>A shut gate stays shut and only loses in-flight work, until an \<open>Open\<close>.\<close>

definition shut_below :: "gate \<Rightarrow> gate \<Rightarrow> bool" where
  "shut_below g g' \<longleftrightarrow> gstate g' \<noteq> gateOpen \<and> inflight g' \<subseteq> inflight g \<and> nextSeq g' = nextSeq g"

lemma shut_below_trans: "shut_below g h \<Longrightarrow> shut_below h k \<Longrightarrow> shut_below g k"
  by (auto simp: shut_below_def)

lemma gate_step_shut:
  "gstate g \<noteq> gateOpen \<Longrightarrow> (\<forall>e. opr \<noteq> OpOpen e) \<Longrightarrow> shut_below g (snd (gate_step opr g))"
  by (cases opr) (auto simp: gate_defs shut_below_def Let_def)

lemma gate_drain_shut [simp]: "gstate (gate_drain b g) \<noteq> gateOpen"
  by (simp add: gate_drain_def)

lemma gate_drain_simps [simp]:
  "inflight (gate_drain b g) = inflight g" "nextSeq (gate_drain b g) = nextSeq g"
  by (simp_all add: gate_drain_def)

section \<open>Registry steps\<close>

datatype reg_op =
    RTryEnter string u64 | RLeave AdmissionToken | ROpen string u64 | RBeginDrain string u64
  | RReset string | RClose string | RReconcile TenantRoute

fun reg_step :: "reg_op \<Rightarrow> GateRegistry \<Rightarrow> GateRegistry" where
  "reg_step (RTryEnter x e) gr = snd (TryEnter x e gr)"
| "reg_step (RLeave tok) gr = Leave tok gr"
| "reg_step (ROpen x e) gr = Open x e gr"
| "reg_step (RBeginDrain x b) gr = beginDrain x b gr"
| "reg_step (RReset x) gr = Reset x gr"
| "reg_step (RClose x) gr = closeGate x gr"
| "reg_step (RReconcile r) gr = Reconcile r gr"

text \<open>The operations that can make a tenant's gate accept work again.\<close>

fun may_open :: "string \<Rightarrow> string \<Rightarrow> reg_op \<Rightarrow> bool" where
  "may_open cell x (ROpen y e) \<longleftrightarrow> y = x"
| "may_open cell x (RReset y) \<longleftrightarrow> y = x"
| "may_open cell x (RReconcile r) \<longleftrightarrow>
     rTenantID r = x \<and> ActiveCell r = cell \<and> AdmitsNew (rState r)"
| "may_open cell x _ \<longleftrightarrow> False"

lemma put_gate_simps [simp]:
  "gates (put_gate x g gr) y = (if y = x then Some g else gates gr y)"
  "cellID (put_gate x g gr) = cellID gr" "instanceID (put_gate x g gr) = instanceID gr"
  by (simp_all add: put_gate_def)

lemma getOrCreate_simps [simp]:
  "gates gr x = Some g \<Longrightarrow> getOrCreate x e gr = g"
  "gates gr x = None \<Longrightarrow> getOrCreate x e gr = newGate e"
  by (simp_all add: getOrCreate_def)

lemmas reg_defs = TryEnter_def Leave_def Open_def beginDrain_def Reset_def closeGate_def
  Reconcile_def

lemma gates_TryEnter: "gates (snd (TryEnter x e gr)) y =
    (if y = x then Some (snd (gate_enter e (getOrCreate x e gr))) else gates gr y)"
  by (auto simp: TryEnter_def split: prod.split sum.split)

lemma cellID_step [simp]: "cellID (reg_step opr gr) = cellID gr"
  by (cases opr) (auto simp: reg_defs split: prod.split sum.split option.split)

text \<open>
  Seen from one tenant, every registry step other than \<open>Reset\<close> is one gate step, or none.
\<close>

lemma reg_step_gate:
  assumes "gates gr x = Some g" "opr \<noteq> RReset x"
  shows "\<exists>g'. gates (reg_step opr gr) x = Some g' \<and>
     (g' = g \<or> (\<exists>o'. g' = snd (gate_step o' g) \<and>
        (may_open (cellID gr) x opr \<or> (\<forall>e. o' \<noteq> OpOpen e))))"
proof (cases opr)
  case (RTryEnter y e)
  with assms(1) show ?thesis
    by (auto simp: gates_TryEnter intro!: exI [of _ "OpEnter e"])
next
  case (RLeave tok)
  with assms(1) show ?thesis
    by (auto simp: Leave_def split: option.split intro!: exI [of _ "OpLeave (AdmissionSeq tok)"])
next
  case (ROpen y e)
  with assms(1) show ?thesis by (auto simp: Open_def intro!: exI [of _ "OpOpen e"])
next
  case (RBeginDrain y b)
  with assms(1) show ?thesis by (auto simp: beginDrain_def intro!: exI [of _ "OpDrain b"])
next
  case (RReset y)
  with assms show ?thesis by (auto simp: Reset_def)
next
  case (RClose y)
  with assms(1) show ?thesis by (auto simp: closeGate_def intro!: exI [of _ OpClose])
next
  case (RReconcile r)
  show ?thesis
  proof (cases "rTenantID r = x")
    case True
    with RReconcile assms(1) show ?thesis
      by (auto simp: Reconcile_def beginDrain_def Open_def closeGate_def
          intro: exI [of _ "OpDrain (BarrierEpoch r)"] exI [of _ "OpOpen (RouteEpoch r)"]
            exI [of _ OpClose])
  next
    case False
    with RReconcile assms(1) show ?thesis
      by (auto simp: Reconcile_def beginDrain_def Open_def closeGate_def)
  qed
qed

subsection \<open>Histories of the registry\<close>

definition reg_epoch_le :: "string \<Rightarrow> GateRegistry \<Rightarrow> GateRegistry \<Rightarrow> bool" where
  "reg_epoch_le x gr gr' \<longleftrightarrow> (\<forall>g. gates gr x = Some g \<longrightarrow>
     (\<exists>g'. gates gr' x = Some g' \<and> routeEpoch g \<le> routeEpoch g'))"

definition reg_shut :: "string \<Rightarrow> string \<Rightarrow> GateRegistry \<Rightarrow> GateRegistry \<Rightarrow> bool" where
  "reg_shut cell x gr gr' \<longleftrightarrow> (cellID gr = cell \<longrightarrow> cellID gr' = cell \<and>
     (\<forall>g. gates gr x = Some g \<and> gstate g \<noteq> gateOpen \<longrightarrow>
        (\<exists>g'. gates gr' x = Some g' \<and> shut_below g g')))"

lemma gate_step_epoch: "routeEpoch g \<le> routeEpoch (snd (gate_step opr g))"
  by (cases opr) (auto simp: gate_defs Let_def)

interpretation reg_epochs: monotone_steps reg_step "reg_epoch_le x" "\<lambda>opr. opr \<noteq> RReset x" for x
proof unfold_locales
  fix a b c
  assume "reg_epoch_le x a b" "reg_epoch_le x b c"
  then show "reg_epoch_le x a c" unfolding reg_epoch_le_def by (meson order_trans)
next
  fix opr gr
  assume "opr \<noteq> RReset x"
  then show "reg_epoch_le x gr (reg_step opr gr)"
    using reg_step_gate [of gr x _ opr] gate_step_epoch unfolding reg_epoch_le_def
    by (metis order_refl)
qed (simp add: reg_epoch_le_def)

interpretation reg_shuts: monotone_steps reg_step "reg_shut cell x" "\<lambda>opr. \<not> may_open cell x opr"
  for cell x
proof unfold_locales
  fix a b c
  assume ab: "reg_shut cell x a b" and bc: "reg_shut cell x b c"
  show "reg_shut cell x a c"
    unfolding reg_shut_def
  proof (intro impI conjI allI; (elim conjE)?)
    fix g
    assume g: "cellID a = cell" "gates a x = Some g" "gstate g \<noteq> gateOpen"
    with ab obtain h where h: "cellID b = cell" "gates b x = Some h" "shut_below g h"
      by (auto simp: reg_shut_def)
    with bc obtain k where "gates c x = Some k" "shut_below h k"
      by (auto simp: reg_shut_def shut_below_def)
    with h show "\<exists>k. gates c x = Some k \<and> shut_below g k" by (blast intro: shut_below_trans)
  qed (use ab bc in \<open>simp add: reg_shut_def\<close>)
next
  fix opr gr
  assume op: "\<not> may_open cell x opr"
  show "reg_shut cell x gr (reg_step opr gr)"
    unfolding reg_shut_def
  proof (intro impI conjI allI; (elim conjE)?)
    fix g
    assume g: "cellID gr = cell" "gates gr x = Some g" "gstate g \<noteq> gateOpen"
    with op have "opr \<noteq> RReset x" by auto
    with g op obtain g' where "gates (reg_step opr gr) x = Some g'"
        "g' = g \<or> (\<exists>o'. g' = snd (gate_step o' g) \<and> (\<forall>e. o' \<noteq> OpOpen e))"
      using reg_step_gate by blast
    with g(3) show "\<exists>g'. gates (reg_step opr gr) x = Some g' \<and> shut_below g g'"
      using gate_step_shut by (auto simp: shut_below_def)
  qed simp
qed (auto simp: reg_shut_def shut_below_def)

text \<open>Admission sequences: the counter of a gate only grows while it does not wrap.\<close>

lemma gate_step_nextSeq:
  "unat (nextSeq (snd (gate_step opr g))) \<le> unat (nextSeq g) + 1"
  "nextSeq g \<noteq> - 1 \<Longrightarrow> unat (nextSeq g) \<le> unat (nextSeq (snd (gate_step opr g)))"
  by (cases opr; auto simp: gate_defs Let_def unat_u64_Suc unat_u64_Suc_le)+

lemma reg_step_nextSeq:
  assumes "gates gr x = Some g" "opr \<noteq> RReset x" "unat (nextSeq g) + 1 < 2 ^ 64"
  shows "\<exists>g'. gates (reg_step opr gr) x = Some g' \<and> unat (nextSeq g) \<le> unat (nextSeq g')
    \<and> unat (nextSeq g') \<le> unat (nextSeq g) + 1"
proof -
  have "nextSeq g \<noteq> - 1" using assms(3) by (rule u64_not_max)
  then show ?thesis
    using reg_step_gate [OF assms(1,2)] gate_step_nextSeq by (metis le_add1 order_refl)
qed

lemma reg_run_nextSeq:
  assumes "gates gr x = Some g" "RReset x \<notin> set ops" "unat (nextSeq g) + length ops < 2 ^ 64"
  shows "\<exists>g'. gates (fold reg_step ops gr) x = Some g' \<and> unat (nextSeq g) \<le> unat (nextSeq g')
    \<and> unat (nextSeq g') \<le> unat (nextSeq g) + length ops"
  using assms
proof (induction ops arbitrary: gr g)
  case Nil
  then show ?case by simp
next
  case (Cons opr ops)
  then obtain g1 where "gates (reg_step opr gr) x = Some g1" "unat (nextSeq g) \<le> unat (nextSeq g1)"
      "unat (nextSeq g1) \<le> unat (nextSeq g) + 1"
    using reg_step_nextSeq [of gr x g opr] by auto
  with Cons.IH [of "reg_step opr gr" g1] Cons.prems show ?case by fastforce
qed

section \<open>The barrier machine\<close>

lemma cfb_run_gate: "\<exists>ops. cgate (fold cfb_step sched s) = fold (\<lambda>o' g. snd (gate_step o' g)) ops (cgate s)
    \<and> set (map EvOp ops) \<subseteq> set sched"
proof (induction sched arbitrary: s)
  case Nil
  then show ?case by (auto intro!: exI [of _ "[]"])
next
  case (Cons ev sched)
  obtain ops where ops: "cgate (fold cfb_step sched (cfb_step ev s))
      = fold (\<lambda>o' g. snd (gate_step o' g)) ops (cgate (cfb_step ev s))" "set (map EvOp ops) \<subseteq> set sched"
    using Cons.IH by blast
  have "cgate (cfb_step ev s) = cgate s \<or>
      (\<exists>o'. ev = EvOp o' \<and> cgate (cfb_step ev s) = snd (gate_step o' (cgate s)))"
    by (cases ev) (auto split: cfb_pc.splits prod.splits)
  then show ?case
  proof (elim disjE exE conjE)
    fix o'
    assume "ev = EvOp o'" "cgate (cfb_step ev s) = snd (gate_step o' (cgate s))"
    with ops show ?thesis by (intro exI [of _ "o' # ops"]) auto
  qed (use ops in \<open>auto intro!: exI [of _ ops]\<close>)
qed

lemma gate_steps_shut:
  assumes "gstate g \<noteq> gateOpen" "\<forall>e. OpOpen e \<notin> set ops"
  shows "shut_below g (fold (\<lambda>o' g. snd (gate_step o' g)) ops g)"
  using assms
proof (induction ops arbitrary: g)
  case Nil
  then show ?case by (simp add: shut_below_def)
next
  case (Cons opr ops)
  then have "shut_below g (snd (gate_step opr g))" by (intro gate_step_shut) auto
  with Cons show ?case by (auto simp: shut_below_def dest: Cons.IH)
qed

lemma cfb_forced:
  "pc (fold cfb_step sched s) = Returned \<Longrightarrow> pc s \<noteq> Returned \<Longrightarrow>
     inflight (cgate (fold cfb_step sched s)) \<noteq> {} \<Longrightarrow> ctxDone s \<or> EvFire \<in> set sched"
proof (induction sched arbitrary: s)
  case Nil
  then show ?case by simp
next
  case (Cons ev sched)
  have ret: "pc s' = Returned \<Longrightarrow> cgate (fold cfb_step sched s') = cgate s'" for s'
  proof (induction sched arbitrary: s')
    case (Cons e es)
    then have "pc (cfb_step e s') = Returned" "cgate (cfb_step e s') = cgate s'"
      by (cases e; simp)+
    with Cons.IH show ?case by simp
  qed simp
  show ?case
  proof (cases "pc (cfb_step ev s) = Returned")
    case True
    with Cons.prems(2) have "ev = EvWaiter" "inflight (cgate s) = {} \<or> ctxDone s"
        "cgate (cfb_step ev s) = cgate s"
      by (cases ev; auto split: cfb_pc.splits if_splits prod.splits)+
    with ret [OF True] Cons.prems(3) show ?thesis by auto
  next
    case False
    with Cons have "ctxDone (cfb_step ev s) \<or> EvFire \<in> set sched" by simp
    then show ?thesis by (cases ev) (auto split: cfb_pc.splits if_splits prod.splits)
  qed
qed

text \<open>Once every admission has left a draining gate, the waiter is woken and returns.\<close>

lemma cfb_leaves:
  assumes "set sqs = inflight g" "distinct sqs" "sqs \<noteq> []" "gstate g = gateDraining"
  shows "fold cfb_step (map (EvOp \<circ> OpLeave) sqs) \<lparr>pc = Blocked, ctxDone = d, notified = n, cgate = g\<rparr>
       = \<lparr>pc = Check, ctxDone = d, notified = n, cgate = g\<lparr>inflight := {}\<rparr>\<rparr>"
  using assms
proof (induction sqs arbitrary: g)
  case Nil
  then show ?case by simp
next
  case (Cons a sqs)
  show ?case
  proof (cases "inflight g - {a} = {}")
    case True
    then have "set sqs \<subseteq> {a}" "inflight g = {a}" using Cons.prems(1) by auto
    moreover from this Cons.prems(2) have "sqs = []" by (cases sqs) auto
    ultimately show ?thesis using Cons.prems(4) by (simp add: gate_leave_def)
  next
    case False
    have "set sqs = inflight (g\<lparr>inflight := inflight g - {a}\<rparr>)" "sqs \<noteq> []"
      using False Cons.prems by auto
    then show ?thesis
      using Cons.IH [of "g\<lparr>inflight := inflight g - {a}\<rparr>"] Cons.prems False
      by (simp add: gate_leave_def del: Diff_eq_empty_iff)
  qed
qed

lemma cfb_stuck:
  assumes "\<forall>ev\<in>set sched. ev \<in> {EvWaiter, EvFire, EvNotify}"
    and "pc s = Blocked" "ctxDone s" "notified s"
  shows "pc (fold cfb_step sched s) = Blocked"
  using assms
proof (induction sched arbitrary: s)
  case (Cons ev sched)
  then have "pc (cfb_step ev s) = Blocked \<and> ctxDone (cfb_step ev s) \<and> notified (cfb_step ev s)"
    by auto
  with Cons show ?case by auto
qed simp

text \<open>When the call has returned, the tenant's gate is shut, and empty if the cutoff says so.\<close>

lemma barrier_gate:
  assumes "CloseForBarrier sched x b gr = Some (ct, gr1)" "\<forall>e. EvOp (OpOpen e) \<notin> set sched"
  shows "\<exists>g1. gates gr1 x = Some g1 \<and> gstate g1 \<noteq> gateOpen \<and> (Drained ct \<longrightarrow> inflight g1 = {})
     \<and> (Drained ct \<longleftrightarrow> \<not> Forced ct) \<and> (\<forall>y. y \<noteq> x \<longrightarrow> gates gr1 y = gates gr y) \<and> cellID gr1 = cellID gr"
proof -
  let ?s0 = "cfb_init b (getOrCreate x 0 gr)"
  let ?g1 = "cgate (fold cfb_step sched ?s0)"
  have gr1: "gr1 = put_gate x ?g1 gr" "Drained ct \<longrightarrow> inflight ?g1 = {}" "Drained ct \<longleftrightarrow> \<not> Forced ct"
    using assms(1) by (auto simp: CloseForBarrier_def cfb_cutoff_def Let_def split: if_splits)
  obtain ops' where ops': "?g1 = fold (\<lambda>o' g. snd (gate_step o' g)) ops' (cgate ?s0)"
      "set (map EvOp ops') \<subseteq> set sched"
    using cfb_run_gate by blast
  then have "\<forall>e. OpOpen e \<notin> set ops'" using assms(2) by auto
  then have "gstate ?g1 \<noteq> gateOpen"
    using gate_steps_shut [of "cgate ?s0" ops'] ops'(1) by (simp add: cfb_init_def shut_below_def)
  with gr1 show ?thesis by simp
qed

text \<open>In a gate that is not draining, the departures wake nobody.\<close>

lemma cfb_leaves_unseen:
  assumes "gstate g \<noteq> gateDraining"
  shows "fold cfb_step (map (EvOp \<circ> OpLeave) sqs) \<lparr>pc = Blocked, ctxDone = d, notified = n, cgate = g\<rparr>
       = \<lparr>pc = Blocked, ctxDone = d, notified = n, cgate = g\<lparr>inflight := inflight g - set sqs\<rparr>\<rparr>"
  using assms
proof (induction sqs arbitrary: g)
  case (Cons a sqs)
  have "inflight g - {a} - set sqs = inflight g - insert a (set sqs)" by auto
  with Cons show ?case by (simp add: gate_leave_def)
qed simp

section \<open>Properties\<close>

text \<open>An admission is sound. A token is issued only by an open gate at exactly the requested
  route epoch, carries the registry's cell and the next sequence number of that gate, and is
  recorded as in flight.\<close>

theorem try_enter_sound:
  assumes "TryEnter x e gr = (Inr tok, gr')"
  shows "\<exists>g g'. g = getOrCreate x e gr \<and> gates gr' x = Some g' \<and>
     gstate g = gateOpen \<and> acceptingNew g \<and> routeEpoch g = e \<and>
     tok = \<lparr>tokTenantID = x, tokCellID = cellID gr, tokInstanceID = instanceID gr,
            tokRouteEpoch = e, AdmissionSeq = nextSeq g + 1, tokBarrierID = []\<rparr> \<and>
     inflight g' = insert (nextSeq g + 1) (inflight g) \<and> nextSeq g' = nextSeq g + 1"
  using assms
  by (auto simp: TryEnter_def gate_enter_Inr split: prod.splits sum.splits)

theorem try_enter_sound_witness:
  "\<exists>g g'. g = getOrCreate ''t'' 4 (NewGateRegistry ''c1'' ''i'') \<and>
     gates (snd (TryEnter ''t'' 4 (NewGateRegistry ''c1'' ''i''))) ''t'' = Some g' \<and>
     inflight g' = insert (nextSeq g + 1) (inflight g)"
proof -
  have "TryEnter ''t'' 4 (NewGateRegistry ''c1'' ''i'') =
      (Inr \<lparr>tokTenantID = ''t'', tokCellID = ''c1'', tokInstanceID = ''i'', tokRouteEpoch = 4,
            AdmissionSeq = 1, tokBarrierID = []\<rparr>,
       snd (TryEnter ''t'' 4 (NewGateRegistry ''c1'' ''i'')))"
    by (simp add: TryEnter_def NewGateRegistry_def getOrCreate_def newGate_def gate_enter_def)
  from try_enter_sound [OF this] show ?thesis by auto
qed

text \<open>Admission sequences of a tenant strictly increase: a token issued after another one, with
  any operations in between except a \<open>Reset\<close> of the tenant, has a larger sequence number (while the
  64-bit counter is not exhausted).\<close>

theorem admission_seq_increases:
  assumes "TryEnter x e gr = (Inr a, gr1)"
    and "RReset x \<notin> set ops"
    and "unat (AdmissionSeq a) + length ops + 1 < 2 ^ 64"
    and "TryEnter x e' (fold reg_step ops gr1) = (Inr b, gr2)"
  shows "AdmissionSeq a < AdmissionSeq b"
proof -
  from assms(1) obtain g1 where g1: "gates gr1 x = Some g1" "nextSeq g1 = AdmissionSeq a"
    by (auto simp: TryEnter_def gate_enter_Inr split: prod.splits sum.splits)
  with assms(2,3) obtain g2 where g2: "gates (fold reg_step ops gr1) x = Some g2"
      "unat (nextSeq g1) \<le> unat (nextSeq g2)" "unat (nextSeq g2) \<le> unat (nextSeq g1) + length ops"
    using reg_run_nextSeq [of gr1 x g1 ops] by auto
  from assms(4) g2(1) have "AdmissionSeq b = nextSeq g2 + 1"
    by (auto simp: TryEnter_def gate_enter_Inr split: prod.splits sum.splits)
  moreover have "nextSeq g2 \<noteq> - 1"
    using g2(3) assms(3) unfolding g1(2) by (intro u64_not_max) linarith
  ultimately show ?thesis
    using g1(2) g2(2) by (simp add: word_less_nat_alt unat_u64_Suc)
qed

theorem admission_seq_increases_witness:
  "(let gr = NewGateRegistry ''c1'' ''i''; gr1 = snd (TryEnter ''t'' 4 gr)
    in \<exists>a b. fst (TryEnter ''t'' 4 gr) = Inr a
       \<and> fst (TryEnter ''t'' 4 (fold reg_step [RTryEnter ''u'' 1] gr1)) = Inr b
       \<and> AdmissionSeq a < AdmissionSeq b)"
proof -
  let ?gr = "NewGateRegistry ''c1'' ''i''"
  let ?tok = "\<lambda>n. \<lparr>tokTenantID = ''t'', tokCellID = ''c1'', tokInstanceID = ''i'', tokRouteEpoch = 4,
            AdmissionSeq = n, tokBarrierID = []\<rparr>"
  let ?gr1 = "snd (TryEnter ''t'' 4 ?gr)"
  let ?gr2 = "fold reg_step [RTryEnter ''u'' 1] ?gr1"
  have 1: "fst (TryEnter ''t'' 4 ?gr) = Inr (?tok 1)"
    by (simp add: TryEnter_def NewGateRegistry_def getOrCreate_def newGate_def gate_enter_def)
  have 2: "fst (TryEnter ''t'' 4 ?gr2) = Inr (?tok 2)"
    by (simp add: TryEnter_def NewGateRegistry_def getOrCreate_def newGate_def gate_enter_def
        put_gate_def)
  have "AdmissionSeq (?tok 1) < AdmissionSeq (?tok 2)"
    by (rule admission_seq_increases [of "''t''" 4 ?gr "?tok 1" ?gr1 "[RTryEnter ''u'' 1]" 4 "?tok 2"
          "snd (TryEnter ''t'' 4 ?gr2)"])
      (use 1 2 in \<open>simp_all add: prod_eq_iff del: fold_simps\<close>)
  with 1 2 show ?thesis unfolding Let_def by blast
qed

text \<open>The route epoch of a gate never decreases under any registry operations except a \<open>Reset\<close>
  of the tenant: a late \<open>Open\<close> or \<open>Reconcile\<close> with an older route cannot lower it.\<close>

theorem gate_epoch_never_decreases:
  assumes "gates gr x = Some g" and "RReset x \<notin> set ops"
  shows "\<exists>g'. gates (fold reg_step ops gr) x = Some g' \<and> routeEpoch g \<le> routeEpoch g'"
proof -
  have "reg_epoch_le x gr (fold reg_step ops gr)"
    using assms(2) by (intro reg_epochs.run) auto
  with assms(1) show ?thesis by (simp add: reg_epoch_le_def)
qed

theorem gate_epoch_never_decreases_witness:
  "\<exists>g'. gates (fold reg_step [ROpen ''t'' 3, RClose ''t'']
      (Open ''t'' 5 (NewGateRegistry ''c1'' ''i''))) ''t'' = Some g' \<and> routeEpoch (newGate 5) \<le> routeEpoch g'"
  by (rule gate_epoch_never_decreases)
    (simp_all add: Open_def NewGateRegistry_def getOrCreate_def gate_open_def newGate_def)

text \<open>C6: the barrier holds. After \<open>CloseForBarrier\<close> has returned, and until something opens or resets
  the tenant's gate, every admission is refused with \<open>ErrTenantDraining\<close>, what is in flight is a
  subset of what was in flight when it returned, and nothing is in flight if the cutoff says
  drained.\<close>

theorem barrier_holds:
  assumes "CloseForBarrier sched x b gr = Some (ct, gr1)"
    and "\<forall>e. EvOp (OpOpen e) \<notin> set sched"
    and "\<forall>opr\<in>set ops. \<not> may_open (cellID gr) x opr"
  shows "fst (TryEnter x e (fold reg_step ops gr1)) = Inl ErrTenantDraining
    \<and> (\<exists>g1 g'. gates gr1 x = Some g1 \<and> gates (fold reg_step ops gr1) x = Some g'
         \<and> inflight g' \<subseteq> inflight g1)
    \<and> (Drained ct \<longrightarrow> Inflight x (fold reg_step ops gr1) = 0)"
proof -
  obtain g1 where g1: "gates gr1 x = Some g1" "gstate g1 \<noteq> gateOpen" "Drained ct \<longrightarrow> inflight g1 = {}"
    "cellID gr1 = cellID gr"
    using barrier_gate [OF assms(1,2)] by blast
  have "reg_shut (cellID gr) x gr1 (fold reg_step ops gr1)"
    using assms(3) by (intro reg_shuts.run) auto
  with g1 obtain g' where g': "gates (fold reg_step ops gr1) x = Some g'" "shut_below g1 g'"
    by (auto simp: reg_shut_def)
  then have "fst (TryEnter x e (fold reg_step ops gr1)) = Inl ErrTenantDraining"
    by (simp add: TryEnter_def gate_enter_shut shut_below_def)
  with g' g1 show ?thesis by (auto simp: shut_below_def Inflight_def)
qed

definition reg_two :: GateRegistry where
  "reg_two = put_gate ''t'' (newGate 1\<lparr>nextSeq := 2, inflight := {1, 2}\<rparr>) (NewGateRegistry ''c1'' ''i'')"

lemmas gate_eval = reg_two_def CloseForBarrier_def cfb_init_def cfb_cutoff_def NewGateRegistry_def
  getOrCreate_def put_gate_def newGate_def gate_leave_def gate_drain_def gate_close_def Let_def

theorem barrier_holds_witness:
  "(let sched = [EvWaiter, EvWaiter, EvOp (OpLeave 1), EvOp (OpLeave 2), EvWaiter];
        gr1 = snd (the (CloseForBarrier sched ''t'' 2 reg_two))
    in fst (TryEnter ''t'' 1 (fold reg_step [RTryEnter ''t'' 1, ROpen ''u'' 9] gr1)) = Inl ErrTenantDraining
       \<and> Inflight ''t'' (fold reg_step [RTryEnter ''t'' 1, ROpen ''u'' 9] gr1) = 0)"
proof -
  let ?sched = "[EvWaiter, EvWaiter, EvOp (OpLeave 1), EvOp (OpLeave 2), EvWaiter]"
  obtain ct gr1 where r: "CloseForBarrier ?sched ''t'' 2 reg_two = Some (ct, gr1)" "Drained ct"
    by (simp add: gate_eval)
  have "\<forall>opr\<in>set [RTryEnter ''t'' 1, ROpen ''u'' 9]. \<not> may_open (cellID reg_two) ''t'' opr" by simp
  from barrier_holds [OF r(1) _ this, of 1] r show ?thesis by (simp add: Let_def del: fold_simps)
qed

text \<open>The barrier's report is accurate. When \<open>CloseForBarrier\<close> returns, it reports drained exactly
  when nothing is in flight any more, forced exactly otherwise, and forced only if its
  context was done.\<close>

theorem barrier_report:
  assumes "CloseForBarrier sched x b gr = Some (ct, gr1)"
  shows "(\<exists>g1. gates gr1 x = Some g1 \<and> Drained ct = (inflight g1 = {}))
    \<and> Forced ct = (\<not> Drained ct) \<and> (Forced ct \<longrightarrow> EvFire \<in> set sched)"
  using assms cfb_forced [of sched "cfb_init b (getOrCreate x 0 gr)"]
  by (auto simp: CloseForBarrier_def cfb_cutoff_def cfb_init_def Let_def split: if_splits)

theorem barrier_report_witness:
  "(let sched = [EvWaiter, EvWaiter, EvOp (OpLeave 1), EvFire, EvNotify, EvWaiter];
        ct = fst (the (CloseForBarrier sched ''t'' 2 reg_two))
    in Forced ct \<and> Forced ct = (\<not> Drained ct) \<and> EvFire \<in> set sched)"
proof -
  let ?sched = "[EvWaiter, EvWaiter, EvOp (OpLeave 1), EvFire, EvNotify, EvWaiter]"
  obtain ct gr1 where r: "CloseForBarrier ?sched ''t'' 2 reg_two = Some (ct, gr1)" "Forced ct"
    by (simp add: gate_eval)
  from barrier_report [OF r(1)] r show ?thesis by (simp add: Let_def)
qed

text \<open>the barrier drains. From an open or draining gate, when all the work in flight leaves while
  the waiter is blocked, in whatever order, \<open>CloseForBarrier\<close> returns with a drained cutoff whose
  \<open>MaxSeq\<close> is the last admission of the gate, and the gate is empty and draining.\<close>

theorem barrier_drains:
  assumes "gates gr x = Some g" "gstate g \<noteq> gateClosed"
    and "set sqs = inflight g" "distinct sqs" "sqs \<noteq> []"
  shows "CloseForBarrier (EvWaiter # EvWaiter # map (EvOp \<circ> OpLeave) sqs @ [EvWaiter]) x b gr =
    Some (\<lparr>cutTenantID = x, cutInstanceID = instanceID gr, cutBarrierEpoch = b, MaxSeq = nextSeq g,
           Drained = True, Forced = False\<rparr>,
          put_gate x (gate_drain b g\<lparr>inflight := {}\<rparr>) gr)"
proof -
  let ?g = "gate_drain b g"
  have g: "gstate ?g = gateDraining" "inflight ?g = inflight g" "cutoffSeq ?g = nextSeq g"
    using assms(2) by (simp_all add: gate_drain_def)
  have "inflight g \<noteq> {}" using assms(3,5) by (metis set_empty)
  with g assms cfb_leaves [of sqs ?g False False] show ?thesis
    by (simp add: CloseForBarrier_def cfb_init_def cfb_cutoff_def Let_def comp_def)
qed

theorem barrier_drains_witness:
  "CloseForBarrier (EvWaiter # EvWaiter # map (EvOp \<circ> OpLeave) [2, 1] @ [EvWaiter]) ''t'' 2 reg_two =
    Some (\<lparr>cutTenantID = ''t'', cutInstanceID = ''i'', cutBarrierEpoch = 2, MaxSeq = 2,
           Drained = True, Forced = False\<rparr>,
          put_gate ''t'' (gate_drain 2 (newGate 1\<lparr>nextSeq := 2, inflight := {1, 2}\<rparr>)\<lparr>inflight := {}\<rparr>) reg_two)"
  using barrier_drains [of reg_two "''t''" "newGate 1\<lparr>nextSeq := 2, inflight := {1, 2}\<rparr>" "[2, 1]" 2]
  by (simp add: reg_two_def newGate_def NewGateRegistry_def insert_commute)

text \<open>a barrier is not released when its gate is closed. If the gate is closed while the waiter
  is blocked, the waiter checks its condition, blocks again, and then all the work can leave
  without waking it: it stays blocked on an empty gate (departures only signal a draining gate)
  until its context is done.\<close>

theorem close_strands_barrier:
  assumes "gates gr x = Some g" "gstate g \<noteq> gateClosed" "inflight g \<noteq> {}" "set sqs = inflight g"
  shows "(let s = fold cfb_step ([EvWaiter, EvWaiter, EvOp OpClose, EvWaiter, EvWaiter]
              @ map (EvOp \<circ> OpLeave) sqs) (cfb_init b (getOrCreate x 0 gr))
          in pc s = Blocked \<and> inflight (cgate s) = {} \<and> \<not> ctxDone s)"
proof -
  let ?g = "snd (gate_close (gate_drain b g))"
  have "gstate ?g \<noteq> gateDraining" "inflight ?g = inflight g" by (simp_all add: gate_close_def)
  with assms cfb_leaves_unseen [of ?g sqs False False] show ?thesis
    by (simp add: cfb_init_def gate_close_def Let_def comp_def)
qed

theorem close_strands_barrier_witness:
  "(let s = fold cfb_step ([EvWaiter, EvWaiter, EvOp OpClose, EvWaiter, EvWaiter]
        @ map (EvOp \<circ> OpLeave) [1, 2]) (cfb_init 2 (getOrCreate ''t'' 0 reg_two))
    in pc s = Blocked \<and> inflight (cgate s) = {} \<and> \<not> ctxDone s)"
  by (rule close_strands_barrier [of _ _ "newGate 1\<lparr>nextSeq := 2, inflight := {1, 2}\<rparr>"])
    (simp_all add: reg_two_def newGate_def)

text \<open>the wake-up on context expiry can be lost. If the context is done and its helper broadcasts
  after the waiter has evaluated the loop condition and before it is on the notification list,
  then the waiter blocks and, with work still in flight that never leaves, nothing that
  remains to happen returns the call.\<close>

theorem ctx_wakeup_can_be_lost:
  assumes "gates gr x = Some g" "inflight g \<noteq> {}"
    and "\<forall>ev\<in>set sched. ev \<in> {EvWaiter, EvFire, EvNotify}"
  shows "CloseForBarrier ([EvWaiter, EvFire, EvNotify, EvWaiter] @ sched) x b gr = None"
proof -
  let ?s = "\<lparr>pc = Blocked, ctxDone = True, notified = True, cgate = gate_drain b g\<rparr>"
  have "pc (fold cfb_step sched ?s) = Blocked"
    using assms(3) by (rule cfb_stuck) simp_all
  with assms(1,2) show ?thesis by (simp add: CloseForBarrier_def cfb_init_def Let_def)
qed

theorem ctx_wakeup_can_be_lost_witness:
  "CloseForBarrier ([EvWaiter, EvFire, EvNotify, EvWaiter] @ [EvWaiter, EvNotify, EvWaiter])
     ''t'' 2 reg_two = None"
  by (rule ctx_wakeup_can_be_lost [of _ _ "newGate 1\<lparr>nextSeq := 2, inflight := {1, 2}\<rparr>"])
    (simp_all add: reg_two_def newGate_def)

end
