(* ===== verification/Cells_Plane.thy ===== *)
theory Cells_Plane
  imports Cells_Gate
begin

text \<open>
  The planes the move controller drives: the L3 storage fence, in memory (\<^verbatim>\<open>src/cells/plane.go\<close>)
  and in the database with its write-guard (\<^verbatim>\<open>src/persistence/gormtx/fence.go\<close>), the L4 event
  barrier in memory and in the database (\<^verbatim>\<open>plane.go\<close>, \<^verbatim>\<open>src/persistence/gormtx/eventbarrier.go\<close>),
  the per-tenant unavailability budget (\<^verbatim>\<open>budget.go\<close>) and the placement policies
  (\<^verbatim>\<open>placement.go\<close>).
\<close>

section \<open>The in-memory fencer\<close>

record fenceState =
  ownerCell :: string
  fepoch :: u64
  sealed :: bool

definition zero_fence :: fenceState where
  "zero_fence = \<lparr>ownerCell = [], fepoch = 0, sealed = False\<rparr>"

type_synonym MemFencer = "string \<Rightarrow> fenceState option"

definition memf_Seal :: "string \<Rightarrow> u64 \<Rightarrow> MemFencer \<Rightarrow> cerr option \<times> MemFencer" where
  "memf_Seal tenantID barrierEpoch f =
     (let cur = get_or zero_fence f tenantID
      in if barrierEpoch < fepoch cur then (Some ErrFenceRegression, f)
         else (None, f(tenantID \<mapsto> \<lparr>ownerCell = ownerCell cur, fepoch = barrierEpoch, sealed = True\<rparr>)))"

definition memf_SetOwner :: "string \<Rightarrow> string \<Rightarrow> u64 \<Rightarrow> MemFencer \<Rightarrow> cerr option \<times> MemFencer" where
  "memf_SetOwner tenantID owner rEpoch f =
     (let cur = get_or zero_fence f tenantID
      in if rEpoch < fepoch cur then (Some ErrFenceRegression, f)
         else (None, f(tenantID \<mapsto> \<lparr>ownerCell = owner, fepoch = rEpoch, sealed = False\<rparr>)))"

definition memf_Allow :: "string \<Rightarrow> string \<Rightarrow> u64 \<Rightarrow> MemFencer \<Rightarrow> bool" where
  "memf_Allow tenantID cell rEpoch f =
     (case f tenantID of
        None \<Rightarrow> True
      | Some cur \<Rightarrow> if sealed cur then False else cell = ownerCell cur \<and> rEpoch = fepoch cur)"

section \<open>The in-memory event barrier\<close>

type_synonym MemEventBarrier = "string \<Rightarrow> (EventPolicy \<times> u64) option"

definition memb_SetPolicy ::
  "string \<Rightarrow> EventPolicy \<Rightarrow> u64 \<Rightarrow> MemEventBarrier \<Rightarrow> cerr option \<times> MemEventBarrier" where
  "memb_SetPolicy tenantID policy eEpoch b =
     (case b tenantID of
        Some cur \<Rightarrow> if eEpoch < snd cur then (Some ErrFenceRegression, b)
                    else (None, b(tenantID \<mapsto> (policy, eEpoch)))
      | None \<Rightarrow> (None, b(tenantID \<mapsto> (policy, eEpoch))))"

definition memb_Drained :: "string \<Rightarrow> u64 \<Rightarrow> MemEventBarrier \<Rightarrow> cerr + bool" where
  "memb_Drained tenantID eEpoch b = Inr True"

definition memb_Policy :: "string \<Rightarrow> MemEventBarrier \<Rightarrow> EventPolicy \<times> u64" where
  "memb_Policy tenantID b = get_or (PolicyNormal, 0) b tenantID"

section \<open>The database fencer and its write-guard\<close>

text \<open>
  The table \<^verbatim>\<open>tenant_fence\<close> is a map from tenant to row. Its \<^verbatim>\<open>BIGINT\<close> columns hold the bits of the
  \<^verbatim>\<open>uint64\<close> epochs (\<^verbatim>\<open>int64(e)\<close> and back), so they are words here too. The database may fail to
  read or to write; a failed transaction is rolled back.
\<close>

record TenantFenceRow =
  OwnerCell :: string
  rowRouteEpoch :: u64
  Sealed :: bool
  rowBarrierEpoch :: u64

type_synonym fence_table = "string \<Rightarrow> TenantFenceRow option"

record db_io =
  read_err :: "cerr option"
  write_err :: "cerr option"

definition db_ok :: db_io where
  "db_ok = \<lparr>read_err = None, write_err = None\<rparr>"

definition zero_fence_row :: TenantFenceRow where
  "zero_fence_row = \<lparr>OwnerCell = [], rowRouteEpoch = 0, Sealed = False, rowBarrierEpoch = 0\<rparr>"

definition fence_upsert :: "db_io \<Rightarrow> string \<Rightarrow> (TenantFenceRow \<Rightarrow> cerr + TenantFenceRow)
    \<Rightarrow> fence_table \<Rightarrow> cerr option \<times> fence_table" where
  "fence_upsert io tenantID mutate db =
     (case read_err io of
        Some e \<Rightarrow> (Some (Wrap ''read fence'' e), db)
      | None \<Rightarrow>
          (case mutate (get_or zero_fence_row db tenantID) of
             Inl e \<Rightarrow> (Some e, db)
           | Inr row \<Rightarrow>
               (case write_err io of
                  Some e \<Rightarrow> (Some (Wrap ''write fence'' e), db)
                | None \<Rightarrow> (None, db(tenantID \<mapsto> row)))))"

definition gorm_Seal :: "db_io \<Rightarrow> string \<Rightarrow> u64 \<Rightarrow> fence_table \<Rightarrow> cerr option \<times> fence_table" where
  "gorm_Seal io tenantID barrierEpoch =
     fence_upsert io tenantID (\<lambda>cur.
       if barrierEpoch < rowBarrierEpoch cur then Inl ErrFenceRegression
       else Inr (cur\<lparr>Sealed := True, rowBarrierEpoch := barrierEpoch\<rparr>))"

definition gorm_SetOwner ::
  "db_io \<Rightarrow> string \<Rightarrow> string \<Rightarrow> u64 \<Rightarrow> fence_table \<Rightarrow> cerr option \<times> fence_table" where
  "gorm_SetOwner io tenantID owner rEpoch =
     fence_upsert io tenantID (\<lambda>cur.
       if rEpoch < rowRouteEpoch cur then Inl ErrFenceRegression
       else Inr (cur\<lparr>OwnerCell := owner, rowRouteEpoch := rEpoch, Sealed := False\<rparr>))"

text \<open>
  The guard sees of a pending statement: whether it already failed or has no schema, its
  table, whether the model has an \<^verbatim>\<open>account_id\<close> column, the admission token of the writer's context and
  the tenant value that \<^verbatim>\<open>tenantValueFromStatement\<close> finds in the destination.
\<close>

datatype stmt_dest = DestInvalid | DestStruct "string option" | DestOther

record guard_stmt =
  stFailed :: bool
  stTable :: string
  stHasAccountID :: bool
  stToken :: "AdmissionToken option"
  stDest :: stmt_dest

datatype guard_result = GuardPass | GuardError cerr | GuardFenced string string u64

definition frameworkTables :: "string list" where
  "frameworkTables = [''tenant_fence'', ''tenant_event_seq'', ''tenant_event_policy'', ''outbox'',
     ''outbox_dispatch_cursor'', ''outbox_dead_letter'', ''idempotency_markers'']"

definition isFrameworkTable :: "string \<Rightarrow> bool" where
  "isFrameworkTable table = list_ex (\<lambda>b. table = b \<or> has_suffix table b) frameworkTables"

fun tenantValueFromStatement :: "stmt_dest \<Rightarrow> string option" where
  "tenantValueFromStatement (DestStruct (Some s)) = (if s = [] then None else Some s)"
| "tenantValueFromStatement _ = None"

definition guard_allow :: "db_io \<Rightarrow> string \<Rightarrow> AdmissionToken \<Rightarrow> fence_table \<Rightarrow> cerr + bool" where
  "guard_allow io tenantID tok db =
     (case read_err io of
        Some e \<Rightarrow> Inl (Wrap ''read fence'' e)
      | None \<Rightarrow>
          (case db tenantID of
             None \<Rightarrow> Inr True
           | Some row \<Rightarrow>
               if Sealed row then Inr False
               else Inr (OwnerCell row = tokCellID tok \<and> rowRouteEpoch row = tokRouteEpoch tok)))"

definition guard_check :: "db_io \<Rightarrow> guard_stmt \<Rightarrow> fence_table \<Rightarrow> guard_result" where
  "guard_check io st db =
     (if stFailed st then GuardPass
      else if isFrameworkTable (stTable st) then GuardPass
      else if \<not> stHasAccountID st then GuardPass
      else case stToken st of
        None \<Rightarrow> GuardPass
      | Some tok \<Rightarrow>
          (case tenantValueFromStatement (stDest st) of
             None \<Rightarrow> GuardPass
           | Some tenantID \<Rightarrow>
               (case guard_allow io tenantID tok db of
                  Inl e \<Rightarrow> GuardError (Wrap ''tenant write-guard'' e)
                | Inr True \<Rightarrow> GuardPass
                | Inr False \<Rightarrow> GuardFenced tenantID (tokCellID tok) (tokRouteEpoch tok))))"

section \<open>The database event barrier\<close>

record TenantEventPolicyRow =
  polPolicy :: EventPolicy
  polEventEpoch :: u64

type_synonym policy_table = "string \<Rightarrow> TenantEventPolicyRow option"

record OutboxRow =
  oxID :: string
  oxAccount :: string
  oxCreated :: go_time
  oxEventEpoch :: u64

record OutboxCursor =
  curCreated :: go_time
  curID :: string

definition cursor_IsZero :: "OutboxCursor \<Rightarrow> bool" where
  "cursor_IsZero c \<longleftrightarrow> time_is_zero (curCreated c) \<and> curID c = []"

definition gormb_SetPolicy :: "db_io \<Rightarrow> string \<Rightarrow> EventPolicy \<Rightarrow> u64 \<Rightarrow> policy_table
    \<Rightarrow> cerr option \<times> policy_table" where
  "gormb_SetPolicy io tenantID policy eEpoch db =
     (let write = (case write_err io of
         Some e \<Rightarrow> (Some (Wrap ''write event policy'' e), db)
       | None \<Rightarrow> (None, db(tenantID \<mapsto> \<lparr>polPolicy = policy, polEventEpoch = eEpoch\<rparr>)))
      in case read_err io of
           Some e \<Rightarrow> (Some (Wrap ''read event policy'' e), db)
         | None \<Rightarrow>
             (case db tenantID of
                Some cur \<Rightarrow> if eEpoch < polEventEpoch cur then (Some ErrFenceRegression, db) else write
              | None \<Rightarrow> write))"

text \<open>SQL compares the \<^verbatim>\<open>BIGINT\<close> columns as signed numbers, and strings bytewise.\<close>

fun str_less :: "string \<Rightarrow> string \<Rightarrow> bool" where
  "str_less [] [] = False"
| "str_less [] (d # ds) = True"
| "str_less (c # cs) [] = False"
| "str_less (c # cs) (d # ds) =
     (if c = d then str_less cs ds else (of_char c :: nat) < of_char d)"

definition after_cursor :: "OutboxCursor \<Rightarrow> OutboxRow \<Rightarrow> bool" where
  "after_cursor c r \<longleftrightarrow> oxCreated r > curCreated c \<or>
     (oxCreated r = curCreated c \<and> str_less (curID c) (oxID r))"

definition pending_rows :: "string \<Rightarrow> u64 \<Rightarrow> OutboxCursor \<Rightarrow> OutboxRow list \<Rightarrow> OutboxRow list" where
  "pending_rows tenantID eEpoch cursor rows =
     filter (\<lambda>r. oxAccount r = tenantID \<and> sint (oxEventEpoch r) \<le> sint eEpoch
        \<and> (cursor_IsZero cursor \<or> after_cursor cursor r)) rows"

definition gormb_Drained :: "db_io \<Rightarrow> (cerr + OutboxCursor) option \<Rightarrow> string \<Rightarrow> u64
    \<Rightarrow> OutboxRow list \<Rightarrow> cerr + bool" where
  "gormb_Drained io cursors tenantID eEpoch rows =
     (let count = (\<lambda>cursor. case read_err io of
          Some e \<Rightarrow> Inl (Wrap ''count pending outbox rows'' e)
        | None \<Rightarrow> Inr (length (pending_rows tenantID eEpoch cursor rows) = 0))
      in case cursors of
           None \<Rightarrow> count \<lparr>curCreated = 0, curID = []\<rparr>
         | Some (Inl e) \<Rightarrow> Inl (Wrap ''load relay cursor'' e)
         | Some (Inr c) \<Rightarrow> count c)"

section \<open>The unavailability budget\<close>

text \<open>A reading of the injected clock is the calendar year and month it falls in.\<close>

record budgetLedger =
  lyear :: int
  lmonth :: nat
  spent :: duration

record BudgetMeter =
  defaultBudget :: duration
  ledgers :: "string \<Rightarrow> budgetLedger option"

definition DefaultMonthlyBudget :: duration where
  "DefaultMonthlyBudget = 130 * 1000000000"

definition NewBudgetMeter :: "duration option \<Rightarrow> BudgetMeter" where
  "NewBudgetMeter withTenantBudget =
     \<lparr>defaultBudget = (case withTenantBudget of Some d \<Rightarrow> if d > 0 then d else DefaultMonthlyBudget
        | None \<Rightarrow> DefaultMonthlyBudget), ledgers = Map.empty\<rparr>"

definition ledgerLocked :: "int \<times> nat \<Rightarrow> string \<Rightarrow> BudgetMeter \<Rightarrow> budgetLedger" where
  "ledgerLocked ym tenantID m =
     (let fresh = \<lparr>lyear = fst ym, lmonth = snd ym, spent = 0\<rparr>
      in case ledgers m tenantID of
           None \<Rightarrow> fresh
         | Some l \<Rightarrow> if lyear l \<noteq> fst ym \<or> lmonth l \<noteq> snd ym then fresh else l)"

definition put_ledger :: "string \<Rightarrow> budgetLedger \<Rightarrow> BudgetMeter \<Rightarrow> BudgetMeter" where
  "put_ledger tenantID l m = m\<lparr>ledgers := (ledgers m)(tenantID \<mapsto> l)\<rparr>"

definition Remaining :: "int \<times> nat \<Rightarrow> string \<Rightarrow> BudgetMeter \<Rightarrow> duration \<times> BudgetMeter" where
  "Remaining ym tenantID m =
     (let l = ledgerLocked ym tenantID m; r = wrap64 (defaultBudget m - spent l)
      in (if r < 0 then 0 else r, put_ledger tenantID l m))"

definition Allowed :: "int \<times> nat \<Rightarrow> string \<Rightarrow> duration \<Rightarrow> BudgetMeter \<Rightarrow> bool \<times> BudgetMeter" where
  "Allowed ym tenantID estimate m =
     (let l = ledgerLocked ym tenantID m
      in (wrap64 (spent l + estimate) \<le> defaultBudget m, put_ledger tenantID l m))"

definition Record :: "int \<times> nat \<Rightarrow> string \<Rightarrow> duration \<Rightarrow> BudgetMeter \<Rightarrow> BudgetMeter" where
  "Record ym tenantID d m =
     (if d \<le> 0 then m
      else let l = ledgerLocked ym tenantID m
           in put_ledger tenantID (l\<lparr>spent := wrap64 (spent l + d)\<rparr>) m)"

section \<open>Placement\<close>

definition StickyDefaultPolicy :: "string \<Rightarrow> string \<Rightarrow> string list \<Rightarrow> cerr + string" where
  "StickyDefaultPolicy defaultCell tenantID cls =
     Inr (if defaultCell = [] then DefaultCellID else defaultCell)"

definition RoundRobinPolicy :: "string \<Rightarrow> string list \<Rightarrow> nat \<Rightarrow> (cerr + string) \<times> nat" where
  "RoundRobinPolicy tenantID cls nxt =
     (if cls = [] then (Inl ErrNoCells, nxt) else (Inr (cls ! (nxt mod length cls)), nxt + 1))"

fun least_loaded_scan :: "(string \<Rightarrow> int) \<Rightarrow> string \<Rightarrow> int \<Rightarrow> string list \<Rightarrow> string" where
  "least_loaded_scan load best bestLoad [] = best"
| "least_loaded_scan load best bestLoad (c # cs) =
     (if load c < bestLoad then least_loaded_scan load c (load c) cs
      else least_loaded_scan load best bestLoad cs)"

definition LeastLoadedPolicy :: "(string \<Rightarrow> int) \<Rightarrow> string \<Rightarrow> string list \<Rightarrow> cerr + string" where
  "LeastLoadedPolicy load tenantID cls =
     (case cls of [] \<Rightarrow> Inl ErrNoCells | c # cs \<Rightarrow> Inr (least_loaded_scan load c (load c) cs))"

section \<open>The interface Fencer\<close>

text \<open>
  What the controller and the write-guards rely on: a failed call changes nothing, a seal shuts
  every writer out, an installed owner is the only writer, the calls for one tenant do not
  touch another, and the epoch at which writes are let in never goes back.
\<close>

datatype fence_op = FSeal string u64 | FOwn string string u64

fun fence_step :: "(string \<Rightarrow> u64 \<Rightarrow> 's \<Rightarrow> cerr option \<times> 's)
    \<Rightarrow> (string \<Rightarrow> string \<Rightarrow> u64 \<Rightarrow> 's \<Rightarrow> cerr option \<times> 's) \<Rightarrow> fence_op \<Rightarrow> 's \<Rightarrow> 's" where
  "fence_step seal own (FSeal t b) s = snd (seal t b s)"
| "fence_step seal own (FOwn t c e) s = snd (own t c e s)"

locale storage_fence =
  fixes seal :: "string \<Rightarrow> u64 \<Rightarrow> 's \<Rightarrow> cerr option \<times> 's"
    and own :: "string \<Rightarrow> string \<Rightarrow> u64 \<Rightarrow> 's \<Rightarrow> cerr option \<times> 's"
    and allow :: "string \<Rightarrow> string \<Rightarrow> u64 \<Rightarrow> 's \<Rightarrow> bool"
    and epoch_of :: "'s \<Rightarrow> string \<Rightarrow> u64 option"
  assumes seal_err: "seal t b s = (Some er, s') \<Longrightarrow> s' = s"
    and own_err: "own t c e s = (Some er, s') \<Longrightarrow> s' = s"
    and seal_ok: "seal t b s = (None, s') \<Longrightarrow> \<not> allow t c e s'"
    and own_ok: "own t c e s = (None, s') \<Longrightarrow> allow t c' e' s' \<longleftrightarrow> c' = c \<and> e' = e"
    and own_epoch: "own t c e s = (None, s') \<Longrightarrow> epoch_of s' t = Some e"
    and seal_other: "seal t b s = (r, s') \<Longrightarrow> x \<noteq> t \<Longrightarrow>
      epoch_of s' x = epoch_of s x \<and> allow x c e s' = allow x c e s"
    and own_other: "own t c' e' s = (r, s') \<Longrightarrow> x \<noteq> t \<Longrightarrow>
      epoch_of s' x = epoch_of s x \<and> allow x c e s' = allow x c e s"
    and seal_mono: "seal t b s = (r, s') \<Longrightarrow> epoch_of s t = Some n \<Longrightarrow>
      \<exists>n'. epoch_of s' t = Some n' \<and> n \<le> n'"
    and own_mono: "own t c e s = (r, s') \<Longrightarrow> epoch_of s t = Some n \<Longrightarrow>
      \<exists>n'. epoch_of s' t = Some n' \<and> n \<le> n'"
    and allow_epoch: "epoch_of s t = Some n \<Longrightarrow> allow t c e s \<Longrightarrow> e = n"
begin

lemma step_epoch:
  assumes "epoch_of s x = Some n"
  shows "\<exists>n'. epoch_of (fence_step seal own opr s) x = Some n' \<and> n \<le> n'"
proof (cases opr)
  case (FSeal t b)
  then show ?thesis
    using assms seal_mono [of t b s] seal_other [of t b s] by (cases "seal t b s"; cases "x = t") auto
next
  case (FOwn t c e)
  then show ?thesis
    using assms own_mono [of t c e s] own_other [of t c e s]
    by (cases "own t c e s"; cases "x = t") auto
qed

lemma run_epoch:
  "epoch_of s x = Some n \<Longrightarrow>
     \<exists>n'. epoch_of (fold (fence_step seal own) ops s) x = Some n' \<and> n \<le> n'"
proof (induction ops arbitrary: s n)
  case (Cons opr ops)
  then obtain m where "epoch_of (fence_step seal own opr s) x = Some m" "n \<le> m"
    using step_epoch by blast
  with Cons.IH [of "fence_step seal own opr s" m] show ?case by (auto intro: order_trans)
qed simp

lemma zombie_fenced:
  assumes "own t c2 e2 s = (None, s')" "e1 < e2"
  shows "\<not> allow t c1 e1 (fold (fence_step seal own) ops s')"
proof -
  obtain n where "epoch_of (fold (fence_step seal own) ops s') t = Some n" "e2 \<le> n"
    using run_epoch [OF own_epoch [OF assms(1)]] by blast
  with assms(2) allow_epoch show ?thesis by fastforce
qed

end

interpretation memf: storage_fence memf_Seal memf_SetOwner memf_Allow
    "\<lambda>f t. map_option fepoch (f t)"
  by unfold_locales
    (auto simp: memf_Seal_def memf_SetOwner_def memf_Allow_def Let_def get_or_def
      split: if_splits option.splits)

definition mk_tok :: "string \<Rightarrow> u64 \<Rightarrow> AdmissionToken" where
  "mk_tok c e = \<lparr>tokTenantID = [], tokCellID = c, tokInstanceID = [], tokRouteEpoch = e,
     AdmissionSeq = 0, tokBarrierID = []\<rparr>"

definition gorm_lets :: "string \<Rightarrow> string \<Rightarrow> u64 \<Rightarrow> fence_table \<Rightarrow> bool" where
  "gorm_lets t c e db \<longleftrightarrow> guard_allow db_ok t (mk_tok c e) db = Inr True"

lemma gorm_lets_iff: "gorm_lets t c e db \<longleftrightarrow>
    (case db t of None \<Rightarrow> True | Some row \<Rightarrow> \<not> Sealed row \<and> OwnerCell row = c \<and> rowRouteEpoch row = e)"
  by (auto simp: gorm_lets_def guard_allow_def db_ok_def mk_tok_def split: option.split)

lemma fence_upsert_None: "fence_upsert io t mut db = (None, db') \<longleftrightarrow>
    read_err io = None \<and> write_err io = None \<and>
    (\<exists>row. mut (get_or zero_fence_row db t) = Inr row \<and> db' = db(t \<mapsto> row))"
  by (auto simp: fence_upsert_def split: option.splits sum.splits)

lemma fence_upsert_Some: "fence_upsert io t mut db = (Some er, db') \<Longrightarrow> db' = db"
  by (auto simp: fence_upsert_def split: option.splits sum.splits)

lemma fence_upsert_cases: "fence_upsert io t mut db = (r, db') \<Longrightarrow>
    db' = db \<or> (r = None \<and> (\<exists>row. mut (get_or zero_fence_row db t) = Inr row \<and> db' = db(t \<mapsto> row)))"
  by (cases r) (auto simp: fence_upsert_None dest: fence_upsert_Some)

interpretation gormf: storage_fence "gorm_Seal io" "gorm_SetOwner io" gorm_lets
    "\<lambda>db t. map_option rowRouteEpoch (db t)" for io
proof unfold_locales
  fix t b s er s' c e c' e' r x n
  show "gorm_Seal io t b s = (Some er, s') \<Longrightarrow> s' = s"
    unfolding gorm_Seal_def by (rule fence_upsert_Some)
  show "gorm_SetOwner io t c e s = (Some er, s') \<Longrightarrow> s' = s"
    unfolding gorm_SetOwner_def by (rule fence_upsert_Some)
  show "gorm_Seal io t b s = (None, s') \<Longrightarrow> \<not> gorm_lets t c e s'"
    by (auto simp: gorm_Seal_def fence_upsert_None gorm_lets_iff split: if_splits)
  show "gorm_SetOwner io t c e s = (None, s') \<Longrightarrow> gorm_lets t c' e' s' \<longleftrightarrow> c' = c \<and> e' = e"
    by (auto simp: gorm_SetOwner_def fence_upsert_None gorm_lets_iff split: if_splits)
  show "gorm_SetOwner io t c e s = (None, s') \<Longrightarrow> map_option rowRouteEpoch (s' t) = Some e"
    by (auto simp: gorm_SetOwner_def fence_upsert_None split: if_splits)
  show "gorm_Seal io t b s = (r, s') \<Longrightarrow> x \<noteq> t \<Longrightarrow>
      map_option rowRouteEpoch (s' x) = map_option rowRouteEpoch (s x) \<and>
      gorm_lets x c e s' = gorm_lets x c e s"
    unfolding gorm_Seal_def by (auto dest: fence_upsert_cases simp: gorm_lets_iff)
  show "gorm_SetOwner io t c' e' s = (r, s') \<Longrightarrow> x \<noteq> t \<Longrightarrow>
      map_option rowRouteEpoch (s' x) = map_option rowRouteEpoch (s x) \<and>
      gorm_lets x c e s' = gorm_lets x c e s"
    unfolding gorm_SetOwner_def by (auto dest: fence_upsert_cases simp: gorm_lets_iff)
  show "gorm_Seal io t b s = (r, s') \<Longrightarrow> map_option rowRouteEpoch (s t) = Some n \<Longrightarrow>
      \<exists>n'. map_option rowRouteEpoch (s' t) = Some n' \<and> n \<le> n'"
    unfolding gorm_Seal_def by (auto dest!: fence_upsert_cases split: if_splits)
  show "gorm_SetOwner io t c e s = (r, s') \<Longrightarrow> map_option rowRouteEpoch (s t) = Some n \<Longrightarrow>
      \<exists>n'. map_option rowRouteEpoch (s' t) = Some n' \<and> n \<le> n'"
    unfolding gorm_SetOwner_def by (auto dest!: fence_upsert_cases split: if_splits)
  show "map_option rowRouteEpoch (s t) = Some n \<Longrightarrow> gorm_lets t c e s \<Longrightarrow> e = n"
    by (auto simp: gorm_lets_iff)
qed

section \<open>The database fence against the in-memory one\<close>

definition fence_rel :: "MemFencer \<Rightarrow> fence_table \<Rightarrow> bool" where
  "fence_rel f db \<longleftrightarrow> (\<forall>t. case (f t, db t) of
      (None, None) \<Rightarrow> True
    | (Some m, Some row) \<Rightarrow> rowRouteEpoch row \<le> fepoch m \<and> rowBarrierEpoch row \<le> fepoch m
        \<and> Sealed row = sealed m \<and> OwnerCell row = ownerCell m
        \<and> (sealed m \<or> rowRouteEpoch row = fepoch m)
    | _ \<Rightarrow> False)"

lemma fence_rel_get:
  assumes "fence_rel f db"
  shows "rowRouteEpoch (get_or zero_fence_row db t) \<le> fepoch (get_or zero_fence f t)"
    and "rowBarrierEpoch (get_or zero_fence_row db t) \<le> fepoch (get_or zero_fence f t)"
    and "OwnerCell (get_or zero_fence_row db t) = ownerCell (get_or zero_fence f t)"
  using assms [unfolded fence_rel_def, rule_format, of t]
  by (auto simp: get_or_def zero_fence_def zero_fence_row_def split: option.splits prod.splits)

lemma fence_rel_upd:
  assumes "fence_rel f db" and "case (Some m, Some row) of (Some m, Some row) \<Rightarrow>
      rowRouteEpoch row \<le> fepoch m \<and> rowBarrierEpoch row \<le> fepoch m
        \<and> Sealed row = sealed m \<and> OwnerCell row = ownerCell m
        \<and> (sealed m \<or> rowRouteEpoch row = fepoch m)"
  shows "fence_rel (f(t \<mapsto> m)) (db(t \<mapsto> row))"
  using assms by (simp add: fence_rel_def)

lemma gorm_Seal_sim:
  assumes "fence_rel f db" "memf_Seal t b f = (None, f')"
  shows "\<exists>db'. gorm_Seal db_ok t b db = (None, db') \<and> fence_rel f' db'"
proof -
  let ?m = "get_or zero_fence f t" and ?row = "get_or zero_fence_row db t"
  from assms(2) have b: "fepoch ?m \<le> b"
      and f': "f' = f(t \<mapsto> \<lparr>ownerCell = ownerCell ?m, fepoch = b, sealed = True\<rparr>)"
    by (auto simp: memf_Seal_def Let_def split: if_splits)
  note g = fence_rel_get [OF assms(1), of t]
  with b have "\<not> b < rowBarrierEpoch ?row" "rowRouteEpoch ?row \<le> b" by auto
  with g f' assms(1) show ?thesis
    by (auto simp: gorm_Seal_def fence_upsert_None db_ok_def intro!: fence_rel_upd)
qed

lemma gorm_SetOwner_sim:
  assumes "fence_rel f db" "memf_SetOwner t c e f = (None, f')"
  shows "\<exists>db'. gorm_SetOwner db_ok t c e db = (None, db') \<and> fence_rel f' db'"
proof -
  let ?m = "get_or zero_fence f t" and ?row = "get_or zero_fence_row db t"
  from assms(2) have e: "fepoch ?m \<le> e"
      and f': "f' = f(t \<mapsto> \<lparr>ownerCell = c, fepoch = e, sealed = False\<rparr>)"
    by (auto simp: memf_SetOwner_def Let_def split: if_splits)
  note g = fence_rel_get [OF assms(1), of t]
  with e have "\<not> e < rowRouteEpoch ?row" "rowBarrierEpoch ?row \<le> e" by auto
  with g f' assms(1) show ?thesis
    by (auto simp: gorm_SetOwner_def fence_upsert_None db_ok_def intro!: fence_rel_upd)
qed

lemma gorm_lets_sim: "fence_rel f db \<Longrightarrow> gorm_lets t c e db = memf_Allow t c e f"
  unfolding fence_rel_def gorm_lets_iff memf_Allow_def
  by (drule spec [of _ t]) (auto split: option.splits prod.splits)

section \<open>Budget and placement lemmas\<close>

definition spent_of :: "int \<times> nat \<Rightarrow> string \<Rightarrow> BudgetMeter \<Rightarrow> duration" where
  "spent_of ym t m = spent (ledgerLocked ym t m)"

lemma ledger_put [simp]: "ledgerLocked ym t (put_ledger x l m) =
    (if t = x then if lyear l \<noteq> fst ym \<or> lmonth l \<noteq> snd ym
       then \<lparr>lyear = fst ym, lmonth = snd ym, spent = 0\<rparr> else l
     else ledgerLocked ym t m)"
  by (simp add: ledgerLocked_def put_ledger_def)

lemma ledger_month [simp]:
  "lyear (ledgerLocked ym t m) = fst ym" "lmonth (ledgerLocked ym t m) = snd ym"
  by (auto simp: ledgerLocked_def Let_def split: option.split)

lemma spent_of_Record: "spent_of ym t (Record ym x d m) =
    (if t = x \<and> d > 0 then wrap64 (spent_of ym t m + d) else spent_of ym t m)"
  by (simp add: spent_of_def Record_def Let_def)

lemma put_ledger_budget [simp]: "defaultBudget (put_ledger t l m) = defaultBudget m"
  by (simp add: put_ledger_def)

lemma Allowed_frame [simp]: "spent_of ym t (snd (Allowed ym x d m)) = spent_of ym t m"
  "defaultBudget (snd (Allowed ym x d m)) = defaultBudget m"
  by (simp_all add: spent_of_def Allowed_def Let_def)

lemma defaultBudget_Record [simp]: "defaultBudget (Record ym x d m) = defaultBudget m"
  by (simp add: Record_def Let_def)

lemma scan_mem: "least_loaded_scan load b l cs \<in> set (b # cs)"
  by (induction load b l cs rule: least_loaded_scan.induct) auto

lemma scan_le: "load b \<le> l \<Longrightarrow> load (least_loaded_scan load b l cs) \<le> l"
  by (induction load b l cs rule: least_loaded_scan.induct) fastforce+

lemma scan_min: "l = load b \<Longrightarrow> c \<in> set (b # cs) \<Longrightarrow> load (least_loaded_scan load b l cs) \<le> load c"
proof (induction load b l cs arbitrary: c rule: least_loaded_scan.induct)
  case (2 load best bl d cs)
  show ?case
  proof (cases "load d < bl")
    case True
    with 2 have "load (least_loaded_scan load d (load d) cs) \<le> load x" if "x \<in> set (d # cs)" for x
      using that by blast
    with True 2(3,4) show ?thesis by fastforce
  next
    case False
    with 2 have "load (least_loaded_scan load best bl cs) \<le> load x" if "x \<in> set (best # cs)" for x
      using that by blast
    with False 2(3,4) show ?thesis by fastforce
  qed
qed simp

text \<open>A run of round-robin placements against one candidate list.\<close>

fun rr_run :: "string list \<Rightarrow> nat \<Rightarrow> nat \<Rightarrow> (cerr + string) list" where
  "rr_run cls nxt 0 = []"
| "rr_run cls nxt (Suc k) =
     (case RoundRobinPolicy [] cls nxt of (r, nxt') \<Rightarrow> r # rr_run cls nxt' k)"

lemma rr_run_map: "cls \<noteq> [] \<Longrightarrow>
    rr_run cls nxt k = map (\<lambda>i. Inr (cls ! ((nxt + i) mod length cls))) [0..<k]"
proof (induction k arbitrary: nxt)
  case (Suc k)
  have "[0..<Suc k] = 0 # map Suc [0..<k]" by (metis map_Suc_upt upt_conv_Cons zero_less_Suc)
  with Suc show ?case by (simp add: RoundRobinPolicy_def comp_def)
qed simp

lemma rr_run_rotate: "cls \<noteq> [] \<Longrightarrow> rr_run cls nxt (length cls) = map Inr (rotate nxt cls)"
  by (rule nth_equalityI) (simp_all add: rr_run_map nth_rotate)

section \<open>Properties\<close>

text \<open>The durable request-deduplication table of the same package is tenant-scoped and not exempt.\<close>

lemma idempotency_keys_guarded: "\<not> isFrameworkTable ''idempotency_keys''"
  by (simp add: isFrameworkTable_def frameworkTables_def has_suffix_def)

lemma guard_rejects:
  assumes "\<not> gorm_lets t (tokCellID tok) (tokRouteEpoch tok) db"
    and "\<not> stFailed st" "\<not> isFrameworkTable (stTable st)" "stHasAccountID st"
    and "stToken st = Some tok" "stDest st = DestStruct (Some t)" "t \<noteq> []"
  shows "guard_check db_ok st db = GuardFenced t (tokCellID tok) (tokRouteEpoch tok)"
  using assms
  by (auto simp: guard_check_def guard_allow_def db_ok_def gorm_lets_iff split: option.splits)



text \<open>the database fence simulates the in-memory one. On related states every seal and every change of
  owner that the in-memory fencer accepts is accepted by the database fencer, the resulting states are
  related again, and related states let exactly the same writers in.\<close>

theorem gorm_fence_simulates_mem:
  assumes "fence_rel f db"
  shows "(\<forall>f'. memf_Seal t b f = (None, f') \<longrightarrow>
        (\<exists>db'. gorm_Seal db_ok t b db = (None, db') \<and> fence_rel f' db'))
    \<and> (\<forall>f'. memf_SetOwner t c e f = (None, f') \<longrightarrow>
        (\<exists>db'. gorm_SetOwner db_ok t c e db = (None, db') \<and> fence_rel f' db'))
    \<and> gorm_lets t c e db = memf_Allow t c e f"
  using gorm_Seal_sim gorm_SetOwner_sim gorm_lets_sim assms by blast

theorem gorm_fence_simulates_mem_witness:
  "fence_rel (Map.empty(''t'' \<mapsto> \<lparr>ownerCell = ''a'', fepoch = 3, sealed = False\<rparr>))
     (Map.empty(''t'' \<mapsto> \<lparr>OwnerCell = ''a'', rowRouteEpoch = 3, Sealed = False, rowBarrierEpoch = 2\<rparr>))
   \<and> gorm_lets ''t'' ''a'' 3
     (Map.empty(''t'' \<mapsto> \<lparr>OwnerCell = ''a'', rowRouteEpoch = 3, Sealed = False, rowBarrierEpoch = 2\<rparr>))
   = memf_Allow ''t'' ''a'' 3 (Map.empty(''t'' \<mapsto> \<lparr>ownerCell = ''a'', fepoch = 3, sealed = False\<rparr>))"
proof -
  have "fence_rel (Map.empty(''t'' \<mapsto> \<lparr>ownerCell = ''a'', fepoch = 3, sealed = False\<rparr>))
     (Map.empty(''t'' \<mapsto> \<lparr>OwnerCell = ''a'', rowRouteEpoch = 3, Sealed = False, rowBarrierEpoch = 2\<rparr>))"
    by (simp add: fence_rel_def)
  with gorm_fence_simulates_mem [OF this] show ?thesis by simp
qed

text \<open>the simulation does not hold the other way. A late seal at a barrier below the owner's route epoch
  (but not below the last barrier) is refused by the in-memory fencer, while the database fencer, which
  compares it with the barrier epoch only, accepts it and shuts the current owner out.\<close>

theorem gorm_accepts_stale_seal:
  assumes "db t = Some row" "rowBarrierEpoch row \<le> b" "b < rowRouteEpoch row"
    and "f t = Some m" "fepoch m = rowRouteEpoch row"
  shows "memf_Seal t b f = (Some ErrFenceRegression, f)
    \<and> (\<exists>db'. gorm_Seal db_ok t b db = (None, db') \<and> \<not> gorm_lets t (OwnerCell row) (rowRouteEpoch row) db')"
  using assms
  by (auto simp: memf_Seal_def gorm_Seal_def fence_upsert_None db_ok_def gorm_lets_iff Let_def)

theorem gorm_accepts_stale_seal_witness:
  "memf_Seal ''t'' 2 (Map.empty(''t'' \<mapsto> \<lparr>ownerCell = ''a'', fepoch = 3, sealed = False\<rparr>))
     = (Some ErrFenceRegression, Map.empty(''t'' \<mapsto> \<lparr>ownerCell = ''a'', fepoch = 3, sealed = False\<rparr>))
   \<and> (\<exists>db'. gorm_Seal db_ok ''t'' 2
      (Map.empty(''t'' \<mapsto> \<lparr>OwnerCell = ''a'', rowRouteEpoch = 3, Sealed = False, rowBarrierEpoch = 2\<rparr>)) = (None, db')
      \<and> \<not> gorm_lets ''t'' ''a'' 3 db')"
  using gorm_accepts_stale_seal [of "Map.empty(''t'' \<mapsto> \<lparr>OwnerCell = ''a'', rowRouteEpoch = 3,
      Sealed = False, rowBarrierEpoch = 2\<rparr>)" "''t''" "\<lparr>OwnerCell = ''a'', rowRouteEpoch = 3,
      Sealed = False, rowBarrierEpoch = 2\<rparr>" 2
      "Map.empty(''t'' \<mapsto> \<lparr>ownerCell = ''a'', fepoch = 3, sealed = False\<rparr>)"
      "\<lparr>ownerCell = ''a'', fepoch = 3, sealed = False\<rparr>"] by simp

text \<open>the budget gate is effective. When a move was allowed against its estimate and then costs no more than
  the estimate, the tenant's spending of the month stays within its budget and the other tenants' ledgers
  are unchanged; a new month starts from zero.\<close>

theorem budget_not_overdrawn:
  assumes "fst (Allowed ym t estimate m)" "0 \<le> d" "d \<le> estimate"
    and "dur_ok (spent_of ym t m + estimate)" "dur_ok (spent_of ym t m)"
    and "spent_of ym t m \<le> defaultBudget m"
  shows "spent_of ym t (Record ym t d (snd (Allowed ym t estimate m))) \<le> defaultBudget m
    \<and> (x \<noteq> t \<longrightarrow> spent_of ym x (Record ym t d (snd (Allowed ym t estimate m))) = spent_of ym x m)
    \<and> (ym' \<noteq> ym \<longrightarrow> spent_of ym' t (Record ym t d (snd (Allowed ym t estimate m))) = 0)"
proof -
  have est: "spent_of ym t m + estimate \<le> defaultBudget m"
    using assms(1,4) by (simp add: Allowed_def Let_def spent_of_def)
  have "dur_ok (spent_of ym t m + d)" using assms(2-5) by (auto simp: dur_ok_def)
  then have "spent_of ym t (Record ym t d (snd (Allowed ym t estimate m))) \<le> defaultBudget m"
    using est assms(3,6) by (simp add: spent_of_Record)
  moreover have "ym' \<noteq> ym \<Longrightarrow> spent_of ym' t (Record ym t d (snd (Allowed ym t estimate m))) = 0"
    by (auto simp: spent_of_def Record_def Allowed_def Let_def prod_eq_iff)
  ultimately show ?thesis by (auto simp: spent_of_Record)
qed

theorem budget_not_overdrawn_witness:
  "spent_of (2024, 5) ''t'' (Record (2024, 5) ''t'' 20 (snd (Allowed (2024, 5) ''t'' 30 (NewBudgetMeter (Some 40))))) \<le> 40"
  using budget_not_overdrawn [of "(2024, 5)" "''t''" 30 "NewBudgetMeter (Some 40)" 20 "''u''" "(2024, 6)"]
  by (simp add: Allowed_def NewBudgetMeter_def spent_of_def ledgerLocked_def dur_ok_def wrap64_def Let_def)

text \<open>The least-loaded policy places a tenant on a candidate cell of minimal load, and reports
  \<open>ErrNoCells\<close> exactly for an empty candidate list.\<close>

theorem least_loaded_minimal:
  "case LeastLoadedPolicy load t cls of
     Inl e \<Rightarrow> cls = [] \<and> e = ErrNoCells
   | Inr c \<Rightarrow> c \<in> set cls \<and> list_all (\<lambda>d. load c \<le> load d) cls"
proof (cases cls)
  case (Cons a as)
  then show ?thesis
    using scan_mem [of load a "load a" as] scan_min [of "load a" load a _ as]
    by (auto simp: LeastLoadedPolicy_def list_all_iff)
qed (simp add: LeastLoadedPolicy_def)

text \<open>Round-robin placement is even: any run of as many placements as there are candidate cells, started
  at any counter, hands out a rotation of the candidate list, so each cell exactly as often as it occurs.\<close>

theorem round_robin_even:
  assumes "cls \<noteq> []"
  shows "rr_run cls nxt (length cls) = map Inr (rotate nxt cls)"
  using assms by (rule rr_run_rotate)

theorem round_robin_even_witness:
  "rr_run [''a'', ''b'', ''c''] 4 3 = map Inr [''b'', ''c'', ''a'']"
  using round_robin_even [of "[''a'', ''b'', ''c'']" 4] by (simp add: rotate_def numeral_eq_Suc)

end
