(* ===== verification/Cells_Move.thy ===== *)
theory Cells_Move
  imports Cells_Plane
begin

text \<open>
  The move controller (\<^verbatim>\<open>src/cells/move.go\<close>) and campaigns (\<^verbatim>\<open>src/cells/campaign.go\<close>). The controller
  reaches the routing table, the fencer, the event barrier and the drainer through Go interfaces, so it
  is written here over a record of operations on an abstract world \<open>'w\<close>; whatever else happens
  between two calls is part of the operations. The retry loops carry fuel, and \<open>None\<close> is "not
  returned yet".
\<close>

section \<open>The controller\<close>

record MovePlan =
  plTenantID :: string
  FromCell :: string
  ToCell :: string
  Operator :: string
  CohortID :: string
  Force :: bool

record 'w fencer_ops =
  fo_Seal :: "string \<Rightarrow> u64 \<Rightarrow> 'w \<Rightarrow> cerr option \<times> 'w"
  fo_SetOwner :: "string \<Rightarrow> string \<Rightarrow> u64 \<Rightarrow> 'w \<Rightarrow> cerr option \<times> 'w"

record 'w event_ops =
  eo_SetPolicy :: "string \<Rightarrow> EventPolicy \<Rightarrow> u64 \<Rightarrow> 'w \<Rightarrow> cerr option \<times> 'w"
  eo_Drained :: "string \<Rightarrow> u64 \<Rightarrow> 'w \<Rightarrow> (cerr + bool) \<times> 'w"

record 'w budget_ops =
  bo_Allowed :: "string \<Rightarrow> duration \<Rightarrow> 'w \<Rightarrow> bool \<times> 'w"
  bo_Record :: "string \<Rightarrow> duration \<Rightarrow> 'w \<Rightarrow> 'w"

text \<open>
  \<open>mc_CloseAndDrain\<close> takes the deadline of the bounded context (0 for none) and returns the
  error only, the controller ignores the cutoff. \<open>mc_wait\<close> is the \<^verbatim>\<open>select\<close> between the bounded
  context and the 5 ms timer: \<open>True\<close> when the context is done.
\<close>

record 'w MoveController =
  mc_Get :: "string \<Rightarrow> 'w \<Rightarrow> (cerr + TenantRoute) \<times> 'w"
  mc_CompareAndSet :: "TenantRoute \<Rightarrow> TenantRoute \<Rightarrow> 'w \<Rightarrow> cerr option \<times> 'w"
  mc_fencer :: "'w fencer_ops option"
  mc_events :: "'w event_ops option"
  mc_CloseAndDrain :: "(go_time \<Rightarrow> string \<Rightarrow> u64 \<Rightarrow> 'w \<Rightarrow> cerr option \<times> 'w) option"
  mc_now :: "'w \<Rightarrow> go_time \<times> 'w"
  mc_newID :: "'w \<Rightarrow> string \<times> 'w"
  mc_preflight :: "MovePlan \<Rightarrow> 'w \<Rightarrow> cerr option \<times> 'w"
  mc_drainDeadline :: duration
  mc_budget :: "'w budget_ops option"
  mc_wait :: "go_time \<Rightarrow> 'w \<Rightarrow> bool \<times> 'w"

text \<open>Results: \<open>None\<close> out of fuel, otherwise an error or a value, and the world after.\<close>

type_synonym ('a, 'w) res = "((cerr + 'a) \<times> 'w) option"

definition ret :: "'a \<Rightarrow> 'w \<Rightarrow> ('a, 'w) res" where
  "ret a w = Some (Inr a, w)"

definition fail :: "cerr \<Rightarrow> 'w \<Rightarrow> ('a, 'w) res" where
  "fail e w = Some (Inl e, w)"

definition bindr :: "('a, 'w) res \<Rightarrow> ('a \<Rightarrow> 'w \<Rightarrow> ('b, 'w) res) \<Rightarrow> ('b, 'w) res" where
  "bindr m k = (case m of
      None \<Rightarrow> None
    | Some (Inl e, w) \<Rightarrow> Some (Inl e, w)
    | Some (Inr a, w) \<Rightarrow> k a w)"

definition check_err :: "(cerr \<Rightarrow> cerr) \<Rightarrow> cerr option \<times> 'w \<Rightarrow> (unit, 'w) res" where
  "check_err wrapf r = (case r of (None, w) \<Rightarrow> ret () w | (Some e, w) \<Rightarrow> fail (wrapf e) w)"

definition run_opt :: "'o option \<Rightarrow> ('o \<Rightarrow> 'w \<Rightarrow> (unit, 'w) res) \<Rightarrow> 'w \<Rightarrow> (unit, 'w) res" where
  "run_opt p f w = (case p of None \<Rightarrow> ret () w | Some x \<Rightarrow> f x w)"

section \<open>The route mutations\<close>

text \<open>The function literals passed to \<^verbatim>\<open>c.cas\<close>, phase by phase, and the record \<^verbatim>\<open>Rollback\<close> builds.\<close>

definition begin_barrier ::
  "MovePlan \<Rightarrow> u64 \<Rightarrow> string \<Rightarrow> go_time \<Rightarrow> TenantRoute \<Rightarrow> TenantRoute" where
  "begin_barrier plan barrierEpoch barrierID deadline r =
     r\<lparr>SourceCell := FromCell plan, TargetCell := ToCell plan, rState := StateQuiescing,
       BarrierEpoch := barrierEpoch, rBarrierID := barrierID, rDeadline := deadline,
       LastOperator := Operator plan\<rparr>"

definition to_draining :: "TenantRoute \<Rightarrow> TenantRoute" where
  "to_draining r = r\<lparr>rState := StateDraining\<rparr>"

definition to_copying :: "u64 \<Rightarrow> TenantRoute \<Rightarrow> TenantRoute" where
  "to_copying barrierEpoch r =
     r\<lparr>rState := StateCopying, rEventPolicy := PolicyPause, EventEpoch := barrierEpoch\<rparr>"

definition to_committing :: "TenantRoute \<Rightarrow> TenantRoute" where
  "to_committing r = r\<lparr>rState := StateCommitting\<rparr>"

definition rest_on :: "string \<Rightarrow> u64 \<Rightarrow> TenantRoute \<Rightarrow> TenantRoute" where
  "rest_on cell epoch r =
     r\<lparr>ActiveCell := cell, SourceCell := [], TargetCell := [], rState := StateActive,
       RouteEpoch := epoch, BarrierEpoch := 0, rBarrierID := [], rEventPolicy := PolicyNormal,
       EventEpoch := epoch, rDeadline := 0\<rparr>"

definition rollback_source :: "TenantRoute \<Rightarrow> string" where
  "rollback_source cur = (if SourceCell cur = [] then ActiveCell cur else SourceCell cur)"

definition rollback_epoch :: "TenantRoute \<Rightarrow> u64" where
  "rollback_epoch cur =
     (let newEpoch = BarrierEpoch cur + 1
      in if newEpoch \<le> RouteEpoch cur then RouteEpoch cur + 1 else newEpoch)"

section \<open>The protocol\<close>

definition cas_route :: "'w MoveController \<Rightarrow> TenantRoute \<Rightarrow> (TenantRoute \<Rightarrow> TenantRoute) \<Rightarrow> State
    \<Rightarrow> 'w \<Rightarrow> (TenantRoute, 'w) res" where
  "cas_route c expect mutate wantState w =
     (let nxt = mutate expect
      in case mc_CompareAndSet c expect nxt w of
           (None, w1) \<Rightarrow> ret nxt w1
         | (Some err, w1) \<Rightarrow>
             (if errors_is err ErrCASConflict
              then (case mc_Get c (rTenantID expect) w1 of
                      (Inl gErr, w2) \<Rightarrow> fail gErr w2
                    | (Inr cur, w2) \<Rightarrow>
                        (if rState cur = wantState \<and> RouteEpoch expect \<le> RouteEpoch cur
                         then ret cur w2 else fail ErrCASConflict w2))
              else fail err w1))"

fun waitEventsDrained :: "nat \<Rightarrow> 'w MoveController \<Rightarrow> 'w event_ops \<Rightarrow> go_time \<Rightarrow> string \<Rightarrow> u64
    \<Rightarrow> 'w \<Rightarrow> (unit, 'w) res" where
  "waitEventsDrained 0 c ev deadline tenantID barrierEpoch w = None"
| "waitEventsDrained (Suc fuel) c ev deadline tenantID barrierEpoch w =
     (case eo_Drained ev tenantID barrierEpoch w of
        (Inl e, w1) \<Rightarrow> fail (Wrap ''event drain'' e) w1
      | (Inr True, w1) \<Rightarrow> ret () w1
      | (Inr False, w1) \<Rightarrow>
          (case mc_wait c deadline w1 of
             (True, w2) \<Rightarrow> fail (Wrap ''event drain'' ErrMoveDeadline) w2
           | (False, w2) \<Rightarrow> waitEventsDrained fuel c ev deadline tenantID barrierEpoch w2))"

definition phase2 :: "'w MoveController \<Rightarrow> go_time \<Rightarrow> u64 \<Rightarrow> TenantRoute \<Rightarrow> 'w \<Rightarrow> (TenantRoute, 'w) res" where
  "phase2 c deadline barrierEpoch r w =
     (if rState r = StateQuiescing
      then bindr (run_opt (mc_CloseAndDrain c)
                    (\<lambda>d w. check_err (\<lambda>_. Wrap ''drain'' ErrMoveDeadline)
                             (d deadline (rTenantID r) barrierEpoch w)) w)
             (\<lambda>_ w. cas_route c r to_draining StateDraining w)
      else ret r w)"

definition phase35 :: "nat \<Rightarrow> 'w MoveController \<Rightarrow> go_time \<Rightarrow> u64 \<Rightarrow> TenantRoute \<Rightarrow> 'w
    \<Rightarrow> (TenantRoute, 'w) res" where
  "phase35 fuel c deadline barrierEpoch r w =
     (if rState r = StateDraining
      then bindr (run_opt (mc_fencer c)
                    (\<lambda>f w. check_err (Wrap ''cells: seal'') (fo_Seal f (rTenantID r) barrierEpoch w)) w)
             (\<lambda>_ w. bindr (run_opt (mc_events c)
                    (\<lambda>ev w. bindr (check_err (Wrap ''cells: event pause'')
                                     (eo_SetPolicy ev (rTenantID r) PolicyPause barrierEpoch w))
                             (\<lambda>_ w. waitEventsDrained fuel c ev deadline (rTenantID r) barrierEpoch w)) w)
             (\<lambda>_ w. cas_route c r (to_copying barrierEpoch) StateCopying w))
      else ret r w)"

definition phase6 :: "'w MoveController \<Rightarrow> TenantRoute \<Rightarrow> 'w \<Rightarrow> (TenantRoute, 'w) res" where
  "phase6 c r w =
     (if rState r = StateCopying then cas_route c r to_committing StateCommitting w else ret r w)"

definition phase7 :: "'w MoveController \<Rightarrow> string \<Rightarrow> u64 \<Rightarrow> TenantRoute \<Rightarrow> 'w \<Rightarrow> (unit, 'w) res" where
  "phase7 c target commitEpoch r w =
     (if rState r = StateCommitting
      then bindr (run_opt (mc_fencer c)
                    (\<lambda>f w. check_err (Wrap ''cells: commit owner'')
                             (fo_SetOwner f (rTenantID r) target commitEpoch w)) w)
             (\<lambda>_ w. bindr (run_opt (mc_events c)
                    (\<lambda>ev w. check_err (Wrap ''cells: event resume'')
                              (eo_SetPolicy ev (rTenantID r) PolicyNormal commitEpoch w)) w)
             (\<lambda>_ w. bindr (cas_route c r (rest_on target commitEpoch) StateActive w)
             (\<lambda>_ w. ret () w)))
      else ret () w)"

definition continueMove :: "nat \<Rightarrow> 'w MoveController \<Rightarrow> TenantRoute \<Rightarrow> 'w \<Rightarrow> (unit, 'w) res" where
  "continueMove fuel c r w =
     (let barrierEpoch = BarrierEpoch r; commitEpoch = barrierEpoch + 1;
          target = TargetCell r; deadline = rDeadline r
      in bindr (phase2 c deadline barrierEpoch r w)
         (\<lambda>r w. bindr (phase35 fuel c deadline barrierEpoch r w)
         (\<lambda>r w. bindr (phase6 c r w)
         (\<lambda>r w. phase7 c target commitEpoch r w))))"

fun Rollback :: "nat \<Rightarrow> 'w MoveController \<Rightarrow> string \<Rightarrow> 'w \<Rightarrow> (unit, 'w) res" where
  "Rollback 0 c tenantID w = None"
| "Rollback (Suc fuel) c tenantID w =
     (case mc_Get c tenantID w of
        (Inl err, w1) \<Rightarrow> (if errors_is err ErrNoRoute then ret () w1 else fail err w1)
      | (Inr cur, w1) \<Rightarrow>
          (if AdmitsNew (rState cur) then ret () w1
           else
             (let source = rollback_source cur; newEpoch = rollback_epoch cur
              in bindr (run_opt (mc_fencer c)
                    (\<lambda>f w. check_err (Wrap ''cells: rollback owner'') (fo_SetOwner f tenantID source newEpoch w)) w1)
                 (\<lambda>_ w. bindr (run_opt (mc_events c)
                    (\<lambda>ev w. check_err (Wrap ''cells: rollback events'')
                              (eo_SetPolicy ev tenantID PolicyNormal newEpoch w)) w)
                 (\<lambda>_ w. case mc_CompareAndSet c cur (rest_on source newEpoch cur) w of
                          (None, w2) \<Rightarrow> ret () w2
                        | (Some err, w2) \<Rightarrow>
                            if errors_is err ErrCASConflict then Rollback fuel c tenantID w2
                            else fail err w2)))))"

text \<open>The error path of \<^verbatim>\<open>Move\<close> and \<^verbatim>\<open>resumeFrom\<close>: roll back and report the original error.\<close>

definition rollback_after :: "nat \<Rightarrow> 'w MoveController \<Rightarrow> string \<Rightarrow> cerr \<Rightarrow> 'w \<Rightarrow> (unit, 'w) res" where
  "rollback_after fuel c tenantID err w =
     (case Rollback fuel c tenantID w of
        None \<Rightarrow> None
      | Some (Inl rbErr, w1) \<Rightarrow> fail (Join err (Wrap ''cells: rollback'' rbErr)) w1
      | Some (Inr _, w1) \<Rightarrow> fail err w1)"

definition resumeFrom :: "nat \<Rightarrow> 'w MoveController \<Rightarrow> TenantRoute \<Rightarrow> 'w \<Rightarrow> (unit, 'w) res" where
  "resumeFrom fuel c cur w =
     (if AdmitsNew (rState cur) then ret () w
      else
        (let forward = (\<lambda>w. case continueMove fuel c cur w of
               None \<Rightarrow> None
             | Some (Inl err, w1) \<Rightarrow> rollback_after fuel c (rTenantID cur) err w1
             | Some (Inr _, w1) \<Rightarrow> ret () w1)
         in if rState cur \<noteq> StateCommitting \<and> \<not> time_is_zero (rDeadline cur)
            then (case mc_now c w of (t, w1) \<Rightarrow>
                    if t > rDeadline cur then Rollback fuel c (rTenantID cur) w1 else forward w1)
            else forward w))"

definition Resume :: "nat \<Rightarrow> 'w MoveController \<Rightarrow> string \<Rightarrow> 'w \<Rightarrow> (unit, 'w) res" where
  "Resume fuel c tenantID w =
     (case mc_Get c tenantID w of
        (Inl err, w1) \<Rightarrow> (if errors_is err ErrNoRoute then ret () w1 else fail err w1)
      | (Inr cur, w1) \<Rightarrow> resumeFrom fuel c cur w1)"

definition drive :: "nat \<Rightarrow> 'w MoveController \<Rightarrow> MovePlan \<Rightarrow> TenantRoute \<Rightarrow> 'w \<Rightarrow> (unit, 'w) res" where
  "drive fuel c plan cur w =
     (if \<not> AdmitsNew (rState cur) then resumeFrom fuel c cur w
      else
        (let barrierEpoch = RouteEpoch cur + 1
         in case mc_newID c w of (barrierID, w1) \<Rightarrow>
            (case mc_now c w1 of (t, w2) \<Rightarrow>
               bindr (cas_route c cur (begin_barrier plan barrierEpoch barrierID (t + mc_drainDeadline c))
                        StateQuiescing w2)
                 (\<lambda>begun w. continueMove fuel c begun w))))"

text \<open>The end of \<^verbatim>\<open>Move\<close>: drive, roll back on an error, charge the budget on success.\<close>

definition move_driven :: "nat \<Rightarrow> 'w MoveController \<Rightarrow> MovePlan \<Rightarrow> go_time \<Rightarrow> TenantRoute \<Rightarrow> 'w \<Rightarrow> (unit, 'w) res" where
  "move_driven fuel c plan start cur w =
     (case drive fuel c plan cur w of
        None \<Rightarrow> None
      | Some (Inl err, w1) \<Rightarrow> rollback_after fuel c (plTenantID plan) err w1
      | Some (Inr _, w1) \<Rightarrow>
          (case mc_budget c of
             None \<Rightarrow> ret () w1
           | Some b \<Rightarrow>
               (case mc_now c w1 of (t, w2) \<Rightarrow>
                  ret () (bo_Record b (plTenantID plan) (wrap64 (t - start)) w2))))"

definition Move :: "nat \<Rightarrow> 'w MoveController \<Rightarrow> MovePlan \<Rightarrow> 'w \<Rightarrow> (unit, 'w) res" where
  "Move fuel c plan w =
     (if FromCell plan = ToCell plan then fail ErrSameCell w
      else bindr (check_err (Wrap ''cells: preflight'') (mc_preflight c plan w))
      (\<lambda>_ w. bindr (run_opt (mc_budget c)
                 (\<lambda>b w. if Force plan then ret () w
                        else (case bo_Allowed b (plTenantID plan) (mc_drainDeadline c) w of
                                (True, w1) \<Rightarrow> ret () w1
                              | (False, w1) \<Rightarrow> fail (Wrap ''tenant budget'' ErrBudgetExceeded) w1)) w)
      (\<lambda>_ w. case mc_Get c (plTenantID plan) w of
           (Inl err, w1) \<Rightarrow> (if errors_is err ErrNoRoute then fail ErrNoRouteToMove w1 else fail err w1)
         | (Inr cur, w1) \<Rightarrow>
             (if AdmitsNew (rState cur) \<and> ActiveCell cur = ToCell plan then ret () w1
              else
                (case mc_now c w1 of (start, w2) \<Rightarrow> move_driven fuel c plan start cur w2)))))"

definition assign_route :: "string \<Rightarrow> string \<Rightarrow> string \<Rightarrow> TenantRoute" where
  "assign_route tenantID cell operator =
     zero_route\<lparr>rTenantID := tenantID, RouteEpoch := 1, ActiveCell := cell, rState := StateActive,
       rEventPolicy := PolicyNormal, EventEpoch := 1, LastOperator := operator\<rparr>"

fun Assign :: "nat \<Rightarrow> 'w MoveController \<Rightarrow> string \<Rightarrow> string \<Rightarrow> string \<Rightarrow> 'w \<Rightarrow> (unit, 'w) res" where
  "Assign 0 c tenantID cell operator w = None"
| "Assign (Suc fuel) c tenantID cell operator w =
     (case mc_Get c tenantID w of
        (Inl err, w1) \<Rightarrow>
          (if errors_is err ErrNoRoute
           then bindr (run_opt (mc_fencer c)
                    (\<lambda>f w. check_err (Wrap ''cells: assign owner'') (fo_SetOwner f tenantID cell 1 w)) w1)
                (\<lambda>_ w. case mc_CompareAndSet c zero_route (assign_route tenantID cell operator) w of
                     (None, w2) \<Rightarrow> ret () w2
                   | (Some e, w2) \<Rightarrow>
                       if errors_is e ErrCASConflict then Assign fuel c tenantID cell operator w2
                       else fail e w2)
           else fail err w1)
      | (Inr cur, w1) \<Rightarrow>
          (if AdmitsNew (rState cur) \<and> ActiveCell cur = cell then ret () w1
           else Move fuel c \<lparr>plTenantID = tenantID, FromCell = ActiveCell cur, ToCell = cell,
                  Operator = operator, CohortID = [], Force = False\<rparr> w1))"

definition reverse_plan :: "string \<Rightarrow> MovePlan \<Rightarrow> MovePlan" where
  "reverse_plan cohortID done =
     \<lparr>plTenantID = plTenantID done, FromCell = ToCell done, ToCell = FromCell done,
      Operator = Operator done, CohortID = cohortID, Force = True\<rparr>"

fun reverse_all :: "nat \<Rightarrow> 'w MoveController \<Rightarrow> string \<Rightarrow> MovePlan list \<Rightarrow> string list
    \<Rightarrow> (string \<times> cerr) list \<Rightarrow> 'w \<Rightarrow> ((string list \<times> (string \<times> cerr) list) \<times> 'w) option" where
  "reverse_all fuel c cohortID [] back errs w = Some ((back, errs), w)"
| "reverse_all fuel c cohortID (done # rest) back errs w =
     (case Move fuel c (reverse_plan cohortID done) w of
        None \<Rightarrow> None
      | Some (Inl rbErr, w1) \<Rightarrow>
          reverse_all fuel c cohortID rest back (errs @ [(plTenantID done, rbErr)]) w1
      | Some (Inr _, w1) \<Rightarrow> reverse_all fuel c cohortID rest (back @ [plTenantID done]) errs w1)"

fun cohort_loop :: "nat \<Rightarrow> 'w MoveController \<Rightarrow> string \<Rightarrow> MovePlan list \<Rightarrow> MovePlan list \<Rightarrow> 'w
    \<Rightarrow> (unit, 'w) res" where
  "cohort_loop fuel c cohortID committed [] w = ret () w"
| "cohort_loop fuel c cohortID committed (m # ms) w =
     (let m' = m\<lparr>CohortID := cohortID\<rparr>
      in case Move fuel c m' w of
           None \<Rightarrow> None
         | Some (Inr _, w1) \<Rightarrow> cohort_loop fuel c cohortID (committed @ [m']) ms w1
         | Some (Inl err, w1) \<Rightarrow>
             (case reverse_all fuel c cohortID committed [] [] w1 of
                None \<Rightarrow> None
              | Some ((back, errs), w2) \<Rightarrow>
                  fail (CohortErr cohortID (plTenantID m') err back errs) w2))"

definition MoveCohort :: "nat \<Rightarrow> 'w MoveController \<Rightarrow> string \<Rightarrow> MovePlan list \<Rightarrow> 'w \<Rightarrow> (unit, 'w) res" where
  "MoveCohort fuel c cohortID members w = cohort_loop fuel c cohortID [] members w"

text \<open>\<^verbatim>\<open>GateDrainer.CloseAndDrain\<close> over a registry, under a schedule for the wait.\<close>

definition GateDrainer_CloseAndDrain :: "cfb_ev list \<Rightarrow> string \<Rightarrow> u64 \<Rightarrow> GateRegistry
    \<Rightarrow> ((Cutoff \<times> cerr option) \<times> GateRegistry) option" where
  "GateDrainer_CloseAndDrain sched tenantID barrierEpoch reg =
     (case CloseForBarrier sched tenantID barrierEpoch reg of
        None \<Rightarrow> None
      | Some (ct, reg') \<Rightarrow> Some ((ct, if Forced ct then Some CtxErr else None), reg'))"

end
