(* ===== verification/Cells_History.thy ===== *)
theory Cells_History
  imports Cells_Move
begin

text \<open>
  Interleaved move drivers. The routing table is shared by any number of controllers; each reads the
  tenant's route at some moment, computes the next route of its phase from what it read, and
  compare-and-sets it later. The history of a tenant's stored routes under all such interleavings
  is an inductive definition, and the invariants of the protocol hold along it.
\<close>

section \<open>Driver steps\<close>

text \<open>
  The table writes of \<^verbatim>\<open>drive\<close>, \<^verbatim>\<open>continueMove\<close> and \<^verbatim>\<open>Rollback\<close>, as a relation between the route
  the driver read and the route it stores, for a driver that finishes the barrier it read.
\<close>

inductive drv_step :: "TenantRoute \<Rightarrow> TenantRoute \<Rightarrow> bool" where
  dbegin: "AdmitsNew (rState r) \<Longrightarrow>
     drv_step r (begin_barrier plan (RouteEpoch r + 1) bid dl r)"
| ddrain: "rState r = StateQuiescing \<Longrightarrow> drv_step r (to_draining r)"
| dcopy: "rState r = StateDraining \<Longrightarrow> drv_step r (to_copying (BarrierEpoch r) r)"
| dready: "rState r = StateCopying \<Longrightarrow> drv_step r (to_committing r)"
| dcommit: "rState r = StateCommitting \<Longrightarrow>
     drv_step r (rest_on (TargetCell r) (BarrierEpoch r + 1) r)"
| dback: "\<not> AdmitsNew (rState r) \<Longrightarrow>
     drv_step r (rest_on (rollback_source r) (rollback_epoch r) r)"

inductive_cases drv_stepE: "drv_step r r'"

definition epoch_room :: "TenantRoute \<Rightarrow> bool" where
  "epoch_room r \<longleftrightarrow> unat (RouteEpoch r) + 2 < 2 ^ 64"

text \<open>
  Histories, newest route first. A driver may have read any route of the history (\<open>e\<close>); its
  compare-and-set succeeds when the current route agrees with it on epoch and state.
\<close>

inductive route_history :: "TenantRoute list \<Rightarrow> bool" where
  hstart: "AdmitsNew (rState r) \<Longrightarrow> route_history [r]"
| hstep: "route_history (cur # hs) \<Longrightarrow> e \<in> set (cur # hs) \<Longrightarrow> drv_step e nxt \<Longrightarrow>
     RouteEpoch cur = RouteEpoch e \<Longrightarrow> rState cur = rState e \<Longrightarrow> epoch_room cur \<Longrightarrow>
     route_history (nxt # cur # hs)"

section \<open>Rank of a route\<close>

fun phase_no :: "State \<Rightarrow> nat" where
  "phase_no StateQuiescing = 1"
| "phase_no StateDraining = 2"
| "phase_no StateCopying = 3"
| "phase_no StateCommitting = 4"
| "phase_no _ = 0"

definition rank :: "TenantRoute \<Rightarrow> nat" where
  "rank r = 5 * unat (RouteEpoch r) + phase_no (rState r)"

definition barrier_wf :: "TenantRoute \<Rightarrow> bool" where
  "barrier_wf r \<longleftrightarrow> AdmitsNew (rState r) \<or> BarrierEpoch r = RouteEpoch r + 1"

lemma phase_no_le: "phase_no s \<le> 4"
  by (cases s) simp_all

lemma rank_epoch: "unat (RouteEpoch r) < unat (RouteEpoch r') \<Longrightarrow> rank r < rank r'"
  using phase_no_le [of "rState r"] by (simp add: rank_def)

lemma rank_less_epoch: "rank r \<le> rank r' \<Longrightarrow> unat (RouteEpoch r) \<le> unat (RouteEpoch r')"
  using phase_no_le [of "rState r'"] by (simp add: rank_def)

lemma not_AdmitsNew: "\<not> AdmitsNew s \<longleftrightarrow>
    s = StateQuiescing \<or> s = StateDraining \<or> s = StateCopying \<or> s = StateCommitting"
  by (cases s) simp_all

lemmas mut_defs = begin_barrier_def to_draining_def to_copying_def to_committing_def rest_on_def

lemma epoch_room_next:
  "epoch_room r \<Longrightarrow> BarrierEpoch r = RouteEpoch r + 1 \<Longrightarrow>
     unat (BarrierEpoch r + 1) = unat (RouteEpoch r) + 2 \<and> rollback_epoch r = BarrierEpoch r + 1"
proof -
  assume room: "epoch_room r" and b: "BarrierEpoch r = RouteEpoch r + 1"
  from room have n: "unat (RouteEpoch r + 2) = unat (RouteEpoch r) + 2"
    using unat_u64_add [of "RouteEpoch r" 2] by (simp add: epoch_room_def)
  moreover have "\<not> RouteEpoch r + 2 \<le> RouteEpoch r"
    using n by (simp add: word_le_nat_alt)
  ultimately show ?thesis by (simp add: b rollback_epoch_def add.assoc)
qed

text \<open>What one driver step does to the invariants.\<close>

lemma rest_on_inv:
  assumes "unat ep = unat (RouteEpoch r) + 2"
  shows "rank r < rank (rest_on cl ep r)" "barrier_wf (rest_on cl ep r)"
    "RouteEpoch (rest_on cl ep r) \<noteq> RouteEpoch r" "unat (RouteEpoch (rest_on cl ep r)) = unat (RouteEpoch r) + 2"
  using assms by (auto simp: rest_on_def barrier_wf_def intro: rank_epoch)

lemma drv_step_inv:
  assumes "drv_step r r'" "barrier_wf r" "epoch_room r"
  shows "rank r < rank r' \<and> barrier_wf r'
    \<and> (RouteEpoch r' = RouteEpoch r \<and> ActiveCell r' = ActiveCell r
       \<or> unat (RouteEpoch r') = unat (RouteEpoch r) + 2)"
  using assms(1)
proof (cases rule: drv_step.cases)
  case (dbegin plan bid dl)
  then have "phase_no (rState r) = 0" by (cases "rState r") simp_all
  with dbegin show ?thesis by (simp add: rank_def begin_barrier_def barrier_wf_def)
next
  case dcommit
  with assms(2,3) epoch_room_next [of r] have "unat (BarrierEpoch r + 1) = unat (RouteEpoch r) + 2"
    by (simp add: barrier_wf_def)
  from rest_on_inv [OF this] dcommit show ?thesis by simp
next
  case dback
  with assms(2,3) epoch_room_next [of r] have "unat (rollback_epoch r) = unat (RouteEpoch r) + 2"
    by (simp add: barrier_wf_def)
  from rest_on_inv [OF this] dback show ?thesis by simp
qed (use assms(2) in \<open>simp_all add: rank_def mut_defs barrier_wf_def\<close>)

section \<open>Invariants of histories\<close>

definition hist_inv :: "TenantRoute list \<Rightarrow> bool" where
  "hist_inv hs \<longleftrightarrow> sorted_wrt (\<lambda>a b. rank b < rank a) hs \<and> list_all barrier_wf hs
     \<and> (\<forall>a\<in>set hs. \<forall>b\<in>set hs. RouteEpoch a = RouteEpoch b \<longrightarrow> ActiveCell a = ActiveCell b)"

lemma hist_invD: "hist_inv hs \<Longrightarrow> a \<in> set hs \<Longrightarrow> b \<in> set hs \<Longrightarrow> RouteEpoch a = RouteEpoch b \<Longrightarrow>
    ActiveCell a = ActiveCell b"
  unfolding hist_inv_def by blast

lemma hist_current_unique:
  assumes "hist_inv (cur # hs)" "e \<in> set (cur # hs)"
    and "RouteEpoch cur = RouteEpoch e" "rState cur = rState e"
  shows "e = cur"
proof (rule ccontr)
  assume "e \<noteq> cur"
  with assms(1,2) have "rank e < rank cur" by (auto simp: hist_inv_def)
  with assms(3,4) show False by (simp add: rank_def)
qed

lemma hist_epochs_le: "hist_inv (cur # hs) \<Longrightarrow> e \<in> set (cur # hs) \<Longrightarrow>
    unat (RouteEpoch e) \<le> unat (RouteEpoch cur)"
  by (rule rank_less_epoch) (auto simp: hist_inv_def)

lemma route_history_nonempty: "route_history hs \<Longrightarrow> hs \<noteq> []"
  by (induction rule: route_history.induct) simp_all

lemma route_history_inv: "route_history hs \<Longrightarrow> hist_inv hs"
proof (induction rule: route_history.induct)
  case (hstart r)
  then show ?case by (simp add: hist_inv_def barrier_wf_def)
next
  case (hstep cur hs e nxt)
  then have e: "e = cur" using hist_current_unique by blast
  with hstep have wf: "barrier_wf cur" by (simp add: hist_inv_def)
  note st = drv_step_inv [OF hstep.hyps(3) [unfolded e] wf hstep.hyps(6)]
  have ranks: "\<forall>b\<in>set (cur # hs). rank b < rank nxt"
    using st hstep.IH by (auto simp: hist_inv_def)
  have cells: "ActiveCell nxt = ActiveCell b"
    if b: "b \<in> set (cur # hs)" "RouteEpoch nxt = RouteEpoch b" for b
  proof -
    have "unat (RouteEpoch b) \<le> unat (RouteEpoch cur)"
      using hist_epochs_le [OF hstep.IH b(1)] .
    with b(2) st have "RouteEpoch b = RouteEpoch cur" "ActiveCell nxt = ActiveCell cur" by auto
    with hist_invD [OF hstep.IH b(1), of cur] show ?thesis by simp
  qed
  show ?case
    unfolding hist_inv_def
  proof (intro conjI ballI impI)
    show "sorted_wrt (\<lambda>a b. rank b < rank a) (nxt # cur # hs)"
      using ranks hstep.IH by (simp add: hist_inv_def)
    show "list_all barrier_wf (nxt # cur # hs)"
      using st hstep.IH by (simp add: hist_inv_def)
    fix a b
    assume ab: "a \<in> set (nxt # cur # hs)" "b \<in> set (nxt # cur # hs)" "RouteEpoch a = RouteEpoch b"
    have old: "a \<in> set (cur # hs) \<Longrightarrow> b \<in> set (cur # hs) \<Longrightarrow> ActiveCell a = ActiveCell b"
      using hist_invD [OF hstep.IH] ab(3) by blast
    consider "a = nxt" "b = nxt" | "a = nxt" "b \<in> set (cur # hs)" | "a \<in> set (cur # hs)" "b = nxt"
      | "a \<in> set (cur # hs)" "b \<in> set (cur # hs)"
      using ab(1,2) by auto
    then show "ActiveCell a = ActiveCell b"
    proof cases
      case 2
      then show ?thesis using cells [OF 2(2)] ab(3) by simp
    next
      case 3
      then show ?thesis using cells [OF 3(1)] ab(3) by simp
    qed (simp_all add: old)
  qed
qed

section \<open>Properties\<close>

text \<open>compare-and-set on epoch and state is free of ABA. Under every interleaving of move drivers, a
  route that some driver read earlier and that agrees with the current route on epoch and state is the
  current route, in all its fields.\<close>

theorem move_cas_no_aba:
  assumes "route_history (cur # hs)" "e \<in> set (cur # hs)"
    and "RouteEpoch cur = RouteEpoch e" "rState cur = rState e"
  shows "e = cur"
  using hist_current_unique [OF route_history_inv [OF assms(1)] assms(2-4)] .

definition sample_plan :: MovePlan where
  "sample_plan = \<lparr>plTenantID = ''t'', FromCell = ''a'', ToCell = ''b'', Operator = [],
     CohortID = [], Force = False\<rparr>"

definition sample_begun :: TenantRoute where
  "sample_begun = begin_barrier sample_plan (RouteEpoch (route_on ''t'' 1 ''a'') + 1) ''b1'' 9
     (route_on ''t'' 1 ''a'')"

lemma route_on_simps [simp]:
  "rTenantID (route_on t n c) = t" "RouteEpoch (route_on t n c) = n" "ActiveCell (route_on t n c) = c"
  "rState (route_on t n c) = StateActive"
  by (simp_all add: route_on_def)

lemma sample_begun_simps [simp]:
  "rTenantID sample_begun = ''t''" "RouteEpoch sample_begun = 1" "ActiveCell sample_begun = ''a''"
  "rState sample_begun = StateQuiescing" "BarrierEpoch sample_begun = 2" "TargetCell sample_begun = ''b''"
  "SourceCell sample_begun = ''a''" "rDeadline sample_begun = 9"
  by (simp_all add: sample_begun_def begin_barrier_def sample_plan_def)

lemma sample_history: "route_history [sample_begun, route_on ''t'' 1 ''a'']"
proof (rule route_history.hstep [of "route_on ''t'' 1 ''a''" "[]" "route_on ''t'' 1 ''a''"])
  show "drv_step (route_on ''t'' 1 ''a'') sample_begun"
    unfolding sample_begun_def by (rule drv_step.dbegin) simp
qed (simp_all add: route_history.hstart epoch_room_def)

theorem move_cas_no_aba_witness:
  "route_history [sample_begun, route_on ''t'' 1 ''a'']
   \<and> (\<exists>e. e \<in> set [sample_begun, route_on ''t'' 1 ''a''] \<and> RouteEpoch sample_begun = RouteEpoch e
        \<and> rState sample_begun = rState e \<and> e = sample_begun)"
  using move_cas_no_aba [OF sample_history, of sample_begun] sample_history by simp



end
