(* ===== verification/Cells_Protocol.thy ===== *)
theory Cells_Protocol
  imports Cells_History
begin

text \<open>
  Correctness of the move protocol against its environment. The locale \<open>move_env\<close> is the contract the
  controller relies on: the table behaves as a routing table and nothing else writes routes between its
  calls. Inside it the controller's functions are executed symbolically once; the in-memory deployment
  (table, fencer, event barrier, gates and budget of the package) is an interpretation.
\<close>

section \<open>Results\<close>

lemma bindr_simps [simp]:
  "bindr (ret a w) k = k a w" "bindr (fail e w) k = fail e w" "bindr None k = None"
  "bindr (Some (Inl e, w)) k = Some (Inl e, w)" "bindr (Some (Inr a, w)) k = k a w"
  by (simp_all add: bindr_def ret_def fail_def)

lemma ret_fail_iff [simp]:
  "ret a w = Some (x, w') \<longleftrightarrow> x = Inr a \<and> w' = w" "fail e w = Some (x, w') \<longleftrightarrow> x = Inl e \<and> w' = w"
  "ret a w \<noteq> None" "fail e w \<noteq> None"
  by (auto simp: ret_def fail_def)

lemma bindr_Some: "bindr m k = Some (x, w') \<longleftrightarrow>
    (\<exists>e. m = Some (Inl e, w') \<and> x = Inl e) \<or> (\<exists>a w1. m = Some (Inr a, w1) \<and> k a w1 = Some (x, w'))"
  by (auto simp: bindr_def split: option.splits prod.splits sum.splits)

lemma bindr_None: "bindr m k = None \<longleftrightarrow> m = None \<or> (\<exists>a w1. m = Some (Inr a, w1) \<and> k a w1 = None)"
  by (auto simp: bindr_def split: option.splits prod.splits sum.splits)

lemma check_err_Some: "check_err f p = Some (x, w') \<longleftrightarrow>
    (\<exists>e. p = (Some e, w') \<and> x = Inl (f e)) \<or> (p = (None, w') \<and> x = Inr ())"
  by (auto simp: check_err_def split: prod.splits option.splits)

lemma check_err_None [simp]: "check_err f p \<noteq> None"
  by (auto simp: check_err_def split: prod.splits option.splits)

text \<open>
  Judgements on a result: \<open>T\<close> says whether running out of fuel is acceptable, \<open>E\<close> holds of an error
  and \<open>Q\<close> of a value, each with the world after.
\<close>

definition outc :: "bool \<Rightarrow> (cerr \<Rightarrow> 'w \<Rightarrow> bool) \<Rightarrow> ('a \<Rightarrow> 'w \<Rightarrow> bool) \<Rightarrow> ('a, 'w) res \<Rightarrow> bool" where
  "outc T E Q m = (case m of None \<Rightarrow> T | Some (Inl e, w) \<Rightarrow> E e w | Some (Inr a, w) \<Rightarrow> Q a w)"

lemma outc_simps [simp]:
  "outc T E Q None = T" "outc T E Q (Some (Inl e, w)) = E e w" "outc T E Q (Some (Inr a, w)) = Q a w"
  "outc T E Q (ret a w) = Q a w" "outc T E Q (fail e w) = E e w"
  by (simp_all add: outc_def ret_def fail_def)

lemma outcD:
  "outc T E Q m \<Longrightarrow> m = Some (Inl e, w) \<Longrightarrow> E e w"
  "outc T E Q m \<Longrightarrow> m = Some (Inr a, w) \<Longrightarrow> Q a w"
  "outc T E Q m \<Longrightarrow> m = None \<Longrightarrow> T"
  by simp_all

lemma res_cases:
  fixes m :: "('a, 'w) res"
  obtains "m = None" | e w where "m = Some (Inl e, w)" | a w where "m = Some (Inr a, w)"
  by (metis not_None_eq obj_sumE surj_pair)

lemma outc_bind:
  assumes "outc T E Q' m" "\<And>a w. Q' a w \<Longrightarrow> outc T E Q (k a w)"
  shows "outc T E Q (bindr m k)"
  using assms(1) by (cases m rule: res_cases) (simp_all add: assms(2))

lemma outc_weaken:
  assumes "outc T' E' Q' m" "T' \<Longrightarrow> T" "\<And>e w. E' e w \<Longrightarrow> E e w" "\<And>a w. Q' a w \<Longrightarrow> Q a w"
  shows "outc T E Q m"
  using assms by (auto simp: outc_def split: option.splits prod.splits sum.splits)

lemma outc_conj: "outc T E Q m \<Longrightarrow> outc T' E' Q' m \<Longrightarrow>
    outc (T \<and> T') (\<lambda>e w. E e w \<and> E' e w) (\<lambda>a w. Q a w \<and> Q' a w) m"
  by (auto simp: outc_def split: option.splits prod.splits sum.splits)

lemma outc_check_err:
  assumes "\<And>e w. p = (Some e, w) \<Longrightarrow> E (g e) w" "\<And>w. p = (None, w) \<Longrightarrow> Q () w"
  shows "outc T E Q (check_err g p)"
  using assms by (auto simp: check_err_def split: prod.splits option.splits)

lemma outc_run_opt:
  assumes "p = None \<Longrightarrow> Q () w" "\<And>x. p = Some x \<Longrightarrow> outc T E Q (f x w)"
  shows "outc T E Q (run_opt p f w)"
  using assms by (auto simp: run_opt_def split: option.splits)

lemma outc_case:
  assumes "outc T E' Q' m" "\<And>e w. E' e w \<Longrightarrow> outc T E Q (f e w)" "\<And>a w. Q' a w \<Longrightarrow> outc T E Q (g a w)"
  shows "outc T E Q (case m of None \<Rightarrow> None | Some (Inl e, w) \<Rightarrow> f e w | Some (Inr a, w) \<Rightarrow> g a w)"
  using assms by (cases m rule: res_cases) simp_all

section \<open>The contract of the environment\<close>

text \<open>
  \<open>view\<close> is the content of the routing table and \<open>clock\<close> the time the controller's clock shows. Only
  \<open>mc_CompareAndSet\<close> writes routes, the clock does not go back, and a wait that did not end because of
  the deadline took one tick.
\<close>

definition frame :: "('w \<Rightarrow> string \<Rightarrow> TenantRoute option) \<Rightarrow> ('w \<Rightarrow> go_time) \<Rightarrow> 'w \<Rightarrow> 'w \<Rightarrow> bool" where
  "frame view clock w w' \<longleftrightarrow> view w' = view w \<and> clock w \<le> clock w'"

lemma frame_refl [simp]: "frame v k w w"
  by (simp add: frame_def)

lemma frame_trans: "frame v k a b \<Longrightarrow> frame v k b c \<Longrightarrow> frame v k a c"
  by (auto simp: frame_def)

text \<open>The route after each phase, when nobody interferes.\<close>

definition p2 :: "TenantRoute \<Rightarrow> TenantRoute" where
  "p2 r = (if rState r = StateQuiescing then to_draining r else r)"

definition p35 :: "u64 \<Rightarrow> TenantRoute \<Rightarrow> TenantRoute" where
  "p35 b r = (if rState r = StateDraining then to_copying b r else r)"

definition p6 :: "TenantRoute \<Rightarrow> TenantRoute" where
  "p6 r = (if rState r = StateCopying then to_committing r else r)"

definition same_move :: "TenantRoute \<Rightarrow> TenantRoute \<Rightarrow> bool" where
  "same_move r r' \<longleftrightarrow> \<not> AdmitsNew (rState r') \<and> rTenantID r' = rTenantID r \<and> RouteEpoch r' = RouteEpoch r
     \<and> ActiveCell r' = ActiveCell r \<and> SourceCell r' = SourceCell r \<and> TargetCell r' = TargetCell r
     \<and> BarrierEpoch r' = BarrierEpoch r \<and> LastOperator r' = LastOperator r
     \<and> SourceDataHWM r' = SourceDataHWM r \<and> SourceEventHWM r' = SourceEventHWM r
     \<and> ControllerClass r' = ControllerClass r"

lemma same_move_refl: "\<not> AdmitsNew (rState r) \<Longrightarrow> same_move r r"
  by (simp add: same_move_def)

lemma same_move_rest: "same_move r r' \<Longrightarrow> rest_on cl e r' = rest_on cl e r"
  by (cases r; cases r') (simp add: same_move_def rest_on_def)

text \<open>
  The outcomes of a move of a resting tenant. The table is as before except for the tenant's route, which
  rests on the new cell; after a failure it is as before, or rests on the fallback cell, or, when the
  rollback itself failed, is still in the move.
\<close>

definition fallback :: "MovePlan \<Rightarrow> TenantRoute \<Rightarrow> string" where
  "fallback plan cur = (if FromCell plan = [] then ActiveCell cur else FromCell plan)"

definition rested :: "MovePlan \<Rightarrow> string \<Rightarrow> TenantRoute \<Rightarrow> TenantRoute" where
  "rested plan cell cur = rest_on cell (RouteEpoch cur + 2) (cur\<lparr>LastOperator := Operator plan\<rparr>)"

definition move_done :: "MovePlan \<Rightarrow> TenantRoute \<Rightarrow> (string \<Rightarrow> TenantRoute option)
    \<Rightarrow> (string \<Rightarrow> TenantRoute option) \<Rightarrow> bool" where
  "move_done plan cur m m' \<longleftrightarrow>
     (if ActiveCell cur = ToCell plan then m' = m
      else m' = m(plTenantID plan \<mapsto> rested plan (ToCell plan) cur))"

definition move_failed :: "MovePlan \<Rightarrow> TenantRoute \<Rightarrow> (string \<Rightarrow> TenantRoute option) \<Rightarrow> cerr
    \<Rightarrow> (string \<Rightarrow> TenantRoute option) \<Rightarrow> bool" where
  "move_failed plan cur m e m' \<longleftrightarrow> m' = m
     \<or> m' = m(plTenantID plan \<mapsto> rested plan (fallback plan cur) cur)
     \<or> (\<exists>e1 e2 bid dl r'. e = Join e1 (Wrap ''cells: rollback'' e2)
          \<and> same_move (begin_barrier plan (RouteEpoch cur + 1) bid dl cur) r'
          \<and> m' = m(plTenantID plan \<mapsto> r'))"

definition rests_on :: "MovePlan \<Rightarrow> (string \<Rightarrow> TenantRoute option) \<Rightarrow> bool" where
  "rests_on p m \<longleftrightarrow> (\<exists>r. m (plTenantID p) = Some r \<and> AdmitsNew (rState r) \<and> ActiveCell r = ToCell p)"

text \<open>What a call on behalf of tenant \<open>t\<close> may do to the table.\<close>

definition moves :: "string \<Rightarrow> (string \<Rightarrow> TenantRoute option) \<Rightarrow> (string \<Rightarrow> TenantRoute option) \<Rightarrow> bool" where
  "moves t m m' \<longleftrightarrow> epoch_le m m' \<and> keyed m' \<and> (\<forall>s. s \<noteq> t \<longrightarrow> m' s = m s)"

lemma moves_refl: "keyed m \<Longrightarrow> moves t m m"
  by (simp add: moves_def)

lemma moves_keyed: "moves t m m' \<Longrightarrow> m' s = Some r \<Longrightarrow> rTenantID r = s"
  by (simp add: moves_def keyed_def)

lemma moves_upd:
  assumes "moves t m m'" "spec_cas e n m' = (None, m'(rTenantID n \<mapsto> n))" "rTenantID n = t"
  shows "moves t m (m'(t \<mapsto> n))"
  using assms spec_cas_epoch_le [OF assms(2)] spec_cas_keyed [OF _ assms(2)]
  by (auto simp: moves_def intro: epoch_le_trans)

locale move_env =
  fixes c :: "'w MoveController"
    and view :: "'w \<Rightarrow> string \<Rightarrow> TenantRoute option"
    and clock :: "'w \<Rightarrow> go_time"
    and tick :: duration
  assumes get_law: "mc_Get c t w = (g, w') \<Longrightarrow>
      frame view clock w w' \<and> g = (case view w t of None \<Rightarrow> Inl ErrNoRoute | Some r \<Rightarrow> Inr r)"
    and cas_law: "mc_CompareAndSet c e n w = (x, w') \<Longrightarrow>
      spec_cas e n (view w) = (x, view w') \<and> clock w \<le> clock w'"
    and seal_frame: "mc_fencer c = Some f \<Longrightarrow> fo_Seal f t b w = (x, w') \<Longrightarrow> frame view clock w w'"
    and own_frame: "mc_fencer c = Some f \<Longrightarrow> fo_SetOwner f t cl b w = (x, w') \<Longrightarrow> frame view clock w w'"
    and policy_frame: "mc_events c = Some ev \<Longrightarrow> eo_SetPolicy ev t p b w = (x, w') \<Longrightarrow> frame view clock w w'"
    and drained_frame: "mc_events c = Some ev \<Longrightarrow> eo_Drained ev t b w = (y, w') \<Longrightarrow> frame view clock w w'"
    and drain_frame: "mc_CloseAndDrain c = Some d \<Longrightarrow> d dl t b w = (x, w') \<Longrightarrow> frame view clock w w'"
    and now_law: "mc_now c w = (tm, w') \<Longrightarrow> frame view clock w w' \<and> tm = clock w"
    and id_frame: "mc_newID c w = (s, w') \<Longrightarrow> frame view clock w w'"
    and preflight_frame: "mc_preflight c plan w = (x, w') \<Longrightarrow> frame view clock w w'"
    and wait_frame: "mc_wait c dl w = (bl, w') \<Longrightarrow> frame view clock w w'"
    and wait_tick: "mc_wait c dl w = (False, w') \<Longrightarrow> \<not> time_is_zero dl \<Longrightarrow>
      clock w < dl \<and> clock w + tick \<le> clock w'"
    and allowed_frame: "mc_budget c = Some bg \<Longrightarrow> bo_Allowed bg t du w = (bl, w') \<Longrightarrow> frame view clock w w'"
    and record_frame: "mc_budget c = Some bg \<Longrightarrow> frame view clock w (bo_Record bg t du w)"
    and tick_pos: "0 < tick"
begin

lemmas frames = seal_frame own_frame policy_frame drained_frame drain_frame id_frame
  preflight_frame wait_frame allowed_frame

text \<open>\<open>snap m k w\<close>: the table holds \<open>m\<close> and the clock has reached \<open>k\<close>.\<close>

definition snap :: "(string \<Rightarrow> TenantRoute option) \<Rightarrow> go_time \<Rightarrow> 'w \<Rightarrow> bool" where
  "snap m k w \<longleftrightarrow> view w = m \<and> k \<le> clock w"

lemma snap_frame: "snap m k w \<Longrightarrow> frame view clock w w' \<Longrightarrow> snap m k w'"
  by (auto simp: snap_def frame_def)

lemmas snap_frames = frames [THEN snap_frame [rotated]]

lemma snap_here: "snap (view w) (clock w) w"
  by (simp add: snap_def)

abbreviation same :: "(string \<Rightarrow> TenantRoute option) \<Rightarrow> go_time \<Rightarrow> 'a \<Rightarrow> 'w \<Rightarrow> bool" where
  "same m k \<equiv> (\<lambda>_. snap m k)"

subsection \<open>Single calls\<close>

lemma out_get:
  assumes "snap m k w"
    and "\<And>w1. snap m k w1 \<Longrightarrow> m t = None \<Longrightarrow> outc T E Q (f ErrNoRoute w1)"
    and "\<And>r w1. snap m k w1 \<Longrightarrow> m t = Some r \<Longrightarrow> outc T E Q (g r w1)"
  shows "outc T E Q (case mc_Get c t w of (Inl e, w1) \<Rightarrow> f e w1 | (Inr r, w1) \<Rightarrow> g r w1)"
proof -
  obtain x w1 where x: "mc_Get c t w = (x, w1)" by (cases "mc_Get c t w")
  with get_law [OF x] snap_frame [OF assms(1)] have "snap m k w1" by blast
  moreover have "x = (case m t of None \<Rightarrow> Inl ErrNoRoute | Some r \<Rightarrow> Inr r)"
    using get_law [OF x] assms(1) by (simp add: snap_def)
  ultimately show ?thesis using assms(2,3) x by (cases "m t") auto
qed

lemma out_now:
  assumes "snap m k w" "\<And>t w1. snap m k w1 \<Longrightarrow> k \<le> t \<Longrightarrow> t \<le> clock w1 \<Longrightarrow> outc T E Q (f t w1)"
  shows "outc T E Q (case mc_now c w of (t, w1) \<Rightarrow> f t w1)"
proof -
  obtain t w1 where x: "mc_now c w = (t, w1)" by (cases "mc_now c w")
  with now_law [OF x] snap_frame [OF assms(1)] have "snap m k w1" "k \<le> t" "t \<le> clock w1"
    using assms(1) by (auto simp: snap_def frame_def)
  with assms(2) x show ?thesis by simp
qed

lemma out_cas:
  assumes "snap m k w"
    and "\<And>w1. spec_cas e n m = (None, m(rTenantID n \<mapsto> n)) \<Longrightarrow> rTenantID n \<noteq> [] \<Longrightarrow>
      snap (m(rTenantID n \<mapsto> n)) k w1 \<Longrightarrow> outc T E Q (f w1)"
    and "\<And>err w1. spec_cas e n m = (Some err, m) \<Longrightarrow> snap m k w1 \<Longrightarrow> outc T E Q (g err w1)"
  shows "outc T E Q (case mc_CompareAndSet c e n w of (None, w1) \<Rightarrow> f w1 | (Some err, w1) \<Rightarrow> g err w1)"
proof -
  obtain x w1 where x: "mc_CompareAndSet c e n w = (x, w1)" by (cases "mc_CompareAndSet c e n w")
  with cas_law [OF x] assms(1) have s: "spec_cas e n m = (x, view w1)" and k: "k \<le> clock w1"
    by (auto simp: snap_def)
  show ?thesis
  proof (cases x)
    case None
    with s spec_cas_success [of e n m] have "view w1 = m(rTenantID n \<mapsto> n)" "rTenantID n \<noteq> []" by auto
    with None s k x assms(2) [of w1] show ?thesis by (simp add: snap_def)
  next
    case (Some err)
    with s spec_cas_failure [of e n m] have "view w1 = m" by auto
    with Some s k x assms(3) [of err w1] show ?thesis by (simp add: snap_def)
  qed
qed

lemma cas_route_current:
  assumes "snap m k w" "m (rTenantID r) = Some r" "rTenantID (mut r) = rTenantID r" "rTenantID r \<noteq> []"
    and "RouteEpoch r \<le> RouteEpoch (mut r)"
  shows "outc False E (\<lambda>r' w'. r' = mut r \<and> snap (m(rTenantID r \<mapsto> mut r)) k w') (cas_route c r mut st w)"
proof -
  have "spec_cas r (mut r) m = (None, m(rTenantID r \<mapsto> mut r))"
    using assms(2-5) by (simp add: spec_cas_def)
  then show ?thesis
    unfolding cas_route_def Let_def
    by - (rule out_cas [OF assms(1)], simp_all add: assms(3))
qed

lemma out_seal: "snap m k w \<Longrightarrow>
    outc T (same m k) (same m k) (run_opt (mc_fencer c) (\<lambda>f w. check_err g (fo_Seal f t b w)) w)"
  by (intro outc_run_opt outc_check_err) (blast intro: snap_frames)+

lemma out_own: "snap m k w \<Longrightarrow>
    outc T (same m k) (same m k) (run_opt (mc_fencer c) (\<lambda>f w. check_err g (fo_SetOwner f t cl b w)) w)"
  by (intro outc_run_opt outc_check_err) (blast intro: snap_frames)+

lemma out_policy: "snap m k w \<Longrightarrow>
    outc T (same m k) (same m k) (run_opt (mc_events c) (\<lambda>ev w. check_err g (eo_SetPolicy ev t p b w)) w)"
  by (intro outc_run_opt outc_check_err) (blast intro: snap_frames)+

lemma out_drain: "snap m k w \<Longrightarrow>
    outc T (same m k) (same m k) (run_opt (mc_CloseAndDrain c) (\<lambda>d w. check_err g (d dl t b w)) w)"
  by (intro outc_run_opt outc_check_err) (blast intro: snap_frames)+

text \<open>
  The event wait ends within the deadline: one iteration per tick, and one more. Without a deadline
  nothing bounds it.
\<close>

definition fuel_short :: "nat \<Rightarrow> go_time \<Rightarrow> go_time \<Rightarrow> bool" where
  "fuel_short n dl k \<longleftrightarrow> mc_events c \<noteq> None \<and> (time_is_zero dl \<or> n = 0 \<or> int n * tick < dl - k + tick)"

lemma out_wait:
  assumes ev: "mc_events c = Some ev"
  shows "snap m k w \<Longrightarrow> outc (time_is_zero dl \<or> n = 0 \<or> int n * tick < dl - clock w + tick) (same m k) (same m k)
     (waitEventsDrained n c ev dl t b w)"
proof (induction n arbitrary: w)
  case (Suc n)
  obtain y w1 where y: "eo_Drained ev t b w = (y, w1)" by (cases "eo_Drained ev t b w")
  with drained_frame [OF ev y] Suc.prems have w1: "snap m k w1" and k1: "clock w \<le> clock w1"
    by (auto intro: snap_frame simp: frame_def)
  obtain bl w2 where bl: "mc_wait c dl w1 = (bl, w2)" by (cases "mc_wait c dl w1")
  with wait_frame [OF bl] w1 have w2: "snap m k w2" by (auto intro: snap_frame)
  note IH = Suc.IH [OF w2]
  have more: "time_is_zero dl \<or> int n * tick < dl - clock w"
    if "\<not> bl" "time_is_zero dl \<or> n = 0 \<or> int n * tick < dl - clock w2 + tick"
  proof (cases "time_is_zero dl")
    case False
    with wait_tick [of dl w1 w2] bl that(1) have "clock w1 < dl" "clock w1 + tick \<le> clock w2" by auto
    with that(2) False k1 show ?thesis by (cases "n = 0") simp_all
  qed simp
  show ?case
  proof (cases y)
    case (Inr d)
    with y bl w1 w2 IH more show ?thesis
      by (cases d; cases bl) (auto elim!: outc_weaken simp: algebra_simps)
  qed (use y w1 in simp)
qed simp


lemma out_pause:
  assumes "snap m k w" "\<And>k'. k \<le> k' \<Longrightarrow> fuel_short n dl k' \<Longrightarrow> T"
  shows "outc T (same m k) (same m k)
    (run_opt (mc_events c) (\<lambda>ev w. bindr (check_err g (eo_SetPolicy ev t p b w))
       (\<lambda>_ w. waitEventsDrained n c ev dl t b w)) w)"
proof (rule outc_run_opt)
  fix ev
  assume ev: "mc_events c = Some ev"
  show "outc T (same m k) (same m k)
     (bindr (check_err g (eo_SetPolicy ev t p b w)) (\<lambda>_ w. waitEventsDrained n c ev dl t b w))"
  proof (rule outc_bind [where Q' = "same m k"])
    show "outc T (same m k) (same m k) (check_err g (eo_SetPolicy ev t p b w))"
      by (rule outc_check_err) (use assms(1) ev in \<open>blast intro: snap_frames\<close>)+
    fix a w1
    assume w1: "snap m k w1"
    then have "k \<le> clock w1" by (simp add: snap_def)
    with assms(2) [of "clock w1"] show "outc T (same m k) (same m k) (waitEventsDrained n c ev dl t b w1)"
      by (intro outc_weaken [OF out_wait [OF ev w1]]) (auto simp: fuel_short_def ev)
  qed
qed (use assms(1) in simp)

lemma out_budget: "snap m k w \<Longrightarrow>
    outc T (same m k) (same m k) (run_opt (mc_budget c)
      (\<lambda>b w. if Force plan then ret () w
             else (case bo_Allowed b (plTenantID plan) du w of
                     (True, w1) \<Rightarrow> ret () w1 | (False, w1) \<Rightarrow> fail er w1)) w)"
  by (rule outc_run_opt) (auto split: prod.splits bool.splits intro: snap_frames)

lemma out_preflight: "snap m k w \<Longrightarrow> outc T (same m k) (same m k) (check_err g (mc_preflight c plan w))"
  by (rule outc_check_err) (blast intro: snap_frames)+


subsection \<open>Every call keeps to its tenant and never lowers an epoch\<close>

definition moved :: "string \<Rightarrow> (string \<Rightarrow> TenantRoute option) \<Rightarrow> 'w \<Rightarrow> bool" where
  "moved t m w \<longleftrightarrow> moves t m (view w)"

abbreviation mvd :: "string \<Rightarrow> (string \<Rightarrow> TenantRoute option) \<Rightarrow> 'a \<Rightarrow> 'w \<Rightarrow> bool" where
  "mvd t m \<equiv> (\<lambda>_. moved t m)"

lemma moved_snap: "snap m' k w \<Longrightarrow> moves t m m' \<Longrightarrow> moved t m w"
  by (simp add: moved_def snap_def)

lemma moved_same: "outc T (same m' k) (same m' k) r \<Longrightarrow> moves t m m' \<Longrightarrow> outc T (mvd t m) (mvd t m) r"
  by (erule outc_weaken) (simp_all add: moved_def snap_def)

lemma moved_cas_route:
  assumes w: "moved t m w" and r: "rTenantID r = t" "rTenantID (mut r) = t"
  shows "outc T (mvd t m) (\<lambda>r' w'. moved t m w' \<and> rTenantID r' = t) (cas_route c r mut st w)"
  unfolding cas_route_def Let_def
proof (rule out_cas [OF snap_here], goal_cases)
  case (1 w1)
  with w r moves_upd [of t m "view w" r "mut r"] show ?case by (simp add: moved_def snap_def)
next
  case (2 err w1)
  have "outc T (mvd t m) (\<lambda>r' w'. moved t m w' \<and> rTenantID r' = t)
     (case mc_Get c (rTenantID r) w1 of (Inl gErr, w2) \<Rightarrow> fail gErr w2
      | (Inr cur, w2) \<Rightarrow> if rState cur = st \<and> RouteEpoch r \<le> RouteEpoch cur
          then ret cur w2 else fail ErrCASConflict w2)"
    using w r by (intro out_get [OF 2(2)]) (auto simp: moved_def snap_def dest: moves_keyed)
  with 2 w show ?case by (simp add: moved_def snap_def)
qed

lemma moved_cas_route_weak:
  "moved t m w \<Longrightarrow> rTenantID r = t \<Longrightarrow> rTenantID (mut r) = t \<Longrightarrow>
     outc T (mvd t m) (mvd t m) (cas_route c r mut st w)"
  by (erule (2) outc_weaken [OF moved_cas_route]) simp_all

lemmas moved_opts = out_seal [OF snap_here, THEN moved_same] out_own [OF snap_here, THEN moved_same]
  out_policy [OF snap_here, THEN moved_same] out_drain [OF snap_here, THEN moved_same]
  out_pause [OF snap_here, THEN moved_same] out_budget [OF snap_here, THEN moved_same]
  out_preflight [OF snap_here, THEN moved_same]

lemma moved_run:
  "moved t m w \<Longrightarrow> outc True (mvd t m) (mvd t m) (run_opt (mc_fencer c) (\<lambda>f w. check_err g (fo_Seal f s b w)) w)"
  "moved t m w \<Longrightarrow> outc True (mvd t m) (mvd t m) (run_opt (mc_fencer c) (\<lambda>f w. check_err g (fo_SetOwner f s cl b w)) w)"
  "moved t m w \<Longrightarrow> outc True (mvd t m) (mvd t m) (run_opt (mc_events c) (\<lambda>ev w. check_err g (eo_SetPolicy ev s p b w)) w)"
  "moved t m w \<Longrightarrow> outc True (mvd t m) (mvd t m) (run_opt (mc_CloseAndDrain c) (\<lambda>d w. check_err g (d dl s b w)) w)"
  "moved t m w \<Longrightarrow> outc True (mvd t m) (mvd t m) (run_opt (mc_events c)
      (\<lambda>ev w. bindr (check_err g (eo_SetPolicy ev s p b w)) (\<lambda>_ w. waitEventsDrained n c ev dl s b w)) w)"
  unfolding moved_def [of t m w] by (rule moved_opts; simp)+


abbreviation moved_r :: "string \<Rightarrow> (string \<Rightarrow> TenantRoute option) \<Rightarrow> TenantRoute \<Rightarrow> 'w \<Rightarrow> bool" where
  "moved_r t m \<equiv> (\<lambda>r w. moved t m w \<and> rTenantID r = t)"

lemma mut_tenant [simp]:
  "rTenantID (begin_barrier plan b i dl r) = rTenantID r" "rTenantID (to_draining r) = rTenantID r"
  "rTenantID (to_copying b r) = rTenantID r" "rTenantID (to_committing r) = rTenantID r"
  "rTenantID (rest_on cl e r) = rTenantID r"
  by (simp_all add: mut_defs)

lemma moved_phases:
  assumes "moved_r t m r w"
  shows "outc True (mvd t m) (moved_r t m) (phase2 c dl b r w)"
    and "outc True (mvd t m) (moved_r t m) (phase35 n c dl b r w)"
    and "outc True (mvd t m) (moved_r t m) (phase6 c r w)"
    and "outc True (mvd t m) (mvd t m) (phase7 c tg ce r w)"
proof -
  show "outc True (mvd t m) (moved_r t m) (phase2 c dl b r w)"
    unfolding phase2_def using assms
    by (auto intro!: outc_bind moved_run moved_cas_route)
  show "outc True (mvd t m) (moved_r t m) (phase35 n c dl b r w)"
    unfolding phase35_def using assms
    by (auto intro!: outc_bind moved_run moved_cas_route)
  show "outc True (mvd t m) (moved_r t m) (phase6 c r w)"
    unfolding phase6_def using assms by (auto intro!: moved_cas_route)
  show "outc True (mvd t m) (mvd t m) (phase7 c tg ce r w)"
    unfolding phase7_def using assms
    by (auto intro!: outc_bind moved_run moved_cas_route_weak)
qed

lemma moved_continueMove:
  "moved_r t m r w \<Longrightarrow> outc True (mvd t m) (mvd t m) (continueMove n c r w)"
  unfolding continueMove_def Let_def by (rule outc_bind moved_phases | assumption)+


lemma moved_get:
  assumes "moved t m w"
    and "\<And>w1. moved t m w1 \<Longrightarrow> outc T E Q (f ErrNoRoute w1)"
    and "\<And>r w1. moved_r t m r w1 \<Longrightarrow> outc T E Q (g r w1)"
  shows "outc T E Q (case mc_Get c t w of (Inl e, w1) \<Rightarrow> f e w1 | (Inr r, w1) \<Rightarrow> g r w1)"
  using assms moves_keyed by (intro out_get [OF snap_here]) (auto simp: moved_def snap_def)

lemma moved_cas:
  assumes "moved t m w" "rTenantID n = t"
    and "\<And>w1. moved t m w1 \<Longrightarrow> outc T E Q (f w1)" "\<And>e w1. moved t m w1 \<Longrightarrow> outc T E Q (g e w1)"
  shows "outc T E Q (case mc_CompareAndSet c e n w of (None, w1) \<Rightarrow> f w1 | (Some err, w1) \<Rightarrow> g err w1)"
  using assms moves_upd [of t m "view w" e n]
  by (intro out_cas [OF snap_here]) (auto simp: moved_def snap_def)

lemma moved_now:
  assumes "moved t m w" "\<And>s w1. moved t m w1 \<Longrightarrow> outc T E Q (f s w1)"
  shows "outc T E Q (case mc_now c w of (s, w1) \<Rightarrow> f s w1)"
  using assms by (intro out_now [OF snap_here]) (auto simp: moved_def snap_def)

lemma moved_Rollback: "moved t m w \<Longrightarrow> outc True (mvd t m) (mvd t m) (Rollback n c t w)"
proof (induction n arbitrary: w)
  case (Suc n)
  have cas: "outc True (mvd t m) (mvd t m)
     (case mc_CompareAndSet c cur (rest_on so e cur) w1 of
        (None, w2) \<Rightarrow> ret () w2
      | (Some err, w2) \<Rightarrow> if errors_is err ErrCASConflict then Rollback n c t w2 else fail err w2)"
    if "moved t m w1" "rTenantID cur = t" for cur w1 so e
    by (rule moved_cas [OF that(1)]) (use that Suc.IH in auto)
  have undo: "outc True (mvd t m) (mvd t m)
     (bindr (run_opt (mc_fencer c) (\<lambda>f w. check_err g (fo_SetOwner f t so e w)) w1)
       (\<lambda>_ w. bindr (run_opt (mc_events c) (\<lambda>ev w. check_err h (eo_SetPolicy ev t PolicyNormal e w)) w)
       (\<lambda>_ w. case mc_CompareAndSet c cur (rest_on so e cur) w of
          (None, w2) \<Rightarrow> ret () w2
        | (Some err, w2) \<Rightarrow> if errors_is err ErrCASConflict then Rollback n c t w2 else fail err w2)))"
    if "moved t m w1" "rTenantID cur = t" for cur w1 so e g h
    by (intro outc_bind [OF moved_run(2)] outc_bind [OF moved_run(3)] cas that)
  show ?case
    unfolding Rollback.simps Let_def
    by (rule moved_get [OF Suc.prems]) (use undo in auto)
qed simp

lemma moved_rollback_after: "moved t m w \<Longrightarrow> outc True (mvd t m) (mvd t m) (rollback_after n c t e w)"
  unfolding rollback_after_def
  by (rule outc_case [OF moved_Rollback]) (auto)

lemma moved_resumeFrom: "moved_r t m r w \<Longrightarrow> outc True (mvd t m) (mvd t m) (resumeFrom n c r w)"
proof -
  assume r: "moved_r t m r w"
  have fwd: "outc True (mvd t m) (mvd t m) (case continueMove n c r w1 of
        None \<Rightarrow> None
      | Some (Inl err, w1) \<Rightarrow> rollback_after n c (rTenantID r) err w1
      | Some (Inr _, w1) \<Rightarrow> ret () w1)" if "moved t m w1" for w1
    using that r by (intro outc_case [OF moved_continueMove]) (auto intro: moved_rollback_after)
  show ?thesis
    unfolding resumeFrom_def Let_def
    using r fwd by (auto intro!: moved_now  moved_Rollback)
qed

lemma moved_Resume: "moved t m w \<Longrightarrow> outc True (mvd t m) (mvd t m) (Resume n c t w)"
  unfolding Resume_def by (rule moved_get) (auto intro: moved_resumeFrom)

lemma moved_id:
  assumes "moved t m w" "\<And>s w1. moved t m w1 \<Longrightarrow> outc T E Q (f s w1)"
  shows "outc T E Q (case mc_newID c w of (s, w1) \<Rightarrow> f s w1)"
  using assms id_frame [of w] by (cases "mc_newID c w") (auto simp: moved_def frame_def)

lemma moved_drive: "moved_r t m r w \<Longrightarrow> outc True (mvd t m) (mvd t m) (drive n c plan r w)"
  unfolding drive_def Let_def
  by (auto intro!: moved_resumeFrom moved_id moved_now outc_bind [OF moved_cas_route] moved_continueMove
     )

lemma record_view: "mc_budget c = Some bg \<Longrightarrow> view (bo_Record bg t du w) = view w"
  using record_frame by (simp add: frame_def)

lemma moved_driven:
  assumes "moved_r t m cur w" "plTenantID plan = t"
  shows "outc True (mvd t m) (mvd t m) (move_driven n c plan start cur w)"
  unfolding move_driven_def using assms
  by (intro outc_case [OF moved_drive])
    (auto intro!: moved_rollback_after moved_now split: option.split simp: moved_def record_view)

lemma moved_Move:
  assumes "moved t m w" "plTenantID plan = t"
  shows "outc True (mvd t m) (mvd t m) (Move n c plan w)"
proof -
  have rest: "outc True (mvd t m) (mvd t m) (case mc_Get c (plTenantID plan) w1 of
        (Inl err, w1) \<Rightarrow> if errors_is err ErrNoRoute then fail ErrNoRouteToMove w1 else fail err w1
      | (Inr cur, w1) \<Rightarrow> if AdmitsNew (rState cur) \<and> ActiveCell cur = ToCell plan then ret () w1
          else (case mc_now c w1 of (start, w2) \<Rightarrow> move_driven n c plan start cur w2))"
    if "moved t m w1" for w1
    unfolding assms(2)
    by (intro moved_get [OF that]) (use assms(2) in \<open>auto intro!: moved_now moved_driven\<close>)
  from assms(1) have keep: "moves t m (view w)" by (simp add: moved_def)
  have budget: "outc True (mvd t m) (mvd t m) (run_opt (mc_budget c)
      (\<lambda>b w. if Force plan then ret () w else (case bo_Allowed b (plTenantID plan) (mc_drainDeadline c) w of
           (True, w1) \<Rightarrow> ret () w1 | (False, w1) \<Rightarrow> fail (Wrap ''tenant budget'' ErrBudgetExceeded) w1)) w1)"
    if "moved t m w1" for w1
    using that unfolding moved_def [of t m w1] by (rule moved_opts)
  show ?thesis
    unfolding Move_def using assms(1)
    by (auto intro!: outc_bind [OF moved_opts(7) [OF keep]] outc_bind [OF budget] rest)
qed

lemma moved_Assign: "moved t m w \<Longrightarrow> outc True (mvd t m) (mvd t m) (Assign n c t cl opr w)"
proof (induction n arbitrary: w)
  case (Suc n)
  have cas: "outc True (mvd t m) (mvd t m)
     (case mc_CompareAndSet c zero_route (assign_route t cl opr) w1 of
        (None, w2) \<Rightarrow> ret () w2
      | (Some err, w2) \<Rightarrow> if errors_is err ErrCASConflict then Assign n c t cl opr w2 else fail err w2)"
    if "moved t m w1" for w1
    by (rule moved_cas [OF that]) (use that Suc.IH in \<open>auto simp: assign_route_def\<close>)
  show ?case
    unfolding Assign.simps
    using Suc.prems by (auto intro!: moved_get outc_bind moved_run cas moved_Move)
qed simp


subsection \<open>What the protocol does to the route\<close>

lemma fuel_short_mono: "fuel_short n dl k' \<Longrightarrow> k \<le> k' \<Longrightarrow> fuel_short n dl k"
  by (auto simp: fuel_short_def)

lemma upd_current:
  assumes "snap (m(t \<mapsto> r)) k w" "rTenantID r = t" "t \<noteq> []" "rTenantID (mut r) = t"
    "RouteEpoch r \<le> RouteEpoch (mut r)"
  shows "outc T E (\<lambda>r' w'. r' = mut r \<and> snap (m(t \<mapsto> r')) k w') (cas_route c r mut st w)"
  by (rule outc_weaken [OF cas_route_current [OF assms(1)]]) (use assms(2-) in auto)

lemma do_phase2:
  assumes "snap (m(t \<mapsto> r)) k w" "rTenantID r = t" "t \<noteq> []"
  shows "outc T (same (m(t \<mapsto> r)) k) (\<lambda>r' w'. r' = p2 r \<and> snap (m(t \<mapsto> r')) k w') (phase2 c dl b r w)"
proof (cases "rState r = StateQuiescing")
  case True
  show ?thesis
    unfolding phase2_def p2_def if_P [OF True]
    by (rule outc_bind [OF out_drain [OF assms(1)]], rule upd_current) (use assms in \<open>simp_all add: mut_defs\<close>)
qed (use assms in \<open>simp add: phase2_def p2_def\<close>)

lemma do_phase35:
  assumes "snap (m(t \<mapsto> r)) k w" "rTenantID r = t" "t \<noteq> []" "fuel_short n dl k \<Longrightarrow> T"
  shows "outc T (same (m(t \<mapsto> r)) k) (\<lambda>r' w'. r' = p35 b r \<and> snap (m(t \<mapsto> r')) k w')
     (phase35 n c dl b r w)"
proof (cases "rState r = StateDraining")
  case True
  show ?thesis
    unfolding phase35_def p35_def if_P [OF True]
    by (rule outc_bind [OF out_seal [OF assms(1)]], rule outc_bind [OF out_pause], assumption,
        blast intro: fuel_short_mono assms(4), rule upd_current)
      (use assms in \<open>simp_all add: mut_defs\<close>)
qed (use assms in \<open>simp add: phase35_def p35_def\<close>)

lemma do_phase6:
  assumes "snap (m(t \<mapsto> r)) k w" "rTenantID r = t" "t \<noteq> []"
  shows "outc T (same (m(t \<mapsto> r)) k) (\<lambda>r' w'. r' = p6 r \<and> snap (m(t \<mapsto> r')) k w') (phase6 c r w)"
proof (cases "rState r = StateCopying")
  case True
  show ?thesis
    unfolding phase6_def p6_def if_P [OF True]
    by (rule upd_current) (use assms in \<open>simp_all add: mut_defs\<close>)
qed (use assms in \<open>simp add: phase6_def p6_def\<close>)

lemma do_phase7:
  assumes "snap (m(t \<mapsto> r)) k w" "rTenantID r = t" "t \<noteq> []" "rState r = StateCommitting" "RouteEpoch r \<le> ce"
  shows "outc T (same (m(t \<mapsto> r)) k) (same (m(t \<mapsto> rest_on tg ce r)) k) (phase7 c tg ce r w)"
  unfolding phase7_def if_P [OF assms(4)]
  by (rule outc_bind [OF out_own [OF assms(1)]], rule outc_bind [OF out_policy], assumption,
      rule outc_bind [OF upd_current])
    (use assms in \<open>simp_all add: mut_defs\<close>)

lemma do_continueMove:
  assumes "snap (m(t \<mapsto> r)) k w" "rTenantID r = t" "t \<noteq> []" "\<not> AdmitsNew (rState r)"
    and "RouteEpoch r \<le> BarrierEpoch r + 1" "fuel_short n (rDeadline r) k \<Longrightarrow> T"
  shows "outc T (\<lambda>_ w'. \<exists>r'. same_move r r' \<and> snap (m(t \<mapsto> r')) k w')
     (same (m(t \<mapsto> rest_on (TargetCell r) (BarrierEpoch r + 1) r)) k) (continueMove n c r w)"
proof -
  let ?E = "\<lambda>_ w'. \<exists>r'. same_move r r' \<and> snap (m(t \<mapsto> r')) k w'"
  let ?b = "BarrierEpoch r"
  define r2 where "r2 = p2 r"
  define r3 where "r3 = p35 ?b r2"
  define r4 where "r4 = p6 r3"
  have moves: "same_move r r2" "same_move r r3" "same_move r r4" and st: "rState r4 = StateCommitting"
    using assms(4) by (auto simp: r2_def r3_def r4_def same_move_def p2_def p35_def p6_def mut_defs not_AdmitsNew)
  then have t: "rTenantID r2 = t" "rTenantID r3 = t" "rTenantID r4 = t"
    and ep: "RouteEpoch r4 \<le> ?b + 1" using assms(2,5) by (simp_all add: same_move_def)
  have final: "rest_on tg e r4 = rest_on tg e r" for tg e
    using moves(3) by (rule same_move_rest)
  have 7: "outc T ?E (same (m(t \<mapsto> rest_on (TargetCell r) (?b + 1) r)) k)
     (phase7 c (TargetCell r) (?b + 1) r4 w')" if "snap (m(t \<mapsto> r4)) k w'" for w'
    by (rule outc_weaken [OF do_phase7 [OF that t(3) assms(3) st ep]]) (use moves final in auto)
  have 6: "outc T ?E (\<lambda>r' w'. r' = r4 \<and> snap (m(t \<mapsto> r')) k w') (phase6 c r3 w')"
    if "snap (m(t \<mapsto> r3)) k w'" for w'
    by (rule outc_weaken [OF do_phase6 [OF that t(2) assms(3)]]) (use moves r4_def in auto)
  have 3: "outc T ?E (\<lambda>r' w'. r' = r3 \<and> snap (m(t \<mapsto> r')) k w') (phase35 n c (rDeadline r) ?b r2 w')"
    if "snap (m(t \<mapsto> r2)) k w'" for w'
    by (rule outc_weaken [OF do_phase35 [OF that t(1) assms(3,6)]]) (use moves r3_def in auto)
  have 2: "outc T ?E (\<lambda>r' w'. r' = r2 \<and> snap (m(t \<mapsto> r')) k w') (phase2 c (rDeadline r) ?b r w)"
    by (rule outc_weaken [OF do_phase2 [OF assms(1-3)]]) (use same_move_refl assms(4) r2_def in auto)
  show ?thesis
    unfolding continueMove_def Let_def
    by (rule outc_bind [OF 2], rule outc_bind [where Q' = "\<lambda>r' w'. r' = r3 \<and> snap (m(t \<mapsto> r')) k w'"],
        use 3 in blast, rule outc_bind [where Q' = "\<lambda>r' w'. r' = r4 \<and> snap (m(t \<mapsto> r')) k w'"])
      (use 6 7 in blast)+
qed


lemma do_Rollback:
  assumes "snap (m(t \<mapsto> r)) k w" "rTenantID r = t" "t \<noteq> []" "\<not> AdmitsNew (rState r)"
    and "RouteEpoch r \<le> rollback_epoch r"
  shows "outc T (same (m(t \<mapsto> r)) k) (same (m(t \<mapsto> rest_on (rollback_source r) (rollback_epoch r) r)) k)
     (Rollback (Suc n) c t w)"
  unfolding Rollback.simps Let_def
proof (rule out_get [OF assms(1)], goal_cases)
  case (2 cur w1)
  then have cur: "cur = r" by simp
  let ?r' = "rest_on (rollback_source r) (rollback_epoch r) r"
  have cas: "spec_cas r ?r' (m(t \<mapsto> r)) = (None, m(t \<mapsto> ?r'))"
    using assms by (simp add: spec_cas_def rest_on_def)
  show ?case
    unfolding cur if_not_P [OF assms(4)]
    by (rule outc_bind [OF out_own [OF 2(1)]], rule outc_bind [OF out_policy], assumption, rule out_cas, assumption)
      (use cas assms(2) in simp_all)
qed simp

lemma do_rollback_after:
  assumes "snap (m(t \<mapsto> r')) k w" "same_move r r'" "rTenantID r = t" "t \<noteq> []"
    and "RouteEpoch r \<le> rollback_epoch r"
  shows "outc T (\<lambda>e w'. e = err \<and> snap (m(t \<mapsto> rest_on (rollback_source r) (rollback_epoch r) r)) k w'
        \<or> (\<exists>rb. e = Join err (Wrap ''cells: rollback'' rb)) \<and> snap (m(t \<mapsto> r')) k w')
     Q (rollback_after (Suc n) c t err w)"
proof -
  have r': "rTenantID r' = t" "\<not> AdmitsNew (rState r')" "RouteEpoch r' \<le> rollback_epoch r'"
    "rollback_source r' = rollback_source r" "rollback_epoch r' = rollback_epoch r"
    using assms(2,3,5) by (auto simp: same_move_def rollback_source_def rollback_epoch_def Let_def)
  show ?thesis
    unfolding rollback_after_def
    by (rule outc_case [OF do_Rollback [OF assms(1) r'(1) assms(4) r'(2,3)]])
      (use same_move_rest [OF assms(2)] r'(4,5) in simp_all)
qed

text \<open>A route in the middle of a move begun by the controller.\<close>

lemma moving_epochs:
  assumes "barrier_wf r" "epoch_room r" "\<not> AdmitsNew (rState r)"
  shows "RouteEpoch r \<le> BarrierEpoch r + 1" "rollback_epoch r = BarrierEpoch r + 1"
    "RouteEpoch r \<le> rollback_epoch r" "BarrierEpoch r + 1 = RouteEpoch r + 2"
proof -
  have b: "BarrierEpoch r = RouteEpoch r + 1" using assms by (simp add: barrier_wf_def)
  show 1: "rollback_epoch r = BarrierEpoch r + 1" "RouteEpoch r \<le> BarrierEpoch r + 1"
    using epoch_room_next [OF assms(2) b] by (simp_all add: word_le_nat_alt)
  then show "RouteEpoch r \<le> rollback_epoch r" by simp
  show "BarrierEpoch r + 1 = RouteEpoch r + 2" using b by simp
qed

lemma do_resume:
  assumes "snap (m(t \<mapsto> r)) k w" "rTenantID r = t" "t \<noteq> []" "\<not> AdmitsNew (rState r)" "barrier_wf r"
    "epoch_room r" "fuel_short (Suc n) (rDeadline r) k \<Longrightarrow> T"
  shows "outc T (\<lambda>e w'. snap (m(t \<mapsto> rest_on (rollback_source r) (RouteEpoch r + 2) r)) k w'
        \<or> (\<exists>r'. same_move r r' \<and> snap (m(t \<mapsto> r')) k w'))
     (\<lambda>_ w'. snap (m(t \<mapsto> rest_on (TargetCell r) (RouteEpoch r + 2) r)) k w'
        \<or> rState r \<noteq> StateCommitting \<and> rDeadline r < clock w' \<and> \<not> time_is_zero (rDeadline r)
            \<and> snap (m(t \<mapsto> rest_on (rollback_source r) (RouteEpoch r + 2) r)) k w')
     (resumeFrom (Suc n) c r w)"
proof -
  note ep = moving_epochs [OF assms(5,6,4)]
  let ?E = "\<lambda>e w'. snap (m(t \<mapsto> rest_on (rollback_source r) (RouteEpoch r + 2) r)) k w'
        \<or> (\<exists>r'. same_move r r' \<and> snap (m(t \<mapsto> r')) k w')"
  let ?Q1 = "\<lambda>_ w'. snap (m(t \<mapsto> rest_on (TargetCell r) (RouteEpoch r + 2) r)) k w'"
  have after: "outc T ?E Q (rollback_after (Suc n) c t err w1)"
    if "same_move r r'" "snap (m(t \<mapsto> r')) k w1" for r' w1 err Q
    by (rule outc_weaken [OF do_rollback_after [OF that(2,1) assms(2,3) ep(3)]])
      (use that(1) ep in auto)
  have fwd: "outc T ?E ?Q1 (case continueMove (Suc n) c r w1 of None \<Rightarrow> None
      | Some (Inl err, w1) \<Rightarrow> rollback_after (Suc n) c (rTenantID r) err w1
      | Some (Inr _, w1) \<Rightarrow> ret () w1)" if "snap (m(t \<mapsto> r)) k w1" for w1
    unfolding assms(2)
    by (rule outc_case [OF do_continueMove [OF that assms(2-4) ep(1) assms(7)]])
      (use after ep(4) in auto)
  have late: "outc T ?E (\<lambda>_ w'. rDeadline r < clock w' \<and>
       snap (m(t \<mapsto> rest_on (rollback_source r) (RouteEpoch r + 2) r)) k w') (Rollback (Suc n) c (rTenantID r) w1)"
    if "snap (m(t \<mapsto> r)) k w1" "k \<le> s" "s \<le> clock w1" "rDeadline r < s" for s w1
  proof -
    from that have "snap (m(t \<mapsto> r)) s w1" by (simp add: snap_def)
    from do_Rollback [OF this assms(2-4) ep(3)] show ?thesis
      unfolding assms(2)
      by (rule outc_weaken) (use that ep same_move_refl [OF assms(4)] in \<open>auto simp: snap_def\<close>)
  qed
  show ?thesis
  proof (cases "rState r \<noteq> StateCommitting \<and> \<not> time_is_zero (rDeadline r)")
    case True
    then show ?thesis
      unfolding resumeFrom_def Let_def if_not_P [OF assms(4)] if_P [OF True]
      by (intro out_now [OF assms(1)])
        (auto simp del: Rollback.simps intro: outc_weaken [OF late] outc_weaken [OF fwd])
  next
    case False
    show ?thesis
      unfolding resumeFrom_def Let_def if_not_P [OF assms(4)] if_not_P [OF False]
      by (rule outc_weaken [OF fwd [OF assms(1)]]) auto
  qed
qed

lemma do_drive:
  assumes "snap m k w" "m t = Some cur" "rTenantID cur = t" "t \<noteq> []" "AdmitsNew (rState cur)" "epoch_room cur"
    and "\<And>s. k \<le> s \<Longrightarrow> fuel_short n (s + mc_drainDeadline c) s \<Longrightarrow> T"
  shows "outc T (\<lambda>_ w'. \<exists>bid dl r'. same_move (begin_barrier plan (RouteEpoch cur + 1) bid dl cur) r'
          \<and> snap (m(t \<mapsto> r')) k w')
     (same (m(t \<mapsto> rest_on (ToCell plan) (RouteEpoch cur + 2) (cur\<lparr>LastOperator := Operator plan\<rparr>))) k)
     (drive n c plan cur w)"
proof -
  have "outc T (\<lambda>_ w'. \<exists>bid dl r'. same_move (begin_barrier plan (RouteEpoch cur + 1) bid dl cur) r'
          \<and> snap (m(t \<mapsto> r')) k w')
     (same (m(t \<mapsto> rest_on (ToCell plan) (RouteEpoch cur + 2) (cur\<lparr>LastOperator := Operator plan\<rparr>))) k)
     (case mc_now c w1 of (s, w2) \<Rightarrow>
        bindr (cas_route c cur (begin_barrier plan (RouteEpoch cur + 1) bid (s + mc_drainDeadline c)) StateQuiescing w2)
          (\<lambda>begun w. continueMove n c begun w))" (is "outc T ?E ?Q _") if "snap m k w1" for bid w1
  proof (rule out_now [OF that], rule outc_bind)
    fix s w2
    assume w2: "snap m k w2" "k \<le> s" "s \<le> clock w2"
    let ?b = "begin_barrier plan (RouteEpoch cur + 1) bid (s + mc_drainDeadline c)"
    from w2 have "snap m s w2" by (simp add: snap_def)
    then show "outc T ?E (\<lambda>r' w'. r' = ?b cur \<and> snap (m(t \<mapsto> r')) s w') (cas_route c cur ?b StateQuiescing w2)"
      using assms(2-4) by (intro outc_weaken [OF cas_route_current]) (auto simp: begin_barrier_def)
    fix r' w'
    assume r': "r' = ?b cur \<and> snap (m(t \<mapsto> r')) s w'"
    have st: "\<not> AdmitsNew (rState (?b cur))" "barrier_wf (?b cur)" "epoch_room (?b cur)"
      using assms(6) by (simp_all add: begin_barrier_def barrier_wf_def epoch_room_def)
    note ep = moving_epochs [OF st(2,3,1)]
    have eq: "r' = ?b cur" using r' by (rule conjunct1)
    have sn: "snap (m(t \<mapsto> ?b cur)) s w'" using conjunct2 [OF r'] unfolding eq .
    have fs: "fuel_short n (rDeadline (?b cur)) s \<Longrightarrow> T"
      using assms(7) [OF w2(2)] by (simp add: begin_barrier_def)
    have rest: "rest_on (TargetCell (?b cur)) (BarrierEpoch (?b cur) + 1) (?b cur)
       = rest_on (ToCell plan) (RouteEpoch cur + 2) (cur\<lparr>LastOperator := Operator plan\<rparr>)"
      using ep(4) by (simp add: begin_barrier_def rest_on_def)
    have ten: "rTenantID (?b cur) = t" using assms(3) by simp
    have up: "snap x s w3 \<Longrightarrow> snap x k w3" for x w3 using w2(2) by (simp add: snap_def)
    show "outc T ?E ?Q (continueMove n c r' w')"
      unfolding eq
      by (rule outc_weaken [OF do_continueMove [OF sn ten assms(4) st(1) ep(1) fs]])
        (use up in blast | simp add: rest up)+
  qed
  then show ?thesis
    unfolding drive_def Let_def using assms(5)
    by (cases "mc_newID c w") (use assms(1) snap_frames(6) in auto)
qed


lemma do_driven:
  assumes "snap m k w" "m (plTenantID plan) = Some cur" "rTenantID cur = plTenantID plan" "plTenantID plan \<noteq> []"
    and "AdmitsNew (rState cur)" "epoch_room cur"
    and "\<And>s. k \<le> s \<Longrightarrow> fuel_short (Suc n) (s + mc_drainDeadline c) s \<Longrightarrow> T"
    and act: "ActiveCell cur \<noteq> ToCell plan"
  shows "outc T (\<lambda>e w'. move_failed plan cur m e (view w')) (\<lambda>_ w'. move_done plan cur m (view w'))
     (move_driven (Suc n) c plan start cur w)"
  unfolding move_driven_def
proof (rule outc_case [OF do_drive [OF assms(1-6)]], goal_cases)
  case (2 e w2)
  let ?t = "plTenantID plan"
  from 2 obtain bid dl r' where r': "same_move (begin_barrier plan (RouteEpoch cur + 1) bid dl cur) r'"
    "snap (m(?t \<mapsto> r')) k w2" by blast
  let ?b = "begin_barrier plan (RouteEpoch cur + 1) bid dl cur"
  have st: "\<not> AdmitsNew (rState ?b)" "barrier_wf ?b" "epoch_room ?b" "rTenantID ?b = ?t"
    using assms(3,6) by (simp_all add: begin_barrier_def barrier_wf_def epoch_room_def)
  note ep = moving_epochs [OF st(2,3,1)]
  have rest: "rest_on (rollback_source ?b) (rollback_epoch ?b) ?b = rested plan (fallback plan cur) cur"
    using ep by (simp add: begin_barrier_def rest_on_def rollback_source_def fallback_def rested_def)
  show ?case
    by (rule outc_weaken [OF do_rollback_after [OF r'(2,1) st(4) assms(4) ep(3)]])
      (use rest r'(1) in \<open>auto simp: move_failed_def snap_def\<close>)
next
  case (3 a w2)
  then have "move_done plan cur m (view w2)" using act by (simp add: move_done_def snap_def rested_def)
  then show ?case
    by (auto simp: record_view snap_def split: option.split intro!: out_now [OF snap_here])
qed (use assms(7) in blast)

lemma do_Move:
  assumes "snap m k w" "m (plTenantID plan) = Some cur" "rTenantID cur = plTenantID plan" "plTenantID plan \<noteq> []"
    and "AdmitsNew (rState cur)" "epoch_room cur"
    and "\<And>s. k \<le> s \<Longrightarrow> fuel_short (Suc n) (s + mc_drainDeadline c) s \<Longrightarrow> T"
  shows "outc T (\<lambda>e w'. move_failed plan cur m e (view w')) (\<lambda>_ w'. move_done plan cur m (view w'))
     (Move (Suc n) c plan w)"
proof -
  have quiet: "snap m k w' \<Longrightarrow> move_failed plan cur m e (view w')" for e w'
    by (simp add: snap_def move_failed_def)
  have rest: "outc T (\<lambda>e w'. move_failed plan cur m e (view w')) (\<lambda>_ w'. move_done plan cur m (view w'))
     (case mc_Get c (plTenantID plan) w1 of
        (Inl err, w1) \<Rightarrow> if errors_is err ErrNoRoute then fail ErrNoRouteToMove w1 else fail err w1
      | (Inr cur, w1) \<Rightarrow> if AdmitsNew (rState cur) \<and> ActiveCell cur = ToCell plan then ret () w1
          else (case mc_now c w1 of (start, w2) \<Rightarrow> move_driven (Suc n) c plan start cur w2))"
    if w1: "snap m k w1" for w1
  proof (rule out_get [OF w1], goal_cases)
    case (2 r w2)
    with assms(2) have r: "r = cur" by simp
    show ?case
    proof (cases "ActiveCell cur = ToCell plan")
      case True
      with 2 r assms(5) show ?thesis by (simp add: move_done_def snap_def)
    next
      case False
      have "outc T (\<lambda>e w'. move_failed plan cur m e (view w')) (\<lambda>_ w'. move_done plan cur m (view w'))
         (move_driven (Suc n) c plan s cur w3)" if "snap m k w3" for s w3
        by (rule do_driven [OF that assms(2-6) _ False]) (use assms(7) in blast)
      with False show ?thesis unfolding r by (simp, intro out_now [OF 2(1)])
    qed
  qed (use assms(2) in simp)
  show ?thesis
  proof (cases "FromCell plan = ToCell plan")
    case True
    then show ?thesis using quiet [OF assms(1)] by (simp add: Move_def)
  next
    case False
    show ?thesis
      unfolding Move_def if_not_P [OF False]
      by (rule outc_bind [OF outc_weaken [OF out_preflight [OF assms(1), where T = T]]],
          assumption, erule quiet, assumption,
          rule outc_bind [OF outc_weaken [OF out_budget [where T = T]]], assumption, assumption,
          erule quiet, assumption, erule rest)
  qed
qed


subsection \<open>Cohorts\<close>

lemma do_cohort:
  assumes "distinct (map plTenantID ms)" "keyed (view w)"
    and "\<forall>p\<in>set ms. \<exists>cur. view w (plTenantID p) = Some cur \<and> AdmitsNew (rState cur) \<and> epoch_room cur"
  shows "outc True (\<lambda>_ _. True) (\<lambda>_ w'. (\<forall>p\<in>set ms. rests_on p (view w'))
      \<and> (\<forall>s. s \<notin> plTenantID ` set ms \<longrightarrow> view w' s = view w s))
    (cohort_loop (Suc n) c cid com ms w)"
  using assms
proof (induction ms arbitrary: w com)
  case (Cons p ms)
  let ?p = "p\<lparr>CohortID := cid\<rparr>" and ?t = "plTenantID p"
  obtain cur where cur: "view w ?t = Some cur" "AdmitsNew (rState cur)" "epoch_room cur" "rTenantID cur = ?t" "?t \<noteq> []"
    using Cons.prems(2,3) by (auto simp: keyed_def)
  have mv: "outc True (\<lambda>_ _. True) (\<lambda>_ w'. move_done ?p cur (view w) (view w')) (Move (Suc n) c ?p w)"
    by (rule outc_weaken [OF do_Move [OF snap_here]]) (use cur in auto)
  have step: "outc True (\<lambda>_ _. True) (\<lambda>_ w'. (\<forall>q\<in>set (p # ms). rests_on q (view w'))
      \<and> (\<forall>s. s \<notin> plTenantID ` set (p # ms) \<longrightarrow> view w' s = view w s))
      (cohort_loop (Suc n) c cid (com @ [?p]) ms w1)" if d: "move_done ?p cur (view w) (view w1)" for w1
  proof -
    from d cur have p1: "rests_on p (view w1)" and oth: "\<forall>s. s \<noteq> ?t \<longrightarrow> view w1 s = view w s"
      by (auto simp: move_done_def rests_on_def rested_def rest_on_def split: if_splits)
    have k: "keyed (view w1)"
      using d cur Cons.prems(2) keyed_upd [of "view w" "rested ?p (ToCell p) cur"]
      by (auto simp: move_done_def rested_def rest_on_def split: if_splits)
    have "\<forall>q\<in>set ms. \<exists>cur. view w1 (plTenantID q) = Some cur \<and> AdmitsNew (rState cur) \<and> epoch_room cur"
      using Cons.prems(1,3) oth by (metis distinct.simps(2) image_eqI list.set_intros(2) list.simps(9) set_map)
    from Cons.IH [OF _ k this, of "com @ [?p]"] Cons.prems(1)
    have IH: "outc True (\<lambda>_ _. True) (\<lambda>_ w'. (\<forall>q\<in>set ms. rests_on q (view w'))
      \<and> (\<forall>s. s \<notin> plTenantID ` set ms \<longrightarrow> view w' s = view w1 s)) (cohort_loop (Suc n) c cid (com @ [?p]) ms w1)"
      by simp
    show ?thesis
      by (rule outc_weaken [OF IH]) (use p1 oth Cons.prems(1) in \<open>auto simp: rests_on_def\<close>)
  qed
  show ?case
    unfolding cohort_loop.simps Let_def
    by (rule outc_case [OF mv]) (use step in \<open>auto split: option.split prod.split\<close>)
qed simp

end

end
