(* ===== verification/Cells_Handover.thy ===== *)
theory Cells_Handover
  imports Cells_Protocol
begin

text \<open>
  The hand-over of a tenant between cells: what a completed move has done to the other planes. The
  locale \<open>move_planes\<close> extends the contract of the environment with the storage fence and the drained
  gate, and shows that a completed move leaves the source cell quiet and the fence open for the new
  cell at the new epoch only.
\<close>

text \<open>No change to the fence, and a quiet tenant stays quiet.\<close>

definition calm :: "('w \<Rightarrow> string \<Rightarrow> string \<Rightarrow> u64 \<Rightarrow> bool) \<Rightarrow> ('w \<Rightarrow> string \<Rightarrow> bool) \<Rightarrow> 'w \<Rightarrow> 'w \<Rightarrow> bool" where
  "calm allow quiet w w' \<longleftrightarrow> allow w' = allow w \<and> (\<forall>t. quiet w t \<longrightarrow> quiet w' t)"

lemma calm_refl [simp]: "calm a q w w"
  by (simp add: calm_def)

lemma calm_trans: "calm a q w1 w2 \<Longrightarrow> calm a q w2 w3 \<Longrightarrow> calm a q w1 w3"
  by (simp add: calm_def)

locale move_planes = move_env c view clock tick
  for c :: "'w MoveController" and view :: "'w \<Rightarrow> string \<Rightarrow> TenantRoute option"
    and clock :: "'w \<Rightarrow> go_time" and tick :: duration +
  fixes allow :: "'w \<Rightarrow> string \<Rightarrow> string \<Rightarrow> u64 \<Rightarrow> bool"
    and quiet :: "'w \<Rightarrow> string \<Rightarrow> bool"
  assumes own_allow: "mc_fencer c = Some f \<Longrightarrow> fo_SetOwner f t cl e w = (None, w') \<Longrightarrow>
      allow w' t cl' e' \<longleftrightarrow> cl' = cl \<and> e' = e"
    and own_quiet: "mc_fencer c = Some f \<Longrightarrow> fo_SetOwner f t cl e w = (x, w') \<Longrightarrow> quiet w s \<Longrightarrow> quiet w' s"
    and seal_quiet: "mc_fencer c = Some f \<Longrightarrow> fo_Seal f t e w = (x, w') \<Longrightarrow> quiet w s \<Longrightarrow> quiet w' s"
    and drain_quiet: "mc_CloseAndDrain c = Some d \<Longrightarrow> d dl t b w = (None, w') \<Longrightarrow> quiet w' t"
    and get_calm: "mc_Get c t w = (g, w') \<Longrightarrow> calm allow quiet w w'"
    and cas_calm: "mc_CompareAndSet c r n w = (x, w') \<Longrightarrow> calm allow quiet w w'"
    and policy_calm: "mc_events c = Some ev \<Longrightarrow> eo_SetPolicy ev t p b w = (x, w') \<Longrightarrow> calm allow quiet w w'"
    and drained_calm: "mc_events c = Some ev \<Longrightarrow> eo_Drained ev t b w = (y, w') \<Longrightarrow> calm allow quiet w w'"
    and now_calm: "mc_now c w = (tm, w') \<Longrightarrow> calm allow quiet w w'"
    and wait_calm: "mc_wait c dl w = (bl, w') \<Longrightarrow> calm allow quiet w w'"
    and record_calm: "mc_budget c = Some bg \<Longrightarrow> calm allow quiet w (bo_Record bg t du w)"
begin

lemma quiet_calm: "calm allow quiet w w' \<Longrightarrow> quiet w t \<Longrightarrow> quiet w' t"
  by (simp add: calm_def)

text \<open>The writer the fence lets in.\<close>

definition owned :: "string \<Rightarrow> string \<Rightarrow> u64 \<Rightarrow> 'w \<Rightarrow> bool" where
  "owned t cl e w \<longleftrightarrow> (\<forall>cl' e'. allow w t cl' e' \<longleftrightarrow> cl' = cl \<and> e' = e)"

lemma owned_calm: "calm allow quiet w w' \<Longrightarrow> owned t cl e w \<Longrightarrow> owned t cl e w'"
  by (simp add: calm_def owned_def)

lemma calm_cas_route:
  assumes "rState (mut r) = st"
  shows "outc T (\<lambda>_. calm allow quiet w) (\<lambda>r' w'. rState r' = st \<and> calm allow quiet w w') (cas_route c r mut st w)"
proof -
  obtain x w1 where x: "mc_CompareAndSet c r (mut r) w = (x, w1)" by (cases "mc_CompareAndSet c r (mut r) w")
  obtain y w2 where y: "mc_Get c (rTenantID r) w1 = (y, w2)" by (cases "mc_Get c (rTenantID r) w1")
  have "calm allow quiet w w1" "calm allow quiet w w2"
    using cas_calm [OF x] get_calm [OF y] by (auto intro: calm_trans)
  with x y assms show ?thesis
    unfolding cas_route_def by (cases x; cases y) (auto simp: Let_def)
qed

lemma calm_wait:
  assumes "mc_events c = Some ev"
  shows "outc True (\<lambda>_. calm allow quiet w) (\<lambda>_. calm allow quiet w) (waitEventsDrained n c ev dl t b w)"
proof (induction n arbitrary: w)
  case (Suc n)
  obtain y w1 where y: "eo_Drained ev t b w = (y, w1)" by (cases "eo_Drained ev t b w")
  obtain bl w2 where bl: "mc_wait c dl w1 = (bl, w2)" by (cases "mc_wait c dl w1")
  have 1: "calm allow quiet w w1" and 2: "calm allow quiet w w2"
    using drained_calm [OF assms y] wait_calm [OF bl] by (auto intro: calm_trans)
  have "outc True (\<lambda>_. calm allow quiet w) (\<lambda>_. calm allow quiet w) (waitEventsDrained n c ev dl t b w2)"
    by (rule outc_weaken [OF Suc.IH]) (use 2 in \<open>auto intro: calm_trans\<close>)
  with y bl 1 2 show ?case by (cases y; cases bl) (auto split: bool.split)
qed simp

subsection \<open>The phases\<close>

abbreviation at_phase :: "string \<Rightarrow> (string \<Rightarrow> TenantRoute option) \<Rightarrow> State \<Rightarrow> TenantRoute \<Rightarrow> 'w \<Rightarrow> bool" where
  "at_phase t m st \<equiv> (\<lambda>r w. moved_r t m r w \<and> rState r = st \<and> quiet w t)"

lemma phase_cas:
  assumes "moved t m w" "rTenantID r = t" "rTenantID (mut r) = t" "rState (mut r) = st" "quiet w t"
  shows "outc True (\<lambda>_ _. True) (at_phase t m st) (cas_route c r mut st w)"
proof -
  have "outc True (mvd t m) (moved_r t m) (cas_route c r mut st w)"
    by (rule moved_cas_route) (use assms in auto)
  from outc_conj [OF this calm_cas_route [where mut = mut and r = r, OF assms(4), where T = True]] show ?thesis
    by (rule outc_weaken) (use assms(5) quiet_calm in auto)
qed

lemma quiet_run:
  "quiet w t \<Longrightarrow> outc True (\<lambda>_ _. True) (\<lambda>_ w'. quiet w' t)
     (run_opt (mc_fencer c) (\<lambda>f w. check_err g (fo_Seal f s b w)) w)"
  "quiet w t \<Longrightarrow> outc True (\<lambda>_ _. True) (\<lambda>_ w'. quiet w' t) (run_opt (mc_events c)
      (\<lambda>ev w. bindr (check_err g (eo_SetPolicy ev s p b w)) (\<lambda>_ w. waitEventsDrained n c ev dl s b w)) w)"
proof -
  assume q: "quiet w t"
  show "outc True (\<lambda>_ _. True) (\<lambda>_ w'. quiet w' t)
     (run_opt (mc_fencer c) (\<lambda>f w. check_err g (fo_Seal f s b w)) w)"
    using q seal_quiet by (intro outc_run_opt outc_check_err) auto
  show "outc True (\<lambda>_ _. True) (\<lambda>_ w'. quiet w' t) (run_opt (mc_events c)
      (\<lambda>ev w. bindr (check_err g (eo_SetPolicy ev s p b w)) (\<lambda>_ w. waitEventsDrained n c ev dl s b w)) w)"
  proof (rule outc_run_opt)
    fix ev assume ev: "mc_events c = Some ev"
    show "outc True (\<lambda>_ _. True) (\<lambda>_ w'. quiet w' t)
       (bindr (check_err g (eo_SetPolicy ev s p b w)) (\<lambda>_ w. waitEventsDrained n c ev dl s b w))"
      by (rule outc_bind [where Q' = "\<lambda>_ w'. quiet w' t"])
        (use policy_calm [OF ev] q quiet_calm in \<open>blast intro: outc_check_err outc_weaken [OF calm_wait [OF ev]]\<close>)+
  qed (use q in simp)
qed


text \<open>Running two judgements on a call side by side.\<close>

lemma quiet_moved:
  assumes "outc True (mvd t m) (mvd t m) x" "outc True (\<lambda>_ _. True) (\<lambda>_ w'. quiet w' t) x"
  shows "outc True (\<lambda>_ _. True) (\<lambda>_ w'. moved t m w' \<and> quiet w' t) x"
  by (rule outc_weaken [OF outc_conj [OF assms]]) auto

lemma drain_phase:
  assumes "moved_r t m r w" "rState r = StateQuiescing" "mc_CloseAndDrain c = Some d"
  shows "outc True (\<lambda>_ _. True) (at_phase t m StateDraining) (phase2 c dl b r w)"
proof -
  have "outc True (\<lambda>_ _. True) (\<lambda>_ w'. quiet w' t)
     (run_opt (mc_CloseAndDrain c) (\<lambda>d w. check_err g (d dl (rTenantID r) b w)) w)" for g
    using drain_quiet [OF assms(3)] assms by (intro outc_run_opt outc_check_err) auto
  note q = quiet_moved [OF moved_run(4) this]
  show ?thesis
    unfolding phase2_def if_P [OF assms(2)]
    by (rule outc_bind [OF q], use assms(1) in blast, rule phase_cas) (use assms(1) in \<open>auto simp: mut_defs\<close>)
qed

lemma copy_phase:
  assumes "at_phase t m StateDraining r w"
  shows "outc True (\<lambda>_ _. True) (at_phase t m StateCopying) (phase35 n c dl b r w)"
proof -
  note 1 = quiet_moved [OF moved_run(1) quiet_run(1)]
  note 2 = quiet_moved [OF moved_run(5) quiet_run(2)]
  have r: "moved t m w" "rTenantID r = t" "quiet w t" and st: "rState r = StateDraining"
    using assms by auto
  show ?thesis
    unfolding phase35_def if_P [OF st]
    by (rule outc_bind [OF 1 [OF r(1,3)]], rule outc_bind [OF 2], erule conjunct1, erule conjunct2,
        rule phase_cas) (use r in \<open>auto simp: mut_defs\<close>)
qed

lemma ready_phase:
  assumes "at_phase t m StateCopying r w"
  shows "outc True (\<lambda>_ _. True) (at_phase t m StateCommitting) (phase6 c r w)"
proof -
  have r: "moved t m w" "rTenantID r = t" "quiet w t" and st: "rState r = StateCopying"
    using assms by auto
  show ?thesis
    unfolding phase6_def if_P [OF st] by (rule phase_cas) (use r in \<open>auto simp: mut_defs\<close>)
qed

lemma commit_phase:
  assumes "at_phase t m StateCommitting r w" "mc_fencer c = Some f"
  shows "outc True (\<lambda>_ _. True) (\<lambda>_ w'. quiet w' t \<and> owned t tg ce w') (phase7 c tg ce r w)"
proof -
  let ?Q = "\<lambda>_ w'. quiet w' t \<and> owned t tg ce w'"
  have r: "rTenantID r = t" "rState r = StateCommitting" "quiet w t" using assms(1) by auto
  have 1: "outc True (\<lambda>_ _. True) ?Q (run_opt (mc_fencer c) (\<lambda>f w. check_err g (fo_SetOwner f t tg ce w)) w)" for g
    using assms(2) r(3) own_quiet own_allow
    by (intro outc_run_opt outc_check_err) (auto simp: owned_def)
  have 2: "outc True (\<lambda>_ _. True) ?Q (run_opt (mc_events c) (\<lambda>ev w. check_err g (eo_SetPolicy ev t PolicyNormal ce w)) w1)"
    if "?Q () w1" for g w1
    using that policy_calm quiet_calm owned_calm by (intro outc_run_opt outc_check_err) (auto, blast+)
  have 3: "outc True (\<lambda>_ _. True) ?Q (bindr (cas_route c r (rest_on tg ce) StateActive w1) (\<lambda>_ w. ret () w))"
    if "?Q () w1" for w1
    by (rule outc_bind, rule outc_weaken [OF calm_cas_route [where T = True]])
      (use that quiet_calm owned_calm in \<open>auto simp: mut_defs\<close>)
  show ?thesis
    unfolding phase7_def r if_P [OF refl]
    by (rule outc_bind [OF 1], rule outc_bind [OF 2], assumption, rule 3)
qed

lemma handover_continueMove:
  assumes "moved_r t m r w" "rState r = StateQuiescing" "mc_CloseAndDrain c = Some d" "mc_fencer c = Some f"
  shows "outc True (\<lambda>_ _. True) (\<lambda>_ w'. quiet w' t \<and> owned t (TargetCell r) (BarrierEpoch r + 1) w')
     (continueMove n c r w)"
  unfolding continueMove_def Let_def
  by (rule outc_bind [OF drain_phase [OF assms(1-3)]], rule outc_bind [OF copy_phase], assumption,
      rule outc_bind [OF ready_phase], assumption, rule commit_phase [OF _ assms(4)])


subsection \<open>A whole move\<close>

abbreviation handed :: "MovePlan \<Rightarrow> TenantRoute \<Rightarrow> 'a \<Rightarrow> 'w \<Rightarrow> bool" where
  "handed plan cur \<equiv> (\<lambda>_ w'. quiet w' (plTenantID plan)
     \<and> owned (plTenantID plan) (ToCell plan) (RouteEpoch cur + 2) w')"

lemma handed_calm: "calm allow quiet w w' \<Longrightarrow> handed plan cur x w \<Longrightarrow> handed plan cur x w'"
  using quiet_calm owned_calm by blast

lemma handover_begin:
  assumes "snap m k w" "keyed m" "m t = Some cur" "mc_CloseAndDrain c = Some d" "mc_fencer c = Some f"
    and "plTenantID plan = t"
  shows "outc True (\<lambda>_ _. True) (handed plan cur)
    (bindr (cas_route c cur (begin_barrier plan (RouteEpoch cur + 1) bid dl) StateQuiescing w)
       (\<lambda>begun w. continueMove n c begun w))"
proof -
  let ?b = "begin_barrier plan (RouteEpoch cur + 1) bid dl"
  have t: "rTenantID cur = t" "t \<noteq> []" using assms(2,3) by (auto simp: keyed_def)
  have "outc True (\<lambda>_ _. True) (\<lambda>r' w'. r' = ?b cur \<and> snap (m(t \<mapsto> ?b cur)) k w')
     (cas_route c cur ?b StateQuiescing w)"
    by (rule outc_weaken [OF cas_route_current [OF assms(1)]]) (use assms(3) t in \<open>auto simp: begin_barrier_def\<close>)
  moreover have "outc True (\<lambda>_ _. True) (handed plan cur) (continueMove n c (?b cur) w')"
    if w': "snap (m(t \<mapsto> ?b cur)) k w'" for w'
  proof -
    have "keyed (m(t \<mapsto> ?b cur))" using keyed_upd [OF assms(2), of "?b cur"] t by simp
    with w' have "moved_r t (m(t \<mapsto> ?b cur)) (?b cur) w'"
      using t moves_refl by (auto simp: moved_def snap_def)
    from handover_continueMove [OF this _ assms(4,5)] show ?thesis
      using assms(6) by (simp add: begin_barrier_def add.commute)
  qed
  ultimately show ?thesis by (auto intro: outc_bind)
qed

lemma rollback_after_fails: "outc True (\<lambda>_ _. True) Q (rollback_after n c t e w)"
  by (auto simp: rollback_after_def split: option.split prod.split sum.split)

lemma handover_driven:
  assumes "snap m k w" "keyed m" "m t = Some cur" "mc_CloseAndDrain c = Some d" "mc_fencer c = Some f"
    and "plTenantID plan = t" "AdmitsNew (rState cur)"
  shows "outc True (\<lambda>_ _. True) (handed plan cur) (move_driven n c plan start cur w)"
proof -
  have start: "outc True (\<lambda>_ _. True) (handed plan cur) (drive n c plan cur w)"
  proof -
    obtain bid w1 where i: "mc_newID c w = (bid, w1)" by (cases "mc_newID c w")
    with assms(1) have "snap m k w1" by (blast intro: snap_frames)
    then show ?thesis
      unfolding drive_def Let_def using assms(7) i
      by (simp, intro out_now) (auto intro: handover_begin [OF _ assms(2-6)])
  qed
  have tail: "outc True (\<lambda>_ _. True) (handed plan cur) (case mc_budget c of None \<Rightarrow> ret () w3
      | Some b \<Rightarrow> (case mc_now c w3 of (s, w4) \<Rightarrow> ret () (bo_Record b (plTenantID plan) (wrap64 (s - start)) w4)))"
    if "handed plan cur () w3" for w3
    using that by (auto split: option.split prod.split dest: now_calm record_calm handed_calm
        intro: handed_calm)
  show ?thesis
    unfolding move_driven_def
    by (rule outc_case [OF start]) (rule rollback_after_fails, erule tail)
qed


lemma handover_Move:
  assumes "snap m k w" "keyed m" "m (plTenantID plan) = Some cur" "mc_CloseAndDrain c = Some d" "mc_fencer c = Some f"
    and "AdmitsNew (rState cur)" "ActiveCell cur \<noteq> ToCell plan"
  shows "outc True (\<lambda>_ _. True) (handed plan cur) (Move n c plan w)"
proof -
  have rest: "outc True (\<lambda>_ _. True) (handed plan cur) (case mc_Get c (plTenantID plan) w1 of
        (Inl err, w1) \<Rightarrow> if errors_is err ErrNoRoute then fail ErrNoRouteToMove w1 else fail err w1
      | (Inr cur, w1) \<Rightarrow> if AdmitsNew (rState cur) \<and> ActiveCell cur = ToCell plan then ret () w1
          else (case mc_now c w1 of (start, w2) \<Rightarrow> move_driven n c plan start cur w2))"
    if w1: "snap m k w1" for w1
  proof (rule out_get [OF w1], goal_cases)
    case (2 r w2)
    have "outc True (\<lambda>_ _. True) (handed plan cur) (case mc_now c w2 of (start, w3) \<Rightarrow> move_driven n c plan start cur w3)"
      by (rule out_now [OF 2(1)]) (rule handover_driven [OF _ assms(2-5) refl assms(6)])
    with 2 assms(3,7) show ?case by simp
  qed simp
  show ?thesis
  proof (cases "FromCell plan = ToCell plan")
    case False
    show ?thesis
      unfolding Move_def if_not_P [OF False]
      by (rule outc_bind [OF outc_weaken [OF out_preflight [OF assms(1), where T = True]]], assumption, simp, assumption,
          rule outc_bind [OF outc_weaken [OF out_budget [where T = True]]], assumption, assumption, simp,
          assumption, erule rest)
  qed (simp add: Move_def)
qed

end

end
