(* ===== verification/Cells_World.thy ===== *)
theory Cells_World
  imports Cells_Handover
begin

text \<open>
  The in-memory deployment: a controller built by \<^verbatim>\<open>NewMoveController\<close> (\<^verbatim>\<open>src/cells/move.go\<close>) over
  \<^verbatim>\<open>MemTable\<close> with \<^verbatim>\<open>MemFencer\<close>, \<^verbatim>\<open>MemEventBarrier\<close>, a \<^verbatim>\<open>GateDrainer\<close> and a
  \<^verbatim>\<open>BudgetMeter\<close> as options. It discharges the contracts of the protocol, and the properties of the
  controller are stated on it.
\<close>

section \<open>The world\<close>

text \<open>
  While the drainer waits, requests come and go at the gate; \<open>wTraffic\<close> is what happens during the
  next drain.
\<close>

datatype traffic = Arrive u64 | Depart u64

record world =
  wTable :: MemTable
  wFence :: MemFencer
  wEvents :: MemEventBarrier
  wGates :: GateRegistry
  wBudget :: BudgetMeter
  wClock :: go_time
  wMonth :: "int \<times> nat"
  wSeq :: u64
  wTraffic :: "traffic list"

record controller_opts =
  withFencer :: bool
  withEvents :: bool
  withDrainer :: bool
  withBudget :: bool
  withDeadline :: "duration option"

fun traffic_op :: "traffic \<Rightarrow> gate_op" where
  "traffic_op (Arrive e) = OpEnter e"
| "traffic_op (Depart sq) = OpLeave sq"

definition fair_sched :: "traffic list \<Rightarrow> cfb_ev list" where
  "fair_sched ts = [EvWaiter, EvWaiter] @ concat (map (\<lambda>x. [EvOp (traffic_op x), EvWaiter, EvWaiter]) ts)
     @ [EvFire, EvNotify, EvWaiter]"

definition defaultDrainDeadline :: duration where
  "defaultDrainDeadline = 30 * 1000000000"

text \<open>\<open>NewMoveController\<close>'s default generator of barrier ids.\<close>

definition default_newID :: "world \<Rightarrow> string \<times> world" where
  "default_newID w = (let n = wSeq w + 1 in (''barrier-'' @ dec_string (unat n), w\<lparr>wSeq := n\<rparr>))"

definition world_drain :: "go_time \<Rightarrow> string \<Rightarrow> u64 \<Rightarrow> world \<Rightarrow> cerr option \<times> world" where
  "world_drain deadline tenantID barrierEpoch w =
     (case GateDrainer_CloseAndDrain (fair_sched (wTraffic w)) tenantID barrierEpoch (wGates w) of
        None \<Rightarrow> (Some CtxErr, w)
      | Some ((_, err), gr) \<Rightarrow>
          (err, w\<lparr>wGates := gr, wTraffic := [],
                  wClock := (if err = None then wClock w else max (wClock w) deadline)\<rparr>))"

definition event_tick :: duration where
  "event_tick = 5000000"

definition world_wait :: "go_time \<Rightarrow> world \<Rightarrow> bool \<times> world" where
  "world_wait deadline w =
     (if \<not> time_is_zero deadline \<and> deadline \<le> wClock w + event_tick
      then (True, w\<lparr>wClock := max (wClock w) deadline\<rparr>)
      else (False, w\<lparr>wClock := wClock w + event_tick\<rparr>))"

definition NewMoveController :: "controller_opts \<Rightarrow> world MoveController" where
  "NewMoveController opts =
     \<lparr>mc_Get = (\<lambda>t w. (mem_Get t (wTable w), w)),
      mc_CompareAndSet = (\<lambda>e n w. case mem_CompareAndSet e n (wTable w) of (x, tb) \<Rightarrow> (x, w\<lparr>wTable := tb\<rparr>)),
      mc_fencer = (if withFencer opts
        then Some \<lparr>fo_Seal = (\<lambda>t b w. case memf_Seal t b (wFence w) of (x, f) \<Rightarrow> (x, w\<lparr>wFence := f\<rparr>)),
                   fo_SetOwner = (\<lambda>t cl e w. case memf_SetOwner t cl e (wFence w) of (x, f) \<Rightarrow> (x, w\<lparr>wFence := f\<rparr>))\<rparr>
        else None),
      mc_events = (if withEvents opts
        then Some \<lparr>eo_SetPolicy = (\<lambda>t p e w. case memb_SetPolicy t p e (wEvents w) of (x, b) \<Rightarrow> (x, w\<lparr>wEvents := b\<rparr>)),
                   eo_Drained = (\<lambda>t e w. (memb_Drained t e (wEvents w), w))\<rparr>
        else None),
      mc_CloseAndDrain = (if withDrainer opts then Some world_drain else None),
      mc_now = (\<lambda>w. (wClock w, w)),
      mc_newID = default_newID,
      mc_preflight = (\<lambda>plan w. (None, w)),
      mc_drainDeadline = (case withDeadline opts of
          Some d \<Rightarrow> if d > 0 then d else defaultDrainDeadline | None \<Rightarrow> defaultDrainDeadline),
      mc_budget = (if withBudget opts
        then Some \<lparr>bo_Allowed = (\<lambda>t d w. case Allowed (wMonth w) t d (wBudget w) of (x, b) \<Rightarrow> (x, w\<lparr>wBudget := b\<rparr>)),
                   bo_Record = (\<lambda>t d w. w\<lparr>wBudget := Record (wMonth w) t d (wBudget w)\<rparr>)\<rparr>
        else None),
      mc_wait = world_wait\<rparr>"

definition world_view :: "world \<Rightarrow> string \<Rightarrow> TenantRoute option" where
  "world_view w = routes (wTable w)"

definition world_allow :: "world \<Rightarrow> string \<Rightarrow> string \<Rightarrow> u64 \<Rightarrow> bool" where
  "world_allow w t cl e = memf_Allow t cl e (wFence w)"

text \<open>No request of the tenant is in flight at the instance, and its gate admits none.\<close>

definition world_quiet :: "world \<Rightarrow> string \<Rightarrow> bool" where
  "world_quiet w t = (case gates (wGates w) t of None \<Rightarrow> False
     | Some g \<Rightarrow> gstate g \<noteq> gateOpen \<and> inflight g = {})"

section \<open>The contracts hold\<close>

text \<open>The drain always returns under a fair schedule.\<close>

definition parked :: "cfb \<Rightarrow> bool" where
  "parked s \<longleftrightarrow> pc s = Returned \<or> pc s = Blocked \<and> \<not> notified s"

lemma parked_settle: "\<not> notified s \<Longrightarrow> parked (cfb_step EvWaiter (cfb_step EvWaiter s))"
  by (cases "pc s") (auto simp: parked_def)

lemma parked_traffic: "parked s \<Longrightarrow>
    parked (cfb_step EvWaiter (cfb_step EvWaiter (cfb_step (EvOp x) s)))"
  by (cases "pc s") (auto simp: parked_def split: prod.split cfb_pc.splits)

lemma parked_fire: "parked s \<Longrightarrow> pc (cfb_step EvWaiter (cfb_step EvNotify (cfb_step EvFire s))) = Returned"
  by (auto simp: parked_def)

lemma parked_run: "parked s \<Longrightarrow>
    parked (fold cfb_step (concat (map (\<lambda>x. [EvOp (traffic_op x), EvWaiter, EvWaiter]) ts)) s)"
proof (induction ts arbitrary: s)
  case (Cons a ts)
  from Cons.IH [OF parked_traffic [OF Cons.prems]] show ?case by (simp del: cfb_step.simps)
qed simp

lemma fair_sched_returns: "\<exists>ct gr'. CloseForBarrier (fair_sched ts) t b gr = Some (ct, gr')"
proof -
  define s0 where "s0 = cfb_init b (getOrCreate t 0 gr)"
  have "parked (cfb_step EvWaiter (cfb_step EvWaiter s0))"
    by (rule parked_settle) (simp add: s0_def cfb_init_def)
  from parked_fire [OF parked_run [OF this]] have "pc (fold cfb_step (fair_sched ts) s0) = Returned"
    by (simp add: fair_sched_def del: cfb_step.simps)
  then show ?thesis by (simp add: CloseForBarrier_def Let_def s0_def)
qed

lemma fair_sched_no_open: "EvOp (OpOpen e) \<notin> set (fair_sched ts)"
proof -
  have "traffic_op x \<noteq> OpOpen e" for x by (cases x) simp_all
  then show ?thesis by (auto simp: fair_sched_def dest: sym)
qed


lemma world_drain_gate:
  assumes "world_drain dl t b w = (x, w')"
  shows "wTable w' = wTable w \<and> wFence w' = wFence w \<and> wClock w \<le> wClock w'
    \<and> (x = None \<longrightarrow> world_quiet w' t)"
proof -
  obtain ct gr' where r: "CloseForBarrier (fair_sched (wTraffic w)) t b (wGates w) = Some (ct, gr')"
    using fair_sched_returns by blast
  from barrier_gate [OF this] fair_sched_no_open obtain g where g: "gates gr' t = Some g"
    "gstate g \<noteq> gateOpen" "Drained ct \<longrightarrow> inflight g = {}" "Drained ct \<longleftrightarrow> \<not> Forced ct" by blast
  with r assms show ?thesis
    by (auto simp: world_drain_def GateDrainer_CloseAndDrain_def world_quiet_def split: if_splits)
qed

lemma frame_world:
  "wTable w' = wTable w \<Longrightarrow> wClock w \<le> wClock w' \<Longrightarrow> frame world_view wClock w w'"
  by (simp add: frame_def world_view_def)

lemma event_tick_pos: "0 < event_tick"
  by (simp add: event_tick_def)

lemma world_wait_clock:
  assumes "world_wait dl w = (bl, w')"
  shows "wTable w' = wTable w \<and> wFence w' = wFence w \<and> wGates w' = wGates w \<and> wClock w \<le> wClock w'
    \<and> (\<not> bl \<longrightarrow> \<not> time_is_zero dl \<longrightarrow> wClock w < dl \<and> wClock w + event_tick \<le> wClock w')"
  using assms event_tick_pos by (auto simp: world_wait_def split: if_splits)

interpretation mem_env: move_env "NewMoveController opts" world_view wClock event_tick for opts
proof unfold_locales
  show "mc_Get (NewMoveController opts) t w = (g, w') \<Longrightarrow> frame world_view wClock w w'
      \<and> g = (case world_view w t of None \<Rightarrow> Inl ErrNoRoute | Some r \<Rightarrow> Inr r)" for t w g w'
    by (auto simp: NewMoveController_def mem_Get_def world_view_def)
  show "mc_CompareAndSet (NewMoveController opts) e n w = (x, w') \<Longrightarrow>
      spec_cas e n (world_view w) = (x, world_view w') \<and> wClock w \<le> wClock w'" for e n w x w'
    using mem_cas_spec by (auto simp: NewMoveController_def world_view_def split: prod.splits)
  show "mc_CloseAndDrain (NewMoveController opts) = Some d \<Longrightarrow> d dl t b w = (x, w') \<Longrightarrow>
      frame world_view wClock w w'" for d dl t b w x w'
    using world_drain_gate by (auto simp: NewMoveController_def split: if_splits intro!: frame_world)
  show "mc_wait (NewMoveController opts) dl w = (bl, w') \<Longrightarrow> frame world_view wClock w w'" for dl w bl w'
    using world_wait_clock by (auto simp: NewMoveController_def intro!: frame_world)
  show "mc_wait (NewMoveController opts) dl w = (False, w') \<Longrightarrow> \<not> time_is_zero dl \<Longrightarrow>
      wClock w < dl \<and> wClock w + event_tick \<le> wClock w'" for dl w w'
    using world_wait_clock by (auto simp: NewMoveController_def)
qed (auto simp: NewMoveController_def default_newID_def Let_def event_tick_pos split: if_splits prod.splits
    intro!: frame_world)


lemma calm_world: "wFence w' = wFence w \<Longrightarrow> wGates w' = wGates w \<Longrightarrow> calm world_allow world_quiet w w'"
  by (simp add: calm_def world_allow_def [abs_def] world_quiet_def)

lemma quiet_world [simp]: "world_quiet (w\<lparr>wFence := f\<rparr>) s = world_quiet w s"
  by (simp add: world_quiet_def)

interpretation mem_planes: move_planes "NewMoveController opts" world_view wClock event_tick
  world_allow world_quiet for opts
proof unfold_locales
  show "mc_fencer (NewMoveController opts) = Some f \<Longrightarrow> fo_SetOwner f t cl e w = (None, w') \<Longrightarrow>
      world_allow w' t cl' e' \<longleftrightarrow> cl' = cl \<and> e' = e" for f t cl e w w' cl' e'
    using memf.own_ok by (fastforce simp: NewMoveController_def world_allow_def split: if_splits prod.splits)
  show "mc_CloseAndDrain (NewMoveController opts) = Some d \<Longrightarrow> d dl t b w = (None, w') \<Longrightarrow>
      world_quiet w' t" for d dl t b w w'
    using world_drain_gate by (auto simp: NewMoveController_def split: if_splits)
  show "mc_wait (NewMoveController opts) dl w = (bl, w') \<Longrightarrow> calm world_allow world_quiet w w'" for dl w bl w'
    using world_wait_clock by (auto simp: NewMoveController_def intro!: calm_world)
qed (auto simp: NewMoveController_def split: if_splits prod.splits intro!: calm_world)

section \<open>Properties\<close>



definition sample_world :: world where
  "sample_world = \<lparr>wTable = NewMemTable\<lparr>routes := [''t'' \<mapsto> route_on ''t'' 1 ''a'']\<rparr>, wFence = Map.empty,
     wEvents = Map.empty, wGates = put_gate ''t'' (newGate 1\<lparr>nextSeq := 1, inflight := {1}\<rparr>) (NewGateRegistry ''a'' ''i''),
     wBudget = NewBudgetMeter None, wClock = 100, wMonth = (2025, 1), wSeq = 0, wTraffic = [Depart 1]\<rparr>"

definition sample_opts :: controller_opts where
  "sample_opts = \<lparr>withFencer = True, withEvents = True, withDrainer = True, withBudget = True,
     withDeadline = Some 5000000\<rparr>"

lemma sample_view [simp]: "world_view sample_world = [''t'' \<mapsto> route_on ''t'' 1 ''a'']"
  by (simp add: world_view_def sample_world_def)

lemma sample_keyed: "keyed (world_view sample_world)" "epoch_room (route_on ''t'' 1 ''a'')"
    "plTenantID sample_plan = ''t''" "ToCell sample_plan = ''b''" "0 < wClock sample_world"
proof -
  show "keyed (world_view sample_world)" by (simp add: keyed_def)
  show "0 < wClock sample_world" by (simp add: sample_world_def)
qed (simp_all add: epoch_room_def sample_plan_def)

lemma sample_run: "\<exists>w'. Move (Suc 1) (NewMoveController sample_opts) sample_plan sample_world = Some (Inr (), w')"
proof -
  have "case Move (Suc 1) (NewMoveController sample_opts) sample_plan sample_world of
     Some (Inr _, w') \<Rightarrow> True | _ \<Rightarrow> False"
    by code_simp
  then show ?thesis by (auto split: option.splits prod.splits sum.splits)
qed


text \<open>C3: a completed move hands the tenant over. When a fencer and a drainer are attached and \<open>Move\<close> of a resting
  tenant to another cell succeeds, the source instance has nothing of the tenant in flight and its gate
  admits nothing, and the fence lets exactly one writer in: the new cell at epoch \<open>N + 2\<close>.\<close>

theorem move_hands_over:
  assumes "withFencer opts" "withDrainer opts"
    and "keyed (world_view w)" "world_view w (plTenantID plan) = Some cur"
    and "AdmitsNew (rState cur)" "ActiveCell cur \<noteq> ToCell plan"
    and "Move n (NewMoveController opts) plan w = Some (Inr (), w')"
  shows "Inflight (plTenantID plan) (wGates w') = 0
    \<and> fst (TryEnter (plTenantID plan) e (wGates w')) = Inl ErrTenantDraining
    \<and> (\<forall>cl e'. memf_Allow (plTenantID plan) cl e' (wFence w') \<longleftrightarrow> cl = ToCell plan \<and> e' = RouteEpoch cur + 2)"
proof -
  have "mc_CloseAndDrain (NewMoveController opts) = Some world_drain"
    "mc_fencer (NewMoveController opts) \<noteq> None"
    using assms(1,2) by (simp_all add: NewMoveController_def)
  then obtain d f where "mc_CloseAndDrain (NewMoveController opts) = Some d"
    "mc_fencer (NewMoveController opts) = Some f" by blast
  from outcD(2) [OF mem_planes.handover_Move [OF mem_env.snap_here assms(3,4) this assms(5,6)] assms(7)]
  have q: "world_quiet w' (plTenantID plan)"
    and own: "mem_planes.owned (plTenantID plan) (ToCell plan) (RouteEpoch cur + 2) w'" by auto
  from q have "Inflight (plTenantID plan) (wGates w') = 0"
    "fst (TryEnter (plTenantID plan) e (wGates w')) = Inl ErrTenantDraining"
    by (auto simp: world_quiet_def Inflight_def TryEnter_def gate_enter_shut split: option.splits)
  with own show ?thesis by (simp add: mem_planes.owned_def world_allow_def)
qed

theorem move_hands_over_witness:
  "\<exists>w'. Move (Suc 1) (NewMoveController sample_opts) sample_plan sample_world = Some (Inr (), w')
     \<and> Inflight ''t'' (wGates w') = 0
     \<and> (\<forall>cl e. memf_Allow ''t'' cl e (wFence w') \<longleftrightarrow> cl = ''b'' \<and> e = 3)"
proof -
  obtain w' where w': "Move (Suc 1) (NewMoveController sample_opts) sample_plan sample_world = Some (Inr (), w')"
    using sample_run by blast
  from move_hands_over [OF _ _ sample_keyed(1) _ _ _ w', of "route_on ''t'' 1 ''a''"] w' show ?thesis
    by (auto simp: sample_keyed sample_opts_def)
qed

text \<open>the controller keeps to its tenant and never lowers an epoch. Whatever the routes in the table, whatever
  planes are attached and however the call ends, \<open>Move\<close>, \<open>Resume\<close>, \<open>Rollback\<close> and \<open>Assign\<close> leave every other
  tenant's route as it was, and no tenant's route epoch decreases.\<close>

theorem controller_confined:
  assumes "keyed (world_view w)"
    and "Move n (NewMoveController opts) plan w = Some (x, w') \<and> plTenantID plan = t
      \<or> Resume n (NewMoveController opts) t w = Some (x, w')
      \<or> Rollback n (NewMoveController opts) t w = Some (x, w')
      \<or> Assign n (NewMoveController opts) t cl opr w = Some (x, w')"
  shows "epoch_le (world_view w) (world_view w') \<and> (\<forall>s. s \<noteq> t \<longrightarrow> world_view w' s = world_view w s)"
proof -
  have m: "mem_env.moved t (world_view w) w" using assms(1) by (simp add: mem_env.moved_def moves_refl)
  have "mem_env.moved t (world_view w) w'"
    using assms(2)
  proof (elim disjE conjE)
    assume "Resume n (NewMoveController opts) t w = Some (x, w')"
    with mem_env.moved_Resume [OF m, of n opts] show ?thesis by (cases x) auto
  next
    assume "Rollback n (NewMoveController opts) t w = Some (x, w')"
    with mem_env.moved_Rollback [OF m, of n opts] show ?thesis by (cases x) auto
  next
    assume "Assign n (NewMoveController opts) t cl opr w = Some (x, w')"
    with mem_env.moved_Assign [OF m, of n opts cl opr] show ?thesis by (cases x) auto
  next
    assume "Move n (NewMoveController opts) plan w = Some (x, w')" "plTenantID plan = t"
    with mem_env.moved_Move [OF m, of plan n opts] show ?thesis by (cases x) auto
  qed
  then show ?thesis by (simp add: mem_env.moved_def moves_def)
qed

theorem controller_confined_witness:
  "\<exists>w'. Move (Suc 1) (NewMoveController sample_opts) sample_plan sample_world = Some (Inr (), w')
     \<and> epoch_le (world_view sample_world) (world_view w') \<and> world_view w' ''u'' = None"
proof -
  obtain w' where w': "Move (Suc 1) (NewMoveController sample_opts) sample_plan sample_world = Some (Inr (), w')"
    using sample_run by blast
  from controller_confined [OF sample_keyed(1) disjI1, OF conjI, OF w' sample_keyed(3)] w' show ?thesis
    by auto
qed


definition crashed_world :: world where
  "crashed_world = sample_world\<lparr>wTable := NewMemTable\<lparr>routes := [''t'' \<mapsto> sample_begun]\<rparr>\<rparr>"


text \<open>a successful cohort move places every member. When \<open>MoveCohort\<close> over distinct resting tenants
  succeeds, every member rests on its target cell and no other tenant's route has changed.\<close>

theorem cohort_places_all:
  assumes "distinct (map plTenantID ms)" "keyed (world_view w)"
    and "\<forall>p\<in>set ms. \<exists>cur. world_view w (plTenantID p) = Some cur \<and> AdmitsNew (rState cur) \<and> epoch_room cur"
    and "MoveCohort (Suc n) (NewMoveController opts) cid ms w = Some (Inr (), w')"
  shows "(\<forall>p\<in>set ms. \<exists>r. world_view w' (plTenantID p) = Some r \<and> AdmitsNew (rState r) \<and> ActiveCell r = ToCell p)
     \<and> (\<forall>s. s \<notin> plTenantID ` set ms \<longrightarrow> world_view w' s = world_view w s)"
  using outcD(2) [OF mem_env.do_cohort [OF assms(1-3)] assms(4) [unfolded MoveCohort_def]]
  by (simp add: rests_on_def)

lemma sample_cohort: "\<exists>w'. MoveCohort (Suc 1) (NewMoveController sample_opts) ''c'' [sample_plan] sample_world = Some (Inr (), w')"
proof -
  have "case MoveCohort (Suc 1) (NewMoveController sample_opts) ''c'' [sample_plan] sample_world of
     Some (Inr _, w') \<Rightarrow> True | _ \<Rightarrow> False"
    by code_simp
  then show ?thesis by (auto split: option.splits prod.splits sum.splits)
qed

theorem cohort_places_all_witness:
  "\<exists>w' r. MoveCohort (Suc 1) (NewMoveController sample_opts) ''c'' [sample_plan] sample_world = Some (Inr (), w')
     \<and> world_view w' ''t'' = Some r \<and> AdmitsNew (rState r) \<and> ActiveCell r = ''b''"
proof -
  obtain w' where w': "MoveCohort (Suc 1) (NewMoveController sample_opts) ''c'' [sample_plan] sample_world = Some (Inr (), w')"
    using sample_cohort by blast
  have "\<forall>p\<in>set [sample_plan]. \<exists>cur. world_view sample_world (plTenantID p) = Some cur \<and> AdmitsNew (rState cur) \<and> epoch_room cur"
    by (simp add: sample_keyed)
  from cohort_places_all [OF _ sample_keyed(1) this w'] w' show ?thesis by (auto simp: sample_keyed)
qed

section \<open>Weak spots\<close>

text \<open>The route of a tenant after a run, as (epoch, active cell, state).\<close>

definition route_after :: "('a, world) res \<Rightarrow> string \<Rightarrow> (u64 \<times> string \<times> State) option" where
  "route_after m t = (case m of None \<Rightarrow> None
     | Some (_, w) \<Rightarrow> map_option (\<lambda>r. (RouteEpoch r, ActiveCell r, rState r)) (world_view w t))"

definition bare_opts :: controller_opts where
  "bare_opts = \<lparr>withFencer = False, withEvents = False, withDrainer = False, withBudget = False,
     withDeadline = None\<rparr>"

text \<open>
  A driver that paused after it had stored \<open>COPYING\<close> for a move from \<open>a\<close> to \<open>b\<close>; the move was rolled back,
  and another controller has brought a move to \<open>c\<close> up to \<open>COMMITTING\<close>.
\<close>

definition stale_route :: TenantRoute where
  "stale_route = to_copying 2 (to_draining sample_begun)"

definition rolled_back :: TenantRoute where
  "rolled_back = rest_on (rollback_source stale_route) (rollback_epoch stale_route) stale_route"

definition newer_route :: TenantRoute where
  "newer_route = to_committing (to_copying 4 (to_draining
     (begin_barrier (sample_plan\<lparr>ToCell := ''c''\<rparr>) (RouteEpoch rolled_back + 1) ''b2'' 9 rolled_back)))"

definition hijack_world :: world where
  "hijack_world = sample_world\<lparr>wTable := NewMemTable\<lparr>routes := [''t'' \<mapsto> newer_route]\<rparr>\<rparr>"

text \<open>without a storage fence, a stale driver can finish a newer move with its own target: the paused driver
  adopts the newer \<open>COMMITTING\<close> route, stores its own target at its own commit epoch and reports
  success, so that epoch 3, at which the tenant rested on \<open>a\<close> after the rollback, now names \<open>b\<close>, and the
  newer move to \<open>c\<close> is lost.\<close>

theorem stale_driver_hijacks_move:
  "(RouteEpoch rolled_back, ActiveCell rolled_back, rState rolled_back) = (3, ''a'', StateActive)
   \<and> (RouteEpoch newer_route, TargetCell newer_route, rState newer_route) = (3, ''c'', StateCommitting)
   \<and> route_after (continueMove 1 (NewMoveController bare_opts) stale_route hijack_world) ''t''
       = Some (3, ''b'', StateActive)
   \<and> (case continueMove 1 (NewMoveController bare_opts) stale_route hijack_world of
        Some (Inr _, _) \<Rightarrow> True | _ \<Rightarrow> False)"
proof (intro conjI)
  show "(RouteEpoch rolled_back, ActiveCell rolled_back, rState rolled_back) = (3, ''a'', StateActive)" by code_simp
  show "(RouteEpoch newer_route, TargetCell newer_route, rState newer_route) = (3, ''c'', StateCommitting)" by code_simp
  show "route_after (continueMove 1 (NewMoveController bare_opts) stale_route hijack_world) ''t''
       = Some (3, ''b'', StateActive)" by code_simp
  show "case continueMove 1 (NewMoveController bare_opts) stale_route hijack_world of
        Some (Inr _, _) \<Rightarrow> True | _ \<Rightarrow> False" by code_simp
qed

text \<open>\<open>Move\<close> trusts \<open>plan.FromCell\<close>. When the plan names a source cell other than the tenant's active cell and
  the drain misses its deadline, the rollback leaves the tenant active on the named cell, which never
  served it.\<close>

theorem rollback_to_unserved_cell:
  "map_option ActiveCell (world_view sample_world ''t'') = Some ''a''
   \<and> route_after (Move 2 (NewMoveController sample_opts) (sample_plan\<lparr>FromCell := ''z''\<rparr>)
       (sample_world\<lparr>wTraffic := []\<rparr>)) ''t'' = Some (3, ''z'', StateActive)"
proof
  show "route_after (Move 2 (NewMoveController sample_opts) (sample_plan\<lparr>FromCell := ''z''\<rparr>)
       (sample_world\<lparr>wTraffic := []\<rparr>)) ''t'' = Some (3, ''z'', StateActive)" by code_simp
qed simp

end
