(* ===== verification/Cells_Campaign.thy ===== *)
theory Cells_Campaign
  imports Cells_World "HOL-Library.List_Lexorder" "HOL-Library.Char_ord" "HOL-Library.AList" "HOL-Library.Multiset"
begin

text \<open>
  Campaigns over many tenants (\<^verbatim>\<open>src/cells/campaign.go\<close>). The tenants are taken in sorted order; the moves
  of different tenants touch different routes, gates and ledgers, so the run is written for one worker
  (\<^verbatim>\<open>MaxConcurrent\<close> 1, the default). Whether the context is cancelled is a function of the world.
\<close>

section \<open>The campaign\<close>

record CampaignPlan =
  Assignments :: "(string \<times> string) list"
  cpOperator :: string
  cpForce :: bool

datatype skip_reason = skipAlreadyPlaced | skipBudget | skipCancelled

record CampaignResult =
  Moved :: "string list"
  Skipped :: "(string \<times> skip_reason) list"
  Failed :: "(string \<times> cerr) list"

definition empty_result :: CampaignResult where
  "empty_result = \<lparr>Moved = [], Skipped = [], Failed = []\<rparr>"

definition add_moved :: "string \<Rightarrow> CampaignResult \<Rightarrow> CampaignResult" where
  "add_moved t res = res\<lparr>Moved := Moved res @ [t]\<rparr>"

definition add_skipped :: "string \<Rightarrow> skip_reason \<Rightarrow> CampaignResult \<Rightarrow> CampaignResult" where
  "add_skipped t why res = res\<lparr>Skipped := Skipped res @ [(t, why)]\<rparr>"

definition add_failed :: "string \<Rightarrow> cerr \<Rightarrow> CampaignResult \<Rightarrow> CampaignResult" where
  "add_failed t e res = res\<lparr>Failed := Failed res @ [(t, e)]\<rparr>"

text \<open>The body of the goroutine: the move or the first placement, and the tally.\<close>

definition campaign_tally :: "string \<Rightarrow> (unit, 'w) res \<Rightarrow> CampaignResult \<Rightarrow> (CampaignResult \<times> 'w) option" where
  "campaign_tally tenant m res = (case m of
      None \<Rightarrow> None
    | Some (Inr _, w) \<Rightarrow> Some (add_moved tenant res, w)
    | Some (Inl err, w) \<Rightarrow>
        Some (if errors_is err ErrBudgetExceeded then add_skipped tenant skipBudget res
              else add_failed tenant err res, w))"

definition campaign_launch :: "nat \<Rightarrow> 'w MoveController \<Rightarrow> CampaignPlan \<Rightarrow> string \<Rightarrow> string \<Rightarrow> TenantRoute option
    \<Rightarrow> CampaignResult \<Rightarrow> 'w \<Rightarrow> (CampaignResult \<times> 'w) option" where
  "campaign_launch fuel c plan tenant target cur res w =
     campaign_tally tenant
       (case cur of
          Some r \<Rightarrow> Move fuel c \<lparr>plTenantID = tenant, FromCell = ActiveCell r, ToCell = target,
                     Operator = cpOperator plan, CohortID = [], Force = cpForce plan\<rparr> w
        | None \<Rightarrow> Assign fuel c tenant target (cpOperator plan) w) res"

definition campaign_budget :: "'w MoveController \<Rightarrow> CampaignPlan \<Rightarrow> string \<Rightarrow> bool \<Rightarrow> 'w \<Rightarrow> bool \<times> 'w" where
  "campaign_budget c plan tenant hasRoute w =
     (case mc_budget c of
        Some b \<Rightarrow> if hasRoute \<and> \<not> cpForce plan then bo_Allowed b tenant (mc_drainDeadline c) w else (True, w)
      | None \<Rightarrow> (True, w))"

text \<open>What happens to a tenant that is not already in place: cancelled, over budget, or launched.\<close>

definition campaign_try :: "nat \<Rightarrow> 'w MoveController \<Rightarrow> ('w \<Rightarrow> bool) \<Rightarrow> CampaignPlan \<Rightarrow> string \<Rightarrow> string
    \<Rightarrow> TenantRoute option \<Rightarrow> CampaignResult \<Rightarrow> 'w \<Rightarrow> (CampaignResult \<times> 'w) option" where
  "campaign_try fuel c cancelled plan tenant target cur res w =
     (if cancelled w then Some (add_skipped tenant skipCancelled res, w)
      else (case campaign_budget c plan tenant (cur \<noteq> None) w of
              (False, w1) \<Rightarrow> Some (add_skipped tenant skipBudget res, w1)
            | (True, w1) \<Rightarrow> campaign_launch fuel c plan tenant target cur res w1))"

definition campaign_one :: "nat \<Rightarrow> 'w MoveController \<Rightarrow> ('w \<Rightarrow> bool) \<Rightarrow> CampaignPlan \<Rightarrow> string \<Rightarrow> string
    \<Rightarrow> CampaignResult \<Rightarrow> 'w \<Rightarrow> (CampaignResult \<times> 'w) option" where
  "campaign_one fuel c cancelled plan tenant target res w =
     (case mc_Get c tenant w of
        (Inl err, w1) \<Rightarrow>
          if errors_is err ErrNoRoute then campaign_try fuel c cancelled plan tenant target None res w1
          else Some (add_failed tenant err res, w1)
      | (Inr r, w1) \<Rightarrow>
          if AdmitsNew (rState r) \<and> ActiveCell r = target
          then Some (add_skipped tenant skipAlreadyPlaced res, w1)
          else campaign_try fuel c cancelled plan tenant target (Some r) res w1)"

fun campaign_loop :: "nat \<Rightarrow> 'w MoveController \<Rightarrow> ('w \<Rightarrow> bool) \<Rightarrow> CampaignPlan \<Rightarrow> (string \<times> string) list
    \<Rightarrow> CampaignResult \<Rightarrow> 'w \<Rightarrow> (CampaignResult \<times> 'w) option" where
  "campaign_loop fuel c cancelled plan [] res w = Some (res, w)"
| "campaign_loop fuel c cancelled plan (a # as) res w =
     (case campaign_one fuel c cancelled plan (fst a) (snd a) res w of
        None \<Rightarrow> None
      | Some (res', w') \<Rightarrow> campaign_loop fuel c cancelled plan as res' w')"

definition Campaign_Run :: "nat \<Rightarrow> 'w MoveController \<Rightarrow> ('w \<Rightarrow> bool) \<Rightarrow> CampaignPlan \<Rightarrow> 'w
    \<Rightarrow> ((CampaignResult \<times> bool) \<times> 'w) option" where
  "Campaign_Run fuel c cancelled plan w =
     (case campaign_loop fuel c cancelled plan (sort_key fst (Assignments plan)) empty_result w of
        None \<Rightarrow> None
      | Some (res, w') \<Rightarrow> Some ((res\<lparr>Moved := sort (Moved res)\<rparr>, Failed res = []), w'))"

text \<open>\<^verbatim>\<open>PlanFromPolicy\<close>; the policy may keep state, and a tenant named twice keeps its last cell.\<close>

fun plan_places :: "(string \<Rightarrow> string list \<Rightarrow> 's \<Rightarrow> (cerr + string) \<times> 's) \<Rightarrow> string list \<Rightarrow> string list \<Rightarrow> 's
    \<Rightarrow> (string \<times> string) list \<Rightarrow> cerr + (string \<times> string) list" where
  "plan_places place cls [] s acc = Inr acc"
| "plan_places place cls (t # ts) s acc =
     (case place t cls s of
        (Inl e, _) \<Rightarrow> Inl e
      | (Inr cell, s') \<Rightarrow> plan_places place cls ts s' (AList.update t cell acc))"

definition PlanFromPolicy :: "(string \<Rightarrow> string list \<Rightarrow> 's \<Rightarrow> (cerr + string) \<times> 's) \<Rightarrow> 's \<Rightarrow> string list
    \<Rightarrow> string list \<Rightarrow> cerr + CampaignPlan" where
  "PlanFromPolicy place s tenants cls =
     (case plan_places place cls (sort tenants) s [] of
        Inl e \<Rightarrow> Inl e
      | Inr asg \<Rightarrow> Inr \<lparr>Assignments = asg, cpOperator = [], cpForce = False\<rparr>)"

section \<open>Every tenant is accounted for\<close>

definition tally :: "CampaignResult \<Rightarrow> string list" where
  "tally res = Moved res @ map fst (Skipped res) @ map fst (Failed res)"

lemma tally_add:
  "mset (tally (add_moved t res)) = mset (tally res) + {#t#}"
  "mset (tally (add_skipped t why res)) = mset (tally res) + {#t#}"
  "mset (tally (add_failed t e res)) = mset (tally res) + {#t#}"
  by (simp_all add: tally_def add_moved_def add_skipped_def add_failed_def)

lemma campaign_one_tally:
  "campaign_one n c cn plan t tg res w = Some (res', w') \<Longrightarrow> mset (tally res') = mset (tally res) + {#t#}"
  by (auto simp: campaign_one_def campaign_try_def campaign_launch_def campaign_tally_def tally_add Let_def
      split: prod.splits sum.splits if_splits bool.splits option.splits)

lemma campaign_loop_tally:
  "campaign_loop n c cn plan as res w = Some (res', w') \<Longrightarrow> mset (tally res') = mset (tally res) + mset (map fst as)"
proof (induction as arbitrary: res w)
  case (Cons a as)
  then obtain res1 w1 where "campaign_one n c cn plan (fst a) (snd a) res w = Some (res1, w1)"
    "campaign_loop n c cn plan as res1 w1 = Some (res', w')"
    by (auto split: option.splits)
  from campaign_one_tally [OF this(1)] Cons.IH [OF this(2)] show ?case by simp
qed simp


section \<open>Moved tenants are where the plan wants them\<close>

definition placed :: "string \<Rightarrow> string \<Rightarrow> (string \<Rightarrow> TenantRoute option) \<Rightarrow> bool" where
  "placed t cell m \<longleftrightarrow> (\<exists>r. m t = Some r \<and> AdmitsNew (rState r) \<and> ActiveCell r = cell)"

definition movable :: "string \<Rightarrow> (string \<Rightarrow> TenantRoute option) \<Rightarrow> bool" where
  "movable t m \<longleftrightarrow> t \<noteq> [] \<and> (\<forall>r. m t = Some r \<longrightarrow> AdmitsNew (rState r) \<and> epoch_room r)"

context move_env
begin

lemma do_Assign:
  assumes "snap m k w" "m t = None" "t \<noteq> []"
  shows "outc T (\<lambda>_ _. True) (\<lambda>_ w'. placed t cell (view w')) (Assign (Suc n) c t cell opr w)"
  unfolding Assign.simps
proof (rule out_get [OF assms(1)], goal_cases)
  case (1 w1)
  have cas: "spec_cas zero_route (assign_route t cell opr) m = (None, m(t \<mapsto> assign_route t cell opr))"
    using assms(2,3) by (simp add: spec_cas_def assign_route_def IsZero_def zero_route_def)
  have "outc T (\<lambda>_ _. True) (\<lambda>_ w'. placed t cell (view w'))
     (case mc_CompareAndSet c zero_route (assign_route t cell opr) w2 of (None, w2) \<Rightarrow> ret () w2
      | (Some e, w2) \<Rightarrow> if errors_is e ErrCASConflict then Assign n c t cell opr w2 else fail e w2)"
    if "snap m k w2" for w2
    by (rule out_cas [OF that]) (use cas in \<open>auto simp: placed_def assign_route_def snap_def\<close>)
  moreover have "outc T (\<lambda>_ _. True) (same m k) (run_opt (mc_fencer c) (\<lambda>f w. check_err g (fo_SetOwner f t cell 1 w)) w1)" for g
    by (rule outc_weaken [OF out_own [OF 1(1), where T = T]]) auto
  ultimately show ?case by (simp del: Assign.simps) (rule outc_bind)
qed (use assms(2) in simp)

lemma do_launch:
  assumes "keyed (view w)" "movable t (view w)" "cur = view w t"
    and "campaign_launch (Suc n) c plan t tg cur res w = Some (res', w')"
  shows "moved t (view w) w' \<and> (Moved res' = Moved res \<or> Moved res' = Moved res @ [t] \<and> placed t tg (view w'))"
proof -
  have mv: "moved t (view w) w" using assms(1) by (simp add: moved_def moves_refl)
  let ?m = "case cur of Some r \<Rightarrow> Move (Suc n) c \<lparr>plTenantID = t, FromCell = ActiveCell r, ToCell = tg,
      Operator = cpOperator plan, CohortID = [], Force = cpForce plan\<rparr> w
    | None \<Rightarrow> Assign (Suc n) c t tg (cpOperator plan) w"
  have 1: "outc True (mvd t (view w)) (mvd t (view w)) ?m"
    by (cases cur) (auto intro!: moved_Assign [OF mv] moved_Move [OF mv] simp del: Assign.simps)
  have 2: "outc True (\<lambda>_ _. True) (\<lambda>_ w'. placed t tg (view w')) ?m"
  proof (cases cur)
    case None
    with assms(2,3) do_Assign [OF snap_here, of w t True tg] show ?thesis by (simp add: movable_def del: Assign.simps)
  next
    case (Some r)
    with assms have r: "view w t = Some r" "rTenantID r = t" "t \<noteq> []" "AdmitsNew (rState r)" "epoch_room r"
      by (auto simp: movable_def keyed_def)
    let ?p = "\<lparr>plTenantID = t, FromCell = ActiveCell r, ToCell = tg, Operator = cpOperator plan, CohortID = [],
      Force = cpForce plan\<rparr>"
    have "outc True (\<lambda>e w'. move_failed ?p r (view w) e (view w')) (\<lambda>_ w'. move_done ?p r (view w) (view w'))
        (Move (Suc n) c ?p w)"
      by (rule do_Move [OF snap_here]) (use r in auto)
    then have "outc True (\<lambda>_ _. True) (\<lambda>_ w'. placed t tg (view w')) (Move (Suc n) c ?p w)"
      by (rule outc_weaken) (use r in \<open>auto simp: move_done_def placed_def rested_def rest_on_def split: if_splits\<close>)
    with Some show ?thesis by simp
  qed
  from outc_conj [OF 1 2] assms(4) show ?thesis
    unfolding campaign_launch_def by (cases ?m rule: res_cases)
      (auto simp: campaign_tally_def add_moved_def add_skipped_def add_failed_def split: if_splits)
qed


lemma budget_frame:
  "snap m k w \<Longrightarrow> campaign_budget c plan t h w = (b, w') \<Longrightarrow> snap m k w'"
  by (auto simp: campaign_budget_def intro: snap_frames split: option.splits if_splits)

lemma do_try:
  assumes "keyed (view w)" "movable t (view w)" "cur = view w t"
    and "campaign_try (Suc n) c cn plan t tg cur res w = Some (res', w')"
  shows "moved t (view w) w' \<and> (Moved res' = Moved res \<or> Moved res' = Moved res @ [t] \<and> placed t tg (view w'))"
proof -
  obtain b w1 where b: "campaign_budget c plan t (cur \<noteq> None) w = (b, w1)"
    by (cases "campaign_budget c plan t (cur \<noteq> None) w")
  with budget_frame [OF snap_here b] have v1: "view w1 = view w" by (simp add: snap_def)
  have mv: "moved t (view w) w2" if "view w2 = view w" for w2
    using assms(1) that by (simp add: moved_def moves_refl)
  show ?thesis
  proof (cases "cn w \<or> \<not> b")
    case True
    with assms(4) b mv v1 show ?thesis by (auto simp: campaign_try_def add_skipped_def split: if_splits)
  next
    case False
    with assms(4) b have "campaign_launch (Suc n) c plan t tg cur res w1 = Some (res', w')"
      by (simp add: campaign_try_def)
    with do_launch [of w1 t cur n plan tg res res' w'] assms(1-3) v1 show ?thesis by simp
  qed
qed

lemma do_campaign_one:
  assumes "keyed (view w)" "movable t (view w)" "campaign_one (Suc n) c cn plan t tg res w = Some (res', w')"
  shows "moved t (view w) w' \<and> (Moved res' = Moved res \<or> Moved res' = Moved res @ [t] \<and> placed t tg (view w'))"
proof -
  obtain g w1 where g: "mc_Get c t w = (g, w1)" by (cases "mc_Get c t w")
  with get_law [OF g] have v1: "view w1 = view w"
    and gv: "g = (case view w t of None \<Rightarrow> Inl ErrNoRoute | Some r \<Rightarrow> Inr r)" by (auto simp: frame_def)
  have k1: "keyed (view w1)" "movable t (view w1)" using assms(1,2) v1 by simp_all
  have tried: ?thesis if "campaign_try (Suc n) c cn plan t tg (view w t) res w1 = Some (res', w')"
    using do_try [OF k1 _ that] v1 by simp
  show ?thesis
  proof (cases "view w t")
    case None
    with gv g assms(3) have "campaign_try (Suc n) c cn plan t tg (view w t) res w1 = Some (res', w')"
      by (simp add: campaign_one_def)
    then show ?thesis by (rule tried)
  next
    case (Some r)
    with gv g assms(3) have run: "(if AdmitsNew (rState r) \<and> ActiveCell r = tg
        then Some (add_skipped t skipAlreadyPlaced res, w1)
        else campaign_try (Suc n) c cn plan t tg (view w t) res w1) = Some (res', w')"
      by (simp add: campaign_one_def cong: if_cong split del: if_split)
    show ?thesis
    proof (cases "AdmitsNew (rState r) \<and> ActiveCell r = tg")
      case True
      with run assms(1) v1 show ?thesis by (auto simp: moved_def moves_refl add_skipped_def)
    next
      case False
      from run [unfolded if_not_P [OF False]] show ?thesis by (rule tried)
    qed
  qed
qed

lemma do_campaign:
  assumes "keyed (view w)" "\<forall>a\<in>set as. movable (fst a) (view w)" "distinct (map fst as)"
    and "campaign_loop (Suc n) c cn plan as res w = Some (res', w')"
    and "set (Moved res) \<inter> fst ` set as = {}"
  shows "(\<forall>a\<in>set as. fst a \<in> set (Moved res') \<longrightarrow> placed (fst a) (snd a) (view w'))
    \<and> (\<forall>s. s \<notin> fst ` set as \<longrightarrow> view w' s = view w s) \<and> set (Moved res') \<subseteq> set (Moved res) \<union> fst ` set as"
  using assms
proof (induction as arbitrary: res w)
  case (Cons a as)
  obtain t tg where a: "a = (t, tg)" by (cases a)
  obtain res1 w1 where one: "campaign_one (Suc n) c cn plan (fst a) (snd a) res w = Some (res1, w1)"
    and loop: "campaign_loop (Suc n) c cn plan as res1 w1 = Some (res', w')"
    using Cons.prems(4) by (auto split: option.splits)
  from do_campaign_one [OF Cons.prems(1) _ one] Cons.prems(2) a
  have m1: "moves t (view w) (view w1)"
    and mr: "Moved res1 = Moved res \<or> Moved res1 = Moved res @ [t] \<and> placed t tg (view w1)"
    by (auto simp: moved_def)
  have k1: "keyed (view w1)" and oth: "\<And>s. s \<noteq> t \<Longrightarrow> view w1 s = view w s" using m1 by (auto simp: moves_def)
  have nt: "t \<notin> fst ` set as" using Cons.prems(3) a by simp
  have mv1: "\<forall>b\<in>set as. movable (fst b) (view w1)"
  proof
    fix b assume b: "b \<in> set as"
    with nt have "fst b \<noteq> t" by force
    with Cons.prems(2) b oth show "movable (fst b) (view w1)" by (simp add: movable_def)
  qed
  have "set (Moved res1) \<subseteq> insert t (set (Moved res))" "set (Moved res) \<inter> fst ` set as = {}"
    using mr Cons.prems(5) by auto
  then have "set (Moved res1) \<inter> fst ` set as = {}" using nt by blast
  note IH = Cons.IH [OF k1 mv1 _ loop this]
  have IH: "(\<forall>b\<in>set as. fst b \<in> set (Moved res') \<longrightarrow> placed (fst b) (snd b) (view w'))"
    "\<forall>s. s \<notin> fst ` set as \<longrightarrow> view w' s = view w1 s" "set (Moved res') \<subseteq> set (Moved res1) \<union> fst ` set as"
    using IH Cons.prems(3) by auto
  have "t \<in> set (Moved res') \<Longrightarrow> placed t tg (view w')"
    using IH(2,3) nt mr Cons.prems(5) a by (auto simp: placed_def)
  with IH mr oth a nt show ?case by auto
qed auto

end

section \<open>Properties\<close>

text \<open>a campaign does what it reports. Over distinct tenants that have no route or rest with room for two epochs,
  when \<open>Run\<close> has returned, each tenant of the plan is reported exactly once as moved, skipped or failed, every
  tenant reported as moved rests on its target cell, and no tenant outside the plan has changed; \<open>Run\<close>
  reports no error exactly when nothing failed.\<close>

theorem campaign_report:
  assumes "keyed (world_view w)" "distinct (map fst (Assignments plan))"
    and "\<forall>a\<in>set (Assignments plan). movable (fst a) (world_view w)"
    and "Campaign_Run (Suc n) (NewMoveController opts) cn plan w = Some ((res, good), w')"
  shows "mset (tally res) = mset (map fst (Assignments plan)) \<and> good = (Failed res = [])
    \<and> (\<forall>a\<in>set (Assignments plan). fst a \<in> set (Moved res) \<longrightarrow> placed (fst a) (snd a) (world_view w'))
    \<and> (\<forall>s. s \<notin> fst ` set (Assignments plan) \<longrightarrow> world_view w' s = world_view w s)"
proof -
  let ?as = "sort_key fst (Assignments plan)"
  from assms(4) obtain res0 where run: "campaign_loop (Suc n) (NewMoveController opts) cn plan ?as empty_result w = Some (res0, w')"
    and res: "res = res0\<lparr>Moved := sort (Moved res0)\<rparr>" "good = (Failed res0 = [])"
    by (auto simp: Campaign_Run_def split: option.splits)
  have d: "distinct (map fst ?as)"
    using assms(2) by (metis distinct_map distinct_sort set_sort mset_map mset_eq_imp_distinct_iff mset_sort)
  from campaign_loop_tally [OF run] have "mset (tally res0) = mset (map fst (Assignments plan))"
    by (simp add: tally_def empty_result_def)
  moreover have "mset (tally res) = mset (tally res0)" using res by (simp add: tally_def)
  ultimately show ?thesis
    using mem_env.do_campaign [OF assms(1) _ d run] assms(3) res by (auto simp: empty_result_def)
qed

definition sample_campaign :: CampaignPlan where
  "sample_campaign = \<lparr>Assignments = [(''u'', ''a''), (''t'', ''b'')], cpOperator = ''op'', cpForce = False\<rparr>"

lemma sample_campaign_run: "\<exists>res good w'. Campaign_Run (Suc 1) (NewMoveController sample_opts) (\<lambda>_. False) sample_campaign
    sample_world = Some ((res, good), w') \<and> Moved res = [''t'', ''u'']"
proof -
  have "case Campaign_Run (Suc 1) (NewMoveController sample_opts) (\<lambda>_. False) sample_campaign sample_world of
     Some ((res, good), w') \<Rightarrow> Moved res = [''t'', ''u''] | _ \<Rightarrow> False"
    by code_simp
  then show ?thesis by (auto split: option.splits prod.splits)
qed

theorem campaign_report_witness:
  "\<exists>res good w'. Campaign_Run (Suc 1) (NewMoveController sample_opts) (\<lambda>_. False) sample_campaign
    sample_world = Some ((res, good), w') \<and> Moved res = [''t'', ''u'']
    \<and> placed ''t'' ''b'' (world_view w') \<and> placed ''u'' ''a'' (world_view w')"
proof -
  obtain res good w' where run: "Campaign_Run (Suc 1) (NewMoveController sample_opts) (\<lambda>_. False) sample_campaign
    sample_world = Some ((res, good), w')" "Moved res = [''t'', ''u'']"
    using sample_campaign_run by blast
  have "\<forall>a\<in>set (Assignments sample_campaign). movable (fst a) (world_view sample_world)"
    using sample_keyed(2) by (simp add: sample_campaign_def movable_def)
  moreover have "distinct (map fst (Assignments sample_campaign))" by (simp add: sample_campaign_def)
  ultimately have "\<forall>a\<in>set (Assignments sample_campaign). fst a \<in> set (Moved res) \<longrightarrow> placed (fst a) (snd a) (world_view w')"
    using campaign_report [OF sample_keyed(1) _ _ run(1)] by blast
  with run show ?thesis by (simp add: sample_campaign_def)
qed

end
