(* ===== verification/Cells_Router.thy ===== *)
theory Cells_Router
  imports Cells_Plane
begin

text \<open>
  L1 routing: the watch-fed cache that resolves a tenant to a cell (\<^verbatim>\<open>src/cells/router.go\<close>) and the
  interceptors that route, reject and admit (\<^verbatim>\<open>src/cells/middleware.go\<close>). The wall clock is an argument
  of the operations that read it, the counters of rejections are not modelled.
\<close>

section \<open>The router\<close>

record Decision =
  dTenantID :: string
  dCell :: string
  dRouteEpoch :: u64
  dState :: State
  AdmitNew :: bool
  IsDefault :: bool
  Known :: bool
  Stale :: bool

record cacheEntry =
  ceRoute :: TenantRoute
  ceAt :: go_time
  present :: bool

record Router =
  defaultCell :: string
  freshness :: duration
  cache :: "string \<Rightarrow> cacheEntry option"
  synced :: bool

definition NewRouter :: "string option \<Rightarrow> duration option \<Rightarrow> Router" where
  "NewRouter withDefaultCell withFreshness =
     \<lparr>defaultCell = (case withDefaultCell of Some cell \<Rightarrow> if cell \<noteq> [] then cell else DefaultCellID
        | None \<Rightarrow> DefaultCellID),
      freshness = (case withFreshness of Some d \<Rightarrow> d | None \<Rightarrow> 0), cache = Map.empty, synced = False\<rparr>"

definition router_apply :: "go_time \<Rightarrow> RouteEvent \<Rightarrow> Router \<Rightarrow> Router" where
  "router_apply now ev r =
     (if evDeleted ev
      then r\<lparr>cache := (cache r)(evTenantID ev \<mapsto> \<lparr>ceRoute = zero_route, ceAt = now, present = False\<rparr>)\<rparr>
      else r\<lparr>cache := (cache r)(rTenantID (evRoute ev) \<mapsto> \<lparr>ceRoute = evRoute ev, ceAt = now, present = True\<rparr>)\<rparr>)"

text \<open>
  \<^verbatim>\<open>Start\<close> and \<^verbatim>\<open>loop\<close>: one turn of the loop sees the context done, the channel closed, or an event.
\<close>

datatype loop_input = CtxDone | ChanClosed | GotEvent go_time RouteEvent

definition router_Start :: "cerr option \<Rightarrow> Router \<Rightarrow> cerr option \<times> Router" where
  "router_Start watchErr r = (case watchErr of Some e \<Rightarrow> (Some e, r) | None \<Rightarrow> (None, r\<lparr>synced := True\<rparr>))"

fun router_loop :: "loop_input list \<Rightarrow> Router \<Rightarrow> Router" where
  "router_loop [] r = r"
| "router_loop (CtxDone # is) r = r\<lparr>synced := False\<rparr>"
| "router_loop (ChanClosed # is) r = r\<lparr>synced := False\<rparr>"
| "router_loop (GotEvent now ev # is) r = router_loop is (router_apply now ev r)"

definition router_Check :: "Router \<Rightarrow> bool" where
  "router_Check r = synced r"

definition aged :: "go_time \<Rightarrow> go_time \<Rightarrow> Router \<Rightarrow> bool" where
  "aged now at r \<longleftrightarrow> freshness r > 0 \<and> now - at > freshness r"

definition cachePositive :: "go_time \<Rightarrow> TenantRoute \<Rightarrow> Router \<Rightarrow> Router" where
  "cachePositive now route r =
     r\<lparr>cache := (cache r)(rTenantID route \<mapsto> \<lparr>ceRoute = route, ceAt = now, present = True\<rparr>)\<rparr>"

definition cacheNegative :: "go_time \<Rightarrow> string \<Rightarrow> Router \<Rightarrow> Router" where
  "cacheNegative now tenantID r =
     r\<lparr>cache := (cache r)(tenantID \<mapsto> \<lparr>ceRoute = zero_route, ceAt = now, present = False\<rparr>)\<rparr>"

definition decisionFromRoute :: "TenantRoute \<Rightarrow> bool \<Rightarrow> Router \<Rightarrow> Decision" where
  "decisionFromRoute route stale r =
     \<lparr>dTenantID = rTenantID route, dCell = (if ActiveCell route = [] then defaultCell r else ActiveCell route),
      dRouteEpoch = RouteEpoch route, dState = rState route, AdmitNew = AdmitsNew (rState route),
      IsDefault = False, Known = True, Stale = stale\<rparr>"

definition defaultDecision :: "string \<Rightarrow> bool \<Rightarrow> Router \<Rightarrow> Decision" where
  "defaultDecision tenantID stale r =
     \<lparr>dTenantID = tenantID, dCell = defaultCell r, dRouteEpoch = 0, dState = StateActive, AdmitNew = True,
      IsDefault = True, Known = False, Stale = stale\<rparr>"

text \<open>
  \<^verbatim>\<open>Resolve\<close> drops the lock between its steps: the lookup in the cache, the read of the table on a miss,
  and the store of what was read. \<open>resolve_store\<close> is the last step, given what the read returned.
\<close>

definition resolve_hit :: "go_time \<Rightarrow> string \<Rightarrow> Router \<Rightarrow> Decision option" where
  "resolve_hit now tenantID r =
     (if tenantID = [] then Some (defaultDecision [] False r)
      else case cache r tenantID of
        None \<Rightarrow> None
      | Some e \<Rightarrow> Some (if \<not> present e then defaultDecision tenantID False r
                        else decisionFromRoute (ceRoute e) (aged now (ceAt e) r) r))"

definition resolve_store :: "go_time \<Rightarrow> string \<Rightarrow> cerr + TenantRoute \<Rightarrow> Router \<Rightarrow> Decision \<times> Router" where
  "resolve_store now tenantID got r =
     (case got of
        Inl err \<Rightarrow> if errors_is err ErrNoRoute
                   then (defaultDecision tenantID False r, cacheNegative now tenantID r)
                   else (defaultDecision tenantID True r, r)
      | Inr route \<Rightarrow> (decisionFromRoute route False r, cachePositive now route r))"

definition Resolve :: "go_time \<Rightarrow> (string \<Rightarrow> cerr + TenantRoute) \<Rightarrow> string \<Rightarrow> Router \<Rightarrow> Decision \<times> Router" where
  "Resolve now get tenantID r =
     (case resolve_hit now tenantID r of
        Some d \<Rightarrow> (d, r)
      | None \<Rightarrow> resolve_store now tenantID (get tenantID) r)"

section \<open>The middleware\<close>

datatype grpc_code = OK | Unavailable | Aborted

record grpc_status =
  stCode :: grpc_code
  stMsg :: string
  stRetry :: "duration option"

datatype reason = Moving | WrongCell | UncertainWrite | StaleEpoch | Draining | GateDenied

definition readPrefixes :: "string list" where
  "readPrefixes = [''Get'', ''BatchGet'', ''List'', ''Search'', ''Lookup'', ''Watch'', ''Read'', ''Export'',
     ''Query'', ''Check'', ''Stream'']"

definition DefaultIsMutating :: "string \<Rightarrow> bool" where
  "DefaultIsMutating fullMethod = (\<not> list_ex (has_prefix (after_last (CHR ''/'') fullMethod)) readPrefixes)"

definition httpIsMutating :: "string \<Rightarrow> bool" where
  "httpIsMutating m = (m \<notin> {''GET'', ''HEAD'', ''OPTIONS''})"

text \<open>\<^verbatim>\<open>int(d.Seconds())\<close> truncates toward zero; the result is raised to 1.\<close>

definition retryAfterSeconds :: "duration \<Rightarrow> int" where
  "retryAfterSeconds d =
     (let s = (if d < 0 then - ((- d) div 1000000000) else d div 1000000000) in if s < 1 then 1 else s)"

definition withRetryInfo :: "grpc_code \<Rightarrow> string \<Rightarrow> duration \<Rightarrow> grpc_status" where
  "withRetryInfo code msg retryAfter = \<lparr>stCode = code, stMsg = msg, stRetry = Some retryAfter\<rparr>"

definition plain_status :: "grpc_code \<Rightarrow> string \<Rightarrow> grpc_status" where
  "plain_status code msg = \<lparr>stCode = code, stMsg = msg, stRetry = None\<rparr>"

definition movingErr :: "State \<Rightarrow> duration \<Rightarrow> grpc_status" where
  "movingErr st retryAfter = withRetryInfo Unavailable ''tenant is migrating; retry later'' retryAfter"

definition gateReason :: "cerr \<Rightarrow> reason" where
  "gateReason err = (if errors_is err ErrStaleRouteEpoch then StaleEpoch
     else if errors_is err ErrTenantDraining then Draining else GateDenied)"

definition gateErr :: "cerr \<Rightarrow> duration \<Rightarrow> grpc_status" where
  "gateErr err retryAfter =
     (if errors_is err ErrStaleRouteEpoch
      then plain_status Aborted ''stale route epoch; retry against current route''
      else withRetryInfo Unavailable ''tenant is draining; retry later'' retryAfter)"

record options =
  isMutating :: "string \<Rightarrow> bool"
  retryAfter :: duration

text \<open>
  The checks before admission, shared by the unary and the stream interceptor: \<open>cell\<close> is the cell of
  the gates, if there are any.
\<close>

definition route_reject :: "options \<Rightarrow> string option \<Rightarrow> string \<Rightarrow> Decision \<Rightarrow> (reason \<times> grpc_status) option" where
  "route_reject opts cell fullMethod dec =
     (if \<not> AdmitNew dec then Some (Moving, movingErr (dState dec) (retryAfter opts))
      else if (case cell of None \<Rightarrow> False | Some c \<Rightarrow> dCell dec \<noteq> c)
      then Some (WrongCell, plain_status Unavailable ''tenant not served by this cell'')
      else if Stale dec \<and> isMutating opts fullMethod
      then Some (UncertainWrite, plain_status Unavailable ''tenant route uncertain; write rejected'')
      else None)"

text \<open>
  A handler runs with the admission token its context carries and returns its response and the registry
  as it is then: other requests enter and leave meanwhile. \<open>Served\<close> also says which headers were set.
\<close>

datatype 'a served = Rejected reason grpc_status | Served "(string \<times> string) list" 'a

type_synonym 'a handler = "AdmissionToken option \<Rightarrow> GateRegistry option \<Rightarrow> 'a \<times> GateRegistry option"

definition cell_headers :: "Decision \<Rightarrow> (string \<times> string) list" where
  "cell_headers dec = [(''cell-id'', dCell dec), (''x-route-epoch'', dec_string (unat (dRouteEpoch dec)))]"

definition admit_and_run :: "options \<Rightarrow> (string \<times> string) list \<Rightarrow> (AdmissionToken \<Rightarrow> AdmissionToken option) \<Rightarrow> string
    \<Rightarrow> Decision \<Rightarrow> 'a handler \<Rightarrow> GateRegistry option \<Rightarrow> 'a served \<times> GateRegistry option" where
  "admit_and_run opts headers ctxTok tenant dec h reg =
     (case reg of
        None \<Rightarrow> (case h None None of (x, g) \<Rightarrow> (Served headers x, g))
      | Some gr \<Rightarrow>
          (case TryEnter tenant (dRouteEpoch dec) gr of
             (Inl err, gr1) \<Rightarrow> (Rejected (gateReason err) (gateErr err (retryAfter opts)), Some gr1)
           | (Inr tok, gr1) \<Rightarrow>
               (case h (ctxTok tok) (Some gr1) of (x, g) \<Rightarrow> (Served headers x, map_option (Leave tok) g))))"

definition UnaryServerInterceptor :: "options \<Rightarrow> string \<Rightarrow> string \<Rightarrow> Decision \<Rightarrow> 'a handler \<Rightarrow> GateRegistry option
    \<Rightarrow> 'a served \<times> GateRegistry option" where
  "UnaryServerInterceptor opts tenant fullMethod dec h reg =
     (if tenant = [] then (case h None reg of (x, g) \<Rightarrow> (Served [] x, g))
      else case route_reject opts (map_option cellID reg) fullMethod dec of
        Some (why, st) \<Rightarrow> (Rejected why st, reg)
      | None \<Rightarrow> admit_and_run opts (cell_headers dec) Some tenant dec h reg)"

text \<open>The stream handler gets the stream unchanged: its context carries no token.\<close>

definition StreamServerInterceptor :: "options \<Rightarrow> string \<Rightarrow> string \<Rightarrow> Decision \<Rightarrow> 'a handler \<Rightarrow> GateRegistry option
    \<Rightarrow> 'a served \<times> GateRegistry option" where
  "StreamServerInterceptor opts tenant fullMethod dec h reg =
     (if tenant = [] then (case h None reg of (x, g) \<Rightarrow> (Served [] x, g))
      else case route_reject opts (map_option cellID reg) fullMethod dec of
        Some (why, st) \<Rightarrow> (Rejected why st, reg)
      | None \<Rightarrow> admit_and_run opts [] (\<lambda>_. None) tenant dec h reg)"

datatype http_result = HttpReject reason int string | HttpNext "(string \<times> string) list"

definition HTTPMiddleware :: "options \<Rightarrow> string \<Rightarrow> string \<Rightarrow> Decision \<Rightarrow> http_result" where
  "HTTPMiddleware opts tenant meth dec =
     (if tenant = [] then HttpNext []
      else if \<not> AdmitNew dec
      then HttpReject Moving (retryAfterSeconds (retryAfter opts)) ''tenant is migrating; retry later''
      else if Stale dec \<and> httpIsMutating meth
      then HttpReject UncertainWrite (retryAfterSeconds (retryAfter opts)) ''tenant route uncertain; write rejected''
      else HttpNext [(''cell-id'', dCell dec)])"


section \<open>Convergence of the cache\<close>

text \<open>
  A router and the in-memory table it watches, through the channel \<open>i\<close>. The steps are the writers of the
  table, the receipt of an event, and a resolution whose read and store happen without an event of
  the tenant in between.
\<close>

record routing =
  rtTable :: MemTable
  rtRouter :: Router

datatype routing_op = RCas TenantRoute TenantRoute | RDelete string | RRecv go_time | RResolve go_time string

definition routing_step :: "nat \<Rightarrow> routing_op \<Rightarrow> routing \<Rightarrow> routing" where
  "routing_step i x s = (case x of
      RCas e n \<Rightarrow> s\<lparr>rtTable := snd (mem_CompareAndSet e n (rtTable s))\<rparr>
    | RDelete t \<Rightarrow> s\<lparr>rtTable := mem_Delete t (rtTable s)\<rparr>
    | RRecv now \<Rightarrow> (case mem_recv i (rtTable s) of None \<Rightarrow> s
        | Some (ev, tb) \<Rightarrow> s\<lparr>rtTable := tb, rtRouter := router_apply now ev (rtRouter s)\<rparr>)
    | RResolve now t \<Rightarrow> s\<lparr>rtRouter := snd (Resolve now (\<lambda>t. mem_Get t (rtTable s)) t (rtRouter s))\<rparr>)"

text \<open>What the cache says of a tenant, as an event stream leaves it.\<close>

definition cached :: "Router \<Rightarrow> string \<Rightarrow> TenantRoute option option" where
  "cached r t = map_option (\<lambda>e. if present e then Some (ceRoute e) else None) (cache r t)"

fun saw :: "RouteEvent list \<Rightarrow> (string \<Rightarrow> TenantRoute option option) \<Rightarrow> string \<Rightarrow> TenantRoute option option" where
  "saw [] m = m"
| "saw (ev # evs) m = saw evs
     (if evDeleted ev then m(evTenantID ev \<mapsto> None) else m(rTenantID (evRoute ev) \<mapsto> Some (evRoute ev)))"

lemma saw_append: "saw (xs @ ys) m = saw ys (saw xs m)"
  by (induction xs arbitrary: m) simp_all

lemma cached_apply: "cached (router_apply now ev r) = saw [ev] (cached r)"
  by (auto simp: cached_def router_apply_def fun_eq_iff)

text \<open>Once the events on the way have arrived, every cached tenant agrees with the table.\<close>

definition agrees :: "(string \<Rightarrow> TenantRoute option option) \<Rightarrow> (string \<Rightarrow> TenantRoute option) \<Rightarrow> bool" where
  "agrees c m \<longleftrightarrow> (\<forall>t. c t = None \<or> c t = Some (m t))"

lemma agreesD: "agrees c m \<Longrightarrow> c t \<noteq> None \<Longrightarrow> c t = Some (m t)"
  by (metis agrees_def)

definition converging :: "nat \<Rightarrow> routing \<Rightarrow> bool" where
  "converging i s \<longleftrightarrow> keyed (routes (rtTable s)) \<and> (\<exists>buf. watchers (rtTable s) i = Some buf \<and>
     agrees (saw buf (cached (rtRouter s))) (routes (rtTable s)))"

lemma converging_iff: "watchers (rtTable s) i = Some buf \<Longrightarrow> converging i s \<longleftrightarrow>
    keyed (routes (rtTable s)) \<and> agrees (saw buf (cached (rtRouter s))) (routes (rtTable s))"
  by (simp add: converging_def)

definition has_room :: "nat \<Rightarrow> routing \<Rightarrow> bool" where
  "has_room i s \<longleftrightarrow> (\<exists>buf. watchers (rtTable s) i = Some buf \<and> length buf < memWatchBuffer)"

lemma saw_last: "saw evs m t = (case saw evs Map.empty t of None \<Rightarrow> m t | Some x \<Rightarrow> Some x)"
proof (induction evs arbitrary: m)
  case (Cons ev evs)
  let ?up = "\<lambda>m. if evDeleted ev then m(evTenantID ev \<mapsto> None) else m(rTenantID (evRoute ev) \<mapsto> Some (evRoute ev))"
  show ?case
    using Cons [of "?up m"] Cons [of "?up Map.empty"] by (auto split: option.splits if_splits)
qed simp

text \<open>A write that reaches a watcher with room appends one event to its buffer.\<close>

lemma mem_cas_event:
  assumes "watchers tb i = Some buf" "length buf < memWatchBuffer"
  shows "snd (mem_CompareAndSet e n tb) = tb
    \<or> (\<exists>ev. \<not> evDeleted ev \<and> evRoute ev = n \<and> rTenantID n \<noteq> []
        \<and> routes (snd (mem_CompareAndSet e n tb)) = (routes tb)(rTenantID n \<mapsto> n)
        \<and> watchers (snd (mem_CompareAndSet e n tb)) i = Some (buf @ [ev]))"
  using assms
  by (auto simp: mem_CompareAndSet_def mem_broadcast_def chan_send_def Let_def split: option.splits)

lemma mem_delete_event:
  assumes "watchers tb i = Some buf" "length buf < memWatchBuffer"
  shows "mem_Delete t tb = tb
    \<or> (\<exists>ev. evDeleted ev \<and> evTenantID ev = t \<and> routes (mem_Delete t tb) = (routes tb)(t := None)
        \<and> watchers (mem_Delete t tb) i = Some (buf @ [ev]))"
proof (cases "routes tb t")
  case (Some r)
  with assms show ?thesis
    by (auto simp: mem_Delete_def mem_broadcast_def chan_send_def Let_def)
qed (simp add: mem_Delete_def)

lemma converging_write:
  assumes "converging i s" "watchers (rtTable s) i = Some buf" "watchers tb i = Some (buf @ [ev])"
    and "keyed (routes tb)"
    and "\<And>t. t \<noteq> k \<Longrightarrow> routes tb t = routes (rtTable s) t"
    and "saw [ev] = (\<lambda>m. m(k \<mapsto> routes tb k))"
  shows "converging i (s\<lparr>rtTable := tb\<rparr>)"
proof -
  have "agrees (saw buf (cached (rtRouter s))) (routes (rtTable s))"
    using assms(1) converging_iff [OF assms(2)] by simp
  then have "agrees (saw (buf @ [ev]) (cached (rtRouter s))) (routes tb)"
    unfolding saw_append assms(6) agrees_def using assms(5) by (auto simp: fun_upd_def)
  with assms(3,4) show ?thesis by (subst converging_iff [where buf = "buf @ [ev]"]) auto
qed

lemma converging_cas:
  assumes "converging i s" "has_room i s"
  shows "converging i (s\<lparr>rtTable := snd (mem_CompareAndSet e n (rtTable s))\<rparr>)"
proof -
  obtain buf where buf: "watchers (rtTable s) i = Some buf" "length buf < memWatchBuffer"
    and kd: "keyed (routes (rtTable s))"
    using assms by (auto simp: converging_def has_room_def)
  from mem_cas_event [OF buf, of e n] show ?thesis
  proof (elim disjE exE conjE)
    fix ev
    let ?tb = "snd (mem_CompareAndSet e n (rtTable s))"
    assume ev: "\<not> evDeleted ev" "evRoute ev = n" "rTenantID n \<noteq> []"
      "routes ?tb = (routes (rtTable s))(rTenantID n \<mapsto> n)" "watchers ?tb i = Some (buf @ [ev])"
    show ?thesis
    proof (rule converging_write [OF assms(1) buf(1) ev(5), where k = "rTenantID n"])
      show "keyed (routes ?tb)" using keyed_upd [OF kd ev(3)] ev(4) by simp
      show "saw [ev] = (\<lambda>m. m(rTenantID n \<mapsto> routes ?tb (rTenantID n)))" using ev by auto
    qed (use ev in auto)
  qed (use assms(1) in simp)
qed

lemma converging_delete:
  assumes "converging i s" "has_room i s"
  shows "converging i (s\<lparr>rtTable := mem_Delete t (rtTable s)\<rparr>)"
proof -
  obtain buf where buf: "watchers (rtTable s) i = Some buf" "length buf < memWatchBuffer"
    and kd: "keyed (routes (rtTable s))"
    using assms by (auto simp: converging_def has_room_def)
  from mem_delete_event [OF buf, of t] show ?thesis
  proof (elim disjE exE conjE)
    fix ev
    let ?tb = "mem_Delete t (rtTable s)"
    assume ev: "evDeleted ev" "evTenantID ev = t" "watchers ?tb i = Some (buf @ [ev])"
    show ?thesis
    proof (rule converging_write [OF assms(1) buf(1) ev(3), where k = t])
      show "saw [ev] = (\<lambda>m. m(t \<mapsto> routes ?tb t))" using ev by auto
    qed (use keyed_del [OF kd] in auto)
  qed (use assms(1) in simp)
qed

lemma converging_recv:
  assumes "converging i s"
  shows "converging i (routing_step i (RRecv now) s)"
proof -
  obtain buf where buf: "watchers (rtTable s) i = Some buf" using assms by (auto simp: converging_def)
  show ?thesis
  proof (cases buf)
    case Nil
    with buf assms show ?thesis by (simp add: routing_step_def mem_recv_def)
  next
    case (Cons ev evs)
    let ?s = "routing_step i (RRecv now) s"
    have s: "watchers (rtTable ?s) i = Some evs" "routes (rtTable ?s) = routes (rtTable s)"
      "cached (rtRouter ?s) = saw [ev] (cached (rtRouter s))"
      using buf Cons by (simp_all add: routing_step_def mem_recv_def cached_apply)
    have "saw evs (saw [ev] m) = saw buf m" for m using Cons by simp
    with s assms converging_iff [OF buf] show ?thesis by (subst converging_iff [OF s(1)]) (simp only: s)
  qed
qed

lemma cached_Resolve:
  assumes "keyed (routes tb)"
  shows "cached (snd (Resolve now (\<lambda>t. mem_Get t tb) t r)) = cached r
    \<or> cached r t = None \<and> cached (snd (Resolve now (\<lambda>t. mem_Get t tb) t r)) = (cached r)(t \<mapsto> routes tb t)"
proof (cases "resolve_hit now t r")
  case None
  then have "cached r t = None" by (auto simp: resolve_hit_def cached_def split: if_splits option.splits)
  moreover have "cached (snd (resolve_store now t (mem_Get t tb) r)) = (cached r)(t \<mapsto> routes tb t)"
  proof (cases "routes tb t")
    case (Some route)
    with keyedD [OF assms Some] show ?thesis
      by (auto simp: resolve_store_def mem_Get_def cachePositive_def cached_def fun_eq_iff)
  qed (auto simp: resolve_store_def mem_Get_def cacheNegative_def cached_def fun_eq_iff)
  ultimately show ?thesis using None by (simp add: Resolve_def)
qed (simp add: Resolve_def)

lemma agrees_fill:
  assumes "agrees (saw buf c) m" "c t = None"
  shows "agrees (saw buf (c(t \<mapsto> m t))) m"
  unfolding agrees_def
proof
  fix u
  have "saw buf c u = None \<or> saw buf c u = Some (m u)" using assms(1) by (simp add: agrees_def)
  then show "saw buf (c(t \<mapsto> m t)) u = None \<or> saw buf (c(t \<mapsto> m t)) u = Some (m u)"
    using assms(2) saw_last [of buf c u] saw_last [of buf "c(t \<mapsto> m t)" u]
    by (cases "saw buf Map.empty u") (auto split: if_splits)
qed

lemma converging_resolve:
  assumes "converging i s"
  shows "converging i (routing_step i (RResolve now t) s)"
proof -
  obtain buf where buf: "watchers (rtTable s) i = Some buf" using assms by (auto simp: converging_def)
  let ?s = "routing_step i (RResolve now t) s"
  have s: "rtTable ?s = rtTable s" by (simp add: routing_step_def)
  have "agrees (saw buf (cached (rtRouter ?s))) (routes (rtTable s))"
    using cached_Resolve [of "rtTable s" now t "rtRouter s"] assms converging_iff [OF buf]
      agrees_fill [of buf "cached (rtRouter s)" "routes (rtTable s)" t]
    by (auto simp: routing_step_def)
  with assms buf show ?thesis using converging_iff [OF buf] converging_iff [of ?s i buf] s by simp
qed


text \<open>Runs in which every write finds room in the watch buffer.\<close>

fun routing_run :: "nat \<Rightarrow> routing_op list \<Rightarrow> routing \<Rightarrow> routing option" where
  "routing_run i [] s = Some s"
| "routing_run i (x # xs) s =
     (case x of
        RCas e n \<Rightarrow> if has_room i s then routing_run i xs (routing_step i x s) else None
      | RDelete t \<Rightarrow> if has_room i s then routing_run i xs (routing_step i x s) else None
      | _ \<Rightarrow> routing_run i xs (routing_step i x s))"

lemma converging_run: "converging i s \<Longrightarrow> routing_run i xs s = Some s' \<Longrightarrow> converging i s'"
proof (induction xs arbitrary: s)
  case (Cons x xs)
  have "converging i (routing_step i x s) \<and> routing_run i xs (routing_step i x s) = Some s'"
    using Cons.prems converging_recv [of i s] converging_resolve [of i s]
      converging_cas [of i s] converging_delete [of i s]
    by (cases x) (auto simp: routing_step_def [of i "RCas _ _"] routing_step_def [of i "RDelete _"] split: if_splits)
  then show ?case using Cons.IH by blast
qed simp

section \<open>Properties\<close>

definition routing_start :: "(string \<Rightarrow> TenantRoute option) \<Rightarrow> string option \<Rightarrow> duration option \<Rightarrow> routing" where
  "routing_start m dc fr = \<lparr>rtTable = snd (mem_Watch (NewMemTable\<lparr>routes := m\<rparr>)), rtRouter = NewRouter dc fr\<rparr>"

lemma routing_start_converging: "keyed m \<Longrightarrow> converging 0 (routing_start m dc fr)"
  by (simp add: converging_def routing_start_def mem_Watch_def NewMemTable_def NewRouter_def cached_def agrees_def)

text \<open>the router converges. Started with an empty cache on a watched table, through any sequence of writes and
  deletes that find room in the watch buffer, receipts of events and resolutions, once the buffer has
  been drained every tenant in the cache resolves to exactly the route the table holds, or to the
  default cell if it holds none.\<close>

theorem router_converges:
  assumes "keyed m" "routing_run 0 ops (routing_start m dc fr) = Some s"
    and "watchers (rtTable s) 0 = Some []" "cache (rtRouter s) t = Some e" "t \<noteq> []"
  shows "fst (Resolve now get t (rtRouter s)) =
    (case routes (rtTable s) t of
       None \<Rightarrow> defaultDecision t False (rtRouter s)
     | Some r \<Rightarrow> decisionFromRoute r (aged now (ceAt e) (rtRouter s)) (rtRouter s))"
proof -
  have "converging 0 s" using assms(1,2) routing_start_converging converging_run by blast
  then have "agrees (cached (rtRouter s)) (routes (rtTable s))" using converging_iff [OF assms(3)] by simp
  then have "cached (rtRouter s) t = Some (routes (rtTable s) t)"
    by (rule agreesD) (simp add: cached_def assms(4))
  with assms(4,5) show ?thesis
    by (auto simp: Resolve_def resolve_hit_def cached_def split: if_splits option.split dest: sym)
qed

theorem router_converges_witness:
  "\<exists>s. routing_run 0 [RResolve 1 ''t'', RCas (route_on ''t'' 1 ''a'') (route_on ''t'' 3 ''b''), RRecv 2]
        (routing_start [''t'' \<mapsto> route_on ''t'' 1 ''a''] None None) = Some s
     \<and> dCell (fst (Resolve 5 (\<lambda>_. Inl ErrNoRoute) ''t'' (rtRouter s))) = ''b''"
proof -
  let ?m = "[''t'' \<mapsto> route_on ''t'' 1 ''a'']"
  let ?ops = "[RResolve 1 ''t'', RCas (route_on ''t'' 1 ''a'') (route_on ''t'' 3 ''b''), RRecv 2]"
  note ev = routing_step_def routing_start_def mem_Watch_def NewMemTable_def NewRouter_def has_room_def
    memWatchBuffer_def Resolve_def resolve_hit_def resolve_store_def mem_Get_def cachePositive_def
    mem_CompareAndSet_def mem_broadcast_def chan_send_def mem_recv_def router_apply_def route_on_def
  obtain s where s: "routing_run 0 ?ops (routing_start ?m None None) = Some s"
    "watchers (rtTable s) 0 = Some []" "\<exists>e. cache (rtRouter s) ''t'' = Some e"
    "routes (rtTable s) ''t'' = Some (route_on ''t'' 3 ''b'')"
    by (simp add: ev Let_def)
  have "keyed ?m" by (simp add: keyed_def route_on_def)
  from router_converges [OF this s(1,2), of "''t''"] s show ?thesis
    by (auto simp: decisionFromRoute_def route_on_def)
qed

text \<open>the interceptor admits soundly and releases what it took. A unary call of a tenant is served behind a gate
  only if the route admits new work, names this cell, and is not uncertain for a write; the handler then
  runs with a token that the open gate issued at exactly the epoch of the routing decision, and when it
  is done the token is no longer in flight.\<close>

theorem unary_admission:
  assumes "UnaryServerInterceptor opts t meth dec h (Some gr) = (Served hdr x, Some gr')" "t \<noteq> []"
  shows "AdmitNew dec \<and> dCell dec = cellID gr \<and> \<not> (Stale dec \<and> isMutating opts meth)
    \<and> (\<exists>tok gr1 gr2. TryEnter t (dRouteEpoch dec) gr = (Inr tok, gr1) \<and> h (Some tok) (Some gr1) = (x, Some gr2)
         \<and> gr' = Leave tok gr2 \<and> tokRouteEpoch tok = dRouteEpoch dec \<and> tokCellID tok = cellID gr
         \<and> (\<forall>g. gates gr' t = Some g \<longrightarrow> AdmissionSeq tok \<notin> inflight g))"
proof -
  from assms have rej: "route_reject opts (Some (cellID gr)) meth dec = None"
    and run: "admit_and_run opts (cell_headers dec) Some t dec h (Some gr) = (Served hdr x, Some gr')"
    by (auto simp: UnaryServerInterceptor_def split: option.splits prod.splits)
  from run obtain tok gr1 gr2 where tok: "TryEnter t (dRouteEpoch dec) gr = (Inr tok, gr1)"
    "h (Some tok) (Some gr1) = (x, Some gr2)" "gr' = Leave tok gr2"
    by (auto simp: admit_and_run_def split: prod.splits sum.splits)
  have "tokTenantID tok = t" "tokRouteEpoch tok = dRouteEpoch dec" "tokCellID tok = cellID gr"
    using tok(1) by (auto simp: TryEnter_def split: prod.splits sum.splits)
  moreover from this tok(3) have "\<forall>g. gates gr' t = Some g \<longrightarrow> AdmissionSeq tok \<notin> inflight g"
    by (auto simp: Leave_def gate_leave_def Let_def split: option.splits)
  ultimately show ?thesis using tok rej by (auto simp: route_reject_def split: if_splits)
qed

definition sample_dec :: Decision where
  "sample_dec = decisionFromRoute (route_on ''t'' 4 ''c1'') False (NewRouter None None)"

theorem unary_admission_witness:
  "\<exists>hdr gr' tok gr1. UnaryServerInterceptor \<lparr>isMutating = DefaultIsMutating, retryAfter = 2\<rparr> ''t'' ''/S/CreateX''
      sample_dec (\<lambda>tok g. ((), g)) (Some (NewGateRegistry ''c1'' ''i'')) = (Served hdr (), Some gr')
    \<and> TryEnter ''t'' 4 (NewGateRegistry ''c1'' ''i'') = (Inr tok, gr1) \<and> gr' = Leave tok gr1"
proof -
  let ?gr = "NewGateRegistry ''c1'' ''i''"
  obtain hdr gr' where run: "UnaryServerInterceptor \<lparr>isMutating = DefaultIsMutating, retryAfter = 2\<rparr> ''t''
      ''/S/CreateX'' sample_dec (\<lambda>tok g. ((), g)) (Some ?gr) = (Served hdr (), Some gr')"
    by (simp add: UnaryServerInterceptor_def admit_and_run_def route_reject_def sample_dec_def decisionFromRoute_def
        route_on_def NewRouter_def NewGateRegistry_def TryEnter_def getOrCreate_def newGate_def gate_enter_def)
  from unary_admission [OF this] run show ?thesis
    by (auto simp: sample_dec_def decisionFromRoute_def route_on_def)
qed

text \<open>Every rejection is retryable and tells why. The unary interceptor rejects only with \<open>UNAVAILABLE\<close> or
  \<open>ABORTED\<close>; \<open>ABORTED\<close> exactly when the gate is at another epoch than the decision; a moving or draining
  tenant gets the retry hint; no in-flight work changes and the handler does not run.\<close>

theorem unary_rejection:
  assumes "UnaryServerInterceptor opts t meth dec h (Some gr) = (Rejected why st, g')"
  shows "stCode st \<in> {Unavailable, Aborted} \<and> (stCode st = Aborted \<longleftrightarrow> why = StaleEpoch)
    \<and> (why \<in> {Moving, Draining} \<longleftrightarrow> stRetry st = Some (retryAfter opts))
    \<and> (\<exists>gr1. g' = Some gr1 \<and> (\<forall>s. Inflight s gr1 = Inflight s gr))
    \<and> (\<forall>h'. UnaryServerInterceptor opts t meth dec h' (Some gr) = (Rejected why st, g'))"
proof -
  have t: "t \<noteq> []" using assms by (auto simp: UnaryServerInterceptor_def split: prod.splits)
  show ?thesis
  proof (cases "route_reject opts (Some (cellID gr)) meth dec")
    case None
    with assms t obtain err gr1 where e: "TryEnter t (dRouteEpoch dec) gr = (Inl err, gr1)" "g' = Some gr1"
      "why = gateReason err" "st = gateErr err (retryAfter opts)"
      by (auto simp: UnaryServerInterceptor_def admit_and_run_def split: prod.splits sum.splits)
    have err: "err = ErrTenantDraining \<or> err = ErrStaleRouteEpoch" and gr1: "\<forall>s. Inflight s gr1 = Inflight s gr"
      using e(1) by (auto simp: TryEnter_def gate_enter_def Inflight_def getOrCreate_def newGate_def Let_def
          split: prod.splits sum.splits if_splits option.splits)
    have "\<forall>h'. UnaryServerInterceptor opts t meth dec h' (Some gr) = (Rejected why st, g')"
      using None t e by (simp add: UnaryServerInterceptor_def admit_and_run_def)
    moreover have "stCode st \<in> {Unavailable, Aborted} \<and> (stCode st = Aborted \<longleftrightarrow> why = StaleEpoch)
      \<and> (why \<in> {Moving, Draining} \<longleftrightarrow> stRetry st = Some (retryAfter opts))"
      using err e(3,4) by (auto simp: gateReason_def gateErr_def withRetryInfo_def plain_status_def)
    ultimately show ?thesis using e gr1 by blast
  next
    case (Some a)
    then have a: "a = (why, st)" "g' = Some gr" "\<forall>h'. UnaryServerInterceptor opts t meth dec h' (Some gr) = (Rejected why st, g')"
      using assms t by (auto simp: UnaryServerInterceptor_def split: prod.splits)
    with Some show ?thesis
      by (auto simp: route_reject_def movingErr_def withRetryInfo_def plain_status_def split: if_splits)
  qed
qed

theorem unary_rejection_witness:
  "\<exists>why st g'. UnaryServerInterceptor \<lparr>isMutating = DefaultIsMutating, retryAfter = 2\<rparr> ''t'' ''/S/CreateX''
      sample_dec (\<lambda>tok g. ((), g)) (Some (Open ''t'' 5 (NewGateRegistry ''c1'' ''i''))) = (Rejected why st, g')
    \<and> stCode st = Aborted \<and> why = StaleEpoch"
proof -
  let ?gr = "Open ''t'' 5 (NewGateRegistry ''c1'' ''i'')"
  obtain st g' where run: "UnaryServerInterceptor \<lparr>isMutating = DefaultIsMutating, retryAfter = 2\<rparr> ''t''
      ''/S/CreateX'' sample_dec (\<lambda>tok g. ((), g)) (Some ?gr) = (Rejected StaleEpoch st, g')"
    by (simp add: UnaryServerInterceptor_def admit_and_run_def route_reject_def sample_dec_def decisionFromRoute_def
        route_on_def NewRouter_def NewGateRegistry_def TryEnter_def Open_def gate_open_def put_gate_def
        getOrCreate_def newGate_def gate_enter_def gateReason_def)
  from unary_rejection [OF this] run show ?thesis by blast
qed

text \<open>writes of a streaming call are not fenced. The stream interceptor takes a token but hands the handler a
  context without it, so that the storage guard lets every statement of the handler through, whatever
  the fence says.\<close>

theorem stream_writes_unfenced:
  assumes "StreamServerInterceptor opts t meth dec h (Some gr) = (Served hdr x, g')"
  shows "(\<exists>g1. fst (h None g1) = x) \<and> guard_check io (st\<lparr>stToken := None\<rparr>) db = GuardPass"
  using assms
  by (auto simp: StreamServerInterceptor_def admit_and_run_def guard_check_def
      split: if_splits option.splits prod.splits sum.splits) (metis fst_conv)+

definition sealed_db :: fence_table where
  "sealed_db = [''t'' \<mapsto> \<lparr>OwnerCell = ''c2'', rowRouteEpoch = 9, Sealed = True, rowBarrierEpoch = 9\<rparr>]"

theorem stream_writes_unfenced_witness:
  "\<exists>hdr g'. StreamServerInterceptor \<lparr>isMutating = DefaultIsMutating, retryAfter = 2\<rparr> ''t'' ''/S/ImportX''
      sample_dec (\<lambda>tok g. (tok, g)) (Some (NewGateRegistry ''c1'' ''i'')) = (Served hdr None, g')
    \<and> guard_check db_ok \<lparr>stFailed = False, stTable = ''widgets'', stHasAccountID = True, stToken = None,
        stDest = DestStruct (Some ''t'')\<rparr> sealed_db = GuardPass"
proof -
  obtain hdr g' where run: "StreamServerInterceptor \<lparr>isMutating = DefaultIsMutating, retryAfter = 2\<rparr> ''t''
      ''/S/ImportX'' sample_dec (\<lambda>tok g. (tok, g)) (Some (NewGateRegistry ''c1'' ''i'')) = (Served hdr None, g')"
    by (simp add: StreamServerInterceptor_def admit_and_run_def route_reject_def sample_dec_def decisionFromRoute_def
        route_on_def NewRouter_def NewGateRegistry_def TryEnter_def getOrCreate_def newGate_def gate_enter_def)
  from stream_writes_unfenced [OF this, of db_ok "\<lparr>stFailed = False, stTable = ''widgets'', stHasAccountID = True,
      stToken = None, stDest = DestStruct (Some ''t'')\<rparr>" sealed_db] run show ?thesis by auto
qed

text \<open>a resolution can leave a stale route behind. When the event of a newer route arrives between the read of the
  table and the store into the cache, the store overwrites it: with no event left on the way, the cache
  keeps resolving to the older route and does not mark it stale.\<close>

theorem lazy_fill_overwrites_event:
  assumes "t \<noteq> []" "rTenantID old = t" "rTenantID new = t" "evRoute ev = new" "\<not> evDeleted ev" "freshness r = 0"
  shows "fst (Resolve now get t (snd (resolve_store n2 t (Inr old) (router_apply n1 ev r))))
     = decisionFromRoute old False r"
  using assms
  by (simp add: resolve_store_def cachePositive_def router_apply_def Resolve_def resolve_hit_def
      decisionFromRoute_def aged_def)

theorem lazy_fill_overwrites_event_witness:
  "(let ev = \<lparr>evRoute = route_on ''t'' 3 ''b'', evTenantID = ''t'', evDeleted = False, evRevision = 7\<rparr>
    in fst (Resolve 9 (\<lambda>_. Inr (route_on ''t'' 3 ''b'')) ''t''
         (snd (resolve_store 2 ''t'' (Inr (route_on ''t'' 1 ''a'')) (router_apply 1 ev (NewRouter None None)))))
       = decisionFromRoute (route_on ''t'' 1 ''a'') False (NewRouter None None))"
  unfolding Let_def
  by (rule lazy_fill_overwrites_event [where new = "route_on ''t'' 3 ''b''"]) (simp_all add: route_on_def NewRouter_def)

end
