(* ===== verification/Base64.thy ===== *)
theory Base64
  imports Prelude
begin

text \<open>
  The codecs of Go's standard library that the page tokens use: \<^verbatim>\<open>base64.StdEncoding\<close>,
  \<^verbatim>\<open>strconv.Itoa\<close> and \<^verbatim>\<open>strconv.Atoi\<close>, with the round trips the pagination rests on. Strings are lists
  of bytes.
\<close>

section \<open>Base 64\<close>

definition alphabet :: string where
  "alphabet = ''ABCDEFGHIJKLMNOPQRSTUVWXYZabcdefghijklmnopqrstuvwxyz0123456789+/''"

definition sextet :: "nat \<Rightarrow> char" where
  "sextet n = alphabet ! n"

fun index_of :: "char \<Rightarrow> string \<Rightarrow> nat option" where
  "index_of c [] = None"
| "index_of c (d # ds) = (if c = d then Some 0 else map_option Suc (index_of c ds))"

definition unsextet :: "char \<Rightarrow> nat option" where
  "unsextet c = index_of c alphabet"

abbreviation byte :: "char \<Rightarrow> nat" where
  "byte c \<equiv> of_char c"

fun EncodeToString :: "string \<Rightarrow> string" where
  "EncodeToString [] = []"
| "EncodeToString [a] =
     (let n = byte a * 65536 in [sextet (n div 262144), sextet (n div 4096 mod 64), CHR ''='', CHR ''=''])"
| "EncodeToString [a, b] =
     (let n = byte a * 65536 + byte b * 256
      in [sextet (n div 262144), sextet (n div 4096 mod 64), sextet (n div 64 mod 64), CHR ''=''])"
| "EncodeToString (a # b # c # rest) =
     (let n = byte a * 65536 + byte b * 256 + byte c
      in [sextet (n div 262144), sextet (n div 4096 mod 64), sextet (n div 64 mod 64), sextet (n mod 64)]
         @ EncodeToString rest)"

text \<open>
  The decoder ignores line breaks, takes four characters at a time, accepts padding at the end only, and
  does not look at the unused bits of the last character.
\<close>

definition quad :: "nat \<Rightarrow> nat \<Rightarrow> nat \<Rightarrow> nat \<Rightarrow> nat" where
  "quad a b c d = a * 262144 + b * 4096 + c * 64 + d"

fun decode_quads :: "string \<Rightarrow> string option" where
  "decode_quads [] = Some []"
| "decode_quads (p # q # r # s # rest) =
     (case (unsextet p, unsextet q) of
        (Some a, Some b) \<Rightarrow>
          (if r = CHR ''='' then
             if s = CHR ''='' \<and> rest = [] then Some [char_of (quad a b 0 0 div 65536)] else None
           else case unsextet r of
             None \<Rightarrow> None
           | Some c \<Rightarrow>
               if s = CHR ''='' then
                 if rest = [] then Some [char_of (quad a b c 0 div 65536), char_of (quad a b c 0 div 256 mod 256)]
                 else None
               else case unsextet s of
                 None \<Rightarrow> None
               | Some d \<Rightarrow>
                   map_option (\<lambda>bs. char_of (quad a b c d div 65536) # char_of (quad a b c d div 256 mod 256)
                        # char_of (quad a b c d mod 256) # bs) (decode_quads rest))
      | _ \<Rightarrow> None)"
| "decode_quads _ = None"

definition DecodeString :: "string \<Rightarrow> string option" where
  "DecodeString s = decode_quads (filter (\<lambda>c. c \<notin> {CHR 0x0A, CHR 0x0D}) s)"

lemma alphabet_length: "length alphabet = 64"
  by (simp add: alphabet_def)

lemma distinct_alphabet: "distinct alphabet"
  by (simp add: alphabet_def)

lemma index_of_nth: "distinct xs \<Longrightarrow> n < length xs \<Longrightarrow> index_of (xs ! n) xs = Some n"
proof (induction xs arbitrary: n)
  case (Cons x xs)
  then show ?case by (cases n) (auto simp: nth_mem)
qed simp

lemma unsextet_sextet [simp]: "n < 64 \<Longrightarrow> unsextet (sextet n) = Some n"
  unfolding unsextet_def sextet_def by (rule index_of_nth) (simp_all add: distinct_alphabet alphabet_length)

lemma sextet_set: "n < 64 \<Longrightarrow> sextet n \<in> set alphabet"
  unfolding sextet_def by (rule nth_mem) (simp add: alphabet_length)

lemma sextet_clean:
  assumes "n < 64"
  shows "sextet n \<noteq> CHR ''=''" "sextet n \<noteq> CHR 0x0A" "sextet n \<noteq> CHR 0x0D"
  using sextet_set [OF assms] by (auto simp: alphabet_def)

lemma byte_less [simp]: "byte c < 256"
  by (metis of_char_of nat_of_char_less_256)

lemma quad_split: "quad (n div 262144) (n div 4096 mod 64) (n div 64 mod 64) (n mod 64) = n"
proof -
  have "n div 4096 = n div 64 div 64" "n div 262144 = n div 4096 div 64"
    by (simp_all flip: div_mult2_eq)
  then show ?thesis
    using div_mult_mod_eq [of n 64] div_mult_mod_eq [of "n div 64" 64] div_mult_mod_eq [of "n div 4096" 64]
    unfolding quad_def by linarith
qed

lemma quad_low:
  "n mod 64 = 0 \<Longrightarrow> quad (n div 262144) (n div 4096 mod 64) (n div 64 mod 64) 0 = n"
  "n mod 4096 = 0 \<Longrightarrow> quad (n div 262144) (n div 4096 mod 64) 0 0 = n"
proof -
  show "n mod 64 = 0 \<Longrightarrow> quad (n div 262144) (n div 4096 mod 64) (n div 64 mod 64) 0 = n"
    using quad_split [of n] by simp
  assume z: "n mod 4096 = 0"
  then obtain k where "n = 4096 * k" by (auto elim: dvdE simp: mod_eq_0_iff_dvd)
  then have "n mod 64 = 0" "n div 64 mod 64 = 0" by simp_all
  then show "quad (n div 262144) (n div 4096 mod 64) 0 0 = n" using quad_split [of n] by simp
qed

lemma bytes_back:
  assumes "a < 256" "b < 256" "c < (256::nat)"
  shows "(a * 65536 + b * 256 + c) div 65536 = a" "(a * 65536 + b * 256 + c) div 256 mod 256 = b"
    "(a * 65536 + b * 256 + c) mod 256 = c" "(a * 65536 + b * 256 + c) div 262144 < 64"
proof -
  have n: "a * 65536 + b * 256 + c = c + 256 * (b + 256 * a)" by simp
  show "(a * 65536 + b * 256 + c) div 256 mod 256 = b" "(a * 65536 + b * 256 + c) mod 256 = c"
    unfolding n using assms by (simp_all only: div_mult_self2 mod_mult_self2 div_less mod_less add_0 add_0_right)
qed (use assms in simp_all)

lemma decode_sextets:
  assumes "a < 64" "b < 64"
  shows "c < 64 \<Longrightarrow> d < 64 \<Longrightarrow> decode_quads (sextet a # sextet b # sextet c # sextet d # rest) =
      map_option (\<lambda>bs. char_of (quad a b c d div 65536) # char_of (quad a b c d div 256 mod 256)
        # char_of (quad a b c d mod 256) # bs) (decode_quads rest)"
    and "c < 64 \<Longrightarrow> decode_quads [sextet a, sextet b, sextet c, CHR ''=''] =
      Some [char_of (quad a b c 0 div 65536), char_of (quad a b c 0 div 256 mod 256)]"
    and "decode_quads [sextet a, sextet b, CHR ''='', CHR ''=''] = Some [char_of (quad a b 0 0 div 65536)]"
  using assms by (simp_all add: sextet_clean)

lemma decode_quads_encode: "decode_quads (EncodeToString s) = Some s"
proof (induction s rule: EncodeToString.induct)
  case (2 a)
  define n where "n = byte a * 65536"
  have "n mod 4096 = 0" "n div 65536 = byte a" "n div 262144 < 64"
    using bytes_back [of "byte a" 0 0] by (simp_all add: n_def)
  then show ?case
    unfolding EncodeToString.simps Let_def n_def [symmetric] by (simp add: decode_sextets quad_low sextet_clean)
next
  case (3 a b)
  define n where "n = byte a * 65536 + byte b * 256"
  have "n mod 64 = 0" by (simp add: n_def)
  moreover have "n div 65536 = byte a" "n div 256 mod 256 = byte b" "n div 262144 < 64"
    using bytes_back [of "byte a" "byte b" 0] by (simp_all only: n_def add_0_right byte_less zero_less_numeral)
  ultimately show ?case
    unfolding EncodeToString.simps Let_def n_def [symmetric] by (simp add: decode_sextets quad_low sextet_clean)
next
  case (4 a b c rest)
  define n where "n = byte a * 65536 + byte b * 256 + byte c"
  have "n div 65536 = byte a" "n div 256 mod 256 = byte b" "n mod 256 = byte c" "n div 262144 < 64"
    using bytes_back [of "byte a" "byte b" "byte c"] by (simp_all only: n_def byte_less)
  with 4 show ?case
    unfolding EncodeToString.simps Let_def n_def [symmetric] by (simp add: decode_sextets quad_split sextet_clean)
qed simp

lemma top_sextet: "byte a div 4 < 64" "(byte a * 65536 + byte b * 256) div 262144 < 64"
  using bytes_back(4) [of "byte a" "byte b" 0] byte_less [of a] by (simp_all add: less_mult_imp_div_less)

lemma encode_clean: "c \<in> set (EncodeToString s) \<Longrightarrow> c \<notin> {CHR 0x0A, CHR 0x0D}"
  by (induction s rule: EncodeToString.induct)
    (auto simp: Let_def sextet_clean bytes_back(4) top_sextet)

lemma DecodeString_encode [simp]: "DecodeString (EncodeToString s) = Some s"
proof -
  have "filter (\<lambda>c. c \<notin> {CHR 0x0A, CHR 0x0D}) (EncodeToString s) = EncodeToString s"
    by (rule filter_True) (blast dest: encode_clean)
  then show ?thesis by (simp add: DecodeString_def decode_quads_encode)
qed

section \<open>Decimal numbers\<close>

definition Itoa :: "int \<Rightarrow> string" where
  "Itoa n = (if n < 0 then CHR ''-'' # dec_string (nat (- n)) else dec_string (nat n))"

fun digits :: "string \<Rightarrow> nat \<Rightarrow> nat option" where
  "digits [] acc = Some acc"
| "digits (c # cs) acc =
     (if 48 \<le> byte c \<and> byte c \<le> 57 then digits cs (acc * 10 + (byte c - 48)) else None)"

definition in_int64 :: "int \<Rightarrow> bool" where
  "in_int64 n \<longleftrightarrow> - (2 ^ 63) \<le> n \<and> n < 2 ^ 63"

definition Atoi :: "string \<Rightarrow> int option" where
  "Atoi s =
     (let neg = (s \<noteq> [] \<and> hd s = CHR ''-'');
          ds = (if s \<noteq> [] \<and> (hd s = CHR ''-'' \<or> hd s = CHR ''+'') then tl s else s)
      in if ds = [] then None
         else case digits ds 0 of
           None \<Rightarrow> None
         | Some n \<Rightarrow> (let v = (if neg then - int n else int n) in if in_int64 v then Some v else None))"

lemma digits_append: "digits (s @ t) acc = (case digits s acc of None \<Rightarrow> None | Some v \<Rightarrow> digits t v)"
  by (induction s acc rule: digits.induct) auto

lemma byte_digit: "d < 10 \<Longrightarrow> byte (char_of (48 + d) :: char) = 48 + d"
  by simp

lemma digits_dec_string: "digits (dec_string n) 0 = Some n"
proof (induction n rule: dec_string.induct)
  case (1 n)
  have d: "byte (char_of (48 + n mod 10) :: char) = 48 + n mod 10" by (rule byte_digit) simp
  show ?case
  proof (cases "n < 10")
    case True
    then show ?thesis by (subst dec_string.simps) simp
  next
    case False
    with 1 d show ?thesis by (subst dec_string.simps) (simp add: digits_append del: of_char_of)
  qed
qed

lemma dec_string_hd: "dec_string n \<noteq> []" "hd (dec_string n) \<noteq> CHR ''-''" "hd (dec_string n) \<noteq> CHR ''+''"
proof -
  show ne: "dec_string n \<noteq> []" by (subst dec_string.simps) simp
  have "c \<notin> {CHR ''-'', CHR ''+''}" if "digits (c # cs) 0 = Some v" for c cs v
    using that by (auto split: if_splits)
  with digits_dec_string [of n] ne show "hd (dec_string n) \<noteq> CHR ''-''" "hd (dec_string n) \<noteq> CHR ''+''"
    by (metis insertCI list.collapse)+
qed

lemma Atoi_Itoa [simp]: "in_int64 n \<Longrightarrow> Atoi (Itoa n) = Some n"
proof (cases "n < 0")
  case True
  assume "in_int64 n"
  with True show ?thesis by (simp add: Atoi_def Itoa_def digits_dec_string dec_string_hd Let_def)
next
  case False
  assume "in_int64 n"
  with False show ?thesis by (simp add: Atoi_def Itoa_def digits_dec_string dec_string_hd Let_def)
qed

lemma Itoa_nonempty [simp]: "Itoa n \<noteq> []"
  by (simp add: Itoa_def dec_string_hd)

lemma encode_nonempty: "s \<noteq> [] \<Longrightarrow> EncodeToString s \<noteq> []"
  by (cases s rule: EncodeToString.cases) (auto simp: Let_def)

end
