(* ===== verification/Persist_Memory.thy ===== *)
theory Persist_Memory
  imports Base64 "HOL-Library.List_Lexorder" "HOL-Library.Char_ord" "HOL-Library.Product_Lexorder"
begin

text \<open>
  The in-memory repository (\<^verbatim>\<open>src/persistence/memory.go\<close>). An operation takes the ETag expectation its
  context carries and the UUIDs it draws as arguments, and returns the ETag it writes into the context.
  The repository's lock makes each operation atomic.
\<close>

section \<open>The repository\<close>

datatype perr = ErrNotFound | ErrConflict | ErrPreconditionFailed | ErrNoTransaction | ErrAlreadyApplied
  | PanicSliceBounds | PWrap string perr | POther string

fun perr_is :: "perr \<Rightarrow> perr \<Rightarrow> bool" where
  "perr_is (PWrap m e) t \<longleftrightarrow> PWrap m e = t \<or> perr_is e t"
| "perr_is e t \<longleftrightarrow> e = t"

record ('t, 'k) MemoryRepository =
  items :: "'k \<Rightarrow> 't option"
  etags :: "'k \<Rightarrow> string"
  rkeys :: "'k list"
  rdeleted :: "'k set"
  keyFn :: "'t \<Rightarrow> 'k"

record ListOptions =
  PageSize :: int
  PageToken :: string
  ShowDeleted :: bool

definition NewMemoryRepository :: "('t \<Rightarrow> 'k) \<Rightarrow> ('t, 'k) MemoryRepository" where
  "NewMemoryRepository kf = \<lparr>items = Map.empty, etags = (\<lambda>_. []), rkeys = [], rdeleted = {}, keyFn = kf\<rparr>"

text \<open>The second component of a result is the ETag set on the context, if any.\<close>

definition repo_Get :: "'k \<Rightarrow> ('t, 'k) MemoryRepository \<Rightarrow> (perr + 't) \<times> string option" where
  "repo_Get key r =
     (case items r key of
        None \<Rightarrow> (Inl ErrNotFound, None)
      | Some v \<Rightarrow>
          if key \<in> rdeleted r then (Inl ErrNotFound, None)
          else (Inr v, if etags r key \<noteq> [] then Some (etags r key) else None))"

definition visible_keys :: "bool \<Rightarrow> ('t, 'k) MemoryRepository \<Rightarrow> 'k list" where
  "visible_keys showDeleted r = filter (\<lambda>k. \<not> (k \<in> rdeleted r \<and> \<not> showDeleted)) (rkeys r)"

definition token_offset :: "string \<Rightarrow> int" where
  "token_offset tok =
     (if tok = [] then 0
      else case DecodeString tok of
        None \<Rightarrow> 0
      | Some d \<Rightarrow> (case Atoi d of None \<Rightarrow> 0 | Some n \<Rightarrow> n))"

text \<open>The slice expression \<^verbatim>\<open>visible[offset:end]\<close> panics unless \<open>0 \<le> offset \<le> end \<le> len\<close>.\<close>

definition repo_List :: "ListOptions \<Rightarrow> ('t, 'k) MemoryRepository \<Rightarrow> perr + 't list \<times> string" where
  "repo_List opts r =
     (let pageSize = (if PageSize opts \<le> 0 then 50 else PageSize opts);
          visible = visible_keys (ShowDeleted opts) r;
          total = int (length visible);
          offset = min (token_offset (PageToken opts)) total;
          end = min (wrap64 (offset + pageSize)) total
      in if offset < 0 \<or> end < offset then Inl PanicSliceBounds
         else Inr (map (\<lambda>k. the (items r k)) (take (nat (end - offset)) (drop (nat offset) visible)),
                   if wrap64 (offset + pageSize) < total
                   then EncodeToString (Itoa (wrap64 (offset + pageSize))) else []))"

definition repo_Create :: "string \<Rightarrow> 't \<Rightarrow> ('t, 'k) MemoryRepository
    \<Rightarrow> (perr + 't) \<times> string option \<times> ('t, 'k) MemoryRepository" where
  "repo_Create uuid entity r =
     (let key = keyFn r entity
      in case items r key of
           Some _ \<Rightarrow> (Inl ErrConflict, None, r)
         | None \<Rightarrow> (Inr entity, Some uuid,
             r\<lparr>items := (items r)(key \<mapsto> entity), etags := (etags r)(key := uuid), rkeys := rkeys r @ [key]\<rparr>))"

definition repo_Update :: "string \<Rightarrow> string \<Rightarrow> 'k \<Rightarrow> 't \<Rightarrow> ('t, 'k) MemoryRepository
    \<Rightarrow> (perr + 't) \<times> string option \<times> ('t, 'k) MemoryRepository" where
  "repo_Update uuid ifMatch key entity r =
     (case items r key of
        None \<Rightarrow> (Inl ErrNotFound, None, r)
      | Some _ \<Rightarrow>
          if etags r key \<noteq> [] \<and> ifMatch \<noteq> [] \<and> ifMatch \<noteq> etags r key then (Inl ErrPreconditionFailed, None, r)
          else (Inr entity, Some uuid,
            r\<lparr>items := (items r)(key \<mapsto> entity), etags := (etags r)(key := uuid)\<rparr>))"

definition repo_Delete :: "'k \<Rightarrow> ('t, 'k) MemoryRepository \<Rightarrow> perr option \<times> ('t, 'k) MemoryRepository" where
  "repo_Delete key r =
     (if items r key = None then (Some ErrNotFound, r)
      else if key \<in> rdeleted r then (Some ErrNotFound, r)
      else (None, r\<lparr>rdeleted := insert key (rdeleted r)\<rparr>))"

definition live :: "('t, 'k) MemoryRepository \<Rightarrow> 'k \<Rightarrow> bool" where
  "live r k \<longleftrightarrow> items r k \<noteq> None \<and> k \<notin> rdeleted r"

definition repo_BatchGet :: "'k list \<Rightarrow> ('t, 'k) MemoryRepository \<Rightarrow> perr + 't list" where
  "repo_BatchGet ks r = (if list_all (live r) ks then Inr (map (\<lambda>k. the (items r k)) ks) else Inl ErrNotFound)"

definition put_item :: "'k \<times> 't \<times> string \<Rightarrow> ('t, 'k) MemoryRepository \<Rightarrow> ('t, 'k) MemoryRepository" where
  "put_item x r = (case x of (key, entity, uuid) \<Rightarrow>
     r\<lparr>items := (items r)(key \<mapsto> entity), etags := (etags r)(key := uuid)\<rparr>)"

definition repo_BatchUpdate :: "('k \<times> 't \<times> string) list \<Rightarrow> ('t, 'k) MemoryRepository
    \<Rightarrow> (perr + 't list) \<times> ('t, 'k) MemoryRepository" where
  "repo_BatchUpdate its r =
     (if list_all (live r) (map fst its) then (Inr (map (fst \<circ> snd) its), fold put_item its r)
      else (Inl ErrNotFound, r))"

definition repo_BatchDelete :: "'k list \<Rightarrow> ('t, 'k) MemoryRepository \<Rightarrow> perr option \<times> ('t, 'k) MemoryRepository" where
  "repo_BatchDelete ks r =
     (if list_all (live r) ks then (None, r\<lparr>rdeleted := rdeleted r \<union> set ks\<rparr>) else (Some ErrNotFound, r))"

definition repo_Undelete :: "'k \<Rightarrow> ('t, 'k) MemoryRepository \<Rightarrow> (perr + 't) \<times> ('t, 'k) MemoryRepository" where
  "repo_Undelete key r =
     (case items r key of
        None \<Rightarrow> (Inl ErrNotFound, r)
      | Some v \<Rightarrow>
          if key \<notin> rdeleted r then (Inl ErrNotFound, r)
          else (Inr v, r\<lparr>rdeleted := rdeleted r - {key}\<rparr>))"

section \<open>Invariant\<close>

text \<open>The key list enumerates the stored keys once each, and only stored keys are marked deleted.\<close>

definition repo_ok :: "('t, 'k) MemoryRepository \<Rightarrow> bool" where
  "repo_ok r \<longleftrightarrow> distinct (rkeys r) \<and> set (rkeys r) = dom (items r) \<and> rdeleted r \<subseteq> dom (items r)"

datatype ('t, 'k) repo_op = OCreate string 't | OUpdate string string 'k 't | ODelete 'k | OUndelete 'k
  | OBatchUpdate "('k \<times> 't \<times> string) list" | OBatchDelete "'k list"

fun repo_step :: "('t, 'k) repo_op \<Rightarrow> ('t, 'k) MemoryRepository \<Rightarrow> ('t, 'k) MemoryRepository" where
  "repo_step (OCreate u e) r = snd (snd (repo_Create u e r))"
| "repo_step (OUpdate u m k e) r = snd (snd (repo_Update u m k e r))"
| "repo_step (ODelete k) r = snd (repo_Delete k r)"
| "repo_step (OUndelete k) r = snd (repo_Undelete k r)"
| "repo_step (OBatchUpdate its) r = snd (repo_BatchUpdate its r)"
| "repo_step (OBatchDelete ks) r = snd (repo_BatchDelete ks r)"

lemma put_items_frame:
  "rkeys (fold put_item its r) = rkeys r" "rdeleted (fold put_item its r) = rdeleted r"
  "dom (items (fold put_item its r)) = dom (items r) \<union> fst ` set its"
  by (induction its arbitrary: r) (auto simp: put_item_def split: prod.splits)

interpretation repo_inv: invariant_steps repo_step repo_ok "\<lambda>_. True"
proof unfold_locales
  fix x :: "('t, 'k) repo_op" and r :: "('t, 'k) MemoryRepository"
  assume "repo_ok r"
  then show "repo_ok (repo_step x r)"
  proof (cases x)
    case (OBatchUpdate its)
    show ?thesis
    proof (cases "list_all (live r) (map fst its)")
      case True
      then have "fst ` set its \<subseteq> dom (items r)" by (auto simp: list_all_iff live_def)
      then have "dom (items (fold put_item its r)) = dom (items r)" by (auto simp: put_items_frame)
      with True OBatchUpdate \<open>repo_ok r\<close> show ?thesis
        by (simp add: repo_ok_def repo_BatchUpdate_def put_items_frame(1,2))
    next
      case False
      with OBatchUpdate \<open>repo_ok r\<close> show ?thesis by (simp add: repo_BatchUpdate_def)
    qed
  qed (auto simp: repo_ok_def repo_Create_def repo_Update_def repo_Delete_def repo_Undelete_def repo_BatchDelete_def
      list_all_iff live_def Let_def split: option.split)
qed

section \<open>Pages\<close>

text \<open>Following the tokens from the first page.\<close>

fun all_pages :: "nat \<Rightarrow> int \<Rightarrow> bool \<Rightarrow> string \<Rightarrow> ('t, 'k) MemoryRepository \<Rightarrow> (perr + 't list) option" where
  "all_pages 0 ps sd tok r = None"
| "all_pages (Suc fuel) ps sd tok r =
     (case repo_List \<lparr>PageSize = ps, PageToken = tok, ShowDeleted = sd\<rparr> r of
        Inl e \<Rightarrow> Some (Inl e)
      | Inr (its, nxt) \<Rightarrow>
          if nxt = [] then Some (Inr its)
          else (case all_pages fuel ps sd nxt r of
                  None \<Rightarrow> None | Some (Inl e) \<Rightarrow> Some (Inl e) | Some (Inr rest) \<Rightarrow> Some (Inr (its @ rest))))"


lemma token_offset_simps [simp]:
  "token_offset [] = 0" "in_int64 n \<Longrightarrow> token_offset (EncodeToString (Itoa n)) = n"
  by (simp_all add: token_offset_def encode_nonempty)

definition visible_items :: "bool \<Rightarrow> ('t, 'k) MemoryRepository \<Rightarrow> 't list" where
  "visible_items sd r = map (\<lambda>k. the (items r k)) (visible_keys sd r)"

lemma page_at:
  assumes "token_offset tok = int o'" "o' \<le> length (visible_keys sd r)" "0 < ps"
    and "int (length (visible_keys sd r)) + ps < 2 ^ 63"
  shows "repo_List \<lparr>PageSize = ps, PageToken = tok, ShowDeleted = sd\<rparr> r =
    Inr (take (nat ps) (drop o' (visible_items sd r)),
         if o' + nat ps < length (visible_keys sd r) then EncodeToString (Itoa (int (o' + nat ps))) else [])"
proof -
  let ?v = "visible_keys sd r"
  have w: "wrap64 (int o' + ps) = int o' + ps" using assms by (intro wrap64_id) (simp add: dur_ok_def)
  have n: "int (o' + nat ps) = int o' + ps" using assms(3) by simp
  have lt: "o' + nat ps < length ?v \<longleftrightarrow> int o' + ps < int (length ?v)" using assms(3) by linarith
  have tk: "take (nat (min (int o' + ps) (int (length ?v)) - int o')) (drop o' ?v) = take (nat ps) (drop o' ?v)"
    using assms(2,3) by (cases "int o' + ps \<le> int (length ?v)") (simp_all add: take_all min_def)
  show ?thesis
    using assms w by (simp add: repo_List_def Let_def visible_items_def tk lt n take_map drop_map min_def [of "int o'"])
qed

lemma all_pages_from:
  assumes "0 < ps" "int (length (visible_keys sd r)) + ps < 2 ^ 63"
  shows "token_offset tok = int o' \<Longrightarrow> o' \<le> length (visible_keys sd r) \<Longrightarrow> length (visible_keys sd r) - o' < n \<Longrightarrow>
    all_pages n ps sd tok r = Some (Inr (drop o' (visible_items sd r)))"
proof (induction n arbitrary: o' tok)
  case (Suc n)
  let ?len = "length (visible_keys sd r)" and ?vi = "visible_items sd r"
  note page = page_at [OF Suc.prems(1,2) assms]
  have len: "length ?vi = ?len" by (simp add: visible_items_def)
  show ?case
  proof (cases "o' + nat ps < ?len")
    case False
    then have "take (nat ps) (drop o' ?vi) = drop o' ?vi" using len by (intro take_all) simp
    with False page show ?thesis by simp
  next
    case True
    let ?tok = "EncodeToString (Itoa (int (o' + nat ps)))"
    have "in_int64 (int (o' + nat ps))" using True assms by (simp add: in_int64_def)
    then have "token_offset ?tok = int (o' + nat ps)" by simp
    then have "all_pages n ps sd ?tok r = Some (Inr (drop (o' + nat ps) ?vi))"
      by (rule Suc.IH) (use True Suc.prems assms(1) in linarith)+
    moreover have "take (nat ps) (drop o' ?vi) @ drop (o' + nat ps) ?vi = drop o' ?vi"
      by (metis add.commute append_take_drop_id drop_drop)
    ultimately show ?thesis using True page encode_nonempty [OF Itoa_nonempty] by simp
  qed
qed simp

section \<open>Properties\<close>


definition sample_repo :: "(nat, nat) MemoryRepository" where
  "sample_repo = fold repo_step [OCreate ''e1'' 7, OCreate ''e2'' 8, OCreate ''e3'' 9, ODelete 8] (NewMemoryRepository id)"


text \<open>The UUIDs an operation draws.\<close>

fun op_uuids :: "('t, 'k) repo_op \<Rightarrow> string list" where
  "op_uuids (OCreate u e) = [u]"
| "op_uuids (OUpdate u m k e) = [u]"
| "op_uuids (OBatchUpdate its) = map (snd \<circ> snd) its"
| "op_uuids _ = []"

definition unseen :: "string \<Rightarrow> 'k \<Rightarrow> 't option \<Rightarrow> ('t, 'k) MemoryRepository \<Rightarrow> bool" where
  "unseen e key v r \<longleftrightarrow> items r key \<noteq> None \<and> etags r key \<noteq> [] \<and> (etags r key = e \<longrightarrow> items r key = v)"

lemma unseen_puts:
  "unseen e key v r \<Longrightarrow> (\<forall>x\<in>set its. snd (snd x) \<noteq> [] \<and> snd (snd x) \<noteq> e) \<Longrightarrow> unseen e key v (fold put_item its r)"
proof (induction its arbitrary: r)
  case (Cons x its)
  have "unseen e key v (put_item x r)"
    using Cons.prems by (cases x) (auto simp: unseen_def put_item_def)
  then show ?case using Cons by simp
qed simp

lemma unseen_step:
  assumes "\<forall>u\<in>set (op_uuids x). u \<noteq> [] \<and> u \<noteq> e" "unseen e key v r"
  shows "unseen e key v (repo_step x r)"
  using assms
proof (cases x)
  case (OBatchUpdate its)
  then show ?thesis
    using assms unseen_puts [of e key v r its] by (simp add: repo_BatchUpdate_def)
qed (auto simp: unseen_def repo_Create_def repo_Update_def repo_Delete_def repo_Undelete_def
    repo_BatchDelete_def Let_def split: option.splits)

interpretation unseen_inv: invariant_steps repo_step "unseen e key v" "\<lambda>x. \<forall>u\<in>set (op_uuids x). u \<noteq> [] \<and> u \<noteq> e"
  for e key v
  by unfold_locales (rule unseen_step)


definition one_item :: "(nat, nat) MemoryRepository" where
  "one_item = repo_step (OCreate ''e1'' 7) (NewMemoryRepository id)"


text \<open>page tokens are not validated. Whatever the repository holds, \<open>List\<close> panics on the token that encodes -1: the
  offset is capped from above only and used as the lower bound of a slice expression.\<close>

theorem list_token_panics:
  "repo_List \<lparr>PageSize = n, PageToken = EncodeToString (Itoa (-1)), ShowDeleted = sd\<rparr> r = Inl PanicSliceBounds"
proof -
  have "token_offset (EncodeToString (Itoa (-1))) = -1" by (simp add: in_int64_def)
  then show ?thesis by (simp add: repo_List_def Let_def)
qed

text \<open>C40: 
  The repository stays well formed. After any sequence of creations, updates, deletions, undeletions and batches, failed ones included, the key list
  names every stored entity exactly once and only stored entities are marked deleted, so a read of a listed key always
  finds its entity.
\<close>

theorem repo_well_formed:
  "repo_ok (fold repo_step xs (NewMemoryRepository kf))
    \<and> (\<forall>k. k \<in> set (rkeys (fold repo_step xs (NewMemoryRepository kf))) \<longleftrightarrow> items (fold repo_step xs (NewMemoryRepository kf)) k \<noteq> None)"
proof -
  have "repo_ok (NewMemoryRepository kf)" by (simp add: repo_ok_def NewMemoryRepository_def)
  then have "repo_ok (fold repo_step xs (NewMemoryRepository kf))" by (intro repo_inv.run_inv) simp_all
  then show ?thesis by (auto simp: repo_ok_def)
qed

end
