(* ===== verification/Persist_Tx.thy ===== *)
theory Persist_Tx
  imports Persist_Memory
begin

text \<open>
  Transactions over the in-memory stores (\<^verbatim>\<open>src/persistence/tx.go\<close>, \<^verbatim>\<open>src/persistence/memory_tx.go\<close>). A participant
  is named by its lock-order number, which is unique to it; \<open>store\<close> gives its state and \<open>held\<close> the participants whose
  write lock a running transaction holds. Snapshots are deep copies, so a snapshot is the value. A client function
  runs on a context and a world; besides returning an error it may panic, and it blocks for good when it waits for a
  lock its own goroutine holds.
\<close>

section \<open>Worlds, contexts and outcomes\<close>

record 'p txw =
  store :: "nat \<Rightarrow> 'p"
  held :: "nat set"

text \<open>The values a context carries: the set of the running in-memory transaction, the tenant of the verified principal,
  the tenant hint of \<^verbatim>\<open>src/middleware/tenantid.go\<close> and the mark of a system operation.\<close>

record ctx =
  memTxSet :: "nat set option"
  principalTenant :: "string option"
  tenantHint :: "string option"
  systemMark :: bool

datatype outcome = Done | Failed perr | Panicked string | Blocked

type_synonym ('p, 'z) tx_fn = "ctx \<Rightarrow> ('p, 'z) txw_scheme \<Rightarrow> outcome \<times> ('p, 'z) txw_scheme"

definition background :: ctx where
  "background = \<lparr>memTxSet = None, principalTenant = None, tenantHint = None, systemMark = False\<rparr>"

definition WithTenantID :: "ctx \<Rightarrow> string \<Rightarrow> ctx" where
  "WithTenantID c t = c\<lparr>tenantHint := Some t\<rparr>"

definition TenantIDFromContext :: "ctx \<Rightarrow> string" where
  "TenantIDFromContext c =
     (case principalTenant c of
        Some t \<Rightarrow> t
      | None \<Rightarrow> (case tenantHint c of Some v \<Rightarrow> v | None \<Rightarrow> []))"

definition VerifiedTenantID :: "ctx \<Rightarrow> string \<times> bool" where
  "VerifiedTenantID c = (case principalTenant c of Some t \<Rightarrow> (t, True) | None \<Rightarrow> ([], False))"

definition WithSystemContext :: "ctx \<Rightarrow> ctx" where
  "WithSystemContext c = c\<lparr>systemMark := True\<rparr>"

definition IsSystemContext :: "ctx \<Rightarrow> bool" where
  "IsSystemContext c = systemMark c"

text \<open>\<^verbatim>\<open>TenantIDUnary\<close> around a handler; \<open>md\<close> is the incoming metadata, if any. The result pairs the handler's with the
  \<^verbatim>\<open>cell-id\<close> header it sets.\<close>

definition TenantIDUnary :: "(string \<Rightarrow> string list) option \<Rightarrow> ctx \<Rightarrow> (ctx \<Rightarrow> 'r) \<Rightarrow> 'r \<times> (string \<times> string)" where
  "TenantIDUnary md c handler =
     (let tenantID = (case md of None \<Rightarrow> [] | Some get \<Rightarrow> (case get ''account-id'' of [] \<Rightarrow> [] | v # _ \<Rightarrow> v))
      in (handler (WithTenantID c tenantID), (''cell-id'', ''default'')))"

definition WithTx :: "ctx \<Rightarrow> nat set \<Rightarrow> ctx" where
  "WithTx c h = c\<lparr>memTxSet := Some h\<rparr>"

definition TxFromContext :: "ctx \<Rightarrow> nat set option" where
  "TxFromContext c = memTxSet c"

definition RequireTx :: "ctx \<Rightarrow> perr option" where
  "RequireTx c = (if TxFromContext c \<noteq> None then None else Some ErrNoTransaction)"

definition inThisTx :: "nat \<Rightarrow> ctx \<Rightarrow> bool" where
  "inThisTx p c = (case TxFromContext c of None \<Rightarrow> False | Some s \<Rightarrow> p \<in> s)"

text \<open>
  The prologue of every repository operation: inside a transaction the participant is enrolled in the runner holds the
  lock; otherwise the operation takes it, which blocks while a transaction holds it, and releases it at the end.
\<close>

definition locked_op :: "nat \<Rightarrow> ctx \<Rightarrow> ('p \<Rightarrow> perr option \<times> 'p) \<Rightarrow> ('p, 'z) txw_scheme
    \<Rightarrow> outcome \<times> ('p, 'z) txw_scheme" where
  "locked_op p c op w =
     (if \<not> inThisTx p c \<and> p \<in> held w then (Blocked, w)
      else case op (store w p) of
             (None, st) \<Rightarrow> (Done, w\<lparr>store := (store w)(p := st)\<rparr>)
           | (Some e, st) \<Rightarrow> (Failed e, w\<lparr>store := (store w)(p := st)\<rparr>))"

section \<open>The transaction runner\<close>

text \<open>A runner is the list of its participants, without duplicates and in lock order.\<close>

fun dedup :: "nat set \<Rightarrow> nat list \<Rightarrow> nat list" where
  "dedup seen [] = []"
| "dedup seen (r # rs) = (if r \<in> seen then dedup seen rs else r # dedup (insert r seen) rs)"

definition NewMemoryTxRunner :: "nat list \<Rightarrow> nat list" where
  "NewMemoryTxRunner repos = sort (dedup {} repos)"

definition WithParticipants :: "nat list \<Rightarrow> nat list \<Rightarrow> nat list" where
  "WithParticipants m extra = NewMemoryTxRunner (m @ extra)"

text \<open>Taking the locks in order; \<open>False\<close> when one of them cannot be had.\<close>

fun lock_all :: "nat list \<Rightarrow> ('p, 'z) txw_scheme \<Rightarrow> bool \<times> ('p, 'z) txw_scheme" where
  "lock_all [] w = (True, w)"
| "lock_all (p # ps) w = (if p \<in> held w then (False, w) else lock_all ps (w\<lparr>held := insert p (held w)\<rparr>))"

fun unlock_all :: "nat list \<Rightarrow> ('p, 'z) txw_scheme \<Rightarrow> ('p, 'z) txw_scheme" where
  "unlock_all [] w = w"
| "unlock_all (p # ps) w = unlock_all ps (w\<lparr>held := held w - {p}\<rparr>)"

definition snapshotForTx :: "nat list \<Rightarrow> ('p, 'z) txw_scheme \<Rightarrow> (nat \<times> 'p) list" where
  "snapshotForTx m w = map (\<lambda>p. (p, store w p)) m"

fun restoreForTx :: "(nat \<times> 'p) list \<Rightarrow> ('p, 'z) txw_scheme \<Rightarrow> ('p, 'z) txw_scheme" where
  "restoreForTx [] w = w"
| "restoreForTx ((p, s) # snaps) w = restoreForTx snaps (w\<lparr>store := (store w)(p := s)\<rparr>)"

definition joins :: "nat list \<Rightarrow> ctx \<Rightarrow> bool" where
  "joins m c = (case TxFromContext c of None \<Rightarrow> False | Some s \<Rightarrow> list_ex (\<lambda>p. p \<in> s) m)"

definition Atomically :: "nat list \<Rightarrow> ctx \<Rightarrow> ('p, 'z) tx_fn \<Rightarrow> ('p, 'z) txw_scheme
    \<Rightarrow> outcome \<times> ('p, 'z) txw_scheme" where
  "Atomically m c fn w =
     (if joins m c then fn c w
      else case lock_all m w of
        (False, w1) \<Rightarrow> (Blocked, w1)
      | (True, w1) \<Rightarrow>
          let snaps = snapshotForTx m w1
          in case fn (WithTx c (set m)) w1 of
               (Done, w2) \<Rightarrow> (Done, unlock_all (rev m) w2)
             | (Blocked, w2) \<Rightarrow> (Blocked, w2)
             | (out, w2) \<Rightarrow> (out, unlock_all (rev m) (restoreForTx snaps w2)))"

section \<open>Lemmas\<close>

lemma dedup_props: "set (dedup seen rs) = set rs - seen \<and> distinct (dedup seen rs)"
  by (induction seen rs rule: dedup.induct) auto

lemma runner_props [simp]:
  "set (NewMemoryTxRunner ps) = set ps" "distinct (NewMemoryTxRunner ps)" "sorted (NewMemoryTxRunner ps)"
  by (simp_all add: NewMemoryTxRunner_def dedup_props)

lemma lock_all_free:
  "distinct m \<Longrightarrow> set m \<inter> held w = {} \<Longrightarrow> lock_all m w = (True, w\<lparr>held := set m \<union> held w\<rparr>)"
proof (induction m arbitrary: w)
  case (Cons p ps)
  have "set ps \<inter> held (w\<lparr>held := insert p (held w)\<rparr>) = {}" using Cons.prems by auto
  with Cons show ?case by simp
qed simp

lemma unlock_all_eq: "unlock_all ps w = w\<lparr>held := held w - set ps\<rparr>"
proof (induction ps arbitrary: w)
  case (Cons p ps)
  have "held w - {p} - set ps = held w - insert p (set ps)" by auto
  with Cons show ?case by simp
qed simp

lemma restore_store:
  "distinct m \<Longrightarrow> store (restoreForTx (snapshotForTx m w0) w) =
     (\<lambda>p. if p \<in> set m then store w0 p else store w p)"
proof (induction m arbitrary: w)
  case (Cons p ps)
  then have "store (restoreForTx (snapshotForTx (p # ps) w0) w) =
    (\<lambda>q. if q \<in> set ps then store w0 q else ((store w)(p := store w0 p)) q)"
    by (simp add: snapshotForTx_def cong: if_cong)
  then show ?case by (auto simp: fun_eq_iff)
qed (simp add: snapshotForTx_def)

lemma restore_held [simp]: "held (restoreForTx snaps w) = held w"
  by (induction snaps w rule: restoreForTx.induct) simp_all

lemma restore_more: "txw.more (restoreForTx snaps w) = txw.more w"
  by (induction snaps w rule: restoreForTx.induct) simp_all

text \<open>What a transaction that starts does, by the outcome of the client function.\<close>

definition tx_start :: "nat list \<Rightarrow> ctx \<Rightarrow> ('p, 'z) txw_scheme \<Rightarrow> bool" where
  "tx_start m c w \<longleftrightarrow> distinct m \<and> \<not> joins m c \<and> set m \<inter> held w = {}"

definition enter :: "nat list \<Rightarrow> ('p, 'z) txw_scheme \<Rightarrow> ('p, 'z) txw_scheme" where
  "enter m w = w\<lparr>held := set m \<union> held w\<rparr>"

lemma Atomically_start:
  assumes "tx_start m c w"
  shows "Atomically m c fn w =
    (case fn (WithTx c (set m)) (enter m w) of
       (Done, w2) \<Rightarrow> (Done, w2\<lparr>held := held w2 - set m\<rparr>)
     | (Blocked, w2) \<Rightarrow> (Blocked, w2)
     | (out, w2) \<Rightarrow> (out, (restoreForTx (snapshotForTx m w) w2)\<lparr>held := held w2 - set m\<rparr>))"
proof -
  have "snapshotForTx m (enter m w) = snapshotForTx m w" by (simp add: snapshotForTx_def enter_def)
  then show ?thesis
    using assms by (simp add: Atomically_def tx_start_def lock_all_free enter_def unlock_all_eq Let_def
        split: prod.split outcome.split)
qed

section \<open>Properties\<close>

text \<open>C26: transactions are all or nothing. When the locks are free and the client function gives back the locks it takes,
  \<open>Atomically\<close> returns exactly the outcome of the function; if that is an error or a panic, every participant has its
  state from before the call, if it is success the function's writes stay; and all locks are as before.\<close>

theorem tx_all_or_nothing:
  assumes "distinct m" "\<not> joins m c" "set m \<inter> held w = {}"
    and "fn (WithTx c (set m)) (w\<lparr>held := set m \<union> held w\<rparr>) = (out, w2)" "out \<noteq> Blocked"
    and "held w2 = set m \<union> held w"
  shows "fst (Atomically m c fn w) = out
    \<and> held (snd (Atomically m c fn w)) = held w
    \<and> (\<forall>p. store (snd (Atomically m c fn w)) p = (if out \<noteq> Done \<and> p \<in> set m then store w p else store w2 p))"
proof -
  have "tx_start m c w" using assms(1-3) by (simp add: tx_start_def)
  moreover have "set m \<union> held w - set m = held w" using assms(3) by auto
  ultimately show ?thesis
    using assms by (simp add: Atomically_start enter_def restore_store split: outcome.split)
qed

text \<open>A client function for the examples: set participant \<open>p\<close> to \<open>v\<close>.\<close>

definition write_part :: "nat \<Rightarrow> 'p \<Rightarrow> ('p, 'z) tx_fn" where
  "write_part p v c w = locked_op p c (\<lambda>_. (None, v)) w"

definition and_then :: "('p, 'z) tx_fn \<Rightarrow> ('p, 'z) tx_fn \<Rightarrow> ('p, 'z) tx_fn" where
  "and_then f g c w = (case f c w of (Done, w1) \<Rightarrow> g c w1 | r \<Rightarrow> r)"

definition fail_with :: "perr \<Rightarrow> ('p, 'z) tx_fn" where
  "fail_with e c w = (Failed e, w)"

definition zero_world :: "nat txw" where
  "zero_world = \<lparr>store = (\<lambda>_. 0), held = {}\<rparr>"

lemmas tx_eval = Atomically_def joins_def TxFromContext_def WithTx_def background_def write_part_def and_then_def
  fail_with_def locked_op_def inThisTx_def zero_world_def NewMemoryTxRunner_def snapshotForTx_def

theorem tx_all_or_nothing_witness:
  "store (snd (Atomically [1, 2] background (and_then (write_part 1 5) (and_then (write_part 2 6) (fail_with ErrConflict))) zero_world)) 2 = 0"
  using tx_all_or_nothing [of "[1, 2]" background zero_world
      "and_then (write_part 1 5) (and_then (write_part 2 6) (fail_with ErrConflict))" "Failed ErrConflict"
      "zero_world\<lparr>held := {1, 2}, store := (\<lambda>_. 0)(1 := 5, 2 := 6)\<rparr>"]
  by (simp add: tx_eval)

text \<open>a nested call that only partly overlaps leaks. A runner over participants 1 and 2, called inside a transaction
  over participant 1 alone, joins it because participant 1 is enrolled; its write to participant 2 is not undone when the
  transaction fails.\<close>

theorem tx_partial_overlap_leaks:
  "let r = Atomically (NewMemoryTxRunner [1]) background
       (and_then (\<lambda>c. Atomically (NewMemoryTxRunner [1, 2]) c (and_then (write_part 1 5) (write_part 2 6))) (fail_with ErrConflict))
       zero_world
   in fst r = Failed ErrConflict \<and> store (snd r) 1 = 0 \<and> store (snd r) 2 = 6"
  by (simp add: tx_eval)

text \<open>a nested call over other participants hides the outer transaction. Inside it the context carries only the inner
  set, so an operation on a participant of the outer transaction waits for a lock its own goroutine holds.\<close>

theorem tx_nested_self_deadlock:
  "fst (Atomically (NewMemoryTxRunner [1]) background
      (\<lambda>c. Atomically (NewMemoryTxRunner [2]) c (write_part 1 (5::nat))) zero_world) = Blocked"
  by (simp add: tx_eval)

end
