(* ===== verification/Persist_Outbox.thy ===== *)
theory Persist_Outbox
  imports Persist_Tx "HOL-Library.Multiset"
begin

text \<open>
  The transactional outbox (\<^verbatim>\<open>src/persistence/outbox.go\<close>, \<^verbatim>\<open>src/persistence/memory_outbox.go\<close>): the write-only store
  of event rows, which takes part in transactions, and the sidecar that holds a reader's forward cursor, its failure
  count and the dead letters. Payloads are byte strings; the copies the store makes of its rows are values here.
\<close>

section \<open>Rows and cursors\<close>

record OutboxRecord =
  ID :: string
  AccountID :: string
  AggregateType :: string
  AggregateID :: string
  EventType :: string
  Payload :: string
  CreatedTime :: go_time
  EventSeq :: int
  EventEpoch :: int

record OutboxCursor =
  curTime :: go_time
  curID :: string

definition cursor_IsZero :: "OutboxCursor \<Rightarrow> bool" where
  "cursor_IsZero c \<longleftrightarrow> time_is_zero (curTime c) \<and> curID c = []"

definition zero_cursor :: OutboxCursor where
  "zero_cursor = \<lparr>curTime = 0, curID = []\<rparr>"

definition pos_of :: "OutboxRecord \<Rightarrow> OutboxCursor" where
  "pos_of r = \<lparr>curTime = CreatedTime r, curID = ID r\<rparr>"

definition DefaultMaxOutboxAttempts :: int where
  "DefaultMaxOutboxAttempts = 5"

definition outboxLess :: "OutboxRecord \<Rightarrow> OutboxRecord \<Rightarrow> bool" where
  "outboxLess a b = (if CreatedTime a = CreatedTime b then ID a < ID b else CreatedTime a < CreatedTime b)"

definition cursorBefore :: "OutboxCursor \<Rightarrow> OutboxRecord \<Rightarrow> bool" where
  "cursorBefore c r =
     (if cursor_IsZero c then True
      else if curTime c = CreatedTime r then curID c < ID r
      else curTime c < CreatedTime r)"

section \<open>The store\<close>

text \<open>
  \<^verbatim>\<open>sort.Slice\<close> with \<open>outboxLess\<close> is the sort by \<open>rank\<close>; the order of rows with the same creation time and the same
  id, which the library leaves open, is the order of insertion here. Rows come from \<open>Publish\<close> with fresh ids.
\<close>

definition rank :: "OutboxRecord \<Rightarrow> go_time \<times> string" where
  "rank r = (CreatedTime r, ID r)"

definition in_order :: "OutboxRecord list \<Rightarrow> OutboxRecord list" where
  "in_order rows = sort_key rank rows"

fun read_scan :: "OutboxCursor \<Rightarrow> int \<Rightarrow> OutboxRecord list \<Rightarrow> OutboxRecord list \<Rightarrow> OutboxRecord list" where
  "read_scan c limit [] out = out"
| "read_scan c limit (r # rs) out =
     (if int (length out) \<ge> limit then out
      else if \<not> cursorBefore c r then read_scan c limit rs out
      else read_scan c limit rs (out @ [r]))"

definition ReadAfter :: "OutboxCursor \<Rightarrow> int \<Rightarrow> OutboxRecord list \<Rightarrow> OutboxRecord list" where
  "ReadAfter c limit rows = read_scan c (if limit \<le> 0 then 100 else limit) (in_order rows) []"

text \<open>\<open>Append\<close> runs on a context; \<open>tnow\<close> is the clock it reads when the row carries no time, and the second component of
  the result is the caller's row, whose time is filled in.\<close>

definition outbox_Append :: "nat \<Rightarrow> go_time \<Rightarrow> ctx \<Rightarrow> OutboxRecord \<Rightarrow> OutboxRecord list
    \<Rightarrow> perr option \<times> OutboxRecord \<times> OutboxRecord list" where
  "outbox_Append ob tnow c rec rows =
     (let rec' = (if time_is_zero (CreatedTime rec) then rec\<lparr>CreatedTime := tnow\<rparr> else rec)
      in if inThisTx ob c then (None, rec', rows @ [rec'])
         else case RequireTx c of
                Some e \<Rightarrow> (Some e, rec', rows)
              | None \<Rightarrow> (Some ErrNoTransaction, rec', rows))"

definition DropPartitionsBefore :: "go_time \<Rightarrow> OutboxRecord list \<Rightarrow> nat \<times> OutboxRecord list" where
  "DropPartitionsBefore t rows =
     (length (filter (\<lambda>r. CreatedTime r < t) rows), filter (\<lambda>r. \<not> CreatedTime r < t) rows)"

definition Pending :: "OutboxRecord list \<Rightarrow> string list" where
  "Pending rows = map ID (in_order rows)"

definition outbox_All :: "OutboxRecord list \<Rightarrow> OutboxRecord list" where
  "outbox_All rows = in_order rows"

section \<open>The cursor sidecar\<close>

record cursorState =
  cs_cursor :: OutboxCursor
  cs_headFailures :: int

record DeadLetterRecord =
  CursorName :: string
  dlEventID :: string
  dlEventType :: string
  Reason :: string
  Position :: OutboxCursor

record MemoryOutboxCursorStore =
  cursors :: "string \<Rightarrow> cursorState option"
  dead :: "DeadLetterRecord list"

definition NewMemoryOutboxCursorStore :: MemoryOutboxCursorStore where
  "NewMemoryOutboxCursorStore = \<lparr>cursors = Map.empty, dead = []\<rparr>"

definition LoadCursor :: "string \<Rightarrow> MemoryOutboxCursorStore \<Rightarrow> OutboxCursor \<times> int" where
  "LoadCursor name s =
     (let st = get_or \<lparr>cs_cursor = zero_cursor, cs_headFailures = 0\<rparr> (cursors s) name
      in (cs_cursor st, cs_headFailures st))"

definition SaveCursor :: "string \<Rightarrow> OutboxCursor \<Rightarrow> int \<Rightarrow> MemoryOutboxCursorStore \<Rightarrow> MemoryOutboxCursorStore" where
  "SaveCursor name c n s = s\<lparr>cursors := (cursors s)(name \<mapsto> \<lparr>cs_cursor = c, cs_headFailures = n\<rparr>)\<rparr>"

definition letter :: "string \<Rightarrow> OutboxRecord \<Rightarrow> string \<Rightarrow> DeadLetterRecord" where
  "letter name rec reason =
     \<lparr>CursorName = name, dlEventID = ID rec, dlEventType = EventType rec, Reason = reason, Position = pos_of rec\<rparr>"

definition DeadLetter :: "string \<Rightarrow> OutboxRecord \<Rightarrow> string \<Rightarrow> MemoryOutboxCursorStore \<Rightarrow> MemoryOutboxCursorStore" where
  "DeadLetter name rec reason s = s\<lparr>dead := dead s @ [letter name rec reason]\<rparr>"

definition DeadLettered :: "MemoryOutboxCursorStore \<Rightarrow> DeadLetterRecord list" where
  "DeadLettered s = dead s"

section \<open>Lemmas\<close>

text \<open>Both comparisons are the lexicographic order of (creation time, id).\<close>

lemma outboxLess_rank: "outboxLess a b \<longleftrightarrow> rank a < rank b"
  by (auto simp: outboxLess_def rank_def less_prod_def)

definition cpos :: "OutboxCursor \<Rightarrow> go_time \<times> string" where
  "cpos c = (curTime c, curID c)"

lemma cursorBefore_rank: "cursorBefore c r \<longleftrightarrow> cursor_IsZero c \<or> cpos c < rank r"
  by (auto simp: cursorBefore_def rank_def cpos_def less_prod_def)

lemma cpos_pos_of [simp]: "cpos (pos_of r) = rank r"
  by (simp add: cpos_def pos_of_def rank_def)

lemma in_order_props [simp]:
  "set (in_order rows) = set rows" "length (in_order rows) = length rows" "mset (in_order rows) = mset rows"
  "sorted (map rank (in_order rows))"
  by (simp_all add: in_order_def)

lemma read_scan_eq:
  "read_scan c n rs out = out @ take (nat n - length out) (filter (cursorBefore c) rs)"
proof (induction c n rs out rule: read_scan.induct)
  case (2 c limit r rs out)
  show ?case
  proof (cases "int (length out) \<ge> limit")
    case True
    then have "nat limit - length out = 0" by linarith
    with True show ?thesis by simp
  next
    case False
    then have "nat limit - length out = Suc (nat limit - Suc (length out))" by linarith
    with 2 False show ?thesis by simp
  qed
qed simp

definition batch_size :: "int \<Rightarrow> nat" where
  "batch_size limit = nat (if limit \<le> 0 then 100 else limit)"

lemma batch_size_pos [simp]: "0 < batch_size n"
  by (simp add: batch_size_def)

text \<open>The rows not yet read, in order.\<close>

definition after :: "OutboxCursor \<Rightarrow> OutboxRecord list \<Rightarrow> OutboxRecord list" where
  "after c rows = filter (cursorBefore c) (in_order rows)"

lemma ReadAfter_eq: "ReadAfter c limit rows = take (batch_size limit) (after c rows)"
  by (simp add: ReadAfter_def read_scan_eq after_def batch_size_def)

text \<open>The premise under which cursor positions identify rows: no two rows share time and id, and no row is at the zero
  position, which stands for the start of the stream.\<close>

definition rows_ok :: "OutboxRecord list \<Rightarrow> bool" where
  "rows_ok rows \<longleftrightarrow> distinct (map rank rows) \<and> list_all (\<lambda>r. rank r \<noteq> (0, [])) rows"

lemma not_zero_pos: "rows_ok rows \<Longrightarrow> r \<in> set rows \<Longrightarrow> \<not> cursor_IsZero (pos_of r)"
  by (auto simp: rows_ok_def list_all_iff cursor_IsZero_def time_is_zero_def pos_of_def rank_def)

lemma strict_in_order: "rows_ok rows \<Longrightarrow> sorted_wrt (<) (map rank (in_order rows))"
proof -
  assume "rows_ok rows"
  then have "distinct (map rank (in_order rows))"
    by (metis in_order_props(3) mset_eq_imp_distinct_iff mset_map rows_ok_def)
  then show ?thesis by (simp add: strict_sorted_iff)
qed

lemma strict_after: "rows_ok rows \<Longrightarrow> sorted_wrt (\<lambda>a b. rank a < rank b) (after c rows)"
  using strict_in_order [of rows] by (simp add: after_def sorted_wrt_filter sorted_wrt_map)

text \<open>Moving the cursor to a row drops that row and the ones before it, and nothing else.\<close>

lemma filter_sorted_split:
  assumes "sorted_wrt (\<lambda>a b. rank a < rank b) (xs @ r # ys)"
  shows "filter (\<lambda>x. rank r < rank x) (xs @ r # ys) = ys"
proof -
  have "\<forall>x\<in>set xs. \<not> rank r < rank x" "\<forall>y\<in>set ys. rank r < rank y"
    using assms by (auto simp: sorted_wrt_append)
  then show ?thesis by simp
qed

lemma after_advance:
  assumes ok: "rows_ok rows" and split: "after c rows = xs @ r # ys"
  shows "after (pos_of r) rows = ys"
proof -
  have "r \<in> set (after c rows)" using split by simp
  then have mem: "r \<in> set rows" and c: "cursorBefore c r" by (simp_all add: after_def)
  have "after (pos_of r) rows = filter (\<lambda>x. rank r < rank x) (in_order rows)"
    unfolding after_def by (rule filter_cong) (use ok mem in \<open>simp_all add: cursorBefore_rank not_zero_pos\<close>)
  also have "\<dots> = filter (\<lambda>x. rank r < rank x) (after c rows)"
    unfolding after_def filter_filter by (rule filter_cong) (use c in \<open>auto simp: cursorBefore_rank\<close>)
  also have "\<dots> = ys" using strict_after [OF ok, of c] split by (simp only: filter_sorted_split)
  finally show ?thesis .
qed

lemma after_zero [simp]: "after zero_cursor rows = in_order rows"
proof -
  have "cursorBefore zero_cursor r" for r
    by (simp add: cursorBefore_rank zero_cursor_def cursor_IsZero_def time_is_zero_def)
  then show ?thesis by (simp add: after_def)
qed

lemma load_save [simp]:
  "LoadCursor name (SaveCursor name' c n s) = (if name = name' then (c, n) else LoadCursor name s)"
  "dead (SaveCursor name' c n s) = dead s"
  by (simp_all add: LoadCursor_def SaveCursor_def)

lemma load_dead [simp]:
  "LoadCursor name (DeadLetter name' r w s) = LoadCursor name s"
  "dead (DeadLetter name' r w s) = dead s @ [letter name' r w]"
  by (simp_all add: LoadCursor_def DeadLetter_def)

end
