(* ===== verification/Events_Relay.thy ===== *)
theory Events_Relay
  imports Persist_Outbox
begin

text \<open>
  From the outbox to the bus (\<^verbatim>\<open>src/events/events.go\<close>, \<^verbatim>\<open>bus.go\<close>, \<^verbatim>\<open>leader.go\<close>, \<^verbatim>\<open>relay.go\<close>). The relay is written over
  a record of the store operations it calls; \<open>NewRelay\<close> builds it over the in-memory stores and an arbitrary transport.
\<close>

section \<open>Events and messages\<close>

record Event =
  evID :: string
  evType :: string
  evAggregateType :: string
  evAggregateID :: string
  evAccountID :: string
  evPayload :: string
  evSeq :: int
  evEpoch :: int

record BusMessage =
  Key :: string
  msgEvent :: Event

definition busTopicForEvent :: "Event \<Rightarrow> string" where
  "busTopicForEvent evt = evType evt"

definition busKeyForEvent :: "Event \<Rightarrow> string" where
  "busKeyForEvent evt = (if evAggregateID evt \<noteq> [] then evAggregateID evt else evAggregateType evt)"

definition eventFromRecord :: "OutboxRecord \<Rightarrow> Event" where
  "eventFromRecord rec =
     \<lparr>evID = ID rec, evType = EventType rec, evAggregateType = AggregateType rec, evAggregateID = AggregateID rec,
      evAccountID = AccountID rec, evPayload = Payload rec, evSeq = EventSeq rec, evEpoch = EventEpoch rec\<rparr>"

text \<open>
  \<^verbatim>\<open>OutboxPublisher.Publish\<close>, with the UUID it may draw and the publisher's clock as arguments. The outbox is participant
  \<open>ob\<close> of a world of transaction participants, which are outboxes, stores of idempotency markers or the application's
  aggregates.
\<close>

definition outbox_row :: "string \<Rightarrow> go_time \<Rightarrow> ctx \<Rightarrow> Event \<Rightarrow> OutboxRecord" where
  "outbox_row uuid tnow c evt =
     \<lparr>ID = (if evID evt = [] then uuid else evID evt),
      AccountID = (if evAccountID evt = [] then TenantIDFromContext c else evAccountID evt),
      AggregateType = evAggregateType evt, AggregateID = evAggregateID evt, EventType = evType evt,
      Payload = evPayload evt, CreatedTime = tnow, EventSeq = 0, EventEpoch = 0\<rparr>"

record idemMarker =
  markerKey :: string

datatype 'a part = Outbox "OutboxRecord list" | Markers "(idemMarker, string) MemoryRepository" | Aggregate 'a

fun rows_of :: "'a part \<Rightarrow> OutboxRecord list" where
  "rows_of (Outbox rs) = rs"
| "rows_of _ = []"

definition Publish :: "nat \<Rightarrow> string \<Rightarrow> go_time \<Rightarrow> go_time \<Rightarrow> ctx \<Rightarrow> Event \<Rightarrow> ('a part, 'z) txw_scheme
    \<Rightarrow> outcome \<times> ('a part, 'z) txw_scheme" where
  "Publish ob uuid tnow tstore c evt w =
     (case RequireTx c of
        Some e \<Rightarrow> (Failed e, w)
      | None \<Rightarrow>
          (case outbox_Append ob tstore c (outbox_row uuid tnow c evt) (rows_of (store w ob)) of
             (None, _, rows) \<Rightarrow> (Done, w\<lparr>store := (store w)(ob := Outbox rows)\<rparr>)
           | (Some e, _, _) \<Rightarrow> (Failed e, w)))"

section \<open>Leader election\<close>

text \<open>\<open>SingleProcessLeader\<close>: the state of its one-place channel, \<open>True\<close> when it is full.\<close>

definition spl_TryAcquire :: "bool \<Rightarrow> bool \<times> bool" where
  "spl_TryAcquire full = (if full then (False, full) else (True, True))"

definition spl_Release :: "bool \<Rightarrow> bool" where
  "spl_Release full = (if full then False else full)"

section \<open>The relay\<close>

record 's Relay =
  relay_ReadAfter :: "OutboxCursor \<Rightarrow> int \<Rightarrow> 's \<Rightarrow> perr + OutboxRecord list"
  relay_LoadCursor :: "string \<Rightarrow> 's \<Rightarrow> perr + OutboxCursor \<times> int"
  relay_SaveCursor :: "string \<Rightarrow> OutboxCursor \<Rightarrow> int \<Rightarrow> 's \<Rightarrow> perr option \<times> 's"
  relay_DeadLetter :: "string \<Rightarrow> OutboxRecord \<Rightarrow> string \<Rightarrow> 's \<Rightarrow> perr option \<times> 's"
  relay_Publish :: "string \<Rightarrow> BusMessage \<Rightarrow> 's \<Rightarrow> perr option \<times> 's"
  relay_TryAcquire :: "'s \<Rightarrow> (perr + bool) \<times> 's"
  relay_Release :: "'s \<Rightarrow> 's"
  cursorName :: string
  topicOf :: "Event \<Rightarrow> string"
  keyOf :: "Event \<Rightarrow> string"
  maxAttempts :: int

definition WithRelayCursorName :: "string \<Rightarrow> 's Relay \<Rightarrow> 's Relay" where
  "WithRelayCursorName name r = (if name \<noteq> [] then r\<lparr>cursorName := name\<rparr> else r)"

definition WithRelayMaxAttempts :: "int \<Rightarrow> 's Relay \<Rightarrow> 's Relay" where
  "WithRelayMaxAttempts n r = (if n > 0 then r\<lparr>maxAttempts := n\<rparr> else r)"

definition WithRelayTopicMapper :: "(Event \<Rightarrow> string) option \<Rightarrow> 's Relay \<Rightarrow> 's Relay" where
  "WithRelayTopicMapper fn r = (case fn of Some f \<Rightarrow> r\<lparr>topicOf := f\<rparr> | None \<Rightarrow> r)"

definition WithRelayKeyMapper :: "(Event \<Rightarrow> string) option \<Rightarrow> 's Relay \<Rightarrow> 's Relay" where
  "WithRelayKeyMapper fn r = (case fn of Some f \<Rightarrow> r\<lparr>keyOf := f\<rparr> | None \<Rightarrow> r)"

definition WithRelayLeader :: "(('s \<Rightarrow> (perr + bool) \<times> 's) \<times> ('s \<Rightarrow> 's)) option \<Rightarrow> 's Relay \<Rightarrow> 's Relay" where
  "WithRelayLeader l r = (case l of Some (acq, rel) \<Rightarrow> r\<lparr>relay_TryAcquire := acq, relay_Release := rel\<rparr> | None \<Rightarrow> r)"

text \<open>\<^verbatim>\<open>err.Error()\<close>.\<close>

fun perr_Error :: "perr \<Rightarrow> string" where
  "perr_Error (PWrap m e) = m @ '': '' @ perr_Error e"
| "perr_Error (POther m) = m"
| "perr_Error ErrNotFound = ''persistence: not found''"
| "perr_Error ErrConflict = ''persistence: conflict''"
| "perr_Error ErrPreconditionFailed = ''persistence: precondition failed''"
| "perr_Error ErrNoTransaction = ''persistence: no transaction on context''"
| "perr_Error ErrAlreadyApplied = ''events: idempotency key already applied''"
| "perr_Error PanicSliceBounds = ''runtime error: slice bounds out of range''"

definition message :: "'s Relay \<Rightarrow> OutboxRecord \<Rightarrow> string \<times> BusMessage" where
  "message R rec =
     (let evt = eventFromRecord rec in (topicOf R evt, \<lparr>Key = keyOf R evt, msgEvent = evt\<rparr>))"

definition pump_failed :: "'s Relay \<Rightarrow> OutboxRecord \<Rightarrow> perr \<Rightarrow> OutboxCursor \<Rightarrow> int \<Rightarrow> int \<Rightarrow> 's
    \<Rightarrow> (int \<times> perr option) \<times> 's" where
  "pump_failed R rec perr cursor headFailures published s =
     (if headFailures \<ge> maxAttempts R then
        case relay_DeadLetter R (cursorName R) rec (perr_Error perr) s of
          (Some e, s1) \<Rightarrow> ((published, Some (PWrap (''dead-letter '' @ ID rec) e)), s1)
        | (None, s1) \<Rightarrow>
            (case relay_SaveCursor R (cursorName R) (pos_of rec) 0 s1 of
               (Some e, s2) \<Rightarrow> ((published, Some (PWrap (''advance past poison '' @ ID rec) e)), s2)
             | (None, s2) \<Rightarrow>
                 ((published + 1, Some (PWrap (''dead-lettered un-publishable event '' @ ID rec @ '' after '' @ Itoa headFailures @ '' attempts'') perr)), s2))
      else
        case relay_SaveCursor R (cursorName R) cursor headFailures s of
          (Some e, s1) \<Rightarrow> ((published, Some (PWrap ''save head-failure count'' e)), s1)
        | (None, s1) \<Rightarrow> ((published, Some (PWrap (''publish '' @ ID rec) perr)), s1))"

fun pump_batch :: "'s Relay \<Rightarrow> OutboxRecord list \<Rightarrow> OutboxCursor \<Rightarrow> int \<Rightarrow> int \<Rightarrow> 's
    \<Rightarrow> (int \<times> perr option) \<times> 's" where
  "pump_batch R [] cursor headFailures published s = ((published, None), s)"
| "pump_batch R (rec # recs) cursor headFailures published s =
     (case relay_Publish R (fst (message R rec)) (snd (message R rec)) s of
        (Some perr, s1) \<Rightarrow> pump_failed R rec perr cursor (headFailures + 1) published s1
      | (None, s1) \<Rightarrow>
          (case relay_SaveCursor R (cursorName R) (pos_of rec) 0 s1 of
             (Some e, s2) \<Rightarrow> ((published, Some (PWrap (''advance cursor past '' @ ID rec) e)), s2)
           | (None, s2) \<Rightarrow> pump_batch R recs (pos_of rec) 0 (published + 1) s2))"

definition PumpOnce :: "'s Relay \<Rightarrow> int \<Rightarrow> 's \<Rightarrow> (int \<times> perr option) \<times> 's" where
  "PumpOnce R limit s =
     (case relay_LoadCursor R (cursorName R) s of
        Inl e \<Rightarrow> ((0, Some (PWrap ''load cursor'' e)), s)
      | Inr (cursor, headFailures) \<Rightarrow>
          (case relay_ReadAfter R cursor limit s of
             Inl e \<Rightarrow> ((0, Some (PWrap ''read outbox after cursor'' e)), s)
           | Inr batch \<Rightarrow> pump_batch R batch cursor headFailures 0 s))"

text \<open>\<^verbatim>\<open>Run\<close>: one tick of its loop, with the errors it reports, and the whole loop for a context that is cancelled after
  \<open>n\<close> ticks. The release on exit runs whether or not this relay leads.\<close>

definition run_tick :: "'s Relay \<Rightarrow> int \<Rightarrow> bool \<Rightarrow> 's \<Rightarrow> bool \<times> perr list \<times> 's" where
  "run_tick R batch leading s =
     (let pump = (\<lambda>s. case PumpOnce R batch s of ((_, None), s1) \<Rightarrow> (True, [], s1) | ((_, Some e), s1) \<Rightarrow> (True, [e], s1))
      in if leading then pump s
         else case relay_TryAcquire R s of
                (Inl e, s1) \<Rightarrow> (False, [PWrap ''relay leader acquire'' e], s1)
              | (Inr False, s1) \<Rightarrow> (False, [], s1)
              | (Inr True, s1) \<Rightarrow> pump s1)"

fun run_loop :: "'s Relay \<Rightarrow> int \<Rightarrow> nat \<Rightarrow> bool \<Rightarrow> 's \<Rightarrow> perr list \<times> 's" where
  "run_loop R batch 0 leading s = ([], relay_Release R s)"
| "run_loop R batch (Suc n) leading s =
     (case run_tick R batch leading s of
        (leading', es, s1) \<Rightarrow> (case run_loop R batch n leading' s1 of (es', s2) \<Rightarrow> (es @ es', s2)))"

definition Relay_Run :: "'s Relay \<Rightarrow> int \<Rightarrow> nat \<Rightarrow> 's \<Rightarrow> perr list \<times> 's" where
  "Relay_Run R batch n s = run_loop R (if batch \<le> 0 then 100 else batch) n False s"

definition Relay_Cursor :: "'s Relay \<Rightarrow> 's \<Rightarrow> perr + OutboxCursor" where
  "Relay_Cursor R s = (case relay_LoadCursor R (cursorName R) s of Inl e \<Rightarrow> Inl e | Inr (c, _) \<Rightarrow> Inr c)"

text \<open>
  The relay over the in-memory stores. \<open>accepted\<close> is a history of what the bus took, kept for the statements; the
  transport \<open>pub\<close> and what the outbox holds are arbitrary functions of a back-end state.
\<close>

record 'b relay_world =
  sidecar :: MemoryOutboxCursorStore
  accepted :: "(string \<times> BusMessage) list"
  leaderFull :: bool
  backend :: 'b

type_synonym 'b transport = "string \<Rightarrow> BusMessage \<Rightarrow> 'b \<Rightarrow> perr option \<times> 'b"

definition NewRelay :: "('b \<Rightarrow> OutboxRecord list) \<Rightarrow> 'b transport \<Rightarrow> ('b relay_world Relay \<Rightarrow> 'b relay_world Relay) list
    \<Rightarrow> 'b relay_world Relay" where
  "NewRelay orows pub opts = fold (\<lambda>opt r. opt r) opts
     \<lparr>relay_ReadAfter = (\<lambda>c n s. Inr (ReadAfter c n (orows (backend s)))),
      relay_LoadCursor = (\<lambda>name s. Inr (LoadCursor name (sidecar s))),
      relay_SaveCursor = (\<lambda>name c n s. (None, s\<lparr>sidecar := SaveCursor name c n (sidecar s)\<rparr>)),
      relay_DeadLetter = (\<lambda>name rec why s. (None, s\<lparr>sidecar := DeadLetter name rec why (sidecar s)\<rparr>)),
      relay_Publish = (\<lambda>topic msg s.
        case pub topic msg (backend s) of
          (None, b) \<Rightarrow> (None, s\<lparr>backend := b, accepted := accepted s @ [(topic, msg)]\<rparr>)
        | (Some e, b) \<Rightarrow> (Some e, s\<lparr>backend := b\<rparr>)),
      relay_TryAcquire = (\<lambda>s. case spl_TryAcquire (leaderFull s) of (ok, l) \<Rightarrow> (Inr ok, s\<lparr>leaderFull := l\<rparr>)),
      relay_Release = (\<lambda>s. s\<lparr>leaderFull := spl_Release (leaderFull s)\<rparr>),
      cursorName = ''default'', topicOf = busTopicForEvent, keyOf = busKeyForEvent,
      maxAttempts = DefaultMaxOutboxAttempts\<rparr>"

section \<open>What one pump does\<close>

text \<open>
  How a pump over a batch ends: every event was accepted; or the event after the first \<open>j\<close> failed and is kept for a
  retry; or it failed once too often and was dead-lettered. \<open>head_at\<close> is the cursor and failure count after \<open>j\<close>
  accepted events.
\<close>

datatype pump_end = AllSent | Retry | Poison string

definition head_at :: "nat \<Rightarrow> OutboxCursor \<times> int \<Rightarrow> OutboxRecord list \<Rightarrow> OutboxCursor \<times> int" where
  "head_at j p b = (if j = 0 then p else (pos_of (b ! (j - 1)), 0))"

definition pump_ends :: "'s Relay \<Rightarrow> OutboxRecord list \<Rightarrow> OutboxCursor \<times> int \<Rightarrow> nat \<Rightarrow> pump_end \<Rightarrow> int \<times> perr option
    \<Rightarrow> OutboxCursor \<times> int \<Rightarrow> DeadLetterRecord list \<Rightarrow> bool" where
  "pump_ends R b p j e res p' ls =
     (case e of
        AllSent \<Rightarrow> j = length b \<and> res = (int j, None) \<and> p' = head_at j p b \<and> ls = []
      | Retry \<Rightarrow> j < length b \<and> fst res = int j \<and> snd res \<noteq> None \<and> ls = []
          \<and> p' = (fst (head_at j p b), snd (head_at j p b) + 1) \<and> snd p' < maxAttempts R
      | Poison why \<Rightarrow> j < length b \<and> fst res = int j + 1 \<and> snd res \<noteq> None \<and> ls = [letter (cursorName R) (b ! j) why]
          \<and> p' = (pos_of (b ! j), 0) \<and> maxAttempts R \<le> snd (head_at j p b) + 1)"

lemma head_at_Cons: "head_at (Suc j) p (r # b) = head_at j (pos_of r, 0) b"
  by (cases j) (simp_all add: head_at_def)

lemma pump_ends_Cons:
  "pump_ends R b (pos_of r, 0) j e (k, err) p' ls \<Longrightarrow> pump_ends R (r # b) p (Suc j) e (k + 1, err) p' ls"
  by (cases e) (auto simp: pump_ends_def head_at_Cons)

text \<open>What the relay relies on: a cursor store that returns what was saved, an outbox scanned in order, and a bus that
  tells whether it took a message.\<close>

locale relay_stores =
  fixes R :: "'s Relay"
    and rows :: "'s \<Rightarrow> OutboxRecord list"
    and position :: "'s \<Rightarrow> OutboxCursor \<times> int"
    and letters :: "'s \<Rightarrow> DeadLetterRecord list"
    and log :: "'s \<Rightarrow> (string \<times> BusMessage) list"
  assumes load: "relay_LoadCursor R (cursorName R) s = Inr (position s)"
    and read: "relay_ReadAfter R c n s = Inr (ReadAfter c n (rows s))"
    and save: "\<exists>s'. relay_SaveCursor R (cursorName R) c h s = (None, s') \<and> position s' = (c, h)
        \<and> letters s' = letters s \<and> log s' = log s \<and> rows s' = rows s"
    and bury: "\<exists>s'. relay_DeadLetter R (cursorName R) r why s = (None, s') \<and> position s' = position s
        \<and> letters s' = letters s @ [letter (cursorName R) r why] \<and> log s' = log s \<and> rows s' = rows s"
    and publish: "relay_Publish R t m s = (e, s') \<Longrightarrow> position s' = position s \<and> letters s' = letters s
        \<and> log s' = (if e = None then log s @ [(t, m)] else log s)"
begin

lemma failed_ends:
  assumes "position s = (c, h)"
  shows "\<exists>e k err s' ls. pump_failed R r perr c (h + 1) n s = ((n + k, err), s')
    \<and> pump_ends R (r # b) (c, h) 0 e (k, err) (position s') ls
    \<and> log s' = log s \<and> letters s' = letters s @ ls \<and> rows s' = rows s"
proof (cases "maxAttempts R \<le> h + 1")
  case True
  obtain s1 where s1: "relay_DeadLetter R (cursorName R) r (perr_Error perr) s = (None, s1)"
    "letters s1 = letters s @ [letter (cursorName R) r (perr_Error perr)]" "log s1 = log s" "rows s1 = rows s"
    using bury [of r "perr_Error perr" s] by auto
  obtain s2 where s2: "relay_SaveCursor R (cursorName R) (pos_of r) 0 s1 = (None, s2)" "position s2 = (pos_of r, 0)"
    "letters s2 = letters s1" "log s2 = log s1" "rows s2 = rows s1"
    using save [of "pos_of r" 0 s1] by auto
  let ?e = "Poison (perr_Error perr)"
  show ?thesis
    by (rule exI [of _ ?e], rule exI [of _ 1]) (use True s1 s2 in \<open>simp add: pump_failed_def pump_ends_def head_at_def\<close>)
next
  case False
  obtain s1 where s1: "relay_SaveCursor R (cursorName R) c (h + 1) s = (None, s1)" "position s1 = (c, h + 1)"
    "letters s1 = letters s" "log s1 = log s" "rows s1 = rows s"
    using save [of c "h + 1" s] by auto
  show ?thesis
    by (rule exI [of _ Retry], rule exI [of _ 0]) (use False s1 in \<open>simp add: pump_failed_def pump_ends_def head_at_def\<close>)
qed

lemma batch_ends:
  "position s = (c, h) \<Longrightarrow> \<exists>j e k err s' ls. pump_batch R b c h n s = ((n + k, err), s')
    \<and> pump_ends R b (c, h) j e (k, err) (position s') ls
    \<and> log s' = log s @ map (message R) (take j b) \<and> letters s' = letters s @ ls"
proof (induction b arbitrary: c h n s)
  case Nil
  show ?case by (rule exI [of _ 0], rule exI [of _ AllSent]) (simp add: pump_ends_def head_at_def Nil)
next
  case (Cons r b)
  obtain e s1 where p: "relay_Publish R (fst (message R r)) (snd (message R r)) s = (e, s1)" by fastforce
  note p1 = publish [OF p]
  show ?case
  proof (cases e)
    case (Some perr)
    obtain e' k err s' ls where f: "pump_failed R r perr c (h + 1) n s1 = ((n + k, err), s')"
      "pump_ends R (r # b) (c, h) 0 e' (k, err) (position s') ls" "log s' = log s1" "letters s' = letters s1 @ ls"
      using failed_ends [of s1 c h r perr n b] p1 Cons.prems by auto
    have "pump_batch R (r # b) c h n s = ((n + k, err), s')" using p Some f(1) by simp
    moreover have "log s' = log s @ map (message R) (take 0 (r # b))" "letters s' = letters s @ ls"
      using f(3,4) p1 Some by simp_all
    ultimately show ?thesis using f(2) by blast
  next
    case None
    obtain s2 where s2: "relay_SaveCursor R (cursorName R) (pos_of r) 0 s1 = (None, s2)" "position s2 = (pos_of r, 0)"
      "letters s2 = letters s1" "log s2 = log s1" using save [of "pos_of r" 0 s1] by auto
    obtain j e' k err s' ls where ih: "pump_batch R b (pos_of r) 0 (n + 1) s2 = ((n + 1 + k, err), s')"
      "pump_ends R b (pos_of r, 0) j e' (k, err) (position s') ls"
      "log s' = log s2 @ map (message R) (take j b)" "letters s' = letters s2 @ ls"
      using Cons.IH [OF s2(2), of "n + 1"] by auto
    have "pump_batch R (r # b) c h n s = ((n + (k + 1), err), s')" using p None s2(1) ih(1) by (simp add: add.assoc add.commute)
    moreover have "log s' = log s @ map (message R) (take (Suc j) (r # b))" "letters s' = letters s @ ls"
      using ih(3,4) s2(3,4) p1 None by simp_all
    ultimately show ?thesis using pump_ends_Cons [OF ih(2), of "(c, h)"] by blast
  qed
qed

lemma pump_ends_once:
  "\<exists>j e res s' ls. PumpOnce R limit s = (res, s')
    \<and> pump_ends R (ReadAfter (fst (position s)) limit (rows s)) (position s) j e res (position s') ls
    \<and> log s' = log s @ map (message R) (take j (ReadAfter (fst (position s)) limit (rows s)))
    \<and> letters s' = letters s @ ls"
proof -
  obtain c h where p: "position s = (c, h)" by fastforce
  from batch_ends [OF p, of "ReadAfter c limit (rows s)" 0]
  show ?thesis by (auto simp: PumpOnce_def load read p)
qed

end

section \<open>Draining the outbox\<close>

lemma shuffles_append: "u \<in> shuffles a b \<Longrightarrow> v \<in> shuffles c d \<Longrightarrow> u @ v \<in> shuffles (a @ c) (b @ d)"
proof (induction a b arbitrary: u rule: shuffles.induct)
  case (1 ys)
  then have "u = ys" by simp
  with \<open>v \<in> shuffles c d\<close> show ?case by (induction ys arbitrary: u) (auto simp: Cons_in_shuffles_rightI)
next
  case (2 xs)
  then have "u = xs" by simp
  with \<open>v \<in> shuffles c d\<close> show ?case by (induction xs arbitrary: u) (auto simp: Cons_in_shuffles_leftI)
next
  case (3 x xs y ys)
  then consider w where "u = x # w" "w \<in> shuffles xs (y # ys)" | w where "u = y # w" "w \<in> shuffles (x # xs) ys" by auto
  then show ?case
  proof cases
    case 1
    then show ?thesis using 3 Cons_in_shuffles_leftI [of "w @ v" "xs @ c" "(y # ys) @ d" x] by simp
  next
    case 2
    then show ?thesis using 3 Cons_in_shuffles_rightI [of "w @ v" "(x # xs) @ c" "ys @ d" y] by simp
  qed
qed

text \<open>How far the cursor moved: by the accepted events, and past the dead letter.\<close>

definition moved_past :: "nat \<Rightarrow> pump_end \<Rightarrow> nat" where
  "moved_past j e = (case e of Poison _ \<Rightarrow> Suc j | _ \<Rightarrow> j)"

definition buried :: "nat \<Rightarrow> pump_end \<Rightarrow> OutboxRecord list \<Rightarrow> OutboxRecord list" where
  "buried j e b = (case e of Poison _ \<Rightarrow> [b ! j] | _ \<Rightarrow> [])"

lemma ends_cursor:
  assumes "pump_ends R b p j e res p' ls"
  shows "moved_past j e \<le> length b" "fst p' = fst (head_at (moved_past j e) p b)"
    "map Position ls = map pos_of (buried j e b)" "take (moved_past j e) b \<in> shuffles (take j b) (buried j e b)"
proof -
  have "take j b @ [b ! j] \<in> shuffles (take j b) [b ! j]"
    using shuffles_append [of "take j b" "take j b" "[]" "[b ! j]" "[]" "[b ! j]"] by simp
  then show "moved_past j e \<le> length b" "fst p' = fst (head_at (moved_past j e) p b)"
    "map Position ls = map pos_of (buried j e b)" "take (moved_past j e) b \<in> shuffles (take j b) (buried j e b)"
    using assms by (cases e; simp add: pump_ends_def moved_past_def buried_def head_at_def letter_def take_Suc_conv_app_nth)+
qed

text \<open>The work left: the pumps that can still fail before every row after the cursor is resolved.\<close>

definition work :: "int \<Rightarrow> nat \<Rightarrow> int \<Rightarrow> nat" where
  "work A n h = nat (A * int n - h)"

lemma ends_work:
  assumes "pump_ends R b p j e res p' ls" "length b \<le> m" "b \<noteq> []" "0 \<le> snd p" "snd p < maxAttempts R"
  shows "0 \<le> snd p' \<and> snd p' < maxAttempts R \<and> work (maxAttempts R) (m - moved_past j e) (snd p') < work (maxAttempts R) m (snd p)"
proof -
  let ?A = "maxAttempts R" and ?k = "moved_past j e"
  have k: "?k \<le> m" using ends_cursor(1) [OF assms(1)] assms(2) by simp
  have ok: "0 \<le> snd p' \<and> snd p' < ?A"
    using assms by (cases e) (auto simp: pump_ends_def head_at_def split: if_splits)
  have up: "?k = 0 \<Longrightarrow> snd p' = snd p + 1"
    using assms(1,3) by (cases e) (auto simp: pump_ends_def moved_past_def head_at_def)
  have "?A * int (m - ?k) - snd p' < ?A * int m - snd p"
  proof (cases "?k = 0")
    case False
    have "?A * int (m - ?k) = ?A * int m - ?A * int ?k" using k by (simp add: of_nat_diff algebra_simps)
    moreover have "?A * 1 \<le> ?A * int ?k" using False assms(4,5) by (intro mult_left_mono) auto
    ultimately show ?thesis using ok assms(5) by linarith
  qed (use up in simp)
  moreover have "0 < ?A * int m - snd p"
  proof -
    have "?A * 1 \<le> ?A * int m" using assms by (intro mult_left_mono) (auto simp: Suc_le_eq neq_Nil_conv)
    then show ?thesis using assms(5) by linarith
  qed
  ultimately show ?thesis using ok by (auto simp: work_def)
qed

locale quiet_stores = relay_stores +
  assumes publish_rows: "rows (snd (relay_Publish R t m s)) = rows s"
begin

lemma batch_rows: "rows (snd (pump_batch R b c h n s)) = rows s"
proof (induction b arbitrary: c h n s)
  case (Cons r b)
  obtain e s1 where p: "relay_Publish R (fst (message R r)) (snd (message R r)) s = (e, s1)" by fastforce
  have s1: "rows s1 = rows s" using publish_rows [of "fst (message R r)" "snd (message R r)" s] p by simp
  show ?case
  proof (cases e)
    case (Some perr)
    obtain c' h' where "position s1 = (c', h')" by fastforce
    have "rows (snd (pump_failed R r perr c (h + 1) n s1)) = rows s1"
    proof (cases "maxAttempts R \<le> h + 1")
      case True
      obtain s2 where "relay_DeadLetter R (cursorName R) r (perr_Error perr) s1 = (None, s2)" "rows s2 = rows s1"
        using bury by blast
      moreover obtain s3 where "relay_SaveCursor R (cursorName R) (pos_of r) 0 s2 = (None, s3)" "rows s3 = rows s2"
        using save by blast
      ultimately show ?thesis using True by (simp add: pump_failed_def)
    next
      case False
      obtain s2 where "relay_SaveCursor R (cursorName R) c (h + 1) s1 = (None, s2)" "rows s2 = rows s1"
        using save by blast
      then show ?thesis using False by (simp add: pump_failed_def)
    qed
    then show ?thesis using p Some s1 by simp
  next
    case None
    obtain s2 where "relay_SaveCursor R (cursorName R) (pos_of r) 0 s1 = (None, s2)" "rows s2 = rows s1"
      using save by blast
    then show ?thesis using p None s1 Cons.IH [of "pos_of r" 0 "n + 1" s2] by simp
  qed
qed simp

lemma pump_rows: "rows (snd (PumpOnce R limit s)) = rows s"
  by (cases "position s") (simp add: PumpOnce_def load read batch_rows)

definition todo where
  "todo s = after (fst (position s)) (rows s)"

lemma pump_step:
  assumes "rows_ok (rows s)"
  shows "\<exists>j e ls. let s' = snd (PumpOnce R limit s); b = ReadAfter (fst (position s)) limit (rows s)
    in pump_ends R b (position s) j e (fst (PumpOnce R limit s)) (position s') ls
      \<and> todo s = take (moved_past j e) b @ todo s' \<and> length (todo s') = length (todo s) - moved_past j e
      \<and> log s' = log s @ map (message R) (take j b) \<and> letters s' = letters s @ ls"
proof -
  let ?b = "ReadAfter (fst (position s)) limit (rows s)"
  obtain j e res s' ls where p: "PumpOnce R limit s = (res, s')"
    "pump_ends R ?b (position s) j e res (position s') ls"
    "log s' = log s @ map (message R) (take j ?b)" "letters s' = letters s @ ls"
    using pump_ends_once by blast
  let ?k = "moved_past j e"
  have rows': "rows s' = rows s" using pump_rows [of limit s] p(1) by simp
  have b: "?b = take (batch_size limit) (todo s)" by (simp add: ReadAfter_eq todo_def)
  have k: "?k \<le> length ?b" by (rule ends_cursor(1) [OF p(2)])
  then have kt: "take ?k ?b = take ?k (todo s)" "?k \<le> length (todo s)" by (auto simp: b min.absorb1)
  have "todo s' = drop ?k (todo s)"
  proof (cases "?k = 0")
    case True
    then show ?thesis using ends_cursor(2) [OF p(2)] rows' by (simp add: todo_def head_at_def)
  next
    case False
    let ?r = "todo s ! (?k - 1)"
    have "todo s = take (?k - 1) (todo s) @ ?r # drop ?k (todo s)"
      using False kt(2) id_take_nth_drop [of "?k - 1" "todo s"] by simp
    moreover have "?k - 1 < batch_size limit" using False k b by auto
    then have "?b ! (?k - 1) = ?r" unfolding b by simp
    ultimately have hd_r: "todo s = take (?k - 1) (todo s) @ ?b ! (?k - 1) # drop ?k (todo s)" by simp
    have "fst (position s') = pos_of (?b ! (?k - 1))" using ends_cursor(2) [OF p(2)] False by (simp add: head_at_def)
    then show ?thesis
      using after_advance [OF assms, of "fst (position s)" "take (?k - 1) (todo s)" "?b ! (?k - 1)" "drop ?k (todo s)"] rows' hd_r
      by (simp add: todo_def)
  qed
  then show ?thesis using p kt by (intro exI [of _ j] exI [of _ e] exI [of _ ls]) (simp add: Let_def)
qed

definition accounted where
  "accounted s s' \<longleftrightarrow> (\<exists>xs sn dn ls. todo s = xs @ todo s' \<and> xs \<in> shuffles sn dn
     \<and> log s' = log s @ map (message R) sn \<and> letters s' = letters s @ ls \<and> map Position ls = map pos_of dn)"

lemma accounted_refl: "accounted s s"
  unfolding accounted_def by (rule exI [of _ "[]"], rule exI [of _ "[]"], rule exI [of _ "[]"], rule exI [of _ "[]"]) simp

lemma accounted_trans: "accounted s1 s2 \<Longrightarrow> accounted s2 s3 \<Longrightarrow> accounted s1 s3"
proof -
  assume "accounted s1 s2" "accounted s2 s3"
  then obtain d sn dn ls d' sn' dn' ls' where
    "todo s1 = d @ todo s2" "d \<in> shuffles sn dn" "log s2 = log s1 @ map (message R) sn" "letters s2 = letters s1 @ ls"
    "map Position ls = map pos_of dn" "todo s2 = d' @ todo s3" "d' \<in> shuffles sn' dn'"
    "log s3 = log s2 @ map (message R) sn'" "letters s3 = letters s2 @ ls'" "map Position ls' = map pos_of dn'"
    unfolding accounted_def by blast
  then show ?thesis unfolding accounted_def
    by (intro exI [of _ "d @ d'"] exI [of _ "sn @ sn'"] exI [of _ "dn @ dn'"] exI [of _ "ls @ ls'"]) (simp add: shuffles_append)
qed

lemma pump_progress:
  assumes "rows_ok (rows s)" "0 \<le> snd (position s)" "snd (position s) < maxAttempts R"
  shows "let s' = snd (PumpOnce R limit s)
    in accounted s s' \<and> 0 \<le> snd (position s') \<and> snd (position s') < maxAttempts R
      \<and> (work (maxAttempts R) (length (todo s')) (snd (position s')) < work (maxAttempts R) (length (todo s)) (snd (position s))
         \<or> todo s' = [])"
proof -
  let ?s' = "snd (PumpOnce R limit s)" and ?b = "ReadAfter (fst (position s)) limit (rows s)"
  obtain j e ls where p: "pump_ends R ?b (position s) j e (fst (PumpOnce R limit s)) (position ?s') ls"
    "todo s = take (moved_past j e) ?b @ todo ?s'" "length (todo ?s') = length (todo s) - moved_past j e"
    "log ?s' = log s @ map (message R) (take j ?b)" "letters ?s' = letters s @ ls"
    using pump_step [OF assms(1), of limit] unfolding Let_def by blast
  have acc: "accounted s ?s'" unfolding accounted_def using p(2,4,5) ends_cursor(3,4) [OF p(1)] by blast
  show ?thesis
  proof (cases "?b = []")
    case True
    then have "todo s = []" using batch_size_pos [of limit] by (simp add: ReadAfter_eq todo_def del: batch_size_pos)
    moreover have "position ?s' = position s"
      using p(1) True by (cases e) (auto simp: pump_ends_def head_at_def)
    ultimately show ?thesis using acc p(2) assms by (simp add: Let_def)
  next
    case False
    have "length ?b \<le> length (todo s)" by (simp add: ReadAfter_eq todo_def)
    from ends_work [OF p(1) this False assms(2,3)] show ?thesis using acc p(3) by (simp add: Let_def)
  qed
qed

lemma drained:
  assumes "rows_ok (rows s)" "0 \<le> snd (position s)" "snd (position s) < maxAttempts R"
    and "work (maxAttempts R) (length (todo s)) (snd (position s)) \<le> n"
  shows "let s' = ((\<lambda>s. snd (PumpOnce R limit s)) ^^ n) s in accounted s s' \<and> todo s' = []"
  using assms
proof (induction n arbitrary: s)
  case 0
  have "maxAttempts R * int (length (todo s)) \<le> snd (position s)" using "0.prems"(4) by (simp add: work_def)
  then have "todo s = []"
  proof (rule contrapos_pp)
    assume "todo s \<noteq> []"
    then have "maxAttempts R * 1 \<le> maxAttempts R * int (length (todo s))"
      using "0.prems"(2,3) by (intro mult_left_mono) (auto simp: Suc_le_eq neq_Nil_conv)
    then show "\<not> maxAttempts R * int (length (todo s)) \<le> snd (position s)" using "0.prems"(3) by linarith
  qed
  then show ?case by (simp add: accounted_refl Let_def)
next
  case (Suc n)
  let ?s1 = "snd (PumpOnce R limit s)"
  have p: "accounted s ?s1" "0 \<le> snd (position ?s1)" "snd (position ?s1) < maxAttempts R"
    "work (maxAttempts R) (length (todo ?s1)) (snd (position ?s1)) < work (maxAttempts R) (length (todo s)) (snd (position s)) \<or> todo ?s1 = []"
    using pump_progress [OF Suc.prems(1-3), of limit] by (simp_all add: Let_def)
  have "work (maxAttempts R) (length (todo ?s1)) (snd (position ?s1)) \<le> n"
    using p(2,4) Suc.prems(4) by (auto simp: work_def)
  moreover have "rows_ok (rows ?s1)" using Suc.prems(1) by (simp add: pump_rows)
  ultimately have "let s' = ((\<lambda>s. snd (PumpOnce R limit s)) ^^ n) ?s1 in accounted ?s1 s' \<and> todo s' = []"
    using p(2,3) by (intro Suc.IH)
  then show ?case using p(1) accounted_trans by (auto simp: Let_def funpow_Suc_right simp del: funpow.simps)
qed

lemma drains:
  assumes "rows_ok (rows s)" "position s = (c, h)" "0 \<le> h" "h < maxAttempts R"
    and "nat (maxAttempts R) * length (after c (rows s)) \<le> k"
  shows "\<exists>sn dn ls s'. s' = ((\<lambda>s. snd (PumpOnce R limit s)) ^^ k) s
    \<and> after c (rows s) \<in> shuffles sn dn
    \<and> log s' = log s @ map (message R) sn
    \<and> letters s' = letters s @ ls \<and> map Position ls = map pos_of dn
    \<and> after (fst (position s')) (rows s') = []"
proof -
  let ?t = "after c (rows s)" and ?s' = "((\<lambda>s. snd (PumpOnce R limit s)) ^^ k) s"
  have "work (maxAttempts R) (length ?t) h \<le> nat (maxAttempts R * int (length ?t))" using assms(3) by (simp add: work_def)
  also have "\<dots> = nat (maxAttempts R) * length ?t" using assms(3,4) by (simp add: nat_mult_distrib)
  finally have w: "work (maxAttempts R) (length ?t) h \<le> k" using assms(5) by simp
  have "let s' = ?s' in accounted s s' \<and> todo s' = []"
    by (rule drained) (use assms w in \<open>simp_all add: todo_def\<close>)
  then have "accounted s ?s'" and t: "todo ?s' = []" by (simp_all add: Let_def)
  then obtain xs sn dn ls where a: "todo s = xs @ todo ?s'" "xs \<in> shuffles sn dn" "log ?s' = log s @ map (message R) sn"
    "letters ?s' = letters s @ ls" "map Position ls = map pos_of dn"
    unfolding accounted_def by blast
  have "?t \<in> shuffles sn dn" using a(1,2) t assms(2) by (simp add: todo_def)
  then show ?thesis using a(3-5) t unfolding todo_def by blast
qed

end

section \<open>The relay over the in-memory stores\<close>

abbreviation mem_relay :: "('b \<Rightarrow> OutboxRecord list) \<Rightarrow> 'b transport \<Rightarrow> string \<Rightarrow> int \<Rightarrow> 'b relay_world Relay" where
  "mem_relay orows pub name n \<equiv> NewRelay orows pub [WithRelayCursorName name, WithRelayMaxAttempts n]"

abbreviation relay_position :: "'b relay_world Relay \<Rightarrow> 'b relay_world \<Rightarrow> OutboxCursor \<times> int" where
  "relay_position R s \<equiv> LoadCursor (cursorName R) (sidecar s)"

lemma mem_relay_ops [simp]:
  "relay_LoadCursor (mem_relay orows pub name n) nm s = Inr (LoadCursor nm (sidecar s))"
  "relay_ReadAfter (mem_relay orows pub name n) c l s = Inr (ReadAfter c l (orows (backend s)))"
  "relay_SaveCursor (mem_relay orows pub name n) nm c h s = (None, s\<lparr>sidecar := SaveCursor nm c h (sidecar s)\<rparr>)"
  "relay_DeadLetter (mem_relay orows pub name n) nm r why s = (None, s\<lparr>sidecar := DeadLetter nm r why (sidecar s)\<rparr>)"
  "relay_Publish (mem_relay orows pub name n) t m s =
    (case pub t m (backend s) of
       (None, b) \<Rightarrow> (None, s\<lparr>backend := b, accepted := accepted s @ [(t, m)]\<rparr>)
     | (Some e, b) \<Rightarrow> (Some e, s\<lparr>backend := b\<rparr>))"
  "0 < maxAttempts (mem_relay orows pub name n)"
  by (simp_all add: NewRelay_def WithRelayCursorName_def WithRelayMaxAttempts_def DefaultMaxOutboxAttempts_def)

interpretation mem: relay_stores "mem_relay orows pub name n" "\<lambda>s. orows (backend s)"
  "relay_position (mem_relay orows pub name n)" "\<lambda>s. dead (sidecar s)" accepted
  for orows pub name n
  by unfold_locales (auto split: prod.splits option.splits)

text \<open>A transport that leaves the outbox alone, such as an asynchronous bus.\<close>

lemma mem_quiet:
  assumes "\<And>t m b. orows (snd (pub t m b)) = orows b"
  shows "quiet_stores (mem_relay orows pub name n) (\<lambda>s. orows (backend s))
    (relay_position (mem_relay orows pub name n)) (\<lambda>s. dead (sidecar s)) accepted"
proof -
  have q: "orows b' = orows b" if "pub t m b = (e, b')" for t m b e b' using assms [of t m b] that by simp
  show ?thesis by unfold_locales (auto dest: q split: prod.splits option.splits)
qed

definition beside :: "'t transport \<Rightarrow> (OutboxRecord list \<times> 't) transport" where
  "beside pub t m b = (case pub t m (snd b) of (e, t') \<Rightarrow> (e, (fst b, t')))"

interpretation async: quiet_stores "mem_relay fst (beside pub) name n" "\<lambda>s. fst (backend s)"
  "relay_position (mem_relay fst (beside pub) name n)" "\<lambda>s. dead (sidecar s)" accepted
  for pub name n
  by (rule mem_quiet) (simp add: beside_def split: prod.split)

section \<open>Properties\<close>

text \<open>a pump never skips an event. Whatever the bus does, \<open>PumpOnce\<close> takes the next batch after the cursor, the bus accepts
  its first \<open>j\<close> events in order, and the pump ends in one of three ways: all were accepted; the next one failed, the
  cursor stops before it and its failure count, still below the limit, goes up by one; or it failed for the last time, is
  dead-lettered, and the cursor stops behind it. Nothing else is published or dead-lettered.\<close>

theorem pump_in_order:
  "\<exists>j e res s' ls.
      PumpOnce (mem_relay orows pub name n) limit s = (res, s')
    \<and> pump_ends (mem_relay orows pub name n)
        (ReadAfter (fst (relay_position (mem_relay orows pub name n) s)) limit (orows (backend s)))
        (relay_position (mem_relay orows pub name n) s) j e res (relay_position (mem_relay orows pub name n) s') ls
    \<and> accepted s' = accepted s @ map (message (mem_relay orows pub name n))
        (take j (ReadAfter (fst (relay_position (mem_relay orows pub name n) s)) limit (orows (backend s))))
    \<and> dead (sidecar s') = dead (sidecar s) @ ls"
  by (rule mem.pump_ends_once)

text \<open>C9: the relay drains the outbox. However often the bus fails, after \<open>maxAttempts\<close> pumps for every row after the cursor
  nothing is left to read, and every such row was either accepted by the bus or dead-lettered, exactly once, in the order
  of the outbox.\<close>

theorem relay_drains:
  assumes "rows_ok (fst (backend s))" "relay_position (mem_relay fst (beside pub) name n) s = (c, h)"
    and "0 \<le> h" "h < maxAttempts (mem_relay fst (beside pub) name n)"
    and "nat (maxAttempts (mem_relay fst (beside pub) name n)) * length (after c (fst (backend s))) \<le> k"
  shows "\<exists>sn dn ls s'. s' = ((\<lambda>s. snd (PumpOnce (mem_relay fst (beside pub) name n) limit s)) ^^ k) s
    \<and> after c (fst (backend s)) \<in> shuffles sn dn
    \<and> accepted s' = accepted s @ map (message (mem_relay fst (beside pub) name n)) sn
    \<and> dead (sidecar s') = dead (sidecar s) @ ls \<and> map Position ls = map pos_of dn
    \<and> after (fst (relay_position (mem_relay fst (beside pub) name n) s')) (fst (backend s')) = []"
  by (rule async.drains) (use assms in simp_all)

definition row :: "string \<Rightarrow> go_time \<Rightarrow> OutboxRecord" where
  "row i t = \<lparr>ID = i, AccountID = ''acct'', AggregateType = ''Order'', AggregateID = ''o1'', EventType = ''Changed'',
     Payload = [], CreatedTime = t, EventSeq = 0, EventEpoch = 0\<rparr>"

definition start_world :: "OutboxRecord list \<Rightarrow> (OutboxRecord list \<times> unit) relay_world" where
  "start_world rows = \<lparr>sidecar = NewMemoryOutboxCursorStore, accepted = [], leaderFull = False, backend = (rows, ())\<rparr>"

definition always_down :: "unit transport" where
  "always_down t m b = (Some (POther ''broker down''), b)"

theorem relay_drains_witness:
  "\<exists>sn dn ls s'. s' = ((\<lambda>s. snd (PumpOnce (mem_relay fst (beside always_down) ''relay'' 2) 10 s)) ^^ 2) (start_world [row ''e1'' 5])
    \<and> [row ''e1'' 5] \<in> shuffles sn dn
    \<and> accepted s' = [] @ map (message (mem_relay fst (beside always_down) ''relay'' 2)) sn
    \<and> dead (sidecar s') = [] @ ls \<and> map Position ls = map pos_of dn
    \<and> after (fst (relay_position (mem_relay fst (beside always_down) ''relay'' 2) s')) (fst (backend s')) = []"
proof -
  have "in_order [row ''e1'' 5] = [row ''e1'' 5]" by (simp add: in_order_def)
  then show ?thesis
    using relay_drains [of "start_world [row ''e1'' 5]" always_down "''relay''" 2 zero_cursor 0 2 10]
    by (simp add: start_world_def rows_ok_def row_def rank_def LoadCursor_def NewMemoryOutboxCursorStore_def get_or_def
        NewRelay_def WithRelayCursorName_def WithRelayMaxAttempts_def)
qed

text \<open>the event row commits with the aggregate. In a transaction that enrolls the outbox and whose body changes aggregates,
  publishes an event and goes on, the outbox holds the new row exactly when the transaction succeeds; otherwise the outbox
  and every aggregate are as before.\<close>

theorem event_iff_commit:
  assumes "distinct m" "ob \<in> set m" "\<not> joins m c" "set m \<inter> held w = {}" "tnow \<noteq> 0"
    and "store w ob = Outbox rows"
    and "f (WithTx c (set m)) (w\<lparr>held := set m \<union> held w\<rparr>) = (Done, w1)" "store w1 ob = Outbox rows"
    and "held w1 = set m \<union> held w"
    and "g (WithTx c (set m)) (w1\<lparr>store := (store w1)(ob := Outbox (rows @ [outbox_row uuid tnow (WithTx c (set m)) evt]))\<rparr>) = (out, w2)"
    and "out \<noteq> Blocked" "held w2 = set m \<union> held w"
    and "store w2 ob = Outbox (rows @ [outbox_row uuid tnow (WithTx c (set m)) evt])"
  shows "let r = Atomically m c (and_then f (and_then (\<lambda>c. Publish ob uuid tnow tstore c evt) g)) w
    in fst r = out
      \<and> store (snd r) ob = Outbox (if out = Done then rows @ [outbox_row uuid tnow (WithTx c (set m)) evt] else rows)
      \<and> (\<forall>p\<in>set m. store (snd r) p = (if out = Done then store w2 p else store w p))"
proof -
  let ?c = "WithTx c (set m)" and ?r = "outbox_row uuid tnow (WithTx c (set m)) evt"
  have "Publish ob uuid tnow tstore ?c evt w1 = (Done, w1\<lparr>store := (store w1)(ob := Outbox (rows @ [?r]))\<rparr>)"
    using assms(2,5,8) by (simp add: Publish_def RequireTx_def TxFromContext_def WithTx_def outbox_Append_def inThisTx_def
        outbox_row_def time_is_zero_def Let_def)
  then have "and_then f (and_then (\<lambda>c. Publish ob uuid tnow tstore c evt) g) ?c (enter m w) = (out, w2)"
    using assms(7,10) by (simp add: and_then_def enter_def)
  moreover have "tx_start m c w" using assms by (simp add: tx_start_def)
  ultimately show ?thesis
    using assms(1,2,6,11,13) by (simp add: Atomically_start restore_store Let_def split: outcome.split)
qed

definition shop :: "nat part txw" where
  "shop = \<lparr>store = (\<lambda>p. if p = 0 then Outbox [] else Aggregate 0), held = {}\<rparr>"

definition changed :: Event where
  "changed = \<lparr>evID = ''e1'', evType = ''Changed'', evAggregateType = ''Order'', evAggregateID = ''o1'', evAccountID = ''acct'',
     evPayload = [], evSeq = 0, evEpoch = 0\<rparr>"

theorem event_iff_commit_witness:
  "store (snd (Atomically [0, 1] background
      (and_then (write_part 1 (Aggregate 7)) (and_then (\<lambda>c. Publish 0 ''u'' 5 6 c changed) (fail_with ErrConflict))) shop)) 0 = Outbox []"
proof -
  let ?c = "WithTx background {0, 1}"
  let ?w1 = "shop\<lparr>held := {0, 1}, store := (store shop)(1 := Aggregate 7)\<rparr>"
  let ?w2 = "?w1\<lparr>store := (store ?w1)(0 := Outbox [outbox_row ''u'' 5 ?c changed])\<rparr>"
  have s: "set [0, 1] = {0, 1::nat}" "store shop 0 = Outbox []" "held shop = {}" by (simp_all add: shop_def)
  have f: "write_part 1 (Aggregate 7) ?c (shop\<lparr>held := {0, 1}\<rparr>) = (Done, ?w1)"
    by (simp add: write_part_def locked_op_def inThisTx_def TxFromContext_def WithTx_def shop_def)
  have g: "fail_with ErrConflict ?c ?w2 = (Failed ErrConflict, ?w2)" by (simp add: fail_with_def)
  have "\<not> joins [0, 1] background" by (simp add: joins_def TxFromContext_def background_def)
  then show ?thesis
    using event_iff_commit [of "[0, 1]" 0 background shop 5 "[]" "write_part 1 (Aggregate 7)" ?w1 "fail_with ErrConflict" "''u''" changed
        "Failed ErrConflict" ?w2 6] f g by (simp add: s Let_def)
qed

text \<open>an event that becomes visible behind the cursor is lost. After the relay published a row, a row of the same creation
  time with a smaller id is never read: pumping again resolves nothing and changes nothing.\<close>

definition always_up :: "unit transport" where
  "always_up t m b = (None, b)"

theorem late_row_lost:
  "let R = NewRelay fst (beside always_up) [];
       s1 = snd (PumpOnce R 10 (start_world [row ''b'' 5]));
       s2 = s1\<lparr>backend := ([row ''b'' 5, row ''a'' 5], ())\<rparr>
   in accepted s2 = [message R (row ''b'' 5)] \<and> PumpOnce R 10 s2 = ((0, None), s2)"
proof -
  have o: "in_order [row ''b'' 5] = [row ''b'' 5]" "in_order [row ''b'' 5, row ''a'' 5] = [row ''a'' 5, row ''b'' 5]"
    by (simp_all add: in_order_def rank_def row_def)
  show ?thesis
    by (simp add: o Let_def PumpOnce_def NewRelay_def start_world_def LoadCursor_def NewMemoryOutboxCursorStore_def get_or_def
        zero_cursor_def ReadAfter_def cursorBefore_def cursor_IsZero_def time_is_zero_def beside_def always_up_def
        SaveCursor_def pos_of_def message_def) (simp add: row_def)
qed

text \<open>a relay that never led gives the leadership of another away. Of three relays that share one leader, the first leads;
  the second, refused, stops; the third then leads too, while the first still does.\<close>

theorem idle_relay_releases_leader:
  "let R = NewRelay fst (beside always_up) [];
       (first, _, s1) = run_tick R 10 False (start_world []);
       (second, _, s2) = run_tick R 10 False s1;
       s3 = snd (run_loop R 10 0 second s2);
       (third, _, s4) = run_tick R 10 False s3
   in first \<and> \<not> second \<and> third"
  by (simp add: run_tick_def PumpOnce_def NewRelay_def start_world_def LoadCursor_def NewMemoryOutboxCursorStore_def get_or_def
      zero_cursor_def ReadAfter_def in_order_def spl_TryAcquire_def spl_Release_def)

end
