(* ===== verification/Events_Consumer.thy ===== *)
theory Events_Consumer
  imports Events_Relay
begin

text \<open>
  From the bus to the handlers (\<^verbatim>\<open>src/events/consumer.go\<close>, the idempotency store and the synchronous bus of
  \<^verbatim>\<open>src/events/dispatcher.go\<close>). Handlers are functions of the application: they run on a context, an event and the world
  of transaction participants.
\<close>

section \<open>The idempotency store\<close>

text \<open>\<open>MemoryIdempotencyStore\<close> is the marker repository, participant \<open>mk\<close>. \<open>Seen\<close> returns \<open>None\<close> when it blocks.\<close>

fun markers_of :: "'a part \<Rightarrow> (idemMarker, string) MemoryRepository" where
  "markers_of (Markers r) = r"
| "markers_of _ = NewMemoryRepository markerKey"

definition NewMemoryIdempotencyStore :: "'a part" where
  "NewMemoryIdempotencyStore = Markers (NewMemoryRepository markerKey)"

definition Seen :: "nat \<Rightarrow> ctx \<Rightarrow> string \<Rightarrow> 'a part txw \<Rightarrow> (perr + bool) option" where
  "Seen mk c key w =
     (if \<not> inThisTx mk c \<and> mk \<in> held w then None
      else case fst (repo_Get key (markers_of (store w mk))) of
             Inr _ \<Rightarrow> Some (Inr True)
           | Inl e \<Rightarrow> if perr_is e ErrNotFound then Some (Inr False) else Some (Inl e))"

text \<open>The repository draws the ETag \<open>uuid\<close> of the new marker.\<close>

definition idem_Record :: "nat \<Rightarrow> string \<Rightarrow> string \<Rightarrow> ('a part, unit) tx_fn" where
  "idem_Record mk uuid key c w = locked_op mk c
     (\<lambda>st. case repo_Create uuid \<lparr>markerKey = key\<rparr> (markers_of st) of
             (Inr _, _, r) \<Rightarrow> (None, Markers r)
           | (Inl e, _, r) \<Rightarrow> (Some (if perr_is e ErrConflict then ErrAlreadyApplied else e), Markers r)) w"

section \<open>The consumer\<close>

definition idempotencyKey :: "string \<Rightarrow> string \<Rightarrow> string" where
  "idempotencyKey eventID handlerName = eventID @ [CHR 0x1F] @ handlerName"

type_synonym 'a handler = "ctx \<Rightarrow> Event \<Rightarrow> 'a part txw \<Rightarrow> outcome \<times> 'a part txw"

record 'a registeredHandler =
  hname :: string
  hfn :: "'a handler"

text \<open>\<open>subs\<close> counts the subscriptions of the consumer's \<^verbatim>\<open>busHandler\<close> on the synchronous bus, by topic.\<close>

record 'a Consumer =
  cgroup :: string
  ctx_tx :: "nat list"
  idem :: nat
  handlers :: "string \<Rightarrow> 'a registeredHandler list"
  wired :: "string set"
  subs :: "string \<Rightarrow> nat"

definition NewConsumer :: "nat list \<Rightarrow> nat \<Rightarrow> string \<Rightarrow> 'a Consumer" where
  "NewConsumer tx mk grp =
     \<lparr>cgroup = (if grp \<noteq> [] then grp else ''default''), ctx_tx = WithParticipants tx [mk], idem = mk,
      handlers = (\<lambda>_. []), wired = {}, subs = (\<lambda>_. 0)\<rparr>"

definition syncBus_Subscribe :: "string \<Rightarrow> 'a Consumer \<Rightarrow> 'a Consumer" where
  "syncBus_Subscribe topic C = C\<lparr>subs := (subs C)(topic := Suc (subs C topic))\<rparr>"

text \<open>\<open>None\<close> is the panic on a nil handler.\<close>

definition Consumer_Subscribe :: "string \<Rightarrow> string \<Rightarrow> 'a handler option \<Rightarrow> 'a Consumer \<Rightarrow> 'a Consumer option" where
  "Consumer_Subscribe eventType name fn C =
     (case fn of
        None \<Rightarrow> None
      | Some f \<Rightarrow>
          let C1 = C\<lparr>handlers := (handlers C)(eventType := handlers C eventType @ [\<lparr>hname = name, hfn = f\<rparr>])\<rparr>
          in if eventType \<in> wired C then Some C1
             else Some (syncBus_Subscribe eventType (C1\<lparr>wired := insert eventType (wired C)\<rparr>)))"

definition handle_tx :: "nat list \<Rightarrow> nat \<Rightarrow> string \<Rightarrow> ctx \<Rightarrow> Event \<Rightarrow> 'a registeredHandler \<Rightarrow> 'a part txw
    \<Rightarrow> outcome \<times> 'a part txw" where
  "handle_tx m mk uuid c evt h w =
     Atomically m c (and_then (\<lambda>c. hfn h c evt) (idem_Record mk uuid (idempotencyKey (evID evt) (hname h)))) w"

fun deliver_loop :: "nat list \<Rightarrow> nat \<Rightarrow> string \<Rightarrow> ctx \<Rightarrow> Event \<Rightarrow> 'a registeredHandler list \<Rightarrow> 'a part txw
    \<Rightarrow> outcome \<times> 'a part txw" where
  "deliver_loop m mk uuid c evt [] w = (Done, w)"
| "deliver_loop m mk uuid c evt (h # hs) w =
     (case Seen mk c (idempotencyKey (evID evt) (hname h)) w of
        None \<Rightarrow> (Blocked, w)
      | Some (Inl e) \<Rightarrow> (Failed (PWrap ''idempotency check'' e), w)
      | Some (Inr True) \<Rightarrow> deliver_loop m mk uuid c evt hs w
      | Some (Inr False) \<Rightarrow>
          (case handle_tx m mk uuid c evt h w of
             (Done, w1) \<Rightarrow> deliver_loop m mk uuid c evt hs w1
           | (Failed e, w1) \<Rightarrow>
               if perr_is e ErrAlreadyApplied then deliver_loop m mk uuid c evt hs w1
               else (Failed (PWrap (''handler '' @ hname h @ '' for '' @ evType evt) e), w1)
           | (out, w1) \<Rightarrow> (out, w1)))"

definition deliver :: "'a Consumer \<Rightarrow> string \<Rightarrow> ctx \<Rightarrow> Event \<Rightarrow> 'a part txw \<Rightarrow> outcome \<times> 'a part txw" where
  "deliver C uuid c evt w =
     (let c' = (if evAccountID evt \<noteq> [] then WithTenantID c (evAccountID evt) else c)
      in deliver_loop (ctx_tx C) (idem C) uuid c' evt (handlers C (evType evt)) w)"

definition busHandler :: "'a Consumer \<Rightarrow> string \<Rightarrow> ctx \<Rightarrow> BusMessage \<Rightarrow> 'a part txw \<Rightarrow> outcome \<times> 'a part txw" where
  "busHandler C uuid c msg w = deliver C uuid c (msgEvent msg) w"

fun sync_times :: "nat \<Rightarrow> 'a Consumer \<Rightarrow> string \<Rightarrow> ctx \<Rightarrow> BusMessage \<Rightarrow> 'a part txw \<Rightarrow> outcome \<times> 'a part txw" where
  "sync_times 0 C uuid c msg w = (Done, w)"
| "sync_times (Suc n) C uuid c msg w =
     (case busHandler C uuid c msg w of (Done, w1) \<Rightarrow> sync_times n C uuid c msg w1 | r \<Rightarrow> r)"

definition syncBus_Publish :: "'a Consumer \<Rightarrow> string \<Rightarrow> ctx \<Rightarrow> string \<Rightarrow> BusMessage \<Rightarrow> 'a part txw
    \<Rightarrow> outcome \<times> 'a part txw" where
  "syncBus_Publish C uuid c topic msg w = sync_times (subs C topic) C uuid c msg w"

section \<open>Lemmas\<close>

text \<open>
  What the application owes: a handler returns, gives back the locks it takes, leaves the markers alone, writes only
  participants of the runner, and does not itself return \<open>ErrAlreadyApplied\<close>.
\<close>

definition good_handler :: "nat list \<Rightarrow> nat \<Rightarrow> Event \<Rightarrow> 'a registeredHandler \<Rightarrow> bool" where
  "good_handler m mk evt h \<longleftrightarrow> (\<forall>c w out w'. hfn h c evt w = (out, w') \<longrightarrow>
     out \<noteq> Blocked \<and> held w' = held w \<and> store w' mk = store w mk \<and> (\<forall>p. p \<notin> set m \<longrightarrow> store w' p = store w p)
     \<and> (\<forall>e. out = Failed e \<longrightarrow> \<not> perr_is e ErrAlreadyApplied))"

text \<open>A marker repository: keyed by the marker, nothing deleted.\<close>

definition markers_ok :: "nat \<Rightarrow> 'a part txw \<Rightarrow> bool" where
  "markers_ok mk w \<longleftrightarrow> (\<exists>r. store w mk = Markers r \<and> keyFn r = markerKey \<and> rdeleted r = {})"

definition applied :: "nat \<Rightarrow> 'a part txw \<Rightarrow> string set" where
  "applied mk w = dom (items (markers_of (store w mk)))"

definition idle :: "nat list \<Rightarrow> nat \<Rightarrow> ctx \<Rightarrow> 'a part txw \<Rightarrow> bool" where
  "idle m mk c w \<longleftrightarrow> distinct m \<and> mk \<in> set m \<and> memTxSet c = None \<and> set m \<inter> held w = {} \<and> markers_ok mk w"

lemma Seen_applied: "idle m mk c w \<Longrightarrow> Seen mk c key w = Some (Inr (key \<in> applied mk w))"
  by (auto simp: idle_def Seen_def markers_ok_def applied_def repo_Get_def split: option.splits)

lemma idem_Record_in_tx:
  assumes "markers_ok mk w" "inThisTx mk c"
  shows "key \<in> applied mk w \<Longrightarrow> \<exists>w'. idem_Record mk u key c w = (Failed ErrAlreadyApplied, w') \<and> held w' = held w
      \<and> (\<forall>p. p \<noteq> mk \<longrightarrow> store w' p = store w p)"
    "key \<notin> applied mk w \<Longrightarrow> \<exists>w'. idem_Record mk u key c w = (Done, w') \<and> held w' = held w \<and> markers_ok mk w'
      \<and> applied mk w' = insert key (applied mk w)"
  using assms by (auto simp: idem_Record_def locked_op_def markers_ok_def applied_def repo_Create_def Let_def)

lemma idle_start: "idle m mk c w \<Longrightarrow> tx_start m c w"
  by (simp add: idle_def tx_start_def joins_def TxFromContext_def)

lemma in_tx [simp]: "mk \<in> set m \<Longrightarrow> inThisTx mk (WithTx c (set m))"
  by (simp add: inThisTx_def TxFromContext_def WithTx_def)

text \<open>A failed transaction whose body wrote only participants leaves the world as it was.\<close>

lemma rolled_back:
  fixes w :: "'p txw"
  assumes "tx_start m c w" "fn (WithTx c (set m)) (enter m w) = (out, w2)" "out \<noteq> Done" "out \<noteq> Blocked"
    and "held w2 = set m \<union> held w" "\<And>p. p \<notin> set m \<Longrightarrow> store w2 p = store w p"
  shows "Atomically m c fn w = (out, w)"
proof -
  have "restoreForTx (snapshotForTx m w) w2\<lparr>held := held w2 - set m\<rparr> = w"
  proof (rule txw.equality)
    show "store (restoreForTx (snapshotForTx m w) w2\<lparr>held := held w2 - set m\<rparr>) = store w"
      using assms(1,6) by (auto simp: restore_store tx_start_def)
    show "held (restoreForTx (snapshotForTx m w) w2\<lparr>held := held w2 - set m\<rparr>) = held w"
      using assms(1,5) by (auto simp: tx_start_def)
  qed simp
  then show ?thesis using assms by (simp add: Atomically_start split: outcome.split)
qed

text \<open>The transaction of one handler: it commits the effect with a new marker, or changes nothing.\<close>

lemma handle_cases:
  assumes "idle m mk c w" "good_handler m mk evt h"
  defines "key \<equiv> idempotencyKey (evID evt) (hname h)"
  shows "key \<in> applied mk w \<Longrightarrow> snd (handle_tx m mk u c evt h w) = w \<and> fst (handle_tx m mk u c evt h w) \<notin> {Done, Blocked}"
    "key \<notin> applied mk w \<Longrightarrow>
      (\<exists>w'. handle_tx m mk u c evt h w = (Done, w') \<and> idle m mk c w' \<and> applied mk w' = insert key (applied mk w))
      \<or> (\<exists>out. handle_tx m mk u c evt h w = (out, w) \<and> out \<notin> {Done, Blocked} \<and> (\<forall>e. out = Failed e \<longrightarrow> \<not> perr_is e ErrAlreadyApplied))"
proof -
  let ?c = "WithTx c (set m)"
  let ?fn = "and_then (\<lambda>c. hfn h c evt) (idem_Record mk u key)"
  have mk: "mk \<in> set m" and ok: "markers_ok mk w" using assms(1) by (simp_all add: idle_def)
  note start = idle_start [OF assms(1)]
  obtain out w1 where h: "hfn h ?c evt (enter m w) = (out, w1)" by fastforce
  have w1: "out \<noteq> Blocked" "held w1 = set m \<union> held w" "store w1 mk = store w mk"
    "\<And>p. p \<notin> set m \<Longrightarrow> store w1 p = store w p" "\<And>e. out = Failed e \<Longrightarrow> \<not> perr_is e ErrAlreadyApplied"
    using assms(2) h unfolding good_handler_def by (fastforce simp: enter_def)+
  have ok1: "markers_ok mk w1" "applied mk w1 = applied mk w" using ok w1(3) by (simp_all add: markers_ok_def applied_def)
  have unf: "handle_tx m mk u c evt h w = Atomically m c ?fn w" by (simp add: handle_tx_def key_def)
  have fail: "handle_tx m mk u c evt h w = (out, w)" if "out \<noteq> Done"
  proof -
    have "?fn ?c (enter m w) = (out, w1)" using that h by (simp add: and_then_def split: outcome.split)
    from rolled_back [where fn = ?fn, OF start this that w1(1,2)] w1(4) show ?thesis unfolding unf by blast
  qed
  { assume a: "key \<in> applied mk w"
    obtain w2 where r: "idem_Record mk u key ?c w1 = (Failed ErrAlreadyApplied, w2)" "held w2 = held w1"
      "\<And>p. p \<noteq> mk \<Longrightarrow> store w2 p = store w1 p"
      using idem_Record_in_tx(1) [OF ok1(1) in_tx [OF mk]] a ok1(2) by blast
    have "handle_tx m mk u c evt h w = (Failed ErrAlreadyApplied, w)" if "out = Done"
    proof -
      have "?fn ?c (enter m w) = (Failed ErrAlreadyApplied, w2)" using that h r(1) by (simp add: and_then_def)
      moreover have "store w2 p = store w p" if "p \<notin> set m" for p using that mk r(3) [of p] w1(4) [of p] by auto
      ultimately show ?thesis unfolding unf using rolled_back [where fn = ?fn, OF start] r(2) w1(2) by simp
    qed
    then show "snd (handle_tx m mk u c evt h w) = w \<and> fst (handle_tx m mk u c evt h w) \<notin> {Done, Blocked}"
      using fail w1(1) by (cases "out = Done") auto }
  { assume a: "key \<notin> applied mk w"
    have "key \<notin> applied mk w1" using a ok1(2) by simp
    from idem_Record_in_tx(2) [OF ok1(1) in_tx [OF mk] this, of u c]
    obtain w2 where r: "idem_Record mk u key ?c w1 = (Done, w2)" "held w2 = held w1" "markers_ok mk w2"
      "applied mk w2 = insert key (applied mk w)"
      unfolding ok1(2) by (elim exE conjE)
    have "handle_tx m mk u c evt h w = (Done, w2\<lparr>held := held w2 - set m\<rparr>)" if "out = Done"
      unfolding unf Atomically_start [OF start] using that h r(1) by (simp add: and_then_def)
    moreover have "idle m mk c (w2\<lparr>held := held w2 - set m\<rparr>)"
      using assms(1) r(3) unfolding idle_def markers_ok_def by auto
    moreover have "applied mk (w2\<lparr>held := held w2 - set m\<rparr>) = insert key (applied mk w)" using r(4) by (simp add: applied_def)
    ultimately show "(\<exists>w'. handle_tx m mk u c evt h w = (Done, w') \<and> idle m mk c w' \<and> applied mk w' = insert key (applied mk w))
      \<or> (\<exists>out. handle_tx m mk u c evt h w = (out, w) \<and> out \<notin> {Done, Blocked} \<and> (\<forall>e. out = Failed e \<longrightarrow> \<not> perr_is e ErrAlreadyApplied))"
      using fail w1(1,5) by (cases "out = Done") auto }
qed

section \<open>Delivery\<close>

definition hkeys :: "Event \<Rightarrow> 'a registeredHandler list \<Rightarrow> string set" where
  "hkeys evt hs = (\<lambda>h. idempotencyKey (evID evt) (hname h)) ` set hs"

lemma deliver_skips:
  "idle m mk c w \<Longrightarrow> hkeys evt hs \<subseteq> applied mk w \<Longrightarrow>
     deliver_loop m mk u c evt (hs @ rest) w = deliver_loop m mk u c evt rest w"
  by (induction hs) (simp_all add: Seen_applied hkeys_def)

text \<open>
  A delivery goes through a prefix of the handlers, committing each of them once or skipping it; then it is done, or the
  next handler failed and left nothing behind.
\<close>

lemma deliver_prefix:
  assumes "idle m mk c w" "\<forall>h\<in>set hs. good_handler m mk evt h"
  shows "\<exists>i w' out. i \<le> length hs \<and> deliver_loop m mk u c evt (take i hs) w = (Done, w')
    \<and> deliver_loop m mk u c evt hs w = (out, w') \<and> idle m mk c w' \<and> out \<noteq> Blocked \<and> (out = Done \<longleftrightarrow> i = length hs)
    \<and> applied mk w' = applied mk w \<union> hkeys evt (take i hs)"
  using assms
proof (induction hs arbitrary: w)
  case Nil
  then show ?case by (simp add: hkeys_def)
next
  case (Cons h hs)
  let ?key = "idempotencyKey (evID evt) (hname h)" and ?d = "deliver_loop m mk u c evt"
  have good: "good_handler m mk evt h" "\<forall>h\<in>set hs. good_handler m mk evt h" using Cons.prems(2) by simp_all
  note seen = Seen_applied [OF Cons.prems(1), of ?key]
  have step: ?case if w1: "idle m mk c w1" "applied mk w1 = insert ?key (applied mk w)"
    and eq: "\<And>ks. ?d (h # ks) w = ?d ks w1" for w1
  proof -
    obtain i w' out where ih: "i \<le> length hs" "?d (take i hs) w1 = (Done, w')" "?d hs w1 = (out, w')" "idle m mk c w'"
      "out \<noteq> Blocked" "out = Done \<longleftrightarrow> i = length hs" "applied mk w' = applied mk w1 \<union> hkeys evt (take i hs)"
      using Cons.IH [OF w1(1) good(2)] by blast
    then show ?thesis
      by (intro exI [of _ "Suc i"] exI [of _ w'] exI [of _ out]) (auto simp: eq w1(2) hkeys_def simp del: deliver_loop.simps)
  qed
  show ?case
  proof (cases "?key \<in> applied mk w")
    case True
    show ?thesis by (rule step [of w]) (use True Cons.prems(1) seen in auto)
  next
    case False
    from handle_cases(2) [OF Cons.prems(1) good(1) False, of u] show ?thesis
    proof (elim disjE exE conjE)
      fix w1 assume "handle_tx m mk u c evt h w = (Done, w1)" "idle m mk c w1" "applied mk w1 = insert ?key (applied mk w)"
      then show ?thesis using False seen by (intro step [of w1]) simp_all
    next
      fix out assume t: "handle_tx m mk u c evt h w = (out, w)" "out \<notin> {Done, Blocked}"
        "\<forall>e. out = Failed e \<longrightarrow> \<not> perr_is e ErrAlreadyApplied"
      obtain out' where "?d (h # hs) w = (out', w)" "out' \<notin> {Done, Blocked}"
        using t False seen by (cases out) auto
      then show ?thesis using Cons.prems(1)
        by (intro exI [of _ 0] exI [of _ w] exI [of _ out']) (simp add: hkeys_def del: deliver_loop.simps(2))
    qed
  qed
qed

section \<open>Properties\<close>

text \<open>C8: every reaction is applied exactly once. Under an at-least-once bus a delivery commits a prefix of the event's handlers,
  each in one transaction with its marker; if it is not acknowledged the failing handler left nothing behind. A redelivery
  of the same event, with any other UUIDs, skips exactly that prefix and goes on with the rest; once acknowledged, every
  redelivery is acknowledged and changes nothing.\<close>

theorem deliver_exactly_once:
  assumes "distinct (ctx_tx C)" "idem C \<in> set (ctx_tx C)" "memTxSet c = None" "set (ctx_tx C) \<inter> held w = {}"
    and "markers_ok (idem C) w" "\<forall>h\<in>set (handlers C (evType evt)). good_handler (ctx_tx C) (idem C) evt h"
    and "deliver C u c evt w = (out, w')"
  shows "\<exists>i\<le>length (handlers C (evType evt)).
      deliver (C\<lparr>handlers := (handlers C)(evType evt := take i (handlers C (evType evt)))\<rparr>) u c evt w = (Done, w')
    \<and> deliver C u2 c evt w' = deliver (C\<lparr>handlers := (handlers C)(evType evt := drop i (handlers C (evType evt)))\<rparr>) u2 c evt w'
    \<and> (out = Done \<longleftrightarrow> i = length (handlers C (evType evt)))
    \<and> (out = Done \<longrightarrow> deliver C u2 c evt w' = (Done, w'))"
proof -
  let ?c = "if evAccountID evt \<noteq> [] then WithTenantID c (evAccountID evt) else c" and ?hs = "handlers C (evType evt)"
  have id: "idle (ctx_tx C) (idem C) ?c w" using assms(1-5) by (simp add: idle_def WithTenantID_def)
  obtain i w1 out1 where p: "i \<le> length ?hs" "deliver_loop (ctx_tx C) (idem C) u ?c evt (take i ?hs) w = (Done, w1)"
    "deliver_loop (ctx_tx C) (idem C) u ?c evt ?hs w = (out1, w1)" "idle (ctx_tx C) (idem C) ?c w1"
    "out1 = Done \<longleftrightarrow> i = length ?hs" "applied (idem C) w1 = applied (idem C) w \<union> hkeys evt (take i ?hs)"
    using deliver_prefix [OF id assms(6), of u] by blast
  have eq: "out1 = out" "w1 = w'" using p(3) assms(7) by (simp_all add: deliver_def Let_def)
  have "deliver_loop (ctx_tx C) (idem C) u2 ?c evt (take i ?hs @ drop i ?hs) w1 = deliver_loop (ctx_tx C) (idem C) u2 ?c evt (drop i ?hs) w1"
    using deliver_skips [OF p(4)] p(6) by blast
  then show ?thesis using p(1,2,5) eq by (intro exI [of _ i]) (simp add: deliver_def Let_def)
qed

text \<open>correctness does not rest on the fast path. Running the transaction of a handler whose marker is already committed, as
  a concurrent delivery that passed the \<open>Seen\<close> check earlier does, changes nothing.\<close>

theorem double_apply_rolled_back:
  assumes "distinct m" "mk \<in> set m" "memTxSet c = None" "set m \<inter> held w = {}" "markers_ok mk w" "good_handler m mk evt h"
    and "handle_tx m mk u c evt h w = (Done, w1)"
  shows "\<exists>out. handle_tx m mk u2 c evt h w1 = (out, w1) \<and> out \<noteq> Done \<and> out \<noteq> Blocked"
proof -
  have id: "idle m mk c w" using assms(1-5) by (simp add: idle_def)
  let ?key = "idempotencyKey (evID evt) (hname h)"
  have "?key \<notin> applied mk w" using handle_cases(1) [OF id assms(6), of u] assms(7) by auto
  from handle_cases(2) [OF id assms(6) this, of u] assms(7)
  have "idle m mk c w1" "?key \<in> applied mk w1" by auto
  from handle_cases(1) [OF this(1) assms(6) this(2), of u2] show ?thesis by (metis insertI1 insertI2 prod.collapse)
qed

fun bump :: "nat part \<Rightarrow> nat part" where
  "bump (Aggregate n) = Aggregate (Suc n)"
| "bump x = x"

definition tally :: "nat \<Rightarrow> nat registeredHandler" where
  "tally p = \<lparr>hname = ''tally'', hfn = (\<lambda>c evt w. (Done, w\<lparr>store := (store w)(p := bump (store w p))\<rparr>))\<rparr>"

definition till :: "nat part txw" where
  "till = \<lparr>store = (\<lambda>p. if p = 9 then NewMemoryIdempotencyStore else Aggregate 0), held = {}\<rparr>"

definition one_handler :: "nat Consumer" where
  "one_handler = the (Consumer_Subscribe ''Changed'' ''tally'' (Some (hfn (tally 2))) (NewConsumer [2] 9 []))"

lemma one_handler_simps:
  "ctx_tx one_handler = [2, 9]" "idem one_handler = 9" "handlers one_handler ''Changed'' = [tally 2]"
  by (simp_all add: one_handler_def NewConsumer_def Consumer_Subscribe_def syncBus_Subscribe_def WithParticipants_def
      NewMemoryTxRunner_def tally_def Let_def)

lemma tally_good: "good_handler [2, 9] 9 evt (tally 2)"
  by (auto simp: good_handler_def tally_def )

lemma till_ok: "markers_ok 9 till" "held till = {}"
  by (simp_all add: markers_ok_def till_def NewMemoryIdempotencyStore_def NewMemoryRepository_def)

theorem deliver_exactly_once_witness:
  "\<exists>i\<le>length (handlers one_handler (evType changed)).
      deliver (one_handler\<lparr>handlers := (handlers one_handler)(evType changed := take i (handlers one_handler (evType changed)))\<rparr>)
        ''u'' background changed till = (Done, snd (deliver one_handler ''u'' background changed till))
    \<and> deliver one_handler ''v'' background changed (snd (deliver one_handler ''u'' background changed till))
      = deliver (one_handler\<lparr>handlers := (handlers one_handler)(evType changed := drop i (handlers one_handler (evType changed)))\<rparr>)
          ''v'' background changed (snd (deliver one_handler ''u'' background changed till))
    \<and> (fst (deliver one_handler ''u'' background changed till) = Done \<longleftrightarrow> i = length (handlers one_handler (evType changed)))
    \<and> (fst (deliver one_handler ''u'' background changed till) = Done \<longrightarrow>
        deliver one_handler ''v'' background changed (snd (deliver one_handler ''u'' background changed till))
          = (Done, snd (deliver one_handler ''u'' background changed till)))"
proof (rule deliver_exactly_once)
  show "\<forall>h\<in>set (handlers one_handler (evType changed)). good_handler (ctx_tx one_handler) (idem one_handler) changed h"
    by (simp add: changed_def one_handler_simps tally_good)
qed (simp_all add: one_handler_simps till_ok background_def)

theorem double_apply_rolled_back_witness:
  "\<exists>out. handle_tx [2, 9] 9 ''v'' background changed (tally 2) (snd (handle_tx [2, 9] 9 ''u'' background changed (tally 2) till))
      = (out, snd (handle_tx [2, 9] 9 ''u'' background changed (tally 2) till)) \<and> out \<noteq> Done \<and> out \<noteq> Blocked"
proof (rule double_apply_rolled_back [where w = till and u = "''u''", OF _ _ _ _ till_ok(1) tally_good])
  show "handle_tx [2, 9] 9 ''u'' background changed (tally 2) till
    = (Done, snd (handle_tx [2, 9] 9 ''u'' background changed (tally 2) till))"
    by (simp add: handle_tx_def tally_def tx_eval till_def idem_Record_def NewMemoryIdempotencyStore_def NewMemoryRepository_def
        repo_Create_def Let_def unlock_all_eq)
qed (simp_all add: till_ok background_def)

text \<open>the event's tenant does not win over a principal. A handler that reads the tenant from its context sees, when the
  consumer's context carries a verified principal, the tenant of that principal instead of the tenant of the event.\<close>

definition note_tenant :: "nat \<Rightarrow> string registeredHandler" where
  "note_tenant p = \<lparr>hname = ''note'', hfn = (\<lambda>c evt w.
     (Done, w\<lparr>store := (store w)(p := Aggregate (TenantIDFromContext c))\<rparr>))\<rparr>"

theorem principal_overrides_event_tenant:
  "let C = \<lparr>cgroup = ''default'', ctx_tx = [2, 9], idem = 9, handlers = (\<lambda>_. [note_tenant 2]), wired = {}, subs = (\<lambda>_. 0)\<rparr>;
       w = \<lparr>store = (\<lambda>p. if p = 9 then NewMemoryIdempotencyStore else Aggregate []), held = {}\<rparr>
   in store (snd (deliver C ''u'' background changed w)) 2 = Aggregate ''acct''
    \<and> store (snd (deliver C ''u'' (background\<lparr>principalTenant := Some ''globex''\<rparr>) changed w)) 2 = Aggregate ''globex''"
  by (simp add: deliver_def Let_def Seen_def repo_Get_def handle_tx_def note_tenant_def tx_eval idem_Record_def
      NewMemoryIdempotencyStore_def NewMemoryRepository_def repo_Create_def unlock_all_eq changed_def TenantIDFromContext_def
      WithTenantID_def)

end
