(* ===== verification/Events_Change.thy ===== *)
theory Events_Change
  imports Events_Relay
begin

text \<open>
  The change feed (\<^verbatim>\<open>src/events/changefeed.go\<close>, \<^verbatim>\<open>src/events/changefeed_repo.go\<close>, \<^verbatim>\<open>src/events/projection.go\<close>): a decorator
  that appends a typed change event, and one event per projection, to the outbox in the transaction of every write. JSON
  and protobuf encoders are parameters.
\<close>

section \<open>Change events\<close>

definition ChangeEventType :: string where
  "ChangeEventType = ''devedge.change.v1''"

datatype ChangeType = ChangeCreate | ChangeUpdate | ChangeDelete | ChangeUndelete

record Actor =
  actorSubject :: string
  actorTenant :: string
  actorGroups :: "string list"

text \<open>\<open>Before\<close> and \<open>After\<close> are raw JSON, empty when absent.\<close>

record ChangeEvent =
  Tenant :: string
  ResourceType :: string
  ResourceName :: string
  Change :: ChangeType
  FieldMask :: "string list"
  ceActor :: Actor
  RequestID :: string
  Revision :: string
  Before :: string
  After :: string
  Seq :: int
  Epoch :: int

text \<open>
  \<^verbatim>\<open>json.Marshal\<close> of a change event and \<^verbatim>\<open>json.Unmarshal\<close> into one. \<open>Seq\<close> and \<open>Epoch\<close> carry the tag \<^verbatim>\<open>json:"-"\<close>: they
  are not encoded and decode as 0.
\<close>

record codec =
  ce_marshal :: "ChangeEvent \<Rightarrow> string option"
  ce_unmarshal :: "string \<Rightarrow> ChangeEvent option"

definition codec_ok :: "codec \<Rightarrow> bool" where
  "codec_ok J \<longleftrightarrow> (\<forall>ce s. ce_marshal J ce = Some s \<longrightarrow> ce_unmarshal J s = Some (ce\<lparr>Seq := 0, Epoch := 0\<rparr>))"

definition ToEvent :: "codec \<Rightarrow> ChangeEvent \<Rightarrow> perr + Event" where
  "ToEvent J ce =
     (case ce_marshal J ce of
        None \<Rightarrow> Inl (POther ''events: encode change event'')
      | Some payload \<Rightarrow> Inr \<lparr>evID = [], evType = ChangeEventType, evAggregateType = ResourceType ce, evAggregateID = ResourceName ce,
          evAccountID = Tenant ce, evPayload = payload, evSeq = 0, evEpoch = 0\<rparr>)"

definition ChangeEventFromEvent :: "codec \<Rightarrow> Event \<Rightarrow> perr + ChangeEvent" where
  "ChangeEventFromEvent J evt =
     (case ce_unmarshal J (evPayload evt) of
        None \<Rightarrow> Inl (POther (''events: decode change event '' @ evID evt))
      | Some ce \<Rightarrow> Inr (ce\<lparr>Tenant := evAccountID evt, Seq := evSeq evt, Epoch := evEpoch evt\<rparr>))"

definition IsChangeEvent :: "Event \<Rightarrow> bool" where
  "IsChangeEvent evt \<longleftrightarrow> evType evt = ChangeEventType"

section \<open>Projections and options\<close>

text \<open>
  The encoders of documents: a document may be a protobuf message, which is redacted and written as protojson, or any other
  value, which is written by \<^verbatim>\<open>encoding/json\<close>.
\<close>

record ('d, 'm) docs =
  as_proto :: "'d \<Rightarrow> 'm option"
  redact_Message :: "'m \<Rightarrow> 'm"
  protojson_Marshal :: "'m \<Rightarrow> perr + string"
  json_Marshal :: "'d \<Rightarrow> perr + string"

record ('t, 'd) Projection =
  pResourceType :: string
  Project :: "'t \<Rightarrow> 'd \<times> bool"
  pNameOf :: "('t \<Rightarrow> string) option"
  pRevisionOf :: "('t \<Rightarrow> string) option"
  pMarshal :: "('d \<Rightarrow> perr + string) option"

record ('t, 'd) ChangeFeedOptions =
  feedType :: string
  NameOf :: "('t \<Rightarrow> string) option"
  RevisionOf :: "('t \<Rightarrow> string) option"
  Marshal :: "('t \<Rightarrow> perr + string) option"
  AllowMissingTenant :: bool
  EmitBefore :: bool
  Projections :: "('t, 'd) Projection list"

definition marshalDoc :: "('d, 'm) docs \<Rightarrow> 'd \<Rightarrow> ('d \<Rightarrow> perr + string) option \<Rightarrow> perr + string" where
  "marshalDoc D doc custom =
     (case custom of
        Some f \<Rightarrow> f doc
      | None \<Rightarrow> (case as_proto D doc of
                  Some m \<Rightarrow> protojson_Marshal D (redact_Message D m)
                | None \<Rightarrow> json_Marshal D doc))"

text \<open>
  Besides the tenant a context carries the rest of the principal, which is there exactly when its tenant is, and the
  request id; both do not change during a call and are an argument.
\<close>

record caller =
  callSubject :: string
  callGroups :: "string list"
  callRequest :: string

definition actorFromContext :: "caller \<Rightarrow> ctx \<Rightarrow> Actor" where
  "actorFromContext who c =
     (case principalTenant c of
        None \<Rightarrow> \<lparr>actorSubject = [], actorTenant = [], actorGroups = []\<rparr>
      | Some t \<Rightarrow> \<lparr>actorSubject = callSubject who, actorTenant = t, actorGroups = callGroups who\<rparr>)"

definition buildProjectionEvent :: "('d, 'm) docs \<Rightarrow> caller \<Rightarrow> ctx \<Rightarrow> ('t, 'd) Projection \<Rightarrow> ChangeType \<Rightarrow> string
    \<Rightarrow> ('t \<Rightarrow> string) option \<Rightarrow> 't \<Rightarrow> perr + ChangeEvent option" where
  "buildProjectionEvent D who c p ct tenant fallbackName entity =
     (case Project p entity of (doc, emit) \<Rightarrow>
        if \<not> emit then Inr None
        else let ce = \<lparr>Tenant = tenant, ResourceType = pResourceType p,
                       ResourceName = (case pNameOf p of Some f \<Rightarrow> f entity
                                       | None \<Rightarrow> (case fallbackName of Some f \<Rightarrow> f entity | None \<Rightarrow> [])),
                       Change = ct, FieldMask = [], ceActor = actorFromContext who c, RequestID = callRequest who,
                       Revision = (case pRevisionOf p of Some f \<Rightarrow> f entity | None \<Rightarrow> []),
                       Before = [], After = [], Seq = 0, Epoch = 0\<rparr>
             in if ct = ChangeDelete then Inr (Some ce)
                else case marshalDoc D doc (pMarshal p) of
                       Inl e \<Rightarrow> Inl (PWrap (''events: marshal projection '' @ pResourceType p) e)
                     | Inr img \<Rightarrow> Inr (Some (ce\<lparr>After := img\<rparr>)))"

section \<open>The emitting repository\<close>

text \<open>
  The wrapped repository and the publisher as operations on a world \<open>'w\<close>; \<open>show_key\<close> is what \<^verbatim>\<open>%v\<close> prints for a key. The
  operations of the repository run inside the transaction, so they return.
\<close>

record ('w, 't, 'k) inner_repo =
  i_Get :: "ctx \<Rightarrow> 'k \<Rightarrow> 'w \<Rightarrow> perr + 't"
  i_Create :: "ctx \<Rightarrow> 't \<Rightarrow> 'w \<Rightarrow> (perr + 't) \<times> 'w"
  i_Update :: "ctx \<Rightarrow> 'k \<Rightarrow> 't \<Rightarrow> string list \<Rightarrow> 'w \<Rightarrow> (perr + 't) \<times> 'w"
  i_Delete :: "ctx \<Rightarrow> 'k \<Rightarrow> 'w \<Rightarrow> perr option \<times> 'w"
  i_Undelete :: "ctx \<Rightarrow> 'k \<Rightarrow> 'w \<Rightarrow> (perr + 't) \<times> 'w"

record ('w, 't, 'k, 'd, 'm) changeEmitter =
  inner :: "('w, 't, 'k) inner_repo"
  feed_tx :: "nat list"
  feed_pub :: "ctx \<Rightarrow> Event \<Rightarrow> 'w \<Rightarrow> outcome \<times> 'w"
  feed_opts :: "('t, 'd) ChangeFeedOptions"
  feed_docs :: "('d, 'm) docs"
  feed_codec :: codec
  entity_doc :: "'t \<Rightarrow> 'd"
  show_key :: "'k \<Rightarrow> string"

definition feed_tenant :: "('w, 't, 'k, 'd, 'm) changeEmitter \<Rightarrow> ctx \<Rightarrow> perr + string" where
  "feed_tenant r c =
     (let t = TenantIDFromContext c
      in if t = [] \<and> \<not> AllowMissingTenant (feed_opts r)
         then Inl (POther (''events: change feed for '' @ feedType (feed_opts r) @ '' requires a tenant on context''))
         else Inr t)"

text \<open>\<open>entity_doc\<close> views an entity as a value of any type, which is a protobuf message or not.\<close>

definition feed_marshal :: "('w, 't, 'k, 'd, 'm) changeEmitter \<Rightarrow> 't \<Rightarrow> perr + string" where
  "feed_marshal r e =
     (case Marshal (feed_opts r) of
        Some f \<Rightarrow> f e
      | None \<Rightarrow> (case as_proto (feed_docs r) (entity_doc r e) of
                  None \<Rightarrow> Inl (POther (''events: change feed for '' @ feedType (feed_opts r) @ '' needs ChangeFeedOptions.Marshal''))
                | Some m \<Rightarrow> (case protojson_Marshal (feed_docs r) (redact_Message (feed_docs r) m) of
                              Inl e \<Rightarrow> Inl (PWrap (''events: marshal after-image for '' @ feedType (feed_opts r)) e)
                            | Inr b \<Rightarrow> Inr b)))"

definition feed_publish :: "('w, 't, 'k, 'd, 'm) changeEmitter \<Rightarrow> ctx \<Rightarrow> ChangeEvent \<Rightarrow> 'w \<Rightarrow> outcome \<times> 'w" where
  "feed_publish r c ce w = (case ToEvent (feed_codec r) ce of Inl e \<Rightarrow> (Failed e, w) | Inr evt \<Rightarrow> feed_pub r c evt w)"

fun emitProjections :: "('w, 't, 'k, 'd, 'm) changeEmitter \<Rightarrow> caller \<Rightarrow> ctx \<Rightarrow> ChangeType \<Rightarrow> string \<Rightarrow> 't
    \<Rightarrow> ('t, 'd) Projection list \<Rightarrow> 'w \<Rightarrow> outcome \<times> 'w" where
  "emitProjections r who c ct tenant entity [] w = (Done, w)"
| "emitProjections r who c ct tenant entity (p # ps) w =
     (case buildProjectionEvent (feed_docs r) who c p ct tenant (NameOf (feed_opts r)) entity of
        Inl e \<Rightarrow> (Failed e, w)
      | Inr None \<Rightarrow> emitProjections r who c ct tenant entity ps w
      | Inr (Some ce) \<Rightarrow>
          (case feed_publish r c ce w of
             (Done, w1) \<Rightarrow> emitProjections r who c ct tenant entity ps w1
           | (out, w1) \<Rightarrow> (out, w1)))"

definition before_image :: "('w, 't, 'k, 'd, 'm) changeEmitter \<Rightarrow> 't option \<Rightarrow> string" where
  "before_image r b =
     (case b of
        Some e \<Rightarrow> if EmitBefore (feed_opts r) then (case feed_marshal r e of Inr img \<Rightarrow> img | Inl _ \<Rightarrow> []) else []
      | None \<Rightarrow> [])"

definition entity_event :: "('w, 't, 'k, 'd, 'm) changeEmitter \<Rightarrow> caller \<Rightarrow> ctx \<Rightarrow> ChangeType \<Rightarrow> string \<Rightarrow> 't \<Rightarrow> 't option
    \<Rightarrow> string list \<Rightarrow> string \<Rightarrow> ChangeEvent" where
  "entity_event r who c ct tenant aft before fieldMask img =
     \<lparr>Tenant = tenant, ResourceType = feedType (feed_opts r),
      ResourceName = (case NameOf (feed_opts r) of Some f \<Rightarrow> f aft | None \<Rightarrow> []),
      Change = ct, FieldMask = fieldMask, ceActor = actorFromContext who c, RequestID = callRequest who,
      Revision = (case RevisionOf (feed_opts r) of Some f \<Rightarrow> f aft | None \<Rightarrow> []),
      Before = before_image r before, After = img, Seq = 0, Epoch = 0\<rparr>"

definition emit :: "('w, 't, 'k, 'd, 'm) changeEmitter \<Rightarrow> caller \<Rightarrow> ctx \<Rightarrow> ChangeType \<Rightarrow> 't \<Rightarrow> 't option \<Rightarrow> string list
    \<Rightarrow> 'w \<Rightarrow> outcome \<times> 'w" where
  "emit r who c ct aft before fieldMask w =
     (case feed_tenant r c of
        Inl e \<Rightarrow> (Failed e, w)
      | Inr tenant \<Rightarrow>
          (case feed_marshal r aft of
             Inl e \<Rightarrow> (Failed e, w)
           | Inr img \<Rightarrow>
               (case feed_publish r c (entity_event r who c ct tenant aft before fieldMask img) w of
                  (Done, w1) \<Rightarrow> emitProjections r who c ct tenant aft (Projections (feed_opts r)) w1
                | (out, w1) \<Rightarrow> (out, w1))))"

definition deletion_event :: "('w, 't, 'k, 'd, 'm) changeEmitter \<Rightarrow> caller \<Rightarrow> ctx \<Rightarrow> string \<Rightarrow> 'k \<Rightarrow> 't option \<Rightarrow> ChangeEvent" where
  "deletion_event r who c tenant key snapshot =
     \<lparr>Tenant = tenant, ResourceType = feedType (feed_opts r),
      ResourceName = (case (snapshot, NameOf (feed_opts r)) of (Some e, Some f) \<Rightarrow> f e | _ \<Rightarrow> show_key r key),
      Change = ChangeDelete, FieldMask = [], ceActor = actorFromContext who c, RequestID = callRequest who,
      Revision = [], Before = before_image r snapshot, After = [], Seq = 0, Epoch = 0\<rparr>"

definition emitDelete :: "('w, 't, 'k, 'd, 'm) changeEmitter \<Rightarrow> caller \<Rightarrow> ctx \<Rightarrow> 'k \<Rightarrow> 't option \<Rightarrow> 'w \<Rightarrow> outcome \<times> 'w" where
  "emitDelete r who c key snapshot w =
     (case feed_tenant r c of
        Inl e \<Rightarrow> (Failed e, w)
      | Inr tenant \<Rightarrow>
          (case feed_publish r c (deletion_event r who c tenant key snapshot) w of
             (Done, w1) \<Rightarrow>
               (case snapshot of
                  Some e \<Rightarrow> emitProjections r who c ChangeDelete tenant e (Projections (feed_opts r)) w1
                | None \<Rightarrow> (Done, w1))
           | (out, w1) \<Rightarrow> (out, w1)))"

text \<open>The variable \<open>out\<close> that the closures of the transaction assign; a rollback does not reset it.\<close>

record ('p, 't) feed_world = "'p txw" +
  out :: "'t option"

type_synonym ('p, 't, 'k, 'd, 'm) emitter = "(('p, 't) feed_world, 't, 'k, 'd, 'm) changeEmitter"

definition returning :: "outcome \<times> ('p, 't) feed_world \<Rightarrow> (outcome \<times> 't option) \<times> ('p, 't) feed_world" where
  "returning r = ((fst r, out (snd r)), snd r)"

definition feed_Create :: "('p, 't, 'k, 'd, 'm) emitter \<Rightarrow> caller \<Rightarrow> ctx \<Rightarrow> 't \<Rightarrow> ('p, 't) feed_world
    \<Rightarrow> (outcome \<times> 't option) \<times> ('p, 't) feed_world" where
  "feed_Create r who c entity w = returning (Atomically (feed_tx r) c
     (\<lambda>c w. case i_Create (inner r) c entity w of
              (Inl e, w1) \<Rightarrow> (Failed e, w1)
            | (Inr created, w1) \<Rightarrow> emit r who c ChangeCreate created None [] (w1\<lparr>out := Some created\<rparr>)) (w\<lparr>out := None\<rparr>))"

definition get_ok :: "perr + 't \<Rightarrow> 't option" where
  "get_ok x = (case x of Inl _ \<Rightarrow> None | Inr v \<Rightarrow> Some v)"

definition feed_Update :: "('p, 't, 'k, 'd, 'm) emitter \<Rightarrow> caller \<Rightarrow> ctx \<Rightarrow> 'k \<Rightarrow> 't \<Rightarrow> string list \<Rightarrow> ('p, 't) feed_world
    \<Rightarrow> (outcome \<times> 't option) \<times> ('p, 't) feed_world" where
  "feed_Update r who c key entity fieldMask w = returning (Atomically (feed_tx r) c
     (\<lambda>c w. let before = (if EmitBefore (feed_opts r) then get_ok (i_Get (inner r) c key w) else None)
            in case i_Update (inner r) c key entity fieldMask w of
                 (Inl e, w1) \<Rightarrow> (Failed e, w1)
               | (Inr updated, w1) \<Rightarrow> emit r who c ChangeUpdate updated before fieldMask (w1\<lparr>out := Some updated\<rparr>)) (w\<lparr>out := None\<rparr>))"

definition feed_Delete :: "('p, 't, 'k, 'd, 'm) emitter \<Rightarrow> caller \<Rightarrow> ctx \<Rightarrow> 'k \<Rightarrow> ('p, 't) feed_world
    \<Rightarrow> outcome \<times> ('p, 't) feed_world" where
  "feed_Delete r who c key w = Atomically (feed_tx r) c
     (\<lambda>c w. let snapshot = (if NameOf (feed_opts r) \<noteq> None \<or> EmitBefore (feed_opts r)
                           then get_ok (i_Get (inner r) c key w) else None)
            in case i_Delete (inner r) c key w of
                 (Some e, w1) \<Rightarrow> (Failed e, w1)
               | (None, w1) \<Rightarrow> emitDelete r who c key snapshot w1) w"

definition feed_Undelete :: "('p, 't, 'k, 'd, 'm) emitter \<Rightarrow> caller \<Rightarrow> ctx \<Rightarrow> 'k \<Rightarrow> ('p, 't) feed_world
    \<Rightarrow> (outcome \<times> 't option) \<times> ('p, 't) feed_world" where
  "feed_Undelete r who c key w = returning (Atomically (feed_tx r) c
     (\<lambda>c w. case i_Undelete (inner r) c key w of
              (Inl e, w1) \<Rightarrow> (Failed e, w1)
            | (Inr restored, w1) \<Rightarrow> emit r who c ChangeUndelete restored None [] (w1\<lparr>out := Some restored\<rparr>)) (w\<lparr>out := None\<rparr>))"

section \<open>The in-memory instance\<close>

text \<open>
  The repository is participant \<open>rp\<close> and the outbox participant \<open>ob\<close> of one world. The UUIDs and times that are drawn
  may depend on the world; the If-Match expectation of the context is \<open>ifm\<close>.
\<close>

fun repo_of :: "('t, 'k) MemoryRepository part \<Rightarrow> ('t, 'k) MemoryRepository" where
  "repo_of (Aggregate r) = r"
| "repo_of _ = NewMemoryRepository (\<lambda>_. undefined)"

definition put_repo :: "nat \<Rightarrow> ('t, 'k) MemoryRepository \<Rightarrow> (('t, 'k) MemoryRepository part, 'z) txw_scheme
    \<Rightarrow> (('t, 'k) MemoryRepository part, 'z) txw_scheme" where
  "put_repo rp r w = w\<lparr>store := (store w)(rp := Aggregate r)\<rparr>"

type_synonym ('t, 'k) mem_world = "(('t, 'k) MemoryRepository part, 't) feed_world"

definition mem_inner :: "nat \<Rightarrow> string \<Rightarrow> string \<Rightarrow> (('t, 'k) mem_world, 't, 'k) inner_repo" where
  "mem_inner rp uuid ifm =
     \<lparr>i_Get = (\<lambda>c k w. fst (repo_Get k (repo_of (store w rp)))),
      i_Create = (\<lambda>c e w. case repo_Create uuid e (repo_of (store w rp)) of (x, _, r) \<Rightarrow> (x, put_repo rp r w)),
      i_Update = (\<lambda>c k e fm w. case repo_Update uuid ifm k e (repo_of (store w rp)) of (x, _, r) \<Rightarrow> (x, put_repo rp r w)),
      i_Delete = (\<lambda>c k w. case repo_Delete k (repo_of (store w rp)) of (x, r) \<Rightarrow> (x, put_repo rp r w)),
      i_Undelete = (\<lambda>c k w. case repo_Undelete k (repo_of (store w rp)) of (x, r) \<Rightarrow> (x, put_repo rp r w))\<rparr>"

definition outbox_pub :: "nat \<Rightarrow> (('a part, 'z) txw_scheme \<Rightarrow> string) \<Rightarrow> go_time \<Rightarrow> ctx \<Rightarrow> Event \<Rightarrow> ('a part, 'z) txw_scheme
    \<Rightarrow> outcome \<times> ('a part, 'z) txw_scheme" where
  "outbox_pub ob uuid tnow c evt w = Publish ob (uuid w) tnow tnow c evt w"

section \<open>What the decorator emits\<close>

text \<open>The events of a mutation: the entity's own and one for each projection that elects to emit.\<close>

definition projection_events :: "('d, 'm) docs \<Rightarrow> caller \<Rightarrow> ctx \<Rightarrow> ChangeType \<Rightarrow> ('t \<Rightarrow> string) option \<Rightarrow> 't
    \<Rightarrow> ('t, 'd) Projection list \<Rightarrow> ChangeEvent list" where
  "projection_events D who c ct nm e ps =
     concat (map (\<lambda>p. case buildProjectionEvent D who c p ct (TenantIDFromContext c) nm e of Inr (Some ce) \<Rightarrow> [ce] | _ \<Rightarrow> []) ps)"

definition change_events :: "('w, 't, 'k, 'd, 'm) changeEmitter \<Rightarrow> caller \<Rightarrow> ctx \<Rightarrow> ChangeType \<Rightarrow> 't \<Rightarrow> 't option \<Rightarrow> string list
    \<Rightarrow> ChangeEvent list" where
  "change_events r who c ct e before fm = entity_event r who c ct (TenantIDFromContext c) e before fm (projr (feed_marshal r e))
     # projection_events (feed_docs r) who c ct (NameOf (feed_opts r)) e (Projections (feed_opts r))"

definition deletion_events :: "('w, 't, 'k, 'd, 'm) changeEmitter \<Rightarrow> caller \<Rightarrow> ctx \<Rightarrow> 'k \<Rightarrow> 't option \<Rightarrow> ChangeEvent list" where
  "deletion_events r who c key snapshot =
     deletion_event r who c (TenantIDFromContext c) key snapshot
     # (case snapshot of
          Some e \<Rightarrow> projection_events (feed_docs r) who c ChangeDelete (NameOf (feed_opts r)) e (Projections (feed_opts r))
        | None \<Rightarrow> [])"

lemma built_event:
  "buildProjectionEvent D who c p ct t nm e = Inr (Some ce) \<Longrightarrow> Tenant ce = t \<and> Seq ce = 0 \<and> Epoch ce = 0"
  by (auto simp: buildProjectionEvent_def Let_def split: prod.splits if_splits sum.splits)

text \<open>
  What the feed needs of a publisher: called in a transaction with an event of the context's tenant, it records that event
  and changes nothing else.
\<close>

locale change_sink =
  fixes pub :: "ctx \<Rightarrow> Event \<Rightarrow> 'w \<Rightarrow> outcome \<times> 'w"
    and feed :: "'w \<Rightarrow> Event list"
    and same :: "'w \<Rightarrow> 'w \<Rightarrow> bool"
    and enrolled :: "ctx \<Rightarrow> bool"
  assumes same_refl: "same w w"
    and same_trans: "same w1 w2 \<Longrightarrow> same w2 w3 \<Longrightarrow> same w1 w3"
    and publishes: "enrolled c \<Longrightarrow> evAccountID evt = TenantIDFromContext c \<Longrightarrow> evID evt = [] \<Longrightarrow> evSeq evt = 0 \<Longrightarrow> evEpoch evt = 0
      \<Longrightarrow> \<exists>w'. pub c evt w = (Done, w') \<and> feed w' = feed w @ [evt] \<and> same w w'"
begin

text \<open>An emission: it is done or fails, and when done it has recorded exactly the events of \<open>ces\<close>.\<close>

definition emits :: "codec \<Rightarrow> ChangeEvent list \<Rightarrow> 'w \<Rightarrow> outcome \<times> 'w \<Rightarrow> bool" where
  "emits J ces w res \<longleftrightarrow> (fst res = Done \<or> (\<exists>e. fst res = Failed e)) \<and> same w (snd res)
     \<and> (fst res = Done \<longrightarrow> (\<exists>evts. map (ToEvent J) ces = map Inr evts \<and> feed (snd res) = feed w @ evts))"

lemma emits_none: "emits J [] w (Done, w)"
  by (simp add: emits_def same_refl)

lemma emits_fail: "emits J ces w (Failed e, w)"
  by (simp add: emits_def same_refl)

lemma emits_then:
  assumes "emits J a w res" "\<And>w1. res = (Done, w1) \<Longrightarrow> emits J b w1 (k w1)"
  shows "emits J (a @ b) w (case res of (Done, w1) \<Rightarrow> k w1 | (o', w1) \<Rightarrow> (o', w1))"
proof -
  obtain o1 w1 where res: "res = (o1, w1)" by fastforce
  show ?thesis
  proof (cases "o1 = Done")
    case True
    obtain o2 w2 where k: "k w1 = (o2, w2)" by fastforce
    have "emits J b w1 (o2, w2)" using assms(2) [of w1] True res k by simp
    show ?thesis
    proof (cases "o2 = Done")
      case True
      obtain xs where xs: "map (ToEvent J) a = map Inr xs" "feed w1 = feed w @ xs" "same w w1"
        using assms(1) \<open>o1 = Done\<close> unfolding emits_def res by auto
      obtain ys where ys: "map (ToEvent J) b = map Inr ys" "feed w2 = feed w1 @ ys" "same w1 w2"
        using \<open>emits J b w1 (o2, w2)\<close> True unfolding emits_def by auto
      have "map (ToEvent J) (a @ b) = map Inr (xs @ ys)" "feed w2 = feed w @ (xs @ ys)" by (simp_all add: xs ys)
      then have "\<exists>evts. map (ToEvent J) (a @ b) = map Inr evts \<and> feed w2 = feed w @ evts" by blast
      then show ?thesis using True \<open>o1 = Done\<close> same_trans [OF xs(3) ys(3)] by (simp add: emits_def res k)
    next
      case False
      then obtain e where "o2 = Failed e" "same w1 w2" using \<open>emits J b w1 (o2, w2)\<close> unfolding emits_def by auto
      moreover have "same w w1" using assms(1) unfolding emits_def res by simp
      ultimately show ?thesis using \<open>o1 = Done\<close> same_trans [of w w1 w2] by (simp add: emits_def res k)
    qed
  next
    case False
    then obtain e where "o1 = Failed e" using assms(1) unfolding emits_def res by auto
    then show ?thesis using assms(1) unfolding emits_def res by simp
  qed
qed

lemma publish_emits:
  assumes "feed_pub r = pub" "enrolled c" "Tenant ce = TenantIDFromContext c"
  shows "emits (feed_codec r) [ce] w (feed_publish r c ce w)"
proof (cases "ToEvent (feed_codec r) ce")
  case (Inl e)
  then show ?thesis by (simp add: feed_publish_def emits_fail)
next
  case (Inr evt)
  have "evAccountID evt = TenantIDFromContext c" "evID evt = []" "evSeq evt = 0" "evEpoch evt = 0"
    using Inr assms(3) by (auto simp: ToEvent_def split: option.splits)
  from publishes [OF assms(2) this, of w] show ?thesis
    using Inr assms(1) by (auto simp: feed_publish_def emits_def)
qed

lemma projections_emit:
  assumes "feed_pub r = pub" "enrolled c"
  shows "emits (feed_codec r) (projection_events (feed_docs r) who c ct (NameOf (feed_opts r)) e ps) w
    (emitProjections r who c ct (TenantIDFromContext c) e ps w)"
proof (induction ps arbitrary: w)
  case Nil
  then show ?case by (simp add: projection_events_def emits_none)
next
  case (Cons p ps)
  show ?case
  proof (cases "buildProjectionEvent (feed_docs r) who c p ct (TenantIDFromContext c) (NameOf (feed_opts r)) e")
    case (Inl err)
    then show ?thesis by (simp add: emits_fail)
  next
    case (Inr x)
    show ?thesis
    proof (cases x)
      case None
      then show ?thesis using Inr Cons by (simp add: projection_events_def)
    next
      case (Some ce)
      have "buildProjectionEvent (feed_docs r) who c p ct (TenantIDFromContext c) (NameOf (feed_opts r)) e = Inr (Some ce)"
        using Inr Some by simp
      from built_event [OF this] have b: "Tenant ce = TenantIDFromContext c" by simp
      have "projection_events (feed_docs r) who c ct (NameOf (feed_opts r)) e (p # ps)
          = [ce] @ projection_events (feed_docs r) who c ct (NameOf (feed_opts r)) e ps"
        using Inr Some by (simp add: projection_events_def)
      moreover have "emitProjections r who c ct (TenantIDFromContext c) e (p # ps) w =
          (case feed_publish r c ce w of
             (Done, w1) \<Rightarrow> emitProjections r who c ct (TenantIDFromContext c) e ps w1 | (o', w1) \<Rightarrow> (o', w1))"
        using Inr Some by simp
      ultimately show ?thesis by (simp only: emits_then [OF publish_emits [OF assms b] Cons])
    qed
  qed
qed

lemma emit_emits:
  assumes "feed_pub r = pub" "enrolled c"
  shows "emits (feed_codec r) (change_events r who c ct e before fm) w (emit r who c ct e before fm w)"
proof (cases "feed_tenant r c")
  case (Inl err)
  then show ?thesis by (simp add: emit_def emits_fail)
next
  case (Inr t)
  then have t: "t = TenantIDFromContext c" by (simp add: feed_tenant_def Let_def split: if_splits)
  show ?thesis
  proof (cases "feed_marshal r e")
    case (Inl err)
    then show ?thesis using Inr by (simp add: emit_def emits_fail)
  next
    case (Inr img)
    let ?ce = "entity_event r who c ct (TenantIDFromContext c) e before fm img"
    have "emits (feed_codec r) [?ce] w (feed_publish r c ?ce w)"
      by (rule publish_emits [OF assms]) (simp_all add: entity_event_def)
    from emits_then [OF this projections_emit [OF assms]] show ?thesis
      using \<open>feed_tenant r c = Inr t\<close> Inr by (simp add: emit_def t change_events_def)
  qed
qed

lemma emitDelete_emits:
  assumes "feed_pub r = pub" "enrolled c"
  shows "emits (feed_codec r) (deletion_events r who c key snap) w (emitDelete r who c key snap w)"
proof (cases "feed_tenant r c")
  case (Inl err)
  then show ?thesis by (simp add: emitDelete_def emits_fail)
next
  case (Inr t)
  then have t: "t = TenantIDFromContext c" by (simp add: feed_tenant_def Let_def split: if_splits)
  let ?ce = "deletion_event r who c (TenantIDFromContext c) key snap"
  have ce: "emits (feed_codec r) [?ce] w (feed_publish r c ?ce w)"
    by (intro publish_emits [OF assms]) (simp_all add: deletion_event_def)
  show ?thesis
  proof (cases snap)
    case None
    obtain o1 w1 where p: "feed_publish r c ?ce w = (o1, w1)" by fastforce
    have "emitDelete r who c key snap w = (o1, w1)" using Inr None p by (cases o1) (simp_all add: emitDelete_def t)
    then show ?thesis using ce None p by (simp add: deletion_events_def)
  next
    case (Some e)
    obtain o1 w1 where p: "feed_publish r c ?ce w = (o1, w1)" by fastforce
    let ?k = "emitProjections r who c ChangeDelete (TenantIDFromContext c) e (Projections (feed_opts r))"
    have eq: "emitDelete r who c key snap w = (case feed_publish r c ?ce w of (Done, w1) \<Rightarrow> ?k w1 | (o', w1) \<Rightarrow> (o', w1))"
      using Inr Some p by (cases o1) (simp_all add: emitDelete_def t)
    have "emits (feed_codec r) ([?ce] @ projection_events (feed_docs r) who c ChangeDelete (NameOf (feed_opts r)) e (Projections (feed_opts r))) w
        (case feed_publish r c ?ce w of (Done, w1) \<Rightarrow> ?k w1 | (o', w1) \<Rightarrow> (o', w1))"
      by (rule emits_then [OF ce projections_emit [OF assms]])
    then show ?thesis unfolding eq using Some by (simp add: deletion_events_def)
  qed
qed

end

text \<open>The outbox publisher keeps the contract: its rows are the recorded events.\<close>

definition outbox_feed :: "nat \<Rightarrow> ('a part, 'z) txw_scheme \<Rightarrow> Event list" where
  "outbox_feed ob w = map (\<lambda>row. eventFromRecord row\<lparr>evID := []\<rparr>) (rows_of (store w ob))"

definition outbox_same :: "nat \<Rightarrow> ('a part, 'z) txw_scheme \<Rightarrow> ('a part, 'z) txw_scheme \<Rightarrow> bool" where
  "outbox_same ob w w' \<longleftrightarrow> held w' = held w \<and> txw.more w' = txw.more w \<and> (\<forall>p. p \<noteq> ob \<longrightarrow> store w' p = store w p)"

interpretation outbox: change_sink "outbox_pub ob uuid tnow" "outbox_feed ob" "outbox_same ob" "inThisTx ob"
  for ob and uuid :: "('a part, 'z) txw_scheme \<Rightarrow> string" and tnow
proof unfold_locales
  fix c :: ctx and evt :: Event and w :: "('a part, 'z) txw_scheme"
  assume "inThisTx ob c" "evAccountID evt = TenantIDFromContext c" "evID evt = []" "evSeq evt = 0" "evEpoch evt = 0"
  then show "\<exists>w'. outbox_pub ob uuid tnow c evt w = (Done, w') \<and> outbox_feed ob w' = outbox_feed ob w @ [evt] \<and> outbox_same ob w w'"
    by (auto simp: outbox_pub_def Publish_def RequireTx_def inThisTx_def outbox_Append_def outbox_row_def outbox_feed_def
        outbox_same_def eventFromRecord_def Let_def split: option.splits)
qed (auto simp: outbox_same_def)

section \<open>The decorated repository in a transaction\<close>

datatype ('t, 'k) change_op = FCreate 't | FUpdate 'k 't "string list" | FDelete 'k | FUndelete 'k

fun feed_do :: "('p, 't, 'k, 'd, 'm) emitter \<Rightarrow> caller \<Rightarrow> ctx \<Rightarrow> ('t, 'k) change_op \<Rightarrow> ('p, 't) feed_world
    \<Rightarrow> outcome \<times> ('p, 't) feed_world" where
  "feed_do r who c (FCreate e) w = (case feed_Create r who c e w of ((o', _), w') \<Rightarrow> (o', w'))"
| "feed_do r who c (FUpdate k e fm) w = (case feed_Update r who c k e fm w of ((o', _), w') \<Rightarrow> (o', w'))"
| "feed_do r who c (FDelete k) w = feed_Delete r who c k w"
| "feed_do r who c (FUndelete k) w = (case feed_Undelete r who c k w of ((o', _), w') \<Rightarrow> (o', w'))"

text \<open>The repository's own operation, whether it succeeds, and the events that the operation owes.\<close>

fun repo_do :: "string \<Rightarrow> string \<Rightarrow> ('t, 'k) change_op \<Rightarrow> ('t, 'k) MemoryRepository \<Rightarrow> bool \<times> ('t, 'k) MemoryRepository" where
  "repo_do uuid ifm (FCreate e) R = (case repo_Create uuid e R of (x, _, R') \<Rightarrow> (\<not> isl x, R'))"
| "repo_do uuid ifm (FUpdate k e fm) R = (case repo_Update uuid ifm k e R of (x, _, R') \<Rightarrow> (\<not> isl x, R'))"
| "repo_do uuid ifm (FDelete k) R = (case repo_Delete k R of (x, R') \<Rightarrow> (x = None, R'))"
| "repo_do uuid ifm (FUndelete k) R = (case repo_Undelete k R of (x, R') \<Rightarrow> (\<not> isl x, R'))"

definition stored :: "'k \<Rightarrow> ('t, 'k) MemoryRepository \<Rightarrow> 't option" where
  "stored k R = get_ok (fst (repo_Get k R))"

fun owed :: "('w, 't, 'k, 'd, 'm) changeEmitter \<Rightarrow> caller \<Rightarrow> ctx \<Rightarrow> ('t, 'k) change_op \<Rightarrow> ('t, 'k) MemoryRepository
    \<Rightarrow> ChangeEvent list" where
  "owed r who c (FCreate e) R = change_events r who c ChangeCreate e None []"
| "owed r who c (FUpdate k e fm) R =
     change_events r who c ChangeUpdate e (if EmitBefore (feed_opts r) then stored k R else None) fm"
| "owed r who c (FDelete k) R =
     deletion_events r who c k (if NameOf (feed_opts r) \<noteq> None \<or> EmitBefore (feed_opts r) then stored k R else None)"
| "owed r who c (FUndelete k) R = change_events r who c ChangeUndelete (the (items R k)) None []"

text \<open>A transaction whose body runs one repository operation and then emits.\<close>

definition mem_emitter :: "nat list \<Rightarrow> nat \<Rightarrow> nat \<Rightarrow> string \<Rightarrow> string \<Rightarrow> (('t, 'k) mem_world \<Rightarrow> string) \<Rightarrow> go_time
    \<Rightarrow> ('t, 'd) ChangeFeedOptions \<Rightarrow> ('d, 'm) docs \<Rightarrow> codec \<Rightarrow> ('t \<Rightarrow> 'd) \<Rightarrow> ('k \<Rightarrow> string)
    \<Rightarrow> (('t, 'k) mem_world, 't, 'k, 'd, 'm) changeEmitter" where
  "mem_emitter m rp ob uuid ifm evid tnow opt D J doc sk =
     \<lparr>inner = mem_inner rp uuid ifm, feed_tx = m, feed_pub = outbox_pub ob evid tnow, feed_opts = opt, feed_docs = D,
      feed_codec = J, entity_doc = doc, show_key = sk\<rparr>"

lemma mem_emitter_fields [simp]:
  "feed_tx (mem_emitter m rp ob uuid ifm evid tnow opt D J doc sk) = m"
  "feed_pub (mem_emitter m rp ob uuid ifm evid tnow opt D J doc sk) = outbox_pub ob evid tnow"
  "feed_opts (mem_emitter m rp ob uuid ifm evid tnow opt D J doc sk) = opt"
  "feed_docs (mem_emitter m rp ob uuid ifm evid tnow opt D J doc sk) = D"
  "feed_codec (mem_emitter m rp ob uuid ifm evid tnow opt D J doc sk) = J"
  "inner (mem_emitter m rp ob uuid ifm evid tnow opt D J doc sk) = mem_inner rp uuid ifm"
  by (simp_all add: mem_emitter_def)

text \<open>What the transaction leaves: the operation with its events, or the world of before.\<close>

definition atomic_change :: "nat \<Rightarrow> nat \<Rightarrow> codec \<Rightarrow> ChangeEvent list \<Rightarrow> bool \<times> ('t, 'k) MemoryRepository
    \<Rightarrow> (('t, 'k) MemoryRepository part, 'z) txw_scheme \<Rightarrow> outcome \<times> (('t, 'k) MemoryRepository part, 'z) txw_scheme \<Rightarrow> bool" where
  "atomic_change rp ob J ces eff w res \<longleftrightarrow>
     held (snd res) = held w
     \<and> (if fst res = Done
        then fst eff \<and> store (snd res) rp = Aggregate (snd eff)
             \<and> (\<exists>evts. map (ToEvent J) ces = map Inr evts \<and> outbox_feed ob (snd res) = outbox_feed ob w @ evts)
             \<and> (\<forall>p. p \<noteq> rp \<and> p \<noteq> ob \<longrightarrow> store (snd res) p = store w p)
        else (\<exists>e. fst res = Failed e) \<and> store (snd res) = store w)"

text \<open>The body of such a transaction, seen from the world it starts in.\<close>

definition body_effect :: "nat \<Rightarrow> nat \<Rightarrow> codec \<Rightarrow> ChangeEvent list \<Rightarrow> bool \<times> ('t, 'k) MemoryRepository
    \<Rightarrow> (('t, 'k) MemoryRepository part, 'z) txw_scheme \<Rightarrow> outcome \<times> (('t, 'k) MemoryRepository part, 'z) txw_scheme \<Rightarrow> bool" where
  "body_effect rp ob J ces eff w res \<longleftrightarrow>
     held (snd res) = held w \<and> (\<forall>p. p \<noteq> rp \<and> p \<noteq> ob \<longrightarrow> store (snd res) p = store w p)
     \<and> (fst res = Done \<or> (\<exists>e. fst res = Failed e))
     \<and> (fst res = Done \<longrightarrow> fst eff \<and> store (snd res) rp = Aggregate (snd eff)
          \<and> (\<exists>evts. map (ToEvent J) ces = map Inr evts \<and> outbox_feed ob (snd res) = outbox_feed ob w @ evts))"

lemma body_atomic:
  assumes "tx_start m c w" "rp \<in> set m" "ob \<in> set m"
    and "body_effect rp ob J ces eff (enter m w) (body (WithTx c (set m)) (enter m w))"
  shows "atomic_change rp ob J ces eff w (Atomically m c body w)"
proof -
  obtain o1 w1 where b: "body (WithTx c (set m)) (enter m w) = (o1, w1)" by fastforce
  have eff: "held w1 = set m \<union> held w" "\<And>p. p \<noteq> rp \<Longrightarrow> p \<noteq> ob \<Longrightarrow> store w1 p = store w p"
    "o1 = Done \<or> (\<exists>e. o1 = Failed e)"
    using assms(4) [unfolded b] by (simp_all add: body_effect_def enter_def)
  have h: "held w1 - set m = held w" using assms(1) eff(1) by (auto simp: tx_start_def)
  show ?thesis
  proof (cases "o1 = Done")
    case True
    have "fst eff \<and> store w1 rp = Aggregate (snd eff)
        \<and> (\<exists>evts. map (ToEvent J) ces = map Inr evts \<and> outbox_feed ob w1 = outbox_feed ob w @ evts)"
      using assms(4) [unfolded b] True by (simp add: body_effect_def enter_def outbox_feed_def)
    moreover have "Atomically m c body w = (Done, w1\<lparr>held := held w1 - set m\<rparr>)"
      unfolding Atomically_start [OF assms(1)] b True by simp
    ultimately show ?thesis using eff(2) by (simp add: atomic_change_def outbox_feed_def h)
  next
    case False
    then obtain e where e: "o1 = Failed e" using eff(3) by blast
    have "store (restoreForTx (snapshotForTx m w) w1) p = store w p" for p
      using eff(2) [of p] assms(1-3) by (auto simp: restore_store tx_start_def)
    moreover have "Atomically m c body w = (Failed e, (restoreForTx (snapshotForTx m w) w1)\<lparr>held := held w1 - set m\<rparr>)"
      unfolding Atomically_start [OF assms(1)] b e by simp
    ultimately show ?thesis by (simp add: atomic_change_def h fun_eq_iff)
  qed
qed

lemma failed_effect: "fst res = Failed e \<Longrightarrow> held (snd res) = held w \<Longrightarrow> (\<And>p. p \<noteq> rp \<Longrightarrow> store (snd res) p = store w p)
    \<Longrightarrow> body_effect rp ob J ces eff w res"
  by (simp add: body_effect_def)

lemma emitted_effect:
  assumes "change_sink.emits (outbox_feed ob) (outbox_same ob) J ces w1 res" "rp \<noteq> ob"
    and "held w1 = held w" "store w1 = (store w)(rp := Aggregate R')" "eff = (True, R')"
  shows "body_effect rp ob J ces eff w res"
proof -
  have same: "held (snd res) = held w1" "\<And>p. p \<noteq> ob \<Longrightarrow> store (snd res) p = store w1 p"
    and res: "fst res = Done \<or> (\<exists>e. fst res = Failed e)"
    and feed: "fst res = Done \<Longrightarrow> \<exists>evts. map (ToEvent J) ces = map Inr evts \<and> outbox_feed ob (snd res) = outbox_feed ob w1 @ evts"
    using assms(1) unfolding outbox.emits_def outbox_same_def by blast+
  have w: "outbox_feed ob w1 = outbox_feed ob w" using assms(2) by (simp add: outbox_feed_def assms(4))
  have "store (snd res) rp = Aggregate R'" using same(2) [OF assms(2)] by (simp add: assms(4))
  moreover have "store (snd res) p = store w p" if "p \<noteq> rp" "p \<noteq> ob" for p
    using same(2) [OF that(2)] that(1) by (simp add: assms(4))
  ultimately show ?thesis using res feed unfolding body_effect_def same(1) assms(3) assms(5) w by simp
qed

lemma enrolled_in_tx: "ob \<in> set m \<Longrightarrow> inThisTx ob (WithTx c (set m))"
  by (simp add: inThisTx_def TxFromContext_def WithTx_def)

text \<open>The tenant and the caller are the same inside the transaction.\<close>

lemma in_tx_context [simp]:
  "TenantIDFromContext (WithTx c s) = TenantIDFromContext c" "principalTenant (WithTx c s) = principalTenant c"
  by (simp_all add: WithTx_def TenantIDFromContext_def split: option.split)

lemma outbox_feed_out [simp]: "outbox_feed ob (w\<lparr>out := x\<rparr>) = outbox_feed ob w"
  by (simp add: outbox_feed_def)

lemma returning_atomic:
  "atomic_change rp ob J ces eff (w\<lparr>out := x\<rparr>) res \<Longrightarrow>
     atomic_change rp ob J ces eff w (case returning res of ((o', _), w') \<Rightarrow> (o', w'))"
  by (simp add: returning_def atomic_change_def cong: if_cong)

lemma tx_start_out: "tx_start m c (w\<lparr>out := x\<rparr>) = tx_start m c w"
  by (simp add: tx_start_def)

lemma mem_inner_ops:
  "i_Get (mem_inner rp uuid ifm) c k w = fst (repo_Get k (repo_of (store w rp)))"
  "i_Create (mem_inner rp uuid ifm) c e w =
     (case repo_Create uuid e (repo_of (store w rp)) of (x, _, R) \<Rightarrow> (x, put_repo rp R w))"
  "i_Update (mem_inner rp uuid ifm) c k e fm w =
     (case repo_Update uuid ifm k e (repo_of (store w rp)) of (x, _, R) \<Rightarrow> (x, put_repo rp R w))"
  "i_Delete (mem_inner rp uuid ifm) c k w = (case repo_Delete k (repo_of (store w rp)) of (y, R) \<Rightarrow> (y, put_repo rp R w))"
  "i_Undelete (mem_inner rp uuid ifm) c k w = (case repo_Undelete k (repo_of (store w rp)) of (x, R) \<Rightarrow> (x, put_repo rp R w))"
  by (simp_all add: mem_inner_def)

lemma put_repo_simps [simp]:
  "store (put_repo rp R w) = (store w)(rp := Aggregate R)" "held (put_repo rp R w) = held w"
  by (simp_all add: put_repo_def)

text \<open>
  A body that runs an operation of the repository and, when it succeeds, emits; \<open>res\<close> is the operation's result and \<open>k\<close> the
  emission.
\<close>

lemma op_then_emit:
  assumes "\<And>v. x = Inr v \<Longrightarrow> change_sink.emits (outbox_feed ob) (outbox_same ob) J ces (upd v (put_repo rp R' w)) (k v (upd v (put_repo rp R' w)))"
    and "\<And>v w. held (upd v w) = held w \<and> store (upd v w) = store w" "rp \<noteq> ob" "eff = (\<not> isl x, R')"
  shows "body_effect rp ob J ces eff w
    (case (x, put_repo rp R' w) of (Inl e, w1) \<Rightarrow> (Failed e, w1) | (Inr v, w1) \<Rightarrow> k v (upd v w1))"
proof (cases x)
  case (Inl e)
  then show ?thesis by (auto intro: failed_effect [of _ e])
next
  case (Inr v)
  have "body_effect rp ob J ces eff w (k v (upd v (put_repo rp R' w)))"
    using assms(2) [of v "put_repo rp R' w"] assms(4) Inr by (intro emitted_effect [OF assms(1) [OF Inr] assms(3)]) simp_all
  then show ?thesis using Inr by simp
qed

lemma Create_result: "repo_Create uuid e R = (Inr v, u, R') \<Longrightarrow> v = e"
  by (auto simp: repo_Create_def Let_def split: option.splits)

lemma Update_result: "repo_Update uuid ifm k e R = (Inr v, u, R') \<Longrightarrow> v = e"
  by (auto simp: repo_Update_def split: option.splits if_splits)

lemma Undelete_result: "repo_Undelete k R = (Inr v, R') \<Longrightarrow> v = the (items R k)"
  by (auto simp: repo_Undelete_def split: option.splits if_splits)

lemma feed_do_atomic:
  fixes w :: "('t, 'k) mem_world"
  assumes "tx_start m c w" "rp \<in> set m" "ob \<in> set m" "rp \<noteq> ob" "store w rp = Aggregate R"
    and "r = mem_emitter m rp ob uuid ifm evid tnow opt D J doc sk"
  shows "atomic_change rp ob J (owed r who (WithTx c (set m)) x R) (repo_do uuid ifm x R) w (feed_do r who c x w)"
proof -
  let ?c = "WithTx c (set m)" and ?w = "enter m (w\<lparr>out := None\<rparr>)"
  have pub: "feed_pub r = outbox_pub ob evid tnow" and J: "feed_codec r = J" by (simp_all add: assms(6))
  note emits = outbox.emit_emits [OF pub enrolled_in_tx [OF assms(3)], unfolded J]
    outbox.emitDelete_emits [OF pub enrolled_in_tx [OF assms(3)], unfolded J]
  have R: "repo_of (store ?w rp) = R" "repo_of (store (enter m w) rp) = R" using assms(5) by (simp_all add: enter_def)
  have inner: "inner r = mem_inner rp uuid ifm" "feed_tx r = m" by (simp_all add: assms(6))
  have start: "tx_start m c (w\<lparr>out := None\<rparr>)" using assms(1) by (simp add: tx_start_out)
  show ?thesis
  proof (cases x)
    case (FCreate e)
    obtain y u R' where eq: "repo_Create uuid e R = (y, u, R')" by (cases "repo_Create uuid e R") auto
    have "body_effect rp ob J (owed r who ?c x R) (repo_do uuid ifm x R) ?w
        (case (y, put_repo rp R' ?w) of (Inl err, w1) \<Rightarrow> (Failed err, w1)
          | (Inr v, w1) \<Rightarrow> emit r who ?c ChangeCreate v None [] (w1\<lparr>out := Some v\<rparr>))"
      using Create_result [of uuid e R] eq
      by (intro op_then_emit [where upd = "\<lambda>v w. w\<lparr>out := Some v\<rparr>"]) (simp_all add: FCreate emits(1) assms(4))
    then show ?thesis unfolding FCreate feed_do.simps feed_Create_def inner
      by (intro returning_atomic [where x = None] body_atomic [OF start assms(2,3)]) (simp add: mem_inner_ops R eq)
  next
    case (FUpdate k e fm)
    obtain y u R' where eq: "repo_Update uuid ifm k e R = (y, u, R')" by (cases "repo_Update uuid ifm k e R") auto
    let ?b = "if EmitBefore (feed_opts r) then stored k R else None"
    have "body_effect rp ob J (owed r who ?c x R) (repo_do uuid ifm x R) ?w
        (case (y, put_repo rp R' ?w) of (Inl err, w1) \<Rightarrow> (Failed err, w1)
          | (Inr v, w1) \<Rightarrow> emit r who ?c ChangeUpdate v ?b fm (w1\<lparr>out := Some v\<rparr>))"
      using Update_result [of uuid ifm k e R] eq
      by (intro op_then_emit [where upd = "\<lambda>v w. w\<lparr>out := Some v\<rparr>"]) (simp_all add: FUpdate emits(1) assms(4))
    then show ?thesis unfolding FUpdate feed_do.simps feed_Update_def inner
      by (intro returning_atomic [where x = None] body_atomic [OF start assms(2,3)]) (simp add: mem_inner_ops R eq stored_def Let_def cong: if_cong sum.case_cong)
  next
    case (FDelete k)
    obtain y R' where eq: "repo_Delete k R = (y, R')" by (cases "repo_Delete k R") auto
    let ?s = "if NameOf (feed_opts r) \<noteq> None \<or> EmitBefore (feed_opts r) then stored k R else None"
    have "body_effect rp ob J (owed r who ?c x R) (repo_do uuid ifm x R) (enter m w)
        (case y of Some err \<Rightarrow> (Failed err, put_repo rp R' (enter m w))
          | None \<Rightarrow> emitDelete r who ?c k ?s (put_repo rp R' (enter m w)))"
    proof (cases y)
      case None
      then show ?thesis using emitted_effect [OF emits(2) assms(4)] by (simp add: FDelete eq)
    next
      case (Some err)
      then show ?thesis by (auto intro: failed_effect [of _ err])
    qed
    then show ?thesis unfolding FDelete feed_do.simps feed_Delete_def inner
      by (intro body_atomic [OF assms(1-3)]) (simp add: mem_inner_ops R eq stored_def Let_def cong: if_cong option.case_cong)
  next
    case (FUndelete k)
    obtain y R' where eq: "repo_Undelete k R = (y, R')" by (cases "repo_Undelete k R") auto
    have "body_effect rp ob J (owed r who ?c x R) (repo_do uuid ifm x R) ?w
        (case (y, put_repo rp R' ?w) of (Inl err, w1) \<Rightarrow> (Failed err, w1)
          | (Inr v, w1) \<Rightarrow> emit r who ?c ChangeUndelete v None [] (w1\<lparr>out := Some v\<rparr>))"
      using Undelete_result [of k R] eq
      by (intro op_then_emit [where upd = "\<lambda>v w. w\<lparr>out := Some v\<rparr>"]) (simp_all add: FUndelete emits(1) assms(4))
    then show ?thesis unfolding FUndelete feed_do.simps feed_Undelete_def inner
      by (intro returning_atomic [where x = None] body_atomic [OF start assms(2,3)]) (simp add: mem_inner_ops R eq)
  qed
qed

section \<open>The index of a projection\<close>

text \<open>
  A consumer that keeps one document per resource name from the events of one projection, as a search index does. It is
  not part of the SDK; it says what the projection's events are for.
\<close>

definition apply_change :: "string \<Rightarrow> ChangeEvent \<Rightarrow> (string \<Rightarrow> string option) \<Rightarrow> string \<Rightarrow> string option" where
  "apply_change ty ce idx =
     (if ResourceType ce \<noteq> ty then idx
      else if Change ce = ChangeDelete then idx(ResourceName ce := None)
      else idx(ResourceName ce \<mapsto> After ce))"

definition index_from :: "codec \<Rightarrow> string \<Rightarrow> Event list \<Rightarrow> string \<Rightarrow> string option" where
  "index_from J ty evts =
     fold (\<lambda>evt idx. case ChangeEventFromEvent J evt of Inr ce \<Rightarrow> apply_change ty ce idx | Inl _ \<Rightarrow> idx) evts Map.empty"

fun run_feed :: "('p, 't, 'k, 'd, 'm) emitter \<Rightarrow> (caller \<times> ctx \<times> ('t, 'k) change_op) list \<Rightarrow> ('p, 't) feed_world
    \<Rightarrow> ('p, 't) feed_world" where
  "run_feed r [] w = w"
| "run_feed r ((who, c, x) # xs) w = run_feed r xs (snd (feed_do r who c x w))"

text \<open>The calls are requests of their own, and updates address a resource that exists by its own key.\<close>

fun op_ok :: "('t \<Rightarrow> 'k) \<Rightarrow> ('t, 'k) MemoryRepository \<Rightarrow> ('t, 'k) change_op \<Rightarrow> bool" where
  "op_ok kf R (FUpdate k e fm) \<longleftrightarrow> kf e = k \<and> live R k"
| "op_ok kf R _ \<longleftrightarrow> True"

fun calls_ok :: "(('t, 'k) MemoryRepository part, 't, 'k, 'd, 'm) emitter \<Rightarrow> nat \<Rightarrow> ('t \<Rightarrow> 'k)
    \<Rightarrow> (caller \<times> ctx \<times> ('t, 'k) change_op) list \<Rightarrow> ('t, 'k) mem_world \<Rightarrow> bool" where
  "calls_ok r rp kf [] w \<longleftrightarrow> True"
| "calls_ok r rp kf ((who, c, x) # xs) w \<longleftrightarrow>
     memTxSet c = None \<and> op_ok kf (repo_of (store w rp)) x \<and> calls_ok r rp kf xs (snd (feed_do r who c x w))"

text \<open>A projection that shows every entity under a name of its key.\<close>

definition total_projection :: "('d, 'm) docs \<Rightarrow> ('t, 'd) Projection \<Rightarrow> ('t \<Rightarrow> 'k) \<Rightarrow> ('k \<Rightarrow> string) \<Rightarrow> ('t \<Rightarrow> string) \<Rightarrow> bool" where
  "total_projection D p kf nm img \<longleftrightarrow> (\<forall>e. snd (Project p e)) \<and> pNameOf p = Some (nm \<circ> kf) \<and> inj nm
     \<and> (\<forall>e. marshalDoc D (fst (Project p e)) (pMarshal p) = Inr (img e))"

definition keyed :: "('t \<Rightarrow> 'k) \<Rightarrow> ('t, 'k) MemoryRepository \<Rightarrow> bool" where
  "keyed kf R \<longleftrightarrow> keyFn R = kf \<and> rdeleted R \<subseteq> dom (items R) \<and> (\<forall>k e. items R k = Some e \<longrightarrow> kf e = k)"

definition in_sync :: "('k \<Rightarrow> string) \<Rightarrow> ('t \<Rightarrow> string) \<Rightarrow> ('t, 'k) MemoryRepository \<Rightarrow> (string \<Rightarrow> string option) \<Rightarrow> bool" where
  "in_sync nm img R idx \<longleftrightarrow> (\<forall>k. idx (nm k) = (if live R k then map_option img (items R k) else None))"

lemma keyed_step: "keyed kf R \<Longrightarrow> op_ok kf R x \<Longrightarrow> repo_do uuid ifm x R = (True, R') \<Longrightarrow> keyed kf R'"
  by (cases x) (auto simp: keyed_def repo_Create_def repo_Update_def repo_Delete_def repo_Undelete_def Let_def
      split: option.splits if_splits)

lemma projection_event:
  assumes "total_projection D p kf nm img"
  shows "projection_events D who c ct f e [p] =
    [\<lparr>Tenant = TenantIDFromContext c, ResourceType = pResourceType p, ResourceName = nm (kf e), Change = ct, FieldMask = [],
      ceActor = actorFromContext who c, RequestID = callRequest who,
      Revision = (case pRevisionOf p of Some f \<Rightarrow> f e | None \<Rightarrow> []), Before = [],
      After = (if ct = ChangeDelete then [] else img e), Seq = 0, Epoch = 0\<rparr>]"
proof -
  obtain d where "Project p e = (d, True)" using assms unfolding total_projection_def by (metis prod.collapse)
  moreover have "marshalDoc D d (pMarshal p) = Inr (img e)" using assms calculation unfolding total_projection_def by (metis fst_conv)
  ultimately show ?thesis using assms by (simp add: projection_events_def buildProjectionEvent_def total_projection_def Let_def)
qed

lemma decode_events:
  assumes "codec_ok J" "map (ToEvent J) ces = map Inr evts" "\<forall>ce\<in>set ces. Seq ce = 0 \<and> Epoch ce = 0"
  shows "map (ChangeEventFromEvent J) evts = map Inr ces"
  using assms(2,3)
proof (induction ces arbitrary: evts)
  case Nil
  then show ?case by simp
next
  case (Cons ce ces)
  then obtain evt rest where e: "evts = evt # rest" "ToEvent J ce = Inr evt" "map (ToEvent J) ces = map Inr rest" by auto
  obtain s where "ce_marshal J ce = Some s" using e(2) by (auto simp: ToEvent_def split: option.splits)
  then have "ChangeEventFromEvent J evt = Inr ce"
    using e(2) assms(1) Cons.prems(2) by (auto simp: ToEvent_def ChangeEventFromEvent_def codec_ok_def)
  then show ?case using Cons.IH [OF e(3)] Cons.prems(2) by (simp add: e(1))
qed

lemma owed_unsequenced: "\<forall>ce\<in>set (owed r who c x R). Seq ce = 0 \<and> Epoch ce = 0"
proof -
  have p: "ce \<in> set (projection_events (feed_docs r) who c ct nm e ps) \<Longrightarrow> Seq ce = 0 \<and> Epoch ce = 0" for ct nm e ps ce
    by (auto simp: projection_events_def split: sum.splits option.splits dest: built_event [OF sym])
  show ?thesis
    by (cases x) (auto simp: change_events_def deletion_events_def entity_event_def deletion_event_def dest: p split: option.splits if_splits)
qed

text \<open>One operation moves the index with the repository.\<close>

lemma sync_step:
  assumes "total_projection (feed_docs r) p kf nm img" "Projections (feed_opts r) = [p]" "feedType (feed_opts r) \<noteq> pResourceType p"
    and "NameOf (feed_opts r) \<noteq> None \<or> EmitBefore (feed_opts r)"
    and "keyed kf R" "op_ok kf R x" "repo_do uuid ifm x R = (True, R')" "in_sync nm img R idx"
  shows "in_sync nm img R' (fold (apply_change (pResourceType p)) (owed r who c x R) idx)"
proof -
  have inj: "nm a = nm b \<longleftrightarrow> a = b" for a b using assms(1) by (auto simp: total_projection_def inj_def)
  note pe = projection_event [OF assms(1)]
  note defs = in_sync_def live_def apply_change_def assms(2) pe
  show ?thesis
  proof (cases x)
    case (FCreate e)
    then show ?thesis using assms(3,5,7,8)
      by (auto simp: defs change_events_def entity_event_def inj repo_Create_def keyed_def Let_def split: option.splits)
  next
    case (FUpdate k e fm)
    then show ?thesis using assms(3,5-8)
      by (auto simp: defs change_events_def entity_event_def inj repo_Update_def split: option.splits if_splits)
  next
    case (FDelete k)
    then obtain e where e: "items R k = Some e" "k \<notin> rdeleted R" "R' = R\<lparr>rdeleted := insert k (rdeleted R)\<rparr>"
      using assms(7) by (auto simp: repo_Delete_def split: option.splits if_splits)
    then have "stored k R = Some e" "kf e = k" using assms(5) by (simp_all add: stored_def repo_Get_def get_ok_def keyed_def)
    then show ?thesis using assms(3,4,8) e FDelete
      by (simp add: defs deletion_events_def deletion_event_def inj)
  next
    case (FUndelete k)
    then show ?thesis using assms(3,5,7,8)
      by (auto simp: defs change_events_def entity_event_def inj repo_Undelete_def keyed_def split: option.splits if_splits)
  qed
qed

text \<open>The whole run: the index read off the outbox stays in step with the repository.\<close>

lemma index_append:
  assumes "map (ChangeEventFromEvent J) evts = map Inr ces"
  shows "index_from J ty (es @ evts) = fold (apply_change ty) ces (index_from J ty es)"
proof -
  have "fold (\<lambda>evt idx. case ChangeEventFromEvent J evt of Inr ce \<Rightarrow> apply_change ty ce idx | Inl _ \<Rightarrow> idx) evts idx
      = fold (apply_change ty) ces idx" for idx
    using assms
  proof (induction evts arbitrary: ces idx)
    case (Cons evt evts)
    then obtain ce rest where "ces = ce # rest" "ChangeEventFromEvent J evt = Inr ce"
      "map (ChangeEventFromEvent J) evts = map Inr rest" by (cases ces) auto
    then show ?case using Cons.IH by simp
  qed simp
  then show ?thesis by (simp add: index_from_def)
qed

definition feed_inv :: "codec \<Rightarrow> nat \<Rightarrow> nat \<Rightarrow> ('t \<Rightarrow> 'k) \<Rightarrow> ('k \<Rightarrow> string) \<Rightarrow> ('t \<Rightarrow> string) \<Rightarrow> string \<Rightarrow> ('t, 'k) mem_world \<Rightarrow> bool" where
  "feed_inv J rp ob kf nm img ty w \<longleftrightarrow> held w = {} \<and> (\<exists>R. store w rp = Aggregate R \<and> keyed kf R
     \<and> in_sync nm img R (index_from J ty (outbox_feed ob w)))"

lemma feed_inv_step:
  assumes "distinct m" "rp \<in> set m" "ob \<in> set m" "rp \<noteq> ob" "codec_ok J" "r = mem_emitter m rp ob uuid ifm evid tnow opt D J doc sk"
    and "total_projection D p kf nm img" "Projections opt = [p]" "feedType opt \<noteq> pResourceType p" "NameOf opt \<noteq> None \<or> EmitBefore opt"
    and "feed_inv J rp ob kf nm img (pResourceType p) w" "memTxSet c = None" "op_ok kf (repo_of (store w rp)) x"
  shows "feed_inv J rp ob kf nm img (pResourceType p) (snd (feed_do r who c x w))"
proof -
  obtain R where R: "store w rp = Aggregate R" "keyed kf R" "in_sync nm img R (index_from J (pResourceType p) (outbox_feed ob w))"
    and h: "held w = {}" using assms(11) by (auto simp: feed_inv_def)
  have "tx_start m c w" using assms(1,12) h by (simp add: tx_start_def joins_def TxFromContext_def)
  from feed_do_atomic [OF this assms(2-4) R(1) assms(6)]
  have ac: "atomic_change rp ob J (owed r who (WithTx c (set m)) x R) (repo_do uuid ifm x R) w (feed_do r who c x w)" .
  show ?thesis
  proof (cases "fst (feed_do r who c x w) = Done")
    case False
    then have "store (snd (feed_do r who c x w)) = store w" "held (snd (feed_do r who c x w)) = {}"
      using ac h by (simp_all add: atomic_change_def)
    then show ?thesis using R by (simp add: feed_inv_def outbox_feed_def)
  next
    case True
    then obtain R' evts where e: "repo_do uuid ifm x R = (True, R')" "store (snd (feed_do r who c x w)) rp = Aggregate R'"
      "map (ToEvent J) (owed r who (WithTx c (set m)) x R) = map Inr evts"
      "outbox_feed ob (snd (feed_do r who c x w)) = outbox_feed ob w @ evts" "held (snd (feed_do r who c x w)) = {}"
      using ac h by (cases "repo_do uuid ifm x R") (auto simp: atomic_change_def)
    have "keyed kf R'" using keyed_step [OF R(2) _ e(1)] assms(13) R(1) by simp
    moreover have "in_sync nm img R' (index_from J (pResourceType p) (outbox_feed ob w @ evts))"
      unfolding index_append [OF decode_events [OF assms(5) e(3) owed_unsequenced]]
      using assms(7-10,13) R e(1) by (intro sync_step [where kf = kf]) (simp_all add: assms(6))
    ultimately show ?thesis using e(2,5) unfolding feed_inv_def e(4) by blast
  qed
qed

section \<open>Properties\<close>

text \<open>C29: the change feed is part of the write. A create, update, delete or undelete through the decorator, with the repository
  and the outbox among the participants of its transaction, either fails and leaves every participant as it was, or
  performs exactly the repository's operation and appends exactly the change event of the entity followed by those of its
  projections, each stamped with the tenant of the request.\<close>

theorem change_feed_atomic:
  fixes w :: "('t, 'k) mem_world"
  assumes "tx_start m c w" "rp \<in> set m" "ob \<in> set m" "rp \<noteq> ob" "store w rp = Aggregate R"
    and "r = mem_emitter m rp ob uuid ifm evid tnow opt D J doc sk"
  shows "atomic_change rp ob J (owed r who (WithTx c (set m)) x R) (repo_do uuid ifm x R) w (feed_do r who c x w)"
  by (rule feed_do_atomic [OF assms])


section \<open>Examples\<close>

text \<open>A feed of numbered records with a flag: a record is named by its number and shown only when flagged.\<close>

definition exProjection :: "(nat \<times> bool \<Rightarrow> bool) \<Rightarrow> (nat \<times> bool, nat) Projection" where
  "exProjection shown = \<lparr>pResourceType = ''search.user'', Project = (\<lambda>e. (fst e, shown e)), pNameOf = Some ((\<lambda>k. replicate k CHR ''x'') \<circ> fst),
     pRevisionOf = None, pMarshal = Some (\<lambda>_. Inr ''doc'')\<rparr>"

definition exOptions :: "(nat \<times> bool \<Rightarrow> string) option \<Rightarrow> (nat \<times> bool \<Rightarrow> bool) \<Rightarrow> (nat \<times> bool, nat) ChangeFeedOptions" where
  "exOptions name_of shown = \<lparr>feedType = ''iam.user'', NameOf = name_of, RevisionOf = None, Marshal = Some (\<lambda>_. Inr ''{}''),
     AllowMissingTenant = False, EmitBefore = False, Projections = [exProjection shown]\<rparr>"

definition exDocs :: "(nat, unit) docs" where
  "exDocs = \<lparr>as_proto = (\<lambda>_. None), redact_Message = id, protojson_Marshal = (\<lambda>_. Inr []), json_Marshal = (\<lambda>_. Inr [])\<rparr>"

definition exCodec :: codec where
  "exCodec = \<lparr>ce_marshal = (\<lambda>ce. if FieldMask ce = [] \<and> ceActor ce = \<lparr>actorSubject = [], actorTenant = [], actorGroups = []\<rparr> \<and> RequestID ce = []
        \<and> Revision ce = [] \<and> Before ce = [] \<and> Tenant ce = ''acct'' \<and> ResourceType ce = ''search.user'' \<and> After ce = ''doc'' \<and> Change ce = ChangeCreate
      then Some (ResourceName ce) else None),
     ce_unmarshal = (\<lambda>s. Some \<lparr>Tenant = ''acct'', ResourceType = ''search.user'', ResourceName = s, Change = ChangeCreate, FieldMask = [],
       ceActor = \<lparr>actorSubject = [], actorTenant = [], actorGroups = []\<rparr>, RequestID = [], Revision = [], Before = [], After = ''doc'',
       Seq = 0, Epoch = 0\<rparr>)\<rparr>"

lemma exCodec_ok: "codec_ok exCodec"
  by (auto simp: codec_ok_def exCodec_def)

definition exEmitter :: "(nat \<times> bool \<Rightarrow> string) option \<Rightarrow> (nat \<times> bool \<Rightarrow> bool)
    \<Rightarrow> ((nat \<times> bool, nat) mem_world, nat \<times> bool, nat, nat, unit) changeEmitter" where
  "exEmitter name_of shown =
     mem_emitter [2, 3] 3 2 ''u'' [] (\<lambda>_. ''v'') 5 (exOptions name_of shown) exDocs exCodec fst (\<lambda>k. replicate k CHR ''x'')"

definition exContext :: ctx where
  "exContext = WithTenantID background ''acct''"

definition exCaller :: caller where
  "exCaller = \<lparr>callSubject = [], callGroups = [], callRequest = []\<rparr>"

definition exWorld :: "(nat \<times> bool, nat) mem_world" where
  "exWorld = \<lparr>store = (\<lambda>p. if p = 2 then Outbox [] else Aggregate (NewMemoryRepository fst)), held = {}, out = None\<rparr>"

text \<open>The events that a sequence of operations owes.\<close>

fun owed_run :: "('w, 't, 'k, 'd, 'm) changeEmitter \<Rightarrow> caller \<Rightarrow> ctx \<Rightarrow> ('t, 'k) change_op list \<Rightarrow> ('t, 'k) MemoryRepository
    \<Rightarrow> ChangeEvent list \<times> ('t, 'k) MemoryRepository" where
  "owed_run r who c [] R = ([], R)"
| "owed_run r who c (x # xs) R =
     (case repo_do ''u'' [] x R of
        (True, R') \<Rightarrow> (case owed_run r who c xs R' of (ces, R'') \<Rightarrow> (owed r who c x R @ ces, R''))
      | (False, _) \<Rightarrow> owed_run r who c xs R)"

lemma exWorld_start: "tx_start [2, 3] exContext exWorld"
  by (simp add: tx_start_def joins_def TxFromContext_def exContext_def exWorld_def background_def WithTenantID_def)

lemma exWorld_parts [simp]:
  "store exWorld 3 = Aggregate (NewMemoryRepository fst)" "held exWorld = {}" "outbox_feed 2 exWorld = []"
  by (simp_all add: exWorld_def outbox_feed_def)

theorem change_feed_atomic_witness:
  "atomic_change 3 2 exCodec (owed (exEmitter None snd) exCaller (WithTx exContext (set [2, 3])) (FCreate (7, True)) (NewMemoryRepository fst))
     (repo_do ''u'' [] (FCreate (7, True)) (NewMemoryRepository fst)) exWorld (feed_do (exEmitter None snd) exCaller exContext (FCreate (7, True)) exWorld)"
  by (rule change_feed_atomic [OF exWorld_start _ _ _ exWorld_parts(1) exEmitter_def]) simp_all

lemma exProjection_total: "total_projection exDocs (exProjection (\<lambda>_. True)) fst (\<lambda>k. replicate k CHR ''x'') (\<lambda>_. ''doc'')"
  by (auto simp: total_projection_def exProjection_def marshalDoc_def inj_def)


text \<open>the tenant of a change is the envelope's. Whatever payload an event carries, the decoded change has the tenant, the
  sequence number and the epoch of the outbox row; and an event the feed encoded decodes to the change it encodes.\<close>

theorem change_event_roundtrip:
  assumes "codec_ok J" "ToEvent J ce = Inr evt"
  shows "ChangeEventFromEvent J (evt\<lparr>evID := i, evAccountID := t, evSeq := n, evEpoch := ep\<rparr>)
      = Inr (ce\<lparr>Tenant := t, Seq := n, Epoch := ep\<rparr>)
    \<and> IsChangeEvent evt \<and> evAccountID evt = Tenant ce
    \<and> (\<forall>evt' ce'. ChangeEventFromEvent J evt' = Inr ce' \<longrightarrow> Tenant ce' = evAccountID evt' \<and> Seq ce' = evSeq evt' \<and> Epoch ce' = evEpoch evt')"
  using assms
  by (auto simp: ToEvent_def ChangeEventFromEvent_def codec_ok_def IsChangeEvent_def ChangeEventType_def split: option.splits)

theorem change_event_roundtrip_witness:
  "\<exists>ce evt. ToEvent exCodec ce = Inr evt \<and> ChangeEventFromEvent exCodec (evt\<lparr>evID := ''i'', evAccountID := ''t2'', evSeq := 7, evEpoch := 3\<rparr>)
      = Inr (ce\<lparr>Tenant := ''t2'', Seq := 7, Epoch := 3\<rparr>)"
proof -
  let ?ce = "the (ce_unmarshal exCodec ''n'')"
  have "ToEvent exCodec ?ce = Inr (projr (ToEvent exCodec ?ce))" by (simp add: exCodec_def ToEvent_def)
  from change_event_roundtrip [OF exCodec_ok this] this show ?thesis by blast
qed

text \<open>a hidden document stays in the index. A projection that stops showing a resource sends nothing for the update that
  hides it and nothing for its deletion, so a consumer keeps the last document shown.\<close>

theorem projection_goes_stale:
  "let (ces, R) = owed_run (exEmitter (Some (\<lambda>_. ''n'')) snd) exCaller exContext [FCreate (3, True), FUpdate 3 (3, False) [], FDelete 3]
         (NewMemoryRepository fst)
   in fold (apply_change ''search.user'') ces Map.empty ''xxx'' = Some ''doc'' \<and> \<not> live R 3"
  by (simp add: exEmitter_def mem_emitter_def repo_Create_def repo_Update_def repo_Delete_def NewMemoryRepository_def
      change_events_def deletion_events_def entity_event_def deletion_event_def projection_events_def buildProjectionEvent_def
      exOptions_def exProjection_def feed_marshal_def marshalDoc_def apply_change_def stored_def repo_Get_def get_ok_def live_def
      numeral_eq_Suc before_image_def)

text \<open>a deletion is not projected unless the feed names its entities. With a projection that has names of its own on a feed
  without \<^verbatim>\<open>NameOf\<close>, the decorator takes no snapshot before a deletion and the projection is not told.\<close>

theorem projection_misses_deletion:
  "let (ces, R) = owed_run (exEmitter None (\<lambda>_. True)) exCaller exContext [FCreate (3, True), FDelete 3] (NewMemoryRepository fst)
   in fold (apply_change ''search.user'') ces Map.empty ''xxx'' = Some ''doc'' \<and> \<not> live R 3"
  by (simp add: exEmitter_def mem_emitter_def repo_Create_def repo_Update_def repo_Delete_def NewMemoryRepository_def
      change_events_def deletion_events_def entity_event_def deletion_event_def projection_events_def buildProjectionEvent_def
      exOptions_def exProjection_def feed_marshal_def marshalDoc_def apply_change_def stored_def repo_Get_def get_ok_def live_def
      numeral_eq_Suc before_image_def)

end
