(* ===== verification/Events_Replay.thy ===== *)
theory Events_Replay
  imports Events_Change
begin

text \<open>
  Seeding a projection from the current state of a repository: \<^verbatim>\<open>ProjectExisting\<close> of \<^verbatim>\<open>src/events/projection.go\<close> pages through
  the live entities and publishes each page's events in one transaction.
\<close>

section \<open>The replay\<close>

text \<open>\<open>emitted\<close> is the counter that the closures increment; a rollback does not reset it.\<close>

record 'p replay_world = "'p txw" +
  emitted :: nat

record ('p, 't, 'd, 'm) replay =
  rp_List :: "ctx \<Rightarrow> ListOptions \<Rightarrow> 'p replay_world \<Rightarrow> perr + 't list \<times> string"
  rp_tx :: "nat list"
  rp_pub :: "ctx \<Rightarrow> Event \<Rightarrow> 'p replay_world \<Rightarrow> outcome \<times> 'p replay_world"
  rp_proj :: "('t, 'd) Projection"
  rp_fallback :: "('t \<Rightarrow> string) option"
  rp_docs :: "('d, 'm) docs"
  rp_codec :: codec

fun project_items :: "('p, 't, 'd, 'm) replay \<Rightarrow> caller \<Rightarrow> string \<Rightarrow> 't list \<Rightarrow> ctx \<Rightarrow> 'p replay_world
    \<Rightarrow> outcome \<times> 'p replay_world" where
  "project_items R who tenant [] c w = (Done, w)"
| "project_items R who tenant (e # es) c w =
     (case buildProjectionEvent (rp_docs R) who c (rp_proj R) ChangeCreate tenant (rp_fallback R) e of
        Inl err \<Rightarrow> (Failed err, w)
      | Inr None \<Rightarrow> project_items R who tenant es c w
      | Inr (Some ce) \<Rightarrow>
          (case ToEvent (rp_codec R) ce of
             Inl err \<Rightarrow> (Failed err, w)
           | Inr evt \<Rightarrow>
               (case rp_pub R c evt w of
                  (Done, w1) \<Rightarrow> project_items R who tenant es c (w1\<lparr>emitted := Suc (emitted w1)\<rparr>)
                | (Failed err, w1) \<Rightarrow> (Failed (PWrap (''events: ProjectExisting publish '' @ pResourceType (rp_proj R)) err), w1)
                | (o', w1) \<Rightarrow> (o', w1))))"

text \<open>The loop over the pages, with the number of pages it may take; \<open>None\<close> when it takes more.\<close>

fun project_pages :: "nat \<Rightarrow> ('p, 't, 'd, 'm) replay \<Rightarrow> caller \<Rightarrow> ctx \<Rightarrow> string \<Rightarrow> int \<Rightarrow> string \<Rightarrow> 'p replay_world
    \<Rightarrow> (outcome \<times> 'p replay_world) option" where
  "project_pages 0 R who c tenant pageSize tok w = None"
| "project_pages (Suc fuel) R who c tenant pageSize tok w =
     (case rp_List R c \<lparr>PageSize = pageSize, PageToken = tok, ShowDeleted = False\<rparr> w of
        Inl e \<Rightarrow> Some (Failed (PWrap (''events: ProjectExisting list '' @ pResourceType (rp_proj R)) e), w)
      | Inr (es, nxt) \<Rightarrow>
          (case Atomically (rp_tx R) c (project_items R who tenant es) w of
             (Done, w1) \<Rightarrow> if nxt = [] then Some (Done, w1) else project_pages fuel R who c tenant pageSize nxt w1
           | (o', w1) \<Rightarrow> Some (o', w1)))"

definition ProjectExisting :: "nat \<Rightarrow> ('p, 't, 'd, 'm) replay \<Rightarrow> caller \<Rightarrow> ctx \<Rightarrow> int \<Rightarrow> 'p replay_world
    \<Rightarrow> ((nat \<times> outcome) \<times> 'p replay_world) option" where
  "ProjectExisting fuel R who c pageSize w =
     (let tenant = TenantIDFromContext c; ps = (if pageSize \<le> 0 then 200 else pageSize)
      in if tenant = []
         then Some ((0, Failed (POther (''events: ProjectExisting for '' @ pResourceType (rp_proj R) @ '' requires a tenant on context''))), w)
         else map_option (\<lambda>(o', w1). ((emitted w1, o'), w1)) (project_pages fuel R who c tenant ps [] (w\<lparr>emitted := 0\<rparr>)))"

definition mem_replay :: "nat list \<Rightarrow> nat \<Rightarrow> nat \<Rightarrow> (('t, 'k) MemoryRepository part replay_world \<Rightarrow> string) \<Rightarrow> go_time
    \<Rightarrow> ('t, 'd) Projection \<Rightarrow> ('t \<Rightarrow> string) option \<Rightarrow> ('d, 'm) docs \<Rightarrow> codec \<Rightarrow> (('t, 'k) MemoryRepository part, 't, 'd, 'm) replay" where
  "mem_replay m rp ob evid tnow p fb D J =
     \<lparr>rp_List = (\<lambda>c opts w. repo_List opts (repo_of (store w rp))), rp_tx = m, rp_pub = outbox_pub ob evid tnow, rp_proj = p,
      rp_fallback = fb, rp_docs = D, rp_codec = J\<rparr>"

section \<open>Lemmas\<close>

text \<open>The events of a list of entities, when all of them can be built and encoded.\<close>

definition replay_events :: "('d, 'm) docs \<Rightarrow> caller \<Rightarrow> ctx \<Rightarrow> ('t, 'd) Projection \<Rightarrow> ('t \<Rightarrow> string) option \<Rightarrow> 't list \<Rightarrow> ChangeEvent list" where
  "replay_events D who c p fb es = concat (map (\<lambda>e. projection_events D who c ChangeCreate fb e [p]) es)"

definition renders :: "('d, 'm) docs \<Rightarrow> codec \<Rightarrow> caller \<Rightarrow> ctx \<Rightarrow> ('t, 'd) Projection \<Rightarrow> ('t \<Rightarrow> string) option \<Rightarrow> 't \<Rightarrow> bool" where
  "renders D J who c p fb e \<longleftrightarrow>
     (case buildProjectionEvent D who c p ChangeCreate (TenantIDFromContext c) fb e of
        Inl _ \<Rightarrow> False
      | Inr None \<Rightarrow> True
      | Inr (Some ce) \<Rightarrow> \<not> isl (ToEvent J ce))"

text \<open>From \<open>w\<close> to \<open>w'\<close> exactly the events of \<open>ces\<close> were recorded and counted.\<close>

definition replayed :: "nat \<Rightarrow> codec \<Rightarrow> ChangeEvent list \<Rightarrow> 'a part replay_world \<Rightarrow> 'a part replay_world \<Rightarrow> bool" where
  "replayed ob J ces w w' \<longleftrightarrow> held w' = held w \<and> (\<forall>p. p \<noteq> ob \<longrightarrow> store w' p = store w p) \<and> emitted w' = emitted w + length ces
     \<and> (\<exists>evts. map (ToEvent J) ces = map Inr evts \<and> outbox_feed ob w' = outbox_feed ob w @ evts)"

lemma replay_events_append:
  "replay_events D who c p fb (xs @ ys) = replay_events D who c p fb xs @ replay_events D who c p fb ys"
  by (simp add: replay_events_def)

lemma replayed_refl: "replayed ob J [] w w"
  by (simp add: replayed_def)

lemma replayed_trans:
  assumes "replayed ob J a w1 w2" "replayed ob J b w2 w3"
  shows "replayed ob J (a @ b) w1 w3"
proof -
  obtain xs where xs: "map (ToEvent J) a = map Inr xs" "outbox_feed ob w2 = outbox_feed ob w1 @ xs"
    using assms(1) unfolding replayed_def by blast
  obtain ys where ys: "map (ToEvent J) b = map Inr ys" "outbox_feed ob w3 = outbox_feed ob w2 @ ys"
    using assms(2) unfolding replayed_def by blast
  have "map (ToEvent J) (a @ b) = map Inr (xs @ ys) \<and> outbox_feed ob w3 = outbox_feed ob w1 @ (xs @ ys)" by (simp add: xs ys)
  then show ?thesis using assms unfolding replayed_def by auto
qed

lemma project_items_replayed:
  assumes "inThisTx ob c" "list_all (renders D J who c p fb) es"
  shows "\<exists>w'. project_items (mem_replay m rp ob evid tnow p fb D J) who (TenantIDFromContext c) es c w = (Done, w')
    \<and> replayed ob J (replay_events D who c p fb es) w w'"
  using assms(2)
proof (induction es arbitrary: w)
  case Nil
  then show ?case by (simp add: replay_events_def replayed_refl)
next
  case (Cons e es)
  let ?R = "mem_replay m rp ob evid tnow p fb D J" and ?t = "TenantIDFromContext c"
  obtain x where x: "buildProjectionEvent D who c p ChangeCreate ?t fb e = Inr x"
    using Cons.prems by (cases "buildProjectionEvent D who c p ChangeCreate ?t fb e") (simp_all add: renders_def)
  show ?case
  proof (cases x)
    case None
    then show ?thesis using Cons x by (simp add: replay_events_def projection_events_def mem_replay_def)
  next
    case (Some ce)
    obtain evt where evt: "ToEvent J ce = Inr evt" using Cons.prems x Some
      by (cases "ToEvent J ce") (simp_all add: renders_def)
    have ce: "Tenant ce = ?t" using built_event [of D who c p ChangeCreate ?t fb e ce] x Some by simp
    have "evAccountID evt = ?t" "evID evt = []" "evSeq evt = 0" "evEpoch evt = 0"
      using evt ce by (auto simp: ToEvent_def split: option.splits)
    from outbox.publishes [OF assms(1) this, of evid tnow w]
    obtain w1 where w1: "outbox_pub ob evid tnow c evt w = (Done, w1)" "outbox_feed ob w1 = outbox_feed ob w @ [evt]"
      "outbox_same ob w w1" by blast
    let ?w1 = "w1\<lparr>emitted := Suc (emitted w1)\<rparr>"
    have "emitted w1 = emitted w" using w1(3) unfolding outbox_same_def by (cases w; cases w1) (simp add: replay_world.defs)
    then have r1: "replayed ob J [ce] w ?w1"
      using w1(2,3) evt by (simp add: replayed_def outbox_same_def outbox_feed_def)
    obtain w' where w': "project_items ?R who ?t es c ?w1 = (Done, w')" "replayed ob J (replay_events D who c p fb es) ?w1 w'"
      using Cons by auto
    have "project_items ?R who ?t (e # es) c w = (Done, w')"
      using x Some evt w1(1) w'(1) by (simp add: mem_replay_def)
    moreover have "replay_events D who c p fb (e # es) = [ce] @ replay_events D who c p fb es"
      using x Some by (simp add: replay_events_def projection_events_def)
    ultimately show ?thesis using replayed_trans [OF r1 w'(2)] by simp
  qed
qed

lemma in_tx_actor [simp]: "actorFromContext who (WithTx c s) = actorFromContext who c"
  by (simp add: actorFromContext_def)

lemma in_tx_build [simp]: "buildProjectionEvent D who (WithTx c s) p ct t fb e = buildProjectionEvent D who c p ct t fb e"
  unfolding buildProjectionEvent_def in_tx_actor ..

lemma in_tx_events [simp]:
  "replay_events D who (WithTx c s) p fb es = replay_events D who c p fb es" "renders D J who (WithTx c s) p fb = renders D J who c p fb"
  by (simp_all add: replay_events_def projection_events_def renders_def fun_eq_iff)

text \<open>One page in its transaction.\<close>

lemma page_replayed:
  assumes "tx_start m c w" "ob \<in> set m" "list_all (renders D J who c p fb) es"
  shows "\<exists>w'. Atomically m c (project_items (mem_replay m rp ob evid tnow p fb D J) who (TenantIDFromContext c) es) w = (Done, w')
    \<and> replayed ob J (replay_events D who c p fb es) w w'"
proof -
  let ?b = "project_items (mem_replay m rp ob evid tnow p fb D J) who (TenantIDFromContext c) es"
  have "list_all (renders D J who (WithTx c (set m)) p fb) es" using assms(3) by simp
  from project_items_replayed [OF enrolled_in_tx [OF assms(2)] this, where rp = rp and evid = evid and tnow = tnow and w = "enter m w"]
  obtain w1 where w1: "?b (WithTx c (set m)) (enter m w) = (Done, w1)" "replayed ob J (replay_events D who c p fb es) (enter m w) w1"
    by auto
  have "replayed ob J (replay_events D who c p fb es) w (w1\<lparr>held := held w1 - set m\<rparr>)"
    using w1(2) assms(1) by (auto simp: replayed_def enter_def tx_start_def outbox_feed_def)
  then show ?thesis unfolding Atomically_start [OF assms(1)] w1(1) by simp
qed

lemma pages_replayed:
  assumes "0 < ps" "int (length (visible_keys False R)) + ps < 2 ^ 63" "ob \<in> set m" "rp \<noteq> ob"
    and "list_all (renders D J who c p fb) (visible_items False R)"
  shows "token_offset tok = int o' \<Longrightarrow> o' \<le> length (visible_keys False R) \<Longrightarrow> length (visible_keys False R) - o' < n \<Longrightarrow>
    tx_start m c w \<Longrightarrow> store w rp = Aggregate R \<Longrightarrow>
    \<exists>w'. project_pages n (mem_replay m rp ob evid tnow p fb D J) who c (TenantIDFromContext c) ps tok w = Some (Done, w')
      \<and> replayed ob J (replay_events D who c p fb (drop o' (visible_items False R))) w w'"
proof (induction n arbitrary: o' tok w)
  case (Suc n)
  let ?R = "mem_replay m rp ob evid tnow p fb D J" and ?v = "visible_items False R" and ?n = "o' + nat ps"
  let ?es = "take (nat ps) (drop o' ?v)"
  have len: "length ?v = length (visible_keys False R)" by (simp add: visible_items_def)
  have "list_all (renders D J who c p fb) ?es" using assms(5) by (auto simp: list_all_iff dest!: in_set_takeD in_set_dropD)
  from page_replayed [OF Suc.prems(4) assms(3) this, where rp = rp and evid = evid and tnow = tnow]
  obtain w1 where w1: "Atomically m c (project_items ?R who (TenantIDFromContext c) ?es) w = (Done, w1)"
    "replayed ob J (replay_events D who c p fb ?es) w w1" by blast
  have list: "rp_List ?R c \<lparr>PageSize = ps, PageToken = tok, ShowDeleted = False\<rparr> w =
      Inr (?es, if ?n < length ?v then EncodeToString (Itoa (int ?n)) else [])"
    using page_at [OF Suc.prems(1,2) assms(1,2)] Suc.prems(5) by (simp add: mem_replay_def len)
  have tx: "rp_tx ?R = m" by (simp add: mem_replay_def)
  show ?case
  proof (cases "?n < length ?v")
    case True
    have "store w1 rp = Aggregate R" "tx_start m c w1" using w1(2) assms(4) Suc.prems(4,5) by (auto simp: replayed_def tx_start_def)
    moreover have "token_offset (EncodeToString (Itoa (int ?n))) = int ?n"
      using True assms(1,2) len by (intro token_offset_simps) (simp add: in_int64_def)
    moreover have n': "length (visible_keys False R) - ?n < n" using True assms(1) Suc.prems(3) len by linarith
    ultimately obtain w2 where w2: "project_pages n ?R who c (TenantIDFromContext c) ps (EncodeToString (Itoa (int ?n))) w1 = Some (Done, w2)"
      "replayed ob J (replay_events D who c p fb (drop ?n ?v)) w1 w2"
      using Suc.IH [of "EncodeToString (Itoa (int ?n))" ?n w1] True n' len by auto
    have de: "drop o' ?v = ?es @ drop ?n ?v" by (metis add.commute append_take_drop_id drop_drop)
    have "replay_events D who c p fb (drop o' ?v) = replay_events D who c p fb ?es @ replay_events D who c p fb (drop ?n ?v)"
      unfolding replay_events_append [symmetric] by (rule arg_cong [OF de])
    then show ?thesis using replayed_trans [OF w1(2) w2(2)] w1(1) w2(1) list True by (simp add: tx encode_nonempty)
  next
    case False
    then have "drop o' ?v = ?es" by simp
    then show ?thesis using w1 list False by (simp add: tx)
  qed
qed simp

lemma project_items_append:
  "project_items R who t (xs @ ys) c w =
     (case project_items R who t xs c w of (Done, w1) \<Rightarrow> project_items R who t ys c w1 | r \<Rightarrow> r)"
  by (induction R who t xs c w rule: project_items.induct) (auto split: sum.split option.split prod.split outcome.split)

lemma emitted_restore: "emitted (restoreForTx snaps w) = emitted w"
  by (induction snaps w rule: restoreForTx.induct) simp_all

section \<open>Properties\<close>

text \<open>the replay seeds everything. With a tenant on the context and a projection that renders every live entity,
  \<^verbatim>\<open>ProjectExisting\<close> ends after at most one page per entity, records the creation event of every live entity that elects
  to emit, once each and in the order of the repository, and returns their number.\<close>

theorem replay_complete:
  fixes w :: "('t, 'k) MemoryRepository part replay_world"
  assumes "tx_start m c w" "ob \<in> set m" "rp \<noteq> ob" "store w rp = Aggregate R" "TenantIDFromContext c \<noteq> []"
    and "list_all (renders D J who c p fb) (visible_items False R)"
    and "int (length (visible_keys False R)) + max 200 ps < 2 ^ 63" "length (visible_keys False R) < fuel"
  shows "\<exists>w' evts. ProjectExisting fuel (mem_replay m rp ob evid tnow p fb D J) who c ps w
        = Some ((length (replay_events D who c p fb (visible_items False R)), Done), w')
    \<and> map (ToEvent J) (replay_events D who c p fb (visible_items False R)) = map Inr evts
    \<and> outbox_feed ob w' = outbox_feed ob w @ evts \<and> store w' rp = Aggregate R"
proof -
  let ?ps = "if ps \<le> 0 then 200 else ps" and ?w = "w\<lparr>emitted := 0\<rparr>"
  have ps: "0 < ?ps" "int (length (visible_keys False R)) + ?ps < 2 ^ 63" using assms(7) by auto
  have w: "tx_start m c ?w" "store ?w rp = Aggregate R" using assms(1,4) by (simp_all add: tx_start_def)
  from pages_replayed [OF ps assms(2,3,6), of "[]" 0 fuel, OF _ _ _ w] assms(8)
  obtain w' where w': "project_pages fuel (mem_replay m rp ob evid tnow p fb D J) who c (TenantIDFromContext c) ?ps [] ?w = Some (Done, w')"
    "replayed ob J (replay_events D who c p fb (visible_items False R)) ?w w'" by auto
  have feed: "outbox_feed ob ?w = outbox_feed ob w" by (simp add: outbox_feed_def)
  obtain evts where "map (ToEvent J) (replay_events D who c p fb (visible_items False R)) = map Inr evts"
    "outbox_feed ob w' = outbox_feed ob w @ evts" using w'(2) unfolding replayed_def feed by blast
  then show ?thesis using w' assms(3,4,5) by (intro exI [of _ w'] exI [of _ evts]) (auto simp: ProjectExisting_def replayed_def Let_def)
qed

definition exRepo :: "(nat \<times> bool, nat) MemoryRepository" where
  "exRepo = snd (repo_do ''u'' [] (FCreate (4, True)) (snd (repo_do ''u'' [] (FCreate (3, True)) (NewMemoryRepository fst))))"

lemma exRepo_items [simp]: "visible_items False exRepo = [(3, True), (4, True)]" "visible_keys False exRepo = [3, 4]"
  by (simp_all add: exRepo_def repo_Create_def NewMemoryRepository_def visible_items_def visible_keys_def)

definition exReplayWorld :: "(nat \<times> bool, nat) MemoryRepository part replay_world" where
  "exReplayWorld = \<lparr>store = (\<lambda>p. if p = 2 then Outbox [] else Aggregate exRepo), held = {}, emitted = 0\<rparr>"

lemma exReplayWorld_start: "tx_start [2] exContext exReplayWorld"
  by (simp add: tx_start_def joins_def TxFromContext_def exContext_def exReplayWorld_def background_def WithTenantID_def)

theorem replay_complete_witness:
  "\<exists>w' evts. ProjectExisting 3 (mem_replay [2] 3 2 (\<lambda>_. ''v'') 5 (exProjection (\<lambda>_. True)) None exDocs exCodec) exCaller exContext 1 exReplayWorld
      = Some ((2, Done), w') \<and> outbox_feed 2 w' = evts \<and> length evts = 2"
proof -
  let ?p = "exProjection (\<lambda>_. True)"
  have ctx: "TenantIDFromContext exContext = ''acct''" "principalTenant exContext = None"
    by (simp_all add: exContext_def TenantIDFromContext_def WithTenantID_def background_def)
  have "list_all (renders exDocs exCodec exCaller exContext ?p None) (visible_items False exRepo)"
    by (simp add: renders_def buildProjectionEvent_def exProjection_def marshalDoc_def ToEvent_def exCodec_def ctx
        actorFromContext_def exCaller_def)
  from replay_complete [OF exReplayWorld_start _ _ _ _ this, of 2 3 1 3 "\<lambda>_. ''v''" 5]
  obtain w' evts where w': "ProjectExisting 3 (mem_replay [2] 3 2 (\<lambda>_. ''v'') 5 ?p None exDocs exCodec) exCaller exContext 1 exReplayWorld
      = Some ((length (replay_events exDocs exCaller exContext ?p None [(3, True), (4, True)]), Done), w')"
    "map (ToEvent exCodec) (replay_events exDocs exCaller exContext ?p None [(3, True), (4, True)]) = map Inr evts"
    "outbox_feed 2 w' = outbox_feed 2 exReplayWorld @ evts"
    by (auto simp: exReplayWorld_def ctx)
  have n: "length (replay_events exDocs exCaller exContext ?p None [(3, True), (4, True)]) = 2"
    by (simp add: replay_events_def projection_event [OF exProjection_total])
  then have "length evts = 2" using arg_cong [OF w'(2), of length] by simp
  moreover have "outbox_feed 2 exReplayWorld = []" by (simp add: outbox_feed_def exReplayWorld_def)
  ultimately show ?thesis using w'(1,3) n by auto
qed

text \<open>the returned count is not what was emitted. When an entity cannot be rendered its page is rolled back, but the events
  that were published in the page before it stay counted: with all entities on one page the outbox is as before, while the
  number returned is that of the events before the failing entity.\<close>

theorem replay_overcounts:
  fixes w :: "('t, 'k) MemoryRepository part replay_world"
  assumes "tx_start m c w" "ob \<in> set m" "rp \<noteq> ob" "store w rp = Aggregate R" "TenantIDFromContext c \<noteq> []"
    and "visible_items False R = es @ e # rest" "list_all (renders D J who c p fb) es"
    and "buildProjectionEvent D who c p ChangeCreate (TenantIDFromContext c) fb e = Inl err"
    and "int (length (visible_keys False R)) \<le> ps" "ps < 2 ^ 62"
  shows "\<exists>w'. ProjectExisting (Suc fuel) (mem_replay m rp ob evid tnow p fb D J) who c ps w
        = Some ((length (replay_events D who c p fb es), Failed err), w')
    \<and> outbox_feed ob w' = outbox_feed ob w"
proof -
  let ?R = "mem_replay m rp ob evid tnow p fb D J" and ?w = "w\<lparr>emitted := 0\<rparr>" and ?t = "TenantIDFromContext c"
  let ?b = "project_items ?R who ?t (es @ e # rest)"
  have len: "length (visible_keys False R) = length (visible_items False R)" by (simp add: visible_items_def)
  have ps: "0 < ps" using assms(6,9) len by simp
  have "\<not> nat ps < length (visible_keys False R)" using assms(9) by linarith
  then have "repo_List \<lparr>PageSize = ps, PageToken = [], ShowDeleted = False\<rparr> R = Inr (es @ e # rest, [])"
    using page_at [of "[]" 0 False R ps] ps assms(6,9,10) len by (simp add: nat_less_iff not_less)
  then have list: "rp_List ?R c \<lparr>PageSize = ps, PageToken = [], ShowDeleted = False\<rparr> ?w = Inr (es @ e # rest, [])"
    using assms(4) by (simp add: mem_replay_def)
  have start: "tx_start m c ?w" using assms(1) by (simp add: tx_start_def)
  have "list_all (renders D J who (WithTx c (set m)) p fb) es" using assms(7) by simp
  from project_items_replayed [OF enrolled_in_tx [OF assms(2)] this, where rp = rp and evid = evid and tnow = tnow and w = "enter m ?w"]
  obtain w1 where w1: "project_items ?R who ?t es (WithTx c (set m)) (enter m ?w) = (Done, w1)"
    "replayed ob J (replay_events D who c p fb es) (enter m ?w) w1" by auto
  have "buildProjectionEvent D who (WithTx c (set m)) p ChangeCreate ?t fb e = Inl err" using assms(8) by simp
  then have body: "?b (WithTx c (set m)) (enter m ?w) = (Failed err, w1)"
    unfolding project_items_append w1(1) by (simp add: mem_replay_def)
  let ?w' = "(restoreForTx (snapshotForTx m ?w) w1)\<lparr>held := held w1 - set m\<rparr>"
  have "Atomically m c ?b ?w = (Failed err, ?w')" unfolding Atomically_start [OF start] body by simp
  moreover have "emitted ?w' = length (replay_events D who c p fb es)" using w1(2) by (simp add: replayed_def emitted_restore enter_def)
  moreover have "store ?w' ob = store w ob" using start assms(2) by (simp add: restore_store tx_start_def)
  ultimately show ?thesis using list ps assms(5)
    by (simp add: ProjectExisting_def Let_def mem_replay_def outbox_feed_def)
qed

theorem replay_overcounts_witness:
  "let p = (exProjection (\<lambda>_. True))\<lparr>pMarshal := Some (\<lambda>d. if d = 3 then Inr ''doc'' else Inl (POther ''bad''))\<rparr>
   in \<exists>err w'. ProjectExisting (Suc 0) (mem_replay [2] 3 2 (\<lambda>_. ''v'') 5 p None exDocs exCodec) exCaller exContext 10 exReplayWorld
        = Some ((1, Failed err), w') \<and> outbox_feed 2 w' = []"
proof -
  let ?p = "(exProjection (\<lambda>_. True))\<lparr>pMarshal := Some (\<lambda>d. if d = 3 then Inr ''doc'' else Inl (POther ''bad''))\<rparr>"
  have ctx: "TenantIDFromContext exContext = ''acct''" "principalTenant exContext = None"
    by (simp_all add: exContext_def TenantIDFromContext_def WithTenantID_def background_def)
  have v: "visible_items False exRepo = [(3, True)] @ (4, True) # []" by simp
  have r: "list_all (renders exDocs exCodec exCaller exContext ?p None) [(3, True)]"
    by (simp add: renders_def buildProjectionEvent_def exProjection_def marshalDoc_def ToEvent_def exCodec_def ctx
        actorFromContext_def exCaller_def)
  obtain err where b: "buildProjectionEvent exDocs exCaller exContext ?p ChangeCreate (TenantIDFromContext exContext) None (4, True) = Inl err"
    by (simp add: buildProjectionEvent_def exProjection_def marshalDoc_def)
  have n: "length (replay_events exDocs exCaller exContext ?p None [(3, True)]) = 1"
    by (simp add: replay_events_def projection_events_def buildProjectionEvent_def exProjection_def marshalDoc_def)
  have "outbox_feed 2 exReplayWorld = []" by (simp add: outbox_feed_def exReplayWorld_def)
  then show ?thesis
    using replay_overcounts [OF exReplayWorld_start _ _ _ _ v r b, of 2 3 10 0 "\<lambda>_. ''v''" 5] n
    by (auto simp: exReplayWorld_def ctx Let_def)
qed

end
