(* ===== verification/Filter_Parse.thy ===== *)
theory Filter_Parse
  imports Base64
begin

text \<open>
  List filters (\<^verbatim>\<open>src/persistence/filter/filter.go\<close>): the lexer, the recursive-descent parser over the column
  whitelists, the condition tree and its SQL, and \<^verbatim>\<open>order_by\<close>. Strings are byte strings. The parser's recursion carries
  fuel; \<open>Parse\<close> gives it enough, so that \<open>None\<close> never comes out.
\<close>

section \<open>Bytes and white space\<close>

text \<open>\<^verbatim>\<open>unicode.IsSpace\<close>, \<^verbatim>\<open>IsDigit\<close> and \<^verbatim>\<open>IsLetter\<close> of a byte read as a rune, that is, of a Latin-1 character.\<close>

definition isSpace :: "char \<Rightarrow> bool" where
  "isSpace c \<longleftrightarrow> (9 \<le> byte c \<and> byte c \<le> 13) \<or> byte c = 32 \<or> byte c = 0x85 \<or> byte c = 0xA0"

definition isDigit :: "char \<Rightarrow> bool" where
  "isDigit c \<longleftrightarrow> 48 \<le> byte c \<and> byte c \<le> 57"

definition isLetter :: "char \<Rightarrow> bool" where
  "isLetter c \<longleftrightarrow> (65 \<le> byte c \<and> byte c \<le> 90) \<or> (97 \<le> byte c \<and> byte c \<le> 122) \<or> byte c = 0xAA \<or> byte c = 0xB5
     \<or> byte c = 0xBA \<or> (0xC0 \<le> byte c \<and> byte c \<noteq> 0xD7 \<and> byte c \<noteq> 0xF7)"

definition isIdentStart :: "char \<Rightarrow> bool" where
  "isIdentStart c \<longleftrightarrow> isLetter c \<or> c = CHR ''_''"

definition isIdentContinue :: "char \<Rightarrow> bool" where
  "isIdentContinue c \<longleftrightarrow> isLetter c \<or> isDigit c \<or> c = CHR ''_'' \<or> c = CHR ''.''"

text \<open>\<^verbatim>\<open>strings.TrimSpace\<close> and \<^verbatim>\<open>strings.Fields\<close> work on runes: the UTF-8 encodings of the Unicode white space.\<close>

definition space_encodings :: "string list" where
  "space_encodings =
     map (\<lambda>n. [char_of n]) [9 :: nat, 10, 11, 12, 13, 32] @
     map (map char_of) ([[0xC2, 0x85], [0xC2, 0xA0], [0xE1, 0x9A, 0x80], [0xE2, 0x80, 0xA8], [0xE2, 0x80, 0xA9],
       [0xE2, 0x80, 0xAF], [0xE2, 0x81, 0x9F], [0xE3, 0x80, 0x80]] :: nat list list) @
     map (\<lambda>n. map char_of [0xE2, 0x80, n]) [0x80 :: nat, 0x81, 0x82, 0x83, 0x84, 0x85, 0x86, 0x87, 0x88, 0x89, 0x8A]"

text \<open>The length of the first of the given encodings that starts the string.\<close>

fun space_at :: "string list \<Rightarrow> string \<Rightarrow> nat option" where
  "space_at [] s = None"
| "space_at (e # es) s = (if has_prefix s e then Some (length e) else space_at es s)"

fun trim_by :: "string list \<Rightarrow> nat \<Rightarrow> string \<Rightarrow> string" where
  "trim_by es 0 s = s"
| "trim_by es (Suc n) s = (case space_at es s of None \<Rightarrow> s | Some k \<Rightarrow> trim_by es n (drop k s))"

definition TrimSpace :: "string \<Rightarrow> string" where
  "TrimSpace s =
     (let l = trim_by space_encodings (length s) s
      in rev (trim_by (map rev space_encodings) (length l) (rev l)))"

fun fields_from :: "nat \<Rightarrow> string \<Rightarrow> string \<Rightarrow> string list" where
  "fields_from 0 acc s = (if acc = [] then [] else [acc])"
| "fields_from (Suc n) acc [] = (if acc = [] then [] else [acc])"
| "fields_from (Suc n) acc (c # s) =
     (case space_at space_encodings (c # s) of
        None \<Rightarrow> fields_from n (acc @ [c]) s
      | Some k \<Rightarrow> (if acc = [] then [] else [acc]) @ fields_from n [] (drop k (c # s)))"

definition Fields :: "string \<Rightarrow> string list" where
  "Fields s = fields_from (length s) [] s"

text \<open>\<^verbatim>\<open>strings.ToUpper\<close> and \<^verbatim>\<open>ToLower\<close> on ASCII; the source compares their results with ASCII words only, and no other
  letter has an upper or lower case in those words.\<close>

definition up :: "char \<Rightarrow> char" where
  "up c = (if 97 \<le> byte c \<and> byte c \<le> 122 then char_of (byte c - 32) else c)"

definition low :: "char \<Rightarrow> char" where
  "low c = (if 65 \<le> byte c \<and> byte c \<le> 90 then char_of (byte c + 32) else c)"

section \<open>Tokens\<close>

datatype tokKind = tokIdent | tokString | tokNumber | tokEQ | tokNEQ | tokLT | tokLTE | tokGT | tokGTE | tokHAS
  | tokLParen | tokRParen | tokEOF

type_synonym token = "tokKind \<times> string"

text \<open>The body of a string literal after its opening quote, and what follows the closing one. The literal may also end with
  the input.\<close>

fun lex_string :: "string \<Rightarrow> string \<times> string" where
  "lex_string [] = ([], [])"
| "lex_string (c # s) =
     (if c = CHR 0x22 then ([], s)
      else if c = CHR 0x5C
      then (case s of
              [] \<Rightarrow> ([c], [])
            | d # s' \<Rightarrow>
                (case lex_string s' of
                   (b, r) \<Rightarrow> ((if d = CHR 0x22 then [d] else if d = CHR 0x5C then [d] else [c, d]) @ b, r)))
      else (case lex_string s of (b, r) \<Rightarrow> (c # b, r)))"

definition next_is :: "char \<Rightarrow> string \<Rightarrow> bool" where
  "next_is d r = (case r of [] \<Rightarrow> False | c # _ \<Rightarrow> c = d)"

text \<open>\<^verbatim>\<open>string(s[i])\<close> encodes the byte as a rune.\<close>

definition rune_string :: "char \<Rightarrow> string" where
  "rune_string c = (if byte c < 128 then [c] else [char_of (0xC0 + byte c div 64), char_of (0x80 + byte c mod 64)])"

definition lex_token :: "char \<Rightarrow> string \<Rightarrow> token \<times> string" where
  "lex_token c r =
     (if c = CHR 0x22 then (case lex_string r of (b, r') \<Rightarrow> ((tokString, b), r'))
      else if c = CHR ''('' then ((tokLParen, ''(''), r)
      else if c = CHR '')'' then ((tokRParen, '')''), r)
      else if c = CHR '':'' then ((tokHAS, '':''), r)
      else if c = CHR ''!'' \<and> next_is (CHR ''='') r then ((tokNEQ, ''!=''), tl r)
      else if c = CHR ''<'' \<and> next_is (CHR ''='') r then ((tokLTE, ''<=''), tl r)
      else if c = CHR ''>'' \<and> next_is (CHR ''='') r then ((tokGTE, ''>=''), tl r)
      else if c = CHR ''<'' then ((tokLT, ''<''), r)
      else if c = CHR ''>'' then ((tokGT, ''>''), r)
      else if c = CHR ''='' then ((tokEQ, ''=''), r)
      else if isDigit c \<or> (c = CHR ''-'' \<and> (case r of [] \<Rightarrow> False | d # _ \<Rightarrow> isDigit d))
      then ((tokNumber, c # takeWhile (\<lambda>d. isDigit d \<or> d = CHR ''.'') r), dropWhile (\<lambda>d. isDigit d \<or> d = CHR ''.'') r)
      else if isIdentStart c then ((tokIdent, c # takeWhile isIdentContinue r), dropWhile isIdentContinue r)
      else ((tokIdent, rune_string c), r))"

lemma lex_string_shorter: "length (snd (lex_string s)) \<le> length s"
proof (induction s rule: lex_string.induct)
  case (2 c s)
  show ?case
  proof (cases s)
    case Nil
    then show ?thesis by simp
  next
    case (Cons d s')
    then show ?thesis using 2 by (cases "lex_string s'"; cases "lex_string s") fastforce
  qed
qed simp

lemma lex_token_shorter: "length (snd (lex_token c r)) \<le> length r"
  using lex_string_shorter [of r] length_dropWhile_le [of "\<lambda>d. isDigit d \<or> d = CHR ''.''" r] length_dropWhile_le [of isIdentContinue r]
  by (cases "lex_string r") (simp add: lex_token_def)

function tokenize :: "string \<Rightarrow> token list" where
  "tokenize s =
     (case dropWhile isSpace s of
        [] \<Rightarrow> [(tokEOF, [])]
      | c # r \<Rightarrow> fst (lex_token c r) # tokenize (snd (lex_token c r)))"
  by pat_completeness auto

termination
proof (relation "measure length")
  fix s c r
  assume "dropWhile isSpace s = c # r"
  then have "Suc (length r) \<le> length s" using length_dropWhile_le [of isSpace s] by simp
  then show "(snd (lex_token c r), s) \<in> measure length" using lex_token_shorter [of c r] by simp
qed simp

declare tokenize.simps [simp del]

section \<open>Conditions\<close>

datatype Condition = Comparison string string string | TagComparison string string string string string
  | TagPresence string string string | Logical string Condition Condition | Negation Condition

fun SQL :: "Condition \<Rightarrow> string \<times> string list" where
  "SQL (Comparison col op v) = (col @ '' '' @ op @ '' ?'', [v])"
| "SQL (TagComparison col key op v dialect) =
     (if dialect = ''postgres'' then (col @ '' ->> ? '' @ op @ '' ?'', [key, v])
      else (''json_extract('' @ col @ '', ?) '' @ op @ '' ?'', [''$.'' @ key, v]))"
| "SQL (TagPresence col key dialect) =
     (if dialect = ''postgres'' then (''jsonb_exists('' @ col @ '', ?)'', [key])
      else (''json_extract('' @ col @ '', ?) IS NOT NULL'', [''$.'' @ key]))"
| "SQL (Logical op l r) =
     (''('' @ fst (SQL l) @ '') '' @ op @ '' ('' @ fst (SQL r) @ '')'', snd (SQL l) @ snd (SQL r))"
| "SQL (Negation c) = (''NOT ('' @ fst (SQL c) @ '')'', snd (SQL c))"

section \<open>The parser\<close>

text \<open>Every error of the package has the code \<^verbatim>\<open>InvalidArgument\<close>; the constructors are its messages.\<close>

datatype ferr = UnexpectedToken string | ExpectedRParen string | HasExpectsPath string | ExpectedHasRParen string
  | ExpectedTagPath string | UnknownTagField string | UnsupportedDialect | ExpectedField string | KeywordAsField string
  | UnknownField string | ExpectedOperator string | ExpectedValue string | UnsupportedTagOperator string
  | ExpectedTagValue string | InvalidOrderTerm string | UnknownOrderField string | InvalidDirection string

record foptions =
  dialect :: string
  jsonColumns :: "string \<Rightarrow> string option"

definition normalizeDialect :: "string \<Rightarrow> string" where
  "normalizeDialect name =
     (let l = map low name
      in if l = ''postgres'' \<or> l = ''postgresql'' \<or> l = ''pgx'' then ''postgres''
         else if l = ''sqlite'' \<or> l = ''sqlite3'' then ''sqlite'' else l)"

definition WithDialect :: "string \<Rightarrow> foptions \<Rightarrow> foptions" where
  "WithDialect name o' = o'\<lparr>dialect := normalizeDialect name\<rparr>"

definition WithJSONColumns :: "(string \<Rightarrow> string option) \<Rightarrow> foptions \<Rightarrow> foptions" where
  "WithJSONColumns cols o' = o'\<lparr>jsonColumns := cols\<rparr>"

record fparser =
  columns :: "string \<Rightarrow> string option"
  opts :: foptions

text \<open>The position of the parser is the list of the tokens left.\<close>

definition peek :: "token list \<Rightarrow> token" where
  "peek ts = (case ts of [] \<Rightarrow> (tokEOF, []) | t # _ \<Rightarrow> t)"

definition keyword :: "string \<Rightarrow> token list \<Rightarrow> bool" where
  "keyword k ts \<longleftrightarrow> fst (peek ts) = tokIdent \<and> map up (snd (peek ts)) = k"

fun cut_dot :: "string \<Rightarrow> (string \<times> string) option" where
  "cut_dot [] = None"
| "cut_dot (c # s) = (if c = CHR ''.'' then Some ([], s) else case cut_dot s of None \<Rightarrow> None | Some (b, k) \<Rightarrow> Some (c # b, k))"

definition resolveJSONPath :: "fparser \<Rightarrow> string \<Rightarrow> ferr + string \<times> string" where
  "resolveJSONPath p path =
     (case cut_dot path of
        None \<Rightarrow> Inl (ExpectedTagPath path)
      | Some (base, key) \<Rightarrow>
          if base = [] \<or> key = [] then Inl (ExpectedTagPath path)
          else case jsonColumns (opts p) base of
                 None \<Rightarrow> Inl (UnknownTagField path)
               | Some dbcol \<Rightarrow>
                   if dialect (opts p) \<noteq> [] \<and> dialect (opts p) \<noteq> ''postgres'' \<and> dialect (opts p) \<noteq> ''sqlite''
                   then Inl UnsupportedDialect else Inr (dbcol, key))"

definition parseHas :: "fparser \<Rightarrow> token list \<Rightarrow> ferr + Condition \<times> token list" where
  "parseHas p ts =
     (let ts2 = tl (tl ts); pathTok = peek ts2; ts3 = tl ts2
      in if fst pathTok \<noteq> tokIdent then Inl (HasExpectsPath (snd pathTok))
         else case resolveJSONPath p (snd pathTok) of
                Inl e \<Rightarrow> Inl e
              | Inr (col, key) \<Rightarrow>
                  if fst (peek ts3) \<noteq> tokRParen then Inl (ExpectedHasRParen (snd (peek ts3)))
                  else Inr (TagPresence col key (dialect (opts p)), tl ts3))"

definition is_value :: "tokKind \<Rightarrow> bool" where
  "is_value k \<longleftrightarrow> k = tokString \<or> k = tokNumber \<or> k = tokIdent"

definition parseJSONComparison :: "fparser \<Rightarrow> string \<Rightarrow> string \<Rightarrow> token list \<Rightarrow> ferr + Condition \<times> token list" where
  "parseJSONComparison p col key ts =
     (let opTok = peek ts; valTok = peek (tl ts)
      in case (case fst opTok of tokEQ \<Rightarrow> Some ''='' | tokNEQ \<Rightarrow> Some ''!='' | _ \<Rightarrow> None) of
           None \<Rightarrow> Inl (UnsupportedTagOperator (snd opTok))
         | Some op \<Rightarrow>
             if is_value (fst valTok) then Inr (TagComparison col key op (snd valTok) (dialect (opts p)), tl (tl ts))
             else Inl (ExpectedTagValue (snd valTok)))"

definition scalar_op :: "tokKind \<Rightarrow> string option" where
  "scalar_op k = (case k of tokEQ \<Rightarrow> Some ''='' | tokNEQ \<Rightarrow> Some ''!='' | tokLT \<Rightarrow> Some ''<'' | tokLTE \<Rightarrow> Some ''<=''
     | tokGT \<Rightarrow> Some ''>'' | tokGTE \<Rightarrow> Some ''>='' | tokHAS \<Rightarrow> Some ''LIKE'' | _ \<Rightarrow> None)"

definition parseComparison :: "fparser \<Rightarrow> token list \<Rightarrow> ferr + Condition \<times> token list" where
  "parseComparison p ts =
     (let f = snd (peek ts)
      in if fst (peek ts) \<noteq> tokIdent then Inl (ExpectedField f)
         else if map up f = ''AND'' \<or> map up f = ''OR'' \<or> map up f = ''NOT'' then Inl (KeywordAsField f)
         else if columns p f = None \<and> CHR ''.'' \<in> set f
         then (case resolveJSONPath p f of
                 Inl e \<Rightarrow> Inl e
               | Inr (col, key) \<Rightarrow> parseJSONComparison p col key (tl ts))
         else case columns p f of
                None \<Rightarrow> Inl (UnknownField f)
              | Some col \<Rightarrow>
                  (let opTok = peek (tl ts); valTok = peek (tl (tl ts))
                   in case scalar_op (fst opTok) of
                        None \<Rightarrow> Inl (ExpectedOperator (snd opTok))
                      | Some op \<Rightarrow>
                          if is_value (fst valTok)
                          then Inr (Comparison col op (if op = ''LIKE'' then ''%'' @ snd valTok @ ''%'' else snd valTok), tl (tl (tl ts)))
                          else Inl (ExpectedValue (snd valTok))))"

type_synonym pres = "(ferr + Condition \<times> token list) option"

text \<open>
  \<open>sub\<close> is the recursive call that \<open>parsePrimary\<close> makes behind an opening parenthesis. Every iteration of the two loops
  consumes tokens, so their fuel is the number of tokens left.
\<close>

definition parsePrimary :: "(token list \<Rightarrow> pres) \<Rightarrow> fparser \<Rightarrow> token list \<Rightarrow> pres" where
  "parsePrimary sub p ts =
     (if fst (peek ts) = tokIdent \<and> map up (snd (peek ts)) = ''HAS'' \<and> fst (peek (tl ts)) = tokLParen
      then Some (parseHas p ts)
      else if fst (peek ts) = tokLParen
      then (case sub (tl ts) of
              None \<Rightarrow> None | Some (Inl e) \<Rightarrow> Some (Inl e)
            | Some (Inr (inner, ts1)) \<Rightarrow>
                if fst (peek ts1) \<noteq> tokRParen then Some (Inl (ExpectedRParen (snd (peek ts1))))
                else Some (Inr (inner, tl ts1)))
      else Some (parseComparison p ts))"

definition parseNotExpr :: "(token list \<Rightarrow> pres) \<Rightarrow> fparser \<Rightarrow> token list \<Rightarrow> pres" where
  "parseNotExpr sub p ts =
     (if keyword ''NOT'' ts
      then (case parsePrimary sub p (tl ts) of
              None \<Rightarrow> None | Some (Inl e) \<Rightarrow> Some (Inl e) | Some (Inr (inner, ts1)) \<Rightarrow> Some (Inr (Negation inner, ts1)))
      else parsePrimary sub p ts)"

fun op_loop :: "nat \<Rightarrow> string \<Rightarrow> (token list \<Rightarrow> pres) \<Rightarrow> Condition \<Rightarrow> token list \<Rightarrow> pres" where
  "op_loop 0 op operand left ts = None"
| "op_loop (Suc n) op operand left ts =
     (if keyword op ts
      then (case operand (tl ts) of
              None \<Rightarrow> None | Some (Inl e) \<Rightarrow> Some (Inl e)
            | Some (Inr (right, ts1)) \<Rightarrow> op_loop n op operand (Logical op left right) ts1)
      else Some (Inr (left, ts)))"

definition op_expr :: "string \<Rightarrow> (token list \<Rightarrow> pres) \<Rightarrow> token list \<Rightarrow> pres" where
  "op_expr op operand ts =
     (case operand ts of
        None \<Rightarrow> None | Some (Inl e) \<Rightarrow> Some (Inl e)
      | Some (Inr (left, ts1)) \<Rightarrow> op_loop (Suc (length ts1)) op operand left ts1)"

definition parseAndExpr :: "(token list \<Rightarrow> pres) \<Rightarrow> fparser \<Rightarrow> token list \<Rightarrow> pres" where
  "parseAndExpr sub p ts = op_expr ''AND'' (parseNotExpr sub p) ts"

definition parseOrExpr :: "(token list \<Rightarrow> pres) \<Rightarrow> fparser \<Rightarrow> token list \<Rightarrow> pres" where
  "parseOrExpr sub p ts = op_expr ''OR'' (parseAndExpr sub p) ts"

fun parseExpr :: "nat \<Rightarrow> fparser \<Rightarrow> token list \<Rightarrow> pres" where
  "parseExpr 0 p ts = None"
| "parseExpr (Suc n) p ts = parseOrExpr (parseExpr n p) p ts"

text \<open>\<open>Parse\<close>: the empty expression has no condition.\<close>

definition parse_opts :: "(foptions \<Rightarrow> foptions) list \<Rightarrow> foptions" where
  "parse_opts os = fold (\<lambda>f x. f x) os \<lparr>dialect = [], jsonColumns = Map.empty\<rparr>"

definition Parse :: "string \<Rightarrow> (string \<Rightarrow> string option) \<Rightarrow> (foptions \<Rightarrow> foptions) list \<Rightarrow> (ferr + Condition option) option" where
  "Parse expr cols os =
     (let e = TrimSpace expr
      in if e = [] then Some (Inr None)
         else let ts = tokenize e;
                  p = \<lparr>columns = cols, opts = parse_opts os\<rparr>
              in case parseExpr (Suc (length ts)) p ts of
                   None \<Rightarrow> None
                 | Some (Inl er) \<Rightarrow> Some (Inl er)
                 | Some (Inr (c, ts1)) \<Rightarrow>
                     if fst (peek ts1) \<noteq> tokEOF then Some (Inl (UnexpectedToken (snd (peek ts1)))) else Some (Inr (Some c)))"

section \<open>Order clauses\<close>

record OrderClause =
  ocColumn :: string
  ocDesc :: bool

definition GORMExpr :: "OrderClause \<Rightarrow> string" where
  "GORMExpr c = (if ocDesc c then ocColumn c @ '' DESC'' else ocColumn c @ '' ASC'')"

fun split_comma :: "string \<Rightarrow> string list" where
  "split_comma [] = [[]]"
| "split_comma (c # s) = (if c = CHR '','' then [] # split_comma s
     else case split_comma s of [] \<Rightarrow> [[c]] | p # ps \<Rightarrow> (c # p) # ps)"

definition order_term :: "(string \<Rightarrow> string option) \<Rightarrow> string \<Rightarrow> ferr + OrderClause option" where
  "order_term cols part0 =
     (let part = TrimSpace part0; fs = Fields part
      in if part = [] then Inr None
         else if length fs = 0 \<or> length fs > 2 then Inl (InvalidOrderTerm part)
         else case cols (fs ! 0) of
                None \<Rightarrow> Inl (UnknownOrderField (fs ! 0))
              | Some col \<Rightarrow>
                  if length fs = 2
                  then if map low (fs ! 1) = ''asc'' then Inr (Some \<lparr>ocColumn = col, ocDesc = False\<rparr>)
                       else if map low (fs ! 1) = ''desc'' then Inr (Some \<lparr>ocColumn = col, ocDesc = True\<rparr>)
                       else Inl (InvalidDirection (fs ! 1))
                  else Inr (Some \<lparr>ocColumn = col, ocDesc = False\<rparr>))"

fun order_terms :: "(string \<Rightarrow> string option) \<Rightarrow> string list \<Rightarrow> ferr + OrderClause list" where
  "order_terms cols [] = Inr []"
| "order_terms cols (p # ps) =
     (case order_term cols p of
        Inl e \<Rightarrow> Inl e
      | Inr None \<Rightarrow> order_terms cols ps
      | Inr (Some c) \<Rightarrow> (case order_terms cols ps of Inl e \<Rightarrow> Inl e | Inr cs \<Rightarrow> Inr (c # cs)))"

definition ParseOrderBy :: "string \<Rightarrow> (string \<Rightarrow> string option) \<Rightarrow> ferr + OrderClause list" where
  "ParseOrderBy orderBy cols =
     (let o' = TrimSpace orderBy in if o' = [] then Inr [] else order_terms cols (split_comma o'))"

section \<open>What the parser accepts\<close>

text \<open>Conditions over the whitelists.\<close>

fun cond_ok :: "fparser \<Rightarrow> Condition \<Rightarrow> bool" where
  "cond_ok p (Comparison col op v) \<longleftrightarrow> col \<in> ran (columns p) \<and> op \<in> {''='', ''!='', ''<'', ''<='', ''>'', ''>='', ''LIKE''}"
| "cond_ok p (TagComparison col key op v d) \<longleftrightarrow> col \<in> ran (jsonColumns (opts p)) \<and> op \<in> {''='', ''!=''} \<and> key \<noteq> []"
| "cond_ok p (TagPresence col key d) \<longleftrightarrow> col \<in> ran (jsonColumns (opts p)) \<and> key \<noteq> []"
| "cond_ok p (Logical op l r) \<longleftrightarrow> op \<in> {''AND'', ''OR''} \<and> cond_ok p l \<and> cond_ok p r"
| "cond_ok p (Negation c) \<longleftrightarrow> cond_ok p c"

text \<open>A step of the parser that returns, and on success consumes tokens and yields a condition over the whitelists.\<close>

definition sound :: "fparser \<Rightarrow> ferr + Condition \<times> token list \<Rightarrow> token list \<Rightarrow> bool" where
  "sound p r ts \<longleftrightarrow> (\<forall>c ts'. r = Inr (c, ts') \<longrightarrow> length ts' < length ts \<and> cond_ok p c)"

definition steps_below :: "fparser \<Rightarrow> nat \<Rightarrow> (token list \<Rightarrow> pres) \<Rightarrow> bool" where
  "steps_below p L f \<longleftrightarrow> (\<forall>ts. length ts < L \<longrightarrow> (\<exists>r. f ts = Some r \<and> sound p r ts))"

lemma steps_belowD: "steps_below p L f \<Longrightarrow> length ts < L \<Longrightarrow> \<exists>r. f ts = Some r \<and> sound p r ts"
  by (simp add: steps_below_def)

lemma peek_nonempty: "fst (peek ts) \<noteq> tokEOF \<Longrightarrow> ts \<noteq> []"
  by (auto simp: peek_def)

lemma tl_shorter: "ts \<noteq> [] \<Longrightarrow> length (tl ts) < length ts"
  by (cases ts) simp_all

lemma tl_le: "length (tl ts) \<le> length ts"
  by simp

lemma resolve_ok: "resolveJSONPath p path = Inr (col, key) \<Longrightarrow> col \<in> ran (jsonColumns (opts p)) \<and> key \<noteq> []"
  by (auto simp: resolveJSONPath_def ranI split: option.splits prod.splits if_splits)

lemma scalar_ops: "scalar_op k = Some op \<Longrightarrow> op \<in> {''='', ''!='', ''<'', ''<='', ''>'', ''>='', ''LIKE''}"
  by (cases k) (auto simp: scalar_op_def)

lemma parseHas_sound: "fst (peek ts) = tokIdent \<Longrightarrow> sound p (parseHas p ts) ts"
  using peek_nonempty [of ts]
  by (cases ts) (auto simp: sound_def parseHas_def Let_def dest: resolve_ok split: sum.splits prod.splits if_splits)

lemma parseJSONComparison_sound:
  "parseJSONComparison p col key ts = Inr (c, ts') \<Longrightarrow> length ts' \<le> length ts \<and>
    (\<exists>op v. c = TagComparison col key op v (dialect (opts p)) \<and> op \<in> {''='', ''!=''})"
  by (auto simp: parseJSONComparison_def Let_def split: option.splits if_splits tokKind.splits)

lemma parseComparison_sound: "sound p (parseComparison p ts) ts"
proof (cases "fst (peek ts) = tokIdent")
  case True
  then have len: "length (tl ts) < length ts" using peek_nonempty [of ts] by (intro tl_shorter) auto
  have "length ts' < length ts \<and> cond_ok p c" if r: "parseComparison p ts = Inr (c, ts')" for c ts'
  proof (cases "columns p (snd (peek ts)) = None \<and> CHR ''.'' \<in> set (snd (peek ts))")
    case True
    then obtain col key where "resolveJSONPath p (snd (peek ts)) = Inr (col, key)"
      "parseJSONComparison p col key (tl ts) = Inr (c, ts')"
      using r by (auto simp: parseComparison_def Let_def split: if_splits sum.splits prod.splits)
    then show ?thesis using resolve_ok parseJSONComparison_sound [of p col key "tl ts" c ts'] len by auto
  next
    case False
    then show ?thesis
      using r len by (auto simp: parseComparison_def Let_def ranI dest: scalar_ops split: if_splits option.splits)
  qed
  then show ?thesis by (simp add: sound_def)
qed (simp add: sound_def parseComparison_def Let_def)

lemma parsePrimary_steps:
  assumes "steps_below p L sub"
  shows "steps_below p (Suc L) (parsePrimary sub p)"
  unfolding steps_below_def
proof (intro allI impI)
  fix ts :: "token list"
  assume L: "length ts < Suc L"
  show "\<exists>r. parsePrimary sub p ts = Some r \<and> sound p r ts"
  proof (cases "fst (peek ts) = tokLParen")
    case True
    then have len: "length (tl ts) < length ts" using peek_nonempty [of ts] by (intro tl_shorter) auto
    then obtain r where "sub (tl ts) = Some r" "sound p r (tl ts)" using assms L steps_belowD [of p L sub "tl ts"] by auto
    then show ?thesis
      using True len by (cases r) (auto simp: parsePrimary_def sound_def)
  next
    case False
    then show ?thesis using parseHas_sound [of ts p] parseComparison_sound [of p ts] by (simp add: parsePrimary_def)
  qed
qed

lemma parseNotExpr_steps:
  assumes "steps_below p L sub"
  shows "steps_below p (Suc L) (parseNotExpr sub p)"
  unfolding steps_below_def
proof (intro allI impI)
  fix ts :: "token list"
  assume L: "length ts < Suc L"
  note prim = steps_belowD [OF parsePrimary_steps [OF assms]]
  show "\<exists>r. parseNotExpr sub p ts = Some r \<and> sound p r ts"
  proof (cases "keyword ''NOT'' ts")
    case True
    then have len: "length (tl ts) < length ts" using peek_nonempty [of ts] by (intro tl_shorter) (auto simp: keyword_def)
    then obtain r where "parsePrimary sub p (tl ts) = Some r" "sound p r (tl ts)" using prim [of "tl ts"] L by auto
    then show ?thesis using True len by (cases r) (auto simp: parseNotExpr_def sound_def)
  next
    case False
    then show ?thesis using prim [of ts] L by (simp add: parseNotExpr_def)
  qed
qed

lemma op_loop_steps:
  assumes "steps_below p (Suc L) f" "op \<in> {''AND'', ''OR''}"
  shows "length ts < n \<Longrightarrow> length ts \<le> L \<Longrightarrow> cond_ok p left \<Longrightarrow>
    \<exists>r. op_loop n op f left ts = Some r \<and> (\<forall>c ts'. r = Inr (c, ts') \<longrightarrow> length ts' \<le> length ts \<and> cond_ok p c)"
proof (induction n arbitrary: left ts)
  case (Suc n)
  show ?case
  proof (cases "keyword op ts")
    case True
    then have len: "length (tl ts) < length ts" using peek_nonempty [of ts] by (intro tl_shorter) (auto simp: keyword_def)
    then obtain r where r: "f (tl ts) = Some r" "sound p r (tl ts)"
      using steps_belowD [OF assms(1), of "tl ts"] Suc.prems(2) by auto
    show ?thesis
    proof (cases r)
      case (Inr x)
      obtain c ts1 where x: "r = Inr (c, ts1)" using Inr by (cases x) simp
      then have "length ts1 < length (tl ts)" "cond_ok p (Logical op left c)"
        using r(2) Suc.prems(3) assms(2) by (auto simp: sound_def)
      moreover have "length ts1 < n" "length ts1 \<le> L" using calculation(1) len Suc.prems(1,2) by linarith+
      ultimately obtain r' where "op_loop n op f (Logical op left c) ts1 = Some r'"
        "\<forall>c ts'. r' = Inr (c, ts') \<longrightarrow> length ts' \<le> length ts1 \<and> cond_ok p c" using Suc.IH by blast
      then show ?thesis using True r(1) x \<open>length ts1 < length (tl ts)\<close> len by (auto intro: order_trans less_imp_le)
    qed (use True r in simp)
  qed (use Suc.prems in simp)
qed simp

lemma op_expr_steps:
  assumes "steps_below p (Suc L) f" "op \<in> {''AND'', ''OR''}"
  shows "steps_below p (Suc L) (op_expr op f)"
  unfolding steps_below_def
proof (intro allI impI)
  fix ts :: "token list"
  assume L: "length ts < Suc L"
  obtain r where r: "f ts = Some r" "sound p r ts" using steps_belowD [OF assms(1) L] by blast
  show "\<exists>r. op_expr op f ts = Some r \<and> sound p r ts"
  proof (cases r)
    case (Inr x)
    obtain c ts1 where x: "r = Inr (c, ts1)" using Inr by (cases x) simp
    then have l: "length ts1 < length ts" "cond_ok p c" using r(2) by (auto simp: sound_def)
    then obtain r' where "op_loop (Suc (length ts1)) op f c ts1 = Some r'"
      "\<forall>c ts'. r' = Inr (c, ts') \<longrightarrow> length ts' \<le> length ts1 \<and> cond_ok p c"
      using op_loop_steps [OF assms, of ts1 "Suc (length ts1)" c] L by auto
    then show ?thesis using r(1) x l(1) by (auto simp: op_expr_def sound_def simp del: op_loop.simps)
  qed (use r in \<open>simp add: op_expr_def sound_def\<close>)
qed

lemma parseExpr_steps: "steps_below p n (parseExpr n p)"
proof (induction n)
  case (Suc n)
  have "steps_below p (Suc n) (parseAndExpr (parseExpr n p) p)"
    using op_expr_steps [OF parseNotExpr_steps [OF Suc], of "''AND''"]
    by (simp add: parseAndExpr_def [abs_def] steps_below_def)
  from op_expr_steps [OF this, of "''OR''"] show ?case by (simp add: parseOrExpr_def steps_below_def)
qed (simp add: steps_below_def)

lemma Parse_sound:
  "\<exists>r. Parse expr cols os = Some r \<and> (\<forall>c. r = Inr (Some c) \<longrightarrow> cond_ok \<lparr>columns = cols, opts = parse_opts os\<rparr> c)"
proof (cases "TrimSpace expr = []")
  case False
  let ?ts = "tokenize (TrimSpace expr)" and ?p = "\<lparr>columns = cols, opts = parse_opts os\<rparr>"
  obtain r where "parseExpr (Suc (length ?ts)) ?p ?ts = Some r" "sound ?p r ?ts"
    using steps_belowD [OF parseExpr_steps [of ?p "Suc (length ?ts)"], of ?ts] by auto
  then show ?thesis using False
    by (cases r) (auto simp: Parse_def Let_def sound_def simp del: parseExpr.simps)
qed (simp add: Parse_def)

text \<open>The SQL texts that can be built over a set of columns: column names, fixed operators and punctuation, and placeholders.\<close>

inductive safe_sql :: "string set \<Rightarrow> string \<Rightarrow> bool" for C where
  ss_scalar: "col \<in> C \<Longrightarrow> op \<in> {''='', ''!='', ''<'', ''<='', ''>'', ''>='', ''LIKE''} \<Longrightarrow> safe_sql C (col @ '' '' @ op @ '' ?'')"
| ss_arrow: "col \<in> C \<Longrightarrow> op \<in> {''='', ''!=''} \<Longrightarrow> safe_sql C (col @ '' ->> ? '' @ op @ '' ?'')"
| ss_extract: "col \<in> C \<Longrightarrow> op \<in> {''='', ''!=''} \<Longrightarrow> safe_sql C (''json_extract('' @ col @ '', ?) '' @ op @ '' ?'')"
| ss_exists: "col \<in> C \<Longrightarrow> safe_sql C (''jsonb_exists('' @ col @ '', ?)'')"
| ss_present: "col \<in> C \<Longrightarrow> safe_sql C (''json_extract('' @ col @ '', ?) IS NOT NULL'')"
| ss_logical: "safe_sql C l \<Longrightarrow> safe_sql C r \<Longrightarrow> op \<in> {''AND'', ''OR''} \<Longrightarrow> safe_sql C (''('' @ l @ '') '' @ op @ '' ('' @ r @ '')'')"
| ss_negated: "safe_sql C s \<Longrightarrow> safe_sql C (''NOT ('' @ s @ '')'')"

definition whitelist :: "fparser \<Rightarrow> string set" where
  "whitelist p = ran (columns p) \<union> ran (jsonColumns (opts p))"

lemma SQL_safe: "cond_ok p c \<Longrightarrow> safe_sql (whitelist p) (fst (SQL c))"
proof (induction c)
  case (Comparison col op v)
  then show ?case using safe_sql.ss_scalar [of col "whitelist p" op] by (simp add: whitelist_def)
next
  case (TagComparison col key op v d)
  then show ?case using safe_sql.ss_arrow [of col "whitelist p" op] safe_sql.ss_extract [of col "whitelist p" op]
    by (simp add: whitelist_def)
next
  case (TagPresence col key d)
  then show ?case using safe_sql.ss_exists [of col "whitelist p"] safe_sql.ss_present [of col "whitelist p"] by (simp add: whitelist_def)
next
  case (Logical op l r)
  then show ?case using safe_sql.ss_logical [of "whitelist p" "fst (SQL l)" "fst (SQL r)" op] by simp
next
  case (Negation c)
  then show ?case using safe_sql.ss_negated [of "whitelist p" "fst (SQL c)"] by simp
qed

lemma SQL_placeholders:
  "cond_ok p c \<Longrightarrow> (\<forall>col\<in>whitelist p. CHR ''?'' \<notin> set col) \<Longrightarrow> count_list (fst (SQL c)) (CHR ''?'') = length (snd (SQL c))"
  by (induction c) (auto simp: whitelist_def count_notin)

end
