(* ===== verification/Filter_Print.thy ===== *)
theory Filter_Print
  imports Filter_Parse
begin

text \<open>
  A printer for filter expressions and the round trip through the lexer and the parser of \<open>Filter_Parse\<close>: every condition over
  the whitelists has a filter text that parses to it, with every byte string available as a value. The properties of the
  filter component are at the end.
\<close>

section \<open>Expressions and their text\<close>

datatype fexpr = FCmp string tokKind string | FTag string string tokKind string | FHas string string
  | FAnd fexpr fexpr | FOr fexpr fexpr | FNot fexpr

fun escape :: "string \<Rightarrow> string" where
  "escape [] = []"
| "escape (c # s) = (if c = CHR 0x22 \<or> c = CHR 0x5C then CHR 0x5C # c # escape s else c # escape s)"

definition quote :: "string \<Rightarrow> string" where
  "quote v = CHR 0x22 # escape v @ [CHR 0x22]"

fun op_text :: "tokKind \<Rightarrow> string" where
  "op_text tokEQ = ''=''" | "op_text tokNEQ = ''!=''" | "op_text tokLT = ''<''" | "op_text tokLTE = ''<=''"
| "op_text tokGT = ''>''" | "op_text tokGTE = ''>=''" | "op_text tokHAS = '':''" | "op_text _ = []"

fun show_filter :: "fexpr \<Rightarrow> string" where
  "show_filter (FCmp f k v) = f @ '' '' @ op_text k @ '' '' @ quote v"
| "show_filter (FTag f key k v) = (f @ ''.'' @ key) @ '' '' @ op_text k @ '' '' @ quote v"
| "show_filter (FHas f key) = ''has'' @ ''('' @ (f @ ''.'' @ key) @ '')''"
| "show_filter (FAnd a b) = ''('' @ show_filter a @ '')'' @ '' '' @ ''AND'' @ '' '' @ ''('' @ show_filter b @ '')''"
| "show_filter (FOr a b) = ''('' @ show_filter a @ '')'' @ '' '' @ ''OR'' @ '' '' @ ''('' @ show_filter b @ '')''"
| "show_filter (FNot a) = ''NOT'' @ '' '' @ ''('' @ show_filter a @ '')''"

fun toks :: "fexpr \<Rightarrow> token list" where
  "toks (FCmp f k v) = [(tokIdent, f), (k, op_text k), (tokString, v)]"
| "toks (FTag f key k v) = [(tokIdent, f @ ''.'' @ key), (k, op_text k), (tokString, v)]"
| "toks (FHas f key) = [(tokIdent, ''has''), (tokLParen, ''(''), (tokIdent, f @ ''.'' @ key), (tokRParen, '')'')]"
| "toks (FAnd a b) = (tokLParen, ''('') # toks a @ (tokRParen, '')'') # (tokIdent, ''AND'') # (tokLParen, ''('') # toks b @ [(tokRParen, '')'')]"
| "toks (FOr a b) = (tokLParen, ''('') # toks a @ (tokRParen, '')'') # (tokIdent, ''OR'') # (tokLParen, ''('') # toks b @ [(tokRParen, '')'')]"
| "toks (FNot a) = (tokIdent, ''NOT'') # (tokLParen, ''('') # toks a @ [(tokRParen, '')'')]"

text \<open>The condition an expression stands for.\<close>

fun denote :: "fparser \<Rightarrow> fexpr \<Rightarrow> Condition" where
  "denote p (FCmp f k v) = Comparison (the (columns p f)) (the (scalar_op k)) (if k = tokHAS then ''%'' @ v @ ''%'' else v)"
| "denote p (FTag f key k v) = TagComparison (the (jsonColumns (opts p) f)) key (the (scalar_op k)) v (dialect (opts p))"
| "denote p (FHas f key) = TagPresence (the (jsonColumns (opts p) f)) key (dialect (opts p))"
| "denote p (FAnd a b) = Logical ''AND'' (denote p a) (denote p b)"
| "denote p (FOr a b) = Logical ''OR'' (denote p a) (denote p b)"
| "denote p (FNot a) = Negation (denote p a)"

definition ident_ok :: "string \<Rightarrow> bool" where
  "ident_ok f \<longleftrightarrow> f \<noteq> [] \<and> isIdentStart (hd f) \<and> list_all (\<lambda>c. isIdentContinue c \<and> byte c < 128) f"

definition tag_ok :: "fparser \<Rightarrow> string \<Rightarrow> string \<Rightarrow> bool" where
  "tag_ok p f key \<longleftrightarrow> ident_ok (f @ ''.'' @ key) \<and> f \<noteq> [] \<and> key \<noteq> [] \<and> CHR ''.'' \<notin> set f \<and> jsonColumns (opts p) f \<noteq> None
     \<and> dialect (opts p) \<in> {[], ''postgres'', ''sqlite''}"

fun expr_ok :: "fparser \<Rightarrow> fexpr \<Rightarrow> bool" where
  "expr_ok p (FCmp f k v) \<longleftrightarrow> ident_ok f \<and> map up f \<notin> {''AND'', ''OR'', ''NOT''} \<and> columns p f \<noteq> None \<and> scalar_op k \<noteq> None"
| "expr_ok p (FTag f key k v) \<longleftrightarrow> tag_ok p f key \<and> columns p (f @ ''.'' @ key) = None \<and> k \<in> {tokEQ, tokNEQ}"
| "expr_ok p (FHas f key) \<longleftrightarrow> tag_ok p f key"
| "expr_ok p (FAnd a b) \<longleftrightarrow> expr_ok p a \<and> expr_ok p b"
| "expr_ok p (FOr a b) \<longleftrightarrow> expr_ok p a \<and> expr_ok p b"
| "expr_ok p (FNot a) \<longleftrightarrow> expr_ok p a"

section \<open>Lexing the text\<close>

lemma lex_string_escape: "lex_string (escape v @ CHR 0x22 # rest) = (v, rest)"
  by (induction v) auto

lemma tokenize_space [simp]: "tokenize (CHR '' '' # s) = tokenize s"
  by (simp add: tokenize.simps [of "CHR '' '' # s"] tokenize.simps [of s] isSpace_def)

lemma tokenize_Cons: "\<not> isSpace c \<Longrightarrow> tokenize (c # r) = fst (lex_token c r) # tokenize (snd (lex_token c r))"
  by (simp add: tokenize.simps [of "c # r"])

lemma tokenize_Nil [simp]: "tokenize [] = [(tokEOF, [])]"
  by (simp add: tokenize.simps)

lemma tokenize_quote [simp]: "tokenize (quote v @ rest) = (tokString, v) # tokenize rest"
  by (simp add: quote_def tokenize_Cons isSpace_def lex_token_def lex_string_escape)

lemma tokenize_parens [simp]:
  "tokenize (CHR ''('' # rest) = (tokLParen, ''('') # tokenize rest"
  "tokenize (CHR '')'' # rest) = (tokRParen, '')'') # tokenize rest"
  by (simp_all add: tokenize_Cons isSpace_def lex_token_def)

lemma tokenize_op: "scalar_op k \<noteq> None \<Longrightarrow> tokenize (op_text k @ CHR '' '' # rest) = (k, op_text k) # tokenize rest"
  by (cases k) (simp_all add: scalar_op_def tokenize_Cons isSpace_def lex_token_def next_is_def)

lemma ident_start_plain:
  "isIdentStart c \<Longrightarrow> \<not> isSpace c \<and> \<not> isDigit c \<and> c \<notin> {CHR 0x22, CHR ''('', CHR '')'', CHR '':'', CHR ''!'', CHR ''<'', CHR ''>'', CHR ''='', CHR ''-''}"
  by (auto simp: isIdentStart_def isLetter_def isSpace_def isDigit_def)

lemma tokenize_ident:
  assumes "ident_ok f" "rest = [] \<or> \<not> isIdentContinue (hd rest)"
  shows "tokenize (f @ rest) = (tokIdent, f) # tokenize rest"
proof -
  obtain c g where f: "f = c # g" using assms(1) by (cases f) (auto simp: ident_ok_def)
  then have c: "isIdentStart c" and g: "list_all isIdentContinue g" using assms(1) by (auto simp: ident_ok_def list_all_iff)
  have tw: "takeWhile isIdentContinue (g @ rest) = g" "dropWhile isIdentContinue (g @ rest) = rest"
    using g assms(2) by (auto simp: list_all_iff takeWhile_append2 dropWhile_append2 takeWhile_eq_Nil_iff dropWhile_eq_self_iff)
  show ?thesis
    using ident_start_plain [OF c] c by (simp add: f tokenize_Cons lex_token_def tw)
qed

lemma keywords_ident: "ident_ok ''has''" "ident_ok ''AND''" "ident_ok ''OR''" "ident_ok ''NOT''"
  by (simp_all add: ident_ok_def isIdentStart_def isIdentContinue_def isLetter_def)

lemma not_continue [simp]: "\<not> isIdentContinue (CHR '' '')" "\<not> isIdentContinue (CHR ''('')" "\<not> isIdentContinue (CHR '')'')"
  by (simp_all add: isIdentContinue_def isLetter_def isDigit_def)

lemma tokenize_word: "ident_ok f \<Longrightarrow> tokenize (f @ CHR '' '' # s) = (tokIdent, f) # tokenize s"
  by (simp add: tokenize_ident)

lemmas tokenize_keywords =
  tokenize_word [OF keywords_ident(2), simplified] tokenize_word [OF keywords_ident(3), simplified]
  tokenize_word [OF keywords_ident(4), simplified]

lemma tokenize_has: "tokenize (CHR ''h'' # CHR ''a'' # CHR ''s'' # CHR ''('' # s) = (tokIdent, ''has'') # (tokLParen, ''('') # tokenize s"
  using tokenize_ident [OF keywords_ident(1), of "CHR ''('' # s"] by simp

lemma tokenize_path: "tag_ok p f key \<Longrightarrow> rest = [] \<or> \<not> isIdentContinue (hd rest) \<Longrightarrow>
    tokenize (f @ CHR ''.'' # key @ rest) = (tokIdent, f @ CHR ''.'' # key) # tokenize rest"
  using tokenize_ident [of "f @ ''.'' @ key" rest] by (simp add: tag_ok_def)

lemma tokenize_show: "expr_ok p e \<Longrightarrow> tokenize (show_filter e @ rest) = toks e @ tokenize rest"
proof (induction e arbitrary: rest)
  case (FCmp f k v)
  then show ?case by (simp add: tokenize_word tokenize_op)
next
  case (FTag f key k v)
  then have "scalar_op k \<noteq> None" and t: "tag_ok p f key" by (auto simp: scalar_op_def)
  then show ?case by (simp add: tokenize_path [OF t] tokenize_op)
next
  case (FHas f key)
  then show ?case by (simp add: tokenize_has tokenize_path)
qed (simp_all add: tokenize_keywords)

section \<open>Trimming the text\<close>

text \<open>A string whose ends are printing ASCII characters is not trimmed.\<close>

definition printing :: "char \<Rightarrow> bool" where
  "printing c \<longleftrightarrow> 32 < byte c \<and> byte c < 128"

lemma space_ends:
  "list_all (\<lambda>e. e \<noteq> [] \<and> \<not> printing (hd e) \<and> \<not> printing (last e)) space_encodings"
  by (simp add: space_encodings_def printing_def)

lemma space_at_None: "list_all (\<lambda>e. e \<noteq> [] \<and> \<not> printing (hd e)) es \<Longrightarrow> printing c \<Longrightarrow> space_at es (c # s) = None"
proof (induction es)
  case (Cons e es)
  then show ?case by (cases e) auto
qed simp

lemma trim_by_printing: "list_all (\<lambda>e. e \<noteq> [] \<and> \<not> printing (hd e)) es \<Longrightarrow> printing c \<Longrightarrow> trim_by es n (c # s) = c # s"
  by (cases n) (simp_all add: space_at_None)

lemma TrimSpace_printing:
  assumes "s \<noteq> []" "printing (hd s)" "printing (last s)"
  shows "TrimSpace s = s"
proof -
  have fwd: "list_all (\<lambda>e. e \<noteq> [] \<and> \<not> printing (hd e)) space_encodings"
    using space_ends by (simp add: list_all_iff)
  have bwd: "list_all (\<lambda>e. e \<noteq> [] \<and> \<not> printing (hd e)) (map rev space_encodings)"
    using space_ends by (simp add: list_all_iff hd_rev)
  obtain c r where s: "s = c # r" using assms(1) by (cases s) auto
  obtain d q where q: "rev s = d # q" using assms(1) by (cases "rev s") auto
  have "d = last s" using q by (metis hd_rev list.sel(1))
  then have "trim_by (map rev space_encodings) (length s) (rev s) = rev s"
    unfolding q using assms(3) trim_by_printing [OF bwd, of d] by blast
  moreover have "printing c" using s assms(2) by simp
  then have "trim_by space_encodings (length s) s = s" unfolding s by (rule trim_by_printing [OF fwd])
  ultimately show ?thesis by (simp add: TrimSpace_def Let_def)
qed

lemma ident_printing: "ident_ok f \<Longrightarrow> printing (hd f)"
  by (cases f) (auto simp: ident_ok_def printing_def isIdentStart_def isLetter_def)

lemma show_ends: "expr_ok p e \<Longrightarrow> show_filter e \<noteq> [] \<and> printing (hd (show_filter e)) \<and> printing (last (show_filter e))"
proof (induction e)
  case (FCmp f k v)
  then show ?case using ident_printing [of f] by (auto simp: ident_ok_def quote_def printing_def)
next
  case (FTag f key k v)
  then have "printing (hd (f @ ''.'' @ key))" "f \<noteq> []" using ident_printing [of "f @ ''.'' @ key"] by (auto simp: tag_ok_def)
  then show ?case by (simp add: quote_def printing_def)
qed (simp_all add: printing_def)

section \<open>Parsing the tokens\<close>

fun depth :: "fexpr \<Rightarrow> nat" where
  "depth (FAnd a b) = Suc (max (depth a) (depth b))"
| "depth (FOr a b) = Suc (max (depth a) (depth b))"
| "depth (FNot a) = Suc (depth a)"
| "depth _ = 0"

lemma depth_le: "depth e \<le> length (toks e)"
  by (induction e) auto

definition stop :: "token list \<Rightarrow> bool" where
  "stop ts \<longleftrightarrow> \<not> keyword ''AND'' ts \<and> \<not> keyword ''OR'' ts"

lemma upper_keywords: "map up ''AND'' = ''AND''" "map up ''OR'' = ''OR''" "map up ''NOT'' = ''NOT''" "map up ''has'' = ''HAS''"
  by code_simp+

lemma keyword_tokens [simp]:
  "keyword w ((tokIdent, x) # ts) \<longleftrightarrow> map up x = w" "\<not> keyword w ((tokLParen, x) # ts)" "\<not> keyword w ((tokRParen, x) # ts)"
  "\<not> keyword w ((tokEOF, x) # ts)"
  by (simp_all add: keyword_def peek_def)

lemma op_expr_one:
  "operand ts = Some (Inr (c, ts1)) \<Longrightarrow> \<not> keyword op ts1 \<Longrightarrow> op_expr op operand ts = Some (Inr (c, ts1))"
  by (simp add: op_expr_def)

lemma op_expr_two:
  assumes "operand ts = Some (Inr (c, t # ts1))" "keyword op (t # ts1)"
    and "operand ts1 = Some (Inr (d, ts2))" "\<not> keyword op ts2"
  shows "op_expr op operand ts = Some (Inr (Logical op c d, ts2))"
  using assms by (simp add: op_expr_def)

lemma not_of_primary:
  "parsePrimary sub p ts = Some (Inr (c, ts1)) \<Longrightarrow> \<not> keyword ''NOT'' ts \<Longrightarrow> parseNotExpr sub p ts = Some (Inr (c, ts1))"
  by (simp add: parseNotExpr_def)

lemma or_of_not:
  assumes "parseNotExpr sub p ts = Some (Inr (c, ts1))" "stop ts1"
  shows "parseOrExpr sub p ts = Some (Inr (c, ts1))"
  using assms by (simp add: parseOrExpr_def op_expr_one parseAndExpr_def stop_def)

lemma and_of_not:
  assumes "parseNotExpr sub p ts = Some (Inr (c, ts1))" "\<not> keyword ''AND'' ts1"
  shows "parseAndExpr sub p ts = Some (Inr (c, ts1))"
  using assms by (simp add: op_expr_one parseAndExpr_def)

lemma paren_primary:
  assumes "sub (ts @ (tokRParen, '')'') # ts1) = Some (Inr (c, (tokRParen, '')'') # ts1))"
  shows "parsePrimary sub p ((tokLParen, ''('') # ts @ (tokRParen, '')'') # ts1) = Some (Inr (c, ts1))"
  using assms by (simp add: parsePrimary_def peek_def)

lemma cut_dot_path: "CHR ''.'' \<notin> set f \<Longrightarrow> cut_dot (f @ CHR ''.'' # key) = Some (f, key)"
  by (induction f) auto

lemma resolve_tag: "tag_ok p f key \<Longrightarrow> resolveJSONPath p (f @ CHR ''.'' # key) = Inr (the (jsonColumns (opts p) f), key)"
  by (auto simp: tag_ok_def resolveJSONPath_def cut_dot_path)

lemma cmp_primary: "expr_ok p (FCmp f k v) \<Longrightarrow>
    parsePrimary sub p (toks (FCmp f k v) @ ts) = Some (Inr (denote p (FCmp f k v), ts)) \<and> \<not> keyword ''NOT'' (toks (FCmp f k v) @ ts)"
  by (cases k) (auto simp: parsePrimary_def parseComparison_def peek_def scalar_op_def is_value_def Let_def)

lemma dot_survives: "map up (f @ CHR ''.'' # key) = w \<Longrightarrow> CHR ''.'' \<in> set w"
  by (auto simp: up_def)

lemma dot_not_keyword: "map up (f @ CHR ''.'' # key) \<notin> {''AND'', ''OR'', ''NOT''}"
proof -
  have "map up (f @ CHR ''.'' # key) \<noteq> w" if "CHR ''.'' \<notin> set w" for w using dot_survives [of f key w] that by metis
  then show ?thesis by (simp only: insert_iff empty_iff de_Morgan_disj) simp
qed

lemma tag_primary: "expr_ok p (FTag f key k v) \<Longrightarrow>
    parsePrimary sub p (toks (FTag f key k v) @ ts) = Some (Inr (denote p (FTag f key k v), ts)) \<and> \<not> keyword ''NOT'' (toks (FTag f key k v) @ ts)"
  using dot_not_keyword [of f key] resolve_tag [of p f key]
  by (auto simp: parsePrimary_def parseComparison_def parseJSONComparison_def peek_def scalar_op_def is_value_def Let_def)

lemma has_primary: "expr_ok p (FHas f key) \<Longrightarrow>
    parsePrimary sub p (toks (FHas f key) @ ts) = Some (Inr (denote p (FHas f key), ts)) \<and> \<not> keyword ''NOT'' (toks (FHas f key) @ ts)"
  using resolve_tag [of p f key] upper_keywords(4) by (simp add: parsePrimary_def parseHas_def peek_def Let_def)

lemma parse_toks: "expr_ok p e \<Longrightarrow> depth e < n \<Longrightarrow> stop ts \<Longrightarrow> parseExpr n p (toks e @ ts) = Some (Inr (denote p e, ts))"
proof (induction e arbitrary: n ts)
  case (FCmp f k v)
  then obtain m where "n = Suc m" by (cases n) auto
  then show ?case using or_of_not not_of_primary cmp_primary FCmp by simp
next
  case (FTag f key k v)
  then obtain m where "n = Suc m" by (cases n) auto
  then show ?case using or_of_not not_of_primary tag_primary FTag by simp
next
  case (FHas f key)
  then obtain m where "n = Suc m" by (cases n) auto
  then show ?case using or_of_not not_of_primary has_primary FHas by simp
next
  case (FAnd a b)
  then obtain m where m: "n = Suc m" "depth a < m" "depth b < m" by (cases n) auto
  let ?rp = "(tokRParen, '')'')" and ?lp = "(tokLParen, ''('')" and ?and = "(tokIdent, ''AND'')"
  have a: "parseNotExpr (parseExpr m p) p (?lp # toks a @ ?rp # ?and # ?lp # toks b @ ?rp # ts)
      = Some (Inr (denote p a, ?and # ?lp # toks b @ ?rp # ts))"
    using FAnd m by (intro not_of_primary paren_primary) (simp_all add: stop_def)
  have b: "parseNotExpr (parseExpr m p) p (?lp # toks b @ ?rp # ts) = Some (Inr (denote p b, ts))"
    using FAnd m by (intro not_of_primary paren_primary) (simp_all add: stop_def)
  have "parseAndExpr (parseExpr m p) p (toks (FAnd a b) @ ts) = Some (Inr (denote p (FAnd a b), ts))"
    using op_expr_two [OF a _ b] FAnd.prems(3) upper_keywords(1) by (simp add: parseAndExpr_def stop_def)
  then show ?case using FAnd.prems(3) m(1) by (simp add: parseOrExpr_def op_expr_one stop_def)
next
  case (FOr a b)
  then obtain m where m: "n = Suc m" "depth a < m" "depth b < m" by (cases n) auto
  let ?rp = "(tokRParen, '')'')" and ?lp = "(tokLParen, ''('')" and ?or = "(tokIdent, ''OR'')"
  have a: "parseAndExpr (parseExpr m p) p (?lp # toks a @ ?rp # ?or # ?lp # toks b @ ?rp # ts)
      = Some (Inr (denote p a, ?or # ?lp # toks b @ ?rp # ts))"
    using FOr m upper_keywords(2) by (intro and_of_not not_of_primary paren_primary) (simp_all add: stop_def)
  have b: "parseAndExpr (parseExpr m p) p (?lp # toks b @ ?rp # ts) = Some (Inr (denote p b, ts))"
    using FOr m by (intro and_of_not not_of_primary paren_primary) (simp_all add: stop_def)
  show ?case using op_expr_two [OF a _ b] FOr.prems(3) upper_keywords(2) m(1) by (simp add: parseOrExpr_def stop_def)
next
  case (FNot a)
  then obtain m where m: "n = Suc m" "depth a < m" by (cases n) auto
  have "parsePrimary (parseExpr m p) p ((tokLParen, ''('') # toks a @ (tokRParen, '')'') # ts) = Some (Inr (denote p a, ts))"
    using FNot m by (intro paren_primary) (simp_all add: stop_def)
  then have "parseNotExpr (parseExpr m p) p (toks (FNot a) @ ts) = Some (Inr (denote p (FNot a), ts))"
    using upper_keywords(3) by (simp add: parseNotExpr_def)
  then show ?case using or_of_not FNot.prems(3) m(1) by simp
qed

section \<open>Properties\<close>

text \<open>C12: a client cannot inject SQL. Whatever bytes the filter holds, \<open>Parse\<close> returns, and the SQL of a condition it accepts is
  built from whitelisted column names, fixed operators and punctuation and placeholders only; where no column name contains
  a question mark, there are exactly as many placeholders as bound arguments.\<close>

theorem filter_no_injection:
  "\<exists>r. Parse expr cols os = Some r
    \<and> (\<forall>c. r = Inr (Some c) \<longrightarrow> safe_sql (ran cols \<union> ran (jsonColumns (parse_opts os))) (fst (SQL c))
        \<and> ((\<forall>col\<in>ran cols \<union> ran (jsonColumns (parse_opts os)). CHR ''?'' \<notin> set col) \<longrightarrow>
             count_list (fst (SQL c)) (CHR ''?'') = length (snd (SQL c))))"
proof -
  obtain r where r: "Parse expr cols os = Some r"
    "\<forall>c. r = Inr (Some c) \<longrightarrow> cond_ok \<lparr>columns = cols, opts = parse_opts os\<rparr> c"
    using Parse_sound by blast
  then show ?thesis
    using SQL_safe [of "\<lparr>columns = cols, opts = parse_opts os\<rparr>"] SQL_placeholders [of "\<lparr>columns = cols, opts = parse_opts os\<rparr>"]
    by (simp add: whitelist_def)
qed

definition user_columns :: "string \<Rightarrow> string option" where
  "user_columns = [''name'' \<mapsto> ''user_name'', ''age'' \<mapsto> ''age'']"



theorem filter_no_injection_witness:
  "safe_sql (ran user_columns \<union> ran (jsonColumns (parse_opts []))) (fst (SQL (Comparison ''user_name'' ''='' ''x'')))"
proof -
  have "Parse ''name = x'' user_columns [] = Some (Inr (Some (Comparison ''user_name'' ''='' ''x'')))" by code_simp
  then show ?thesis using filter_no_injection [of "''name = x''" user_columns "[]"] by auto
qed

text \<open>Order clauses name whitelisted columns.\<close>

lemma order_term_col: "order_term cols p = Inr (Some c) \<Longrightarrow> ocColumn c \<in> ran cols"
  by (auto simp: order_term_def Let_def ranI split: if_splits option.splits)

lemma order_terms_cols: "order_terms cols ps = Inr cs \<Longrightarrow> c \<in> set cs \<Longrightarrow> ocColumn c \<in> ran cols"
proof (induction ps arbitrary: cs)
  case (Cons p ps)
  show ?case
  proof (cases "order_term cols p")
    case (Inr t)
    show ?thesis
    proof (cases t)
      case (Some d)
      then obtain ds where "order_terms cols ps = Inr ds" "cs = d # ds" using Cons.prems(1) Inr by (auto split: sum.splits)
      then show ?thesis using Cons.IH Cons.prems(2) order_term_col Inr Some by auto
    qed (use Cons Inr in simp)
  qed (use Cons in simp)
qed simp

lemma ParseOrderBy_cols: "ParseOrderBy s cols = Inr cs \<Longrightarrow> c \<in> set cs \<Longrightarrow> ocColumn c \<in> ran cols"
  by (auto simp: ParseOrderBy_def Let_def dest: order_terms_cols split: if_splits)

section \<open>Unterminated literals\<close>

text \<open>an unterminated string literal is accepted. The lexer ends a literal at the end of the input as if it were closed.\<close>

theorem unterminated_literal_accepted:
  "Parse (''name = '' @ [CHR 0x22] @ ''abc'') user_columns [] = Some (Inr (Some (Comparison ''user_name'' ''='' ''abc'')))"
proof -
  let ?s = "''name = '' @ [CHR 0x22] @ ''abc''"
  have trim: "TrimSpace ?s = ?s" by (rule TrimSpace_printing) (simp_all add: printing_def)
  have q: "tokenize (CHR 0x22 # ''abc'') = [(tokString, ''abc''), (tokEOF, [])]"
    by (simp add: tokenize_Cons isSpace_def lex_token_def)
  have "ident_ok ''name''" by (simp add: ident_ok_def isIdentStart_def isIdentContinue_def isLetter_def)
  from tokenize_word [OF this, of "op_text tokEQ @ CHR '' '' # CHR 0x22 # ''abc''"] q
  have lex: "tokenize ?s = [(tokIdent, ''name''), (tokEQ, ''=''), (tokString, ''abc''), (tokEOF, [])]"
    using tokenize_op [of tokEQ "CHR 0x22 # ''abc''"] by (simp add: scalar_op_def)
  have up: "map up ''name'' = ''NAME''" by code_simp
  let ?p = "\<lparr>columns = user_columns, opts = parse_opts []\<rparr>"
  have e: "expr_ok ?p (FCmp ''name'' tokEQ ''abc'')"
    using up by (simp add: ident_ok_def isIdentStart_def isIdentContinue_def isLetter_def user_columns_def scalar_op_def)
  have "parseExpr 5 ?p (toks (FCmp ''name'' tokEQ ''abc'') @ [(tokEOF, [])]) = Some (Inr (denote ?p (FCmp ''name'' tokEQ ''abc''), [(tokEOF, [])]))"
    by (rule parse_toks [OF e]) (simp_all add: stop_def)
  then show ?thesis
    using trim lex by (simp add: Parse_def Let_def peek_def user_columns_def scalar_op_def eval_nat_numeral del: parseExpr.simps)
qed

end
