(* ===== verification/Idempotency.thy ===== *)
theory Idempotency
  imports Persist_Tx
begin

text \<open>
  Request idempotency: the durable interceptors of \<^verbatim>\<open>src/middleware/idempotency.go\<close> over the database store of
  \<^verbatim>\<open>src/persistence/gormtx/dedupstore.go\<close> and its transaction runner (\<^verbatim>\<open>tx.go\<close>), and the in-memory path of
  \<^verbatim>\<open>src/middleware/dedup.go\<close>. The database is the table of idempotency rows beside the application's data. A transaction
  is one step: the primary key makes concurrent duplicates wait for each other. Database failures are an argument of every
  call; protobuf encoding and the request fingerprint are parameters.
\<close>

section \<open>Keys, rows and errors\<close>

record IdempotencyKey =
  ikTenant :: string
  ikMethod :: string
  ikRequestID :: string

datatype IdempotencyStatus = StatusInProgress | StatusCompleted | StatusOther string

record IdempotencyRecord =
  recStatus :: IdempotencyStatus
  recResponseType :: string
  recResponse :: string
  recFingerprint :: string

record IdempotencyKeyRow =
  rowKey :: IdempotencyKey
  rowStatus :: IdempotencyStatus
  rowResponseType :: string
  rowResponse :: string
  rowFingerprint :: string
  rowCreatedAt :: go_time
  rowExpiresAt :: go_time

datatype ierr = ErrIdempotencyInProgress | ErrIdempotencyFingerprintMismatch | ErrIdempotencyNonProtoResponse
  | ErrIdempotencyRequestIDTooLong | ErrIdempotencyResponseTooLarge | DbError string string | NoClaimedRow string
  | HandlerError string | is_HandlerPanic: HandlerPanic string

text \<open>What can go wrong in the database during one request, and what a concurrent transaction commits between the read and
  the guarded update of \<open>Claim\<close>.\<close>

record idem_io =
  lookupErr :: "string option"
  beginErr :: "string option"
  claimErr :: "string option"
  takeErr :: "string option"
  reclaimErr :: "string option"
  completeErr :: "string option"
  abandonErr :: "string option"
  commitErr :: "string option"
  race :: "IdempotencyKeyRow list \<Rightarrow> IdempotencyKeyRow list"

definition no_faults :: idem_io where
  "no_faults = \<lparr>lookupErr = None, beginErr = None, claimErr = None, takeErr = None, reclaimErr = None, completeErr = None,
     abandonErr = None, commitErr = None, race = id\<rparr>"

section \<open>The store\<close>

definition row_at :: "IdempotencyKey \<Rightarrow> IdempotencyKeyRow list \<Rightarrow> IdempotencyKeyRow option" where
  "row_at k t = find (\<lambda>r. rowKey r = k) t"

definition toRecord :: "IdempotencyKeyRow \<Rightarrow> IdempotencyRecord" where
  "toRecord r = \<lparr>recStatus = rowStatus r, recResponseType = rowResponseType r, recResponse = rowResponse r,
     recFingerprint = rowFingerprint r\<rparr>"

definition zero_record :: IdempotencyRecord where
  "zero_record = \<lparr>recStatus = StatusOther [], recResponseType = [], recResponse = [], recFingerprint = []\<rparr>"

text \<open>An \<^verbatim>\<open>UPDATE\<close> with a condition; the count of the rows it changes is compared with 1 or 0.\<close>

definition update_where :: "(IdempotencyKeyRow \<Rightarrow> bool) \<Rightarrow> (IdempotencyKeyRow \<Rightarrow> IdempotencyKeyRow) \<Rightarrow> IdempotencyKeyRow list
    \<Rightarrow> nat \<times> IdempotencyKeyRow list" where
  "update_where P f t = (length (filter P t), map (\<lambda>r. if P r then f r else r) t)"

definition Lookup :: "idem_io \<Rightarrow> go_time \<Rightarrow> IdempotencyKey \<Rightarrow> IdempotencyKeyRow list \<Rightarrow> ierr + IdempotencyRecord option" where
  "Lookup io tnow k t =
     (case lookupErr io of
        Some e \<Rightarrow> Inl (DbError ''gormtx: idempotency lookup'' e)
      | None \<Rightarrow>
          (case find (\<lambda>r. rowKey r = k \<and> rowExpiresAt r > tnow) t of
             None \<Rightarrow> Inr None
           | Some r \<Rightarrow> Inr (Some (toRecord r))))"

definition take_row :: "idem_io \<Rightarrow> IdempotencyKey \<Rightarrow> IdempotencyKeyRow list \<Rightarrow> ierr + IdempotencyKeyRow" where
  "take_row io k t =
     (case takeErr io of
        Some e \<Rightarrow> Inl (DbError ''gormtx: idempotency read'' e)
      | None \<Rightarrow> (case row_at k t of None \<Rightarrow> Inl (DbError ''gormtx: idempotency read'' ''record not found'') | Some r \<Rightarrow> Inr r))"

definition fresh_row :: "go_time \<Rightarrow> duration \<Rightarrow> IdempotencyKey \<Rightarrow> string \<Rightarrow> IdempotencyKeyRow" where
  "fresh_row tnow ttl k fp = \<lparr>rowKey = k, rowStatus = StatusInProgress, rowResponseType = [], rowResponse = [],
     rowFingerprint = fp, rowCreatedAt = tnow, rowExpiresAt = tnow + ttl\<rparr>"

text \<open>\<open>Claim\<close>: \<open>Inr None\<close> is a claim, \<open>Inr (Some r)\<close> the live record of another request.\<close>

definition Claim :: "idem_io \<Rightarrow> go_time \<Rightarrow> IdempotencyKey \<Rightarrow> string \<Rightarrow> duration \<Rightarrow> IdempotencyKeyRow list
    \<Rightarrow> (ierr + IdempotencyRecord option) \<times> IdempotencyKeyRow list" where
  "Claim io tnow k fp ttl t =
     (case claimErr io of
        Some e \<Rightarrow> (Inl (DbError ''gormtx: idempotency claim'' e), t)
      | None \<Rightarrow>
          if row_at k t = None then (Inr None, t @ [fresh_row tnow ttl k fp])
          else case take_row io k t of
                 Inl e \<Rightarrow> (Inl e, t)
               | Inr cur \<Rightarrow>
                   if rowExpiresAt cur \<le> tnow
                   then (let t1 = race io t
                         in case reclaimErr io of
                              Some e \<Rightarrow> (Inl (DbError ''gormtx: idempotency reclaim'' e), t1)
                            | None \<Rightarrow>
                                (case update_where (\<lambda>r. rowKey r = k \<and> rowExpiresAt r \<le> tnow)
                                        (\<lambda>r. r\<lparr>rowStatus := StatusInProgress, rowResponseType := [], rowResponse := [],
                                               rowFingerprint := fp, rowCreatedAt := tnow, rowExpiresAt := tnow + ttl\<rparr>) t1 of
                                   (n, t2) \<Rightarrow>
                                     if n = 1 then (Inr None, t2)
                                     else case take_row io k t2 of
                                            Inl e \<Rightarrow> (Inl e, t2)
                                          | Inr cur2 \<Rightarrow> (Inr (Some (toRecord cur2)), t2)))
                   else (Inr (Some (toRecord cur)), t))"

definition Complete :: "idem_io \<Rightarrow> IdempotencyKey \<Rightarrow> string \<Rightarrow> string \<Rightarrow> IdempotencyKeyRow list
    \<Rightarrow> ierr option \<times> IdempotencyKeyRow list" where
  "Complete io k ty b t =
     (case completeErr io of
        Some e \<Rightarrow> (Some (DbError ''gormtx: idempotency complete'' e), t)
      | None \<Rightarrow>
          (case update_where (\<lambda>r. rowKey r = k)
                  (\<lambda>r. r\<lparr>rowStatus := StatusCompleted, rowResponseType := ty, rowResponse := b\<rparr>) t of
             (n, t1) \<Rightarrow> if n = 0 then (Some (NoClaimedRow (ikRequestID k)), t1) else (None, t1)))"

definition Abandon :: "idem_io \<Rightarrow> IdempotencyKey \<Rightarrow> IdempotencyKeyRow list \<Rightarrow> (ierr + bool) \<times> IdempotencyKeyRow list" where
  "Abandon io k t =
     (case abandonErr io of
        Some e \<Rightarrow> (Inl (DbError ''gormtx: idempotency abandon'' e), t)
      | None \<Rightarrow>
          (Inr (list_ex (\<lambda>r. rowKey r = k \<and> rowStatus r = StatusInProgress) t),
           filter (\<lambda>r. \<not> (rowKey r = k \<and> rowStatus r = StatusInProgress)) t))"

text \<open>One chunk of \<open>GC\<close> deletes up to \<open>batch\<close> expired rows; which ones the database leaves open, here the first ones.\<close>

fun gc_chunk :: "go_time \<Rightarrow> nat \<Rightarrow> IdempotencyKeyRow list \<Rightarrow> nat \<times> IdempotencyKeyRow list" where
  "gc_chunk tnow n [] = (0, [])"
| "gc_chunk tnow n (r # t) =
     (if rowExpiresAt r \<le> tnow \<and> n > 0
      then (case gc_chunk tnow (n - 1) t of (k, t') \<Rightarrow> (Suc k, t'))
      else (case gc_chunk tnow n t of (k, t') \<Rightarrow> (k, r # t')))"

lemma gc_chunk_length: "length (snd (gc_chunk tnow n t)) + fst (gc_chunk tnow n t) = length t"
  by (induction tnow n t rule: gc_chunk.induct) (auto split: prod.splits)

definition defaultGCBatchSize :: nat where
  "defaultGCBatchSize = 1000"

text \<open>\<open>ge i\<close> is the database error of chunk \<open>i\<close>, if it has one.\<close>

function gc_rounds :: "(nat \<Rightarrow> string option) \<Rightarrow> nat \<Rightarrow> go_time \<Rightarrow> nat \<Rightarrow> nat \<Rightarrow> IdempotencyKeyRow list
    \<Rightarrow> nat \<times> ierr option \<times> IdempotencyKeyRow list" where
  "gc_rounds ge i tnow batch cnt t =
     (case ge i of
        Some e \<Rightarrow> (cnt, Some (DbError ''gormtx: idempotency gc'' e), t)
      | None \<Rightarrow>
          (let k = fst (gc_chunk tnow (Suc batch) t); t1 = snd (gc_chunk tnow (Suc batch) t)
           in if k < Suc batch then (cnt + k, None, t1) else gc_rounds ge (Suc i) tnow batch (cnt + k) t1))"
  by pat_completeness auto
termination
proof (relation "measure (\<lambda>(_, _, _, _, _, t). length t)")
  fix ge :: "nat \<Rightarrow> string option" and i tnow batch cnt t k t1
  assume "k = fst (gc_chunk tnow (Suc batch) t)" "t1 = snd (gc_chunk tnow (Suc batch) t)" "\<not> k < Suc batch"
  then show "((ge, Suc i, tnow, batch, cnt + k, t1), ge, i, tnow, batch, cnt, t) \<in> measure (\<lambda>(_, _, _, _, _, t). length t)"
    using gc_chunk_length [of tnow "Suc batch" t] by simp
qed simp

declare gc_rounds.simps [simp del]

definition GC :: "(nat \<Rightarrow> string option) \<Rightarrow> int \<Rightarrow> go_time \<Rightarrow> IdempotencyKeyRow list
    \<Rightarrow> nat \<times> ierr option \<times> IdempotencyKeyRow list" where
  "GC ge gcBatch tnow t = gc_rounds ge 0 tnow ((if gcBatch \<le> 0 then defaultGCBatchSize else nat gcBatch) - 1) 0 t"

section \<open>Transactions\<close>

record 'd idb =
  itable :: "IdempotencyKeyRow list"
  domain :: 'd

text \<open>\<^verbatim>\<open>GormTxRunner.Atomically\<close>; a panic of the function is an error value that rolls back like any other and is raised again.
  A failed commit leaves the database as it was.\<close>

definition gorm_Atomically :: "idem_io \<Rightarrow> bool \<Rightarrow> ('d idb \<Rightarrow> (ierr + 'x) \<times> 'd idb) \<Rightarrow> 'd idb \<Rightarrow> (ierr + 'x) \<times> 'd idb" where
  "gorm_Atomically io nested fn db =
     (if nested then fn db
      else case beginErr io of
             Some e \<Rightarrow> (Inl (DbError ''begin tx'' e), db)
           | None \<Rightarrow>
               (case fn db of
                  (Inl e, _) \<Rightarrow> (Inl e, db)
                | (Inr x, db1) \<Rightarrow>
                    (case commitErr io of
                       Some e \<Rightarrow> (Inl (DbError ''commit tx'' e), db)
                     | None \<Rightarrow> (Inr x, db1))))"

section \<open>The interceptors\<close>

record 'r codec =
  marshal :: "'r \<Rightarrow> (string \<times> string) option"
  unmarshal :: "string \<Rightarrow> string \<Rightarrow> 'r option"

record 'r DurableDedup =
  ddTTL :: duration
  DisableFingerprint :: bool
  MaxResponseBytes :: int
  ddCodec :: "'r codec"

definition DefaultIdempotencyTTL :: duration where
  "DefaultIdempotencyTTL = 24 * 3600 * 1000000000"

definition MaxRequestIDLen :: nat where
  "MaxRequestIDLen = 255"

definition ttlOrDefault :: "'r DurableDedup \<Rightarrow> duration" where
  "ttlOrDefault cfg = (if ddTTL cfg \<le> 0 then DefaultIdempotencyTTL else ddTTL cfg)"

text \<open>
  A request: its \<^verbatim>\<open>request_id\<close> when its type has one, the \<^verbatim>\<open>validate_only\<close> flag of the context, and its fingerprint, empty when
  the request is not a protobuf message.
\<close>

record idem_req =
  reqID :: "string option"
  validateOnly :: bool
  reqFingerprint :: string

datatype idem_gate = PassThrough | Refuse ierr | Keyed IdempotencyKey string

definition idemGate :: "'r DurableDedup \<Rightarrow> ctx \<Rightarrow> idem_req \<Rightarrow> string \<Rightarrow> idem_gate" where
  "idemGate cfg c rq fullMethod =
     (case reqID rq of
        None \<Rightarrow> PassThrough
      | Some rid \<Rightarrow>
          if rid = [] then PassThrough
          else if validateOnly rq then PassThrough
          else if length rid > MaxRequestIDLen then Refuse ErrIdempotencyRequestIDTooLong
          else Keyed \<lparr>ikTenant = fst (VerifiedTenantID c), ikMethod = fullMethod, ikRequestID = rid\<rparr>
                 (if DisableFingerprint cfg then [] else reqFingerprint rq))"

definition replayResponse :: "'r DurableDedup \<Rightarrow> IdempotencyRecord \<Rightarrow> ierr + 'r" where
  "replayResponse cfg rec =
     (case unmarshal (ddCodec cfg) (recResponseType rec) (recResponse rec) of
        None \<Rightarrow> Inl ErrIdempotencyNonProtoResponse
      | Some r \<Rightarrow> Inr r)"

definition replayCompleted :: "'r DurableDedup \<Rightarrow> IdempotencyRecord \<Rightarrow> string \<Rightarrow> ierr + 'r" where
  "replayCompleted cfg rec fp =
     (if fp \<noteq> [] \<and> recFingerprint rec \<noteq> [] \<and> fp \<noteq> recFingerprint rec then Inl ErrIdempotencyFingerprintMismatch
      else replayResponse cfg rec)"

text \<open>\<open>None\<close>: not resolved on the fast path.\<close>

definition fastReplay :: "'r DurableDedup \<Rightarrow> idem_io \<Rightarrow> go_time \<Rightarrow> IdempotencyKey \<Rightarrow> string \<Rightarrow> 'd idb \<Rightarrow> (ierr + 'r) option" where
  "fastReplay cfg io tnow k fp db =
     (case Lookup io tnow k (itable db) of
        Inl _ \<Rightarrow> None
      | Inr None \<Rightarrow> None
      | Inr (Some rec) \<Rightarrow>
          (case recStatus rec of
             StatusCompleted \<Rightarrow> Some (replayCompleted cfg rec fp)
           | StatusInProgress \<Rightarrow> Some (Inl ErrIdempotencyInProgress)
           | StatusOther _ \<Rightarrow> None))"

definition marshalResponse :: "'r DurableDedup \<Rightarrow> 'r \<Rightarrow> ierr + string \<times> string" where
  "marshalResponse cfg r =
     (case marshal (ddCodec cfg) r of
        None \<Rightarrow> Inl ErrIdempotencyNonProtoResponse
      | Some (ty, b) \<Rightarrow>
          if MaxResponseBytes cfg > 0 \<and> int (length b) > MaxResponseBytes cfg then Inl ErrIdempotencyResponseTooLarge
          else Inr (ty, b))"

type_synonym ('d, 'r) ihandler = "'d \<Rightarrow> (ierr + 'r) \<times> 'd"

text \<open>The body of the transaction, and the whole interceptor: the handler's write joins the transaction.\<close>

definition dedup_body :: "'r DurableDedup \<Rightarrow> idem_io \<Rightarrow> go_time \<Rightarrow> IdempotencyKey \<Rightarrow> string \<Rightarrow> ('d, 'r) ihandler \<Rightarrow> 'd idb
    \<Rightarrow> (ierr + 'r) \<times> 'd idb" where
  "dedup_body cfg io tnow k fp handler db =
     (case Claim io tnow k fp (ttlOrDefault cfg) (itable db) of
        (Inl e, t) \<Rightarrow> (Inl e, db\<lparr>itable := t\<rparr>)
      | (Inr (Some existing), t) \<Rightarrow>
          (case recStatus existing of
             StatusCompleted \<Rightarrow> (replayCompleted cfg existing fp, db\<lparr>itable := t\<rparr>)
           | _ \<Rightarrow> (Inl ErrIdempotencyInProgress, db\<lparr>itable := t\<rparr>))
      | (Inr None, t) \<Rightarrow>
          (case handler (domain db) of
             (Inl e, d) \<Rightarrow> (Inl e, \<lparr>itable = t, domain = d\<rparr>)
           | (Inr r, d) \<Rightarrow>
               (case marshalResponse cfg r of
                  Inl e \<Rightarrow> (Inl e, \<lparr>itable = t, domain = d\<rparr>)
                | Inr (ty, b) \<Rightarrow>
                    (case Complete io k ty b t of
                       (Some e, t1) \<Rightarrow> (Inl e, \<lparr>itable = t1, domain = d\<rparr>)
                     | (None, t1) \<Rightarrow> (Inr r, \<lparr>itable = t1, domain = d\<rparr>)))))"

definition DurableDeduplicateUnary :: "'r DurableDedup \<Rightarrow> idem_io \<Rightarrow> go_time \<Rightarrow> ctx \<Rightarrow> idem_req \<Rightarrow> string \<Rightarrow> ('d, 'r) ihandler
    \<Rightarrow> 'd idb \<Rightarrow> (ierr + 'r) \<times> 'd idb" where
  "DurableDeduplicateUnary cfg io tnow c rq fullMethod handler db =
     (case idemGate cfg c rq fullMethod of
        Refuse e \<Rightarrow> (Inl e, db)
      | PassThrough \<Rightarrow> (case handler (domain db) of (res, d) \<Rightarrow> (res, db\<lparr>domain := d\<rparr>))
      | Keyed k fp \<Rightarrow>
          (case fastReplay cfg io tnow k fp db of
             Some res \<Rightarrow> (res, db)
           | None \<Rightarrow> gorm_Atomically io False (dedup_body cfg io tnow k fp handler) db))"

text \<open>
  \<open>DurableReserveUnary\<close> in its three parts: the reservation, which commits; the remote effect, outside any transaction; and
  the completion or the release, which a panic of the remote call skips. Other requests may run between the parts.
\<close>

definition reserve :: "'r DurableDedup \<Rightarrow> idem_io \<Rightarrow> go_time \<Rightarrow> IdempotencyKey \<Rightarrow> string \<Rightarrow> 'd idb
    \<Rightarrow> (ierr + 'r) option \<times> 'd idb" where
  "reserve cfg io tnow k fp db =
     (case fastReplay cfg io tnow k fp db of
        Some res \<Rightarrow> (Some res, db)
      | None \<Rightarrow>
          (case gorm_Atomically io False (\<lambda>db. case Claim io tnow k fp (ttlOrDefault cfg) (itable db) of (res, t) \<Rightarrow> (res, db\<lparr>itable := t\<rparr>)) db of
             (Inl e, db1) \<Rightarrow> (Some (Inl e), db1)
           | (Inr (Some existing), db1) \<Rightarrow>
               (case recStatus existing of
                  StatusCompleted \<Rightarrow> (Some (replayCompleted cfg existing fp), db1)
                | _ \<Rightarrow> (Some (Inl ErrIdempotencyInProgress), db1))
           | (Inr None, db1) \<Rightarrow> (None, db1)))"

definition abandon :: "idem_io \<Rightarrow> IdempotencyKey \<Rightarrow> 'd idb \<Rightarrow> 'd idb" where
  "abandon io k db = snd (gorm_Atomically io False
     (\<lambda>db. case Abandon io k (itable db) of (Inl e, t) \<Rightarrow> (Inl e, db\<lparr>itable := t\<rparr>) | (Inr b, t) \<Rightarrow> (Inr b, db\<lparr>itable := t\<rparr>)) db)"

definition finish :: "'r DurableDedup \<Rightarrow> idem_io \<Rightarrow> IdempotencyKey \<Rightarrow> ierr + 'r \<Rightarrow> 'd idb \<Rightarrow> (ierr + 'r) \<times> 'd idb" where
  "finish cfg io k res db =
     (case res of
        Inl e \<Rightarrow> (Inl e, if is_HandlerPanic e then db else abandon io k db)
      | Inr r \<Rightarrow>
          (case marshalResponse cfg r of
             Inl e \<Rightarrow> (Inl e, abandon io k db)
           | Inr (ty, b) \<Rightarrow>
               (case gorm_Atomically io False
                       (\<lambda>db. case Complete io k ty b (itable db) of
                               (Some e, t) \<Rightarrow> (Inl e, db\<lparr>itable := t\<rparr>) | (None, t) \<Rightarrow> (Inr (), db\<lparr>itable := t\<rparr>)) db of
                  (Inl e, db1) \<Rightarrow> (Inl e, db1)
                | (Inr _, db1) \<Rightarrow> (Inr r, db1))))"

definition DurableReserveUnary :: "'r DurableDedup \<Rightarrow> idem_io \<Rightarrow> go_time \<Rightarrow> ctx \<Rightarrow> idem_req \<Rightarrow> string
    \<Rightarrow> ('w \<Rightarrow> (ierr + 'r) \<times> 'w) \<Rightarrow> 'd idb \<times> 'w \<Rightarrow> (ierr + 'r) \<times> 'd idb \<times> 'w" where
  "DurableReserveUnary cfg io tnow c rq fullMethod remote s =
     (case idemGate cfg c rq fullMethod of
        Refuse e \<Rightarrow> (Inl e, s)
      | PassThrough \<Rightarrow> (case remote (snd s) of (res, w) \<Rightarrow> (res, fst s, w))
      | Keyed k fp \<Rightarrow>
          (case reserve cfg io tnow k fp (fst s) of
             (Some res, db1) \<Rightarrow> (res, db1, snd s)
           | (None, db1) \<Rightarrow>
               (case remote (snd s) of
                  (res, w) \<Rightarrow> (case finish cfg io k res db1 of (res', db2) \<Rightarrow> (res', db2, w)))))"

section \<open>The in-memory path\<close>

record 'r dedupEntry =
  deResponse :: 'r
  deExpiresAt :: go_time

type_synonym 'r dedup_store = "string \<Rightarrow> 'r dedupEntry option"

definition dedup_Load :: "go_time \<Rightarrow> string \<Rightarrow> 'r dedup_store \<Rightarrow> 'r option \<times> 'r dedup_store" where
  "dedup_Load tnow k m =
     (case m k of
        None \<Rightarrow> (None, m)
      | Some e \<Rightarrow> if tnow > deExpiresAt e then (None, m(k := None)) else (Some (deResponse e), m))"

definition dedup_Store :: "go_time \<Rightarrow> duration \<Rightarrow> string \<Rightarrow> 'r \<Rightarrow> 'r dedup_store \<Rightarrow> 'r dedup_store" where
  "dedup_Store tnow ttl k r m = m(k \<mapsto> \<lparr>deResponse = r, deExpiresAt = tnow + ttl\<rparr>)"

definition idempotencyCacheKey :: "ctx \<Rightarrow> string \<Rightarrow> string \<Rightarrow> string" where
  "idempotencyCacheKey c fullMethod requestID = fst (VerifiedTenantID c) @ [CHR 0x00] @ fullMethod @ [CHR 0x00] @ requestID"

text \<open>The clock is read when the cache is read and again, after the handler, when the response is stored.\<close>

definition DeduplicateUnary :: "duration \<Rightarrow> go_time \<times> go_time \<Rightarrow> ctx \<Rightarrow> idem_req \<Rightarrow> string \<Rightarrow> ('d \<Rightarrow> ('e + 'r) \<times> 'd)
    \<Rightarrow> 'r dedup_store \<times> 'd \<Rightarrow> ('e + 'r) \<times> 'r dedup_store \<times> 'd" where
  "DeduplicateUnary ttl ts c rq fullMethod handler s =
     (let pass = (case handler (snd s) of (res, d) \<Rightarrow> (res, fst s, d))
      in case reqID rq of
           None \<Rightarrow> pass
         | Some rid \<Rightarrow>
             if rid = [] \<or> validateOnly rq then pass
             else (let k = idempotencyCacheKey c fullMethod rid
                   in case dedup_Load (fst ts) k (fst s) of
                        (Some r, m) \<Rightarrow> (Inr r, m, snd s)
                      | (None, m) \<Rightarrow>
                          (case handler (snd s) of
                             (Inl e, d) \<Rightarrow> (Inl e, m, d)
                           | (Inr r, d) \<Rightarrow> (Inr r, dedup_Store (snd ts) ttl k r m, d))))"

section \<open>Lemmas\<close>

definition table_ok :: "IdempotencyKeyRow list \<Rightarrow> bool" where
  "table_ok t \<longleftrightarrow> distinct (map rowKey t)"

definition live_row :: "go_time \<Rightarrow> IdempotencyKey \<Rightarrow> IdempotencyKeyRow list \<Rightarrow> bool" where
  "live_row tnow k t \<longleftrightarrow> (\<exists>r. row_at k t = Some r \<and> rowExpiresAt r > tnow)"

lemma row_at_append: "row_at k (t @ u) = (case row_at k t of None \<Rightarrow> row_at k u | Some r \<Rightarrow> Some r)"
  by (induction t) (simp_all add: row_at_def)

lemma row_at_map:
  assumes "\<And>r. rowKey (f r) = rowKey r" "\<And>r. P r \<Longrightarrow> rowKey r = k"
  shows "row_at k' (map (\<lambda>r. if P r then f r else r) t) =
    (case row_at k' t of None \<Rightarrow> None | Some r \<Rightarrow> Some (if P r then f r else r))"
    "table_ok t \<Longrightarrow> table_ok (map (\<lambda>r. if P r then f r else r) t)"
proof -
  have key: "rowKey (if P r then f r else r) = rowKey r" for r using assms(1) by simp
  show "row_at k' (map (\<lambda>r. if P r then f r else r) t) =
    (case row_at k' t of None \<Rightarrow> None | Some r \<Rightarrow> Some (if P r then f r else r))"
    by (induction t) (simp_all add: row_at_def key del: if_split)
  have "map rowKey (map (\<lambda>r. if P r then f r else r) t) = map rowKey t" by (simp add: key)
  then show "table_ok t \<Longrightarrow> table_ok (map (\<lambda>r. if P r then f r else r) t)" by (simp add: table_ok_def del: map_map)
qed

lemma row_at_Some: "row_at k t = Some r \<Longrightarrow> rowKey r = k \<and> r \<in> set t"
  by (auto simp: row_at_def find_Some_iff)

lemma row_at_None: "row_at k t = None \<longleftrightarrow> k \<notin> rowKey ` set t"
  by (auto simp: row_at_def find_None_iff)

lemma row_at_unique: "table_ok t \<Longrightarrow> r \<in> set t \<Longrightarrow> rowKey r = k \<Longrightarrow> row_at k t = Some r"
  by (induction t) (auto simp: row_at_def table_ok_def)

lemma one_match:
  assumes "table_ok t" "row_at k t = Some r" "Q r"
  shows "length (filter (\<lambda>r. rowKey r = k \<and> Q r) t) = 1"
proof -
  have "filter (\<lambda>r. rowKey r = k \<and> Q r) t = [r]" using assms
  proof (induction t)
    case (Cons x t)
    then show ?case
    proof (cases "rowKey x = k")
      case True
      have "rowKey y \<noteq> rowKey x" if "y \<in> set t" for y
        using imageI [OF that, of rowKey] Cons.prems(1) unfolding table_ok_def by (metis distinct.simps(2) list.map(2) list.set_map)
      then have "filter (\<lambda>r. rowKey r = k \<and> Q r) t = []" using True by (auto simp: filter_empty_conv)
      with True Cons.prems show ?thesis by (simp add: row_at_def)
    qed (auto simp: row_at_def table_ok_def)
  qed (simp add: row_at_def)
  then show ?thesis by simp
qed

lemma find_live:
  assumes "table_ok t"
  shows "find (\<lambda>r. rowKey r = k \<and> rowExpiresAt r > tnow) t =
    (case row_at k t of Some r \<Rightarrow> if rowExpiresAt r > tnow then Some r else None | None \<Rightarrow> None)"
  using assms
proof (induction t)
  case (Cons x t)
  show ?case
  proof (cases "rowKey x = k")
    case True
    then have "row_at k t = None" using Cons.prems by (auto simp: table_ok_def row_at_None)
    then show ?thesis using True Cons by (simp add: row_at_def table_ok_def)
  qed (use Cons in \<open>simp add: row_at_def table_ok_def\<close>)
qed (simp add: row_at_def)

text \<open>A claim succeeds only without a live row, and then the key's row is in progress and every other row is as before.\<close>

definition claimed :: "IdempotencyKey \<Rightarrow> string \<Rightarrow> go_time \<Rightarrow> IdempotencyKeyRow list \<Rightarrow> IdempotencyKeyRow list \<Rightarrow> bool" where
  "claimed k fp E t t' \<longleftrightarrow> table_ok t' \<and> (\<forall>k'. k' \<noteq> k \<longrightarrow> row_at k' t' = row_at k' t)
     \<and> (\<exists>r. row_at k t' = Some r \<and> rowStatus r = StatusInProgress \<and> rowFingerprint r = fp \<and> rowExpiresAt r = E)"

lemma claimed_fresh:
  assumes "table_ok t" "row_at k t = None"
  shows "claimed k fp (tnow + ttl) t (t @ [fresh_row tnow ttl k fp])"
proof -
  have one: "row_at k' [fresh_row tnow ttl k fp] = (if k' = k then Some (fresh_row tnow ttl k fp) else None)" for k'
    by (simp add: row_at_def fresh_row_def)
  have "table_ok (t @ [fresh_row tnow ttl k fp])" using assms by (auto simp: table_ok_def row_at_None fresh_row_def)
  then show ?thesis using assms(2)
    by (simp add: claimed_def row_at_append one split: option.split) (simp add: fresh_row_def)
qed

lemma Claim_cases:
  assumes ok: "table_ok t" and race: "race io = id"
  shows "(\<exists>e. Claim io tnow k fp ttl t = (Inl e, t))
    \<or> (\<exists>t'. Claim io tnow k fp ttl t = (Inr None, t') \<and> \<not> live_row tnow k t \<and> claimed k fp (tnow + ttl) t t')
    \<or> (\<exists>r. Claim io tnow k fp ttl t = (Inr (Some (toRecord r)), t) \<and> row_at k t = Some r \<and> rowExpiresAt r > tnow)"
proof (cases "claimErr io = None \<and> takeErr io = None \<and> reclaimErr io = None")
  case False
  then show ?thesis
  proof (cases "claimErr io = None \<and> row_at k t = None")
    case True
    then have "claimed k fp (tnow + ttl) t (t @ [fresh_row tnow ttl k fp])" using ok by (simp add: claimed_fresh)
    then show ?thesis using True by (auto simp: Claim_def live_row_def)
  next
    case F: False
    show ?thesis
      using False F race by (cases "claimErr io"; cases "takeErr io"; cases "row_at k t")
        (auto simp: Claim_def take_row_def Let_def)
  qed
next
  case True
  show ?thesis
  proof (cases "row_at k t")
    case None
    then have "claimed k fp (tnow + ttl) t (t @ [fresh_row tnow ttl k fp])" using ok by (simp add: claimed_fresh)
    then show ?thesis using True None by (auto simp: Claim_def live_row_def)
  next
    case (Some r)
    let ?P = "\<lambda>r. rowKey r = k \<and> rowExpiresAt r \<le> tnow"
    let ?f = "\<lambda>r :: IdempotencyKeyRow. r\<lparr>rowStatus := StatusInProgress, rowResponseType := [], rowResponse := [],
      rowFingerprint := fp, rowCreatedAt := tnow, rowExpiresAt := tnow + ttl\<rparr>"
    show ?thesis
    proof (cases "rowExpiresAt r \<le> tnow")
      case exp: True
      let ?t' = "map (\<lambda>r. if ?P r then ?f r else r) t"
      have n: "length (filter ?P t) = 1" using exp by (rule one_match [where Q = "\<lambda>r. rowExpiresAt r \<le> tnow", OF ok Some])
      have ra: "row_at k' ?t' = (case row_at k' t of None \<Rightarrow> None | Some r \<Rightarrow> Some (if ?P r then ?f r else r))" for k'
        by (rule row_at_map(1)) auto
      have "table_ok ?t'" by (rule row_at_map(2) [OF _ _ ok]) auto
      moreover have "row_at k' ?t' = row_at k' t" if "k' \<noteq> k" for k'
        using that row_at_Some [of k' t] by (auto simp: ra split: option.split)
      moreover have "row_at k ?t' = Some (?f r)" using Some exp row_at_Some [OF Some] by (simp add: ra)
      ultimately have "claimed k fp (tnow + ttl) t ?t'" by (simp add: claimed_def)
      moreover have "Claim io tnow k fp ttl t = (Inr None, ?t')"
        using True Some exp n race by (simp add: Claim_def take_row_def update_where_def Let_def)
      moreover have "\<not> live_row tnow k t" using Some exp by (simp add: live_row_def)
      ultimately show ?thesis by blast
    next
      case False
      then show ?thesis using True Some by (auto simp: Claim_def take_row_def)
    qed
  qed
qed

lemma Complete_claimed:
  assumes "claimed k fp E t t'" "completeErr io = None"
  shows "\<exists>t''. Complete io k ty b t' = (None, t'') \<and> table_ok t'' \<and> (\<forall>k'. k' \<noteq> k \<longrightarrow> row_at k' t'' = row_at k' t)
    \<and> (\<exists>r. row_at k t'' = Some r \<and> rowStatus r = StatusCompleted \<and> rowResponseType r = ty \<and> rowResponse r = b
        \<and> rowFingerprint r = fp \<and> rowExpiresAt r = E)"
proof -
  let ?f = "\<lambda>r :: IdempotencyKeyRow. r\<lparr>rowStatus := StatusCompleted, rowResponseType := ty, rowResponse := b\<rparr>"
  let ?t = "map (\<lambda>r. if rowKey r = k then ?f r else r) t'"
  obtain r where r: "row_at k t' = Some r" "rowFingerprint r = fp" "rowExpiresAt r = E" using assms(1) by (auto simp: claimed_def)
  have ok: "table_ok t'" using assms(1) by (simp add: claimed_def)
  have n: "length (filter (\<lambda>r. rowKey r = k) t') = 1" using one_match [OF ok r(1), of "\<lambda>_. True"] by simp
  have ra: "row_at k' ?t = (case row_at k' t' of None \<Rightarrow> None | Some r \<Rightarrow> Some (if rowKey r = k then ?f r else r))" for k'
    by (rule row_at_map(1)) auto
  have "table_ok ?t" by (rule row_at_map(2) [OF _ _ ok]) auto
  moreover have "row_at k' ?t = row_at k' t" if "k' \<noteq> k" for k'
    using that row_at_Some [of k' t'] assms(1) by (auto simp: ra claimed_def split: option.split)
  moreover have "row_at k ?t = Some (?f r)" using r(1) row_at_Some [OF r(1)] by (simp add: ra)
  moreover have "Complete io k ty b t' = (None, ?t)" using assms(2) n by (simp add: Complete_def update_where_def)
  ultimately show ?thesis using r(2,3) by auto
qed


text \<open>The table has a completed record of response \<open>r\<close> for \<open>k\<close>, with the fingerprint \<open>fp\<close>, that lives until \<open>E\<close>.\<close>

definition done_row :: "'r DurableDedup \<Rightarrow> IdempotencyKey \<Rightarrow> string \<Rightarrow> go_time \<Rightarrow> 'r \<Rightarrow> IdempotencyKeyRow list \<Rightarrow> bool" where
  "done_row cfg k fp E r t \<longleftrightarrow> (\<exists>row. row_at k t = Some row \<and> rowStatus row = StatusCompleted \<and> rowExpiresAt row = E
     \<and> rowFingerprint row = fp \<and> marshal (ddCodec cfg) r = Some (rowResponseType row, rowResponse row))"

definition codec_ok :: "'r DurableDedup \<Rightarrow> bool" where
  "codec_ok cfg \<longleftrightarrow> (\<forall>r ty b. marshal (ddCodec cfg) r = Some (ty, b) \<longrightarrow> unmarshal (ddCodec cfg) ty b = Some r)"

definition same_request :: "string \<Rightarrow> string \<Rightarrow> bool" where
  "same_request fp fp' \<longleftrightarrow> fp = [] \<or> fp' = [] \<or> fp = fp'"

lemma replay_done:
  assumes "codec_ok cfg" "marshal (ddCodec cfg) r = Some (rowResponseType row, rowResponse row)"
  shows "replayCompleted cfg (toRecord row) fp =
    (if same_request fp (rowFingerprint row) then Inr r else Inl ErrIdempotencyFingerprintMismatch)"
  using assms by (simp add: replayCompleted_def replayResponse_def toRecord_def codec_ok_def same_request_def)

text \<open>A duplicate of a completed request changes nothing, and is answered with the recorded response or an error.\<close>

lemma dedup_duplicate:
  fixes io tnow handler db
  assumes codec: "codec_ok cfg" and ok: "table_ok (itable db)" and race: "race io = id"
    and compl: "done_row cfg k fp E r (itable db)" and live: "tnow < E"
    and gate: "idemGate cfg c rq m = Keyed k fp'"
  defines "out \<equiv> DurableDeduplicateUnary cfg io tnow c rq m handler db"
  shows "snd out = db" "fst out = Inr r' \<Longrightarrow> r' = r \<and> same_request fp' fp"
    "lookupErr io = None \<Longrightarrow> fst out = (if same_request fp' fp then Inr r else Inl ErrIdempotencyFingerprintMismatch)"
proof -
  obtain row where row: "row_at k (itable db) = Some row" "rowStatus row = StatusCompleted" "rowExpiresAt row = E"
      "rowFingerprint row = fp" "marshal (ddCodec cfg) r = Some (rowResponseType row, rowResponse row)"
    using compl by (auto simp: done_row_def)
  let ?res = "if same_request fp' fp then Inr r else Inl ErrIdempotencyFingerprintMismatch"
  have rep: "replayCompleted cfg (toRecord row) fp' = ?res" using replay_done [OF codec row(5)] row(4) by simp
  have look: "Lookup io tnow k (itable db) = Inr (Some (toRecord row))" if "lookupErr io = None"
    using that row(1,3) live find_live [OF ok, of k tnow] by (simp add: Lookup_def)
  have fast: "out = (?res, db)" if "lookupErr io = None"
    unfolding out_def using look [OF that] rep row(2) gate
    by (simp add: DurableDeduplicateUnary_def fastReplay_def toRecord_def)
  have slow: "out = (?res, db) \<or> (\<exists>e. out = (Inl e, db))" if "lookupErr io \<noteq> None"
  proof -
    from that obtain x where x: "lookupErr io = Some x" by blast
    have out: "out = gorm_Atomically io False (dedup_body cfg io tnow k fp' handler) db"
      unfolding out_def using gate x by (simp add: DurableDeduplicateUnary_def fastReplay_def Lookup_def)
    have nl: "live_row tnow k (itable db)" using row live by (simp add: live_row_def)
    have "(\<exists>e. dedup_body cfg io tnow k fp' handler db = (Inl e, db)) \<or> dedup_body cfg io tnow k fp' handler db = (?res, db)"
      using Claim_cases [OF ok race, of tnow k fp' "ttlOrDefault cfg"] nl row(1,2) rep
      by (auto simp: dedup_body_def toRecord_def)
    then show ?thesis unfolding out by (cases "commitErr io") (auto simp: gorm_Atomically_def split: option.split)
  qed
  show "snd out = db" using fast slow by (cases "lookupErr io") auto
  show "fst out = Inr r' \<Longrightarrow> r' = r \<and> same_request fp' fp" using fast slow by (cases "lookupErr io") (auto split: if_splits)
  show "lookupErr io = None \<Longrightarrow> fst out = ?res" using fast by simp
qed

text \<open>A first request fails without a trace, or commits its effect together with its completed record.\<close>

lemma dedup_first:
  fixes io tnow handler db
  assumes ok: "table_ok (itable db)" and race: "race io = id" and fresh: "\<not> live_row tnow k (itable db)"
    and gate: "idemGate cfg c rq m = Keyed k fp"
  defines "out \<equiv> DurableDeduplicateUnary cfg io tnow c rq m handler db"
  shows "(\<exists>e. out = (Inl e, db)) \<or> (\<exists>r d t. out = (Inr r, \<lparr>itable = t, domain = d\<rparr>) \<and> handler (domain db) = (Inr r, d)
    \<and> table_ok t \<and> done_row cfg k fp (tnow + ttlOrDefault cfg) r t)"
proof -
  have "find (\<lambda>r. rowKey r = k \<and> rowExpiresAt r > tnow) (itable db) = None"
    using fresh find_live [OF ok, of k tnow] by (auto simp: live_row_def split: option.split)
  then have out: "out = gorm_Atomically io False (dedup_body cfg io tnow k fp handler) db"
    unfolding out_def using gate by (simp add: DurableDeduplicateUnary_def fastReplay_def Lookup_def split: option.split)
  from Claim_cases [OF ok race, of tnow k fp "ttlOrDefault cfg"] fresh
  consider (err) e where "Claim io tnow k fp (ttlOrDefault cfg) (itable db) = (Inl e, itable db)"
    | (claim) t where "Claim io tnow k fp (ttlOrDefault cfg) (itable db) = (Inr None, t)"
        "claimed k fp (tnow + ttlOrDefault cfg) (itable db) t"
    by (auto simp: live_row_def)
  then show ?thesis
  proof cases
    case err
    then show ?thesis unfolding out by (simp add: gorm_Atomically_def dedup_body_def split: option.split)
  next
    case claim
    show ?thesis
    proof (cases "\<exists>r d ty b. handler (domain db) = (Inr r, d) \<and> marshalResponse cfg r = Inr (ty, b) \<and> completeErr io = None")
      case True
      then obtain r d ty b where h: "handler (domain db) = (Inr r, d)" "marshalResponse cfg r = Inr (ty, b)" "completeErr io = None"
        by blast
      obtain t2 where t2: "Complete io k ty b t = (None, t2)" "table_ok t2"
          "\<exists>row. row_at k t2 = Some row \<and> rowStatus row = StatusCompleted \<and> rowResponseType row = ty \<and> rowResponse row = b
            \<and> rowFingerprint row = fp \<and> rowExpiresAt row = tnow + ttlOrDefault cfg"
        using Complete_claimed [OF claim(2) h(3), of ty b] by (elim exE conjE) blast
      have m: "marshal (ddCodec cfg) r = Some (ty, b)" using h(2) by (auto simp: marshalResponse_def split: option.splits if_splits)
      have "done_row cfg k fp (tnow + ttlOrDefault cfg) r t2" using t2(3) m by (auto simp: done_row_def)
      moreover have "dedup_body cfg io tnow k fp handler db = (Inr r, \<lparr>itable = t2, domain = d\<rparr>)"
        using claim(1) h t2(1) by (simp add: dedup_body_def)
      ultimately show ?thesis unfolding out using h(1) t2(2) by (auto simp: gorm_Atomically_def split: option.split)
    next
      case False
      then have "\<exists>e x. dedup_body cfg io tnow k fp handler db = (Inl e, x)"
        using claim(1) by (auto simp: dedup_body_def Complete_def split: prod.split sum.split option.split)
      then show ?thesis unfolding out by (auto simp: gorm_Atomically_def split: option.split)
    qed
  qed
qed

section \<open>Retries\<close>

text \<open>Several deliveries of one request: each has its own database faults, clock reading, context, body and handler run.\<close>

record ('d, 'r) delivery =
  dIO :: idem_io
  dNow :: go_time
  dCtx :: ctx
  dReq :: idem_req
  dMethod :: string
  dHandler :: "('d, 'r) ihandler"

primrec serve_all :: "'r DurableDedup \<Rightarrow> ('d, 'r) delivery list \<Rightarrow> 'd idb \<Rightarrow> (ierr + 'r) list \<times> 'd idb" where
  "serve_all cfg [] db = ([], db)"
| "serve_all cfg (q # qs) db =
     (case DurableDeduplicateUnary cfg (dIO q) (dNow q) (dCtx q) (dReq q) (dMethod q) (dHandler q) db of
        (res, db1) \<Rightarrow> (case serve_all cfg qs db1 of (rs, db2) \<Rightarrow> (res # rs, db2)))"

definition of_key :: "'r DurableDedup \<Rightarrow> IdempotencyKey \<Rightarrow> go_time \<Rightarrow> ('d, 'r) delivery \<Rightarrow> bool" where
  "of_key cfg k T q \<longleftrightarrow> race (dIO q) = id \<and> T \<le> dNow q \<and> dNow q < T + ttlOrDefault cfg
     \<and> (\<exists>fp. idemGate cfg (dCtx q) (dReq q) (dMethod q) = Keyed k fp)"

definition fp_of :: "'r DurableDedup \<Rightarrow> ('d, 'r) delivery \<Rightarrow> string" where
  "fp_of cfg q = (case idemGate cfg (dCtx q) (dReq q) (dMethod q) of Keyed _ fp \<Rightarrow> fp | _ \<Rightarrow> [])"

definition reply_ok :: "'r DurableDedup \<Rightarrow> string \<Rightarrow> 'r \<Rightarrow> ('d, 'r) delivery \<Rightarrow> ierr + 'r \<Rightarrow> bool" where
  "reply_ok cfg fp r q res \<longleftrightarrow> (\<forall>r'. res = Inr r' \<longrightarrow> r' = r \<and> same_request (fp_of cfg q) fp)
     \<and> (lookupErr (dIO q) = None \<longrightarrow> res = (if same_request (fp_of cfg q) fp then Inr r else Inl ErrIdempotencyFingerprintMismatch))"

lemma serve_all_Cons:
  assumes "DurableDeduplicateUnary cfg (dIO q) (dNow q) (dCtx q) (dReq q) (dMethod q) (dHandler q) db = (res, db1)"
  shows "fst (serve_all cfg (q # qs) db) = res # fst (serve_all cfg qs db1)"
    "snd (serve_all cfg (q # qs) db) = snd (serve_all cfg qs db1)"
  using assms by (simp_all add: case_prod_beta)

lemma serve_all_after:
  assumes "codec_ok cfg" "table_ok (itable db)" "done_row cfg k fp E r (itable db)" "T + ttlOrDefault cfg \<le> E"
    "\<forall>q \<in> set qs. of_key cfg k T q"
  shows "snd (serve_all cfg qs db) = db \<and> list_all2 (reply_ok cfg fp r) qs (fst (serve_all cfg qs db))"
  using assms(5)
proof (induction qs)
  case (Cons q qs)
  let ?out = "DurableDeduplicateUnary cfg (dIO q) (dNow q) (dCtx q) (dReq q) (dMethod q) (dHandler q) db"
  from Cons.prems obtain fp' where q: "race (dIO q) = id" "dNow q < E" "idemGate cfg (dCtx q) (dReq q) (dMethod q) = Keyed k fp'"
    using assms(4) by (auto simp: of_key_def)
  note dup = dedup_duplicate [OF assms(1,2) q(1) assms(3) q(2,3), of "dHandler q"]
  have "fp_of cfg q = fp'" using q(3) by (simp add: fp_of_def)
  then have rep: "reply_ok cfg fp r q (fst ?out)" unfolding reply_ok_def using dup(2,3) by blast
  have out: "?out = (fst ?out, db)" using dup(1) by (metis prod.collapse)
  have "\<forall>q \<in> set qs. of_key cfg k T q" using Cons.prems by simp
  then show ?case unfolding serve_all_Cons [OF out] using Cons.IH rep by simp
qed simp

lemma serve_all_fresh:
  assumes "codec_ok cfg" "table_ok (itable db)" "\<not> live_row T k (itable db)" "\<forall>q \<in> set qs. of_key cfg k T q"
  shows "(snd (serve_all cfg qs db) = db \<and> list_all isl (fst (serve_all cfg qs db)))
    \<or> (\<exists>pre q post r. qs = pre @ q # post \<and> dHandler q (domain db) = (Inr r, domain (snd (serve_all cfg qs db)))
        \<and> (\<exists>es rs. fst (serve_all cfg qs db) = es @ Inr r # rs \<and> length es = length pre \<and> list_all isl es
            \<and> list_all2 (reply_ok cfg (fp_of cfg q) r) post rs))"
  using assms(4)
proof (induction qs)
  case (Cons q qs)
  let ?out = "DurableDeduplicateUnary cfg (dIO q) (dNow q) (dCtx q) (dReq q) (dMethod q) (dHandler q) db"
  from Cons.prems obtain fp where q: "race (dIO q) = id" "T \<le> dNow q" "idemGate cfg (dCtx q) (dReq q) (dMethod q) = Keyed k fp"
    by (auto simp: of_key_def)
  have fresh: "\<not> live_row (dNow q) k (itable db)" using assms(3) q(2) by (fastforce simp: live_row_def)
  from dedup_first [OF assms(2) q(1) fresh q(3), of "dHandler q"]
  show ?case
  proof (elim disjE exE conjE)
    fix e assume e: "?out = (Inl e, db)"
    have prem: "\<forall>q \<in> set qs. of_key cfg k T q" using Cons.prems by simp
    show ?thesis using Cons.IH [OF prem]
    proof (elim disjE exE conjE)
      assume "snd (serve_all cfg qs db) = db" "list_all isl (fst (serve_all cfg qs db))"
      then show ?thesis unfolding serve_all_Cons [OF e] by simp
    next
      fix pre q' post r es rs
      assume "qs = pre @ q' # post" "dHandler q' (domain db) = (Inr r, domain (snd (serve_all cfg qs db)))"
        "fst (serve_all cfg qs db) = es @ Inr r # rs" "length es = length pre" "list_all isl es"
        "list_all2 (reply_ok cfg (fp_of cfg q') r) post rs"
      then show ?thesis unfolding serve_all_Cons [OF e]
        by (intro disjI2 exI [of _ "q # pre"] exI [of _ q'] exI [of _ post] exI [of _ r] conjI exI [of _ "Inl e # es"] exI [of _ rs])
          simp_all
    qed
  next
    fix r d t
    assume o: "?out = (Inr r, \<lparr>itable = t, domain = d\<rparr>)" "dHandler q (domain db) = (Inr r, d)" "table_ok t"
      "done_row cfg k fp (dNow q + ttlOrDefault cfg) r t"
    have "snd (serve_all cfg qs \<lparr>itable = t, domain = d\<rparr>) = \<lparr>itable = t, domain = d\<rparr>
        \<and> list_all2 (reply_ok cfg fp r) qs (fst (serve_all cfg qs \<lparr>itable = t, domain = d\<rparr>))"
      by (rule serve_all_after [OF assms(1), where T = T and E = "dNow q + ttlOrDefault cfg"]) (use o(3,4) q(2) Cons.prems in auto)
    then show ?thesis unfolding serve_all_Cons [OF o(1)] using o(2) q(3)
      by (intro disjI2 exI [of _ "[]"] exI [of _ q] exI [of _ qs] exI [of _ r] conjI exI [of _ "[]"]
          exI [of _ "fst (serve_all cfg qs \<lparr>itable = t, domain = d\<rparr>)"]) (simp_all add: fp_of_def)
  qed
qed simp

section \<open>Collection\<close>

lemma gc_chunk_exact:
  "filter (\<lambda>r. rowExpiresAt r > tnow) (snd (gc_chunk tnow n t)) = filter (\<lambda>r. rowExpiresAt r > tnow) t"
  "fst (gc_chunk tnow n t) = min n (length (filter (\<lambda>r. rowExpiresAt r \<le> tnow) t))"
  by (induction tnow n t rule: gc_chunk.induct) (auto split: prod.splits)

lemma gc_chunk_rest:
  assumes "fst (gc_chunk tnow n t) < n"
  shows "snd (gc_chunk tnow n t) = filter (\<lambda>r. rowExpiresAt r > tnow) t"
  using assms by (induction tnow n t rule: gc_chunk.induct) (auto split: prod.splits if_splits)

lemma gc_rounds_exact:
  assumes "gc_rounds ge i tnow batch cnt t = (n, e, t')"
  shows "n + length t' = cnt + length t \<and> filter (\<lambda>r. rowExpiresAt r > tnow) t' = filter (\<lambda>r. rowExpiresAt r > tnow) t
    \<and> (e = None \<longrightarrow> t' = filter (\<lambda>r. rowExpiresAt r > tnow) t)
    \<and> ((\<forall>j. ge j = None) \<longrightarrow> e = None)"
  using assms
proof (induction ge i tnow batch cnt t rule: gc_rounds.induct)
  case (1 ge i tnow batch cnt t)
  let ?k = "fst (gc_chunk tnow (Suc batch) t)" and ?t = "snd (gc_chunk tnow (Suc batch) t)"
  note len = gc_chunk_length [of tnow "Suc batch" t]
  note fil = gc_chunk_exact(1) [of tnow "Suc batch" t]
  show ?case
  proof (cases "ge i")
    case None
    show ?thesis
    proof (cases "?k < Suc batch")
      case True
      then have eq: "n = cnt + ?k" "e = None" "t' = ?t" using "1.prems" None by (simp_all add: gc_rounds.simps Let_def)
      show ?thesis unfolding eq using len fil gc_chunk_rest [OF True] by simp
    next
      case False
      then have "gc_rounds ge (Suc i) tnow batch (cnt + ?k) ?t = (n, e, t')"
        using "1.prems" None gc_rounds.simps [of ge i tnow batch cnt t] by (simp add: Let_def)
      from "1.IH" [OF None refl refl False this] show ?thesis using len fil by simp
    qed
  next
    case (Some x)
    then show ?thesis using "1.prems" by (auto simp: gc_rounds.simps)
  qed
qed

section \<open>The properties of request idempotency\<close>

text \<open>C10: 
  Exactly once under retries. Take any number of deliveries of one request (the same tenant, method and request id) within
  one retention window, each with its own database failures, and no live record at the start. Either every one of them
  fails and the database, domain data included, is as before; or exactly one commits its handler's effect, all before it
  failed, and every later one changes nothing and is answered with that response, with a fingerprint mismatch, or with an
  error when its own lookup failed.
\<close>

theorem requests_exactly_once:
  assumes "codec_ok cfg" "table_ok (itable db)" "\<not> live_row T k (itable db)" "\<forall>q \<in> set qs. of_key cfg k T q"
  shows "(snd (serve_all cfg qs db) = db \<and> list_all isl (fst (serve_all cfg qs db)))
    \<or> (\<exists>pre q post r. qs = pre @ q # post \<and> dHandler q (domain db) = (Inr r, domain (snd (serve_all cfg qs db)))
        \<and> (\<exists>es rs. fst (serve_all cfg qs db) = es @ Inr r # rs \<and> length es = length pre \<and> list_all isl es
            \<and> list_all2 (reply_ok cfg (fp_of cfg q) r) post rs))"
  by (rule serve_all_fresh [OF assms])

definition exCfg :: "string DurableDedup" where
  "exCfg = \<lparr>ddTTL = 10, DisableFingerprint = False, MaxResponseBytes = 0,
     ddCodec = \<lparr>marshal = \<lambda>r. Some (''Note'', r), unmarshal = \<lambda>ty b. if ty = ''Note'' then Some b else None\<rparr>\<rparr>"

definition exKey :: IdempotencyKey where
  "exKey = \<lparr>ikTenant = [], ikMethod = ''/notes/Create'', ikRequestID = ''r1''\<rparr>"

definition exDelivery :: "idem_io \<Rightarrow> go_time \<Rightarrow> (int list, string) delivery" where
  "exDelivery io tnow = \<lparr>dIO = io, dNow = tnow, dCtx = background,
     dReq = \<lparr>reqID = Some ''r1'', validateOnly = False, reqFingerprint = ''f''\<rparr>, dMethod = ''/notes/Create'',
     dHandler = \<lambda>d. (Inr ''ok'', 7 # d)\<rparr>"

definition exRetries :: "(int list, string) delivery list" where
  "exRetries = [exDelivery (no_faults\<lparr>commitErr := Some ''down''\<rparr>) 3, exDelivery no_faults 4,
     exDelivery (no_faults\<lparr>lookupErr := Some ''down''\<rparr>) 5, exDelivery no_faults 6]"

theorem requests_exactly_once_witness:
  "codec_ok exCfg \<and> table_ok [] \<and> \<not> live_row 3 exKey [] \<and> list_all (of_key exCfg exKey 3) exRetries
    \<and> serve_all exCfg exRetries \<lparr>itable = [], domain = []\<rparr> =
        ([Inl (DbError ''commit tx'' ''down''), Inr ''ok'', Inr ''ok'', Inr ''ok''],
         \<lparr>itable = [(fresh_row 4 10 exKey ''f'')\<lparr>rowStatus := StatusCompleted, rowResponseType := ''Note'', rowResponse := ''ok''\<rparr>],
          domain = [7]\<rparr>)
    \<and> ((snd (serve_all exCfg exRetries \<lparr>itable = [], domain = []\<rparr>) = \<lparr>itable = [], domain = []\<rparr>
          \<and> list_all isl (fst (serve_all exCfg exRetries \<lparr>itable = [], domain = []\<rparr>)))
       \<or> (\<exists>pre q post r. exRetries = pre @ q # post
            \<and> dHandler q [] = (Inr r, domain (snd (serve_all exCfg exRetries \<lparr>itable = [], domain = []\<rparr>)))
            \<and> (\<exists>es rs. fst (serve_all exCfg exRetries \<lparr>itable = [], domain = []\<rparr>) = es @ Inr r # rs \<and> length es = length pre
                \<and> list_all isl es \<and> list_all2 (reply_ok exCfg (fp_of exCfg q) r) post rs)))"
proof -
  have h: "codec_ok exCfg" "table_ok []" "\<not> live_row 3 exKey []" "\<forall>q \<in> set exRetries. of_key exCfg exKey 3 q"
    by (auto simp: codec_ok_def exCfg_def table_ok_def live_row_def row_at_def exRetries_def of_key_def exDelivery_def
        no_faults_def ttlOrDefault_def idemGate_def MaxRequestIDLen_def exKey_def VerifiedTenantID_def background_def split: if_splits)
  have "serve_all exCfg exRetries \<lparr>itable = [], domain = []\<rparr> =
        ([Inl (DbError ''commit tx'' ''down''), Inr ''ok'', Inr ''ok'', Inr ''ok''],
         \<lparr>itable = [(fresh_row 4 10 exKey ''f'')\<lparr>rowStatus := StatusCompleted, rowResponseType := ''Note'', rowResponse := ''ok''\<rparr>],
          domain = [7]\<rparr>)"
    by code_simp
  then show ?thesis
    using h requests_exactly_once [of exCfg "\<lparr>itable = [], domain = []\<rparr>" 3 exKey exRetries] by (simp add: list_all_iff)
qed

text \<open>
  The collector deletes exactly the expired rows. Whatever the batch size, it keeps every live row in place and its count is
  the number of rows removed, also when a chunk fails; without a failure it ends with no expired row left.
\<close>

theorem gc_exact:
  assumes "GC ge gcBatch tnow t = (n, e, t')"
  shows "n + length t' = length t \<and> filter (\<lambda>r. rowExpiresAt r > tnow) t' = filter (\<lambda>r. rowExpiresAt r > tnow) t
    \<and> (e = None \<longrightarrow> t' = filter (\<lambda>r. rowExpiresAt r > tnow) t)
    \<and> ((\<forall>j. ge j = None) \<longrightarrow> e = None)"
  using gc_rounds_exact [OF assms [unfolded GC_def]] by simp

theorem gc_exact_witness:
  "GC (\<lambda>_. None) 2 9 [fresh_row 2 3 exKey [], fresh_row 8 5 exKey [], fresh_row 3 3 exKey [], fresh_row 4 3 exKey []]
      = (3, None, [fresh_row 8 5 exKey []])
    \<and> 3 + length [fresh_row 8 5 exKey []] = (4 :: nat)"
proof -
  have e: "GC (\<lambda>_. None) 2 9 [fresh_row 2 3 exKey [], fresh_row 8 5 exKey [], fresh_row 3 3 exKey [], fresh_row 4 3 exKey []]
      = (3, None, [fresh_row 8 5 exKey []])"
    by code_simp
  show ?thesis using e gc_exact [OF e, THEN conjunct1] by (simp only: list.size) simp
qed

text \<open>
  Reserve mode: a completion that outlives its reservation overwrites another request's record. Delivery A reserves the key
  and its remote call outlasts the retention; delivery B reclaims the expired row, runs the remote effect a second time and
  completes. When A then completes, the update of \<open>Complete\<close> has no condition on the status or the claim, so B's
  completed response is replaced, and a retry that B's client makes is answered with A's response.
\<close>

theorem late_complete_overwrites:
  "\<exists>dbA dbB dbB2 dbA2.
     reserve exCfg no_faults 3 exKey ''f'' \<lparr>itable = [], domain = ()\<rparr> = (None, dbA)
   \<and> reserve exCfg no_faults 20 exKey ''f'' dbA = (None, dbB)
   \<and> finish exCfg no_faults exKey (Inr ''from B'') dbB = (Inr ''from B'', dbB2)
   \<and> fastReplay exCfg no_faults 22 exKey ''f'' dbB2 = Some (Inr ''from B'')
   \<and> finish exCfg no_faults exKey (Inr ''from A'') dbB2 = (Inr ''from A'', dbA2)
   \<and> fastReplay exCfg no_faults 22 exKey ''f'' dbA2 = Some (Inr ''from A'')"
proof -
  let ?A = "\<lparr>itable = [fresh_row 3 10 exKey ''f''], domain = ()\<rparr>" and ?B = "\<lparr>itable = [fresh_row 20 10 exKey ''f''], domain = ()\<rparr>"
  let ?C = "\<lambda>b. \<lparr>itable = [(fresh_row 20 10 exKey ''f'')\<lparr>rowStatus := StatusCompleted, rowResponseType := ''Note'', rowResponse := b\<rparr>],
    domain = ()\<rparr>"
  have "reserve exCfg no_faults 3 exKey ''f'' \<lparr>itable = [], domain = ()\<rparr> = (None, ?A)" by code_simp
  moreover have "reserve exCfg no_faults 20 exKey ''f'' ?A = (None, ?B)" by code_simp
  moreover have "finish exCfg no_faults exKey (Inr ''from B'') ?B = (Inr ''from B'', ?C ''from B'')" by code_simp
  moreover have "fastReplay exCfg no_faults 22 exKey ''f'' (?C ''from B'') = Some (Inr ''from B'')" by code_simp
  moreover have "finish exCfg no_faults exKey (Inr ''from A'') (?C ''from B'') = (Inr ''from A'', ?C ''from A'')" by code_simp
  moreover have "fastReplay exCfg no_faults 22 exKey ''f'' (?C ''from A'') = Some (Inr ''from A'')" by code_simp
  ultimately show ?thesis by blast
qed

end
