(* ===== verification/Authz.thy ===== *)
theory Authz
  imports Filter_Parse "HOL-Library.AList" "HOL-Library.List_Lexorder" "HOL-Library.Char_ord"
begin

text \<open>
  Authorization: the decision model of \<^verbatim>\<open>src/authz/\<close> (\<^verbatim>\<open>authz.go\<close>, \<^verbatim>\<open>methodrule.go\<close>, \<^verbatim>\<open>dev.go\<close>, \<^verbatim>\<open>entitlement.go\<close>), the
  fail-closed interceptor of \<^verbatim>\<open>src/authz/grpcauthz/\<close>, the development service of \<^verbatim>\<open>src/authz/devsvc/\<close>, the permission
  catalog of \<^verbatim>\<open>src/authz/catalog/\<close> and the boot gates of \<^verbatim>\<open>src/server/\<close>. The type variable \<open>'v\<close> stands for the values of
  claims and obligations; JSON, the HTTP transport and the grants file are arguments.
\<close>

section \<open>The decision model\<close>

record 'v Principal =
  Subject :: string
  pTenant :: string
  Groups :: "string list"
  Scopes :: "string list"
  Claims :: "string \<Rightarrow> 'v option"

record ResourceRef =
  refType :: string
  refName :: string
  refVerb :: string

text \<open>The values of the request context that the interceptor reads and writes.\<close>

record 'v gctx =
  incomingMD :: "(string \<Rightarrow> string list) option"
  principalVal :: "'v Principal option"
  resourceVal :: "ResourceRef option"
  obligationsVal :: "(string \<times> 'v) list option"

record 'v AccessRequest =
  arPrincipal :: "'v Principal"
  arVerb :: string
  arType :: string
  arID :: string
  arMethod :: string
  arFeatures :: "string list"
  arContext :: "string \<Rightarrow> 'v option"

record 'v Decision =
  Allow :: bool
  Reason :: string
  Obligations :: "(string \<times> 'v) list"

text \<open>Go returns a decision and an error side by side.\<close>

type_synonym 'v Authorizer = "'v gctx \<Rightarrow> 'v AccessRequest \<Rightarrow> 'v Decision \<times> string option"

definition deny :: "string \<Rightarrow> 'v Decision" where
  "deny why = \<lparr>Allow = False, Reason = why, Obligations = []\<rparr>"

definition DenyAll :: "'v Authorizer" where
  "DenyAll c req = (deny ''no authorizer configured (default deny)'', None)"

record QuotaRule =
  Metric :: string
  Window :: string

record MethodRule =
  mrMethod :: string
  mrVerb :: string
  mrResource :: string
  mrPublic :: bool
  mrFeatures :: "string list"
  mrMode :: string
  mrQuota :: "QuotaRule option"

definition ModeEnforce :: string where
  "ModeEnforce = ''enforce''"

definition ModeAlert :: string where
  "ModeAlert = ''alert''"

section \<open>The development authorizer\<close>

record Grant =
  gTenant :: string
  Subjects :: "string list"
  Verbs :: "string list"
  gResource :: string

definition CutPrefix :: "string \<Rightarrow> string \<Rightarrow> string option" where
  "CutPrefix s p = (if has_prefix s p then Some (drop (length p) s) else None)"

fun matchSubject :: "string list \<Rightarrow> 'v Principal \<Rightarrow> bool" where
  "matchSubject [] p = False"
| "matchSubject (s # ss) p =
     (if s = ''*'' \<or> s = Subject p then True
      else if (case CutPrefix s ''group:'' of Some name \<Rightarrow> List.member (Groups p) name | None \<Rightarrow> False) then True
      else matchSubject ss p)"

definition matchVerb :: "string list \<Rightarrow> string \<Rightarrow> bool" where
  "matchVerb vs v \<longleftrightarrow> List.member vs v \<or> List.member vs ''*''"

definition grant_matches :: "Grant \<Rightarrow> 'v AccessRequest \<Rightarrow> bool" where
  "grant_matches g req =
     (if gTenant g \<noteq> ''*'' \<and> gTenant g \<noteq> pTenant (arPrincipal req) then False
      else if \<not> matchSubject (Subjects g) (arPrincipal req) then False
      else if \<not> matchVerb (Verbs g) (arVerb req) then False
      else if gResource g \<noteq> ''*'' \<and> gResource g \<noteq> arType req then False
      else True)"

fun DevAuthorizer :: "Grant list \<Rightarrow> 'v Authorizer" where
  "DevAuthorizer [] c req = (deny ''no dev grant matched (default deny)'', None)"
| "DevAuthorizer (g # gs) c req =
     (if grant_matches g req then (\<lparr>Allow = True, Reason = ''dev grant matched'', Obligations = []\<rparr>, None)
      else DevAuthorizer gs c req)"

section \<open>Entitlements\<close>

text \<open>A feature source maps an account to its granted features; reading a Go map that lacks the key gives \<^verbatim>\<open>false\<close>.\<close>

type_synonym 'v FeatureSource = "'v gctx \<Rightarrow> string \<Rightarrow> string + (string \<Rightarrow> bool)"

definition StaticFeatures :: "(string \<times> string list) list \<Rightarrow> 'v FeatureSource" where
  "StaticFeatures byAccount c account =
     Inr (\<lambda>f. case map_of byAccount account of None \<Rightarrow> False | Some fs \<Rightarrow> List.member fs f)"

definition entitled :: "(string \<Rightarrow> bool) \<Rightarrow> 'v Decision \<Rightarrow> string list \<Rightarrow> 'v Decision" where
  "entitled granted dec fs = (case find (\<lambda>f. \<not> granted f) fs of None \<Rightarrow> dec | Some f \<Rightarrow> deny (''entitlement '' @ [CHR 0x22] @ f @ [CHR 0x22] @ '' not granted''))"

definition EntitlementAuthorizer :: "'v Authorizer \<Rightarrow> 'v FeatureSource \<Rightarrow> 'v Authorizer" where
  "EntitlementAuthorizer inner features c req =
     (case inner c req of
        (dec, err) \<Rightarrow>
          if err \<noteq> None \<or> \<not> Allow dec then (dec, err)
          else if arFeatures req = [] then (dec, None)
          else case features c (pTenant (arPrincipal req)) of
                 Inl e \<Rightarrow> (deny ''entitlement source error'', Some (''authz: entitlement source: '' @ e))
               | Inr granted \<Rightarrow> (entitled granted dec (arFeatures req), None))"

definition WithEntitlement :: "'v Authorizer \<Rightarrow> 'v FeatureSource option \<Rightarrow> 'v Authorizer" where
  "WithEntitlement inner features = (case features of None \<Rightarrow> inner | Some fs \<Rightarrow> EntitlementAuthorizer inner fs)"

record 'v Alert =
  alMethod :: string
  alPrincipal :: "'v Principal"
  alType :: string
  alVerb :: string
  alFeatures :: "string list"
  alReason :: string

section \<open>The interceptor\<close>

record rule =
  verb :: string
  resource :: string
  public :: bool
  features :: "string list"
  rmode :: string
  quota :: "QuotaRule option"

definition ruleFrom :: "MethodRule \<Rightarrow> rule" where
  "ruleFrom r = \<lparr>verb = mrVerb r, resource = mrResource r, public = mrPublic r, features = mrFeatures r, rmode = mrMode r,
     quota = mrQuota r\<rparr>"

text \<open>The rule table is an association list with one entry for each method; Go leaves the order of its map open.\<close>

record 'v config =
  authorizer :: "'v Authorizer"
  principalFn :: "'v gctx \<Rightarrow> string + 'v Principal"
  rules :: "(string \<times> rule) list"
  ruleSource :: "MethodRule list option"
  failOpen :: bool

type_synonym 'v Option = "'v config \<Rightarrow> 'v config"

definition WithAuthorizer :: "'v Authorizer option \<Rightarrow> 'v Option" where
  "WithAuthorizer a c = (case a of None \<Rightarrow> c | Some f \<Rightarrow> c\<lparr>authorizer := f\<rparr>)"

definition WithPrincipalFunc :: "('v gctx \<Rightarrow> string + 'v Principal) option \<Rightarrow> 'v Option" where
  "WithPrincipalFunc fn c = (case fn of None \<Rightarrow> c | Some f \<Rightarrow> c\<lparr>principalFn := f\<rparr>)"

definition WithMethodRule :: "string \<Rightarrow> string \<Rightarrow> string \<Rightarrow> 'v Option" where
  "WithMethodRule m v r c = c\<lparr>rules := AList.update m \<lparr>verb = v, resource = r, public = False, features = [], rmode = [], quota = None\<rparr> (rules c)\<rparr>"

definition WithPublicMethod :: "string \<Rightarrow> 'v Option" where
  "WithPublicMethod m c = c\<lparr>rules := AList.update m \<lparr>verb = [], resource = [], public = True, features = [], rmode = [], quota = None\<rparr> (rules c)\<rparr>"

definition WithRules :: "MethodRule list \<Rightarrow> 'v Option" where
  "WithRules rs c = c\<lparr>rules := fold (\<lambda>r t. AList.update (mrMethod r) (ruleFrom r) t) rs (rules c)\<rparr>"

definition WithRuleSource :: "MethodRule list option \<Rightarrow> 'v Option" where
  "WithRuleSource src c = (case src of None \<Rightarrow> c | Some rs \<Rightarrow> c\<lparr>ruleSource := Some rs\<rparr>)"

definition WithFailOpen :: "bool \<Rightarrow> 'v Option" where
  "WithFailOpen b c = c\<lparr>failOpen := b\<rparr>"

definition zeroPrincipal :: "'v Principal" where
  "zeroPrincipal = \<lparr>Subject = [], pTenant = [], Groups = [], Scopes = [], Claims = (\<lambda>_. None)\<rparr>"

definition newConfig :: "'v Option list \<Rightarrow> 'v config" where
  "newConfig os = fold (\<lambda>f c. f c) os
     \<lparr>authorizer = DenyAll, principalFn = (\<lambda>_. Inr zeroPrincipal), rules = [], ruleSource = None, failOpen = False\<rparr>"

definition lookup_rule :: "'v config \<Rightarrow> string \<Rightarrow> rule option" where
  "lookup_rule c m =
     (case (case ruleSource c of None \<Rightarrow> None | Some rs \<Rightarrow> find (\<lambda>r. mrMethod r = m) rs) of
        Some r \<Rightarrow> Some (ruleFrom r)
      | None \<Rightarrow> map_of (rules c) m)"

definition allRules :: "'v config \<Rightarrow> MethodRule list" where
  "allRules c = (case ruleSource c of None \<Rightarrow> [] | Some rs \<Rightarrow> rs) @
     map (\<lambda>(m, r). \<lparr>mrMethod = m, mrVerb = verb r, mrResource = resource r, mrPublic = public r, mrFeatures = features r,
                    mrMode = rmode r, mrQuota = quota r\<rparr>) (rules c)"

datatype gerr = NoRule string | NoPrincipal | DecisionError | Denied string string

text \<open>\<open>authorize\<close> returns the context for the handler, the error if the call is refused, and the alerts emitted.\<close>

definition authorize :: "'v config \<Rightarrow> 'v gctx \<Rightarrow> string \<Rightarrow> (gerr + 'v gctx) \<times> 'v Alert list" where
  "authorize c ctx m =
     (case lookup_rule c m of
        None \<Rightarrow> if failOpen c then (Inr ctx, []) else (Inl (NoRule m), [])
      | Some r \<Rightarrow>
          if public r then (Inr ctx, [])
          else case principalFn c ctx of
                 Inl e \<Rightarrow> if failOpen c then (Inr ctx, []) else (Inl NoPrincipal, [])
               | Inr princ \<Rightarrow>
                   (case authorizer c ctx \<lparr>arPrincipal = princ, arVerb = verb r, arType = resource r, arID = [], arMethod = m,
                             arFeatures = features r, arContext = (\<lambda>_. None)\<rparr> of
                      (dec, Some e) \<Rightarrow> if failOpen c then (Inr ctx, []) else (Inl DecisionError, [])
                    | (dec, None) \<Rightarrow>
                        (let ctx1 = (if Obligations dec \<noteq> [] then ctx\<lparr>obligationsVal := Some (Obligations dec)\<rparr> else ctx);
                             ctx2 = ctx1\<lparr>principalVal := Some princ,
                                         resourceVal := Some \<lparr>refType = resource r, refName = [], refVerb = verb r\<rparr>\<rparr>
                         in if Allow dec then (Inr ctx2, [])
                            else if rmode r = ModeAlert
                            then (Inr ctx2, [\<lparr>alMethod = m, alPrincipal = princ, alType = resource r, alVerb = verb r,
                                              alFeatures = features r, alReason = Reason dec\<rparr>])
                            else (Inl (Denied (verb r) (resource r)), []))))"

text \<open>The unary and the stream interceptor run the handler with the new context, or not at all.\<close>

definition UnaryServerInterceptor :: "'v Option list \<Rightarrow> 'v gctx \<Rightarrow> string \<Rightarrow> ('v gctx \<Rightarrow> 's \<Rightarrow> (gerr + 'r) \<times> 's)
    \<Rightarrow> 's \<Rightarrow> ((gerr + 'r) \<times> 's) \<times> 'v Alert list" where
  "UnaryServerInterceptor os ctx m handler s =
     (case authorize (newConfig os) ctx m of
        (Inl e, al) \<Rightarrow> ((Inl e, s), al)
      | (Inr ctx', al) \<Rightarrow> (handler ctx' s, al))"

datatype boot_err = Undeclared "string list" | Malformed "(string \<times> string) list"

definition malformed :: "MethodRule \<Rightarrow> (string \<times> string) list" where
  "malformed r =
     (if mrMode r \<noteq> [] \<and> mrMode r \<noteq> ModeEnforce \<and> mrMode r \<noteq> ModeAlert then [(mrMethod r, ''invalid mode'')] else []) @
     (case mrQuota r of Some q \<Rightarrow> if Metric q = [] then [(mrMethod r, ''quota declared without a metric'')] else [] | None \<Rightarrow> [])"

definition AssertMethodsDeclared :: "string list \<Rightarrow> 'v Option list \<Rightarrow> boot_err option" where
  "AssertMethodsDeclared methods os =
     (let c = newConfig os;
          missing = filter (\<lambda>m. lookup_rule c m = None) methods;
          invalid = concat (map malformed (allRules c))
      in if missing \<noteq> [] then Some (Undeclared missing)
         else if invalid \<noteq> [] then Some (Malformed invalid)
         else None)"

fun split_groups :: "string list \<Rightarrow> string list" where
  "split_groups [] = []"
| "split_groups (raw # rs) = filter (\<lambda>g. g \<noteq> []) (map TrimSpace (split_comma raw)) @ split_groups rs"

definition DevPrincipalFunc :: "'v gctx \<Rightarrow> string + 'v Principal" where
  "DevPrincipalFunc ctx =
     (case incomingMD ctx of
        None \<Rightarrow> Inr zeroPrincipal
      | Some md \<Rightarrow>
          (let hd_or = (\<lambda>k. case md k of [] \<Rightarrow> [] | v # _ \<Rightarrow> v)
           in Inr (zeroPrincipal\<lparr>pTenant := hd_or ''account-id'', Subject := hd_or ''subject'', Groups := split_groups (md ''groups'')\<rparr>)))"

section \<open>The development service\<close>

record dstore =
  az :: "Grant list"
  storedGrants :: "Grant list"

definition Replace :: "Grant list \<Rightarrow> dstore \<Rightarrow> dstore" where
  "Replace gs st = st\<lparr>az := gs, storedGrants := gs\<rparr>"

definition NewStore :: "Grant list \<Rightarrow> dstore" where
  "NewStore gs = Replace gs \<lparr>az = [], storedGrants = []\<rparr>"

definition store_Authorize :: "dstore \<Rightarrow> 'v Authorizer" where
  "store_Authorize st c req = DevAuthorizer (az st) c req"

text \<open>JSON as the service uses it: a decoder reads one value, from at most 1 MiB of the body.\<close>

record 'v json =
  enc_req :: "'v AccessRequest \<Rightarrow> string option"
  dec_req :: "string \<Rightarrow> 'v AccessRequest option"
  enc_dec :: "'v Decision \<Rightarrow> string"
  dec_dec :: "string \<Rightarrow> 'v Decision option"
  dec_grants :: "string \<Rightarrow> Grant list option"

definition limited :: "string \<Rightarrow> string" where
  "limited b = take 1048576 b"

record HandlerOptions =
  AuthorizePath :: string
  EnableAdmin :: bool
  AdminPath :: string

definition DefaultAuthorizePath :: string where
  "DefaultAuthorizePath = ''/v1/authorize''"

text \<open>The HTTP handler: the response is a status code and a body.\<close>

definition serve_authorize :: "'v json \<Rightarrow> dstore \<Rightarrow> 'v gctx \<Rightarrow> string \<Rightarrow> string \<Rightarrow> nat \<times> string" where
  "serve_authorize j st c meth body =
     (if meth \<noteq> ''POST'' then (405, ''method not allowed'')
      else case dec_req j (limited body) of
             None \<Rightarrow> (400, ''bad request'')
           | Some req \<Rightarrow>
               (case store_Authorize st c req of
                  (dec, Some e) \<Rightarrow> (500, ''authorize error: '' @ e)
                | (dec, None) \<Rightarrow> (200, enc_dec j dec)))"

definition serve_admin :: "'v json \<Rightarrow> dstore \<Rightarrow> string \<Rightarrow> string \<Rightarrow> (nat \<times> string) \<times> dstore" where
  "serve_admin j st meth body =
     (if meth \<noteq> ''PUT'' then ((405, ''method not allowed''), st)
      else case dec_grants j (limited body) of
             None \<Rightarrow> ((400, ''bad request''), st)
           | Some gs \<Rightarrow> ((204, []), Replace gs st))"

definition NewHandler :: "'v json \<Rightarrow> HandlerOptions \<Rightarrow> 'v gctx \<Rightarrow> string \<Rightarrow> string \<Rightarrow> string \<Rightarrow> dstore \<Rightarrow> (nat \<times> string) \<times> dstore" where
  "NewHandler j o' c meth path body st =
     (let authorizePath = (if AuthorizePath o' = [] then DefaultAuthorizePath else AuthorizePath o');
          adminPath = (if AdminPath o' = [] then ''/v1/grants'' else AdminPath o')
      in if path = authorizePath then (serve_authorize j st c meth body, st)
         else if EnableAdmin o' \<and> path = adminPath then serve_admin j st meth body
         else ((404, ''404 page not found''), st))"

text \<open>The client over a transport that returns an error or a response.\<close>

definition client_Authorize :: "'v json \<Rightarrow> string \<Rightarrow> (string \<Rightarrow> string \<Rightarrow> string \<Rightarrow> string + nat \<times> string) \<Rightarrow> 'v Authorizer" where
  "client_Authorize j authorizePath transport c req =
     (let path = (if authorizePath = [] then DefaultAuthorizePath else authorizePath)
      in case enc_req j req of
           None \<Rightarrow> (deny ''devsvc: marshal request'', Some ''json'')
         | Some body \<Rightarrow>
             (case transport ''POST'' path body of
                Inl e \<Rightarrow> (deny ''devsvc: unreachable'', Some (''devsvc: call authz service: '' @ e))
              | Inr (code, resp) \<Rightarrow>
                  if code \<noteq> 200 then (deny ''devsvc: status'', Some ''devsvc: authz service status'')
                  else case dec_dec j (limited resp) of
                         None \<Rightarrow> (deny ''devsvc: decode decision'', Some ''devsvc: decode decision'')
                       | Some d \<Rightarrow> (\<lparr>Allow = Allow d, Reason = Reason d, Obligations = Obligations d\<rparr>, None)))"

text \<open>
  The grants-file watcher. The first load and the reading of the modification time are separate system calls; a tick reads
  the modification time and then, if it differs from the last one, the file.
\<close>

record grants_watch =
  lastMod :: nat
  watched :: dstore

definition watch_start :: "string + Grant list \<Rightarrow> nat \<Rightarrow> dstore \<Rightarrow> string + grants_watch" where
  "watch_start load mt st =
     (case load of Inl e \<Rightarrow> Inl e | Inr gs \<Rightarrow> Inr \<lparr>lastMod = mt, watched = Replace gs st\<rparr>)"

definition grants_tick :: "nat \<times> (string + Grant list) \<Rightarrow> grants_watch \<Rightarrow> grants_watch" where
  "grants_tick io w =
     (if fst io = lastMod w then w
      else case snd io of
             Inl e \<Rightarrow> w\<lparr>lastMod := fst io\<rparr>
           | Inr gs \<Rightarrow> w\<lparr>lastMod := fst io, watched := Replace gs (watched w)\<rparr>)"

section \<open>The permission catalog\<close>

record acc =
  averbs :: "string list"
  aeps :: "(string \<times> string list) list"

record catResource =
  cVerbs :: "string list"
  cEndpoints :: "(string \<times> string list) list"
  cGroups :: "(string \<times> string list) list"

record Catalog =
  Application :: string
  Resources :: "(string \<times> catResource) list"

definition viewVerbs :: "string list" where
  "viewVerbs = [''get'', ''list'', ''watch'']"

definition manageVerbs :: "string list" where
  "manageVerbs = [''create'', ''update'', ''delete'', ''get'', ''list'', ''watch'']"

definition cat_add :: "MethodRule \<Rightarrow> (string \<times> acc) list \<Rightarrow> (string \<times> acc) list" where
  "cat_add r tmp =
     (if mrPublic r \<or> mrVerb r = [] \<or> mrResource r = [] then tmp
      else (let a = (case map_of tmp (mrResource r) of None \<Rightarrow> \<lparr>averbs = [], aeps = []\<rparr> | Some a \<Rightarrow> a);
                ms = (case map_of (aeps a) (mrVerb r) of None \<Rightarrow> [] | Some ms \<Rightarrow> ms);
                ms' = (if mrMethod r \<noteq> [] then List.insert (mrMethod r) ms else ms)
            in AList.update (mrResource r)
                 \<lparr>averbs = List.insert (mrVerb r) (averbs a), aeps = AList.update (mrVerb r) ms' (aeps a)\<rparr> tmp))"

definition intersect :: "string list \<Rightarrow> string list \<Rightarrow> string list" where
  "intersect ordered vs = filter (\<lambda>v. List.member vs v) ordered"

definition cat_group :: "string \<Rightarrow> string list \<Rightarrow> (string \<times> string list) list" where
  "cat_group name g = (if g = [] then [] else [(name, g)])"

definition cat_entry :: "acc \<Rightarrow> catResource" where
  "cat_entry a = \<lparr>cVerbs = sort (averbs a), cEndpoints = map (\<lambda>(v, ms). (v, sort ms)) (aeps a),
     cGroups = cat_group ''View'' (intersect viewVerbs (averbs a)) @ cat_group ''Manage'' (intersect manageVerbs (averbs a))\<rparr>"

definition Build :: "string \<Rightarrow> MethodRule list \<Rightarrow> Catalog" where
  "Build app rs = \<lparr>Application = app, Resources = map (\<lambda>(res, a). (res, cat_entry a)) (fold cat_add rs [])\<rparr>"

section \<open>The boot gates of the server\<close>

record MemberBinding =
  mbResource :: string
  mbRoot :: string
  WriteMethods :: "string list"

text \<open>A violation is the member, its root and the method; the source sorts the formatted messages.\<close>

definition AssertAggregateBoundaries :: "string list \<Rightarrow> MemberBinding list \<Rightarrow> (string \<times> string \<times> string) list option" where
  "AssertAggregateBoundaries methods members =
     (let violations = concat (map (\<lambda>mb. map (\<lambda>w. (mbResource mb, mbRoot mb, w))
                                        (filter (\<lambda>w. List.member methods w) (WriteMethods mb))) members)
      in if violations \<noteq> [] then Some violations else None)"

record Reference =
  FieldName :: string
  FKField :: string
  TargetType :: string

definition AssertReferenceTargets :: "string list \<Rightarrow> Reference list \<Rightarrow> Reference list option" where
  "AssertReferenceTargets targets refs =
     (let violations = filter (\<lambda>r. \<not> List.member targets (TargetType r)) refs
      in if violations \<noteq> [] then Some violations else None)"

section \<open>What the interceptor lets through\<close>

definition request_for :: "'v Principal \<Rightarrow> rule \<Rightarrow> string \<Rightarrow> 'v AccessRequest" where
  "request_for princ r m = \<lparr>arPrincipal = princ, arVerb = verb r, arType = resource r, arID = [], arMethod = m,
     arFeatures = features r, arContext = (\<lambda>_. None)\<rparr>"

text \<open>A call may run when its method is declared, and is public, or allowed by an undisturbed decision, or denied by one but
  in observation mode.\<close>

definition may_run :: "'v config \<Rightarrow> 'v gctx \<Rightarrow> string \<Rightarrow> bool" where
  "may_run c ctx m \<longleftrightarrow>
     (case lookup_rule c m of
        None \<Rightarrow> False
      | Some r \<Rightarrow> public r \<or>
          (case principalFn c ctx of
             Inl _ \<Rightarrow> False
           | Inr princ \<Rightarrow>
               (case authorizer c ctx (request_for princ r m) of (dec, err) \<Rightarrow> err = None \<and> (Allow dec \<or> rmode r = ModeAlert))))"

lemma authorize_closed:
  assumes "\<not> failOpen c"
  shows "may_run c ctx m \<Longrightarrow> \<exists>ctx' al. authorize c ctx m = (Inr ctx', al)"
    "\<not> may_run c ctx m \<Longrightarrow> \<exists>e. authorize c ctx m = (Inl e, [])"
  using assms by (auto simp: may_run_def authorize_def request_for_def Let_def split: option.splits sum.splits prod.splits)

text \<open>C14: 
  The interceptor fails closed. Unless it is configured to fail open, the handler runs exactly when the method is declared and
  public, or the principal is known and the decision point answered without an error, with an allow or under a rule in
  observation mode; in every other case the call is refused, the handler does not run and the state is as before.
\<close>

theorem authz_fail_closed:
  assumes "\<not> failOpen (newConfig os)"
  shows "if may_run (newConfig os) ctx m
    then \<exists>ctx' al. authorize (newConfig os) ctx m = (Inr ctx', al) \<and> UnaryServerInterceptor os ctx m handler s = (handler ctx' s, al)
    else \<exists>e. UnaryServerInterceptor os ctx m handler s = ((Inl e, s), [])"
  using authorize_closed [OF assms, of ctx m] by (auto simp: UnaryServerInterceptor_def split: if_splits)

definition exGrants :: "Grant list" where
  "exGrants = [\<lparr>gTenant = ''t1'', Subjects = [''amy''], Verbs = [''get'', ''list''], gResource = ''zone''\<rparr>]"

definition exRules :: "MethodRule list" where
  "exRules = [\<lparr>mrMethod = ''/Get'', mrVerb = ''get'', mrResource = ''zone'', mrPublic = False, mrFeatures = [''dns''], mrMode = [], mrQuota = None\<rparr>,
     \<lparr>mrMethod = ''/Health'', mrVerb = [], mrResource = [], mrPublic = True, mrFeatures = [], mrMode = [], mrQuota = None\<rparr>]"

definition dev_options :: "Grant list \<Rightarrow> (string \<times> string list) list \<Rightarrow> MethodRule list \<Rightarrow> 'v Option list" where
  "dev_options gs feats rs =
     [WithAuthorizer (Some (WithEntitlement (DevAuthorizer gs) (Some (StaticFeatures feats)))),
      WithPrincipalFunc (Some DevPrincipalFunc), WithRules rs]"

definition md_ctx :: "(string \<times> string list) list \<Rightarrow> 'v gctx" where
  "md_ctx md = \<lparr>incomingMD = Some (\<lambda>k. case map_of md k of None \<Rightarrow> [] | Some v \<Rightarrow> v), principalVal = None, resourceVal = None,
     obligationsVal = None\<rparr>"

lemma exRun: "may_run (newConfig (dev_options exGrants [(''t1'', [''dns''])] exRules)) (md_ctx [(''account-id'', [''t1'']), (''subject'', [''amy''])] :: unit gctx) ''/Get''"
  by code_simp

theorem authz_fail_closed_witness:
  "\<not> failOpen (newConfig (dev_options exGrants [(''t1'', [''dns''])] exRules) :: unit config)
    \<and> (\<exists>ctx' al. authorize (newConfig (dev_options exGrants [(''t1'', [''dns''])] exRules))
          (md_ctx [(''account-id'', [''t1'']), (''subject'', [''amy''])] :: unit gctx) ''/Get'' = (Inr ctx', al)
        \<and> UnaryServerInterceptor (dev_options exGrants [(''t1'', [''dns''])] exRules)
            (md_ctx [(''account-id'', [''t1'']), (''subject'', [''amy''])] :: unit gctx) ''/Get'' (\<lambda>c n. (Inr (), n + 2)) (3 :: nat)
          = ((Inr (), 5), al))"
proof -
  have "\<not> failOpen (newConfig (dev_options exGrants [(''t1'', [''dns''])] exRules) :: unit config)" by code_simp
  from this authz_fail_closed [OF this, of "md_ctx [(''account-id'', [''t1'']), (''subject'', [''amy''])]" "''/Get''"
      "\<lambda>c n. (Inr (), n + 2)" "3 :: nat"] exRun
  show ?thesis by simp
qed

section \<open>The development stack\<close>

lemma DevAuthorizer_iff:
  "snd (DevAuthorizer gs c req) = None" "Allow (fst (DevAuthorizer gs c req)) \<longleftrightarrow> (\<exists>g \<in> set gs. grant_matches g req)"
  by (induction gs) (auto simp: deny_def)

lemma entitled_allow: "Allow (entitled granted dec fs) \<longleftrightarrow> Allow dec \<and> (\<forall>f \<in> set fs. granted f)" if "Allow dec"
proof (cases "find (\<lambda>f. \<not> granted f) fs")
  case None
  then have "\<forall>f \<in> set fs. granted f" by (auto simp: find_None_iff)
  with None show ?thesis using that by (simp add: entitled_def)
next
  case (Some f)
  then have "f \<in> set fs" "\<not> granted f" by (auto simp: find_Some_iff)
  with Some show ?thesis by (auto simp: entitled_def deny_def)
qed

lemma Entitlement_iff:
  assumes "\<And>c req. snd (inner c req) = None" "\<And>c a. src c a = Inr (G a)"
  shows "snd (EntitlementAuthorizer inner src c req) = None"
    "Allow (fst (EntitlementAuthorizer inner src c req)) \<longleftrightarrow>
      Allow (fst (inner c req)) \<and> (\<forall>f \<in> set (arFeatures req). G (pTenant (arPrincipal req)) f)"
  using assms(1) [of c req] assms(2) [of c "pTenant (arPrincipal req)"]
  by (cases "inner c req"; auto simp: EntitlementAuthorizer_def entitled_allow)+

lemma ruleFrom_simps [simp]:
  "verb (ruleFrom r) = mrVerb r" "resource (ruleFrom r) = mrResource r" "public (ruleFrom r) = mrPublic r"
  "features (ruleFrom r) = mrFeatures r" "rmode (ruleFrom r) = mrMode r" "quota (ruleFrom r) = mrQuota r"
  by (simp_all add: ruleFrom_def)

definition granted_features :: "(string \<times> string list) list \<Rightarrow> string \<Rightarrow> string \<Rightarrow> bool" where
  "granted_features feats account f = (case map_of feats account of None \<Rightarrow> False | Some fs \<Rightarrow> List.member fs f)"

lemma dev_config:
  "authorizer (newConfig (dev_options gs feats rs)) = EntitlementAuthorizer (DevAuthorizer gs) (StaticFeatures feats)"
  "principalFn (newConfig (dev_options gs feats rs)) = DevPrincipalFunc"
  "failOpen (newConfig (dev_options gs feats rs)) = False"
  "lookup_rule (newConfig (dev_options gs feats rs)) = map_of (fold (\<lambda>r t. AList.update (mrMethod r) (ruleFrom r) t) rs [])"
  by (simp_all add: fun_eq_iff newConfig_def dev_options_def WithAuthorizer_def WithPrincipalFunc_def WithRules_def WithEntitlement_def
      lookup_rule_def)

lemma rule_table: "map_of (fold (\<lambda>r t. AList.update (mrMethod r) (ruleFrom r) t) rs []) m =
    map_option ruleFrom (find (\<lambda>r. mrMethod r = m) (rev rs))"
  by (induction rs rule: rev_induct) (simp_all add: AList.update_conv)

text \<open>
  Access in the development stack, in full. With static grants and features behind the interceptor, a call runs exactly when
  the last rule declared for its method is public, or is in observation mode, or some grant matches the caller of the metadata,
  the verb and the resource type and every feature the rule requires is granted to the caller's tenant.
\<close>

theorem dev_access_iff:
  "may_run (newConfig (dev_options gs feats rs)) ctx m \<longleftrightarrow>
    (\<exists>r princ. find (\<lambda>r. mrMethod r = m) (rev rs) = Some r \<and> DevPrincipalFunc ctx = Inr princ
      \<and> (mrPublic r \<or> mrMode r = ModeAlert
         \<or> ((\<exists>g \<in> set gs. grant_matches g (request_for princ (ruleFrom r) m))
            \<and> list_all (granted_features feats (pTenant princ)) (mrFeatures r))))"
proof -
  have feat: "StaticFeatures feats c a = Inr (granted_features feats a)" for c :: "'a gctx" and a
    by (simp add: StaticFeatures_def granted_features_def fun_eq_iff)
  note ent = Entitlement_iff [of "DevAuthorizer gs" "StaticFeatures feats" "granted_features feats", OF DevAuthorizer_iff(1) feat]
  obtain princ where p: "DevPrincipalFunc ctx = Inr princ"
    by (cases "incomingMD ctx") (auto simp: DevPrincipalFunc_def Let_def)
  show ?thesis
  proof (cases "find (\<lambda>r. mrMethod r = m) (rev rs)")
    case None
    then show ?thesis by (simp add: may_run_def dev_config rule_table)
  next
    case (Some r)
    let ?req = "request_for princ (ruleFrom r) m"
    have "may_run (newConfig (dev_options gs feats rs)) ctx m \<longleftrightarrow> mrPublic r
        \<or> Allow (fst (EntitlementAuthorizer (DevAuthorizer gs) (StaticFeatures feats) ctx ?req)) \<or> mrMode r = ModeAlert"
      using Some p ent(1) [of ctx ?req] by (simp add: may_run_def dev_config rule_table case_prod_beta)
    then show ?thesis unfolding ent(2) DevAuthorizer_iff(2) using Some p by (auto simp: request_for_def list_all_iff)
  qed
qed

text \<open>
  The boot gate is complete. If it accepts the registered methods, no call of one of them is ever refused for want of a rule,
  and every declared rule has one of the known modes and a metric for its quota.
\<close>

theorem boot_gate_complete:
  assumes "AssertMethodsDeclared ms os = None" "m \<in> set ms"
  shows "fst (authorize (newConfig os) ctx m) \<noteq> Inl (NoRule m')
    \<and> (\<exists>r. lookup_rule (newConfig os) m = Some r \<and> rmode r \<in> {[], ModeEnforce, ModeAlert} \<and> pred_option (\<lambda>q. Metric q \<noteq> []) (quota r))"
proof -
  let ?c = "newConfig os"
  have dec: "lookup_rule ?c m \<noteq> None" and ok: "\<And>r. r \<in> set (allRules ?c) \<Longrightarrow> malformed r = []"
    using assms by (auto simp: AssertMethodsDeclared_def Let_def filter_empty_conv split: if_splits)
  then obtain r where r: "lookup_rule ?c m = Some r" by blast
  then obtain mr where mr: "mr \<in> set (allRules ?c)" "ruleFrom mr = r"
  proof (cases "case ruleSource ?c of None \<Rightarrow> None | Some rs \<Rightarrow> find (\<lambda>r. mrMethod r = m) rs")
    case None
    then have "(m, r) \<in> set (rules ?c)" using r by (simp add: lookup_rule_def map_of_SomeD)
    then show ?thesis by (intro that) (auto simp: allRules_def ruleFrom_def intro!: image_eqI)
  next
    case (Some mr)
    then show ?thesis using r by (intro that [of mr]) (auto simp: allRules_def lookup_rule_def find_Some_iff split: option.splits)
  qed
  have "malformed mr = []" by (rule ok [OF mr(1)])
  then have "rmode r \<in> {[], ModeEnforce, ModeAlert} \<and> pred_option (\<lambda>q. Metric q \<noteq> []) (quota r)"
    using mr(2) by (cases "mrQuota mr") (auto simp: malformed_def ruleFrom_def split: if_splits)
  moreover have "fst (authorize ?c ctx m) \<noteq> Inl (NoRule m')"
    using r by (simp add: authorize_def Let_def split: sum.split prod.split option.split)
  ultimately show ?thesis using r by blast
qed

theorem boot_gate_complete_witness:
  "AssertMethodsDeclared [''/Get'', ''/Health''] [WithRules exRules :: unit Option] = None \<and> List.member [''/Get'', ''/Health''] ''/Get''
    \<and> fst (authorize (newConfig [WithRules exRules]) (md_ctx [] :: unit gctx) ''/Get'') \<noteq> Inl (NoRule ''/Get'')"
proof -
  have a: "AssertMethodsDeclared [''/Get'', ''/Health''] [WithRules exRules :: unit Option] = None" by code_simp
  have "''/Get'' \<in> set [''/Get'', ''/Health'']" by simp
  from a boot_gate_complete [OF a this, of "md_ctx []" "''/Get''"] show ?thesis by simp
qed

section \<open>The service and the in-process authorizer\<close>

text \<open>Whatever the transport does, the client allows only on a status 200 whose body decodes to an allow.\<close>

lemma client_fail_closed:
  assumes "Allow (fst (client_Authorize j p net c req))"
  shows "\<exists>b resp d. net ''POST'' (if p = [] then DefaultAuthorizePath else p) b = Inr (200, resp)
    \<and> dec_dec j (limited resp) = Some d \<and> Allow d"
  using assms unfolding client_Authorize_def Let_def
  by (force simp: deny_def split: option.splits sum.splits prod.splits if_splits)

text \<open>
  The remote development service decides like the in-process authorizer. When the transport delivers to the handler and JSON
  gives the request and the decision back, within the 1 MiB that either side reads, the client's answer is the store's.
\<close>

theorem devsvc_transparent:
  assumes "enc_req j req = Some body" "dec_req j (limited body) = Some req"
    "\<And>d. d = fst (DevAuthorizer gs c req) \<Longrightarrow> dec_dec j (limited (enc_dec j d)) = Some d"
    "\<And>meth path b. net meth path b = Inr (fst (NewHandler j o' c meth path b (NewStore gs)))"
    "AuthorizePath o' = p"
  shows "client_Authorize j p net c req = DevAuthorizer gs c req"
proof -
  let ?d = "fst (DevAuthorizer gs c req)"
  let ?path = "if p = [] then DefaultAuthorizePath else p"
  have store: "store_Authorize (NewStore gs) c req = (?d, None)"
    using DevAuthorizer_iff(1) [of gs c req] by (simp add: store_Authorize_def NewStore_def Replace_def prod_eq_iff)
  have "net ''POST'' ?path body = Inr (200, enc_dec j ?d)"
    using assms(2,5) store unfolding assms(4) by (simp add: NewHandler_def Let_def serve_authorize_def)
  then have "client_Authorize j p net c req = (?d, None)"
    using assms(1) assms(3) [OF refl] by (simp add: client_Authorize_def Let_def)
  then show ?thesis
    using DevAuthorizer_iff(1) [of gs c req] by (simp add: prod_eq_iff)
qed

definition exReq :: "string \<Rightarrow> unit AccessRequest" where
  "exReq t = \<lparr>arPrincipal = zeroPrincipal\<lparr>Subject := ''amy'', pTenant := t\<rparr>, arVerb = ''get'', arType = ''zone'', arID = [],
     arMethod = ''/Get'', arFeatures = [], arContext = (\<lambda>_. None)\<rparr>"

text \<open>A codec of requests of \<open>exReq\<close> by their tenant, and of decisions by their answer and reason.\<close>

definition exJson :: "unit json" where
  "exJson = \<lparr>enc_req = (\<lambda>r. Some (pTenant (arPrincipal r))), dec_req = (\<lambda>b. Some (exReq b)),
     enc_dec = (\<lambda>d. (if Allow d then CHR ''y'' else CHR ''n'') # Reason d),
     dec_dec = (\<lambda>b. case b of [] \<Rightarrow> None | a # r \<Rightarrow> Some \<lparr>Allow = a = CHR ''y'', Reason = r, Obligations = []\<rparr>),
     dec_grants = (\<lambda>b. None)\<rparr>"

definition exNet :: "string \<Rightarrow> string \<Rightarrow> string \<Rightarrow> string + nat \<times> string" where
  "exNet meth path b = Inr (fst (NewHandler exJson \<lparr>AuthorizePath = [], EnableAdmin = False, AdminPath = []\<rparr> (md_ctx []) meth path b
     (NewStore exGrants)))"

theorem devsvc_transparent_witness:
  "enc_req exJson (exReq ''t1'') = Some ''t1'' \<and> dec_req exJson (limited ''t1'') = Some (exReq ''t1'')
    \<and> Allow (fst (DevAuthorizer exGrants (md_ctx []) (exReq ''t1'')))
    \<and> client_Authorize exJson [] exNet (md_ctx []) (exReq ''t1'') = DevAuthorizer exGrants (md_ctx []) (exReq ''t1'')"
proof -
  have a: "enc_req exJson (exReq ''t1'') = Some ''t1''" by (simp add: exJson_def exReq_def)
  have b: "dec_req exJson (limited ''t1'') = Some (exReq ''t1'')" by (simp add: exJson_def limited_def)
  have d: "DevAuthorizer exGrants (md_ctx []) (exReq ''t1'') = (\<lparr>Allow = True, Reason = ''dev grant matched'', Obligations = []\<rparr>, None)"
    by code_simp
  have c: "dec_dec exJson (limited (enc_dec exJson x)) = Some x" if "x = fst (DevAuthorizer exGrants (md_ctx []) (exReq ''t1''))" for x
    using that unfolding d by (simp add: exJson_def limited_def)
  have "client_Authorize exJson [] exNet (md_ctx []) (exReq ''t1'') = DevAuthorizer exGrants (md_ctx []) (exReq ''t1'')"
    by (rule devsvc_transparent [OF a b c, where o' = "\<lparr>AuthorizePath = [], EnableAdmin = False, AdminPath = []\<rparr>"])
      (simp_all add: exNet_def)
  then show ?thesis using a b d by simp
qed

section \<open>The catalog and the interceptor\<close>

definition endpoints :: "Catalog \<Rightarrow> string \<Rightarrow> string \<Rightarrow> string set" where
  "endpoints cat res v = (case map_of (Resources cat) res of None \<Rightarrow> {} | Some e \<Rightarrow>
     (case map_of (cEndpoints e) v of None \<Rightarrow> {} | Some ms \<Rightarrow> set ms))"

definition acc_eps :: "(string \<times> acc) list \<Rightarrow> string \<Rightarrow> string \<Rightarrow> string set" where
  "acc_eps tmp res v = (case map_of tmp res of None \<Rightarrow> {} | Some a \<Rightarrow>
     (case map_of (aeps a) v of None \<Rightarrow> {} | Some ms \<Rightarrow> set ms))"

lemma map_of_map_snd: "map_of (map (\<lambda>(k, v). (k, f v)) t) k = map_option f (map_of t k)"
  by (induction t) auto

lemma endpoints_Build: "endpoints (Build app rs) res v = acc_eps (fold cat_add rs []) res v"
  by (simp add: endpoints_def Build_def acc_eps_def map_of_map_snd cat_entry_def split: option.split)

lemma acc_eps_add: "acc_eps (cat_add r tmp) res v = acc_eps tmp res v \<union>
    (if \<not> mrPublic r \<and> mrVerb r \<noteq> [] \<and> mrResource r \<noteq> [] \<and> mrMethod r \<noteq> [] \<and> mrResource r = res \<and> mrVerb r = v then {mrMethod r} else {})"
  by (auto simp: acc_eps_def cat_add_def Let_def AList.update_conv split: option.splits if_splits)

lemma acc_eps_Nil: "acc_eps [] res v = {}"
  by (simp add: acc_eps_def)

lemma acc_eps_fold: "m \<in> acc_eps (fold cat_add rs []) res v \<longleftrightarrow>
    (\<exists>r \<in> set rs. \<not> mrPublic r \<and> mrVerb r \<noteq> [] \<and> mrResource r \<noteq> [] \<and> mrMethod r \<noteq> [] \<and> mrResource r = res \<and> mrVerb r = v \<and> mrMethod r = m)"
  by (induction rs rule: rev_induct) (auto simp: acc_eps_add acc_eps_Nil)

lemma find_distinct:
  assumes "distinct (map f xs)" "x \<in> set xs"
  shows "find (\<lambda>y. f y = f x) xs = Some x"
  using assms by (induction xs) (auto simp: image_iff)

text \<open>
  The catalog shows what is enforced. For rules declared once for each method, the permission catalog lists a method under a
  verb of a resource exactly when the interceptor, configured with the same rules, asks the decision point for that verb on
  that resource before it runs the method.
\<close>

theorem catalog_matches_enforcement:
  assumes "distinct (map mrMethod rs)" "m \<noteq> []" "v \<noteq> []" "res \<noteq> []"
  shows "m \<in> endpoints (Build app rs) res v \<longleftrightarrow>
    (\<exists>r. lookup_rule (newConfig [WithRules rs] :: 'v config) m = Some r \<and> \<not> public r \<and> verb r = v \<and> resource r = res)"
proof -
  have "distinct (map mrMethod (rev rs))" using assms(1) by (simp flip: rev_map)
  then have find: "find (\<lambda>y. mrMethod y = m) (rev rs) = Some r \<longleftrightarrow> r \<in> set rs \<and> mrMethod r = m" for r
    using find_distinct [of mrMethod "rev rs" r] nth_mem [of _ "rev rs"] by (auto simp: find_Some_iff)
  have look: "lookup_rule (newConfig [WithRules rs] :: 'v config) m = map_option ruleFrom (find (\<lambda>y. mrMethod y = m) (rev rs))"
    by (simp add: lookup_rule_def newConfig_def WithRules_def rule_table)
  show ?thesis
  proof
    assume "m \<in> endpoints (Build app rs) res v"
    then obtain r where r: "r \<in> set rs" "\<not> mrPublic r" "mrResource r = res" "mrVerb r = v" "mrMethod r = m"
      unfolding endpoints_Build acc_eps_fold by blast
    then have "lookup_rule (newConfig [WithRules rs] :: 'v config) m = Some (ruleFrom r)" unfolding look using find [of r] by simp
    then show "\<exists>r. lookup_rule (newConfig [WithRules rs] :: 'v config) m = Some r \<and> \<not> public r \<and> verb r = v \<and> resource r = res"
      using r by (intro exI [of _ "ruleFrom r"]) simp
  next
    assume "\<exists>r. lookup_rule (newConfig [WithRules rs] :: 'v config) m = Some r \<and> \<not> public r \<and> verb r = v \<and> resource r = res"
    then obtain r where "find (\<lambda>y. mrMethod y = m) (rev rs) = Some r" "\<not> mrPublic r" "mrVerb r = v" "mrResource r = res"
      unfolding look by auto
    then show "m \<in> endpoints (Build app rs) res v" unfolding endpoints_Build acc_eps_fold using find [of r] assms(2-4) by auto
  qed
qed

theorem catalog_matches_enforcement_witness:
  "distinct (map mrMethod exRules) \<and> ''/Get'' \<noteq> [] \<and> ''get'' \<noteq> [] \<and> ''zone'' \<noteq> []
    \<and> ''/Get'' \<in> endpoints (Build ''app'' exRules) ''zone'' ''get''
    \<and> (\<exists>r. lookup_rule (newConfig [WithRules exRules] :: unit config) ''/Get'' = Some r \<and> \<not> public r \<and> verb r = ''get'' \<and> resource r = ''zone'')"
proof -
  have d: "distinct (map mrMethod exRules)" by code_simp
  have e: "''/Get'' \<in> endpoints (Build ''app'' exRules) ''zone'' ''get''"
    unfolding endpoints_Build acc_eps_fold by (simp add: exRules_def)
  show ?thesis using d e catalog_matches_enforcement [OF d, of "''/Get''" "''get''" "''zone''" "''app''", where 'v = unit] by simp
qed

section \<open>The grants file\<close>

lemma grants_ticks_still: "list_all (\<lambda>io. fst io = lastMod w) ios \<Longrightarrow> fold grants_tick ios w = w"
  by (induction ios) (auto simp: grants_tick_def)

text \<open>
  An edit during the start of the watcher is never loaded. The watcher reads the file and only then its modification time:
  an edit in between leaves the new time as the last one seen, so as long as the file is not touched again every tick finds
  it unchanged, and the decisions stay those of the old grants. The same holds after a read that failed once.
\<close>

theorem grants_edit_missed:
  assumes "list_all (\<lambda>io. fst io = mt) ios" "watch_start (Inr gsOld) mt st = Inr w"
  shows "store_Authorize (watched (fold grants_tick ios w)) c req = DevAuthorizer gsOld c req
    \<and> az (watched (fold grants_tick ((mt, Inl e) # ios) w')) = az (watched w')"
  using grants_ticks_still [of w ios] grants_ticks_still [of "w'\<lparr>lastMod := mt\<rparr>" ios] assms
  by (auto simp: watch_start_def store_Authorize_def Replace_def grants_tick_def)

theorem grants_edit_missed_witness:
  "list_all (\<lambda>io. fst io = 7) [(7, Inr exGrants), (7, Inr exGrants) :: nat \<times> (string + Grant list)]
    \<and> Allow (fst (DevAuthorizer exGrants (md_ctx []) (exReq ''t1'')))
    \<and> \<not> Allow (fst (store_Authorize (watched (fold grants_tick [(7, Inr exGrants), (7, Inr exGrants)]
          \<lparr>lastMod = 7, watched = NewStore []\<rparr>)) (md_ctx []) (exReq ''t1'')))"
proof -
  have a: "list_all (\<lambda>io. fst io = 7) [(7, Inr exGrants), (7, Inr exGrants) :: nat \<times> (string + Grant list)]" by simp
  have b: "watch_start (Inr []) 7 (NewStore []) = Inr \<lparr>lastMod = 7, watched = NewStore []\<rparr>"
    by (simp add: watch_start_def NewStore_def Replace_def)
  have c: "Allow (fst (DevAuthorizer exGrants (md_ctx []) (exReq ''t1'')))" by code_simp
  have "\<not> Allow (fst (store_Authorize (watched (fold grants_tick [(7, Inr exGrants), (7, Inr exGrants)]
      \<lparr>lastMod = 7, watched = NewStore []\<rparr>)) (md_ctx []) (exReq ''t1'')))"
    unfolding grants_edit_missed [OF a b, THEN conjunct1] by (simp add: deny_def)
  with a c show ?thesis by blast
qed

end
