(* ===== verification/Rules.thy ===== *)
theory Rules
  imports Prelude
begin

text \<open>
  The distribution of per-tenant rules, \<^verbatim>\<open>src/rules/\<close>: the in-memory source with its watchers (\<^verbatim>\<open>static.go\<close>), the file-backed
  source (\<^verbatim>\<open>file.go\<close>) and the fail-safe cache of a consumer (\<^verbatim>\<open>cache.go\<close>). The type variable \<open>'v\<close> is the ruleset type. A watch
  channel is its buffer. The order in which Go ranges over a map is an argument.
\<close>

section \<open>Events\<close>

text \<open>The value and the \<^verbatim>\<open>Deleted\<close> flag of an event, whose value is the zero value when the flag is set.\<close>

datatype 'v rchange = Upserted 'v | Deleted

record 'v REvent =
  reTenant :: string
  reChange :: "'v rchange"
  reRevision :: u64

section \<open>The in-memory source\<close>

definition staticWatchBuffer :: nat where
  "staticWatchBuffer = 64"

record 'v StaticSource =
  srules :: "string \<Rightarrow> 'v option"
  srevision :: u64
  swatchers :: "nat \<Rightarrow> 'v REvent list option"
  snextW :: nat

definition NewStaticSource :: "'v StaticSource" where
  "NewStaticSource = \<lparr>srules = Map.empty, srevision = 0, swatchers = Map.empty, snextW = 0\<rparr>"

definition static_broadcast :: "'v REvent \<Rightarrow> 'v StaticSource \<Rightarrow> 'v StaticSource" where
  "static_broadcast ev s =
     s\<lparr>swatchers := (\<lambda>i. map_option (\<lambda>buf. if length buf < staticWatchBuffer then buf @ [ev] else buf) (swatchers s i))\<rparr>"

definition static_Get :: "string \<Rightarrow> 'v StaticSource \<Rightarrow> 'v option" where
  "static_Get tenant s = srules s tenant"

definition static_Set :: "string \<Rightarrow> 'v \<Rightarrow> 'v StaticSource \<Rightarrow> 'v StaticSource" where
  "static_Set tenant v s =
     (let r = srevision s + 1
      in static_broadcast \<lparr>reTenant = tenant, reChange = Upserted v, reRevision = r\<rparr> (s\<lparr>srules := (srules s)(tenant \<mapsto> v), srevision := r\<rparr>))"

definition static_Delete :: "string \<Rightarrow> 'v StaticSource \<Rightarrow> 'v StaticSource" where
  "static_Delete tenant s =
     (if srules s tenant = None then s
      else (let r = srevision s + 1
            in static_broadcast \<lparr>reTenant = tenant, reChange = Deleted, reRevision = r\<rparr>
                 (s\<lparr>srules := (srules s)(tenant := None), srevision := r\<rparr>)))"

text \<open>\<open>Replace\<close>: \<open>order\<close> lists the tenants of the source in the order its map is ranged over, \<open>nxt\<close> the new entries.\<close>

definition replace_absent :: "(string \<times> 'v) list \<Rightarrow> string \<Rightarrow> 'v StaticSource \<Rightarrow> 'v StaticSource" where
  "replace_absent nxt tenant s = (if map_of nxt tenant = None then static_Delete tenant s else s)"

definition static_Replace :: "string list \<Rightarrow> (string \<times> 'v) list \<Rightarrow> 'v StaticSource \<Rightarrow> 'v StaticSource" where
  "static_Replace order nxt s =
     fold (\<lambda>(tenant, v). static_Set tenant v) nxt (fold (replace_absent nxt) order s)"

definition static_Snapshot :: "'v StaticSource \<Rightarrow> (string \<Rightarrow> 'v option) \<times> u64" where
  "static_Snapshot s = (srules s, srevision s)"

definition static_Watch :: "'v StaticSource \<Rightarrow> nat \<times> 'v StaticSource" where
  "static_Watch s = (snextW s, s\<lparr>swatchers := (swatchers s)(snextW s \<mapsto> []), snextW := snextW s + 1\<rparr>)"

definition static_unwatch :: "nat \<Rightarrow> 'v StaticSource \<Rightarrow> 'v StaticSource" where
  "static_unwatch i s = s\<lparr>swatchers := (swatchers s)(i := None)\<rparr>"

section \<open>The file source\<close>

datatype rules_err = StatErr string | ReadErr string | ParseErr | NotLoaded string

record 'v FileSource =
  fstatic :: "'v StaticSource"
  flastMod :: go_time
  floaded :: bool

text \<open>The file as one \<open>Load\<close> sees it: its modification time, its content and, through the JSON parser, its entries.\<close>

record 'v file_io =
  statResult :: "string + go_time"
  readResult :: "string + string"
  parseJSON :: "string \<Rightarrow> (string \<times> 'v) list option"
  mapOrder :: "string list"

definition file_Load :: "'v file_io \<Rightarrow> 'v FileSource \<Rightarrow> rules_err option \<times> 'v FileSource" where
  "file_Load io f =
     (case statResult io of
        Inl e \<Rightarrow> (Some (StatErr e), f)
      | Inr mt \<Rightarrow>
          if floaded f \<and> mt = flastMod f then (None, f)
          else case readResult io of
                 Inl e \<Rightarrow> (Some (ReadErr e), f)
               | Inr raw \<Rightarrow>
                   (case (if raw \<noteq> [] then parseJSON io raw else Some []) of
                      None \<Rightarrow> (Some ParseErr, f)
                    | Some nxt \<Rightarrow>
                        (None, f\<lparr>fstatic := static_Replace (mapOrder io) nxt (fstatic f), flastMod := mt, floaded := True\<rparr>)))"

definition file_Snapshot :: "'v file_io \<Rightarrow> 'v FileSource \<Rightarrow> (rules_err + (string \<Rightarrow> 'v option) \<times> u64) \<times> 'v FileSource" where
  "file_Snapshot io f =
     (case file_Load io f of
        (Some e, f1) \<Rightarrow> if floaded f1 then (Inr (static_Snapshot (fstatic f1)), f1) else (Inl e, f1)
      | (None, f1) \<Rightarrow> (Inr (static_Snapshot (fstatic f1)), f1))"

text \<open>\<open>Run\<close>: one load at the start and one for each tick, their errors dropped.\<close>

definition file_Run :: "'v file_io list \<Rightarrow> 'v FileSource \<Rightarrow> 'v FileSource" where
  "file_Run ios f = fold (\<lambda>io f. snd (file_Load io f)) ios f"

section \<open>The cache\<close>

record 'v Cache =
  cdata :: "string \<Rightarrow> 'v option"
  cready :: bool
  crev :: u64

definition NewCache :: "'v Cache" where
  "NewCache = \<lparr>cdata = Map.empty, cready = False, crev = 0\<rparr>"

definition change_map :: "string \<Rightarrow> 'v rchange \<Rightarrow> (string \<Rightarrow> 'v option) \<Rightarrow> string \<Rightarrow> 'v option" where
  "change_map tenant ch m = (case ch of Upserted v \<Rightarrow> m(tenant \<mapsto> v) | Deleted \<Rightarrow> m(tenant := None))"

definition cache_apply :: "'v REvent \<Rightarrow> 'v Cache \<Rightarrow> 'v Cache" where
  "cache_apply ev c0 =
     (let c = c0\<lparr>cready := True\<rparr>
      in if reRevision ev \<noteq> 0 \<and> reRevision ev \<le> crev c then c
         else (let c1 = (if reRevision ev > crev c then c\<lparr>crev := reRevision ev\<rparr> else c)
               in c1\<lparr>cdata := change_map (reTenant ev) (reChange ev) (cdata c1)\<rparr>))"

definition cache_load :: "(string \<Rightarrow> 'v option) \<times> u64 \<Rightarrow> 'v Cache \<Rightarrow> 'v Cache" where
  "cache_load snap c = c\<lparr>cdata := fst snap, crev := snd snap, cready := True\<rparr>"

definition cache_Get :: "string \<Rightarrow> 'v Cache \<Rightarrow> 'v option" where
  "cache_Get tenant c = cdata c tenant"

definition cache_Check :: "'v Cache \<Rightarrow> bool" where
  "cache_Check c = cready c"

section \<open>A source and a running cache\<close>

text \<open>
  \<open>Cache.Run\<close> beside a source: it opens the watch, then takes the snapshot, then receives events; the source may change
  between any two of these steps. \<open>Loaded\<close> and \<open>Unloaded\<close> are the receive loop after a snapshot and after a failed one.
\<close>

datatype 'v rules_op = OpSet string 'v | OpDelete string | OpReplace "string list" "(string \<times> 'v) list"

fun do_op :: "'v rules_op \<Rightarrow> 'v StaticSource \<Rightarrow> 'v StaticSource" where
  "do_op (OpSet t v) s = static_Set t v s"
| "do_op (OpDelete t) s = static_Delete t s"
| "do_op (OpReplace order nxt) s = static_Replace order nxt s"

datatype cache_phase = NotStarted | Watching nat | Loaded nat | Unloaded nat

record 'v rsys =
  rsrc :: "'v StaticSource"
  rcache :: "'v Cache"
  rphase :: cache_phase

fun phase_watch :: "cache_phase \<Rightarrow> nat option" where
  "phase_watch NotStarted = None"
| "phase_watch (Watching i) = Some i"
| "phase_watch (Loaded i) = Some i"
| "phase_watch (Unloaded i) = Some i"

inductive cache_step :: "'v rsys \<Rightarrow> 'v rsys \<Rightarrow> bool" where
  cs_watch: "rphase s = NotStarted \<Longrightarrow> static_Watch (rsrc s) = (i, src) \<Longrightarrow> cache_step s (s\<lparr>rsrc := src, rphase := Watching i\<rparr>)"
| cs_snapshot: "rphase s = Watching i \<Longrightarrow>
    cache_step s (s\<lparr>rcache := cache_load (static_Snapshot (rsrc s)) (rcache s), rphase := Loaded i\<rparr>)"
| cs_snapshot_fails: "rphase s = Watching i \<Longrightarrow> cache_step s (s\<lparr>rphase := Unloaded i\<rparr>)"
| cs_receive: "rphase s = Loaded i \<or> rphase s = Unloaded i \<Longrightarrow> swatchers (rsrc s) i = Some (ev # buf) \<Longrightarrow>
    cache_step s (s\<lparr>rsrc := (rsrc s)\<lparr>swatchers := (swatchers (rsrc s))(i \<mapsto> buf)\<rparr>, rcache := cache_apply ev (rcache s)\<rparr>)"

section \<open>Changes as events\<close>

text \<open>Every operation of the source is a sequence of single changes.\<close>

definition emit :: "string \<times> 'v rchange \<Rightarrow> 'v StaticSource \<Rightarrow> 'v StaticSource" where
  "emit x s =
     (let r = srevision s + 1
      in static_broadcast \<lparr>reTenant = fst x, reChange = snd x, reRevision = r\<rparr>
           (s\<lparr>srules := change_map (fst x) (snd x) (srules s), srevision := r\<rparr>))"

fun op_changes :: "'v rules_op \<Rightarrow> 'v StaticSource \<Rightarrow> (string \<times> 'v rchange) list" where
  "op_changes (OpSet t v) s = [(t, Upserted v)]"
| "op_changes (OpDelete t) s = (if srules s t = None then [] else [(t, Deleted)])"
| "op_changes (OpReplace order nxt) s =
     map (\<lambda>t. (t, Deleted)) (filter (\<lambda>t. map_of nxt t = None \<and> srules s t \<noteq> None) order) @ map (\<lambda>(t, v). (t, Upserted v)) nxt"

fun op_ok :: "'v rules_op \<Rightarrow> 'v StaticSource \<Rightarrow> bool" where
  "op_ok (OpReplace order nxt) s \<longleftrightarrow> distinct order \<and> set order = dom (srules s) \<and> distinct (map fst nxt)"
| "op_ok _ s \<longleftrightarrow> True"

lemma emit_simps [simp]:
  "srules (emit x s) = change_map (fst x) (snd x) (srules s)" "srevision (emit x s) = srevision s + 1" "snextW (emit x s) = snextW s"
  by (simp_all add: emit_def static_broadcast_def Let_def)

lemma static_Set_emit: "static_Set t v = emit (t, Upserted v)"
  by (simp add: fun_eq_iff static_Set_def emit_def change_map_def)

lemma static_Delete_emit: "static_Delete t s = (if srules s t = None then s else emit (t, Deleted) s)"
  by (simp add: static_Delete_def emit_def change_map_def)

lemma absent_emit:
  assumes "distinct order"
  shows "fold (replace_absent nxt) order s =
    fold emit (map (\<lambda>t. (t, Deleted)) (filter (\<lambda>t. map_of nxt t = None \<and> srules s t \<noteq> None) order)) s"
  using assms
proof (induction order arbitrary: s)
  case (Cons t ts)
  have keep: "filter (\<lambda>u. map_of nxt u = None \<and> (\<exists>y. change_map t Deleted (srules s) u = Some y)) ts =
      filter (\<lambda>u. map_of nxt u = None \<and> (\<exists>y. srules s u = Some y)) ts"
    using Cons.prems by (intro filter_cong) (auto simp: change_map_def)
  show ?case using Cons by (simp add: replace_absent_def static_Delete_emit keep)
qed simp

lemma do_op_emit: "op_ok x s \<Longrightarrow> do_op x s = fold emit (op_changes x s) s"
  by (cases x)
    (simp_all add: static_Set_emit static_Delete_emit static_Replace_def absent_emit fold_map comp_def case_prod_unfold)

lemma Replace_rules:
  assumes "op_ok (OpReplace order nxt) s"
  shows "srules (static_Replace order nxt s) = map_of nxt"
proof -
  have del: "srules (fold emit (map (\<lambda>t. (t, Deleted)) ts) s) u = (if u \<in> set ts then None else srules s u)" for ts u and s :: "'a StaticSource"
    by (induction ts arbitrary: s) (auto simp: change_map_def)
  have ups: "distinct (map fst xs) \<Longrightarrow> srules (fold emit (map (\<lambda>(t, v). (t, Upserted v)) xs) s) u =
      (case map_of xs u of None \<Rightarrow> srules s u | Some v \<Rightarrow> Some v)" for xs u and s :: "'a StaticSource"
    by (induction xs arbitrary: s) (auto simp: change_map_def split: option.split simp flip: map_of_eq_None_iff)
  show ?thesis
    using do_op_emit [OF assms] assms by (auto simp: fun_eq_iff ups del split: option.split)
qed

section \<open>Lossless runs\<close>

text \<open>
  A run is lossless when no change meets a full buffer of the cache's watch, and the revision does not wrap: an operation
  makes at most as many changes as the buffer has room for.
\<close>

definition fits :: "'v rules_op \<Rightarrow> 'v rsys \<Rightarrow> bool" where
  "fits x s \<longleftrightarrow> op_ok x (rsrc s) \<and> unat (srevision (rsrc s)) + length (op_changes x (rsrc s)) < 2 ^ 64
     \<and> (case phase_watch (rphase s) of
          None \<Rightarrow> True
        | Some i \<Rightarrow> length (the (swatchers (rsrc s) i)) + length (op_changes x (rsrc s)) \<le> staticWatchBuffer)"

inductive lossless :: "'v rsys \<Rightarrow> bool" where
  lossless_start: "lossless \<lparr>rsrc = src, rcache = NewCache, rphase = NotStarted\<rparr>"
| lossless_op: "lossless s \<Longrightarrow> fits x s \<Longrightarrow> lossless (s\<lparr>rsrc := do_op x (rsrc s)\<rparr>)"
| lossless_cache: "lossless s \<Longrightarrow> cache_step s s' \<Longrightarrow> lossless s'"

definition overlay :: "'v REvent list \<Rightarrow> u64 \<Rightarrow> (string \<Rightarrow> 'v option) \<Rightarrow> string \<Rightarrow> 'v option" where
  "overlay buf r m = fold (\<lambda>e. change_map (reTenant e) (reChange e)) (filter (\<lambda>e. r < reRevision e) buf) m"

text \<open>The buffered events are in order and not ahead of the source, and applied to the cache they give the source's rules.\<close>

definition buf_ok :: "'v StaticSource \<Rightarrow> 'v REvent list \<Rightarrow> bool" where
  "buf_ok src buf \<longleftrightarrow> sorted_wrt (\<lambda>a b. reRevision a < reRevision b) buf
     \<and> list_all (\<lambda>e. 0 < reRevision e \<and> reRevision e \<le> srevision src) buf"

definition in_step :: "'v StaticSource \<Rightarrow> 'v REvent list \<Rightarrow> 'v Cache \<Rightarrow> bool" where
  "in_step src buf c \<longleftrightarrow> crev c \<le> srevision src \<and> overlay buf (crev c) (cdata c) = srules src"

definition sync_inv :: "'v rsys \<Rightarrow> bool" where
  "sync_inv s \<longleftrightarrow>
     (case phase_watch (rphase s) of
        None \<Rightarrow> True
      | Some i \<Rightarrow> \<exists>buf. swatchers (rsrc s) i = Some buf \<and> buf_ok (rsrc s) buf
          \<and> (rphase s = Loaded i \<longrightarrow> in_step (rsrc s) buf (rcache s) \<and> cready (rcache s)))"

lemma emit_buf:
  fixes x :: "string \<times> 'v rchange"
  assumes "swatchers src i = Some buf" "length buf < staticWatchBuffer" "srevision src \<noteq> - 1" "buf_ok src buf"
  defines "ev \<equiv> \<lparr>reTenant = fst x, reChange = snd x, reRevision = srevision src + 1\<rparr>"
  shows "swatchers (emit x src) i = Some (buf @ [ev])" "buf_ok (emit x src) (buf @ [ev])"
    "in_step src buf c \<Longrightarrow> in_step (emit x src) (buf @ [ev]) c"
proof -
  have lt: "srevision src < srevision src + 1" by (rule u64_less_Suc [OF assms(3)])
  show "swatchers (emit x src) i = Some (buf @ [ev])"
    using assms(1,2) by (simp add: emit_def static_broadcast_def Let_def ev_def)
  show "buf_ok (emit x src) (buf @ [ev])"
    using assms(4) lt by (auto simp: buf_ok_def sorted_wrt_append list_all_iff ev_def intro: order.strict_trans1 less_imp_le)
  show "in_step (emit x src) (buf @ [ev]) c" if "in_step src buf c"
    using that lt by (auto simp: in_step_def overlay_def ev_def intro: less_imp_le)
qed

lemma emits_buf:
  assumes "swatchers src i = Some buf" "length buf + length xs \<le> staticWatchBuffer" "unat (srevision src) + length xs < 2 ^ 64"
    "buf_ok src buf"
  shows "\<exists>buf'. swatchers (fold emit xs src) i = Some buf' \<and> buf_ok (fold emit xs src) buf'
    \<and> (in_step src buf c \<longrightarrow> in_step (fold emit xs src) buf' c)"
  using assms
proof (induction xs arbitrary: src buf)
  case (Cons x xs)
  let ?ev = "\<lparr>reTenant = fst x, reChange = snd x, reRevision = srevision src + 1\<rparr>"
  have room: "srevision src \<noteq> - 1" using Cons.prems(3) by (intro u64_not_max) simp
  have len: "length buf < staticWatchBuffer" using Cons.prems(2) by simp
  note e = emit_buf [OF Cons.prems(1) len room Cons.prems(4), where x = x]
  have "\<exists>buf'. swatchers (fold emit xs (emit x src)) i = Some buf' \<and> buf_ok (fold emit xs (emit x src)) buf'
      \<and> (in_step (emit x src) (buf @ [?ev]) c \<longrightarrow> in_step (fold emit xs (emit x src)) buf' c)"
    by (rule Cons.IH [OF e(1) _ _ e(2)]) (use Cons.prems(2,3) unat_u64_Suc_le [of "srevision src"] in auto)
  then show ?case using e(3) by auto
qed auto

lemma receive_in_step:
  assumes "buf_ok src (ev # buf)" "in_step src (ev # buf) c"
  shows "in_step src buf (cache_apply ev c)"
proof -
  have gt: "\<forall>e \<in> set buf. reRevision ev < reRevision e" and ev: "0 < reRevision ev" "reRevision ev \<le> srevision src"
    using assms(1) by (auto simp: buf_ok_def)
  show ?thesis
  proof (cases "reRevision ev \<le> crev c")
    case True
    then have "\<not> crev c < reRevision ev" "reRevision ev \<noteq> 0" using ev(1) by auto
    then show ?thesis using True assms(2) by (simp add: in_step_def cache_apply_def overlay_def Let_def)
  next
    case False
    then have "filter (\<lambda>e. crev c < reRevision e) buf = buf" "filter (\<lambda>e. reRevision ev < reRevision e) buf = buf"
      using gt by (auto simp: filter_id_conv)
    moreover have "(reRevision ev \<le> crev c) = False" "(crev c < reRevision ev) = True" using False by auto
    ultimately show ?thesis using assms(2) ev by (simp add: in_step_def cache_apply_def overlay_def Let_def)
  qed
qed

lemma sync_inv_op:
  assumes "sync_inv s" "fits x s"
  shows "sync_inv (s\<lparr>rsrc := do_op x (rsrc s)\<rparr>)"
proof (cases "phase_watch (rphase s)")
  case (Some i)
  then obtain buf where buf: "swatchers (rsrc s) i = Some buf" "buf_ok (rsrc s) buf"
      "rphase s = Loaded i \<longrightarrow> in_step (rsrc s) buf (rcache s) \<and> cready (rcache s)"
    using assms(1) by (auto simp: sync_inv_def)
  let ?xs = "op_changes x (rsrc s)"
  have f: "length buf + length ?xs \<le> staticWatchBuffer" "unat (srevision (rsrc s)) + length ?xs < 2 ^ 64" "op_ok x (rsrc s)"
    using assms(2) Some buf(1) by (auto simp: fits_def)
  show ?thesis using emits_buf [OF buf(1) f(1,2) buf(2), of "rcache s"] buf(3) Some by (auto simp: sync_inv_def do_op_emit [OF f(3)])
qed (simp add: sync_inv_def)

lemma overlay_current: "buf_ok src buf \<Longrightarrow> overlay buf (srevision src) m = m"
proof -
  assume "buf_ok src buf"
  then have "filter (\<lambda>e. srevision src < reRevision e) buf = []" by (auto simp: buf_ok_def list_all_iff filter_empty_conv)
  then show ?thesis by (simp add: overlay_def)
qed

lemma sync_inv_cache: "cache_step s s' \<Longrightarrow> sync_inv s \<Longrightarrow> sync_inv s'"
proof (induction rule: cache_step.induct)
  case (cs_watch s i src)
  then show ?case by (auto simp: sync_inv_def static_Watch_def buf_ok_def)
next
  case (cs_snapshot s i)
  then show ?case by (auto simp: sync_inv_def cache_load_def static_Snapshot_def in_step_def overlay_current)
next
  case (cs_receive s i ev buf)
  then have ok: "buf_ok (rsrc s) (ev # buf)"
    "rphase s = Loaded i \<longrightarrow> in_step (rsrc s) (ev # buf) (rcache s)" by (auto simp: sync_inv_def)
  have tail: "buf_ok (rsrc s) buf" "rphase s = Loaded i \<longrightarrow> in_step (rsrc s) buf (cache_apply ev (rcache s))"
    using ok receive_in_step [OF ok(1)] by (auto simp: buf_ok_def)
  have ready: "cready (cache_apply ev (rcache s))" by (simp add: cache_apply_def Let_def)
  show ?case using cs_receive.hyps(1) tail ready by (auto simp: sync_inv_def buf_ok_def in_step_def)
qed (simp add: sync_inv_def)

lemma lossless_inv: "lossless s \<Longrightarrow> sync_inv s"
  by (induction rule: lossless.induct) (simp_all add: sync_inv_op sync_inv_cache sync_inv_def [of "\<lparr>rsrc = _, rcache = _, rphase = _\<rparr>"])

lemma drain_in_step: "buf_ok src buf \<Longrightarrow> in_step src buf c \<Longrightarrow> in_step src [] (fold cache_apply buf c)"
proof (induction buf arbitrary: c)
  case (Cons ev buf)
  then show ?case using receive_in_step [OF Cons.prems] by (auto simp: buf_ok_def)
qed simp

lemma drained_cache:
  assumes "lossless s" "rphase s = Loaded i" "swatchers (rsrc s) i = Some buf"
  shows "cdata (fold cache_apply buf (rcache s)) = srules (rsrc s) \<and> cready (rcache s)"
  using lossless_inv [OF assms(1)] assms(2,3) drain_in_step [of "rsrc s" buf "rcache s"]
  by (auto simp: sync_inv_def in_step_def overlay_def)

section \<open>The properties of rules distribution\<close>

text \<open>C27: 
  The cache converges. However the changes of the source fall between the opening of the watch, the snapshot and the receipt of
  the events, as long as no change meets a full buffer, a cache that loaded its snapshot is ready and holds exactly the source's
  rules once it has received what is buffered; the events from before the snapshot are skipped by their revision.
\<close>

theorem cache_converges:
  assumes "lossless s" "rphase s = Loaded i" "swatchers (rsrc s) i = Some buf"
  shows "cdata (fold cache_apply buf (rcache s)) = srules (rsrc s) \<and> cready (rcache s)"
  by (rule drained_cache [OF assms])

definition exRun :: "nat rsys" where
  "exRun = \<lparr>rsrc = static_Set ''b'' 3 (static_Set ''a'' 2 (snd (static_Watch NewStaticSource))),
     rcache = cache_load (static_Snapshot (static_Set ''a'' 2 (snd (static_Watch NewStaticSource)))) NewCache, rphase = Loaded 0\<rparr>"

lemma exRun_lossless: "lossless exRun"
proof -
  let ?w = "snd (static_Watch NewStaticSource) :: nat StaticSource"
  have "lossless (\<lparr>rsrc = NewStaticSource, rcache = NewCache, rphase = NotStarted\<rparr> :: nat rsys)" by (rule lossless_start)
  from lossless_cache [OF this cs_watch [of _ 0 ?w]]
  have 1: "lossless \<lparr>rsrc = ?w, rcache = NewCache, rphase = Watching 0\<rparr>" by (simp add: static_Watch_def NewStaticSource_def)
  have "fits (OpSet ''a'' 2) \<lparr>rsrc = ?w, rcache = NewCache, rphase = Watching 0\<rparr>"
    by (simp add: fits_def static_Watch_def NewStaticSource_def staticWatchBuffer_def)
  from lossless_op [OF 1 this]
  have "lossless \<lparr>rsrc = static_Set ''a'' 2 ?w, rcache = NewCache, rphase = Watching 0\<rparr>" by simp
  from lossless_cache [OF this cs_snapshot [of _ 0]]
  have 2: "lossless (exRun\<lparr>rsrc := static_Set ''a'' 2 ?w\<rparr>)" by (simp add: exRun_def)
  have "fits (OpSet ''b'' 3) (exRun\<lparr>rsrc := static_Set ''a'' 2 ?w\<rparr>)"
    by (simp add: exRun_def fits_def static_Watch_def static_Set_def static_broadcast_def NewStaticSource_def staticWatchBuffer_def Let_def)
  from lossless_op [OF 2 this] show ?thesis by (simp add: exRun_def)
qed

theorem cache_converges_witness:
  "lossless exRun \<and> rphase exRun = Loaded 0
    \<and> swatchers (rsrc exRun) 0 = Some [\<lparr>reTenant = ''a'', reChange = Upserted 2, reRevision = 1\<rparr>, \<lparr>reTenant = ''b'', reChange = Upserted 3, reRevision = 2\<rparr>]
    \<and> cdata (fold cache_apply [\<lparr>reTenant = ''a'', reChange = Upserted 2, reRevision = 1\<rparr>, \<lparr>reTenant = ''b'', reChange = Upserted 3, reRevision = 2\<rparr>]
        (rcache exRun)) = [''a'' \<mapsto> 2, ''b'' \<mapsto> 3]"
proof -
  have p: "rphase exRun = Loaded 0" by (simp add: exRun_def)
  have w: "swatchers (rsrc exRun) 0 = Some [\<lparr>reTenant = ''a'', reChange = Upserted 2, reRevision = 1\<rparr>, \<lparr>reTenant = ''b'', reChange = Upserted 3, reRevision = 2\<rparr>]"
    by (simp add: exRun_def static_Watch_def static_Set_def static_broadcast_def NewStaticSource_def staticWatchBuffer_def Let_def)
  have r: "srules (rsrc exRun) = [''a'' \<mapsto> 2, ''b'' \<mapsto> 3]"
    by (simp add: exRun_def static_Watch_def static_Set_def static_broadcast_def NewStaticSource_def Let_def)
  show ?thesis using exRun_lossless p w cache_converges [OF exRun_lossless p w] unfolding r by blast
qed

lemma apply_other: "list_all (\<lambda>e. reTenant e \<noteq> t) evs \<Longrightarrow> cdata (fold cache_apply evs c) t = cdata c t"
proof (induction evs arbitrary: c)
  case (Cons e evs)
  then have "cdata (cache_apply e c) t = cdata c t" by (auto simp: cache_apply_def Let_def change_map_def split: rchange.split)
  then show ?case using Cons by simp
qed simp

text \<open>
  A dropped change stays lost. When a change of a tenant meets a full buffer, the source holds the new ruleset and the buffer
  is as before; whatever the source sends later about other tenants, the cache keeps the old ruleset for that tenant.
\<close>

theorem dropped_change_stays_lost:
  assumes "swatchers src i = Some buf" "length buf = staticWatchBuffer" "list_all (\<lambda>e. reTenant e \<noteq> t) evs"
  shows "swatchers (static_Set t v src) i = Some buf \<and> srules (static_Set t v src) t = Some v
    \<and> cdata (fold cache_apply (buf @ evs) c) t = cdata (fold cache_apply buf c) t"
  using assms apply_other [OF assms(3), of "fold cache_apply buf c"] by (simp add: static_Set_def static_broadcast_def Let_def)

definition exFull :: "nat REvent list" where
  "exFull = replicate 64 \<lparr>reTenant = ''a'', reChange = Upserted 2, reRevision = 1\<rparr>"

theorem dropped_change_stays_lost_witness:
  "length exFull = staticWatchBuffer
    \<and> swatchers (static_Set ''b'' 5 \<lparr>srules = [''b'' \<mapsto> 3], srevision = 1, swatchers = [7 \<mapsto> exFull], snextW = 8\<rparr>) 7 = Some exFull
    \<and> srules (static_Set ''b'' 5 \<lparr>srules = [''b'' \<mapsto> 3], srevision = 1, swatchers = [7 \<mapsto> exFull], snextW = 8\<rparr>) ''b'' = Some 5
    \<and> cdata (fold cache_apply exFull \<lparr>cdata = [''b'' \<mapsto> 3], cready = True, crev = 0\<rparr>) ''b'' = Some 3"
proof -
  have "length exFull = staticWatchBuffer" by (simp add: exFull_def staticWatchBuffer_def)
  moreover have "list_all (\<lambda>e. reTenant e \<noteq> ''b'') exFull" by (simp add: exFull_def list_all_length)
  ultimately show ?thesis
    using dropped_change_stays_lost [of "\<lparr>srules = [''b'' \<mapsto> 3], srevision = 1, swatchers = [7 \<mapsto> exFull], snextW = 8\<rparr>" 7 exFull
        "''b''" "[]" 5 "\<lparr>cdata = [''b'' \<mapsto> 3], cready = True, crev = 0\<rparr>"]
      apply_other [of "''b''" exFull "\<lparr>cdata = [''b'' \<mapsto> 3], cready = True, crev = 0\<rparr>"] by simp
qed

text \<open>
  A load of the file is all or nothing. An unreadable or malformed file leaves the source as it was; a load that finds a new
  modification time, or the first one, makes the source's rules exactly the entries of the file; and the time recorded is the one read
  before the content, so an edit in between is found by the next load.
\<close>

theorem file_load_exact:
  assumes "file_Load io f = (e, f')" "op_ok (OpReplace (mapOrder io) []) (fstatic f)"
    "\<forall>raw nxt. parseJSON io raw = Some nxt \<longrightarrow> distinct (map fst nxt)"
  shows "(e \<noteq> None \<longrightarrow> f' = f)
    \<and> (e = None \<longrightarrow> (floaded f \<and> statResult io = Inr (flastMod f) \<and> f' = f)
        \<or> (\<exists>mt raw nxt. statResult io = Inr mt \<and> readResult io = Inr raw \<and> (if raw = [] then nxt = [] else parseJSON io raw = Some nxt)
            \<and> srules (fstatic f') = map_of nxt \<and> flastMod f' = mt \<and> floaded f'))"
proof -
  have rep: "srules (static_Replace (mapOrder io) nxt (fstatic f)) = map_of nxt" if "distinct (map fst nxt)" for nxt
    using assms(2) that by (intro Replace_rules) simp
  show ?thesis using assms(1)
    by (auto simp: file_Load_def rep assms(3) [rule_format] split: sum.splits option.splits if_splits)
qed

definition exIO :: "string \<Rightarrow> nat file_io" where
  "exIO raw = \<lparr>statResult = Inr 5, readResult = Inr raw, parseJSON = (\<lambda>s. if s = ''ab'' then Some [(''a'', 2), (''b'', 3)] else None), mapOrder = []\<rparr>"

theorem file_load_exact_witness:
  "op_ok (OpReplace (mapOrder (exIO ''ab'')) []) (NewStaticSource :: nat StaticSource)
    \<and> srules (fstatic (snd (file_Load (exIO ''ab'') \<lparr>fstatic = NewStaticSource, flastMod = 0, floaded = False\<rparr>))) = map_of [(''a'', 2), (''b'', 3)]
    \<and> snd (file_Load (exIO ''x'') \<lparr>fstatic = NewStaticSource, flastMod = 0, floaded = False\<rparr>) = \<lparr>fstatic = NewStaticSource, flastMod = 0, floaded = False\<rparr>"
proof -
  let ?f = "\<lparr>fstatic = NewStaticSource, flastMod = 0, floaded = False\<rparr> :: nat FileSource"
  have ok: "op_ok (OpReplace (mapOrder (exIO raw)) []) (fstatic ?f)"
    "\<forall>r nxt. parseJSON (exIO raw) r = Some nxt \<longrightarrow> distinct (map fst nxt)" for raw
    by (simp_all add: exIO_def NewStaticSource_def)
  obtain e f' where l: "file_Load (exIO ''ab'') ?f = (e, f')" by fastforce
  have "e = None" using l by (auto simp: file_Load_def exIO_def)
  with file_load_exact [OF l ok] have 1: "srules (fstatic f') = map_of [(''a'', 2), (''b'', 3)]" by (auto simp: exIO_def)
  obtain e2 f2 where l2: "file_Load (exIO ''x'') ?f = (e2, f2)" by fastforce
  have "e2 \<noteq> None" using l2 by (auto simp: file_Load_def exIO_def)
  with file_load_exact [OF l2 ok] have "f2 = ?f" by simp
  with 1 l l2 ok(1) [of "''ab''"] show ?thesis by simp
qed

end
