(* ===== verification/Featureflags.thy ===== *)
theory Featureflags
  imports Complex_Main Authz Rules
begin

unbundle bit_operations_syntax

text \<open>
  The local feature-flag evaluator, \<^verbatim>\<open>src/featureflags/\<close>, over the rules cache and the principal that the authorization
  interceptor puts on the context. Attribute values carry the text that \<^verbatim>\<open>fmt.Sprint\<close> gives for them; floats are rationals and
  the special values, and the conversions that Go leaves to the implementation are arguments.
\<close>

section \<open>Flags\<close>

datatype fl = Fin rat | Inf bool | NaN

datatype fval = FBool bool | FString string | FInt int | FFloat64 fl | FFloat32 fl | FObject nat

datatype Operator = OpIn | OpNotIn | OpExists | OpOther string

record MatchExpression =
  meKey :: string
  meOp :: Operator
  meValues :: "string list"

record Rule =
  ruVariant :: string
  ruMatch :: "MatchExpression list"
  ruWeight :: int

record Flag =
  flDisabled :: bool
  flDefault :: "fval option"
  flDefaultVariant :: string
  flVariants :: "string \<Rightarrow> fval option"
  flRules :: "Rule list"

type_synonym FlagSet = "string \<Rightarrow> Flag option"

datatype Reason = ReasonStatic | ReasonTargetingMatch | ReasonSplit | ReasonDisabled | ReasonDefault | ReasonError

record 'a Details =
  dValue :: 'a
  dVariant :: string
  dReason :: Reason

section \<open>The evaluation context\<close>

text \<open>The dynamic types \<open>attrStrings\<close> distinguishes; elements and other values by their printed form.\<close>

datatype attr = AttrNil | AttrString string | AttrStrings "string list" | AttrList "string list" | AttrOther string

record evalContext =
  targetingKey :: string
  attributes :: "string \<Rightarrow> attr option"

definition contextFromCtx :: "attr gctx \<Rightarrow> evalContext \<times> string" where
  "contextFromCtx ctx =
     (case principalVal ctx of
        None \<Rightarrow> (\<lparr>targetingKey = [], attributes = Map.empty\<rparr>, [])
      | Some p \<Rightarrow>
          (\<lparr>targetingKey = (if Subject p = [] then pTenant p else Subject p),
            attributes = [''subject'' \<mapsto> AttrString (Subject p), ''tenant'' \<mapsto> AttrString (pTenant p),
              ''groups'' \<mapsto> AttrStrings (Groups p), ''scopes'' \<mapsto> AttrStrings (Scopes p)] ++ Claims p\<rparr>, pTenant p))"

definition attrStrings :: "attr option \<Rightarrow> string list" where
  "attrStrings v =
     (case v of
        None \<Rightarrow> []
      | Some AttrNil \<Rightarrow> []
      | Some (AttrString t) \<Rightarrow> (if t = [] then [] else [t])
      | Some (AttrStrings ts) \<Rightarrow> ts
      | Some (AttrList ts) \<Rightarrow> ts
      | Some (AttrOther t) \<Rightarrow> [t])"

definition anyIn :: "string list \<Rightarrow> string list \<Rightarrow> bool" where
  "anyIn have' want = (if have' = [] \<or> want = [] then False else list_ex (\<lambda>h. List.member want h) have')"

definition matchOne :: "evalContext \<Rightarrow> MatchExpression \<Rightarrow> bool" where
  "matchOne ec ex =
     (let raw = attributes ec (meKey ex)
      in case meOp ex of
           OpExists \<Rightarrow> raw \<noteq> None \<and> attrStrings raw \<noteq> []
         | OpIn \<Rightarrow> anyIn (attrStrings raw) (meValues ex)
         | OpNotIn \<Rightarrow> \<not> anyIn (attrStrings raw) (meValues ex)
         | OpOther _ \<Rightarrow> False)"

fun matchAll :: "evalContext \<Rightarrow> MatchExpression list \<Rightarrow> bool" where
  "matchAll ec [] = True"
| "matchAll ec (ex # exs) = (if \<not> matchOne ec ex then False else matchAll ec exs)"

section \<open>Rollouts\<close>

definition effectiveWeight :: "int \<Rightarrow> int" where
  "effectiveWeight w = (if w \<le> 0 then 100 else w)"

text \<open>FNV-1a, 32 bits.\<close>

definition fnv1a :: "string \<Rightarrow> 32 word" where
  "fnv1a s = fold (\<lambda>c h. (h XOR of_nat (of_char c)) * 16777619) s 2166136261"

definition bucket :: "string \<Rightarrow> string \<Rightarrow> int" where
  "bucket flagKey tk = int (unat (fnv1a (flagKey @ '':'' @ tk)) mod 100)"

definition weightGate :: "string \<Rightarrow> string \<Rightarrow> int \<Rightarrow> bool" where
  "weightGate flagKey tk weight = (let w = effectiveWeight weight in if w \<ge> 100 then True else bucket flagKey tk < w)"

section \<open>Evaluation\<close>

record resolution =
  rvalue :: "fval option"
  rvariant :: string
  rreason :: Reason
  found :: bool

definition not_found :: "Reason \<Rightarrow> resolution" where
  "not_found why = \<lparr>rvalue = None, rvariant = [], rreason = why, found = False\<rparr>"

definition lookupFlagSet :: "(string \<Rightarrow> FlagSet option) \<Rightarrow> string \<Rightarrow> FlagSet option" where
  "lookupFlagSet store tenant =
     (if tenant \<noteq> []
      then (case store tenant of Some fs \<Rightarrow> Some fs | None \<Rightarrow> store [])
      else store [])"

definition flag_default :: "Flag \<Rightarrow> resolution" where
  "flag_default flag =
     (case (if flDefaultVariant flag \<noteq> [] then flVariants flag (flDefaultVariant flag) else None) of
        Some v \<Rightarrow> \<lparr>rvalue = Some v, rvariant = flDefaultVariant flag, rreason = ReasonStatic, found = True\<rparr>
      | None \<Rightarrow>
          (case flDefault flag of
             Some v \<Rightarrow> \<lparr>rvalue = Some v, rvariant = [], rreason = ReasonStatic, found = True\<rparr>
           | None \<Rightarrow> not_found ReasonDefault))"

fun try_rules :: "string \<Rightarrow> evalContext \<Rightarrow> Flag \<Rightarrow> Rule list \<Rightarrow> resolution" where
  "try_rules key ec flag [] = flag_default flag"
| "try_rules key ec flag (r # rs) =
     (if \<not> matchAll ec (ruMatch r) \<or> \<not> weightGate key (targetingKey ec) (ruWeight r) then try_rules key ec flag rs
      else case flVariants flag (ruVariant r) of
             None \<Rightarrow> try_rules key ec flag rs
           | Some v \<Rightarrow>
               \<lparr>rvalue = Some v, rvariant = ruVariant r,
                rreason = (if effectiveWeight (ruWeight r) < 100 then ReasonSplit else ReasonTargetingMatch), found = True\<rparr>)"

definition evaluate :: "(string \<Rightarrow> FlagSet option) \<Rightarrow> attr gctx \<Rightarrow> string \<Rightarrow> resolution" where
  "evaluate store ctx key =
     (case contextFromCtx ctx of
        (ec, tenant) \<Rightarrow>
          (case lookupFlagSet store tenant of
             None \<Rightarrow> not_found ReasonDefault
           | Some fs \<Rightarrow>
               (case fs key of
                  None \<Rightarrow> not_found ReasonDefault
                | Some flag \<Rightarrow> if flDisabled flag then not_found ReasonDisabled else try_rules key ec flag (flRules flag))))"

section \<open>Typed accessors\<close>

definition accessor :: "(fval \<Rightarrow> 'a option) \<Rightarrow> (string \<Rightarrow> FlagSet option) \<Rightarrow> attr gctx \<Rightarrow> string \<Rightarrow> 'a \<Rightarrow> 'a Details" where
  "accessor conv store ctx key d =
     (let r = evaluate store ctx key
      in if \<not> found r then \<lparr>dValue = d, dVariant = [], dReason = rreason r\<rparr>
         else case (case rvalue r of None \<Rightarrow> None | Some v \<Rightarrow> conv v) of
                None \<Rightarrow> \<lparr>dValue = d, dVariant = [], dReason = ReasonError\<rparr>
              | Some v \<Rightarrow> \<lparr>dValue = v, dVariant = rvariant r, dReason = rreason r\<rparr>)"

definition BoolDetails :: "(string \<Rightarrow> FlagSet option) \<Rightarrow> attr gctx \<Rightarrow> string \<Rightarrow> bool \<Rightarrow> bool Details" where
  "BoolDetails = accessor (\<lambda>v. case v of FBool b \<Rightarrow> Some b | _ \<Rightarrow> None)"

definition StringDetails :: "(string \<Rightarrow> FlagSet option) \<Rightarrow> attr gctx \<Rightarrow> string \<Rightarrow> string \<Rightarrow> string Details" where
  "StringDetails = accessor (\<lambda>v. case v of FString s \<Rightarrow> Some s | _ \<Rightarrow> None)"

text \<open>The conversion of a float outside the range of \<^verbatim>\<open>int64\<close> is the argument \<open>oor\<close>.\<close>

definition f2i :: "(fl \<Rightarrow> int) \<Rightarrow> fl \<Rightarrow> int" where
  "f2i oor x = (case x of Fin q \<Rightarrow> if dur_ok \<lfloor>q\<rfloor> then \<lfloor>q\<rfloor> else oor x | _ \<Rightarrow> oor x)"

definition toInt64 :: "(fl \<Rightarrow> int) \<Rightarrow> fval \<Rightarrow> int option" where
  "toInt64 oor v =
     (case v of
        FInt i \<Rightarrow> Some i
      | FFloat64 x \<Rightarrow> (case x of Fin q \<Rightarrow> if q = of_int \<lfloor>q\<rfloor> then Some (f2i oor x) else None | _ \<Rightarrow> None)
      | FFloat32 x \<Rightarrow> (case x of Fin q \<Rightarrow> if q = of_int \<lfloor>q\<rfloor> then Some (f2i oor x) else None | Inf _ \<Rightarrow> Some (f2i oor x) | NaN \<Rightarrow> None)
      | _ \<Rightarrow> None)"

definition toFloat64 :: "(int \<Rightarrow> fl) \<Rightarrow> fval \<Rightarrow> fl option" where
  "toFloat64 i2f v = (case v of FFloat64 x \<Rightarrow> Some x | FFloat32 x \<Rightarrow> Some x | FInt i \<Rightarrow> Some (i2f i) | _ \<Rightarrow> None)"

definition IntDetails :: "(fl \<Rightarrow> int) \<Rightarrow> (string \<Rightarrow> FlagSet option) \<Rightarrow> attr gctx \<Rightarrow> string \<Rightarrow> int \<Rightarrow> int Details" where
  "IntDetails oor = accessor (toInt64 oor)"

definition FloatDetails :: "(int \<Rightarrow> fl) \<Rightarrow> (string \<Rightarrow> FlagSet option) \<Rightarrow> attr gctx \<Rightarrow> string \<Rightarrow> fl \<Rightarrow> fl Details" where
  "FloatDetails i2f = accessor (toFloat64 i2f)"

definition ObjectDetails :: "(string \<Rightarrow> FlagSet option) \<Rightarrow> attr gctx \<Rightarrow> string \<Rightarrow> fval \<Rightarrow> fval Details" where
  "ObjectDetails = accessor Some"

section \<open>The properties of flag evaluation\<close>

definition applies :: "string \<Rightarrow> evalContext \<Rightarrow> Flag \<Rightarrow> Rule \<Rightarrow> bool" where
  "applies key ec flag r \<longleftrightarrow> (\<forall>ex \<in> set (ruMatch r). matchOne ec ex)
     \<and> (ruWeight r \<le> 0 \<or> ruWeight r \<ge> 100 \<or> bucket key (targetingKey ec) < ruWeight r)
     \<and> flVariants flag (ruVariant r) \<noteq> None"

lemma matchAll_iff: "matchAll ec exs \<longleftrightarrow> (\<forall>ex \<in> set exs. matchOne ec ex)"
  by (induction exs) auto

lemma weightGate_iff: "weightGate key tk w \<longleftrightarrow> w \<le> 0 \<or> w \<ge> 100 \<or> bucket key tk < w"
  by (auto simp: weightGate_def effectiveWeight_def Let_def)

lemma try_rules_find:
  "try_rules key ec flag rs =
    (case find (applies key ec flag) rs of
       None \<Rightarrow> flag_default flag
     | Some r \<Rightarrow> \<lparr>rvalue = flVariants flag (ruVariant r), rvariant = ruVariant r,
         rreason = (if 0 < ruWeight r \<and> ruWeight r < 100 then ReasonSplit else ReasonTargetingMatch), found = True\<rparr>)"
  by (induction rs) (auto simp: applies_def matchAll_iff weightGate_iff effectiveWeight_def split: option.split)

text \<open>
  The first applicable rule decides. An enabled flag of the caller's flag set is served from the first rule, in order, all of
  whose expressions match, whose rollout admits the caller and whose variant exists; without one, from the default variant or the
  default value. The lookup of the flag set falls back to the global one, and a disabled or missing flag is never found.
\<close>

theorem flag_selection:
  "evaluate store ctx key =
    (case lookupFlagSet store (snd (contextFromCtx ctx)) of
       None \<Rightarrow> not_found ReasonDefault
     | Some fs \<Rightarrow>
         (case fs key of
            None \<Rightarrow> not_found ReasonDefault
          | Some flag \<Rightarrow>
              if flDisabled flag then not_found ReasonDisabled
              else case find (applies key (fst (contextFromCtx ctx)) flag) (flRules flag) of
                     None \<Rightarrow> flag_default flag
                   | Some r \<Rightarrow> \<lparr>rvalue = flVariants flag (ruVariant r), rvariant = ruVariant r,
                       rreason = (if 0 < ruWeight r \<and> ruWeight r < 100 then ReasonSplit else ReasonTargetingMatch), found = True\<rparr>))"
  by (simp only: evaluate_def try_rules_find case_prod_beta)

text \<open>
  Rollouts only grow. Every caller is in one of a hundred buckets; a caller admitted by a rule stays admitted when the weight
  of the rule is raised, and at a weight of 100 every matching caller is admitted.
\<close>

theorem rollout_monotone:
  assumes "0 < w" "w \<le> w'"
  shows "0 \<le> bucket key tk \<and> bucket key tk < 100
    \<and> (applies key ec flag (r\<lparr>ruWeight := w\<rparr>) \<longrightarrow> applies key ec flag (r\<lparr>ruWeight := w'\<rparr>))
    \<and> (w' \<ge> 100 \<longrightarrow> weightGate key tk w')"
  using assms by (auto simp: applies_def bucket_def weightGate_iff)

definition exFlag :: Flag where
  "exFlag = \<lparr>flDisabled = False, flDefault = Some (FBool False), flDefaultVariant = [], flVariants = [''on'' \<mapsto> FBool True],
     flRules = [\<lparr>ruVariant = ''on'', ruMatch = [\<lparr>meKey = ''groups'', meOp = OpIn, meValues = [''beta'']\<rparr>], ruWeight = 95\<rparr>]\<rparr>"

definition exCaller :: "attr gctx" where
  "exCaller = \<lparr>incomingMD = None, principalVal = Some (zeroPrincipal\<lparr>Subject := ''a'', pTenant := ''t1'', Groups := [''beta'']\<rparr>),
     resourceVal = None, obligationsVal = None\<rparr>"

lemma exBucket: "bucket ''f'' ''a'' = 68"
  by (simp add: bucket_def fnv1a_def)

theorem rollout_monotone_witness:
  "(0 :: int) < 95 \<and> (95 :: int) \<le> 100 \<and> bucket ''f'' ''a'' = 68
    \<and> applies ''f'' (fst (contextFromCtx exCaller)) exFlag ((flRules exFlag ! 0)\<lparr>ruWeight := 100\<rparr>)"
proof -
  have "matchOne (fst (contextFromCtx exCaller)) \<lparr>meKey = ''groups'', meOp = OpIn, meValues = [''beta'']\<rparr>" by code_simp
  then have "applies ''f'' (fst (contextFromCtx exCaller)) exFlag ((flRules exFlag ! 0)\<lparr>ruWeight := 95\<rparr>)"
    using exBucket by (simp add: applies_def exFlag_def exCaller_def contextFromCtx_def)
  then show ?thesis
    using exBucket rollout_monotone [of 95 100 "''f''" "''a''" "fst (contextFromCtx exCaller)" exFlag "flRules exFlag ! 0"] by simp
qed

text \<open>
  Flags follow the source. For a cache that loaded its snapshot in a lossless run, an evaluation after it received the
  buffered events is the evaluation on the source's own flag sets, for every caller and flag.
\<close>

theorem flags_follow_source:
  assumes "lossless s" "rphase s = Loaded i" "swatchers (rsrc s) i = Some buf"
  shows "evaluate (\<lambda>t. cache_Get t (fold cache_apply buf (rcache s))) ctx key = evaluate (\<lambda>t. static_Get t (rsrc s)) ctx key"
  using drained_cache [OF assms] by (simp add: cache_Get_def static_Get_def)

definition exFlagRun :: "FlagSet rsys" where
  "exFlagRun = \<lparr>rsrc = snd (static_Watch (static_Set ''t1'' [''f'' \<mapsto> exFlag] NewStaticSource)),
     rcache = cache_load (static_Snapshot (static_Set ''t1'' [''f'' \<mapsto> exFlag] NewStaticSource)) NewCache, rphase = Loaded 0\<rparr>"

lemma exFlagRun_lossless: "lossless exFlagRun"
proof -
  let ?src = "static_Set ''t1'' [''f'' \<mapsto> exFlag] NewStaticSource"
  from lossless_cache [OF lossless_start [of ?src] cs_watch [of _ 0 "snd (static_Watch ?src)"]]
  have "lossless \<lparr>rsrc = snd (static_Watch ?src), rcache = NewCache, rphase = Watching 0\<rparr>"
    by (simp add: static_Watch_def static_Set_def static_broadcast_def NewStaticSource_def Let_def)
  from lossless_cache [OF this cs_snapshot [of _ 0]] show ?thesis
    by (simp add: exFlagRun_def static_Snapshot_def static_Watch_def)
qed

theorem flags_follow_source_witness:
  "lossless exFlagRun \<and> rphase exFlagRun = Loaded 0 \<and> swatchers (rsrc exFlagRun) 0 = Some []
    \<and> evaluate (\<lambda>t. cache_Get t (rcache exFlagRun)) exCaller ''f'' = evaluate (\<lambda>t. static_Get t (rsrc exFlagRun)) exCaller ''f''"
proof -
  have p: "rphase exFlagRun = Loaded 0" "swatchers (rsrc exFlagRun) 0 = Some []"
    by (simp_all add: exFlagRun_def static_Watch_def static_Set_def static_broadcast_def NewStaticSource_def Let_def)
  show ?thesis using exFlagRun_lossless p flags_follow_source [OF exFlagRun_lossless p, of exCaller "''f''"] by simp
qed

end
