(* ===== verification/Quota.thy ===== *)
theory Quota
  imports Authz
begin

text \<open>
  Usage metering, \<^verbatim>\<open>src/quota/\<close>: the in-memory meter with its reservations (\<^verbatim>\<open>memory.go\<close>), static limits (\<^verbatim>\<open>quota.go\<close>) and the
  interceptor that reserves, runs the handler and commits or releases (\<^verbatim>\<open>interceptor.go\<close>). Counters are 64-bit integers that wrap.
  The formatting of the time is an argument. A reservation is an index into the list of reservations handed out.
\<close>

section \<open>The meter\<close>

record Charge =
  chAccount :: string
  chMetric :: string
  chWindow :: string
  chAmount :: int

text \<open>The limit of an account for a metric: an error, or the limit and whether one is declared.\<close>

type_synonym LimitSource = "string \<Rightarrow> string \<Rightarrow> string + int \<times> bool"

definition StaticLimits :: "(string \<times> (string \<times> int) list) list \<Rightarrow> LimitSource" where
  "StaticLimits byAccount account metric =
     (case map_of byAccount account of
        Some metrics \<Rightarrow> (case map_of metrics metric of Some lim \<Rightarrow> Inr (lim, True) | None \<Rightarrow> Inr (0, False))
      | None \<Rightarrow> Inr (0, False))"

datatype hold = Held | Committed | Released

record memReservation =
  rkey :: string
  ramount :: int
  rstate :: hold

record MemoryMeter =
  used :: "string \<Rightarrow> int"
  reservations :: "memReservation list"

definition NewMemoryMeter :: MemoryMeter where
  "NewMemoryMeter = \<lparr>used = (\<lambda>_. 0), reservations = []\<rparr>"

definition windowBucket :: "(string \<Rightarrow> go_time \<Rightarrow> string) \<Rightarrow> string \<Rightarrow> go_time \<Rightarrow> string" where
  "windowBucket fmt window t =
     (if window = [] \<or> window = ''none'' then []
      else if window = ''minute'' then fmt ''2006-01-02T15:04'' t
      else if window = ''hour'' then fmt ''2006-01-02T15'' t
      else if window = ''day'' then fmt ''2006-01-02'' t
      else if window = ''month'' then fmt ''2006-01'' t
      else window)"

definition meter_key :: "(string \<Rightarrow> go_time \<Rightarrow> string) \<Rightarrow> go_time \<Rightarrow> Charge \<Rightarrow> string" where
  "meter_key fmt tnow c = chAccount c @ ''|'' @ chMetric c @ ''|'' @ windowBucket fmt (chWindow c) tnow"

definition charge_amount :: "Charge \<Rightarrow> int" where
  "charge_amount c = (if chAmount c \<le> 0 then 1 else chAmount c)"

datatype meter_err = LimitErr string | ErrOverLimit

text \<open>\<open>None\<close> is the reservation that does nothing.\<close>

definition Reserve :: "LimitSource \<Rightarrow> (string \<Rightarrow> go_time \<Rightarrow> string) \<Rightarrow> go_time \<Rightarrow> Charge \<Rightarrow> MemoryMeter
    \<Rightarrow> (meter_err + nat option) \<times> MemoryMeter" where
  "Reserve limits fmt tnow c m =
     (case limits (chAccount c) (chMetric c) of
        Inl e \<Rightarrow> (Inl (LimitErr e), m)
      | Inr (limit, has) \<Rightarrow>
          if \<not> has then (Inr None, m)
          else (let amt = charge_amount c; key = meter_key fmt tnow c
                in if wrap64 (used m key + amt) > limit then (Inl ErrOverLimit, m)
                   else (Inr (Some (length (reservations m))),
                         \<lparr>used = (used m)(key := wrap64 (used m key + amt)),
                          reservations = reservations m @ [\<lparr>rkey = key, ramount = amt, rstate = Held\<rparr>]\<rparr>)))"

definition Commit :: "nat option \<Rightarrow> MemoryMeter \<Rightarrow> MemoryMeter" where
  "Commit res m =
     (case res of
        None \<Rightarrow> m
      | Some i \<Rightarrow>
          if i < length (reservations m) \<and> rstate (reservations m ! i) = Held
          then m\<lparr>reservations := (reservations m)[i := (reservations m ! i)\<lparr>rstate := Committed\<rparr>]\<rparr> else m)"

definition Release :: "nat option \<Rightarrow> MemoryMeter \<Rightarrow> MemoryMeter" where
  "Release res m =
     (case res of
        None \<Rightarrow> m
      | Some i \<Rightarrow>
          if i < length (reservations m) \<and> rstate (reservations m ! i) = Held
          then (let r = reservations m ! i; u = wrap64 (used m (rkey r) - ramount r)
                in \<lparr>used = (used m)(rkey r := (if u \<le> 0 then 0 else u)),
                    reservations = (reservations m)[i := r\<lparr>rstate := Released\<rparr>]\<rparr>)
          else m)"

section \<open>The interceptor\<close>

definition lookupQuota :: "MethodRule list option \<Rightarrow> string \<Rightarrow> QuotaRule option" where
  "lookupQuota rs fullMethod =
     (case rs of
        None \<Rightarrow> None
      | Some l \<Rightarrow> (case find (\<lambda>r. mrMethod r = fullMethod) l of None \<Rightarrow> None | Some r \<Rightarrow> mrQuota r))"

text \<open>\<open>tenantID\<close> is what \<^verbatim>\<open>middleware.TenantIDFromContext\<close> returns.\<close>

definition accountFromContext :: "'v gctx \<Rightarrow> string \<Rightarrow> string" where
  "accountFromContext ctx tenantID =
     (case principalVal ctx of Some p \<Rightarrow> if pTenant p \<noteq> [] then pTenant p else tenantID | None \<Rightarrow> tenantID)"

datatype 'e qerr = NoAccount | Exhausted string | MeterError | HandlerErr 'e

definition quota_interceptor :: "LimitSource \<Rightarrow> (string \<Rightarrow> go_time \<Rightarrow> string) \<Rightarrow> MethodRule list option \<Rightarrow> bool \<Rightarrow> go_time
    \<Rightarrow> 'v gctx \<Rightarrow> string \<Rightarrow> string \<Rightarrow> ('s \<Rightarrow> ('e + 'r) \<times> 's) \<Rightarrow> MemoryMeter \<times> 's \<Rightarrow> ('e qerr + 'r) \<times> MemoryMeter \<times> 's" where
  "quota_interceptor limits fmt rs fail_open tnow ctx tenantID m handler s =
     (let pass = (case handler (snd s) of (Inl e, d) \<Rightarrow> (Inl (HandlerErr e), fst s, d) | (Inr r, d) \<Rightarrow> (Inr r, fst s, d))
      in case lookupQuota rs m of
           None \<Rightarrow> pass
         | Some q \<Rightarrow>
             (let account = accountFromContext ctx tenantID
              in if account = [] then (if fail_open then pass else (Inl NoAccount, s))
                 else case Reserve limits fmt tnow \<lparr>chAccount = account, chMetric = Metric q, chWindow = Window q, chAmount = 1\<rparr> (fst s) of
                        (Inl ErrOverLimit, mt) \<Rightarrow> (Inl (Exhausted (Metric q)), mt, snd s)
                      | (Inl (LimitErr e), mt) \<Rightarrow> if fail_open then pass else (Inl MeterError, mt, snd s)
                      | (Inr res, mt) \<Rightarrow>
                          (case handler (snd s) of
                             (Inl e, d) \<Rightarrow> (Inl (HandlerErr e), Release res mt, d)
                           | (Inr r, d) \<Rightarrow> (Inr r, Commit res mt, d))))"

section \<open>Holdings\<close>

text \<open>The units of a key that are held or committed.\<close>

definition holding :: "string \<Rightarrow> memReservation list \<Rightarrow> int" where
  "holding k rs = sum_list (map (\<lambda>r. if rkey r = k \<and> rstate r \<noteq> Released then ramount r else 0) rs)"

datatype meter_op = MReserve go_time Charge | MCommit nat | MRelease nat

definition meter_step :: "LimitSource \<Rightarrow> (string \<Rightarrow> go_time \<Rightarrow> string) \<Rightarrow> meter_op \<Rightarrow> MemoryMeter \<Rightarrow> MemoryMeter" where
  "meter_step limits fmt x m =
     (case x of
        MReserve tnow c \<Rightarrow> snd (Reserve limits fmt tnow c m)
      | MCommit i \<Rightarrow> Commit (Some i) m
      | MRelease i \<Rightarrow> Release (Some i) m)"

text \<open>Charges whose limit is at most \<open>B\<close> of their key; the bound keeps sums inside 64 bits.\<close>

definition meter_allowed :: "LimitSource \<Rightarrow> (string \<Rightarrow> go_time \<Rightarrow> string) \<Rightarrow> (string \<Rightarrow> int) \<Rightarrow> meter_op \<Rightarrow> bool" where
  "meter_allowed limits fmt B x =
     (case x of
        MReserve tnow c \<Rightarrow> chAmount c < 2 ^ 62 \<and>
          (case limits (chAccount c) (chMetric c) of Inr (l, True) \<Rightarrow> l \<le> B (meter_key fmt tnow c) | _ \<Rightarrow> True)
      | _ \<Rightarrow> True)"

definition meter_inv :: "(string \<Rightarrow> int) \<Rightarrow> MemoryMeter \<Rightarrow> bool" where
  "meter_inv B m \<longleftrightarrow> (\<forall>k. used m k = holding k (reservations m) \<and> holding k (reservations m) \<le> B k)
     \<and> (\<forall>r \<in> set (reservations m). ramount r > 0)"

lemma holding_append: "holding k (rs @ [r]) = holding k rs + (if rkey r = k \<and> rstate r \<noteq> Released then ramount r else 0)"
  by (simp add: holding_def)

lemma holding_nonneg: "\<forall>r \<in> set rs. ramount r > 0 \<Longrightarrow> 0 \<le> holding k rs"
  by (induction rs) (auto simp: holding_def)

lemma holding_update:
  assumes "i < length rs"
  shows "holding k (rs[i := r]) = holding k rs - (if rkey (rs ! i) = k \<and> rstate (rs ! i) \<noteq> Released then ramount (rs ! i) else 0)
    + (if rkey r = k \<and> rstate r \<noteq> Released then ramount r else 0)"
  using assms
proof (induction rs arbitrary: i)
  case (Cons a rs)
  then show ?case by (cases i) (auto simp: holding_def)
qed simp

lemma Reserve_cases:
  assumes "Reserve limits fmt tnow c m = (res, m')"
  shows "(m' = m \<and> (\<exists>e. res = Inl e)) \<or> (m' = m \<and> res = Inr None)
    \<or> (\<exists>l. limits (chAccount c) (chMetric c) = Inr (l, True) \<and> wrap64 (used m (meter_key fmt tnow c) + charge_amount c) \<le> l
        \<and> res = Inr (Some (length (reservations m)))
        \<and> m' = \<lparr>used = (used m)(meter_key fmt tnow c := wrap64 (used m (meter_key fmt tnow c) + charge_amount c)),
             reservations = reservations m @ [\<lparr>rkey = meter_key fmt tnow c, ramount = charge_amount c, rstate = Held\<rparr>]\<rparr>)"
  using assms by (auto simp: Reserve_def Let_def split: sum.splits prod.splits if_splits)

lemma Reserve_inv:
  assumes inv: "meter_inv B m" and ok: "meter_allowed limits fmt B (MReserve tnow c)" and B: "\<forall>k. 0 \<le> B k \<and> B k \<le> 2 ^ 62"
  shows "meter_inv B (snd (Reserve limits fmt tnow c m))"
proof -
  obtain res m' where r: "Reserve limits fmt tnow c m = (res, m')" by fastforce
  let ?k = "meter_key fmt tnow c"
  have amt: "0 < charge_amount c" "charge_amount c < 2 ^ 62" using ok by (auto simp: charge_amount_def meter_allowed_def)
  have u: "0 \<le> used m ?k" "used m ?k \<le> 2 ^ 62"
    using inv B holding_nonneg [of "reservations m" ?k] by (auto simp: meter_inv_def intro: order_trans)
  have w: "wrap64 (used m ?k + charge_amount c) = used m ?k + charge_amount c"
    using amt u by (intro wrap64_id) (simp add: dur_ok_def)
  from Reserve_cases [OF r] show ?thesis
  proof (elim disjE exE conjE)
    fix l
    assume l: "limits (chAccount c) (chMetric c) = Inr (l, True)" "wrap64 (used m ?k + charge_amount c) \<le> l"
      "m' = \<lparr>used = (used m)(?k := wrap64 (used m ?k + charge_amount c)),
         reservations = reservations m @ [\<lparr>rkey = ?k, ramount = charge_amount c, rstate = Held\<rparr>]\<rparr>"
    have "l \<le> B ?k" using ok l(1) by (simp add: meter_allowed_def)
    then show ?thesis using inv amt(1) l(2,3) r w by (auto simp: meter_inv_def holding_append)
  qed (use inv r in auto)
qed

lemma Release_inv:
  assumes inv: "meter_inv B m" and B: "\<forall>k. 0 \<le> B k \<and> B k \<le> 2 ^ 62"
  shows "meter_inv B (Release (Some i) m)"
proof (cases "i < length (reservations m) \<and> rstate (reservations m ! i) = Held")
  case True
  let ?r = "reservations m ! i"
  let ?rs = "(reservations m)[i := ?r\<lparr>rstate := Released\<rparr>]"
  have pos: "\<forall>r \<in> set ?rs. ramount r > 0"
    using inv True by (auto simp: meter_inv_def dest!: subsetD [OF set_update_subset_insert])
  have h: "holding k ?rs = holding k (reservations m) - (if rkey ?r = k then ramount ?r else 0)" for k
    using holding_update [of i "reservations m" k "?r\<lparr>rstate := Released\<rparr>"] True by simp
  have eq: "used m (rkey ?r) - ramount ?r = holding (rkey ?r) ?rs" using inv h by (simp add: meter_inv_def)
  have rng: "0 \<le> holding (rkey ?r) ?rs" "holding (rkey ?r) ?rs \<le> 2 ^ 62"
  proof -
    show "0 \<le> holding (rkey ?r) ?rs" by (rule holding_nonneg [OF pos])
    have "ramount ?r > 0" using inv True by (simp add: meter_inv_def)
    moreover have "holding (rkey ?r) (reservations m) \<le> 2 ^ 62" using inv B by (auto simp: meter_inv_def intro: order_trans)
    ultimately show "holding (rkey ?r) ?rs \<le> 2 ^ 62" by (simp add: h)
  qed
  have w: "wrap64 (used m (rkey ?r) - ramount ?r) = holding (rkey ?r) ?rs"
    unfolding eq using rng by (intro wrap64_id) (simp add: dur_ok_def)
  have res: "Release (Some i) m = \<lparr>used = (used m)(rkey ?r := holding (rkey ?r) ?rs), reservations = ?rs\<rparr>"
    using True w rng(1) by (simp add: Release_def Let_def)
  have "ramount ?r > 0" using inv True by (simp add: meter_inv_def)
  then have "holding k ?rs \<le> holding k (reservations m)" for k by (simp add: h)
  then have "holding k ?rs \<le> B k" for k using inv by (auto simp: meter_inv_def intro: order_trans)
  then show ?thesis unfolding res using inv pos h by (auto simp: meter_inv_def)
qed (use inv in \<open>auto simp: Release_def\<close>)

lemma Commit_inv: "meter_inv B m \<Longrightarrow> meter_inv B (Commit (Some i) m)"
proof -
  assume inv: "meter_inv B m"
  have h: "holding k ((reservations m)[i := (reservations m ! i)\<lparr>rstate := Committed\<rparr>]) = holding k (reservations m)"
    if "i < length (reservations m)" "rstate (reservations m ! i) = Held" for k
    using holding_update [OF that(1), of k "(reservations m ! i)\<lparr>rstate := Committed\<rparr>"] that by simp
  show ?thesis using inv
    by (auto simp: Commit_def meter_inv_def h dest!: subsetD [OF set_update_subset_insert])
qed

lemma meter_step_inv:
  assumes "\<forall>k. 0 \<le> B k \<and> B k \<le> 2 ^ 62" "meter_allowed limits fmt B x" "meter_inv B m"
  shows "meter_inv B (meter_step limits fmt x m)"
  using assms by (cases x) (simp_all add: meter_step_def Reserve_inv Release_inv Commit_inv)

interpretation meter: invariant_steps "meter_step limits fmt" "\<lambda>m. (\<forall>k. 0 \<le> B k \<and> B k \<le> 2 ^ 62) \<longrightarrow> meter_inv B m" "meter_allowed limits fmt B"
  for limits fmt B
  by unfold_locales (simp add: meter_step_inv)


definition exCharge :: Charge where
  "exCharge = \<lparr>chAccount = ''t1'', chMetric = ''zones'', chWindow = [], chAmount = 1\<rparr>"

definition exOps :: "meter_op list" where
  "exOps = [MReserve 3 exCharge, MReserve 4 exCharge, MReserve 5 exCharge, MRelease 0, MReserve 6 exCharge, MCommit 1, MRelease 1]"


text \<open>
  A metered call consumes exactly on success. When the account has no unit left, the handler does not run and nothing changes;
  otherwise the handler runs, its error gives the unit back, so that every counter is as before, and its success keeps exactly
  one unit of the counter of the account, metric and window.
\<close>

theorem metered_call:
  assumes q: "lookupQuota rs m = Some q" "accountFromContext ctx tenantID = a" "a \<noteq> []" "limits a (Metric q) = Inr (l, True)"
    and k: "k = meter_key fmt tnow \<lparr>chAccount = a, chMetric = Metric q, chWindow = Window q, chAmount = 1\<rparr>"
    and u: "0 \<le> used mt k" "used mt k < 2 ^ 62"
    and out: "quota_interceptor limits fmt rs fo tnow ctx tenantID m handler (mt, d) = (res, mt', d')"
  shows "if used mt k + 1 > l then res = Inl (Exhausted (Metric q)) \<and> mt' = mt \<and> d' = d
    else case handler d of
           (Inl e, d1) \<Rightarrow> res = Inl (HandlerErr e) \<and> used mt' = used mt \<and> d' = d1
         | (Inr r, d1) \<Rightarrow> res = Inr r \<and> used mt' = (used mt)(k := used mt k + 1) \<and> d' = d1"
proof -
  have w: "wrap64 (used mt k + 1) = used mt k + 1" "wrap64 (used mt k) = used mt k"
    using u by (auto intro!: wrap64_id simp: dur_ok_def)
  show ?thesis
  proof (cases "used mt k + 1 > l")
    case True
    then show ?thesis using out q w k by (auto simp: quota_interceptor_def Reserve_def charge_amount_def Let_def)
  next
    case False
    then show ?thesis using out q w k u
      by (auto simp: quota_interceptor_def Reserve_def charge_amount_def Let_def Release_def Commit_def nth_append
          split: prod.splits sum.splits)
  qed
qed

definition exQuotaRule :: MethodRule where
  "exQuotaRule = \<lparr>mrMethod = ''/Create'', mrVerb = ''create'', mrResource = ''zone'', mrPublic = False, mrFeatures = [], mrMode = [],
     mrQuota = Some \<lparr>Metric = ''zones'', Window = []\<rparr>\<rparr>"

theorem metered_call_witness:
  "lookupQuota (Some [exQuotaRule]) ''/Create'' = Some \<lparr>Metric = ''zones'', Window = []\<rparr>
    \<and> accountFromContext (md_ctx [] :: unit gctx) ''t1'' = ''t1''
    \<and> (\<exists>mt'. quota_interceptor (StaticLimits [(''t1'', [(''zones'', 2)])]) (\<lambda>_ _. []) (Some [exQuotaRule]) False 5 (md_ctx [] :: unit gctx) ''t1''
          ''/Create'' (\<lambda>n. (Inr n, n + 2) :: (unit + nat) \<times> nat) (NewMemoryMeter, 3) = (Inr 3, mt', 5)
        \<and> used mt' = (\<lambda>_. 0)(''t1|zones|'' := 1))"
proof -
  let ?lim = "StaticLimits [(''t1'', [(''zones'', 2)])]"
  let ?out = "quota_interceptor ?lim (\<lambda>_ _. []) (Some [exQuotaRule]) False 5 (md_ctx [] :: unit gctx) ''t1''
          ''/Create'' (\<lambda>n. (Inr n, n + 2) :: (unit + nat) \<times> nat) (NewMemoryMeter, 3)"
  have a: "lookupQuota (Some [exQuotaRule]) ''/Create'' = Some \<lparr>Metric = ''zones'', Window = []\<rparr>" by code_simp
  have b: "accountFromContext (md_ctx [] :: unit gctx) ''t1'' = ''t1''" by (simp add: accountFromContext_def md_ctx_def)
  have k: "''t1|zones|'' = meter_key (\<lambda>_ _. []) 5 \<lparr>chAccount = ''t1'', chMetric = Metric \<lparr>Metric = ''zones'', Window = []\<rparr>,
      chWindow = Window \<lparr>Metric = ''zones'', Window = []\<rparr>, chAmount = 1\<rparr>" by (simp add: meter_key_def windowBucket_def)
  have l: "?lim ''t1'' (Metric \<lparr>Metric = ''zones'', Window = []\<rparr>) = Inr (2, True)" by (simp add: StaticLimits_def)
  have u: "0 \<le> used NewMemoryMeter ''t1|zones|''" "used NewMemoryMeter ''t1|zones|'' < 2 ^ 62" by (simp_all add: NewMemoryMeter_def)
  obtain res mt' d' where o: "?out = (res, mt', d')" by (cases ?out) auto
  show ?thesis using a b o metered_call [OF a b _ l k u o] by (auto simp: NewMemoryMeter_def)
qed

text \<open>
  A large amount wraps the counter. The check adds before it compares: with one unit in use, a charge of \<open>2 ^ 63 - 1\<close> units makes
  the sum negative, so it is admitted against any limit that is not negative, and leaves a negative counter.
\<close>

theorem quota_overflow_admits:
  assumes "0 \<le> l" "limits a q = Inr (l, True)" "used m (meter_key fmt tnow \<lparr>chAccount = a, chMetric = q, chWindow = w, chAmount = 2 ^ 63 - 1\<rparr>) = 1"
  shows "\<exists>i m'. Reserve limits fmt tnow \<lparr>chAccount = a, chMetric = q, chWindow = w, chAmount = 2 ^ 63 - 1\<rparr> m = (Inr (Some i), m')
    \<and> used m' (meter_key fmt tnow \<lparr>chAccount = a, chMetric = q, chWindow = w, chAmount = 2 ^ 63 - 1\<rparr>) = - (2 ^ 63)"
  using assms by (simp add: Reserve_def charge_amount_def wrap64_def Let_def)

theorem quota_overflow_admits_witness:
  "\<exists>i m'. Reserve (StaticLimits [(''t1'', [(''zones'', 2)])]) (\<lambda>_ _. []) 5 \<lparr>chAccount = ''t1'', chMetric = ''zones'', chWindow = [], chAmount = 2 ^ 63 - 1\<rparr>
      (snd (Reserve (StaticLimits [(''t1'', [(''zones'', 2)])]) (\<lambda>_ _. []) 3 exCharge NewMemoryMeter)) = (Inr (Some i), m')
    \<and> used m' (meter_key (\<lambda>_ _. []) 5 \<lparr>chAccount = ''t1'', chMetric = ''zones'', chWindow = [], chAmount = 2 ^ 63 - 1\<rparr>) = - (2 ^ 63)"
  by (rule quota_overflow_admits [of 2])
    (simp_all add: StaticLimits_def Reserve_def exCharge_def charge_amount_def meter_key_def windowBucket_def NewMemoryMeter_def wrap64_def Let_def)

text \<open>Distinct accounts can share a counter: the key joins its parts with a separator that they may contain.\<close>

lemma meter_key_collision:
  "meter_key fmt tnow \<lparr>chAccount = ''a|b'', chMetric = ''c'', chWindow = w, chAmount = x\<rparr>
    = meter_key fmt tnow \<lparr>chAccount = ''a'', chMetric = ''b|c'', chWindow = w, chAmount = y\<rparr>"
  by (simp add: meter_key_def)

end
