(* ===== verification/LRO.thy ===== *)
theory LRO
  imports Prelude
begin

text \<open>
  Long-running operations, \<^verbatim>\<open>src/lro/\<close>: the in-memory store (\<^verbatim>\<open>store.go\<close>), the manager that submits, completes and cancels them
  (\<^verbatim>\<open>manager.go\<close>) and the polling wait (\<^verbatim>\<open>wait.go\<close>). Each store operation holds the store's lock, so it is one step; the
  submitted function and the goroutine that runs it are the separate step \<open>complete\<close>.
\<close>

section \<open>Operations\<close>

datatype lro_err = ErrNotFound | ErrAlreadyDone | ErrCancelled | FnError string | CtxErr string

record 'v Operation =
  opName :: string
  opDone :: bool
  opMetadata :: 'v
  opResponse :: "'v option"
  opErr :: "lro_err option"
  opCreateTime :: go_time
  opUpdateTime :: go_time

definition OperationName :: "string \<Rightarrow> string" where
  "OperationName i = ''operations/'' @ i"

section \<open>The store\<close>

text \<open>An expiry of 0 is Go's zero time: the entry never expires.\<close>

record 'v memoryEntry =
  meOp :: "'v Operation"
  meExpires :: go_time

record 'v MemoryStore =
  entries :: "string \<Rightarrow> 'v memoryEntry option"
  lroTTL :: duration

definition expired :: "go_time \<Rightarrow> 'v memoryEntry \<Rightarrow> bool" where
  "expired tnow e \<longleftrightarrow> \<not> time_is_zero (meExpires e) \<and> tnow > meExpires e"

definition lro_Create :: "'v Operation \<Rightarrow> 'v MemoryStore \<Rightarrow> 'v MemoryStore" where
  "lro_Create x s = s\<lparr>entries := (entries s)(opName x \<mapsto> \<lparr>meOp = x, meExpires = 0\<rparr>)\<rparr>"

definition lro_Get :: "go_time \<Rightarrow> string \<Rightarrow> 'v MemoryStore \<Rightarrow> (lro_err + 'v Operation) \<times> 'v MemoryStore" where
  "lro_Get tnow name s =
     (case entries s name of
        None \<Rightarrow> (Inl ErrNotFound, s)
      | Some e \<Rightarrow> if expired tnow e then (Inl ErrNotFound, s\<lparr>entries := (entries s)(name := None)\<rparr>) else (Inr (meOp e), s))"

definition lro_Update :: "go_time \<Rightarrow> 'v Operation \<Rightarrow> 'v MemoryStore \<Rightarrow> lro_err option \<times> 'v MemoryStore" where
  "lro_Update tnow x s =
     (case entries s (opName x) of
        None \<Rightarrow> (Some ErrNotFound, s)
      | Some e \<Rightarrow>
          if opDone (meOp e) then (None, s)
          else (None, s\<lparr>entries := (entries s)(opName x \<mapsto> \<lparr>meOp = x, meExpires = (if opDone x then tnow + lroTTL s else meExpires e)\<rparr>)\<rparr>))"

definition lro_Cancel :: "go_time \<Rightarrow> string \<Rightarrow> 'v MemoryStore \<Rightarrow> lro_err option \<times> 'v MemoryStore" where
  "lro_Cancel tnow name s =
     (case entries s name of
        None \<Rightarrow> (Some ErrNotFound, s)
      | Some e \<Rightarrow>
          if opDone (meOp e) then (Some ErrAlreadyDone, s)
          else (None, s\<lparr>entries := (entries s)(name \<mapsto>
                  \<lparr>meOp = (meOp e)\<lparr>opDone := True, opErr := Some ErrCancelled, opUpdateTime := tnow\<rparr>, meExpires = tnow + lroTTL s\<rparr>)\<rparr>))"

definition lro_Delete :: "string \<Rightarrow> 'v MemoryStore \<Rightarrow> lro_err option \<times> 'v MemoryStore" where
  "lro_Delete name s = (if entries s name = None then (Some ErrNotFound, s) else (None, s\<lparr>entries := (entries s)(name := None)\<rparr>))"

text \<open>\<open>List\<close> purges what has expired; \<open>order\<close> is the order in which Go ranges over the map.\<close>

definition lro_List :: "go_time \<Rightarrow> string list \<Rightarrow> 'v MemoryStore \<Rightarrow> 'v Operation list \<times> 'v MemoryStore" where
  "lro_List tnow order s =
     (map (\<lambda>n. meOp (the (entries s n))) (filter (\<lambda>n. case entries s n of None \<Rightarrow> False | Some e \<Rightarrow> \<not> expired tnow e) order),
      s\<lparr>entries := (\<lambda>n. case entries s n of None \<Rightarrow> None | Some e \<Rightarrow> if expired tnow e then None else Some e)\<rparr>)"

section \<open>The manager\<close>

text \<open>\<open>cancels\<close> holds the operations whose context can still be cancelled, and \<open>signalled\<close> those whose context was.\<close>

record 'v Manager =
  mstore :: "'v MemoryStore"
  cancels :: "string set"
  signalled :: "string set"

text \<open>\<open>Submit\<close> up to the start of the goroutine; \<open>ctxErr\<close> is the error of the caller's context, \<open>i\<close> the fresh UUID.\<close>

definition Submit :: "string option \<Rightarrow> go_time \<Rightarrow> string \<Rightarrow> 'v \<Rightarrow> 'v Manager \<Rightarrow> (lro_err + 'v Operation) \<times> 'v Manager" where
  "Submit ctxErr tnow i metadata m =
     (case ctxErr of
        Some e \<Rightarrow> (Inl (CtxErr e), m)
      | None \<Rightarrow>
          (let x = \<lparr>opName = OperationName i, opDone = False, opMetadata = metadata, opResponse = None, opErr = None,
                    opCreateTime = tnow, opUpdateTime = tnow\<rparr>
           in (Inr x, m\<lparr>mstore := lro_Create x (mstore m), cancels := insert (opName x) (cancels m)\<rparr>)))"

text \<open>The end of the goroutine, with the result of the submitted function: the update, then the clean-up.\<close>

definition complete :: "go_time \<Rightarrow> 'v Operation \<Rightarrow> string + 'v \<Rightarrow> 'v Manager \<Rightarrow> 'v Manager" where
  "complete tnow x res m =
     (let updated = \<lparr>opName = opName x, opDone = True, opMetadata = opMetadata x,
                     opResponse = (case res of Inl _ \<Rightarrow> None | Inr v \<Rightarrow> Some v),
                     opErr = (case res of Inl e \<Rightarrow> Some (FnError e) | Inr _ \<Rightarrow> None),
                     opCreateTime = opCreateTime x, opUpdateTime = tnow\<rparr>
      in m\<lparr>mstore := snd (lro_Update tnow updated (mstore m)), cancels := cancels m - {opName x}\<rparr>)"

definition manager_Cancel :: "go_time \<Rightarrow> string \<Rightarrow> 'v Manager \<Rightarrow> lro_err option \<times> 'v Manager" where
  "manager_Cancel tnow name m =
     (case lro_Cancel tnow name (mstore m) of
        (Some e, st) \<Rightarrow> (Some e, m\<lparr>mstore := st\<rparr>)
      | (None, st) \<Rightarrow> (None, m\<lparr>mstore := st, signalled := (if name \<in> cancels m then insert name (signalled m) else signalled m)\<rparr>))"

text \<open>
  The polling wait over the states it meets: each poll has its time, the store at that time and, when the context ends before
  the next poll, its error. \<open>None\<close> is a wait that is still polling.
\<close>

fun WaitOperation :: "(go_time \<times> 'v MemoryStore \<times> string option) list \<Rightarrow> string \<Rightarrow> (lro_err + 'v Operation) option" where
  "WaitOperation [] name = None"
| "WaitOperation ((tnow, s, ctxErr) # polls) name =
     (case fst (lro_Get tnow name s) of
        Inl e \<Rightarrow> Some (Inl e)
      | Inr x \<Rightarrow>
          if opDone x then Some (Inr x)
          else case ctxErr of Some e \<Rightarrow> Some (Inl (CtxErr e)) | None \<Rightarrow> WaitOperation polls name)"

section \<open>The properties of long-running operations\<close>

datatype 'v lro_op = LSubmit "string option" go_time string 'v | LComplete go_time "'v Operation" "string + 'v" | LCancel go_time string
  | LGet go_time string | LDelete string | LList go_time "string list"

fun lro_step :: "'v lro_op \<Rightarrow> 'v Manager \<Rightarrow> 'v Manager" where
  "lro_step (LSubmit ce tnow i v) m = snd (Submit ce tnow i v m)"
| "lro_step (LComplete tnow x res) m = complete tnow x res m"
| "lro_step (LCancel tnow name) m = snd (manager_Cancel tnow name m)"
| "lro_step (LGet tnow name) m = m\<lparr>mstore := snd (lro_Get tnow name (mstore m))\<rparr>"
| "lro_step (LDelete name) m = m\<lparr>mstore := snd (lro_Delete name (mstore m))\<rparr>"
| "lro_step (LList tnow order) m = m\<lparr>mstore := snd (lro_List tnow order (mstore m))\<rparr>"

text \<open>The entry of a finished operation may disappear and never changes, and what has disappeared stays away.\<close>

definition keeps :: "string \<Rightarrow> 'v Manager \<Rightarrow> 'v Manager \<Rightarrow> bool" where
  "keeps n m m' \<longleftrightarrow> (case entries (mstore m) n of
     None \<Rightarrow> entries (mstore m') n = None
   | Some e \<Rightarrow> opDone (meOp e) \<longrightarrow> entries (mstore m') n = None \<or> entries (mstore m') n = Some e)"

fun submits :: "string \<Rightarrow> 'v lro_op \<Rightarrow> bool" where
  "submits n (LSubmit ce tnow i v) \<longleftrightarrow> OperationName i = n"
| "submits n _ \<longleftrightarrow> False"

lemma keeps_step: "\<not> submits n x \<Longrightarrow> keeps n m (lro_step x m)"
  by (cases x)
    (auto simp: keeps_def Submit_def complete_def manager_Cancel_def lro_Create_def lro_Get_def lro_Update_def lro_Cancel_def
      lro_Delete_def lro_List_def Let_def split: option.split prod.split)

interpretation lro: monotone_steps lro_step "keeps n" "\<lambda>x. \<not> submits n x" for n
proof
  show "keeps n s s" for s :: "'a Manager" by (simp add: keeps_def split: option.split)
  show "keeps n a c" if "keeps n a b" "keeps n b c" for a b c :: "'a Manager"
    using that by (auto simp: keeps_def split: option.splits)
qed (rule keeps_step)

text \<open>
  The outcome of an operation is final. Once it is done, by its function or by a cancellation, whichever came first, every later
  read finds exactly that outcome or, after its expiry or deletion, nothing; completions, cancellations and reads
  that follow cannot change it, as long as its name is not submitted again.
\<close>

theorem lro_outcome_final:
  assumes "entries (mstore m) n = Some e" "opDone (meOp e)" "\<forall>x \<in> set xs. \<not> submits n x"
  shows "fst (lro_Get tnow n (mstore (fold lro_step xs m))) \<in> {Inl ErrNotFound, Inr (meOp e)}"
  using lro.run [OF assms(3), of m] assms(1,2) by (auto simp: keeps_def lro_Get_def split: if_splits)

definition exManager :: "nat Manager" where
  "exManager = snd (Submit None 3 ''u'' 7 \<lparr>mstore = \<lparr>entries = Map.empty, lroTTL = 50\<rparr>, cancels = {}, signalled = {}\<rparr>)"

definition exOperation :: "nat Operation" where
  "exOperation = \<lparr>opName = ''operations/u'', opDone = False, opMetadata = 7, opResponse = None, opErr = None, opCreateTime = 3, opUpdateTime = 3\<rparr>"

theorem lro_outcome_final_witness:
  "list_all (\<lambda>x. \<not> submits ''operations/u'' x) [LComplete 6 exOperation (Inr 9)]
    \<and> fst (lro_Get 8 ''operations/u'' (mstore (fold lro_step [LComplete 6 exOperation (Inr 9)] (snd (manager_Cancel 5 ''operations/u'' exManager)))))
      = Inr (exOperation\<lparr>opDone := True, opErr := Some ErrCancelled, opUpdateTime := 5\<rparr>)"
proof -
  let ?m = "snd (manager_Cancel 5 ''operations/u'' exManager)"
  let ?e = "\<lparr>meOp = exOperation\<lparr>opDone := True, opErr := Some ErrCancelled, opUpdateTime := 5\<rparr>, meExpires = 55\<rparr>"
  have e: "entries (mstore ?m) ''operations/u'' = Some ?e"
    by (simp add: manager_Cancel_def exManager_def Submit_def OperationName_def lro_Cancel_def lro_Create_def exOperation_def Let_def)
  have x: "\<forall>x \<in> set [LComplete 6 exOperation (Inr 9)]. \<not> submits ''operations/u'' x" by simp
  have found: "fst (lro_Get 8 ''operations/u'' (mstore (fold lro_step [LComplete 6 exOperation (Inr 9)] ?m))) \<noteq> Inl ErrNotFound"
    using e by (simp add: complete_def lro_Update_def lro_Get_def expired_def exOperation_def Let_def)
  show ?thesis using lro_outcome_final [OF e _ x, of 8] found by (simp add: list_all_iff)
qed

text \<open>
  A wait ends with the operation. If the operation is done in the store of some poll, not expired, and known at all polls before it
  without an end of the context, the wait returns it.
\<close>

theorem wait_returns_outcome:
  assumes "\<forall>p \<in> set pre. \<exists>x. fst (lro_Get (fst p) n (fst (snd p))) = Inr x \<and> \<not> opDone x \<and> snd (snd p) = None"
    "fst (lro_Get tnow n s) = Inr x" "opDone x"
  shows "WaitOperation (pre @ (tnow, s, ce) # post) n = Some (Inr x)"
  using assms by (induction pre) auto

end
