(* ===== verification/Toposort.thy ===== *)
theory Toposort
  imports Prelude "HOL-Library.Multiset"
begin

text \<open>
  The import order of \<^verbatim>\<open>src/persistence/upsert.go\<close>: \<open>TopoSort\<close>, Kahn's algorithm over the natural keys of a batch. The arrays of
  in-degrees and children are lists; \<open>None\<close> is a loop that has not ended within its fuel, which is shown not to happen.
\<close>

section \<open>The algorithm\<close>

fun index_from :: "nat \<Rightarrow> ('t \<Rightarrow> string) \<Rightarrow> 't list \<Rightarrow> (string \<Rightarrow> nat option) \<Rightarrow> string \<Rightarrow> nat option" where
  "index_from i keyOf [] m = m"
| "index_from i keyOf (x # xs) m = index_from (Suc i) keyOf xs (m(keyOf x \<mapsto> i))"

definition idxByKey :: "('t \<Rightarrow> string) \<Rightarrow> 't list \<Rightarrow> string \<Rightarrow> nat option" where
  "idxByKey keyOf items = index_from 0 keyOf items Map.empty"

text \<open>The arrays \<open>indeg\<close> and \<open>children\<close>.\<close>

type_synonym arrays = "nat list \<times> nat list list"

definition add_dep :: "(string \<Rightarrow> nat option) \<Rightarrow> nat \<Rightarrow> string \<Rightarrow> arrays \<Rightarrow> arrays" where
  "add_dep idx child dep a =
     (case idx dep of
        None \<Rightarrow> a
      | Some parent \<Rightarrow>
          if parent = child then a
          else ((fst a)[child := fst a ! child + 1], (snd a)[parent := snd a ! parent @ [child]]))"

definition build_edges :: "('t \<Rightarrow> string) \<Rightarrow> ('t \<Rightarrow> string list) \<Rightarrow> 't list \<Rightarrow> arrays" where
  "build_edges keyOf dependsOn items =
     fold (\<lambda>child. fold (add_dep (idxByKey keyOf items) child) (dependsOn (items ! child))) [0..<length items]
       (replicate (length items) 0, replicate (length items) [])"

definition relax :: "nat \<Rightarrow> nat list \<times> nat list \<Rightarrow> nat list \<times> nat list" where
  "relax c s =
     (let indeg = (fst s)[c := fst s ! c - 1] in (indeg, if indeg ! c = 0 then snd s @ [c] else snd s))"

fun kahn :: "nat \<Rightarrow> nat list list \<Rightarrow> nat list \<Rightarrow> nat list \<Rightarrow> nat list \<Rightarrow> nat list option" where
  "kahn fuel children indeg [] out = Some out"
| "kahn 0 children indeg (i # queue) out = None"
| "kahn (Suc fuel) children indeg (i # queue) out =
     (case fold relax (children ! i) (indeg, queue) of (indeg', queue') \<Rightarrow> kahn fuel children indeg' queue' (out @ [i]))"

datatype topo_err = ErrCycle

definition TopoSort :: "'t list \<Rightarrow> ('t \<Rightarrow> string) \<Rightarrow> ('t \<Rightarrow> string list) \<Rightarrow> (topo_err + 't list) option" where
  "TopoSort items keyOf dependsOn =
     (case build_edges keyOf dependsOn items of
        (indeg, children) \<Rightarrow>
          (case kahn (length items) children indeg (filter (\<lambda>i. indeg ! i = 0) [0..<length items]) [] of
             None \<Rightarrow> None
           | Some out \<Rightarrow> if length out \<noteq> length items then Some (Inl ErrCycle) else Some (Inr (map (\<lambda>i. items ! i) out))))"

section \<open>The dependency graph\<close>

text \<open>\<open>(p, c)\<close>: item \<open>c\<close> references the key whose last holder is item \<open>p\<close>.\<close>

definition dep_rel :: "('t \<Rightarrow> string) \<Rightarrow> ('t \<Rightarrow> string list) \<Rightarrow> 't list \<Rightarrow> (nat \<times> nat) set" where
  "dep_rel keyOf dependsOn items =
     {(p, c). c < length items \<and> p \<noteq> c \<and> (\<exists>dep \<in> set (dependsOn (items ! c)). idxByKey keyOf items dep = Some p)}"

text \<open>Arrays of a multigraph on \<open>n\<close> nodes: the in-degree counts the occurrences in the lists of children.\<close>

definition arrays_ok :: "nat \<Rightarrow> arrays \<Rightarrow> bool" where
  "arrays_ok n a \<longleftrightarrow> length (fst a) = n \<and> length (snd a) = n \<and> (\<forall>p < n. set (snd a ! p) \<subseteq> {..<n})
     \<and> (\<forall>c < n. fst a ! c = (\<Sum>p < n. count_list (snd a ! p) c))"

definition edges :: "nat \<Rightarrow> arrays \<Rightarrow> (nat \<times> nat) set" where
  "edges n a = {(p, c). p < n \<and> c \<in> set (snd a ! p)}"

lemma index_from_range: "index_from i keyOf xs m k = Some j \<Longrightarrow> (\<And>j. m k = Some j \<Longrightarrow> j < i) \<Longrightarrow> j < i + length xs"
proof (induction xs arbitrary: i m)
  case (Cons x xs)
  have "index_from (Suc i) keyOf xs (m(keyOf x \<mapsto> i)) k = Some j" using Cons.prems(1) by simp
  moreover have "j' < Suc i" if "(m(keyOf x \<mapsto> i)) k = Some j'" for j'
    using that Cons.prems(2) [of j'] by (simp split: if_splits)
  ultimately have "j < Suc i + length xs" by (rule Cons.IH)
  then show ?case by simp
qed simp

lemma idxByKey_range: "idxByKey keyOf items k = Some p \<Longrightarrow> p < length items"
  using index_from_range [of 0 keyOf items Map.empty k p] by (simp add: idxByKey_def)

lemma add_dep_ok:
  assumes "arrays_ok n a" "child < n" "\<And>p. idx dep = Some p \<Longrightarrow> p < n"
  shows "arrays_ok n (add_dep idx child dep a)"
    "edges n (add_dep idx child dep a) = edges n a \<union> {(p, c). idx dep = Some p \<and> p \<noteq> child \<and> c = child}"
proof -
  have upd: "count_list (ys[p := ys ! p @ [child]] ! q) c = count_list (ys ! q) c + (if q = p \<and> c = child then 1 else 0)"
    if "p < length ys" for ys :: "nat list list" and p q c
    using that by (cases "q = p") (simp_all add: nth_list_update_neq)
  show "arrays_ok n (add_dep idx child dep a)"
  proof (cases "idx dep")
    case (Some p)
    then have p: "p < n" using assms(3) by blast
    show ?thesis
    proof (cases "p = child")
      case False
      have "(\<Sum>q < n. count_list ((snd a)[p := snd a ! p @ [child]] ! q) c) =
          (\<Sum>q < n. count_list (snd a ! q) c) + (if c = child then 1 else 0)" for c
        using p assms(1) by (simp add: upd arrays_ok_def sum.distrib flip: of_bool_def)
      then show ?thesis using assms(1,2) Some False p
        by (auto simp: arrays_ok_def add_dep_def nth_list_update)
    qed (use assms(1) Some in \<open>simp add: add_dep_def\<close>)
  qed (use assms(1) in \<open>simp add: add_dep_def\<close>)
  show "edges n (add_dep idx child dep a) = edges n a \<union> {(p, c). idx dep = Some p \<and> p \<noteq> child \<and> c = child}"
    using assms by (auto simp: edges_def add_dep_def arrays_ok_def nth_list_update split: option.splits if_splits)
qed

lemma add_deps_ok:
  assumes "arrays_ok n a" "child < n" "\<And>dep p. idx dep = Some p \<Longrightarrow> p < n"
  shows "arrays_ok n (fold (add_dep idx child) deps a)
    \<and> edges n (fold (add_dep idx child) deps a) = edges n a \<union> {(p, c). c = child \<and> p \<noteq> c \<and> (\<exists>dep \<in> set deps. idx dep = Some p)}"
  using assms(1)
proof (induction deps arbitrary: a)
  case (Cons dep deps)
  have idx: "p < n" if "idx dep = Some p" for p by (rule assms(3) [OF that])
  note one = add_dep_ok [where idx = idx and dep = dep, OF Cons.prems assms(2) idx]
  have one2: "edges n (add_dep idx child dep a) = edges n a \<union> {(p, c). idx dep = Some p \<and> p \<noteq> child \<and> c = child}"
    by (rule one(2))
  show ?case using Cons.IH [OF one(1)] by (auto simp: one2)
qed simp

lemma build_edges_ok:
  fixes items :: "'t list"
  defines "n \<equiv> length items"
  shows "arrays_ok n (build_edges keyOf dependsOn items)" "edges n (build_edges keyOf dependsOn items) = dep_rel keyOf dependsOn items"
proof -
  let ?idx = "idxByKey keyOf items"
  have fin: "arrays_ok n (fold (\<lambda>child. fold (add_dep ?idx child) (dependsOn (items ! child))) cs a)
      \<and> edges n (fold (\<lambda>child. fold (add_dep ?idx child) (dependsOn (items ! child))) cs a) =
        edges n a \<union> {(p, c). c \<in> set cs \<and> p \<noteq> c \<and> (\<exists>dep \<in> set (dependsOn (items ! c)). ?idx dep = Some p)}"
    if "arrays_ok n a" "set cs \<subseteq> {..<n}" for cs a
    using that
  proof (induction cs arbitrary: a)
    case (Cons c cs)
    have "arrays_ok n (fold (add_dep ?idx c) (dependsOn (items ! c)) a)
      \<and> edges n (fold (add_dep ?idx c) (dependsOn (items ! c)) a) =
        edges n a \<union> {(p, c'). c' = c \<and> p \<noteq> c' \<and> (\<exists>dep \<in> set (dependsOn (items ! c)). ?idx dep = Some p)}"
      by (rule add_deps_ok [OF Cons.prems(1)]) (use Cons.prems(2) idxByKey_range in \<open>auto simp: n_def\<close>)
    then show ?case using Cons.IH [of "fold (add_dep ?idx c) (dependsOn (items ! c)) a"] Cons.prems(2) by auto
  qed simp
  have start: "arrays_ok n (replicate n 0, replicate n [])" "edges n (replicate n 0, replicate n []) = {}"
    by (auto simp: arrays_ok_def edges_def)
  have all: "set [0..<n] \<subseteq> {..<n}" by auto
  show "arrays_ok n (build_edges keyOf dependsOn items)" "edges n (build_edges keyOf dependsOn items) = dep_rel keyOf dependsOn items"
    using fin [OF start(1) all] unfolding start(2) by (auto simp: build_edges_def n_def dep_rel_def)
qed

section \<open>The loop\<close>

lemma relax_fold:
  assumes "\<forall>c \<in> set cs. c < length indeg" "\<forall>c. count_list cs c \<le> (if c < length indeg then indeg ! c else 0)"
  shows "\<exists>indeg' new. fold relax cs (indeg, queue) = (indeg', queue @ new) \<and> length indeg' = length indeg
    \<and> (\<forall>c < length indeg. indeg' ! c = indeg ! c - count_list cs c)
    \<and> distinct new \<and> set new = {c \<in> set cs. indeg ! c = count_list cs c}"
  using assms
proof (induction cs arbitrary: indeg queue)
  case (Cons c cs)
  let ?i = "indeg[c := indeg ! c - 1]"
  let ?q = "if indeg ! c - 1 = 0 then queue @ [c] else queue"
  have c: "c < length indeg" using Cons.prems(1) by simp
  have cnt: "count_list cs d \<le> (if d < length ?i then ?i ! d else 0)" for d
    using Cons.prems(2) [rule_format, of d] c by (auto simp: nth_list_update split: if_splits)
  have pos: "indeg ! c > 0" using Cons.prems(2) [rule_format, of c] c by simp
  have "\<forall>d \<in> set cs. d < length ?i" using Cons.prems(1) by simp
  then obtain indeg' new where ih: "fold relax cs (?i, ?q) = (indeg', ?q @ new)" "length indeg' = length indeg"
      "\<forall>d < length indeg. indeg' ! d = ?i ! d - count_list cs d" "distinct new" "set new = {d \<in> set cs. ?i ! d = count_list cs d}"
    using Cons.IH [of ?i ?q] cnt by auto
  have step: "fold relax (c # cs) (indeg, queue) = fold relax cs (?i, ?q)" using c by (simp add: relax_def Let_def)
  have val: "\<forall>d < length indeg. indeg' ! d = indeg ! d - count_list (c # cs) d" using ih(3) c by (auto simp: nth_list_update)
  show ?case
  proof (cases "indeg ! c - 1 = 0")
    case True
    then have "count_list cs c = 0" using cnt [of c] c by simp
    then have nc: "c \<notin> set cs" by (simp add: count_list_0_iff)
    have "set (c # new) = {d \<in> set (c # cs). indeg ! d = count_list (c # cs) d}"
      unfolding list.set(2) [of c new] ih(5) using True pos nc c by (auto simp: nth_list_update count_list_0_iff)
    moreover have "distinct (c # new)" using ih(4,5) nc by simp
    ultimately show ?thesis using step ih(1,2) val True by (intro exI [of _ indeg'] exI [of _ "c # new"]) simp
  next
    case False
    have "set new = {d \<in> set (c # cs). indeg ! d = count_list (c # cs) d}"
    proof -
      have "indeg ! c = Suc (count_list cs c) \<longleftrightarrow> indeg ! c - 1 = count_list cs c" using pos by auto
      moreover have "c \<in> set cs" if "indeg ! c - 1 = count_list cs c"
        using that False by (metis count_list_0_iff)
      ultimately show ?thesis unfolding ih(5) using c by (auto simp: nth_list_update)
    qed
    then show ?thesis using step ih(1,2,4) val False by (intro exI [of _ indeg'] exI [of _ new]) simp
  qed
qed auto

text \<open>
  The invariant of the loop: the processed and the queued nodes are distinct and are exactly the nodes whose remaining
  in-degree, counted over the nodes not yet processed, is zero; and the parents of a processed node come before it.
\<close>

definition open_degree :: "nat \<Rightarrow> nat list list \<Rightarrow> nat list \<Rightarrow> nat \<Rightarrow> nat" where
  "open_degree n children out c = (\<Sum>p \<in> {..<n} - set out. count_list (children ! p) c)"

definition parents_first :: "(nat \<times> nat) set \<Rightarrow> nat list \<Rightarrow> bool" where
  "parents_first E xs \<longleftrightarrow> (\<forall>k < length xs. \<forall>p. (p, xs ! k) \<in> E \<longrightarrow> p \<in> set (take k xs))"

definition kahn_inv :: "nat \<Rightarrow> arrays \<Rightarrow> nat list \<Rightarrow> nat list \<Rightarrow> nat list \<Rightarrow> bool" where
  "kahn_inv n a indeg queue out \<longleftrightarrow> length indeg = n \<and> distinct (out @ queue) \<and> set (out @ queue) = {c. c < n \<and> indeg ! c = 0}
     \<and> (\<forall>c < n. indeg ! c = open_degree n (snd a) out c) \<and> parents_first (edges n a) out"

lemma parents_first_snoc:
  assumes "parents_first E xs" "\<And>p. (p, i) \<in> E \<Longrightarrow> p \<in> set xs"
  shows "parents_first E (xs @ [i])"
  unfolding parents_first_def
proof (intro allI impI)
  fix k p assume k: "k < length (xs @ [i])" and e: "(p, (xs @ [i]) ! k) \<in> E"
  show "p \<in> set (take k (xs @ [i]))"
  proof (cases "k < length xs")
    case True
    then show ?thesis using assms(1) e by (simp add: parents_first_def nth_append)
  next
    case False
    then show ?thesis using assms(2) e k by (simp add: nth_append)
  qed
qed

lemma open_degree_snoc:
  assumes "i < n" "i \<notin> set out"
  shows "open_degree n children out c = count_list (children ! i) c + open_degree n children (out @ [i]) c"
proof -
  have "{..<n} - set (out @ [i]) = {..<n} - set out - {i}" by auto
  then show ?thesis unfolding open_degree_def using assms by (simp add: sum.remove)
qed

lemma open_degree_0:
  assumes "open_degree n (snd a) out c = 0" "(p, c) \<in> edges n a"
  shows "p \<in> set out"
  using assms by (fastforce simp: open_degree_def edges_def count_list_0_iff)

lemma kahn_inv_step:
  assumes a: "arrays_ok n a" and inv: "kahn_inv n a indeg (i # queue) out"
    and step: "fold relax (snd a ! i) (indeg, queue) = (indeg', queue')"
  shows "kahn_inv n a indeg' queue' (out @ [i])"
proof -
  let ?cs = "snd a ! i"
  have len: "length indeg = n" and i: "i < n" "i \<notin> set out" "indeg ! i = 0"
    and zero: "set (out @ i # queue) = {c. c < n \<and> indeg ! c = 0}" and dist: "distinct (out @ i # queue)"
    and deg: "\<And>c. c < n \<Longrightarrow> indeg ! c = open_degree n (snd a) out c" and first: "parents_first (edges n a) out"
    using inv by (auto simp: kahn_inv_def)
  have split: "indeg ! c = count_list ?cs c + open_degree n (snd a) (out @ [i]) c" if "c < n" for c
    using deg [OF that] open_degree_snoc [OF i(1,2)] by simp
  have cs: "\<forall>c \<in> set ?cs. c < length indeg" using a i(1) len by (auto simp: arrays_ok_def)
  have "count_list ?cs c \<le> (if c < length indeg then indeg ! c else 0)" for c
    using split [of c] cs len by (auto simp: count_list_0_iff)
  then obtain new where r: "queue' = queue @ new" "length indeg' = n" "\<forall>c < n. indeg' ! c = indeg ! c - count_list ?cs c"
      "distinct new" "set new = {c \<in> set ?cs. indeg ! c = count_list ?cs c}"
    using relax_fold [OF cs, of queue] step len by auto
  have deg': "indeg' ! c = open_degree n (snd a) (out @ [i]) c" if "c < n" for c using r(3) split that by simp
  have fresh: "indeg ! c \<noteq> 0" if "c \<in> set ?cs" for c
    using split [of c] cs len that by (auto simp: count_list_0_iff)
  have "set new \<inter> set (out @ i # queue) = {}" using fresh unfolding zero r(5) by (metis (mono_tags, lifting) disjoint_iff mem_Collect_eq)
  then have d: "distinct ((out @ [i]) @ queue')" unfolding r(1) using dist r(4) by auto
  have "set ((out @ [i]) @ queue') = {c. c < n \<and> indeg ! c = 0} \<union> set new" unfolding r(1) using zero by auto
  also have "\<dots> = {c. c < n \<and> indeg' ! c = 0}"
    unfolding r(5) using r(3) split cs len by (auto simp: count_list_0_iff)
  finally have z: "set ((out @ [i]) @ queue') = {c. c < n \<and> indeg' ! c = 0}" .
  have "parents_first (edges n a) (out @ [i])"
    using first deg [OF i(1)] i(3) open_degree_0 [of n a out i] by (intro parents_first_snoc) auto
  then show ?thesis using r(2) d z deg' by (simp add: kahn_inv_def)
qed

lemma kahn_ends:
  assumes "arrays_ok n a" "kahn_inv n a indeg queue out" "length out + fuel \<ge> n"
  shows "\<exists>indeg' out'. kahn fuel (snd a) indeg queue out = Some out' \<and> kahn_inv n a indeg' [] out'"
  using assms(2,3)
proof (induction fuel "snd a" indeg queue out rule: kahn.induct)
  case (2 indeg i queue out)
  have "distinct (out @ i # queue)" "set (out @ i # queue) \<subseteq> {..<n}" using "2.prems"(1) by (auto simp: kahn_inv_def)
  then have "length (out @ i # queue) \<le> n" by (metis card_lessThan card_mono distinct_card finite_lessThan)
  then show ?case using "2.prems"(2) by simp
next
  case (3 fuel indeg i queue out)
  obtain indeg' queue' where r: "fold relax (snd a ! i) (indeg, queue) = (indeg', queue')" by fastforce
  from "3.hyps" [OF r [symmetric] kahn_inv_step [OF assms(1) "3.prems"(1) r]] "3.prems"(2) r
  show ?case by simp
qed auto

lemma kahn_start:
  assumes "arrays_ok n a"
  shows "kahn_inv n a (fst a) (filter (\<lambda>i. fst a ! i = 0) [0..<n]) []"
  using assms by (auto simp: kahn_inv_def arrays_ok_def open_degree_def parents_first_def)

lemma acyclic_if_first:
  assumes "parents_first E out" "distinct out" "\<And>p c. (p, c) \<in> E \<Longrightarrow> c \<in> set out"
  shows "acyclic E"
proof -
  define f where "f = inv_into {..<length out} (\<lambda>k. out ! k)"
  have f: "f (out ! k) = k" if "k < length out" for k
    unfolding f_def using that assms(2) by (intro inv_into_f_f) (auto intro!: inj_onI simp: nth_eq_iff_index_eq)
  have "f p < f c" if e: "(p, c) \<in> E" for p c
  proof -
    obtain k where k: "k < length out" "c = out ! k" using assms(3) [OF e] by (auto simp: in_set_conv_nth)
    then have "p \<in> set (take k out)" using assms(1) e by (auto simp: parents_first_def)
    then obtain j where "j < k" "p = out ! j" using k(1) by (auto simp: in_set_conv_nth)
    then show ?thesis using f k by simp
  qed
  then have "E \<subseteq> measure f" by auto
  then show ?thesis using wf_acyclic [OF wf_measure] by (rule acyclic_subset [rotated])
qed

lemma stuck_is_cyclic:
  assumes inv: "kahn_inv n a indeg [] out" and more: "length out \<noteq> n" and a: "arrays_ok n a"
  shows "\<not> acyclic (edges n a)"
proof
  assume ac: "acyclic (edges n a)"
  let ?S = "{..<n} - set out"
  have "edges n a \<subseteq> {..<n} \<times> {..<n}" using a by (auto simp: edges_def arrays_ok_def)
  then have "wf (edges n a)" using ac by (metis finite_SigmaI finite_acyclic_wf finite_lessThan finite_subset)
  moreover have "?S \<noteq> {}"
  proof
    assume "?S = {}"
    then have "set out = {..<n}" using inv by (auto simp: kahn_inv_def)
    then show False using inv more by (metis card_lessThan distinct_card kahn_inv_def append_Nil2)
  qed
  ultimately obtain z where z: "z \<in> ?S" "\<And>y. (y, z) \<in> edges n a \<Longrightarrow> y \<notin> ?S" by (metis wfE_min ex_in_conv)
  then have "indeg ! z \<noteq> 0" "indeg ! z = open_degree n (snd a) out z" using inv by (auto simp: kahn_inv_def)
  then obtain p where "p \<in> ?S" "count_list (snd a ! p) z \<noteq> 0"
    unfolding open_degree_def by (metis (no_types, lifting) sum.neutral)
  then have "(p, z) \<in> edges n a" by (auto simp: edges_def count_list_0_iff)
  then show False using z(2) \<open>p \<in> ?S\<close> by blast
qed

text \<open>C34: 
  The import order is correct and the cycle error exact. The sort always ends; it reports a cycle exactly when the references
  among the items of the batch have one, and otherwise returns every item once, each after the items that its references name.
  References to keys outside the batch and of an item to itself do not count, and a key held twice names its last holder.
\<close>

theorem toposort_correct:
  "case TopoSort items keyOf dependsOn of
     None \<Rightarrow> False
   | Some (Inl e) \<Rightarrow> e = ErrCycle \<and> \<not> acyclic (dep_rel keyOf dependsOn items)
   | Some (Inr xs) \<Rightarrow> acyclic (dep_rel keyOf dependsOn items)
       \<and> (\<exists>out. xs = map (\<lambda>i. items ! i) out \<and> distinct out \<and> set out = {..<length items}
            \<and> parents_first (dep_rel keyOf dependsOn items) out)"
proof -
  let ?n = "length items" and ?a = "build_edges keyOf dependsOn items"
  note a = build_edges_ok [of items keyOf dependsOn]
  obtain indeg out where r: "kahn ?n (snd ?a) (fst ?a) (filter (\<lambda>i. fst ?a ! i = 0) [0..<?n]) [] = Some out"
      and inv: "kahn_inv ?n ?a indeg [] out"
    using kahn_ends [OF a(1) kahn_start [OF a(1)], of ?n] by auto
  show ?thesis
  proof (cases "length out = ?n")
    case True
    have d: "distinct out" "set out \<subseteq> {..<?n}" "parents_first (dep_rel keyOf dependsOn items) out"
      using inv a(2) by (auto simp: kahn_inv_def)
    have all: "set out = {..<?n}"
      by (rule card_subset_eq [OF finite_lessThan d(2)]) (simp add: distinct_card [OF d(1)] True)
    have "acyclic (dep_rel keyOf dependsOn items)" by (rule acyclic_if_first [OF d(3,1)]) (auto simp: all dep_rel_def)
    then show ?thesis using True r d all by (auto simp: TopoSort_def case_prod_beta)
  next
    case False
    then show ?thesis using stuck_is_cyclic [OF inv False a(1)] r a(2) by (simp add: TopoSort_def case_prod_beta)
  qed
qed

text \<open>
  The order is not stable. The comment of the function promises that independent items keep their order; of three items where
  only the first references the third, the first two are independent of each other, and they change places.
\<close>

theorem toposort_not_stable:
  "TopoSort [(''x'', [''z'']), (''y'', []), (''z'', [])] fst snd = Some (Inr [(''y'', []), (''z'', []), (''x'', [''z''])])
    \<and> (0, 1) \<notin> (dep_rel fst snd [(''x'', [''z'']), (''y'', []), (''z'', [])])\<^sup>+ \<and> (1, 0) \<notin> (dep_rel fst snd [(''x'', [''z'']), (''y'', []), (''z'', [])])\<^sup>+"
proof -
  let ?R = "dep_rel fst snd [(''x'', [''z'']), (''y'', []), (''z'', [])]"
  have idx: "idxByKey fst [(''x'', [''z'']), (''y'', []), (''z'', [])] ''z'' = Some 2" by (simp add: idxByKey_def)
  have R: "?R \<subseteq> {(2, 0)}"
  proof (rule subrelI)
    fix p c assume e: "(p, c) \<in> ?R"
    then have "c = 0 \<or> c = 1 \<or> c = 2" by (auto simp: dep_rel_def)
    with e show "(p, c) \<in> {(2, 0)}" using idx by (auto simp: dep_rel_def)
  qed
  have "(x, y) = (2, 0)" if "(x, y) \<in> ?R\<^sup>+" for x y
    using that by (induction rule: trancl.induct) (use R in auto)
  moreover have "TopoSort [(''x'', [''z'']), (''y'', []), (''z'', [])] fst snd = Some (Inr [(''y'', []), (''z'', []), (''x'', [''z''])])"
    by code_simp
  ultimately show ?thesis by fastforce
qed

end
