(* ===== verification/Persist_Upsert.thy ===== *)
theory Persist_Upsert
  imports Persist_Memory Toposort
begin

text \<open>
  Natural-key upserts and their batches (\<^verbatim>\<open>src/persistence/upsert.go\<close>) and aggregates (\<^verbatim>\<open>src/persistence/aggregate.go\<close>,
  \<^verbatim>\<open>memory_aggregate.go\<close>) over the in-memory repository. A transaction is \<open>atomically\<close>: the function's effect on success and
  nothing on an error, which is what the transaction runners of the library give a function that does not panic. The functions
  a service supplies are arguments.
\<close>

definition atomically :: "('s \<Rightarrow> (perr + 'x) \<times> 's) \<Rightarrow> 's \<Rightarrow> (perr + 'x) \<times> 's" where
  "atomically fn s = (case fn s of (Inl e, _) \<Rightarrow> (Inl e, s) | (Inr x, s') \<Rightarrow> (Inr x, s'))"

section \<open>Upserts\<close>

datatype EntityState = StateAbsent | StateLive | StateDeleted | StateUnknown int

text \<open>The operations of the base repository that an upsert calls, on a store \<open>'s\<close>.\<close>

record ('s, 't, 'k) repository =
  rGet :: "'k \<Rightarrow> 's \<Rightarrow> perr + 't"
  rCreate :: "'t \<Rightarrow> 's \<Rightarrow> (perr + 't) \<times> 's"
  rUpdate :: "'k \<Rightarrow> 't \<Rightarrow> 's \<Rightarrow> (perr + 't) \<times> 's"
  rUndelete :: "'k \<Rightarrow> 's \<Rightarrow> (perr + 't) \<times> 's"

record ('s, 't, 'k) upserter =
  ubase :: "('s, 't, 'k) repository"
  keyOf :: "'t \<Rightarrow> string"
  ulookup :: "string \<Rightarrow> 's \<Rightarrow> perr + 'k \<times> EntityState"
  assignKey :: "('t \<Rightarrow> 'k \<Rightarrow> 't) option"

definition LookupByNaturalKey :: "('s, 't, 'k) upserter \<Rightarrow> string \<Rightarrow> 's \<Rightarrow> perr + 't" where
  "LookupByNaturalKey u nk s =
     (case ulookup u nk s of
        Inl e \<Rightarrow> Inl e
      | Inr (key, state) \<Rightarrow> if state \<noteq> StateLive then Inl ErrNotFound else rGet (ubase u) key s)"

definition upsert_live :: "('s, 't, 'k) upserter \<Rightarrow> 'k \<Rightarrow> 't \<Rightarrow> 's \<Rightarrow> (perr + 't \<times> bool) \<times> 's" where
  "upsert_live u key entity s =
     (let entity' = (case assignKey u of None \<Rightarrow> entity | Some f \<Rightarrow> f entity key)
      in case rUpdate (ubase u) key entity' s of (Inl e, s') \<Rightarrow> (Inl e, s') | (Inr x, s') \<Rightarrow> (Inr (x, False), s'))"

definition Upsert :: "('s, 't, 'k) upserter \<Rightarrow> 't \<Rightarrow> 's \<Rightarrow> (perr + 't \<times> bool) \<times> 's" where
  "Upsert u entity = atomically (\<lambda>s.
     case ulookup u (keyOf u entity) s of
       Inl e \<Rightarrow> (Inl e, s)
     | Inr (key, state) \<Rightarrow>
         (case state of
            StateAbsent \<Rightarrow> (case rCreate (ubase u) entity s of (Inl e, s') \<Rightarrow> (Inl e, s') | (Inr x, s') \<Rightarrow> (Inr (x, True), s'))
          | StateDeleted \<Rightarrow>
              (case rUndelete (ubase u) key s of (Inl e, s') \<Rightarrow> (Inl e, s') | (Inr _, s') \<Rightarrow> upsert_live u key entity s')
          | StateLive \<Rightarrow> upsert_live u key entity s
          | StateUnknown n \<Rightarrow> (Inl (POther ''persistence: upsert: unknown entity state''), s)))"

section \<open>Batches\<close>

record RowError =
  reIndex :: nat
  reKey :: string
  reErr :: perr

record BatchUpsertReport =
  Created :: nat
  Updated :: nat
  Failed :: nat
  Errors :: "RowError list"

record BatchUpsertOptions =
  ChunkSize :: int
  StopOnError :: bool

datatype batch_err = Cancelled string | Stopped RowError

text \<open>
  The rows of one chunk from index \<open>i\<close>; \<open>ctxErr i\<close> is the error of the context before row \<open>i\<close>. The result is the report, the
  error that ended the batch, the store, and the progress reported when a row error stops the batch.
\<close>

fun batch_rows :: "('t \<Rightarrow> 's \<Rightarrow> (perr + 't \<times> bool) \<times> 's) \<Rightarrow> ('t \<Rightarrow> string) \<Rightarrow> (nat \<Rightarrow> string option) \<Rightarrow> bool \<Rightarrow> nat \<Rightarrow> 't list
    \<Rightarrow> BatchUpsertReport \<Rightarrow> 's \<Rightarrow> BatchUpsertReport \<times> batch_err option \<times> nat list \<times> 's" where
  "batch_rows upsert kf ctxErr stop i [] rep s = (rep, None, [], s)"
| "batch_rows upsert kf ctxErr stop i (x # xs) rep s =
     (case ctxErr i of
        Some e \<Rightarrow> (rep, Some (Cancelled e), [], s)
      | None \<Rightarrow>
          (case upsert x s of
             (Inl e, s') \<Rightarrow>
               (let re = \<lparr>reIndex = i, reKey = kf x, reErr = e\<rparr>;
                    rep' = rep\<lparr>Failed := Failed rep + 1, Errors := Errors rep @ [re]\<rparr>
                in if stop then (rep', Some (Stopped re), [i + 1], s') else batch_rows upsert kf ctxErr stop (i + 1) xs rep' s')
           | (Inr (_, created), s') \<Rightarrow>
               batch_rows upsert kf ctxErr stop (i + 1) xs
                 (if created then rep\<lparr>Created := Created rep + 1\<rparr> else rep\<lparr>Updated := Updated rep + 1\<rparr>) s'))"

function batch_chunks :: "('t \<Rightarrow> 's \<Rightarrow> (perr + 't \<times> bool) \<times> 's) \<Rightarrow> ('t \<Rightarrow> string) \<Rightarrow> (nat \<Rightarrow> string option) \<Rightarrow> bool \<Rightarrow> nat \<Rightarrow> nat \<Rightarrow> 't list
    \<Rightarrow> BatchUpsertReport \<Rightarrow> 's \<Rightarrow> BatchUpsertReport \<times> batch_err option \<times> nat list \<times> 's" where
  "batch_chunks upsert kf ctxErr stop chunk start [] rep s = (rep, None, [], s)"
| "batch_chunks upsert kf ctxErr stop chunk start (x # xs) rep s =
     (case batch_rows upsert kf ctxErr stop start (take (Suc chunk) (x # xs)) rep s of
        (rep1, Some e, prog, s1) \<Rightarrow> (rep1, Some e, prog, s1)
      | (rep1, None, _, s1) \<Rightarrow>
          (case batch_chunks upsert kf ctxErr stop chunk (start + Suc chunk) (drop (Suc chunk) (x # xs)) rep1 s1 of
             (rep2, e, prog, s2) \<Rightarrow> (rep2, e, (start + length (take (Suc chunk) (x # xs))) # prog, s2)))"
  by pat_completeness auto
termination by (relation "measure (\<lambda>(_, _, _, _, _, _, xs, _, _). length xs)") auto

text \<open>The third component lists the calls of \<^verbatim>\<open>Progress\<close>.\<close>

definition BatchUpsert :: "('t \<Rightarrow> 's \<Rightarrow> (perr + 't \<times> bool) \<times> 's) \<Rightarrow> 't list \<Rightarrow> ('t \<Rightarrow> string) \<Rightarrow> (nat \<Rightarrow> string option) \<Rightarrow> BatchUpsertOptions
    \<Rightarrow> 's \<Rightarrow> BatchUpsertReport \<times> batch_err option \<times> nat list \<times> 's" where
  "BatchUpsert upsert entities kf ctxErr o' s =
     (let chunk = (if ChunkSize o' \<le> 0 then length entities else nat (ChunkSize o'))
      in batch_chunks upsert kf ctxErr (StopOnError o') (chunk - 1) 0 entities \<lparr>Created = 0, Updated = 0, Failed = 0, Errors = []\<rparr> s)"

section \<open>Aggregates\<close>

record ('s, 'r, 'k) AggregateSpec =
  RootRepo :: "('s, 'r, 'k) repository"
  IfMatchUpdate :: "string \<Rightarrow> 'k \<Rightarrow> 'r \<Rightarrow> 's \<Rightarrow> (perr + 'r) \<times> 's"
  aKeyOf :: "'r \<Rightarrow> 'k"
  EtagOf :: "('r \<Rightarrow> string) option"
  LoadEtag :: "('k \<Rightarrow> 's \<Rightarrow> perr + string) option"
  LoadMembers :: "'r \<Rightarrow> 's \<Rightarrow> perr + 'r"
  SaveMembers :: "'r \<Rightarrow> 's \<Rightarrow> (perr + bool) \<times> 's"
  Validate :: "('r \<Rightarrow> perr option) option"

definition ValidateAggregate :: "('s, 'r, 'k) AggregateSpec \<Rightarrow> 'r \<Rightarrow> perr option" where
  "ValidateAggregate sp root = (case Validate sp of None \<Rightarrow> None | Some v \<Rightarrow> v root)"

definition agg_Load :: "('s, 'r, 'k) AggregateSpec \<Rightarrow> 'k \<Rightarrow> 's \<Rightarrow> perr + 'r" where
  "agg_Load sp i s = (case rGet (RootRepo sp) i s of Inl e \<Rightarrow> Inl e | Inr root \<Rightarrow> LoadMembers sp root s)"

definition checkPrecondition :: "('s, 'r, 'k) AggregateSpec \<Rightarrow> 'r \<Rightarrow> 's \<Rightarrow> perr option" where
  "checkPrecondition sp root s =
     (case EtagOf sp of
        None \<Rightarrow> None
      | Some et \<Rightarrow>
          (let want = et root
           in case (case LoadEtag sp of
                      Some le \<Rightarrow> le (aKeyOf sp root) s
                    | None \<Rightarrow> (case rGet (RootRepo sp) (aKeyOf sp root) s of Inl e \<Rightarrow> Inl e | Inr stored \<Rightarrow> Inr (et stored))) of
                Inl e \<Rightarrow> Some e
              | Inr stored \<Rightarrow> if want \<noteq> [] \<and> stored \<noteq> [] \<and> want \<noteq> stored then Some ErrPreconditionFailed else None))"

definition bump_root :: "('s, 'r, 'k) AggregateSpec \<Rightarrow> 'r \<Rightarrow> 's \<Rightarrow> (perr + 'r) \<times> 's" where
  "bump_root sp root s =
     (case EtagOf sp of
        Some et \<Rightarrow> if et root \<noteq> [] then IfMatchUpdate sp (et root) (aKeyOf sp root) root s else rUpdate (RootRepo sp) (aKeyOf sp root) root s
      | None \<Rightarrow> rUpdate (RootRepo sp) (aKeyOf sp root) root s)"

definition agg_Save :: "('s, 'r, 'k) AggregateSpec \<Rightarrow> 'r \<Rightarrow> 's \<Rightarrow> (perr + 'r) \<times> 's" where
  "agg_Save sp root s =
     (case ValidateAggregate sp root of
        Some e \<Rightarrow> (Inl e, s)
      | None \<Rightarrow>
          atomically (\<lambda>s.
            case checkPrecondition sp root s of
              Some e \<Rightarrow> (Inl e, s)
            | None \<Rightarrow>
                (case SaveMembers sp root s of
                   (Inl e, s1) \<Rightarrow> (Inl e, s1)
                 | (Inr changed, s1) \<Rightarrow> if changed then bump_root sp root s1 else (Inr root, s1))) s)"

section \<open>The contract of natural keys\<close>

text \<open>\<open>holds s nk\<close> is what a store has under a natural key: the storage key, the entity, and whether it is live.\<close>

locale natural_keys =
  fixes u :: "('s, 't, 'k) upserter"
    and holds :: "'s \<Rightarrow> string \<Rightarrow> ('k \<times> 't \<times> bool) option"
    and ok :: "'s \<Rightarrow> bool"
  assumes lookup_law: "ok s \<Longrightarrow> \<exists>k0. ulookup u nk s =
      Inr (case holds s nk of None \<Rightarrow> (k0, StateAbsent) | Some (k, _, alive) \<Rightarrow> (k, if alive then StateLive else StateDeleted))"
    and create_law: "ok s \<Longrightarrow> holds s (keyOf u e) = None \<Longrightarrow> rCreate (ubase u) e s = (Inr x, s') \<Longrightarrow>
      x = e \<and> ok s' \<and> (\<exists>k. holds s' = (holds s)(keyOf u e \<mapsto> (k, e, True)))"
    and update_law: "ok s \<Longrightarrow> holds s (keyOf u e) = Some (k, v, True) \<Longrightarrow> assignKey u = Some f \<Longrightarrow>
      rUpdate (ubase u) k (f e k) s = (Inr x, s') \<Longrightarrow> x = f e k \<and> ok s' \<and> holds s' = (holds s)(keyOf u e \<mapsto> (k, f e k, True))"
    and undelete_law: "ok s \<Longrightarrow> holds s nk = Some (k, v, False) \<Longrightarrow>
      \<exists>s'. rUndelete (ubase u) k s = (Inr v, s') \<and> ok s' \<and> holds s' = (holds s)(nk \<mapsto> (k, v, True))"
    and assign_law: "\<exists>f. assignKey u = Some f"
begin

text \<open>What an upsert leaves: the entity under its natural key, with the storage key the row already had, and live.\<close>

lemma upsert_spec:
  assumes "ok s" "Upsert u e s = (res, s')"
  shows "(s' = s \<and> isl res)
    \<or> (\<exists>k x. res = Inr (x, holds s (keyOf u e) = None) \<and> ok s' \<and> holds s' = (holds s)(keyOf u e \<mapsto> (k, x, True))
        \<and> (case holds s (keyOf u e) of None \<Rightarrow> x = e | Some (k', _) \<Rightarrow> k' = k \<and> x = the (assignKey u) e k))"
proof -
  let ?nk = "keyOf u e"
  obtain f where f: "assignKey u = Some f" using assign_law by blast
  obtain k0 where look: "ulookup u ?nk s =
      Inr (case holds s ?nk of None \<Rightarrow> (k0, StateAbsent) | Some (k, _, alive) \<Rightarrow> (k, if alive then StateLive else StateDeleted))"
    using lookup_law [OF assms(1)] by blast
  have upd: "upsert_live u k e t = (case rUpdate (ubase u) k (f e k) t of (Inl e', t') \<Rightarrow> (Inl e', t') | (Inr x, t') \<Rightarrow> (Inr (x, False), t'))" for k t
    by (simp add: upsert_live_def f)
  show ?thesis
  proof (cases "holds s ?nk")
    case None
    then show ?thesis using assms look create_law [OF assms(1) None]
      by (auto simp: Upsert_def atomically_def split: prod.splits sum.splits)
  next
    case (Some h)
    then obtain k v alive where h: "holds s ?nk = Some (k, v, alive)" by (cases h) auto
    show ?thesis
    proof (cases alive)
      case True
      then show ?thesis using assms look h update_law [OF assms(1) _ f, of e k v]
        by (auto simp: Upsert_def atomically_def upd f split: prod.splits sum.splits)
    next
      case False
      have h': "holds s ?nk = Some (k, v, False)" using h False by simp
      obtain s1 where s1: "rUndelete (ubase u) k s = (Inr v, s1)" "ok s1" "holds s1 = (holds s)(?nk \<mapsto> (k, v, True))"
        using undelete_law [OF assms(1) h'] by blast
      then show ?thesis using assms look h False update_law [OF s1(2) _ f, of e k v]
        by (auto simp: Upsert_def atomically_def upd f split: prod.splits sum.splits)
    qed
  qed
qed

end

section \<open>The in-memory repository as the base\<close>

definition mem_repository :: "string \<Rightarrow> string \<Rightarrow> (('t, 'k) MemoryRepository, 't, 'k) repository" where
  "mem_repository ifMatch uuid = \<lparr>rGet = (\<lambda>k r. fst (repo_Get k r)),
     rCreate = (\<lambda>e r. case repo_Create uuid e r of (x, _, r') \<Rightarrow> (x, r')),
     rUpdate = (\<lambda>k e r. case repo_Update uuid ifMatch k e r of (x, _, r') \<Rightarrow> (x, r')), rUndelete = repo_Undelete\<rparr>"

text \<open>A lookup that scans the stored rows, tombstones included.\<close>

definition scan :: "('t \<Rightarrow> string) \<Rightarrow> string \<Rightarrow> ('t, 'k) MemoryRepository \<Rightarrow> 'k option" where
  "scan kf nk r = find (\<lambda>k. map_option kf (items r k) = Some nk) (rkeys r)"

definition scan_lookup :: "'k \<Rightarrow> ('t \<Rightarrow> string) \<Rightarrow> string \<Rightarrow> ('t, 'k) MemoryRepository \<Rightarrow> perr + 'k \<times> EntityState" where
  "scan_lookup zeroK kf nk r =
     (case scan kf nk r of
        None \<Rightarrow> Inr (zeroK, StateAbsent)
      | Some k \<Rightarrow> Inr (k, if k \<in> rdeleted r then StateDeleted else StateLive))"

definition mem_upserter :: "'k \<Rightarrow> ('t \<Rightarrow> string) \<Rightarrow> ('t \<Rightarrow> 'k \<Rightarrow> 't) \<Rightarrow> string \<Rightarrow> string \<Rightarrow> (('t, 'k) MemoryRepository, 't, 'k) upserter" where
  "mem_upserter zeroK kf f ifMatch uuid =
     \<lparr>ubase = mem_repository ifMatch uuid, keyOf = kf, ulookup = scan_lookup zeroK kf, assignKey = Some f\<rparr>"

definition mem_holds :: "('t \<Rightarrow> string) \<Rightarrow> ('t, 'k) MemoryRepository \<Rightarrow> string \<Rightarrow> ('k \<times> 't \<times> bool) option" where
  "mem_holds kf r nk = (case scan kf nk r of None \<Rightarrow> None | Some k \<Rightarrow> Some (k, the (items r k), k \<notin> rdeleted r))"

text \<open>Rows have distinct natural keys, and stamping a storage key on an entity keeps its natural key.\<close>

definition mem_ok :: "('t \<Rightarrow> string) \<Rightarrow> ('t \<Rightarrow> 'k \<Rightarrow> 't) \<Rightarrow> ('t, 'k) MemoryRepository \<Rightarrow> bool" where
  "mem_ok kf f r \<longleftrightarrow> repo_ok r \<and> (\<forall>k k' v v'. items r k = Some v \<longrightarrow> items r k' = Some v' \<longrightarrow> kf v = kf v' \<longrightarrow> k = k')
     \<and> (\<forall>e k. kf (f e k) = kf e)"

lemma scan_iff:
  assumes "mem_ok kf f r"
  shows "scan kf nk r = Some k \<longleftrightarrow> (\<exists>v. items r k = Some v \<and> kf v = nk)"
proof
  assume "scan kf nk r = Some k"
  then show "\<exists>v. items r k = Some v \<and> kf v = nk" by (auto simp: scan_def find_Some_iff)
next
  assume "\<exists>v. items r k = Some v \<and> kf v = nk"
  then obtain v where v: "items r k = Some v" "kf v = nk" by blast
  then have "k \<in> set (rkeys r)" using assms by (auto simp: mem_ok_def repo_ok_def)
  then have "scan kf nk r \<noteq> None" using v by (auto simp: scan_def find_None_iff)
  then obtain k' where k': "scan kf nk r = Some k'" by blast
  then obtain v' where "items r k' = Some v'" "kf v' = nk" by (auto simp: scan_def find_Some_iff)
  then have "k' = k" using assms v by (auto simp: mem_ok_def)
  then show "scan kf nk r = Some k" using k' by simp
qed

lemma mem_holds_iff:
  assumes "mem_ok kf f r"
  shows "mem_holds kf r nk = Some (k, v, alive) \<longleftrightarrow> items r k = Some v \<and> kf v = nk \<and> alive = (k \<notin> rdeleted r)"
proof -
  have "mem_holds kf r nk = Some (k, v, alive) \<longleftrightarrow> scan kf nk r = Some k \<and> the (items r k) = v \<and> alive = (k \<notin> rdeleted r)"
    by (auto simp: mem_holds_def split: option.split)
  then show ?thesis unfolding scan_iff [OF assms] by auto
qed

lemma mem_holds_eqI:
  assumes "mem_ok kf f r" "mem_ok kf f r'" "\<And>nk k v alive. mem_holds kf r' nk = Some (k, v, alive) \<longleftrightarrow> g nk = Some (k, v, alive)"
  shows "mem_holds kf r' = g"
proof
  fix nk show "mem_holds kf r' nk = g nk"
  proof (cases "g nk")
    case None
    then show ?thesis using assms(3) [of nk] by (cases "mem_holds kf r' nk") auto
  next
    case (Some x)
    then show ?thesis using assms(3) [of nk "fst x" "fst (snd x)" "snd (snd x)"] by simp
  qed
qed

lemma mem_create_law:
  assumes ok: "mem_ok kf f r" and new: "mem_holds kf r (kf e) = None" and run: "repo_Create uuid e r = (Inr x, et, r')"
  shows "x = e \<and> mem_ok kf f r' \<and> mem_holds kf r' = (mem_holds kf r)(kf e \<mapsto> (keyFn r e, e, True))"
proof -
  let ?k = "keyFn r e"
  have free: "items r ?k = None" and x: "x = e"
    and r': "r' = r\<lparr>items := (items r)(?k \<mapsto> e), etags := (etags r)(?k := uuid), rkeys := rkeys r @ [?k]\<rparr>"
    using run by (auto simp: repo_Create_def Let_def split: option.splits)
  have other: "kf v \<noteq> kf e" if "items r k = Some v" for k v
    using new scan_iff [OF ok, of "kf e" k] that by (auto simp: mem_holds_def split: option.splits)
  have nd: "?k \<notin> rdeleted r" using ok free by (auto simp: mem_ok_def repo_ok_def)
  have uniq: "\<forall>k k' v v'. items r k = Some v \<longrightarrow> items r k' = Some v' \<longrightarrow> kf v = kf v' \<longrightarrow> k = k'" using ok by (simp add: mem_ok_def)
  have "repo_ok r'" using ok free unfolding r' by (auto simp: mem_ok_def repo_ok_def)
  moreover have "\<forall>k k' v v'. items r' k = Some v \<longrightarrow> items r' k' = Some v' \<longrightarrow> kf v = kf v' \<longrightarrow> k = k'"
    unfolding r' using uniq other by (auto split: if_splits) (metis other)+
  ultimately have ok': "mem_ok kf f r'" using ok by (simp add: mem_ok_def)
  have "mem_holds kf r' = (mem_holds kf r)(kf e \<mapsto> (?k, e, True))"
    by (rule mem_holds_eqI [OF ok ok'])
      (unfold mem_holds_iff [OF ok'] fun_upd_apply, use free nd other in \<open>auto simp: r' mem_holds_iff [OF ok] split: if_splits\<close>)
  then show ?thesis using x ok' by simp
qed

lemma mem_update_law:
  assumes ok: "mem_ok kf f r" and h: "mem_holds kf r (kf e) = Some (k, v, True)" and run: "repo_Update uuid im k (f e k) r = (Inr x, et, r')"
  shows "x = f e k \<and> mem_ok kf f r' \<and> mem_holds kf r' = (mem_holds kf r)(kf e \<mapsto> (k, f e k, True))"
proof -
  have kv: "items r k = Some v" "kf v = kf e" "k \<notin> rdeleted r" and st: "kf (f e k) = kf e"
    using h mem_holds_iff [OF ok] ok by (auto simp: mem_ok_def)
  have x: "x = f e k" and r': "r' = r\<lparr>items := (items r)(k \<mapsto> f e k), etags := (etags r)(k := uuid)\<rparr>"
    using run kv(1) by (auto simp: repo_Update_def split: if_splits)
  have uniq: "k1 = k2" if "items r k1 = Some v1" "items r k2 = Some v2" "kf v1 = kf v2" for k1 k2 v1 v2
    using ok that by (auto simp: mem_ok_def)
  have "repo_ok r'" using ok kv(1) unfolding r' by (auto simp: mem_ok_def repo_ok_def)
  moreover have "\<forall>k1 k2 v1 v2. items r' k1 = Some v1 \<longrightarrow> items r' k2 = Some v2 \<longrightarrow> kf v1 = kf v2 \<longrightarrow> k1 = k2"
    unfolding r' using uniq kv st by (auto split: if_splits)
  ultimately have ok': "mem_ok kf f r'" using ok by (simp add: mem_ok_def)
  have "mem_holds kf r' = (mem_holds kf r)(kf e \<mapsto> (k, f e k, True))"
  proof (rule mem_holds_eqI [OF ok ok'])
    fix nk k1 v1 alive
    show "mem_holds kf r' nk = Some (k1, v1, alive) \<longleftrightarrow> ((mem_holds kf r)(kf e \<mapsto> (k, f e k, True))) nk = Some (k1, v1, alive)"
    proof (cases "nk = kf e")
      case True
      then show ?thesis unfolding mem_holds_iff [OF ok'] using kv st uniq [of k1 v1 k v] by (auto simp: r')
    next
      case False
      then show ?thesis unfolding mem_holds_iff [OF ok'] using kv st by (auto simp: r' mem_holds_iff [OF ok])
    qed
  qed
  then show ?thesis using x ok' by simp
qed

lemma mem_undelete_law:
  assumes ok: "mem_ok kf f r" and h: "mem_holds kf r nk = Some (k, v, False)"
  shows "\<exists>r'. repo_Undelete k r = (Inr v, r') \<and> mem_ok kf f r' \<and> mem_holds kf r' = (mem_holds kf r)(nk \<mapsto> (k, v, True))"
proof -
  have kv: "items r k = Some v" "kf v = nk" "k \<in> rdeleted r" using h mem_holds_iff [OF ok] by auto
  let ?r = "r\<lparr>rdeleted := rdeleted r - {k}\<rparr>"
  have ok': "mem_ok kf f ?r" using ok by (auto simp: mem_ok_def repo_ok_def)
  have uniq: "k1 = k" if "items r k1 = Some v1" "kf v1 = nk" for k1 v1
    using ok that kv by (auto simp: mem_ok_def)
  have "mem_holds kf ?r = (mem_holds kf r)(nk \<mapsto> (k, v, True))"
  proof (rule mem_holds_eqI [OF ok ok'])
    fix nk' k1 v1 alive
    show "mem_holds kf ?r nk' = Some (k1, v1, alive) \<longleftrightarrow> ((mem_holds kf r)(nk \<mapsto> (k, v, True))) nk' = Some (k1, v1, alive)"
    proof (cases "nk' = nk")
      case True
      then show ?thesis unfolding mem_holds_iff [OF ok'] using kv uniq [of k1 v1] by auto
    next
      case False
      then show ?thesis unfolding mem_holds_iff [OF ok'] using kv by (auto simp: mem_holds_iff [OF ok])
    qed
  qed
  then show ?thesis using kv ok' by (auto simp: repo_Undelete_def)
qed

interpretation mem_keys: natural_keys "mem_upserter zeroK kf f im uuid" "mem_holds kf" "mem_ok kf f" for zeroK kf f im uuid
proof unfold_locales
  fix r nk
  show "\<exists>k0. ulookup (mem_upserter zeroK kf f im uuid) nk r =
      Inr (case mem_holds kf r nk of None \<Rightarrow> (k0, StateAbsent) | Some (k, _, alive) \<Rightarrow> (k, if alive then StateLive else StateDeleted))"
    by (auto simp: mem_upserter_def scan_lookup_def mem_holds_def split: option.split)
qed (auto simp: mem_upserter_def mem_repository_def split: prod.splits dest: mem_create_law mem_update_law mem_undelete_law)

section \<open>The properties of upserts\<close>

text \<open>
  An upsert creates, updates or resurrects by natural key. Over the in-memory repository an upsert fails and changes nothing, or
  leaves the entity live under its natural key and every other natural key as it was. It reports a creation exactly when no row held the key, a
  row that did, deleted or not, keeps its storage key; and a second upsert of an entity with that natural key
  is an update.
\<close>

theorem upsert_by_natural_key:
  assumes "mem_ok kf f r" "Upsert (mem_upserter zeroK kf f im uuid) e r = (Inr (x, created), r')"
    "Upsert (mem_upserter zeroK' kf f im' uuid') e2 r' = (Inr (x2, created2), r'')" "kf e2 = kf e"
  shows "mem_ok kf f r'
    \<and> (created \<longleftrightarrow> mem_holds kf r (kf e) = None)
    \<and> (\<exists>k. mem_holds kf r' = (mem_holds kf r)(kf e \<mapsto> (k, x, True))
          \<and> (case mem_holds kf r (kf e) of None \<Rightarrow> x = e | Some (k', _) \<Rightarrow> k' = k \<and> x = f e k)
          \<and> mem_holds kf r'' = (mem_holds kf r)(kf e \<mapsto> (k, f e2 k, True)))
    \<and> \<not> created2"
proof -
  have ku: "keyOf (mem_upserter z kf f i w) = kf" "assignKey (mem_upserter z kf f i w) = Some f" for z i w
    by (simp_all add: mem_upserter_def)
  from mem_keys.upsert_spec [OF assms(1,2)] obtain k where
    1: "created = (mem_holds kf r (kf e) = None)" "mem_ok kf f r'" "mem_holds kf r' = (mem_holds kf r)(kf e \<mapsto> (k, x, True))"
      "case mem_holds kf r (kf e) of None \<Rightarrow> x = e | Some (k', _) \<Rightarrow> k' = k \<and> x = f e k"
    by (auto simp: ku)
  from mem_keys.upsert_spec [OF 1(2) assms(3)] 1(3) assms(4)
  have "\<not> created2" "mem_holds kf r'' = (mem_holds kf r)(kf e \<mapsto> (k, f e2 k, True))" by (auto simp: ku)
  then show ?thesis using 1 by auto
qed

definition sku :: "(string \<times> nat) \<Rightarrow> string" where
  "sku = fst"

definition stamp :: "string \<times> nat \<Rightarrow> string \<Rightarrow> string \<times> nat" where
  "stamp e k = (fst e, snd e)"

theorem upsert_by_natural_key_witness:
  "mem_ok sku stamp (NewMemoryRepository fst)
    \<and> (\<exists>r' r''. Upsert (mem_upserter [] sku stamp [] ''u'') (''a'', 2) (NewMemoryRepository fst) = (Inr ((''a'', 2), True), r')
        \<and> Upsert (mem_upserter [] sku stamp [] ''w'') (''a'', 3) r' = (Inr ((''a'', 3), False), r'')
        \<and> mem_holds sku r'' = [''a'' \<mapsto> (''a'', (''a'', 3), True)])"
proof -
  let ?r1 = "\<lparr>items = [''a'' \<mapsto> (''a'', 2)], etags = (\<lambda>_. [])(''a'' := ''u''), rkeys = [''a''], rdeleted = {}, keyFn = fst\<rparr> :: (string \<times> nat, string) MemoryRepository"
  let ?r2 = "\<lparr>items = [''a'' \<mapsto> (''a'', 3)], etags = (\<lambda>_. [])(''a'' := ''w''), rkeys = [''a''], rdeleted = {}, keyFn = fst\<rparr> :: (string \<times> nat, string) MemoryRepository"
  have ok: "mem_ok sku stamp (NewMemoryRepository fst)" by (simp add: mem_ok_def repo_ok_def NewMemoryRepository_def sku_def stamp_def)
  have a: "Upsert (mem_upserter [] sku stamp [] ''u'') (''a'', 2) (NewMemoryRepository fst) = (Inr ((''a'', 2), True), ?r1)"
    by (simp add: Upsert_def atomically_def mem_upserter_def scan_lookup_def scan_def NewMemoryRepository_def mem_repository_def repo_Create_def Let_def)
  have b: "Upsert (mem_upserter [] sku stamp [] ''w'') (''a'', 3) ?r1 = (Inr ((''a'', 3), False), ?r2)"
    by (simp add: Upsert_def atomically_def mem_upserter_def scan_lookup_def scan_def mem_repository_def repo_Update_def upsert_live_def
        stamp_def sku_def Let_def)
  obtain k where k: "mem_holds sku ?r2 = (mem_holds sku (NewMemoryRepository fst))(''a'' \<mapsto> (k, (''a'', 3), True))"
    using upsert_by_natural_key [OF ok a b] by (auto simp: sku_def stamp_def)
  have e: "mem_holds sku (NewMemoryRepository fst) = Map.empty"
    by (simp add: fun_eq_iff mem_holds_def scan_def NewMemoryRepository_def)
  have "mem_holds sku ?r2 ''a'' = Some (''a'', (''a'', 3), True)" by (simp add: mem_holds_def scan_def sku_def)
  then have "k = ''a''" unfolding k by simp
  then show ?thesis using ok a b k e by auto
qed

section \<open>The properties of batches\<close>

lemma batch_rows_append:
  "batch_rows upsert kf ce stop i (xs @ ys) rep s =
    (case batch_rows upsert kf ce stop i xs rep s of
       (rep1, Some e, prog, s1) \<Rightarrow> (rep1, Some e, prog, s1)
     | (rep1, None, _, s1) \<Rightarrow> batch_rows upsert kf ce stop (i + length xs) ys rep1 s1)"
  by (induction upsert kf ce stop i xs rep s rule: batch_rows.induct)
    (auto simp: Let_def split: prod.split option.split sum.split)

definition outcome :: "BatchUpsertReport \<times> batch_err option \<times> nat list \<times> 's \<Rightarrow> BatchUpsertReport \<times> batch_err option \<times> 's" where
  "outcome x = (case x of (rep, e, _, s) \<Rightarrow> (rep, e, s))"

lemma batch_rows_ok_progress:
  "batch_rows upsert kf ce stop i xs rep s = (rep', None, prog, s') \<Longrightarrow> prog = []"
  by (induction upsert kf ce stop i xs rep s rule: batch_rows.induct)
    (auto simp: Let_def split: prod.splits option.splits sum.splits if_splits)

lemma batch_chunks_rows:
  "outcome (batch_chunks upsert kf ce stop chunk start xs rep s) = outcome (batch_rows upsert kf ce stop start xs rep s)"
proof (induction upsert kf ce stop chunk start xs rep s rule: batch_chunks.induct)
  case (2 upsert kf ce stop chunk start x xs rep s)
  let ?a = "take (Suc chunk) (x # xs)" and ?b = "drop (Suc chunk) (x # xs)"
  obtain rep1 e prog s1 where r: "batch_rows upsert kf ce stop start ?a rep s = (rep1, e, prog, s1)"
    by (cases "batch_rows upsert kf ce stop start ?a rep s") auto
  have app: "batch_rows upsert kf ce stop start (x # xs) rep s =
      (case (rep1, e, prog, s1) of (rep1, Some e, prog, s1) \<Rightarrow> (rep1, Some e, prog, s1)
       | (rep1, None, _, s1) \<Rightarrow> batch_rows upsert kf ce stop (start + length ?a) ?b rep1 s1)"
    using batch_rows_append [of upsert kf ce stop start ?a ?b rep s] r by simp
  show ?case
  proof (cases e)
    case None
    have ih: "outcome (batch_chunks upsert kf ce stop chunk (start + Suc chunk) ?b rep1 s1) =
        outcome (batch_rows upsert kf ce stop (start + Suc chunk) ?b rep1 s1)"
      using "2.IH" [OF r [symmetric] refl None refl] by simp
    have "?b = [] \<or> length ?a = Suc chunk" by auto
    then have "outcome (batch_rows upsert kf ce stop (start + Suc chunk) ?b rep1 s1) =
        outcome (batch_rows upsert kf ce stop (start + length ?a) ?b rep1 s1)" by auto
    then show ?thesis using r None ih app by (simp add: outcome_def split: prod.splits)
  next
    case (Some e')
    then show ?thesis using r app by (simp add: outcome_def)
  qed
qed simp

lemma batch_rows_count:
  assumes "batch_rows upsert kf ce stop i xs rep s = (rep', e, prog, s')" "length (Errors rep) = Failed rep"
  shows "length (Errors rep') = Failed rep' \<and> Created rep' + Updated rep' + Failed rep' \<le> Created rep + Updated rep + Failed rep + length xs
    \<and> (e = None \<longrightarrow> Created rep' + Updated rep' + Failed rep' = Created rep + Updated rep + Failed rep + length xs)"
  using assms
  by (induction upsert kf ce stop i xs rep s arbitrary: rep' e prog s' rule: batch_rows.induct)
    (fastforce simp: Let_def split: prod.splits option.splits sum.splits if_splits)+

text \<open>
  Chunks only report progress. The report, the error and the final store of a batch do not depend on the chunk size: they are
  those of one pass over all rows; every row attempted is counted once, as created, updated or failed, each failure has its entry in the
  error log, and a batch that is neither cancelled nor stopped attempts every row.
\<close>

theorem batch_chunking_irrelevant:
  assumes "BatchUpsert upsert entities kf ce o' s = (rep, e, prog, s')"
  shows "(rep, e, s') = outcome (batch_rows upsert kf ce (StopOnError o') 0 entities \<lparr>Created = 0, Updated = 0, Failed = 0, Errors = []\<rparr> s)
    \<and> length (Errors rep) = Failed rep \<and> Created rep + Updated rep + Failed rep \<le> length entities
    \<and> (e = None \<longrightarrow> Created rep + Updated rep + Failed rep = length entities)"
proof -
  let ?r0 = "\<lparr>Created = 0, Updated = 0, Failed = 0, Errors = []\<rparr>"
  have o: "outcome (rep, e, prog, s') = outcome (batch_rows upsert kf ce (StopOnError o') 0 entities ?r0 s)"
    unfolding assms [symmetric] BatchUpsert_def Let_def by (rule batch_chunks_rows)
  obtain prog2 where "batch_rows upsert kf ce (StopOnError o') 0 entities ?r0 s = (rep, e, prog2, s')"
    using o by (cases "batch_rows upsert kf ce (StopOnError o') 0 entities ?r0 s") (auto simp: outcome_def)
  from batch_rows_count [OF this] o show ?thesis by (simp add: outcome_def)
qed

definition two_rows :: "(string \<times> nat) list" where
  "two_rows = [(''a'', 2), (''b'', 3), (''a'', 4)]"

theorem batch_chunking_irrelevant_witness:
  "\<exists>s'. BatchUpsert (\<lambda>e s. if snd e = 3 then (Inl ErrConflict, s) else (Inr (e, s = []), e # s)) two_rows fst (\<lambda>_. None)
        \<lparr>ChunkSize = 2, StopOnError = False\<rparr> [] =
      (\<lparr>Created = 1, Updated = 1, Failed = 1, Errors = [\<lparr>reIndex = 1, reKey = ''b'', reErr = ErrConflict\<rparr>]\<rparr>, None, [2, 3], s')
    \<and> (\<lparr>Created = 1, Updated = 1, Failed = 1, Errors = [\<lparr>reIndex = 1, reKey = ''b'', reErr = ErrConflict\<rparr>]\<rparr>, None, s') =
      outcome (batch_rows (\<lambda>e s. if snd e = 3 then (Inl ErrConflict, s) else (Inr (e, s = []), e # s)) fst (\<lambda>_. None) False 0 two_rows
        \<lparr>Created = 0, Updated = 0, Failed = 0, Errors = []\<rparr> [])"
proof -
  have b: "BatchUpsert (\<lambda>e s. if snd e = 3 then (Inl ErrConflict, s) else (Inr (e, s = []), e # s)) two_rows fst (\<lambda>_. None)
        \<lparr>ChunkSize = 2, StopOnError = False\<rparr> [] =
      (\<lparr>Created = 1, Updated = 1, Failed = 1, Errors = [\<lparr>reIndex = 1, reKey = ''b'', reErr = ErrConflict\<rparr>]\<rparr>, None, [2, 3], [(''a'', 4), (''a'', 2)])"
    by code_simp
  show ?thesis using b batch_chunking_irrelevant [OF b] by auto
qed

section \<open>The properties of aggregates\<close>

text \<open>A cluster of root rows in a repository, with their version tags, beside the members.\<close>

record ('r, 'k, 'm) cluster =
  roots :: "('r, 'k) MemoryRepository"
  cmembers :: 'm

definition on_roots :: "(('r, 'k) MemoryRepository \<Rightarrow> 'x \<times> string option \<times> ('r, 'k) MemoryRepository) \<Rightarrow> ('r, 'k, 'm) cluster \<Rightarrow> 'x \<times> ('r, 'k, 'm) cluster" where
  "on_roots g s = (case g (roots s) of (x, _, r') \<Rightarrow> (x, s\<lparr>roots := r'\<rparr>))"

definition mem_aggregate :: "string \<Rightarrow> ('r \<Rightarrow> 'k) \<Rightarrow> ('r \<Rightarrow> string) \<Rightarrow> ('r \<Rightarrow> ('r, 'k, 'm) cluster \<Rightarrow> perr + 'r)
    \<Rightarrow> ('r \<Rightarrow> ('r, 'k, 'm) cluster \<Rightarrow> (perr + bool) \<times> ('r, 'k, 'm) cluster) \<Rightarrow> ('r \<Rightarrow> perr option) option
    \<Rightarrow> (('r, 'k, 'm) cluster, 'r, 'k) AggregateSpec" where
  "mem_aggregate uuid kf et loadM saveM val =
     \<lparr>RootRepo = \<lparr>rGet = (\<lambda>k s. fst (repo_Get k (roots s))), rCreate = (\<lambda>e. on_roots (repo_Create uuid e)),
        rUpdate = (\<lambda>k e. on_roots (repo_Update uuid [] k e)),
        rUndelete = (\<lambda>k. on_roots (\<lambda>r. case repo_Undelete k r of (x, r') \<Rightarrow> (x, None, r')))\<rparr>,
      IfMatchUpdate = (\<lambda>im k e. on_roots (repo_Update uuid im k e)), aKeyOf = kf, EtagOf = Some et,
      LoadEtag = Some (\<lambda>k s. Inr (etags (roots s) k)), LoadMembers = loadM, SaveMembers = saveM, Validate = val\<rparr>"

lemma mem_aggregate_sel [simp]:
  "aKeyOf (mem_aggregate uuid kf et loadM saveM val) = kf" "EtagOf (mem_aggregate uuid kf et loadM saveM val) = Some et"
  "LoadEtag (mem_aggregate uuid kf et loadM saveM val) = Some (\<lambda>k s. Inr (etags (roots s) k))"
  "SaveMembers (mem_aggregate uuid kf et loadM saveM val) = saveM" "Validate (mem_aggregate uuid kf et loadM saveM val) = val"
  "IfMatchUpdate (mem_aggregate uuid kf et loadM saveM val) im k e = on_roots (repo_Update uuid im k e)"
  by (simp_all add: mem_aggregate_def)

lemma repo_Update_ok: "repo_Update u im k e r = (Inr x, t, r') \<Longrightarrow> etags r' k = u \<and> items r' k = Some e"
  by (auto simp: repo_Update_def split: option.splits if_splits)

lemma save_stale:
  assumes "et root \<noteq> []" "etags (roots s) (kf root) \<noteq> []" "etags (roots s) (kf root) \<noteq> et root" "ValidateAggregate (mem_aggregate uuid kf et loadM saveM val) root = None"
  shows "agg_Save (mem_aggregate uuid kf et loadM saveM val) root s = (Inl ErrPreconditionFailed, s)"
  using assms by (simp add: agg_Save_def checkPrecondition_def atomically_def)

text \<open>
  Concurrent saves of an aggregate lose nothing. Two writers load the same version. When the first one's save succeeds with a change of a member, the
  version becomes the fresh one, and the second one's save, whatever its changes, is refused with a failed precondition and changes nothing.
\<close>

theorem aggregate_no_lost_update:
  assumes save: "agg_Save (mem_aggregate uuid kf et loadM saveM val) root s = (Inr saved, s1)"
    and changed: "saveM root s = (Inr True, s0)" "roots s0 = roots s"
    and etag: "et root \<noteq> []" "uuid \<noteq> []" "uuid \<noteq> et root"
    and second: "kf root2 = kf root" "et root2 = et root" "ValidateAggregate (mem_aggregate uuid2 kf et loadM2 saveM2 val2) root2 = None"
  shows "etags (roots s1) (kf root) = uuid \<and> items (roots s1) (kf root) = Some root
    \<and> agg_Save (mem_aggregate uuid2 kf et loadM2 saveM2 val2) root2 s1 = (Inl ErrPreconditionFailed, s1)"
proof -
  have u: "repo_Update uuid (et root) (kf root) root (roots s) = (Inr saved, Some uuid, roots s1)"
    using save changed etag(1)
    by (auto simp: agg_Save_def atomically_def bump_root_def on_roots_def repo_Update_def split: option.splits prod.splits sum.splits if_splits)
  then have e: "etags (roots s1) (kf root) = uuid" "items (roots s1) (kf root) = Some root"
    by (auto dest: repo_Update_ok)
  have "agg_Save (mem_aggregate uuid2 kf et loadM2 saveM2 val2) root2 s1 = (Inl ErrPreconditionFailed, s1)"
    by (rule save_stale) (use e etag second in auto)
  then show ?thesis using e by simp
qed

text \<open>
  A save drops changes of the root alone. When no member changed, a save with a current version returns the caller's root as
  saved, but nothing is written: the store, the root row included, is as the members' save left it.
\<close>

theorem aggregate_root_change_dropped:
  assumes "saveM root s = (Inr False, s)" "ValidateAggregate (mem_aggregate uuid kf et loadM saveM val) root = None"
    "etags (roots s) (kf root) = et root"
  shows "agg_Save (mem_aggregate uuid kf et loadM saveM val) root s = (Inr root, s)"
  using assms by (simp add: agg_Save_def checkPrecondition_def atomically_def)

definition exCluster :: "(nat \<times> nat, nat, unit) cluster" where
  "exCluster = \<lparr>roots = \<lparr>items = [7 \<mapsto> (7, 2)], etags = (\<lambda>_. [])(7 := ''v''), rkeys = [7], rdeleted = {}, keyFn = fst\<rparr>, cmembers = ()\<rparr>"

theorem aggregate_root_change_dropped_witness:
  "agg_Save (mem_aggregate ''u'' fst (\<lambda>_. ''v'') (\<lambda>r s. Inr r) (\<lambda>r s. (Inr False, s)) None) (7, 5) exCluster = (Inr (7, 5), exCluster)
    \<and> items (roots exCluster) 7 = Some (7, 2)"
  using aggregate_root_change_dropped [of "\<lambda>r s. (Inr False, s)" "(7, 5)" exCluster "''u''" fst "\<lambda>_. ''v''" "\<lambda>r s. Inr r" None]
  by (simp add: exCluster_def ValidateAggregate_def)

theorem aggregate_no_lost_update_witness:
  "\<exists>s1. agg_Save (mem_aggregate ''u'' fst (\<lambda>_. ''v'') (\<lambda>r s. Inr r) (\<lambda>r s. (Inr True, s)) None) (7, 5) exCluster = (Inr (7, 5), s1)
    \<and> agg_Save (mem_aggregate ''w'' fst (\<lambda>_. ''v'') (\<lambda>r s. Inr r) (\<lambda>r s. (Inr True, s)) None) (7, 6) s1 = (Inl ErrPreconditionFailed, s1)"
proof -
  let ?s1 = "\<lparr>roots = \<lparr>items = [7 \<mapsto> (7, 5)], etags = (\<lambda>_. [])(7 := ''u''), rkeys = [7], rdeleted = {}, keyFn = fst\<rparr>, cmembers = ()\<rparr>"
  have a: "agg_Save (mem_aggregate ''u'' fst (\<lambda>_. ''v'') (\<lambda>r s. Inr r) (\<lambda>r s. (Inr True, s)) None) (7, 5) exCluster = (Inr (7, 5), ?s1)"
    by (simp add: agg_Save_def checkPrecondition_def atomically_def bump_root_def on_roots_def repo_Update_def exCluster_def ValidateAggregate_def)
  show ?thesis
    using a aggregate_no_lost_update [OF a, of exCluster "(7, 6)" "''w''" "\<lambda>r s. Inr r" "\<lambda>r s. (Inr True, s)" None]
    by (auto simp: ValidateAggregate_def)
qed

end
