(* ===== verification/Gorm_Outbox.thy ===== *)
theory Gorm_Outbox
  imports Cells_Gate Events_Relay "HOL-Library.Sublist"
begin

text \<open>
  The database outbox (\<^verbatim>\<open>src/persistence/gormtx/outbox.go\<close>) with its per-tenant sequence allocator and the relay's sidecar
  tables, the mapping of constraint violations (\<^verbatim>\<open>src/persistence/constraint.go\<close>), and the advisory-lock leader
  (\<^verbatim>\<open>src/persistence/gormtx/leader.go\<close>). Tables are lists and maps; which statements the driver fails is an argument.
  Transactions run concurrently: a step relation interleaves them, the allocator's row lock excluding two transactions of
  one tenant.
\<close>

section \<open>Constraint violations\<close>

definition contains_text :: "string \<Rightarrow> string \<Rightarrow> bool" where
  "contains_text msg sub \<longleftrightarrow> sub \<in> set (sublists msg)"

definition lower_ascii :: "string \<Rightarrow> string" where
  "lower_ascii s = map (\<lambda>c. if 65 \<le> byte c \<and> byte c \<le> 90 then char_of (byte c + 32) else c) s"

definition ConstraintError :: "string option \<Rightarrow> perr option" where
  "ConstraintError err =
     (case err of
        None \<Rightarrow> None
      | Some m \<Rightarrow>
          let msg = lower_ascii m in
          if list_ex (contains_text msg) [''unique constraint failed'', ''duplicate key value'', ''violates unique constraint'',
               ''duplicate entry'', ''sqlstate 23505''] then Some ErrConflict
          else if list_ex (contains_text msg) [''foreign key constraint failed'', ''violates foreign key constraint'',
               ''sqlstate 23503'', ''a foreign key constraint fails''] then Some ErrPreconditionFailed
          else if list_ex (contains_text msg) [''not null constraint failed'', ''violates not-null constraint'',
               ''sqlstate 23502''] then Some ErrPreconditionFailed
          else None)"

section \<open>The outbox table\<close>

text \<open>
  The rows of the table and, where the service has migrated it, the allocator table \<^verbatim>\<open>tenant_event_seq\<close>. \<open>append_io\<close>
  says which statement of an \<^verbatim>\<open>Append\<close> fails, with the driver's message.
\<close>

record outbox_db =
  orows :: "OutboxRecord list"
  seqTable :: "(string \<Rightarrow> int option) option"

record append_io =
  failExists :: "string option"
  failEnsure :: "string option"
  failLock :: "string option"
  failAdvance :: "string option"
  failCreate :: "string option"

definition outboxBaseTable :: string where
  "outboxBaseTable = ''outbox''"

definition eventSeqBaseTable :: string where
  "eventSeqBaseTable = ''tenant_event_seq''"

definition eventSeqTable :: "string \<Rightarrow> string" where
  "eventSeqTable tbl =
     (if has_suffix tbl outboxBaseTable then take (length tbl - length outboxBaseTable) tbl @ eventSeqBaseTable
      else eventSeqBaseTable)"

definition nextEventSeq :: "append_io \<Rightarrow> string \<Rightarrow> (string \<Rightarrow> int option) \<Rightarrow> (perr + int) \<times> (string \<Rightarrow> int option)" where
  "nextEventSeq io a m =
     (case failEnsure io of
        Some e \<Rightarrow> (Inl (PWrap (''ensure event-seq row for '' @ a) (POther e)), m)
      | None \<Rightarrow>
          let m1 = (if m a = None then m(a \<mapsto> 0) else m) in
          case failLock io of
            Some e \<Rightarrow> (Inl (PWrap (''lock event-seq row for '' @ a) (POther e)), m1)
          | None \<Rightarrow>
              let nxt = wrap64 (get_or 0 m1 a + 1) in
              case failAdvance io of
                Some e \<Rightarrow> (Inl (PWrap (''advance event-seq for '' @ a) (POther e)), m1)
              | None \<Rightarrow> (Inr nxt, m1(a \<mapsto> nxt)))"

text \<open>
  The transaction handle of the context: none, this store's, or one of another runner, which \<^verbatim>\<open>RequireTx\<close> accepts too;
  \<open>conn_in_tx\<close> is whether the statements then run in the enclosing transaction.
\<close>

datatype tx_handle = NoTx | GormTx | OtherTx

definition conn_in_tx :: "tx_handle \<Rightarrow> bool" where
  "conn_in_tx h \<longleftrightarrow> h = GormTx"

definition wants_seq :: "OutboxRecord \<Rightarrow> outbox_db \<Rightarrow> bool" where
  "wants_seq rec db \<longleftrightarrow> EventSeq rec = 0 \<and> AccountID rec \<noteq> [] \<and> seqTable db \<noteq> None"

text \<open>The row that is written.\<close>

definition new_row :: "go_time \<Rightarrow> AdmissionToken option \<Rightarrow> OutboxRecord \<Rightarrow> int \<Rightarrow> OutboxRecord" where
  "new_row tnow tok rec sq =
     rec\<lparr>CreatedTime := (if time_is_zero (CreatedTime rec) then tnow else CreatedTime rec), EventSeq := sq,
         EventEpoch := (if EventEpoch rec = 0 then (case tok of Some t \<Rightarrow> sint (tokRouteEpoch t) | None \<Rightarrow> 0)
                        else EventEpoch rec)\<rparr>"

text \<open>The statements of \<^verbatim>\<open>Append\<close> on the connection's view of the tables. The result also holds the caller's record, into
  which sequence and epoch are written back.\<close>

definition gorm_Append :: "append_io \<Rightarrow> go_time \<Rightarrow> tx_handle \<Rightarrow> AdmissionToken option \<Rightarrow> OutboxRecord \<Rightarrow> outbox_db
    \<Rightarrow> perr option \<times> OutboxRecord \<times> outbox_db" where
  "gorm_Append io tnow h tok rec db =
     (if h = NoTx then (Some ErrNoTransaction, rec, db)
      else
        let asks = (EventSeq rec = 0 \<and> AccountID rec \<noteq> []) in
        if asks \<and> failExists io \<noteq> None then (Some (POther (the (failExists io))), rec, db)
        else
          case (if wants_seq rec db
                then case nextEventSeq io (AccountID rec) (the (seqTable db)) of (r, m) \<Rightarrow> (r, db\<lparr>seqTable := Some m\<rparr>)
                else (Inr (EventSeq rec), db)) of
            (Inl e, db1) \<Rightarrow> (Some e, rec, db1)
          | (Inr sq, db1) \<Rightarrow>
              (case failCreate io of
                 Some e \<Rightarrow>
                   (case ConstraintError (Some e) of
                      Some ce \<Rightarrow> (Some ce, rec, db1)
                    | None \<Rightarrow> (Some (PWrap ''append outbox row'' (POther e)), rec, db1))
               | None \<Rightarrow>
                   (None, rec\<lparr>EventSeq := sq, EventEpoch := EventEpoch (new_row tnow tok rec sq)\<rparr>,
                    db1\<lparr>orows := orows db1 @ [new_row tnow tok rec sq]\<rparr>)))"

text \<open>\<^verbatim>\<open>ReadAfter\<close>: the keyset query, ordered and limited by the database. Ids compare bytewise.\<close>

definition keyset :: "OutboxCursor \<Rightarrow> OutboxRecord \<Rightarrow> bool" where
  "keyset c r \<longleftrightarrow> CreatedTime r > curTime c \<or> (CreatedTime r = curTime c \<and> ID r > curID c)"

definition gorm_ReadAfter :: "string option \<Rightarrow> OutboxCursor \<Rightarrow> int \<Rightarrow> outbox_db \<Rightarrow> perr + OutboxRecord list" where
  "gorm_ReadAfter fault c limit db =
     (case fault of
        Some e \<Rightarrow> Inl (PWrap ''read outbox after cursor'' (POther e))
      | None \<Rightarrow>
          Inr (take (nat (if limit \<le> 0 then 100 else limit))
                 (sort_key rank (filter (\<lambda>r. cursor_IsZero c \<or> keyset c r) (orows db)))))"

section \<open>The sidecar tables\<close>

record OutboxCursorRow =
  crName :: string
  CursorTime :: go_time
  CursorID :: string
  HeadFailures :: int

record OutboxDeadLetterRow =
  drID :: nat
  drCursorName :: string
  drEventID :: string
  drEventType :: string
  drReason :: string
  drCreatedTime :: go_time
  RecordedAt :: go_time

record sidecar_db =
  cursorRows :: "OutboxCursorRow list"
  deadRows :: "OutboxDeadLetterRow list"

definition gorm_LoadCursor :: "string option \<Rightarrow> string \<Rightarrow> sidecar_db \<Rightarrow> perr + OutboxCursor \<times> int" where
  "gorm_LoadCursor fault name d =
     (case fault of
        Some e \<Rightarrow> Inl (PWrap (''load cursor '' @ name) (POther e))
      | None \<Rightarrow>
          (case find (\<lambda>r. crName r = name) (cursorRows d) of
             None \<Rightarrow> Inr (zero_cursor, 0)
           | Some r \<Rightarrow> Inr (\<lparr>curTime = CursorTime r, curID = CursorID r\<rparr>, HeadFailures r)))"

text \<open>\<^verbatim>\<open>Save\<close> updates the row of the primary key, or inserts it.\<close>

definition upsert_cursor :: "OutboxCursorRow \<Rightarrow> OutboxCursorRow list \<Rightarrow> OutboxCursorRow list" where
  "upsert_cursor r rs =
     (if crName r \<in> set (map crName rs) then map (\<lambda>x. if crName x = crName r then r else x) rs else rs @ [r])"

definition gorm_SaveCursor :: "string option \<Rightarrow> string \<Rightarrow> OutboxCursor \<Rightarrow> int \<Rightarrow> sidecar_db \<Rightarrow> perr option \<times> sidecar_db" where
  "gorm_SaveCursor fault name c n d =
     (case fault of
        Some e \<Rightarrow> (Some (PWrap (''save cursor '' @ name) (POther e)), d)
      | None \<Rightarrow>
          (None, d\<lparr>cursorRows := upsert_cursor \<lparr>crName = name, CursorTime = curTime c, CursorID = curID c, HeadFailures = n\<rparr> (cursorRows d)\<rparr>))"

definition gorm_DeadLetter :: "string option \<Rightarrow> go_time \<Rightarrow> string \<Rightarrow> OutboxRecord \<Rightarrow> string \<Rightarrow> sidecar_db \<Rightarrow> perr option \<times> sidecar_db" where
  "gorm_DeadLetter fault tnow name rec reason d =
     (case fault of
        Some e \<Rightarrow> (Some (PWrap (''dead-letter '' @ ID rec) (POther e)), d)
      | None \<Rightarrow>
          (None, d\<lparr>deadRows := deadRows d @ [\<lparr>drID = Suc (length (deadRows d)), drCursorName = name, drEventID = ID rec,
             drEventType = EventType rec, drReason = reason, drCreatedTime = CreatedTime rec, RecordedAt = tnow\<rparr>]\<rparr>))"

section \<open>Concurrent producers\<close>

text \<open>
  A transaction holds its rows and its changes of the allocator until it commits; the row lock of \<^verbatim>\<open>FOR UPDATE\<close> (the
  write lock of the whole database under SQLite) keeps two transactions from allocating for one tenant at a time. A
  producer runs \<^verbatim>\<open>Publish\<close>, whose row \<open>outbox_row\<close> carries no sequence; when an \<^verbatim>\<open>Append\<close> fails, the function run by
  \<^verbatim>\<open>Atomically\<close> returns its error and the transaction is rolled back.
\<close>

record outbox_tx =
  tpend :: "OutboxRecord list"
  tseq :: "string \<Rightarrow> int option"
  tlocks :: "string set"
  tfailed :: bool

record outbox_world =
  committed :: outbox_db
  open_txs :: "nat \<Rightarrow> outbox_tx option"

definition begin_tx :: outbox_tx where
  "begin_tx = \<lparr>tpend = [], tseq = Map.empty, tlocks = {}, tfailed = False\<rparr>"

definition merged :: "(string \<Rightarrow> int option) \<Rightarrow> outbox_tx \<Rightarrow> string \<Rightarrow> int option" where
  "merged m t a = (if a \<in> tlocks t then tseq t a else m a)"

definition view :: "outbox_db \<Rightarrow> outbox_tx \<Rightarrow> outbox_db" where
  "view db t = \<lparr>orows = orows db @ tpend t, seqTable = map_option (\<lambda>m. merged m t) (seqTable db)\<rparr>"

definition locked_by_other :: "outbox_world \<Rightarrow> nat \<Rightarrow> string \<Rightarrow> bool" where
  "locked_by_other w p a \<longleftrightarrow> (\<exists>q t. q \<noteq> p \<and> open_txs w q = Some t \<and> a \<in> tlocks t)"

definition tx_after :: "outbox_tx \<Rightarrow> outbox_db \<Rightarrow> OutboxRecord \<Rightarrow> perr option \<Rightarrow> outbox_db \<Rightarrow> outbox_tx" where
  "tx_after t db rec res db' =
     \<lparr>tpend = drop (length (orows db)) (orows db'),
      tseq = (if wants_seq rec db then (case seqTable db' of Some m \<Rightarrow> m | None \<Rightarrow> Map.empty) else tseq t),
      tlocks = (if wants_seq rec db then insert (AccountID rec) (tlocks t) else tlocks t),
      tfailed = (res \<noteq> None)\<rparr>"

inductive outbox_step :: "outbox_world \<Rightarrow> outbox_world \<Rightarrow> bool" where
  tx_begin: "open_txs w p = None \<Longrightarrow> outbox_step w (w\<lparr>open_txs := (open_txs w)(p \<mapsto> begin_tx)\<rparr>)"
| tx_append: "open_txs w p = Some t \<Longrightarrow> \<not> tfailed t \<Longrightarrow> rec = outbox_row uuid tpub c evt \<Longrightarrow>
    wants_seq rec (committed w) \<longrightarrow> \<not> locked_by_other w p (AccountID rec) \<Longrightarrow>
    gorm_Append io tnow GormTx tok rec (view (committed w) t) = (res, rec', db') \<Longrightarrow>
    outbox_step w (w\<lparr>open_txs := (open_txs w)(p \<mapsto> tx_after t (committed w) rec res db')\<rparr>)"
| tx_commit: "open_txs w p = Some t \<Longrightarrow> \<not> tfailed t \<Longrightarrow>
    outbox_step w (w\<lparr>committed := view (committed w) t, open_txs := (open_txs w)(p := None)\<rparr>)"
| tx_rollback: "open_txs w p = Some t \<Longrightarrow> outbox_step w (w\<lparr>open_txs := (open_txs w)(p := None)\<rparr>)"

inductive_cases outbox_stepE: "outbox_step w w'"

section \<open>The sequence of a tenant\<close>

abbreviation of_tenant :: "string \<Rightarrow> OutboxRecord list \<Rightarrow> OutboxRecord list" where
  "of_tenant a rs \<equiv> filter (\<lambda>r. AccountID r = a) rs"

text \<open>The rows of the tenant carry the numbers after \<open>n\<close>, in their order.\<close>

fun chain :: "string \<Rightarrow> nat \<Rightarrow> OutboxRecord list \<Rightarrow> bool" where
  "chain a n [] \<longleftrightarrow> True"
| "chain a n (r # rs) \<longleftrightarrow>
     (if AccountID r = a then EventSeq r = wrap64 (int (Suc n)) \<and> chain a (Suc n) rs else chain a n rs)"

lemma chain_append: "chain a n (xs @ ys) \<longleftrightarrow> chain a n xs \<and> chain a (n + length (of_tenant a xs)) ys"
  by (induction xs arbitrary: n) auto

lemma chain_none: "of_tenant a rs = [] \<Longrightarrow> chain a n rs"
  by (induction rs) (auto split: if_splits)

lemma chain_numbers: "chain a n rs \<Longrightarrow> map EventSeq (of_tenant a rs) = map (\<lambda>i. wrap64 (int i)) [Suc n..<Suc n + length (of_tenant a rs)]"
proof (induction rs arbitrary: n)
  case (Cons r rs)
  show ?case
  proof (cases "AccountID r = a")
    case True
    then have "map EventSeq (of_tenant a rs) = map (\<lambda>i. wrap64 (int i)) [Suc (Suc n)..<Suc (Suc n) + length (of_tenant a rs)]"
      using Cons.IH [of "Suc n"] Cons.prems by simp
    with True Cons.prems show ?thesis by (simp add: upt_conv_Cons del: upt_Suc)
  qed (use Cons in simp)
qed simp

lemma wrap64_wrap: "wrap64 (wrap64 x + 1) = wrap64 (x + 1)"
proof -
  have "wrap64 x + 1 + 2 ^ 63 = (x + 2 ^ 63) mod 2 ^ 64 + 1" by (simp add: wrap64_def)
  then have "wrap64 (wrap64 x + 1) = ((x + 2 ^ 63) mod 2 ^ 64 + 1) mod 2 ^ 64 - 2 ^ 63"
    unfolding wrap64_def [of "wrap64 x + 1"] by (simp only:)
  also have "\<dots> = (x + 2 ^ 63 + 1) mod 2 ^ 64 - 2 ^ 63" by (simp only: mod_add_left_eq)
  also have "x + 2 ^ 63 + 1 = x + 1 + 2 ^ 63" by simp
  finally show ?thesis by (simp only: wrap64_def)
qed

lemma merged_nil: "tlocks t = {} \<Longrightarrow> merged m t = m"
  by (simp add: merged_def fun_eq_iff)

text \<open>What one allocation does.\<close>

lemma nextEventSeq_ok:
  assumes "nextEventSeq io a m = (Inr n, m')"
  shows "n = wrap64 (get_or 0 m a + 1)" "m' = (if m a = None then m(a \<mapsto> 0) else m)(a \<mapsto> n)"
  using assms by (auto simp: nextEventSeq_def Let_def get_or_def split: option.splits if_splits)

lemma nextEventSeq_other: "nextEventSeq io a m = (r, m') \<Longrightarrow> b \<noteq> a \<Longrightarrow> m' b = m b"
  by (auto simp: nextEventSeq_def Let_def split: option.splits if_splits)

text \<open>An \<^verbatim>\<open>Append\<close> that succeeds.\<close>

lemma gorm_Append_ok:
  assumes "gorm_Append io tnow GormTx tok rec db = (None, rec', db')"
  shows "\<not> wants_seq rec db \<Longrightarrow> orows db' = orows db @ [new_row tnow tok rec (EventSeq rec)] \<and> seqTable db' = seqTable db"
    "wants_seq rec db \<Longrightarrow> seqTable db = Some m \<Longrightarrow> n = wrap64 (get_or 0 m (AccountID rec) + 1)
      \<Longrightarrow> orows db' = orows db @ [new_row tnow tok rec n] \<and> seqTable db' = Some (m(AccountID rec \<mapsto> n))"
proof -
  assume nw: "\<not> wants_seq rec db"
  then show "orows db' = orows db @ [new_row tnow tok rec (EventSeq rec)] \<and> seqTable db' = seqTable db"
    using assms by (auto simp: gorm_Append_def Let_def split: if_splits option.splits)
next
  assume w: "wants_seq rec db" "seqTable db = Some m" "n = wrap64 (get_or 0 m (AccountID rec) + 1)"
  obtain q m' where q: "nextEventSeq io (AccountID rec) m = (q, m')" by fastforce
  show "orows db' = orows db @ [new_row tnow tok rec n] \<and> seqTable db' = Some (m(AccountID rec \<mapsto> n))"
  proof (cases q)
    case (Inl e)
    then show ?thesis using assms w q by (simp add: gorm_Append_def Let_def split: if_splits)
  next
    case (Inr sq)
    have "sq = n" "m' = m(AccountID rec \<mapsto> n)"
      using nextEventSeq_ok [of io "AccountID rec" m sq m'] q Inr w(3) by simp_all
    then show ?thesis
      using assms w(1,2) q Inr by (auto simp: gorm_Append_def Let_def split: if_splits option.splits)
  qed
qed

lemma new_row_sel [simp]: "AccountID (new_row tnow tok rec n) = AccountID rec" "EventSeq (new_row tnow tok rec n) = n"
  by (simp_all add: new_row_def)

text \<open>
  The invariant for a tenant: the committed rows are numbered from 1 and the allocator is at their number; the pending
  rows of the transaction that holds the tenant's lock continue the numbering; other transactions have no row of it.
\<close>

definition pending_ok :: "string \<Rightarrow> nat \<Rightarrow> outbox_tx \<Rightarrow> bool" where
  "pending_ok a n t \<longleftrightarrow>
     (if a \<in> tlocks t
      then chain a n (tpend t) \<and> get_or 0 (tseq t) a = wrap64 (int (n + length (of_tenant a (tpend t))))
      else of_tenant a (tpend t) = [])"

definition seq_inv :: "string \<Rightarrow> outbox_world \<Rightarrow> bool" where
  "seq_inv a w \<longleftrightarrow>
     (\<exists>m. seqTable (committed w) = Some m
        \<and> chain a 0 (orows (committed w))
        \<and> get_or 0 m a = wrap64 (int (length (of_tenant a (orows (committed w)))))
        \<and> (\<forall>p t. open_txs w p = Some t \<longrightarrow> \<not> tfailed t \<longrightarrow> pending_ok a (length (of_tenant a (orows (committed w)))) t)
        \<and> (\<forall>p q t u. open_txs w p = Some t \<longrightarrow> open_txs w q = Some u \<longrightarrow> a \<in> tlocks t \<longrightarrow> a \<in> tlocks u \<longrightarrow> p = q))"

lemma seq_invD:
  assumes "seq_inv a w" "open_txs w p = Some t"
  shows "\<not> tfailed t \<Longrightarrow> pending_ok a (length (of_tenant a (orows (committed w)))) t"
    "open_txs w q = Some u \<Longrightarrow> a \<in> tlocks t \<Longrightarrow> a \<in> tlocks u \<Longrightarrow> p = q"
  using assms unfolding seq_inv_def by blast+

lemma seq_inv_open:
  assumes "seq_inv a w"
    and "\<not> tfailed t \<Longrightarrow> pending_ok a (length (of_tenant a (orows (committed w)))) t"
    and "\<And>q u. q \<noteq> p \<Longrightarrow> open_txs w q = Some u \<Longrightarrow> a \<in> tlocks t \<Longrightarrow> a \<notin> tlocks u"
  shows "seq_inv a (w\<lparr>open_txs := (open_txs w)(p \<mapsto> t)\<rparr>)"
  using assms unfolding seq_inv_def by (auto split: if_splits)

lemma view_simps [simp]:
  "orows (view db t) = orows db @ tpend t" "wants_seq rec (view db t) = wants_seq rec db"
  "seqTable (view db t) = map_option (\<lambda>m. merged m t) (seqTable db)"
  by (simp_all add: view_def wants_seq_def)

lemma append_pending:
  assumes inv: "seq_inv a w" and t: "open_txs w p = Some t" "\<not> tfailed t" and a: "a \<noteq> []" and r: "EventSeq rec = 0"
    and run: "gorm_Append io tnow GormTx tok rec (view (committed w) t) = (None, rec', db')"
  shows "pending_ok a (length (of_tenant a (orows (committed w)))) (tx_after t (committed w) rec None db')"
proof -
  let ?n = "length (of_tenant a (orows (committed w)))"
  obtain m where m: "seqTable (committed w) = Some m" "get_or 0 m a = wrap64 (int ?n)"
    using inv unfolding seq_inv_def by blast
  have old: "pending_ok a ?n t" by (rule seq_invD(1) [OF inv t])
  show ?thesis
  proof (cases "wants_seq rec (committed w)")
    case False
    then have "AccountID rec \<noteq> a" using a r m(1) by (auto simp: wants_seq_def)
    then show ?thesis
      using gorm_Append_ok(1) [OF run] False old by (simp add: pending_ok_def tx_after_def chain_append)
  next
    case True
    let ?k = "wrap64 (get_or 0 (merged m t) (AccountID rec) + 1)"
    have db': "orows db' = orows (committed w) @ tpend t @ [new_row tnow tok rec ?k]"
      "seqTable db' = Some ((merged m t)(AccountID rec \<mapsto> ?k))"
      using gorm_Append_ok(2) [OF run] True m(1) by simp_all
    show ?thesis
    proof (cases "AccountID rec = a")
      case same: True
      have cur: "chain a ?n (tpend t)" "get_or 0 (merged m t) a = wrap64 (int (?n + length (of_tenant a (tpend t))))"
        using old m(2) by (auto simp: pending_ok_def merged_def get_or_def chain_none split: if_splits)
      have "?k = wrap64 (wrap64 (int (?n + length (of_tenant a (tpend t)))) + 1)" using same cur(2) by simp
      also have "\<dots> = wrap64 (int (?n + length (of_tenant a (tpend t))) + 1)" by (rule wrap64_wrap)
      also have "int (?n + length (of_tenant a (tpend t))) + 1 = int (Suc (?n + length (of_tenant a (tpend t))))" by simp
      finally show ?thesis using True same cur db' by (simp add: pending_ok_def tx_after_def chain_append)
    next
      case other: False
      then show ?thesis
        using True db' old by (cases "a \<in> tlocks t") (simp_all add: pending_ok_def tx_after_def chain_append merged_def get_or_def)
    qed
  qed
qed

lemma outbox_row_unsequenced: "EventSeq (outbox_row uuid tpub c evt) = 0"
  by (simp add: outbox_row_def)

lemma tx_after_failed: "tfailed (tx_after t db rec (Some e) db')"
  by (simp add: tx_after_def)

lemma commit_inv:
  assumes inv: "seq_inv a w" and t: "open_txs w p = Some t" "\<not> tfailed t"
  shows "seq_inv a (w\<lparr>committed := view (committed w) t, open_txs := (open_txs w)(p := None)\<rparr>)"
proof -
  obtain m where m: "seqTable (committed w) = Some m" "chain a 0 (orows (committed w))"
    "get_or 0 m a = wrap64 (int (length (of_tenant a (orows (committed w)))))"
    using inv unfolding seq_inv_def by blast
  note old = seq_invD(1) [OF inv t]
  have all: "chain a 0 (orows (committed w) @ tpend t)"
    using m(2) old by (auto simp: chain_append pending_ok_def chain_none split: if_splits)
  have cnt: "get_or 0 (merged m t) a = wrap64 (int (length (of_tenant a (orows (committed w) @ tpend t))))"
    using m(3) old by (auto simp: pending_ok_def merged_def get_or_def split: if_splits)
  have rest: "pending_ok a (length (of_tenant a (orows (committed w) @ tpend t))) u"
    if u: "open_txs w q = Some u" "q \<noteq> p" "\<not> tfailed u" for q u
  proof (cases "a \<in> tlocks t")
    case True
    then have "a \<notin> tlocks u" using seq_invD(2) [OF inv t(1) u(1)] u(2) by auto
    then show ?thesis using seq_invD(1) [OF inv u(1,3)] by (simp add: pending_ok_def)
  next
    case False
    then show ?thesis using seq_invD(1) [OF inv u(1,3)] old by (simp add: pending_ok_def)
  qed
  show ?thesis unfolding seq_inv_def
    by (rule exI [of _ "merged m t"]) (use m(1) all cnt rest seq_invD(2) [OF inv] in \<open>auto split: if_splits\<close>)
qed

lemma outbox_step_inv:
  assumes "outbox_step w w'" "seq_inv a w" "a \<noteq> []"
  shows "seq_inv a w'"
  using assms(1)
proof cases
  case (tx_begin p)
  show ?thesis unfolding tx_begin(1)
    by (rule seq_inv_open [OF assms(2)]) (simp_all add: begin_tx_def pending_ok_def)
next
  case (tx_append p t rec uuid tpub c evt io tnow tok res rec' db')
  have seq: "EventSeq rec = 0" using tx_append(4) by (simp add: outbox_row_unsequenced)
  obtain m where m: "seqTable (committed w) = Some m" using assms(2) unfolding seq_inv_def by blast
  show ?thesis unfolding tx_append(1)
  proof (rule seq_inv_open [OF assms(2)])
    show "pending_ok a (length (of_tenant a (orows (committed w)))) (tx_after t (committed w) rec res db')"
      if "\<not> tfailed (tx_after t (committed w) rec res db')"
    proof (cases res)
      case None
      then show ?thesis using append_pending [OF assms(2) tx_append(2,3) assms(3) seq] tx_append(6) by simp
    next
      case (Some e)
      then show ?thesis using that by (simp add: tx_after_failed)
    qed
    show "a \<notin> tlocks u" if "q \<noteq> p" "open_txs w q = Some u" "a \<in> tlocks (tx_after t (committed w) rec res db')" for q u
    proof
      assume u: "a \<in> tlocks u"
      show False
      proof (cases "a \<in> tlocks t")
        case True
        then show False using seq_invD(2) [OF assms(2) tx_append(2) that(2)] u that(1) by simp
      next
        case False
        then have "wants_seq rec (committed w)" "AccountID rec = a"
          using that(3) by (auto simp: tx_after_def split: if_splits)
        then show False using tx_append(5) that(1,2) u unfolding locked_by_other_def by auto
      qed
    qed
  qed
next
  case (tx_commit p t)
  then show ?thesis using commit_inv [OF assms(2)] by simp
next
  case (tx_rollback p t)
  then show ?thesis using assms(2) unfolding seq_inv_def by (auto split: if_splits)
qed

lemma outbox_steps_inv: "outbox_step\<^sup>*\<^sup>* w w' \<Longrightarrow> seq_inv a w \<Longrightarrow> a \<noteq> [] \<Longrightarrow> seq_inv a w'"
  by (induction rule: rtranclp_induct) (auto intro: outbox_step_inv)

definition fresh_outbox :: outbox_world where
  "fresh_outbox = \<lparr>committed = \<lparr>orows = [], seqTable = Some Map.empty\<rparr>, open_txs = Map.empty\<rparr>"

lemma fresh_inv: "seq_inv a fresh_outbox"
  by (simp add: seq_inv_def fresh_outbox_def get_or_def wrap64_def)

section \<open>Properties of the outbox\<close>


definition no_io :: append_io where
  "no_io = \<lparr>failExists = None, failEnsure = None, failLock = None, failAdvance = None, failCreate = None\<rparr>"

definition numbered :: OutboxRecord where
  "numbered = new_row 6 None (outbox_row [] 5 background changed) 1"

definition after_commit :: outbox_world where
  "after_commit = \<lparr>committed = \<lparr>orows = [numbered], seqTable = Some [''acct'' \<mapsto> 1]\<rparr>, open_txs = Map.empty\<rparr>"

lemma changed_append:
  "gorm_Append no_io 6 GormTx None (outbox_row [] 5 background changed) (view (committed fresh_outbox) begin_tx)
     = (None, (outbox_row [] 5 background changed)\<lparr>EventSeq := 1, EventEpoch := 0\<rparr>,
        \<lparr>orows = [numbered], seqTable = Some [''acct'' \<mapsto> 1]\<rparr>)"
  by (simp add: gorm_Append_def no_io_def fresh_outbox_def begin_tx_def view_def merged_nil wants_seq_def nextEventSeq_def
      outbox_row_def changed_def numbered_def new_row_def Let_def get_or_def wrap64_def)

lemma append_run: "outbox_step\<^sup>*\<^sup>* fresh_outbox after_commit"
proof -
  let ?rec = "outbox_row [] 5 background changed"
  let ?db = "\<lparr>orows = [numbered], seqTable = Some [''acct'' \<mapsto> 1 :: int]\<rparr>"
  let ?t = "tx_after begin_tx (committed fresh_outbox) ?rec None ?db"
  let ?w1 = "fresh_outbox\<lparr>open_txs := (open_txs fresh_outbox)(0 \<mapsto> begin_tx)\<rparr>"
  let ?w2 = "?w1\<lparr>open_txs := (open_txs ?w1)(0 \<mapsto> ?t)\<rparr>"
  have s1: "outbox_step fresh_outbox ?w1" by (rule tx_begin) (simp add: fresh_outbox_def)
  have s2: "outbox_step ?w1 ?w2"
  proof -
    have c: "committed ?w1 = committed fresh_outbox" "open_txs ?w1 0 = Some begin_tx" "\<not> tfailed begin_tx"
      "wants_seq ?rec (committed ?w1) \<longrightarrow> \<not> locked_by_other ?w1 0 (AccountID ?rec)"
      by (simp_all add: begin_tx_def locked_by_other_def fresh_outbox_def)
    show ?thesis
      using tx_append [OF c(2,3) refl c(4) changed_append [folded c(1)]] by (simp only: c(1))
  qed
  have s3: "outbox_step ?w2 (?w2\<lparr>committed := view (committed ?w2) ?t, open_txs := (open_txs ?w2)(0 := None)\<rparr>)"
    by (rule tx_commit) (simp_all add: tx_after_def)
  have fin: "?w2\<lparr>committed := view (committed ?w2) ?t, open_txs := (open_txs ?w2)(0 := None)\<rparr> = after_commit"
    by (auto simp: after_commit_def view_def fresh_outbox_def tx_after_def wants_seq_def outbox_row_def changed_def begin_tx_def
        merged_def fun_eq_iff)
  from s1 have "outbox_step\<^sup>*\<^sup>* fresh_outbox ?w1" by (rule r_into_rtranclp)
  from this s2 have "outbox_step\<^sup>*\<^sup>* fresh_outbox ?w2" by (rule rtranclp.rtrancl_into_rtrancl)
  from this s3 show ?thesis unfolding fin by (rule rtranclp.rtrancl_into_rtrancl)
qed


text \<open>The keyset query returns the rows that \<open>ReadAfter\<close> of the reference store returns.\<close>

lemma gorm_read_eq: "gorm_ReadAfter None c limit db = Inr (ReadAfter c limit (orows db))"
proof -
  have "filter (\<lambda>r. cursor_IsZero c \<or> keyset c r) (orows db) = filter (cursorBefore c) (orows db)"
    by (rule filter_cong) (auto simp: cursorBefore_def keyset_def)
  then show ?thesis
    by (simp add: gorm_ReadAfter_def ReadAfter_eq after_def in_order_def filter_sort batch_size_def)
qed

text \<open>The allocator's table has the namespace of the outbox table.\<close>

lemma eventSeqTable_namespaced: "eventSeqTable (ns @ outboxBaseTable) = ns @ eventSeqBaseTable"
  by (simp add: eventSeqTable_def has_suffix_iff)

section \<open>The sidecar tables refine the in-memory sidecar\<close>

definition cursor_of :: "OutboxCursorRow \<Rightarrow> cursorState" where
  "cursor_of r = \<lparr>cs_cursor = \<lparr>curTime = CursorTime r, curID = CursorID r\<rparr>, cs_headFailures = HeadFailures r\<rparr>"

definition letter_of :: "OutboxDeadLetterRow \<Rightarrow> DeadLetterRecord" where
  "letter_of r = \<lparr>CursorName = drCursorName r, dlEventID = drEventID r, dlEventType = drEventType r, Reason = drReason r,
     Position = \<lparr>curTime = drCreatedTime r, curID = drEventID r\<rparr>\<rparr>"

definition abs_sidecar :: "sidecar_db \<Rightarrow> MemoryOutboxCursorStore" where
  "abs_sidecar d = \<lparr>cursors = (\<lambda>name. map_option cursor_of (find (\<lambda>r. crName r = name) (cursorRows d))),
     dead = map letter_of (deadRows d)\<rparr>"

lemma find_map_same:
  "find (\<lambda>x. crName x = n) (map (\<lambda>x. if crName x = crName r then r else x) rs)
     = (if n = crName r then (if n \<in> crName ` set rs then Some r else None) else find (\<lambda>x. crName x = n) rs)"
  by (induction rs) auto

lemma find_append_one: "find P (rs @ [r]) = (case find P rs of Some x \<Rightarrow> Some x | None \<Rightarrow> if P r then Some r else None)"
  by (induction rs) auto

lemma find_absent: "n \<notin> crName ` set rs \<Longrightarrow> find (\<lambda>x. crName x = n) rs = None"
  by (induction rs) auto

lemma find_upsert:
  "find (\<lambda>x. crName x = n) (upsert_cursor r rs) = (if n = crName r then Some r else find (\<lambda>x. crName x = n) rs)"
  by (auto simp: upsert_cursor_def find_map_same find_append_one find_absent split: option.splits)

lemma gorm_sidecar_abs:
  "gorm_LoadCursor None name d = Inr (LoadCursor name (abs_sidecar d))"
  "map_prod id abs_sidecar (gorm_SaveCursor None name c n d) = (None, SaveCursor name c n (abs_sidecar d))"
  "map_prod id abs_sidecar (gorm_DeadLetter None tnow name rec why d) = (None, DeadLetter name rec why (abs_sidecar d))"
proof -
  show "gorm_LoadCursor None name d = Inr (LoadCursor name (abs_sidecar d))"
    by (simp add: gorm_LoadCursor_def LoadCursor_def abs_sidecar_def get_or_def cursor_of_def split: option.split)
  show "map_prod id abs_sidecar (gorm_SaveCursor None name c n d) = (None, SaveCursor name c n (abs_sidecar d))"
    by (auto simp: gorm_SaveCursor_def SaveCursor_def abs_sidecar_def find_upsert cursor_of_def fun_eq_iff)
  show "map_prod id abs_sidecar (gorm_DeadLetter None tnow name rec why d) = (None, DeadLetter name rec why (abs_sidecar d))"
    by (simp add: gorm_DeadLetter_def DeadLetter_def abs_sidecar_def letter_of_def letter_def pos_of_def)
qed


section \<open>The relay over the database stores\<close>

record 'b gorm_world =
  gdb :: outbox_db
  gside :: sidecar_db
  gaccepted :: "(string \<times> BusMessage) list"
  gleaderFull :: bool
  gclock :: go_time
  gbus :: 'b

definition gorm_relay :: "'b transport \<Rightarrow> string \<Rightarrow> int \<Rightarrow> 'b gorm_world Relay" where
  "gorm_relay pub name n = WithRelayMaxAttempts n (WithRelayCursorName name
     \<lparr>relay_ReadAfter = (\<lambda>c k s. gorm_ReadAfter None c k (gdb s)),
      relay_LoadCursor = (\<lambda>nm s. gorm_LoadCursor None nm (gside s)),
      relay_SaveCursor = (\<lambda>nm c k s. case gorm_SaveCursor None nm c k (gside s) of (e, d) \<Rightarrow> (e, s\<lparr>gside := d\<rparr>)),
      relay_DeadLetter = (\<lambda>nm rec why s. case gorm_DeadLetter None (gclock s) nm rec why (gside s) of (e, d) \<Rightarrow> (e, s\<lparr>gside := d\<rparr>)),
      relay_Publish = (\<lambda>topic msg s.
        case pub topic msg (gbus s) of
          (None, b) \<Rightarrow> (None, s\<lparr>gbus := b, gaccepted := gaccepted s @ [(topic, msg)]\<rparr>)
        | (Some e, b) \<Rightarrow> (Some e, s\<lparr>gbus := b\<rparr>)),
      relay_TryAcquire = (\<lambda>s. case spl_TryAcquire (gleaderFull s) of (ok, l) \<Rightarrow> (Inr ok, s\<lparr>gleaderFull := l\<rparr>)),
      relay_Release = (\<lambda>s. s\<lparr>gleaderFull := spl_Release (gleaderFull s)\<rparr>),
      cursorName = ''default'', topicOf = busTopicForEvent, keyOf = busKeyForEvent,
      maxAttempts = DefaultMaxOutboxAttempts\<rparr>)"

abbreviation gorm_position :: "'b gorm_world Relay \<Rightarrow> 'b gorm_world \<Rightarrow> OutboxCursor \<times> int" where
  "gorm_position R s \<equiv> LoadCursor (cursorName R) (abs_sidecar (gside s))"

abbreviation gorm_letters :: "'b gorm_world \<Rightarrow> DeadLetterRecord list" where
  "gorm_letters s \<equiv> dead (abs_sidecar (gside s))"

lemma gorm_relay_ops:
  "relay_LoadCursor (gorm_relay pub name n) nm s = gorm_LoadCursor None nm (gside s)"
  "relay_ReadAfter (gorm_relay pub name n) c l s = gorm_ReadAfter None c l (gdb s)"
  "relay_SaveCursor (gorm_relay pub name n) nm c h s
     = (case gorm_SaveCursor None nm c h (gside s) of (e, d) \<Rightarrow> (e, s\<lparr>gside := d\<rparr>))"
  "relay_DeadLetter (gorm_relay pub name n) nm r why s
     = (case gorm_DeadLetter None (gclock s) nm r why (gside s) of (e, d) \<Rightarrow> (e, s\<lparr>gside := d\<rparr>))"
  "relay_Publish (gorm_relay pub name n) t m s
     = (case pub t m (gbus s) of
          (None, b) \<Rightarrow> (None, s\<lparr>gbus := b, gaccepted := gaccepted s @ [(t, m)]\<rparr>)
        | (Some e, b) \<Rightarrow> (Some e, s\<lparr>gbus := b\<rparr>))"
  by (simp_all add: gorm_relay_def WithRelayCursorName_def WithRelayMaxAttempts_def)

lemma gorm_save_abs:
  obtains d' where "gorm_SaveCursor None nm c h d = (None, d')" "abs_sidecar d' = SaveCursor nm c h (abs_sidecar d)"
  using gorm_sidecar_abs(2) [of nm c h d] by (cases "gorm_SaveCursor None nm c h d") auto

lemma gorm_dead_abs:
  obtains d' where "gorm_DeadLetter None t nm r why d = (None, d')" "abs_sidecar d' = DeadLetter nm r why (abs_sidecar d)"
  using gorm_sidecar_abs(3) [of t nm r why d] by (cases "gorm_DeadLetter None t nm r why d") auto

interpretation gorm: quiet_stores "gorm_relay pub name n" "\<lambda>s. orows (gdb s)" "gorm_position (gorm_relay pub name n)"
  gorm_letters gaccepted
  for pub name n
proof unfold_locales
  let ?R = "gorm_relay pub name n"
  show "relay_LoadCursor ?R (cursorName ?R) s = Inr (gorm_position ?R s)" for s
    by (simp add: gorm_relay_ops gorm_sidecar_abs(1))
  show "relay_ReadAfter ?R c k s = Inr (ReadAfter c k (orows (gdb s)))" for c k s
    by (simp add: gorm_relay_ops gorm_read_eq)
  show "\<exists>s'. relay_SaveCursor ?R (cursorName ?R) c h s = (None, s') \<and> gorm_position ?R s' = (c, h)
      \<and> gorm_letters s' = gorm_letters s \<and> gaccepted s' = gaccepted s \<and> orows (gdb s') = orows (gdb s)" for c h s
    by (rule gorm_save_abs [of "cursorName ?R" c h "gside s"]) (simp add: gorm_relay_ops)
  show "\<exists>s'. relay_DeadLetter ?R (cursorName ?R) r why s = (None, s') \<and> gorm_position ?R s' = gorm_position ?R s
      \<and> gorm_letters s' = gorm_letters s @ [letter (cursorName ?R) r why] \<and> gaccepted s' = gaccepted s
      \<and> orows (gdb s') = orows (gdb s)" for r why s
    by (rule gorm_dead_abs [of "gclock s" "cursorName ?R" r why "gside s"]) (simp add: gorm_relay_ops)
  show "gorm_position ?R s' = gorm_position ?R s \<and> gorm_letters s' = gorm_letters s
      \<and> gaccepted s' = (if e = None then gaccepted s @ [(t, m)] else gaccepted s)"
    if "relay_Publish ?R t m s = (e, s')" for t m s e s'
    using that by (auto simp: gorm_relay_ops split: prod.splits option.splits)
  show "orows (gdb (snd (relay_Publish ?R t m s))) = orows (gdb s)" for t m s
    by (auto simp: gorm_relay_ops split: prod.split option.split)
qed

text \<open>The relay drains the database outbox: what holds of the relay over the in-memory stores holds of it over the tables.\<close>

theorem gorm_relay_drains:
  assumes "rows_ok (orows (gdb s))" "gorm_position (gorm_relay pub name n) s = (c, h)"
    and "0 \<le> h" "h < maxAttempts (gorm_relay pub name n)"
    and "nat (maxAttempts (gorm_relay pub name n)) * length (after c (orows (gdb s))) \<le> k"
  shows "\<exists>sn dn ls s'. s' = ((\<lambda>s. snd (PumpOnce (gorm_relay pub name n) limit s)) ^^ k) s
    \<and> after c (orows (gdb s)) \<in> shuffles sn dn
    \<and> gaccepted s' = gaccepted s @ map (message (gorm_relay pub name n)) sn
    \<and> gorm_letters s' = gorm_letters s @ ls \<and> map Position ls = map pos_of dn
    \<and> after (fst (gorm_position (gorm_relay pub name n) s')) (orows (gdb s')) = []"
  by (rule gorm.drains) (use assms in simp_all)

end
