(* ===== verification/Persist_Names.thy ===== *)
theory Persist_Names
  imports Filter_Print "HOL-Library.Sublist"
begin

text \<open>
  Module namespaces: \<^verbatim>\<open>src/persistence/namespace.go\<close> (the schema or table prefix of a module, its qualified table names,
  its connection string and migration lock) and the identity part of \<^verbatim>\<open>src/servicekit/config.go\<close> (the host's database
  registry, configuration prefixes and metric namespaces). Strings are byte strings; \<open>runes\<close> decodes UTF-8 as Go's
  \<^verbatim>\<open>range\<close> over a string does.
\<close>

unbundle bit_operations_syntax

section \<open>Runes\<close>

definition cont_byte :: "nat \<Rightarrow> bool" where
  "cont_byte b \<longleftrightarrow> 0x80 \<le> b \<and> b \<le> 0xBF"

definition rune_error :: nat where
  "rune_error = 0xFFFD"

text \<open>\<^verbatim>\<open>utf8.DecodeRuneInString\<close>: the rune and its width; an invalid encoding is one byte read as U+FFFD.\<close>

definition second_ok :: "nat \<Rightarrow> nat \<Rightarrow> bool" where
  "second_ok a b \<longleftrightarrow>
     (if a = 0xE0 then 0xA0 \<le> b \<and> b \<le> 0xBF
      else if a = 0xED then 0x80 \<le> b \<and> b \<le> 0x9F
      else if a = 0xF0 then 0x90 \<le> b \<and> b \<le> 0xBF
      else if a = 0xF4 then 0x80 \<le> b \<and> b \<le> 0x8F
      else cont_byte b)"

fun decode_rune :: "nat list \<Rightarrow> nat \<times> nat" where
  "decode_rune (a # b # c # d # _) =
     (if a < 0x80 then (a, 1)
      else if 0xC2 \<le> a \<and> a \<le> 0xDF \<and> cont_byte b then ((a - 0xC0) * 64 + (b - 0x80), 2)
      else if 0xE0 \<le> a \<and> a \<le> 0xEF \<and> second_ok a b \<and> cont_byte c
      then ((a - 0xE0) * 4096 + (b - 0x80) * 64 + (c - 0x80), 3)
      else if 0xF0 \<le> a \<and> a \<le> 0xF4 \<and> second_ok a b \<and> cont_byte c \<and> cont_byte d
      then ((a - 0xF0) * 262144 + (b - 0x80) * 4096 + (c - 0x80) * 64 + (d - 0x80), 4)
      else (rune_error, 1))"
| "decode_rune [a, b, c] =
     (if a < 0x80 then (a, 1)
      else if 0xC2 \<le> a \<and> a \<le> 0xDF \<and> cont_byte b then ((a - 0xC0) * 64 + (b - 0x80), 2)
      else if 0xE0 \<le> a \<and> a \<le> 0xEF \<and> second_ok a b \<and> cont_byte c
      then ((a - 0xE0) * 4096 + (b - 0x80) * 64 + (c - 0x80), 3)
      else (rune_error, 1))"
| "decode_rune [a, b] =
     (if a < 0x80 then (a, 1)
      else if 0xC2 \<le> a \<and> a \<le> 0xDF \<and> cont_byte b then ((a - 0xC0) * 64 + (b - 0x80), 2)
      else (rune_error, 1))"
| "decode_rune [a] = (if a < 0x80 then (a, 1) else (rune_error, 1))"
| "decode_rune [] = (rune_error, 1)"

function runes :: "nat list \<Rightarrow> nat list" where
  "runes [] = []"
| "runes (b # bs) = (case decode_rune (b # bs) of (r, k) \<Rightarrow> r # runes (drop (k - 1) bs))"
  by pat_completeness auto
termination by (relation "measure length") auto

lemma runes_ascii: "list_all (\<lambda>b. b < 0x80) bs \<Longrightarrow> runes bs = bs"
proof (induction bs)
  case (Cons b bs)
  then have "decode_rune (b # bs) = (b, 1)" by (cases "b # bs" rule: decode_rune.cases) simp_all
  with Cons show ?case by simp
qed simp

section \<open>Identifiers\<close>

text \<open>
  \<^verbatim>\<open>strings.ToLower\<close> on runes, as far as a letter's lower case is ASCII: U+0130 and the Kelvin sign are the two runes
  outside ASCII of which it is. Every other rune outside ASCII is lowered to one outside ASCII, and those are all treated
  alike below.
\<close>

definition lower_rune :: "nat \<Rightarrow> nat" where
  "lower_rune r = (if 65 \<le> r \<and> r \<le> 90 then r + 32 else if r = 0x130 then 105 else if r = 0x212A then 107 else r)"

fun sanitize_from :: "bool \<Rightarrow> nat list \<Rightarrow> string" where
  "sanitize_from first [] = []"
| "sanitize_from first (r # rs) =
     (if (97 \<le> r \<and> r \<le> 122) \<or> r = 95 then [char_of r]
      else if 48 \<le> r \<and> r \<le> 57 then (if first then ''m'' else []) @ [char_of r]
      else ''_'') @ sanitize_from False rs"

definition sanitizeIdent :: "string \<Rightarrow> string" where
  "sanitizeIdent s =
     (let b = sanitize_from True (map lower_rune (runes (map of_char (TrimSpace s)))) in if b = [] then ''m'' else b)"

fun metric_chars :: "nat list \<Rightarrow> string" where
  "metric_chars [] = []"
| "metric_chars (r # rs) =
     (if (97 \<le> r \<and> r \<le> 122) \<or> (48 \<le> r \<and> r \<le> 57) then char_of r else CHR ''_'') # metric_chars rs"

definition metricToken :: "string \<Rightarrow> string" where
  "metricToken s = metric_chars (map lower_rune (runes (map of_char (TrimSpace s))))"

text \<open>\<^verbatim>\<open>hostMetricsRegistry.Namespace\<close>.\<close>

definition metrics_Namespace :: "string \<Rightarrow> string" where
  "metrics_Namespace moduleID = metricToken moduleID"

section \<open>Namespaces\<close>

record DatabaseNamespace =
  nsModuleID :: string
  nsEngine :: string
  nsSchema :: string
  nsTablePrefix :: string
  nsMigrationTable :: string
  nsRole :: string

definition zero_ns :: DatabaseNamespace where
  "zero_ns = \<lparr>nsModuleID = [], nsEngine = [], nsSchema = [], nsTablePrefix = [], nsMigrationTable = [], nsRole = []\<rparr>"

definition ns_IsZero :: "DatabaseNamespace \<Rightarrow> bool" where
  "ns_IsZero n \<longleftrightarrow> nsSchema n = [] \<and> nsTablePrefix n = []"

definition QualifyTable :: "DatabaseNamespace \<Rightarrow> string \<Rightarrow> string" where
  "QualifyTable n base =
     (if nsSchema n \<noteq> [] then nsSchema n @ ''.'' @ base
      else if nsTablePrefix n \<noteq> [] then nsTablePrefix n @ base
      else base)"

definition IsolationUnset :: string where "IsolationUnset = []"
definition IsolationSchemaRequired :: string where "IsolationSchemaRequired = ''schema-required''"
definition IsolationSchemaPreferred :: string where "IsolationSchemaPreferred = ''schema-preferred''"
definition IsolationPrefixRequired :: string where "IsolationPrefixRequired = ''prefix-required''"
definition IsolationDedicatedRequired :: string where "IsolationDedicatedRequired = ''dedicated-required''"

lemmas isolation_defs = IsolationUnset_def IsolationSchemaRequired_def IsolationSchemaPreferred_def
  IsolationPrefixRequired_def IsolationDedicatedRequired_def

definition engineSupportsSchema :: "string \<Rightarrow> bool" where
  "engineSupportsSchema engine \<longleftrightarrow> engine = ''postgres''"

definition migrationTableFor :: "DatabaseNamespace \<Rightarrow> string" where
  "migrationTableFor ns =
     (if nsSchema ns \<noteq> [] then ''schema_migrations''
      else if nsTablePrefix ns \<noteq> [] then nsTablePrefix ns @ ''schema_migrations''
      else ''schema_migrations'')"

datatype ns_err = NeedsModuleID | NeedsSchemaSupport string string | UnknownIsolation string

definition ResolveNamespace :: "string \<Rightarrow> string \<Rightarrow> string \<Rightarrow> string \<Rightarrow> string \<Rightarrow> ns_err + DatabaseNamespace" where
  "ResolveNamespace policy0 moduleID engine preferredSchema preferredPrefix =
     (if TrimSpace moduleID = [] then Inl NeedsModuleID
      else
        let policy = (if policy0 = IsolationUnset then IsolationSchemaPreferred else policy0);
            schema = (if preferredSchema = [] then sanitizeIdent moduleID else preferredSchema);
            pfx = (if preferredPrefix = [] then sanitizeIdent moduleID @ ''_'' else preferredPrefix);
            ns = zero_ns\<lparr>nsModuleID := moduleID, nsEngine := engine\<rparr>;
            r = (if policy = IsolationSchemaRequired
                 then if \<not> engineSupportsSchema engine then Inl (NeedsSchemaSupport policy engine)
                      else Inr (ns\<lparr>nsSchema := schema\<rparr>)
                 else if policy = IsolationSchemaPreferred
                 then if engineSupportsSchema engine then Inr (ns\<lparr>nsSchema := schema\<rparr>) else Inr (ns\<lparr>nsTablePrefix := pfx\<rparr>)
                 else if policy = IsolationPrefixRequired then Inr (ns\<lparr>nsTablePrefix := pfx\<rparr>)
                 else if policy = IsolationDedicatedRequired then Inr ns
                 else Inl (UnknownIsolation policy))
        in case r of
             Inl e \<Rightarrow> Inl e
           | Inr n \<Rightarrow> Inr (n\<lparr>nsMigrationTable := migrationTableFor n\<rparr>))"

definition isURLDSN :: "string \<Rightarrow> bool" where
  "isURLDSN dsn \<longleftrightarrow> has_prefix dsn ''postgres://'' \<or> has_prefix dsn ''postgresql://''"

definition hasQuery :: "string \<Rightarrow> bool" where
  "hasQuery dsn \<longleftrightarrow> CHR ''?'' \<in> set dsn"

definition NamespacedPostgresDSN :: "string \<Rightarrow> DatabaseNamespace \<Rightarrow> string" where
  "NamespacedPostgresDSN dsn ns =
     (if nsSchema ns = [] then dsn
      else let sp = nsSchema ns @ '',public'' in
        if isURLDSN dsn then dsn @ (if hasQuery dsn then ''&'' else ''?'') @ ''search_path='' @ sp
        else dsn @ '' search_path='' @ sp)"

text \<open>FNV-1a, 64 bits, read as a signed integer.\<close>

definition fnv64a :: "string \<Rightarrow> 64 word" where
  "fnv64a s = fold (\<lambda>c h. (h XOR of_nat (of_char c)) * 1099511628211) s 14695981039346656037"

definition ModuleMigrationLockKey :: "string \<Rightarrow> int" where
  "ModuleMigrationLockKey moduleID = sint (fnv64a (''devedge-sdk/migrate/module/'' @ moduleID))"

section \<open>The host's registries\<close>

record hostDatabaseRegistry =
  regEngine :: string
  regDefault :: string

record DatabaseDescriptor =
  Isolation :: string
  ddSchema :: string
  ddTablePrefix :: string

definition registry_Namespace :: "hostDatabaseRegistry \<Rightarrow> string \<Rightarrow> DatabaseDescriptor \<Rightarrow> ns_err + DatabaseNamespace" where
  "registry_Namespace r moduleID d =
     (if regEngine r = [] then Inr (zero_ns\<lparr>nsModuleID := moduleID\<rparr>)
      else let policy = (if Isolation d = IsolationUnset then regDefault r else Isolation d)
           in ResolveNamespace policy moduleID (regEngine r) (ddSchema d) (ddTablePrefix d))"

text \<open>Configuration prefixes; letters outside ASCII keep their case here.\<close>

definition trim_chars :: "(char \<Rightarrow> bool) \<Rightarrow> string \<Rightarrow> string" where
  "trim_chars P s = rev (dropWhile P (rev (dropWhile P s)))"

definition normalizePrefix :: "string \<Rightarrow> string" where
  "normalizePrefix p =
     (let q = trim_chars (\<lambda>c. c = CHR ''.'' \<or> c = CHR ''_'') (TrimSpace p)
      in if q = [] then [] else map up (map (\<lambda>c. if c = CHR ''.'' then CHR ''_'' else c) q))"

definition reservedConfigPrefixes :: "string list" where
  "reservedConfigPrefixes = [''RUNTIME'', ''DATABASE'', ''OBSERVABILITY'', ''AUTHZ'', ''EVENTS'']"

definition isReservedConfigPrefix :: "string \<Rightarrow> bool" where
  "isReservedConfigPrefix p \<longleftrightarrow> p \<in> set reservedConfigPrefixes"

type_synonym source = "string \<Rightarrow> string option"

definition prefixSource :: "string \<Rightarrow> source \<Rightarrow> source" where
  "prefixSource pfx src key = src (pfx @ key)"

text \<open>The sources a module's \<^verbatim>\<open>Load\<close> reads, \<^verbatim>\<open>scopedConfigProvider.Load\<close> up to the decoding of the fields.\<close>

definition scoped_sources :: "string \<Rightarrow> source list \<Rightarrow> source list" where
  "scoped_sources pfx srcs = (if pfx = [] then srcs else map (prefixSource (pfx @ ''_'')) srcs)"

definition providerFor :: "source list \<Rightarrow> string \<Rightarrow> source list" where
  "providerFor srcs pfx = scoped_sources (normalizePrefix pfx) srcs"

fun resolve :: "string \<Rightarrow> string \<Rightarrow> source list \<Rightarrow> string" where
  "resolve key dflt [] = dflt"
| "resolve key dflt (s # ss) = (case s key of Some v \<Rightarrow> v | None \<Rightarrow> resolve key dflt ss)"

section \<open>Legal identifiers\<close>

definition ident_char :: "char \<Rightarrow> bool" where
  "ident_char c \<longleftrightarrow> (97 \<le> byte c \<and> byte c \<le> 122) \<or> (48 \<le> byte c \<and> byte c \<le> 57) \<or> byte c = 95"

definition legal_ident :: "string \<Rightarrow> bool" where
  "legal_ident s \<longleftrightarrow> s \<noteq> [] \<and> list_all ident_char s \<and> \<not> isDigit (hd s)"

lemma byte_char_of: "n < 256 \<Longrightarrow> byte (char_of n) = n"
  by simp

lemma sanitize_chars: "list_all ident_char (sanitize_from f rs)"
  by (induction f rs rule: sanitize_from.induct) (auto simp: ident_char_def)

lemma sanitize_head: "sanitize_from True (r # rs) \<noteq> [] \<and> \<not> isDigit (hd (sanitize_from True (r # rs)))"
  by (auto simp: isDigit_def)

lemma sanitizeIdent_is_legal: "legal_ident (sanitizeIdent s)"
proof (cases "map lower_rune (runes (map of_char (TrimSpace s)))")
  case Nil
  then show ?thesis by (simp add: sanitizeIdent_def legal_ident_def ident_char_def isDigit_def)
next
  case (Cons r rs)
  show ?thesis
    using sanitize_head [of r rs] sanitize_chars [of True "r # rs"]
    unfolding sanitizeIdent_def Cons Let_def legal_ident_def by (simp del: sanitize_from.simps)
qed

text \<open>Printable text is decoded bytewise and not trimmed.\<close>

lemma plain_text:
  assumes "s \<noteq> []" "list_all printing s"
  shows "TrimSpace s = s" "runes (map of_char s) = map of_char s"
proof -
  have "printing (hd s)" "printing (last s)" using assms by (auto simp: list_all_iff)
  then show "TrimSpace s = s" using assms(1) TrimSpace_printing by blast
  show "runes (map of_char s) = map of_char s"
    by (rule runes_ascii) (use assms(2) in \<open>auto simp: list_all_iff printing_def\<close>)
qed

lemmas plain_eval = sanitizeIdent_def metricToken_def normalizePrefix_def plain_text printing_def lower_rune_def Let_def

text \<open>A legal identifier is its own sanitized form.\<close>

lemma ident_char_printing: "ident_char c \<Longrightarrow> printing c"
  by (auto simp: ident_char_def printing_def)

lemma ident_runes: "list_all ident_char s \<Longrightarrow> map lower_rune (runes (map of_char s)) = map of_char s"
proof -
  assume a: "list_all ident_char s"
  then have "list_all (\<lambda>b. b < 0x80) (map (of_char :: char \<Rightarrow> nat) s)" by (auto simp: list_all_iff ident_char_def)
  then have "runes (map of_char s) = map of_char s" by (rule runes_ascii)
  moreover have "map lower_rune (map of_char s) = map of_char s"
    using a by (auto simp: list_all_iff ident_char_def lower_rune_def)
  ultimately show ?thesis by simp
qed

lemma sanitize_same: "list_all ident_char s \<Longrightarrow> (f \<Longrightarrow> s \<noteq> [] \<Longrightarrow> \<not> isDigit (hd s)) \<Longrightarrow> sanitize_from f (map of_char s) = s"
proof (induction s arbitrary: f)
  case (Cons c s)
  have "sanitize_from False (map of_char s) = s" by (rule Cons.IH) (use Cons.prems in simp_all)
  moreover have "char_of (byte c) = c" by simp
  ultimately show ?case using Cons.prems
    by (cases "48 \<le> byte c \<and> byte c \<le> 57"; cases f) (auto simp: ident_char_def isDigit_def)
qed simp

lemma sanitize_legal_id: "legal_ident s \<Longrightarrow> sanitizeIdent s = s"
proof -
  assume l: "legal_ident s"
  then have p: "s \<noteq> []" "list_all ident_char s" "\<not> isDigit (hd s)" by (simp_all add: legal_ident_def)
  then have "printing (hd s)" "printing (last s)" by (auto simp: list_all_iff intro!: ident_char_printing)
  then have "TrimSpace s = s" using p(1) TrimSpace_printing by blast
  then show ?thesis using p by (simp add: sanitizeIdent_def ident_runes sanitize_same)
qed

section \<open>Tables of different modules\<close>

text \<open>The tables of the framework, by their base names in \<^verbatim>\<open>src/persistence/gormtx/\<close>, with the migration state.\<close>

definition framework_tables :: "string list" where
  "framework_tables = [''outbox'', ''tenant_event_seq'', ''outbox_dispatch_cursor'', ''outbox_dead_letter'',
     ''idempotency_keys'', ''idempotency_markers'', ''tenant_fence'', ''tenant_event_policy'', ''schema_migrations'']"

text \<open>No base name ends in another one, so a qualified name determines prefix and base.\<close>

lemma framework_ends:
  "list_all (\<lambda>a. list_all (\<lambda>b. drop (length b - length a) b = a \<longrightarrow> a = b) framework_tables) framework_tables"
  by code_simp

lemma framework_no_suffix:
  assumes "a \<in> set framework_tables" "b \<in> set framework_tables" "suffix a b"
  shows "a = b"
proof -
  have "drop (length b - length a) b = a" using assms(3) by (auto simp: suffix_def)
  then show ?thesis using framework_ends assms(1,2) by (simp add: list_all_iff)
qed

lemma framework_split:
  assumes "a \<in> set framework_tables" "b \<in> set framework_tables" "p @ a = q @ b"
  shows "p = q"
proof -
  have "suffix a b \<or> suffix b a"
    using assms(3) by (metis suffix_appendI suffix_order.refl suffix_same_cases)
  then have "a = b" using framework_no_suffix assms(1,2) by blast
  with assms(3) show ?thesis by simp
qed

definition isolated_policy :: "string \<Rightarrow> bool" where
  "isolated_policy p \<longleftrightarrow> p \<in> {IsolationUnset, IsolationSchemaRequired, IsolationSchemaPreferred, IsolationPrefixRequired}"

text \<open>With the default names, a resolved namespace qualifies by \<open>ident.\<close> or by \<open>ident_\<close>.\<close>

lemma resolved_qualifies:
  assumes "ResolveNamespace p moduleID engine [] [] = Inr n" "isolated_policy p"
  shows "\<exists>c\<in>{CHR ''.'', CHR ''_''}. \<forall>b. QualifyTable n b = sanitizeIdent moduleID @ [c] @ b"
proof -
  have ne: "sanitizeIdent moduleID \<noteq> []" using sanitizeIdent_is_legal [of moduleID] by (simp add: legal_ident_def)
  then show ?thesis
    using assms by (auto simp: ResolveNamespace_def Let_def isolated_policy_def isolation_defs QualifyTable_def zero_ns_def
        migrationTableFor_def split: if_splits sum.splits)
qed

theorem framework_tables_disjoint:
  assumes "ResolveNamespace p1 id1 e1 [] [] = Inr n1" "isolated_policy p1"
    and "ResolveNamespace p2 id2 e2 [] [] = Inr n2" "isolated_policy p2"
    and "sanitizeIdent id1 \<noteq> sanitizeIdent id2"
    and "a \<in> set framework_tables" "b \<in> set framework_tables"
  shows "QualifyTable n1 a \<noteq> QualifyTable n2 b"
  using resolved_qualifies [OF assms(1,2)] resolved_qualifies [OF assms(3,4)] assms(5)
    framework_split [OF assms(6,7), of "sanitizeIdent id1 @ [_]" "sanitizeIdent id2 @ [_]"]
  by auto

text \<open>The premise on the sanitized identifiers is needed, and the host does not check it: module IDs that differ only in a
  character that is not allowed, or in a leading \<^verbatim>\<open>m\<close> before a digit, share every table; and so may domain tables
  under prefixes one of which continues the other.\<close>

lemma sanitize_examples:
  "sanitizeIdent ''my-mod'' = ''my_mod''" "sanitizeIdent ''my_mod'' = ''my_mod''" "sanitizeIdent ''1a'' = ''m1a''"
  "sanitizeIdent ''m1a'' = ''m1a''" "sanitizeIdent ''a'' = ''a''" "sanitizeIdent ''a_b'' = ''a_b''"
  "sanitizeIdent ''orders'' = ''orders''" "sanitizeIdent ''billing'' = ''billing''"
  by (simp_all add: plain_eval char_of_def bit_0)

lemmas resolve_eval = ResolveNamespace_def sanitize_examples plain_text printing_def Let_def isolation_defs engineSupportsSchema_def
  migrationTableFor_def zero_ns_def QualifyTable_def

theorem namespaces_collide:
  "(\<exists>n1 n2. ResolveNamespace [] ''my-mod'' ''postgres'' [] [] = Inr n1 \<and> ResolveNamespace [] ''my_mod'' ''postgres'' [] [] = Inr n2
      \<and> QualifyTable n1 ''outbox'' = QualifyTable n2 ''outbox'')
   \<and> (\<exists>n1 n2. ResolveNamespace [] ''1a'' ''sqlite'' [] [] = Inr n1 \<and> ResolveNamespace [] ''m1a'' ''sqlite'' [] [] = Inr n2
        \<and> QualifyTable n1 ''outbox'' = QualifyTable n2 ''outbox'')
   \<and> (\<exists>n1 n2. ResolveNamespace [] ''a'' ''sqlite'' [] [] = Inr n1 \<and> ResolveNamespace [] ''a_b'' ''sqlite'' [] [] = Inr n2
        \<and> QualifyTable n1 ''b_items'' = QualifyTable n2 ''items'')"
  by (simp add: resolve_eval)

theorem framework_tables_disjoint_witness:
  "QualifyTable (zero_ns\<lparr>nsModuleID := ''orders'', nsEngine := ''postgres'', nsSchema := ''orders'', nsMigrationTable := ''schema_migrations''\<rparr>) ''outbox''
   \<noteq> QualifyTable (zero_ns\<lparr>nsModuleID := ''billing'', nsEngine := ''sqlite'', nsTablePrefix := ''billing_'', nsMigrationTable := ''billing_schema_migrations''\<rparr>) ''outbox''"
  by (rule framework_tables_disjoint [of "[]" "''orders''" "''postgres''" _ "[]" "''billing''" "''sqlite''"])
    (simp_all add: resolve_eval isolated_policy_def framework_tables_def)

text \<open>A sanitized identifier is legal and sanitizing it again changes nothing.\<close>

theorem sanitize_normalises: "legal_ident (sanitizeIdent s) \<and> sanitizeIdent (sanitizeIdent s) = sanitizeIdent s"
  by (simp add: sanitizeIdent_is_legal sanitize_legal_id)

section \<open>Configuration of different modules\<close>

text \<open>A module with a prefix reads exactly the keys under its prefix, with the precedence of the sources.\<close>

lemma resolve_map: "resolve key d (map (prefixSource pfx) srcs) = resolve (pfx @ key) d srcs"
  by (induction srcs) (simp_all add: prefixSource_def split: option.split)

theorem config_scoped:
  "resolve key d (providerFor srcs p)
     = (if normalizePrefix p = [] then resolve key d srcs else resolve (normalizePrefix p @ ''_'' @ key) d srcs)"
  using resolve_map [of key d "normalizePrefix p @ ''_''" srcs] by (simp add: providerFor_def scoped_sources_def)

text \<open>The keys of two modules are disjoint unless one prefix continues the other; the host checks neither that nor whether a
  prefix continues a reserved one, and a prefix of separators alone reads the host's keys.\<close>

lemma scoped_keys_disjoint:
  assumes "\<not> prefix (p @ ''_'') (q @ ''_'')" "\<not> prefix (q @ ''_'') (p @ ''_'')"
  shows "p @ ''_'' @ k \<noteq> q @ ''_'' @ l"
proof
  assume "p @ ''_'' @ k = q @ ''_'' @ l"
  then have "prefix (p @ ''_'') (q @ ''_'' @ l)" "prefix (q @ ''_'') (q @ ''_'' @ l)"
    by (metis append.assoc prefixI)+
  then show False using assms prefix_same_cases by blast
qed

theorem config_slices_overlap:
  "resolve ''API_KEY'' d (providerFor srcs ''orders'') = resolve ''KEY'' d (providerFor srcs ''orders.api'')
   \<and> resolve ''DSN'' d (providerFor srcs ''database.'' ) = resolve ''DATABASE_DSN'' d (providerFor srcs ''_'')
   \<and> \<not> isReservedConfigPrefix (normalizePrefix ''runtime.grpc'') \<and> \<not> isReservedConfigPrefix (normalizePrefix ''_'')"
proof -
  have n: "normalizePrefix ''orders'' = ''ORDERS''" "normalizePrefix ''orders.api'' = ''ORDERS_API''"
    "normalizePrefix ''database.'' = ''DATABASE''" "normalizePrefix ''_'' = []" "normalizePrefix ''runtime.grpc'' = ''RUNTIME_GRPC''"
    by (simp_all add: plain_eval trim_chars_def up_def char_of_def bit_0)
  show ?thesis
    by (simp add: resolve_map [of _ _ "_ # _"] providerFor_def scoped_sources_def n isReservedConfigPrefix_def reservedConfigPrefixes_def)
qed

theorem metric_namespace_collides: "metrics_Namespace ''my-mod'' = metrics_Namespace ''My_mod''"
  by (simp add: metrics_Namespace_def plain_eval)

end
