(* ===== verification/Gorm_Leader.thy ===== *)
theory Gorm_Leader
  imports Persist_Names Persist_Memory
begin

text \<open>
  The advisory-lock leader (\<^verbatim>\<open>src/persistence/gormtx/leader.go\<close>). PostgreSQL's session-level advisory locks are two
  functions on a server state \<open>'d\<close>; what the code relies on is the definition \<open>advisory_laws\<close>, a premise of the
  theorems, and \<open>lock_table\<close> is a server that obeys it. Replicas of the relay run concurrently, so a step relation
  interleaves their calls.
\<close>

section \<open>The leader\<close>

record 'd advisory =
  pg_try :: "int \<Rightarrow> nat \<Rightarrow> 'd \<Rightarrow> (perr + bool) \<times> 'd"
  pg_unlock :: "int \<Rightarrow> nat \<Rightarrow> 'd \<Rightarrow> perr option \<times> 'd"

definition DefaultRelayLockName :: string where
  "DefaultRelayLockName = ''devedge-sdk/relay/outbox-pump''"

definition advisoryKey :: "string \<Rightarrow> int" where
  "advisoryKey name = sint (fnv64a name)"

text \<open>The key of \<^verbatim>\<open>NewPGAdvisoryLeader\<close>.\<close>

definition leader_key :: "string \<Rightarrow> int" where
  "leader_key name = advisoryKey (if name = [] then DefaultRelayLockName else name)"

text \<open>
  The server and, per leader instance, the session it has pinned. A session that is returned to the pool by
  \<^verbatim>\<open>conn.Close\<close> stays open: nothing about it changes on the server.
\<close>

record 'd leaders =
  server :: 'd
  lconn :: "nat \<Rightarrow> nat option"

definition leader_TryAcquire :: "'d advisory \<Rightarrow> int \<Rightarrow> nat \<Rightarrow> perr + nat \<Rightarrow> 'd leaders \<Rightarrow> (perr + bool) \<times> 'd leaders" where
  "leader_TryAcquire A key l c w =
     (if lconn w l \<noteq> None then (Inr True, w)
      else case c of
             Inl e \<Rightarrow> (Inl (PWrap ''gormtx: pin advisory-lock session'' e), w)
           | Inr s \<Rightarrow>
               (case pg_try A key s (server w) of
                  (Inl e, d) \<Rightarrow> (Inl (PWrap ''gormtx: pg_try_advisory_lock'' e), w\<lparr>server := d\<rparr>)
                | (Inr got, d) \<Rightarrow>
                    if \<not> got then (Inr False, w\<lparr>server := d\<rparr>)
                    else (Inr True, w\<lparr>server := d, lconn := (lconn w)(l \<mapsto> s)\<rparr>)))"

definition leader_Release :: "'d advisory \<Rightarrow> int \<Rightarrow> nat \<Rightarrow> perr option \<Rightarrow> 'd leaders \<Rightarrow> perr option \<times> 'd leaders" where
  "leader_Release A key l closeErr w =
     (case lconn w l of
        None \<Rightarrow> (None, w)
      | Some s \<Rightarrow>
          (case pg_unlock A key s (server w) of
             (uerr, d) \<Rightarrow>
               ((case uerr of
                   Some e \<Rightarrow> Some (PWrap ''gormtx: pg_advisory_unlock'' e)
                 | None \<Rightarrow> map_option (PWrap ''gormtx: close advisory-lock session'') closeErr),
                w\<lparr>server := d, lconn := (lconn w)(l := None)\<rparr>)))"

section \<open>What is documented of the locks\<close>

text \<open>\<open>holder\<close> reads off the server which session holds a key. A lock is granted only while no other session holds it;
  trying and unlocking touch their key only, and unlocking only what the session holds itself.\<close>

definition advisory_laws :: "'d advisory \<Rightarrow> ('d \<Rightarrow> int \<Rightarrow> nat option) \<Rightarrow> bool" where
  "advisory_laws A holder \<longleftrightarrow>
     (\<forall>k s d. \<forall>k'. k' \<noteq> k \<longrightarrow> holder (snd (pg_try A k s d)) k' = holder d k'
        \<and> holder (snd (pg_unlock A k s d)) k' = holder d k')
   \<and> (\<forall>k s d. fst (pg_try A k s d) = Inr True \<longrightarrow> holder d k \<in> {None, Some s} \<and> holder (snd (pg_try A k s d)) k = Some s)
   \<and> (\<forall>k s d. holder d k \<noteq> None \<longrightarrow> holder (snd (pg_try A k s d)) k = holder d k)
   \<and> (\<forall>k s d. holder d k \<noteq> Some s \<longrightarrow> holder (snd (pg_unlock A k s d)) k = holder d k)"

lemma advisory_lawsD:
  assumes "advisory_laws A holder"
  shows "k' \<noteq> k \<Longrightarrow> holder (snd (pg_try A k s d)) k' = holder d k'"
    "k' \<noteq> k \<Longrightarrow> holder (snd (pg_unlock A k s d)) k' = holder d k'"
    "fst (pg_try A k s d) = Inr True \<Longrightarrow> holder (snd (pg_try A k s d)) k = Some s"
    "fst (pg_try A k s d) = Inr True \<Longrightarrow> holder d k = Some t \<Longrightarrow> t = s"
    "holder d k = Some t \<Longrightarrow> holder (snd (pg_try A k s d)) k = Some t"
    "holder d k \<noteq> Some s \<Longrightarrow> holder (snd (pg_unlock A k s d)) k = holder d k"
  using assms unfolding advisory_laws_def by fastforce+

section \<open>Replicas\<close>

text \<open>The pool hands out a session that no instance has pinned; \<open>key\<close> is the lock of each instance.\<close>

inductive leader_step :: "'d advisory \<Rightarrow> (nat \<Rightarrow> int) \<Rightarrow> 'd leaders \<Rightarrow> 'd leaders \<Rightarrow> bool" for A key where
  acquire: "(\<And>s. c = Inr s \<Longrightarrow> s \<notin> ran (lconn w)) \<Longrightarrow> leader_step A key w (snd (leader_TryAcquire A (key l) l c w))"
| release: "leader_step A key w (snd (leader_Release A (key l) l closeErr w))"

definition leader_inv :: "(nat \<Rightarrow> int) \<Rightarrow> ('d \<Rightarrow> int \<Rightarrow> nat option) \<Rightarrow> 'd leaders \<Rightarrow> bool" where
  "leader_inv key holder w \<longleftrightarrow>
     (\<forall>l s. lconn w l = Some s \<longrightarrow> holder (server w) (key l) = Some s)
   \<and> (\<forall>l m s. lconn w l = Some s \<longrightarrow> lconn w m = Some s \<longrightarrow> l = m)"

lemma leader_inv_exclusive:
  "leader_inv key holder w \<Longrightarrow> lconn w l = Some s \<Longrightarrow> lconn w m = Some t \<Longrightarrow> key l = key m \<Longrightarrow> l = m"
  unfolding leader_inv_def by (metis option.inject)

lemma acquire_inv:
  assumes laws: "advisory_laws A holder" and inv: "leader_inv key holder w"
    and free: "\<And>s. c = Inr s \<Longrightarrow> s \<notin> ran (lconn w)"
  shows "leader_inv key holder (snd (leader_TryAcquire A (key l) l c w))"
proof (cases "lconn w l = None \<and> \<not> isl c")
  case False
  then show ?thesis using inv by (auto simp: leader_TryAcquire_def split: sum.splits)
next
  case True
  then obtain s where c: "c = Inr s" and l: "lconn w l = None" by (cases c) auto
  have new: "lconn w m \<noteq> Some s" for m using free [OF c] by (auto simp: ran_def)
  let ?d = "snd (pg_try A (key l) s (server w))"
  have keep: "holder ?d (key m) = Some t" if "lconn w m = Some t" for m t
  proof -
    have h: "holder (server w) (key m) = Some t" using inv that unfolding leader_inv_def by blast
    show ?thesis
    proof (cases "key m = key l")
      case True
      then show ?thesis using advisory_lawsD(5) [OF laws] h by metis
    next
      case False
      then show ?thesis using advisory_lawsD(1) [OF laws] h by simp
    qed
  qed
  show ?thesis
  proof (cases "fst (pg_try A (key l) s (server w)) = Inr True")
    case got: True
    have "holder ?d (key l) = Some s" by (rule advisory_lawsD(3) [OF laws got])
    moreover have "snd (leader_TryAcquire A (key l) l c w) = w\<lparr>server := ?d, lconn := (lconn w)(l \<mapsto> s)\<rparr>"
      using got l c by (cases "pg_try A (key l) s (server w)") (simp add: leader_TryAcquire_def)
    ultimately show ?thesis
      using inv keep new unfolding leader_inv_def by auto
  next
    case no: False
    have "snd (leader_TryAcquire A (key l) l c w) = w\<lparr>server := ?d\<rparr>"
      using no l c by (cases "pg_try A (key l) s (server w)") (auto simp: leader_TryAcquire_def split: sum.splits if_splits)
    then show ?thesis using inv keep unfolding leader_inv_def by simp
  qed
qed

lemma release_inv:
  assumes laws: "advisory_laws A holder" and inv: "leader_inv key holder w"
  shows "leader_inv key holder (snd (leader_Release A (key l) l e w))"
proof (cases "lconn w l")
  case None
  then show ?thesis using inv by (simp add: leader_Release_def)
next
  case (Some s)
  let ?d = "snd (pg_unlock A (key l) s (server w))"
  have keep: "holder ?d (key m) = Some t" if m: "lconn w m = Some t" "m \<noteq> l" for m t
  proof (cases "key m = key l")
    case True
    then show ?thesis using leader_inv_exclusive [OF inv m(1) Some] m(2) by simp
  next
    case False
    then show ?thesis using advisory_lawsD(2) [OF laws] inv m(1) unfolding leader_inv_def by simp
  qed
  have "snd (leader_Release A (key l) l e w) = w\<lparr>server := ?d, lconn := (lconn w)(l := None)\<rparr>"
    using Some by (simp add: leader_Release_def split: prod.split)
  then show ?thesis using inv keep unfolding leader_inv_def by auto
qed

lemma leader_steps_inv:
  assumes "advisory_laws A holder" "(leader_step A key)\<^sup>*\<^sup>* w w'" "leader_inv key holder w"
  shows "leader_inv key holder w'"
  using assms(2,3)
proof (induction rule: rtranclp_induct)
  case (step u v)
  from step.hyps(2) show ?case
    by cases (use step.IH step.prems acquire_inv [OF assms(1)] release_inv [OF assms(1)] in auto)
qed

section \<open>Properties\<close>

text \<open>At most one replica leads. However replicas that contend for one lock acquire and release it, and whatever the server
  answers, no two of them hold a pinned lock session at the same time.\<close>

theorem advisory_leader_exclusive:
  assumes "advisory_laws A holder" "(leader_step A key)\<^sup>*\<^sup>* \<lparr>server = d, lconn = Map.empty\<rparr> w"
    and "lconn w l = Some s" "lconn w m = Some t" "key l = key m"
  shows "l = m"
proof -
  have "leader_inv key holder \<lparr>server = d, lconn = Map.empty\<rparr>" by (simp add: leader_inv_def)
  from leader_inv_exclusive [OF leader_steps_inv [OF assms(1,2) this] assms(3-5)] show ?thesis .
qed

text \<open>A server with a lock table: locks nest within a session.\<close>

type_synonym locks = "int \<Rightarrow> (nat \<times> nat) option"

definition lock_try :: "int \<Rightarrow> nat \<Rightarrow> locks \<Rightarrow> (perr + bool) \<times> locks" where
  "lock_try k s d =
     (case d k of
        None \<Rightarrow> (Inr True, d(k \<mapsto> (s, 1)))
      | Some (t, n) \<Rightarrow> if t = s then (Inr True, d(k \<mapsto> (s, n + 1))) else (Inr False, d))"

definition lock_release :: "(int \<Rightarrow> nat \<Rightarrow> perr option) \<Rightarrow> int \<Rightarrow> nat \<Rightarrow> locks \<Rightarrow> perr option \<times> locks" where
  "lock_release faults k s d =
     (if faults k s \<noteq> None then (faults k s, d)
      else case d k of
             Some (t, n) \<Rightarrow> if t = s then (None, d(k := if n > 1 then Some (s, n - 1) else None)) else (None, d)
           | None \<Rightarrow> (None, d))"

definition lock_table :: "(int \<Rightarrow> nat \<Rightarrow> perr option) \<Rightarrow> locks advisory" where
  "lock_table faults = \<lparr>pg_try = lock_try, pg_unlock = lock_release faults\<rparr>"

definition lock_holder :: "locks \<Rightarrow> int \<Rightarrow> nat option" where
  "lock_holder d k = map_option fst (d k)"

lemma lock_table_laws: "advisory_laws (lock_table f) lock_holder"
  unfolding advisory_laws_def
  by (auto simp: lock_table_def lock_try_def lock_release_def lock_holder_def split: option.splits prod.splits if_splits)

abbreviation no_faults_pg :: "int \<Rightarrow> nat \<Rightarrow> perr option" where
  "no_faults_pg k s \<equiv> None"

definition two_relays :: "locks leaders" where
  "two_relays = \<lparr>server = Map.empty, lconn = Map.empty\<rparr>"

definition first_leads :: "locks leaders" where
  "first_leads = snd (leader_TryAcquire (lock_table no_faults_pg) 7 0 (Inr 3) two_relays)"

theorem advisory_leader_exclusive_witness: "{m. \<exists>t. lconn first_leads m = Some t} = {0}"
proof -
  have l: "lconn first_leads 0 = Some 3"
    by (simp add: first_leads_def leader_TryAcquire_def two_relays_def lock_table_def lock_try_def)
  have "leader_step (lock_table no_faults_pg) (\<lambda>_. 7) two_relays first_leads"
    unfolding first_leads_def by (rule leader_step.acquire) (simp add: two_relays_def)
  then have "(leader_step (lock_table no_faults_pg) (\<lambda>_. 7))\<^sup>*\<^sup>* \<lparr>server = Map.empty, lconn = Map.empty\<rparr> first_leads"
    unfolding two_relays_def by (rule r_into_rtranclp)
  note only = advisory_leader_exclusive [OF lock_table_laws this _ l refl]
  show ?thesis using only l by auto
qed

text \<open>A pinned session that the server has lost leaves two leaders: the old one answers from its pinned session without asking
  the server, for as long as its process runs.\<close>

definition server_restart :: "locks leaders \<Rightarrow> locks leaders" where
  "server_restart w = w\<lparr>server := Map.empty\<rparr>"

theorem lost_session_two_leaders:
  "let w = server_restart first_leads; r = leader_TryAcquire (lock_table no_faults_pg) 7 1 (Inr 4) w in
     fst r = Inr True \<and> fst (leader_TryAcquire (lock_table no_faults_pg) 7 0 c (snd r)) = Inr True"
  by (simp add: first_leads_def leader_TryAcquire_def two_relays_def lock_table_def lock_try_def server_restart_def Let_def)

text \<open>When the unlock statement fails, closing the connection returns its session to the pool with the lock: nobody leads, and
  no other session obtains the lock.\<close>

theorem failed_unlock_leaks:
  "let w = snd (leader_Release (lock_table (\<lambda>_ _. Some e)) 7 0 None first_leads) in
     lconn w = Map.empty \<and> fst (leader_TryAcquire (lock_table (\<lambda>_ _. Some e)) 7 1 (Inr 4) w) = Inr False"
  by (simp add: first_leads_def leader_TryAcquire_def leader_Release_def two_relays_def lock_table_def lock_try_def
      lock_release_def Let_def)

end
