(* ===== verification/Compose_Modules.thy ===== *)
theory Compose_Modules
  imports Persist_Names Authz
begin

text \<open>
  The descriptors of a composition and their validation (\<^verbatim>\<open>src/servicekit/validate.go\<close> and the descriptor types of
  \<^verbatim>\<open>src/servicekit/servicekit.go\<close>). Every name a module claims goes through the same check against the names claimed
  before it, so the loops of the source share the function \<open>claim\<close>.
\<close>

section \<open>Descriptors\<close>

record RouteDescriptor =
  rdPrefix :: string
  rdHost :: string

record EventDescriptor =
  Publishes :: "string list"
  Subscribes :: "string list"
  OutboxEnabled :: bool

record Descriptor =
  dID :: string
  dMethods :: "string list"
  dAuthzRules :: "MethodRule list"
  dRoutes :: "RouteDescriptor list"
  dConfigPrefix :: string
  dDatabase :: DatabaseDescriptor
  dEvents :: EventDescriptor
  dFailurePolicy :: string

datatype compose_err = NoModules | NilModule nat | NoDescriptors | EmptyModuleID | DuplicateModuleID string
  | ServiceConflict string string string | RouteConflict string string string string | PermissionConflict string string string
  | EventConflict string string string | OrphanSubscriber string string | ReservedPrefix string string

section \<open>The names of a module\<close>

definition split_last :: "char \<Rightarrow> string \<Rightarrow> (string \<times> string) option" where
  "split_last c s = (if c \<in> set s then Some (take (length s - length (after_last c s) - 1) s, after_last c s) else None)"

definition grpcServiceName :: "string \<Rightarrow> string" where
  "grpcServiceName fullMethod =
     (let s = (if has_prefix fullMethod ''/'' then drop 1 fullMethod else fullMethod)
      in case split_last (CHR ''/'') s of None \<Rightarrow> [] | Some (svc, _) \<Rightarrow> svc)"

text \<open>The set of service names, in the order in which the methods first name them; the source iterates a map over it.\<close>

definition grpcServiceNames :: "string list \<Rightarrow> string list" where
  "grpcServiceNames methods = rev (remdups (rev (filter (\<lambda>s. s \<noteq> []) (map grpcServiceName methods))))"

definition permissionNames :: "MethodRule list \<Rightarrow> string list" where
  "permissionNames rs =
     rev (remdups (rev (map (\<lambda>r. mrResource r @ '':'' @ mrVerb r)
       (filter (\<lambda>r. \<not> mrPublic r \<and> \<not> (mrResource r = [] \<and> mrVerb r = [])) rs))))"

definition routeKeys :: "RouteDescriptor list \<Rightarrow> (string \<times> string) list" where
  "routeKeys rs = map (\<lambda>r. (rdHost r, TrimSpace (rdPrefix r))) (filter (\<lambda>r. TrimSpace (rdPrefix r) \<noteq> []) rs)"

definition route_key :: "string \<times> string \<Rightarrow> string" where
  "route_key hp = fst hp @ [CHR 0x00] @ snd hp"

definition eventNames :: "string list \<Rightarrow> string list" where
  "eventNames ets = rev (remdups (rev (filter (\<lambda>e. e \<noteq> []) ets)))"

section \<open>Validation\<close>

text \<open>Claims the names for the owner; \<open>Inl\<close> is the first name that has an owner already.\<close>

fun claim :: "'n list \<Rightarrow> string \<Rightarrow> ('n \<Rightarrow> string option) \<Rightarrow> 'n \<times> string + ('n \<Rightarrow> string option)" where
  "claim [] owner seen = Inr seen"
| "claim (n # ns) owner seen = (case seen n of Some o1 \<Rightarrow> Inl (n, o1) | None \<Rightarrow> claim ns owner (seen(n \<mapsto> owner)))"

fun validate_loop :: "Descriptor list \<Rightarrow> string set \<Rightarrow> (string \<Rightarrow> string option) \<Rightarrow> (string \<Rightarrow> string option)
    \<Rightarrow> (string \<Rightarrow> string option) \<Rightarrow> compose_err option" where
  "validate_loop [] ids svcs routes perms = None"
| "validate_loop (d # ds) ids svcs routes perms =
     (if TrimSpace (dID d) = [] then Some EmptyModuleID
      else if dID d \<in> ids then Some (DuplicateModuleID (dID d))
      else case claim (grpcServiceNames (dMethods d)) (dID d) svcs of
             Inl (n, o1) \<Rightarrow> Some (ServiceConflict n o1 (dID d))
           | Inr svcs1 \<Rightarrow>
               (case claim (map route_key (routeKeys (dRoutes d))) (dID d) routes of
                  Inl (k, o1) \<Rightarrow> Some (RouteConflict (drop 1 (dropWhile (\<lambda>c. c \<noteq> CHR 0x00) k)) (takeWhile (\<lambda>c. c \<noteq> CHR 0x00) k) o1 (dID d))
                | Inr routes1 \<Rightarrow>
                    (case claim (permissionNames (dAuthzRules d)) (dID d) perms of
                       Inl (n, o1) \<Rightarrow> Some (PermissionConflict n o1 (dID d))
                     | Inr perms1 \<Rightarrow> validate_loop ds (insert (dID d) ids) svcs1 routes1 perms1)))"

fun publishers :: "Descriptor list \<Rightarrow> (string \<Rightarrow> string option) \<Rightarrow> compose_err + (string \<Rightarrow> string option)" where
  "publishers [] by = Inr by"
| "publishers (d # ds) by =
     (case claim (eventNames (Publishes (dEvents d))) (dID d) by of
        Inl (n, o1) \<Rightarrow> Inl (EventConflict n o1 (dID d))
      | Inr by1 \<Rightarrow> publishers ds by1)"

fun orphan_of :: "string \<Rightarrow> string list \<Rightarrow> (string \<Rightarrow> string option) \<Rightarrow> compose_err option" where
  "orphan_of m [] by = None"
| "orphan_of m (et # ets) by =
     (if et = [] then orphan_of m ets by
      else if by et = None then Some (OrphanSubscriber m et) else orphan_of m ets by)"

fun orphans :: "Descriptor list \<Rightarrow> (string \<Rightarrow> string option) \<Rightarrow> compose_err option" where
  "orphans [] by = None"
| "orphans (d # ds) by =
     (case orphan_of (dID d) (Subscribes (dEvents d)) by of Some e \<Rightarrow> Some e | None \<Rightarrow> orphans ds by)"

definition validateEventGraph :: "Descriptor list \<Rightarrow> compose_err option" where
  "validateEventGraph ds = (case publishers ds Map.empty of Inl e \<Rightarrow> Some e | Inr by \<Rightarrow> orphans ds by)"

definition ValidateDescriptors :: "Descriptor list \<Rightarrow> compose_err option" where
  "ValidateDescriptors ds =
     (if ds = [] then Some NoDescriptors
      else case validate_loop ds {} Map.empty Map.empty Map.empty of Some e \<Rightarrow> Some e | None \<Rightarrow> validateEventGraph ds)"

text \<open>Modules, \<open>None\<close> a nil one.\<close>

fun first_nil :: "nat \<Rightarrow> 'm option list \<Rightarrow> nat option" where
  "first_nil i [] = None"
| "first_nil i (m # ms) = (if m = None then Some i else first_nil (Suc i) ms)"

definition ValidateModules :: "('m \<Rightarrow> Descriptor) \<Rightarrow> 'm option list \<Rightarrow> compose_err option" where
  "ValidateModules descriptor ms =
     (if ms = [] then Some NoModules
      else case first_nil 0 ms of
             Some i \<Rightarrow> Some (NilModule i)
           | None \<Rightarrow> ValidateDescriptors (map (descriptor \<circ> the) ms))"

text \<open>What \<^verbatim>\<open>Run\<close> checks next: the configuration prefixes.\<close>

definition configPrefixFor :: "Descriptor \<Rightarrow> string" where
  "configPrefixFor d = (if dConfigPrefix d \<noteq> [] then dConfigPrefix d else dID d)"

fun check_prefixes :: "Descriptor list \<Rightarrow> compose_err option" where
  "check_prefixes [] = None"
| "check_prefixes (d # ds) =
     (let p = normalizePrefix (configPrefixFor d)
      in if p \<noteq> [] \<and> isReservedConfigPrefix p then Some (ReservedPrefix (dID d) p) else check_prefixes ds)"

section \<open>What is accepted\<close>

lemma claim_iff:
  "claim ns owner seen = Inr seen' \<longleftrightarrow>
     distinct ns \<and> set ns \<inter> dom seen = {} \<and> seen' = (\<lambda>n. if n \<in> set ns then Some owner else seen n)"
proof (induction ns arbitrary: seen)
  case (Cons n ns)
  show ?case
  proof (cases "seen n")
    case None
    have new: "(\<lambda>m. if m \<in> set ns then Some owner else (seen(n \<mapsto> owner)) m) = (\<lambda>m. if m \<in> set (n # ns) then Some owner else seen m)"
      by (simp add: fun_eq_iff)
    have step: "claim (n # ns) owner seen = claim ns owner (seen(n \<mapsto> owner))" using None by simp
    show ?thesis unfolding step Cons.IH new using None by (auto simp: domIff)
  next
    case (Some o1)
    then show ?thesis by (auto simp: dom_def)
  qed
qed auto

lemma claim_dom: "claim ns owner seen = Inr seen' \<Longrightarrow> dom seen' = set ns \<union> dom seen"
  by (auto simp: claim_iff dom_def split: if_splits)

lemma claim_ok: "(\<exists>seen'. claim ns owner seen = Inr seen') \<longleftrightarrow> distinct ns \<and> set ns \<inter> dom seen = {}"
  by (simp add: claim_iff)

lemma names_distinct [simp]:
  "distinct (grpcServiceNames ms)" "distinct (permissionNames rs)" "distinct (eventNames es)"
  by (simp_all add: grpcServiceNames_def permissionNames_def eventNames_def)

text \<open>No name occurs twice in the lists of names.\<close>

definition unclaimed :: "('d \<Rightarrow> 'n list) \<Rightarrow> 'd list \<Rightarrow> 'n set \<Rightarrow> bool" where
  "unclaimed names ds taken \<longleftrightarrow> distinct (concat (map names ds)) \<and> set (concat (map names ds)) \<inter> taken = {}"

lemma unclaimed_Nil [simp]: "unclaimed names [] taken"
  by (simp add: unclaimed_def)

lemma unclaimed_Cons:
  "unclaimed names (d # ds) taken \<longleftrightarrow>
     distinct (names d) \<and> set (names d) \<inter> taken = {} \<and> unclaimed names ds (set (names d) \<union> taken)"
  by (auto simp: unclaimed_def)

lemma claim_unclaimed:
  assumes "claim (names d) owner seen = Inr seen'"
  shows "unclaimed names (d # ds) (dom seen) \<longleftrightarrow> unclaimed names ds (dom seen')"
proof -
  have "distinct (names d)" "set (names d) \<inter> dom seen = {}" using assms by (simp_all add: claim_iff)
  then show ?thesis by (simp add: unclaimed_Cons claim_dom [OF assms])
qed

lemma claim_refused:
  assumes "claim (names d) owner seen = Inl e"
  shows "\<not> unclaimed names (d # ds) (dom seen)"
proof -
  have "\<not> (\<exists>s. claim (names d) owner seen = Inr s)" using assms by simp
  then show ?thesis unfolding claim_ok unclaimed_Cons by blast
qed

definition service_names :: "Descriptor \<Rightarrow> string list" where
  "service_names d = grpcServiceNames (dMethods d)"

definition route_names :: "Descriptor \<Rightarrow> string list" where
  "route_names d = map route_key (routeKeys (dRoutes d))"

definition permission_names :: "Descriptor \<Rightarrow> string list" where
  "permission_names d = permissionNames (dAuthzRules d)"

definition event_names :: "Descriptor \<Rightarrow> string list" where
  "event_names d = eventNames (Publishes (dEvents d))"

lemma validate_loop_Cons:
  "validate_loop (d # ds) ids svcs routes perms =
     (if TrimSpace (dID d) = [] then Some EmptyModuleID
      else if dID d \<in> ids then Some (DuplicateModuleID (dID d))
      else case claim (service_names d) (dID d) svcs of
             Inl (n, o1) \<Rightarrow> Some (ServiceConflict n o1 (dID d))
           | Inr svcs1 \<Rightarrow>
               (case claim (route_names d) (dID d) routes of
                  Inl (k, o1) \<Rightarrow> Some (RouteConflict (drop 1 (dropWhile (\<lambda>c. c \<noteq> CHR 0x00) k)) (takeWhile (\<lambda>c. c \<noteq> CHR 0x00) k) o1 (dID d))
                | Inr routes1 \<Rightarrow>
                    (case claim (permission_names d) (dID d) perms of
                       Inl (n, o1) \<Rightarrow> Some (PermissionConflict n o1 (dID d))
                     | Inr perms1 \<Rightarrow> validate_loop ds (insert (dID d) ids) svcs1 routes1 perms1)))"
  unfolding service_names_def route_names_def permission_names_def by (rule validate_loop.simps(2))

declare validate_loop.simps(2) [simp del]

lemma validate_loop_ok:
  "validate_loop ds ids svcs routes perms = None \<longleftrightarrow>
     list_all (\<lambda>d. TrimSpace (dID d) \<noteq> []) ds \<and> distinct (map dID ds) \<and> set (map dID ds) \<inter> ids = {}
     \<and> unclaimed service_names ds (dom svcs) \<and> unclaimed route_names ds (dom routes) \<and> unclaimed permission_names ds (dom perms)"
proof (induction ds arbitrary: ids svcs routes perms)
  case (Cons d ds)
  consider (bad) "TrimSpace (dID d) = [] \<or> dID d \<in> ids"
    | (svc) n o1 where "claim (service_names d) (dID d) svcs = Inl (n, o1)"
    | (route) s1 n o1 where "claim (service_names d) (dID d) svcs = Inr s1" "claim (route_names d) (dID d) routes = Inl (n, o1)"
    | (perm) s1 r1 n o1 where "claim (service_names d) (dID d) svcs = Inr s1" "claim (route_names d) (dID d) routes = Inr r1"
        "claim (permission_names d) (dID d) perms = Inl (n, o1)"
    | (ok) s1 r1 p1 where "\<not> (TrimSpace (dID d) = [] \<or> dID d \<in> ids)" "claim (service_names d) (dID d) svcs = Inr s1"
        "claim (route_names d) (dID d) routes = Inr r1" "claim (permission_names d) (dID d) perms = Inr p1"
    by (metis obj_sumE surj_pair)
  then show ?case
  proof cases
    case bad
    then show ?thesis by (auto simp: validate_loop_Cons)
  next
    case svc
    show ?thesis using svc claim_refused [where names = service_names and d = d, OF svc] by (simp add: validate_loop_Cons)
  next
    case route
    show ?thesis using route claim_refused [where names = route_names and d = d, OF route(2)] by (simp add: validate_loop_Cons)
  next
    case perm
    show ?thesis using perm claim_refused [where names = permission_names and d = d, OF perm(3)] by (simp add: validate_loop_Cons)
  next
    case ok
    have ih: "validate_loop (d # ds) ids svcs routes perms = validate_loop ds (insert (dID d) ids) s1 r1 p1"
      using ok by (simp add: validate_loop_Cons)
    show ?thesis unfolding ih Cons.IH claim_unclaimed [where names = service_names and d = d, OF ok(2)] claim_unclaimed [where names = route_names and d = d, OF ok(3)] claim_unclaimed [where names = permission_names and d = d, OF ok(4)]
      using ok(1) by auto
  qed
qed simp

lemma publishers_Cons:
  "publishers (d # ds) by =
     (case claim (event_names d) (dID d) by of
        Inl (n, o1) \<Rightarrow> Inl (EventConflict n o1 (dID d))
      | Inr by1 \<Rightarrow> publishers ds by1)"
  unfolding event_names_def by (rule publishers.simps(2))

declare publishers.simps(2) [simp del]

lemma publishers_ok:
  "publishers ds by = Inr by' \<Longrightarrow> unclaimed event_names ds (dom by) \<and> dom by' = set (concat (map event_names ds)) \<union> dom by"
  "publishers ds by = Inl e \<Longrightarrow> \<not> unclaimed event_names ds (dom by)"
proof (induction ds arbitrary: "by")
  case (Cons d ds)
  case 1
  then obtain b1 where c: "claim (event_names d) (dID d) by = Inr b1" "publishers ds b1 = Inr by'"
    by (cases "claim (event_names d) (dID d) by") (auto simp: publishers_Cons split: prod.splits)
  show ?case
    using Cons.IH(1) [OF c(2)] claim_unclaimed [where names = event_names and d = d, OF c(1)] claim_dom [OF c(1)] by auto
next
  case (Cons d ds)
  case 2
  show ?case
  proof (cases "claim (event_names d) (dID d) by")
    case (Inl a)
    show ?thesis by (rule claim_refused [where names = event_names and d = d, OF Inl])
  next
    case (Inr b1)
    then have "publishers ds b1 = Inl e" using 2 by (simp add: publishers_Cons)
    from Cons.IH(2) [OF this] show ?thesis using claim_unclaimed [where names = event_names and d = d, OF Inr] by blast
  qed
qed simp_all

lemma orphan_of_ok: "orphan_of m ets by = None \<longleftrightarrow> set ets \<subseteq> insert [] (dom by)"
  by (induction ets) auto

lemma orphans_ok: "orphans ds by = None \<longleftrightarrow> (\<Union>d\<in>set ds. set (Subscribes (dEvents d))) \<subseteq> insert [] (dom by)"
proof (induction ds)
  case (Cons d ds)
  then show ?case
    using orphan_of_ok [of "dID d" "Subscribes (dEvents d)" "by"]
    by (cases "orphan_of (dID d) (Subscribes (dEvents d)) by") simp_all
qed simp

text \<open>The set of event types a module publishes.\<close>

lemma event_names_set: "set (event_names d) = set (Publishes (dEvents d)) - {[]}"
  by (auto simp: event_names_def eventNames_def)

section \<open>Properties\<close>

text \<open>Validation accepts exactly the coherent compositions: at least one module, no blank and no repeated module ID; no gRPC
  service, route or permission claimed twice and no event type published by two modules; and every event type subscribed to
  is published by some module.\<close>

theorem composition_coherent:
  "ValidateDescriptors ds = None \<longleftrightarrow>
     ds \<noteq> [] \<and> list_all (\<lambda>d. TrimSpace (dID d) \<noteq> []) ds \<and> distinct (map dID ds)
     \<and> distinct (concat (map service_names ds)) \<and> distinct (concat (map route_names ds))
     \<and> distinct (concat (map permission_names ds)) \<and> distinct (concat (map event_names ds))
     \<and> (\<Union>d\<in>set ds. set (Subscribes (dEvents d))) \<subseteq> insert [] (\<Union>d\<in>set ds. set (Publishes (dEvents d)))"
proof (cases "publishers ds Map.empty")
  case (Inl e)
  then have "\<not> distinct (concat (map event_names ds))" using publishers_ok(2) [OF Inl] by (simp add: unclaimed_def)
  moreover have "ValidateDescriptors ds \<noteq> None"
    using Inl by (simp add: ValidateDescriptors_def validateEventGraph_def split: option.split)
  ultimately show ?thesis by blast
next
  case (Inr b)
  note p = publishers_ok(1) [OF Inr]
  have "dom b = (\<Union>d\<in>set ds. set (Publishes (dEvents d))) - {[]}" using p by (auto simp: event_names_set)
  then have "orphans ds b = None \<longleftrightarrow>
      (\<Union>d\<in>set ds. set (Subscribes (dEvents d))) \<subseteq> insert [] (\<Union>d\<in>set ds. set (Publishes (dEvents d)))"
    unfolding orphans_ok by auto
  then show ?thesis
    using Inr p validate_loop_ok [of ds "{}" Map.empty Map.empty Map.empty]
    by (cases "validate_loop ds {} Map.empty Map.empty Map.empty")
      (simp add: ValidateDescriptors_def validateEventGraph_def unclaimed_def,
       use p in \<open>auto simp: ValidateDescriptors_def unclaimed_def\<close>)
qed

end
