(* ===== verification/Compose_Host.thy ===== *)
theory Compose_Host
  imports Compose_Modules Idempotency
begin

text \<open>
  The composed host (\<^verbatim>\<open>src/servicekit/\<close>): failure policies and the supervisor of \<^verbatim>\<open>bulkhead.go\<close>, the registrations of
  \<^verbatim>\<open>events_registry.go\<close> and \<^verbatim>\<open>run.go\<close>, the routing of durable idempotency and its in-process store of \<^verbatim>\<open>idempotency.go\<close>,
  the lifecycle of \<^verbatim>\<open>Run\<close>, and the readiness aggregation of \<^verbatim>\<open>src/health/check.go\<close>. Goroutines report to the supervisor
  in some order; a history is the list of those reports.
\<close>

section \<open>Readiness checks\<close>

record Result =
  resName :: string
  resErr :: string

text \<open>The checks with their outcomes, in the order in which the concurrent probes answer.\<close>

definition Aggregate :: "(string \<times> string option) list \<Rightarrow> Result list" where
  "Aggregate probes =
     (if probes = [] then [] else
        concat (map (\<lambda>it. case snd it of None \<Rightarrow> [] | Some e \<Rightarrow> [\<lparr>resName = fst it, resErr = e\<rparr>]) probes))"

section \<open>Failure policies\<close>

definition FailurePolicyUnset :: string where "FailurePolicyUnset = []"
definition FailHost :: string where "FailHost = ''fail-host''"
definition Degraded :: string where "Degraded = ''degraded''"

definition resolveFailurePolicies :: "string \<Rightarrow> (string \<Rightarrow> string option) \<Rightarrow> Descriptor list \<Rightarrow> string \<Rightarrow> string option" where
  "resolveFailurePolicies dflt overrides ds =
     (let def = (if dflt = FailurePolicyUnset then FailHost else dflt)
      in fold (\<lambda>d out.
           let p0 = (if dFailurePolicy d \<noteq> FailurePolicyUnset then dFailurePolicy d else def);
               p = (case overrides (dID d) of
                      Some o1 \<Rightarrow> if o1 \<noteq> FailurePolicyUnset then o1 else p0
                    | None \<Rightarrow> p0)
           in out(dID d \<mapsto> p)) ds Map.empty)"

section \<open>The supervisor\<close>

record moduleReadiness =
  mrName :: string
  mrReady :: bool
  mrCause :: "string option"

text \<open>\<open>hostCause\<close>: the cause the host context was cancelled with, the first one given.\<close>

record supervisor =
  readi :: "string \<Rightarrow> moduleReadiness option"
  hostCause :: "string option"

definition newSupervisor :: supervisor where
  "newSupervisor = \<lparr>readi = Map.empty, hostCause = None\<rparr>"

definition readinessFor :: "string \<Rightarrow> supervisor \<Rightarrow> moduleReadiness \<times> supervisor" where
  "readinessFor m s =
     (case readi s m of
        Some r \<Rightarrow> (r, s)
      | None \<Rightarrow>
          (let r = \<lparr>mrName = m @ ''.module'', mrReady = True, mrCause = None\<rparr> in (r, s\<lparr>readi := (readi s)(m \<mapsto> r)\<rparr>)))"

definition setUnready :: "string \<Rightarrow> moduleReadiness \<Rightarrow> moduleReadiness" where
  "setUnready cause r = r\<lparr>mrCause := Some cause, mrReady := False\<rparr>"

definition readiness_Check :: "moduleReadiness \<Rightarrow> string option" where
  "readiness_Check r =
     (if mrReady r then None
      else case mrCause r of Some c \<Rightarrow> Some (''module degraded: '' @ c) | None \<Rightarrow> Some ''module degraded'')"

definition fail_host :: "string \<Rightarrow> supervisor \<Rightarrow> supervisor" where
  "fail_host cause s = (if hostCause s = None then s\<lparr>hostCause := Some cause\<rparr> else s)"

definition sup_fail :: "(string \<Rightarrow> string option) \<Rightarrow> string \<Rightarrow> string \<Rightarrow> supervisor \<Rightarrow> supervisor" where
  "sup_fail policies m err s =
     (let p0 = get_or FailurePolicyUnset policies m;
          policy = (if p0 \<noteq> FailurePolicyUnset then p0 else FailHost)
      in if policy = Degraded
         then case readinessFor m s of (r, s1) \<Rightarrow> s1\<lparr>readi := (readi s1)(m \<mapsto> setUnready err r)\<rparr>
         else fail_host (''servicekit: core module '' @ m @ '' failed: '' @ err) s)"

text \<open>
  What a supervised goroutine, a dispatcher callback or a job does to the supervisor: it panics, it reports an error, or
  it returns without one.
\<close>

datatype report = Panicked string string string | Reported string string | Returned string

definition recoverModule :: "(string \<Rightarrow> string option) \<Rightarrow> string \<Rightarrow> string \<Rightarrow> string option \<Rightarrow> supervisor \<Rightarrow> supervisor" where
  "recoverModule policies m role r s =
     (case r of None \<Rightarrow> s | Some v \<Rightarrow> sup_fail policies m (''module '' @ m @ '' '' @ role @ '' panicked: '' @ v) s)"

definition reportError :: "(string \<Rightarrow> string option) \<Rightarrow> string \<Rightarrow> string option \<Rightarrow> supervisor \<Rightarrow> supervisor" where
  "reportError policies m err s = (case err of None \<Rightarrow> s | Some e \<Rightarrow> sup_fail policies m e s)"

fun handle_report :: "(string \<Rightarrow> string option) \<Rightarrow> report \<Rightarrow> supervisor \<Rightarrow> supervisor" where
  "handle_report ps (Panicked m role v) s = recoverModule ps m role (Some v) s"
| "handle_report ps (Reported m e) s = reportError ps m (Some e) s"
| "handle_report ps (Returned m) s = s"

text \<open>\<^verbatim>\<open>guardCall\<close>: a panic becomes an error.\<close>

datatype call_result = CallOk | CallErr string | CallPanic string

definition guardCall :: "string \<Rightarrow> string \<Rightarrow> call_result \<Rightarrow> string option" where
  "guardCall m what r =
     (case r of CallOk \<Rightarrow> None | CallErr e \<Rightarrow> Some e | CallPanic v \<Rightarrow> Some (''module '' @ m @ '' '' @ what @ '' panicked: '' @ v))"

text \<open>The readiness gates of the modules as the server's probe sees them.\<close>

definition module_probe :: "supervisor \<Rightarrow> string list \<Rightarrow> Result list" where
  "module_probe s ms =
     Aggregate (map (\<lambda>m. let r = fst (readinessFor m s) in (mrName r, readiness_Check r)) ms)"

section \<open>Registrations\<close>

record ('st, 'tx, 'h) hostState =
  outboxes :: "(string \<times> 'st) list"
  consumers :: "(string \<times> 'tx \<times> (string \<times> 'h) list) list"
  jobs :: "(string \<times> string \<times> 'h) list"
  idemEnabled :: bool
  idemRegs :: "(string \<times> 'st \<times> 'tx) list"

datatype reg_err = StoreNil string | RelayTwice string | ConsumerTxNil string | BadHandler string | JobNil string string
  | IdemDisabled string | IdemNil string | IdemTwice string

definition registerRelay :: "string \<Rightarrow> 'st option \<Rightarrow> ('st, 'tx, 'h) hostState \<Rightarrow> reg_err option \<times> ('st, 'tx, 'h) hostState" where
  "registerRelay m st0 h =
     (case st0 of
        None \<Rightarrow> (Some (StoreNil m), h)
      | Some st \<Rightarrow>
          if m \<in> set (map fst (outboxes h)) then (Some (RelayTwice m), h)
          else (None, h\<lparr>outboxes := outboxes h @ [(m, st)]\<rparr>))"

text \<open>A handler has an event type and a function, \<open>None\<close> when it is nil.\<close>

fun bad_handler :: "(string \<times> 'h option) list \<Rightarrow> bool" where
  "bad_handler [] \<longleftrightarrow> False"
| "bad_handler ((et, f) # hs) \<longleftrightarrow> et = [] \<or> f = None \<or> bad_handler hs"

definition registerConsumer :: "string \<Rightarrow> 'tx option \<Rightarrow> (string \<times> 'h option) list \<Rightarrow> ('st, 'tx, 'h) hostState
    \<Rightarrow> reg_err option \<times> ('st, 'tx, 'h) hostState" where
  "registerConsumer m tx hs h =
     (if hs = [] then (None, h)
      else case tx of
             None \<Rightarrow> (Some (ConsumerTxNil m), h)
           | Some t \<Rightarrow>
               if bad_handler hs then (Some (BadHandler m), h)
               else (None, h\<lparr>consumers := consumers h @ [(m, t, map (\<lambda>(et, f). (et, the f)) hs)]\<rparr>))"

definition registerJob :: "string \<Rightarrow> string \<Rightarrow> 'h option \<Rightarrow> ('st, 'tx, 'h) hostState \<Rightarrow> reg_err option \<times> ('st, 'tx, 'h) hostState" where
  "registerJob m name fn h =
     (case fn of None \<Rightarrow> (Some (JobNil m name), h) | Some f \<Rightarrow> (None, h\<lparr>jobs := jobs h @ [(m, name, f)]\<rparr>))"

definition registerDurableIdempotency :: "string \<Rightarrow> 'st option \<Rightarrow> 'tx option \<Rightarrow> ('st, 'tx, 'h) hostState
    \<Rightarrow> reg_err option \<times> ('st, 'tx, 'h) hostState" where
  "registerDurableIdempotency m st0 tx h =
     (if \<not> idemEnabled h then (Some (IdemDisabled m), h)
      else case (st0, tx) of
             (Some st, Some t) \<Rightarrow>
               if m \<in> set (map fst (idemRegs h)) then (Some (IdemTwice m), h)
               else (None, h\<lparr>idemRegs := idemRegs h @ [(m, st, t)]\<rparr>)
           | _ \<Rightarrow> (Some (IdemNil m), h))"

datatype ('st, 'tx, 'h) registration = RegRelay string "'st option" | RegConsumer string "'tx option" "(string \<times> 'h option) list"
  | RegJob string string "'h option" | RegIdem string "'st option" "'tx option"

fun do_register :: "('st, 'tx, 'h) registration \<Rightarrow> ('st, 'tx, 'h) hostState \<Rightarrow> reg_err option \<times> ('st, 'tx, 'h) hostState" where
  "do_register (RegRelay m st) h = registerRelay m st h"
| "do_register (RegConsumer m tx hs) h = registerConsumer m tx hs h"
| "do_register (RegJob m n f) h = registerJob m n f h"
| "do_register (RegIdem m st tx) h = registerDurableIdempotency m st tx h"

text \<open>The dispatchers that \<^verbatim>\<open>startDispatchers\<close> and \<^verbatim>\<open>startJobs\<close> start: the owner and the role of each.\<close>

definition dispatchers :: "('st, 'tx, 'h) hostState \<Rightarrow> (string \<times> string) list" where
  "dispatchers h = map (\<lambda>(m, _). (m, ''relay'')) (outboxes h) @ map (\<lambda>(m, _). (m, ''consumer'')) (consumers h)
     @ map (\<lambda>(m, n, _). (m, ''job:'' @ n)) (jobs h)"

definition consumer_group :: "string \<Rightarrow> string" where
  "consumer_group m = ''module:'' @ m"

section \<open>What the supervisor does\<close>

definition degradable :: "(string \<Rightarrow> string option) \<Rightarrow> string \<Rightarrow> bool" where
  "degradable ps m \<longleftrightarrow> ps m = Some Degraded"

text \<open>The failures among the reports: the module and the error that is attributed to it.\<close>

fun failures :: "report list \<Rightarrow> (string \<times> string) list" where
  "failures [] = []"
| "failures (Panicked m role v # rs) = (m, ''module '' @ m @ '' '' @ role @ '' panicked: '' @ v) # failures rs"
| "failures (Reported m e # rs) = (m, e) # failures rs"
| "failures (Returned m # rs) = failures rs"

lemma sup_fail_cases:
  "sup_fail ps m err s =
     (if degradable ps m then s\<lparr>readi := (readi s)(m \<mapsto> setUnready err (fst (readinessFor m s)))\<rparr>
      else fail_host (''servicekit: core module '' @ m @ '' failed: '' @ err) s)"
proof -
  have "(if get_or FailurePolicyUnset ps m \<noteq> FailurePolicyUnset then get_or FailurePolicyUnset ps m else FailHost) = Degraded
      \<longleftrightarrow> degradable ps m"
    by (auto simp: degradable_def get_or_def FailurePolicyUnset_def FailHost_def Degraded_def split: option.splits)
  then show ?thesis
    by (auto simp: sup_fail_def readinessFor_def Let_def fun_eq_iff split: option.splits)
qed

lemma handle_report_fail:
  "handle_report ps r s = (case failures [r] of [] \<Rightarrow> s | f # _ \<Rightarrow> sup_fail ps (fst f) (snd f) s)"
  by (cases r) (simp_all add: recoverModule_def reportError_def)

lemma failures_append: "failures (xs @ ys) = failures xs @ failures ys"
  by (induction xs rule: failures.induct) simp_all

definition supervise :: "(string \<Rightarrow> string option) \<Rightarrow> report list \<Rightarrow> supervisor" where
  "supervise ps rs = fold (handle_report ps) rs newSupervisor"

lemma supervise_snoc: "supervise ps (rs @ [r]) = handle_report ps r (supervise ps rs)"
  by (simp add: supervise_def)

definition last_failure :: "report list \<Rightarrow> string \<Rightarrow> string option" where
  "last_failure rs m = map_option snd (find (\<lambda>f. fst f = m) (rev (failures rs)))"

definition degraded_gate :: "string \<Rightarrow> string \<Rightarrow> moduleReadiness" where
  "degraded_gate m e = \<lparr>mrName = m @ ''.module'', mrReady = False, mrCause = Some e\<rparr>"

text \<open>The state of the supervisor after a history.\<close>

lemma failures_single: "failures [r] = [] \<or> (\<exists>m e. failures [r] = [(m, e)])"
  by (cases r) simp_all

lemma find_append: "find P (xs @ ys) = (case find P xs of Some x \<Rightarrow> Some x | None \<Rightarrow> find P ys)"
  by (induction xs) simp_all

lemma supervise_host:
  "hostCause (supervise ps rs) = map_option (\<lambda>(m, e). ''servicekit: core module '' @ m @ '' failed: '' @ e)
     (find (\<lambda>f. \<not> degradable ps (fst f)) (failures rs))"
proof (induction rs rule: rev_induct)
  case (snoc r rs)
  from failures_single [of r] show ?case
  proof
    assume "failures [r] = []"
    then show ?thesis using snoc by (simp add: supervise_snoc handle_report_fail failures_append)
  next
    assume "\<exists>m e. failures [r] = [(m, e)]"
    then obtain m e where f: "failures [r] = [(m, e)]" by blast
    then show ?thesis using snoc
      by (cases "find (\<lambda>f. \<not> degradable ps (fst f)) (failures rs)")
        (auto simp: supervise_snoc handle_report_fail failures_append find_append sup_fail_cases fail_host_def)
  qed
qed (simp add: supervise_def newSupervisor_def)

lemma supervise_gates:
  "readi (supervise ps rs) m = (if degradable ps m then map_option (degraded_gate m) (last_failure rs m) else None)"
proof (induction rs arbitrary: m rule: rev_induct)
  case (snoc r rs)
  from failures_single [of r] show ?case
  proof
    assume "failures [r] = []"
    then show ?thesis using snoc [of m] by (simp add: supervise_snoc handle_report_fail failures_append last_failure_def)
  next
    assume "\<exists>m e. failures [r] = [(m, e)]"
    then obtain n e where f: "failures [r] = [(n, e)]" by blast
    have g: "setUnready e (fst (readinessFor n (supervise ps rs))) = degraded_gate n e" if "degradable ps n"
    proof -
      have "readi (supervise ps rs) n = map_option (degraded_gate n) (last_failure rs n)" using snoc [of n] that by simp
      then show ?thesis
        by (cases "last_failure rs n") (simp_all add: readinessFor_def setUnready_def degraded_gate_def Let_def)
    qed
    show ?thesis
      using f snoc [of m] g
      by (auto simp: supervise_snoc handle_report_fail failures_append last_failure_def sup_fail_cases fail_host_def)
  qed
qed (simp add: supervise_def newSupervisor_def last_failure_def)

lemma probe_gate:
  "(mrName (fst (readinessFor m s)), readiness_Check (fst (readinessFor m s)))
     = (case readi s m of None \<Rightarrow> (m @ ''.module'', None) | Some r \<Rightarrow> (mrName r, readiness_Check r))"
  by (simp add: readinessFor_def readiness_Check_def Let_def split: option.split)

lemma module_probe_eq:
  "module_probe (supervise ps rs) ms = concat (map (\<lambda>m.
     case (if degradable ps m then last_failure rs m else None) of
       None \<Rightarrow> []
     | Some e \<Rightarrow> [\<lparr>resName = m @ ''.module'', resErr = ''module degraded: '' @ e\<rparr>]) ms)"
proof -
  have Agg: "Aggregate probes = concat (map (\<lambda>it. case snd it of None \<Rightarrow> [] | Some e \<Rightarrow> [\<lparr>resName = fst it, resErr = e\<rparr>]) probes)"
    for probes by (simp add: Aggregate_def)
  show ?thesis unfolding module_probe_def Agg Let_def probe_gate map_map supervise_gates
    by (intro arg_cong [where f = concat] map_cong)
      (simp_all add: degraded_gate_def readiness_Check_def split: option.split)
qed

text \<open>The policy of a module: the composition's override, else the module's own, else the host's default, which is to fail the
  host.\<close>

definition effective_policy :: "string \<Rightarrow> (string \<Rightarrow> string option) \<Rightarrow> Descriptor \<Rightarrow> string" where
  "effective_policy dflt overrides d =
     (if get_or [] overrides (dID d) \<noteq> [] then get_or [] overrides (dID d)
      else if dFailurePolicy d \<noteq> [] then dFailurePolicy d
      else if dflt \<noteq> [] then dflt else FailHost)"

lemma policies_fold:
  assumes "distinct (map dID ds)"
  shows "fold (\<lambda>d out. out(dID d \<mapsto> f d)) ds m0 k
     = (case find (\<lambda>d. dID d = k) ds of Some d \<Rightarrow> Some (f d) | None \<Rightarrow> m0 k)"
  using assms
proof (induction ds arbitrary: m0)
  case (Cons d ds)
  have "dID d \<notin> set (map dID ds)" using Cons.prems by simp
  then have "find (\<lambda>d'. dID d' = dID d) ds = None" by (induction ds) auto
  then show ?case using Cons by auto
qed simp

lemma resolved_policy:
  assumes "distinct (map dID ds)" "d \<in> set ds"
  shows "resolveFailurePolicies dflt overrides ds (dID d) = Some (effective_policy dflt overrides d)"
proof -
  let ?f = "\<lambda>d. case overrides (dID d) of
      Some o1 \<Rightarrow> if o1 \<noteq> [] then o1 else if dFailurePolicy d \<noteq> [] then dFailurePolicy d else (if dflt = [] then FailHost else dflt)
    | None \<Rightarrow> if dFailurePolicy d \<noteq> [] then dFailurePolicy d else (if dflt = [] then FailHost else dflt)"
  have "find (\<lambda>d'. dID d' = dID d) ds = Some d" using assms
  proof (induction ds)
    case (Cons a ds)
    then show ?case by (cases "a = d") auto
  qed simp
  moreover have "resolveFailurePolicies dflt overrides ds = fold (\<lambda>d out. out(dID d \<mapsto> ?f d)) ds Map.empty"
    unfolding resolveFailurePolicies_def FailurePolicyUnset_def Let_def by (rule refl)
  moreover have "?f d = effective_policy dflt overrides d"
    by (simp add: effective_policy_def get_or_def split: option.split)
  ultimately show ?thesis by (simp add: policies_fold [OF assms(1)])
qed

section \<open>Properties of the supervisor\<close>

text \<open>Bulkheads. Whatever modules panic or report, in whatever order, the host goes down exactly when a module that is not
  degradable fails, with the first such failure as the cause; and the readiness probe names exactly the degradable modules
  that failed, each with its own last error.\<close>

theorem bulkhead_isolates:
  assumes "distinct (map dID ds)" "ps = resolveFailurePolicies dflt overrides ds"
    and "list_all (\<lambda>f. fst f \<in> dID ` set ds) (failures rs)"
  shows "(hostCause (supervise ps rs) = None \<longleftrightarrow> list_all (\<lambda>f. ps (fst f) = Some Degraded) (failures rs))
    \<and> module_probe (supervise ps rs) (map dID ds) = concat (map (\<lambda>d.
        case (if effective_policy dflt overrides d = Degraded then last_failure rs (dID d) else None) of
          None \<Rightarrow> []
        | Some e \<Rightarrow> [\<lparr>resName = dID d @ ''.module'', resErr = ''module degraded: '' @ e\<rparr>]) ds)"
proof
  show "hostCause (supervise ps rs) = None \<longleftrightarrow> list_all (\<lambda>f. ps (fst f) = Some Degraded) (failures rs)"
    by (force simp: supervise_host find_None_iff degradable_def list_all_iff)
  have "degradable ps (dID d) \<longleftrightarrow> effective_policy dflt overrides d = Degraded" if "d \<in> set ds" for d
    using resolved_policy [OF assms(1) that] assms(2) by (simp add: degradable_def)
  then show "module_probe (supervise ps rs) (map dID ds) = concat (map (\<lambda>d.
        case (if effective_policy dflt overrides d = Degraded then last_failure rs (dID d) else None) of
          None \<Rightarrow> []
        | Some e \<Rightarrow> [\<lparr>resName = dID d @ ''.module'', resErr = ''module degraded: '' @ e\<rparr>]) ds)"
    unfolding module_probe_eq map_map by (intro arg_cong [where f = concat] map_cong) simp_all
qed

definition sample_module :: "string \<Rightarrow> string \<Rightarrow> Descriptor" where
  "sample_module m p = \<lparr>dID = m, dMethods = [], dAuthzRules = [], dRoutes = [], dConfigPrefix = [],
     dDatabase = \<lparr>Isolation = [], ddSchema = [], ddTablePrefix = []\<rparr>,
     dEvents = \<lparr>Publishes = [], Subscribes = [], OutboxEnabled = False\<rparr>, dFailurePolicy = p\<rparr>"

theorem bulkhead_isolates_witness:
  "let ds = [sample_module ''core'' [], sample_module ''extra'' Degraded];
       ps = resolveFailurePolicies [] Map.empty ds;
       s = supervise ps [Returned ''core'', Panicked ''extra'' ''job'' ''boom'']
   in hostCause s = None
    \<and> module_probe s [''core'', ''extra''] = [\<lparr>resName = ''extra.module'',
        resErr = ''module degraded: module extra job panicked: boom''\<rparr>]"
  using bulkhead_isolates [of "[sample_module ''core'' [], sample_module ''extra'' Degraded]" _ "[]" Map.empty
      "[Returned ''core'', Panicked ''extra'' ''job'' ''boom'']"]
  by (simp add: sample_module_def resolveFailurePolicies_def effective_policy_def FailurePolicyUnset_def FailHost_def Degraded_def
      last_failure_def Let_def get_or_def)

text \<open>The gate of a module never opens again: an error that a retry made good, such as one failed publish of the relay, leaves
  the module unready, or the host down, for the rest of the process.\<close>

theorem failure_is_final:
  "hostCause (supervise ps rs) = Some c \<Longrightarrow> hostCause (supervise ps (rs @ later)) = Some c"
  "readi (supervise ps rs) m = Some g \<Longrightarrow> \<not> mrReady g \<Longrightarrow> (\<exists>g'. readi (supervise ps (rs @ later)) m = Some g' \<and> \<not> mrReady g')"
proof -
  show "hostCause (supervise ps rs) = Some c \<Longrightarrow> hostCause (supervise ps (rs @ later)) = Some c"
    by (auto simp: supervise_host failures_append find_append split: option.splits)
  show "\<exists>g'. readi (supervise ps (rs @ later)) m = Some g' \<and> \<not> mrReady g'"
    if "readi (supervise ps rs) m = Some g" "\<not> mrReady g"
    using that by (auto simp: supervise_gates last_failure_def failures_append find_append degraded_gate_def
        split: if_splits option.splits)
qed

section \<open>Properties of the registrations\<close>

definition register_all :: "('st, 'tx, 'h) registration list \<Rightarrow> ('st, 'tx, 'h) hostState \<Rightarrow> ('st, 'tx, 'h) hostState" where
  "register_all rs h = fold (\<lambda>r h. snd (do_register r h)) rs h"

definition fresh_host :: "bool \<Rightarrow> ('st, 'tx, 'h) hostState" where
  "fresh_host idem = \<lparr>outboxes = [], consumers = [], jobs = [], idemEnabled = idem, idemRegs = []\<rparr>"

lemma register_step_once:
  "distinct (map fst (outboxes h)) \<Longrightarrow> distinct (map fst (outboxes (snd (do_register r h))))"
  "distinct (map fst (idemRegs h)) \<Longrightarrow> distinct (map fst (idemRegs (snd (do_register r h))))"
  by (cases r; auto simp: registerRelay_def registerConsumer_def registerJob_def registerDurableIdempotency_def split: option.split)+

lemma register_all_once:
  "distinct (map fst (outboxes h)) \<Longrightarrow> distinct (map fst (outboxes (register_all rs h)))"
  "distinct (map fst (idemRegs h)) \<Longrightarrow> distinct (map fst (idemRegs (register_all rs h)))"
  by (induction rs arbitrary: h) (simp_all add: register_all_def register_step_once)

lemma relay_once:
  "distinct (map fst xs) \<Longrightarrow> length (filter (\<lambda>d. d = (m, ''relay'')) (map (\<lambda>(m, _). (m, ''relay'')) xs)) \<le> 1"
proof (induction xs)
  case (Cons x xs)
  show ?case
  proof (cases "fst x = m")
    case True
    then have "m \<notin> set (map fst xs)" using Cons.prems by auto
    then have "filter (\<lambda>d. d = (m, ''relay'')) (map (\<lambda>(m, _). (m, ''relay'')) xs) = []"
      by (induction xs) auto
    then show ?thesis by simp
  next
    case False
    then show ?thesis using Cons by (simp add: case_prod_beta)
  qed
qed simp

text \<open>Whatever the modules register, the host starts at most one relay for a module, and a module has at most one store for
  durable idempotency.\<close>

theorem one_relay_per_module:
  "length (filter (\<lambda>d. d = (m, ''relay'')) (map (\<lambda>(m, _). (m, ''relay'')) (outboxes (register_all rs (fresh_host idem))))) \<le> 1
   \<and> distinct (map fst (idemRegs (register_all rs (fresh_host idem))))"
proof
  have d: "distinct (map fst (outboxes (register_all rs (fresh_host idem))))"
    by (rule register_all_once(1)) (simp add: fresh_host_def)
  from relay_once [OF d] show "length (filter (\<lambda>d. d = (m, ''relay'')) (map (\<lambda>(m, _). (m, ''relay''))
      (outboxes (register_all rs (fresh_host idem))))) \<le> 1" .
  show "distinct (map fst (idemRegs (register_all rs (fresh_host idem))))"
    by (rule register_all_once(2)) (simp add: fresh_host_def)
qed

text \<open>There is no such bound for consumers: a module that subscribes twice gets two of them in its group.\<close>

theorem two_consumers_of_a_module:
  "let h = register_all [RegConsumer m (Some t) [(''E'', Some f)], RegConsumer m (Some t) [(''F'', Some g)]] (fresh_host False)
   in dispatchers h = [(m, ''consumer''), (m, ''consumer'')]"
  by (simp add: register_all_def fresh_host_def registerConsumer_def dispatchers_def Let_def)

end
