(* ===== verification/Compose_Idem.thy ===== *)
theory Compose_Idem
  imports Compose_Host "HOL-Library.Multiset"
begin

text \<open>
  Durable request idempotency in a composed host (\<^verbatim>\<open>src/servicekit/idempotency.go\<close>): the holder that routes each call to the
  store and transaction runner of the module that owns the method, and the in-process store that serves the methods of
  modules without one. The in-process store is shown to answer like the database store of \<open>Idempotency\<close>.
\<close>

section \<open>The in-process store\<close>

record memDurableRecord =
  mdRec :: IdempotencyRecord
  mdExpires :: go_time

type_synonym mem_store = "string \<Rightarrow> memDurableRecord option"

definition newMemDurableStore :: mem_store where
  "newMemDurableStore = Map.empty"

definition memKey :: "IdempotencyKey \<Rightarrow> string" where
  "memKey k = ikTenant k @ [CHR 0x00] @ ikMethod k @ [CHR 0x00] @ ikRequestID k"

definition errMemNoTx :: "string \<Rightarrow> ierr" where
  "errMemNoTx op = DbError (''servicekit: memDurableStore.'' @ op) ''called outside Atomically''"

text \<open>\<open>inTx\<close> is \<^verbatim>\<open>inMemTx\<close> of the context. A panic of the function is an error value that rolls back like any other.\<close>

definition mem_Atomically :: "bool \<Rightarrow> (mem_store \<Rightarrow> (ierr + 'x) \<times> mem_store) \<Rightarrow> mem_store \<Rightarrow> (ierr + 'x) \<times> mem_store" where
  "mem_Atomically inTx fn m =
     (if inTx then fn m else case fn m of (Inl e, _) \<Rightarrow> (Inl e, m) | (Inr x, m1) \<Rightarrow> (Inr x, m1))"

definition mem_Lookup :: "go_time \<Rightarrow> IdempotencyKey \<Rightarrow> mem_store \<Rightarrow> IdempotencyRecord option" where
  "mem_Lookup tnow k m =
     (case m (memKey k) of
        None \<Rightarrow> None
      | Some cur \<Rightarrow> if \<not> mdExpires cur > tnow then None else Some (mdRec cur))"

definition mem_Claim :: "bool \<Rightarrow> go_time \<Rightarrow> IdempotencyKey \<Rightarrow> string \<Rightarrow> duration \<Rightarrow> mem_store
    \<Rightarrow> (ierr + IdempotencyRecord option) \<times> mem_store" where
  "mem_Claim inTx tnow k fp ttl m =
     (if \<not> inTx then (Inl (errMemNoTx ''Claim''), m)
      else
        let claimed = (Inr None, m(memKey k \<mapsto> \<lparr>mdRec = \<lparr>recStatus = StatusInProgress, recResponseType = [], recResponse = [],
              recFingerprint = fp\<rparr>, mdExpires = tnow + ttl\<rparr>))
        in case m (memKey k) of
             Some cur \<Rightarrow> if mdExpires cur > tnow then (Inr (Some (mdRec cur)), m) else claimed
           | None \<Rightarrow> claimed)"

definition mem_Complete :: "bool \<Rightarrow> IdempotencyKey \<Rightarrow> string \<Rightarrow> string \<Rightarrow> mem_store \<Rightarrow> ierr option \<times> mem_store" where
  "mem_Complete inTx k ty b m =
     (if \<not> inTx then (Some (errMemNoTx ''Complete''), m)
      else case m (memKey k) of
             None \<Rightarrow> (Some (NoClaimedRow (ikRequestID k)), m)
           | Some cur \<Rightarrow>
               (None, m(memKey k \<mapsto> cur\<lparr>mdRec := (mdRec cur)\<lparr>recStatus := StatusCompleted, recResponseType := ty, recResponse := b\<rparr>\<rparr>)))"

definition mem_Abandon :: "bool \<Rightarrow> IdempotencyKey \<Rightarrow> mem_store \<Rightarrow> (ierr + bool) \<times> mem_store" where
  "mem_Abandon inTx k m =
     (if \<not> inTx then (Inl (errMemNoTx ''Abandon''), m)
      else case m (memKey k) of
             None \<Rightarrow> (Inr False, m)
           | Some cur \<Rightarrow>
               if recStatus (mdRec cur) \<noteq> StatusInProgress then (Inr False, m) else (Inr True, m(memKey k := None)))"

text \<open>The sweep deletes during the iteration over the map; \<open>keys\<close> are the keys of the map in that order.\<close>

fun mem_GC :: "go_time \<Rightarrow> string list \<Rightarrow> mem_store \<Rightarrow> nat \<times> mem_store" where
  "mem_GC tnow [] m = (0, m)"
| "mem_GC tnow (k # ks) m =
     (case m k of
        Some v \<Rightarrow>
          if \<not> mdExpires v > tnow then (case mem_GC tnow ks (m(k := None)) of (n, m1) \<Rightarrow> (Suc n, m1)) else mem_GC tnow ks m
      | None \<Rightarrow> mem_GC tnow ks m)"

section \<open>The holder\<close>

text \<open>A backend is the fallback or the one a module registered; stores and transaction runners are registered together.\<close>

datatype backend_of = Fallback | OfModule string

record hostDurableDedup =
  methodToModule :: "string \<Rightarrow> string option"
  stores :: "string set"
  txs :: "string set"
  single :: "string option"

definition newHostDurableDedup :: hostDurableDedup where
  "newHostDurableDedup = \<lparr>methodToModule = Map.empty, stores = {}, txs = {}, single = None\<rparr>"

definition route_methods :: "Descriptor \<Rightarrow> (string \<Rightarrow> string option) \<Rightarrow> string \<Rightarrow> string option" where
  "route_methods d m = fold (\<lambda>meth m. m(meth \<mapsto> dID d)) (dMethods d) m"

definition build_holder :: "Descriptor list \<Rightarrow> string list \<Rightarrow> hostDurableDedup \<Rightarrow> hostDurableDedup" where
  "build_holder ds regs h =
     h\<lparr>methodToModule := fold route_methods ds (methodToModule h),
       stores := stores h \<union> set regs, txs := txs h \<union> set regs,
       single := (case regs of [only] \<Rightarrow> Some only | _ \<Rightarrow> single h)\<rparr>"

definition storeFor :: "hostDurableDedup \<Rightarrow> string \<Rightarrow> backend_of" where
  "storeFor h meth =
     (case methodToModule h meth of
        Some mo \<Rightarrow> if mo \<in> stores h then OfModule mo else Fallback
      | None \<Rightarrow> (case single h of Some s \<Rightarrow> OfModule s | None \<Rightarrow> Fallback))"

definition txForMethod :: "hostDurableDedup \<Rightarrow> string \<Rightarrow> backend_of" where
  "txForMethod h meth =
     (case methodToModule h meth of
        Some mo \<Rightarrow> if mo \<in> txs h then OfModule mo else Fallback
      | None \<Rightarrow> (case single h of Some s \<Rightarrow> OfModule s | None \<Rightarrow> Fallback))"

text \<open>\<open>None\<close>: no method on the context.\<close>

definition txFor :: "hostDurableDedup \<Rightarrow> string option \<Rightarrow> backend_of" where
  "txFor h m =
     (case m of
        Some meth \<Rightarrow> txForMethod h meth
      | None \<Rightarrow> (case single h of Some s \<Rightarrow> OfModule s | None \<Rightarrow> Fallback))"

definition unregisteredModules :: "Descriptor list \<Rightarrow> hostDurableDedup \<Rightarrow> string list" where
  "unregisteredModules ds h = (if stores h = {} then [] else filter (\<lambda>i. i \<notin> stores h) (map dID ds))"

text \<open>The sweep over every store: the counts and errors, the registered stores in the order of the map iteration.\<close>

definition holder_GC :: "(nat \<times> string option) list \<Rightarrow> nat \<times> string option \<Rightarrow> nat \<times> string list" where
  "holder_GC regs fb = (sum_list (map fst regs) + fst fb,
     concat (map (\<lambda>r. case snd r of None \<Rightarrow> [] | Some e \<Rightarrow> [e]) (regs @ [fb])))"

fun verifyMigrated :: "(string \<times> string option) list \<Rightarrow> (string \<times> string) option" where
  "verifyMigrated [] = None"
| "verifyMigrated ((m, e) # rest) = (case e of Some x \<Rightarrow> Some (m, x) | None \<Rightarrow> verifyMigrated rest)"

section \<open>The in-process store simulates the database store\<close>

definition mem_of :: "IdempotencyKeyRow \<Rightarrow> memDurableRecord" where
  "mem_of r = \<lparr>mdRec = toRecord r, mdExpires = rowExpiresAt r\<rparr>"

text \<open>The joined key is unambiguous for tenants and methods without a NUL byte.\<close>

definition key_ok :: "IdempotencyKey \<Rightarrow> bool" where
  "key_ok k \<longleftrightarrow> CHR 0x00 \<notin> set (ikTenant k) \<and> CHR 0x00 \<notin> set (ikMethod k)"

definition same_store :: "IdempotencyKeyRow list \<Rightarrow> mem_store \<Rightarrow> bool" where
  "same_store t m \<longleftrightarrow> table_ok t \<and> list_all (\<lambda>r. key_ok (rowKey r)) t
     \<and> (\<forall>k. key_ok k \<longrightarrow> m (memKey k) = map_option mem_of (row_at k t)) \<and> dom m \<subseteq> memKey ` Collect key_ok"

lemma nul_split:
  assumes "c \<notin> set a" "c \<notin> set b" "a @ c # x = b @ c # y"
  shows "a = b \<and> x = y"
  using assms
proof (induction a arbitrary: b)
  case Nil
  then show ?case by (cases b) auto
next
  case (Cons d a)
  then show ?case by (cases b) auto
qed

lemma memKey_inj: "key_ok k \<Longrightarrow> key_ok l \<Longrightarrow> memKey k = memKey l \<longleftrightarrow> k = l"
proof
  assume ok: "key_ok k" "key_ok l" and eq: "memKey k = memKey l"
  have t: "ikTenant k = ikTenant l \<and> ikMethod k @ CHR 0x00 # ikRequestID k = ikMethod l @ CHR 0x00 # ikRequestID l"
    using eq ok by (intro nul_split) (simp_all add: memKey_def key_ok_def)
  have "ikMethod k = ikMethod l \<and> ikRequestID k = ikRequestID l"
    using nul_split [of "CHR 0x00" "ikMethod k" "ikMethod l" "ikRequestID k" "ikRequestID l"] t ok by (simp add: key_ok_def)
  with t show "k = l" by simp
qed simp

text \<open>Replacing one row changes one entry.\<close>

lemma same_store_update:
  assumes s: "same_store t m" and k: "key_ok k" and ok: "table_ok t'" "list_all (\<lambda>r. key_ok (rowKey r)) t'"
    and rest: "\<And>k'. k' \<noteq> k \<Longrightarrow> row_at k' t' = row_at k' t"
  shows "same_store t' (m(memKey k := map_option mem_of (row_at k t')))"
proof -
  let ?v = "map_option mem_of (row_at k t')"
  have one: "(m(memKey k := ?v)) (memKey k') = map_option mem_of (row_at k' t')" if k': "key_ok k'" for k'
  proof (cases "k' = k")
    case False
    then have "memKey k' \<noteq> memKey k" using memKey_inj [OF k' k] by simp
    then show ?thesis using s k' rest [OF False] by (simp add: same_store_def)
  qed simp
  moreover have "dom (m(memKey k := ?v)) \<subseteq> memKey ` Collect key_ok"
    using s k by (auto simp: same_store_def dom_def split: if_splits)
  ultimately show ?thesis using ok by (simp add: same_store_def)
qed

lemma same_store_at: "same_store t m \<Longrightarrow> key_ok k \<Longrightarrow> m (memKey k) = map_option mem_of (row_at k t)"
  by (simp add: same_store_def)

lemma same_store_ok: "same_store t m \<Longrightarrow> table_ok t" "same_store t m \<Longrightarrow> list_all (\<lambda>r. key_ok (rowKey r)) t"
  by (simp_all add: same_store_def)

lemma sim_Lookup: "same_store t m \<Longrightarrow> key_ok k \<Longrightarrow> Lookup no_faults tnow k t = Inr (mem_Lookup tnow k m)"
  by (simp add: Lookup_def no_faults_def mem_Lookup_def find_live [OF same_store_ok(1)] same_store_at mem_of_def
      split: option.split)

lemma row_at_fresh: "row_at k' [fresh_row tnow ttl k fp] = (if k' = k then Some (fresh_row tnow ttl k fp) else None)"
  by (simp add: row_at_def fresh_row_def)

lemma sim_Claim:
  assumes s: "same_store t m" and k: "key_ok k"
  shows "fst (Claim no_faults tnow k fp ttl t) = fst (mem_Claim True tnow k fp ttl m)"
    "same_store (snd (Claim no_faults tnow k fp ttl t)) (snd (mem_Claim True tnow k fp ttl m))"
proof -
  note ok = same_store_ok [OF s]
  let ?rec = "\<lparr>mdRec = \<lparr>recStatus = StatusInProgress, recResponseType = [], recResponse = [], recFingerprint = fp\<rparr>,
    mdExpires = tnow + ttl\<rparr>"
  have "fst (Claim no_faults tnow k fp ttl t) = fst (mem_Claim True tnow k fp ttl m)
    \<and> same_store (snd (Claim no_faults tnow k fp ttl t)) (snd (mem_Claim True tnow k fp ttl m))"
  proof (cases "row_at k t")
    case None
    let ?t = "t @ [fresh_row tnow ttl k fp]"
    have c: "Claim no_faults tnow k fp ttl t = (Inr None, ?t)" using None by (simp add: Claim_def no_faults_def)
    have "m (memKey k) = None" using same_store_at [OF s k] None by simp
    then have d: "mem_Claim True tnow k fp ttl m = (Inr None, m(memKey k \<mapsto> ?rec))" by (simp add: mem_Claim_def)
    have "table_ok ?t" using claimed_fresh [OF ok(1) None] by (simp add: claimed_def)
    moreover have "list_all (\<lambda>r. key_ok (rowKey r)) ?t" using ok(2) k by (simp add: fresh_row_def)
    moreover have "row_at k' ?t = row_at k' t" if "k' \<noteq> k" for k'
      using that by (simp add: row_at_append row_at_fresh split: option.split)
    ultimately have "same_store ?t (m(memKey k := map_option mem_of (row_at k ?t)))" by (rule same_store_update [OF s k])
    moreover have "map_option mem_of (row_at k ?t) = Some ?rec"
      using None by (simp add: row_at_append row_at_fresh mem_of_def toRecord_def) (simp add: fresh_row_def)
    ultimately show ?thesis using c d by simp
  next
    case (Some r)
    have at: "m (memKey k) = Some (mem_of r)" using same_store_at [OF s k] Some by simp
    show ?thesis
    proof (cases "rowExpiresAt r \<le> tnow")
      case False
      then have "Claim no_faults tnow k fp ttl t = (Inr (Some (toRecord r)), t)"
        using Some by (simp add: Claim_def no_faults_def take_row_def)
      moreover have "mem_Claim True tnow k fp ttl m = (Inr (Some (toRecord r)), m)"
        using at False by (simp add: mem_Claim_def mem_of_def)
      ultimately show ?thesis using s by simp
    next
      case exp: True
      let ?P = "\<lambda>r. rowKey r = k \<and> rowExpiresAt r \<le> tnow"
      let ?f = "\<lambda>r :: IdempotencyKeyRow. r\<lparr>rowStatus := StatusInProgress, rowResponseType := [], rowResponse := [],
        rowFingerprint := fp, rowCreatedAt := tnow, rowExpiresAt := tnow + ttl\<rparr>"
      let ?t = "map (\<lambda>r. if ?P r then ?f r else r) t"
      have n: "length (filter ?P t) = 1" using exp by (rule one_match [where Q = "\<lambda>r. rowExpiresAt r \<le> tnow", OF ok(1) Some])
      have c: "Claim no_faults tnow k fp ttl t = (Inr None, ?t)"
        using Some exp n by (simp add: Claim_def no_faults_def take_row_def update_where_def Let_def)
      have d: "mem_Claim True tnow k fp ttl m = (Inr None, m(memKey k \<mapsto> ?rec))"
        using at exp by (simp add: mem_Claim_def mem_of_def)
      have ra: "row_at k' ?t = (case row_at k' t of None \<Rightarrow> None | Some r \<Rightarrow> Some (if ?P r then ?f r else r))" for k'
        by (rule row_at_map(1)) auto
      have "table_ok ?t" by (rule row_at_map(2) [OF _ _ ok(1)]) auto
      moreover have "list_all (\<lambda>r. key_ok (rowKey r)) ?t" using ok(2) by (auto simp: list_all_iff)
      moreover have "row_at k' ?t = row_at k' t" if "k' \<noteq> k" for k'
        using that row_at_Some [of k' t] by (auto simp: ra split: option.split)
      ultimately have "same_store ?t (m(memKey k := map_option mem_of (row_at k ?t)))" by (rule same_store_update [OF s k])
      moreover have "map_option mem_of (row_at k ?t) = Some ?rec"
        using Some exp row_at_Some [OF Some] by (simp add: ra mem_of_def toRecord_def)
      ultimately show ?thesis using c d by simp
    qed
  qed
  then show "fst (Claim no_faults tnow k fp ttl t) = fst (mem_Claim True tnow k fp ttl m)"
    "same_store (snd (Claim no_faults tnow k fp ttl t)) (snd (mem_Claim True tnow k fp ttl m))" by simp_all
qed

lemma sim_Complete:
  assumes s: "same_store t m" and k: "key_ok k"
  shows "fst (Complete no_faults k ty b t) = fst (mem_Complete True k ty b m)
    \<and> same_store (snd (Complete no_faults k ty b t)) (snd (mem_Complete True k ty b m))"
proof (cases "row_at k t")
  case None
  have "filter (\<lambda>r. rowKey r = k) t = []" using None by (auto simp: row_at_None filter_empty_conv)
  moreover have "map (\<lambda>r. if rowKey r = k then (f r :: IdempotencyKeyRow) else r) t = t" for f
    using None by (induction t) (auto simp: row_at_def)
  ultimately show ?thesis
    using s same_store_at [OF s k] None
    by (simp add: Complete_def no_faults_def update_where_def mem_Complete_def)
next
  case (Some r)
  note ok = same_store_ok [OF s]
  let ?f = "\<lambda>r :: IdempotencyKeyRow. r\<lparr>rowStatus := StatusCompleted, rowResponseType := ty, rowResponse := b\<rparr>"
  let ?t = "map (\<lambda>r. if rowKey r = k then ?f r else r) t"
  let ?rec = "(mem_of r)\<lparr>mdRec := (mdRec (mem_of r))\<lparr>recStatus := StatusCompleted, recResponseType := ty, recResponse := b\<rparr>\<rparr>"
  have n: "length (filter (\<lambda>r. rowKey r = k) t) = 1" using one_match [OF ok(1) Some, of "\<lambda>_. True"] by simp
  have ra: "row_at k' ?t = (case row_at k' t of None \<Rightarrow> None | Some r \<Rightarrow> Some (if rowKey r = k then ?f r else r))" for k'
    by (rule row_at_map(1)) auto
  have "table_ok ?t" by (rule row_at_map(2) [OF _ _ ok(1)]) auto
  moreover have "list_all (\<lambda>r. key_ok (rowKey r)) ?t" using ok(2) by (auto simp: list_all_iff)
  moreover have "row_at k' ?t = row_at k' t" if "k' \<noteq> k" for k'
    using that row_at_Some [of k' t] by (auto simp: ra split: option.split)
  ultimately have "same_store ?t (m(memKey k := map_option mem_of (row_at k ?t)))" by (rule same_store_update [OF s k])
  moreover have "map_option mem_of (row_at k ?t) = Some ?rec"
    using Some row_at_Some [OF Some] by (simp add: ra mem_of_def toRecord_def)
  moreover have "Complete no_faults k ty b t = (None, ?t)" using n by (simp add: Complete_def no_faults_def update_where_def)
  moreover have "mem_Complete True k ty b m = (None, m(memKey k \<mapsto> ?rec))"
    using same_store_at [OF s k] Some by (simp add: mem_Complete_def)
  ultimately show ?thesis by simp
qed

lemma row_at_filter:
  assumes "table_ok t"
  shows "row_at k (filter P t) = (case row_at k t of Some r \<Rightarrow> if P r then Some r else None | None \<Rightarrow> None)"
    "table_ok (filter P t)"
proof -
  show "row_at k (filter P t) = (case row_at k t of Some r \<Rightarrow> if P r then Some r else None | None \<Rightarrow> None)"
    using assms
  proof (induction t)
    case (Cons r t)
    show ?case
    proof (cases "rowKey r = k")
      case True
      then have "row_at k t = None" using Cons.prems by (auto simp: table_ok_def row_at_None)
      then have "row_at k (filter P t) = None" by (auto simp: row_at_None)
      with True show ?thesis by (auto simp: row_at_def)
    qed (use Cons in \<open>simp add: row_at_def table_ok_def\<close>)
  qed (simp add: row_at_def)
  show "table_ok (filter P t)" using assms by (simp add: table_ok_def distinct_map_filter)
qed

lemma sim_Abandon:
  assumes s: "same_store t m" and k: "key_ok k"
  shows "fst (Abandon no_faults k t) = fst (mem_Abandon True k m)
    \<and> same_store (snd (Abandon no_faults k t)) (snd (mem_Abandon True k m))"
proof -
  note ok = same_store_ok [OF s]
  let ?P = "\<lambda>r. rowKey r = k \<and> rowStatus r = StatusInProgress"
  let ?t = "filter (\<lambda>r. \<not> ?P r) t"
  have "list_all (\<lambda>r. key_ok (rowKey r)) ?t" using ok(2) by (auto simp: list_all_iff)
  moreover have "row_at k' ?t = row_at k' t" if "k' \<noteq> k" for k'
    using that row_at_Some [of k' t] by (auto simp: row_at_filter [OF ok(1)] split: option.split)
  ultimately have upd: "same_store ?t (m(memKey k := map_option mem_of (row_at k ?t)))"
    by (intro same_store_update [OF s k] row_at_filter(2) [OF ok(1)])
  have ex: "list_ex ?P t \<longleftrightarrow> (\<exists>r. row_at k t = Some r \<and> rowStatus r = StatusInProgress)"
  proof
    assume "list_ex ?P t"
    then obtain r where r: "r \<in> set t" "rowKey r = k" "rowStatus r = StatusInProgress" by (auto simp: list_ex_iff)
    then show "\<exists>r. row_at k t = Some r \<and> rowStatus r = StatusInProgress" using row_at_unique [OF ok(1) r(1,2)] by simp
  next
    assume "\<exists>r. row_at k t = Some r \<and> rowStatus r = StatusInProgress"
    then obtain r where r: "row_at k t = Some r" "rowStatus r = StatusInProgress" by blast
    then show "list_ex ?P t" using row_at_Some [OF r(1)] by (auto simp: list_ex_iff)
  qed
  have a: "Abandon no_faults k t = (Inr (list_ex ?P t), ?t)" by (simp add: Abandon_def no_faults_def)
  have after: "m(memKey k := map_option mem_of (row_at k ?t)) = snd (mem_Abandon True k m)"
    using same_store_at [OF s k] row_at_Some [of k t]
    by (cases "row_at k t") (auto simp: row_at_filter [OF ok(1)] mem_Abandon_def mem_of_def toRecord_def fun_eq_iff)
  have "fst (mem_Abandon True k m) = Inr (list_ex ?P t)"
    unfolding ex using same_store_at [OF s k]
    by (cases "row_at k t") (auto simp: mem_Abandon_def mem_of_def toRecord_def)
  then show ?thesis using a upd after by simp
qed

definition entry_expired :: "go_time \<Rightarrow> mem_store \<Rightarrow> string \<Rightarrow> bool" where
  "entry_expired tnow m k \<longleftrightarrow> (case m k of Some v \<Rightarrow> mdExpires v \<le> tnow | None \<Rightarrow> False)"

lemma mem_GC_exact:
  "distinct ks \<Longrightarrow> mem_GC tnow ks m
     = (length (filter (entry_expired tnow m) ks), \<lambda>k. if k \<in> set ks \<and> entry_expired tnow m k then None else m k)"
proof (induction ks arbitrary: m)
  case (Cons k ks)
  have other: "filter (entry_expired tnow (m(k := None))) ks = filter (entry_expired tnow m) ks"
    using Cons.prems by (intro filter_cong) (auto simp: entry_expired_def)
  show ?case
  proof (cases "entry_expired tnow m k")
    case True
    then obtain v where v: "m k = Some v" "mdExpires v \<le> tnow" by (auto simp: entry_expired_def split: option.splits)
    have "mem_GC tnow (k # ks) m = (Suc (fst (mem_GC tnow ks (m(k := None)))), snd (mem_GC tnow ks (m(k := None))))"
      using v by (simp add: case_prod_beta)
    moreover have "mem_GC tnow ks (m(k := None)) = (length (filter (entry_expired tnow m) ks),
        \<lambda>x. if x \<in> set ks \<and> entry_expired tnow (m(k := None)) x then None else (m(k := None)) x)"
      using Cons.IH [of "m(k := None)"] Cons.prems by (simp only: other distinct.simps)
    moreover have "(\<lambda>x. if x \<in> set ks \<and> entry_expired tnow (m(k := None)) x then None else (m(k := None)) x)
        = (\<lambda>x. if x \<in> set (k # ks) \<and> entry_expired tnow m x then None else m x)"
      using True by (intro ext) (auto simp: entry_expired_def)
    ultimately show ?thesis using True by simp
  next
    case False
    then have "mem_GC tnow (k # ks) m = mem_GC tnow ks m" by (auto simp: entry_expired_def split: option.splits)
    then show ?thesis using Cons False by (auto simp: fun_eq_iff)
  qed
qed simp

lemma same_store_keys:
  assumes "same_store t m"
  shows "dom m = set (map (\<lambda>r. memKey (rowKey r)) t)" "distinct (map (\<lambda>r. memKey (rowKey r)) t)"
proof -
  note ok = same_store_ok [OF assms]
  have row: "m (memKey (rowKey r)) = Some (mem_of r)" if r: "r \<in> set t" for r
    using same_store_at [OF assms] row_at_unique [OF ok(1) r refl] ok(2) r by (simp add: list_all_iff)
  show "dom m = set (map (\<lambda>r. memKey (rowKey r)) t)"
  proof
    show "dom m \<subseteq> set (map (\<lambda>r. memKey (rowKey r)) t)"
    proof
      fix x assume x: "x \<in> dom m"
      then obtain k where k: "x = memKey k" "key_ok k" using assms by (auto simp: same_store_def)
      then obtain r where "row_at k t = Some r" using x same_store_at [OF assms k(2)] by (auto simp: dom_def)
      then show "x \<in> set (map (\<lambda>r. memKey (rowKey r)) t)" using row_at_Some [of k t r] k(1) by auto
    qed
    show "set (map (\<lambda>r. memKey (rowKey r)) t) \<subseteq> dom m" using row by auto
  qed
  have "inj_on memKey (rowKey ` set t)"
    using ok(2) by (intro inj_onI) (auto simp: list_all_iff memKey_inj)
  then show "distinct (map (\<lambda>r. memKey (rowKey r)) t)"
    using ok(1) by (simp add: table_ok_def distinct_map inj_on_def)
qed

lemma sim_GC:
  assumes s: "same_store t m" and ks: "distinct ks" "set ks = dom m"
  shows "fst (GC (\<lambda>_. None) gcBatch tnow t) = fst (mem_GC tnow ks m)
    \<and> same_store (snd (snd (GC (\<lambda>_. None) gcBatch tnow t))) (snd (mem_GC tnow ks m))"
proof -
  note ok = same_store_ok [OF s]
  obtain n e t' where g: "GC (\<lambda>_. None) gcBatch tnow t = (n, e, t')" by (cases "GC (\<lambda>_. None) gcBatch tnow t") auto
  have t': "t' = filter (\<lambda>r. rowExpiresAt r > tnow) t" "n + length t' = length t"
    using gc_exact [OF g] by (blast, blast)
  have n: "n = length (filter (\<lambda>r. rowExpiresAt r \<le> tnow) t)"
    using t' sum_length_filter_compl [of "\<lambda>r. rowExpiresAt r > tnow" t] by (simp add: not_less)
  have exp: "entry_expired tnow m (memKey (rowKey r)) \<longleftrightarrow> rowExpiresAt r \<le> tnow" if r: "r \<in> set t" for r
    using same_store_at [OF s] row_at_unique [OF ok(1) r refl] ok(2) r by (simp add: list_all_iff entry_expired_def mem_of_def)
  have "mset ks = mset (map (\<lambda>r. memKey (rowKey r)) t)"
    using set_eq_iff_mset_eq_distinct [OF ks(1) same_store_keys(2) [OF s]] ks(2) same_store_keys(1) [OF s] by simp
  then have "mset (filter (entry_expired tnow m) ks) = mset (filter (entry_expired tnow m) (map (\<lambda>r. memKey (rowKey r)) t))"
    by (simp only: mset_filter)
  then have "length (filter (entry_expired tnow m) ks) = length (filter (entry_expired tnow m) (map (\<lambda>r. memKey (rowKey r)) t))"
    by (rule mset_eq_length)
  also have "\<dots> = n" unfolding n filter_map length_map by (intro arg_cong [where f = length] filter_cong) (simp_all add: exp)
  finally have cnt: "fst (mem_GC tnow ks m) = n" by (simp add: mem_GC_exact [OF ks(1)])
  have at: "snd (mem_GC tnow ks m) (memKey k) = map_option mem_of (row_at k t')" if k: "key_ok k" for k
  proof (cases "row_at k t")
    case None
    then show ?thesis using same_store_at [OF s k] t'(1) row_at_filter(1) [OF ok(1)] by (simp add: mem_GC_exact [OF ks(1)])
  next
    case (Some r)
    then have "memKey k \<in> set ks" using same_store_at [OF s k] ks(2) by auto
    then show ?thesis using same_store_at [OF s k] Some t'(1) row_at_filter(1) [OF ok(1)]
      by (simp add: mem_GC_exact [OF ks(1)] entry_expired_def mem_of_def)
  qed
  have "dom (snd (mem_GC tnow ks m)) \<subseteq> dom m" by (auto simp: mem_GC_exact [OF ks(1)] dom_def split: if_splits)
  then have "dom (snd (mem_GC tnow ks m)) \<subseteq> memKey ` Collect key_ok" using s unfolding same_store_def by blast
  moreover have "list_all (\<lambda>r. key_ok (rowKey r)) t'" "table_ok t'"
    using ok(2) t'(1) row_at_filter(2) [OF ok(1)] by (simp_all add: list_all_iff)
  ultimately have "same_store t' (snd (mem_GC tnow ks m))" using at by (simp add: same_store_def)
  with cnt g show ?thesis by simp
qed

section \<open>Properties\<close>

text \<open>The in-process store answers like the database store: from equal contents, every lookup, claim, completion, release and
  sweep gives the same answer and leaves equal contents, as long as tenants and methods hold no NUL byte.\<close>

theorem mem_store_equiv:
  assumes "same_store t m" "key_ok k" "distinct ks" "set ks = dom m"
  shows "Lookup no_faults tnow k t = Inr (mem_Lookup tnow k m)
    \<and> fst (Claim no_faults tnow k fp ttl t) = fst (mem_Claim True tnow k fp ttl m)
    \<and> same_store (snd (Claim no_faults tnow k fp ttl t)) (snd (mem_Claim True tnow k fp ttl m))
    \<and> fst (Complete no_faults k ty b t) = fst (mem_Complete True k ty b m)
    \<and> same_store (snd (Complete no_faults k ty b t)) (snd (mem_Complete True k ty b m))
    \<and> fst (Abandon no_faults k t) = fst (mem_Abandon True k m)
    \<and> same_store (snd (Abandon no_faults k t)) (snd (mem_Abandon True k m))
    \<and> fst (GC (\<lambda>_. None) gcBatch tnow t) = fst (mem_GC tnow ks m)
    \<and> same_store (snd (snd (GC (\<lambda>_. None) gcBatch tnow t))) (snd (mem_GC tnow ks m))"
  using sim_Lookup [OF assms(1,2)] sim_Claim [OF assms(1,2)] sim_Complete [OF assms(1,2)] sim_Abandon [OF assms(1,2)]
    sim_GC [OF assms(1,3,4)] by simp

theorem mem_store_equiv_witness:
  "Lookup no_faults 5 exKey [] = Inr (mem_Lookup 5 exKey newMemDurableStore)
   \<and> fst (mem_Claim True 5 exKey ''f'' 10 newMemDurableStore) = Inr None"
proof -
  have "same_store [] newMemDurableStore" "key_ok exKey"
    by (simp_all add: same_store_def table_ok_def newMemDurableStore_def row_at_def key_ok_def exKey_def)
  from mem_store_equiv [OF this, of "[]" 5 "''f''" 10] show ?thesis
    by (simp add: newMemDurableStore_def mem_Claim_def)
qed

text \<open>The owner of a method is the last module that declares it.\<close>

definition owner_of :: "Descriptor list \<Rightarrow> string \<Rightarrow> string option" where
  "owner_of ds meth = map_option dID (find (\<lambda>d. meth \<in> set (dMethods d)) (rev ds))"

lemma methods_fold: "fold (\<lambda>meth m. m(meth \<mapsto> o1)) ms m0 meth = (if meth \<in> set ms then Some o1 else m0 meth)"
  by (induction ms arbitrary: m0) auto

lemma route_methods_at: "route_methods d m0 meth = (if meth \<in> set (dMethods d) then Some (dID d) else m0 meth)"
  unfolding route_methods_def by (rule methods_fold)

lemma routing_table:
  "fold route_methods ds m0 meth = (case owner_of ds meth of Some o1 \<Rightarrow> Some o1 | None \<Rightarrow> m0 meth)"
  by (induction ds arbitrary: m0) (simp_all add: owner_of_def find_append route_methods_at split: option.split)

text \<open>Store and transaction of a request are always of the same backend, and it is the backend of the module that owns the method
  or, where that module registered none, the fallback; another module's backend is used for methods that no module
  declares only, when exactly one module registered.\<close>

theorem idempotency_routing:
  assumes "h = build_holder ds regs newHostDurableDedup"
  shows "txForMethod h meth = storeFor h meth
    \<and> storeFor h meth = (case owner_of ds meth of
        Some m \<Rightarrow> if m \<in> set regs then OfModule m else Fallback
      | None \<Rightarrow> (case regs of [only] \<Rightarrow> OfModule only | _ \<Rightarrow> Fallback))"
proof -
  have m: "methodToModule h meth = owner_of ds meth"
    by (simp add: assms build_holder_def newHostDurableDedup_def routing_table split: option.split)
  have s: "stores h = set regs" "txs h = set regs" "single h = (case regs of [only] \<Rightarrow> Some only | _ \<Rightarrow> None)"
    by (simp_all add: assms build_holder_def newHostDurableDedup_def split: list.split)
  show ?thesis unfolding txForMethod_def storeFor_def m s by (auto split: option.split list.split)
qed

theorem idempotency_routing_witness:
  "let ds = [(sample_module ''orders'' [])\<lparr>dMethods := [''/o.S/Create'']\<rparr>, (sample_module ''extra'' [])\<lparr>dMethods := [''/e.S/Get'']\<rparr>];
       h = build_holder ds [''orders''] newHostDurableDedup
   in storeFor h ''/o.S/Create'' = OfModule ''orders'' \<and> storeFor h ''/e.S/Get'' = Fallback"
  using idempotency_routing [OF refl, of "[(sample_module ''orders'' [])\<lparr>dMethods := [''/o.S/Create'']\<rparr>,
      (sample_module ''extra'' [])\<lparr>dMethods := [''/e.S/Get'']\<rparr>]" "[''orders'']"]
  by (simp add: owner_of_def sample_module_def)

end
