(* ===== verification/Compose_Run.thy ===== *)
theory Compose_Run
  imports Compose_Idem
begin

text \<open>
  The lifecycle of a composed host (\<^verbatim>\<open>Run\<close> of \<^verbatim>\<open>src/servicekit/run.go\<close>): validation, the server, the boot of each module,
  the idempotency probe, the dispatchers, and serving, as a function from the host's configuration and the behaviour of
  the parts it calls to its error and the trace of what it did. The server, migrations and modules are functions on an
  application state \<open>'s\<close>.
\<close>

section \<open>Configuration and environment\<close>

record DatabaseConfig =
  dcEngine :: string
  dcDefaultIsolation :: string

record HostConfig =
  hcModules :: "Descriptor option list"
  hcDatabase :: "DatabaseConfig option"
  hcDurableIdempotency :: bool
  hcDisableGC :: bool

text \<open>A module's \<^verbatim>\<open>Register\<close> makes registrations and then returns, fails or panics.\<close>

record ('s, 'st, 'tx, 'h) run_env =
  newServer :: "string option"
  migrate :: "(DatabaseNamespace \<Rightarrow> DatabaseDescriptor \<Rightarrow> 's \<Rightarrow> string option \<times> 's) option"
  module_register :: "Descriptor \<Rightarrow> 's \<Rightarrow> (call_result \<times> ('st, 'tx, 'h) registration list) \<times> 's"
  lookup_probe :: "string \<Rightarrow> string option"
  serve :: "'s \<Rightarrow> string option \<times> 's"
  cancel_cause :: "string option"

datatype run_event = EMigrate string | EReadiness string | ERegister string | EGCStart | EDispatch "string \<times> string"
  | EServe | EClose

datatype run_err = RunInvalid compose_err | RunServer string | RunNamespace string ns_err | RunMigrate string string
  | RunRegister string string | RunNotMigrated string string | RunServe string | RunCause string

definition host_registry :: "HostConfig \<Rightarrow> hostDatabaseRegistry" where
  "host_registry hc = (case hcDatabase hc of
     None \<Rightarrow> \<lparr>regEngine = [], regDefault = []\<rparr>
   | Some d \<Rightarrow> \<lparr>regEngine = dcEngine d, regDefault = dcDefaultIsolation d\<rparr>)"

section \<open>Booting the modules\<close>

definition boot_module :: "hostDatabaseRegistry \<Rightarrow> ('s, 'st, 'tx, 'h) run_env \<Rightarrow> Descriptor \<Rightarrow> 's \<times> ('st, 'tx, 'h) hostState
    \<Rightarrow> run_err option \<times> run_event list \<times> 's \<times> ('st, 'tx, 'h) hostState" where
  "boot_module reg env d sh =
     (case registry_Namespace reg (dID d) (dDatabase d) of
        Inl e \<Rightarrow> (Some (RunNamespace (dID d) e), [], sh)
      | Inr ns \<Rightarrow>
          (case (case migrate env of None \<Rightarrow> ((None, fst sh), [])
                 | Some f \<Rightarrow> (f ns (dDatabase d) (fst sh), [EMigrate (dID d)])) of
             ((Some e, s1), tr) \<Rightarrow> (Some (RunMigrate (dID d) e), tr, s1, snd sh)
           | ((None, s1), tr) \<Rightarrow>
               (case module_register env d s1 of
                  ((r, regs), s2) \<Rightarrow>
                    (map_option (RunRegister (dID d)) (guardCall (dID d) ''Register'' r),
                     tr @ [EReadiness (dID d), ERegister (dID d)], s2, register_all regs (snd sh)))))"

fun boot_modules :: "hostDatabaseRegistry \<Rightarrow> ('s, 'st, 'tx, 'h) run_env \<Rightarrow> Descriptor list \<Rightarrow> 's \<times> ('st, 'tx, 'h) hostState
    \<Rightarrow> run_err option \<times> run_event list \<times> 's \<times> ('st, 'tx, 'h) hostState" where
  "boot_modules reg env [] sh = (None, [], sh)"
| "boot_modules reg env (d # ds) sh =
     (case boot_module reg env d sh of
        (Some e, tr, sh1) \<Rightarrow> (Some e, tr, sh1)
      | (None, tr, sh1) \<Rightarrow> (case boot_modules reg env ds sh1 of (e, tr1, sh2) \<Rightarrow> (e, tr @ tr1, sh2)))"

section \<open>Run\<close>

definition serve_phase :: "('s, 'st, 'tx, 'h) run_env \<Rightarrow> run_event list \<Rightarrow> ('st, 'tx, 'h) hostState \<Rightarrow> 's
    \<Rightarrow> run_err option \<times> run_event list" where
  "serve_phase env gc h s =
     ((case fst (serve env s) of
         Some e \<Rightarrow> Some (RunServe e)
       | None \<Rightarrow> map_option RunCause (cancel_cause env)),
      gc @ map EDispatch (dispatchers h) @ [EServe, EClose])"

definition host_Run :: "HostConfig \<Rightarrow> ('s, 'st, 'tx, 'h) run_env \<Rightarrow> 's \<Rightarrow> run_err option \<times> run_event list" where
  "host_Run hc env s =
     (case ValidateModules id (hcModules hc) of
        Some e \<Rightarrow> (Some (RunInvalid e), [])
      | None \<Rightarrow>
          let ds = map the (hcModules hc) in
          (case check_prefixes ds of
             Some e \<Rightarrow> (Some (RunInvalid e), [])
           | None \<Rightarrow>
               (case newServer env of
                  Some e \<Rightarrow> (Some (RunServer e), [])
                | None \<Rightarrow>
                    (case boot_modules (host_registry hc) env ds (s, fresh_host (hcDurableIdempotency hc)) of
                       (Some e, tr, _) \<Rightarrow> (Some e, tr)
                     | (None, tr, s1, h) \<Rightarrow>
                         if hcDurableIdempotency hc
                         then (case verifyMigrated (map (\<lambda>(m, _). (m, lookup_probe env m)) (idemRegs h)) of
                                 Some (m, e) \<Rightarrow> (Some (RunNotMigrated m e), tr)
                               | None \<Rightarrow>
                                   (case serve_phase env (if hcDisableGC hc then [] else [EGCStart]) h s1 of
                                      (e, tr1) \<Rightarrow> (e, tr @ tr1)))
                         else (case serve_phase env [] h s1 of (e, tr1) \<Rightarrow> (e, tr @ tr1))))))"

section \<open>Lemmas\<close>

definition boot_events :: "('s, 'st, 'tx, 'h) run_env \<Rightarrow> Descriptor \<Rightarrow> run_event list" where
  "boot_events env d = (if migrate env = None then [] else [EMigrate (dID d)]) @ [EReadiness (dID d), ERegister (dID d)]"

definition quiet :: "run_event list \<Rightarrow> bool" where
  "quiet tr \<longleftrightarrow> EServe \<notin> set tr \<and> (\<forall>d. EDispatch d \<notin> set tr) \<and> EGCStart \<notin> set tr"

lemma quiet_append [simp]: "quiet (xs @ ys) \<longleftrightarrow> quiet xs \<and> quiet ys"
  by (auto simp: quiet_def)

lemma boot_module_trace:
  "boot_module reg env d sh = (e, tr, sh') \<Longrightarrow> quiet tr \<and> (e = None \<longrightarrow> tr = boot_events env d)"
  by (auto simp: boot_module_def boot_events_def quiet_def split: sum.splits option.splits prod.splits)

lemma boot_modules_trace:
  "boot_modules reg env ds sh = (e, tr, sh') \<Longrightarrow> quiet tr \<and> (e = None \<longrightarrow> tr = concat (map (boot_events env) ds))"
proof (induction ds arbitrary: sh e tr sh')
  case (Cons d ds)
  obtain e1 tr1 sh1 where b: "boot_module reg env d sh = (e1, tr1, sh1)" by (metis prod.collapse)
  note t1 = boot_module_trace [OF b]
  show ?case
  proof (cases e1)
    case (Some x)
    then show ?thesis using Cons.prems b t1 by auto
  next
    case None
    obtain e2 tr2 sh2 where r: "boot_modules reg env ds sh1 = (e2, tr2, sh2)" by (metis prod.collapse)
    then show ?thesis using Cons.IH [OF r] Cons.prems b t1 None by auto
  qed
qed (simp add: quiet_def)

text \<open>The registered relays stay unique over the boot of all modules.\<close>

lemma boot_modules_once:
  "boot_modules reg env ds sh = (e, tr, s', h') \<Longrightarrow> distinct (map fst (outboxes (snd sh))) \<Longrightarrow> distinct (map fst (outboxes h'))"
proof (induction ds arbitrary: sh e tr s' h')
  case (Cons d ds)
  obtain e1 tr1 s1 h1 where b: "boot_module reg env d sh = (e1, tr1, s1, h1)" by (metis prod.collapse)
  have d1: "distinct (map fst (outboxes h1))"
    using b Cons.prems(2)
    by (auto simp: boot_module_def register_all_once(1) split: sum.splits option.splits prod.splits)
  show ?case
  proof (cases e1)
    case (Some x)
    then show ?thesis using Cons.prems(1) b d1 by simp
  next
    case None
    then obtain tr2 where "boot_modules reg env ds (s1, h1) = (e, tr2, s', h')"
      using Cons.prems(1) b by (auto split: prod.splits)
    from Cons.IH [OF this] d1 show ?thesis by simp
  qed
qed simp

section \<open>Properties\<close>

text \<open>Nothing starts before everything has booted. Either \<^verbatim>\<open>Run\<close> fails and then neither the server nor a dispatcher nor the
  sweep was started; or the composition was valid, every module was migrated, then given its readiness gate, then
  registered, in the order of the configuration, and only after that come the sweep, the dispatchers with at most one
  relay for a module, serving, and the clean-up.\<close>

theorem run_lifecycle:
  assumes "host_Run hc env s = (err, tr)"
  shows "(err \<noteq> None \<and> quiet tr)
    \<or> (\<exists>relays rest gc. tr = concat (map (boot_events env) (map the (hcModules hc))) @ gc
            @ map (\<lambda>m. EDispatch (m, ''relay'')) relays @ map EDispatch rest @ [EServe, EClose]
        \<and> distinct relays \<and> gc = (if hcDurableIdempotency hc \<and> \<not> hcDisableGC hc then [EGCStart] else [])
        \<and> ValidateModules id (hcModules hc) = None \<and> check_prefixes (map the (hcModules hc)) = None)"
proof (cases "ValidateModules id (hcModules hc) = None \<and> check_prefixes (map the (hcModules hc)) = None \<and> newServer env = None")
  case False
  then have "err \<noteq> None \<and> tr = []" using assms by (auto simp: host_Run_def Let_def split: option.splits)
  then show ?thesis by (simp add: quiet_def)
next
  case ok: True
  let ?ds = "map the (hcModules hc)"
  obtain e1 tr1 s1 h where b: "boot_modules (host_registry hc) env ?ds (s, fresh_host (hcDurableIdempotency hc)) = (e1, tr1, s1, h)"
    by (metis prod.collapse)
  note t1 = boot_modules_trace [OF b]
  have once: "distinct (map fst (outboxes h))" using boot_modules_once [OF b] by (simp add: fresh_host_def)
  have disp: "dispatchers h = map (\<lambda>m. (m, ''relay'')) (map fst (outboxes h)) @ drop (length (outboxes h)) (dispatchers h)"
    by (simp add: dispatchers_def case_prod_beta)
  show ?thesis
  proof (cases e1)
    case (Some x)
    then have "err = Some x \<and> tr = tr1" using assms ok b by (simp add: host_Run_def Let_def)
    then show ?thesis using t1 by simp
  next
    case None
    let ?gc = "if hcDurableIdempotency hc \<and> \<not> hcDisableGC hc then [EGCStart] else []"
    let ?probe = "verifyMigrated (map (\<lambda>(m, _). (m, lookup_probe env m)) (idemRegs h))"
    show ?thesis
    proof (cases "hcDurableIdempotency hc \<and> ?probe \<noteq> None")
      case True
      then have "err \<noteq> None \<and> tr = tr1" using assms ok b None by (auto simp: host_Run_def Let_def)
      then show ?thesis using t1 by simp
    next
      case False
      then have "tr = tr1 @ snd (serve_phase env ?gc h s1)"
        using assms ok b None by (auto simp: host_Run_def serve_phase_def Let_def split: if_splits option.splits)
      also have "\<dots> = concat (map (boot_events env) ?ds) @ ?gc @ map (\<lambda>m. EDispatch (m, ''relay'')) (map fst (outboxes h))
          @ map EDispatch (drop (length (outboxes h)) (dispatchers h)) @ [EServe, EClose]"
        unfolding serve_phase_def using t1 None by (subst disp) simp
      finally show ?thesis using once ok by blast
    qed
  qed
qed

definition sample_env :: "(unit, nat, nat, nat) run_env" where
  "sample_env = \<lparr>newServer = None, migrate = Some (\<lambda>_ _ s. (None, s)),
     module_register = (\<lambda>d s. ((CallOk, [RegRelay (dID d) (Some 0)]), s)), lookup_probe = (\<lambda>_. None),
     serve = (\<lambda>s. (None, s)), cancel_cause = None\<rparr>"

definition sample_config :: HostConfig where
  "sample_config = \<lparr>hcModules = [Some (sample_module ''orders'' [])], hcDatabase = None, hcDurableIdempotency = True,
     hcDisableGC = False\<rparr>"

lemma sample_run_result:
  "host_Run sample_config sample_env () =
     (None, [EMigrate ''orders'', EReadiness ''orders'', ERegister ''orders'', EGCStart, EDispatch (''orders'', ''relay''), EServe, EClose])"
proof -
  have "ValidateModules id [Some (sample_module ''orders'' [])] = None"
    by (simp add: ValidateModules_def composition_coherent sample_module_def plain_text printing_def service_names_def
        grpcServiceNames_def route_names_def routeKeys_def permission_names_def permissionNames_def event_names_def eventNames_def)
  moreover have "check_prefixes [sample_module ''orders'' []] = None"
    by (simp add: sample_module_def configPrefixFor_def plain_eval trim_chars_def up_def char_of_def bit_0
        isReservedConfigPrefix_def reservedConfigPrefixes_def)
  ultimately show ?thesis
    by (simp add: host_Run_def sample_config_def sample_env_def host_registry_def boot_module_def registry_Namespace_def
        sample_module_def guardCall_def register_all_def registerRelay_def fresh_host_def serve_phase_def dispatchers_def Let_def)
qed

theorem run_lifecycle_witness:
  "\<exists>relays rest gc. [EMigrate ''orders'', EReadiness ''orders'', ERegister ''orders'', EGCStart, EDispatch (''orders'', ''relay''), EServe, EClose]
     = concat (map (boot_events sample_env) [sample_module ''orders'' []]) @ gc
        @ map (\<lambda>m. EDispatch (m, ''relay'')) relays @ map EDispatch rest @ [EServe, EClose] \<and> distinct relays"
proof -
  have m: "map the (hcModules sample_config) = [sample_module ''orders'' []]" by (simp add: sample_config_def)
  from run_lifecycle [OF sample_run_result, unfolded m] show ?thesis by blast
qed

end
