(* ===== verification/Events_Membus.thy ===== *)
theory Events_Membus
  imports Events_Relay
begin

text \<open>
  The in-process bus (\<^verbatim>\<open>src/events/membus/membus.go\<close>): consumer groups with a bounded FIFO channel each, publishers that
  wait while a channel is full, and one delivery loop per group that redelivers an envelope until every handler of its
  topic has accepted it. Publishers and delivery loops run concurrently, so the bus is a step relation over the pieces of
  code that run without waiting.
\<close>

section \<open>The bus\<close>

definition DefaultBuffer :: nat where
  "DefaultBuffer = 256"

record envelope =
  etopic :: string
  emsg :: BusMessage

text \<open>A handler runs on the state \<open>'s\<close> of the application; an error is a NACK.\<close>

type_synonym 's BusHandler = "BusMessage \<Rightarrow> 's \<Rightarrow> perr option \<times> 's"

record 's group =
  gname :: string
  gbuf :: nat
  gsubs :: "string \<Rightarrow> 's BusHandler list"
  gch :: "envelope list"

record 's Bus =
  bbuffer :: nat
  groups :: "string \<Rightarrow> 's group option"
  bclosed :: bool

definition WithBuffer :: "int \<Rightarrow> 's Bus \<Rightarrow> 's Bus" where
  "WithBuffer n b = (if n > 0 then b\<lparr>bbuffer := nat n\<rparr> else b)"

definition New :: "('s Bus \<Rightarrow> 's Bus) list \<Rightarrow> 's Bus" where
  "New opts = fold (\<lambda>opt b. opt b) opts \<lparr>bbuffer = DefaultBuffer, groups = Map.empty, bclosed = False\<rparr>"

definition groupFor :: "string \<Rightarrow> 's Bus \<Rightarrow> 's group \<times> 's Bus" where
  "groupFor name b =
     (case groups b name of
        Some g \<Rightarrow> (g, b)
      | None \<Rightarrow> let g = \<lparr>gname = name, gbuf = bbuffer b, gsubs = (\<lambda>_. []), gch = []\<rparr>
                in (g, b\<lparr>groups := (groups b)(name \<mapsto> g)\<rparr>))"

text \<open>\<open>None\<close> is the panic on a nil handler.\<close>

definition bus_Subscribe :: "string \<Rightarrow> string \<Rightarrow> 's BusHandler option \<Rightarrow> 's Bus \<Rightarrow> 's Bus option" where
  "bus_Subscribe groupName topic fn b =
     (case fn of
        None \<Rightarrow> None
      | Some f \<Rightarrow> (case groupFor groupName b of (g, b1) \<Rightarrow>
          Some (b1\<lparr>groups := (groups b1)(groupName \<mapsto> g\<lparr>gsubs := (gsubs g)(topic := gsubs g topic @ [f])\<rparr>)\<rparr>)))"

definition subscribes :: "string \<Rightarrow> 's group \<Rightarrow> bool" where
  "subscribes topic g \<longleftrightarrow> gsubs g topic \<noteq> []"

definition handlersFor :: "string \<Rightarrow> 's group \<Rightarrow> 's BusHandler list" where
  "handlersFor topic g = gsubs g topic"

text \<open>
  The body of the loop of \<^verbatim>\<open>Publish\<close> for one group: \<open>None\<close> while the channel is full, otherwise the bus and whether the
  envelope was sent.
\<close>

definition send_one :: "envelope \<Rightarrow> string \<Rightarrow> 's Bus \<Rightarrow> (bool \<times> 's Bus) option" where
  "send_one env name b =
     (case groups b name of
        None \<Rightarrow> Some (False, b)
      | Some g \<Rightarrow>
          if \<not> subscribes (etopic env) g then Some (False, b)
          else if length (gch g) < gbuf g then Some (True, b\<lparr>groups := (groups b)(name \<mapsto> g\<lparr>gch := gch g @ [env]\<rparr>)\<rparr>)
          else None)"

text \<open>
  \<^verbatim>\<open>Publish\<close> with a context that ends while it waits, so that it never waits for good: the groups in the order in which
  the map iteration gives them.
\<close>

definition ErrBusClosed :: perr where
  "ErrBusClosed = POther ''events: bus closed''"

definition ctx_canceled :: perr where
  "ctx_canceled = POther ''context canceled''"

fun send_all :: "envelope \<Rightarrow> string list \<Rightarrow> 's Bus \<Rightarrow> perr option \<times> 's Bus" where
  "send_all env [] b = (None, b)"
| "send_all env (n # ns) b =
     (case send_one env n b of None \<Rightarrow> (Some ctx_canceled, b) | Some (_, b1) \<Rightarrow> send_all env ns b1)"

definition bus_Publish :: "string list \<Rightarrow> string \<Rightarrow> BusMessage \<Rightarrow> 's Bus \<Rightarrow> perr option \<times> 's Bus" where
  "bus_Publish order topic msg b =
     (if bclosed b then (Some ErrBusClosed, b) else send_all \<lparr>etopic = topic, emsg = msg\<rparr> order b)"

definition bus_Close :: "'s Bus \<Rightarrow> 's Bus" where
  "bus_Close b = b\<lparr>bclosed := True\<rparr>"

text \<open>One round of \<^verbatim>\<open>dispatch\<close> over the handlers, stopping at the first NACK; \<open>True\<close> when all accepted.\<close>

fun deliver_round :: "'s BusHandler list \<Rightarrow> BusMessage \<Rightarrow> 's \<Rightarrow> bool \<times> 's" where
  "deliver_round [] m s = (True, s)"
| "deliver_round (fn # fns) m s =
     (case fn m s of (None, s1) \<Rightarrow> deliver_round fns m s1 | (Some _, s1) \<Rightarrow> (False, s1))"

text \<open>The whole of \<^verbatim>\<open>dispatch\<close>, the context ending after \<open>n\<close> rounds: whether the envelope was acknowledged.\<close>

fun dispatch :: "nat \<Rightarrow> 's group \<Rightarrow> envelope \<Rightarrow> 's \<Rightarrow> bool \<times> 's" where
  "dispatch 0 g env s = (False, s)"
| "dispatch (Suc n) g env s =
     (case deliver_round (handlersFor (etopic env) g) (emsg env) s of
        (True, s1) \<Rightarrow> (True, s1)
      | (False, s1) \<Rightarrow> dispatch n g env s1)"

section \<open>Concurrent runs\<close>

text \<open>
  \<open>pubs\<close> holds the running \<^verbatim>\<open>Publish\<close> calls with the groups they have left, \<open>current\<close> the envelope each delivery loop is
  dispatching. \<open>sent\<close>, \<open>finished\<close> (with whether it was acknowledged) and \<open>returned\<close> (the calls of \<^verbatim>\<open>Publish\<close> that
  returned nil) are histories.
\<close>

record 's bus_world =
  bus :: "'s Bus"
  pubs :: "nat \<Rightarrow> (envelope \<times> string list) option"
  current :: "string \<Rightarrow> envelope option"
  cancelled :: bool
  app :: 's
  sent :: "string \<Rightarrow> envelope list"
  finished :: "string \<Rightarrow> (envelope \<times> bool) list"
  returned :: "envelope list"

inductive bus_step :: "'s bus_world \<Rightarrow> 's bus_world \<Rightarrow> bool" where
  start: "pubs w p = None \<Longrightarrow> \<not> bclosed (bus w) \<Longrightarrow> set names = dom (groups (bus w)) \<Longrightarrow>
    bus_step w (w\<lparr>pubs := (pubs w)(p \<mapsto> (env, names))\<rparr>)"
| skip: "pubs w p = Some (env, n # ns) \<Longrightarrow> send_one env n (bus w) = Some (False, b) \<Longrightarrow>
    bus_step w (w\<lparr>bus := b, pubs := (pubs w)(p \<mapsto> (env, ns))\<rparr>)"
| enqueue: "pubs w p = Some (env, n # ns) \<Longrightarrow> send_one env n (bus w) = Some (True, b) \<Longrightarrow>
    bus_step w (w\<lparr>bus := b, pubs := (pubs w)(p \<mapsto> (env, ns)), sent := (sent w)(n := sent w n @ [env])\<rparr>)"
| finish: "pubs w p = Some (env, []) \<Longrightarrow>
    bus_step w (w\<lparr>pubs := (pubs w)(p := None), returned := returned w @ [env]\<rparr>)"
| give_up: "pubs w p = Some (env, n # ns) \<Longrightarrow> groups (bus w) n = Some g \<Longrightarrow> subscribes (etopic env) g \<Longrightarrow>
    bus_step w (w\<lparr>pubs := (pubs w)(p := None)\<rparr>)"
| take: "groups (bus w) n = Some g \<Longrightarrow> gch g = env # rest \<Longrightarrow> current w n = None \<Longrightarrow>
    bus_step w (w\<lparr>bus := (bus w)\<lparr>groups := (groups (bus w))(n \<mapsto> g\<lparr>gch := rest\<rparr>)\<rparr>, current := (current w)(n \<mapsto> env)\<rparr>)"
| ack: "current w n = Some env \<Longrightarrow> groups (bus w) n = Some g \<Longrightarrow> \<not> cancelled w \<Longrightarrow>
    deliver_round (handlersFor (etopic env) g) (emsg env) (app w) = (True, s) \<Longrightarrow>
    bus_step w (w\<lparr>app := s, current := (current w)(n := None), finished := (finished w)(n := finished w n @ [(env, True)])\<rparr>)"
| nack: "current w n = Some env \<Longrightarrow> groups (bus w) n = Some g \<Longrightarrow> \<not> cancelled w \<Longrightarrow>
    deliver_round (handlersFor (etopic env) g) (emsg env) (app w) = (False, s) \<Longrightarrow> bus_step w (w\<lparr>app := s\<rparr>)"
| cancel: "bus_step w (w\<lparr>cancelled := True\<rparr>)"
| drop: "current w n = Some env \<Longrightarrow> cancelled w \<Longrightarrow>
    bus_step w (w\<lparr>current := (current w)(n := None), finished := (finished w)(n := finished w n @ [(env, False)])\<rparr>)"
| close: "bus_step w (w\<lparr>bus := bus_Close (bus w)\<rparr>)"

definition bus_started :: "'s bus_world \<Rightarrow> bool" where
  "bus_started w \<longleftrightarrow> pubs w = Map.empty \<and> current w = Map.empty \<and> \<not> cancelled w \<and> sent w = (\<lambda>_. [])
     \<and> finished w = (\<lambda>_. []) \<and> returned w = [] \<and> (\<forall>n g. groups (bus w) n = Some g \<longrightarrow> gch g = [])"

section \<open>Lemmas\<close>

lemma send_one_cases:
  assumes "send_one env n b = Some (x, b')"
  shows "if x then \<exists>g. groups b n = Some g \<and> subscribes (etopic env) g \<and> length (gch g) < gbuf g
                    \<and> b' = b\<lparr>groups := (groups b)(n \<mapsto> g\<lparr>gch := gch g @ [env]\<rparr>)\<rparr>
         else b' = b \<and> (\<forall>g. groups b n = Some g \<longrightarrow> \<not> subscribes (etopic env) g)"
  using assms by (auto simp: send_one_def split: option.splits if_splits)

text \<open>What one group has been sent is what its loop has finished, is working on and has still in its channel, in order.\<close>

definition group_ok :: "'s bus_world \<Rightarrow> string \<Rightarrow> bool" where
  "group_ok w n \<longleftrightarrow>
     (case groups (bus w) n of
        None \<Rightarrow> sent w n = [] \<and> finished w n = [] \<and> current w n = None
      | Some g \<Rightarrow> sent w n = map fst (finished w n) @ (case current w n of None \<Rightarrow> [] | Some e \<Rightarrow> [e]) @ gch g
                 \<and> length (gch g) \<le> gbuf g)
     \<and> (\<not> cancelled w \<longrightarrow> list_all snd (finished w n))"

definition reached :: "'s bus_world \<Rightarrow> envelope \<Rightarrow> string set \<Rightarrow> bool" where
  "reached w env left \<longleftrightarrow> (\<forall>n g. groups (bus w) n = Some g \<and> subscribes (etopic env) g \<and> n \<notin> left \<longrightarrow> env \<in> set (sent w n))"

definition bus_inv :: "'s bus_world \<Rightarrow> bool" where
  "bus_inv w \<longleftrightarrow> (\<forall>n. group_ok w n) \<and> (\<forall>p env ns. pubs w p = Some (env, ns) \<longrightarrow> reached w env (set ns))
     \<and> (\<forall>env\<in>set (returned w). reached w env {})"

lemma bus_inv_started: "bus_started w \<Longrightarrow> bus_inv w"
  by (auto simp: bus_started_def bus_inv_def group_ok_def reached_def split: option.splits)

lemma group_ok_frame:
  assumes "group_ok w n" "groups (bus w') n = groups (bus w) n" "sent w' n = sent w n" "finished w' n = finished w n"
    and "current w' n = current w n" "cancelled w' = cancelled w"
  shows "group_ok w' n"
  using assms(1) unfolding group_ok_def assms(2-6) .

text \<open>\<open>reached\<close> looks at the subscriptions, which stay, and the history, which grows.\<close>

definition subs_of :: "'s bus_world \<Rightarrow> string \<Rightarrow> string \<Rightarrow> bool" where
  "subs_of w n t \<longleftrightarrow> (\<exists>g. groups (bus w) n = Some g \<and> subscribes t g)"

lemma reached_iff: "reached w env left \<longleftrightarrow> (\<forall>n. subs_of w n (etopic env) \<and> n \<notin> left \<longrightarrow> env \<in> set (sent w n))"
  unfolding reached_def subs_of_def by blast

lemma reached_mono:
  "reached w env left \<Longrightarrow> subs_of w' = subs_of w \<Longrightarrow> (\<And>n. set (sent w n) \<subseteq> set (sent w' n)) \<Longrightarrow> reached w' env left"
  unfolding reached_iff by auto

lemma subs_of_cong: "groups (bus w') = groups (bus w) \<Longrightarrow> subs_of w' = subs_of w"
  by (simp add: subs_of_def fun_eq_iff)

lemma bus_inv_groups: "bus_inv w \<Longrightarrow> group_ok w n"
  by (simp add: bus_inv_def)

lemma bus_inv_pubs: "bus_inv w \<Longrightarrow> pubs w p = Some (env, ns) \<Longrightarrow> reached w env (set ns)"
  by (simp add: bus_inv_def)

lemma bus_inv_frame:
  assumes "bus_inv w" "subs_of w' = subs_of w" "\<And>n. set (sent w n) \<subseteq> set (sent w' n)" "\<And>n. group_ok w' n"
    and "\<And>p env ns. pubs w' p = Some (env, ns) \<Longrightarrow> pubs w p = Some (env, ns) \<or> reached w' env (set ns)"
    and "\<And>env. env \<in> set (returned w') \<Longrightarrow> env \<in> set (returned w) \<or> reached w' env {}"
  shows "bus_inv w'"
  unfolding bus_inv_def
proof (intro conjI allI ballI impI)
  show "group_ok w' n" for n by (rule assms(4))
  show "reached w' env (set ns)" if "pubs w' p = Some (env, ns)" for p env ns
    using assms(5) [OF that] reached_mono [OF bus_inv_pubs [OF assms(1)] assms(2,3)] by blast
  show "reached w' env {}" if "env \<in> set (returned w')" for env
    using assms(6) [OF that] reached_mono [OF _ assms(2,3)] assms(1) unfolding bus_inv_def by blast
qed

text \<open>Steps of one delivery loop: the other groups and the publishers are not touched.\<close>

lemma bus_inv_group_step:
  assumes "bus_inv w" "subs_of w' = subs_of w" "sent w' = sent w" "pubs w' = pubs w" "returned w' = returned w"
    and "cancelled w' = cancelled w" "group_ok w' n"
    and "\<And>k. k \<noteq> n \<Longrightarrow> groups (bus w') k = groups (bus w) k \<and> finished w' k = finished w k \<and> current w' k = current w k"
  shows "bus_inv w'"
proof (rule bus_inv_frame [OF assms(1,2)])
  show "group_ok w' k" for k
    using assms(7) group_ok_frame [OF bus_inv_groups [OF assms(1), of k], of w'] assms(3,6,8) by (cases "k = n") simp_all
qed (simp_all add: assms(3-5))

lemma bus_inv_step: "bus_step w w' \<Longrightarrow> bus_inv w \<Longrightarrow> bus_inv w'"
proof (induction rule: bus_step.induct)
  case (start w p names env)
  show ?case
  proof (rule bus_inv_frame [OF start(4)])
    show "group_ok (w\<lparr>pubs := (pubs w)(p \<mapsto> (env, names))\<rparr>) n" for n
      by (rule group_ok_frame [OF bus_inv_groups [OF start(4)]]) simp_all
  qed (use start(3) in \<open>auto simp: subs_of_def reached_def fun_eq_iff split: if_splits\<close>)
next
  case (skip w p env n ns b)
  have b: "b = bus w" "\<And>g. groups (bus w) n = Some g \<Longrightarrow> \<not> subscribes (etopic env) g"
    using send_one_cases [OF skip(2)] by auto
  have r: "reached w env (set ns)" using bus_inv_pubs [OF skip(3,1)] b(2) by (auto simp: reached_def)
  show ?case
  proof (rule bus_inv_frame [OF skip(3)])
    show "group_ok (w\<lparr>bus := b, pubs := (pubs w)(p \<mapsto> (env, ns))\<rparr>) k" for k
      by (rule group_ok_frame [OF bus_inv_groups [OF skip(3)]]) (simp_all add: b(1))
  qed (use r in \<open>auto simp: reached_def b(1) intro: subs_of_cong split: if_splits\<close>)
next
  case (enqueue w p env n ns b)
  let ?w' = "w\<lparr>bus := b, pubs := (pubs w)(p \<mapsto> (env, ns)), sent := (sent w)(n := sent w n @ [env])\<rparr>"
  obtain g where g: "groups (bus w) n = Some g" "length (gch g) < gbuf g"
    "b = (bus w)\<lparr>groups := (groups (bus w))(n \<mapsto> g\<lparr>gch := gch g @ [env]\<rparr>)\<rparr>"
    using send_one_cases [OF enqueue(2)] by auto
  have s: "subs_of ?w' = subs_of w" using g(1) by (auto simp: subs_of_def g(3) subscribes_def fun_eq_iff)
  have r: "reached ?w' env (set ns)" using bus_inv_pubs [OF enqueue(3,1)] unfolding reached_iff s by simp
  show ?case
  proof (rule bus_inv_frame [OF enqueue(3) s])
    fix k show "group_ok ?w' k"
    proof (cases "k = n")
      case True
      then show ?thesis using bus_inv_groups [OF enqueue(3), of n] g by (simp add: group_ok_def)
    next
      case False
      then show ?thesis by (intro group_ok_frame [OF bus_inv_groups [OF enqueue(3)]]) (simp_all add: g(3))
    qed
  qed (use r in \<open>auto split: if_splits\<close>)
next
  case (finish w p env)
  let ?w' = "w\<lparr>pubs := (pubs w)(p := None), returned := returned w @ [env]\<rparr>"
  have r: "reached ?w' env {}" using bus_inv_pubs [OF finish(2,1)] by (simp add: reached_def)
  show ?case
  proof (rule bus_inv_frame [OF finish(2)])
    show "group_ok ?w' n" for n by (rule group_ok_frame [OF bus_inv_groups [OF finish(2)]]) simp_all
  qed (use r in \<open>auto intro: subs_of_cong split: if_splits\<close>)
next
  case (give_up w p env n ns g)
  show ?case
  proof (rule bus_inv_frame [OF give_up(4)])
    show "group_ok (w\<lparr>pubs := (pubs w)(p := None)\<rparr>) n" for n
      by (rule group_ok_frame [OF bus_inv_groups [OF give_up(4)]]) simp_all
  qed (auto intro: subs_of_cong split: if_splits)
next
  case (take w n g env rest)
  then show ?case using bus_inv_groups [OF take(4), of n]
    by (intro bus_inv_group_step [OF take(4), of _ n]) (auto simp: subs_of_def subscribes_def group_ok_def fun_eq_iff)
next
  case (ack w n env g s)
  then show ?case using bus_inv_groups [OF ack(5), of n]
    by (intro bus_inv_group_step [OF ack(5), of _ n]) (auto simp: group_ok_def intro: subs_of_cong)
next
  case (nack w n env g s)
  then show ?case using bus_inv_groups [OF nack(5), of n]
    by (intro bus_inv_group_step [OF nack(5), of _ n]) (auto simp: group_ok_def intro: subs_of_cong)
next
  case (cancel w)
  show ?case
  proof (rule bus_inv_frame [OF cancel])
    show "group_ok (w\<lparr>cancelled := True\<rparr>) n" for n using bus_inv_groups [OF cancel, of n] by (auto simp: group_ok_def split: option.splits)
  qed (simp_all add: subs_of_def fun_eq_iff)
next
  case (drop w n env)
  then show ?case using bus_inv_groups [OF drop(3), of n]
    by (intro bus_inv_group_step [OF drop(3), of _ n]) (auto simp: group_ok_def intro: subs_of_cong split: option.splits)
next
  case (close w)
  show ?case
  proof (rule bus_inv_frame [OF close])
    show "group_ok (w\<lparr>bus := bus_Close (bus w)\<rparr>) n" for n
      by (rule group_ok_frame [OF bus_inv_groups [OF close]]) (simp_all add: bus_Close_def)
  qed (simp_all add: subs_of_def bus_Close_def fun_eq_iff)
qed

lemma bus_inv_reachable: "bus_step\<^sup>*\<^sup>* w w' \<Longrightarrow> bus_inv w \<Longrightarrow> bus_inv w'"
  by (induction rule: rtranclp_induct) (auto intro: bus_inv_step)

section \<open>Properties\<close>


text \<open>A handler that counts its calls and fails the first time.\<close>

definition flaky :: "nat BusHandler" where
  "flaky m s = (if s = 0 then Some (POther ''down'') else None, Suc s)"

definition exBus :: "nat Bus" where
  "exBus = \<lparr>bbuffer = 2, groups = [''g'' \<mapsto> \<lparr>gname = ''g'', gbuf = 2, gsubs = (\<lambda>t. if t = ''Changed'' then [flaky] else []), gch = []\<rparr>],
     bclosed = False\<rparr>"

definition exMsg :: BusMessage where
  "exMsg = \<lparr>Key = ''k'', msgEvent = \<lparr>evID = ''e'', evType = ''Changed'', evAggregateType = [], evAggregateID = [], evAccountID = [],
     evPayload = [], evSeq = 0, evEpoch = 0\<rparr>\<rparr>"

definition exEnv :: envelope where
  "exEnv = \<lparr>etopic = ''Changed'', emsg = exMsg\<rparr>"

definition exStart :: "nat bus_world" where
  "exStart = \<lparr>bus = exBus, pubs = Map.empty, current = Map.empty, cancelled = False, app = 0, sent = (\<lambda>_. []),
     finished = (\<lambda>_. []), returned = []\<rparr>"


text \<open>redelivery converges. If the handlers of a topic accept a message in the \<open>k\<close>-th further round, \<^verbatim>\<open>dispatch\<close> returns after
  that round with the message acknowledged, unless the context has ended by then.\<close>

theorem dispatch_converges:
  defines "round g env \<equiv> \<lambda>s. snd (deliver_round (handlersFor (etopic env) g) (emsg env) s)"
  assumes "\<And>j. j < k \<Longrightarrow> \<not> fst (deliver_round (handlersFor (etopic env) g) (emsg env) ((round g env ^^ j) s))"
    and "fst (deliver_round (handlersFor (etopic env) g) (emsg env) ((round g env ^^ k) s))" "k < n"
  shows "dispatch n g env s = (True, (round g env ^^ Suc k) s)"
  using assms(2-4)
proof (induction k arbitrary: s n)
  case 0
  then show ?case by (cases n) (auto simp: round_def split: prod.split bool.split)
next
  case (Suc k)
  obtain m where n: "n = Suc m" "k < m" using Suc.prems(3) by (cases n) auto
  have shift: "(round g env ^^ j) (round g env s) = (round g env ^^ Suc j) s" for j by (simp add: funpow_swap1)
  have "\<not> fst (deliver_round (handlersFor (etopic env) g) (emsg env) s)" using Suc.prems(1) [of 0] by simp
  then have "dispatch n g env s = dispatch m g env (round g env s)"
    by (auto simp: n(1) round_def split: prod.split bool.split)
  also have "\<dots> = (True, (round g env ^^ Suc k) (round g env s))"
    using Suc.IH [of "round g env s" m] Suc.prems(1) [of "Suc _"] Suc.prems(2) n(2) unfolding shift by simp
  also have "\<dots> = (True, (round g env ^^ Suc (Suc k)) s)" unfolding shift ..
  finally show ?case .
qed

text \<open>what the bus has accepted can still be lost. The relay moves its cursor past a row as soon as the bus has accepted it;
  when the process ends with the row still in a channel and starts again with a new bus and the persisted cursor, the row
  is not published again.\<close>

definition bus_transport :: "string list \<Rightarrow> nat Bus transport" where
  "bus_transport order t m b = bus_Publish order t m b"

theorem membus_exit_loses_accepted:
  "let R = mem_relay fst (beside (bus_transport [''g''])) ''relay'' 2;
       w = \<lparr>sidecar = NewMemoryOutboxCursorStore, accepted = [], leaderFull = False, backend = ([row ''e1'' 5], exBus)\<rparr>;
       w1 = snd (PumpOnce R 10 w);
       restarted = w1\<lparr>backend := (fst (backend w1), exBus)\<rparr>
   in map (msgEvent \<circ> emsg) (gch (the (groups (snd (backend w1)) ''g''))) = [eventFromRecord (row ''e1'' 5)]
      \<and> fst (PumpOnce R 10 restarted) = (0, None)
      \<and> gch (the (groups (snd (backend (snd (PumpOnce R 10 restarted)))) ''g'')) = []"
proof -
  have o: "in_order [row ''e1'' 5] = [row ''e1'' 5]" by (simp add: in_order_def)
  show ?thesis
    by (simp add: o Let_def PumpOnce_def NewRelay_def LoadCursor_def NewMemoryOutboxCursorStore_def get_or_def
        zero_cursor_def ReadAfter_def cursorBefore_def cursor_IsZero_def time_is_zero_def beside_def bus_transport_def bus_Publish_def
        send_one_def subscribes_def exBus_def SaveCursor_def pos_of_def message_def WithRelayCursorName_def WithRelayMaxAttempts_def
        busTopicForEvent_def eventFromRecord_def)
      (simp add: row_def)
qed

end
