(* ===== verification/Compose_Bus.thy ===== *)
theory Compose_Bus
  imports Compose_Run Events_Membus
begin

text \<open>
  A composed host over the in-process bus: \<^verbatim>\<open>startDispatchers\<close> (\<^verbatim>\<open>src/servicekit/events_registry.go\<close>) runs one consumer per
  registration, each consumer calls \<^verbatim>\<open>Consume\<close> of the shared bus (\<^verbatim>\<open>src/events/membus/membus.go\<close>), and every \<^verbatim>\<open>Consume\<close>
  starts a delivery loop for every group of the bus. The theorems compare one loop for a group with several.
\<close>

section \<open>The loops of a group\<close>

text \<open>The delivery loops that are started: the number of the \<^verbatim>\<open>Consume\<close> call and the group.\<close>

definition consume_fanout :: "string list \<Rightarrow> nat \<Rightarrow> (nat \<times> string) list" where
  "consume_fanout names c = map (\<lambda>g. (c, g)) names"

definition host_loops :: "('st, 'tx, 'h) hostState \<Rightarrow> string list \<Rightarrow> (nat \<times> string) list" where
  "host_loops h names = concat (map (consume_fanout names) [0..<length (consumers h)])"

text \<open>One group with the loops \<open>ls\<close>: a loop takes the head of the channel and, when every handler has accepted it, is done
  with it; \<open>handled\<close> is the history of the envelopes that were accepted.\<close>

record 's loops_world =
  lgroup :: "'s group"
  lbusy :: "nat \<Rightarrow> envelope option"
  lapp :: 's
  handled :: "envelope list"

inductive loop_step :: "nat set \<Rightarrow> 's loops_world \<Rightarrow> 's loops_world \<Rightarrow> bool" for ls where
  loop_take: "l \<in> ls \<Longrightarrow> lbusy w l = None \<Longrightarrow> gch (lgroup w) = env # rest \<Longrightarrow>
    loop_step ls w (w\<lparr>lgroup := (lgroup w)\<lparr>gch := rest\<rparr>, lbusy := (lbusy w)(l \<mapsto> env)\<rparr>)"
| loop_ack: "l \<in> ls \<Longrightarrow> lbusy w l = Some env \<Longrightarrow>
    deliver_round (handlersFor (etopic env) (lgroup w)) (emsg env) (lapp w) = (True, s) \<Longrightarrow>
    loop_step ls w (w\<lparr>lapp := s, lbusy := (lbusy w)(l := None), handled := handled w @ [env]\<rparr>)"
| loop_nack: "l \<in> ls \<Longrightarrow> lbusy w l = Some env \<Longrightarrow>
    deliver_round (handlersFor (etopic env) (lgroup w)) (emsg env) (lapp w) = (False, s) \<Longrightarrow>
    loop_step ls w (w\<lparr>lapp := s\<rparr>)"

definition waiting :: "envelope list \<Rightarrow> ('s group) \<Rightarrow> 's group" where
  "waiting es g = g\<lparr>gch := es\<rparr>"

definition idle_loops :: "'s group \<Rightarrow> 's \<Rightarrow> 's loops_world" where
  "idle_loops g s = \<lparr>lgroup = g, lbusy = Map.empty, lapp = s, handled = []\<rparr>"

definition in_hand :: "'s loops_world \<Rightarrow> nat \<Rightarrow> envelope list" where
  "in_hand w l = (case lbusy w l of None \<Rightarrow> [] | Some env \<Rightarrow> [env])"

section \<open>One loop keeps the order\<close>

lemma one_loop_step:
  assumes "loop_step {l} w w'"
  shows "handled w' @ in_hand w' l @ gch (lgroup w') = handled w @ in_hand w l @ gch (lgroup w)"
  using assms by cases (auto simp: in_hand_def)

lemma one_loop_keeps:
  "(loop_step {l})\<^sup>*\<^sup>* w w' \<Longrightarrow> handled w' @ in_hand w' l @ gch (lgroup w') = handled w @ in_hand w l @ gch (lgroup w)"
  by (induction rule: rtranclp_induct) (simp_all add: one_loop_step)

section \<open>Properties\<close>

text \<open>One loop accepts the messages of a group in the order of its channel. A composed host has as many loops for every group as
  it has consumers.\<close>

theorem consumer_loops_order:
  shows "(loop_step {l})\<^sup>*\<^sup>* (idle_loops (waiting es g) s) w \<Longrightarrow> \<exists>rest. es = handled w @ rest"
    and "length (filter (\<lambda>x. snd x = n) (host_loops h names)) = length (consumers h) * count_list names n"
proof -
  show "\<exists>rest. es = handled w @ rest" if "(loop_step {l})\<^sup>*\<^sup>* (idle_loops (waiting es g) s) w"
    using one_loop_keeps [OF that] by (intro exI [of _ "in_hand w l @ gch (lgroup w)"]) (simp add: idle_loops_def in_hand_def waiting_def)
  have one: "length (filter (\<lambda>x. snd x = n) (consume_fanout names c)) = count_list names n" for c
    by (induction names) (simp_all add: consume_fanout_def)
  have "length (filter (\<lambda>x. snd x = n) (concat (map (consume_fanout names) xs))) = length xs * count_list names n" for xs
    by (induction xs) (simp_all add: one)
  then show "length (filter (\<lambda>x. snd x = n) (host_loops h names)) = length (consumers h) * count_list names n"
    by (simp add: host_loops_def)
qed

text \<open>With two loops the second message of a group can be accepted before the first.\<close>

definition quiet_group :: "unit group" where
  "quiet_group = \<lparr>gname = ''module:a'', gbuf = 256, gsubs = (\<lambda>_. []), gch = []\<rparr>"

theorem two_loops_overtake:
  "\<exists>w. (loop_step {0, 1})\<^sup>*\<^sup>* (idle_loops (waiting [e1, e2] quiet_group) ()) w \<and> handled w = [e2, e1]"
proof -
  let ?w0 = "idle_loops (waiting [e1, e2] quiet_group) ()"
  let ?w1 = "?w0\<lparr>lgroup := (lgroup ?w0)\<lparr>gch := [e2]\<rparr>, lbusy := (lbusy ?w0)(0 \<mapsto> e1)\<rparr>"
  let ?w2 = "?w1\<lparr>lgroup := (lgroup ?w1)\<lparr>gch := []\<rparr>, lbusy := (lbusy ?w1)(1 \<mapsto> e2)\<rparr>"
  let ?w3 = "?w2\<lparr>lapp := (), lbusy := (lbusy ?w2)(1 := None), handled := handled ?w2 @ [e2]\<rparr>"
  let ?w4 = "?w3\<lparr>lapp := (), lbusy := (lbusy ?w3)(0 := None), handled := handled ?w3 @ [e1]\<rparr>"
  note d = idle_loops_def waiting_def quiet_group_def handlersFor_def
  have s1: "loop_step {0, 1} ?w0 ?w1" by (rule loop_take) (simp_all add: d)
  have s2: "loop_step {0, 1} ?w1 ?w2" by (rule loop_take) (simp_all add: d)
  have s3: "loop_step {0, 1} ?w2 ?w3" by (rule loop_ack) (simp_all add: d)
  have s4: "loop_step {0, 1} ?w3 ?w4" by (rule loop_ack) (simp_all add: d)
  from s1 have "(loop_step {0, 1})\<^sup>*\<^sup>* ?w0 ?w1" by (rule r_into_rtranclp)
  from this s2 have "(loop_step {0, 1})\<^sup>*\<^sup>* ?w0 ?w2" by (rule rtranclp.rtrancl_into_rtrancl)
  from this s3 have "(loop_step {0, 1})\<^sup>*\<^sup>* ?w0 ?w3" by (rule rtranclp.rtrancl_into_rtrancl)
  from this s4 have "(loop_step {0, 1})\<^sup>*\<^sup>* ?w0 ?w4" by (rule rtranclp.rtrancl_into_rtrancl)
  moreover have "handled ?w4 = [e2, e1]" by (simp add: d)
  ultimately show ?thesis by blast
qed

end
