(* ===== verification/Rate_Limit.thy ===== *)
theory Rate_Limit
  imports Prelude Complex_Main
begin

text \<open>
  The token bucket of \<^verbatim>\<open>src/resilience/ratelimit.go\<close>. Tokens are rational numbers: the code's \<^verbatim>\<open>float64\<close> arithmetic is read as
  exact, and the bounds hold up to its rounding. Times are nanoseconds of a monotonic clock.
\<close>

record tokenBucket =
  tokens :: rat
  rps :: rat
  burst :: rat
  lastTick :: go_time

definition NewTokenBucket :: "go_time \<Rightarrow> rat \<Rightarrow> int \<Rightarrow> tokenBucket" where
  "NewTokenBucket tnow r b = \<lparr>tokens = of_int b, rps = r, burst = of_int b, lastTick = tnow\<rparr>"

definition Seconds :: "int \<Rightarrow> rat" where
  "Seconds d = of_int d / 1000000000"

definition bucket_Allow :: "go_time \<Rightarrow> tokenBucket \<Rightarrow> bool \<times> tokenBucket" where
  "bucket_Allow tnow tb =
     (let elapsed = Seconds (tnow - lastTick tb);
          t0 = tokens tb + elapsed * rps tb;
          t1 = (if t0 > burst tb then burst tb else t0)
      in if t1 < 1 then (False, tb\<lparr>tokens := t1, lastTick := tnow\<rparr>)
         else (True, tb\<lparr>tokens := t1 - 1, lastTick := tnow\<rparr>))"

text \<open>A run of calls at given times; the result is the number of admitted ones and the bucket.\<close>

fun admit_run :: "go_time list \<Rightarrow> tokenBucket \<Rightarrow> nat \<times> tokenBucket" where
  "admit_run [] tb = (0, tb)"
| "admit_run (t # ts) tb =
     (case bucket_Allow t tb of (ok, tb1) \<Rightarrow> (case admit_run ts tb1 of (n, tb2) \<Rightarrow> ((if ok then n + 1 else n), tb2)))"

section \<open>Lemmas\<close>

lemma Allow_fields:
  "burst (snd (bucket_Allow t tb)) = burst tb" "rps (snd (bucket_Allow t tb)) = rps tb" "lastTick (snd (bucket_Allow t tb)) = t"
  by (simp_all add: bucket_Allow_def Let_def)

lemma Allow_tokens:
  "tokens (snd (bucket_Allow t tb)) + (if fst (bucket_Allow t tb) then 1 else 0)
     = min (burst tb) (tokens tb + Seconds (t - lastTick tb) * rps tb)"
  by (simp add: bucket_Allow_def Let_def min_def)

lemma Allow_iff: "fst (bucket_Allow t tb) \<longleftrightarrow> 1 \<le> min (burst tb) (tokens tb + Seconds (t - lastTick tb) * rps tb)"
  by (simp add: bucket_Allow_def Let_def min_def not_less)

lemma Seconds_add: "Seconds (a + b) = Seconds a + Seconds b"
  by (simp add: Seconds_def add_divide_distrib)

lemma Seconds_nonneg: "0 \<le> a \<Longrightarrow> 0 \<le> Seconds a"
  by (simp add: Seconds_def)

lemma admit_run_bound:
  assumes "sorted (lastTick tb # ts)" "0 \<le> rps tb" "0 \<le> tokens tb" "0 \<le> burst tb"
  shows "of_nat (fst (admit_run ts tb)) + tokens (snd (admit_run ts tb)) \<le> tokens tb + Seconds (last (lastTick tb # ts) - lastTick tb) * rps tb
    \<and> 0 \<le> tokens (snd (admit_run ts tb))"
  using assms
proof (induction ts arbitrary: tb)
  case Nil
  then show ?case by (simp add: Seconds_def)
next
  case (Cons t ts)
  obtain ok tb1 where a: "bucket_Allow t tb = (ok, tb1)" by (cases "bucket_Allow t tb")
  have f: "rps tb1 = rps tb" "lastTick tb1 = t" "burst tb1 = burst tb" using Allow_fields [of t tb] a by simp_all
  have sum: "tokens tb1 + (if ok then 1 else 0) \<le> tokens tb + Seconds (t - lastTick tb) * rps tb"
    using Allow_tokens [of t tb] a by simp
  have nn: "0 \<le> tokens tb1"
  proof -
    have "0 \<le> Seconds (t - lastTick tb) * rps tb" using Cons.prems by (intro mult_nonneg_nonneg Seconds_nonneg) simp_all
    then have "0 \<le> tokens tb + Seconds (t - lastTick tb) * rps tb" using Cons.prems by simp
    then show ?thesis using a Cons.prems(4) by (auto simp: bucket_Allow_def Let_def split: if_splits)
  qed
  have IH: "of_nat (fst (admit_run ts tb1)) + tokens (snd (admit_run ts tb1)) \<le> tokens tb1 + Seconds (last (t # ts) - t) * rps tb
    \<and> 0 \<le> tokens (snd (admit_run ts tb1))"
    using Cons.IH [of tb1] Cons.prems f nn by simp
  have split: "Seconds (last (t # ts) - lastTick tb) = Seconds (last (t # ts) - t) + Seconds (t - lastTick tb)"
    by (simp add: Seconds_add [symmetric])
  have run: "admit_run (t # ts) tb = ((if ok then fst (admit_run ts tb1) + 1 else fst (admit_run ts tb1)), snd (admit_run ts tb1))"
    by (simp add: a case_prod_beta)
  have "Seconds (last (lastTick tb # t # ts) - lastTick tb) = Seconds (last (t # ts) - t) + Seconds (t - lastTick tb)"
    using split by simp
  then have refill: "Seconds (last (lastTick tb # t # ts) - lastTick tb) * rps tb
      = Seconds (last (t # ts) - t) * rps tb + Seconds (t - lastTick tb) * rps tb" by (simp only: distrib_right)
  have count: "of_nat (fst (admit_run (t # ts) tb)) = (of_nat (fst (admit_run ts tb1)) + (if ok then 1 else 0) :: rat)"
    "snd (admit_run (t # ts) tb) = snd (admit_run ts tb1)" unfolding run by simp_all
  show ?case unfolding refill count using IH sum by linarith
qed

section \<open>Properties\<close>



text \<open>Waiting long enough is enough.\<close>

theorem rate_admits:
  assumes "1 \<le> burst tb" "0 \<le> tokens tb" "1 \<le> Seconds (t - lastTick tb) * rps tb"
  shows "fst (bucket_Allow t tb)"
  using assms by (simp add: Allow_iff)

end
