(* ===== verification/Aip.thy ===== *)
theory Aip
  imports Prelude "HOL-Library.Multiset"
begin

text \<open>
  The facts that generators and interceptors read off protobuf descriptors (\<^verbatim>\<open>src/internal/aip/\<close>): the effective
  \<^verbatim>\<open>field_behavior\<close> of a field (\<^verbatim>\<open>behavior.go\<close>), the resource markers of a message and the standard-method classification
  (\<^verbatim>\<open>classify.go\<close>), and the declared search surface (\<^verbatim>\<open>search.go\<close>). A descriptor is a record of what the reflection interface
  answers; a message type is referred to by its full name.
\<close>

section \<open>Descriptors\<close>

type_synonym FieldBehavior = int

definition BehaviorUnspecified :: FieldBehavior where "BehaviorUnspecified = 0"
definition BehaviorOptional :: FieldBehavior where "BehaviorOptional = 1"
definition Required :: FieldBehavior where "Required = 2"
definition OutputOnly :: FieldBehavior where "OutputOnly = 3"
definition InputOnly :: FieldBehavior where "InputOnly = 4"
definition Immutable :: FieldBehavior where "Immutable = 5"
definition UnorderedList :: FieldBehavior where "UnorderedList = 6"
definition NonEmptyDefault :: FieldBehavior where "NonEmptyDefault = 7"
definition Identifier :: FieldBehavior where "Identifier = 8"

lemmas behavior_defs = BehaviorUnspecified_def BehaviorOptional_def Required_def OutputOnly_def InputOnly_def Immutable_def
  UnorderedList_def NonEmptyDefault_def Identifier_def

datatype fkind = StringKind | Int32Kind | EnumKind | MessageKind | OtherKind string

datatype cardinality = Singular | IsList | IsMap

datatype id_strategy = STRATEGY_UNSPECIFIED | STRATEGY_SERVER_GENERATED | STRATEGY_USER_SETTABLE

record FieldOptions =
  foSecret :: bool
  foId :: "id_strategy option"
  foSearchable :: bool
  foColumn :: string
  foAllowed :: "string list"

text \<open>\<open>fdMessage\<close> is the full name of the type of a message field; \<open>fdExplicit\<close>, \<open>fdOpts\<close> and \<open>fdRef\<close> are its extensions.\<close>

record FieldDescriptor =
  fdName :: string
  fdJSON :: string
  fdKind :: fkind
  fdCard :: cardinality
  fdMessage :: "string option"
  fdExplicit :: "FieldBehavior list"
  fdOpts :: "FieldOptions option"
  fdRef :: "string option"

datatype search_from = FromField string | FromExprs "(string \<times> string \<times> string \<times> string) list" | FromNone

record search_src =
  ssName :: string
  ssFrom :: search_from
  ssConfig :: string

datatype search_strategy = SProtoUnspecified | SProtoJIT | SProtoIndexed | SProtoProjected

record search_ext =
  seStrategy :: search_strategy
  seConfig :: string
  seSources :: "search_src list"

record MessageDescriptor =
  mdName :: string
  mdFields :: "FieldDescriptor list"
  mdResource :: "(string \<times> string list) option"
  mdMember :: "string option"
  mdSearch :: "search_ext option"

record MethodDescriptor =
  mName :: string
  mInput :: MessageDescriptor
  mOutput :: MessageDescriptor

section \<open>Field behavior\<close>

definition explicitBehaviors :: "FieldDescriptor \<Rightarrow> FieldBehavior list" where
  "explicitBehaviors fd = fdExplicit fd"

definition derivedBehaviors :: "FieldDescriptor \<Rightarrow> FieldBehavior list" where
  "derivedBehaviors fd =
     (case fdOpts fd of
        None \<Rightarrow> []
      | Some fo \<Rightarrow>
          (if foSecret fo then [InputOnly] else []) @
          (case foId fo of
             Some STRATEGY_SERVER_GENERATED \<Rightarrow> [OutputOnly]
           | Some STRATEGY_USER_SETTABLE \<Rightarrow> [Immutable]
           | _ \<Rightarrow> []))"

text \<open>The behaviors with a place of their own in the result; the others follow in the order \<open>iter\<close> of Go's map iteration.\<close>

definition behavior_order :: "FieldBehavior list" where
  "behavior_order = [BehaviorOptional, Required, OutputOnly, InputOnly, Immutable, UnorderedList, NonEmptyDefault, Identifier]"

datatype contradiction = Contradiction string FieldBehavior FieldBehavior

definition ResolveFieldBehavior :: "(FieldBehavior list \<Rightarrow> FieldBehavior list) \<Rightarrow> FieldDescriptor
    \<Rightarrow> contradiction + FieldBehavior list" where
  "ResolveFieldBehavior iter fd =
     (let bs = filter (\<lambda>b. b \<noteq> BehaviorUnspecified) (explicitBehaviors fd) @ derivedBehaviors fd;
          keys = remdups bs
      in if List.member bs OutputOnly \<and> List.member bs Required then Inl (Contradiction (fdName fd) OutputOnly Required)
         else if List.member bs OutputOnly \<and> List.member bs InputOnly then Inl (Contradiction (fdName fd) OutputOnly InputOnly)
         else Inr (filter (List.member bs) behavior_order @ iter (filter (\<lambda>b. \<not> List.member behavior_order b) keys)))"

definition HasBehavior :: "FieldBehavior list \<Rightarrow> FieldBehavior \<Rightarrow> bool" where
  "HasBehavior bs b = list_ex (\<lambda>x. x = b) bs"

definition IsOutputOnly :: "(FieldBehavior list \<Rightarrow> FieldBehavior list) \<Rightarrow> FieldDescriptor \<Rightarrow> contradiction + bool" where
  "IsOutputOnly iter fd =
     (case ResolveFieldBehavior iter fd of Inl e \<Rightarrow> Inl e | Inr bs \<Rightarrow> Inr (HasBehavior bs OutputOnly))"

definition AllowedValues :: "FieldDescriptor \<Rightarrow> string list" where
  "AllowedValues fd =
     (if fdKind fd \<noteq> StringKind \<or> fdCard fd = IsList then []
      else case fdOpts fd of None \<Rightarrow> [] | Some fo \<Rightarrow> foAllowed fo)"

definition ReferenceTarget :: "FieldDescriptor \<Rightarrow> string \<times> bool" where
  "ReferenceTarget fd = (case fdRef fd of None \<Rightarrow> ([], False) | Some t \<Rightarrow> if t = [] then ([], False) else (t, True))"

section \<open>Resources\<close>

definition hasField :: "MessageDescriptor \<Rightarrow> string \<Rightarrow> fkind \<Rightarrow> bool" where
  "hasField msg name k = list_ex (\<lambda>fd. fdName fd = name \<and> fdKind fd = k) (mdFields msg)"

definition isTimestamp :: "FieldDescriptor \<Rightarrow> bool" where
  "isTimestamp fd \<longleftrightarrow> fdKind fd = MessageKind \<and> fdMessage fd = Some ''google.protobuf.Timestamp''"

record ResourceFacts =
  IsResource :: bool
  SoftDelete :: bool
  HasName :: bool
  MemberRoot :: string
  rfType :: string
  Patterns :: "string list"

definition MessageFacts :: "(FieldBehavior list \<Rightarrow> FieldBehavior list) \<Rightarrow> MessageDescriptor \<Rightarrow> ResourceFacts" where
  "MessageFacts iter md =
     (let pats = (case mdResource md of None \<Rightarrow> [] | Some (_, ps) \<Rightarrow> ps);
          root = (case mdMember md of None \<Rightarrow> [] | Some r \<Rightarrow> r);
          named = pats \<noteq> [] \<or> list_ex (\<lambda>fd. fdName fd = ''name'' \<and> fdKind fd = StringKind) (mdFields md);
          soft = list_ex (\<lambda>fd. fdName fd = ''delete_time'' \<and> isTimestamp fd \<and> IsOutputOnly iter fd = Inr True) (mdFields md)
      in \<lparr>IsResource = named \<or> soft \<or> root \<noteq> [], SoftDelete = soft, HasName = named, MemberRoot = root,
          rfType = (case mdResource md of None \<Rightarrow> [] | Some (t, _) \<Rightarrow> t), Patterns = pats\<rparr>)"

record ResourceIdentity =
  riType :: string
  riPatterns :: "string list"
  riKey :: string

definition ResolveResourceIdentity :: "(FieldBehavior list \<Rightarrow> FieldBehavior list) \<Rightarrow> MessageDescriptor \<Rightarrow> ResourceIdentity option" where
  "ResolveResourceIdentity iter md =
     (let facts = MessageFacts iter md
      in if rfType facts = [] then None
         else Some \<lparr>riType = rfType facts, riPatterns = Patterns facts,
                    riKey = (if hasField md ''id'' StringKind then ''id'' else ''name'')\<rparr>)"

text \<open>The messages of a file are found by name; the first rule that names one of them decides.\<close>

definition known_msg :: "MessageDescriptor list \<Rightarrow> string \<Rightarrow> MessageDescriptor option" where
  "known_msg file n = find (\<lambda>m. mdName m = n) file"

definition first_known :: "MessageDescriptor list \<Rightarrow> (FieldDescriptor \<Rightarrow> bool) \<Rightarrow> FieldDescriptor list \<Rightarrow> MessageDescriptor option" where
  "first_known file ok fds =
     (case filter (\<lambda>fd. fdKind fd = MessageKind \<and> ok fd \<and> (case fdMessage fd of None \<Rightarrow> False | Some n \<Rightarrow> known_msg file n \<noteq> None)) fds of
        [] \<Rightarrow> None
      | fd # _ \<Rightarrow> (case fdMessage fd of None \<Rightarrow> None | Some n \<Rightarrow> known_msg file n))"

definition DetectServiceResource :: "(FieldBehavior list \<Rightarrow> FieldBehavior list) \<Rightarrow> MessageDescriptor list
    \<Rightarrow> MethodDescriptor list \<Rightarrow> MessageDescriptor option" where
  "DetectServiceResource iter file methods =
     (case find (\<lambda>m. case known_msg file (mdName (mOutput m)) of None \<Rightarrow> False | Some d \<Rightarrow> IsResource (MessageFacts iter d)) methods of
        Some m \<Rightarrow> known_msg file (mdName (mOutput m))
      | None \<Rightarrow>
          (case first_known file (\<lambda>fd. fdCard fd = Singular) (concat (map (\<lambda>m. mdFields (mInput m)) methods)) of
             Some d \<Rightarrow> Some d
           | None \<Rightarrow> first_known file (\<lambda>fd. fdCard fd = IsList) (concat (map (\<lambda>m. mdFields (mOutput m)) methods))))"

section \<open>Standard methods\<close>

datatype StdMethod = MethodNone | MethodCreate | MethodGet | MethodList | MethodUpdate | MethodDelete | MethodUndelete | MethodBatchGet

definition std_String :: "StdMethod \<Rightarrow> string" where
  "std_String s =
     (case s of MethodCreate \<Rightarrow> ''Create'' | MethodGet \<Rightarrow> ''Get'' | MethodList \<Rightarrow> ''List'' | MethodUpdate \<Rightarrow> ''Update''
      | MethodDelete \<Rightarrow> ''Delete'' | MethodUndelete \<Rightarrow> ''Undelete'' | MethodBatchGet \<Rightarrow> ''BatchGet'' | MethodNone \<Rightarrow> ''Custom'')"

definition IsWrite :: "StdMethod \<Rightarrow> bool" where
  "IsWrite s = (case s of MethodCreate \<Rightarrow> True | MethodUpdate \<Rightarrow> True | MethodDelete \<Rightarrow> True | MethodUndelete \<Rightarrow> True | _ \<Rightarrow> False)"

definition hasResourceField :: "string \<Rightarrow> MessageDescriptor \<Rightarrow> bool" where
  "hasResourceField resName msg =
     list_ex (\<lambda>fd. fdKind fd = MessageKind \<and> fdCard fd = Singular \<and> fdMessage fd = Some resName) (mdFields msg)"

definition hasUpdateMask :: "MessageDescriptor \<Rightarrow> bool" where
  "hasUpdateMask msg =
     list_ex (\<lambda>fd. fdName fd = ''update_mask'' \<and>
                (fdCard fd = IsList \<and> fdKind fd = StringKind
                 \<or> fdKind fd = MessageKind \<and> fdMessage fd = Some ''google.protobuf.FieldMask'')) (mdFields msg)"

definition hasRepeatedResource :: "string \<Rightarrow> MessageDescriptor \<Rightarrow> bool" where
  "hasRepeatedResource resName msg =
     list_ex (\<lambda>fd. fdKind fd = MessageKind \<and> fdCard fd = IsList \<and> fdMessage fd = Some resName) (mdFields msg)"

definition hasRepeatedStringField :: "MessageDescriptor \<Rightarrow> string \<Rightarrow> bool" where
  "hasRepeatedStringField msg name =
     list_ex (\<lambda>fd. fdName fd = name \<and> fdCard fd = IsList \<and> fdKind fd = StringKind) (mdFields msg)"

definition ClassifyMethod :: "MethodDescriptor \<Rightarrow> MessageDescriptor option \<Rightarrow> bool \<Rightarrow> StdMethod" where
  "ClassifyMethod m resource softDelete =
     (case resource of
        None \<Rightarrow> MethodNone
      | Some r \<Rightarrow>
          let i = mInput m; out = mOutput m; resName = mdName r;
              keyed = hasField i ''id'' StringKind \<or> hasField i ''name'' StringKind;
              returnsResource = mdName out = resName;
              hasPrefix = has_prefix (mName m)
          in if hasPrefix ''BatchGet'' \<and> (hasRepeatedStringField i ''ids'' \<or> hasRepeatedStringField i ''names'')
                \<and> hasRepeatedResource resName out then MethodBatchGet
             else if hasResourceField resName i \<and> hasUpdateMask i \<and> returnsResource then MethodUpdate
             else if hasResourceField resName i \<and> \<not> hasUpdateMask i \<and> returnsResource then MethodCreate
             else if hasField i ''page_size'' Int32Kind \<and> hasField i ''page_token'' StringKind
                     \<and> hasRepeatedResource resName out \<and> hasField out ''next_page_token'' StringKind then MethodList
             else if softDelete \<and> keyed \<and> returnsResource \<and> hasPrefix ''Undelete'' then MethodUndelete
             else if keyed \<and> returnsResource \<and> hasPrefix ''Get'' then MethodGet
             else if keyed \<and> \<not> returnsResource \<and> hasPrefix ''Delete'' then MethodDelete
             else MethodNone)"

section \<open>The search surface\<close>

datatype SearchStrategy = SearchJIT | SearchIndexed | SearchProjected

definition strategyFromProto :: "search_strategy \<Rightarrow> SearchStrategy" where
  "strategyFromProto s = (case s of SProtoIndexed \<Rightarrow> SearchIndexed | SProtoProjected \<Rightarrow> SearchProjected | _ \<Rightarrow> SearchJIT)"

definition DefaultTextConfig :: string where
  "DefaultTextConfig = ''simple''"

record SearchSource =
  srcName :: string
  srcField :: "FieldDescriptor option"
  srcExprs :: "(string \<times> string \<times> string \<times> string) list"
  srcConfig :: string

record SearchConfig =
  scStrategy :: SearchStrategy
  scConfig :: string
  scSources :: "SearchSource list"

definition IsSearchable :: "SearchConfig \<Rightarrow> bool" where
  "IsSearchable c \<longleftrightarrow> length (scSources c) > 0 \<or> scStrategy c = SearchProjected"

datatype search_err = UnknownField string string string | NoFieldNoExprs string string

definition flagged_source :: "FieldDescriptor \<Rightarrow> SearchSource list" where
  "flagged_source fd =
     (case fdOpts fd of
        None \<Rightarrow> []
      | Some fo \<Rightarrow> if foSearchable fo then [\<lparr>srcName = fdName fd, srcField = Some fd, srcExprs = [], srcConfig = []\<rparr>] else [])"

fun declared_sources :: "MessageDescriptor \<Rightarrow> search_src list \<Rightarrow> SearchSource list \<Rightarrow> search_err + SearchSource list" where
  "declared_sources md [] acc = Inr acc"
| "declared_sources md (s # ss) acc =
     (case ssFrom s of
        FromField n \<Rightarrow>
          (case find (\<lambda>fd. fdName fd = n) (mdFields md) of
             None \<Rightarrow> Inl (UnknownField (ssName s) (mdName md) n)
           | Some fd \<Rightarrow>
               declared_sources md ss (acc @ [\<lparr>srcName = (if ssName s = [] then n else ssName s), srcField = Some fd,
                                               srcExprs = [], srcConfig = ssConfig s\<rparr>]))
      | FromExprs es \<Rightarrow>
          declared_sources md ss (acc @ [\<lparr>srcName = ssName s, srcField = None, srcExprs = es, srcConfig = ssConfig s\<rparr>])
      | FromNone \<Rightarrow> Inl (NoFieldNoExprs (ssName s) (mdName md)))"

definition ResolveSearchConfig :: "MessageDescriptor option \<Rightarrow> search_err + SearchConfig" where
  "ResolveSearchConfig m =
     (case m of
        None \<Rightarrow> Inr \<lparr>scStrategy = SearchJIT, scConfig = DefaultTextConfig, scSources = []\<rparr>
      | Some md \<Rightarrow>
          let implicit = concat (map flagged_source (mdFields md)) in
          (case mdSearch md of
             None \<Rightarrow> Inr \<lparr>scStrategy = SearchJIT, scConfig = DefaultTextConfig, scSources = implicit\<rparr>
           | Some sc \<Rightarrow>
               (case declared_sources md (seSources sc) implicit of
                  Inl e \<Rightarrow> Inl e
                | Inr ss \<Rightarrow> Inr \<lparr>scStrategy = strategyFromProto (seStrategy sc),
                                 scConfig = (if seConfig sc \<noteq> [] then seConfig sc else DefaultTextConfig), scSources = ss\<rparr>)))"

section \<open>Properties\<close>

definition declared_behaviors :: "FieldDescriptor \<Rightarrow> FieldBehavior set" where
  "declared_behaviors fd = (set (fdExplicit fd) - {BehaviorUnspecified})
     \<union> (case fdOpts fd of None \<Rightarrow> {} | Some fo \<Rightarrow>
          (if foSecret fo then {InputOnly} else {}) \<union> (if foId fo = Some STRATEGY_SERVER_GENERATED then {OutputOnly} else {})
          \<union> (if foId fo = Some STRATEGY_USER_SETTABLE then {Immutable} else {}))"

lemma declared_behaviors_list:
  "set (filter (\<lambda>b. b \<noteq> BehaviorUnspecified) (explicitBehaviors fd) @ derivedBehaviors fd) = declared_behaviors fd"
proof (cases "fdOpts fd")
  case None
  then show ?thesis by (auto simp: explicitBehaviors_def derivedBehaviors_def declared_behaviors_def)
next
  case (Some fo)
  then show ?thesis
    by (cases "foId fo"; cases "the (foId fo)")
      (auto simp: explicitBehaviors_def derivedBehaviors_def declared_behaviors_def)
qed

lemma distinct_behavior_order: "distinct behavior_order"
  by (simp add: behavior_order_def behavior_defs)

text \<open>Behaviors are resolved completely: a field whose declarations clash is refused, and otherwise the result lists exactly
  the declared and derived behaviors, each once, in an order that starts with the fixed one, whatever the map order.\<close>

theorem behaviors_resolved:
  assumes "\<And>xs. mset (iter xs) = mset xs"
  shows "(\<exists>e. ResolveFieldBehavior iter fd = Inl e)
      \<longleftrightarrow> OutputOnly \<in> declared_behaviors fd \<and> (Required \<in> declared_behaviors fd \<or> InputOnly \<in> declared_behaviors fd)"
    and "ResolveFieldBehavior iter fd = Inr bs \<Longrightarrow> distinct bs \<and> set bs = declared_behaviors fd
      \<and> filter (List.member behavior_order) bs = filter (\<lambda>b. b \<in> declared_behaviors fd) behavior_order"
proof -
  let ?bs = "filter (\<lambda>b. b \<noteq> BehaviorUnspecified) (explicitBehaviors fd) @ derivedBehaviors fd"
  let ?rest = "filter (\<lambda>b. \<not> List.member behavior_order b) (remdups ?bs)"
  have mem: "List.member ?bs b \<longleftrightarrow> b \<in> declared_behaviors fd" for b
    by (simp only: List.member_iff declared_behaviors_list)
  have bsset: "set ?bs = declared_behaviors fd" by (rule declared_behaviors_list)
  show "(\<exists>e. ResolveFieldBehavior iter fd = Inl e)
      \<longleftrightarrow> OutputOnly \<in> declared_behaviors fd \<and> (Required \<in> declared_behaviors fd \<or> InputOnly \<in> declared_behaviors fd)"
    unfolding ResolveFieldBehavior_def Let_def mem by auto
  assume r: "ResolveFieldBehavior iter fd = Inr bs"
  then have bs: "bs = filter (\<lambda>b. b \<in> declared_behaviors fd) behavior_order @ iter ?rest"
    unfolding ResolveFieldBehavior_def Let_def mem by (simp split: if_splits)
  have its: "set (iter ?rest) = set ?rest" using assms [of ?rest] by (metis set_mset_mset)
  have itd: "distinct (iter ?rest)" using assms [of ?rest] by (metis distinct_filter distinct_remdups mset_eq_imp_distinct_iff)
  have rest: "set ?rest = {b \<in> declared_behaviors fd. b \<notin> set behavior_order}"
    using bsset by (simp only: set_filter set_remdups List.member_iff)
  have none: "filter (List.member behavior_order) (iter ?rest) = []"
    using its rest by (simp add: filter_empty_conv)
  have all: "filter (List.member behavior_order) (filter (\<lambda>b. b \<in> declared_behaviors fd) behavior_order)
      = filter (\<lambda>b. b \<in> declared_behaviors fd) behavior_order"
    by (rule filter_True) simp
  show "distinct bs \<and> set bs = declared_behaviors fd
      \<and> filter (List.member behavior_order) bs = filter (\<lambda>b. b \<in> declared_behaviors fd) behavior_order"
    unfolding bs using itd its rest none all distinct_behavior_order by auto
qed

definition exSecret :: FieldDescriptor where
  "exSecret = \<lparr>fdName = ''password'', fdJSON = ''password'', fdKind = StringKind, fdCard = Singular, fdMessage = None,
     fdExplicit = [Required], fdOpts = Some \<lparr>foSecret = True, foId = None, foSearchable = False, foColumn = [], foAllowed = []\<rparr>,
     fdRef = None\<rparr>"

theorem behaviors_resolved_witness:
  "ResolveFieldBehavior rev exSecret = Inr [Required, InputOnly] \<and> set [Required, InputOnly] = declared_behaviors exSecret"
proof -
  have r: "ResolveFieldBehavior rev exSecret = Inr [Required, InputOnly]"
    by (simp add: ResolveFieldBehavior_def exSecret_def explicitBehaviors_def derivedBehaviors_def behavior_order_def behavior_defs)
  show ?thesis using r behaviors_resolved(2) [of rev exSecret, OF _ r] by simp
qed

text \<open>Only an explicit \<^verbatim>\<open>REQUIRED\<close> makes a field required, and a secret field is input-only wherever it resolves.\<close>

theorem derived_behaviors:
  "(\<And>xs. mset (iter xs) = mset xs) \<Longrightarrow> ResolveFieldBehavior iter fd = Inr bs \<Longrightarrow> HasBehavior bs Required \<longleftrightarrow> Required \<in> set (fdExplicit fd)"
  "(\<And>xs. mset (iter xs) = mset xs) \<Longrightarrow> ResolveFieldBehavior iter fd = Inr bs \<Longrightarrow> fdOpts fd = Some fo \<Longrightarrow> foSecret fo \<Longrightarrow>
     HasBehavior bs InputOnly"
proof -
  have has: "HasBehavior xs b \<longleftrightarrow> b \<in> set xs" for xs b by (auto simp: HasBehavior_def list_ex_iff)
  show "HasBehavior bs Required \<longleftrightarrow> Required \<in> set (fdExplicit fd)"
    if "\<And>xs. mset (iter xs) = mset xs" "ResolveFieldBehavior iter fd = Inr bs"
  proof -
    have "set bs = declared_behaviors fd" using behaviors_resolved(2) [OF that(1) that(2)] by blast
    then show ?thesis by (auto simp: has declared_behaviors_def behavior_defs split: option.splits if_splits)
  qed
  show "HasBehavior bs InputOnly"
    if "\<And>xs. mset (iter xs) = mset xs" "ResolveFieldBehavior iter fd = Inr bs" "fdOpts fd = Some fo" "foSecret fo"
  proof -
    have "set bs = declared_behaviors fd" using behaviors_resolved(2) [OF that(1) that(2)] by blast
    then show ?thesis using that(3,4) by (simp add: has declared_behaviors_def)
  qed
qed

text \<open>The fields a classification can depend on.\<close>

definition input_relevant :: "string \<Rightarrow> FieldDescriptor \<Rightarrow> bool" where
  "input_relevant resName fd \<longleftrightarrow> fdName fd \<in> {''id'', ''name'', ''ids'', ''names'', ''update_mask'', ''page_size'', ''page_token''}
     \<or> fdKind fd = MessageKind \<and> fdCard fd = Singular \<and> fdMessage fd = Some resName"

definition output_relevant :: "string \<Rightarrow> FieldDescriptor \<Rightarrow> bool" where
  "output_relevant resName fd \<longleftrightarrow> fdName fd = ''next_page_token''
     \<or> fdKind fd = MessageKind \<and> fdCard fd = IsList \<and> fdMessage fd = Some resName"

definition same_relevant :: "(FieldDescriptor \<Rightarrow> bool) \<Rightarrow> MessageDescriptor \<Rightarrow> MessageDescriptor \<Rightarrow> bool" where
  "same_relevant P a b \<longleftrightarrow> mdName a = mdName b \<and> set (filter P (mdFields a)) = set (filter P (mdFields b))"

lemma same_relevant_ex:
  assumes "same_relevant P a b" "\<And>fd. Q fd \<Longrightarrow> P fd"
  shows "list_ex Q (mdFields a) = list_ex Q (mdFields b)"
proof -
  have "{x \<in> set (mdFields a). P x} = {x \<in> set (mdFields b). P x}" using assms(1) by (simp add: same_relevant_def)
  then have "x \<in> set (mdFields a) \<and> P x \<longleftrightarrow> x \<in> set (mdFields b) \<and> P x" for x by blast
  then show ?thesis using assms(2) by (metis list_ex_iff)
qed

text \<open>Classification looks at shapes only: extra fields, and the order of the fields, do not change the standard method of a
  call.\<close>

theorem classify_tolerates:
  assumes "same_relevant (input_relevant (mdName r)) (mInput m) (mInput m')"
    and "same_relevant (output_relevant (mdName r)) (mOutput m) (mOutput m')" "mName m = mName m'"
  shows "ClassifyMethod m (Some r) sd = ClassifyMethod m' (Some r) sd"
proof -
  note i = same_relevant_ex [OF assms(1)] and out = same_relevant_ex [OF assms(2)]
  have "hasField (mInput m) n k = hasField (mInput m') n k"
    if "n \<in> {''id'', ''name'', ''ids'', ''names'', ''update_mask'', ''page_size'', ''page_token''}" for n k
    unfolding hasField_def by (rule i) (use that in \<open>auto simp: input_relevant_def\<close>)
  note f = this
  have fi: "hasField (mInput m) ''id'' k = hasField (mInput m') ''id'' k" "hasField (mInput m) ''name'' k = hasField (mInput m') ''name'' k"
    "hasField (mInput m) ''page_size'' k = hasField (mInput m') ''page_size'' k"
    "hasField (mInput m) ''page_token'' k = hasField (mInput m') ''page_token'' k" for k
    by (rule f, simp)+
  have fo: "hasField (mOutput m) ''next_page_token'' k = hasField (mOutput m') ''next_page_token'' k" for k
    unfolding hasField_def by (rule out) (simp add: output_relevant_def)
  have rs: "hasRepeatedStringField (mInput m) n = hasRepeatedStringField (mInput m') n" if "n \<in> {''ids'', ''names''}" for n
    unfolding hasRepeatedStringField_def by (rule i) (use that in \<open>auto simp: input_relevant_def\<close>)
  have rr: "hasResourceField (mdName r) (mInput m) = hasResourceField (mdName r) (mInput m')"
    unfolding hasResourceField_def by (rule i) (simp add: input_relevant_def)
  have um: "hasUpdateMask (mInput m) = hasUpdateMask (mInput m')"
    unfolding hasUpdateMask_def by (rule i) (simp add: input_relevant_def)
  have rep: "hasRepeatedResource (mdName r) (mOutput m) = hasRepeatedResource (mdName r) (mOutput m')"
    unfolding hasRepeatedResource_def by (rule out) (simp add: output_relevant_def)
  have nm: "mdName (mOutput m) = mdName (mOutput m')" using assms(2) by (simp add: same_relevant_def)
  show ?thesis
    unfolding ClassifyMethod_def by (simp only: fi fo rs rr um rep nm assms(3) insertI1 insertI2 option.case Let_def)
qed

definition exResource :: MessageDescriptor where
  "exResource = \<lparr>mdName = ''toy.Widget'', mdFields = [], mdResource = Some (''toy/Widget'', [''widgets/{widget}'']), mdMember = None, mdSearch = None\<rparr>"

definition exField :: "string \<Rightarrow> fkind \<Rightarrow> cardinality \<Rightarrow> string option \<Rightarrow> FieldDescriptor" where
  "exField n k c m = \<lparr>fdName = n, fdJSON = n, fdKind = k, fdCard = c, fdMessage = m, fdExplicit = [], fdOpts = None, fdRef = None\<rparr>"

definition exMethod :: "string \<Rightarrow> FieldDescriptor list \<Rightarrow> MethodDescriptor" where
  "exMethod n fs = \<lparr>mName = n, mInput = exResource\<lparr>mdName := ''toy.Req'', mdFields := fs\<rparr>, mOutput = exResource\<rparr>"

definition exUpdate :: "FieldDescriptor list" where
  "exUpdate = [exField ''widget'' MessageKind Singular (Some ''toy.Widget''),
     exField ''update_mask'' MessageKind Singular (Some ''google.protobuf.FieldMask'')]"

theorem classify_tolerates_witness:
  "ClassifyMethod (exMethod ''Amend'' (exField ''etag'' StringKind Singular None # exUpdate)) (Some exResource) False = MethodUpdate"
proof -
  have "ClassifyMethod (exMethod ''Amend'' (exField ''etag'' StringKind Singular None # exUpdate)) (Some exResource) False
      = ClassifyMethod (exMethod ''Amend'' exUpdate) (Some exResource) False"
    by (rule classify_tolerates)
      (simp_all add: exMethod_def exUpdate_def exResource_def exField_def same_relevant_def input_relevant_def)
  also have "... = MethodUpdate"
    by (simp add: ClassifyMethod_def exMethod_def exUpdate_def exResource_def exField_def hasResourceField_def hasUpdateMask_def)
  finally show ?thesis .
qed

text \<open>The search surface is resolved in full: it is refused exactly when a source names no field of the message or declares
  nothing, and otherwise has one source for each flagged field, in field order, and then one for each declared source.\<close>

definition source_ok :: "MessageDescriptor \<Rightarrow> search_src \<Rightarrow> bool" where
  "source_ok md s = (case ssFrom s of FromField n \<Rightarrow> (\<exists>fd\<in>set (mdFields md). fdName fd = n) | FromExprs es \<Rightarrow> True | FromNone \<Rightarrow> False)"

lemma find_field: "find (\<lambda>fd. fdName fd = n) fs = None \<longleftrightarrow> \<not> (\<exists>fd\<in>set fs. fdName fd = n)"
  by (auto simp: find_None_iff)

lemma source_step:
  "\<not> source_ok md s \<Longrightarrow> \<exists>e. declared_sources md (s # ss) acc = Inl e"
  "source_ok md s \<Longrightarrow> \<exists>x. declared_sources md (s # ss) acc = declared_sources md ss (acc @ [x])"
proof -
  show "\<exists>e. declared_sources md (s # ss) acc = Inl e" if "\<not> source_ok md s"
  proof (cases "ssFrom s")
    case (FromField n)
    then have "find (\<lambda>fd. fdName fd = n) (mdFields md) = None" using that by (simp add: source_ok_def find_field)
    with FromField show ?thesis by simp
  qed (use that in \<open>simp_all add: source_ok_def\<close>)
  show "\<exists>x. declared_sources md (s # ss) acc = declared_sources md ss (acc @ [x])" if "source_ok md s"
  proof (cases "ssFrom s")
    case (FromField n)
    then have "find (\<lambda>fd. fdName fd = n) (mdFields md) \<noteq> None" using that by (simp add: source_ok_def find_field)
    then obtain fd where "find (\<lambda>fd. fdName fd = n) (mdFields md) = Some fd" by blast
    with FromField show ?thesis by (simp only: declared_sources.simps search_from.case option.case) (rule exI, rule refl)
  next
    case (FromExprs es)
    then show ?thesis by (simp only: declared_sources.simps search_from.case) (rule exI, rule refl)
  qed (use that in \<open>simp add: source_ok_def\<close>)
qed

lemma declared_sources_ok:
  "if list_all (source_ok md) srcs then \<exists>more. declared_sources md srcs acc = Inr (acc @ more) \<and> length more = length srcs
   else \<exists>e. declared_sources md srcs acc = Inl e"
proof (induction srcs arbitrary: acc)
  case Nil
  then show ?case by simp
next
  case (Cons s ss)
  show ?case
  proof (cases "source_ok md s")
    case False
    then show ?thesis using source_step(1) [OF False] by simp
  next
    case True
    then obtain x where x: "declared_sources md (s # ss) acc = declared_sources md ss (acc @ [x])" using source_step(2) by blast
    show ?thesis
    proof (cases "list_all (source_ok md) ss")
      case True
      with Cons [of "acc @ [x]"] obtain more where "declared_sources md ss (acc @ [x]) = Inr ((acc @ [x]) @ more)" "length more = length ss"
        by auto
      then have "declared_sources md (s # ss) acc = Inr (acc @ x # more) \<and> length (x # more) = length (s # ss)" using x by simp
      moreover have "list_all (source_ok md) (s # ss)" using True \<open>source_ok md s\<close> by simp
      ultimately show ?thesis by (simp only: if_True) blast
    next
      case False
      with Cons [of "acc @ [x]"] show ?thesis using x by simp
    qed
  qed
qed

theorem search_surface:
  "case ResolveSearchConfig (Some md) of
     Inl _ \<Rightarrow> (\<exists>sc. mdSearch md = Some sc \<and> \<not> list_all (source_ok md) (seSources sc))
   | Inr c \<Rightarrow> \<exists>more. scSources c = concat (map flagged_source (mdFields md)) @ more \<and> scConfig c \<noteq> []
       \<and> (case mdSearch md of None \<Rightarrow> more = [] | Some sc \<Rightarrow> list_all (source_ok md) (seSources sc) \<and> length more = length (seSources sc))"
proof (cases "mdSearch md")
  case None
  then show ?thesis by (simp add: ResolveSearchConfig_def DefaultTextConfig_def)
next
  case (Some sc)
  let ?imp = "concat (map flagged_source (mdFields md))"
  show ?thesis
  proof (cases "list_all (source_ok md) (seSources sc)")
    case True
    with declared_sources_ok [of md "seSources sc" ?imp]
    obtain more where "declared_sources md (seSources sc) ?imp = Inr (?imp @ more)" "length more = length (seSources sc)" by auto
    then show ?thesis using Some True by (simp add: ResolveSearchConfig_def DefaultTextConfig_def)
  next
    case False
    with declared_sources_ok [of md "seSources sc" ?imp] obtain e where "declared_sources md (seSources sc) ?imp = Inl e" by auto
    then show ?thesis using Some False by (simp add: ResolveSearchConfig_def)
  qed
qed

end
