(* ===== verification/Wire_Redact.thy ===== *)
theory Wire_Redact
  imports Aip
begin

text \<open>
  What leaves the process: the read mask of a response (\<^verbatim>\<open>Apply\<close> in \<^verbatim>\<open>src/middleware/fieldmask.go\<close>) and the redaction of
  write-only fields in logs and responses (\<^verbatim>\<open>src/middleware/redact/redact.go\<close>). A message is the list of its populated fields
  with their descriptors, as reflection ranges over them. A call of the reflection interface that does not fit the field
  panics, as that interface documents: \<open>None\<close> is a panic.
\<close>

section \<open>Messages\<close>

datatype pval = VStr string | VMsg "(FieldDescriptor \<times> pval) list" | VList "pval list" | VMap "(string \<times> pval) list" | VOther string

type_synonym message = "(FieldDescriptor \<times> pval) list"

definition Apply :: "string list \<Rightarrow> message \<Rightarrow> message" where
  "Apply paths m =
     (if length paths = 0 then m
      else filter (\<lambda>(fd, _). List.member paths (fdName fd) \<or> List.member paths (fdJSON fd)) m)"

section \<open>Redaction\<close>

definition write_only :: "FieldDescriptor \<Rightarrow> bool" where
  "write_only fd = (case ResolveFieldBehavior id fd of Inl _ \<Rightarrow> False | Inr bs \<Rightarrow> HasBehavior bs InputOnly)"

text \<open>\<^verbatim>\<open>v.Message()\<close> panics unless the value is a message, and \<^verbatim>\<open>msg.Set\<close> of a string panics unless the field is a single one.\<close>

fun walkAndRedact :: "bool \<Rightarrow> message \<Rightarrow> message option" where
  "walkAndRedact msk [] = Some []"
| "walkAndRedact msk ((fd, v) # fs) =
     (case (if fdKind fd = MessageKind \<and> fdCard fd \<noteq> IsList
            then (case v of VMsg m \<Rightarrow> map_option (\<lambda>m'. [(fd, VMsg m')]) (walkAndRedact msk m) | _ \<Rightarrow> None)
            else if \<not> write_only fd then Some [(fd, v)]
            else if msk \<and> fdKind fd = StringKind
            then (if fdCard fd = Singular then Some [(fd, VStr ''[REDACTED]'')] else None)
            else Some []) of
        None \<Rightarrow> None
      | Some out \<Rightarrow> map_option (\<lambda>rest. out @ rest) (walkAndRedact msk fs))"

text \<open>\<^verbatim>\<open>redact.Message\<close> and \<^verbatim>\<open>redact.Strip\<close>: a nil message stays nil.\<close>

definition redact_Message :: "message option \<Rightarrow> message option option" where
  "redact_Message m = (case m of None \<Rightarrow> Some None | Some x \<Rightarrow> map_option Some (walkAndRedact True x))"

definition redact_Strip :: "message option \<Rightarrow> message option option" where
  "redact_Strip m = (case m of None \<Rightarrow> Some None | Some x \<Rightarrow> map_option Some (walkAndRedact False x))"

section \<open>Properties\<close>

text \<open>A field is open when it can be reached from the top through single messages; messages inside lists are not walked.\<close>

fun open_fields :: "message \<Rightarrow> message" where
  "open_fields [] = []"
| "open_fields ((fd, v) # fs) =
     (if fdKind fd = MessageKind \<and> fdCard fd \<noteq> IsList then (case v of VMsg m \<Rightarrow> open_fields m | _ \<Rightarrow> []) else [(fd, v)]) @ open_fields fs"

fun regular :: "message \<Rightarrow> bool" where
  "regular [] \<longleftrightarrow> True"
| "regular ((fd, v) # fs) \<longleftrightarrow>
     (if fdKind fd = MessageKind \<and> fdCard fd \<noteq> IsList then (case v of VMsg m \<Rightarrow> regular m | _ \<Rightarrow> False)
      else write_only fd \<and> fdKind fd = StringKind \<longrightarrow> fdCard fd = Singular) \<and> regular fs"

definition hide :: "bool \<Rightarrow> FieldDescriptor \<times> pval \<Rightarrow> message" where
  "hide msk fv =
     (if \<not> write_only (fst fv) then [fv] else if msk \<and> fdKind (fst fv) = StringKind then [(fst fv, VStr ''[REDACTED]'')] else [])"

lemma walk_Cons_message:
  "fdKind fd = MessageKind \<Longrightarrow> fdCard fd \<noteq> IsList \<Longrightarrow> walkAndRedact msk ((fd, VMsg m) # fs) =
     (case walkAndRedact msk m of None \<Rightarrow> None | Some m' \<Rightarrow> map_option (\<lambda>rest. (fd, VMsg m') # rest) (walkAndRedact msk fs))"
  by (cases "walkAndRedact msk m"; cases "walkAndRedact msk fs") simp_all

lemma walk_Cons_leaf:
  assumes "\<not> (fdKind fd = MessageKind \<and> fdCard fd \<noteq> IsList)" "write_only fd \<and> fdKind fd = StringKind \<Longrightarrow> fdCard fd = Singular"
  shows "walkAndRedact msk ((fd, v) # fs) = map_option (\<lambda>rest. hide msk (fd, v) @ rest) (walkAndRedact msk fs)"
  using assms by (auto simp: hide_def)

text \<open>\<open>regular\<close> excludes what the walk panics on.\<close>

lemma walk_exact:
  "regular m \<Longrightarrow> \<exists>m'. walkAndRedact msk m = Some m' \<and> open_fields m' = concat (map (hide msk) (open_fields m)) \<and> regular m'"
proof (induction m rule: regular.induct)
  case 1
  then show ?case by simp
next
  case (2 fd v fs)
  from 2(3) have fs: "regular fs" by simp
  obtain fs' where fs': "walkAndRedact msk fs = Some fs'" "open_fields fs' = concat (map (hide msk) (open_fields fs))" "regular fs'"
    using 2(2) [OF fs] by blast
  show ?case
  proof (cases "fdKind fd = MessageKind \<and> fdCard fd \<noteq> IsList")
    case True
    then obtain m where v: "v = VMsg m" and m: "regular m" using 2(3) by (cases v) simp_all
    obtain m' where m': "walkAndRedact msk m = Some m'" "open_fields m' = concat (map (hide msk) (open_fields m))" "regular m'"
      using 2(1) [OF True v m] by blast
    show ?thesis using True fs' m' by (simp add: v walk_Cons_message del: walkAndRedact.simps)
  next
    case False
    with 2(3) have s: "write_only fd \<and> fdKind fd = StringKind \<Longrightarrow> fdCard fd = Singular" by (auto split: if_splits)
    have "open_fields (hide msk (fd, v)) = hide msk (fd, v)" "regular (hide msk (fd, v))"
      using False s by (auto simp: hide_def)
    moreover have "open_fields (xs @ ys) = open_fields xs @ open_fields ys" for xs ys by (induction xs rule: open_fields.induct) simp_all
    moreover have "regular (xs @ ys) \<longleftrightarrow> regular xs \<and> regular ys" for xs ys by (induction xs rule: regular.induct) auto
    moreover have "open_fields ((fd, v) # fs) = (fd, v) # open_fields fs" using False by auto
    ultimately show ?thesis using fs' by (simp add: walk_Cons_leaf [OF False s] del: walkAndRedact.simps open_fields.simps)
  qed
qed


definition plain_field :: "string \<Rightarrow> fkind \<Rightarrow> cardinality \<Rightarrow> FieldDescriptor" where
  "plain_field n k c = exField n k c None"

lemma write_only_examples:
  "write_only exSecret" "\<not> write_only (plain_field n k c)"
  by (simp_all add: write_only_def ResolveFieldBehavior_def exSecret_def plain_field_def exField_def explicitBehaviors_def
      derivedBehaviors_def behavior_order_def behavior_defs HasBehavior_def)


text \<open>What it does not reach. A secret inside a list of messages is logged and sent as it is; a message with a populated map
  makes both forms panic; and so does the logged form of a list of write-only strings. A field whose behaviors clash counts
  as readable.\<close>

theorem redaction_gaps:
  "redact_Strip (Some [(plain_field ''users'' MessageKind IsList, VList [VMsg [(exSecret, VStr s)]])])
     = Some (Some [(plain_field ''users'' MessageKind IsList, VList [VMsg [(exSecret, VStr s)]])])"
  "redact_Message (Some [(plain_field ''labels'' MessageKind IsMap, VMap [(k, VStr v)])]) = None"
  "redact_Message (Some [(exSecret\<lparr>fdCard := IsList\<rparr>, VList vs)]) = None"
  "redact_Strip (Some [(exSecret\<lparr>fdExplicit := [OutputOnly]\<rparr>, VStr s)]) = Some (Some [(exSecret\<lparr>fdExplicit := [OutputOnly]\<rparr>, VStr s)])"
proof -
  have k: "fdKind (plain_field n k c) = k" "fdCard (plain_field n k c) = c" for n k c by (simp_all add: plain_field_def exField_def)
  show "redact_Strip (Some [(plain_field ''users'' MessageKind IsList, VList [VMsg [(exSecret, VStr s)]])])
     = Some (Some [(plain_field ''users'' MessageKind IsList, VList [VMsg [(exSecret, VStr s)]])])"
    by (simp add: redact_Strip_def k write_only_examples)
  show "redact_Message (Some [(plain_field ''labels'' MessageKind IsMap, VMap [(k, VStr v)])]) = None"
    by (simp add: redact_Message_def k)
  have "write_only (exSecret\<lparr>fdCard := IsList\<rparr>)"
    by (simp add: write_only_def ResolveFieldBehavior_def explicitBehaviors_def derivedBehaviors_def exSecret_def behavior_order_def
        behavior_defs HasBehavior_def)
  then show "redact_Message (Some [(exSecret\<lparr>fdCard := IsList\<rparr>, VList vs)]) = None"
    by (simp add: redact_Message_def exSecret_def)
  have "\<not> write_only (exSecret\<lparr>fdExplicit := [OutputOnly]\<rparr>)"
    by (simp add: write_only_def ResolveFieldBehavior_def explicitBehaviors_def derivedBehaviors_def exSecret_def behavior_defs)
  then show "redact_Strip (Some [(exSecret\<lparr>fdExplicit := [OutputOnly]\<rparr>, VStr s)]) = Some (Some [(exSecret\<lparr>fdExplicit := [OutputOnly]\<rparr>, VStr s)])"
    by (simp add: redact_Strip_def exSecret_def)
qed

text \<open>A read mask keeps the named fields and only them, in either spelling; an empty mask keeps everything.\<close>

theorem read_mask_exact:
  "(fd, v) \<in> set (Apply paths m) \<longleftrightarrow> (fd, v) \<in> set m \<and> (paths = [] \<or> fdName fd \<in> set paths \<or> fdJSON fd \<in> set paths)"
  by (auto simp: Apply_def List.member_iff)

end
