(* ===== verification/Server_Unary.thy ===== *)
theory Server_Unary
  imports Gorm_Outbox Wire_Redact
begin

text \<open>
  The unary interceptors of \<^verbatim>\<open>src/middleware/\<close> (\<^verbatim>\<open>errormapper.go\<close>, \<^verbatim>\<open>fieldmask.go\<close>, \<^verbatim>\<open>requestid.go\<close>, \<^verbatim>\<open>validateonly.go\<close>,
  \<^verbatim>\<open>logging.go\<close>, \<^verbatim>\<open>etag/etag.go\<close>) and of \<^verbatim>\<open>src/resilience/\<close>. An interceptor wraps a handler, which maps a call context and the
  state of the server to a result and a new state. Responses are references to messages in the state, since an interceptor
  may change a message that somebody else still holds. Metadata, the clock and cancellation are part of the state.
\<close>

section \<open>Calls\<close>

datatype code = OK | InvalidArgument | NotFound | AlreadyExists | FailedPrecondition | Internal | Unknown | DeadlineExceeded
  | ResourceExhausted | Unauthenticated | PermissionDenied | Unavailable

datatype detail = BadRequest string string | ResourceInfo string | ErrorInfo string string

text \<open>An error: a gRPC status with details, a persistence error, a field violation, one wrapped with a message, or another.\<close>

datatype serr = StatusErr code string "detail list" | PersistErr perr | FieldViolation string string | WrapErr string serr | RawErr string

record message_heap =
  cells :: "nat \<Rightarrow> message"
  fresh :: nat

datatype resp = NilResp | MsgResp nat | OtherResp string

datatype update_mask = NoUpdateMask | StringMask "string list" | FieldMaskPB "string list option"

text \<open>What a request type implements: \<^verbatim>\<open>GetUpdateMask\<close> with either result type, \<^verbatim>\<open>GetReadMask\<close>, \<^verbatim>\<open>GetValidateOnly\<close>; and the
  message itself.\<close>

record request =
  rqUpdateMask :: update_mask
  rqReadMask :: "string list option option"
  rqValidateOnly :: "bool option"
  rqMessage :: "message option"

record call_ctx =
  callMD :: "(string \<Rightarrow> string list) option"
  callRequestID :: "string option"
  callTenant :: string
  callValidateOnly :: "bool option"
  callIfMatch :: "string option"
  callETag :: "nat option"
  callDeadline :: "go_time option"

record log_record =
  lgMethod :: string
  lgCode :: code
  lgRequestID :: "string option"
  lgTenant :: "string option"

record 's srv =
  heap :: message_heap
  etagCells :: "string list"
  outHeaders :: "(string \<times> string) list"
  outTrailers :: "(string \<times> string) list"
  access :: "log_record list"
  debugLog :: "message list"
  clock :: go_time
  cancelledAt :: "go_time option"
  appState :: 's

type_synonym ('c, 's) runner = "'c call_ctx_scheme \<Rightarrow> 's srv \<Rightarrow> (serr + resp) \<times> 's srv"
type_synonym ('c, 's) interceptor = "request \<Rightarrow> string \<Rightarrow> ('c, 's) runner \<Rightarrow> ('c, 's) runner"

section \<open>Error mapping\<close>

fun as_violation :: "serr \<Rightarrow> (string \<times> string) option" where
  "as_violation (FieldViolation f d) = Some (f, d)"
| "as_violation (WrapErr m e) = as_violation e"
| "as_violation _ = None"

fun err_is :: "serr \<Rightarrow> perr \<Rightarrow> bool" where
  "err_is (PersistErr p) t \<longleftrightarrow> perr_is p t"
| "err_is (WrapErr m e) t \<longleftrightarrow> err_is e t"
| "err_is _ t \<longleftrightarrow> False"

fun perr_text :: "perr \<Rightarrow> string" where
  "perr_text ErrNotFound = ''persistence: not found''"
| "perr_text ErrConflict = ''persistence: conflict''"
| "perr_text ErrPreconditionFailed = ''persistence: precondition failed''"
| "perr_text ErrNoTransaction = ''persistence: no transaction on context''"
| "perr_text ErrAlreadyApplied = ''events: idempotency key already applied''"
| "perr_text PanicSliceBounds = []"
| "perr_text (PWrap m e) = m @ '': '' @ perr_text e"
| "perr_text (POther m) = m"

text \<open>\<open>codeName\<close> is \<^verbatim>\<open>codes.Code.String\<close> of the library.\<close>

fun err_text :: "(code \<Rightarrow> string) \<Rightarrow> serr \<Rightarrow> string" where
  "err_text codeName (StatusErr c m ds) = ''rpc error: code = '' @ codeName c @ '' desc = '' @ m"
| "err_text codeName (PersistErr p) = perr_text p"
| "err_text codeName (FieldViolation f d) = ''field violation: '' @ f @ '': '' @ d"
| "err_text codeName (WrapErr m e) = m @ '': '' @ err_text codeName e"
| "err_text codeName (RawErr m) = m"

text \<open>\<open>attach\<close> says whether a detail can be attached, which fails when it does not encode.\<close>

definition withDetail :: "(detail \<Rightarrow> bool) \<Rightarrow> code \<Rightarrow> string \<Rightarrow> detail \<Rightarrow> serr" where
  "withDetail attach c m d = (if attach d then StatusErr c m [d] else StatusErr c m [])"

definition mapError :: "(code \<Rightarrow> string) \<Rightarrow> (detail \<Rightarrow> bool) \<Rightarrow> serr \<Rightarrow> serr" where
  "mapError codeName attach err0 =
     (case as_violation err0 of
        Some (f, d) \<Rightarrow> withDetail attach InvalidArgument ''invalid argument'' (BadRequest f d)
      | None \<Rightarrow>
          let err = (case ConstraintError (Some (err_text codeName err0)) of Some ce \<Rightarrow> PersistErr ce | None \<Rightarrow> err0) in
          if err_is err ErrNotFound then withDetail attach NotFound ''not found'' (ResourceInfo ''resource not found'')
          else if err_is err ErrConflict
          then withDetail attach AlreadyExists ''already exists'' (ErrorInfo ''ALREADY_EXISTS'' ''devedge-sdk/persistence'')
          else if err_is err ErrPreconditionFailed
          then withDetail attach FailedPrecondition ''precondition failed'' (ErrorInfo ''PRECONDITION_FAILED'' ''devedge-sdk/persistence'')
          else if err_is err ErrNoTransaction then StatusErr Internal ''internal error'' []
          else err)"

definition ErrorMapperUnary :: "(code \<Rightarrow> string) \<Rightarrow> (detail \<Rightarrow> bool) \<Rightarrow> ('c, 's) interceptor" where
  "ErrorMapperUnary codeName attach rq m handler c s =
     (case handler c s of (Inr r, s1) \<Rightarrow> (Inr r, s1) | (Inl e, s1) \<Rightarrow> (Inl (mapError codeName attach e), s1))"

fun status_code :: "serr \<Rightarrow> code" where
  "status_code (StatusErr c m ds) = c"
| "status_code (WrapErr m e) = status_code e"
| "status_code _ = Unknown"

section \<open>Masks\<close>

definition FieldMaskUnarySource :: "(string \<Rightarrow> string option) \<Rightarrow> ('c, 's) interceptor" where
  "FieldMaskUnarySource verbs rq m handler c s =
     (if verbs m = Some ''update'' \<and> (case rqUpdateMask rq of StringMask ps \<Rightarrow> length ps = 0 | _ \<Rightarrow> False)
      then (Inl (StatusErr InvalidArgument ''update_mask is required for update operations'' []), s)
      else handler c s)"

definition FieldMaskUnary :: "(string \<Rightarrow> string option) \<Rightarrow> ('c, 's) interceptor" where
  "FieldMaskUnary verbMap = FieldMaskUnarySource verbMap"

definition apply_mask :: "string list \<Rightarrow> nat \<Rightarrow> 's srv \<Rightarrow> 's srv" where
  "apply_mask paths a s = s\<lparr>heap := (heap s)\<lparr>cells := (cells (heap s))(a := Apply paths (cells (heap s) a))\<rparr>\<rparr>"

definition ReadMaskUnary :: "('c, 's) interceptor" where
  "ReadMaskUnary rq m handler c s =
     (case rqReadMask rq of
        None \<Rightarrow> handler c s
      | Some mk \<Rightarrow>
          if mk = None \<or> the mk = [] then handler c s
          else case handler c s of
                 (Inl e, s1) \<Rightarrow> (Inl e, s1)
               | (Inr NilResp, s1) \<Rightarrow> (Inr NilResp, s1)
               | (Inr (MsgResp a), s1) \<Rightarrow> (Inr (MsgResp a), apply_mask (the mk) a s1)
               | (Inr (OtherResp x), s1) \<Rightarrow> (Inr (OtherResp x), s1))"

section \<open>Request identity, dry runs and preconditions\<close>

definition md_first :: "(string \<Rightarrow> string list) option \<Rightarrow> string \<Rightarrow> string" where
  "md_first md k = (case md of None \<Rightarrow> [] | Some get \<Rightarrow> (case get k of [] \<Rightarrow> [] | v # _ \<Rightarrow> v))"

definition RequestIDFromContext :: "'c call_ctx_scheme \<Rightarrow> string" where
  "RequestIDFromContext c = (case callRequestID c of None \<Rightarrow> [] | Some v \<Rightarrow> v)"

definition RequestIDUnary :: "string \<Rightarrow> ('c, 's) interceptor" where
  "RequestIDUnary uuid rq m handler c s =
     (let id0 = md_first (callMD c) ''x-request-id''; id = (if id0 = [] then uuid else id0)
      in handler (c\<lparr>callRequestID := Some id\<rparr>) (s\<lparr>outHeaders := outHeaders s @ [(''x-request-id'', id)]\<rparr>))"

definition ValidateOnlyFromContext :: "'c call_ctx_scheme \<Rightarrow> bool" where
  "ValidateOnlyFromContext c = (callValidateOnly c = Some True)"

definition ValidateOnlyUnary :: "('c, 's) interceptor" where
  "ValidateOnlyUnary rq m handler c s =
     handler (if rqValidateOnly rq = Some True then c\<lparr>callValidateOnly := Some True\<rparr> else c) s"

definition IfMatchFromContext :: "'c call_ctx_scheme \<Rightarrow> string" where
  "IfMatchFromContext c = (case callIfMatch c of None \<Rightarrow> [] | Some v \<Rightarrow> v)"

definition SetIfMatch :: "'c call_ctx_scheme \<Rightarrow> string \<Rightarrow> 'c call_ctx_scheme" where
  "SetIfMatch c v = c\<lparr>callIfMatch := Some v\<rparr>"

definition SetNewETag :: "string \<Rightarrow> 'c call_ctx_scheme \<Rightarrow> 's srv \<Rightarrow> 'c call_ctx_scheme \<times> 's srv" where
  "SetNewETag v c s =
     (case callETag c of
        Some a \<Rightarrow> (c, s\<lparr>etagCells := (etagCells s)[a := v]\<rparr>)
      | None \<Rightarrow> (c\<lparr>callETag := Some (length (etagCells s))\<rparr>, s\<lparr>etagCells := etagCells s @ [v]\<rparr>))"

definition NewETagFromContext :: "'c call_ctx_scheme \<Rightarrow> 's srv \<Rightarrow> string" where
  "NewETagFromContext c s = (case callETag c of None \<Rightarrow> [] | Some a \<Rightarrow> etagCells s ! a)"

definition PreconditionUnary :: "('c, 's) interceptor" where
  "PreconditionUnary rq m handler c s =
     (let a = length (etagCells s);
          c1 = c\<lparr>callIfMatch := Some (md_first (callMD c) ''if-match''), callETag := Some a\<rparr>
      in case handler c1 (s\<lparr>etagCells := etagCells s @ [[]]\<rparr>) of
           (res, s1) \<Rightarrow>
             (res, if etagCells s1 ! a \<noteq> [] then s1\<lparr>outTrailers := outTrailers s1 @ [(''etag'', etagCells s1 ! a)]\<rparr> else s1))"

section \<open>Logging\<close>

text \<open>A panic of the redaction ends the call: the result is \<open>None\<close>, with the state that was reached.\<close>

definition debug_message :: "bool \<Rightarrow> message option \<Rightarrow> 's srv \<Rightarrow> 's srv option" where
  "debug_message debug msg s =
     (if \<not> debug then Some s
      else case msg of
             None \<Rightarrow> Some s
           | Some x \<Rightarrow> (case walkAndRedact True x of None \<Rightarrow> None | Some y \<Rightarrow> Some (s\<lparr>debugLog := debugLog s @ [y]\<rparr>)))"

definition log_attrs :: "string \<Rightarrow> 'c call_ctx_scheme \<Rightarrow> serr + resp \<Rightarrow> log_record" where
  "log_attrs m c res =
     \<lparr>lgMethod = m, lgCode = (case res of Inl e \<Rightarrow> status_code e | Inr _ \<Rightarrow> OK),
      lgRequestID = (if RequestIDFromContext c \<noteq> [] then Some (RequestIDFromContext c) else None),
      lgTenant = (if callTenant c \<noteq> [] then Some (callTenant c) else None)\<rparr>"

definition LoggingUnary :: "bool \<Rightarrow> request \<Rightarrow> string \<Rightarrow> ('c, 's) runner \<Rightarrow> 'c call_ctx_scheme \<Rightarrow> 's srv \<Rightarrow> (serr + resp) option \<times> 's srv" where
  "LoggingUnary debug rq m handler c s =
     (case debug_message debug (rqMessage rq) s of
        None \<Rightarrow> (None, s)
      | Some s0 \<Rightarrow>
          (case handler c s0 of
             (res, s1) \<Rightarrow>
               let s2 = s1\<lparr>access := access s1 @ [log_attrs m c res]\<rparr>
               in (case res of
                     Inr (MsgResp a) \<Rightarrow>
                       (case debug_message debug (Some (cells (heap s2) a)) s2 of None \<Rightarrow> (None, s2) | Some s3 \<Rightarrow> (Some res, s3))
                   | _ \<Rightarrow> (Some res, s2))))"

section \<open>Resilience\<close>

definition NoTimeout :: duration where
  "NoTimeout = - 1"

definition deadline_err :: "'c call_ctx_scheme \<Rightarrow> 's srv \<Rightarrow> bool" where
  "deadline_err c s =
     (case callDeadline c of
        None \<Rightarrow> False
      | Some d \<Rightarrow> d \<le> clock s \<and> (case cancelledAt s of None \<Rightarrow> True | Some t \<Rightarrow> d \<le> t))"

text \<open>\<^verbatim>\<open>context.WithTimeout\<close> keeps an earlier deadline; the error text of a passed deadline is the library's.\<close>

definition with_timeout :: "duration \<Rightarrow> 'c call_ctx_scheme \<Rightarrow> 's srv \<Rightarrow> 'c call_ctx_scheme" where
  "with_timeout d c s =
     c\<lparr>callDeadline := Some (case callDeadline c of None \<Rightarrow> clock s + d | Some t \<Rightarrow> min t (clock s + d))\<rparr>"

definition TimeoutUnary :: "duration \<Rightarrow> (string \<Rightarrow> duration option) \<Rightarrow> ('c, 's) interceptor" where
  "TimeoutUnary def perMethod rq m handler c s =
     (let d = get_or def perMethod m
      in if d \<le> 0 then handler c s
         else let c1 = with_timeout d c s
              in case handler c1 s of
                   (Inl e, s1) \<Rightarrow>
                     (Inl (if deadline_err c1 s1 then StatusErr DeadlineExceeded ''context deadline exceeded'' [] else e), s1)
                 | (Inr r, s1) \<Rightarrow> (Inr r, s1))"

definition RateLimitUnary :: "(string \<Rightarrow> 's srv \<Rightarrow> bool \<times> 's srv) \<Rightarrow> ('c, 's) interceptor" where
  "RateLimitUnary allow rq m handler c s =
     (case allow m s of
        (False, s1) \<Rightarrow> (Inl (StatusErr ResourceExhausted ''rate limit exceeded'' []), s1)
      | (True, s1) \<Rightarrow> handler c s1)"

text \<open>A breaker runs the call or refuses it; \<open>None\<close> is a nil breaker.\<close>

definition BreakerUnary :: "(('s srv \<Rightarrow> (serr + resp) \<times> 's srv) \<Rightarrow> 's srv \<Rightarrow> (serr + resp) \<times> 's srv) option \<Rightarrow> ('c, 's) interceptor" where
  "BreakerUnary b rq m handler c s = (case b of None \<Rightarrow> handler c s | Some exec \<Rightarrow> exec (handler c) s)"

section \<open>Properties\<close>

definition constraint_of :: "(code \<Rightarrow> string) \<Rightarrow> serr \<Rightarrow> perr option" where
  "constraint_of cn e = ConstraintError (Some (err_text cn e))"

definition sentinels :: "perr list" where
  "sentinels = [ErrNotFound, ErrConflict, ErrPreconditionFailed, ErrNoTransaction]"

definition canonical :: "serr \<Rightarrow> bool" where
  "canonical e \<longleftrightarrow> (\<exists>c m ds. e = StatusErr c m ds \<and> (c, m) \<in> {(InvalidArgument, ''invalid argument''), (NotFound, ''not found''),
     (AlreadyExists, ''already exists''), (FailedPrecondition, ''precondition failed''), (Internal, ''internal error'')})"

lemma withDetail_canonical:
  "(c, m) \<in> {(InvalidArgument, ''invalid argument''), (NotFound, ''not found''), (AlreadyExists, ''already exists''),
     (FailedPrecondition, ''precondition failed''), (Internal, ''internal error'')} \<Longrightarrow> canonical (withDetail attach c m d)"
  by (auto simp: withDetail_def canonical_def)

lemma constraint_cases: "ConstraintError m \<in> {None, Some ErrConflict, Some ErrPreconditionFailed}"
  by (auto simp: ConstraintError_def Let_def split: option.splits)

lemma errors_mapped_cases:
  "canonical (mapError cn attach e)
   \<or> mapError cn attach e = e \<and> as_violation e = None \<and> constraint_of cn e = None \<and> list_all (\<lambda>p. \<not> err_is e p) sentinels"
proof (cases "as_violation e")
  case (Some fd)
  then show ?thesis by (cases fd) (simp add: mapError_def withDetail_canonical)
  next
  case None
  consider "constraint_of cn e = None" | "constraint_of cn e = Some ErrConflict" | "constraint_of cn e = Some ErrPreconditionFailed"
    using constraint_cases [of "Some (err_text cn e)"] by (auto simp: constraint_of_def)
  then show ?thesis
  proof cases
    case 1
    let ?it = "canonical (mapError cn attach e)"
    consider "err_is e ErrNotFound" | "err_is e ErrConflict" | "err_is e ErrPreconditionFailed" | "err_is e ErrNoTransaction"
      | "list_all (\<lambda>p. \<not> err_is e p) sentinels" by (auto simp: sentinels_def)
    then show ?thesis
    proof cases
      case 5
      then show ?thesis using None 1 by (simp add: mapError_def constraint_of_def sentinels_def)
    next
      case 4
      have "canonical (StatusErr Internal ''internal error'' [])" by (simp add: canonical_def)
      then show ?thesis using None 1 4 by (simp add: mapError_def constraint_of_def withDetail_canonical)
    qed (use None 1 in \<open>simp_all add: mapError_def constraint_of_def withDetail_canonical\<close>)
  next
    case 2
    then show ?thesis using None by (simp add: mapError_def constraint_of_def withDetail_canonical)
  next
    case 3
    then show ?thesis using None by (simp add: mapError_def constraint_of_def withDetail_canonical)
  qed
  qed

text \<open>C21: No raw error of the persistence layer reaches a client: a field violation, a sentinel (wrapped or not) or a driver's constraint
  message is answered with one of five fixed statuses, and which one is fixed by that order of precedence. Any other error passes
  unchanged (\<open>errors_mapped_cases\<close>).\<close>

theorem errors_mapped:
  assumes "err_is e ErrNotFound \<or> err_is e ErrConflict \<or> err_is e ErrPreconditionFailed \<or> err_is e ErrNoTransaction
    \<or> as_violation e \<noteq> None \<or> constraint_of cn e \<noteq> None"
  shows "canonical (mapError cn attach e)
    \<and> status_code (mapError cn attach e) =
        (if as_violation e \<noteq> None then InvalidArgument
         else if constraint_of cn e = Some ErrConflict then AlreadyExists
         else if constraint_of cn e \<noteq> None then FailedPrecondition
         else if err_is e ErrNotFound then NotFound
         else if err_is e ErrConflict then AlreadyExists
         else if err_is e ErrPreconditionFailed then FailedPrecondition
         else Internal)"
proof
  show "canonical (mapError cn attach e)"
    using errors_mapped_cases [of cn attach e] assms by (auto simp: sentinels_def)
  show "status_code (mapError cn attach e) =
        (if as_violation e \<noteq> None then InvalidArgument
         else if constraint_of cn e = Some ErrConflict then AlreadyExists
         else if constraint_of cn e \<noteq> None then FailedPrecondition
         else if err_is e ErrNotFound then NotFound
         else if err_is e ErrConflict then AlreadyExists
         else if err_is e ErrPreconditionFailed then FailedPrecondition
         else Internal)"
  proof (cases "as_violation e")
    case None
    consider "constraint_of cn e = None" | "constraint_of cn e = Some ErrConflict" | "constraint_of cn e = Some ErrPreconditionFailed"
      using constraint_cases [of "Some (err_text cn e)"] by (auto simp: constraint_of_def)
    then show ?thesis using None assms by cases (auto simp: mapError_def constraint_of_def withDetail_def)
  qed (auto simp: mapError_def withDetail_def split: prod.split)
qed

theorem errors_mapped_witness: "status_code (mapError (\<lambda>_. []) (\<lambda>_. True) (WrapErr ''create'' (FieldViolation ''name'' ''is empty''))) = InvalidArgument"
  using errors_mapped [of "WrapErr ''create'' (FieldViolation ''name'' ''is empty'')" "\<lambda>_. []" "\<lambda>_. True"] by simp

text \<open>The constraint match reads the text of every error, also of a status that a handler chose itself: a status whose message
  quotes such a text changes its code.\<close>

lemma contains_text_sublist: "contains_text msg sub \<longleftrightarrow> sublist sub msg"
  by (simp add: contains_text_def set_sublists_eq)

theorem status_overridden:
  "status_code (mapError cn attach (StatusErr InvalidArgument (''line 3: duplicate entry'' @ m) [])) = AlreadyExists"
proof -
  have "lower_ascii ''duplicate entry'' = ''duplicate entry''" by code_simp
  moreover have "err_text cn (StatusErr InvalidArgument (''line 3: duplicate entry'' @ m) [])
      = (''rpc error: code = '' @ cn InvalidArgument @ '' desc = line 3: '') @ ''duplicate entry'' @ m" by simp
  ultimately have "lower_ascii (err_text cn (StatusErr InvalidArgument (''line 3: duplicate entry'' @ m) []))
      = lower_ascii (''rpc error: code = '' @ cn InvalidArgument @ '' desc = line 3: '') @ ''duplicate entry'' @ lower_ascii m"
    by (simp only: lower_ascii_def map_append)
  then have "contains_text (lower_ascii (err_text cn (StatusErr InvalidArgument (''line 3: duplicate entry'' @ m) []))) ''duplicate entry''"
    unfolding contains_text_sublist sublist_def by blast
  then have "constraint_of cn (StatusErr InvalidArgument (''line 3: duplicate entry'' @ m) []) = Some ErrConflict"
    by (simp add: constraint_of_def ConstraintError_def Let_def del: err_text.simps)
  then show ?thesis by (simp add: mapError_def constraint_of_def withDetail_def)
qed

end
