(* ===== verification/Server_Boot.thy ===== *)
theory Server_Boot
  imports Server_Unary Authz Compose_Host Idempotency
begin

text \<open>
  The server builder \<^verbatim>\<open>src/server/server.go\<close>: what \<^verbatim>\<open>New\<close> accepts, the interceptor chain it assembles, the rules and records
  that registration adds, the gates and the lifecycle of \<^verbatim>\<open>Serve\<close>, and the probes. The gRPC and HTTP servers, listeners and
  the gateway are events of a trace. Interceptors that have a model of their own over other states take part as arguments.
\<close>

section \<open>Configuration\<close>

record 'v auth_ctx = call_ctx +
  callAuth :: "'v gctx"
  callBearer :: "string option"

type_synonym 'v cx = "('v, unit) auth_ctx_ext"

datatype durable_mode = DurableModeTx | DurableModeReserve

text \<open>\<open>cfgDurable\<close> says whether the store and the transaction runner are there, and the mode; a handler of \<open>cfgHTTPHandlers\<close> may
  be nil.\<close>

record ('v, 's) server_config =
  cfgGRPCAddr :: string
  cfgHTTPAddr :: string
  cfgRules :: "MethodRule list"
  cfgAuthorizer :: "'v Authorizer option"
  cfgPrincipalFunc :: "('v gctx \<Rightarrow> string + 'v Principal) option"
  cfgAuthenticator :: "('v cx, 's) interceptor option"
  cfgFeatureSource :: "'v FeatureSource option"
  cfgUsageMeter :: "(MethodRule list \<Rightarrow> ('v cx, 's) interceptor) option"
  cfgInterceptors :: "('v cx, 's) interceptor list"
  cfgHTTPHandlers :: "(string \<times> bool) list"
  cfgDurable :: "(bool \<times> bool \<times> durable_mode) option"
  cfgTimeout :: duration
  cfgPerMethod :: "(string \<times> duration) list"
  cfgLimiter :: "(string \<Rightarrow> 's srv \<Rightarrow> bool \<times> 's srv) option"
  cfgBreaker :: "(('s srv \<Rightarrow> (serr + resp) \<times> 's srv) \<Rightarrow> 's srv \<Rightarrow> (serr + resp) \<times> 's srv) option"

datatype new_err = NoGRPCAddr | NoHTTPAddr | NoPattern nat | NilHandler nat string | ReservedPattern nat string
  | DuplicatePattern string | DurableIncomplete

definition reservedHTTPPatterns :: "string list" where
  "reservedHTTPPatterns = [''/healthz'', ''/readyz'']"

fun check_handlers :: "nat \<Rightarrow> (string \<times> bool) list \<Rightarrow> string list \<Rightarrow> new_err option" where
  "check_handlers i [] seen = None"
| "check_handlers i ((p, present) # hs) seen =
     (if p = [] then Some (NoPattern i)
      else if \<not> present then Some (NilHandler i p)
      else if List.member reservedHTTPPatterns p then Some (ReservedPattern i p)
      else if List.member seen p then Some (DuplicatePattern p)
      else check_handlers (i + 1) hs (p # seen))"

section \<open>The chain\<close>

datatype stage = StRequestID | StTenantID | StRateLimit | StLogging | StErrorMapper | StAuthn | StAuthz | StQuota | StFieldMask
  | StPrecondition | StReadMask | StValidateOnly | StReserve | StDurable | StDedup | StUser nat | StBreaker | StTimeout

definition chain :: "('v, 's) server_config \<Rightarrow> stage list" where
  "chain cfg =
     [StRequestID, StTenantID] @
     (if cfgLimiter cfg \<noteq> None then [StRateLimit] else []) @
     [StLogging, StErrorMapper] @
     (if cfgAuthenticator cfg \<noteq> None then [StAuthn] else []) @
     [StAuthz] @
     (if cfgUsageMeter cfg \<noteq> None then [StQuota] else []) @
     [StFieldMask, StPrecondition, StReadMask, StValidateOnly] @
     (case cfgDurable cfg of
        Some (_, _, DurableModeReserve) \<Rightarrow> [StReserve]
      | Some (_, _, DurableModeTx) \<Rightarrow> [StDurable]
      | None \<Rightarrow> [StDedup]) @
     map StUser [0..<length (cfgInterceptors cfg)] @
     (if cfgBreaker cfg \<noteq> None then [StBreaker] else []) @
     (if cfgTimeout cfg > 0 \<or> length (cfgPerMethod cfg) > 0 then [StTimeout] else [])"

text \<open>Only unary interceptors are installed: a streaming call meets none.\<close>

definition stream_chain :: "('v, 's) server_config \<Rightarrow> stage list" where
  "stream_chain cfg = []"

definition verbMap :: "MethodRule list \<Rightarrow> string \<Rightarrow> string option" where
  "verbMap rs = fold (\<lambda>r m. m(mrMethod r \<mapsto> mrVerb r)) rs Map.empty"

definition VerifiedPrincipal :: "'v gctx \<Rightarrow> string + 'v Principal" where
  "VerifiedPrincipal g = (case principalVal g of None \<Rightarrow> Inr zeroPrincipal | Some p \<Rightarrow> Inr p)"

definition authz_options :: "('v, 's) server_config \<Rightarrow> MethodRule list \<Rightarrow> 'v Option list" where
  "authz_options cfg rs =
     (let base = (case cfgAuthorizer cfg of None \<Rightarrow> DevAuthorizer [] | Some a \<Rightarrow> a);
          pf = (if cfgAuthenticator cfg \<noteq> None \<and> cfgPrincipalFunc cfg = None then Some VerifiedPrincipal else cfgPrincipalFunc cfg)
      in [WithRuleSource (Some rs), WithAuthorizer (Some (WithEntitlement base (cfgFeatureSource cfg)))]
         @ (case pf of None \<Rightarrow> [] | Some f \<Rightarrow> [WithPrincipalFunc (Some f)]))"

text \<open>Quoting of a name without characters that Go escapes.\<close>

definition quoted :: "string \<Rightarrow> string" where
  "quoted s = CHR 0x22 # s @ [CHR 0x22]"

definition authz_status :: "gerr \<Rightarrow> serr" where
  "authz_status e =
     (case e of
        NoRule m \<Rightarrow> StatusErr PermissionDenied (''authz: no rule declared for method '' @ quoted m) []
      | NoPrincipal \<Rightarrow> StatusErr Unauthenticated ''authz: no principal'' []
      | DecisionError \<Rightarrow> StatusErr Internal ''authz: decision error'' []
      | Denied v r \<Rightarrow> StatusErr PermissionDenied (''Permission '' @ quoted v @ '' denied on resource '' @ quoted r @ '' (or it might not exist)'') [])"

definition authz_stage :: "'v Option list \<Rightarrow> ('v cx, 's) interceptor" where
  "authz_stage os rq m handler c s =
     (case fst (authorize (newConfig os) (callAuth c) m) of
        Inl e \<Rightarrow> (Inl (authz_status e), s)
      | Inr g \<Rightarrow> handler (c\<lparr>callAuth := g\<rparr>) s)"

definition tenant_stage :: "('v cx, 's) interceptor" where
  "tenant_stage rq m handler c s =
     handler (c\<lparr>callTenant := md_first (callMD c) ''account-id''\<rparr>) (s\<lparr>outHeaders := outHeaders s @ [(''cell-id'', ''default'')]\<rparr>)"

text \<open>A panic of the logging stage ends the call; the stages outside it do nothing after their handler.\<close>

definition logging_stage :: "bool \<Rightarrow> ('v cx, 's) interceptor" where
  "logging_stage debug rq m handler c s =
     (case LoggingUnary debug rq m handler c s of (Some res, s1) \<Rightarrow> (res, s1) | (None, s1) \<Rightarrow> (Inl (RawErr ''panic''), s1))"

text \<open>The interceptors with a state of their own.\<close>

record ('v, 's) parts =
  pReserve :: "('v cx, 's) interceptor"
  pDurable :: "('v cx, 's) interceptor"
  pDedup :: "('v cx, 's) interceptor"

record call_env =
  envUUID :: string
  envCodeName :: "code \<Rightarrow> string"
  envAttach :: "detail \<Rightarrow> bool"
  envDebug :: bool

definition run_stage :: "('v, 's) server_config \<Rightarrow> MethodRule list \<Rightarrow> call_env \<Rightarrow> ('v, 's) parts \<Rightarrow> stage \<Rightarrow> ('v cx, 's) interceptor" where
  "run_stage cfg rs env p st =
     (case st of
        StRequestID \<Rightarrow> RequestIDUnary (envUUID env)
      | StTenantID \<Rightarrow> tenant_stage
      | StRateLimit \<Rightarrow> (case cfgLimiter cfg of None \<Rightarrow> (\<lambda>rq m h. h) | Some l \<Rightarrow> RateLimitUnary l)
      | StLogging \<Rightarrow> logging_stage (envDebug env)
      | StErrorMapper \<Rightarrow> ErrorMapperUnary (envCodeName env) (envAttach env)
      | StAuthn \<Rightarrow> (case cfgAuthenticator cfg of None \<Rightarrow> (\<lambda>rq m h. h) | Some a \<Rightarrow> a)
      | StAuthz \<Rightarrow> authz_stage (authz_options cfg rs)
      | StQuota \<Rightarrow> (case cfgUsageMeter cfg of None \<Rightarrow> (\<lambda>rq m h. h) | Some q \<Rightarrow> q rs)
      | StFieldMask \<Rightarrow> FieldMaskUnarySource (verbMap rs)
      | StPrecondition \<Rightarrow> PreconditionUnary
      | StReadMask \<Rightarrow> ReadMaskUnary
      | StValidateOnly \<Rightarrow> ValidateOnlyUnary
      | StReserve \<Rightarrow> pReserve p
      | StDurable \<Rightarrow> pDurable p
      | StDedup \<Rightarrow> pDedup p
      | StUser i \<Rightarrow> cfgInterceptors cfg ! i
      | StBreaker \<Rightarrow> BreakerUnary (cfgBreaker cfg)
      | StTimeout \<Rightarrow> TimeoutUnary (cfgTimeout cfg) (map_of (cfgPerMethod cfg)))"

definition run_chain :: "('v, 's) server_config \<Rightarrow> MethodRule list \<Rightarrow> call_env \<Rightarrow> ('v, 's) parts \<Rightarrow> stage list \<Rightarrow> request \<Rightarrow> string
    \<Rightarrow> ('v cx, 's) runner \<Rightarrow> ('v cx, 's) runner" where
  "run_chain cfg rs env p sts rq m handler = foldr (\<lambda>st h. run_stage cfg rs env p st rq m h) sts handler"

section \<open>The server\<close>

record ('v, 's) server =
  svConfig :: "('v, 's) server_config"
  svRules :: "MethodRule list"
  svMethods :: "string list"
  svBindings :: "MemberBinding list"
  svRefs :: "Reference list"
  svBatch :: "string list"
  svExternal :: "string list"
  svChecks :: nat
  svServing :: bool
  svGateway :: bool
  svGatewayFns :: nat

definition healthMethods :: "string list" where
  "healthMethods = [''/grpc.health.v1.Health/Check'', ''/grpc.health.v1.Health/List'', ''/grpc.health.v1.Health/Watch'']"

definition public_rule :: "string \<Rightarrow> MethodRule" where
  "public_rule m = \<lparr>mrMethod = m, mrVerb = [], mrResource = [], mrPublic = True, mrFeatures = [], mrMode = [], mrQuota = None\<rparr>"

definition with_defaults :: "('v, 's) server_config \<Rightarrow> ('v, 's) server_config" where
  "with_defaults cfg =
     cfg\<lparr>cfgAuthorizer := Some (case cfgAuthorizer cfg of None \<Rightarrow> DevAuthorizer [] | Some a \<Rightarrow> a),
         cfgTimeout := (if cfgTimeout cfg = 0 then 30 * 1000000000 else cfgTimeout cfg)\<rparr>"

definition New_server :: "('v, 's) server_config \<Rightarrow> new_err + ('v, 's) server" where
  "New_server cfg =
     (if cfgGRPCAddr cfg = [] then Inl NoGRPCAddr
      else case (if length (cfgHTTPHandlers cfg) > 0
                 then (if cfgHTTPAddr cfg = [] then Some NoHTTPAddr else check_handlers 0 (cfgHTTPHandlers cfg) [])
                 else None) of
             Some e \<Rightarrow> Inl e
           | None \<Rightarrow>
               if (case cfgDurable cfg of None \<Rightarrow> False | Some (hasStore, hasTx, _) \<Rightarrow> \<not> hasStore \<or> \<not> hasTx) then Inl DurableIncomplete
               else Inr \<lparr>svConfig = with_defaults cfg, svRules = cfgRules cfg @ map public_rule healthMethods,
                         svMethods = healthMethods, svBindings = [], svRefs = [], svBatch = [], svExternal = [], svChecks = 0,
                         svServing = True, svGateway = (cfgHTTPAddr cfg \<noteq> []), svGatewayFns = 0\<rparr>)"

definition AddRules :: "MethodRule list \<Rightarrow> ('v, 's) server \<Rightarrow> ('v, 's) server" where
  "AddRules rs sv = sv\<lparr>svRules := svRules sv @ rs\<rparr>"

definition RecordMethods :: "string list \<Rightarrow> ('v, 's) server \<Rightarrow> ('v, 's) server" where
  "RecordMethods ms sv = sv\<lparr>svMethods := svMethods sv @ ms\<rparr>"

definition AddReadinessCheck :: "nat \<Rightarrow> ('v, 's) server \<Rightarrow> ('v, 's) server" where
  "AddReadinessCheck n sv = sv\<lparr>svChecks := svChecks sv + n\<rparr>"

definition RecordMemberBinding :: "MemberBinding \<Rightarrow> ('v, 's) server \<Rightarrow> ('v, 's) server" where
  "RecordMemberBinding b sv = sv\<lparr>svBindings := svBindings sv @ [b]\<rparr>"

definition RecordReferences :: "Reference list \<Rightarrow> ('v, 's) server \<Rightarrow> ('v, 's) server" where
  "RecordReferences refs sv = sv\<lparr>svRefs := svRefs sv @ refs\<rparr>"

definition RecordBatchTarget :: "string \<Rightarrow> ('v, 's) server \<Rightarrow> ('v, 's) server" where
  "RecordBatchTarget t sv = sv\<lparr>svBatch := List.insert t (svBatch sv)\<rparr>"

definition RecordExternalReferenceTarget :: "string \<Rightarrow> ('v, 's) server \<Rightarrow> ('v, 's) server" where
  "RecordExternalReferenceTarget t sv = sv\<lparr>svExternal := List.insert t (svExternal sv)\<rparr>"

definition RegisterGateway :: "('v, 's) server \<Rightarrow> ('v, 's) server" where
  "RegisterGateway sv = sv\<lparr>svGatewayFns := svGatewayFns sv + 1\<rparr>"

definition satisfiableTargets :: "('v, 's) server \<Rightarrow> string list" where
  "satisfiableTargets sv = (if length (svExternal sv) = 0 then svBatch sv else svBatch sv @ svExternal sv)"

text \<open>One call through the server with its live rules.\<close>

definition serve_unary :: "('v, 's) server \<Rightarrow> call_env \<Rightarrow> ('v, 's) parts \<Rightarrow> request \<Rightarrow> string \<Rightarrow> ('v cx, 's) runner \<Rightarrow> ('v cx, 's) runner" where
  "serve_unary sv env p rq m handler = run_chain (svConfig sv) (svRules sv) env p (chain (svConfig sv)) rq m handler"

section \<open>The HTTP side\<close>

definition to_lower :: "string \<Rightarrow> string" where
  "to_lower s = lower_ascii s"

definition incomingHeaderMatcher :: "(string \<Rightarrow> string \<times> bool) \<Rightarrow> string \<Rightarrow> string \<times> bool" where
  "incomingHeaderMatcher dflt key =
     (if List.member [''account-id'', ''subject'', ''groups'', ''if-match'', ''if-none-match''] (to_lower key) then (to_lower key, True)
      else dflt key)"

text \<open>The status line: \<open>sent\<close> holds what has been written to the connection.\<close>

record override_writer =
  owCode :: nat
  wroteHeader :: bool
  sent :: "nat list"

definition WriteHeader :: "nat \<Rightarrow> override_writer \<Rightarrow> override_writer" where
  "WriteHeader n w = (if wroteHeader w then w else w\<lparr>wroteHeader := True, sent := sent w @ [owCode w]\<rparr>)"

definition httpErrorHandler :: "(serr \<Rightarrow> nat) \<Rightarrow> serr \<Rightarrow> nat list" where
  "httpErrorHandler dflt e =
     (if status_code e = FailedPrecondition then sent (WriteHeader (dflt e) \<lparr>owCode = 412, wroteHeader = False, sent = []\<rparr>)
      else [dflt e])"

definition wrap_gateway :: "('h \<Rightarrow> 'h) option list \<Rightarrow> 'h \<Rightarrow> 'h" where
  "wrap_gateway ms gw = foldr (\<lambda>m g. case m of None \<Rightarrow> g | Some f \<Rightarrow> f g) ms gw"

datatype mount = MountLiveness | MountReadiness | MountCustom | MountGateway

definition mounts :: "(string \<times> bool) list \<Rightarrow> (string \<times> mount) list" where
  "mounts hs =
     [(''/healthz'', MountLiveness), (''/readyz'', MountReadiness)] @ map (\<lambda>(p, _). (p, MountCustom)) hs @
     (if list_ex (\<lambda>(p, _). p = ''/'') hs then [] else [(''/'', MountGateway)])"

definition handleLiveness :: nat where
  "handleLiveness = 200"

definition handleReadiness :: "(string \<times> string option) list \<Rightarrow> nat \<times> (string \<Rightarrow> string option)" where
  "handleReadiness probes =
     (let failures = Aggregate probes
      in if length failures = 0 then (200, Map.empty)
         else (503, fold (\<lambda>f m. m(resName f \<mapsto> resErr f)) failures Map.empty))"

definition syncHealthStatus :: "(string \<times> string option) list \<Rightarrow> ('v, 's) server \<Rightarrow> ('v, 's) server" where
  "syncHealthStatus probes sv = sv\<lparr>svServing := (length (Aggregate probes) = 0)\<rparr>"

text \<open>The loop runs once at the start and then at every tick, until the context ends; \<open>ticks\<close> are the outcomes of the probes.\<close>

definition runReadinessLoop :: "(string \<times> string option) list list \<Rightarrow> ('v, 's) server \<Rightarrow> ('v, 's) server" where
  "runReadinessLoop ticks sv = fold syncHealthStatus ticks sv"

section \<open>Serve\<close>

datatype serve_err = GateMethods boot_err | GateBoundaries "(string \<times> string \<times> string) list" | GateReferences "Reference list"
  | ListenErr string | DialErr string | GatewayErr string | ListenHTTPErr string | RunErr string

datatype serve_event = EvListenGRPC | EvServeGRPC | EvDial | EvGateway nat | EvListenHTTP | EvServeHTTP | EvReadiness
  | EvStopGRPC | EvShutdown | EvCancel

record serve_env =
  seListen :: "string option"
  seDial :: "string option"
  seGateway :: "nat \<Rightarrow> string option"
  seListenHTTP :: "string option"
  seRunErr :: "string option"
  seLateErr :: "string option"

definition serve_gates :: "('v, 's) server \<Rightarrow> serve_err option" where
  "serve_gates sv =
     (case AssertMethodsDeclared (svMethods sv) [WithRuleSource (Some (svRules sv)) :: 'v Option] of
        Some e \<Rightarrow> Some (GateMethods e)
      | None \<Rightarrow>
          (case AssertAggregateBoundaries (svMethods sv) (svBindings sv) of
             Some e \<Rightarrow> Some (GateBoundaries e)
           | None \<Rightarrow> map_option GateReferences (AssertReferenceTargets (satisfiableTargets sv) (svRefs sv))))"

fun register_gateways :: "serve_env \<Rightarrow> nat list \<Rightarrow> serve_err option \<times> serve_event list" where
  "register_gateways env [] = (None, [])"
| "register_gateways env (i # is) =
     (case seGateway env i of
        Some e \<Rightarrow> (Some (GatewayErr e), [EvGateway i])
      | None \<Rightarrow> (case register_gateways env is of (r, tr) \<Rightarrow> (r, EvGateway i # tr)))"

definition start_http :: "serve_env \<Rightarrow> ('v, 's) server \<Rightarrow> serve_err option \<times> serve_event list" where
  "start_http env sv =
     (if \<not> svGateway sv then (None, [])
      else case seDial env of
             Some e \<Rightarrow> (Some (DialErr e), [EvDial, EvStopGRPC])
           | None \<Rightarrow>
               (case register_gateways env [0..<svGatewayFns sv] of
                  (Some e, tr) \<Rightarrow> (Some e, EvDial # tr @ [EvStopGRPC])
                | (None, tr) \<Rightarrow>
                    (case seListenHTTP env of
                       Some e \<Rightarrow> (Some (ListenHTTPErr e), EvDial # tr @ [EvListenHTTP, EvStopGRPC])
                     | None \<Rightarrow> (None, EvDial # tr @ [EvListenHTTP, EvServeHTTP]))))"

definition Serve :: "serve_env \<Rightarrow> ('v, 's) server \<Rightarrow> serve_err option \<times> serve_event list" where
  "Serve env sv =
     (case serve_gates sv of
        Some e \<Rightarrow> (Some e, [])
      | None \<Rightarrow>
          (case seListen env of
             Some e \<Rightarrow> (Some (ListenErr e), [EvListenGRPC, EvCancel])
           | None \<Rightarrow>
               (case start_http env sv of
                  (Some e, tr) \<Rightarrow> (Some e, [EvListenGRPC, EvServeGRPC] @ tr @ [EvCancel])
                | (None, tr) \<Rightarrow>
                    (case seRunErr env of Some e \<Rightarrow> Some (RunErr e) | None \<Rightarrow> map_option RunErr (seLateErr env),
                     [EvListenGRPC, EvServeGRPC] @ tr @ [EvReadiness, EvShutdown, EvCancel]))))"

section \<open>Lemmas\<close>

definition outer :: "('v, 's) server_config \<Rightarrow> stage list" where
  "outer cfg = takeWhile (\<lambda>st. st \<noteq> StAuthz) (chain cfg)"

definition inner :: "('v, 's) server_config \<Rightarrow> stage list" where
  "inner cfg = tl (dropWhile (\<lambda>st. st \<noteq> StAuthz) (chain cfg))"

lemma chain_split: "chain cfg = outer cfg @ StAuthz # inner cfg"
  by (simp add: chain_def outer_def inner_def)

lemma outer_stages:
  "outer cfg = [StRequestID, StTenantID] @ (if cfgLimiter cfg \<noteq> None then [StRateLimit] else []) @ [StLogging, StErrorMapper]
     @ (if cfgAuthenticator cfg \<noteq> None then [StAuthn] else [])"
  by (simp add: chain_def outer_def)

lemma run_chain_append: "run_chain cfg rs env p (xs @ ys) rq m h = run_chain cfg rs env p xs rq m (run_chain cfg rs env p ys rq m h)"
  by (simp add: run_chain_def)

lemma run_chain_simps:
  "run_chain cfg rs env p [] rq m h = h"
  "run_chain cfg rs env p (st # sts) rq m h = run_stage cfg rs env p st rq m (run_chain cfg rs env p sts rq m h)"
  by (simp_all add: run_chain_def)

lemma outer_parts: "run_chain cfg rs env p (outer cfg) rq m h = run_chain cfg rs env p' (outer cfg) rq m h"
  by (simp add: outer_stages run_chain_append run_chain_simps run_stage_def)

lemma authz_options_closed: "\<not> failOpen (newConfig (authz_options cfg rs))"
  by (simp add: authz_options_def newConfig_def WithRuleSource_def WithAuthorizer_def WithPrincipalFunc_def Let_def split: option.split)

definition refusal :: "'v Option list \<Rightarrow> string \<Rightarrow> ('v cx, 's) runner" where
  "refusal os m c s = (Inl (authz_status (case fst (authorize (newConfig os) (callAuth c) m) of Inl e \<Rightarrow> e | Inr _ \<Rightarrow> NoPrincipal)), s)"

lemma authz_refuses:
  assumes "\<And>g. \<not> may_run (newConfig (authz_options cfg rs)) g m"
  shows "authz_stage (authz_options cfg rs) rq m (h :: ('v cx, 'w) runner) = refusal (authz_options cfg rs) m"
proof (rule ext, rule ext)
  fix c :: "'v auth_ctx" and s :: "'w srv"
  obtain e where "authorize (newConfig (authz_options cfg rs)) (callAuth c) m = (Inl e, [])"
    using authorize_closed(2) [OF authz_options_closed assms] by blast
  then show "authz_stage (authz_options cfg rs) rq m h c s = refusal (authz_options cfg rs) m c s"
    by (simp add: authz_stage_def refusal_def)
qed

section \<open>Properties\<close>

text \<open>C15: A denied call touches nothing. When no context may run a method under the live rules, what a call of it does is fixed by
  the stages before the decision: handlers, added interceptors, quota, masks and deduplication have no part in it.\<close>

theorem denied_untouched:
  assumes "\<And>g. \<not> may_run (newConfig (authz_options (svConfig sv) (svRules sv))) g m"
  shows "serve_unary sv env p rq m handler =
      run_chain (svConfig sv) (svRules sv) env p' (outer (svConfig sv)) rq m (refusal (authz_options (svConfig sv) (svRules sv)) m)
    \<and> set (outer (svConfig sv)) \<subseteq> {StRequestID, StTenantID, StRateLimit, StLogging, StErrorMapper, StAuthn}"
proof
  have "run_chain (svConfig sv) (svRules sv) env p (StAuthz # inner (svConfig sv)) rq m handler
      = refusal (authz_options (svConfig sv) (svRules sv)) m"
    by (simp add: run_chain_simps run_stage_def authz_refuses [OF assms])
  then show "serve_unary sv env p rq m handler =
      run_chain (svConfig sv) (svRules sv) env p' (outer (svConfig sv)) rq m (refusal (authz_options (svConfig sv) (svRules sv)) m)"
    using outer_parts [of "svConfig sv" "svRules sv" env p rq m _ p']
    unfolding serve_unary_def chain_split [of "svConfig sv"] run_chain_append by simp
  show "set (outer (svConfig sv)) \<subseteq> {StRequestID, StTenantID, StRateLimit, StLogging, StErrorMapper, StAuthn}"
    by (auto simp: outer_stages)
qed

text \<open>Without an authorizer everything is denied that no rule declares public or in observation mode.\<close>

lemma default_deny:
  assumes "cfgAuthorizer cfg = Some (DevAuthorizer [])"
    and "\<And>r. find (\<lambda>r. mrMethod r = m) rs = Some r \<Longrightarrow> \<not> mrPublic r \<and> mrMode r \<noteq> ModeAlert"
  shows "\<not> may_run (newConfig (authz_options cfg rs)) g m"
proof -
  let ?c = "newConfig (authz_options cfg rs)"
  have base: "WithEntitlement (DevAuthorizer []) (cfgFeatureSource cfg) = authorizer ?c"
    using assms(1) by (simp add: authz_options_def newConfig_def WithRuleSource_def WithAuthorizer_def WithPrincipalFunc_def Let_def
        split: option.split)
  have deny: "\<not> Allow (fst (authorizer ?c g req))" for req
    unfolding base [symmetric]
    by (simp add: WithEntitlement_def EntitlementAuthorizer_def deny_def split: option.split)
  have look: "lookup_rule ?c m = map_option ruleFrom (find (\<lambda>r. mrMethod r = m) rs)"
    by (simp add: lookup_rule_def authz_options_def newConfig_def WithRuleSource_def WithAuthorizer_def WithPrincipalFunc_def Let_def
        split: option.split)
  show ?thesis
  proof (cases "find (\<lambda>r. mrMethod r = m) rs")
    case None
    then show ?thesis by (simp add: may_run_def look)
  next
    case (Some r)
    then have "\<not> mrPublic r" "mrMode r \<noteq> ModeAlert" using assms(2) by auto
    then show ?thesis using deny Some by (auto simp: may_run_def look ruleFrom_def split: sum.split prod.split) (metis fst_conv)
  qed
qed

definition bare_config :: "('v, 's) server_config" where
  "bare_config = \<lparr>cfgGRPCAddr = '':9090'', cfgHTTPAddr = [], cfgRules = [], cfgAuthorizer = None, cfgPrincipalFunc = None,
     cfgAuthenticator = None, cfgFeatureSource = None, cfgUsageMeter = None, cfgInterceptors = [], cfgHTTPHandlers = [],
     cfgDurable = None, cfgTimeout = 0, cfgPerMethod = [], cfgLimiter = None, cfgBreaker = None\<rparr>"

definition bare_server :: "('v, 's) server" where
  "bare_server = \<lparr>svConfig = with_defaults bare_config, svRules = map public_rule healthMethods,
     svMethods = healthMethods, svBindings = [], svRefs = [], svBatch = [], svExternal = [], svChecks = 0,
     svServing = True, svGateway = False, svGatewayFns = 0\<rparr>"

lemma bare_new: "New_server bare_config = Inr bare_server"
  by (simp add: New_server_def bare_config_def bare_server_def with_defaults_def)

theorem denied_untouched_witness:
  "New_server bare_config = Inr (bare_server :: (unit, nat) server)
   \<and> (\<forall>env p p' rq h1 h2.
        serve_unary (bare_server :: (unit, nat) server) env p rq ''/o.S/Create'' h1 = serve_unary bare_server env p' rq ''/o.S/Create'' h2)"
proof -
  have "\<not> may_run (newConfig (authz_options (svConfig (bare_server :: (unit, nat) server)) (svRules (bare_server :: (unit, nat) server)))) g ''/o.S/Create''" for g
    by (rule default_deny) (simp_all add: bare_server_def bare_config_def with_defaults_def healthMethods_def public_rule_def)
  note d = this
  let ?sv = "bare_server :: (unit, nat) server"
  have "serve_unary ?sv env p rq ''/o.S/Create'' h1 = serve_unary ?sv env p' rq ''/o.S/Create'' h2" for env p p' rq h1 h2
  proof -
  have "serve_unary ?sv env p rq ''/o.S/Create'' h1
      = run_chain (svConfig ?sv) (svRules ?sv) env p' (outer (svConfig ?sv)) rq ''/o.S/Create''
          (refusal (authz_options (svConfig ?sv) (svRules ?sv)) ''/o.S/Create'')"
    by (rule denied_untouched [THEN conjunct1]) (rule d)
  also have "... = serve_unary ?sv env p' rq ''/o.S/Create'' h2"
    by (rule denied_untouched [THEN conjunct1, symmetric]) (rule d)
  finally show ?thesis .
  qed
  then show ?thesis by (simp add: bare_new)
qed

fun stage_rank :: "stage \<Rightarrow> nat" where
  "stage_rank StRequestID = 0" | "stage_rank StTenantID = 1" | "stage_rank StRateLimit = 2" | "stage_rank StLogging = 3"
| "stage_rank StErrorMapper = 4" | "stage_rank StAuthn = 5" | "stage_rank StAuthz = 6" | "stage_rank StQuota = 7"
| "stage_rank StFieldMask = 8" | "stage_rank StPrecondition = 9" | "stage_rank StReadMask = 10" | "stage_rank StValidateOnly = 11"
| "stage_rank StReserve = 12" | "stage_rank StDurable = 12" | "stage_rank StDedup = 12" | "stage_rank (StUser i) = 13 + i"
| "stage_rank StBreaker = 0" | "stage_rank StTimeout = 0"

definition ranked :: "('v, 's) server_config \<Rightarrow> stage \<Rightarrow> nat" where
  "ranked cfg st = (case st of StBreaker \<Rightarrow> 13 + length (cfgInterceptors cfg) | StTimeout \<Rightarrow> 14 + length (cfgInterceptors cfg)
     | _ \<Rightarrow> stage_rank st)"

lemma ranked_simps:
  "ranked cfg StRequestID = 0" "ranked cfg StTenantID = 1" "ranked cfg StRateLimit = 2" "ranked cfg StLogging = 3"
  "ranked cfg StErrorMapper = 4" "ranked cfg StAuthn = 5" "ranked cfg StAuthz = 6" "ranked cfg StQuota = 7"
  "ranked cfg StFieldMask = 8" "ranked cfg StPrecondition = 9" "ranked cfg StReadMask = 10" "ranked cfg StValidateOnly = 11"
  by (simp_all add: ranked_def)

text \<open>The chain has every mandatory stage, none twice, and in one order for every configuration.\<close>

theorem chain_ordered:
  "sorted_wrt (\<lambda>a b. ranked cfg a < ranked cfg b) (chain cfg)"
  "{StRequestID, StTenantID, StLogging, StErrorMapper, StAuthz, StFieldMask, StPrecondition, StReadMask, StValidateOnly} \<subseteq> set (chain cfg)"
  "\<exists>d\<in>{StReserve, StDurable, StDedup}. d \<in> set (chain cfg)"
proof -
  let ?n = "length (cfgInterceptors cfg)"
  define rest where "rest = map StUser [0..<?n] @ (if cfgBreaker cfg \<noteq> None then [StBreaker] else []) @
     (if cfgTimeout cfg > 0 \<or> length (cfgPerMethod cfg) > 0 then [StTimeout] else [])"
  obtain d where d: "d \<in> {StReserve, StDurable, StDedup}" and c: "chain cfg =
     ([StRequestID, StTenantID] @ (if cfgLimiter cfg \<noteq> None then [StRateLimit] else []) @ [StLogging, StErrorMapper] @
      (if cfgAuthenticator cfg \<noteq> None then [StAuthn] else []) @ [StAuthz] @ (if cfgUsageMeter cfg \<noteq> None then [StQuota] else []) @
      [StFieldMask, StPrecondition, StReadMask, StValidateOnly, d]) @ rest"
    by (cases "cfgDurable cfg"; cases "snd (snd (the (cfgDurable cfg)))") (auto simp: chain_def rest_def split: prod.splits)
  let ?f = "[StRequestID, StTenantID] @ (if cfgLimiter cfg \<noteq> None then [StRateLimit] else []) @ [StLogging, StErrorMapper] @
      (if cfgAuthenticator cfg \<noteq> None then [StAuthn] else []) @ [StAuthz] @ (if cfgUsageMeter cfg \<noteq> None then [StQuota] else []) @
      [StFieldMask, StPrecondition, StReadMask, StValidateOnly, d]"
  have dr: "ranked cfg d = 12" using d by (auto simp: ranked_def)
  have f: "sorted_wrt (\<lambda>a b. ranked cfg a < ranked cfg b) ?f"
    using dr by (cases "cfgLimiter cfg"; cases "cfgAuthenticator cfg"; cases "cfgUsageMeter cfg") (simp_all add: ranked_simps)
  have f12: "\<forall>x\<in>set ?f. ranked cfg x \<le> 12" using dr by (auto simp: ranked_simps)
  have r13: "\<forall>x\<in>set rest. 13 \<le> ranked cfg x" by (auto simp: rest_def ranked_def split: if_splits)
  have users: "sorted_wrt (\<lambda>a b. ranked cfg a < ranked cfg b) (map StUser [0..<?n])"
    by (simp add: sorted_wrt_map ranked_def)
  have r: "sorted_wrt (\<lambda>a b. ranked cfg a < ranked cfg b) rest"
    using users by (auto simp: rest_def sorted_wrt_append ranked_def)
  show "sorted_wrt (\<lambda>a b. ranked cfg a < ranked cfg b) (chain cfg)"
    unfolding c sorted_wrt_append [of _ ?f rest] using f r f12 r13 by fastforce
  show "{StRequestID, StTenantID, StLogging, StErrorMapper, StAuthz, StFieldMask, StPrecondition, StReadMask, StValidateOnly} \<subseteq> set (chain cfg)"
    by (simp add: chain_def)
  show "\<exists>d\<in>{StReserve, StDurable, StDedup}. d \<in> set (chain cfg)"
    by (auto simp: chain_def split: option.splits prod.splits durable_mode.splits)
qed

definition mapped :: "call_env \<Rightarrow> serr \<Rightarrow> bool" where
  "mapped env e \<longleftrightarrow> (\<exists>e0. e = mapError (envCodeName env) (envAttach env) e0)"

lemma mapper_maps: "ErrorMapperUnary cn at rq m h c s = (Inl e, s1) \<Longrightarrow> \<exists>e0. e = mapError cn at e0"
  by (auto simp: ErrorMapperUnary_def split: prod.splits sum.splits)

lemma logging_passes:
  "logging_stage debug rq m h c s = (Inl e, s1) \<Longrightarrow> e = RawErr ''panic'' \<or> (\<exists>c0 s0 s2. h c0 s0 = (Inl e, s2))"
  by (auto simp: logging_stage_def LoggingUnary_def Let_def split: option.splits prod.splits sum.splits resp.splits)

lemma limiter_passes:
  "RateLimitUnary l rq m h c s = (Inl e, s1) \<Longrightarrow> e = StatusErr ResourceExhausted ''rate limit exceeded'' [] \<or> (\<exists>c0 s0 s2. h c0 s0 = (Inl e, s2))"
  by (auto simp: RateLimitUnary_def split: prod.splits bool.splits)

lemma outer_passes:
  "RequestIDUnary u rq m h c s = (Inl e, s1) \<Longrightarrow> \<exists>c0 s0 s2. h c0 s0 = (Inl e, s2)"
  "tenant_stage rq m h c s = (Inl e, s1) \<Longrightarrow> \<exists>c0 s0 s2. h c0 s0 = (Inl e, s2)"
  by (auto simp: RequestIDUnary_def tenant_stage_def Let_def)

lemma mapped_clean:
  assumes "mapped env e"
  shows "as_violation e = None \<and> list_all (\<lambda>p. \<not> err_is e p) sentinels"
proof -
  obtain e0 where e: "e = mapError (envCodeName env) (envAttach env) e0" using assms by (auto simp: mapped_def)
  from errors_mapped_cases [of "envCodeName env" "envAttach env" e0] show ?thesis
    unfolding e [symmetric] by (auto simp: canonical_def sentinels_def)
qed

lemma client_sees_no_sentinel_base:
  assumes "serve_unary sv env p rq m handler c s = (Inl e, s')"
  shows "as_violation e = None \<and> list_all (\<lambda>q. \<not> err_is e q) sentinels
    \<and> (mapped env e \<or> e = RawErr ''panic'' \<or> e = StatusErr ResourceExhausted ''rate limit exceeded'' [])"
proof -
  let ?cfg = "svConfig sv" and ?rs = "svRules sv"
  define core where "core = run_chain ?cfg ?rs env p ((if cfgAuthenticator ?cfg \<noteq> None then [StAuthn] else []) @ StAuthz # inner ?cfg) rq m handler"
  define logged where "logged = logging_stage (envDebug env) rq m (ErrorMapperUnary (envCodeName env) (envAttach env) rq m core)"
  define limited where "limited = run_chain ?cfg ?rs env p (if cfgLimiter ?cfg \<noteq> None then [StRateLimit] else []) rq m logged"
  have all: "serve_unary sv env p rq m handler = RequestIDUnary (envUUID env) rq m (tenant_stage rq m limited)"
    unfolding serve_unary_def chain_split [of ?cfg] outer_stages limited_def logged_def core_def
    by (simp add: run_chain_append run_chain_simps run_stage_def)
  obtain c0 s0 s2 where "tenant_stage rq m limited c0 s0 = (Inl e, s2)" using outer_passes(1) assms all by metis
  then obtain c1 s1 s3 where l: "limited c1 s1 = (Inl e, s3)" using outer_passes(2) by metis
  have m: "mapped env e \<or> e = RawErr ''panic'' \<or> e = StatusErr ResourceExhausted ''rate limit exceeded'' []"
  proof -
    have at_log: "mapped env e \<or> e = RawErr ''panic''" if "logged c2 s4 = (Inl e, s5)" for c2 s4 s5
      using logging_passes [OF that [unfolded logged_def]] mapper_maps unfolding mapped_def by metis
    show ?thesis
    proof (cases "cfgLimiter ?cfg")
      case None
      then have "logged c1 s1 = (Inl e, s3)" using l by (simp add: limited_def run_chain_simps)
      from at_log [OF this] show ?thesis by blast
    next
      case (Some lim)
      then have "RateLimitUnary lim rq m logged c1 s1 = (Inl e, s3)" using l by (simp add: limited_def run_chain_simps run_stage_def)
      from limiter_passes [OF this] show ?thesis using at_log by blast
    qed
  qed
  then show ?thesis using mapped_clean by (auto simp: sentinels_def)
qed

text \<open>No raw persistence error reaches a client of a unary call, whatever handlers, interceptors and stores do: an error is a
  refusal of the rate limiter, a panic while logging, or has passed the error mapper.\<close>

theorem client_sees_no_sentinel:
  assumes "serve_unary sv env p rq m handler c s = (Inl e, s')"
  shows "as_violation e = None \<and> list_all (\<lambda>q. \<not> err_is e q) sentinels
    \<and> (mapped env e \<or> e = RawErr ''panic'' \<or> e = StatusErr ResourceExhausted ''rate limit exceeded'' [])"
  by (rule client_sees_no_sentinel_base [OF assms])

definition exEnv :: call_env where
  "exEnv = \<lparr>envUUID = ''u'', envCodeName = (\<lambda>_. []), envAttach = (\<lambda>_. True), envDebug = False\<rparr>"

theorem client_sees_no_sentinel_witness:
  "\<forall>p rq h c s. \<exists>e s'. serve_unary (bare_server :: (unit, nat) server) exEnv p rq ''/o.S/Create'' h c s = (Inl e, s') \<and> \<not> err_is e ErrNotFound"
proof (intro allI)
  fix p rq h c s
  let ?sv = "bare_server :: (unit, nat) server"
  have d: "\<not> may_run (newConfig (authz_options (svConfig ?sv) (svRules ?sv))) g ''/o.S/Create''" for g
    by (rule default_deny) (simp_all add: bare_server_def bare_config_def with_defaults_def healthMethods_def public_rule_def)
  have "outer (svConfig ?sv) = [StRequestID, StTenantID, StLogging, StErrorMapper]"
    by (simp add: outer_stages bare_server_def bare_config_def with_defaults_def)
  then have "\<exists>e s'. serve_unary ?sv exEnv p rq ''/o.S/Create'' h c s = (Inl e, s')"
    unfolding serve_unary_def chain_split [of "svConfig ?sv"] run_chain_append
    by (simp add: run_chain_simps run_stage_def authz_refuses [OF d] RequestIDUnary_def tenant_stage_def logging_stage_def LoggingUnary_def
        debug_message_def exEnv_def ErrorMapperUnary_def refusal_def Let_def)
  then obtain e s' where r: "serve_unary ?sv exEnv p rq ''/o.S/Create'' h c s = (Inl e, s')" by blast
  from client_sees_no_sentinel [OF r] have "\<not> err_is e ErrNotFound" by (simp add: sentinels_def)
  with r show "\<exists>e s'. serve_unary ?sv exEnv p rq ''/o.S/Create'' h c s = (Inl e, s') \<and> \<not> err_is e ErrNotFound" by blast
qed

section \<open>Life of a server\<close>

lemma register_gateways_events: "set (snd (register_gateways env is)) \<subseteq> range EvGateway"
  by (induction "is") (auto split: option.splits prod.splits)


lemma bare_gates: "serve_gates (bare_server :: (unit, nat) server) = None"
proof -
  have "AssertMethodsDeclared healthMethods [WithRuleSource (Some (map public_rule healthMethods)) :: unit Option] = None"
    by (simp add: AssertMethodsDeclared_def healthMethods_def public_rule_def newConfig_def WithRuleSource_def lookup_rule_def ruleFrom_def
        malformed_def allRules_def Let_def)
  moreover have "AssertAggregateBoundaries healthMethods [] = None" by (simp add: AssertAggregateBoundaries_def)
  moreover have "AssertReferenceTargets ts [] = None" for ts by (simp add: AssertReferenceTargets_def)
  ultimately show ?thesis by (simp add: serve_gates_def bare_server_def)
qed


text \<open>Probes: after a pass of the readiness loop the gRPC health status, the HTTP status and its body agree: serving and 200 when
  no check fails, otherwise not serving and 503 with the names of the failing checks. Liveness never looks at a check.\<close>

lemma Aggregate_eq: "Aggregate probes = concat (map (\<lambda>it. case snd it of None \<Rightarrow> [] | Some e \<Rightarrow> [\<lparr>resName = fst it, resErr = e\<rparr>]) probes)"
  by (simp add: Aggregate_def)

lemma Aggregate_names: "resName ` set (Aggregate probes) = {n. \<exists>e. (n, Some e) \<in> set probes}"
  by (force simp: Aggregate_eq split: option.splits)

lemma fold_upd_dom: "dom (fold (\<lambda>f m. m(resName f \<mapsto> resErr f)) fs m0) = resName ` set fs \<union> dom m0"
  by (induction fs arbitrary: m0) auto

theorem probes_agree:
  "let sv' = runReadinessLoop (ticks @ [probes]) sv; failing = {n. \<exists>e. (n, Some e) \<in> set probes}
   in (svServing sv' \<longleftrightarrow> failing = {}) \<and> fst (handleReadiness probes) = (if failing = {} then 200 else 503)
     \<and> dom (snd (handleReadiness probes)) = failing \<and> handleLiveness = 200"
proof -
  let ?f = "{n. \<exists>e. (n, Some e) \<in> set probes}"
  have e: "Aggregate probes = [] \<longleftrightarrow> ?f = {}" using Aggregate_names [of probes] by (metis empty_set image_is_empty set_empty)
  have s: "svServing (runReadinessLoop (ticks @ [probes]) sv) \<longleftrightarrow> Aggregate probes = []"
    by (simp add: runReadinessLoop_def syncHealthStatus_def)
  have d: "dom (snd (handleReadiness probes)) = ?f" and c: "fst (handleReadiness probes) = (if ?f = {} then 200 else 503)"
    using Aggregate_names [of probes] e by (auto simp: handleReadiness_def Let_def fold_upd_dom)
  show ?thesis unfolding Let_def using s e d c by (simp only: handleLiveness_def simp_thms)
qed

text \<open>What an accepted configuration mounts: no pattern twice, both probes, and exactly one handler for everything else.\<close>

lemma check_handlers_ok:
  "check_handlers i hs seen = None \<Longrightarrow> distinct (map fst hs) \<and> set (map fst hs) \<inter> (set seen \<union> {''/healthz'', ''/readyz'', []}) = {}
     \<and> list_all snd hs"
proof (induction i hs seen rule: check_handlers.induct)
  case (2 i p present hs seen)
  from 2(2) have p: "p \<noteq> []" "present" "\<not> List.member reservedHTTPPatterns p" "\<not> List.member seen p"
    and rest: "check_handlers (i + 1) hs (p # seen) = None" by (auto split: if_splits)
  from 2(1) [OF p(1) _ p(3,4) rest] p show ?case by (auto simp: reservedHTTPPatterns_def)
qed simp

theorem mounts_distinct:
  assumes "New_server cfg = Inr sv"
  shows "distinct (map fst (mounts (cfgHTTPHandlers cfg)))
    \<and> map_of (mounts (cfgHTTPHandlers cfg)) ''/healthz'' = Some MountLiveness
    \<and> map_of (mounts (cfgHTTPHandlers cfg)) ''/readyz'' = Some MountReadiness
    \<and> map_of (mounts (cfgHTTPHandlers cfg)) ''/'' \<in> {Some MountGateway, Some MountCustom}"
proof -
  let ?hs = "cfgHTTPHandlers cfg"
  have ok: "distinct (map fst ?hs) \<and> set (map fst ?hs) \<inter> {''/healthz'', ''/readyz'', []} = {}"
  proof (cases "?hs = []")
    case False
    then have "check_handlers 0 ?hs [] = None" using assms by (auto simp: New_server_def split: if_splits option.splits)
    from check_handlers_ok [OF this] show ?thesis by simp
  qed simp
  have fsts: "map fst (map (\<lambda>(p, _). (p, MountCustom)) xs) = map fst xs" for xs :: "(string \<times> bool) list" by (induction xs) auto
  have root: "list_ex (\<lambda>(p, _). p = ''/'') ?hs \<longleftrightarrow> ''/'' \<in> set (map fst ?hs)" by (force simp: list_ex_iff)
  have d: "distinct (map fst (mounts ?hs))"
    unfolding mounts_def map_append fsts using ok root by auto
  have c: "map_of (map (\<lambda>(p, _). (p, MountCustom)) xs) k = (if k \<in> set (map fst xs) then Some MountCustom else None)"
    for xs :: "(string \<times> bool) list" and k by (induction xs) auto
  have "map_of (mounts ?hs) ''/'' \<in> {Some MountGateway, Some MountCustom}"
    unfolding mounts_def root by (simp add: map_add_def c)
  then show ?thesis using d by (simp add: mounts_def)
qed

theorem mounts_distinct_witness:
  "map fst (mounts [(''/oauth/'', True), (''/'', True)]) = [''/healthz'', ''/readyz'', ''/oauth/'', ''/'']
   \<and> distinct (map fst (mounts [(''/oauth/'', True), (''/'', True)]))"
proof -
  let ?cfg = "bare_config\<lparr>cfgHTTPAddr := '':8080'', cfgHTTPHandlers := [(''/oauth/'', True), (''/'', True)]\<rparr> :: (unit, nat) server_config"
  have "\<exists>sv. New_server ?cfg = Inr sv" by (simp add: New_server_def bare_config_def reservedHTTPPatterns_def)
  then obtain sv where "New_server ?cfg = Inr sv" ..
  from mounts_distinct [OF this] show ?thesis by (simp add: mounts_def)
qed

section \<open>What the builder does not do\<close>

text \<open>The reserved patterns are compared as strings, so a probe can be claimed with a method; the field-mask stage reads the last
  rule of a method where authorization reads the first; and a streaming call meets no stage at all.\<close>

theorem builder_gaps:
  "\<exists>sv. New_server (bare_config\<lparr>cfgHTTPAddr := '':8080'', cfgHTTPHandlers := [(''GET /healthz'', True)]\<rparr> :: (unit, nat) server_config) = Inr sv"
  "let r = (public_rule ''/o.S/Set'')\<lparr>mrPublic := False, mrVerb := ''update''\<rparr>; rs = [r, r\<lparr>mrVerb := ''get''\<rparr>]
   in verbMap rs ''/o.S/Set'' = Some ''get''
    \<and> map_option verb (lookup_rule (newConfig (authz_options (bare_config :: (unit, nat) server_config) rs)) ''/o.S/Set'') = Some ''update''"
  "run_chain cfg rs env p (stream_chain cfg) rq m handler = handler"
proof -
  show "\<exists>sv. New_server (bare_config\<lparr>cfgHTTPAddr := '':8080'', cfgHTTPHandlers := [(''GET /healthz'', True)]\<rparr> :: (unit, nat) server_config) = Inr sv"
    by (simp add: New_server_def bare_config_def reservedHTTPPatterns_def)
  show "run_chain cfg rs env p (stream_chain cfg) rq m handler = handler" by (simp add: stream_chain_def run_chain_def)
  show "let r = (public_rule ''/o.S/Set'')\<lparr>mrPublic := False, mrVerb := ''update''\<rparr>; rs = [r, r\<lparr>mrVerb := ''get''\<rparr>]
   in verbMap rs ''/o.S/Set'' = Some ''get''
    \<and> map_option verb (lookup_rule (newConfig (authz_options (bare_config :: (unit, nat) server_config) rs)) ''/o.S/Set'') = Some ''update''"
    by (simp add: Let_def verbMap_def public_rule_def lookup_rule_def authz_options_def newConfig_def bare_config_def WithRuleSource_def
        WithAuthorizer_def ruleFrom_def)
qed

text \<open>An update whose mask is a \<^verbatim>\<open>google.protobuf.FieldMask\<close>, which the classifier takes for an update, is not checked for an empty
  mask.\<close>

theorem field_mask_unchecked:
  "FieldMaskUnarySource (\<lambda>_. Some ''update'') \<lparr>rqUpdateMask = FieldMaskPB None, rqReadMask = None, rqValidateOnly = None, rqMessage = None\<rparr> m h = h"
  "ClassifyMethod (exMethod ''UpdateWidget'' exUpdate) (Some exResource) False = MethodUpdate"
  by (simp_all add: FieldMaskUnarySource_def fun_eq_iff ClassifyMethod_def exMethod_def exUpdate_def exResource_def exField_def
      hasResourceField_def hasUpdateMask_def)

section \<open>Masks and cached responses\<close>

text \<open>The in-memory deduplication stage over the state of the server: the cache holds references to responses.\<close>

definition dedup_stage :: "duration \<Rightarrow> go_time \<times> go_time \<Rightarrow> ctx \<Rightarrow> idem_req
    \<Rightarrow> ('v cx, resp dedup_store \<times> 'd) interceptor" where
  "dedup_stage ttl ts tc ir rq m handler c s =
     (case DeduplicateUnary ttl ts tc ir m (handler c) (fst (appState s), s) of
        (res, st, s1) \<Rightarrow> (res, s1\<lparr>appState := (st, snd (appState s1))\<rparr>))"

definition mask_request :: "string list option \<Rightarrow> request" where
  "mask_request mk = \<lparr>rqUpdateMask = NoUpdateMask, rqReadMask = Some mk, rqValidateOnly = None, rqMessage = None\<rparr>"

text \<open>A handler that answers with a new message.\<close>

definition creating :: "message \<Rightarrow> ('v cx, 's) runner" where
  "creating x c s = (Inr (MsgResp (fresh (heap s))), s\<lparr>heap := \<lparr>cells = (cells (heap s))(fresh (heap s) := x), fresh = fresh (heap s) + 1\<rparr>\<rparr>)"

text \<open>A read mask narrows the cached response itself: a first call with a mask and a retry without one, in the order of the
  chain, and the retry gets what the first mask left.\<close>

theorem mask_narrows_cache:
  assumes "appState s = (Map.empty, d)" "0 < ttl" "paths \<noteq> []"
    and "ir = \<lparr>reqID = Some ''r1'', validateOnly = False, reqFingerprint = []\<rparr>"
  shows "\<exists>s1 s2. ReadMaskUnary (mask_request (Some paths)) m (dedup_stage ttl (t, t) tc ir (mask_request (Some paths)) m (creating x)) c s
        = (Inr (MsgResp (fresh (heap s))), s1)
    \<and> ReadMaskUnary (mask_request None) m (dedup_stage ttl (t, t) tc ir (mask_request None) m (creating x)) c s1
        = (Inr (MsgResp (fresh (heap s))), s2)
    \<and> cells (heap s2) (fresh (heap s)) = Apply paths x"
  using assms
  by (auto simp: ReadMaskUnary_def mask_request_def dedup_stage_def DeduplicateUnary_def creating_def dedup_Load_def dedup_Store_def
      idempotencyCacheKey_def apply_mask_def Let_def)

end
