(* ===== verification/Authn.thy ===== *)
theory Authn
  imports Server_Boot
begin

text \<open>
  Authentication (\<^verbatim>\<open>src/authn/\<close>): the interceptor that verifies a bearer before authorization (\<^verbatim>\<open>interceptor.go\<close>, with the
  principal and bearer of \<^verbatim>\<open>src/middleware/identity.go\<close> and \<^verbatim>\<open>inboundbearer.go\<close>), the static claims mapper
  (\<^verbatim>\<open>claimsmapper.go\<close>), and the outbound interceptors (\<^verbatim>\<open>tokensource.go\<close>). The verifier and the token source are arguments.
\<close>

section \<open>The inbound interceptor\<close>

definition WithPrincipal :: "'v Principal \<Rightarrow> 'v auth_ctx \<Rightarrow> 'v auth_ctx" where
  "WithPrincipal p c = c\<lparr>callAuth := (callAuth c)\<lparr>principalVal := Some p\<rparr>\<rparr>"

definition PrincipalFromContext :: "'v auth_ctx \<Rightarrow> 'v Principal \<times> bool" where
  "PrincipalFromContext c = (case principalVal (callAuth c) of Some p \<Rightarrow> (p, True) | None \<Rightarrow> (zeroPrincipal, False))"

definition WithResource :: "ResourceRef \<Rightarrow> 'v auth_ctx \<Rightarrow> 'v auth_ctx" where
  "WithResource r c = c\<lparr>callAuth := (callAuth c)\<lparr>resourceVal := Some r\<rparr>\<rparr>"

definition ResourceFromContext :: "'v auth_ctx \<Rightarrow> ResourceRef \<times> bool" where
  "ResourceFromContext c =
     (case resourceVal (callAuth c) of Some r \<Rightarrow> (r, True) | None \<Rightarrow> (\<lparr>refType = [], refName = [], refVerb = []\<rparr>, False))"

definition WithInboundBearer :: "string \<Rightarrow> 'v auth_ctx \<Rightarrow> 'v auth_ctx" where
  "WithInboundBearer raw c = c\<lparr>callBearer := Some raw\<rparr>"

definition InboundBearerFromContext :: "'v auth_ctx \<Rightarrow> string \<times> bool" where
  "InboundBearerFromContext c = (case callBearer c of Some raw \<Rightarrow> (raw, True) | None \<Rightarrow> ([], False))"

definition DefaultMetadataKey :: string where
  "DefaultMetadataKey = ''authorization''"

record interceptorConfig =
  metadataKey :: string
  required :: bool

definition WithMetadataKey :: "string \<Rightarrow> interceptorConfig \<Rightarrow> interceptorConfig" where
  "WithMetadataKey k c = (if k \<noteq> [] then c\<lparr>metadataKey := k\<rparr> else c)"

definition WithRequired :: "interceptorConfig \<Rightarrow> interceptorConfig" where
  "WithRequired c = c\<lparr>required := True\<rparr>"

definition default_interceptor :: interceptorConfig where
  "default_interceptor = \<lparr>metadataKey = DefaultMetadataKey, required = False\<rparr>"

definition bearerFromContext :: "'c call_ctx_scheme \<Rightarrow> string \<Rightarrow> string \<times> bool" where
  "bearerFromContext c key =
     (case callMD c of
        None \<Rightarrow> ([], False)
      | Some get \<Rightarrow>
          (case get key of
             [] \<Rightarrow> ([], False)
           | v # _ \<Rightarrow>
               if length v < length ''bearer '' \<or> lower_ascii (take (length ''bearer '') v) \<noteq> ''bearer '' then ([], False)
               else (let token = TrimSpace (drop (length ''bearer '') v)
                     in if token = [] then ([], False) else (token, True))))"

type_synonym 'v Authenticator = "string \<Rightarrow> string + 'v Principal"

definition authn_Unary :: "'v Authenticator option \<Rightarrow> (interceptorConfig \<Rightarrow> interceptorConfig) list \<Rightarrow> ('v cx, 's) interceptor" where
  "authn_Unary a os rq m handler c s =
     (let cfg = fold (\<lambda>f x. f x) os default_interceptor
      in case a of
           None \<Rightarrow> handler c s
         | Some authenticate \<Rightarrow>
             (case bearerFromContext c (metadataKey cfg) of
                (_, False) \<Rightarrow>
                  if required cfg then (Inl (StatusErr Unauthenticated ''authn: missing bearer token'' []), s) else handler c s
              | (bearer, True) \<Rightarrow>
                  (case authenticate bearer of
                     Inl e \<Rightarrow> (Inl (StatusErr Unauthenticated ''authn: invalid bearer token'' []), s)
                   | Inr p \<Rightarrow> handler (WithInboundBearer bearer (WithPrincipal p c)) s)))"

section \<open>Claims\<close>

record Identity =
  idSubject :: string
  idApps :: "string list"

record 'v StaticClaimsMapper =
  AppName :: string
  bySubject :: "string \<Rightarrow> 'v Principal option"
  requireEntitlement :: bool
  requireClaims :: bool

datatype claims_err = ErrNotEntitled | ErrNoClaims

definition WithRequireEntitlement :: "'v StaticClaimsMapper \<Rightarrow> 'v StaticClaimsMapper" where
  "WithRequireEntitlement m = m\<lparr>requireEntitlement := True\<rparr>"

definition WithRequireClaims :: "'v StaticClaimsMapper \<Rightarrow> 'v StaticClaimsMapper" where
  "WithRequireClaims m = m\<lparr>requireClaims := True\<rparr>"

definition NewStaticClaimsMapper :: "string \<Rightarrow> (string \<Rightarrow> 'v Principal option) \<Rightarrow> ('v StaticClaimsMapper \<Rightarrow> 'v StaticClaimsMapper) list
    \<Rightarrow> 'v StaticClaimsMapper" where
  "NewStaticClaimsMapper app seed os =
     fold (\<lambda>f m. f m) os \<lparr>AppName = app, bySubject = seed, requireEntitlement = False, requireClaims = False\<rparr>"

definition mapper_Set :: "string \<Rightarrow> 'v Principal \<Rightarrow> 'v StaticClaimsMapper \<Rightarrow> 'v StaticClaimsMapper" where
  "mapper_Set sub p m = m\<lparr>bySubject := (bySubject m)(sub \<mapsto> p)\<rparr>"

definition mapper_Replace :: "(string \<Rightarrow> 'v Principal option) \<Rightarrow> 'v StaticClaimsMapper \<Rightarrow> 'v StaticClaimsMapper" where
  "mapper_Replace t m = m\<lparr>bySubject := t\<rparr>"

definition MapClaims :: "Identity \<Rightarrow> 'v StaticClaimsMapper \<Rightarrow> claims_err + 'v Principal" where
  "MapClaims i m =
     (if requireEntitlement m \<and> AppName m \<noteq> [] \<and> \<not> List.member (idApps i) (AppName m) then Inl ErrNotEntitled
      else case bySubject m (idSubject i) of
             None \<Rightarrow> if requireClaims m then Inl ErrNoClaims else Inr (zeroPrincipal\<lparr>Subject := idSubject i\<rparr>)
           | Some p \<Rightarrow> Inr \<lparr>Subject = idSubject i, pTenant = pTenant p, Groups = Groups p, Scopes = Scopes p, Claims = Claims p\<rparr>)"

section \<open>The outbound interceptors\<close>

definition serviceFromMethod :: "string \<Rightarrow> string" where
  "serviceFromMethod meth =
     (let m = (case meth of c # cs \<Rightarrow> if c = CHR ''/'' then cs else meth | [] \<Rightarrow> [])
      in case split_last (CHR ''/'') m of Some (before, _) \<Rightarrow> before | None \<Rightarrow> m)"

text \<open>Outgoing metadata is a list; appending keeps what is already there.\<close>

type_synonym outgoing = "(string \<times> string) list"

definition UnaryClientInterceptor :: "(string \<Rightarrow> string + string) option \<Rightarrow> (string \<Rightarrow> string option) option \<Rightarrow> string
    \<Rightarrow> (outgoing \<Rightarrow> serr option) \<Rightarrow> outgoing \<Rightarrow> serr option" where
  "UnaryClientInterceptor ts r m invoker md =
     (case (ts, r) of
        (Some tokenFor, Some audienceFor) \<Rightarrow>
          let svc = serviceFromMethod m in
          (case audienceFor svc of
             None \<Rightarrow> Some (StatusErr FailedPrecondition (''authn: no audience mapped for outbound target '' @ svc) [])
           | Some aud \<Rightarrow>
               (case tokenFor aud of
                  Inl e \<Rightarrow> Some (StatusErr Unauthenticated (''authn: token for audience '' @ aud @ '': '' @ e) [])
                | Inr token \<Rightarrow> invoker (md @ [(DefaultMetadataKey, ''Bearer '' @ token)])))
      | _ \<Rightarrow> Some (StatusErr FailedPrecondition ''authn: outbound interceptor missing TokenSource or AudienceResolver'' []))"

text \<open>An HTTP header map with one value for a name; the request that is sent is a copy.\<close>

definition bearer_RoundTrip :: "(string \<Rightarrow> string + string) option \<Rightarrow> string \<Rightarrow> ((string \<Rightarrow> string option) \<Rightarrow> 'r)
    \<Rightarrow> (string \<Rightarrow> string option) \<Rightarrow> string + 'r" where
  "bearer_RoundTrip ts audience base headers =
     (case ts of
        None \<Rightarrow> Inl ''authn: RoundTripper has no TokenSource''
      | Some tokenFor \<Rightarrow>
          (case tokenFor audience of
             Inl e \<Rightarrow> Inl (''authn: token for audience '' @ audience @ '': '' @ e)
           | Inr token \<Rightarrow> Inr (base (headers(''Authorization'' \<mapsto> ''Bearer '' @ token)))))"

section \<open>Properties\<close>


definition exVerify :: "unit Authenticator" where
  "exVerify b = (if b = ''good'' then Inr (zeroPrincipal\<lparr>Subject := ''amy''\<rparr>) else Inl ''bad signature'')"

definition exCall :: "string \<Rightarrow> unit auth_ctx" where
  "exCall v = \<lparr>callMD = Some (\<lambda>k. if k = ''authorization'' then [v] else []), callRequestID = None, callTenant = [],
     callValidateOnly = None, callIfMatch = None, callETag = None, callDeadline = None, callAuth = md_ctx [], callBearer = None\<rparr>"

lemma exCall_bearer: "bearerFromContext (exCall ''Bearer forged'') DefaultMetadataKey = (''forged'', True)"
proof -
  have "TrimSpace ''forged'' = ''forged''" by (rule plain_text) (code_simp, code_simp)
  moreover have "lower_ascii ''Bearer '' = ''bearer ''" by code_simp
  ultimately show ?thesis by (simp add: bearerFromContext_def exCall_def DefaultMetadataKey_def)
qed


text \<open>A header that is not of the bearer scheme counts as no bearer at all: it is not rejected, whatever the documentation of
  \<^verbatim>\<open>WithRequired\<close> says of a malformed one.\<close>

theorem malformed_bearer_passes:
  "bearerFromContext (exCall ''Basic YWxhZGRpbg=='') DefaultMetadataKey = ([], False)"
  "authn_Unary (Some exVerify) [] rq m handler (exCall ''Basic YWxhZGRpbg=='') s = handler (exCall ''Basic YWxhZGRpbg=='') s"
proof -
  have "lower_ascii ''Basic Y'' \<noteq> ''bearer ''" by code_simp
  then show b: "bearerFromContext (exCall ''Basic YWxhZGRpbg=='') DefaultMetadataKey = ([], False)"
    by (simp add: bearerFromContext_def exCall_def DefaultMetadataKey_def)
  show "authn_Unary (Some exVerify) [] rq m handler (exCall ''Basic YWxhZGRpbg=='') s = handler (exCall ''Basic YWxhZGRpbg=='') s"
    using b by (simp add: authn_Unary_def default_interceptor_def)
qed

text \<open>The outbound interceptor makes no call without a token for the audience of the target. It appends the token, though: when
  the outgoing metadata already has an authorization value, the callee, which reads the first one, gets that.\<close>

theorem outbound_token:
  "UnaryClientInterceptor ts r m invoker md = None \<Longrightarrow>
     \<exists>tokenFor audienceFor aud token. ts = Some tokenFor \<and> r = Some audienceFor \<and> audienceFor (serviceFromMethod m) = Some aud
       \<and> tokenFor aud = Inr token \<and> invoker (md @ [(DefaultMetadataKey, ''Bearer '' @ token)]) = None"
  by (auto simp: UnaryClientInterceptor_def Let_def split: option.splits sum.splits)

definition received :: "outgoing \<Rightarrow> string \<Rightarrow> string list" where
  "received md k = map snd (filter (\<lambda>x. fst x = k) md)"

theorem earlier_bearer_wins:
  "\<exists>calls. UnaryClientInterceptor (Some (\<lambda>aud. Inr ''scoped'')) (Some (\<lambda>svc. Some ''billing'')) ''/b.S/Pay''
       (\<lambda>md. if hd (received md DefaultMetadataKey) = ''Bearer raw'' then None else Some (RawErr ''other'')) [(DefaultMetadataKey, ''Bearer raw'')] = calls
     \<and> calls = None"
  by (simp add: UnaryClientInterceptor_def received_def Let_def)

text \<open>The mapper never authors claims for another subject, and not without entitlement where it is required.\<close>

theorem claims_authored:
  "MapClaims i m = Inr p \<Longrightarrow> Subject p = idSubject i
     \<and> (requireEntitlement m \<and> AppName m \<noteq> [] \<longrightarrow> AppName m \<in> set (idApps i))
     \<and> (requireClaims m \<longrightarrow> bySubject m (idSubject i) \<noteq> None)
     \<and> (bySubject m (idSubject i) = None \<longrightarrow> Groups p = [] \<and> Scopes p = [] \<and> pTenant p = [])"
  by (auto simp: MapClaims_def zeroPrincipal_def List.member_iff split: if_splits option.splits)

end
