(* ===== verification/Authn_Oidc.thy ===== *)
theory Authn_Oidc
  imports Authn
begin

text \<open>
  Tokens (\<^verbatim>\<open>src/authn/oidc/\<close>): the issuer (\<^verbatim>\<open>issuer.go\<close>), the verifier and its key cache (\<^verbatim>\<open>authenticator.go\<close>), and the token
  exchange with its cache and single flight (\<^verbatim>\<open>exchanger.go\<close>), whose callers run concurrently. Signing, parsing and claim
  validation of the JOSE library are parameters with their documented laws; so is the token endpoint.
\<close>

section \<open>Tokens\<close>

datatype jval = JStr string | JNum int | JArr "jval list" | JOther string

record StdClaims =
  stdIssuer :: string
  stdSubject :: string
  stdAudience :: "string list"
  stdExpiry :: "go_time option"
  stdNotBefore :: "go_time option"
  stdIssuedAt :: "go_time option"

record expectation =
  exIssuer :: string
  exAnyAudience :: "string list"
  exTime :: go_time

record jwk =
  jwkKey :: nat
  jwkID :: string

text \<open>The library: \<open>sign\<close> serializes claims under a private key and a key id, the later claims winning; \<open>parse\<close> reads the key
  id of a token; \<open>verify\<close> answers the standard and all claims when the public key fits.\<close>

record jose =
  sign :: "nat \<Rightarrow> string \<Rightarrow> StdClaims \<Rightarrow> (string \<Rightarrow> jval option) \<Rightarrow> string + string"
  parse :: "string \<Rightarrow> string option"
  verify :: "string \<Rightarrow> nat \<Rightarrow> (StdClaims \<times> (string \<Rightarrow> jval option)) option"
  validate :: "StdClaims \<Rightarrow> expectation \<Rightarrow> duration \<Rightarrow> bool"

section \<open>The issuer\<close>

record Issuer =
  issIssuer :: string
  issAudience :: "string list"
  issTTL :: duration
  issKey :: nat
  issKID :: string

definition reserved_claims :: "string list" where
  "reserved_claims = [''tenant'', ''groups'', ''scopes'', ''iss'', ''sub'', ''aud'', ''exp'', ''iat'', ''nbf'']"

text \<open>\<^verbatim>\<open>jwt.NewNumericDate\<close> keeps whole seconds.\<close>

definition NumericDate :: "go_time \<Rightarrow> go_time" where
  "NumericDate t = (t div 1000000000) * 1000000000"

definition private_claims :: "jval Principal \<Rightarrow> string \<Rightarrow> jval option" where
  "private_claims p k =
     (if k = ''tenant'' then (if pTenant p \<noteq> [] then Some (JStr (pTenant p)) else None)
      else if k = ''groups'' then (if length (Groups p) > 0 then Some (JArr (map JStr (Groups p))) else None)
      else if k = ''scopes'' then (if length (Scopes p) > 0 then Some (JArr (map JStr (Scopes p))) else None)
      else if List.member reserved_claims k then None
      else Claims p k)"

definition Mint :: "jose \<Rightarrow> Issuer \<Rightarrow> go_time \<Rightarrow> jval Principal \<Rightarrow> string + string" where
  "Mint J i tnow p =
     (case sign J (issKey i) (issKID i)
             \<lparr>stdIssuer = issIssuer i, stdSubject = Subject p, stdAudience = issAudience i, stdExpiry = Some (NumericDate (tnow + issTTL i)),
              stdNotBefore = Some (NumericDate tnow), stdIssuedAt = Some (NumericDate tnow)\<rparr> (private_claims p) of
        Inl e \<Rightarrow> Inl (''oidc: sign token: '' @ e)
      | Inr t \<Rightarrow> Inr t)"

definition JWKS :: "Issuer \<Rightarrow> jwk list" where
  "JWKS i = [\<lparr>jwkKey = issKey i, jwkID = issKID i\<rparr>]"

section \<open>The verifier\<close>

text \<open>The cache of a remote key set; the argument of \<open>keySet\<close> is what a fetch answers now.\<close>

record RemoteJWKS =
  rjTTL :: duration
  cached :: "jwk list"
  fetched :: go_time
  haveOnce :: bool

definition RemoteJWKS_keySet :: "go_time \<Rightarrow> string + jwk list \<Rightarrow> RemoteJWKS \<Rightarrow> (string + jwk list) \<times> RemoteJWKS" where
  "RemoteJWKS_keySet tnow answer r =
     (let ttl = (if rjTTL r \<le> 0 then 5 * 60 * 1000000000 else rjTTL r)
      in if haveOnce r \<and> tnow - fetched r < ttl then (Inr (cached r), r)
         else case answer of
                Inl e \<Rightarrow> if haveOnce r then (Inr (cached r), r) else (Inl e, r)
              | Inr ks \<Rightarrow> (Inr ks, r\<lparr>cached := ks, fetched := tnow, haveOnce := True\<rparr>))"

record oidc_config =
  ocKeys :: bool
  ExpectedIssuer :: string
  ExpectedAudiences :: "string list"
  ExpectedAudience :: string
  AllowAnyAudience :: bool
  Leeway :: duration

record oidc_authenticator =
  auIssuer :: string
  auAudiences :: "string list"
  auLeeway :: duration

definition dedupeNonEmpty :: "string list \<Rightarrow> string list" where
  "dedupeNonEmpty xs = rev (remdups (rev (filter (\<lambda>s. s \<noteq> []) xs)))"

definition NewAuthenticator :: "oidc_config \<Rightarrow> string + oidc_authenticator" where
  "NewAuthenticator cfg =
     (if \<not> ocKeys cfg then Inl ''oidc: Keys (KeySource) is required''
      else if ExpectedIssuer cfg = [] then Inl ''oidc: ExpectedIssuer is required (fail closed)''
      else let auds = dedupeNonEmpty (ExpectedAudiences cfg @ [ExpectedAudience cfg])
           in if length auds = 0 \<and> \<not> AllowAnyAudience cfg then Inl ''oidc: at least one expected audience is required (fail closed)''
              else Inr \<lparr>auIssuer = ExpectedIssuer cfg, auAudiences = auds,
                        auLeeway = (if Leeway cfg \<le> 0 then 30 * 1000000000 else Leeway cfg)\<rparr>)"

definition selectKey :: "jwk list \<Rightarrow> string \<Rightarrow> string + nat" where
  "selectKey ks kid =
     (if kid \<noteq> [] then
        (case find (\<lambda>k. jwkID k = kid) ks of
           Some k \<Rightarrow> Inr (jwkKey k)
         | None \<Rightarrow> Inl (''oidc: no verification key for kid '' @ kid))
      else case ks of [k] \<Rightarrow> Inr (jwkKey k) | _ \<Rightarrow> Inl ''oidc: token has no kid and key set is ambiguous'')"

fun strings_of :: "jval list \<Rightarrow> string list" where
  "strings_of [] = []"
| "strings_of (JStr s # vs) = s # strings_of vs"
| "strings_of (_ # vs) = strings_of vs"

definition stringSlice :: "jval option \<Rightarrow> string list" where
  "stringSlice v = (case v of Some (JStr s) \<Rightarrow> [s] | Some (JArr vs) \<Rightarrow> strings_of vs | _ \<Rightarrow> [])"

definition principalFromClaims :: "StdClaims \<Rightarrow> (string \<Rightarrow> jval option) \<Rightarrow> jval Principal" where
  "principalFromClaims std priv =
     \<lparr>Subject = stdSubject std, pTenant = (case priv ''tenant'' of Some (JStr t) \<Rightarrow> t | _ \<Rightarrow> []),
      Groups = stringSlice (priv ''groups''), Scopes = stringSlice (priv ''scopes''),
      Claims = (\<lambda>k. if List.member [''tenant'', ''groups'', ''scopes''] k then None else priv k)\<rparr>"

definition Authenticate :: "jose \<Rightarrow> oidc_authenticator \<Rightarrow> go_time \<Rightarrow> string + jwk list \<Rightarrow> string \<Rightarrow> string + jval Principal" where
  "Authenticate J a tnow keys bearer =
     (case parse J bearer of
        None \<Rightarrow> Inl ''oidc: parse token''
      | Some kid \<Rightarrow>
          (case keys of
             Inl e \<Rightarrow> Inl (''oidc: key set: '' @ e)
           | Inr ks \<Rightarrow>
               (case selectKey ks kid of
                  Inl e \<Rightarrow> Inl e
                | Inr key \<Rightarrow>
                    (case verify J bearer key of
                       None \<Rightarrow> Inl ''oidc: verify signature''
                     | Some (std, priv) \<Rightarrow>
                         if validate J std \<lparr>exIssuer = auIssuer a, exAnyAudience = auAudiences a, exTime = tnow\<rparr> (auLeeway a)
                         then Inr (principalFromClaims std priv)
                         else Inl ''oidc: claim validation''))))"

section \<open>The laws of the library\<close>

definition std_claims_of :: "StdClaims \<Rightarrow> string \<Rightarrow> jval option" where
  "std_claims_of s k =
     (if k = ''iss'' then Some (JStr (stdIssuer s)) else if k = ''sub'' then Some (JStr (stdSubject s))
      else if k = ''aud'' then Some (JArr (map JStr (stdAudience s)))
      else if k = ''exp'' then map_option JNum (stdExpiry s) else if k = ''nbf'' then map_option JNum (stdNotBefore s)
      else if k = ''iat'' then map_option JNum (stdIssuedAt s) else None)"

text \<open>A token verifies under the key it was signed with and no other; what it answers are the signed claims, both views of them
  reading the whole payload; validation compares issuer, audience and times as documented, absent times being accepted.\<close>

definition jose_laws :: "jose \<Rightarrow> bool" where
  "jose_laws J \<longleftrightarrow>
     (\<forall>key kid std priv t. sign J key kid std priv = Inr t \<longrightarrow> (\<forall>k. std_claims_of std k \<noteq> None \<longrightarrow> priv k = None) \<longrightarrow>
        parse J t = Some kid \<and> verify J t key = Some (std, \<lambda>k. case std_claims_of std k of Some v \<Rightarrow> Some v | None \<Rightarrow> priv k))
   \<and> (\<forall>t key std all. verify J t key = Some (std, all) \<longrightarrow> (\<exists>kid priv. sign J key kid std priv = Inr t))
   \<and> (\<forall>s e lw. validate J s e lw \<longleftrightarrow>
        (exIssuer e = [] \<or> stdIssuer s = exIssuer e) \<and> (exAnyAudience e = [] \<or> set (stdAudience s) \<inter> set (exAnyAudience e) \<noteq> {})
        \<and> (case stdNotBefore s of None \<Rightarrow> True | Some t \<Rightarrow> t \<le> exTime e + lw)
        \<and> (case stdExpiry s of None \<Rightarrow> True | Some t \<Rightarrow> exTime e - lw \<le> t)
        \<and> (case stdIssuedAt s of None \<Rightarrow> True | Some t \<Rightarrow> t \<le> exTime e + lw))"

section \<open>Properties of tokens\<close>

lemma strings_of_map: "strings_of (map JStr xs) = xs"
  by (induction xs) simp_all

definition surfaced :: "StdClaims \<Rightarrow> jval Principal \<Rightarrow> string \<Rightarrow> jval option" where
  "surfaced std p k = (case std_claims_of std k of Some v \<Rightarrow> Some v | None \<Rightarrow> if List.member reserved_claims k then None else Claims p k)"


text \<open>C17: Nothing else verifies: an accepted bearer was signed with a key of the key set, and its issuer, an audience and its times
  are as the verifier requires.\<close>

theorem authenticate_sound:
  assumes "jose_laws J" "Authenticate J a tnow (Inr ks) bearer = Inr p"
  shows "\<exists>k kid std priv all. k \<in> set ks \<and> sign J (jwkKey k) kid std priv = Inr bearer \<and> p = principalFromClaims std all
    \<and> (auIssuer a = [] \<or> stdIssuer std = auIssuer a) \<and> (auAudiences a = [] \<or> set (stdAudience std) \<inter> set (auAudiences a) \<noteq> {})
    \<and> (\<forall>t. stdExpiry std = Some t \<longrightarrow> tnow - auLeeway a \<le> t)"
proof -
  obtain kid key std all where s: "selectKey ks kid = Inr key" "verify J bearer key = Some (std, all)"
    "validate J std \<lparr>exIssuer = auIssuer a, exAnyAudience = auAudiences a, exTime = tnow\<rparr> (auLeeway a)" "p = principalFromClaims std all"
    using assms(2) by (auto simp: Authenticate_def split: option.splits sum.splits prod.splits if_splits)
  have "\<exists>k\<in>set ks. jwkKey k = key"
    using s(1) by (auto simp: selectKey_def find_Some_iff split: if_splits option.splits list.splits)
  then obtain k where k: "k \<in> set ks" "jwkKey k = key" by blast
  obtain kid' priv where "sign J key kid' std priv = Inr bearer" using assms(1) s(2) unfolding jose_laws_def by blast
  moreover have "(auIssuer a = [] \<or> stdIssuer std = auIssuer a) \<and> (auAudiences a = [] \<or> set (stdAudience std) \<inter> set (auAudiences a) \<noteq> {})
    \<and> (\<forall>t. stdExpiry std = Some t \<longrightarrow> tnow - auLeeway a \<le> t)"
    using assms(1) s(3) unfolding jose_laws_def by auto
  ultimately show ?thesis using k s(4) by blast
qed

text \<open>A library that signs one set of claims under one key meets the laws.\<close>

definition one_token :: "nat \<Rightarrow> string \<Rightarrow> StdClaims \<Rightarrow> (string \<Rightarrow> jval option) \<Rightarrow> jose" where
  "one_token key kid std priv =
     \<lparr>sign = (\<lambda>k i s p. if k = key \<and> i = kid \<and> s = std \<and> p = priv then Inr ''token'' else Inl ''unsupported''),
      parse = (\<lambda>t. if t = ''token'' then Some kid else None),
      verify = (\<lambda>t k. if t = ''token'' \<and> k = key
                      then Some (std, \<lambda>c. case std_claims_of std c of Some v \<Rightarrow> Some v | None \<Rightarrow> priv c) else None),
      validate = (\<lambda>s e lw.
        (exIssuer e = [] \<or> stdIssuer s = exIssuer e) \<and> (exAnyAudience e = [] \<or> set (stdAudience s) \<inter> set (exAnyAudience e) \<noteq> {})
        \<and> (case stdNotBefore s of None \<Rightarrow> True | Some t \<Rightarrow> t \<le> exTime e + lw)
        \<and> (case stdExpiry s of None \<Rightarrow> True | Some t \<Rightarrow> exTime e - lw \<le> t)
        \<and> (case stdIssuedAt s of None \<Rightarrow> True | Some t \<Rightarrow> t \<le> exTime e + lw))\<rparr>"

lemma one_token_laws: "jose_laws (one_token key kid std priv)"
  unfolding jose_laws_def one_token_def by (auto split: if_splits)

definition exIssuerRec :: Issuer where
  "exIssuerRec = \<lparr>issIssuer = ''app'', issAudience = [''svc''], issTTL = 3600000000000, issKey = 7, issKID = ''k1''\<rparr>"

definition exPrincipal :: "jval Principal" where
  "exPrincipal = \<lparr>Subject = ''amy'', pTenant = ''t1'', Groups = [''ops''], Scopes = [], Claims = Map.empty\<rparr>"

definition exVerifier :: oidc_authenticator where
  "exVerifier = \<lparr>auIssuer = ''app'', auAudiences = [''svc''], auLeeway = 30000000000\<rparr>"

definition exStd :: StdClaims where
  "exStd = \<lparr>stdIssuer = ''app'', stdSubject = ''amy'', stdAudience = [''svc''], stdExpiry = Some 3605000000000,
     stdNotBefore = Some 5000000000, stdIssuedAt = Some 5000000000\<rparr>"

definition exJose :: jose where
  "exJose = one_token 7 ''k1'' exStd (private_claims exPrincipal)"

lemma exMint: "Mint exJose exIssuerRec 5000000000 exPrincipal = Inr ''token''"
  by (simp add: Mint_def exJose_def one_token_def exIssuerRec_def exStd_def exPrincipal_def NumericDate_def)


lemma exAuthenticate: "\<exists>p. Authenticate exJose exVerifier 9000000000 (Inr (JWKS exIssuerRec)) ''token'' = Inr p"
  by (simp add: Authenticate_def exJose_def one_token_def selectKey_def JWKS_def exIssuerRec_def exVerifier_def exStd_def)

theorem authenticate_sound_witness:
  "\<exists>kid std priv. sign exJose 7 kid std priv = Inr ''token'' \<and> stdIssuer std = ''app'' \<and> ''svc'' \<in> set (stdAudience std)"
proof -
  have laws: "jose_laws exJose" unfolding exJose_def by (rule one_token_laws)
  obtain p where "Authenticate exJose exVerifier 9000000000 (Inr (JWKS exIssuerRec)) ''token'' = Inr p" using exAuthenticate by blast
  from authenticate_sound [OF laws this] obtain k kid std priv where "k \<in> set (JWKS exIssuerRec)"
    "sign exJose (jwkKey k) kid std priv = Inr ''token''" "stdIssuer std = ''app''" "''svc'' \<in> set (stdAudience std)"
    by (auto simp: exVerifier_def)
  then show ?thesis by (intro exI [of _ kid] exI [of _ std] exI [of _ priv]) (simp add: JWKS_def exIssuerRec_def)
qed

text \<open>A new key is not seen before the cache expires, also when a token asks for it.\<close>

theorem kid_miss_not_refreshed:
  assumes "haveOnce r" "tnow - fetched r < rjTTL r" "parse J bearer = Some kid" "kid \<noteq> []" "kid \<notin> jwkID ` set (cached r)"
  shows "\<exists>e. Authenticate J a tnow (fst (RemoteJWKS_keySet tnow (Inr fresh_keys) r)) bearer = Inl e"
proof -
  have "rjTTL r > 0 \<or> tnow - fetched r < 5 * 60 * 1000000000" using assms(2) by linarith
  then have "fst (RemoteJWKS_keySet tnow (Inr fresh_keys) r) = Inr (cached r)" using assms(1,2) by (auto simp: RemoteJWKS_keySet_def Let_def)
  moreover have "find (\<lambda>k. jwkID k = kid) (cached r) = None" using assms(5) by (auto simp: find_None_iff)
  ultimately show ?thesis using assms(3,4) by (simp add: Authenticate_def selectKey_def)
qed

end
