(* ===== verification/Authn_Exchange.thy ===== *)
theory Authn_Exchange
  imports Authn_Oidc
begin

text \<open>
  The token exchange (\<^verbatim>\<open>src/authn/oidc/exchanger.go\<close>): \<^verbatim>\<open>TokenFor\<close> with its cache and single flight, run by any number of
  callers at once. Each section under the mutex is one step; the HTTP exchange happens between two of them. Decoding of a
  token is a parameter; the token endpoint may answer anything.
\<close>

section \<open>The exchange\<close>

text \<open>What a token says of itself, without verification.\<close>

record token_facts =
  tfSubject :: string
  tfAudience :: "string list"
  tfExpiry :: "go_time option"

type_synonym decode = "string \<Rightarrow> token_facts option"

record http_response =
  hrStatus :: nat
  hrParses :: bool
  hrAccessToken :: string
  hrExpiresIn :: int

text \<open>The token and its expiry, which may be unknown (Go's zero time).\<close>

definition exchange :: "decode \<Rightarrow> go_time \<Rightarrow> string + http_response \<Rightarrow> string + string \<times> go_time" where
  "exchange dec tnow answer =
     (case answer of
        Inl e \<Rightarrow> Inl (''oidc: exchange request: '' @ e)
      | Inr r \<Rightarrow>
          if hrStatus r \<noteq> 200 then Inl ''oidc: exchange failed''
          else if \<not> hrParses r then Inl ''oidc: parse exchange response''
          else if hrAccessToken r = [] then Inl ''oidc: exchange response has no access_token''
          else let at0 = (if hrExpiresIn r > 0 then tnow + wrap64 (hrExpiresIn r * 1000000000) else 0);
                   at1 = (case dec (hrAccessToken r) of
                            None \<Rightarrow> at0
                          | Some f \<Rightarrow> (case tfExpiry f of None \<Rightarrow> at0 | Some e \<Rightarrow> if at0 = 0 \<or> e < at0 then e else at0))
               in Inr (hrAccessToken r, at1))"

section \<open>The exchanger\<close>

type_synonym cacheKey = "string \<times> string"

record cacheEntry =
  ceToken :: string
  ceExpiresAt :: go_time

record exchangeCall =
  ecKey :: cacheKey
  ecResult :: "(string + string) option"

record Exchanger =
  exSkew :: duration
  exCache :: "cacheKey \<Rightarrow> cacheEntry option"
  inflight :: "cacheKey \<Rightarrow> nat option"
  calls :: "exchangeCall list"

record ExchangeConfig =
  TokenEndpoint :: string
  ClientID :: string
  Skew :: duration

definition NewExchanger :: "ExchangeConfig \<Rightarrow> string + Exchanger" where
  "NewExchanger cfg =
     (if TokenEndpoint cfg = [] then Inl ''oidc: ExchangeConfig.TokenEndpoint is required''
      else if ClientID cfg = [] then Inl ''oidc: ExchangeConfig.ClientID is required''
      else Inr \<lparr>exSkew = (if Skew cfg \<le> 0 then 30 * 1000000000 else Skew cfg), exCache = Map.empty, inflight = Map.empty, calls = []\<rparr>)"

text \<open>Where a caller is: before the call, waiting for another's exchange, exchanging itself, or done. A caller keeps its inbound
  bearer and the audience it asks for.\<close>

datatype caller = NotCalled | WaitingFor nat string string | Exchanging nat string string | Answered string string "string + string"

definition TokenFor_enter :: "decode \<Rightarrow> go_time \<Rightarrow> string \<times> bool \<Rightarrow> string \<Rightarrow> Exchanger \<Rightarrow> caller \<times> Exchanger" where
  "TokenFor_enter dec tnow bearer aud ex =
     (let raw = fst bearer in
      if \<not> snd bearer \<or> raw = [] then (Answered raw aud (Inl ''oidc: token exchange: no inbound bearer on context''), ex)
      else case dec raw of
             None \<Rightarrow> (Answered raw aud (Inl ''oidc: token exchange: decode inbound bearer''), ex)
           | Some f \<Rightarrow>
               if List.member (tfAudience f) aud then (Answered raw aud (Inr raw), ex)
               else let key = (tfSubject f, aud) in
                    (case (case exCache ex key of Some ent \<Rightarrow> if tnow < ceExpiresAt ent then Some (ceToken ent) else None | None \<Rightarrow> None) of
                       Some token \<Rightarrow> (Answered raw aud (Inr token), ex)
                     | None \<Rightarrow>
                         (case inflight ex key of
                            Some call \<Rightarrow> (WaitingFor call raw aud, ex)
                          | None \<Rightarrow>
                              (Exchanging (length (calls ex)) raw aud,
                               ex\<lparr>inflight := (inflight ex)(key \<mapsto> length (calls ex)),
                                  calls := calls ex @ [\<lparr>ecKey = key, ecResult = None\<rparr>]\<rparr>))))"

definition TokenFor_finish :: "go_time \<Rightarrow> nat \<Rightarrow> string + string \<times> go_time \<Rightarrow> Exchanger \<Rightarrow> (string + string) \<times> Exchanger" where
  "TokenFor_finish tnow i res ex =
     (let key = ecKey (calls ex ! i);
          ex1 = ex\<lparr>inflight := (inflight ex)(key := None)\<rparr>;
          ex2 = (case res of
                   Inl _ \<Rightarrow> ex1
                 | Inr (token, at) \<Rightarrow>
                     if at - exSkew ex > tnow then ex1\<lparr>exCache := (exCache ex1)(key \<mapsto> \<lparr>ceToken = token, ceExpiresAt = at - exSkew ex\<rparr>)\<rparr>
                     else ex1);
          out = (case res of Inl e \<Rightarrow> Inl e | Inr (token, _) \<Rightarrow> Inr token)
      in (out, ex2\<lparr>calls := (calls ex2)[i := (calls ex2 ! i)\<lparr>ecResult := Some out\<rparr>]\<rparr>))"

section \<open>Concurrent callers\<close>

text \<open>\<open>issued\<close> is the history of what the endpoint answered: the subject token it got, the audience and the token.\<close>

record exchange_world =
  exch :: Exchanger
  callers :: "nat \<Rightarrow> caller"
  issued :: "(string \<times> string \<times> string) list"

inductive exchange_step :: "decode \<Rightarrow> exchange_world \<Rightarrow> exchange_world \<Rightarrow> bool" for dec where
  enter: "callers w p = NotCalled \<Longrightarrow> TokenFor_enter dec tnow bearer aud (exch w) = (st, ex) \<Longrightarrow>
    exchange_step dec w (w\<lparr>exch := ex, callers := (callers w)(p := st)\<rparr>)"
| finish: "callers w p = Exchanging i raw aud \<Longrightarrow> exchange dec tnow answer = res \<Longrightarrow> TokenFor_finish tnow i res (exch w) = (out, ex) \<Longrightarrow>
    exchange_step dec w (w\<lparr>exch := ex, callers := (callers w)(p := Answered raw aud out),
      issued := issued w @ (case res of Inl _ \<Rightarrow> [] | Inr (token, _) \<Rightarrow> [(raw, aud, token)])\<rparr>)"
| wake: "callers w p = WaitingFor i raw aud \<Longrightarrow> ecResult (calls (exch w) ! i) = Some out \<Longrightarrow>
    exchange_step dec w (w\<lparr>callers := (callers w)(p := Answered raw aud out)\<rparr>)"

definition quiet_exchange :: "Exchanger \<Rightarrow> exchange_world" where
  "quiet_exchange ex = \<lparr>exch = ex, callers = (\<lambda>_. NotCalled), issued = []\<rparr>"

section \<open>The invariant\<close>

definition subject_of :: "decode \<Rightarrow> string \<Rightarrow> string" where
  "subject_of dec raw = (case dec raw of None \<Rightarrow> [] | Some f \<Rightarrow> tfSubject f)"

text \<open>A token that the endpoint issued for the audience on behalf of a bearer of the subject.\<close>

definition scoped :: "decode \<Rightarrow> exchange_world \<Rightarrow> cacheKey \<Rightarrow> string \<Rightarrow> bool" where
  "scoped dec w key token \<longleftrightarrow> (\<exists>raw. (raw, snd key, token) \<in> set (issued w) \<and> subject_of dec raw = fst key)"

definition call_ok :: "decode \<Rightarrow> exchange_world \<Rightarrow> nat \<Rightarrow> cacheKey \<Rightarrow> bool" where
  "call_ok dec w i key \<longleftrightarrow> i < length (calls (exch w)) \<and> ecKey (calls (exch w) ! i) = key"

definition caller_ok :: "decode \<Rightarrow> exchange_world \<Rightarrow> caller \<Rightarrow> bool" where
  "caller_ok dec w st \<longleftrightarrow>
     (case st of
        NotCalled \<Rightarrow> True
      | WaitingFor i raw aud \<Rightarrow> call_ok dec w i (subject_of dec raw, aud)
      | Exchanging i raw aud \<Rightarrow> call_ok dec w i (subject_of dec raw, aud) \<and> inflight (exch w) (subject_of dec raw, aud) = Some i
          \<and> ecResult (calls (exch w) ! i) = None
      | Answered raw aud (Inr token) \<Rightarrow>
          (\<exists>f. dec raw = Some f \<and> token = raw \<and> aud \<in> set (tfAudience f)) \<or> scoped dec w (subject_of dec raw, aud) token
      | Answered raw aud (Inl _) \<Rightarrow> True)"

definition exchange_inv :: "decode \<Rightarrow> exchange_world \<Rightarrow> bool" where
  "exchange_inv dec w \<longleftrightarrow>
     (\<forall>p. caller_ok dec w (callers w p))
   \<and> (\<forall>key ent. exCache (exch w) key = Some ent \<longrightarrow> scoped dec w key (ceToken ent))
   \<and> (\<forall>i < length (calls (exch w)). case ecResult (calls (exch w) ! i) of
         None \<Rightarrow> \<exists>p raw aud. callers w p = Exchanging i raw aud
       | Some (Inr token) \<Rightarrow> scoped dec w (ecKey (calls (exch w) ! i)) token
       | Some (Inl _) \<Rightarrow> True)
   \<and> (\<forall>key i. inflight (exch w) key = Some i \<longrightarrow> call_ok dec w i key \<and> ecResult (calls (exch w) ! i) = None)
   \<and> (\<forall>p q i raw aud raw' aud'. callers w p = Exchanging i raw aud \<longrightarrow> callers w q = Exchanging i raw' aud' \<longrightarrow> p = q)"

lemma exchange_invD:
  assumes "exchange_inv dec w"
  shows "caller_ok dec w (callers w p)"
    and "exCache (exch w) key = Some ent \<Longrightarrow> scoped dec w key (ceToken ent)"
    and "i < length (calls (exch w)) \<Longrightarrow> ecResult (calls (exch w) ! i) = None \<Longrightarrow> \<exists>p raw aud. callers w p = Exchanging i raw aud"
    and "i < length (calls (exch w)) \<Longrightarrow> ecResult (calls (exch w) ! i) = Some (Inr token) \<Longrightarrow> scoped dec w (ecKey (calls (exch w) ! i)) token"
    and "inflight (exch w) key = Some i \<Longrightarrow> call_ok dec w i key \<and> ecResult (calls (exch w) ! i) = None"
    and "callers w p = Exchanging i raw aud \<Longrightarrow> callers w q = Exchanging i raw' aud' \<Longrightarrow> p = q"
proof -
  have a: "\<forall>p. caller_ok dec w (callers w p)" "\<forall>key ent. exCache (exch w) key = Some ent \<longrightarrow> scoped dec w key (ceToken ent)"
    and c: "\<And>i. i < length (calls (exch w)) \<Longrightarrow> case ecResult (calls (exch w) ! i) of
         None \<Rightarrow> \<exists>p raw aud. callers w p = Exchanging i raw aud
       | Some (Inr token) \<Rightarrow> scoped dec w (ecKey (calls (exch w) ! i)) token
       | Some (Inl _) \<Rightarrow> True"
    and b: "\<forall>key i. inflight (exch w) key = Some i \<longrightarrow> call_ok dec w i key \<and> ecResult (calls (exch w) ! i) = None"
    and e: "\<forall>p q i raw aud raw' aud'. callers w p = Exchanging i raw aud \<longrightarrow> callers w q = Exchanging i raw' aud' \<longrightarrow> p = q"
    using assms unfolding exchange_inv_def by (blast, blast, blast, blast, blast)
  show "caller_ok dec w (callers w p)" using a(1) by blast
  show "exCache (exch w) key = Some ent \<Longrightarrow> scoped dec w key (ceToken ent)" using a(2) by blast
  show "i < length (calls (exch w)) \<Longrightarrow> ecResult (calls (exch w) ! i) = None \<Longrightarrow> \<exists>p raw aud. callers w p = Exchanging i raw aud"
    using c [of i] by simp
  show "i < length (calls (exch w)) \<Longrightarrow> ecResult (calls (exch w) ! i) = Some (Inr token) \<Longrightarrow> scoped dec w (ecKey (calls (exch w) ! i)) token"
    using c [of i] by simp
  show "inflight (exch w) key = Some i \<Longrightarrow> call_ok dec w i key \<and> ecResult (calls (exch w) ! i) = None" using b by blast
  show "callers w p = Exchanging i raw aud \<Longrightarrow> callers w q = Exchanging i raw' aud' \<Longrightarrow> p = q" using e by blast
qed

lemma exchange_invI:
  assumes "\<And>p. caller_ok dec w (callers w p)"
    and "\<And>key ent. exCache (exch w) key = Some ent \<Longrightarrow> scoped dec w key (ceToken ent)"
    and "\<And>i. i < length (calls (exch w)) \<Longrightarrow> ecResult (calls (exch w) ! i) = None \<Longrightarrow> \<exists>p raw aud. callers w p = Exchanging i raw aud"
    and "\<And>i token. i < length (calls (exch w)) \<Longrightarrow> ecResult (calls (exch w) ! i) = Some (Inr token) \<Longrightarrow> scoped dec w (ecKey (calls (exch w) ! i)) token"
    and "\<And>key i. inflight (exch w) key = Some i \<Longrightarrow> call_ok dec w i key \<and> ecResult (calls (exch w) ! i) = None"
    and "\<And>p q i raw aud raw' aud'. callers w p = Exchanging i raw aud \<Longrightarrow> callers w q = Exchanging i raw' aud' \<Longrightarrow> p = q"
  shows "exchange_inv dec w"
  unfolding exchange_inv_def using assms(1,2,5,6)
  by (auto split: option.split sum.split intro: assms(3,4))

text \<open>A caller that gets an answer or starts to wait changes nothing else.\<close>

lemma exchange_inv_caller:
  assumes inv: "exchange_inv dec w" and ok: "caller_ok dec w st"
    and old: "\<And>i raw aud. callers w p \<noteq> Exchanging i raw aud" and new: "\<And>i raw aud. st \<noteq> Exchanging i raw aud"
  shows "exchange_inv dec (w\<lparr>callers := (callers w)(p := st)\<rparr>)"
proof (rule exchange_invI)
  note d = exchange_invD [OF inv]
  have sc: "scoped dec (w\<lparr>callers := f\<rparr>) = scoped dec w" "call_ok dec (w\<lparr>callers := f\<rparr>) = call_ok dec w"
    "caller_ok dec (w\<lparr>callers := f\<rparr>) = caller_ok dec w" for f
    by (simp_all add: fun_eq_iff scoped_def call_ok_def caller_ok_def split: caller.split sum.split)
  show "caller_ok dec (w\<lparr>callers := (callers w)(p := st)\<rparr>) (callers (w\<lparr>callers := (callers w)(p := st)\<rparr>) q)" for q
    using ok d(1) by (simp add: sc)
  show "\<exists>q raw aud. callers (w\<lparr>callers := (callers w)(p := st)\<rparr>) q = Exchanging i raw aud"
    if i: "i < length (calls (exch (w\<lparr>callers := (callers w)(p := st)\<rparr>)))"
      "ecResult (calls (exch (w\<lparr>callers := (callers w)(p := st)\<rparr>)) ! i) = None" for i
  proof -
    have "\<exists>q raw aud. callers w q = Exchanging i raw aud" using d(3) [of i] i by simp
    then obtain q raw aud where q: "callers w q = Exchanging i raw aud" by blast
    then have "q \<noteq> p" using old by auto
    then show ?thesis using q by (intro exI [of _ q]) simp
  qed
  show "a = b" if "callers (w\<lparr>callers := (callers w)(p := st)\<rparr>) a = Exchanging i raw aud"
    "callers (w\<lparr>callers := (callers w)(p := st)\<rparr>) b = Exchanging i raw' aud'" for a b i raw aud raw' aud'
    using that new d(6) by (auto split: if_splits)
qed (use exchange_invD(2,4,5) [OF inv] in \<open>simp_all add: scoped_def call_ok_def\<close>)

lemma enter_cases:
  assumes "TokenFor_enter dec tnow (raw, ok) aud ex = (st, ex')"
  obtains (none) e where "st = Answered raw aud (Inl e)" "ex' = ex"
    | (pass) f where "st = Answered raw aud (Inr raw)" "ex' = ex" "dec raw = Some f" "aud \<in> set (tfAudience f)"
    | (hit) f ent where "st = Answered raw aud (Inr (ceToken ent))" "ex' = ex" "dec raw = Some f" "exCache ex (tfSubject f, aud) = Some ent"
    | (wait) f i where "st = WaitingFor i raw aud" "ex' = ex" "dec raw = Some f" "inflight ex (tfSubject f, aud) = Some i"
    | (lead) f where "st = Exchanging (length (calls ex)) raw aud" "dec raw = Some f" "inflight ex (tfSubject f, aud) = None"
        "ex' = ex\<lparr>inflight := (inflight ex)((tfSubject f, aud) \<mapsto> length (calls ex)),
                  calls := calls ex @ [\<lparr>ecKey = (tfSubject f, aud), ecResult = None\<rparr>]\<rparr>"
proof (cases "\<not> ok \<or> raw = []")
  case True
  then have "st = Answered raw aud (Inl ''oidc: token exchange: no inbound bearer on context'')" "ex' = ex"
    using assms by (auto simp: TokenFor_enter_def)
  then show ?thesis by (rule none)
next
  case ok: False
  show ?thesis
  proof (cases "dec raw")
    case None
    then have "st = Answered raw aud (Inl ''oidc: token exchange: decode inbound bearer'')" "ex' = ex"
      using assms ok by (auto simp: TokenFor_enter_def)
    then show ?thesis by (rule none)
  next
    case (Some f)
    show ?thesis
    proof (cases "List.member (tfAudience f) aud")
      case True
      then show ?thesis using assms ok Some pass [of f] by (simp add: TokenFor_enter_def List.member_iff)
    next
      case False
      let ?hit = "case exCache ex (tfSubject f, aud) of Some ent \<Rightarrow> if tnow < ceExpiresAt ent then Some (ceToken ent) else None | None \<Rightarrow> None"
      have e: "(case ?hit of Some token \<Rightarrow> (Answered raw aud (Inr token), ex)
          | None \<Rightarrow> (case inflight ex (tfSubject f, aud) of
                Some call \<Rightarrow> (WaitingFor call raw aud, ex)
              | None \<Rightarrow> (Exchanging (length (calls ex)) raw aud,
                   ex\<lparr>inflight := (inflight ex)((tfSubject f, aud) \<mapsto> length (calls ex)),
                      calls := calls ex @ [\<lparr>ecKey = (tfSubject f, aud), ecResult = None\<rparr>]\<rparr>))) = (st, ex')"
        using assms ok Some False by (simp add: TokenFor_enter_def Let_def)
      show ?thesis
      proof (cases ?hit)
        case None
        show ?thesis
        proof (cases "inflight ex (tfSubject f, aud)")
          case no: None
          show ?thesis using e unfolding None no option.case by (intro lead [of f]) (use Some no in auto)
        next
          case (Some i)
          show ?thesis using e unfolding None Some option.case by (intro wait [of i f]) (use \<open>dec raw = Some f\<close> Some in auto)
        qed
      next
        case h: (Some token)
        then obtain ent where "exCache ex (tfSubject f, aud) = Some ent" "ceToken ent = token" by (auto split: option.splits if_splits)
        then show ?thesis using e unfolding h option.case by (intro hit [of ent f]) (use \<open>dec raw = Some f\<close> in auto)
      qed
    qed
  qed
qed

lemma enter_inv:
  assumes inv: "exchange_inv dec w" and nc: "callers w p = NotCalled"
    and e: "TokenFor_enter dec tnow bearer aud (exch w) = (st, ex)"
  shows "exchange_inv dec (w\<lparr>exch := ex, callers := (callers w)(p := st)\<rparr>)"
proof -
  note d = exchange_invD [OF inv]
  let ?raw = "fst bearer"
  have same: "exchange_inv dec (w\<lparr>exch := ex, callers := (callers w)(p := st)\<rparr>)"
    if "ex = exch w" "caller_ok dec w st" "\<And>i raw aud. st \<noteq> Exchanging i raw aud"
    using exchange_inv_caller [OF inv that(2), of p] nc that(1,3) by simp
  have e': "TokenFor_enter dec tnow (?raw, snd bearer) aud (exch w) = (st, ex)" using e by simp
  from e' show ?thesis
  proof (cases rule: enter_cases)
    case none
    then show ?thesis by (intro same) (simp_all add: caller_ok_def)
  next
    case pass
    then show ?thesis by (intro same) (simp_all add: caller_ok_def)
  next
    case (hit f ent)
    then show ?thesis using d(2) [OF hit(4)] by (intro same) (simp_all add: caller_ok_def subject_of_def)
  next
    case (wait f i)
    then show ?thesis using d(5) [OF wait(4)] by (intro same) (simp_all add: caller_ok_def subject_of_def)
  next
    case (lead f)
    let ?n = "length (calls (exch w))" and ?key = "(tfSubject f, aud)"
    let ?w = "w\<lparr>exch := ex, callers := (callers w)(p := st)\<rparr>"
    have key: "(subject_of dec ?raw, aud) = ?key" by (simp add: subject_of_def lead(2))
    have calls: "calls ex = calls (exch w) @ [\<lparr>ecKey = ?key, ecResult = None\<rparr>]"
      and infl: "inflight ex = (inflight (exch w))(?key \<mapsto> ?n)" and cache: "exCache ex = exCache (exch w)"
      and iss: "issued ?w = issued w" by (simp_all add: lead(4))
    have sc: "scoped dec ?w = scoped dec w" by (simp add: fun_eq_iff scoped_def)
    have co: "call_ok dec w i k \<Longrightarrow> call_ok dec ?w i k" for i k by (simp add: call_ok_def calls nth_append)
    have res: "i < ?n \<Longrightarrow> calls ex ! i = calls (exch w) ! i" for i by (simp add: calls nth_append)
    have busy: "callers w q = Exchanging i raw aud' \<Longrightarrow> i < ?n" for q i raw aud'
      using d(1) [of q] by (simp add: caller_ok_def call_ok_def)
    show ?thesis
    proof (rule exchange_invI)
      fix q
      show "caller_ok dec ?w (callers ?w q)"
      proof (cases "q = p")
        case True
        have sub: "subject_of dec ?raw = tfSubject f" by (simp add: subject_of_def lead(2))
        have "call_ok dec ?w ?n ?key" "ecResult (calls (exch ?w) ! ?n) = None" "inflight (exch ?w) ?key = Some ?n"
          by (simp_all add: call_ok_def calls infl)
        then have "caller_ok dec ?w (Exchanging ?n ?raw aud)" unfolding caller_ok_def caller.case sub by blast
        then show ?thesis using True by (simp add: lead(1))
      next
        case False
        have "caller_ok dec ?w (callers w q)"
        proof (cases "callers w q")
          case (Exchanging i raw aud')
          have ok: "call_ok dec w i (subject_of dec raw, aud')" "inflight (exch w) (subject_of dec raw, aud') = Some i"
            "ecResult (calls (exch w) ! i) = None" using d(1) [of q] Exchanging by (simp_all add: caller_ok_def)
          then have "(subject_of dec raw, aud') \<noteq> ?key" "i < ?n" using lead(3) by (auto simp: call_ok_def)
          then show ?thesis using ok by (simp add: Exchanging caller_ok_def co infl res del: prod.inject)
        next
          case (Answered raw aud' out)
          then show ?thesis using d(1) [of q] by (simp add: caller_ok_def sc split: sum.splits)
        qed (use d(1) [of q] in \<open>simp_all add: caller_ok_def co\<close>)
        then show ?thesis using False by simp
      qed
    next
      fix i assume i: "i < length (calls (exch ?w))" "ecResult (calls (exch ?w) ! i) = None"
      show "\<exists>q raw aud. callers ?w q = Exchanging i raw aud"
      proof (cases "i = ?n")
        case True
        then show ?thesis by (intro exI [of _ p]) (simp add: lead(1))
      next
        case False
        then have "i < ?n" using i(1) by (simp add: calls)
        moreover from this have "ecResult (calls (exch w) ! i) = None" using i(2) res by simp
        ultimately obtain q raw aud' where "callers w q = Exchanging i raw aud'" using d(3) by blast
        moreover from this have "q \<noteq> p" using nc by auto
        ultimately show ?thesis by (intro exI [of _ q]) simp
      qed
    next
      fix i token assume i: "i < length (calls (exch ?w))" "ecResult (calls (exch ?w) ! i) = Some (Inr token)"
      then have "i < ?n" by (auto simp: calls nth_append less_Suc_eq)
      then show "scoped dec ?w (ecKey (calls (exch ?w) ! i)) token" using d(4) i(2) by (simp add: res sc)
    next
      fix k i assume k: "inflight (exch ?w) k = Some i"
      show "call_ok dec ?w i k \<and> ecResult (calls (exch ?w) ! i) = None"
      proof (cases "k = ?key")
        case True
        then have "i = ?n" using k by (simp add: infl)
        then show ?thesis using True by (simp add: call_ok_def calls)
      next
        case False
        then have "inflight (exch w) k = Some i" using k by (simp add: infl)
        then have "call_ok dec w i k" "ecResult (calls (exch w) ! i) = None" using d(5) by auto
        then show ?thesis using co res by (simp add: call_ok_def)
      qed
    next
      fix a b i raw aud1 raw' aud2
      assume "callers ?w a = Exchanging i raw aud1" "callers ?w b = Exchanging i raw' aud2"
      moreover have "callers w q \<noteq> Exchanging ?n raw0 aud0" for q raw0 aud0 using busy [of q ?n raw0 aud0] by auto
      ultimately show "a = b" using d(6) by (auto simp: lead(1) split: if_splits)
    qed (use d(2) in \<open>simp add: cache sc\<close>)
  qed
qed

lemma finish_cases:
  assumes "TokenFor_finish tnow i res ex = (out, ex')"
  shows "inflight ex' = (inflight ex)(ecKey (calls ex ! i) := None)"
    and "calls ex' = (calls ex)[i := (calls ex ! i)\<lparr>ecResult := Some out\<rparr>]"
    and "exCache ex' k = Some ent \<Longrightarrow> exCache ex k = Some ent \<or> (k = ecKey (calls ex ! i) \<and> out = Inr (ceToken ent))"
    and "out = Inr token \<Longrightarrow> \<exists>at. res = Inr (token, at)"
  using assms unfolding TokenFor_finish_def Let_def
  by (auto split: sum.splits prod.splits if_splits)

lemma finish_inv:
  assumes inv: "exchange_inv dec w" and p: "callers w p = Exchanging i raw aud"
    and f: "TokenFor_finish tnow i res (exch w) = (out, ex)"
  shows "exchange_inv dec (w\<lparr>exch := ex, callers := (callers w)(p := Answered raw aud out),
      issued := issued w @ (case res of Inl _ \<Rightarrow> [] | Inr (token, _) \<Rightarrow> [(raw, aud, token)])\<rparr>)" (is "exchange_inv dec ?w")
proof -
  note d = exchange_invD [OF inv]
  note fin = finish_cases [OF f]
  let ?key = "(subject_of dec raw, aud)"
  have own: "call_ok dec w i ?key" "inflight (exch w) ?key = Some i" "ecResult (calls (exch w) ! i) = None"
    using d(1) [of p] p by (simp_all add: caller_ok_def)
  have i: "i < length (calls (exch w))" and key: "ecKey (calls (exch w) ! i) = ?key" using own(1) by (simp_all add: call_ok_def)
  have ex: "exch ?w = ex" by simp
  have infl: "inflight ex = (inflight (exch w))(?key := None)" using fin(1) by (simp only: key)
  have mono: "scoped dec w k token \<Longrightarrow> scoped dec ?w k token" for k token by (auto simp: scoped_def)
  have new: "scoped dec ?w ?key token" if out: "out = Inr token" for token
    using fin(4) [OF out] by (auto simp: scoped_def intro!: exI [of _ raw])
  have co: "call_ok dec w j k \<Longrightarrow> call_ok dec ?w j k" for j k
    using fin(2) by (cases "j = i") (auto simp: call_ok_def)
  have res: "j \<noteq> i \<Longrightarrow> calls ex ! j = calls (exch w) ! j" for j using fin(2) by simp
  have resi: "ecResult (calls ex ! i) = Some out" "ecKey (calls ex ! i) = ?key" using fin(2) i key by simp_all
  have other: "j \<noteq> i" "(subject_of dec raw', aud') \<noteq> ?key" if "callers w q = Exchanging j raw' aud'" "q \<noteq> p" for q j raw' aud'
  proof -
    show "j \<noteq> i" using d(6) [OF p] that by blast
    then show "(subject_of dec raw', aud') \<noteq> ?key" using d(1) [of q] that own(2) by (auto simp: caller_ok_def)
  qed
  show ?thesis
  proof (rule exchange_invI)
    fix q
    show "caller_ok dec ?w (callers ?w q)"
    proof (cases "q = p")
      case True
      then show ?thesis using new by (simp add: caller_ok_def split: sum.split)
    next
      case False
      have "caller_ok dec ?w (callers w q)"
      proof (cases "callers w q")
        case (Exchanging j raw' aud')
        have "call_ok dec ?w j (subject_of dec raw', aud')" "inflight (exch ?w) (subject_of dec raw', aud') = Some j"
          "ecResult (calls (exch ?w) ! j) = None"
          using d(1) [of q] Exchanging other [OF Exchanging False] by (simp_all add: caller_ok_def co infl res del: prod.inject)
        then show ?thesis unfolding Exchanging caller_ok_def caller.case by blast
      next
        case (Answered raw' aud' out')
        then show ?thesis using d(1) [of q] mono by (auto simp: caller_ok_def split: sum.splits)
      qed (use d(1) [of q] co in \<open>simp_all add: caller_ok_def\<close>)
      then show ?thesis using False by simp
    qed
  next
    fix k ent assume "exCache (exch ?w) k = Some ent"
    then have "exCache (exch w) k = Some ent \<or> (k = ?key \<and> out = Inr (ceToken ent))"
      using fin(3) [of k ent] unfolding ex key by blast
    then show "scoped dec ?w k (ceToken ent)" using d(2) mono new by blast
  next
    fix j assume j: "j < length (calls (exch ?w))" "ecResult (calls (exch ?w) ! j) = None"
    then have "j \<noteq> i" using resi(1) by auto
    then obtain q raw' aud' where q: "callers w q = Exchanging j raw' aud'" using d(3) [of j] j res fin(2) by auto
    then have "q \<noteq> p" using p \<open>j \<noteq> i\<close> by auto
    then show "\<exists>q raw aud. callers ?w q = Exchanging j raw aud" using q by (intro exI [of _ q]) simp
  next
    fix j token assume j: "j < length (calls (exch ?w))" "ecResult (calls (exch ?w) ! j) = Some (Inr token)"
    show "scoped dec ?w (ecKey (calls (exch ?w) ! j)) token"
    proof (cases "j = i")
      case True
      then have "out = Inr token" using j(2) resi(1) by simp
      then show ?thesis using new True resi(2) by simp
    next
      case False
      then have "scoped dec w (ecKey (calls (exch w) ! j)) token" using d(4) j res fin(2) by auto
      then show ?thesis using mono res [OF False] by simp
    qed
  next
    fix k j assume k: "inflight (exch ?w) k = Some j"
    then have w: "inflight (exch w) k = Some j" and ne: "k \<noteq> ?key" by (auto simp: infl split: if_splits)
    then have c: "call_ok dec w j k" "ecResult (calls (exch w) ! j) = None" using d(5) by auto
    then have "j \<noteq> i" using ne key by (auto simp: call_ok_def)
    then show "call_ok dec ?w j k \<and> ecResult (calls (exch ?w) ! j) = None" using c(2) co [OF c(1)] res by simp
  next
    fix a b j raw1 aud1 raw2 aud2
    assume "callers ?w a = Exchanging j raw1 aud1" "callers ?w b = Exchanging j raw2 aud2"
    then show "a = b" using d(6) by (auto split: if_splits)
  qed
qed

lemma wake_inv:
  assumes inv: "exchange_inv dec w" and p: "callers w p = WaitingFor i raw aud"
    and out: "ecResult (calls (exch w) ! i) = Some out"
  shows "exchange_inv dec (w\<lparr>callers := (callers w)(p := Answered raw aud out)\<rparr>)"
proof -
  note d = exchange_invD [OF inv]
  have c: "i < length (calls (exch w))" "ecKey (calls (exch w) ! i) = (subject_of dec raw, aud)"
    using d(1) [of p] p by (simp_all add: caller_ok_def call_ok_def)
  have "caller_ok dec w (Answered raw aud out)"
    using d(4) [OF c(1)] out c(2) by (auto simp: caller_ok_def split: sum.split)
  then show ?thesis using p by (intro exchange_inv_caller [OF inv]) simp_all
qed

lemma exchange_step_inv: "exchange_step dec w w' \<Longrightarrow> exchange_inv dec w \<Longrightarrow> exchange_inv dec w'"
  by (induction rule: exchange_step.induct) (blast intro: enter_inv finish_inv wake_inv)+

lemma exchange_inv_start:
  assumes "NewExchanger cfg = Inr ex" shows "exchange_inv dec (quiet_exchange ex)"
  using assms
  by (auto simp: NewExchanger_def quiet_exchange_def exchange_inv_def caller_ok_def split: if_splits)

lemma exchange_reach_inv:
  assumes "NewExchanger cfg = Inr ex" "(exchange_step dec)\<^sup>*\<^sup>* (quiet_exchange ex) w"
  shows "exchange_inv dec w"
  using assms(2) by induction (blast intro: exchange_inv_start [OF assms(1)] exchange_step_inv)+

section \<open>What a caller gets\<close>

text \<open>C20: 
  In every interleaving: a caller's token is its own bearer (which already names the audience) or one that the endpoint issued for
  exactly that audience and for a bearer of the caller's subject; two callers never exchange for the same subject and audience
  at once; and a waiting caller's exchange has finished or has a caller that is running it, so none waits for nobody.
\<close>

theorem exchange_scoped:
  assumes "NewExchanger cfg = Inr ex" "(exchange_step dec)\<^sup>*\<^sup>* (quiet_exchange ex) w"
  shows "(callers w p = Answered raw aud (Inr token) \<longrightarrow>
            (\<exists>f. dec raw = Some f \<and> token = raw \<and> aud \<in> set (tfAudience f))
          \<or> (\<exists>raw'. (raw', aud, token) \<in> set (issued w) \<and> subject_of dec raw' = subject_of dec raw))
       \<and> (callers w p = Exchanging i raw aud \<longrightarrow> callers w q = Exchanging j raw2 aud \<longrightarrow>
            subject_of dec raw2 = subject_of dec raw \<longrightarrow> p = q)
       \<and> (callers w p = WaitingFor i raw aud \<longrightarrow>
            (\<exists>out. ecResult (calls (exch w) ! i) = Some out) \<or> (\<exists>q raw2 aud2. callers w q = Exchanging i raw2 aud2))"
proof (intro conjI impI)
  note d = exchange_invD [OF exchange_reach_inv [OF assms]]
  show "(\<exists>f. dec raw = Some f \<and> token = raw \<and> aud \<in> set (tfAudience f))
          \<or> (\<exists>raw'. (raw', aud, token) \<in> set (issued w) \<and> subject_of dec raw' = subject_of dec raw)"
    if "callers w p = Answered raw aud (Inr token)"
    using d(1) [of p] that by (simp add: caller_ok_def scoped_def)
  show "p = q" if "callers w p = Exchanging i raw aud" "callers w q = Exchanging j raw2 aud" "subject_of dec raw2 = subject_of dec raw"
  proof -
    have "i = j" using d(1) [of p] d(1) [of q] that by (simp add: caller_ok_def)
    then show ?thesis using d(6) that by blast
  qed
  show "(\<exists>out. ecResult (calls (exch w) ! i) = Some out) \<or> (\<exists>q raw2 aud2. callers w q = Exchanging i raw2 aud2)"
    if "callers w p = WaitingFor i raw aud"
  proof (cases "ecResult (calls (exch w) ! i)")
    case None
    then show ?thesis using d(1) [of p] d(3) [of i] that by (simp add: caller_ok_def call_ok_def)
  qed simp
qed

text \<open>Two bearers of one subject, and a run in which the second caller is served the token that was issued for the first one's bearer.\<close>

definition two_bearers :: decode where
  "two_bearers raw = (if raw \<in> {''tenant-a'', ''tenant-b''} then Some \<lparr>tfSubject = ''svc'', tfAudience = [''api''], tfExpiry = None\<rparr> else None)"

abbreviation svc_billing :: cacheKey where
  "svc_billing \<equiv> (''svc'', ''billing'')"

definition idle_exchanger :: Exchanger where
  "idle_exchanger = \<lparr>exSkew = 30 * 1000000000, exCache = Map.empty, inflight = Map.empty, calls = []\<rparr>"

definition asked_exchanger :: Exchanger where
  "asked_exchanger = idle_exchanger\<lparr>inflight := [svc_billing \<mapsto> 0], calls := [\<lparr>ecKey = svc_billing, ecResult = None\<rparr>]\<rparr>"

definition served_exchanger :: Exchanger where
  "served_exchanger = idle_exchanger\<lparr>exCache := [svc_billing \<mapsto> \<lparr>ceToken = ''tok-a'', ceExpiresAt = 30000000005\<rparr>],
     calls := [\<lparr>ecKey = svc_billing, ecResult = Some (Inr ''tok-a'')\<rparr>]\<rparr>"

lemma bearer_run:
  "NewExchanger \<lparr>TokenEndpoint = ''sts'', ClientID = ''me'', Skew = 0\<rparr> = Inr idle_exchanger"
  "TokenFor_enter two_bearers 5 (''tenant-a'', True) ''billing'' idle_exchanger = (Exchanging 0 ''tenant-a'' ''billing'', asked_exchanger)"
  "exchange two_bearers 5 (Inr \<lparr>hrStatus = 200, hrParses = True, hrAccessToken = ''tok-a'', hrExpiresIn = 60\<rparr>) = Inr (''tok-a'', 60000000005)"
  "TokenFor_finish 5 0 (Inr (''tok-a'', 60000000005)) asked_exchanger = (Inr ''tok-a'', served_exchanger)"
  "TokenFor_enter two_bearers 6 (''tenant-b'', True) ''billing'' served_exchanger = (Answered ''tenant-b'' ''billing'' (Inr ''tok-a''), served_exchanger)"
  by (simp_all add: NewExchanger_def TokenFor_enter_def exchange_def TokenFor_finish_def two_bearers_def idle_exchanger_def
      asked_exchanger_def served_exchanger_def List.member_iff wrap64_def Let_def fun_eq_iff)

text \<open>The world after each of the three steps.\<close>

abbreviation asked :: exchange_world where
  "asked \<equiv> (quiet_exchange idle_exchanger)\<lparr>exch := asked_exchanger,
     callers := (callers (quiet_exchange idle_exchanger))(3 := Exchanging 0 ''tenant-a'' ''billing'')\<rparr>"

abbreviation served :: exchange_world where
  "served \<equiv> asked\<lparr>exch := served_exchanger, callers := (callers asked)(3 := Answered ''tenant-a'' ''billing'' (Inr ''tok-a'')),
     issued := issued asked @ [(''tenant-a'', ''billing'', ''tok-a'')]\<rparr>"

abbreviation crossed :: exchange_world where
  "crossed \<equiv> served\<lparr>exch := served_exchanger, callers := (callers served)(4 := Answered ''tenant-b'' ''billing'' (Inr ''tok-a''))\<rparr>"

lemma crossed_reached: "(exchange_step two_bearers)\<^sup>*\<^sup>* (quiet_exchange idle_exchanger) crossed"
proof -
  have "exchange_step two_bearers (quiet_exchange idle_exchanger) asked"
    by (rule exchange_step.enter [of _ 3 _ 5 "(''tenant-a'', True)" "''billing''"]) (simp_all add: quiet_exchange_def bearer_run(2))
  moreover have "exchange_step two_bearers asked served"
    using exchange_step.finish [of asked 3 0 "''tenant-a''" "''billing''" two_bearers 5, OF _ bearer_run(3), of "Inr ''tok-a''" served_exchanger]
    by (simp add: bearer_run(4))
  moreover have "exchange_step two_bearers served crossed"
    by (rule exchange_step.enter [of _ 4 _ 6 "(''tenant-b'', True)" "''billing''"]) (simp_all add: quiet_exchange_def bearer_run(5))
  ultimately show ?thesis by (meson rtranclp.rtrancl_refl rtranclp.rtrancl_into_rtrancl)
qed

theorem exchange_scoped_witness:
  "\<exists>raw'. (raw', ''billing'', ''tok-a'') \<in> set (issued crossed) \<and> subject_of two_bearers raw' = subject_of two_bearers ''tenant-b''"
proof -
  have "callers crossed 4 = Answered ''tenant-b'' ''billing'' (Inr ''tok-a'')" by simp
  with exchange_scoped [OF bearer_run(1) crossed_reached, of 4 "''tenant-b''" "''billing''" "''tok-a''"]
  have "(\<exists>f. two_bearers ''tenant-b'' = Some f \<and> ''tok-a'' = ''tenant-b'' \<and> ''billing'' \<in> set (tfAudience f))
      \<or> (\<exists>raw'. (raw', ''billing'', ''tok-a'') \<in> set (issued crossed) \<and> subject_of two_bearers raw' = subject_of two_bearers ''tenant-b'')"
    by blast
  moreover have "''tok-a'' \<noteq> ''tenant-b''" by simp
  ultimately show ?thesis by blast
qed

text \<open>The cache key leaves out the bearer and its tenant, so the second bearer is served the token issued for the first.\<close>

theorem exchange_crosses_bearers:
  "\<exists>w. (exchange_step two_bearers)\<^sup>*\<^sup>* (quiet_exchange idle_exchanger) w
     \<and> callers w 4 = Answered ''tenant-b'' ''billing'' (Inr ''tok-a'') \<and> issued w = [(''tenant-a'', ''billing'', ''tok-a'')]"
  by (rule exI [of _ crossed]) (use crossed_reached in \<open>simp add: quiet_exchange_def\<close>)

end
