(* ===== verification/Cel_Sql.thy ===== *)
theory Cel_Sql
  imports Gorm_Outbox
begin

text \<open>
  The compiler of search expressions (\<^verbatim>\<open>src/cmd/internal/celsql/celsql.go\<close>): a checked CEL expression becomes a small tree of SQL
  nodes, which is printed for PostgreSQL and for SQLite. Parsing and checking are the library's: the compiler gets the syntax
  tree and the type of each node. A meaning of the source expressions and one of the SQL nodes state what the compiler keeps.
\<close>

section \<open>Checked expressions\<close>

datatype cel_lit = CelStr string | CelInt int | CelBool bool | CelOther string

text \<open>A selection says whether it is the test of \<^verbatim>\<open>has()\<close>; a call has an optional receiver.\<close>

datatype cel = CLit cel_lit | CIdent string | CSelect bool cel string | CCall string "cel option" "cel list"
  | CMap "(cel \<times> cel) list" | CList "cel list" | CStruct | CComprehension | CUnspecified

datatype kind = TString | TInt | TBool | TStruct | TMap | TOther

definition RootVar :: string where
  "RootVar = ''msg''"

definition op_Conditional :: string where "op_Conditional = ''_?_:_''"
definition op_Index :: string where "op_Index = ''_[_]''"
definition op_Add :: string where "op_Add = ''_+_''"
definition op_Equals :: string where "op_Equals = ''_==_''"
definition op_NotEquals :: string where "op_NotEquals = ''_!=_''"
definition op_LogicalAnd :: string where "op_LogicalAnd = ''_&&_''"
definition op_LogicalOr :: string where "op_LogicalOr = ''_||_''"
definition op_LogicalNot :: string where "op_LogicalNot = ''!_''"

lemmas op_defs = op_Conditional_def op_Index_def op_Add_def op_Equals_def op_NotEquals_def op_LogicalAnd_def op_LogicalOr_def op_LogicalNot_def

section \<open>SQL nodes\<close>

datatype sqlNode = ColNode string | StrNode string | IntNode int | BoolNode bool | ConcatNode "sqlNode list"
  | FuncNode string "sqlNode list" | CaseKeyNode sqlNode "(sqlNode \<times> sqlNode) list" | CaseCondNode "(sqlNode \<times> sqlNode) list" sqlNode
  | CmpNode string sqlNode sqlNode | BoolOpNode string "sqlNode list" | NotNode sqlNode | JsonNode string "string list"

section \<open>Compilation\<close>

text \<open>The first error of a list, or all its results.\<close>

fun seq :: "(string + 'a) list \<Rightarrow> string + 'a list" where
  "seq [] = Inr []"
| "seq (Inl e # rs) = Inl e"
| "seq (Inr x # rs) = (case seq rs of Inl e \<Rightarrow> Inl e | Inr xs \<Rightarrow> Inr (x # xs))"

definition literalNode :: "cel_lit \<Rightarrow> string + sqlNode" where
  "literalNode l =
     (case l of CelStr x \<Rightarrow> Inr (StrNode x) | CelInt x \<Rightarrow> Inr (IntNode x) | CelBool x \<Rightarrow> Inr (BoolNode x)
      | CelOther t \<Rightarrow> Inl (''celsql: unsupported literal type '' @ t))"

fun resolveAccessChain :: "cel \<Rightarrow> string + string \<times> string list" where
  "resolveAccessChain (CSelect tst op f) =
     (if op = CIdent RootVar then Inr (f, [])
      else case resolveAccessChain op of Inl e \<Rightarrow> Inl e | Inr (base, path) \<Rightarrow> Inr (base, path @ [f]))"
| "resolveAccessChain (CCall fn t [m, key]) =
     (if fn \<noteq> op_Index then Inl (''celsql: unsupported access via '' @ fn)
      else case key of
             CLit (CelStr ks) \<Rightarrow> (case resolveAccessChain m of Inl e \<Rightarrow> Inl e | Inr (base, path) \<Rightarrow> Inr (base, path @ [ks]))
           | _ \<Rightarrow> Inl ''celsql: map/JSON access key must be a string literal'')"
| "resolveAccessChain (CCall fn t args) =
     (if fn \<noteq> op_Index then Inl (''celsql: unsupported access via '' @ fn) else Inl ''celsql: malformed index expression'')"
| "resolveAccessChain e = Inl ''celsql: unsupported access chain''"

text \<open>The operands of a string concatenation, with nested concatenations opened.\<close>

fun add_leaves :: "(cel \<Rightarrow> kind) \<Rightarrow> cel \<Rightarrow> cel list" where
  "add_leaves ty (CCall fn t args) =
     (if fn = op_Add \<and> ty (CCall fn t args) = TString then concat (map (add_leaves ty) args) else [CCall fn t args])"
| "add_leaves ty e = [e]"

definition compileTernary :: "(string + sqlNode) list \<Rightarrow> string + sqlNode" where
  "compileTernary rs =
     (if length rs \<noteq> 3 then Inl ''celsql: malformed ternary''
      else map_sum id (\<lambda>ns. CaseCondNode [(ns ! 0, ns ! 1)] (ns ! 2)) (seq rs))"

definition compileMapLiteralLookup :: "string + sqlNode \<Rightarrow> (cel \<times> (string + sqlNode)) list \<Rightarrow> string + sqlNode" where
  "compileMapLiteralLookup key entries =
     (case key of
        Inl e \<Rightarrow> Inl e
      | Inr kn \<Rightarrow>
          map_sum id (CaseKeyNode kn)
            (seq (map (\<lambda>(k, v). case k of
                         CLit l \<Rightarrow> (case literalNode l of Inl e \<Rightarrow> Inl e | Inr n \<Rightarrow> (case v of Inl e \<Rightarrow> Inl e | Inr vn \<Rightarrow> Inr (n, vn)))
                       | _ \<Rightarrow> Inl ''celsql: map-literal keys must be literals'') entries)))"

definition compileCmp :: "string \<Rightarrow> (string + sqlNode) list \<Rightarrow> string + sqlNode" where
  "compileCmp sqlop rs =
     (if length rs \<noteq> 2 then Inl ''celsql: malformed comparison'' else map_sum id (\<lambda>ns. CmpNode sqlop (ns ! 0) (ns ! 1)) (seq rs))"

definition compileBoolOp :: "string \<Rightarrow> (string + sqlNode) list \<Rightarrow> string + sqlNode" where
  "compileBoolOp sqlop rs = map_sum id (BoolOpNode sqlop) (seq rs)"

definition compileNot :: "(string + sqlNode) list \<Rightarrow> string + sqlNode" where
  "compileNot rs = (if length rs \<noteq> 1 then Inl ''celsql: malformed negation'' else map_sum id (\<lambda>ns. NotNode (ns ! 0)) (seq rs))"

definition compileLower :: "(string + sqlNode) option \<Rightarrow> 'a list \<Rightarrow> string + sqlNode" where
  "compileLower t args =
     (case t of
        None \<Rightarrow> Inl ''celsql: lowerAscii requires a string receiver''
      | Some r \<Rightarrow> if length args \<noteq> 0 then Inl ''celsql: lowerAscii takes no arguments'' else map_sum id (\<lambda>n. FuncNode ''lower'' [n]) r)"

definition compileReplace :: "(string + sqlNode) option \<Rightarrow> (string + sqlNode) list \<Rightarrow> string + sqlNode" where
  "compileReplace t rs =
     (case t of
        None \<Rightarrow> Inl ''celsql: replace requires a string receiver''
      | Some r \<Rightarrow> if length rs \<noteq> 2 then Inl ''celsql: replace(from, to) takes exactly two arguments''
                  else map_sum id (FuncNode ''replace'') (seq (r # rs)))"

lemma entry_size: "(k, v) \<in> set es \<Longrightarrow> size v < size (CMap es)"
  by (induction es) auto

lemma leaf_size: "x \<in> set (add_leaves ty e) \<Longrightarrow> size x \<le> size e"
proof (induction ty e rule: add_leaves.induct)
  case (1 ty fn t args)
  show ?case
  proof (cases "fn = op_Add \<and> ty (CCall fn t args) = TString")
    case True
    then obtain a where a: "a \<in> set args" "x \<in> set (add_leaves ty a)" using 1(2) by auto
    have "size a < size (CCall fn t args)" using a(1) by (induction args) auto
    then show ?thesis using 1(1) [OF True a] by simp
  next
    case False
    have "x = CCall fn t args" using 1(2) unfolding add_leaves.simps if_not_P [OF False] by simp
    then show ?thesis by simp
  qed
qed simp_all

lemma arg_size: "a \<in> set args \<Longrightarrow> size a < size (CCall fn t args)"
  by (induction args) auto

lemma receiver_size: "size r < size (CCall fn (Some r) args)"
  by simp

function compile :: "(cel \<Rightarrow> kind) \<Rightarrow> cel \<Rightarrow> string + sqlNode" where
  "compile ty (CLit l) = literalNode l"
| "compile ty (CIdent x) =
     (if x = RootVar then Inl ''celsql: the whole message cannot be used as search text; select a field''
      else Inl (''celsql: unsupported identifier '' @ x))"
| "compile ty (CSelect tst op f) =
     (if tst then Inl ''celsql: unsupported CEL construct: has() presence test''
      else if op = CIdent RootVar then Inr (ColNode f)
      else if ty op = TStruct then map_sum id (\<lambda>(base, path). JsonNode base path) (resolveAccessChain (CSelect tst op f))
      else Inl ''celsql: unsupported field access'')"
| "compile ty (CCall fn t args) =
     (if fn = op_Conditional then compileTernary (map (compile ty) args)
      else if fn = op_Index then
        (if length args \<noteq> 2 then Inl ''celsql: malformed index expression''
         else case args ! 0 of
                CMap es \<Rightarrow> compileMapLiteralLookup (compile ty (args ! 1)) (map (\<lambda>(k, v). (k, compile ty v)) es)
              | CList xs \<Rightarrow> Inl ''celsql: unsupported CEL construct: list index''
              | _ \<Rightarrow> map_sum id (\<lambda>(base, path). JsonNode base path) (resolveAccessChain (CCall fn t args)))
      else if fn = op_Add then
        (if ty (CCall fn t args) \<noteq> TString then Inl ''celsql: unsupported arithmetic; only string concatenation is supported''
         else map_sum id ConcatNode (seq (map (compile ty) (concat (map (add_leaves ty) args)))))
      else if fn = op_Equals then compileCmp ''='' (map (compile ty) args)
      else if fn = op_NotEquals then compileCmp ''<>'' (map (compile ty) args)
      else if fn = op_LogicalAnd then compileBoolOp ''AND'' (map (compile ty) args)
      else if fn = op_LogicalOr then compileBoolOp ''OR'' (map (compile ty) args)
      else if fn = op_LogicalNot then compileNot (map (compile ty) args)
      else if fn = ''lowerAscii'' then compileLower (case t of None \<Rightarrow> None | Some r \<Rightarrow> Some (compile ty r)) args
      else if fn = ''replace'' then compileReplace (case t of None \<Rightarrow> None | Some r \<Rightarrow> Some (compile ty r)) (map (compile ty) args)
      else Inl (''celsql: unsupported function '' @ fn))"
| "compile ty (CMap es) = Inl ''celsql: a bare map literal is not searchable text''"
| "compile ty (CList xs) = Inl ''celsql: unsupported CEL construct: list literal''"
| "compile ty CStruct = Inl ''celsql: unsupported CEL construct: struct/message literal''"
| "compile ty CComprehension = Inl ''celsql: unsupported CEL construct: comprehension''"
| "compile ty CUnspecified = Inl ''celsql: unsupported CEL construct''"
  by pat_completeness auto

termination
proof (relation "measure (\<lambda>(ty, e). size e)")
  fix ty :: "cel \<Rightarrow> kind" and fn t and args :: "cel list" and es :: "(cel \<times> cel) list" and x x1 y k v
  assume "\<not> length args \<noteq> 2"
  then have two: "args ! 0 \<in> set args" "args ! 1 \<in> set args" by simp_all
  show "((ty, args ! 1), (ty, CCall fn t args)) \<in> measure (\<lambda>(ty, e). size e)" using arg_size [OF two(2), of fn t] by simp
  assume "args ! 0 = CMap es" "x \<in> set es" "(k, v) = x"
  then show "((ty, v), (ty, CCall fn t args)) \<in> measure (\<lambda>(ty, e). size e)"
    using arg_size [OF two(1), of fn t] entry_size [of k v es] by simp
next
  fix ty :: "cel \<Rightarrow> kind" and fn t and args :: "cel list" and z
  assume "z \<in> set (concat (map (add_leaves ty) args))"
  then obtain a where a: "a \<in> set args" "z \<in> set (add_leaves ty a)" by auto
  show "((ty, z), (ty, CCall fn t args)) \<in> measure (\<lambda>(ty, e). size e)"
    using arg_size [OF a(1), of fn t] leaf_size [OF a(2)] by simp
qed (auto dest: arg_size)

section \<open>What the expressions mean\<close>

text \<open>Values, with maps and messages as \<open>VM\<close>; a row gives each field of the message its value.\<close>

datatype val = VS string | VI int | VB bool | VM "(string \<times> val) list"

type_synonym row = "string \<Rightarrow> val"

definition same_kind :: "val \<Rightarrow> val \<Rightarrow> bool" where
  "same_kind a b = (case (a, b) of (VS _, VS _) \<Rightarrow> True | (VI _, VI _) \<Rightarrow> True | (VB _, VB _) \<Rightarrow> True | _ \<Rightarrow> False)"

text \<open>\<^verbatim>\<open>strings.ReplaceAll\<close> for a pattern that is not empty.\<close>

function replace_text :: "string \<Rightarrow> string \<Rightarrow> string \<Rightarrow> string" where
  "replace_text pat new s =
     (if pat = [] \<or> s = [] then s
      else if has_prefix s pat then new @ replace_text pat new (drop (length pat) s)
      else hd s # replace_text pat new (tl s))"
  by pat_completeness auto

termination by (relation "measure (\<lambda>(p, n, s). length s)") auto

declare replace_text.simps [simp del]

definition cel_replace :: "string \<Rightarrow> string \<Rightarrow> string \<Rightarrow> string" where
  "cel_replace s pat new = (if pat = [] then new @ concat (map (\<lambda>c. c # new) s) else replace_text pat new s)"

text \<open>\<open>None\<close> is an evaluation error, or an expression that the checker refuses. Conjunction and disjunction absorb an error when
  another operand decides; a map literal evaluates all its entries and refuses repeated keys.\<close>

definition cel_and :: "val option list \<Rightarrow> val option" where
  "cel_and rs = (if Some (VB False) \<in> set rs then Some (VB False) else if \<forall>r\<in>set rs. r = Some (VB True) then Some (VB True) else None)"

definition cel_or :: "val option list \<Rightarrow> val option" where
  "cel_or rs = (if Some (VB True) \<in> set rs then Some (VB True) else if \<forall>r\<in>set rs. r = Some (VB False) then Some (VB False) else None)"

fun cel_concat :: "val option list \<Rightarrow> val option" where
  "cel_concat [] = Some (VS [])"
| "cel_concat (Some (VS s) # rs) = (case cel_concat rs of Some (VS t) \<Rightarrow> Some (VS (s @ t)) | _ \<Rightarrow> None)"
| "cel_concat (r # rs) = None"

definition cel_lookup :: "val option \<Rightarrow> (val option \<times> val option) list \<Rightarrow> val option" where
  "cel_lookup key entries =
     (case key of
        None \<Rightarrow> None
      | Some kv \<Rightarrow>
          if (\<exists>e\<in>set entries. snd e = None \<or> \<not> (\<exists>k. fst e = Some k \<and> same_kind k kv)) \<or> \<not> distinct (map fst entries) then None
          else (case find (\<lambda>e. fst e = Some kv) entries of None \<Rightarrow> None | Some e \<Rightarrow> snd e))"

definition cel_equal :: "bool \<Rightarrow> val option list \<Rightarrow> val option" where
  "cel_equal sense rs =
     (case rs of [Some a, Some b] \<Rightarrow> if same_kind a b then Some (VB ((a = b) = sense)) else None | _ \<Rightarrow> None)"

definition cel_index :: "val option \<Rightarrow> val option \<Rightarrow> val option" where
  "cel_index m k = (case (m, k) of (Some (VM es), Some (VS s)) \<Rightarrow> map_of es s | _ \<Rightarrow> None)"

definition lit_val :: "cel_lit \<Rightarrow> val option" where
  "lit_val l = (case l of CelStr x \<Rightarrow> Some (VS x) | CelInt x \<Rightarrow> Some (VI x) | CelBool x \<Rightarrow> Some (VB x) | CelOther t \<Rightarrow> None)"

definition entries_of :: "cel \<Rightarrow> (cel \<times> cel) list option" where
  "entries_of e = (case e of CMap es \<Rightarrow> Some es | _ \<Rightarrow> None)"

lemma entries_of_Some [simp]: "entries_of e = Some es \<longleftrightarrow> e = CMap es"
  by (simp add: entries_of_def split: cel.split)

lemma entries_of_CMap [simp]: "entries_of (CMap es) = Some es"
  by simp

lemma mem_arg_size: "x \<in> set args \<Longrightarrow> size x < Suc (n + size_list (size :: cel \<Rightarrow> nat) args)"
  by (induction args) auto

lemmas nth_arg_size = mem_arg_size [OF nth_mem]

function eval :: "row \<Rightarrow> cel \<Rightarrow> val option" where
  "eval \<rho> (CLit l) = lit_val l"
| "eval \<rho> (CIdent x) = None"
| "eval \<rho> (CSelect tst op f) =
     (if tst then None
      else if op = CIdent RootVar then Some (\<rho> f)
      else case eval \<rho> op of Some (VM es) \<Rightarrow> map_of es f | _ \<Rightarrow> None)"
| "eval \<rho> (CCall fn t args) =
     (if fn = op_Conditional then
        (if length args \<noteq> 3 then None
         else case eval \<rho> (args ! 0) of Some (VB b) \<Rightarrow> if b then eval \<rho> (args ! 1) else eval \<rho> (args ! 2) | _ \<Rightarrow> None)
      else if fn = op_Index then
        (if length args \<noteq> 2 then None
         else case entries_of (args ! 0) of
                Some es \<Rightarrow> cel_lookup (eval \<rho> (args ! 1)) (map (\<lambda>(k, v). (case k of CLit l \<Rightarrow> lit_val l | _ \<Rightarrow> None, eval \<rho> v)) es)
              | None \<Rightarrow> cel_index (eval \<rho> (args ! 0)) (eval \<rho> (args ! 1)))
      else if fn = op_Add then cel_concat (map (eval \<rho>) args)
      else if fn = op_Equals then cel_equal True (map (eval \<rho>) args)
      else if fn = op_NotEquals then cel_equal False (map (eval \<rho>) args)
      else if fn = op_LogicalAnd then cel_and (map (eval \<rho>) args)
      else if fn = op_LogicalOr then cel_or (map (eval \<rho>) args)
      else if fn = op_LogicalNot then (case map (eval \<rho>) args of [Some (VB b)] \<Rightarrow> Some (VB (\<not> b)) | _ \<Rightarrow> None)
      else if fn = ''lowerAscii'' then
        (case t of Some r \<Rightarrow> (case eval \<rho> r of Some (VS s) \<Rightarrow> Some (VS (lower_ascii s)) | _ \<Rightarrow> None) | None \<Rightarrow> None)
      else if fn = ''replace'' then
        (case t of
           Some r \<Rightarrow> (case (eval \<rho> r, map (eval \<rho>) args) of
                        (Some (VS s), [Some (VS pat), Some (VS new)]) \<Rightarrow> Some (VS (cel_replace s pat new)) | _ \<Rightarrow> None)
         | None \<Rightarrow> None)
      else None)"
| "eval \<rho> (CMap es) = None"
| "eval \<rho> (CList xs) = None"
| "eval \<rho> CStruct = None"
| "eval \<rho> CComprehension = None"
| "eval \<rho> CUnspecified = None"
  by pat_completeness auto

termination
proof (relation "measure (\<lambda>(\<rho>, e). size e)")
  fix \<rho> :: row and fn t and args :: "cel list" and es :: "(cel \<times> cel) list" and x k v
  assume a: "\<not> length args \<noteq> 2" "entries_of (args ! 0) = Some es" "x \<in> set es" "(k, v) = x"
  show "((\<rho>, v), (\<rho>, CCall fn t args)) \<in> measure (\<lambda>(\<rho>, e). size e)"
    using nth_arg_size [of 0 args "size_option size t"] entry_size [of k v es] a by (cases args) simp_all
qed (auto simp: nth_arg_size dest: mem_arg_size [of _ _ "Suc n" for n] mem_arg_size)

section \<open>What the nodes mean\<close>

datatype dialect = Postgres | SQLite

datatype sval = Null | SText string | SInt int | SBool bool | SJson "(string \<times> val) list"

text \<open>A stored value as the dialect reads it; SQLite has no booleans.\<close>

definition enc :: "dialect \<Rightarrow> val \<Rightarrow> sval" where
  "enc d v =
     (case v of VS s \<Rightarrow> SText s | VI i \<Rightarrow> SInt i | VM es \<Rightarrow> SJson es
      | VB b \<Rightarrow> (case d of Postgres \<Rightarrow> SBool b | SQLite \<Rightarrow> SInt (if b then 1 else 0)))"

definition truth :: "dialect \<Rightarrow> sval \<Rightarrow> bool option" where
  "truth d v = (case (d, v) of (Postgres, SBool b) \<Rightarrow> Some b | (SQLite, SInt i) \<Rightarrow> Some (i \<noteq> 0) | _ \<Rightarrow> None)"

definition of_truth :: "dialect \<Rightarrow> bool option \<Rightarrow> sval" where
  "of_truth d b = (case b of None \<Rightarrow> Null | Some x \<Rightarrow> enc d (VB x))"

text \<open>What belongs to the database: its \<^verbatim>\<open>lower\<close>, and the text of a JSON value that is not a string.\<close>

record sql_lib =
  sqlLower :: "string \<Rightarrow> string"
  jsonOther :: "dialect \<Rightarrow> val \<Rightarrow> sval"

definition sql_eq :: "dialect \<Rightarrow> sval \<Rightarrow> sval \<Rightarrow> bool option" where
  "sql_eq d a b = (if a = Null \<or> b = Null then None else Some (a = b))"

definition sql_and :: "bool option list \<Rightarrow> bool option" where
  "sql_and bs = (if Some False \<in> set bs then Some False else if None \<in> set bs then None else Some True)"

definition sql_or :: "bool option list \<Rightarrow> bool option" where
  "sql_or bs = (if Some True \<in> set bs then Some True else if None \<in> set bs then None else Some False)"

fun texts :: "sval list \<Rightarrow> string list option" where
  "texts [] = Some []"
| "texts (SText s # vs) = map_option ((#) s) (texts vs)"
| "texts (v # vs) = None"

definition sql_func :: "sql_lib \<Rightarrow> string \<Rightarrow> sval list \<Rightarrow> sval" where
  "sql_func lib fn vs =
     (case texts vs of
        None \<Rightarrow> Null
      | Some xs \<Rightarrow>
          if fn = ''lower'' \<and> length xs = 1 then SText (sqlLower lib (xs ! 0))
          else if fn = ''replace'' \<and> length xs = 3 then SText (replace_text (xs ! 1) (xs ! 2) (xs ! 0))
          else Null)"

fun json_at :: "val \<Rightarrow> string list \<Rightarrow> val option" where
  "json_at v [] = Some v"
| "json_at (VM es) (k # ks) = (case map_of es k of None \<Rightarrow> None | Some v \<Rightarrow> json_at v ks)"
| "json_at v (k # ks) = None"

fun first_true :: "dialect \<Rightarrow> (bool option \<times> sval) list \<Rightarrow> sval \<Rightarrow> sval" where
  "first_true d [] z = z"
| "first_true d ((c, v) # arms) z = (if c = Some True then v else first_true d arms z)"

fun eval_sql :: "sql_lib \<Rightarrow> dialect \<Rightarrow> row \<Rightarrow> sqlNode \<Rightarrow> sval" where
  "eval_sql lib d \<rho> (ColNode c) = enc d (\<rho> c)"
| "eval_sql lib d \<rho> (StrNode s) = SText s"
| "eval_sql lib d \<rho> (IntNode i) = SInt i"
| "eval_sql lib d \<rho> (BoolNode b) = enc d (VB b)"
| "eval_sql lib d \<rho> (ConcatNode ns) =
     (case texts (map (eval_sql lib d \<rho>) ns) of None \<Rightarrow> Null | Some xs \<Rightarrow> SText (concat xs))"
| "eval_sql lib d \<rho> (FuncNode fn ns) = sql_func lib fn (map (eval_sql lib d \<rho>) ns)"
| "eval_sql lib d \<rho> (CaseKeyNode k arms) =
     first_true d (map (\<lambda>(w, v). (sql_eq d (eval_sql lib d \<rho> k) (eval_sql lib d \<rho> w), eval_sql lib d \<rho> v)) arms) Null"
| "eval_sql lib d \<rho> (CaseCondNode arms els) =
     first_true d (map (\<lambda>(c, v). (truth d (eval_sql lib d \<rho> c), eval_sql lib d \<rho> v)) arms) (eval_sql lib d \<rho> els)"
| "eval_sql lib d \<rho> (CmpNode sqlop l r) =
     of_truth d (map_option (\<lambda>x. x = (sqlop = ''='')) (sql_eq d (eval_sql lib d \<rho> l) (eval_sql lib d \<rho> r)))"
| "eval_sql lib d \<rho> (BoolOpNode sqlop ns) =
     of_truth d ((if sqlop = ''AND'' then sql_and else sql_or) (map (\<lambda>n. truth d (eval_sql lib d \<rho> n)) ns))"
| "eval_sql lib d \<rho> (NotNode n) = of_truth d (map_option Not (truth d (eval_sql lib d \<rho> n)))"
| "eval_sql lib d \<rho> (JsonNode base path) =
     (case json_at (\<rho> base) path of None \<Rightarrow> Null | Some (VS s) \<Rightarrow> SText s | Some v \<Rightarrow> jsonOther lib d v)"

section \<open>The compiler keeps the meaning\<close>

text \<open>The rows: below a column of maps or messages every leaf is a string. The expressions: a pattern of \<^verbatim>\<open>replace\<close> is a literal
  that is not empty.\<close>

fun text_leaves :: "val \<Rightarrow> bool" where
  "text_leaves (VM es) \<longleftrightarrow> (\<forall>(k, v)\<in>set es. (\<exists>s. v = VS s) \<or> (\<exists>fs. v = VM fs) \<and> text_leaves v)"
| "text_leaves v \<longleftrightarrow> True"

fun plain :: "cel \<Rightarrow> bool" where
  "plain (CSelect tst op f) \<longleftrightarrow> plain op"
| "plain (CCall fn t args) \<longleftrightarrow> (\<forall>a\<in>set args. plain a) \<and> (case t of Some r \<Rightarrow> plain r | None \<Rightarrow> True)
     \<and> (fn = ''replace'' \<longrightarrow> (\<exists>c cs. args ! 0 = CLit (CelStr (c # cs))))"
| "plain (CMap es) \<longleftrightarrow> (\<forall>(k, v)\<in>set es. plain v)"
| "plain _ \<longleftrightarrow> True"

lemma seq_map_Inr [simp]: "seq (map Inr xs) = Inr xs" "seq (map (\<lambda>x. Inr (f x)) ys) = Inr (map f ys)"
proof -
  show "seq (map Inr xs) = Inr xs" by (induction xs) simp_all
  show "seq (map (\<lambda>x. Inr (f x)) ys) = Inr (map f ys)" by (induction ys) simp_all
qed

lemma seq_Inr: "seq rs = Inr xs \<longleftrightarrow> rs = map Inr xs"
proof
  show "seq rs = Inr xs \<Longrightarrow> rs = map Inr xs" by (induction rs arbitrary: xs rule: seq.induct) (auto split: sum.splits)
qed simp

lemma map_sum_Inr: "map_sum id f r = Inr y \<longleftrightarrow> (\<exists>x. r = Inr x \<and> y = f x)"
  by (cases r) auto

lemma op_ne:
  "op_Index \<noteq> op_Conditional" "op_Add \<noteq> op_Conditional" "op_Add \<noteq> op_Index"
  "op_Equals \<noteq> op_Conditional" "op_Equals \<noteq> op_Index" "op_Equals \<noteq> op_Add"
  "op_NotEquals \<noteq> op_Conditional" "op_NotEquals \<noteq> op_Index" "op_NotEquals \<noteq> op_Add" "op_NotEquals \<noteq> op_Equals"
  "op_LogicalAnd \<noteq> op_Conditional" "op_LogicalAnd \<noteq> op_Index" "op_LogicalAnd \<noteq> op_Add" "op_LogicalAnd \<noteq> op_Equals" "op_LogicalAnd \<noteq> op_NotEquals"
  "op_LogicalOr \<noteq> op_Conditional" "op_LogicalOr \<noteq> op_Index" "op_LogicalOr \<noteq> op_Add" "op_LogicalOr \<noteq> op_Equals" "op_LogicalOr \<noteq> op_NotEquals"
  "op_LogicalOr \<noteq> op_LogicalAnd" "op_LogicalNot \<noteq> op_Conditional" "op_LogicalNot \<noteq> op_Index" "op_LogicalNot \<noteq> op_Add"
  "op_LogicalNot \<noteq> op_Equals" "op_LogicalNot \<noteq> op_NotEquals" "op_LogicalNot \<noteq> op_LogicalAnd" "op_LogicalNot \<noteq> op_LogicalOr"
  by (simp_all add: op_defs)

lemma fn_ne:
  "fn \<in> {''lowerAscii'', ''replace''} \<Longrightarrow> fn \<notin> {op_Conditional, op_Index, op_Add, op_Equals, op_NotEquals, op_LogicalAnd, op_LogicalOr, op_LogicalNot}"
  by (auto simp: op_defs)

lemmas op_distinct = op_ne op_ne [symmetric]

lemma json_at_append: "json_at v (ks @ [k]) = (case json_at v ks of Some (VM es) \<Rightarrow> map_of es k | _ \<Rightarrow> None)"
  by (induction v ks rule: json_at.induct) (auto split: option.split val.split)

lemma chain_ok: "resolveAccessChain e = Inr (b, ks) \<Longrightarrow> eval \<rho> e = Some v \<Longrightarrow> json_at (\<rho> b) ks = Some v"
proof (induction e arbitrary: b ks v rule: resolveAccessChain.induct)
  case (1 tst op f)
  show ?case
  proof (cases "op = CIdent RootVar")
    case True
    then show ?thesis using "1.prems" by (auto split: if_splits)
  next
    case False
    then obtain ks' where r: "resolveAccessChain op = Inr (b, ks')" "ks = ks' @ [f]" using "1.prems"(1) by (auto split: sum.splits)
    obtain es where "eval \<rho> op = Some (VM es)" "map_of es f = Some v"
      using "1.prems"(2) False by (auto split: if_splits option.splits val.splits)
    then show ?thesis using "1.IH" [OF False r(1)] r(2) by (simp add: json_at_append)
  qed
next
  case (2 fn t m key)
  obtain k ks' where k: "fn = op_Index" "key = CLit (CelStr k)" "resolveAccessChain m = Inr (b, ks')" "ks = ks' @ [k]"
    using "2.prems"(1) by (auto split: if_splits cel.splits cel_lit.splits sum.splits)
  have "entries_of m = None" using k(3) by (cases m) (auto simp: entries_of_def)
  then obtain es where "eval \<rho> m = Some (VM es)" "map_of es k = Some v"
    using "2.prems"(2) k(1,2) by (auto simp: op_distinct cel_index_def lit_val_def split: option.splits val.splits)
  then show ?case using "2.IH" k by (simp add: json_at_append)
qed (auto split: if_splits)

lemma text_at: "text_leaves v \<Longrightarrow> ks \<noteq> [] \<Longrightarrow> json_at v ks = Some u \<Longrightarrow> (\<exists>s. u = VS s) \<or> (\<exists>es. u = VM es)"
proof (induction v ks rule: json_at.induct)
  case (2 es k ks)
  obtain w where w: "map_of es k = Some w" "json_at w ks = Some u" using 2(4) by (auto split: option.splits)
  then have "(k, w) \<in> set es" by (simp add: map_of_SomeD)
  then have "(\<exists>s. w = VS s) \<or> (\<exists>fs. w = VM fs) \<and> text_leaves w" using 2(2) by auto
  then show ?case
  proof (elim disjE conjE exE)
    fix s assume "w = VS s"
    then show ?thesis using w(2) by (cases ks) auto
  next
    fix fs assume "w = VM fs" "text_leaves w"
    then show ?thesis using w 2(1) [OF w(1)] by (cases ks) auto
  qed
qed auto

lemma concat_iff: "cel_concat rs = Some v \<longleftrightarrow> (\<exists>ss. rs = map (\<lambda>s. Some (VS s)) ss \<and> v = VS (concat ss))"
proof (induction rs arbitrary: v rule: cel_concat.induct)
  case (2 s rs)
  show ?case
  proof
    assume "cel_concat (Some (VS s) # rs) = Some v"
    then obtain t where "cel_concat rs = Some (VS t)" "v = VS (s @ t)" by (auto split: option.splits val.splits)
    then obtain ss where "rs = map (\<lambda>s. Some (VS s)) ss" "t = concat ss" using 2 by blast
    then show "\<exists>ss. Some (VS s) # rs = map (\<lambda>s. Some (VS s)) ss \<and> v = VS (concat ss)"
      using \<open>v = VS (s @ t)\<close> by (intro exI [of _ "s # ss"]) simp
  next
    assume "\<exists>ss. Some (VS s) # rs = map (\<lambda>s. Some (VS s)) ss \<and> v = VS (concat ss)"
    then obtain ss where "rs = map (\<lambda>s. Some (VS s)) ss" "v = VS (s @ concat ss)" by (auto simp: Cons_eq_map_conv)
    moreover from this have "cel_concat rs = Some (VS (concat ss))" using 2 by blast
    ultimately show "cel_concat (Some (VS s) # rs) = Some v" by simp
  qed
qed auto

lemma texts_SText [simp]: "texts (map SText xs) = Some xs" "texts (map (\<lambda>x. SText (f x)) ys) = Some (map f ys)"
proof -
  show "texts (map SText xs) = Some xs" by (induction xs) simp_all
  show "texts (map (\<lambda>x. SText (f x)) ys) = Some (map f ys)" by (induction ys) simp_all
qed

lemma leaves_concat:
  "eval \<rho> e = Some (VS s) \<Longrightarrow> cel_concat (map (eval \<rho>) (add_leaves ty e)) = Some (VS s)"
  "plain e \<Longrightarrow> x \<in> set (add_leaves ty e) \<Longrightarrow> plain x"
proof (induction ty e arbitrary: s rule: add_leaves.induct)
  case (1 ty fn t args)
  {
    case 1
    show ?case
    proof (cases "fn = op_Add \<and> ty (CCall fn t args) = TString")
      case True
      then have "cel_concat (map (eval \<rho>) args) = Some (VS s)" using 1 by (simp add: op_distinct)
      then obtain ss where ss: "map (eval \<rho>) args = map (\<lambda>s. Some (VS s)) ss" "s = concat ss" unfolding concat_iff by blast
      have ih: "\<forall>a\<in>set args. \<forall>s. eval \<rho> a = Some (VS s) \<longrightarrow> cel_concat (map (eval \<rho>) (add_leaves ty a)) = Some (VS s)"
        using "1.IH"(1) [OF True] by blast
      have "cel_concat (map (eval \<rho>) (concat (map (add_leaves ty) args))) = Some (VS (concat ss))"
        using ss(1) ih
      proof (induction args arbitrary: ss)
        case (Cons a args)
        then obtain s1 ss' where ss: "ss = s1 # ss'" "eval \<rho> a = Some (VS s1)" "map (eval \<rho>) args = map (\<lambda>s. Some (VS s)) ss'"
          by (cases ss) auto
        then have "cel_concat (map (eval \<rho>) (add_leaves ty a)) = Some (VS s1)"
          "cel_concat (map (eval \<rho>) (concat (map (add_leaves ty) args))) = Some (VS (concat ss'))"
          using Cons.IH [of ss'] Cons.prems(2) by auto
        then obtain us vs where "map (eval \<rho>) (add_leaves ty a) = map (\<lambda>s. Some (VS s)) us" "s1 = concat us"
          "map (eval \<rho>) (concat (map (add_leaves ty) args)) = map (\<lambda>s. Some (VS s)) vs" "concat ss' = concat vs"
          unfolding concat_iff by blast
        then show ?case unfolding concat_iff by (intro exI [of _ "us @ vs"]) (simp add: ss(1))
      qed simp
      then show ?thesis using ss(2) unfolding add_leaves.simps if_P [OF True] by simp
    next
      case False
      show ?thesis unfolding add_leaves.simps if_not_P [OF False] using 1 by (simp del: eval.simps)
    qed
  next
    case 2
    show ?case
    proof (cases "fn = op_Add \<and> ty (CCall fn t args) = TString")
      case True
      then show ?thesis using 2 "1.IH"(2) [OF True] by auto
    next
      case False
      show ?thesis using 2 unfolding add_leaves.simps if_not_P [OF False] by simp
    qed
  }
qed simp_all

definition scalar :: "val \<Rightarrow> bool" where
  "scalar v \<longleftrightarrow> (\<forall>es. v \<noteq> VM es)"

lemma sql_eq_enc: "same_kind a b \<Longrightarrow> sql_eq d (enc d a) (enc d b) = Some (a = b)"
  by (cases d; cases a; cases b) (simp_all add: same_kind_def sql_eq_def enc_def)

lemma truth_enc [simp]: "truth d (enc d (VB b)) = Some b" "of_truth d (Some b) = enc d (VB b)"
  by (cases d; simp add: truth_def enc_def of_truth_def)+

lemma literal_sim: "literalNode l = Inr n \<Longrightarrow> lit_val l = Some v \<Longrightarrow> eval_sql lib d \<rho> n = enc d v"
  by (cases l) (auto simp: literalNode_def lit_val_def enc_def)

lemma same_kind_sym: "same_kind a b \<longleftrightarrow> same_kind b a"
  by (cases a; cases b) (simp_all add: same_kind_def)

lemma lookup_sim:
  assumes "list_all2 (\<lambda>(k, u) (w, n). \<exists>l. k = CLit l \<and> literalNode l = Inr w \<and> compile ty u = Inr n) es arms"
    and "\<forall>(k, u)\<in>set es. \<forall>l. k = CLit l \<longrightarrow> (\<exists>kk. lit_val l = Some kk \<and> same_kind kk kv)"
    and "\<forall>(k, u)\<in>set es. \<forall>n. compile ty u = Inr n \<longrightarrow> eval \<rho> u = Some v \<longrightarrow> eval_sql lib d \<rho> n = enc d v"
    and "find (\<lambda>e. fst e = Some kv) (map (\<lambda>(k, u). (case k of CLit l \<Rightarrow> lit_val l | _ \<Rightarrow> None, eval \<rho> u)) es) = Some e" "snd e = Some v"
  shows "first_true d (map (\<lambda>(w, n). (sql_eq d (enc d kv) (eval_sql lib d \<rho> w), eval_sql lib d \<rho> n)) arms) Null = enc d v"
  using assms
proof (induction es arms rule: list_all2_induct)
  case (Cons e1 es a1 arms)
  obtain k u where e1: "e1 = (k, u)" by (cases e1)
  obtain w n where a1: "a1 = (w, n)" by (cases a1)
  obtain l where l: "k = CLit l" "literalNode l = Inr w" "compile ty u = Inr n" using Cons.hyps(1) by (auto simp: e1 a1)
  obtain kk where kk: "lit_val l = Some kk" "same_kind kk kv" using Cons.prems(1) l(1) by (auto simp: e1)
  have q: "sql_eq d (enc d kv) (eval_sql lib d \<rho> w) = Some (kv = kk)"
    using literal_sim [OF l(2) kk(1)] sql_eq_enc kk(2) same_kind_sym by metis
  show ?case
  proof (cases "kv = kk")
    case True
    then have "eval \<rho> u = Some v" using Cons.prems(3,4) by (auto simp: e1 l(1) kk(1))
    then show ?thesis using Cons.prems(2) l(3) q True by (auto simp: e1 a1)
  next
    case False
    then show ?thesis using Cons.IH Cons.prems by (auto simp: e1 a1 q l(1) kk(1))
  qed
qed simp

lemma and_sim:
  assumes "cel_and (map f args) = Some v" "length ns = length args"
    and "\<And>i b. i < length args \<Longrightarrow> f (args ! i) = Some (VB b) \<Longrightarrow> g (ns ! i) = Some b"
  shows "of_truth d (sql_and (map g ns)) = enc d v"
proof (cases "Some (VB False) \<in> set (map f args)")
  case True
  then obtain i where "i < length args" "f (args ! i) = Some (VB False)" by (auto simp: in_set_conv_nth)
  then have "map g ns ! i = Some False" "i < length (map g ns)" using assms(2,3) by simp_all
  then have "Some False \<in> set (map g ns)" by (metis nth_mem)
  then show ?thesis using assms(1) True by (simp add: cel_and_def sql_and_def)
next
  case False
  then have all: "\<forall>r\<in>set (map f args). r = Some (VB True)" and v: "v = VB True" using assms(1) by (auto simp: cel_and_def split: if_splits)
  have "\<forall>i < length ns. g (ns ! i) = Some True" using all assms(2) by (auto intro: assms(3))
  then have "set (map g ns) \<subseteq> {Some True}" by (auto simp: in_set_conv_nth)
  then show ?thesis by (auto simp: sql_and_def v)
qed

lemma or_sim:
  assumes "cel_or (map f args) = Some v" "length ns = length args"
    and "\<And>i b. i < length args \<Longrightarrow> f (args ! i) = Some (VB b) \<Longrightarrow> g (ns ! i) = Some b"
  shows "of_truth d (sql_or (map g ns)) = enc d v"
proof (cases "Some (VB True) \<in> set (map f args)")
  case True
  then obtain i where "i < length args" "f (args ! i) = Some (VB True)" by (auto simp: in_set_conv_nth)
  then have "map g ns ! i = Some True" "i < length (map g ns)" using assms(2,3) by simp_all
  then have "Some True \<in> set (map g ns)" by (metis nth_mem)
  then show ?thesis using assms(1) True by (simp add: cel_or_def sql_or_def)
next
  case False
  then have all: "\<forall>r\<in>set (map f args). r = Some (VB False)" and v: "v = VB False" using assms(1) by (auto simp: cel_or_def split: if_splits)
  have "\<forall>i < length ns. g (ns ! i) = Some False" using all assms(2) by (auto intro: assms(3))
  then have "set (map g ns) \<subseteq> {Some False}" by (auto simp: in_set_conv_nth)
  then show ?thesis by (auto simp: sql_or_def v)
qed

text \<open>The claim, for one expression.\<close>

definition keeps :: "(cel \<Rightarrow> kind) \<Rightarrow> sql_lib \<Rightarrow> dialect \<Rightarrow> row \<Rightarrow> cel \<Rightarrow> bool" where
  "keeps ty lib d \<rho> e \<longleftrightarrow>
     (\<forall>n v. compile ty e = Inr n \<longrightarrow> eval \<rho> e = Some v \<longrightarrow> scalar v \<longrightarrow> plain e \<longrightarrow> eval_sql lib d \<rho> n = enc d v)"

lemma keepsD: "keeps ty lib d \<rho> e \<Longrightarrow> compile ty e = Inr n \<Longrightarrow> eval \<rho> e = Some v \<Longrightarrow> scalar v \<Longrightarrow> plain e \<Longrightarrow> eval_sql lib d \<rho> n = enc d v"
  by (simp add: keeps_def)

lemma scalar_simps [simp]: "scalar (VS s)" "scalar (VI i)" "scalar (VB b)" "\<not> scalar (VM es)"
  by (simp_all add: scalar_def)

lemma compiled_args:
  assumes "seq (map (compile ty) args) = Inr ns" "i < length args"
  shows "length ns = length args" "compile ty (args ! i) = Inr (ns ! i)"
proof -
  have m: "map (compile ty) args = map Inr ns" using assms(1) by (simp add: seq_Inr)
  then show l: "length ns = length args" by (metis length_map)
  show "compile ty (args ! i) = Inr (ns ! i)" using arg_cong [OF m, of "\<lambda>xs. xs ! i"] l assms(2) by simp
qed

lemma access_sim:
  assumes "resolveAccessChain e = Inr (base, path)" "eval \<rho> e = Some v" "scalar v" "\<forall>f. text_leaves (\<rho> f)" "path \<noteq> []"
  shows "eval_sql lib d \<rho> (JsonNode base path) = enc d v"
proof -
  have "json_at (\<rho> base) path = Some v" by (rule chain_ok [OF assms(1,2)])
  moreover from text_at [OF _ assms(5) this] obtain s where "v = VS s" using assms(3,4) by auto
  ultimately show ?thesis by (simp add: enc_def)
qed

lemma cel_lookup_SomeD:
  assumes "cel_lookup key es = Some v"
  obtains kv en where "key = Some kv" "find (\<lambda>e. fst e = Some kv) es = Some en" "snd en = Some v"
    "\<forall>e\<in>set es. \<exists>k. fst e = Some k \<and> same_kind k kv"
  using assms by (auto simp: cel_lookup_def split: option.splits if_splits)

lemma compile_keeps:
  assumes rows: "\<forall>f. text_leaves (\<rho> f)" and low: "\<forall>s. sqlLower lib s = lower_ascii s"
  shows "keeps ty lib d \<rho> e"
proof (induction e rule: measure_induct_rule [of size])
  case (less e)
  show ?case unfolding keeps_def
  proof (intro allI impI)
    fix n v assume c: "compile ty e = Inr n" and ev: "eval \<rho> e = Some v" and sc: "scalar v" and pl: "plain e"
    show "eval_sql lib d \<rho> n = enc d v"
    proof (cases e)
      case (CLit l)
      then show ?thesis using c ev literal_sim by simp
    next
      case (CSelect tst sel f)
      show ?thesis
      proof (cases "sel = CIdent RootVar")
        case True
        then show ?thesis using c ev CSelect by (auto split: if_splits)
      next
        case False
        then obtain b ks where r: "resolveAccessChain e = Inr (b, ks)" "n = JsonNode b ks"
          using c CSelect by (auto simp: map_sum_Inr simp del: resolveAccessChain.simps split: if_splits)
        moreover have "ks \<noteq> []" using r(1) CSelect False by (auto split: sum.splits)
        ultimately show ?thesis using access_sim [OF r(1) ev sc rows] by simp
      qed
    next
      case (CCall fn t args)
      have arg: "keeps ty lib d \<rho> a" if "a \<in> set args" for a using less [of a] arg_size [OF that, of fn t] CCall by simp
      have plain_arg: "plain a" if "a \<in> set args" for a using pl CCall that by simp
      have sim: "eval_sql lib d \<rho> (ns ! i) = enc d u"
        if "seq (map (compile ty) args) = Inr ns" "i < length args" "eval \<rho> (args ! i) = Some u" "scalar u" for ns i u
        using keepsD [OF arg compiled_args(2) [OF that(1,2)] that(3,4) plain_arg] that(2) by simp
      consider "fn = op_Conditional" | "fn = op_Index" | "fn = op_Add" | "fn = op_Equals \<or> fn = op_NotEquals" | "fn = op_LogicalAnd"
        | "fn = op_LogicalOr" | "fn = op_LogicalNot" | "fn = ''lowerAscii''" | "fn = ''replace''"
        using c CCall by (auto split: if_splits)
      then show ?thesis
      proof cases
        case 1
        obtain ns where ns: "length args = 3" "seq (map (compile ty) args) = Inr ns" "n = CaseCondNode [(ns ! 0, ns ! 1)] (ns ! 2)"
          using c CCall 1 by (auto simp: compileTernary_def map_sum_Inr split: if_splits)
        obtain b where b: "eval \<rho> (args ! 0) = Some (VB b)" "(if b then eval \<rho> (args ! 1) else eval \<rho> (args ! 2)) = Some v"
          using ev CCall 1 ns(1) by (auto split: option.splits val.splits)
        then show ?thesis using sim [OF ns(2) _ b(1)] sim [OF ns(2) _ _ sc, of 1] sim [OF ns(2) _ _ sc, of 2] ns(1,3)
          by (simp split: if_splits)
      next
        case 3
        then obtain ns where ns: "seq (map (compile ty) (concat (map (add_leaves ty) args))) = Inr ns" "n = ConcatNode ns" "ty e = TString"
          using c CCall by (auto simp: op_distinct map_sum_Inr split: if_splits)
        obtain s where v: "v = VS s" and "cel_concat (map (eval \<rho>) args) = Some (VS s)"
          using ev CCall 3 by (auto simp: op_distinct concat_iff)
        then have "eval \<rho> e = Some (VS s)" using ev by simp
        then have "cel_concat (map (eval \<rho>) (add_leaves ty e)) = Some (VS s)" by (rule leaves_concat(1))
        then obtain ss where ss: "map (eval \<rho>) (concat (map (add_leaves ty) args)) = map (\<lambda>s. Some (VS s)) ss" "s = concat ss"
          using CCall 3 ns(3) unfolding concat_iff by auto
        let ?ls = "concat (map (add_leaves ty) args)"
        have len: "length ns = length ?ls" "length ss = length ?ls"
          using arg_cong [OF ss(1), of length] ns(1) seq_Inr [of _ ns] by (simp_all, metis length_map)
        have "eval_sql lib d \<rho> (ns ! i) = SText (ss ! i)" if i: "i < length ?ls" for i
        proof -
          have m: "?ls ! i \<in> set ?ls" using i by (rule nth_mem)
          then obtain a where a: "a \<in> set args" "?ls ! i \<in> set (add_leaves ty a)" by auto
          have "keeps ty lib d \<rho> (?ls ! i)" using less [of "?ls ! i"] leaf_size [OF a(2)] arg_size [OF a(1), of fn t] CCall by simp
          moreover have "eval \<rho> (?ls ! i) = Some (VS (ss ! i))" using arg_cong [OF ss(1), of "\<lambda>xs. xs ! i"] i len by simp
          moreover have "plain (?ls ! i)" using leaves_concat(2) [OF plain_arg [OF a(1)] a(2)] .
          ultimately show ?thesis using keepsD [OF _ compiled_args(2) [OF ns(1) i]] by (auto simp: enc_def)
        qed
        then have "map (eval_sql lib d \<rho>) ns = map SText ss" using len by (simp add: list_eq_iff_nth_eq)
        then show ?thesis using ns(2) ss(2) v by (simp add: enc_def)
      next
        case 4
        then obtain ns sqlop where ns: "length args = 2" "seq (map (compile ty) args) = Inr ns" "n = CmpNode sqlop (ns ! 0) (ns ! 1)"
          and sop: "sqlop = (if fn = op_Equals then ''='' else ''<>'')"
          using c CCall by (auto simp: op_distinct compileCmp_def map_sum_Inr split: if_splits)
        have l: "args = [args ! 0, args ! 1]" using ns(1) by (auto simp: length_Suc_conv numeral_2_eq_2)
        obtain a b where ab: "eval \<rho> (args ! 0) = Some a" "eval \<rho> (args ! 1) = Some b" "same_kind a b" "v = VB ((a = b) = (fn = op_Equals))"
          using ev CCall 4 by (subst (asm) l) (auto simp: op_distinct cel_equal_def split: option.splits if_splits)
        have "scalar a" "scalar b" using ab(3) by (cases a; cases b; simp add: same_kind_def)+
        then show ?thesis using sim [OF ns(2) _ ab(1)] sim [OF ns(2) _ ab(2)] ns(1,3) ab(4) sop by (simp add: sql_eq_enc [OF ab(3)])
      next
        case 5
        then obtain ns where ns: "seq (map (compile ty) args) = Inr ns" "n = BoolOpNode ''AND'' ns"
          using c CCall by (auto simp: op_distinct compileBoolOp_def map_sum_Inr)
        have l: "length ns = length args" using arg_cong [OF ns(1) [unfolded seq_Inr], of length] by simp
        have "cel_and (map (eval \<rho>) args) = Some v" using ev CCall 5 by (simp add: op_distinct)
        from and_sim [OF this l, of "\<lambda>x. truth d (eval_sql lib d \<rho> x)" d] show ?thesis using sim [OF ns(1)] by (simp add: ns(2))
      next
        case 6
        then obtain ns where ns: "seq (map (compile ty) args) = Inr ns" "n = BoolOpNode ''OR'' ns"
          using c CCall by (auto simp: op_distinct compileBoolOp_def map_sum_Inr)
        have l: "length ns = length args" using arg_cong [OF ns(1) [unfolded seq_Inr], of length] by simp
        have "cel_or (map (eval \<rho>) args) = Some v" using ev CCall 6 by (simp add: op_distinct)
        from or_sim [OF this l, of "\<lambda>x. truth d (eval_sql lib d \<rho> x)" d] show ?thesis using sim [OF ns(1)] by (simp add: ns(2))
      next
        case 2
        then have two: "length args = 2" using c CCall by (auto simp: op_distinct split: if_splits)
        show ?thesis
        proof (cases "entries_of (args ! 0)")
          case (Some es)
          then have m: "args ! 0 = CMap es" by simp
          obtain kn arms where kn: "compile ty (args ! 1) = Inr kn" "n = CaseKeyNode kn arms"
            and arms: "seq (map (\<lambda>(k, v). case k of
                         CLit l \<Rightarrow> (case literalNode l of Inl e \<Rightarrow> Inl e | Inr n \<Rightarrow> (case v of Inl e \<Rightarrow> Inl e | Inr vn \<Rightarrow> Inr (n, vn)))
                       | _ \<Rightarrow> Inl ''celsql: map-literal keys must be literals'') (map (\<lambda>(k, v). (k, compile ty v)) es)) = Inr arms"
            using c CCall 2 two m by (auto simp: op_distinct compileMapLiteralLookup_def map_sum_Inr split: sum.splits)
          have r: "list_all2 (\<lambda>(k, u) (w, n). \<exists>l. k = CLit l \<and> literalNode l = Inr w \<and> compile ty u = Inr n) es arms"
            using arms unfolding seq_Inr
          proof (induction es arbitrary: arms)
            case (Cons a es)
            then show ?case by (cases arms; cases a) (auto split: cel.splits sum.splits)
          qed simp
          let ?key = "\<lambda>k. case k of CLit l \<Rightarrow> lit_val l | _ \<Rightarrow> None"
          have look: "cel_lookup (eval \<rho> (args ! 1)) (map (\<lambda>(k, u). (?key k, eval \<rho> u)) es) = Some v"
            using ev CCall 2 two m by (simp add: op_distinct)
          then obtain kv en where kv: "eval \<rho> (args ! 1) = Some kv"
            and en: "find (\<lambda>e. fst e = Some kv) (map (\<lambda>(k, u). (?key k, eval \<rho> u)) es) = Some en" "snd en = Some v"
            and kinds: "\<forall>e\<in>set (map (\<lambda>(k, u). (?key k, eval \<rho> u)) es). \<exists>k. fst e = Some k \<and> same_kind k kv"
            by (rule cel_lookup_SomeD)
          have "en \<in> set (map (\<lambda>(k, u). (?key k, eval \<rho> u)) es)" using en(1) by (auto simp: find_Some_iff)
          then obtain k where "same_kind k kv" using kinds by blast
          then have "scalar kv" by (cases k; cases kv) (simp_all add: same_kind_def)
          moreover have a1: "args ! 1 \<in> set args" using two by simp
          ultimately have k: "eval_sql lib d \<rho> kn = enc d kv" using keepsD [OF arg [OF a1] kn(1) kv _ plain_arg [OF a1]] by simp
          have ks: "\<forall>(k, u)\<in>set es. \<forall>l. k = CLit l \<longrightarrow> (\<exists>kk. lit_val l = Some kk \<and> same_kind kk kv)" using kinds by fastforce
          have vs: "\<forall>(k, u)\<in>set es. \<forall>n. compile ty u = Inr n \<longrightarrow> eval \<rho> u = Some v \<longrightarrow> eval_sql lib d \<rho> n = enc d v"
          proof (clarify)
            fix k u n' assume u: "(k, u) \<in> set es" "compile ty u = Inr n'" "eval \<rho> u = Some v"
            have mem: "CMap es \<in> set args" using m two nth_mem [of 0 args] by simp
            have "size u < size e" using entry_size [OF u(1)] arg_size [OF mem, of fn t] CCall by simp
            moreover have "plain u" using plain_arg [OF mem] u(1) by fastforce
            ultimately show "eval_sql lib d \<rho> n' = enc d v" using keepsD [OF less u(2,3) sc] by simp
          qed
          show ?thesis using lookup_sim [OF r ks vs en] by (simp add: kn(2) k)
        next
          case None
          then obtain b ks where r: "resolveAccessChain e = Inr (b, ks)" "n = JsonNode b ks"
            using c CCall 2 two by (auto simp: op_distinct entries_of_def map_sum_Inr split: cel.splits)
          moreover have "ks \<noteq> []"
            using r(1) CCall two by (cases args) (auto simp: length_Suc_conv numeral_2_eq_2 split: if_splits cel.splits cel_lit.splits sum.splits)
          ultimately show ?thesis using access_sim [OF r(1) ev sc rows] by simp
        qed
      next
        case 7
        obtain ns where ns: "length args = 1" "seq (map (compile ty) args) = Inr ns" "n = NotNode (ns ! 0)"
          using c CCall 7 by (auto simp: op_distinct compileNot_def map_sum_Inr split: if_splits)
        have l: "args = [args ! 0]" using ns(1) by (auto simp: length_Suc_conv)
        obtain b where b: "eval \<rho> (args ! 0) = Some (VB b)" "v = VB (\<not> b)"
          using ev CCall 7 by (subst (asm) l) (auto simp: op_distinct split: option.splits val.splits)
        show ?thesis using sim [OF ns(2) _ b(1)] ns(1,3) b(2) by simp
      next
        case 8
        obtain r rn where r: "t = Some r" "compile ty r = Inr rn" "n = FuncNode ''lower'' [rn]"
          using c CCall 8 fn_ne [of fn] by (auto simp: compileLower_def map_sum_Inr split: option.splits if_splits)
        obtain s where s: "eval \<rho> r = Some (VS s)" "v = VS (lower_ascii s)"
          using ev CCall 8 fn_ne [of fn] r(1) by (auto split: option.splits val.splits)
        have "keeps ty lib d \<rho> r" using less [of r] CCall r(1) by simp
        from keepsD [OF this r(2) s(1)] have "eval_sql lib d \<rho> rn = SText s" using pl CCall r(1) by (simp add: enc_def)
        then show ?thesis by (simp add: r(3) s(2) sql_func_def enc_def low)
      next
        case 9
        obtain r ns where r: "t = Some r" "length args = 2" "seq (compile ty r # map (compile ty) args) = Inr ns" "n = FuncNode ''replace'' ns"
          using c CCall 9 fn_ne [of fn] by (auto simp: compileReplace_def map_sum_Inr split: option.splits if_splits)
        have l: "args = [args ! 0, args ! 1]" using r(2) by (auto simp: length_Suc_conv numeral_2_eq_2)
        obtain rn as where rn: "compile ty r = Inr rn" "seq (map (compile ty) args) = Inr as" "ns = rn # as"
          using r(3) unfolding seq_Inr by (cases ns) auto
        have as: "as = [as ! 0, as ! 1]"
          using compiled_args(1) [OF rn(2), of 0] r(2) by (auto simp: length_Suc_conv numeral_2_eq_2)
        have "\<exists>s pat new. eval \<rho> r = Some (VS s) \<and> eval \<rho> (args ! 0) = Some (VS pat) \<and> eval \<rho> (args ! 1) = Some (VS new)
            \<and> v = VS (cel_replace s pat new)"
          using ev CCall 9 fn_ne [of fn] r(1) by (subst (asm) l) (auto split: option.splits val.splits list.splits)
        then obtain s pat new where s: "eval \<rho> r = Some (VS s)" "eval \<rho> (args ! 0) = Some (VS pat)" "eval \<rho> (args ! 1) = Some (VS new)"
          "v = VS (cel_replace s pat new)" by blast
        have "pat \<noteq> []" using pl CCall 9 s(2) by (auto simp: lit_val_def)
        have "keeps ty lib d \<rho> r" using less [of r] CCall r(1) by simp
        from keepsD [OF this rn(1) s(1)] have "eval_sql lib d \<rho> rn = SText s" using pl CCall r(1) by (simp add: enc_def)
        moreover have "eval_sql lib d \<rho> (as ! 0) = SText pat" "eval_sql lib d \<rho> (as ! 1) = SText new"
          using sim [OF rn(2) _ s(2)] sim [OF rn(2) _ s(3)] r(2) by (simp_all add: enc_def)
        ultimately have "map (eval_sql lib d \<rho>) ns = [SText s, SText pat, SText new]" unfolding rn(3) by (subst as) simp
        then show ?thesis using \<open>pat \<noteq> []\<close> by (simp add: r(4) s(4) sql_func_def enc_def cel_replace_def)
      qed
    qed (use c ev in auto)
  qed
qed

end
