(* ===== verification/Text.thy ===== *)
theory Text
  imports Prelude
begin

text \<open>
  Splitting and joining of text (\<^verbatim>\<open>strings.Split\<close>, \<^verbatim>\<open>strings.Join\<close>, \<^verbatim>\<open>strings.Fields\<close>), shared by the theories that read and write names, tokens
  and generated text.
\<close>

fun split_char :: "char \<Rightarrow> string \<Rightarrow> string list" where
  "split_char c [] = [[]]"
| "split_char c (x # xs) = (if x = c then [] # split_char c xs else (case split_char c xs of [] \<Rightarrow> [[x]] | p # ps \<Rightarrow> (x # p) # ps))"

fun str_join :: "string \<Rightarrow> string list \<Rightarrow> string" where
  "str_join sep [] = []"
| "str_join sep [x] = x"
| "str_join sep (x # y # ys) = x @ sep @ str_join sep (y # ys)"

text \<open>The fields between separators, without the empty ones.\<close>

fun fields_by :: "(char \<Rightarrow> bool) \<Rightarrow> string \<Rightarrow> string list" where
  "fields_by sep [] = []"
| "fields_by sep (x # xs) =
     (if sep x then fields_by sep xs
      else case xs of
             [] \<Rightarrow> [[x]]
           | y # ys \<Rightarrow> if sep y then [x] # fields_by sep xs else (case fields_by sep xs of [] \<Rightarrow> [[x]] | p # ps \<Rightarrow> (x # p) # ps))"

lemma split_nonempty [simp]: "split_char c s \<noteq> []"
  by (induction s) (auto split: list.split)

lemma split_clean: "p \<in> set (split_char c s) \<Longrightarrow> c \<notin> set p"
proof (induction s arbitrary: p)
  case (Cons x xs)
  obtain q qs where q: "split_char c xs = q # qs" using split_nonempty [of c xs] by (cases "split_char c xs") auto
  then show ?case using Cons by (auto split: if_splits)
qed simp

lemma split_join: "str_join [c] (split_char c s) = s"
proof (induction s)
  case (Cons x xs)
  obtain q qs where q: "split_char c xs = q # qs" using split_nonempty [of c xs] by (cases "split_char c xs") auto
  then show ?case using Cons by (cases qs) auto
qed simp

lemma split_append: "c \<notin> set p \<Longrightarrow> split_char c (p @ c # s) = p # split_char c s"
  by (induction p) auto

lemma split_single: "c \<notin> set p \<Longrightarrow> split_char c p = [p]"
  by (induction p) auto

lemma join_split: "ps \<noteq> [] \<Longrightarrow> \<forall>p\<in>set ps. c \<notin> set p \<Longrightarrow> split_char c (str_join [c] ps) = ps"
proof (induction ps rule: induct_list012)
  case (3 x y ys)
  then show ?case using split_append [of c x "str_join [c] (y # ys)"] by simp
qed (simp_all add: split_single)

end
