(* ===== verification/Cel_Render.thy ===== *)
theory Cel_Render
  imports Cel_Sql Filter_Parse Base64 Text
begin

text \<open>
  The SQL text of a compiled search expression (\<^verbatim>\<open>src/cmd/internal/celsql/celsql.go\<close>), what a reader of SQL finds in it, and the
  limits of the compiler.
\<close>

section \<open>Text\<close>

definition ReplaceChar :: "char \<Rightarrow> string \<Rightarrow> string \<Rightarrow> string" where
  "ReplaceChar c new s = concat (map (\<lambda>x. if x = c then new else [x]) s)"

definition sq :: char where "sq = CHR 0x27"
definition dq :: char where "dq = CHR 0x22"
definition bslash :: char where "bslash = CHR 0x5C"

lemmas quote_defs = sq_def dq_def bslash_def

definition quoteString :: "string \<Rightarrow> string" where
  "quoteString s = sq # ReplaceChar sq [sq, sq] s @ [sq]"

definition quoteIdent :: "string \<Rightarrow> string" where
  "quoteIdent s = dq # ReplaceChar dq [dq, dq] s @ [dq]"

definition FormatInt :: "int \<Rightarrow> string" where
  "FormatInt i = (if i < 0 then CHR ''-'' # dec_string (nat (- i)) else dec_string (nat i))"

definition sqlite_path :: "string list \<Rightarrow> string" where
  "sqlite_path path = CHR ''$'' # concat (map (\<lambda>k. CHR ''.'' # dq # ReplaceChar dq [dq, dq] k @ [dq]) path)"

definition pg_path :: "string list \<Rightarrow> string" where
  "pg_path path =
     CHR 0x7B # str_join '','' (map (\<lambda>k. dq # ReplaceChar dq [bslash, dq] (ReplaceChar bslash [bslash, bslash] k) @ [dq]) path) @ [CHR 0x7D]"

fun render :: "dialect \<Rightarrow> sqlNode \<Rightarrow> string" where
  "render d (ColNode n) = quoteIdent n"
| "render d (StrNode s) = quoteString s"
| "render d (IntNode i) = FormatInt i"
| "render d (BoolNode b) = (case d of SQLite \<Rightarrow> if b then ''1'' else ''0'' | Postgres \<Rightarrow> if b then ''TRUE'' else ''FALSE'')"
| "render d (ConcatNode ps) = ''('' @ str_join '' || '' (map (render d) ps) @ '')''"
| "render d (FuncNode fn args) = fn @ ''('' @ str_join '', '' (map (render d) args) @ '')''"
| "render d (CaseKeyNode k arms) =
     ''CASE '' @ render d k @ concat (map (\<lambda>(w, v). '' WHEN '' @ render d w @ '' THEN '' @ render d v) arms) @ '' ELSE NULL END''"
| "render d (CaseCondNode arms els) =
     ''CASE'' @ concat (map (\<lambda>(c, v). '' WHEN '' @ render d c @ '' THEN '' @ render d v) arms) @ '' ELSE '' @ render d els @ '' END''"
| "render d (CmpNode sqlop l r) = ''('' @ render d l @ '' '' @ sqlop @ '' '' @ render d r @ '')''"
| "render d (BoolOpNode sqlop args) = ''('' @ str_join ('' '' @ sqlop @ '' '') (map (render d) args) @ '')''"
| "render d (NotNode n) = ''(NOT '' @ render d n @ '')''"
| "render d (JsonNode base path) =
     (if d = SQLite then ''json_extract('' @ quoteIdent base @ '', '' @ quoteString (sqlite_path path) @ '')''
      else if length path = 1 then ''('' @ quoteIdent base @ '' ->> '' @ quoteString (path ! 0) @ '')''
      else ''('' @ quoteIdent base @ '' #>> '' @ quoteString (pg_path path) @ '')'')"

text \<open>\<open>check\<close> parses and checks against the message; \<open>present\<close> says whether there is a descriptor.\<close>

definition CompileCEL :: "(string \<Rightarrow> string + cel \<times> (cel \<Rightarrow> kind)) \<Rightarrow> bool \<Rightarrow> string \<Rightarrow> string + string \<times> string" where
  "CompileCEL check present expr =
     (if \<not> present then Inl ''celsql: nil message descriptor''
      else if TrimSpace expr = [] then Inl ''celsql: empty expression''
      else case check expr of
             Inl e \<Rightarrow> Inl (''celsql: type-check failed: '' @ e)
           | Inr (e, ty) \<Rightarrow>
               if ty e \<noteq> TString then Inl ''celsql: search source must evaluate to a string''
               else case compile ty e of Inl er \<Rightarrow> Inl er | Inr n \<Rightarrow> Inr (render Postgres n, render SQLite n))"

section \<open>A reader of SQL\<close>

datatype sqltok = TokStr string | TokId string | TokWord string | TokSym char

text \<open>The text up to the closing quote, where a doubled quote stands for one, and the rest.\<close>

fun read_quoted :: "char \<Rightarrow> string \<Rightarrow> string \<times> string" where
  "read_quoted q [] = ([], [])"
| "read_quoted q [c] = (if c = q then ([], []) else ([c], []))"
| "read_quoted q (c # d # s) =
     (if c = q then (if d = q then (case read_quoted q s of (v, r) \<Rightarrow> (q # v, r)) else ([], d # s))
      else (case read_quoted q (d # s) of (v, r) \<Rightarrow> (c # v, r)))"

lemma read_quoted_length: "length (snd (read_quoted q s)) \<le> length s"
  by (induction q s rule: read_quoted.induct) (auto split: prod.splits)

definition word_char :: "char \<Rightarrow> bool" where
  "word_char c \<longleftrightarrow> (let b = (of_char c :: nat) in (48 \<le> b \<and> b \<le> 57) \<or> (65 \<le> b \<and> b \<le> 90) \<or> (97 \<le> b \<and> b \<le> 122) \<or> b = 95)"

function lex_sql :: "string \<Rightarrow> sqltok list" where
  "lex_sql s =
     (case s of
        [] \<Rightarrow> []
      | c # r \<Rightarrow>
          if c = CHR '' '' then lex_sql r
          else if c = sq then TokStr (fst (read_quoted sq r)) # lex_sql (snd (read_quoted sq r))
          else if c = dq then TokId (fst (read_quoted dq r)) # lex_sql (snd (read_quoted dq r))
          else if word_char c then TokWord (c # takeWhile word_char r) # lex_sql (dropWhile word_char r)
          else TokSym c # lex_sql r)"
  by pat_completeness auto

termination
  by (relation "measure length") (auto simp: le_imp_less_Suc read_quoted_length length_dropWhile_le)

declare lex_sql.simps [simp del]

lemma lex_simps:
  "lex_sql [] = []"
  "lex_sql (CHR '' '' # r) = lex_sql r"
  "lex_sql (sq # r) = TokStr (fst (read_quoted sq r)) # lex_sql (snd (read_quoted sq r))"
  "lex_sql (dq # r) = TokId (fst (read_quoted dq r)) # lex_sql (snd (read_quoted dq r))"
  "word_char c \<Longrightarrow> lex_sql (c # r) = TokWord (c # takeWhile word_char r) # lex_sql (dropWhile word_char r)"
  "c \<noteq> CHR '' '' \<Longrightarrow> c \<noteq> sq \<Longrightarrow> c \<noteq> dq \<Longrightarrow> \<not> word_char c \<Longrightarrow> lex_sql (c # r) = TokSym c # lex_sql r"
  by (subst lex_sql.simps; auto simp: quote_defs word_char_def)+

lemma read_quote:
  assumes "r = [] \<or> hd r \<noteq> q"
  shows "read_quoted q (ReplaceChar q [q, q] s @ q # r) = (s, r)"
proof (induction s)
  case Nil
  then show ?case using assms by (cases r) (auto simp: ReplaceChar_def)
next
  case (Cons c s)
  show ?case
  proof (cases "c = q")
    case True
    then show ?thesis using Cons by (simp add: ReplaceChar_def)
  next
    case False
    obtain x xs where x: "ReplaceChar q [q, q] s @ q # r = x # xs" by (cases "ReplaceChar q [q, q] s @ q # r") auto
    have "ReplaceChar q [q, q] (c # s) = c # ReplaceChar q [q, q] s" using False by (simp add: ReplaceChar_def)
    then show ?thesis using Cons False x by simp
  qed
qed

section \<open>Only literals and names of the expression\<close>

text \<open>The constants of an expression and the fields that it selects.\<close>

fun cel_strings :: "cel \<Rightarrow> string set" where
  "cel_strings (CLit (CelStr s)) = {s}"
| "cel_strings (CSelect tst op f) = cel_strings op"
| "cel_strings (CCall fn t args) = (\<Union>a\<in>set args. cel_strings a) \<union> (case t of Some r \<Rightarrow> cel_strings r | None \<Rightarrow> {})"
| "cel_strings (CMap es) = (\<Union>(k, v)\<in>set es. cel_strings k \<union> cel_strings v)"
| "cel_strings _ = {}"

fun cel_fields :: "cel \<Rightarrow> string set" where
  "cel_fields (CSelect tst op f) = insert f (cel_fields op)"
| "cel_fields (CCall fn t args) = (\<Union>a\<in>set args. cel_fields a) \<union> (case t of Some r \<Rightarrow> cel_fields r | None \<Rightarrow> {})"
| "cel_fields (CMap es) = (\<Union>(k, v)\<in>set es. cel_fields v)"
| "cel_fields _ = {}"

definition vocabulary :: "string set" where
  "vocabulary = {''CASE'', ''WHEN'', ''THEN'', ''ELSE'', ''END'', ''NULL'', ''TRUE'', ''FALSE'', ''AND'', ''OR'', ''NOT'',
     ''lower'', ''replace'', ''json_extract''}"

definition number :: "string \<Rightarrow> bool" where
  "number w \<longleftrightarrow> (\<exists>n. w = dec_string n)"

definition tok_ok :: "string set \<Rightarrow> string set \<Rightarrow> sqltok \<Rightarrow> bool" where
  "tok_ok S N t =
     (case t of
        TokStr s \<Rightarrow> s \<in> S \<union> N \<or> (\<exists>ks. set ks \<subseteq> S \<union> N \<and> (s = pg_path ks \<or> s = sqlite_path ks))
      | TokId c \<Rightarrow> c \<in> N
      | TokWord w \<Rightarrow> w \<in> vocabulary \<or> number w
      | TokSym c \<Rightarrow> c \<in> set ''()|,<>=-#'')"

text \<open>The nodes with constants and names from given sets and the operators of the compiler.\<close>

fun made_of :: "string set \<Rightarrow> string set \<Rightarrow> sqlNode \<Rightarrow> bool" where
  "made_of S N (ColNode n) \<longleftrightarrow> n \<in> N"
| "made_of S N (StrNode s) \<longleftrightarrow> s \<in> S"
| "made_of S N (IntNode i) \<longleftrightarrow> True"
| "made_of S N (BoolNode b) \<longleftrightarrow> True"
| "made_of S N (ConcatNode ps) \<longleftrightarrow> (\<forall>p\<in>set ps. made_of S N p)"
| "made_of S N (FuncNode fn args) \<longleftrightarrow> fn \<in> {''lower'', ''replace''} \<and> (\<forall>p\<in>set args. made_of S N p)"
| "made_of S N (CaseKeyNode k arms) \<longleftrightarrow> made_of S N k \<and> (\<forall>(w, v)\<in>set arms. made_of S N w \<and> made_of S N v)"
| "made_of S N (CaseCondNode arms els) \<longleftrightarrow> (\<forall>(c, v)\<in>set arms. made_of S N c \<and> made_of S N v) \<and> made_of S N els"
| "made_of S N (CmpNode sqlop l r) \<longleftrightarrow> sqlop \<in> {''='', ''<>''} \<and> made_of S N l \<and> made_of S N r"
| "made_of S N (BoolOpNode sqlop args) \<longleftrightarrow> sqlop \<in> {''AND'', ''OR''} \<and> (\<forall>p\<in>set args. made_of S N p)"
| "made_of S N (NotNode n) \<longleftrightarrow> made_of S N n"
| "made_of S N (JsonNode base path) \<longleftrightarrow> base \<in> N \<and> set path \<subseteq> S \<union> N"

text \<open>Text that reads as good tokens before anything, and before a space, a comma, a parenthesis or the end.\<close>

definition hard :: "string set \<Rightarrow> string set \<Rightarrow> string \<Rightarrow> bool" where
  "hard S N a \<longleftrightarrow> (\<forall>r. \<exists>ts. lex_sql (a @ r) = ts @ lex_sql r \<and> (\<forall>t\<in>set ts. tok_ok S N t))"

definition break :: "string \<Rightarrow> bool" where
  "break r \<longleftrightarrow> r = [] \<or> hd r \<in> {CHR '' '', CHR '','', CHR '')''}"

definition soft :: "string set \<Rightarrow> string set \<Rightarrow> string \<Rightarrow> bool" where
  "soft S N a \<longleftrightarrow> (\<forall>r. break r \<longrightarrow> (\<exists>ts. lex_sql (a @ r) = ts @ lex_sql r \<and> (\<forall>t\<in>set ts. tok_ok S N t)))"

lemma hardI: "(\<And>r. lex_sql (a @ r) = ts @ lex_sql r) \<Longrightarrow> \<forall>t\<in>set ts. tok_ok S N t \<Longrightarrow> hard S N a"
  unfolding hard_def by blast

lemma softI: "(\<And>r. break r \<Longrightarrow> lex_sql (a @ r) = ts @ lex_sql r) \<Longrightarrow> \<forall>t\<in>set ts. tok_ok S N t \<Longrightarrow> soft S N a"
  unfolding soft_def by blast

lemma hard_append: "hard S N a \<Longrightarrow> hard S N b \<Longrightarrow> hard S N (a @ b)"
  unfolding hard_def append_assoc by (metis Un_iff append_assoc set_append)

lemma hard_soft: "hard S N a \<Longrightarrow> soft S N b \<Longrightarrow> soft S N (a @ b)"
  unfolding hard_def soft_def append_assoc by (metis Un_iff append_assoc set_append)

lemma soft_hard:
  assumes "soft S N a" "hard S N b" "b \<noteq> []" "break b"
  shows "hard S N (a @ b)"
  unfolding hard_def
proof
  fix r
  have "break (b @ r)" using assms(3,4) by (auto simp: break_def)
  then obtain ts where "lex_sql (a @ b @ r) = ts @ lex_sql (b @ r)" "\<forall>t\<in>set ts. tok_ok S N t" using assms(1) unfolding soft_def by blast
  moreover obtain us where "lex_sql (b @ r) = us @ lex_sql r" "\<forall>t\<in>set us. tok_ok S N t" using assms(2) unfolding hard_def by blast
  ultimately show "\<exists>ts. lex_sql ((a @ b) @ r) = ts @ lex_sql r \<and> (\<forall>t\<in>set ts. tok_ok S N t)"
    by (intro exI [of _ "ts @ us"]) auto
qed

lemma soft_soft:
  assumes "soft S N a" "soft S N b" "b \<noteq> []" "break b"
  shows "soft S N (a @ b)"
  unfolding soft_def
proof (intro allI impI)
  fix r assume r: "break r"
  have "break (b @ r)" using assms(3,4) by (auto simp: break_def)
  then obtain ts where "lex_sql (a @ b @ r) = ts @ lex_sql (b @ r)" "\<forall>t\<in>set ts. tok_ok S N t" using assms(1) unfolding soft_def by blast
  moreover obtain us where "lex_sql (b @ r) = us @ lex_sql r" "\<forall>t\<in>set us. tok_ok S N t" using assms(2) r unfolding soft_def by blast
  ultimately show "\<exists>ts. lex_sql ((a @ b) @ r) = ts @ lex_sql r \<and> (\<forall>t\<in>set ts. tok_ok S N t)"
    by (intro exI [of _ "ts @ us"]) auto
qed

lemma hard_is_soft: "hard S N a \<Longrightarrow> soft S N a"
  unfolding hard_def soft_def by blast

text \<open>The fixed pieces.\<close>

lemma word_text:
  "word_char CHR ''C''" "word_char CHR ''W''" "word_char CHR ''T''" "word_char CHR ''E''" "word_char CHR ''N''" "word_char CHR ''A''"
  "word_char CHR ''O''" "word_char CHR ''S''" "word_char CHR ''H''" "word_char CHR ''L''" "word_char CHR ''D''" "word_char CHR ''R''"
  "word_char CHR ''U''" "word_char CHR ''F''" "word_char CHR ''l''" "word_char CHR ''o''" "word_char CHR ''w''" "word_char CHR ''e''"
  "word_char CHR ''r''" "word_char CHR ''p''" "word_char CHR ''a''" "word_char CHR ''c''" "word_char CHR ''j''" "word_char CHR ''s''"
  "word_char CHR ''n''" "word_char CHR ''_''" "word_char CHR ''x''" "word_char CHR ''t''" "word_char CHR ''0''" "word_char CHR ''1''"
  "\<not> word_char CHR '' ''" "\<not> word_char CHR ''(''" "\<not> word_char CHR '')''" "\<not> word_char CHR '',''" "\<not> word_char CHR ''|''"
  "\<not> word_char CHR ''=''" "\<not> word_char CHR ''<''" "\<not> word_char CHR ''>''" "\<not> word_char CHR ''-''" "\<not> word_char CHR ''#''"
  by (simp_all add: word_char_def)

lemma break_words: "break r \<Longrightarrow> takeWhile word_char r = [] \<and> dropWhile word_char r = r"
  by (cases r) (auto simp: break_def word_text)

lemma hard_pieces:
  "hard S N ''(''" "hard S N '' || ''" "hard S N '')''" "hard S N '', ''" "hard S N ''CASE ''" "hard S N '' WHEN ''" "hard S N '' THEN ''"
  "hard S N '' ELSE ''" "hard S N '' = ''" "hard S N '' <> ''" "hard S N '' AND ''" "hard S N '' OR ''" "hard S N ''(NOT ''"
  "hard S N ''lower(''" "hard S N ''replace(''" "hard S N ''json_extract(''" "hard S N '' ->> ''" "hard S N '' #>> ''"
proof -
  note lex = lex_simps(2,5,6) word_text quote_defs
  note ok = tok_ok_def vocabulary_def
  show "hard S N ''(''" by (rule hardI [of _ "[TokSym CHR ''('']"]) (simp_all add: lex ok)
  show "hard S N '' || ''" by (rule hardI [of _ "[TokSym CHR ''|'', TokSym CHR ''|'']"]) (simp_all add: lex ok)
  show "hard S N '')''" by (rule hardI [of _ "[TokSym CHR '')'']"]) (simp_all add: lex ok)
  show "hard S N '', ''" by (rule hardI [of _ "[TokSym CHR '','']"]) (simp_all add: lex ok)
  show "hard S N ''CASE ''" by (rule hardI [of _ "[TokWord ''CASE'']"]) (simp_all add: lex ok)
  show "hard S N '' WHEN ''" by (rule hardI [of _ "[TokWord ''WHEN'']"]) (simp_all add: lex ok)
  show "hard S N '' THEN ''" by (rule hardI [of _ "[TokWord ''THEN'']"]) (simp_all add: lex ok)
  show "hard S N '' ELSE ''" by (rule hardI [of _ "[TokWord ''ELSE'']"]) (simp_all add: lex ok)
  show "hard S N '' = ''" by (rule hardI [of _ "[TokSym CHR ''='']"]) (simp_all add: lex ok)
  show "hard S N '' <> ''" by (rule hardI [of _ "[TokSym CHR ''<'', TokSym CHR ''>'']"]) (simp_all add: lex ok)
  show "hard S N '' AND ''" by (rule hardI [of _ "[TokWord ''AND'']"]) (simp_all add: lex ok)
  show "hard S N '' OR ''" by (rule hardI [of _ "[TokWord ''OR'']"]) (simp_all add: lex ok)
  show "hard S N ''(NOT ''" by (rule hardI [of _ "[TokSym CHR ''('', TokWord ''NOT'']"]) (simp_all add: lex ok)
  show "hard S N ''lower(''" by (rule hardI [of _ "[TokWord ''lower'', TokSym CHR ''('']"]) (simp_all add: lex ok)
  show "hard S N ''replace(''" by (rule hardI [of _ "[TokWord ''replace'', TokSym CHR ''('']"]) (simp_all add: lex ok)
  show "hard S N ''json_extract(''" by (rule hardI [of _ "[TokWord ''json_extract'', TokSym CHR ''('']"]) (simp_all add: lex ok)
  show "hard S N '' ->> ''" by (rule hardI [of _ "[TokSym CHR ''-'', TokSym CHR ''>'', TokSym CHR ''>'']"]) (simp_all add: lex ok)
  show "hard S N '' #>> ''" by (rule hardI [of _ "[TokSym CHR ''#'', TokSym CHR ''>'', TokSym CHR ''>'']"]) (simp_all add: lex ok)
qed

lemma soft_pieces:
  "soft S N '' ELSE NULL END''" "soft S N '' END''" "soft S N ''CASE''" "soft S N ''TRUE''" "soft S N ''FALSE''" "soft S N ''0''" "soft S N ''1''"
proof -
  note lex = lex_simps(2,5,6) word_text quote_defs break_words
  note ok = tok_ok_def vocabulary_def
  have "dec_string 0 = ''0''" by (subst dec_string.simps) code_simp
  moreover have "dec_string 1 = ''1''" by (subst dec_string.simps) code_simp
  ultimately have n: "number ''0''" "number ''1''" unfolding number_def by metis+
  show "soft S N '' ELSE NULL END''" by (rule softI [of _ "[TokWord ''ELSE'', TokWord ''NULL'', TokWord ''END'']"]) (simp_all add: lex ok)
  show "soft S N '' END''" by (rule softI [of _ "[TokWord ''END'']"]) (simp_all add: lex ok)
  show "soft S N ''CASE''" by (rule softI [of _ "[TokWord ''CASE'']"]) (simp_all add: lex ok)
  show "soft S N ''TRUE''" by (rule softI [of _ "[TokWord ''TRUE'']"]) (simp_all add: lex ok)
  show "soft S N ''FALSE''" by (rule softI [of _ "[TokWord ''FALSE'']"]) (simp_all add: lex ok)
  show "soft S N ''0''" by (rule softI [of _ "[TokWord ''0'']"]) (simp_all add: lex ok n)
  show "soft S N ''1''" by (rule softI [of _ "[TokWord ''1'']"]) (simp_all add: lex ok n)
qed

text \<open>Quoted text and numbers.\<close>

lemma break_not_quote: "break r \<Longrightarrow> r = [] \<or> hd r \<noteq> sq" "break r \<Longrightarrow> r = [] \<or> hd r \<noteq> dq"
  by (auto simp: break_def quote_defs)

lemma soft_string: "tok_ok S N (TokStr s) \<Longrightarrow> soft S N (quoteString s)"
  by (rule softI [of _ "[TokStr s]"]) (simp_all add: quoteString_def lex_simps(3) read_quote break_not_quote)

lemma soft_ident: "c \<in> N \<Longrightarrow> soft S N (quoteIdent c)"
  by (rule softI [of _ "[TokId c]"]) (simp_all add: quoteIdent_def lex_simps(4) read_quote break_not_quote tok_ok_def)

lemma dec_string_words: "\<forall>c\<in>set (dec_string n). word_char c"
proof (induction n rule: dec_string.induct)
  case (1 n)
  have digit: "word_char (char_of (48 + d))" if "d < 10" for d :: nat
    using that by (simp add: word_char_def of_char_of [where 'a = nat] take_bit_eq_mod)
  show ?case
  proof (cases "n < 10")
    case True
    then show ?thesis using digit by (simp add: dec_string.simps [of n])
  next
    case False
    have "n mod 10 < 10" by simp
    then show ?thesis using False 1 digit by (simp add: dec_string.simps [of n])
  qed
qed

lemma soft_number: "soft S N (dec_string n)"
proof (rule softI [of _ "[TokWord (dec_string n)]"])
  fix r assume r: "break r"
  obtain c w where w: "dec_string n = c # w" using dec_string_hd(1) [of n] by (cases "dec_string n") auto
  have "word_char c" "\<forall>x\<in>set w. word_char x" using dec_string_words [of n] by (simp_all add: w)
  then show "lex_sql (dec_string n @ r) = [TokWord (dec_string n)] @ lex_sql r"
    using break_words [OF r] by (simp add: w lex_simps(5) takeWhile_append dropWhile_append)
qed (auto simp: tok_ok_def number_def)

lemma hard_minus: "hard S N ''-''"
  by (rule hardI [of _ "[TokSym CHR ''-'']"]) (simp_all add: lex_simps(6) word_text quote_defs tok_ok_def)

lemma soft_int: "soft S N (FormatInt i)"
  using hard_soft [OF hard_minus soft_number] by (simp add: FormatInt_def soft_number)

lemma soft_Nil: "soft S N []"
  by (rule softI [of _ "[]"]) simp_all

lemma soft_join:
  assumes "hard S N sep" "break sep" "sep \<noteq> []" "\<forall>x\<in>set xs. soft S N x"
  shows "soft S N (str_join sep xs)"
  using assms(4)
proof (induction xs rule: induct_list012)
  case (3 x y ys)
  then have "soft S N x" "soft S N (str_join sep (y # ys))" by simp_all
  then have "soft S N ((x @ sep) @ str_join sep (y # ys))" using soft_hard [OF _ assms(1,3,2)] hard_soft by blast
  then show ?case by simp
qed (simp_all add: soft_Nil)

lemma soft_concat: "soft S N a \<Longrightarrow> \<forall>b\<in>set bs. soft S N b \<and> b \<noteq> [] \<and> break b \<Longrightarrow> soft S N (a @ concat bs)"
proof (induction bs arbitrary: a)
  case (Cons b bs)
  then have "soft S N (a @ b)" by (intro soft_soft) simp_all
  from Cons.IH [OF this] show ?case using Cons.prems by simp
qed simp

lemma break_pieces:
  "break ('' WHEN '' @ r)" "break ('' THEN '' @ r)" "break ('' ELSE '' @ r)" "break '' ELSE NULL END''" "break '' END''" "break '')''"
  "break '' || ''" "break '', ''" "break '' = ''" "break '' <> ''" "break '' AND ''" "break '' OR ''" "break '' ->> ''" "break '' #>> ''"
  by (simp_all add: break_def)

lemma soft_arm: "soft S N w \<Longrightarrow> soft S N v \<Longrightarrow> soft S N ('' WHEN '' @ w @ '' THEN '' @ v)"
  using hard_soft [OF hard_pieces(6), of S N w] hard_soft [OF hard_pieces(7), of S N v] soft_soft [of S N "'' WHEN '' @ w" "'' THEN '' @ v"]
  by (simp add: break_def)

lemma soft_paren: "soft S N a \<Longrightarrow> soft S N (''('' @ a @ '')'')"
  using hard_soft [OF hard_pieces(1), of S N "a @ '')''"] soft_hard [OF _ hard_pieces(3), of S N a] hard_is_soft
  by (auto simp: break_def)

lemma soft_between: "soft S N a \<Longrightarrow> hard S N p \<Longrightarrow> p \<noteq> [] \<Longrightarrow> break p \<Longrightarrow> soft S N b \<Longrightarrow> soft S N (a @ p @ b)"
  using soft_hard [of S N a p] hard_soft [of S N "a @ p" b] by simp

lemma render_safe: "made_of S N n \<Longrightarrow> soft S N (render d n)"
proof (induction d n rule: render.induct)
  case (1 d c)
  then show ?case by (simp add: soft_ident)
next
  case (2 d s)
  then show ?case by (simp add: soft_string tok_ok_def)
next
  case (3 d i)
  then show ?case by (simp add: soft_int)
next
  case (4 d b)
  then show ?case using soft_pieces [of S N] by (simp split: dialect.split)
next
  case (5 d ps)
  then have "soft S N (str_join '' || '' (map (render d) ps))"
    by (intro soft_join hard_pieces break_pieces) auto
  then show ?case using soft_paren by simp
next
  case (6 d fn args)
  then have j: "soft S N (str_join '', '' (map (render d) args) @ '')'')"
    by (intro soft_between [of _ _ _ "'')''" "[]", simplified] soft_join hard_pieces break_pieces soft_Nil) auto
  have "hard S N (fn @ ''('')" using 6(2) hard_pieces(14,15) [of S N] by auto
  from hard_soft [OF this j] show ?case by simp
next
  case (7 d k arms)
  have "soft S N ('' WHEN '' @ render d w @ '' THEN '' @ render d v)" if "(w, v) \<in> set arms" for w v
    using 7 that by (intro soft_arm) fastforce+
  then have "soft S N ((''CASE '' @ render d k) @ concat (map (\<lambda>(w, v). '' WHEN '' @ render d w @ '' THEN '' @ render d v) arms))"
    using 7(1,4) by (intro soft_concat hard_soft [OF hard_pieces(5)]) (auto simp: break_def)
  from soft_soft [OF this soft_pieces(1)] show ?case by (simp add: break_def)
next
  case (8 d arms els)
  have "soft S N ('' WHEN '' @ render d w @ '' THEN '' @ render d v)" if "(w, v) \<in> set arms" for w v
    using 8 that by (intro soft_arm) fastforce+
  then have "soft S N (''CASE'' @ concat (map (\<lambda>(w, v). '' WHEN '' @ render d w @ '' THEN '' @ render d v) arms))"
    by (intro soft_concat soft_pieces) (auto simp: break_def)
  moreover have "soft S N ('' ELSE '' @ render d els @ '' END'')"
    using 8 hard_soft [OF hard_pieces(8), of S N "render d els"] soft_soft [OF _ soft_pieces(2), of S N "'' ELSE '' @ render d els"]
    by (simp add: break_def)
  ultimately show ?case
    using soft_soft [of S N "''CASE'' @ concat (map (\<lambda>(w, v). '' WHEN '' @ render d w @ '' THEN '' @ render d v) arms)" "'' ELSE '' @ render d els @ '' END''"]
    by (simp add: break_def)
next
  case (9 d sqlop l r)
  then have "soft S N (render d l @ ('' '' @ sqlop @ '' '') @ render d r)"
    by (intro soft_between) (auto simp: hard_pieces break_def)
  then show ?case using soft_paren by fastforce
next
  case (10 d sqlop args)
  then have "soft S N (str_join ('' '' @ sqlop @ '' '') (map (render d) args))"
    by (intro soft_join) (auto simp: hard_pieces break_def)
  then show ?case using soft_paren by simp
next
  case (11 d n)
  then have "soft S N (render d n @ '')'' @ [])" by (intro soft_between soft_Nil hard_pieces break_pieces) auto
  then show ?case using hard_soft [OF hard_pieces(13)] by simp
next
  case (12 d base path)
  have b: "soft S N (quoteIdent base)" using 12 by (simp add: soft_ident)
  have "soft S N (quoteIdent base @ '', '' @ quoteString (sqlite_path path))" if "d = SQLite"
    using 12 by (intro soft_between b soft_string hard_pieces break_pieces) (auto simp: tok_ok_def)
  then have s: "soft S N ((quoteIdent base @ '', '' @ quoteString (sqlite_path path)) @ '')'')" if "d = SQLite"
    using that hard_is_soft [OF soft_hard [OF _ hard_pieces(3)], of S N "quoteIdent base @ '', '' @ quoteString (sqlite_path path)"]
    by (simp add: break_def)
  have "soft S N (quoteIdent base @ '' ->> '' @ quoteString (path ! 0))" if "length path = 1"
    using 12 that by (intro soft_between b soft_string hard_pieces break_pieces) (cases path; auto simp: tok_ok_def)+
  moreover have "soft S N (quoteIdent base @ '' #>> '' @ quoteString (pg_path path))"
    using 12 by (intro soft_between b soft_string hard_pieces break_pieces) (auto simp: tok_ok_def)
  ultimately show ?case using hard_soft [OF hard_pieces(16) s] soft_paren by fastforce
qed

lemma cel_sub:
  "a \<in> set args \<Longrightarrow> cel_strings a \<subseteq> cel_strings (CCall fn t args) \<and> cel_fields a \<subseteq> cel_fields (CCall fn t args)"
  "cel_strings r \<subseteq> cel_strings (CCall fn (Some r) args) \<and> cel_fields r \<subseteq> cel_fields (CCall fn (Some r) args)"
  "(k, v) \<in> set es \<Longrightarrow> cel_strings k \<subseteq> cel_strings (CMap es) \<and> cel_strings v \<subseteq> cel_strings (CMap es) \<and> cel_fields v \<subseteq> cel_fields (CMap es)"
  by auto

lemma made_of_mono: "made_of S N n \<Longrightarrow> S \<subseteq> S' \<Longrightarrow> N \<subseteq> N' \<Longrightarrow> made_of S' N' n"
  by (induction S N n rule: made_of.induct) (auto; fastforce)+

lemma leaf_sub: "x \<in> set (add_leaves ty e) \<Longrightarrow> cel_strings x \<subseteq> cel_strings e \<and> cel_fields x \<subseteq> cel_fields e"
proof (induction ty e rule: add_leaves.induct)
  case (1 ty fn t args)
  show ?case
  proof (cases "fn = op_Add \<and> ty (CCall fn t args) = TString")
    case True
    then obtain a where a: "a \<in> set args" "x \<in> set (add_leaves ty a)" using 1(2) by auto
    show ?thesis using 1(1) [OF True a] cel_sub(1) [OF a(1), of fn t] by blast
  next
    case False
    have "x = CCall fn t args" using 1(2) unfolding add_leaves.simps if_not_P [OF False] by simp
    then show ?thesis by simp
  qed
qed simp_all

lemma chain_sub: "resolveAccessChain e = Inr (b, ks) \<Longrightarrow> b \<in> cel_fields e \<and> set ks \<subseteq> cel_strings e \<union> cel_fields e"
proof (induction e arbitrary: b ks rule: resolveAccessChain.induct)
  case (1 tst op f)
  then show ?case by (auto split: if_splits sum.splits)
next
  case (2 fn t m key)
  obtain k ks' where k: "fn = op_Index" "key = CLit (CelStr k)" "resolveAccessChain m = Inr (b, ks')" "ks = ks' @ [k]"
    using "2.prems"(1) by (auto split: if_splits cel.splits cel_lit.splits sum.splits)
  then show ?case using "2.IH" by auto
qed (auto split: if_splits)

lemma literal_made_of: "literalNode l = Inr n \<Longrightarrow> made_of (cel_strings (CLit l)) N n"
  by (cases l) (auto simp: literalNode_def)

lemma compile_made_of: "compile ty e = Inr n \<Longrightarrow> made_of (cel_strings e) (cel_fields e) n"
proof (induction e arbitrary: n rule: measure_induct_rule [of size])
  case (less e)
  show ?case
  proof (cases e)
    case (CLit l)
    then show ?thesis using less.prems literal_made_of [of l] by simp
  next
    case (CSelect tst sel f)
    show ?thesis
    proof (cases "sel = CIdent RootVar")
      case True
      then show ?thesis using less.prems CSelect by (auto split: if_splits)
    next
      case False
      then obtain b ks where r: "resolveAccessChain e = Inr (b, ks)" "n = JsonNode b ks"
        using less.prems CSelect by (auto simp: map_sum_Inr simp del: resolveAccessChain.simps split: if_splits)
      then show ?thesis using chain_sub [OF r(1)] by simp
    qed
  next
    case (CCall fn t args)
    have arg: "made_of (cel_strings e) (cel_fields e) m" if "a \<in> set args" "compile ty a = Inr m" for a m
      using made_of_mono [OF less.IH [OF _ that(2)]] arg_size [OF that(1), of fn t] cel_sub(1) [OF that(1), of fn t] CCall by blast
    have len: "length ns = length args" if "seq (map (compile ty) args) = Inr ns" for ns
      using arg_cong [OF that [unfolded seq_Inr], of length] by simp
    have args: "\<forall>m\<in>set ns. made_of (cel_strings e) (cel_fields e) m" if "seq (map (compile ty) args) = Inr ns" for ns
    proof
      fix m assume "m \<in> set ns"
      then obtain i where i: "i < length ns" "m = ns ! i" by (auto simp: in_set_conv_nth)
      have "length ns = length args" using arg_cong [OF that [unfolded seq_Inr], of length] by simp
      then show "made_of (cel_strings e) (cel_fields e) m" using arg [OF nth_mem compiled_args(2) [OF that]] i by simp
    qed
    have recv: "made_of (cel_strings e) (cel_fields e) m" if "t = Some r" "compile ty r = Inr m" for r m
      using made_of_mono [OF less.IH [OF _ that(2)]] cel_sub(2) [of r fn args] CCall that(1) by simp
    consider "fn = op_Conditional" | "fn = op_Index" | "fn = op_Add" | "fn = op_Equals \<or> fn = op_NotEquals" | "fn = op_LogicalAnd \<or> fn = op_LogicalOr"
      | "fn = op_LogicalNot" | "fn = ''lowerAscii''" | "fn = ''replace''"
      using less.prems CCall by (auto split: if_splits)
    then show ?thesis
    proof cases
      case 1
      then obtain ns where "length args = 3" "seq (map (compile ty) args) = Inr ns" "n = CaseCondNode [(ns ! 0, ns ! 1)] (ns ! 2)"
        using less.prems CCall by (auto simp: compileTernary_def map_sum_Inr split: if_splits)
      moreover from this have "length ns = 3" using len by simp
      ultimately show ?thesis using args by simp
    next
      case 2
      then have two: "length args = 2" using less.prems CCall by (auto simp: op_distinct split: if_splits)
      show ?thesis
      proof (cases "entries_of (args ! 0)")
        case (Some es)
        then have m: "args ! 0 = CMap es" by simp
        have mem: "CMap es \<in> set args" using m two nth_mem [of 0 args] by simp
        obtain kn arms where kn: "compile ty (args ! 1) = Inr kn" "n = CaseKeyNode kn arms"
          and arms: "seq (map (\<lambda>(k, v). case k of
                       CLit l \<Rightarrow> (case literalNode l of Inl e \<Rightarrow> Inl e | Inr n \<Rightarrow> (case v of Inl e \<Rightarrow> Inl e | Inr vn \<Rightarrow> Inr (n, vn)))
                     | _ \<Rightarrow> Inl ''celsql: map-literal keys must be literals'') (map (\<lambda>(k, v). (k, compile ty v)) es)) = Inr arms"
          using less.prems CCall 2 two m by (auto simp: op_distinct compileMapLiteralLookup_def map_sum_Inr split: sum.splits)
        have "list_all2 (\<lambda>(k, u) (w, n). \<exists>l. k = CLit l \<and> literalNode l = Inr w \<and> compile ty u = Inr n) es arms"
          using arms unfolding seq_Inr
        proof (induction es arbitrary: arms)
          case (Cons a es)
          then show ?case by (cases arms; cases a) (auto split: cel.splits sum.splits)
        qed simp
        then have "\<forall>a\<in>set arms. \<exists>l u. (CLit l, u) \<in> set es \<and> literalNode l = Inr (fst a) \<and> compile ty u = Inr (snd a)"
        proof (induction es arms rule: list_all2_induct)
          case (Cons x xs y ys)
          then show ?case by (cases x; cases y) fastforce
        qed simp
        moreover have "made_of (cel_strings e) (cel_fields e) w \<and> made_of (cel_strings e) (cel_fields e) x"
          if u: "(CLit l, u) \<in> set es" "literalNode l = Inr w" "compile ty u = Inr x" for l u w x
        proof
          note sub = cel_sub(3) [OF u(1)] cel_sub(1) [OF mem, of fn t]
          show "made_of (cel_strings e) (cel_fields e) w"
            using made_of_mono [OF literal_made_of [OF u(2)], of "cel_strings e" "cel_fields e" "cel_fields e"] sub CCall by blast
          have "size u < size e" using entry_size [OF u(1)] arg_size [OF mem, of fn t] CCall by simp
          then show "made_of (cel_strings e) (cel_fields e) x" using made_of_mono [OF less.IH [OF _ u(3)]] sub CCall by blast
        qed
        ultimately show ?thesis using arg [of "args ! 1" kn] kn two by fastforce
      next
        case None
        then obtain b ks where r: "resolveAccessChain e = Inr (b, ks)" "n = JsonNode b ks"
          using less.prems CCall 2 two by (auto simp: op_distinct entries_of_def map_sum_Inr split: cel.splits)
        then show ?thesis using chain_sub [OF r(1)] by simp
      qed
    next
      case 3
      then obtain ns where ns: "seq (map (compile ty) (concat (map (add_leaves ty) args))) = Inr ns" "n = ConcatNode ns"
        using less.prems CCall by (auto simp: op_distinct map_sum_Inr split: if_splits)
      have "made_of (cel_strings e) (cel_fields e) m" if "m \<in> set ns" for m
      proof -
        have len: "length ns = length (concat (map (add_leaves ty) args))" using arg_cong [OF ns(1) [unfolded seq_Inr], of length] by simp
        obtain i where i: "i < length ns" "m = ns ! i" using \<open>m \<in> set ns\<close> by (auto simp: in_set_conv_nth)
        let ?x = "concat (map (add_leaves ty) args) ! i"
        have c: "compile ty ?x = Inr m" using compiled_args(2) [OF ns(1)] i len by simp
        have "?x \<in> set (concat (map (add_leaves ty) args))" using i len by (intro nth_mem) simp
        then obtain a where a: "a \<in> set args" "?x \<in> set (add_leaves ty a)" by auto
        have "size ?x < size e" using leaf_size [OF a(2)] arg_size [OF a(1), of fn t] CCall by simp
        moreover have "cel_strings ?x \<subseteq> cel_strings e" "cel_fields ?x \<subseteq> cel_fields e"
          using leaf_sub [OF a(2)] cel_sub(1) [OF a(1), of fn t] unfolding CCall by (blast, blast)
        ultimately show ?thesis using made_of_mono [OF less.IH [OF _ c]] by simp
      qed
      then show ?thesis by (simp add: ns(2))
    next
      case 4
      define sqlop where "sqlop = (if fn = op_Equals then ''='' else ''<>'')"
      then have "compileCmp sqlop (map (compile ty) args) = Inr n" using less.prems CCall 4 by (auto simp: op_distinct)
      then obtain ns where ns: "length args = 2" "seq (map (compile ty) args) = Inr ns" "n = CmpNode sqlop (ns ! 0) (ns ! 1)"
        by (auto simp: compileCmp_def map_sum_Inr split: if_splits)
      then have "length ns = 2" using len by simp
      then show ?thesis using args [OF ns(2)] by (simp add: ns(3) sqlop_def)
    next
      case 5
      define sqlop where "sqlop = (if fn = op_LogicalAnd then ''AND'' else ''OR'')"
      then have "compileBoolOp sqlop (map (compile ty) args) = Inr n" using less.prems CCall 5 by (auto simp: op_distinct)
      then obtain ns where ns: "seq (map (compile ty) args) = Inr ns" "n = BoolOpNode sqlop ns"
        by (auto simp: compileBoolOp_def map_sum_Inr)
      then show ?thesis using args [OF ns(1)] by (simp add: ns(2) sqlop_def)
    next
      case 6
      then obtain ns where "length args = 1" "seq (map (compile ty) args) = Inr ns" "n = NotNode (ns ! 0)"
        using less.prems CCall by (auto simp: op_distinct compileNot_def map_sum_Inr split: if_splits)
      moreover from this have "length ns = 1" using len by simp
      ultimately show ?thesis using args by simp
    next
      case 7
      then obtain r rn where "t = Some r" "compile ty r = Inr rn" "n = FuncNode ''lower'' [rn]"
        using less.prems CCall fn_ne [of fn] by (auto simp: compileLower_def map_sum_Inr split: option.splits if_splits)
      then show ?thesis using recv by simp
    next
      case 8
      then obtain r ns where r: "t = Some r" "seq (compile ty r # map (compile ty) args) = Inr ns" "n = FuncNode ''replace'' ns"
        using less.prems CCall fn_ne [of fn] by (auto simp: compileReplace_def map_sum_Inr split: option.splits if_splits)
      obtain rn as where "compile ty r = Inr rn" "seq (map (compile ty) args) = Inr as" "ns = rn # as"
        using r(2) unfolding seq_Inr by (cases ns) auto
      then show ?thesis using recv [OF r(1)] args r(3) by simp
    qed
  qed (use less.prems in \<open>auto split: if_splits\<close>)
qed

section \<open>Reading a path back\<close>

text \<open>An element of a PostgreSQL array literal in double quotes, with a backslash before a literal character, and the array.\<close>

fun pg_elem :: "string \<Rightarrow> string \<times> string" where
  "pg_elem [] = ([], [])"
| "pg_elem [c] = (if c = dq then ([], []) else ([c], []))"
| "pg_elem (c # d # s) =
     (if c = dq then ([], d # s)
      else if c = bslash then (case pg_elem s of (v, r) \<Rightarrow> (d # v, r))
      else (case pg_elem (d # s) of (v, r) \<Rightarrow> (c # v, r)))"

lemma pg_elem_length: "length (snd (pg_elem s)) \<le> length s"
  by (induction s rule: pg_elem.induct) (auto split: prod.splits)

function read_array :: "string \<Rightarrow> string list option" where
  "read_array s =
     (case s of
        [] \<Rightarrow> None
      | c # r \<Rightarrow>
          if c \<noteq> dq then None
          else case snd (pg_elem r) of
                 [] \<Rightarrow> None
               | d # r' \<Rightarrow>
                   if d = CHR '','' then map_option ((#) (fst (pg_elem r))) (read_array r')
                   else if d = CHR 0x7D \<and> r' = [] then Some [fst (pg_elem r)] else None)"
  by pat_completeness auto

termination
proof (relation "measure length")
  fix s c r d r' assume "s = c # r" "snd (pg_elem r) = d # r'"
  then show "(r', s) \<in> measure length" using pg_elem_length [of r] by simp
qed simp

declare read_array.simps [simp del]

lemma pg_elem_read: "pg_elem (ReplaceChar dq [bslash, dq] (ReplaceChar bslash [bslash, bslash] k) @ dq # r) = (k, r)"
proof (induction k)
  case Nil
  then show ?case by (cases r) (simp_all add: ReplaceChar_def)
next
  case (Cons c k)
  let ?e = "\<lambda>k. ReplaceChar dq [bslash, dq] (ReplaceChar bslash [bslash, bslash] k)"
  have ne: "bslash \<noteq> dq" by (simp add: quote_defs)
  have e: "?e (c # k) = (if c = bslash then [bslash, bslash] else if c = dq then [bslash, dq] else [c]) @ ?e k"
    using ne by (simp add: ReplaceChar_def)
  obtain x xs where x: "?e k @ dq # r = x # xs" by (cases "?e k @ dq # r") auto
  show ?case using Cons ne x unfolding e by (auto split: prod.splits)
qed

lemma pg_path_read: "path \<noteq> [] \<Longrightarrow> \<exists>body. pg_path path = CHR 0x7B # body \<and> read_array body = Some path"
proof -
  assume ne: "path \<noteq> []"
  let ?el = "\<lambda>k. dq # ReplaceChar dq [bslash, dq] (ReplaceChar bslash [bslash, bslash] k) @ [dq]"
  have "read_array (str_join '','' (map ?el path) @ [CHR 0x7D]) = Some path" using ne
  proof (induction path rule: induct_list012)
    case (2 k)
    then show ?case by (subst read_array.simps) (simp add: pg_elem_read)
  next
    case (3 k l ks)
    then have IH: "read_array (str_join '','' (map ?el (l # ks)) @ [CHR 0x7D]) = Some (l # ks)" by simp
    have j: "str_join '','' (map ?el (k # l # ks)) = ?el k @ '','' @ str_join '','' (map ?el (l # ks))" by simp
    have "?el k @ '','' @ str_join '','' (map ?el (l # ks)) @ [CHR 0x7D]
        = dq # (ReplaceChar dq [bslash, dq] (ReplaceChar bslash [bslash, bslash] k) @ dq # ('','' @ str_join '','' (map ?el (l # ks)) @ [CHR 0x7D]))"
      by simp
    then show ?case unfolding j append_assoc by (subst read_array.simps) (simp add: pg_elem_read IH del: str_join.simps list.map)
  qed simp
  then show ?thesis by (simp add: pg_path_def)
qed

section \<open>Properties\<close>


text \<open>C25: Whatever an expression holds, the SQL text reads back as tokens of which every string is one of its constants, a selected
  name or a path of these, every identifier a selected field, and everything else a fixed keyword, number or operator.\<close>

theorem celsql_no_injection:
  assumes "check expr = Inr (e, ty)" "CompileCEL check True expr = Inr (pg, lite)"
  shows "\<forall>t\<in>set (lex_sql pg) \<union> set (lex_sql lite). tok_ok (cel_strings e) (cel_fields e) t"
proof -
  obtain n where n: "compile ty e = Inr n" "pg = render Postgres n" "lite = render SQLite n"
    using assms by (auto simp: CompileCEL_def split: if_splits sum.splits)
  have "\<forall>t\<in>set (lex_sql (render d n)). tok_ok (cel_strings e) (cel_fields e) t" for d
  proof -
    have "soft (cel_strings e) (cel_fields e) (render d n)" by (rule render_safe [OF compile_made_of [OF n(1)]])
    moreover have "break []" by (simp add: break_def)
    ultimately obtain ts where "lex_sql (render d n @ []) = ts @ lex_sql []" "\<forall>t\<in>set ts. tok_ok (cel_strings e) (cel_fields e) t"
      unfolding soft_def by blast
    then show ?thesis by (simp add: lex_simps(1))
  qed
  then show ?thesis using n by blast
qed

text \<open>An expression with a condition, a map access and a quote in a constant.\<close>

definition exSearch :: cel where
  "exSearch = CCall op_Conditional None
     [CCall op_Equals None [CSelect False (CIdent RootVar) ''kind'', CLit (CelStr ''host'')],
      CCall op_Add None [CCall op_Index None [CSelect False (CIdent RootVar) ''tags'', CLit (CelStr ''env'')], CLit (CelStr [sq])],
      CCall ''lowerAscii'' (Some (CSelect False (CIdent RootVar) ''name'')) []]"

definition exCheck :: "string \<Rightarrow> string + cel \<times> (cel \<Rightarrow> kind)" where
  "exCheck expr = Inr (exSearch, \<lambda>_. TString)"

definition exRow :: row where
  "exRow f = (if f = ''kind'' then VS ''host'' else if f = ''tags'' then VM [(''env'', VS ''prod'')] else VS ''A'')"

definition exNode :: sqlNode where
  "exNode = CaseCondNode [(CmpNode ''='' (ColNode ''kind'') (StrNode ''host''), ConcatNode [JsonNode ''tags'' [''env''], StrNode [sq]])]
     (FuncNode ''lower'' [ColNode ''name''])"

lemma exCompile: "compile (\<lambda>_. TString) exSearch = Inr exNode"
  by (simp add: exSearch_def exNode_def op_distinct compileTernary_def compileCmp_def compileLower_def literalNode_def RootVar_def op_defs)

lemma exCompileCEL: "CompileCEL exCheck True ''e'' = Inr (render Postgres exNode, render SQLite exNode)"
proof -
  have "TrimSpace ''e'' \<noteq> []" by code_simp
  then show ?thesis by (simp add: CompileCEL_def exCheck_def exCompile)
qed


theorem celsql_no_injection_witness:
  "list_all (tok_ok (cel_strings exSearch) (cel_fields exSearch)) (lex_sql (render Postgres exNode))"
  using celsql_no_injection [of exCheck "''e''" exSearch "\<lambda>_. TString", OF _ exCompileCEL] by (simp add: exCheck_def list_all_iff)

text \<open>Outside the class of the equivalence. An empty pattern of \<^verbatim>\<open>replace\<close> inserts its replacement everywhere, in SQL nowhere. A
  boolean of a JSON column used as condition is text for PostgreSQL, where it is neither true nor false.\<close>

lemma celsql_gaps:
  fixes lib :: sql_lib
  assumes "jsonOther lib Postgres (VB True) = SText ''true''"
  defines "emptied \<equiv> CCall ''replace'' (Some (CSelect False (CIdent RootVar) ''name'')) [CLit (CelStr []), CLit (CelStr ''-'')]"
    and "cond \<equiv> CCall op_Conditional None
      [CCall op_Index None [CSelect False (CIdent RootVar) ''flags'', CLit (CelStr ''on'')], CLit (CelStr ''yes''), CLit (CelStr ''no'')]"
    and "r \<equiv> \<lambda>f. if f = ''flags'' then VM [(''on'', VB True)] else VS ''ab''"
  shows "eval r emptied = Some (VS ''-a-b-'')"
    and "map_sum id (eval_sql lib d r) (compile (\<lambda>_. TString) emptied) = Inr (SText ''ab'')"
    and "eval r cond = Some (VS ''yes'')"
    and "map_sum id (eval_sql lib Postgres r) (compile (\<lambda>_. TString) cond) = Inr (SText ''no'')"
  using assms(1)
  by (simp_all add: emptied_def cond_def r_def op_distinct op_defs RootVar_def compileReplace_def compileTernary_def literalNode_def
      lit_val_def cel_replace_def cel_index_def entries_of_def sql_func_def enc_def truth_def replace_text.simps)

end
