(* ===== verification/Federation.thy ===== *)
theory Federation
  imports Gorm_Outbox
begin

text \<open>
  Federation of resources over service boundaries: references and their batch load (\<^verbatim>\<open>src/reference/reference.go\<close>) and the GraphQL
  gateway that resolves them (\<^verbatim>\<open>src/federationgql/\<close>): masks from selections, the cache of a request, the preload of a
  collection, the edges, the root resolvers and the checks of a schema. The services behind the gateway are parameters, and so
  is the GraphQL library that executes a query; its calls of the resolvers are the steps of a request.
\<close>

section \<open>References\<close>

datatype Cardinality = One | Many

record Reference =
  FieldName :: string
  FKField :: string
  TargetType :: string
  ref_card :: Cardinality

text \<open>A registered client is a batch getter or something else. Its answer may depend on every call made before; a call carries
  the ids and the read masks of the context.\<close>

type_synonym masks = "string \<Rightarrow> string list option"
type_synonym batch_call = "string \<times> string list"
type_synonym 'v getter = "batch_call list \<Rightarrow> string list \<Rightarrow> masks \<Rightarrow> string + 'v list"

datatype 'v client = BatchGetter "'v getter" | OtherClient

type_synonym 'v StaticResolver = "string \<Rightarrow> 'v client option"

definition NewStaticResolver :: "'v StaticResolver" where
  "NewStaticResolver = (\<lambda>_. None)"

definition Register :: "string \<Rightarrow> 'v client \<Rightarrow> 'v StaticResolver \<Rightarrow> 'v StaticResolver" where
  "Register t c r = r(t \<mapsto> c)"

definition ResolverFor :: "'v StaticResolver \<Rightarrow> string \<Rightarrow> 'v client option" where
  "ResolverFor r t = r t"

text \<open>A typed getter as one of the gateway: \<open>wrap\<close> forgets the type.\<close>

definition AnyGetter :: "('t \<Rightarrow> 'v) \<Rightarrow> 't getter \<Rightarrow> 'v getter" where
  "AnyGetter wrap g calls ids m = (case g calls ids m of Inl e \<Rightarrow> Inl e | Inr ts \<Rightarrow> Inr (map wrap ts))"

fun distinct_ids :: "string list \<Rightarrow> string list \<Rightarrow> string list" where
  "distinct_ids out [] = out"
| "distinct_ids out (i # is) = distinct_ids (if i = [] \<or> i \<in> set out then out else out @ [i]) is"

definition keyed_by :: "('v \<Rightarrow> string) \<Rightarrow> 'v list \<Rightarrow> string \<Rightarrow> 'v option" where
  "keyed_by key_of ts = fold (\<lambda>t m. m(key_of t \<mapsto> t)) ts (\<lambda>_. None)"

text \<open>The result, and the calls made.\<close>

definition Load :: "'v StaticResolver \<Rightarrow> masks \<Rightarrow> Reference \<Rightarrow> 'p list \<Rightarrow> ('p \<Rightarrow> string list) \<Rightarrow> ('v \<Rightarrow> string) \<Rightarrow> batch_call list
    \<Rightarrow> (string + (string \<Rightarrow> 'v option)) \<times> batch_call list" where
  "Load resolver m ref parents ids key_of calls =
     (let need = distinct_ids [] (concat (map ids parents)) in
      if need = [] then (Inr (\<lambda>_. None), calls)
      else case ResolverFor resolver (TargetType ref) of
             None \<Rightarrow> (Inl (''reference: no resolver registered for target type '' @ TargetType ref), calls)
           | Some OtherClient \<Rightarrow> (Inl (''reference: resolver is not a BatchGetter: '' @ TargetType ref), calls)
           | Some (BatchGetter g) \<Rightarrow>
               ((case g calls need m of
                   Inl e \<Rightarrow> Inl (''reference: batch get '' @ TargetType ref @ '': '' @ e)
                 | Inr ts \<Rightarrow> Inr (keyed_by key_of ts)), calls @ [(TargetType ref, need)]))"

section \<open>Selections and masks\<close>

text \<open>A selection set that is absent has no selections.\<close>

datatype selection = SField "string option" "selection list" | SInline "selection list" | SSpread "string option"

type_synonym fragments = "string \<Rightarrow> selection list option"

record 'v ScalarField =
  sf_name :: string
  sf_resolve :: "('v \<Rightarrow> string) option"
  MaskPath :: string

definition scalarMaskPaths :: "'v ScalarField list \<Rightarrow> string \<Rightarrow> string option" where
  "scalarMaskPaths sfs = fold (\<lambda>sf m. if MaskPath sf \<noteq> [] then m(sf_name sf \<mapsto> MaskPath sf) else m) sfs (\<lambda>_. None)"

text \<open>A fragment spread is followed through at most \<open>n\<close> fragments; \<open>None\<close> is a recursion that goes on.\<close>

fun collectMaskPaths :: "nat \<Rightarrow> fragments \<Rightarrow> (string \<Rightarrow> string option) \<Rightarrow> selection list \<Rightarrow> string list \<Rightarrow> string list option" where
  "collectMaskPaths n fr m [] out = Some out"
| "collectMaskPaths n fr m (SField nm sub # ss) out =
     collectMaskPaths n fr m ss
       (case nm of
          None \<Rightarrow> out
        | Some f \<Rightarrow> (case m f of None \<Rightarrow> out | Some p \<Rightarrow> if p \<in> set out then out else out @ [p]))"
| "collectMaskPaths n fr m (SInline sub # ss) out =
     (case collectMaskPaths n fr m sub out of None \<Rightarrow> None | Some out' \<Rightarrow> collectMaskPaths n fr m ss out')"
| "collectMaskPaths n fr m (SSpread nm # ss) out =
     (case (case nm of None \<Rightarrow> None | Some f \<Rightarrow> fr f) of
        None \<Rightarrow> collectMaskPaths n fr m ss out
      | Some body \<Rightarrow>
          (case n of
             0 \<Rightarrow> None
           | Suc k \<Rightarrow> (case collectMaskPaths k fr m body out of None \<Rightarrow> None | Some out' \<Rightarrow> collectMaskPaths n fr m ss out')))"

fun findFieldSelections :: "nat \<Rightarrow> fragments \<Rightarrow> string \<Rightarrow> selection list \<Rightarrow> selection list list option" where
  "findFieldSelections n fr name [] = Some []"
| "findFieldSelections n fr name (SField nm sub # ss) =
     map_option (\<lambda>r. if nm = Some name then sub # r else r) (findFieldSelections n fr name ss)"
| "findFieldSelections n fr name (SInline sub # ss) =
     (case findFieldSelections n fr name sub of
        None \<Rightarrow> None | Some a \<Rightarrow> map_option ((@) a) (findFieldSelections n fr name ss))"
| "findFieldSelections n fr name (SSpread nm # ss) =
     (case (case nm of None \<Rightarrow> None | Some f \<Rightarrow> fr f) of
        None \<Rightarrow> findFieldSelections n fr name ss
      | Some body \<Rightarrow>
          (case n of
             0 \<Rightarrow> None
           | Suc k \<Rightarrow> (case findFieldSelections k fr name body of
                         None \<Rightarrow> None | Some a \<Rightarrow> map_option ((@) a) (findFieldSelections n fr name ss))))"

fun collect_all :: "nat \<Rightarrow> fragments \<Rightarrow> (string \<Rightarrow> string option) \<Rightarrow> selection list list \<Rightarrow> string list \<Rightarrow> string list option" where
  "collect_all n fr m [] out = Some out"
| "collect_all n fr m (ss # sss) out =
     (case collectMaskPaths n fr m ss out of None \<Rightarrow> None | Some out' \<Rightarrow> collect_all n fr m sss out')"

definition selfReadMask :: "nat \<Rightarrow> fragments \<Rightarrow> selection list list \<Rightarrow> 'v ScalarField list \<Rightarrow> string list option" where
  "selfReadMask n fr fieldASTs sfs = collect_all n fr (scalarMaskPaths sfs) fieldASTs []"

fun target_masks :: "nat \<Rightarrow> fragments \<Rightarrow> (string \<Rightarrow> string option) \<Rightarrow> string \<Rightarrow> selection list list \<Rightarrow> string list \<Rightarrow> string list option" where
  "target_masks n fr m edge [] out = Some out"
| "target_masks n fr m edge (ss # sss) out =
     (case findFieldSelections n fr edge ss of
        None \<Rightarrow> None
      | Some subs \<Rightarrow> (case collect_all n fr m subs out of None \<Rightarrow> None | Some out' \<Rightarrow> target_masks n fr m edge sss out'))"

definition targetReadMask :: "nat \<Rightarrow> fragments \<Rightarrow> selection list list \<Rightarrow> string \<Rightarrow> 'v ScalarField list \<Rightarrow> string list option" where
  "targetReadMask n fr fieldASTs edge sfs = target_masks n fr (scalarMaskPaths sfs) edge fieldASTs []"

section \<open>The cache of a request\<close>

record 'v requestCache =
  targets :: "string \<Rightarrow> string \<Rightarrow> 'v option"
  fetched :: "string \<Rightarrow> string set"
  cache_errs :: "string \<Rightarrow> string option"

definition newRequestCache :: "'v requestCache" where
  "newRequestCache = \<lparr>targets = (\<lambda>_ _. None), fetched = (\<lambda>_. {}), cache_errs = (\<lambda>_. None)\<rparr>"

definition cache_put :: "string \<Rightarrow> string \<Rightarrow> 'v \<Rightarrow> 'v requestCache \<Rightarrow> 'v requestCache" where
  "cache_put t i v c = c\<lparr>targets := (targets c)(t := (targets c t)(i \<mapsto> v))\<rparr>"

definition cache_get :: "string \<Rightarrow> string \<Rightarrow> 'v requestCache \<Rightarrow> 'v option" where
  "cache_get t i c = targets c t i"

text \<open>\<open>missing_loop\<close> is the loop of \<^verbatim>\<open>missingIDs\<close> over the ids, with those seen so far.\<close>

fun missing_loop :: "string set \<Rightarrow> string set \<Rightarrow> string list \<Rightarrow> string list" where
  "missing_loop got seen [] = []"
| "missing_loop got seen (i # is) =
     (if i = [] \<or> i \<in> seen then missing_loop got seen is
      else if i \<in> got then missing_loop got (insert i seen) is
      else i # missing_loop got (insert i seen) is)"

definition missingIDs :: "string \<Rightarrow> string list \<Rightarrow> 'v requestCache \<Rightarrow> string list" where
  "missingIDs t ids c = missing_loop (fetched c t) {} ids"

definition markFetched :: "string \<Rightarrow> string list \<Rightarrow> 'v requestCache \<Rightarrow> 'v requestCache" where
  "markFetched t ids c = c\<lparr>fetched := (fetched c)(t := fetched c t \<union> set ids)\<rparr>"

definition setErr :: "string \<Rightarrow> string \<Rightarrow> 'v requestCache \<Rightarrow> 'v requestCache" where
  "setErr t e c = c\<lparr>cache_errs := (cache_errs c)(t \<mapsto> e)\<rparr>"

definition errFor :: "string \<Rightarrow> 'v requestCache \<Rightarrow> string option" where
  "errFor t c = cache_errs c t"

definition withReadMask :: "string \<Rightarrow> string list \<Rightarrow> masks \<Rightarrow> masks" where
  "withReadMask t paths m = m(t \<mapsto> paths)"

definition ReadMaskFromContext :: "masks \<Rightarrow> string \<Rightarrow> string list" where
  "ReadMaskFromContext m t = (case m t of None \<Rightarrow> [] | Some p \<Rightarrow> p)"

section \<open>Resources and the preload\<close>

text \<open>The functions that fetch resources are passed to the resolvers below. \<open>EdgeFieldName\<close> and \<open>RefIDs\<close> may be absent.\<close>

record 'v Resource =
  Type :: string
  Name :: string
  Scalars :: "'v ScalarField list"
  References :: "Reference list"
  IDOf :: "('v \<Rightarrow> string) option"
  RefIDs :: "(Reference \<Rightarrow> 'v \<Rightarrow> string list) option"
  EdgeFieldName :: "(Reference \<Rightarrow> string) option"

text \<open>Names of GraphQL are ASCII, on which \<^verbatim>\<open>strings.ToLower\<close> is \<open>lower_ascii\<close>.\<close>

definition lowerFirst :: "string \<Rightarrow> string" where
  "lowerFirst s = (if s = [] then s else lower_ascii (take 1 s) @ drop 1 s)"

definition listFieldName :: "string \<Rightarrow> string" where
  "listFieldName n = lowerFirst n @ ''s''"

definition getFieldName :: "string \<Rightarrow> string" where
  "getFieldName n = lowerFirst n"

type_synonym 'v by_type = "string \<Rightarrow> 'v Resource option"

definition edgeFieldName :: "'v by_type \<Rightarrow> 'v Resource \<Rightarrow> Reference \<Rightarrow> string" where
  "edgeFieldName byType r ref =
     (let n = (case EdgeFieldName r of None \<Rightarrow> [] | Some f \<Rightarrow> f ref) in
      if n \<noteq> [] then n
      else case byType (TargetType ref) of
             Some target \<Rightarrow> lower_ascii (take 1 (Name target)) @ drop 1 (Name target)
           | None \<Rightarrow> lower_ascii (FieldName ref))"

definition loadMissing :: "'v StaticResolver \<Rightarrow> masks \<Rightarrow> Reference \<Rightarrow> 'v Resource \<Rightarrow> string list \<Rightarrow> string list \<Rightarrow> batch_call list
    \<Rightarrow> (string + (string \<Rightarrow> 'v option)) \<times> batch_call list" where
  "loadMissing resolver ctx ref target ids paths calls =
     Load resolver (if paths \<noteq> [] then withReadMask (TargetType ref) paths ctx else ctx) ref [ids] (\<lambda>s. s)
       (\<lambda>t. case IDOf target of None \<Rightarrow> [] | Some f \<Rightarrow> f t) calls"

text \<open>The merged results enter the cache of their type.\<close>

definition put_all :: "string \<Rightarrow> (string \<Rightarrow> 'v option) \<Rightarrow> 'v requestCache \<Rightarrow> 'v requestCache" where
  "put_all t m c = c\<lparr>targets := (targets c)(t := targets c t ++ m)\<rparr>"

text \<open>One reference of the preload; \<open>mask_of\<close> is the mask of an edge, computed from the selection of the field.\<close>

definition preload_ref :: "'v by_type \<Rightarrow> 'v StaticResolver \<Rightarrow> masks \<Rightarrow> (string \<Rightarrow> 'v Resource \<Rightarrow> string list) \<Rightarrow> 'v Resource \<Rightarrow> 'v list
    \<Rightarrow> Reference \<Rightarrow> 'v requestCache \<times> batch_call list \<Rightarrow> 'v requestCache \<times> batch_call list" where
  "preload_ref byType resolver ctx mask_of source parents ref = (\<lambda>(c, calls).
     let t = TargetType ref in
     case byType t of
       None \<Rightarrow> (setErr t (''federationgql: no resource registered for reference target '' @ t) c, calls)
     | Some target \<Rightarrow>
         (case RefIDs source of
            None \<Rightarrow> (setErr t (''federationgql: no RefIDs: '' @ Type source) c, calls)
          | Some refIDs \<Rightarrow>
              let missing = missingIDs t (concat (map (refIDs ref) parents)) c in
              if missing = [] then (c, calls)
              else
                let (r, calls') = loadMissing resolver ctx ref target missing (mask_of (edgeFieldName byType source ref) target) calls;
                    c' = markFetched t missing c
                in (case r of Inl e \<Rightarrow> setErr t e c' | Inr m \<Rightarrow> put_all t m c', calls')))"

definition preloadReferences :: "'v by_type \<Rightarrow> 'v StaticResolver \<Rightarrow> masks \<Rightarrow> (string \<Rightarrow> 'v Resource \<Rightarrow> string list) \<Rightarrow> 'v Resource
    \<Rightarrow> 'v list \<Rightarrow> 'v requestCache \<times> batch_call list \<Rightarrow> 'v requestCache \<times> batch_call list" where
  "preloadReferences byType resolver ctx mask_of source parents =
     fold (preload_ref byType resolver ctx mask_of source parents) (References source)"

section \<open>Edges and root fields\<close>

datatype 'v edge_value = EdgeOne "'v option" | EdgeMany "'v list"

text \<open>The resolver of an edge; there is no cache when the context carries none.\<close>

definition resolve_edge :: "'v Resource \<Rightarrow> Reference \<Rightarrow> 'v requestCache option \<Rightarrow> 'v \<Rightarrow> string + 'v edge_value" where
  "resolve_edge source ref cache obj =
     (case cache of
        None \<Rightarrow> Inl (''federationgql: no request cache in context: '' @ Name source)
      | Some c \<Rightarrow>
          (case RefIDs source of
             None \<Rightarrow> Inl (''federationgql: no RefIDs: '' @ Type source)
           | Some refIDs \<Rightarrow>
               (case errFor (TargetType ref) c of
                  Some e \<Rightarrow> Inl e
                | None \<Rightarrow>
                    let ids = refIDs ref obj in
                    if ref_card ref = Many then Inr (EdgeMany (List.map_filter (\<lambda>i. cache_get (TargetType ref) i c) ids))
                    else if ids = [] \<or> hd ids = [] then Inr (EdgeOne None)
                    else Inr (EdgeOne (cache_get (TargetType ref) (hd ids) c)))))"

record ListArgs =
  PageSize :: int
  PageToken :: string
  list_ReadMask :: "string list"

record GetArgs =
  get_ID :: string
  get_ReadMask :: "string list"

text \<open>Arguments of a field that are absent or of another type keep their zero values.\<close>

definition listResolver :: "'v by_type \<Rightarrow> 'v StaticResolver \<Rightarrow> masks \<Rightarrow> (string \<Rightarrow> 'v Resource \<Rightarrow> string list) \<Rightarrow> string list \<Rightarrow> 'v Resource
    \<Rightarrow> (ListArgs \<Rightarrow> string + 'v list) option \<Rightarrow> int option \<Rightarrow> string option \<Rightarrow> 'v requestCache \<times> batch_call list
    \<Rightarrow> (string + 'v list) \<times> 'v requestCache \<times> batch_call list" where
  "listResolver byType resolver ctx mask_of self_mask r list_fn pageSize pageToken st =
     (case list_fn of
        None \<Rightarrow> (Inl (''federationgql: no List resolver: '' @ Type r), st)
      | Some f \<Rightarrow>
          let args = \<lparr>PageSize = (case pageSize of None \<Rightarrow> 0 | Some n \<Rightarrow> n),
                      PageToken = (case pageToken of None \<Rightarrow> [] | Some t \<Rightarrow> t), list_ReadMask = self_mask\<rparr>
          in (case f args of
                Inl e \<Rightarrow> (Inl e, st)
              | Inr found \<Rightarrow> (Inr found, preloadReferences byType resolver ctx mask_of r found st)))"

definition getResolver :: "'v by_type \<Rightarrow> 'v StaticResolver \<Rightarrow> masks \<Rightarrow> (string \<Rightarrow> 'v Resource \<Rightarrow> string list) \<Rightarrow> string list \<Rightarrow> 'v Resource
    \<Rightarrow> (GetArgs \<Rightarrow> string + 'v option) option \<Rightarrow> string option \<Rightarrow> 'v requestCache \<times> batch_call list
    \<Rightarrow> (string + 'v option) \<times> 'v requestCache \<times> batch_call list" where
  "getResolver byType resolver ctx mask_of self_mask r get_fn id_arg st =
     (case get_fn of
        None \<Rightarrow> (Inl (''federationgql: no Get resolver: '' @ Type r), st)
      | Some f \<Rightarrow>
          (case f \<lparr>get_ID = (case id_arg of None \<Rightarrow> [] | Some i \<Rightarrow> i), get_ReadMask = self_mask\<rparr> of
             Inl e \<Rightarrow> (Inl e, st)
           | Inr None \<Rightarrow> (Inr None, st)
           | Inr (Some obj) \<Rightarrow> (Inr (Some obj), preloadReferences byType resolver ctx mask_of r [obj] st)))"

section \<open>The schema and its handler\<close>

datatype gql_field = GScalar string | GEdge string bool
datatype root_field = RootList string | RootGet string

record schema =
  objects :: "string \<Rightarrow> (string \<times> (string \<Rightarrow> gql_field option)) option"
  query :: "string \<Rightarrow> root_field option"

text \<open>The fields of an object: its scalars, then an edge for each reference to a resource of the schema; a later field of a name
  replaces an earlier one.\<close>

definition object_fields :: "'v by_type \<Rightarrow> 'v Resource \<Rightarrow> string \<Rightarrow> gql_field option" where
  "object_fields byType r =
     fold (\<lambda>ref m. if byType (TargetType ref) = None then m
                   else m(edgeFieldName byType r ref \<mapsto> GEdge (TargetType ref) (ref_card ref = Many))) (References r)
       (fold (\<lambda>sf m. m(sf_name sf \<mapsto> GScalar (sf_name sf))) (Scalars r) (\<lambda>_. None))"

fun index_resources :: "'v Resource list \<Rightarrow> 'v by_type \<Rightarrow> string set \<Rightarrow> string + 'v by_type" where
  "index_resources [] byType seenName = Inr byType"
| "index_resources (r # rs) byType seenName =
     (if Type r = [] then Inl (''federationgql: empty Type: '' @ Name r)
      else if Name r = [] then Inl (''federationgql: empty Name: '' @ Type r)
      else if byType (Type r) \<noteq> None then Inl (''federationgql: duplicate resource Type '' @ Type r)
      else if Name r \<in> seenName then Inl (''federationgql: duplicate resource Name '' @ Name r)
      else index_resources rs (byType(Type r \<mapsto> r)) (insert (Name r) seenName))"

fun buildQuery :: "'v Resource list \<Rightarrow> (string \<Rightarrow> root_field option) \<Rightarrow> string + (string \<Rightarrow> root_field option)" where
  "buildQuery [] seen_fields = Inr seen_fields"
| "buildQuery (r # rs) seen_fields =
     (if seen_fields (listFieldName (Name r)) \<noteq> None then Inl (''federationgql: duplicate root field '' @ listFieldName (Name r))
      else if seen_fields (getFieldName (Name r)) \<noteq> None then Inl (''federationgql: duplicate root field '' @ getFieldName (Name r))
      else buildQuery rs (seen_fields(listFieldName (Name r) \<mapsto> RootList (Type r), getFieldName (Name r) \<mapsto> RootGet (Type r))))"

text \<open>\<open>build\<close> is what the GraphQL library says of the assembled schema.\<close>

definition NewSchema :: "bool \<Rightarrow> (schema \<Rightarrow> string option) \<Rightarrow> 'v Resource list \<Rightarrow> string + schema" where
  "NewSchema has_resolver build resources =
     (if \<not> has_resolver then Inl ''federationgql: resolver is required''
      else case index_resources resources (\<lambda>_. None) {} of
             Inl e \<Rightarrow> Inl e
           | Inr byType \<Rightarrow>
               (case buildQuery resources (\<lambda>_. None) of
                  Inl e \<Rightarrow> Inl e
                | Inr q \<Rightarrow>
                    let sch = \<lparr>objects = (\<lambda>t. map_option (\<lambda>r. (Name r, object_fields byType r)) (byType t)), query = q\<rparr>
                    in (case build sch of Some e \<Rightarrow> Inl (''federationgql: build schema: '' @ e) | None \<Rightarrow> Inr sch)))"

record 'j graphQLRequest =
  Query :: string
  OperationName :: string
  Variables :: "'j option"

text \<open>The body is read up to its limit; what the reader or the decoder of JSON refuses is an error of the request.\<close>

definition parseRequest :: "(string \<Rightarrow> string + 'j graphQLRequest) \<Rightarrow> string \<Rightarrow> (string \<Rightarrow> string) \<Rightarrow> string + string \<Rightarrow> string + 'j graphQLRequest" where
  "parseRequest unmarshal verb param body =
     (if verb = ''GET'' then Inr \<lparr>Query = param ''query'', OperationName = param ''operationName'', Variables = None\<rparr>
      else case body of
             Inl e \<Rightarrow> Inl e
           | Inr b \<Rightarrow>
               let data = take (2 ^ 20) b in
               if data = [] then Inr \<lparr>Query = [], OperationName = [], Variables = None\<rparr> else unmarshal data)"

text \<open>A refused request, or the execution over a fresh cache.\<close>

definition gql_Handler :: "(string \<Rightarrow> string + 'j graphQLRequest) \<Rightarrow> ('j graphQLRequest \<Rightarrow> 'v requestCache \<Rightarrow> 'r) \<Rightarrow> string \<Rightarrow> (string \<Rightarrow> string)
    \<Rightarrow> string + string \<Rightarrow> (nat \<times> string) + 'r" where
  "gql_Handler unmarshal exec verb param body =
     (case parseRequest unmarshal verb param body of
        Inl e \<Rightarrow> Inl (400, e)
      | Inr req \<Rightarrow> if Query req = [] then Inl (400, ''graphql: empty query'') else Inr (exec req newRequestCache))"

definition gql_Execute :: "('j graphQLRequest \<Rightarrow> 'v requestCache \<Rightarrow> 'r) \<Rightarrow> string \<Rightarrow> 'j option \<Rightarrow> 'r" where
  "gql_Execute exec q vars = exec \<lparr>Query = q, OperationName = [], Variables = vars\<rparr> newRequestCache"

section \<open>Batch loads\<close>

lemma distinct_ids_run:
  "distinct out \<Longrightarrow> distinct (distinct_ids out is) \<and> set (distinct_ids out is) = set out \<union> (set is - {[]})"
  by (induction out "is" rule: distinct_ids.induct) auto

lemma distinct_ids_same: "distinct (out @ is) \<Longrightarrow> [] \<notin> set is \<Longrightarrow> distinct_ids out is = out @ is"
  by (induction "is" arbitrary: out) auto

lemma missing_loop_ids:
  "distinct (missing_loop got seen is) \<and> set (missing_loop got seen is) = set is - {[]} - seen - got"
  by (induction got seen "is" rule: missing_loop.induct) auto

lemma keyed_by_fold:
  "fold (\<lambda>t m. m(f t \<mapsto> t)) ts m0 i = (case find (\<lambda>t. f t = i) (rev ts) of None \<Rightarrow> m0 i | Some t \<Rightarrow> Some t)"
  by (induction ts rule: rev_induct) auto

lemma find_SomeD: "find P xs = Some x \<Longrightarrow> x \<in> set xs \<and> P x"
  by (induction xs) (auto split: if_splits)

lemma keyed_by_eq: "keyed_by f ts i = find (\<lambda>t. f t = i) (rev ts)"
  by (simp add: keyed_by_def keyed_by_fold split: option.split)

lemma keyed_by_Some: "keyed_by f ts i = Some t \<Longrightarrow> t \<in> set ts \<and> f t = i"
  unfolding keyed_by_eq by (auto dest: find_SomeD)

lemma keyed_by_None: "keyed_by f ts i = None \<longleftrightarrow> i \<notin> f ` set ts"
  unfolding keyed_by_eq find_None_iff by auto

text \<open>What one reference of a preload does to the cache and to the calls: at most one call, of ids that were not fetched.\<close>

lemma loadMissing_calls:
  assumes "distinct ids" "[] \<notin> set ids" "ids \<noteq> []"
  obtains r where "loadMissing resolver ctx ref target ids paths calls = (r, calls)" "\<exists>e. r = Inl e"
  | r g m where "loadMissing resolver ctx ref target ids paths calls = (r, calls @ [(TargetType ref, ids)])"
    "resolver (TargetType ref) = Some (BatchGetter g)"
    "r = (case g calls ids m of
            Inl e \<Rightarrow> Inl (''reference: batch get '' @ TargetType ref @ '': '' @ e)
          | Inr ts \<Rightarrow> Inr (keyed_by (\<lambda>t. case IDOf target of None \<Rightarrow> [] | Some f \<Rightarrow> f t) ts))"
proof -
  let ?m = "if paths \<noteq> [] then withReadMask (TargetType ref) paths ctx else ctx"
  have d: "distinct_ids [] ids = ids" using distinct_ids_same [of "[]" ids] assms(1,2) by simp
  show ?thesis
  proof (cases "resolver (TargetType ref)")
    case None
    then show ?thesis using that(1) assms(3) d unfolding loadMissing_def Load_def by (simp add: ResolverFor_def)
  next
    case (Some c)
    then show ?thesis
    proof (cases c)
      case OtherClient
      then show ?thesis using Some that(1) assms(3) d unfolding loadMissing_def Load_def by (simp add: ResolverFor_def)
    next
      case (BatchGetter g)
      show ?thesis
        by (rule that(2) [of _ g ?m])
          (use Some BatchGetter assms(3) d in \<open>simp_all add: loadMissing_def Load_def ResolverFor_def split: sum.split\<close>)
    qed
  qed
qed

lemma loadMissing_grows:
  assumes "distinct ids" "[] \<notin> set ids" "ids \<noteq> []" "(r, calls') = loadMissing resolver ctx ref target ids paths calls"
  shows "calls' = calls \<or> calls' = calls @ [(TargetType ref, ids)]"
  by (rule loadMissing_calls [OF assms(1-3), of resolver ctx ref target paths calls]) (use assms(4) in auto)

text \<open>The facts about a request that the preloads keep: the ids of the calls of a type are distinct, not empty and fetched; and
  of the answers, when the services keep a catalogue \<open>kept\<close>, a fetched id without a recorded error is as the catalogue has it.\<close>

definition called :: "string \<Rightarrow> batch_call list \<Rightarrow> string list" where
  "called t calls = concat (map snd (filter (\<lambda>x. fst x = t) calls))"

lemma called_simps [simp]: "called t [] = []" "called t (cs @ [(u, ids)]) = called t cs @ (if u = t then ids else [])"
  by (simp_all add: called_def)

definition fetch_inv :: "'v requestCache \<times> batch_call list \<Rightarrow> bool" where
  "fetch_inv s \<longleftrightarrow> (\<forall>t. distinct (called t (snd s)) \<and> [] \<notin> set (called t (snd s)) \<and> set (called t (snd s)) \<subseteq> fetched (fst s) t)"

lemma preload_ref_cases:
  obtains e where "preload_ref byType resolver ctx mask_of source parents ref (c, calls) = (setErr (TargetType ref) e c, calls)"
    "byType (TargetType ref) = None \<or> RefIDs source = None"
  | refIDs target where "byType (TargetType ref) = Some target" "RefIDs source = Some refIDs"
    "missingIDs (TargetType ref) (concat (map (refIDs ref) parents)) c = []"
    "preload_ref byType resolver ctx mask_of source parents ref (c, calls) = (c, calls)"
  | refIDs target ids r calls' where "byType (TargetType ref) = Some target" "RefIDs source = Some refIDs"
    "ids = missingIDs (TargetType ref) (concat (map (refIDs ref) parents)) c" "ids \<noteq> []"
    "(r, calls') = loadMissing resolver ctx ref target ids (mask_of (edgeFieldName byType source ref) target) calls"
    "preload_ref byType resolver ctx mask_of source parents ref (c, calls) =
      (case r of Inl e \<Rightarrow> setErr (TargetType ref) e (markFetched (TargetType ref) ids c)
       | Inr m \<Rightarrow> put_all (TargetType ref) m (markFetched (TargetType ref) ids c), calls')"
proof (cases "byType (TargetType ref)")
  case None
  then show ?thesis by (intro that(1)) (simp_all add: preload_ref_def Let_def)
next
  case (Some target)
  show ?thesis
  proof (cases "RefIDs source")
    case None
    then show ?thesis using Some by (intro that(1)) (simp_all add: preload_ref_def Let_def)
  next
    case Some': (Some refIDs)
    let ?ids = "missingIDs (TargetType ref) (concat (map (refIDs ref) parents)) c"
    show ?thesis
    proof (cases "?ids = []")
      case True
      then show ?thesis using Some Some' by (intro that(2) [OF Some Some']) (simp_all add: preload_ref_def Let_def)
    next
      case False
      obtain r calls' where l: "(r, calls') = loadMissing resolver ctx ref target ?ids (mask_of (edgeFieldName byType source ref) target) calls"
        by (metis surj_pair)
      show ?thesis
        by (rule that(3) [OF Some Some' refl False l]) (use Some Some' False in \<open>simp add: preload_ref_def Let_def l [symmetric]\<close>)
    qed
  qed
qed

lemma missing_ids:
  "distinct (missingIDs t ids c)" "set (missingIDs t ids c) = set ids - {[]} - fetched c t"
  using missing_loop_ids [of "fetched c t" "{}" ids] by (auto simp: missingIDs_def)

lemma cache_fields [simp]:
  "fetched (setErr t e c) = fetched c" "fetched (put_all t m c) = fetched c"
  "fetched (markFetched t ids c) = (fetched c)(t := fetched c t \<union> set ids)"
  "targets (setErr t e c) = targets c" "targets (markFetched t ids c) = targets c"
  "targets (put_all t m c) = (targets c)(t := targets c t ++ m)"
  "cache_errs (setErr t e c) = (cache_errs c)(t \<mapsto> e)" "cache_errs (markFetched t ids c) = cache_errs c"
  "cache_errs (put_all t m c) = cache_errs c"
  by (simp_all add: setErr_def put_all_def markFetched_def)

lemma fetched_case [simp]:
  "fetched (case r of Inl e \<Rightarrow> setErr t e c | Inr m \<Rightarrow> put_all t m c) = fetched c"
  by (cases r) simp_all

lemma fetch_inv_grown:
  assumes "fetch_inv (c, calls)" "distinct ids" "[] \<notin> set ids" "set ids \<inter> fetched c u = {}"
    and "fetched (fst s) = (fetched c)(u := fetched c u \<union> set ids)" "snd s = calls \<or> snd s = calls @ [(u, ids)]"
  shows "fetch_inv s"
  unfolding fetch_inv_def
proof (intro allI)
  fix t
  have c: "distinct (called t calls)" "[] \<notin> set (called t calls)" "set (called t calls) \<subseteq> fetched c t"
    using assms(1) by (simp_all add: fetch_inv_def)
  have "t = u \<Longrightarrow> set (called t calls) \<inter> set ids = {}" using c(3) assms(4) by auto
  then show "distinct (called t (snd s)) \<and> [] \<notin> set (called t (snd s)) \<and> set (called t (snd s)) \<subseteq> fetched (fst s) t"
    using c assms(2,3,5,6) by auto
qed

lemma preload_ref_inv: "fetch_inv s \<Longrightarrow> fetch_inv (preload_ref byType resolver ctx mask_of source parents ref s)"
proof -
  assume inv: "fetch_inv s"
  obtain c calls where s: "s = (c, calls)" by (cases s)
  show ?thesis unfolding s
  proof (cases rule: preload_ref_cases [of byType resolver ctx mask_of source parents ref c calls])
    case (3 refIDs target ids r calls')
    have ids: "distinct ids" "[] \<notin> set ids" "ids \<noteq> []" "set ids \<inter> fetched c (TargetType ref) = {}"
      using missing_ids [of "TargetType ref" "concat (map (refIDs ref) parents)" c] 3(3,4) by auto
    have "calls' = calls \<or> calls' = calls @ [(TargetType ref, ids)]"
      by (rule loadMissing_grows [OF ids(1-3) 3(5)])
    then show "fetch_inv (preload_ref byType resolver ctx mask_of source parents ref (c, calls))"
      by (intro fetch_inv_grown [OF inv [unfolded s] ids(1,2,4)]) (simp_all add: 3(6))
  qed (use inv s in \<open>simp_all add: fetch_inv_def\<close>)
qed

lemma preload_ref_calls: "length (snd (preload_ref byType resolver ctx mask_of source parents ref s)) \<le> Suc (length (snd s))"
proof -
  obtain c calls where s: "s = (c, calls)" by (cases s)
  show ?thesis unfolding s
  proof (cases rule: preload_ref_cases [of byType resolver ctx mask_of source parents ref c calls])
    case (3 refIDs target ids r calls')
    have ids: "distinct ids" "[] \<notin> set ids" "ids \<noteq> []"
      using missing_ids [of "TargetType ref" "concat (map (refIDs ref) parents)" c] 3(3,4) by auto
    have "calls' = calls \<or> calls' = calls @ [(TargetType ref, ids)]"
      by (rule loadMissing_grows [OF ids 3(5)])
    then show "length (snd (preload_ref byType resolver ctx mask_of source parents ref (c, calls))) \<le> Suc (length (snd (c, calls)))"
      unfolding 3(6) by auto
  qed simp_all
qed

section \<open>Requests\<close>

text \<open>A request preloads collections one after another: a source, the parents that were fetched, the context and the masks.\<close>

type_synonym 'v preload = "'v Resource \<times> 'v list \<times> masks \<times> (string \<Rightarrow> 'v Resource \<Rightarrow> string list)"

definition run_preload :: "'v by_type \<Rightarrow> 'v StaticResolver \<Rightarrow> 'v preload \<Rightarrow> 'v requestCache \<times> batch_call list \<Rightarrow> 'v requestCache \<times> batch_call list" where
  "run_preload byType resolver = (\<lambda>(source, parents, ctx, mask_of). preloadReferences byType resolver ctx mask_of source parents)"

definition request :: "'v by_type \<Rightarrow> 'v StaticResolver \<Rightarrow> 'v preload list \<Rightarrow> 'v requestCache \<times> batch_call list" where
  "request byType resolver ps = fold (run_preload byType resolver) ps (newRequestCache, [])"

lemma fold_keeps: "(\<And>x s. P s \<Longrightarrow> P (f x s)) \<Longrightarrow> P s \<Longrightarrow> P (fold f xs s)"
  by (induction xs arbitrary: s) auto

lemma run_preload_inv: "fetch_inv s \<Longrightarrow> fetch_inv (run_preload byType resolver p s)"
  by (auto simp: run_preload_def preloadReferences_def intro: fold_keeps preload_ref_inv split: prod.split)

lemma preload_calls:
  "length (snd (fold (preload_ref byType resolver ctx mask_of source parents) refs s)) \<le> length refs + length (snd s)"
proof (induction refs arbitrary: s)
  case (Cons ref refs)
  show ?case using Cons [of "preload_ref byType resolver ctx mask_of source parents ref s"]
      preload_ref_calls [of byType resolver ctx mask_of source parents ref s] by simp
qed simp

lemma request_calls:
  "length (snd (fold (run_preload byType resolver) ps s)) \<le> sum_list (map (\<lambda>p. length (References (fst p))) ps) + length (snd s)"
proof (induction ps arbitrary: s)
  case (Cons p ps)
  have "length (snd (run_preload byType resolver p s)) \<le> length (References (fst p)) + length (snd s)"
    by (cases p) (simp add: run_preload_def preloadReferences_def preload_calls)
  then show ?case using Cons [of "run_preload byType resolver p s"] by simp
qed simp

text \<open>C35: The number of calls of a request does not depend on the number of parents: at most one per reference of a preloaded
  collection, and in the whole request no id of a type is asked for twice.\<close>

theorem federation_no_n_plus_one:
  "length (snd (request byType resolver ps)) \<le> sum_list (map (\<lambda>p. length (References (fst p))) ps)
   \<and> distinct (called t (snd (request byType resolver ps))) \<and> [] \<notin> set (called t (snd (request byType resolver ps)))"
proof -
  have "fetch_inv (newRequestCache, [])" by (simp add: fetch_inv_def)
  then have "fetch_inv (request byType resolver ps)"
    unfolding request_def by (intro fold_keeps [of fetch_inv] run_preload_inv)
  then show ?thesis
    using request_calls [of byType resolver ps "(newRequestCache, [])"] by (simp add: fetch_inv_def request_def)
qed

section \<open>The answers of a request\<close>

text \<open>The services keep one catalogue: a getter answers the objects of the ids it knows, and the id of an object is the one it is
  kept under. Getters may fail.\<close>

definition catalogue :: "'v by_type \<Rightarrow> 'v StaticResolver \<Rightarrow> (string \<Rightarrow> string \<Rightarrow> 'v option) \<Rightarrow> bool" where
  "catalogue byType resolver kept \<longleftrightarrow>
     (\<forall>t g calls ids m ts. resolver t = Some (BatchGetter g) \<longrightarrow> g calls ids m = Inr ts \<longrightarrow> ts = List.map_filter (kept t) ids)
     \<and> (\<forall>t r. byType t = Some r \<longrightarrow> (\<exists>f. IDOf r = Some f \<and> (\<forall>i v. kept t i = Some v \<longrightarrow> f v = i)))"

definition answer_inv :: "(string \<Rightarrow> string \<Rightarrow> 'v option) \<Rightarrow> 'v requestCache \<Rightarrow> bool" where
  "answer_inv kept c \<longleftrightarrow>
     (\<forall>t i. [] \<notin> fetched c t \<and> (i \<in> fetched c t \<longrightarrow> cache_errs c t = None \<longrightarrow> targets c t i = kept t i) \<and> (i \<notin> fetched c t \<longrightarrow> targets c t i = None))"

lemma set_map_filter: "set (List.map_filter f xs) = {y. \<exists>x\<in>set xs. f x = Some y}"
  by (force simp: List.map_filter_def)

lemma keyed_catalogue:
  assumes "\<forall>i v. kept i = Some v \<longrightarrow> f v = i"
  shows "keyed_by f (List.map_filter kept ids) i = (if i \<in> set ids then kept i else None)"
proof (cases "keyed_by f (List.map_filter kept ids) i")
  case None
  then have "i \<notin> f ` set (List.map_filter kept ids)" unfolding keyed_by_None .
  then have "i \<in> set ids \<Longrightarrow> kept i = None"
    using assms by (cases "kept i") (force simp: set_map_filter image_iff)+
  then show ?thesis using None by simp
next
  case (Some v)
  then obtain j where "j \<in> set ids" "kept j = Some v" "f v = i" by (auto dest!: keyed_by_Some simp: set_map_filter)
  then show ?thesis using Some assms by auto
qed

definition settled :: "Reference \<Rightarrow> (Reference \<Rightarrow> 'v \<Rightarrow> string list) \<Rightarrow> 'v list \<Rightarrow> 'v requestCache \<Rightarrow> bool" where
  "settled ref refIDs parents c \<longleftrightarrow>
     cache_errs c (TargetType ref) \<noteq> None \<or> (\<forall>obj\<in>set parents. set (refIDs ref obj) - {[]} \<subseteq> fetched c (TargetType ref))"

definition extends_cache :: "'v requestCache \<Rightarrow> 'v requestCache \<Rightarrow> bool" where
  "extends_cache c c' \<longleftrightarrow> (\<forall>t. fetched c t \<subseteq> fetched c' t \<and> (cache_errs c t \<noteq> None \<longrightarrow> cache_errs c' t \<noteq> None))"

lemma extends_refl: "extends_cache c c"
  by (simp add: extends_cache_def)

lemma extends_trans: "extends_cache a b \<Longrightarrow> extends_cache b c \<Longrightarrow> extends_cache a c"
  unfolding extends_cache_def by blast

lemma settled_extends: "settled ref refIDs parents c \<Longrightarrow> extends_cache c c' \<Longrightarrow> settled ref refIDs parents c'"
  unfolding settled_def extends_cache_def by blast

lemma preload_ref_extends: "extends_cache (fst s) (fst (preload_ref byType resolver ctx mask_of source parents ref s))"
proof -
  obtain c calls where s: "s = (c, calls)" by (cases s)
  show ?thesis unfolding s
  proof (cases rule: preload_ref_cases [of byType resolver ctx mask_of source parents ref c calls])
    case (3 refIDs target ids r calls')
    show "extends_cache (fst (c, calls)) (fst (preload_ref byType resolver ctx mask_of source parents ref (c, calls)))"
      unfolding 3(6) by (cases r) (auto simp: extends_cache_def)
  qed (simp_all add: extends_cache_def)
qed

lemma fold_extends: "(\<And>x s. extends_cache (fst s) (fst (f x s))) \<Longrightarrow> extends_cache (fst s) (fst (fold f xs s))"
proof (induction xs arbitrary: s)
  case (Cons x xs)
  then show ?case using extends_trans [OF Cons.prems Cons.IH [OF Cons.prems]] by simp
qed (simp add: extends_refl)

lemma preload_ref_settled:
  "RefIDs source = Some refIDs \<Longrightarrow> settled ref refIDs parents (fst (preload_ref byType resolver ctx mask_of source parents ref s))"
proof -
  assume R: "RefIDs source = Some refIDs"
  obtain c calls where s: "s = (c, calls)" by (cases s)
  show ?thesis unfolding s
  proof (cases rule: preload_ref_cases [of byType resolver ctx mask_of source parents ref c calls])
    case (2 rf target)
    then have "set (missingIDs (TargetType ref) (concat (map (refIDs ref) parents)) c) = {}" using R by simp
    then show "settled ref refIDs parents (fst (preload_ref byType resolver ctx mask_of source parents ref (c, calls)))"
      unfolding 2(4) missing_ids(2) by (auto simp: settled_def)
  next
    case (3 rf target ids r calls')
    have "set ids = set (concat (map (refIDs ref) parents)) - {[]} - fetched c (TargetType ref)"
      using 3(2) R unfolding 3(3) missing_ids(2) by simp
    then show "settled ref refIDs parents (fst (preload_ref byType resolver ctx mask_of source parents ref (c, calls)))"
      unfolding 3(6) by (auto simp: settled_def)
  qed (simp add: settled_def)
qed

lemma preload_ref_answers:
  assumes "catalogue byType resolver kept" "answer_inv kept (fst s)"
  shows "answer_inv kept (fst (preload_ref byType resolver ctx mask_of source parents ref s))"
proof -
  obtain c calls where s: "s = (c, calls)" by (cases s)
  have inv: "answer_inv kept c" using assms(2) s by simp
  show ?thesis unfolding s
  proof (cases rule: preload_ref_cases [of byType resolver ctx mask_of source parents ref c calls])
    case (1 e)
    then show "answer_inv kept (fst (preload_ref byType resolver ctx mask_of source parents ref (c, calls)))"
      using inv by (auto simp: answer_inv_def)
  next
    case (2 rf target)
    then show "answer_inv kept (fst (preload_ref byType resolver ctx mask_of source parents ref (c, calls)))"
      using inv by simp
  next
    case (3 rf target ids r calls')
    let ?t = "TargetType ref"
    have ids: "distinct ids" "[] \<notin> set ids" "ids \<noteq> []" "set ids \<inter> fetched c ?t = {}"
      using missing_ids [of ?t "concat (map (rf ref) parents)" c] 3(3,4) by auto
    obtain f where f: "IDOf target = Some f" "\<forall>i v. kept ?t i = Some v \<longrightarrow> f v = i"
      using assms(1) 3(1) unfolding catalogue_def by blast
    have r: "(\<exists>e. r = Inl e) \<or> r = Inr (\<lambda>i. if i \<in> set ids then kept ?t i else None)"
    proof (rule loadMissing_calls [OF ids(1-3), of resolver ctx ref target "mask_of (edgeFieldName byType source ref) target" calls])
      fix r' g m
      assume l: "loadMissing resolver ctx ref target ids (mask_of (edgeFieldName byType source ref) target) calls = (r', calls @ [(?t, ids)])"
        and g: "resolver ?t = Some (BatchGetter g)"
        and r': "r' = (case g calls ids m of Inl e \<Rightarrow> Inl (''reference: batch get '' @ ?t @ '': '' @ e)
            | Inr ts \<Rightarrow> Inr (keyed_by (\<lambda>t. case IDOf target of None \<Rightarrow> [] | Some f \<Rightarrow> f t) ts))"
      have r_eq: "r = r'" using l 3(5) by simp
      show ?thesis
      proof (cases "g calls ids m")
        case (Inr ts)
        then have "ts = List.map_filter (kept ?t) ids" using assms(1) g unfolding catalogue_def by blast
        then show ?thesis using keyed_catalogue [OF f(2)] by (auto simp: r_eq r' Inr f(1))
      qed (simp add: r_eq r')
    qed (use 3(5) in auto)
    show "answer_inv kept (fst (preload_ref byType resolver ctx mask_of source parents ref (c, calls)))"
      unfolding answer_inv_def 3(6)
    proof (intro allI)
      fix t i
      have old: "[] \<notin> fetched c t" "i \<in> fetched c t \<longrightarrow> cache_errs c t = None \<longrightarrow> targets c t i = kept t i" "i \<notin> fetched c t \<longrightarrow> targets c t i = None"
        using inv unfolding answer_inv_def by blast+
      let ?c = "fst (case r of Inl e \<Rightarrow> setErr ?t e (markFetched ?t ids c) | Inr m \<Rightarrow> put_all ?t m (markFetched ?t ids c), calls')"
      show "[] \<notin> fetched ?c t \<and> (i \<in> fetched ?c t \<longrightarrow> cache_errs ?c t = None \<longrightarrow> targets ?c t i = kept t i) \<and> (i \<notin> fetched ?c t \<longrightarrow> targets ?c t i = None)"
        using r old ids(2,4) by (cases r; cases "t = ?t") (auto simp: map_add_def split: option.split if_splits)
    qed
  qed
qed

lemma run_preload_settled:
  assumes "ref \<in> set (References source)" "RefIDs source = Some refIDs"
  shows "settled ref refIDs parents (fst (run_preload byType resolver (source, parents, ctx, mask_of) s))"
proof -
  obtain xs ys where r: "References source = xs @ ref # ys" using assms(1) split_list by metis
  let ?f = "preload_ref byType resolver ctx mask_of source parents"
  have "settled ref refIDs parents (fst (?f ref (fold ?f xs s)))" by (rule preload_ref_settled [OF assms(2)])
  moreover have "extends_cache (fst (?f ref (fold ?f xs s))) (fst (fold ?f ys (?f ref (fold ?f xs s))))"
    by (rule fold_extends) (rule preload_ref_extends)
  ultimately show ?thesis by (simp add: run_preload_def preloadReferences_def r settled_extends)
qed

lemma run_preload_extends: "extends_cache (fst s) (fst (run_preload byType resolver p s))"
  by (cases p) (simp add: run_preload_def preloadReferences_def fold_extends preload_ref_extends)

lemma run_preload_answers:
  "catalogue byType resolver kept \<Longrightarrow> answer_inv kept (fst s) \<Longrightarrow> answer_inv kept (fst (run_preload byType resolver p s))"
  by (cases p) (simp add: run_preload_def preloadReferences_def fold_keeps [of "\<lambda>s. answer_inv kept (fst s)"] preload_ref_answers)

lemma request_settled:
  assumes "(source, parents, ctx, mask_of) \<in> set ps" "ref \<in> set (References source)" "RefIDs source = Some refIDs"
  shows "settled ref refIDs parents (fst (request byType resolver ps))"
proof -
  obtain xs ys where p: "ps = xs @ (source, parents, ctx, mask_of) # ys" using assms(1) split_list by metis
  let ?s = "run_preload byType resolver (source, parents, ctx, mask_of) (fold (run_preload byType resolver) xs (newRequestCache, []))"
  have "settled ref refIDs parents (fst ?s)" by (rule run_preload_settled [OF assms(2,3)])
  moreover have "extends_cache (fst ?s) (fst (fold (run_preload byType resolver) ys ?s))"
    by (rule fold_extends) (rule run_preload_extends)
  ultimately show ?thesis by (simp add: request_def p settled_extends)
qed

lemma request_answers: "catalogue byType resolver kept \<Longrightarrow> answer_inv kept (fst (request byType resolver ps))"
proof -
  assume cat: "catalogue byType resolver kept"
  have "answer_inv kept (fst (newRequestCache, []))" by (simp add: answer_inv_def newRequestCache_def)
  then show ?thesis
    unfolding request_def by (intro fold_keeps [of "\<lambda>s. answer_inv kept (fst s)"] run_preload_answers [OF cat])
qed

text \<open>What the edge of a reference is to show: the targets of the ids that are not empty, as the catalogue has them.\<close>

definition edge_of :: "(string \<Rightarrow> 'v option) \<Rightarrow> Reference \<Rightarrow> string list \<Rightarrow> 'v edge_value" where
  "edge_of kept ref ids =
     (if ref_card ref = Many then EdgeMany (List.map_filter kept (filter (\<lambda>i. i \<noteq> []) ids))
      else EdgeOne (if ids = [] \<or> hd ids = [] then None else kept (hd ids)))"

lemma map_filter_congr:
  "\<forall>i\<in>set ids. (i \<noteq> [] \<longrightarrow> f i = g i) \<and> (i = [] \<longrightarrow> f i = None) \<Longrightarrow> List.map_filter f ids = List.map_filter g (filter (\<lambda>i. i \<noteq> []) ids)"
  by (induction ids) (auto simp: List.map_filter_def)


section \<open>The masks\<close>

text \<open>A field is selected directly, in an inline fragment or in a fragment that is spread.\<close>

inductive selected :: "fragments \<Rightarrow> selection list \<Rightarrow> string \<Rightarrow> bool" for fr where
  sel_field: "selected fr (SField (Some f) sub # ss) f"
| sel_inline: "selected fr sub f \<Longrightarrow> selected fr (SInline sub # ss) f"
| sel_spread: "fr n = Some body \<Longrightarrow> selected fr body f \<Longrightarrow> selected fr (SSpread (Some n) # ss) f"
| sel_later: "selected fr ss f \<Longrightarrow> selected fr (s # ss) f"

inductive occurs :: "fragments \<Rightarrow> string \<Rightarrow> selection list \<Rightarrow> selection list \<Rightarrow> bool" for fr name where
  occ_field: "occurs fr name (SField (Some name) sub # ss) sub"
| occ_inline: "occurs fr name body sub \<Longrightarrow> occurs fr name (SInline body # ss) sub"
| occ_spread: "fr n = Some body \<Longrightarrow> occurs fr name body sub \<Longrightarrow> occurs fr name (SSpread (Some n) # ss) sub"
| occ_later: "occurs fr name ss sub \<Longrightarrow> occurs fr name (s # ss) sub"

inductive_simps selected_simps: "selected fr [] f" "selected fr (SField nm sub # ss) f" "selected fr (SInline sub # ss) f" "selected fr (SSpread nm # ss) f"
inductive_simps occurs_simps: "occurs fr name [] sub" "occurs fr name (SField nm body # ss) sub" "occurs fr name (SInline body # ss) sub"
  "occurs fr name (SSpread nm # ss) sub"

fun spreads :: "selection list \<Rightarrow> string set" where
  "spreads [] = {}"
| "spreads (SField nm sub # ss) = spreads sub \<union> spreads ss"
| "spreads (SInline sub # ss) = spreads sub \<union> spreads ss"
| "spreads (SSpread nm # ss) = set_option nm \<union> spreads ss"

text \<open>The library refuses queries whose fragments spread each other in a cycle: the others have ranks.\<close>

definition ranked_fragments :: "fragments \<Rightarrow> (string \<Rightarrow> nat) \<Rightarrow> bool" where
  "ranked_fragments fr rk \<longleftrightarrow> (\<forall>f body g. fr f = Some body \<longrightarrow> g \<in> spreads body \<longrightarrow> rk g < rk f)"

definition below :: "(string \<Rightarrow> nat) \<Rightarrow> nat \<Rightarrow> selection list \<Rightarrow> bool" where
  "below rk n ss \<longleftrightarrow> (\<forall>g\<in>spreads ss. rk g < n)"

lemma below_simps [simp]:
  "below rk n []" "below rk n (SField nm sub # ss) \<longleftrightarrow> below rk n sub \<and> below rk n ss"
  "below rk n (SInline sub # ss) \<longleftrightarrow> below rk n sub \<and> below rk n ss"
  "below rk n (SSpread nm # ss) \<longleftrightarrow> (\<forall>g. nm = Some g \<longrightarrow> rk g < n) \<and> below rk n ss"
  by (auto simp: below_def)

lemma below_body: "ranked_fragments fr rk \<Longrightarrow> fr g = Some body \<Longrightarrow> rk g < Suc k \<Longrightarrow> below rk k body"
  unfolding ranked_fragments_def below_def by (meson less_Suc_eq_le order_less_le_trans)

lemma collect_total:
  "ranked_fragments fr rk \<Longrightarrow> below rk n ss \<Longrightarrow> \<exists>out'. collectMaskPaths n fr m ss out = Some out'"
proof (induction n fr m ss out rule: collectMaskPaths.induct)
  case (3 n fr m sub ss out)
  then obtain o1 where o: "collectMaskPaths n fr m sub out = Some o1" by auto
  then show ?case using 3(2) [OF o] 3(3,4) by (simp add: o)
next
  case (4 n fr m nm ss out)
  show ?case
  proof (cases "case nm of None \<Rightarrow> None | Some f \<Rightarrow> fr f")
    case None
    then show ?thesis using 4(1) 4(4,5) by simp
  next
    case (Some body)
    then obtain f where f: "nm = Some f" "fr f = Some body" by (cases nm) auto
    then obtain k where k: "n = Suc k" using 4(5) by (cases n) auto
    have "below rk k body" using below_body [OF 4(4) f(2)] 4(5) f(1) k by simp
    then obtain o1 where o: "collectMaskPaths k fr m body out = Some o1" using 4(2) [OF Some k 4(4)] by auto
    then show ?thesis using 4(3) [OF Some k o 4(4)] 4(5) f k by simp
  qed
qed auto

lemma collect_exact:
  "collectMaskPaths n fr m ss out = Some out' \<Longrightarrow> distinct out
    \<Longrightarrow> distinct out' \<and> set out' = set out \<union> {p. \<exists>f. selected fr ss f \<and> m f = Some p}"
proof (induction n fr m ss out arbitrary: out' rule: collectMaskPaths.induct)
  case (2 n fr m nm sub ss out)
  then show ?case by (auto simp: selected_simps split: option.splits if_splits)
next
  case (3 n fr m sub ss out)
  then obtain o1 where "collectMaskPaths n fr m sub out = Some o1" "collectMaskPaths n fr m ss o1 = Some out'"
    by (auto split: option.splits)
  then show ?case using 3(1) [of o1] 3(2) [of o1 out'] 3(4) by (auto simp: selected_simps)
next
  case (4 n fr m nm ss out)
  show ?case
  proof (cases "case nm of None \<Rightarrow> None | Some f \<Rightarrow> fr f")
    case None
    then show ?thesis using 4(1) [of out'] 4(4,5) by (auto simp: selected_simps)
  next
    case (Some body)
    then obtain f k o1 where o: "nm = Some f" "fr f = Some body" "n = Suc k" "collectMaskPaths k fr m body out = Some o1"
        "collectMaskPaths n fr m ss o1 = Some out'"
      using 4(4) by (cases nm; cases n) (auto split: option.splits)
    then show ?thesis using 4(2) [OF Some o(3), of o1] 4(3) [OF Some o(3,4), of out'] 4(5) by (auto simp: selected_simps)
  qed
qed (auto simp: selected_simps)

lemma find_total:
  "ranked_fragments fr rk \<Longrightarrow> below rk n ss
    \<Longrightarrow> \<exists>subs. findFieldSelections n fr name ss = Some subs \<and> (\<forall>sub\<in>set subs. below rk n sub) \<and> set subs = {sub. occurs fr name ss sub}"
proof (induction n fr name ss rule: findFieldSelections.induct)
  case (2 n fr name nm sub ss)
  then obtain subs where "findFieldSelections n fr name ss = Some subs" "\<forall>sub\<in>set subs. below rk n sub" "set subs = {sub. occurs fr name ss sub}"
    by auto
  then show ?case using 2(3) by (auto simp: occurs_simps)
next
  case (3 n fr name sub ss)
  then obtain a b where "findFieldSelections n fr name sub = Some a" "findFieldSelections n fr name ss = Some b"
    "\<forall>x\<in>set a. below rk n x" "\<forall>x\<in>set b. below rk n x" "set a = {x. occurs fr name sub x}" "set b = {x. occurs fr name ss x}"
    by auto
  then show ?case by (auto simp: occurs_simps)
next
  case (4 n fr name nm ss)
  show ?case
  proof (cases "case nm of None \<Rightarrow> None | Some f \<Rightarrow> fr f")
    case None
    then show ?thesis using 4(1) 4(4,5) by (auto simp: occurs_simps)
  next
    case (Some body)
    then obtain f where f: "nm = Some f" "fr f = Some body" by (cases nm) auto
    then obtain k where k: "n = Suc k" using 4(5) by (cases n) auto
    have "below rk k body" using below_body [OF 4(4) f(2)] 4(5) f(1) k by simp
    then obtain a where a: "findFieldSelections k fr name body = Some a" "\<forall>x\<in>set a. below rk k x" "set a = {x. occurs fr name body x}"
      using 4(2) [OF Some k 4(4)] by auto
    obtain b where b: "findFieldSelections n fr name ss = Some b" "\<forall>x\<in>set b. below rk n x" "set b = {x. occurs fr name ss x}"
      using 4(3) [OF Some k a(1) 4(4)] 4(5) by auto
    have "\<forall>x\<in>set a. below rk n x" using a(2) k by (auto simp: below_def less_Suc_eq)
    then show ?thesis using a b f k by (auto simp: occurs_simps)
  qed
qed (auto simp: occurs_simps)

lemma collect_all_exact:
  "ranked_fragments fr rk \<Longrightarrow> \<forall>ss\<in>set sss. below rk n ss \<Longrightarrow> distinct out
    \<Longrightarrow> \<exists>out'. collect_all n fr m sss out = Some out' \<and> distinct out'
      \<and> set out' = set out \<union> {p. \<exists>ss\<in>set sss. \<exists>f. selected fr ss f \<and> m f = Some p}"
proof (induction sss arbitrary: out)
  case (Cons ss sss)
  obtain o1 where o1: "collectMaskPaths n fr m ss out = Some o1" using collect_total [OF Cons.prems(1)] Cons.prems(2) by fastforce
  then have s: "distinct o1" "set o1 = set out \<union> {p. \<exists>f. selected fr ss f \<and> m f = Some p}"
    using collect_exact Cons.prems(3) by blast+
  then obtain o2 where "collect_all n fr m sss o1 = Some o2" "distinct o2"
      "set o2 = set o1 \<union> {p. \<exists>ss\<in>set sss. \<exists>f. selected fr ss f \<and> m f = Some p}"
    using Cons.IH [OF Cons.prems(1) _ s(1)] Cons.prems(2) by auto
  then show ?case using o1 s by auto
qed simp

lemma target_masks_exact:
  "ranked_fragments fr rk \<Longrightarrow> \<forall>ss\<in>set sss. below rk n ss \<Longrightarrow> distinct out
    \<Longrightarrow> \<exists>out'. target_masks n fr m edge sss out = Some out' \<and> distinct out'
      \<and> set out' = set out \<union> {p. \<exists>ss\<in>set sss. \<exists>sub f. occurs fr edge ss sub \<and> selected fr sub f \<and> m f = Some p}"
proof (induction sss arbitrary: out)
  case (Cons ss sss)
  obtain subs where subs: "findFieldSelections n fr edge ss = Some subs" "\<forall>sub\<in>set subs. below rk n sub" "set subs = {sub. occurs fr edge ss sub}"
    using find_total [OF Cons.prems(1)] Cons.prems(2) by fastforce
  obtain o1 where o1: "collect_all n fr m subs out = Some o1" "distinct o1"
      "set o1 = set out \<union> {p. \<exists>ss\<in>set subs. \<exists>f. selected fr ss f \<and> m f = Some p}"
    using collect_all_exact [OF Cons.prems(1) subs(2) Cons.prems(3)] by blast
  then obtain o2 where "target_masks n fr m edge sss o1 = Some o2" "distinct o2"
      "set o2 = set o1 \<union> {p. \<exists>ss\<in>set sss. \<exists>sub f. occurs fr edge ss sub \<and> selected fr sub f \<and> m f = Some p}"
    using Cons.IH [OF Cons.prems(1) _ o1(2)] Cons.prems(2) by auto
  then show ?case using o1 subs by auto
qed simp

text \<open>The mask that is pushed down for an edge is computed for every query without fragment cycles, and it holds the paths of exactly
  the fields that some occurrence of the edge selects, each once.\<close>

theorem edge_mask_exact:
  assumes "ranked_fragments fr rk" "\<forall>ss\<in>set asts. below rk n ss"
  shows "\<exists>paths. targetReadMask n fr asts edge sfs = Some paths \<and> distinct paths
    \<and> set paths = {p. \<exists>ss\<in>set asts. \<exists>sub f. occurs fr edge ss sub \<and> selected fr sub f \<and> scalarMaskPaths sfs f = Some p}"
  using target_masks_exact [OF assms, of "[]"] by (simp add: targetReadMask_def)

lemma self_mask_exact:
  assumes "ranked_fragments fr rk" "\<forall>ss\<in>set asts. below rk n ss"
  shows "\<exists>paths. selfReadMask n fr asts sfs = Some paths \<and> distinct paths
    \<and> set paths = {p. \<exists>ss\<in>set asts. \<exists>f. selected fr ss f \<and> scalarMaskPaths sfs f = Some p}"
  using collect_all_exact [OF assms, of "[]"] by (simp add: selfReadMask_def)

section \<open>Samples and limits\<close>

text \<open>Assets that refer to regions; an object is the list of its fields.\<close>

type_synonym fields = "(string \<times> string) list"

definition field_of :: "string \<Rightarrow> fields \<Rightarrow> string" where
  "field_of k obj = (case map_of obj k of None \<Rightarrow> [] | Some v \<Rightarrow> v)"

definition exRef :: Reference where
  "exRef = \<lparr>FieldName = ''RegionId'', FKField = ''region_id'', TargetType = ''r/Region'', ref_card = One\<rparr>"

definition exScalar :: "string \<Rightarrow> fields ScalarField" where
  "exScalar n = \<lparr>sf_name = n, sf_resolve = Some (field_of n), MaskPath = n\<rparr>"

definition exAsset :: "fields Resource" where
  "exAsset = \<lparr>Type = ''a/Asset'', Name = ''Asset'', Scalars = [exScalar ''id'', exScalar ''name''], References = [exRef],
     IDOf = Some (field_of ''id''), RefIDs = Some (\<lambda>ref obj. [field_of (FKField ref) obj]), EdgeFieldName = None\<rparr>"

definition exRegion :: "fields Resource" where
  "exRegion = \<lparr>Type = ''r/Region'', Name = ''Region'', Scalars = [exScalar ''id'', exScalar ''name''], References = [],
     IDOf = Some (field_of ''id''), RefIDs = None, EdgeFieldName = None\<rparr>"

definition exByType :: "fields by_type" where
  "exByType = [''a/Asset'' \<mapsto> exAsset, ''r/Region'' \<mapsto> exRegion]"

definition exKept :: "string \<Rightarrow> string \<Rightarrow> fields option" where
  "exKept t i = (if t = ''r/Region'' \<and> i = ''r1'' then Some [(''id'', ''r1''), (''name'', ''west'')] else None)"

definition exObject :: fields where
  "exObject = [(''id'', ''a1''), (''name'', ''pump''), (''region_id'', ''r1'')]"

text \<open>A read mask of a service keeps the listed fields, or all when it is empty.\<close>

definition masked :: "string list \<Rightarrow> fields \<Rightarrow> fields" where
  "masked paths obj = (if paths = [] then obj else filter (\<lambda>f. fst f \<in> set paths) obj)"

definition exFull :: "fields StaticResolver" where
  "exFull = Register ''r/Region'' (BatchGetter (\<lambda>calls ids m. Inr (List.map_filter (exKept ''r/Region'') ids))) NewStaticResolver"

definition exMasking :: "fields StaticResolver" where
  "exMasking = Register ''r/Region''
     (BatchGetter (\<lambda>calls ids m. Inr (map (masked (ReadMaskFromContext m ''r/Region'')) (List.map_filter (exKept ''r/Region'') ids)))) NewStaticResolver"


theorem edge_mask_exact_witness:
  "\<exists>paths. targetReadMask 1 [''F'' \<mapsto> [SField (Some ''name'') []]] [[SField (Some ''region'') [SSpread (Some ''F'')]]] ''region'' [exScalar ''name''] = Some paths
     \<and> distinct paths"
proof -
  have "ranked_fragments [''F'' \<mapsto> [SField (Some ''name'') []]] (\<lambda>_. 0)"
    by (auto simp: ranked_fragments_def split: if_splits)
  then show ?thesis
    using edge_mask_exact [of "[''F'' \<mapsto> [SField (Some ''name'') []]]" "\<lambda>_. 0" "[[SField (Some ''region'') [SSpread (Some ''F'')]]]" 1 "''region''"
        "[exScalar ''name'']"] by auto
qed

text \<open>Masks that lose edges. A query for names leaves the foreign key out of the mask of the collection, and the edge of a masked
  object is null. A query for the names of the targets leaves their id out, so they enter the cache under the empty id and the
  edge is null. And a target that one selection fetched serves a later one that selects more, which misses the fields.\<close>

lemma mask_loses_edges:
  defines "q \<equiv> [SField (Some ''name'') [], SField (Some ''region'') [SField (Some ''name'') []]]"
    and "one \<equiv> \<lambda>resolver obj paths. resolve_edge exAsset exRef
        (Some (fst (request exByType resolver (map (\<lambda>p. (exAsset, [obj], \<lambda>_. None, \<lambda>_ _. p)) paths)))) obj"
  shows "selfReadMask 0 (\<lambda>_. None) [q] (Scalars exAsset) = Some [''name'']"
    and "one exFull (masked [''name''] exObject) [[''name'']] = Inr (EdgeOne None)"
    and "targetReadMask 0 (\<lambda>_. None) [q] ''region'' (Scalars exRegion) = Some [''name'']"
    and "one exMasking exObject [[''name'']] = Inr (EdgeOne None)"
    and "one exMasking exObject [[''id''], [''id'', ''name'']] = Inr (EdgeOne (Some [(''id'', ''r1'')]))"
  unfolding q_def one_def by code_simp+

text \<open>A reference to a type that no resource has: the schema is accepted, without the edge.\<close>

lemma missing_target_accepted:
  "\<exists>sch f. NewSchema True (\<lambda>_. None) [exAsset] = Inr sch \<and> objects sch ''a/Asset'' = Some (''Asset'', f)
    \<and> f ''region'' = None \<and> f ''regionid'' = None \<and> f ''name'' \<noteq> None"
  by (simp add: NewSchema_def exAsset_def object_fields_def exRef_def exScalar_def)

text \<open>Two references to one type without an override have one name: the second edge replaces the first.\<close>

lemma edge_names_collide:
  defines "r \<equiv> exAsset\<lparr>References := [exRef, exRef\<lparr>FieldName := ''BackupId'', FKField := ''backup_id'', ref_card := Many\<rparr>]\<rparr>"
  shows "object_fields exByType r ''region'' = Some (GEdge ''r/Region'' True)"
proof -
  have "lower_ascii ''R'' = ''r''" by code_simp
  then show ?thesis by (simp add: r_def object_fields_def exAsset_def exRef_def exByType_def edgeFieldName_def exRegion_def)
qed

end
