(* ===== verification/Secret.thy ===== *)
theory Secret
  imports Base64 Text
begin

text \<open>
  Credentials and secrets (\<^verbatim>\<open>src/secret/\<close>): minted split tokens of which only a salted hash is kept, their parser and their
  verification (\<^verbatim>\<open>credential.go\<close>), the development encryptor (\<^verbatim>\<open>encryptor.go\<close>) and the client of Vault's transit engine
  (\<^verbatim>\<open>vault.go\<close>). Hashes, ciphers and the HTTP client are parameters. The random source is the list of bytes that it still gives;
  reading more than there are is its error.
\<close>

section \<open>Credentials\<close>

definition AlgoSHA512_256 :: string where "AlgoSHA512_256 = ''sha512-256''"
definition AlgoSHA384 :: string where "AlgoSHA384 = ''sha384''"
definition algoPBKDF2SHA256Prefix :: string where "algoPBKDF2SHA256Prefix = ''pbkdf2-sha256:''"
definition DefaultPrefix :: string where "DefaultPrefix = ''ib''"
definition DefaultSecretBits :: int where "DefaultSecretBits = 256"
definition publicIDBits :: int where "publicIDBits = 128"
definition saltBytesLen :: nat where "saltBytesLen = 16"

definition base62Alphabet :: string where
  "base62Alphabet = ''0123456789ABCDEFGHIJKLMNOPQRSTUVWXYZabcdefghijklmnopqrstuvwxyz''"

record StoredCredential =
  PublicID :: string
  Salt :: string
  Hash :: string
  Spec :: string

record CredentialMinter =
  Prefix :: string
  minter_Spec :: string
  SecretBits :: int

text \<open>The hash functions; \<^verbatim>\<open>pbkdf2.Key\<close> takes secret, salt, iterations and key length and may refuse them.\<close>

record hashes =
  Sum512_256 :: "string \<Rightarrow> string"
  Sum384 :: "string \<Rightarrow> string"
  PBKDF2 :: "string \<Rightarrow> string \<Rightarrow> int \<Rightarrow> int \<Rightarrow> string + string"

text \<open>\<^verbatim>\<open>ceil(bits / log2(62))\<close>: the least length whose words of 62 characters are as many as the values of the bits.\<close>

definition charsForBits :: "int \<Rightarrow> nat" where
  "charsForBits bits = length (takeWhile (\<lambda>n. 62 ^ n < (2::nat) ^ nat bits) [0..<nat bits + 1])"

fun randBase62 :: "nat \<Rightarrow> string \<Rightarrow> string option \<times> string" where
  "randBase62 0 src = (Some [], src)"
| "randBase62 (Suc n) [] = (None, [])"
| "randBase62 (Suc n) (b # src) =
     (if 248 \<le> byte b then randBase62 (Suc n) src
      else case randBase62 n src of
             (None, src') \<Rightarrow> (None, src')
           | (Some out, src') \<Rightarrow> (Some (base62Alphabet ! (byte b mod 62) # out), src'))"

definition rand_Read :: "nat \<Rightarrow> string \<Rightarrow> string option \<times> string" where
  "rand_Read n src = (if n \<le> length src then (Some (take n src), drop n src) else (None, []))"

definition saltedInput :: "string \<Rightarrow> string \<Rightarrow> string" where
  "saltedInput salt val = salt @ val"

definition parsePBKDF2 :: "string \<Rightarrow> string + int \<times> int" where
  "parsePBKDF2 algo =
     (let parts = split_char (CHR '':'') algo in
      if length parts \<noteq> 3 then Inl (''secret: malformed pbkdf2 spec '' @ algo)
      else case Atoi (parts ! 1) of
             None \<Rightarrow> Inl ''secret: pbkdf2 iterations must be a positive integer''
           | Some iters \<Rightarrow>
               if iters \<le> 0 then Inl ''secret: pbkdf2 iterations must be a positive integer''
               else (case Atoi (parts ! 2) of
                       None \<Rightarrow> Inl ''secret: pbkdf2 key length must be a positive integer''
                     | Some keyLen \<Rightarrow>
                         if keyLen \<le> 0 then Inl ''secret: pbkdf2 key length must be a positive integer'' else Inr (iters, keyLen)))"

definition computeHash :: "hashes \<Rightarrow> string \<Rightarrow> string \<Rightarrow> string \<Rightarrow> string + string" where
  "computeHash H algo salt val =
     (if algo = AlgoSHA512_256 then Inr (Sum512_256 H (saltedInput salt val))
      else if algo = AlgoSHA384 then Inr (Sum384 H (saltedInput salt val))
      else if has_prefix algo algoPBKDF2SHA256Prefix then
        (case parsePBKDF2 algo of
           Inl e \<Rightarrow> Inl e
         | Inr (iters, keyLen) \<Rightarrow>
             (case PBKDF2 H val salt iters keyLen of Inl e \<Rightarrow> Inl (''secret: pbkdf2: '' @ e) | Inr out \<Rightarrow> Inr out))
      else Inl (''secret: unsupported hash algo '' @ algo))"

definition Mint :: "hashes \<Rightarrow> CredentialMinter \<Rightarrow> string \<Rightarrow> string + string \<times> StoredCredential" where
  "Mint H m src =
     (let prefix = (if Prefix m = [] then DefaultPrefix else Prefix m);
          spec = (if minter_Spec m = [] then AlgoSHA512_256 else minter_Spec m);
          secretBits = (if SecretBits m \<le> 0 then DefaultSecretBits else SecretBits m)
      in case randBase62 (charsForBits publicIDBits) src of
           (None, _) \<Rightarrow> Inl ''secret: mint public id''
         | (Some publicID, src1) \<Rightarrow>
             (case randBase62 (charsForBits secretBits) src1 of
                (None, _) \<Rightarrow> Inl ''secret: mint secret''
              | (Some secretVal, src2) \<Rightarrow>
                  (case rand_Read saltBytesLen src2 of
                     (None, _) \<Rightarrow> Inl ''secret: mint salt''
                   | (Some salt, _) \<Rightarrow>
                       (case computeHash H spec salt secretVal of
                          Inl e \<Rightarrow> Inl e
                        | Inr h \<Rightarrow>
                            Inr (prefix @ ''_'' @ publicID @ ''_'' @ secretVal,
                                 \<lparr>PublicID = publicID, Salt = EncodeToString salt, Hash = EncodeToString h, Spec = spec\<rparr>)))))"

text \<open>\<^verbatim>\<open>strings.LastIndexByte\<close>.\<close>

definition LastIndexByte :: "string \<Rightarrow> char \<Rightarrow> int" where
  "LastIndexByte s c = (if c \<in> set s then int (length s - 1 - length (takeWhile (\<lambda>x. x \<noteq> c) (rev s))) else - 1)"

definition isBase62 :: "string \<Rightarrow> bool" where
  "isBase62 s \<longleftrightarrow> s \<noteq> []
     \<and> list_all (\<lambda>c. 48 \<le> byte c \<and> byte c \<le> 57 \<or> 65 \<le> byte c \<and> byte c \<le> 90 \<or> 97 \<le> byte c \<and> byte c \<le> 122) s"

definition Parse :: "string \<Rightarrow> string + string \<times> string \<times> string" where
  "Parse token =
     (let i2 = LastIndexByte token (CHR ''_'') in
      if i2 \<le> 0 \<or> i2 = int (length token) - 1 then Inl ''secret: malformed credential token''
      else
        let val = drop (nat i2 + 1) token;
            rest = take (nat i2) token;
            i1 = LastIndexByte rest (CHR ''_'')
        in if i1 \<le> 0 \<or> i1 = int (length rest) - 1 then Inl ''secret: malformed credential token''
           else
             let publicID = drop (nat i1 + 1) rest;
                 prefix = take (nat i1) rest
             in if \<not> isBase62 publicID \<or> \<not> isBase62 val then Inl ''secret: credential token segments are not base62''
                else Inr (prefix, publicID, val))"

definition Verify :: "hashes \<Rightarrow> string \<Rightarrow> StoredCredential \<Rightarrow> string + bool" where
  "Verify H val stored =
     (case DecodeString (Salt stored) of
        None \<Rightarrow> Inl ''secret: decode salt''
      | Some saltBytes \<Rightarrow>
          (case DecodeString (Hash stored) of
             None \<Rightarrow> Inl ''secret: decode hash''
           | Some want \<Rightarrow>
               (case computeHash H (Spec stored) saltBytes val of Inl e \<Rightarrow> Inl e | Inr got \<Rightarrow> Inr (got = want))))"

section \<open>The parser\<close>

lemma last_index_split:
  assumes "c \<notin> set t"
  shows "LastIndexByte (s @ c # t) c = int (length s)"
proof -
  have "takeWhile (\<lambda>x. x \<noteq> c) (rev t @ c # rev s) = rev t" using assms by (subst takeWhile_append2) auto
  then show ?thesis by (simp add: LastIndexByte_def)
qed

lemma last_index_cases:
  obtains "LastIndexByte s c = - 1" "c \<notin> set s"
  | a b where "s = a @ c # b" "c \<notin> set b" "LastIndexByte s c = int (length a)"
proof (cases "c \<in> set s")
  case True
  then obtain a b where "s = a @ c # b" "c \<notin> set b" by (meson split_list_last)
  then show ?thesis using that(2) last_index_split by blast
qed (use that(1) in \<open>simp add: LastIndexByte_def\<close>)

lemma base62_no_separator: "isBase62 s \<Longrightarrow> CHR ''_'' \<notin> set s"
  by (auto simp: isBase62_def list_all_iff)

lemma Parse_one:
  assumes "CHR ''_'' \<notin> set v"
  shows "Parse (rest @ CHR ''_'' # v) =
    (if rest = [] \<or> v = [] then Inl ''secret: malformed credential token''
     else let i1 = LastIndexByte rest (CHR ''_'') in
       if i1 \<le> 0 \<or> i1 = int (length rest) - 1 then Inl ''secret: malformed credential token''
       else if \<not> isBase62 (drop (nat i1 + 1) rest) \<or> \<not> isBase62 v then Inl ''secret: credential token segments are not base62''
       else Inr (take (nat i1) rest, drop (nat i1 + 1) rest, v))"
  unfolding Parse_def Let_def last_index_split [OF assms] by simp

lemma Parse_two:
  assumes "CHR ''_'' \<notin> set i" "CHR ''_'' \<notin> set v"
  shows "Parse (p @ CHR ''_'' # i @ CHR ''_'' # v) =
    (if v = [] \<or> p = [] \<or> i = [] then Inl ''secret: malformed credential token''
     else if \<not> isBase62 i \<or> \<not> isBase62 v then Inl ''secret: credential token segments are not base62''
     else Inr (p, i, v))"
  using Parse_one [OF assms(2), of "p @ CHR ''_'' # i"] unfolding last_index_split [OF assms(1)] Let_def by simp

text \<open>A token parses exactly when it has the form of a minted one, and the parts are unique.\<close>

theorem token_parsed:
  "Parse token = Inr (prefix, i, val) \<longleftrightarrow>
   token = prefix @ ''_'' @ i @ ''_'' @ val \<and> prefix \<noteq> [] \<and> isBase62 i \<and> isBase62 val"
proof
  assume P: "Parse token = Inr (prefix, i, val)"
  show "token = prefix @ ''_'' @ i @ ''_'' @ val \<and> prefix \<noteq> [] \<and> isBase62 i \<and> isBase62 val"
  proof (cases rule: last_index_cases [of token "CHR ''_''"])
    case 1
    then show ?thesis using P by (simp add: Parse_def)
  next
    case t: (2 rest v)
    show ?thesis
    proof (cases rule: last_index_cases [of rest "CHR ''_''"])
      case 1
      then show ?thesis using P unfolding t(1) Parse_one [OF t(2)] by (simp split: if_splits)
    next
      case r: (2 p b)
      then show ?thesis using P Parse_two [OF r(2) t(2), of p] by (simp add: t(1) split: if_splits)
    qed
  qed
next
  assume R: "token = prefix @ ''_'' @ i @ ''_'' @ val \<and> prefix \<noteq> [] \<and> isBase62 i \<and> isBase62 val"
  then have "i \<noteq> []" "val \<noteq> []" by (simp_all add: isBase62_def)
  then show "Parse token = Inr (prefix, i, val)"
    using R Parse_two [of i val prefix] base62_no_separator [of i] base62_no_separator [of val] by simp
qed

section \<open>Minted tokens\<close>

lemma base62_length: "length base62Alphabet = 62"
  by (simp add: base62Alphabet_def)

lemma base62_chars: "isBase62 base62Alphabet"
  by code_simp

lemma rand_chars: "randBase62 n src = (Some out, src') \<Longrightarrow> length out = n \<and> set out \<subseteq> set base62Alphabet"
proof (induction n src arbitrary: out src' rule: randBase62.induct)
  case (3 n b src)
  then show ?case
    by (auto simp: base62_length split: if_splits option.splits prod.splits intro!: nth_mem)
qed auto

lemma rand_base62: "randBase62 n src = (Some out, src') \<Longrightarrow> 0 < n \<Longrightarrow> isBase62 out \<and> length out = n"
  using rand_chars [of n src out src'] base62_chars by (auto simp: isBase62_def list_all_iff)

lemma charsForBits_eq:
  assumes "0 < k" "62 ^ (k - 1) < (2::nat) ^ nat bits" "(2::nat) ^ nat bits \<le> 62 ^ k" "k \<le> nat bits"
  shows "charsForBits bits = k"
proof -
  have "62 ^ n < (2::nat) ^ nat bits" if "n < k" for n
  proof -
    have "(62::nat) ^ n \<le> 62 ^ (k - 1)" using that by (intro power_increasing) simp_all
    then show ?thesis using assms(2) by linarith
  qed
  then have "takeWhile (\<lambda>n. 62 ^ n < (2::nat) ^ nat bits) [0..<nat bits + 1] = take k [0..<nat bits + 1]"
    using assms(3,4) by (intro takeWhile_eq_take_P_nth) (simp_all del: upt_Suc)
  then show ?thesis using assms(4) by (simp add: charsForBits_def del: upt_Suc)
qed

lemma charsForBits_pos: "0 < bits \<Longrightarrow> 0 < charsForBits bits"
proof -
  assume "0 < bits"
  then obtain k where "nat bits = Suc k" by (metis gr0_implies_Suc zero_less_nat_eq)
  moreover have "1 < (2::nat) ^ Suc k" by (rule one_less_power) simp_all
  ultimately show ?thesis by (simp add: charsForBits_def upt_rec [of 0] del: upt_Suc)
qed

lemma computed_lengths: "charsForBits publicIDBits = 22" "charsForBits DefaultSecretBits = 43"
  by (rule charsForBits_eq; simp add: publicIDBits_def DefaultSecretBits_def)+

text \<open>Every character of the alphabet stands for the same number of accepted bytes, so the choice has no bias.\<close>

lemma rejection_uniform:
  assumes "c \<in> set base62Alphabet"
  shows "card {b. b < (248::nat) \<and> base62Alphabet ! (b mod 62) = c} = 4"
proof -
  obtain j where j: "j < 62" "base62Alphabet ! j = c" using assms unfolding in_set_conv_nth base62_length by blast
  have d: "distinct base62Alphabet" by (simp add: base62Alphabet_def)
  have "b < 248 \<and> base62Alphabet ! (b mod 62) = c \<longleftrightarrow> b \<in> {j, j + 62, j + 124, j + 186}" for b
  proof -
    have "base62Alphabet ! (b mod 62) = c \<longleftrightarrow> b mod 62 = j"
      using nth_eq_iff_index_eq [OF d, of "b mod 62" j] j base62_length by auto
    moreover have "b < 248 \<and> b mod 62 = j \<longleftrightarrow> b \<in> {j, j + 62, j + 124, j + 186}"
    proof
      assume b: "b < 248 \<and> b mod 62 = j"
      then have "b div 62 < 4" by (simp add: less_mult_imp_div_less)
      then have "b div 62 \<in> {0, 1, 2, 3}" by auto
      then show "b \<in> {j, j + 62, j + 124, j + 186}" using b div_mult_mod_eq [of b 62] by auto
    next
      assume "b \<in> {j, j + 62, j + 124, j + 186}"
      then have "b \<in> {j + 62 * 0, j + 62 * 1, j + 62 * 2, j + 62 * 3}" by simp
      then obtain q where q: "q < 4" "b = j + 62 * q" by (elim insertE emptyE) (rule that [of 0] that [of 1] that [of 2] that [of 3]; simp)+
      have "b mod 62 = j mod 62" unfolding q(2) by (rule mod_mult_self2)
      then show "b < 248 \<and> b mod 62 = j" using q j(1) by simp
    qed
    ultimately show ?thesis by blast
  qed
  then have "{b. b < (248::nat) \<and> base62Alphabet ! (b mod 62) = c} = {j, j + 62, j + 124, j + 186}" by blast
  then show ?thesis by simp
qed

text \<open>C19: Round trip of a credential. A minted token parses into its prefix, the lookup id of the stored credential and a value that the
  stored credential verifies; any other value verifies exactly when it has the same salted hash, and the id has 128 bits.\<close>

theorem credential_roundtrip:
  assumes "Mint H m src = Inr (token, stored)"
  shows "\<exists>val salt. Parse token = Inr (if Prefix m = [] then DefaultPrefix else Prefix m, PublicID stored, val)
    \<and> length (PublicID stored) = 22 \<and> length salt = saltBytesLen \<and> Salt stored = EncodeToString salt
    \<and> Verify H val stored = Inr True
    \<and> (\<forall>x. Verify H x stored = map_sum id (\<lambda>h. Inr h = computeHash H (Spec stored) salt val) (computeHash H (Spec stored) salt x))"
proof -
  let ?bits = "if SecretBits m \<le> 0 then DefaultSecretBits else SecretBits m"
  obtain i src1 val src2 salt src3 h where
    r: "randBase62 (charsForBits publicIDBits) src = (Some i, src1)" "randBase62 (charsForBits ?bits) src1 = (Some val, src2)"
      "rand_Read saltBytesLen src2 = (Some salt, src3)"
    and h: "computeHash H (Spec stored) salt val = Inr h" "Salt stored = EncodeToString salt" "Hash stored = EncodeToString h" "PublicID stored = i"
    and t: "token = (if Prefix m = [] then DefaultPrefix else Prefix m) @ ''_'' @ i @ ''_'' @ val"
    using assms unfolding Mint_def Let_def by (auto split: prod.splits option.splits sum.splits)
  have "isBase62 i" "length i = 22" using rand_base62 [OF r(1)] computed_lengths(1) by simp_all
  moreover have "isBase62 val"
    using rand_base62 [OF r(2)] charsForBits_pos [of ?bits] by (simp add: DefaultSecretBits_def split: if_splits)
  ultimately have "Parse token = Inr (if Prefix m = [] then DefaultPrefix else Prefix m, PublicID stored, val)"
    unfolding token_parsed using t h(4) by (simp add: DefaultPrefix_def)
  moreover have "length salt = saltBytesLen" using r(3) by (auto simp: rand_Read_def split: if_splits)
  moreover have "Verify H x stored = map_sum id (\<lambda>g. Inr g = computeHash H (Spec stored) salt val) (computeHash H (Spec stored) salt x)" for x
    using h by (simp add: Verify_def split: sum.split)
  ultimately show ?thesis using h \<open>length i = 22\<close> by (intro exI [of _ val] exI [of _ salt]) simp
qed

text \<open>A sample source: enough bytes for an id, a value and a salt, with one that is refused.\<close>

definition exHashes :: hashes where
  "exHashes = \<lparr>Sum512_256 = (\<lambda>x. x), Sum384 = (\<lambda>x. x), PBKDF2 = (\<lambda>p s i k. Inr (s @ p))\<rparr>"

lemma exMinted: "\<exists>token stored. Mint exHashes \<lparr>Prefix = ''ib_live'', minter_Spec = [], SecretBits = 0\<rparr> (replicate 81 (CHR ''A'')) = Inr (token, stored)"
proof -
  have r: "randBase62 n (replicate (n + k) (CHR ''A'')) = (Some (replicate n (base62Alphabet ! 3)), replicate k (CHR ''A''))" for n k
    by (induction n) simp_all
  show ?thesis
    using r [of 22 59] r [of 43 16]
    by (simp add: Mint_def computed_lengths rand_Read_def saltBytesLen_def computeHash_def exHashes_def)
qed

theorem credential_roundtrip_witness:
  "\<exists>token stored val. Parse token = Inr (''ib_live'', PublicID stored, val) \<and> Verify exHashes val stored = Inr True"
proof -
  obtain token stored where "Mint exHashes \<lparr>Prefix = ''ib_live'', minter_Spec = [], SecretBits = 0\<rparr> (replicate 81 (CHR ''A'')) = Inr (token, stored)"
    using exMinted by blast
  then show ?thesis using credential_roundtrip by fastforce
qed

section \<open>The development encryptor\<close>

text \<open>AES-256-GCM with nonces of 12 bytes, and HMAC-SHA256; a key of the right length is always accepted.\<close>

record aead =
  Seal :: "string \<Rightarrow> string \<Rightarrow> string \<Rightarrow> string"
  Open :: "string \<Rightarrow> string \<Rightarrow> string \<Rightarrow> string option"
  HMAC :: "string \<Rightarrow> string \<Rightarrow> string"
  NonceSize :: nat

text \<open>What is sealed opens, and what opens was sealed under that key and nonce.\<close>

definition aead_laws :: "aead \<Rightarrow> bool" where
  "aead_laws A \<longleftrightarrow> (\<forall>k n p. length n = NonceSize A \<longrightarrow> Open A k n (Seal A k n p) = Some p)
     \<and> (\<forall>k n c p. Open A k n c = Some p \<longrightarrow> c = Seal A k n p)"

text \<open>\<open>None\<close> is a panic.\<close>

definition NewDev :: "string \<Rightarrow> string option" where
  "NewDev key = (if length key \<noteq> 32 then None else Some (take 32 key))"

definition dev_Encrypt :: "aead \<Rightarrow> string \<Rightarrow> string \<Rightarrow> string \<Rightarrow> string + string" where
  "dev_Encrypt A key src plaintext =
     (case rand_Read (NonceSize A) src of
        (None, _) \<Rightarrow> Inl ''secret: rand nonce''
      | (Some nonce, _) \<Rightarrow> Inr (EncodeToString (nonce @ Seal A key nonce plaintext)))"

definition dev_Decrypt :: "aead \<Rightarrow> string \<Rightarrow> string \<Rightarrow> string + string" where
  "dev_Decrypt A key ciphertext =
     (case DecodeString ciphertext of
        None \<Rightarrow> Inl ''secret: base64 decode''
      | Some data \<Rightarrow>
          if length data < NonceSize A then Inl ''secret: ciphertext too short''
          else (case Open A key (take (NonceSize A) data) (drop (NonceSize A) data) of
                  None \<Rightarrow> Inl ''secret: decrypt'' | Some plain \<Rightarrow> Inr plain))"

definition dev_Hash :: "aead \<Rightarrow> string \<Rightarrow> string \<Rightarrow> string" where
  "dev_Hash A key plaintext = EncodeToString (HMAC A key plaintext)"

text \<open>Encryption is undone by decryption, and decryption gives out nothing that was not encrypted with the key.\<close>

theorem dev_encryptor:
  assumes "aead_laws A"
  shows "(\<forall>c. dev_Encrypt A key src p = Inr c \<longrightarrow> dev_Decrypt A key c = Inr p)
    \<and> (\<forall>c q. dev_Decrypt A key c = Inr q \<longrightarrow> (\<exists>nonce. length nonce = NonceSize A \<and> DecodeString c = Some (nonce @ Seal A key nonce q)))"
proof (intro conjI allI impI)
  fix c assume "dev_Encrypt A key src p = Inr c"
  then show "dev_Decrypt A key c = Inr p"
    using assms by (auto simp: dev_Encrypt_def dev_Decrypt_def rand_Read_def aead_laws_def split: if_splits)
next
  fix c q assume "dev_Decrypt A key c = Inr q"
  then obtain d where d: "DecodeString c = Some d" "NonceSize A \<le> length d" "Open A key (take (NonceSize A) d) (drop (NonceSize A) d) = Some q"
    by (auto simp: dev_Decrypt_def split: option.splits if_splits)
  then have "drop (NonceSize A) d = Seal A key (take (NonceSize A) d) q" using assms by (auto simp: aead_laws_def)
  then have "d = take (NonceSize A) d @ Seal A key (take (NonceSize A) d) q" by (metis append_take_drop_id)
  then show "\<exists>nonce. length nonce = NonceSize A \<and> DecodeString c = Some (nonce @ Seal A key nonce q)"
    using d(1,2) by (intro exI [of _ "take (NonceSize A) d"]) simp
qed

section \<open>Vault\<close>

text \<open>An HTTP exchange gives an error or a status and a body; \<open>field\<close> reads a field of the data of a JSON body.\<close>

record vault_io =
  http_Do :: "string \<Rightarrow> (string \<times> string) list \<Rightarrow> string \<times> string \<Rightarrow> string + nat \<times> string"
  json_field :: "string \<Rightarrow> string \<Rightarrow> string option"
  Sum256 :: "string \<Rightarrow> string"
  vault_HMAC :: "string \<Rightarrow> string \<Rightarrow> string"

record VaultTransit =
  addr :: string
  vault_token :: string
  keyName :: string
  hmacKey :: string

definition NewVaultTransit :: "vault_io \<Rightarrow> string \<Rightarrow> string \<Rightarrow> string \<Rightarrow> VaultTransit" where
  "NewVaultTransit io a t k = \<lparr>addr = a, vault_token = t, keyName = k, hmacKey = Sum256 io t\<rparr>"

definition vault_post :: "vault_io \<Rightarrow> VaultTransit \<Rightarrow> string \<Rightarrow> string \<times> string \<Rightarrow> string \<Rightarrow> string + string" where
  "vault_post io v path body result =
     (case http_Do io (addr v @ path) [(''X-Vault-Token'', vault_token v), (''Content-Type'', ''application/json'')] body of
        Inl e \<Rightarrow> Inl (''vault: http: '' @ e)
      | Inr (status, text) \<Rightarrow>
          if status \<noteq> 200 then Inl ''vault: status''
          else (case json_field io result text of None \<Rightarrow> Inl ''vault: decode'' | Some x \<Rightarrow> Inr x))"

definition vault_Encrypt :: "vault_io \<Rightarrow> VaultTransit \<Rightarrow> string \<Rightarrow> string + string" where
  "vault_Encrypt io v plaintext = vault_post io v (''/v1/transit/encrypt/'' @ keyName v) (''plaintext'', EncodeToString plaintext) ''ciphertext''"

definition vault_Decrypt :: "vault_io \<Rightarrow> VaultTransit \<Rightarrow> string \<Rightarrow> string + string" where
  "vault_Decrypt io v ciphertext =
     (case vault_post io v (''/v1/transit/decrypt/'' @ keyName v) (''ciphertext'', ciphertext) ''plaintext'' of
        Inl e \<Rightarrow> Inl e
      | Inr x \<Rightarrow> (case DecodeString x of None \<Rightarrow> Inl ''vault: decode plaintext'' | Some p \<Rightarrow> Inr p))"

definition vault_Rewrap :: "vault_io \<Rightarrow> VaultTransit \<Rightarrow> string \<Rightarrow> string + string" where
  "vault_Rewrap io v ciphertext = vault_post io v (''/v1/transit/rewrap/'' @ keyName v) (''ciphertext'', ciphertext) ''ciphertext''"

definition vault_Hash :: "vault_io \<Rightarrow> VaultTransit \<Rightarrow> string \<Rightarrow> string" where
  "vault_Hash io v plaintext = EncodeToString (vault_HMAC io (hmacKey v) plaintext)"

text \<open>The hash by which a secret is looked up depends on the token of the client: after a rotation of the token it is another one.\<close>

lemma vault_hash_of_token:
  assumes "inj (Sum256 io)" "\<And>p. inj (\<lambda>k. vault_HMAC io k p)" "t \<noteq> t'"
  shows "vault_Hash io (NewVaultTransit io a t k) p \<noteq> vault_Hash io (NewVaultTransit io a t' k) p"
proof -
  have "Sum256 io t \<noteq> Sum256 io t'" using assms(1,3) by (auto dest: injD)
  then have "vault_HMAC io (Sum256 io t) p \<noteq> vault_HMAC io (Sum256 io t') p" using assms(2) [of p] by (auto dest: injD)
  then show ?thesis unfolding vault_Hash_def NewVaultTransit_def by simp (metis DecodeString_encode option.inject)
qed

end
