(* ===== verification/Ent_Dedup.thy ===== *)
theory Ent_Dedup
  imports Compose_Idem
begin

text \<open>
  The idempotency store over a generated ent client (\<^verbatim>\<open>src/persistence/entrepo/dedupstore.go\<close>): the logic of claiming, replaying
  and collecting over six closures that run one statement each. The locale \<open>ent_table\<close> is the contract of the closures; under
  it the store answers as the store over GORM of \<open>Idempotency\<close>. The reference wiring (\<^verbatim>\<open>src/testdata/iam/iamv1/dedup_store.go\<close>)
  over a table of rows meets the contract, except that its collection can delete a claim that is made between its two statements.
\<close>

section \<open>The store\<close>

definition DefaultEntGCBatchSize :: int where
  "DefaultEntGCBatchSize = 1000"

definition idKeySep :: string where
  "idKeySep = [CHR 0x00]"

definition EncodeIdempotencyID :: "IdempotencyKey \<Rightarrow> string" where
  "EncodeIdempotencyID k = ikTenant k @ idKeySep @ ikMethod k @ idKeySep @ ikRequestID k"

definition encode_error :: ierr where
  "encode_error = DbError ''entrepo'' ''idempotency key component contains a NUL byte''"

definition checkKeyEncodable :: "IdempotencyKey \<Rightarrow> ierr option" where
  "checkKeyEncodable k =
     (if CHR 0x00 \<in> set (ikTenant k) \<or> CHR 0x00 \<in> set (ikMethod k) \<or> CHR 0x00 \<in> set (ikRequestID k) then Some encode_error else None)"

record EntIdempotencyRow =
  entID :: string
  entAccountID :: string
  entMethod :: string
  entRequestID :: string
  entStatus :: IdempotencyStatus
  entResponseType :: string
  entResponse :: string
  entFingerprint :: string
  entCreatedAt :: go_time
  entExpiresAt :: go_time

datatype insert_error = InsertConflict | InsertFailed string

text \<open>The closures over a database of type \<open>'w\<close>; one may be missing. A closure that counts rows gives an error or the count.\<close>

record 'w EntDurableDedupStore =
  InsertFn :: "(EntIdempotencyRow \<Rightarrow> 'w \<Rightarrow> insert_error option \<times> 'w) option"
  ReadFn :: "(string \<Rightarrow> 'w \<Rightarrow> string + EntIdempotencyRow option) option"
  ReclaimFn :: "(EntIdempotencyRow \<Rightarrow> go_time \<Rightarrow> 'w \<Rightarrow> (string + nat) \<times> 'w) option"
  CompleteFn :: "(string \<Rightarrow> string \<Rightarrow> string \<Rightarrow> 'w \<Rightarrow> (string + nat) \<times> 'w) option"
  AbandonFn :: "(string \<Rightarrow> 'w \<Rightarrow> (string + nat) \<times> 'w) option"
  GCDeleteFn :: "(go_time \<Rightarrow> nat \<Rightarrow> 'w \<Rightarrow> (nat \<times> string option) \<times> 'w) option"
  ent_gcBatch :: int

definition NewEntDurableDedupStore :: "('w EntDurableDedupStore \<Rightarrow> 'w EntDurableDedupStore) list \<Rightarrow> 'w EntDurableDedupStore" where
  "NewEntDurableDedupStore options =
     fold (\<lambda>f s. f s) options
       \<lparr>InsertFn = None, ReadFn = None, ReclaimFn = None, CompleteFn = None, AbandonFn = None, GCDeleteFn = None,
        ent_gcBatch = DefaultEntGCBatchSize\<rparr>"

definition WithEntDurableDedupGCBatch :: "int \<Rightarrow> 'w EntDurableDedupStore \<Rightarrow> 'w EntDurableDedupStore" where
  "WithEntDurableDedupGCBatch n s = (if n > 0 then s\<lparr>ent_gcBatch := n\<rparr> else s)"

definition wired_error :: ierr where
  "wired_error = DbError ''entrepo'' ''EntDurableDedupStore is missing one or more closures''"

definition wired :: "'w EntDurableDedupStore \<Rightarrow> ierr option" where
  "wired s =
     (if InsertFn s = None \<or> ReadFn s = None \<or> ReclaimFn s = None \<or> CompleteFn s = None \<or> AbandonFn s = None \<or> GCDeleteFn s = None
      then Some wired_error else None)"

definition toEntRecord :: "EntIdempotencyRow \<Rightarrow> IdempotencyRecord" where
  "toEntRecord r = \<lparr>recStatus = entStatus r, recResponseType = entResponseType r, recResponse = entResponse r,
     recFingerprint = entFingerprint r\<rparr>"

text \<open>The guards that Lookup and Claim share: every closure is there and the key can be encoded.\<close>

definition guarded :: "'w EntDurableDedupStore \<Rightarrow> IdempotencyKey \<Rightarrow> ierr option" where
  "guarded s k = (case wired s of Some e \<Rightarrow> Some e | None \<Rightarrow> checkKeyEncodable k)"

definition ent_Lookup :: "'w EntDurableDedupStore \<Rightarrow> go_time \<Rightarrow> IdempotencyKey \<Rightarrow> 'w \<Rightarrow> ierr + IdempotencyRecord option" where
  "ent_Lookup s tnow k w =
     (case guarded s k of
        Some e \<Rightarrow> Inl e
      | None \<Rightarrow>
          (case the (ReadFn s) (EncodeIdempotencyID k) w of
             Inl e \<Rightarrow> Inl (DbError ''entrepo: idempotency lookup'' e)
           | Inr None \<Rightarrow> Inr None
           | Inr (Some row) \<Rightarrow> if \<not> entExpiresAt row > tnow then Inr None else Inr (Some (toEntRecord row))))"

definition claim_row :: "go_time \<Rightarrow> duration \<Rightarrow> IdempotencyKey \<Rightarrow> string \<Rightarrow> EntIdempotencyRow" where
  "claim_row tnow ttl k fp =
     \<lparr>entID = EncodeIdempotencyID k, entAccountID = ikTenant k, entMethod = ikMethod k, entRequestID = ikRequestID k,
      entStatus = StatusInProgress, entResponseType = [], entResponse = [], entFingerprint = fp, entCreatedAt = tnow,
      entExpiresAt = tnow + ttl\<rparr>"

text \<open>\<open>between\<close> is what other transactions commit after the first statement.\<close>

definition ent_Claim :: "('w \<Rightarrow> 'w) \<Rightarrow> 'w EntDurableDedupStore \<Rightarrow> go_time \<Rightarrow> IdempotencyKey \<Rightarrow> string \<Rightarrow> duration \<Rightarrow> 'w
    \<Rightarrow> (ierr + IdempotencyRecord option) \<times> 'w" where
  "ent_Claim between s tnow k fp ttl w =
     (case guarded s k of
        Some e \<Rightarrow> (Inl e, w)
      | None \<Rightarrow>
          let id = EncodeIdempotencyID k; row = claim_row tnow ttl k fp
          in (case the (ReadFn s) id w of
                Inl e \<Rightarrow> (Inl (DbError ''entrepo: idempotency read'' e), w)
              | Inr (Some cur) \<Rightarrow>
                  if entExpiresAt cur > tnow then (Inr (Some (toEntRecord cur)), w)
                  else (case the (ReclaimFn s) row tnow (between w) of
                          (Inl e, w1) \<Rightarrow> (Inl (DbError ''entrepo: idempotency reclaim'' e), w1)
                        | (Inr n, w1) \<Rightarrow>
                            if n = 1 then (Inr None, w1)
                            else (case the (ReadFn s) id w1 of
                                    Inl e \<Rightarrow> (Inl (DbError ''entrepo: idempotency reread'' e), w1)
                                  | Inr None \<Rightarrow> (Inl (DbError ''entrepo: idempotency reread'' ''reclaimed row vanished''), w1)
                                  | Inr (Some cur2) \<Rightarrow> (Inr (Some (toEntRecord cur2)), w1)))
              | Inr None \<Rightarrow>
                  (case the (InsertFn s) row (between w) of
                     (Some InsertConflict, w1) \<Rightarrow> (Inr (Some (zero_record\<lparr>recStatus := StatusInProgress\<rparr>)), w1)
                   | (Some (InsertFailed e), w1) \<Rightarrow> (Inl (DbError ''entrepo: idempotency claim insert'' e), w1)
                   | (None, w1) \<Rightarrow> (Inr None, w1))))"

definition ent_Complete :: "'w EntDurableDedupStore \<Rightarrow> IdempotencyKey \<Rightarrow> string \<Rightarrow> string \<Rightarrow> 'w \<Rightarrow> ierr option \<times> 'w" where
  "ent_Complete s k ty b w =
     (case wired s of
        Some e \<Rightarrow> (Some e, w)
      | None \<Rightarrow>
          (case the (CompleteFn s) (EncodeIdempotencyID k) ty b w of
             (Inl e, w1) \<Rightarrow> (Some (DbError ''entrepo: idempotency complete'' e), w1)
           | (Inr n, w1) \<Rightarrow> if n = 0 then (Some (NoClaimedRow (ikRequestID k)), w1) else (None, w1)))"

definition ent_Abandon :: "'w EntDurableDedupStore \<Rightarrow> IdempotencyKey \<Rightarrow> 'w \<Rightarrow> (ierr + bool) \<times> 'w" where
  "ent_Abandon s k w =
     (case wired s of
        Some e \<Rightarrow> (Inl e, w)
      | None \<Rightarrow>
          (case the (AbandonFn s) (EncodeIdempotencyID k) w of
             (Inl e, w1) \<Rightarrow> (Inl (DbError ''entrepo: idempotency abandon'' e), w1)
           | (Inr n, w1) \<Rightarrow> (Inr (n > 0), w1)))"

text \<open>The loop runs as long as full chunks are deleted; \<open>None\<close> is a loop that is still running after \<open>fuel\<close> chunks.\<close>

fun ent_gc_loop :: "nat \<Rightarrow> (nat \<Rightarrow> 'w \<Rightarrow> (nat \<times> string option) \<times> 'w) \<Rightarrow> nat \<Rightarrow> nat \<Rightarrow> 'w \<Rightarrow> ((nat \<times> ierr option) \<times> 'w) option" where
  "ent_gc_loop 0 del batch tot w = None"
| "ent_gc_loop (Suc fuel) del batch tot w =
     (case del batch w of
        ((n, Some e), w1) \<Rightarrow> Some ((tot + n, Some (DbError ''entrepo: idempotency gc'' e)), w1)
      | ((n, None), w1) \<Rightarrow> if n < batch then Some ((tot + n, None), w1) else ent_gc_loop fuel del batch (tot + n) w1)"

definition ent_GC :: "nat \<Rightarrow> 'w EntDurableDedupStore \<Rightarrow> go_time \<Rightarrow> 'w \<Rightarrow> ((nat \<times> ierr option) \<times> 'w) option" where
  "ent_GC fuel s tnow w =
     (case wired s of
        Some e \<Rightarrow> Some ((0, Some e), w)
      | None \<Rightarrow>
          ent_gc_loop fuel (the (GCDeleteFn s) tnow) (nat (if ent_gcBatch s \<le> 0 then DefaultEntGCBatchSize else ent_gcBatch s)) 0 w)"

section \<open>The contract of the closures\<close>

text \<open>What the closures do to the rows of their database, in the order of insertion; no statement fails.\<close>

definition row_with :: "string \<Rightarrow> EntIdempotencyRow list \<Rightarrow> EntIdempotencyRow option" where
  "row_with i t = find (\<lambda>r. entID r = i) t"

definition reclaimed :: "EntIdempotencyRow \<Rightarrow> EntIdempotencyRow \<Rightarrow> EntIdempotencyRow" where
  "reclaimed row r = r\<lparr>entStatus := entStatus row, entResponseType := [], entResponse := [], entFingerprint := entFingerprint row,
     entCreatedAt := entCreatedAt row, entExpiresAt := entExpiresAt row\<rparr>"

definition ent_expired :: "go_time \<Rightarrow> EntIdempotencyRow \<Rightarrow> bool" where
  "ent_expired tnow r \<longleftrightarrow> entExpiresAt r \<le> tnow"

definition encodable :: "IdempotencyKey \<Rightarrow> bool" where
  "encodable k \<longleftrightarrow> checkKeyEncodable k = None"

definition ent_of :: "IdempotencyKeyRow \<Rightarrow> EntIdempotencyRow" where
  "ent_of r = \<lparr>entID = EncodeIdempotencyID (rowKey r), entAccountID = ikTenant (rowKey r), entMethod = ikMethod (rowKey r),
     entRequestID = ikRequestID (rowKey r), entStatus = rowStatus r, entResponseType = rowResponseType r,
     entResponse = rowResponse r, entFingerprint = rowFingerprint r, entCreatedAt = rowCreatedAt r, entExpiresAt = rowExpiresAt r\<rparr>"

lemma encode_inj: "encodable k \<Longrightarrow> encodable l \<Longrightarrow> EncodeIdempotencyID k = EncodeIdempotencyID l \<longleftrightarrow> k = l"
  using memKey_inj [of k l]
  by (simp add: encodable_def checkKeyEncodable_def key_ok_def EncodeIdempotencyID_def memKey_def idKeySep_def split: if_splits)

definition all_encodable :: "IdempotencyKeyRow list \<Rightarrow> bool" where
  "all_encodable t \<longleftrightarrow> (\<forall>r\<in>set t. encodable (rowKey r))"

lemma all_encodable_simps [simp]:
  "all_encodable []" "all_encodable (r # t) \<longleftrightarrow> encodable (rowKey r) \<and> all_encodable t"
  "all_encodable (t @ u) \<longleftrightarrow> all_encodable t \<and> all_encodable u"
  by (auto simp: all_encodable_def)

lemma ent_of_sel [simp]:
  "entID (ent_of r) = EncodeIdempotencyID (rowKey r)" "entStatus (ent_of r) = rowStatus r" "entExpiresAt (ent_of r) = rowExpiresAt r"
  "toEntRecord (ent_of r) = toRecord r" "ent_expired tnow (ent_of r) \<longleftrightarrow> rowExpiresAt r \<le> tnow"
  by (simp_all add: ent_of_def toEntRecord_def toRecord_def ent_expired_def)

lemma row_with_ent: "all_encodable t \<Longrightarrow> encodable k \<Longrightarrow> row_with (EncodeIdempotencyID k) (map ent_of t) = map_option ent_of (row_at k t)"
  by (induction t) (auto simp: row_with_def row_at_def encode_inj)

lemma filter_ent:
  "(\<And>r. r \<in> set t \<Longrightarrow> Q (ent_of r) = P r) \<Longrightarrow> filter Q (map ent_of t) = map ent_of (filter P t)"
  by (induction t) auto

lemma map_ent:
  "(\<And>r. r \<in> set t \<Longrightarrow> f (ent_of r) = ent_of (g r)) \<Longrightarrow> map f (map ent_of t) = map ent_of (map g t)"
  by (induction t) auto

lemma encode_row: "all_encodable t \<Longrightarrow> encodable k \<Longrightarrow> r \<in> set t \<Longrightarrow> EncodeIdempotencyID (rowKey r) = EncodeIdempotencyID k \<longleftrightarrow> rowKey r = k"
  using encode_inj by (simp add: all_encodable_def)

locale ent_table =
  fixes rows :: "'w \<Rightarrow> EntIdempotencyRow list"
    and ins :: "EntIdempotencyRow \<Rightarrow> 'w \<Rightarrow> insert_error option \<times> 'w"
    and rd :: "string \<Rightarrow> 'w \<Rightarrow> string + EntIdempotencyRow option"
    and rcl :: "EntIdempotencyRow \<Rightarrow> go_time \<Rightarrow> 'w \<Rightarrow> (string + nat) \<times> 'w"
    and cpl :: "string \<Rightarrow> string \<Rightarrow> string \<Rightarrow> 'w \<Rightarrow> (string + nat) \<times> 'w"
    and abn :: "string \<Rightarrow> 'w \<Rightarrow> (string + nat) \<times> 'w"
    and gcdel :: "go_time \<Rightarrow> nat \<Rightarrow> 'w \<Rightarrow> (nat \<times> string option) \<times> 'w"
  assumes insert_new: "row_with (entID row) (rows w) = None \<Longrightarrow> entResponseType row = [] \<Longrightarrow> entResponse row = [] \<Longrightarrow> fst (ins row w) = None \<and> rows (snd (ins row w)) = rows w @ [row]"
    and insert_dup: "row_with (entID row) (rows w) \<noteq> None \<Longrightarrow> ins row w = (Some InsertConflict, w)"
    and read_row: "rd i w = Inr (row_with i (rows w))"
    and reclaim_row: "fst (rcl row tnow w) = Inr (length (filter (\<lambda>r. entID r = entID row \<and> ent_expired tnow r) (rows w)))"
      "rows (snd (rcl row tnow w)) = map (\<lambda>r. if entID r = entID row \<and> ent_expired tnow r then reclaimed row r else r) (rows w)"
    and complete_row: "fst (cpl i ty b w) = Inr (length (filter (\<lambda>r. entID r = i) (rows w)))"
      "rows (snd (cpl i ty b w))
       = map (\<lambda>r. if entID r = i then r\<lparr>entStatus := StatusCompleted, entResponseType := ty, entResponse := b\<rparr> else r) (rows w)"
    and abandon_row: "fst (abn i w) = Inr (length (filter (\<lambda>r. entID r = i \<and> entStatus r = StatusInProgress) (rows w)))"
      "rows (snd (abn i w)) = filter (\<lambda>r. \<not> (entID r = i \<and> entStatus r = StatusInProgress)) (rows w)"
    and gc_rows: "distinct (map entID (rows w)) \<Longrightarrow> fst (gcdel tnow n w) = (min n (length (filter (ent_expired tnow) (rows w))), None)"
      "distinct (map entID (rows w)) \<Longrightarrow> length (filter (ent_expired tnow) (rows (snd (gcdel tnow n w)))) = length (filter (ent_expired tnow) (rows w)) - n"
      "distinct (map entID (rows w)) \<Longrightarrow>
        filter (\<lambda>r. \<not> ent_expired tnow r) (rows (snd (gcdel tnow n w))) = filter (\<lambda>r. \<not> ent_expired tnow r) (rows w)"
      "distinct (map entID (rows w)) \<Longrightarrow> distinct (map entID (rows (snd (gcdel tnow n w))))"
begin

definition ent_store :: "int \<Rightarrow> 'w EntDurableDedupStore" where
  "ent_store batch = \<lparr>InsertFn = Some ins, ReadFn = Some rd, ReclaimFn = Some rcl, CompleteFn = Some cpl, AbandonFn = Some abn,
     GCDeleteFn = Some gcdel, ent_gcBatch = batch\<rparr>"

text \<open>The collection ends after as many chunks as there are expired rows and one more, and deletes exactly these.\<close>

lemma gc_loop_exact:
  assumes "0 < batch" "length (filter (ent_expired tnow) (rows w)) < fuel" "distinct (map entID (rows w))"
  shows "\<exists>w1. ent_gc_loop fuel (gcdel tnow) batch tot w = Some ((tot + length (filter (ent_expired tnow) (rows w)), None), w1)
    \<and> rows w1 = filter (\<lambda>r. \<not> ent_expired tnow r) (rows w)"
  using assms(2,3)
proof (induction fuel arbitrary: tot w)
  case (Suc fuel)
  let ?n = "length (filter (ent_expired tnow) (rows w))"
  obtain w1 where g: "gcdel tnow batch w = ((min batch ?n, None), w1)" using gc_rows(1) [OF Suc.prems(2), of tnow batch] by (metis prod.collapse)
  then have w1: "length (filter (ent_expired tnow) (rows w1)) = ?n - batch"
      "filter (\<lambda>r. \<not> ent_expired tnow r) (rows w1) = filter (\<lambda>r. \<not> ent_expired tnow r) (rows w)"
    using gc_rows(2,3) [OF Suc.prems(2), of tnow batch] by simp_all
  have d1: "distinct (map entID (rows w1))" using gc_rows(4) [OF Suc.prems(2), of tnow batch] g by simp
  show ?case
  proof (cases "?n < batch")
    case True
    then have "filter (ent_expired tnow) (rows w1) = []" using w1(1) by simp
    then have "rows w1 = filter (\<lambda>r. \<not> ent_expired tnow r) (rows w1)" by (simp add: filter_empty_conv filter_id_conv)
    then show ?thesis using g True w1(2) by simp
  next
    case False
    then have "length (filter (ent_expired tnow) (rows w1)) < fuel" using w1(1) Suc.prems(1) assms(1) by linarith
    then obtain w2 where "ent_gc_loop fuel (gcdel tnow) batch (tot + batch) w1 = Some ((tot + batch + (?n - batch), None), w2)"
        "rows w2 = filter (\<lambda>r. \<not> ent_expired tnow r) (rows w)"
      using Suc.IH [of w1 "tot + batch", OF _ d1] w1 by auto
    then show ?thesis using g False by simp
  qed
qed simp

definition mirrors :: "IdempotencyKeyRow list \<Rightarrow> 'w \<Rightarrow> bool" where
  "mirrors t w \<longleftrightarrow> rows w = map ent_of t \<and> table_ok t \<and> all_encodable t"

lemma mirrors_at: "mirrors t w \<Longrightarrow> encodable k \<Longrightarrow> rd (EncodeIdempotencyID k) w = Inr (map_option ent_of (row_at k t))"
  by (simp add: mirrors_def read_row row_with_ent)

lemma store_fields:
  "wired (ent_store b) = None" "encodable k \<Longrightarrow> guarded (ent_store b) k = None" "the (ReadFn (ent_store b)) = rd"
  "the (InsertFn (ent_store b)) = ins" "the (ReclaimFn (ent_store b)) = rcl" "the (CompleteFn (ent_store b)) = cpl"
  "the (AbandonFn (ent_store b)) = abn" "the (GCDeleteFn (ent_store b)) = gcdel" "ent_gcBatch (ent_store b) = b"
  by (simp_all add: ent_store_def wired_def guarded_def encodable_def)

lemma ent_sim_Lookup: "mirrors t w \<Longrightarrow> encodable k \<Longrightarrow> ent_Lookup (ent_store b) tnow k w = Lookup no_faults tnow k t"
proof -
  assume m: "mirrors t w" and k: "encodable k"
  then have "table_ok t" by (simp add: mirrors_def)
  then show ?thesis
    by (simp add: ent_Lookup_def store_fields k mirrors_at [OF m k] Lookup_def no_faults_def find_live split: option.split)
qed

lemma ent_sim_Claim:
  assumes m: "mirrors t w" and k: "encodable k"
  shows "fst (ent_Claim (\<lambda>w. w) (ent_store b) tnow k fp ttl w) = fst (Claim no_faults tnow k fp ttl t)
    \<and> mirrors (snd (Claim no_faults tnow k fp ttl t)) (snd (ent_Claim (\<lambda>w. w) (ent_store b) tnow k fp ttl w))"
proof -
  have rows: "rows w = map ent_of t" and ok: "table_ok t" and enc: "all_encodable t" using m by (simp_all add: mirrors_def)
  let ?row = "claim_row tnow ttl k fp"
  show ?thesis
  proof (cases "row_at k t")
    case None
    have g: "Claim no_faults tnow k fp ttl t = (Inr None, t @ [fresh_row tnow ttl k fp])" using None by (simp add: Claim_def no_faults_def)
    have "row_with (entID ?row) (rows w) = None" using None row_with_ent [OF enc k] by (simp add: rows claim_row_def)
    then obtain w1 where i: "ins ?row w = (None, w1)" "rows w1 = rows w @ [?row]" using insert_new [of ?row w] by (cases "ins ?row w") (simp add: claim_row_def)
    have "?row = ent_of (fresh_row tnow ttl k fp)" by (simp add: claim_row_def ent_of_def fresh_row_def)
    moreover have "table_ok (t @ [fresh_row tnow ttl k fp])" using claimed_fresh [OF ok None] by (simp add: claimed_def)
    ultimately have "mirrors (t @ [fresh_row tnow ttl k fp]) w1" using i(2) rows enc k by (simp add: mirrors_def fresh_row_def)
    then show ?thesis using g i(1) None
      by (simp add: ent_Claim_def store_fields k mirrors_at [OF m k] Let_def)
  next
    case (Some r)
    show ?thesis
    proof (cases "rowExpiresAt r \<le> tnow")
      case False
      then show ?thesis using Some m
        by (simp add: ent_Claim_def store_fields k mirrors_at [OF m k] Let_def Claim_def no_faults_def take_row_def)
    next
      case exp: True
      let ?P = "\<lambda>r. rowKey r = k \<and> rowExpiresAt r \<le> tnow"
      let ?f = "\<lambda>r :: IdempotencyKeyRow. r\<lparr>rowStatus := StatusInProgress, rowResponseType := [], rowResponse := [],
        rowFingerprint := fp, rowCreatedAt := tnow, rowExpiresAt := tnow + ttl\<rparr>"
      let ?t = "map (\<lambda>r. if ?P r then ?f r else r) t"
      have n: "length (filter ?P t) = 1" using exp by (rule one_match [where Q = "\<lambda>r. rowExpiresAt r \<le> tnow", OF ok Some])
      have g: "Claim no_faults tnow k fp ttl t = (Inr None, ?t)"
        using Some exp n by (simp add: Claim_def no_faults_def take_row_def update_where_def Let_def)
      have id: "entID ?row = EncodeIdempotencyID k" by (simp add: claim_row_def)
      have "filter (\<lambda>r. entID r = EncodeIdempotencyID k \<and> ent_expired tnow r) (map ent_of t) = map ent_of (filter ?P t)"
        by (rule filter_ent) (simp add: encode_row [OF enc k])
      then have one: "fst (rcl ?row tnow w) = Inr 1" using reclaim_row(1) [of ?row tnow w] n by (simp add: id rows)
      have "map (\<lambda>r. if entID r = EncodeIdempotencyID k \<and> ent_expired tnow r then reclaimed ?row r else r) (map ent_of t) = map ent_of ?t"
        by (rule map_ent) (auto simp: encode_row [OF enc k] reclaimed_def claim_row_def ent_of_def ent_expired_def)
      then have "rows (snd (rcl ?row tnow w)) = map ent_of ?t" using reclaim_row(2) [of ?row tnow w] by (simp add: id rows)
      moreover have "table_ok ?t" by (rule row_at_map(2) [OF _ _ ok]) auto
      moreover have "all_encodable ?t" using enc by (auto simp: all_encodable_def)
      ultimately have "mirrors ?t (snd (rcl ?row tnow w))" by (simp add: mirrors_def)
      moreover have "ent_Claim (\<lambda>w. w) (ent_store b) tnow k fp ttl w = (Inr None, snd (rcl ?row tnow w))"
        using Some exp one by (cases "rcl ?row tnow w") (simp add: ent_Claim_def store_fields k mirrors_at [OF m k] Let_def)
      ultimately show ?thesis using g by simp
    qed
  qed
qed

lemma ent_sim_Complete:
  assumes m: "mirrors t w" and k: "encodable k"
  shows "fst (ent_Complete (ent_store b) k ty body w) = fst (Complete no_faults k ty body t)
    \<and> mirrors (snd (Complete no_faults k ty body t)) (snd (ent_Complete (ent_store b) k ty body w))"
proof -
  have rows: "rows w = map ent_of t" and ok: "table_ok t" and enc: "all_encodable t" using m by (simp_all add: mirrors_def)
  let ?f = "\<lambda>r :: IdempotencyKeyRow. r\<lparr>rowStatus := StatusCompleted, rowResponseType := ty, rowResponse := body\<rparr>"
  let ?t = "map (\<lambda>r. if rowKey r = k then ?f r else r) t" and ?i = "EncodeIdempotencyID k"
  obtain w1 where c: "cpl ?i ty body w = (Inr (length (filter (\<lambda>r. entID r = ?i) (rows w))), w1)"
    using complete_row(1) [of ?i ty body w] by (metis prod.collapse)
  have "filter (\<lambda>r. entID r = ?i) (map ent_of t) = map ent_of (filter (\<lambda>r. rowKey r = k) t)"
    by (rule filter_ent) (simp add: encode_row [OF enc k])
  then have n: "cpl ?i ty body w = (Inr (length (filter (\<lambda>r. rowKey r = k) t)), w1)" using c by (simp add: rows)
  have "map (\<lambda>r. if entID r = ?i then r\<lparr>entStatus := StatusCompleted, entResponseType := ty, entResponse := body\<rparr> else r) (map ent_of t) = map ent_of ?t"
    by (rule map_ent) (auto simp: encode_row [OF enc k] ent_of_def)
  then have "rows w1 = map ent_of ?t" using complete_row(2) [of ?i ty body w] n by (simp add: rows)
  moreover have "table_ok ?t" by (rule row_at_map(2) [OF _ _ ok]) auto
  moreover have "all_encodable ?t" using enc by (auto simp: all_encodable_def)
  ultimately have "mirrors ?t w1" by (simp add: mirrors_def)
  then show ?thesis by (simp add: ent_Complete_def store_fields n Complete_def no_faults_def update_where_def)
qed

lemma ent_sim_Abandon:
  assumes m: "mirrors t w" and k: "encodable k"
  shows "fst (ent_Abandon (ent_store b) k w) = fst (Abandon no_faults k t)
    \<and> mirrors (snd (Abandon no_faults k t)) (snd (ent_Abandon (ent_store b) k w))"
proof -
  have rows: "rows w = map ent_of t" and ok: "table_ok t" and enc: "all_encodable t" using m by (simp_all add: mirrors_def)
  let ?P = "\<lambda>r. rowKey r = k \<and> rowStatus r = StatusInProgress" and ?i = "EncodeIdempotencyID k"
  have "filter (\<lambda>r. entID r = ?i \<and> entStatus r = StatusInProgress) (map ent_of t) = map ent_of (filter ?P t)"
    by (rule filter_ent) (simp add: encode_row [OF enc k])
  then have "fst (abn ?i w) = Inr (length (filter ?P t))" using abandon_row(1) [of ?i w] unfolding rows by simp
  then obtain w1 where n: "abn ?i w = (Inr (length (filter ?P t)), w1)" by (cases "abn ?i w") simp
  have "filter (\<lambda>r. \<not> (entID r = ?i \<and> entStatus r = StatusInProgress)) (map ent_of t) = map ent_of (filter (\<lambda>r. \<not> ?P r) t)"
    by (rule filter_ent) (simp add: encode_row [OF enc k])
  then have "rows w1 = map ent_of (filter (\<lambda>r. \<not> ?P r) t)" using abandon_row(2) [of ?i w] n by (simp add: rows)
  then have "mirrors (filter (\<lambda>r. \<not> ?P r) t) w1"
    using row_at_filter(2) [OF ok] enc by (auto simp: mirrors_def all_encodable_def)
  moreover have "0 < length (filter ?P t) \<longleftrightarrow> list_ex ?P t" by (auto simp: list_ex_iff filter_empty_conv)
  ultimately show ?thesis by (simp add: ent_Abandon_def store_fields n Abandon_def no_faults_def)
qed

end

section \<open>The reference wiring\<close>

text \<open>The statements of the generated client over the rows of the table. \<open>save_err\<close>, \<open>get_err\<close> and so on are what the database says;
  a second row with one id is a unique violation.\<close>

definition iam_Insert :: "string option \<Rightarrow> EntIdempotencyRow \<Rightarrow> EntIdempotencyRow list \<Rightarrow> insert_error option \<times> EntIdempotencyRow list" where
  "iam_Insert save_err row t =
     (case save_err of
        Some e \<Rightarrow> (Some (InsertFailed e), t)
      | None \<Rightarrow> if row_with (entID row) t \<noteq> None then (Some InsertConflict, t)
                else (None, t @ [row\<lparr>entResponseType := [], entResponse := []\<rparr>]))"

definition iam_Read :: "string option \<Rightarrow> string \<Rightarrow> EntIdempotencyRow list \<Rightarrow> string + EntIdempotencyRow option" where
  "iam_Read get_err i t = (case get_err of Some e \<Rightarrow> Inl e | None \<Rightarrow> Inr (row_with i t))"

definition iam_update :: "string option \<Rightarrow> (EntIdempotencyRow \<Rightarrow> bool) \<Rightarrow> (EntIdempotencyRow \<Rightarrow> EntIdempotencyRow) \<Rightarrow> EntIdempotencyRow list
    \<Rightarrow> (string + nat) \<times> EntIdempotencyRow list" where
  "iam_update err P f t =
     (case err of Some e \<Rightarrow> (Inl e, t) | None \<Rightarrow> (Inr (length (filter P t)), map (\<lambda>r. if P r then f r else r) t))"

definition iam_Reclaim :: "string option \<Rightarrow> EntIdempotencyRow \<Rightarrow> go_time \<Rightarrow> EntIdempotencyRow list \<Rightarrow> (string + nat) \<times> EntIdempotencyRow list" where
  "iam_Reclaim err row tnow = iam_update err (\<lambda>r. entID r = entID row \<and> entExpiresAt r \<le> tnow)
     (\<lambda>r. r\<lparr>entStatus := entStatus row, entResponseType := [], entResponse := [], entFingerprint := entFingerprint row,
            entCreatedAt := entCreatedAt row, entExpiresAt := entExpiresAt row\<rparr>)"

definition iam_Complete :: "string option \<Rightarrow> string \<Rightarrow> string \<Rightarrow> string \<Rightarrow> EntIdempotencyRow list \<Rightarrow> (string + nat) \<times> EntIdempotencyRow list" where
  "iam_Complete err i ty b = iam_update err (\<lambda>r. entID r = i) (\<lambda>r. r\<lparr>entStatus := StatusCompleted, entResponseType := ty, entResponse := b\<rparr>)"

definition iam_Abandon :: "string option \<Rightarrow> string \<Rightarrow> EntIdempotencyRow list \<Rightarrow> (string + nat) \<times> EntIdempotencyRow list" where
  "iam_Abandon err i t =
     (case err of
        Some e \<Rightarrow> (Inl e, t)
      | None \<Rightarrow> (Inr (length (filter (\<lambda>r. entID r = i \<and> entStatus r = StatusInProgress) t)),
                 filter (\<lambda>r. \<not> (entID r = i \<and> entStatus r = StatusInProgress)) t))"

text \<open>The collection selects ids in one statement and deletes by id in another; \<open>between\<close> is what others commit in the meantime.\<close>

definition iam_GCDelete :: "(EntIdempotencyRow list \<Rightarrow> EntIdempotencyRow list) \<Rightarrow> string option \<Rightarrow> go_time \<Rightarrow> nat \<Rightarrow> EntIdempotencyRow list
    \<Rightarrow> (nat \<times> string option) \<times> EntIdempotencyRow list" where
  "iam_GCDelete between err tnow limit t =
     (case err of
        Some e \<Rightarrow> ((0, Some e), t)
      | None \<Rightarrow>
          let ids = take limit (map entID (filter (\<lambda>r. entExpiresAt r \<le> tnow) t))
          in if ids = [] then ((0, None), t)
             else let t1 = between t
                  in ((length (filter (\<lambda>r. entID r \<in> set ids) t1), None), filter (\<lambda>r. entID r \<notin> set ids) t1))"

definition iam_store :: "int \<Rightarrow> EntIdempotencyRow list EntDurableDedupStore" where
  "iam_store batch =
     (NewEntDurableDedupStore [WithEntDurableDedupGCBatch batch])
       \<lparr>InsertFn := Some (iam_Insert None), ReadFn := Some (iam_Read None), ReclaimFn := Some (iam_Reclaim None),
        CompleteFn := Some (iam_Complete None), AbandonFn := Some (iam_Abandon None),
        GCDeleteFn := Some (iam_GCDelete (\<lambda>t. t) None)\<rparr>"

lemma selected_rows:
  "distinct (map entID t) \<Longrightarrow> filter (\<lambda>r. entID r \<in> set (take n (map entID (filter P t)))) t = take n (filter P t)"
proof (induction t arbitrary: n)
  case (Cons r t)
  have out: "entID r \<notin> set (take m (map entID (filter P t)))" for m
    using Cons.prems by (auto dest!: in_set_takeD)
  show ?case
  proof (cases "P r")
    case True
    show ?thesis
    proof (cases n)
      case (Suc m)
      have "filter (\<lambda>x. entID x = entID r \<or> entID x \<in> set (take m (map entID (filter P t)))) t
          = filter (\<lambda>x. entID x \<in> set (take m (map entID (filter P t)))) t"
      proof (rule filter_cong [OF refl])
        fix x assume "x \<in> set t"
        then have "entID x \<noteq> entID r" using Cons.prems by (metis distinct.simps(2) image_eqI list.map(2) list.set_map)
        then show "(entID x = entID r \<or> entID x \<in> set (take m (map entID (filter P t)))) = (entID x \<in> set (take m (map entID (filter P t))))"
          by simp
      qed
      then show ?thesis using True Suc Cons by simp
    qed simp
  qed (use out Cons in simp)
qed simp

interpretation iam: ent_table "\<lambda>t. t" "iam_Insert None" "iam_Read None" "iam_Reclaim None" "iam_Complete None" "iam_Abandon None"
  "iam_GCDelete (\<lambda>t. t) None"
proof unfold_locales
  fix tnow n and w :: "EntIdempotencyRow list"
  assume d: "distinct (map entID w)"
  define S where "S = set (take n (map entID (filter (ent_expired tnow) w)))"
  have e: "ent_expired tnow = (\<lambda>r. entExpiresAt r \<le> tnow)" by (simp add: ent_expired_def fun_eq_iff)
  have sel: "filter (\<lambda>r. entID r \<in> S) w = take n (filter (ent_expired tnow) w)" unfolding S_def by (rule selected_rows [OF d])
  have exp: "ent_expired tnow r" if "r \<in> set w" "entID r \<in> S" for r
  proof -
    have "r \<in> set (filter (\<lambda>r. entID r \<in> S) w)" using that by simp
    then show ?thesis unfolding sel by (auto dest: in_set_takeD)
  qed
  have g: "iam_GCDelete (\<lambda>t. t) None tnow n w = ((min n (length (filter (ent_expired tnow) w)), None), filter (\<lambda>r. entID r \<notin> S) w)"
  proof (cases "take n (map entID (filter (ent_expired tnow) w)) = []")
    case True
    then have "S = {}" "min n (length (filter (ent_expired tnow) w)) = 0" by (auto simp: S_def)
    moreover have "take n (map entID (filter (\<lambda>r. entExpiresAt r \<le> tnow) w)) = []" using True unfolding e .
    ultimately show ?thesis unfolding iam_GCDelete_def Let_def by simp
  next
    case False
    then have "iam_GCDelete (\<lambda>t. t) None tnow n w = ((length (filter (\<lambda>r. entID r \<in> S) w), None), filter (\<lambda>r. entID r \<notin> S) w)"
      unfolding iam_GCDelete_def Let_def S_def e by simp
    then show ?thesis unfolding sel by (simp add: min.commute)
  qed
  show "fst (iam_GCDelete (\<lambda>t. t) None tnow n w) = (min n (length (filter (ent_expired tnow) w)), None)" by (simp add: g)
  have "filter (ent_expired tnow) (filter (\<lambda>r. entID r \<in> S) w) = filter (\<lambda>r. entID r \<in> S) w"
    unfolding filter_id_conv using exp by simp
  then have "length (filter (ent_expired tnow) (filter (\<lambda>r. entID r \<in> S) w)) = min (length (filter (ent_expired tnow) w)) n"
    unfolding sel by simp
  moreover have "length (filter (ent_expired tnow) (filter (\<lambda>r. entID r \<in> S) w)) + length (filter (ent_expired tnow) (filter (\<lambda>r. entID r \<notin> S) w))
      = length (filter (ent_expired tnow) w)"
    using sum_length_filter_compl [of "\<lambda>r. entID r \<in> S" "filter (ent_expired tnow) w"] unfolding filter_filter conj_commute [of "ent_expired tnow _"] .
  ultimately show "length (filter (ent_expired tnow) (snd (iam_GCDelete (\<lambda>t. t) None tnow n w))) = length (filter (ent_expired tnow) w) - n"
    unfolding g snd_conv by linarith
  show "filter (\<lambda>r. \<not> ent_expired tnow r) (snd (iam_GCDelete (\<lambda>t. t) None tnow n w)) = filter (\<lambda>r. \<not> ent_expired tnow r) w"
    unfolding g snd_conv filter_filter using exp by (intro filter_cong) auto
  show "distinct (map entID (snd (iam_GCDelete (\<lambda>t. t) None tnow n w)))" using d by (simp add: g distinct_map_filter)
qed (simp_all add: iam_Insert_def iam_Read_def iam_Reclaim_def iam_Complete_def iam_Abandon_def iam_update_def ent_expired_def reclaimed_def)

section \<open>Properties\<close>

lemma iam_store_eq: "iam_store b = iam.ent_store (if b > 0 then b else DefaultEntGCBatchSize)"
  by (simp add: iam_store_def iam.ent_store_def NewEntDurableDedupStore_def WithEntDurableDedupGCBatch_def)

lemma ent_rows_distinct: "table_ok t \<Longrightarrow> all_encodable t \<Longrightarrow> distinct (map entID (map ent_of t))"
proof (induction t)
  case (Cons r t)
  have "entID (ent_of x) \<noteq> entID (ent_of r)" if "x \<in> set t" for x
  proof -
    have "rowKey x \<noteq> rowKey r" using Cons.prems(1) that by (metis distinct.simps(2) image_eqI list.map(2) list.set_map table_ok_def)
    then show ?thesis using Cons.prems(2) that encode_inj by (simp add: all_encodable_def)
  qed
  then show ?case using Cons by (force simp: table_ok_def)
qed simp

lemma ent_GC_exact:
  assumes "table_ok t" "all_encodable t"
  shows "ent_GC (Suc (length t)) (iam_store b) tnow (map ent_of t) =
    Some ((fst (GC (\<lambda>_. None) gcb tnow t), None), map ent_of (snd (snd (GC (\<lambda>_. None) gcb tnow t))))"
proof -
  let ?b = "nat (if (if b > 0 then b else DefaultEntGCBatchSize) \<le> 0 then DefaultEntGCBatchSize else if b > 0 then b else DefaultEntGCBatchSize)"
  have f: "filter (ent_expired tnow) (map ent_of t) = map ent_of (filter (\<lambda>r. rowExpiresAt r \<le> tnow) t)"
    "filter (\<lambda>r. \<not> ent_expired tnow r) (map ent_of t) = map ent_of (filter (\<lambda>r. rowExpiresAt r > tnow) t)"
    by (rule filter_ent; auto)+
  have "0 < ?b" by (simp add: DefaultEntGCBatchSize_def)
  moreover have "length (filter (ent_expired tnow) (map ent_of t)) < Suc (length t)" unfolding f by (simp add: le_imp_less_Suc)
  ultimately have "ent_gc_loop (Suc (length t)) (iam_GCDelete (\<lambda>t. t) None tnow) ?b 0 (map ent_of t)
      = Some ((length (filter (\<lambda>r. rowExpiresAt r \<le> tnow) t), None), map ent_of (filter (\<lambda>r. rowExpiresAt r > tnow) t))"
    using iam.gc_loop_exact [of ?b tnow "map ent_of t" "Suc (length t)" 0] ent_rows_distinct [OF assms] unfolding f by auto
  then have e: "ent_GC (Suc (length t)) (iam_store b) tnow (map ent_of t)
      = Some ((length (filter (\<lambda>r. rowExpiresAt r \<le> tnow) t), None), map ent_of (filter (\<lambda>r. rowExpiresAt r > tnow) t))"
    unfolding ent_GC_def iam_store_eq iam.store_fields by (simp del: ent_gc_loop.simps)
  obtain n er t' where g: "GC (\<lambda>_. None) gcb tnow t = (n, er, t')" by (metis prod_cases3)
  then have x: "n + length t' = length t" "t' = filter (\<lambda>r. rowExpiresAt r > tnow) t"
    using gc_rounds_exact [OF g [unfolded GC_def]] by auto
  have "length (filter (\<lambda>r. rowExpiresAt r \<le> tnow) t) + length (filter (\<lambda>r. rowExpiresAt r > tnow) t) = length t"
    using sum_length_filter_compl [of "\<lambda>r. rowExpiresAt r \<le> tnow" t] by (simp add: not_le)
  then show ?thesis using x by (simp add: e g)
qed



text \<open>The collection of the reference wiring deletes by id what it selected as expired. A request that reclaims the key and completes
  between the two statements loses its live record: the retry finds nothing and runs the handler again.\<close>

lemma ent_gc_deletes_live_claim:
  defines "t \<equiv> map ent_of [fresh_row 2 3 exKey ''f'']"
    and "other \<equiv> \<lambda>t. snd (ent_Complete (iam_store 2) exKey ''T'' ''r'' (snd (ent_Claim (\<lambda>w. w) (iam_store 2) 9 exKey ''f'' 100 t)))"
  shows "ent_Lookup (iam_store 2) 10 exKey (other t) = Inr (Some \<lparr>recStatus = StatusCompleted, recResponseType = ''T'', recResponse = ''r'', recFingerprint = ''f''\<rparr>)"
    and "iam_GCDelete other None 9 2 t = ((1, None), [])"
    and "fst (ent_Claim (\<lambda>w. w) (iam_store 2) 10 exKey ''f'' 100 (snd (iam_GCDelete other None 9 2 t))) = Inr None"
  unfolding t_def other_def by code_simp+

end
