(* ===== verification/Resource_Names.thy ===== *)
theory Resource_Names
  imports Text
begin

text \<open>
  Resource names by pattern (\<^verbatim>\<open>src/persistence/resourcename/resourcename.go\<close>) and the generators of ids that a repository is
  configured with (\<^verbatim>\<open>src/persistence/id.go\<close>).
\<close>

section \<open>Names\<close>

definition is_var :: "string \<Rightarrow> bool" where
  "is_var seg \<longleftrightarrow> has_prefix seg [CHR 0x7B] \<and> has_suffix seg [CHR 0x7D]"

definition var_name :: "string \<Rightarrow> string" where
  "var_name seg = butlast (tl seg)"

text \<open>The loop over the segments, with their number.\<close>

fun parse_segs :: "nat \<Rightarrow> string list \<Rightarrow> string list \<Rightarrow> (string \<Rightarrow> string option) \<Rightarrow> (nat \<times> string \<times> string) + (string \<Rightarrow> string option)" where
  "parse_segs i (p # ps) (n # ns) vars =
     (if is_var p then parse_segs (Suc i) ps ns (vars(var_name p \<mapsto> n))
      else if p \<noteq> n then Inl (i, p, n)
      else parse_segs (Suc i) ps ns vars)"
| "parse_segs i ps ns vars = Inr vars"

datatype name_error = SegmentCount nat nat | LiteralMismatch nat string string | MissingVariable string | NoVariable string

definition name_Parse :: "string \<Rightarrow> string \<Rightarrow> name_error + (string \<Rightarrow> string option)" where
  "name_Parse pattern name =
     (let pSegs = split_char (CHR ''/'') pattern; nSegs = split_char (CHR ''/'') name in
      if length pSegs \<noteq> length nSegs then Inl (SegmentCount (length nSegs) (length pSegs))
      else case parse_segs 0 pSegs nSegs (\<lambda>_. None) of Inl (i, p, n) \<Rightarrow> Inl (LiteralMismatch i p n) | Inr vars \<Rightarrow> Inr vars)"

fun format_segs :: "(string \<Rightarrow> string option) \<Rightarrow> string list \<Rightarrow> string + string list" where
  "format_segs vars [] = Inr []"
| "format_segs vars (seg # segs) =
     (case (if is_var seg then vars (var_name seg) else Some seg) of
        None \<Rightarrow> Inl (var_name seg)
      | Some v \<Rightarrow> (case format_segs vars segs of Inl e \<Rightarrow> Inl e | Inr out \<Rightarrow> Inr (v # out)))"

definition name_Format :: "string \<Rightarrow> (string \<Rightarrow> string option) \<Rightarrow> name_error + string" where
  "name_Format pattern vars =
     (case format_segs vars (split_char (CHR ''/'') pattern) of
        Inl key \<Rightarrow> Inl (MissingVariable key) | Inr out \<Rightarrow> Inr (str_join ''/'' out))"

definition lastVarName :: "string \<Rightarrow> string" where
  "lastVarName pattern = (case find is_var (rev (split_char (CHR ''/'') pattern)) of None \<Rightarrow> [] | Some s \<Rightarrow> var_name s)"

definition IDFromName :: "string \<Rightarrow> string \<Rightarrow> name_error + string" where
  "IDFromName pattern name =
     (case name_Parse pattern name of
        Inl e \<Rightarrow> Inl e
      | Inr vars \<Rightarrow>
          if lastVarName pattern = [] then Inl (NoVariable pattern)
          else Inr (case vars (lastVarName pattern) of None \<Rightarrow> [] | Some v \<Rightarrow> v))"

definition IDVarName :: "string \<Rightarrow> string" where
  "IDVarName pattern = lastVarName pattern"

section \<open>Round trips\<close>

definition vars_of :: "string list \<Rightarrow> string list" where
  "vars_of segs = map var_name (filter is_var segs)"

lemma vars_of_simps [simp]: "vars_of [] = []" "vars_of (s # segs) = (if is_var s then var_name s # vars_of segs else vars_of segs)"
  by (simp_all add: vars_of_def)

lemma parse_other: "parse_segs i ps ns v0 = Inr v \<Longrightarrow> x \<notin> set (vars_of ps) \<Longrightarrow> v x = v0 x"
  by (induction i ps ns v0 rule: parse_segs.induct) (auto split: if_splits)

lemma parse_then_format:
  "length ps = length ns \<Longrightarrow> distinct (vars_of ps) \<Longrightarrow> parse_segs i ps ns v0 = Inr v \<Longrightarrow> format_segs v ps = Inr ns"
proof (induction ps arbitrary: i ns v0)
  case (Cons p ps)
  then obtain n ns' where ns: "ns = n # ns'" by (cases ns) auto
  show ?case
  proof (cases "is_var p")
    case True
    then have r: "parse_segs (Suc i) ps ns' (v0(var_name p \<mapsto> n)) = Inr v" using Cons.prems(3) ns by simp
    have "v (var_name p) = Some n" using parse_other [OF r, of "var_name p"] Cons.prems(2) True by simp
    then show ?thesis using Cons.IH [OF _ _ r] Cons.prems(1,2) True ns by simp
  next
    case False
    then show ?thesis using Cons.IH [of ns' "Suc i" v0] Cons.prems ns by (simp split: if_splits)
  qed
qed simp

lemma format_then_parse:
  "format_segs v ps = Inr ns \<Longrightarrow> distinct (vars_of ps)
    \<Longrightarrow> length ns = length ps \<and> parse_segs i ps ns v0 = Inr (\<lambda>x. if x \<in> set (vars_of ps) then v x else v0 x)"
proof (induction ps arbitrary: i ns v0)
  case (Cons p ps)
  obtain n ns' where n: "(if is_var p then v (var_name p) else Some p) = Some n" "format_segs v ps = Inr ns'" "ns = n # ns'"
    using Cons.prems(1) by (auto split: option.splits sum.splits)
  have d: "distinct (vars_of ps)" using Cons.prems(2) by (simp split: if_splits)
  show ?case
  proof (cases "is_var p")
    case True
    then have "var_name p \<notin> set (vars_of ps)" "v (var_name p) = Some n" using Cons.prems(2) n(1) by auto
    then have "(\<lambda>x. if x \<in> set (vars_of ps) then v x else (v0(var_name p \<mapsto> n)) x) = (\<lambda>x. if x \<in> set (vars_of (p # ps)) then v x else v0 x)"
      using True by (auto simp: fun_eq_iff)
    then show ?thesis using Cons.IH [OF n(2) d, of "Suc i" "v0(var_name p \<mapsto> n)"] True n(3) by (metis list.size(4) parse_segs.simps(1))
  next
    case False
    then show ?thesis using Cons.IH [OF n(2) d, of "Suc i" v0] n by auto
  qed
qed simp

text \<open>Parsing and formatting are inverse for a pattern whose variables differ: a parsed name is the one that its variables format to,
  and a formatted name parses to the variables of the pattern when no value has a slash.\<close>

theorem resource_name_roundtrip:
  assumes "distinct (vars_of (split_char (CHR ''/'') pattern))"
  shows "(\<forall>name v. name_Parse pattern name = Inr v \<longrightarrow> name_Format pattern v = Inr name)
    \<and> (\<forall>name v. (\<forall>x y. v x = Some y \<longrightarrow> CHR ''/'' \<notin> set y) \<longrightarrow> name_Format pattern v = Inr name
        \<longrightarrow> name_Parse pattern name = Inr (\<lambda>x. if x \<in> set (vars_of (split_char (CHR ''/'') pattern)) then v x else None))"
proof (intro conjI allI impI)
  fix name v assume "name_Parse pattern name = Inr v"
  then have "length (split_char (CHR ''/'') pattern) = length (split_char (CHR ''/'') name)"
      "parse_segs 0 (split_char (CHR ''/'') pattern) (split_char (CHR ''/'') name) (\<lambda>_. None) = Inr v"
    by (auto simp: name_Parse_def Let_def split: if_splits sum.splits)
  then have "format_segs v (split_char (CHR ''/'') pattern) = Inr (split_char (CHR ''/'') name)"
    using parse_then_format assms by blast
  then show "name_Format pattern v = Inr name" by (simp add: name_Format_def split_join)
next
  fix name v assume clean: "\<forall>x y. v x = Some y \<longrightarrow> CHR ''/'' \<notin> set y" and f: "name_Format pattern v = Inr name"
  let ?ps = "split_char (CHR ''/'') pattern"
  obtain out where out: "format_segs v ?ps = Inr out" "name = str_join ''/'' out"
    using f by (auto simp: name_Format_def split: sum.splits)
  have len: "length out = length ?ps" "parse_segs 0 ?ps out (\<lambda>_. None) = Inr (\<lambda>x. if x \<in> set (vars_of ?ps) then v x else None)"
    using format_then_parse [OF out(1) assms] by auto
  have segs: "format_segs v ps = Inr o1 \<Longrightarrow> \<forall>p\<in>set ps. CHR ''/'' \<notin> set p \<Longrightarrow> \<forall>p\<in>set o1. CHR ''/'' \<notin> set p" for ps o1
    using clean by (induction ps arbitrary: o1) (auto split: option.splits sum.splits if_splits)
  have "out \<noteq> []" using len(1) by (metis length_0_conv split_nonempty)
  then have "split_char (CHR ''/'') name = out"
    unfolding out(2) using segs [OF out(1)] split_clean by (intro join_split) auto
  then show "name_Parse pattern name = Inr (\<lambda>x. if x \<in> set (vars_of ?ps) then v x else None)"
    using len by (simp add: name_Parse_def)
qed

lemma is_var_pieces: "is_var (CHR 0x7B # v @ [CHR 0x7D])" "var_name (CHR 0x7B # v @ [CHR 0x7D]) = v"
  by (simp_all add: is_var_def var_name_def has_suffix_def)

theorem resource_name_roundtrip_witness:
  "name_Format ''p/{p}/w/{w}'' [''p'' \<mapsto> ''p1'', ''w'' \<mapsto> ''w2''] = Inr ''p/p1/w/w2''
   \<and> map_sum id (\<lambda>v. v ''w'') (name_Parse ''p/{p}/w/{w}'' ''p/p1/w/w2'') = Inr (Some ''w2'')"
proof -
  have d: "distinct (vars_of (split_char (CHR ''/'') ''p/{p}/w/{w}''))" "vars_of (split_char (CHR ''/'') ''p/{p}/w/{w}'') = [''p'', ''w'']"
    by code_simp+
  have f: "name_Format ''p/{p}/w/{w}'' [''p'' \<mapsto> ''p1'', ''w'' \<mapsto> ''w2''] = Inr ''p/p1/w/w2''" by code_simp
  have "\<forall>x y. [''p'' \<mapsto> ''p1'', ''w'' \<mapsto> ''w2''] x = Some y \<longrightarrow> CHR ''/'' \<notin> set y" by (auto split: if_splits)
  then have "name_Parse ''p/{p}/w/{w}'' ''p/p1/w/w2''
      = Inr (\<lambda>x. if x \<in> set [''p'', ''w''] then [''p'' \<mapsto> ''p1'', ''w'' \<mapsto> ''w2''] x else None)"
    using resource_name_roundtrip [OF d(1), THEN conjunct2] f unfolding d(2) by blast
  then show ?thesis using f by simp
qed

text \<open>A value with a slash, or a variable that occurs twice, is formatted without an error and does not come back.\<close>

lemma name_roundtrip_limits:
  "name_Format ''w/{w}'' [''w'' \<mapsto> ''a/b''] = Inr ''w/a/b''" "map_sum id (\<lambda>v. v ''w'') (name_Parse ''w/{w}'' ''w/a/b'') = Inl (SegmentCount 3 2)"
  "map_sum id (\<lambda>v. name_Format ''{a}/{a}'' v) (name_Parse ''{a}/{a}'' ''x/y'') = Inr (Inr ''y/y'')"
  by code_simp+

section \<open>Generators of ids\<close>

text \<open>A generator gives an id in each state of its source; a nil generator is \<open>None\<close>. \<open>v7\<close> may fail, \<open>v4\<close> does not.\<close>

type_synonym 's id_gen = "'s \<Rightarrow> string \<times> 's"

definition uuid7_NewID :: "('s \<Rightarrow> (string + string) \<times> 's) \<Rightarrow> 's id_gen \<Rightarrow> 's id_gen" where
  "uuid7_NewID v7 v4 s = (case v7 s of (Inl e, s1) \<Rightarrow> v4 s1 | (Inr i, s1) \<Rightarrow> (i, s1))"

record 's RepoConfig =
  IDGenerator :: "'s id_gen option"

definition WithIDGenerator :: "'s id_gen option \<Rightarrow> 's RepoConfig \<Rightarrow> 's RepoConfig" where
  "WithIDGenerator g c = (case g of None \<Rightarrow> c | Some _ \<Rightarrow> c\<lparr>IDGenerator := g\<rparr>)"

definition NewRepoConfig :: "'s id_gen \<Rightarrow> 's id_gen option \<Rightarrow> ('s RepoConfig \<Rightarrow> 's RepoConfig) option list \<Rightarrow> 's RepoConfig" where
  "NewRepoConfig DefaultIDGenerator defaultGen ros =
     (let cfg = fold (\<lambda>ro c. case ro of None \<Rightarrow> c | Some f \<Rightarrow> f c) ros
                  \<lparr>IDGenerator = Some (case defaultGen of None \<Rightarrow> DefaultIDGenerator | Some g \<Rightarrow> g)\<rparr>
      in if IDGenerator cfg = None then cfg\<lparr>IDGenerator := Some DefaultIDGenerator\<rparr> else cfg)"

lemma repo_has_generator: "IDGenerator (NewRepoConfig d g ros) \<noteq> None"
  by (simp add: NewRepoConfig_def Let_def)

lemma uuid7_never_empty:
  assumes "\<And>s. fst (v4 s) \<noteq> []" "\<And>s i s1. v7 s = (Inr i, s1) \<Longrightarrow> i \<noteq> []"
  shows "fst (uuid7_NewID v7 v4 s) \<noteq> []"
  using assms by (auto simp: uuid7_NewID_def split: prod.split sum.split)

end
