(* ===== verification/Json_Text.thy ===== *)
theory Json_Text
  imports Persist_Names
begin

text \<open>
  JSON objects of strings as \<^verbatim>\<open>encoding/json\<close> writes and reads them, on bytes: the text of a \<^verbatim>\<open>map[string]string\<close>. The
  writer escapes for HTML, the reader takes every escape and white space and treats a null value as the empty string.
\<close>

section \<open>Strings\<close>

definition hexdig :: "nat \<Rightarrow> nat" where
  "hexdig n = (if n < 10 then 0x30 + n else 0x57 + n)"

definition unhex :: "nat \<Rightarrow> nat option" where
  "unhex b =
     (if 0x30 \<le> b \<and> b \<le> 0x39 then Some (b - 0x30)
      else if 0x61 \<le> b \<and> b \<le> 0x66 then Some (b - 0x57)
      else if 0x41 \<le> b \<and> b \<le> 0x46 then Some (b - 0x37)
      else None)"

definition json_byte :: "nat \<Rightarrow> nat list" where
  "json_byte b =
     (if b = 0x22 \<or> b = 0x5C then [0x5C, b]
      else if b = 0x08 then [0x5C, 0x62]
      else if b = 0x0C then [0x5C, 0x66]
      else if b = 0x0A then [0x5C, 0x6E]
      else if b = 0x0D then [0x5C, 0x72]
      else if b = 0x09 then [0x5C, 0x74]
      else if b < 0x20 \<or> b = 0x3C \<or> b = 0x3E \<or> b = 0x26
      then [0x5C, 0x75, 0x30, 0x30, hexdig (b div 16), hexdig (b mod 16)]
      else [b])"

function json_body :: "nat list \<Rightarrow> nat list" where
  "json_body [] = []"
| "json_body (b # bs) =
     (if b < 0x80 then json_byte b @ json_body bs
      else case decode_rune (b # bs) of (r, k) \<Rightarrow>
        if k \<le> 1 then [0x5C, 0x75, 0x66, 0x66, 0x66, 0x64] @ json_body bs
        else if r = 0x2028 \<or> r = 0x2029 then [0x5C, 0x75, 0x32, 0x30, 0x32, hexdig (r mod 16)] @ json_body (drop (k - 1) bs)
        else take k (b # bs) @ json_body (drop (k - 1) bs))"
  by pat_completeness auto
termination by (relation "measure length") auto

fun hex4 :: "nat list \<Rightarrow> (nat \<times> nat list) option" where
  "hex4 (a # b # c # d # rest) =
     (case (unhex a, unhex b, unhex c, unhex d) of
        (Some x, Some y, Some z, Some w) \<Rightarrow> Some (x * 4096 + y * 256 + z * 16 + w, rest)
      | _ \<Rightarrow> None)"
| "hex4 _ = None"

text \<open>\<^verbatim>\<open>utf8.EncodeRune\<close>: a surrogate, or a rune that is too large, is U+FFFD.\<close>

definition utf8_enc :: "nat \<Rightarrow> nat list" where
  "utf8_enc r =
     (if r < 0x80 then [r]
      else if r < 0x800 then [0xC0 + r div 64, 0x80 + r mod 64]
      else if (0xD800 \<le> r \<and> r \<le> 0xDFFF) \<or> 0x110000 \<le> r then [0xEF, 0xBF, 0xBD]
      else if r < 0x10000 then [0xE0 + r div 4096, 0x80 + r div 64 mod 64, 0x80 + r mod 64]
      else [0xF0 + r div 262144, 0x80 + r div 4096 mod 64, 0x80 + r div 64 mod 64, 0x80 + r mod 64])"

text \<open>A \<^verbatim>\<open>\u\<close> escape: two of them where they are a pair of surrogates.\<close>

definition unescape_u :: "nat list \<Rightarrow> (nat list \<times> nat list) option" where
  "unescape_u es =
     (case hex4 es of
        None \<Rightarrow> None
      | Some (r, rest) \<Rightarrow>
          Some (if 0xD800 \<le> r \<and> r \<le> 0xDBFF
                then (case (if take 2 rest = [0x5C, 0x75] then hex4 (drop 2 rest) else None) of
                        Some (r2, rest2) \<Rightarrow>
                          if 0xDC00 \<le> r2 \<and> r2 \<le> 0xDFFF then (utf8_enc ((r - 0xD800) * 1024 + (r2 - 0xDC00) + 0x10000), rest2)
                          else (utf8_enc rune_error, rest)
                      | None \<Rightarrow> (utf8_enc rune_error, rest))
                else (utf8_enc r, rest)))"

definition unescape :: "nat list \<Rightarrow> (nat list \<times> nat list) option" where
  "unescape xs =
     (case xs of
        [] \<Rightarrow> None
      | e # es \<Rightarrow>
          if e = 0x22 \<or> e = 0x5C \<or> e = 0x2F then Some ([e], es)
          else if e = 0x62 then Some ([0x08], es)
          else if e = 0x66 then Some ([0x0C], es)
          else if e = 0x6E then Some ([0x0A], es)
          else if e = 0x72 then Some ([0x0D], es)
          else if e = 0x74 then Some ([0x09], es)
          else if e = 0x75 then unescape_u es
          else None)"

lemma hex4_shorter: "hex4 es = Some (r, rest) \<Longrightarrow> length rest < length es"
  by (cases es rule: hex4.cases) (auto split: option.splits)

lemma unescape_u_shorter:
  assumes "unescape_u es = Some (out, rest)"
  shows "length rest < length es"
proof -
  obtain r r1 where h: "hex4 es = Some (r, r1)" using assms by (auto simp: unescape_u_def split: option.splits)
  then have l: "length r1 < length es" by (rule hex4_shorter)
  show ?thesis
  proof (cases "rest = r1")
    case False
    then obtain r2 where "hex4 (drop 2 r1) = Some (r2, rest)"
      using assms h by (auto simp: unescape_u_def split: option.splits if_splits)
    then show ?thesis using hex4_shorter l by fastforce
  qed (use l in simp)
qed

lemma unescape_shorter: "unescape xs = Some (out, rest) \<Longrightarrow> length rest < length xs"
  using unescape_u_shorter [of "tl xs" out rest]
  by (cases xs) (auto simp: unescape_def simp del: One_nat_def split: if_splits)

text \<open>The content of a string whose opening quote is read, and what follows its closing quote.\<close>

function json_unbody :: "nat list \<Rightarrow> (nat list \<times> nat list) option" where
  "json_unbody [] = None"
| "json_unbody (b # bs) =
     (if b = 0x22 then Some ([], bs)
      else if b = 0x5C
      then (case unescape bs of
              None \<Rightarrow> None
            | Some (c, rest) \<Rightarrow> map_option (apfst ((@) c)) (json_unbody rest))
      else if b < 0x20 then None
      else if b < 0x80 then map_option (apfst ((#) b)) (json_unbody bs)
      else (case decode_rune (b # bs) of (r, k) \<Rightarrow>
              if k \<le> 1 then map_option (apfst ((@) (utf8_enc rune_error))) (json_unbody bs)
              else map_option (apfst ((@) (take k (b # bs)))) (json_unbody (drop (k - 1) bs))))"
  by pat_completeness auto
termination by (relation "measure length") (auto dest: unescape_shorter)

section \<open>Objects of strings\<close>

fun skip_ws :: "nat list \<Rightarrow> nat list" where
  "skip_ws [] = []"
| "skip_ws (b # bs) = (if b = 0x20 \<or> b = 0x09 \<or> b = 0x0A \<or> b = 0x0D then skip_ws bs else b # bs)"

definition json_str :: "string \<Rightarrow> nat list" where
  "json_str s = 0x22 # json_body (map of_char s) @ [0x22]"

definition json_member :: "string \<times> string \<Rightarrow> nat list" where
  "json_member kv = json_str (fst kv) @ [0x3A] @ json_str (snd kv)"

fun json_members :: "(string \<times> string) list \<Rightarrow> nat list" where
  "json_members [] = [0x7D]"
| "json_members [kv] = json_member kv @ [0x7D]"
| "json_members (kv # kvs) = json_member kv @ [0x2C] @ json_members kvs"

definition json_object :: "(string \<times> string) list \<Rightarrow> nat list" where
  "json_object kvs = 0x7B # json_members kvs"

definition read_str :: "nat list \<Rightarrow> (string \<times> nat list) option" where
  "read_str bs =
     (case bs of
        [] \<Rightarrow> None
      | q # rest \<Rightarrow> if q = 0x22 then map_option (apfst (map char_of)) (json_unbody rest) else None)"

definition read_value :: "nat list \<Rightarrow> (string \<times> nat list) option" where
  "read_value bs = (if take 4 bs = [0x6E, 0x75, 0x6C, 0x6C] then Some ([], drop 4 bs) else read_str bs)"

definition read_colon :: "nat list \<Rightarrow> nat list option" where
  "read_colon bs = (case skip_ws bs of [] \<Rightarrow> None | c # rest \<Rightarrow> if c = 0x3A then Some (skip_ws rest) else None)"

text \<open>One member and the byte after it.\<close>

definition read_member :: "nat list \<Rightarrow> ((string \<times> string) \<times> nat \<times> nat list) option" where
  "read_member bs =
     (case read_str (skip_ws bs) of
        None \<Rightarrow> None
      | Some (k, rest) \<Rightarrow>
          (case read_colon rest of
             None \<Rightarrow> None
           | Some rest \<Rightarrow>
               (case read_value rest of
                  None \<Rightarrow> None
                | Some (v, rest) \<Rightarrow> (case skip_ws rest of [] \<Rightarrow> None | c # rest \<Rightarrow> Some ((k, v), c, rest)))))"

lemma skip_ws_length: "length (skip_ws bs) \<le> length bs"
  by (induction bs) auto

lemma unbody_step:
  "json_unbody (b # bs) = Some (s, rest) \<Longrightarrow>
     rest = bs \<or> (\<exists>c r0 s0. b = 0x5C \<and> unescape bs = Some (c, r0) \<and> json_unbody r0 = Some (s0, rest))
     \<or> (\<exists>k s0. b \<noteq> 0x22 \<and> b \<noteq> 0x5C \<and> json_unbody (drop k bs) = Some (s0, rest))"
  by (auto split: if_splits option.splits prod.splits simp del: drop_Cons' intro: exI [of _ 0])

lemma unbody_shorter: "json_unbody bs = Some (s, rest) \<Longrightarrow> length rest < length bs"
proof (induction bs arbitrary: s rule: length_induct)
  case (1 xs)
  then obtain b bs where xs: "xs = b # bs" by (cases xs) auto
  have IH: "length ys < length xs \<Longrightarrow> json_unbody ys = Some (t, rest) \<Longrightarrow> length rest < length ys" for ys t using 1 by blast
  consider "rest = bs" | c r0 s0 where "unescape bs = Some (c, r0)" "json_unbody r0 = Some (s0, rest)"
    | k s0 where "json_unbody (drop k bs) = Some (s0, rest)"
    using unbody_step 1(2) unfolding xs by blast
  then show ?case
  proof cases
    case 2
    then show ?thesis using IH [OF _ 2(2)] unescape_shorter [OF 2(1)] xs by simp
  next
    case 3
    have "length (drop k bs) < length xs" using xs by simp
    from this IH [OF this 3] show ?thesis by simp
  qed (simp add: xs)
qed

lemma read_str_shorter: "read_str bs = Some (s, rest) \<Longrightarrow> length rest < length bs"
  by (cases bs) (auto simp: read_str_def split: if_splits dest!: unbody_shorter)

lemma read_value_shorter: "read_value bs = Some (s, rest) \<Longrightarrow> length rest < length bs"
  by (cases "bs = []") (auto simp: read_value_def split: if_splits dest: read_str_shorter)

lemma read_member_shorter: "read_member bs = Some (kv, c, rest) \<Longrightarrow> length rest < length bs"
proof -
  assume "read_member bs = Some (kv, c, rest)"
  then obtain k r1 r2 v r3 where
    r: "read_str (skip_ws bs) = Some (k, r1)" "read_colon r1 = Some r2" "read_value r2 = Some (v, r3)" "skip_ws r3 = c # rest"
    by (auto simp: read_member_def split: option.splits list.splits)
  have "length r2 \<le> length r1"
  proof -
    obtain x where x: "skip_ws r1 = 0x3A # x" "r2 = skip_ws x" using r(2) by (auto simp: read_colon_def split: list.splits if_splits)
    have "length (skip_ws x) \<le> length x" by (rule skip_ws_length)
    moreover have "length (skip_ws r1) \<le> length r1" by (rule skip_ws_length)
    ultimately show ?thesis using x by simp
  qed
  moreover have "length (skip_ws r3) \<le> length r3" by (rule skip_ws_length)
  moreover have "length (skip_ws bs) \<le> length bs" by (rule skip_ws_length)
  ultimately show ?thesis using read_str_shorter [OF r(1)] read_value_shorter [OF r(3)] r(4) by simp
qed

function read_members :: "nat list \<Rightarrow> ((string \<times> string) list \<times> nat list) option" where
  "read_members bs =
     (case read_member bs of
        None \<Rightarrow> None
      | Some (kv, c, rest) \<Rightarrow>
          if c = 0x7D then Some ([kv], rest)
          else if c = 0x2C then map_option (apfst ((#) kv)) (read_members rest)
          else None)"
  by pat_completeness auto
termination by (relation "measure length") (auto dest: read_member_shorter)

declare read_members.simps [simp del]

text \<open>\<^verbatim>\<open>json.Unmarshal\<close> into an empty map: the members in the order of the text. A null leaves the map nil.\<close>

definition json_Unmarshal :: "nat list \<Rightarrow> (string \<times> string) list option" where
  "json_Unmarshal bs =
     (case skip_ws bs of
        [] \<Rightarrow> None
      | c # rest \<Rightarrow>
          if c = 0x7B
          then (case (case skip_ws rest of d # r2 \<Rightarrow> if d = 0x7D then Some ([], r2) else read_members rest | [] \<Rightarrow> None) of
                  None \<Rightarrow> None
                | Some (kvs, r3) \<Rightarrow> if skip_ws r3 = [] then Some kvs else None)
          else if take 4 (c # rest) = [0x6E, 0x75, 0x6C, 0x6C] \<and> skip_ws (drop 4 (c # rest)) = [] then Some []
          else None)"

section \<open>Round trip\<close>

text \<open>\<^verbatim>\<open>utf8.Valid\<close>.\<close>

function utf8_valid :: "nat list \<Rightarrow> bool" where
  "utf8_valid [] = True"
| "utf8_valid (b # bs) =
     (if b < 0x80 then utf8_valid bs
      else case decode_rune (b # bs) of (r, k) \<Rightarrow> if k \<le> 1 then False else utf8_valid (drop (k - 1) bs))"
  by pat_completeness auto
termination by (relation "measure length") auto

lemma decode_two: "0xC2 \<le> a \<Longrightarrow> a \<le> 0xDF \<Longrightarrow> cont_byte b \<Longrightarrow> decode_rune (a # b # rest) = ((a - 0xC0) * 64 + (b - 0x80), 2)"
  by (cases "a # b # rest" rule: decode_rune.cases) simp_all

lemma decode_three:
  "0xE0 \<le> a \<Longrightarrow> a \<le> 0xEF \<Longrightarrow> second_ok a b \<Longrightarrow> cont_byte c
    \<Longrightarrow> decode_rune (a # b # c # rest) = ((a - 0xE0) * 4096 + (b - 0x80) * 64 + (c - 0x80), 3)"
  by (cases "a # b # c # rest" rule: decode_rune.cases) simp_all

lemma decode_four:
  "0xF0 \<le> a \<Longrightarrow> a \<le> 0xF4 \<Longrightarrow> second_ok a b \<Longrightarrow> cont_byte c \<Longrightarrow> cont_byte d
    \<Longrightarrow> decode_rune (a # b # c # d # rest) = ((a - 0xF0) * 262144 + (b - 0x80) * 4096 + (c - 0x80) * 64 + (d - 0x80), 4)"
  by simp

lemma decode_multi_cases:
  assumes "decode_rune (a # bs) = (r, k)" "0x80 \<le> a" "1 < k"
  obtains (two) b rest where "bs = b # rest" "k = 2" "0xC2 \<le> a" "a \<le> 0xDF" "cont_byte b" "r = (a - 0xC0) * 64 + (b - 0x80)"
  | (three) b c rest where "bs = b # c # rest" "k = 3" "0xE0 \<le> a" "a \<le> 0xEF" "second_ok a b" "cont_byte c"
      "r = (a - 0xE0) * 4096 + (b - 0x80) * 64 + (c - 0x80)"
  | (four) b c d rest where "bs = b # c # d # rest" "k = 4" "0xF0 \<le> a" "a \<le> 0xF4" "second_ok a b" "cont_byte c" "cont_byte d"
  using assms by (cases "a # bs" rule: decode_rune.cases) (auto split: if_splits)

lemma decode_multi:
  assumes "decode_rune (a # bs) = (r, k)" "0x80 \<le> a" "1 < k"
  shows "k - 1 \<le> length bs \<and> decode_rune (a # take (k - 1) bs @ rest) = (r, k)"
  using assms
proof (cases rule: decode_multi_cases)
  case (four b c d rest')
  then have "decode_rune (a # bs) = ((a - 0xF0) * 262144 + (b - 0x80) * 4096 + (c - 0x80) * 64 + (d - 0x80), 4)"
    by (simp only: decode_four)
  then show ?thesis using four assms(1) by (simp only: decode_four) simp
qed (simp_all add: decode_two decode_three del: decode_rune.simps)

lemma second_cont: "second_ok a b \<Longrightarrow> 0x80 \<le> b \<and> b \<le> 0xBF"
  by (auto simp: second_ok_def cont_byte_def split: if_splits)

lemma decode_separators:
  assumes d: "decode_rune (a # bs) = (r, k)" "0x80 \<le> a" "1 < k" and r: "r = 0x2028 \<or> r = 0x2029"
  shows "k = 3 \<and> take 2 bs = [0x80, 0x80 + r mod 64] \<and> a = 0xE2"
  using d
proof (cases rule: decode_multi_cases)
  case (two b rest)
  then show ?thesis using r by (auto simp: cont_byte_def)
next
  case (three b c rest)
  have "0x80 \<le> b" "b \<le> 0xBF" "0x80 \<le> c" "c \<le> 0xBF" using second_cont [OF three(5)] three(6) by (auto simp: cont_byte_def)
  then obtain x y z where xyz: "a = 0xE0 + x" "b = 0x80 + y" "c = 0x80 + z" "y < 64" "z < 64"
    using that [of "a - 0xE0" "b - 0x80" "c - 0x80"] three(3) by simp
  then have "r = x * 4096 + y * 64 + z" using three(7) by simp
  have "x = 2" using \<open>r = x * 4096 + y * 64 + z\<close> r xyz(4,5) by (cases "x \<le> 1") (simp_all; linarith)+
  then have yz: "y * 64 + z = r - 8192" using \<open>r = x * 4096 + y * 64 + z\<close> by simp
  then have y: "y = 0" using r by (cases y) auto
  then have "z = r mod 64" using yz r by auto
  then show ?thesis using three(1,2) xyz y \<open>x = 2\<close> by simp
next
  case (four b c d' rest)
  then have "decode_rune (a # bs) = ((a - 0xF0) * 262144 + (b - 0x80) * 4096 + (c - 0x80) * 64 + (d' - 0x80), 4)"
    by (simp only: decode_four)
  then have "r = (a - 0xF0) * 262144 + (b - 0x80) * 4096 + (c - 0x80) * 64 + (d' - 0x80)" using d(1) by simp
  moreover have "a = 0xF0 \<longrightarrow> 0x90 \<le> b" using four(5) by (simp add: second_ok_def)
  ultimately show ?thesis using r four(3) by auto
qed

lemma unhex_hexdig: "n < 16 \<Longrightarrow> unhex (hexdig n) = Some n"
  by (auto simp: unhex_def hexdig_def)

lemma unescape_hex:
  assumes "n < 256"
  shows "unescape_u (0x30 # 0x30 # hexdig (n div 16) # hexdig (n mod 16) # rest) = Some (utf8_enc n, rest)"
proof -
  have "unhex 0x30 = Some 0" by (simp add: unhex_def)
  moreover have "n div 16 < 16" using assms by (simp add: less_mult_imp_div_less)
  ultimately show ?thesis using assms by (simp add: unescape_u_def unhex_hexdig)
qed

lemma unbody_byte:
  assumes "b < 0x80"
  shows "json_unbody (json_byte b @ rest) = map_option (apfst ((#) b)) (json_unbody rest)"
proof -
  have e: "utf8_enc b = [b]" using assms by (simp add: utf8_enc_def)
  have c: "apfst ((@) [x]) = apfst ((#) x)" for x :: nat by (simp add: fun_eq_iff apfst_def map_prod_def)
  have "unescape_u (0x30 # 0x30 # hexdig (b div 16) # hexdig (b mod 16) # rest) = Some ([b], rest)"
    using unescape_hex [of b rest] assms e by simp
  then have u: "unescape (0x75 # 0x30 # 0x30 # hexdig (b div 16) # hexdig (b mod 16) # rest) = Some ([b], rest)"
    by (simp add: unescape_def)
  have s: "b = 0x22 \<or> b = 0x5C \<Longrightarrow> unescape (b # rest) = Some ([b], rest)" by (auto simp: unescape_def)
  have t: "unescape (0x62 # rest) = Some ([0x08], rest)" "unescape (0x66 # rest) = Some ([0x0C], rest)"
    "unescape (0x6E # rest) = Some ([0x0A], rest)" "unescape (0x72 # rest) = Some ([0x0D], rest)" "unescape (0x74 # rest) = Some ([0x09], rest)"
    by (simp_all add: unescape_def)
  show ?thesis
    using assms s t u by (auto simp: json_byte_def c)
qed

lemma unbody_multi:
  assumes "decode_rune (a # bs) = (r, k)" "0x80 \<le> a" "1 < k"
  shows "json_unbody (a # take (k - 1) bs @ rest) = map_option (apfst ((@) (a # take (k - 1) bs))) (json_unbody rest)"
proof -
  have d: "k - 1 \<le> length bs" "decode_rune (a # take (k - 1) bs @ rest) = (r, k)" using decode_multi [OF assms, of rest] by auto
  have "take k (a # take (k - 1) bs @ rest) = a # take (k - 1) bs" "drop (k - 1) (take (k - 1) bs @ rest) = rest"
    using d(1) assms(3) by (simp_all add: take_Cons')
  then show ?thesis using assms(2,3) d(2) by simp
qed

lemma json_body_round: "utf8_valid bs \<Longrightarrow> json_unbody (json_body bs @ 0x22 # rest) = Some (bs, rest)"
proof (induction bs rule: utf8_valid.induct)
  case (2 a bs)
  show ?case
  proof (cases "a < 0x80")
    case True
    then show ?thesis using 2 by (simp add: unbody_byte)
  next
    case False
    obtain r k where d: "decode_rune (a # bs) = (r, k)" by fastforce
    then have k: "1 < k" "utf8_valid (drop (k - 1) bs)" using 2(3) False by (auto split: if_splits)
    have IH: "json_unbody (json_body (drop (k - 1) bs) @ 0x22 # rest) = Some (drop (k - 1) bs, rest)"
      using 2(2) [OF False d [symmetric]] k by simp
    show ?thesis
    proof (cases "r = 0x2028 \<or> r = 0x2029")
      case True
      have s: "k = 3" "take 2 bs = [0x80, 0x80 + r mod 64]" "a = 0xE2" using decode_separators [OF d _ k(1) True] False by auto
      have h: "unescape (0x75 # 0x32 # 0x30 # 0x32 # hexdig (r mod 16) # x) = Some ([0xE2, 0x80, 0x80 + r mod 64], x)" for x
        using True by (auto simp: unescape_def unescape_u_def unhex_def hexdig_def utf8_enc_def)
      have "json_body (a # bs) = [0x5C, 0x75, 0x32, 0x30, 0x32, hexdig (r mod 16)] @ json_body (drop 2 bs)"
        using False d True s(1) by auto
      moreover have "bs = [0x80, 0x80 + r mod 64] @ drop 2 bs" using s(2) by (metis append_take_drop_id)
      ultimately show ?thesis using IH s(1,3) h by simp
    next
      case False2: False
      have e: "json_body (a # bs) = take k (a # bs) @ json_body (drop (k - 1) bs)" using False False2 d k(1) by simp
      have t: "take k (a # bs) = a # take (k - 1) bs" using k(1) by (simp add: take_Cons')
      have "json_unbody (json_body (a # bs) @ 0x22 # rest)
          = map_option (apfst ((@) (a # take (k - 1) bs))) (json_unbody (json_body (drop (k - 1) bs) @ 0x22 # rest))"
        unfolding e t using unbody_multi [OF d _ k(1), of "json_body (drop (k - 1) bs) @ 0x22 # rest"] False by simp
      also have "\<dots> = Some ((a # take (k - 1) bs) @ drop (k - 1) bs, rest)" unfolding IH by simp
      finally show ?thesis by simp
    qed
  qed
qed simp

definition json_text :: "string \<Rightarrow> bool" where
  "json_text s \<longleftrightarrow> utf8_valid (map of_char s)"

lemma read_str_round: "json_text s \<Longrightarrow> read_str (json_str s @ rest) = Some (s, rest)"
  by (simp add: read_str_def json_str_def json_body_round json_text_def o_def)

lemma skip_quote: "skip_ws (json_str s @ rest) = json_str s @ rest"
  by (simp add: json_str_def)

lemma read_member_round:
  "json_text (fst kv) \<Longrightarrow> json_text (snd kv) \<Longrightarrow> c = 0x7D \<or> c = 0x2C
    \<Longrightarrow> read_member (json_member kv @ c # rest) = Some (kv, c, rest)"
proof -
  assume a: "json_text (fst kv)" "json_text (snd kv)" "c = 0x7D \<or> c = 0x2C"
  have v: "read_value (json_str (snd kv) @ c # rest) = Some (snd kv, c # rest)"
    using read_str_round [OF a(2)] by (simp add: read_value_def json_str_def)
  have k: "read_str (skip_ws (json_member kv @ c # rest)) = Some (fst kv, 0x3A # json_str (snd kv) @ c # rest)"
    using read_str_round [OF a(1), of "0x3A # json_str (snd kv) @ c # rest"] skip_quote by (simp add: json_member_def)
  have "read_colon (0x3A # json_str (snd kv) @ c # rest) = Some (json_str (snd kv) @ c # rest)"
    by (simp add: read_colon_def skip_quote)
  then show ?thesis using k v a(3) by (auto simp: read_member_def)
qed

lemma read_members_round:
  "kvs \<noteq> [] \<Longrightarrow> list_all (\<lambda>kv. json_text (fst kv) \<and> json_text (snd kv)) kvs \<Longrightarrow> read_members (json_members kvs) = Some (kvs, [])"
proof (induction kvs rule: json_members.induct)
  case (2 kv)
  then show ?case by (subst read_members.simps) (simp add: read_member_round)
next
  case (3 kv kv2 kvs)
  then show ?case by (subst read_members.simps) (simp add: read_member_round)
qed simp

text \<open>An object of valid text is read back, member for member.\<close>

lemma json_round:
  assumes "list_all (\<lambda>kv. json_text (fst kv) \<and> json_text (snd kv)) kvs"
  shows "json_Unmarshal (json_object kvs) = Some kvs"
proof (cases kvs)
  case Nil
  then show ?thesis by (simp add: json_Unmarshal_def json_object_def)
next
  case (Cons kv rest)
  then obtain x where "json_members kvs = 0x22 # x"
    by (cases rest) (simp_all add: json_member_def json_str_def)
  then show ?thesis using read_members_round [of kvs] assms Cons by (simp add: json_Unmarshal_def json_object_def)
qed

section \<open>Bytes\<close>

lemma body_bytes: "list_all (\<lambda>b. b < 256) bs \<Longrightarrow> list_all (\<lambda>b. b < 256) (json_body bs)"
proof (induction bs rule: json_body.induct)
  case (2 b bs)
  have d: "list_all (\<lambda>b. b < 256) (drop n bs)" "list_all (\<lambda>b. b < 256) (take n bs)" for n
    using 2(5) by (auto simp: list_all_iff dest: in_set_dropD in_set_takeD)
  have h: "n < 16 \<Longrightarrow> hexdig n < 256" for n by (simp add: hexdig_def)
  show ?case
  proof (cases "b < 0x80")
    case True
    then have "list_all (\<lambda>b. b < 256) (json_byte b)"
      by (auto simp: json_byte_def intro!: h)
    then show ?thesis using True 2(1,5) by simp
  next
    case False
    obtain r k where k: "decode_rune (b # bs) = (r, k)" by fastforce
    show ?thesis
    proof (cases "k \<le> 1")
      case True
      then show ?thesis using 2(2) [OF False k [symmetric] True] 2(5) False True k by simp
    next
      case False2: False
      have "take k (b # bs) = b # take (k - 1) bs" using False2 by (simp add: take_Cons')
      moreover have "hexdig (r mod 16) < 256" by (rule h) simp
      ultimately show ?thesis
        using 2(3) [OF False k [symmetric] False2] 2(4) [OF False k [symmetric] False2] 2(5) False False2 k d by (cases "r = 0x2028 \<or> r = 0x2029") auto
    qed
  qed
qed simp

lemma char_bytes: "list_all (\<lambda>b. b < 256) (map of_char s :: nat list)"
  by (simp add: list_all_iff)

lemma object_bytes: "list_all (\<lambda>b. b < 256) (json_object kvs)"
proof -
  have "list_all (\<lambda>b. b < 256) (json_member kv)" for kv
    using body_bytes [OF char_bytes] by (simp add: json_member_def json_str_def)
  then have "list_all (\<lambda>b. b < 256) (json_members kvs)"
    by (induction kvs rule: json_members.induct) simp_all
  then show ?thesis by (simp add: json_object_def)
qed

end
