(* ===== verification/Tagging.thy ===== *)
theory Tagging
  imports Json_Text Authz Rules
begin

text \<open>
  Tags on resources (\<^verbatim>\<open>src/types/tags.go\<close>) and the local validator of tags against definitions per tenant
  (\<^verbatim>\<open>src/tagging/\<close>). A map of tags is the list of its entries, with distinct keys, in the order that a range visits them;
  a nil map and an empty one are the empty list. The regular expressions of Go are parameters: their compiler and their matcher.
\<close>

section \<open>Tags\<close>

type_synonym Tags = "(string \<times> string) list"

definition MaxKeyLen :: nat where "MaxKeyLen = 256"
definition MaxValueLen :: nat where "MaxValueLen = 1024"
definition MaxTags :: nat where "MaxTags = 256"

text \<open>What the driver is given: NULL or the bytes of a text.\<close>

definition tags_Value :: "Tags \<Rightarrow> string option" where
  "tags_Value t = (if t = [] then None else Some (map char_of (json_object (sort_key fst t))))"

text \<open>What the driver gives back, by its Go type.\<close>

datatype scan_src = ScanNull | ScanBytes string | ScanString string | ScanOther string

datatype scan_err = CannotScan string | BadJSON

definition tags_Scan :: "scan_src \<Rightarrow> scan_err + Tags" where
  "tags_Scan src =
     (case src of
        ScanNull \<Rightarrow> Inr []
      | ScanOther ty \<Rightarrow> Inl (CannotScan ty)
      | _ \<Rightarrow>
          (let input = (case src of ScanBytes b \<Rightarrow> b | ScanString s \<Rightarrow> s | _ \<Rightarrow> [])
           in if input = [] \<or> input = ''null'' then Inr []
              else (case json_Unmarshal (map of_char input) of
                      None \<Rightarrow> Inl BadJSON
                    | Some kvs \<Rightarrow> Inr (fold (\<lambda>(k, v) m. AList.update k v m) kvs []))))"

definition tags_Clone :: "Tags \<Rightarrow> Tags" where
  "tags_Clone t = t"

definition tags_Merge :: "Tags \<Rightarrow> Tags \<Rightarrow> Tags" where
  "tags_Merge t other = (if t = [] \<and> other = [] then [] else fold (\<lambda>(k, v) m. AList.update k v m) other (fold (\<lambda>(k, v) m. AList.update k v m) t []))"

fun tags_Filter :: "(string \<Rightarrow> string \<Rightarrow> bool) \<Rightarrow> Tags \<Rightarrow> Tags" where
  "tags_Filter keep [] = []"
| "tags_Filter keep ((k, v) # t) = (if keep k v then (k, v) # tags_Filter keep t else tags_Filter keep t)"

definition tags_Keys :: "Tags \<Rightarrow> string list" where
  "tags_Keys t = sort (map fst t)"

fun tags_render :: "Tags \<Rightarrow> nat \<Rightarrow> string list \<Rightarrow> string" where
  "tags_render t i [] = []"
| "tags_render t i (k # ks) =
     (if i > 0 then '','' else []) @ k @ ''='' @ (case map_of t k of None \<Rightarrow> [] | Some v \<Rightarrow> v) @ tags_render t (Suc i) ks"

definition tags_String :: "Tags \<Rightarrow> string" where
  "tags_String t = (if t = [] then [] else tags_render t 0 (tags_Keys t))"

datatype tags_err = TooManyTags nat | EmptyKey | KeyNotUTF8 string | KeyTooLong string | ValueNotUTF8 string | ValueTooLong string

fun validate_entries :: "Tags \<Rightarrow> tags_err option" where
  "validate_entries [] = None"
| "validate_entries ((k, v) # t) =
     (if k = [] then Some EmptyKey
      else if \<not> json_text k then Some (KeyNotUTF8 k)
      else if length k > MaxKeyLen then Some (KeyTooLong k)
      else if \<not> json_text v then Some (ValueNotUTF8 k)
      else if length v > MaxValueLen then Some (ValueTooLong k)
      else validate_entries t)"

definition tags_Validate :: "Tags \<Rightarrow> tags_err option" where
  "tags_Validate t = (if length t > MaxTags then Some (TooManyTags (length t)) else validate_entries t)"

section \<open>The validator\<close>

record Definition =
  dKey :: string
  dType :: string
  dValues :: "string list"
  dPattern :: string
  dPatternDescription :: string
  dStatus :: string

definition TypeFreeform :: string where "TypeFreeform = ''freeform''"
definition TypeRestricted :: string where "TypeRestricted = ''restricted''"
definition TypeRegexp :: string where "TypeRegexp = ''regexp''"
definition StatusActive :: string where "StatusActive = ''active''"
definition StatusRevoked :: string where "StatusRevoked = ''revoked''"

lemmas tag_constants = TypeFreeform_def TypeRestricted_def TypeRegexp_def StatusActive_def StatusRevoked_def

type_synonym DefinitionSet = "string \<Rightarrow> Definition option"

datatype tag_err =
    ErrDefinitionsUnavailable | Revoked string | NotPermitted string string | InvalidPattern string string | NoMatch string string string

text \<open>The memo of compiled patterns: per pattern, its compiled form or the error.\<close>

type_synonym 're memo = "string \<Rightarrow> (string + 're) option"

definition compile_memo :: "(string \<Rightarrow> string + 're) \<Rightarrow> string \<Rightarrow> 're memo \<Rightarrow> (string + 're) \<times> 're memo" where
  "compile_memo Compile pattern reCache =
     (case reCache pattern of Some c \<Rightarrow> (c, reCache) | None \<Rightarrow> (Compile pattern, reCache(pattern \<mapsto> Compile pattern)))"

definition tenantFromContext :: "'a gctx \<Rightarrow> string" where
  "tenantFromContext ctx = (case principalVal ctx of Some p \<Rightarrow> pTenant p | None \<Rightarrow> [])"

definition defsFor :: "(string \<Rightarrow> DefinitionSet option) \<Rightarrow> string \<Rightarrow> DefinitionSet option" where
  "defsFor get tenant =
     (case (if tenant \<noteq> [] then get tenant else None) of Some ds \<Rightarrow> Some ds | None \<Rightarrow> get [])"

fun tags_loop :: "(string \<Rightarrow> string + 're) \<Rightarrow> ('re \<Rightarrow> string \<Rightarrow> bool) \<Rightarrow> DefinitionSet \<Rightarrow> Tags \<Rightarrow> 're memo \<Rightarrow> tag_err option \<times> 're memo" where
  "tags_loop Compile MatchString ds [] rc = (None, rc)"
| "tags_loop Compile MatchString ds ((k, val) # t) rc =
     (case ds k of
        None \<Rightarrow> tags_loop Compile MatchString ds t rc
      | Some def \<Rightarrow>
          if dStatus def = StatusRevoked then (Some (Revoked k), rc)
          else if dType def = TypeRestricted
          then (if val \<notin> set (dValues def) then (Some (NotPermitted val k), rc) else tags_loop Compile MatchString ds t rc)
          else if dType def = TypeRegexp
          then (case compile_memo Compile (dPattern def) rc of
                  (Inl e, rc) \<Rightarrow> (Some (InvalidPattern k (dPattern def)), rc)
                | (Inr re, rc) \<Rightarrow>
                    if \<not> MatchString re val then (Some (NoMatch val k (dPatternDescription def)), rc)
                    else tags_loop Compile MatchString ds t rc)
          else tags_loop Compile MatchString ds t rc)"

text \<open>A store is its two methods, \<^verbatim>\<open>Get\<close> and \<^verbatim>\<open>Ready\<close>, at the moment of the call.\<close>

definition ValidateTags ::
  "(string \<Rightarrow> string + 're) \<Rightarrow> ('re \<Rightarrow> string \<Rightarrow> bool) \<Rightarrow> (string \<Rightarrow> DefinitionSet option) \<Rightarrow> bool \<Rightarrow> 'a gctx \<Rightarrow> Tags \<Rightarrow> 're memo
    \<Rightarrow> tag_err option \<times> 're memo" where
  "ValidateTags Compile MatchString get ready ctx t rc =
     (if t = [] then (None, rc)
      else if \<not> ready then (Some ErrDefinitionsUnavailable, rc)
      else case defsFor get (tenantFromContext ctx) of
             None \<Rightarrow> (None, rc)
           | Some ds \<Rightarrow> tags_loop Compile MatchString ds t rc)"

definition FilterTags :: "(string \<Rightarrow> DefinitionSet option) \<Rightarrow> bool \<Rightarrow> 'a gctx \<Rightarrow> Tags \<Rightarrow> Tags" where
  "FilterTags get ready ctx t =
     (if t = [] then t
      else if \<not> ready then t
      else case defsFor get (tenantFromContext ctx) of
             None \<Rightarrow> t
           | Some ds \<Rightarrow> tags_Filter (\<lambda>k _. case ds k of None \<Rightarrow> True | Some def \<Rightarrow> dStatus def \<noteq> StatusRevoked) t)"

section \<open>Tags in a column\<close>

lemma update_all:
  "distinct (map fst (xs @ ys)) \<Longrightarrow> fold (\<lambda>(k, v) m. AList.update k v m) ys xs = xs @ ys"
proof (induction ys arbitrary: xs)
  case (Cons kv ys)
  have "AList.update (fst kv) (snd kv) xs = xs @ [kv]"
    using Cons.prems by (induction xs) auto
  then show ?case using Cons.IH [of "xs @ [kv]"] Cons.prems by (simp add: case_prod_unfold)
qed simp

lemma update_map: "map_of (fold (\<lambda>(k, v) m. AList.update k v m) ys xs) = map_of xs ++ map_of (rev ys)"
proof (induction ys arbitrary: xs)
  case (Cons kv ys)
  then show ?case by (simp add: case_prod_unfold update_conv' map_add_def fun_eq_iff split: option.split)
qed simp

lemma map_of_sort_key:
  assumes "distinct (map fst t)"
  shows "map_of (sort_key fst t) = map_of t"
proof -
  have "distinct (map fst (sort_key fst t))" using assms by (simp add: distinct_map inj_on_def)
  then show ?thesis using assms by (metis map_of_inject_set set_sort)
qed

lemma valid_text: "validate_entries t = None \<Longrightarrow> list_all (\<lambda>kv. json_text (fst kv) \<and> json_text (snd kv)) t"
  by (induction t rule: validate_entries.induct) (auto split: if_splits)

text \<open>Valid tags come back from a column with the same entries, in the order of their keys.\<close>

theorem tags_roundtrip:
  assumes "distinct (map fst t)" "tags_Validate t = None"
  shows "tags_Scan (case tags_Value t of None \<Rightarrow> ScanNull | Some b \<Rightarrow> ScanBytes b) = Inr (sort_key fst t) \<and> map_of (sort_key fst t) = map_of t"
proof (cases "t = []")
  case False
  let ?s = "sort_key fst t"
  have v: "list_all (\<lambda>kv. json_text (fst kv) \<and> json_text (snd kv)) ?s"
    using valid_text [of t] assms(2) by (simp add: tags_Validate_def list_all_iff split: if_splits)
  have d: "distinct (map fst ?s)" using assms(1) by (simp add: distinct_map inj_on_def)
  have b: "list_all (\<lambda>b. b < 256) (json_object ?s)" by (rule object_bytes)
  then have id: "map of_char (map char_of (json_object ?s)) = json_object ?s"
    by (simp add: o_def list_all_iff map_idI)
  have n: "char_of (0x7B :: nat) \<noteq> CHR ''n''" by code_simp
  have "map char_of (json_object ?s) \<noteq> ''null''" "map char_of (json_object ?s) \<noteq> []"
    using n by (simp_all add: json_object_def)
  then show ?thesis using False id json_round [OF v] update_all [of "[]" ?s] d map_of_sort_key [OF assms(1)]
    by (simp add: tags_Value_def tags_Scan_def Let_def)
qed (simp add: tags_Value_def tags_Scan_def)

theorem tags_roundtrip_witness:
  "tags_Scan (case tags_Value [(''team'', [CHR 0xC3, CHR 0xA9, CHR 0x22]), (''env'', ''a<b'')] of None \<Rightarrow> ScanNull | Some b \<Rightarrow> ScanBytes b)
     = Inr [(''env'', ''a<b''), (''team'', [CHR 0xC3, CHR 0xA9, CHR 0x22])]"
proof -
  let ?t = "[(''team'', [CHR 0xC3, CHR 0xA9, CHR 0x22]), (''env'', ''a<b'')]"
  have d: "distinct (map fst ?t)" and v: "tags_Validate ?t = None" and s: "sort_key fst ?t = [(''env'', ''a<b''), (''team'', [CHR 0xC3, CHR 0xA9, CHR 0x22])]"
    by code_simp+
  then show ?thesis using tags_roundtrip [OF d v, THEN conjunct1] unfolding s by blast
qed

text \<open>\<open>Value\<close> does not check what it stores: two keys that are not UTF-8 come back as one.\<close>

lemma rune_error_chars: "char_of (239 :: nat) = CHR 0xEF" "char_of (191 :: nat) = CHR 0xBF" "char_of (189 :: nat) = CHR 0xBD"
  by code_simp+

lemma invalid_tags_collapse:
  "validate_entries [([CHR 0xFF], ''a''), ([CHR 0xFE], ''b'')] = Some (KeyNotUTF8 [CHR 0xFF])"
  "json_str [CHR 0xFE] = json_str [CHR 0xFF]"
  "read_str (json_str [CHR 0xFF]) = Some ([CHR 0xEF, CHR 0xBF, CHR 0xBD], [])"
  by (simp_all add: json_text_def json_str_def read_str_def unescape_def unescape_u_def unhex_def utf8_enc_def rune_error_chars)

lemma merge_overlays: "map_of (tags_Merge t other) = map_of (rev t) ++ map_of (rev other)"
  by (simp add: tags_Merge_def update_map)

lemma filter_tags: "tags_Filter keep t = filter (\<lambda>(k, v). keep k v) t"
  by (induction keep t rule: tags_Filter.induct) auto

section \<open>What the guard accepts\<close>

definition memo_ok :: "(string \<Rightarrow> string + 're) \<Rightarrow> 're memo \<Rightarrow> bool" where
  "memo_ok Compile rc \<longleftrightarrow> (\<forall>p c. rc p = Some c \<longrightarrow> c = Compile p)"

text \<open>A tag complies when its key has no definition, or one that is not revoked and allows the value.\<close>

definition complies :: "(string \<Rightarrow> string + 're) \<Rightarrow> ('re \<Rightarrow> string \<Rightarrow> bool) \<Rightarrow> DefinitionSet \<Rightarrow> string \<times> string \<Rightarrow> bool" where
  "complies Compile MatchString ds kv =
     (case ds (fst kv) of
        None \<Rightarrow> True
      | Some def \<Rightarrow>
          dStatus def \<noteq> StatusRevoked
          \<and> (dType def = TypeRestricted \<longrightarrow> snd kv \<in> set (dValues def))
          \<and> (dType def = TypeRegexp \<longrightarrow> (case Compile (dPattern def) of Inl _ \<Rightarrow> False | Inr re \<Rightarrow> MatchString re (snd kv))))"

text \<open>The definitions of a tenant in a snapshot: its own set, else the global one, else none.\<close>

definition governing :: "(string \<Rightarrow> DefinitionSet option) \<Rightarrow> string \<Rightarrow> DefinitionSet" where
  "governing m tenant =
     (case m tenant of Some ds \<Rightarrow> ds | None \<Rightarrow> (case m [] of Some ds \<Rightarrow> ds | None \<Rightarrow> \<lambda>_. None))"

lemma compile_memo_ok:
  assumes "memo_ok Compile rc"
  shows "fst (compile_memo Compile p rc) = Compile p \<and> memo_ok Compile (snd (compile_memo Compile p rc))"
  using assms by (auto simp: compile_memo_def memo_ok_def split: option.split)

lemma tags_loop_exact:
  "memo_ok Compile rc \<Longrightarrow>
     (fst (tags_loop Compile MatchString ds t rc) = None \<longleftrightarrow> list_all (complies Compile MatchString ds) t)
     \<and> memo_ok Compile (snd (tags_loop Compile MatchString ds t rc))"
proof (induction t arbitrary: rc)
  case (Cons kv t)
  obtain k val where kv: "kv = (k, val)" by fastforce
  show ?case
  proof (cases "ds k")
    case None
    then show ?thesis using Cons kv by (simp add: complies_def)
  next
    case (Some def)
    obtain c rc' where c: "compile_memo Compile (dPattern def) rc = (c, rc')" by fastforce
    then have cc: "Compile (dPattern def) = c" "memo_ok Compile rc'" using compile_memo_ok [OF Cons.prems, of "dPattern def"] by auto
    have comp: "complies Compile MatchString ds (k, val) \<longleftrightarrow> dStatus def \<noteq> StatusRevoked
        \<and> (dType def = TypeRestricted \<longrightarrow> val \<in> set (dValues def))
        \<and> (dType def = TypeRegexp \<longrightarrow> (case c of Inl _ \<Rightarrow> False | Inr re \<Rightarrow> MatchString re val))"
      using Some cc(1) by (cases c) (simp_all add: complies_def)
    have ne: "TypeRegexp \<noteq> TypeRestricted" by (simp add: tag_constants)
    show ?thesis unfolding kv list.pred_inject comp
      using Some c ne Cons.IH [OF Cons.prems] Cons.IH [OF cc(2)] Cons.prems cc(2) by (cases c) simp_all
  qed
qed simp

locale def_store =
  fixes get :: "'c \<Rightarrow> string \<Rightarrow> DefinitionSet option" and ready :: "'c \<Rightarrow> bool" and load :: "(string \<Rightarrow> DefinitionSet option) \<Rightarrow> 'c \<Rightarrow> 'c"
  assumes get_load: "get (load m c) = m" and ready_load: "ready (load m c)"
begin

lemma defs_load: "defsFor (get (load m c)) tenant = (case m tenant of Some ds \<Rightarrow> Some ds | None \<Rightarrow> m [])"
  by (auto simp: defsFor_def get_load split: option.split)

text \<open>Under a loaded snapshot a write is accepted when each of its tags complies, and what is accepted is read back whole.\<close>

lemma guard_loaded:
  assumes "memo_ok Compile rc"
  shows "fst (ValidateTags Compile MatchString (get (load m c)) (ready (load m c)) ctx t rc) = None
     \<longleftrightarrow> list_all (complies Compile MatchString (governing m (tenantFromContext ctx))) t"
proof (cases "defsFor (get (load m c)) (tenantFromContext ctx)")
  case None
  then have "governing m (tenantFromContext ctx) = (\<lambda>_. None)" by (auto simp: defs_load governing_def split: option.splits)
  then show ?thesis using None by (simp add: ValidateTags_def ready_load complies_def list_all_iff)
next
  case (Some ds)
  then have "governing m (tenantFromContext ctx) = ds" by (auto simp: defs_load governing_def split: option.splits)
  then show ?thesis using Some tags_loop_exact [OF assms, of MatchString ds t] by (simp add: ValidateTags_def ready_load)
qed

lemma filter_loaded:
  "FilterTags (get (load m c)) (ready (load m c)) ctx t
     = filter (\<lambda>kv. case governing m (tenantFromContext ctx) (fst kv) of None \<Rightarrow> True | Some def \<Rightarrow> dStatus def \<noteq> StatusRevoked) t"
proof (cases "defsFor (get (load m c)) (tenantFromContext ctx)")
  case None
  then have "governing m (tenantFromContext ctx) = (\<lambda>_. None)" by (auto simp: defs_load governing_def split: option.splits)
  then show ?thesis using None by (simp add: FilterTags_def ready_load)
next
  case (Some ds)
  then have "governing m (tenantFromContext ctx) = ds" by (auto simp: defs_load governing_def split: option.splits)
  then show ?thesis using Some by (simp add: FilterTags_def ready_load filter_tags case_prod_unfold)
qed

lemma accepted_visible:
  assumes "memo_ok Compile rc" "fst (ValidateTags Compile MatchString (get (load m c)) (ready (load m c)) ctx t rc) = None"
  shows "FilterTags (get (load m c)) (ready (load m c)) ctx t = t"
proof -
  have "list_all (complies Compile MatchString (governing m (tenantFromContext ctx))) t" using guard_loaded assms by blast
  then show ?thesis unfolding filter_loaded by (intro filter_True) (auto simp: list_all_iff complies_def split: option.split)
qed

end

interpretation rules_cache: def_store "\<lambda>c tenant. cache_Get tenant c" cache_Check "\<lambda>m c. cache_load (m, rv) c" for rv
  by unfold_locales (simp_all add: cache_Get_def cache_load_def cache_Check_def)

text \<open>C28: 
  Under the rules cache with a loaded snapshot, a write is accepted exactly when every one of its tags complies with the
  definitions of the caller's tenant, whatever patterns were compiled before, and the tags of an accepted write are all read.
\<close>

theorem tag_guard_exact:
  assumes "memo_ok Compile rc"
  shows "let c = cache_load (m, rv) c0; r = ValidateTags Compile MatchString (\<lambda>tenant. cache_Get tenant c) (cache_Check c) ctx t rc
         in (fst r = None \<longleftrightarrow> list_all (complies Compile MatchString (governing m (tenantFromContext ctx))) t)
            \<and> (fst r = None \<longrightarrow> FilterTags (\<lambda>tenant. cache_Get tenant c) (cache_Check c) ctx t = t)"
  unfolding Let_def
  using rules_cache.guard_loaded [OF assms] rules_cache.accepted_visible [OF assms] by blast

definition exDef :: Definition where
  "exDef = \<lparr>dKey = ''env'', dType = ''restricted'', dValues = [''prod'', ''dev''], dPattern = [], dPatternDescription = [], dStatus = []\<rparr>"

definition exTagCtx :: "nat gctx" where
  "exTagCtx = \<lparr>incomingMD = None,
     principalVal = Some \<lparr>Subject = ''u'', pTenant = ''t1'', Groups = [], Scopes = [], Claims = Map.empty\<rparr>, resourceVal = None, obligationsVal = None\<rparr>"

theorem tag_guard_exact_witness:
  "let c = cache_load ([[] \<mapsto> [''env'' \<mapsto> exDef]], 1) NewCache;
       run = (\<lambda>t. fst (ValidateTags Inr (=) (\<lambda>tenant. cache_Get tenant c) (cache_Check c) exTagCtx t Map.empty))
   in run [(''env'', ''prod''), (''team'', ''x'')] = None \<and> run [(''env'', ''staging'')] \<noteq> None"
proof -
  have m: "memo_ok Inr (Map.empty :: string memo)" by (simp add: memo_ok_def)
  have t: "tenantFromContext exTagCtx = ''t1''" by code_simp
  have "list_all (complies Inr (=) (governing [[] \<mapsto> [''env'' \<mapsto> exDef]] ''t1'')) [(''env'', ''prod''), (''team'', ''x'')]"
    "\<not> list_all (complies Inr (=) (governing [[] \<mapsto> [''env'' \<mapsto> exDef]] ''t1'')) [(''env'', ''staging'')]"
    by (simp_all add: complies_def governing_def exDef_def tag_constants)
  then show ?thesis
    using tag_guard_exact [OF m, of "[[] \<mapsto> [''env'' \<mapsto> exDef]]" 1 NewCache "(=)" exTagCtx] unfolding Let_def t by blast
qed

text \<open>Without a snapshot a write with tags is refused and a read is unfiltered.\<close>

lemma tags_unready:
  "t \<noteq> [] \<Longrightarrow> fst (ValidateTags Compile MatchString get False ctx t rc) = Some ErrDefinitionsUnavailable"
  "FilterTags get False ctx t = t"
  by (simp_all add: ValidateTags_def FilterTags_def)

text \<open>A type that is none of the three constrains no value, as an unset type does.\<close>

lemma unknown_type_is_freeform:
  "complies Compile MatchString [k \<mapsto> exDef\<lparr>dKey := k, dType := ''Restricted''\<rparr>] (k, v)"
  by (simp add: complies_def exDef_def tag_constants)

end
