(* ===== verification/Spec2Isabelle.thy ===== *)
theory Spec2Isabelle
  imports Cells_Campaign Cells_Router Events_Consumer Events_Replay Filter_Print Idempotency Featureflags Quota LRO Persist_Upsert Gorm_Outbox Gorm_Leader Compose_Bus Rate_Limit Authn_Exchange Cel_Render Federation Secret Ent_Dedup Resource_Names Tagging
begin

text \<open>
  A verification library for the Go SDK under \<^verbatim>\<open>src/\<close>: the parts that carry its guarantees, translated function by function
  into definitions that compute, with the theorems that make them correct. Names follow the sources; a prefix or suffix is
  added where a name is taken by the library or by another package.

  \<^bold>\<open>The system.\<close> A service built with the SDK stores resources through repositories, tells other services about changes
  through a transactional outbox, a relay and a bus, guards its calls with authorization, idempotency and quota
  interceptors, and can run in several cells between which tenants are moved while they are served. A request passes the
  routing middleware of the cell (admission token), the tenant, authorization, quota and idempotency interceptors, and
  reaches a repository, whose change feed appends to the outbox in the transaction of the write; the relay publishes the
  outbox to the bus, and consumers apply each event once. Rules and feature flags reach a service over watched sources.

  \<^bold>\<open>Conventions\<close> (\<open>Prelude\<close>). \<^verbatim>\<open>uint64\<close> counters are 64-bit words; times and durations are integers in nanoseconds, with
  \<open>wrap64\<close> where the code adds durations or \<^verbatim>\<open>int64\<close> amounts. An error is the left component of a sum or an option;
  a panic, a call that blocks for good and a nil handler are values of their own. A mutex makes the code between lock and
  unlock one step; code that drops its lock in between is split into the steps an interleaving can see. Retry loops carry
  fuel, and the theorems about them give a bound that suffices. Effects are explicit: a record of the state or, where several
  stores take part, a world. Third-party encoders, clocks, UUIDs, databases and file systems are arguments; a hypothesis
  about them states documented behaviour and every theorem with hypotheses has a witness that meets them.

  \<^bold>\<open>Cells\<close> (\<^verbatim>\<open>src/cells/\<close>).
  \<^item> \<open>Cells_Table\<close>: the routing table (\<^verbatim>\<open>route.go\<close>, \<^verbatim>\<open>memtable.go\<close>, \<^verbatim>\<open>filetable.go\<close>). Route epochs never decrease, a
    compare-and-set is not lost, the file backend refines the in-memory one over a file system that may fail, and the watch
    loop replays the table. The locale \<open>routing_table\<close> is the contract the controller relies on.
  \<^item> \<open>Cells_Gate\<close>: admission gates and their controller (\<^verbatim>\<open>gate.go\<close>, \<^verbatim>\<open>controller.go\<close>): a token is issued only at the
    current epoch of an open gate, a barrier holds, and the drain ends when the traffic before the cut-off does (the wait is
    one iteration per tick up to the drain deadline).
  \<^item> \<open>Cells_Plane\<close>: storage fence, event barrier, budget and placement (\<^verbatim>\<open>plane.go\<close>, \<^verbatim>\<open>budget.go\<close>, \<^verbatim>\<open>placement.go\<close>,
    \<^verbatim>\<open>persistence/gormtx/fence.go\<close>, \<^verbatim>\<open>eventbarrier.go\<close>): a write of a former owner is refused in both fences.
  \<^item> \<open>Cells_Move\<close>, \<open>Cells_Protocol\<close>, \<open>Cells_Handover\<close>, \<open>Cells_History\<close>, \<open>Cells_World\<close>, \<open>Cells_Campaign\<close>: the move controller
    and campaigns (\<^verbatim>\<open>move.go\<close>, \<^verbatim>\<open>campaign.go\<close>) over a record of the operations it calls. The locale \<open>move_env\<close> is the contract
    of the environment and \<open>move_planes\<close> extends it with fence and barrier; \<open>Cells_World\<close> interprets both on the
    in-memory deployment, where an undisturbed controller needs fuel \<open>Suc n\<close> only, as no compare-and-set of its own fails.
    Moves end in success, rollback or a reported error, hand over every plane, and resume after a crash; along every
    interleaving of controllers no two cells serve one epoch of a tenant.
  \<^item> \<open>Cells_Router\<close>: the cache and the gRPC and HTTP middleware (\<^verbatim>\<open>router.go\<close>, \<^verbatim>\<open>middleware.go\<close>).

  \<^bold>\<open>Persistence\<close> (\<^verbatim>\<open>src/persistence/\<close>).
  \<^item> \<open>Base64\<close>, \<open>Persist_Memory\<close>: page tokens and the in-memory repository: pages are complete, a stale ETag changes nothing.
    Sizes are such that the 63-bit sums of the code do not wrap; \<open>list_token_panics\<close> shows what happens otherwise.
  \<^item> \<open>Persist_Tx\<close>: the transaction runner over locks, snapshots and nested calls, and the tenant on the context
    (\<^verbatim>\<open>memory_tx.go\<close>, \<^verbatim>\<open>middleware/tenantid.go\<close>).
  \<^item> \<open>Persist_Outbox\<close>: the outbox and the cursor sidecar (\<^verbatim>\<open>memory_outbox.go\<close>).
  \<^item> \<open>Persist_Upsert\<close>, \<open>Toposort\<close>: upserts by natural key, batches, the import order and aggregates (\<^verbatim>\<open>upsert.go\<close>,
    \<^verbatim>\<open>memory_aggregate.go\<close>). Kahn's loop runs with as much fuel as there are items, which is shown to suffice.
  \<^item> \<open>Filter_Parse\<close>, \<open>Filter_Print\<close>: list filters (\<^verbatim>\<open>filter/filter.go\<close>): the parser's fuel is the number of tokens and one;
    rendered SQL has only white-listed columns and placeholders, and printing then parsing is the identity.
  \<^item> \<open>Idempotency\<close>: durable request idempotency (\<^verbatim>\<open>middleware/idempotency.go\<close>, \<^verbatim>\<open>dedup.go\<close>, \<^verbatim>\<open>gormtx/dedupstore.go\<close>,
    \<^verbatim>\<open>gormtx/tx.go\<close>) over a database that may fail at every statement. \<open>Ent_Dedup\<close>: the store over a generated client
    (\<^verbatim>\<open>entrepo/dedupstore.go\<close>) behind the contract \<open>ent_table\<close> of its closures; its collection needs as many chunks as rows.

  \<^bold>\<open>Events\<close> (\<^verbatim>\<open>src/events/\<close>).
  \<^item> \<open>Events_Relay\<close>: publisher, leader and relay. \<open>relay_stores\<close> and \<open>quiet_stores\<close> are the contracts of its stores; \<open>maxAttempts\<close>
    pumps per row are enough to drain the outbox.
  \<^item> \<open>Events_Consumer\<close>: consumer, idempotency store and synchronous bus; every handler takes effect once per event.
  \<^item> \<open>Events_Membus\<close>: the in-process bus as concurrent steps.
  \<^item> \<open>Events_Change\<close>, \<open>Events_Replay\<close>: the change feed, its projections and the replay. The locale \<open>change_sink\<close> is what the feed
    needs of a publisher; it is interpreted on the outbox publisher.

  \<^bold>\<open>Policies\<close>.
  \<^item> \<open>Authz\<close> (\<^verbatim>\<open>src/authz/\<close>, \<^verbatim>\<open>src/server/*_gate.go\<close>): decisions, entitlements, the fail-closed interceptor, the boot gates, the
    development service and the catalog.
  \<^item> \<open>Rules\<close>, \<open>Featureflags\<close> (\<^verbatim>\<open>src/rules/\<close>, \<^verbatim>\<open>src/featureflags/\<close>): sources, cache and evaluator. Convergence is for runs in which
    no change meets a full watcher buffer of 64 events and the revision does not wrap.
  \<^item> \<open>Quota\<close> (\<^verbatim>\<open>src/quota/\<close>): amounts and limits below 2^62; \<open>quota_overflow_admits\<close> shows why a bound is needed.
  \<^item> \<open>LRO\<close> (\<^verbatim>\<open>src/lro/\<close>): long-running operations.

  \<^bold>\<open>The database adapters\<close> (\<^verbatim>\<open>src/persistence/gormtx/\<close>).
  \<^item> \<open>Gorm_Outbox\<close>: the outbox and cursor tables (\<^verbatim>\<open>outbox.go\<close>) as concurrent transactions over a row store. The numbers of a
    tenant are gap-free in commit order below 2^63 rows, and the stores behave as the in-memory ones, so that the relay's
    theorems hold over them: the interpretation \<open>gorm\<close> of \<open>quiet_stores\<close>.
  \<^item> \<open>Gorm_Leader\<close>: leader election by advisory locks (\<^verbatim>\<open>leader.go\<close>). The two lock functions of the server are parameters
    with the laws \<open>advisory_laws\<close>; a table of locks meets them.

  \<^bold>\<open>Composed hosts\<close> (\<^verbatim>\<open>src/servicekit/\<close>, \<^verbatim>\<open>src/persistence/namespace.go\<close>).
  \<^item> \<open>Persist_Names\<close>: the namespaces of the modules of one host: table names, connection strings, configuration prefixes and
    metric names, with the bytes of identifiers decoded as the language decodes them.
  \<^item> \<open>Compose_Modules\<close> (\<^verbatim>\<open>validate.go\<close>): a composition is accepted exactly when its modules do not collide.
  \<^item> \<open>Compose_Host\<close> (\<^verbatim>\<open>bulkhead.go\<close>, \<^verbatim>\<open>events_registry.go\<close>, \<^verbatim>\<open>health/check.go\<close>): failure policies, supervisor, registrations.
  \<^item> \<open>Compose_Idem\<close> (\<^verbatim>\<open>idempotency.go\<close>): the in-process idempotency store behaves as the table of \<open>Idempotency\<close>, and the holder
    routes every method to the store of its module.
  \<^item> \<open>Compose_Run\<close> (\<^verbatim>\<open>run.go\<close>): the lifecycle of the host as a trace of what it starts.
  \<^item> \<open>Compose_Bus\<close>: the delivery loops that a host starts over the bus of \<open>Events_Membus\<close>.

  \<^bold>\<open>The server\<close> (\<^verbatim>\<open>src/server/\<close>, \<^verbatim>\<open>src/middleware/\<close>, \<^verbatim>\<open>src/resilience/\<close>, \<^verbatim>\<open>src/internal/aip/\<close>).
  \<^item> \<open>Aip\<close>: field behaviors, method classes and the search surface of a message, over descriptors.
  \<^item> \<open>Wire_Redact\<close>: read masks and redaction of messages (\<^verbatim>\<open>fieldmask.go\<close>, \<^verbatim>\<open>redact.go\<close>), exact on \<open>regular\<close> messages;
    \<open>redaction_gaps\<close> shows what the others lose.
  \<^item> \<open>Server_Unary\<close>: the unary interceptors as wrappers of handlers; \<open>errors_mapped\<close> is the error contract of clients.
  \<^item> \<open>Rate_Limit\<close>: the token bucket, over rationals where the code computes with floats.
  \<^item> \<open>Server_Boot\<close> (\<^verbatim>\<open>server.go\<close>): the chain that \<^verbatim>\<open>New\<close> builds, the records of registration, and \<^verbatim>\<open>Serve\<close> as a trace of events.

  \<^bold>\<open>Authentication\<close> (\<^verbatim>\<open>src/authn/\<close>).
  \<^item> \<open>Authn\<close>: the interceptor before authorization, authored claims, and outgoing tokens.
  \<^item> \<open>Authn_Oidc\<close>: minting and verification. The JOSE library is a parameter with the laws \<open>jose_laws\<close>: what verifies under a key
    was signed with it, what was signed verifies, and validation checks issuer, audience and times.
  \<^item> \<open>Authn_Exchange\<close>: the token exchange as concurrent steps around its mutex, with the history of issued tokens.

  \<^bold>\<open>Search expressions\<close> (\<^verbatim>\<open>src/cmd/internal/celsql/\<close>).
  \<^item> \<open>Cel_Sql\<close>: the compiler from checked CEL expressions to SQL nodes, with a meaning of both sides and a simulation by
    induction on the expression. The parser and checker of CEL are a parameter: a tree and the type of each node.
  \<^item> \<open>Cel_Render\<close>: the SQL text of both dialects and a reader of SQL tokens, by which no constant leaves its quotes;
    \<open>celsql_gaps\<close> shows where the meaning differs outside the class of the equivalence.

  \<^bold>\<open>Federation\<close> (\<^verbatim>\<open>src/reference/\<close>, \<^verbatim>\<open>src/federationgql/\<close>).
  \<^item> \<open>Federation\<close>: batch loads of references, masks from selections with fuel for fragment spreads (the rank of the fragments is
    enough), the cache of a request, preloads, edges and the checks of a schema; \<open>mask_loses_edges\<close> shows the limits of masks.

  \<^bold>\<open>Secrets\<close> (\<^verbatim>\<open>src/secret/\<close>).
  \<^item> \<open>Secret\<close>: minting, parsing and verification of credentials over a source of random bytes, and the two encryptors.

  \<^bold>\<open>Names and tags\<close> (\<^verbatim>\<open>src/persistence/resourcename/\<close>, \<^verbatim>\<open>src/persistence/id.go\<close>, \<^verbatim>\<open>src/types/\<close>, \<^verbatim>\<open>src/tagging/\<close>).
  \<^item> \<open>Text\<close>, \<open>Json_Text\<close>: splitting and joining of text, and objects of strings as the JSON package writes and reads them.
  \<^item> \<open>Resource_Names\<close>: names by pattern, inverse to formatting (\<open>resource_name_roundtrip\<close>), and the generators of ids.
  \<^item> \<open>Tagging\<close>: tags, their form in a column (\<open>tags_roundtrip\<close>) and the guard over the definitions of a tenant; the contract of its
    store is the locale \<open>def_store\<close>, which the cache of \<open>Rules\<close> meets.

  \<^bold>\<open>Not modelled.\<close> The code generators and the command line under \<^verbatim>\<open>src/cmd/\<close> (they print source text), apart from the expression compiler; generated protobuf
  code, examples and test kits, the Kafka bus, OpenTelemetry, the OIDC relying party (calls into third-party clients),
  and the partition, performance and migration code of the databases (SQL text for a server that is not under \<^verbatim>\<open>src/\<close>). Of the
  parts that are modelled, listeners, third-party servers and reflection are events or parameters. The manifest lists each
  part with its reason.
\<close>

end
